(* ===== verification/Prelude.thy ===== *)
theory Prelude
  imports Main "HOL-Library.Word"
begin

text \<open>
  Shared vocabulary of the development: the C integer types of the eMote code base as
  words of their width, the status enumerations of
  \<^verbatim>\<open>DeviceCode/include/Samraksh/Hal_util.h\<close>, the lemma collections of the development
  and the generic facts on scans, list updates and wrapping counters that several
  components use.
\<close>

unbundle bit_operations_syntax

section \<open>C integer types\<close>

type_synonym u8 = "8 word"
type_synonym u16 = "16 word"
type_synonym u32 = "32 word"
type_synonym u64 = "64 word"

text \<open>
  \<open>BOOL\<close> is an \<open>int\<close> in C. Where the code only tests it, it is modelled as
  \<^typ>\<open>bool\<close>; where it is compared with another integer, \<open>BOOL_int\<close> gives its value.
\<close>

definition BOOL_int :: "bool \<Rightarrow> int" where
  "BOOL_int b = (if b then 1 else 0)"

section \<open>Status codes (Hal\_util.h)\<close>

datatype DeviceStatus =
  DS_Success | DS_Fail | DS_Ready | DS_Busy | DS_Timeout | DS_Bug

datatype NetOpStatus =
    NetworkOperations_Success
  | NetworkOperations_Fail
  | NetworkOperations_Busy
  | NetworkOperations_Full
  | NetworkOperations_Ready
  | NetworkOperations_BadPacket
  | NetworkOperations_Collision
  | NetworkOperations_SendInitiated
  | NetworkOperations_SendACKed
  | NetworkOperations_SendNACKed
  | NetworkOperations_SendFailed

section \<open>Lemma collections\<close>

named_theorems inv_intros \<open>an operation keeps its component's invariant\<close>
named_theorems frame_simps \<open>fields an operation does not write\<close>

section \<open>Scans: the first index that satisfies a test\<close>

text \<open>
  The loop \<open>for(i = 0; i < n; i++) if(P i) return i;\<close> is \<open>find P [0..<n]\<close>.
\<close>

lemma find_upt_Some:
  "find P [0..<n] = Some i \<longleftrightarrow> i < n \<and> P i \<and> (\<forall>j<i. \<not> P j)"
  by (auto simp: find_Some_iff)

lemma find_upt_None: "find P [0..<n] = None \<longleftrightarrow> (\<forall>i<n. \<not> P i)"
  by (auto simp: find_None_iff)

lemma find_SomeD: "find P xs = Some x \<Longrightarrow> x \<in> set xs \<and> P x"
  by (metis find_Some_iff nth_mem)

lemma find_upt_unique:
  assumes "i < n" and "P i" and "\<And>j. j < n \<Longrightarrow> P j \<Longrightarrow> j = i"
  shows "find P [0..<n] = Some i"
proof -
  have "\<not> P j" if "j < i" for j
    using assms(3)[of j] that assms(1) by auto
  with assms(1,2) show ?thesis by (simp add: find_upt_Some)
qed

section \<open>Counting entries of an array\<close>

definition count_if :: "('a \<Rightarrow> bool) \<Rightarrow> 'a list \<Rightarrow> nat" where
  "count_if P xs = length (filter P xs)"

lemma count_if_Nil [simp]: "count_if P [] = 0"
  by (simp add: count_if_def)

lemma count_if_Cons [simp]:
  "count_if P (x # xs) = (if P x then Suc (count_if P xs) else count_if P xs)"
  by (simp add: count_if_def)

lemma count_if_le: "count_if P xs \<le> length xs"
  by (simp add: count_if_def)

lemma count_if_pos: "i < length xs \<Longrightarrow> P (xs ! i) \<Longrightarrow> 0 < count_if P xs"
  unfolding count_if_def by (rule length_pos_if_in_set[of "xs ! i"]) simp

lemma count_if_update:
  "i < length xs \<Longrightarrow>
   count_if P (xs[i := v]) + (if P (xs ! i) then 1 else 0) = count_if P xs + (if P v then 1 else 0)"
proof (induction xs arbitrary: i)
  case Nil
  then show ?case by simp
next
  case (Cons x xs)
  show ?case
  proof (cases i)
    case 0
    then show ?thesis by simp
  next
    case (Suc k)
    with Cons.prems have "k < length xs" by simp
    from Cons.IH[OF this] Suc show ?thesis by (simp split: if_splits)
  qed
qed

lemma count_if_full: "count_if P xs = length xs \<longleftrightarrow> (\<forall>x\<in>set xs. P x)"
proof (induction xs)
  case (Cons x xs)
  then show ?case using count_if_le[of P xs] by auto
qed simp

lemma count_if_lt: "count_if P xs < length xs \<longleftrightarrow> (\<exists>i<length xs. \<not> P (xs ! i))"
  using count_if_full[of P xs] count_if_le[of P xs]
  by (metis in_set_conv_nth le_neq_implies_less nat_less_le)

lemma count_if_zero: "count_if P xs = 0 \<longleftrightarrow> (\<forall>i<length xs. \<not> P (xs ! i))"
  by (auto simp: count_if_def filter_empty_conv all_set_conv_all_nth)

lemma count_if_card: "count_if P xs = card {i. i < length xs \<and> P (xs ! i)}"
  by (simp add: count_if_def length_filter_conv_card)

lemma count_if_mono: "(\<And>x. x \<in> set xs \<Longrightarrow> P x \<Longrightarrow> Q x) \<Longrightarrow> count_if P xs \<le> count_if Q xs"
  unfolding count_if_card by (rule card_mono) auto

text \<open>At most one entry passes the first test and not the second.\<close>

lemma count_if_mono_one:
  assumes "\<And>i j. i < length xs \<Longrightarrow> j < length xs \<Longrightarrow> P (xs ! i) \<Longrightarrow> \<not> Q (xs ! i) \<Longrightarrow> P (xs ! j)
    \<Longrightarrow> \<not> Q (xs ! j) \<Longrightarrow> i = j"
  shows "count_if P xs \<le> count_if Q xs + 1"
proof (cases "\<exists>k<length xs. P (xs ! k) \<and> \<not> Q (xs ! k)")
  case True
  then obtain k where k: "k < length xs" "P (xs ! k)" "\<not> Q (xs ! k)" by blast
  have "{i. i < length xs \<and> P (xs ! i)} \<subseteq> insert k {i. i < length xs \<and> Q (xs ! i)}"
    using assms[OF _ k(1) _ _ k(2,3)] by blast
  then have "card {i. i < length xs \<and> P (xs ! i)} \<le> card (insert k {i. i < length xs \<and> Q (xs ! i)})"
    by (intro card_mono) simp_all
  also have "\<dots> \<le> Suc (card {i. i < length xs \<and> Q (xs ! i)})" by (simp add: card_insert_if)
  finally show ?thesis by (simp add: count_if_card)
next
  case False
  then have "count_if P xs \<le> count_if Q xs"
    by (intro count_if_mono) (auto simp: in_set_conv_nth)
  then show ?thesis by simp
qed

text \<open>One entry passes the second test and not the first.\<close>

lemma count_if_strict:
  assumes "\<And>x. x \<in> set xs \<Longrightarrow> P x \<Longrightarrow> Q x" and "k < length xs" "\<not> P (xs ! k)" "Q (xs ! k)"
  shows "count_if P xs < count_if Q xs"
  unfolding count_if_card using assms by (intro psubset_card_mono) auto

section \<open>Wrapping counters\<close>

text \<open>
  \<open>x += 1; if(x >= n) x = 0;\<close> on an unsigned counter of any width.
\<close>

definition wrap_inc :: "'w::len word \<Rightarrow> 'w word \<Rightarrow> 'w word" where
  "wrap_inc n x = (if n \<le> x + 1 then 0 else x + 1)"

lemma unat_bound: "unat (w::'w::len word) < 2 ^ LENGTH('w)"
  by (fact unsigned_less)

lemma unat_u8: "unat (w::u8) < 256"
  using unat_bound[of w] by (simp del: unsigned_less)

lemma unat_u16: "unat (w::u16) < 65536"
  using unat_bound[of w] by (simp del: unsigned_less)

lemma unat_plus_one:
  assumes "x < (n::'w::len word)"
  shows "unat (x + 1) = unat x + 1"
proof -
  have "unat x < unat n" using assms by (simp add: word_less_nat_alt)
  with unat_bound[of n] have "unat x + 1 < 2 ^ LENGTH('w)" by linarith
  then show ?thesis by (simp add: unat_word_ariths)
qed

lemma unat_wrap_inc:
  assumes "x < n"
  shows "unat (wrap_inc n x) = (unat x + 1) mod unat n"
proof (cases "n \<le> x + 1")
  case True
  from True assms have "unat n = unat x + 1"
    using unat_plus_one[OF assms] by (simp add: word_le_nat_alt word_less_nat_alt)
  with True show ?thesis by (simp add: wrap_inc_def)
next
  case False
  then have "unat x + 1 < unat n"
    using unat_plus_one[OF assms] by (simp add: word_le_nat_alt not_le)
  with False show ?thesis
    using unat_plus_one[OF assms] by (simp add: wrap_inc_def)
qed

lemma wrap_inc_less: "x < n \<Longrightarrow> wrap_inc n x < n"
  by (auto simp: wrap_inc_def not_le) (metis word_gt_0 word_not_simps(1))

lemma unat_minus_one_pos: "(x::'w::len word) \<noteq> 0 \<Longrightarrow> unat (x - 1) = unat x - 1"
  by (simp add: unat_minus_one)

lemma unat_pos_iff: "0 < unat (x::'w::len word) \<longleftrightarrow> x \<noteq> 0"
  by (simp add: unat_gt_0)

section \<open>Words as bytes\<close>

text \<open>Bytes of a word, the lowest first, and the word of a list of bytes.\<close>

definition get_byte :: "nat \<Rightarrow> 'w::len word \<Rightarrow> u8" where
  "get_byte k w = ucast (drop_bit (8 * k) w)"

definition word_bytes :: "nat \<Rightarrow> 'w::len word \<Rightarrow> u8 list" where
  "word_bytes n w = map (\<lambda>k. get_byte k w) [0..<n]"

definition bytes_word :: "u8 list \<Rightarrow> 'w::len word" where
  "bytes_word bs = foldr (\<lambda>b w. push_bit 8 w OR ucast b) bs 0"

lemma length_word_bytes [simp]: "length (word_bytes n w) = n"
  by (simp add: word_bytes_def)

lemma foldr_bytes_bit:
  "bit (foldr (\<lambda>b w. push_bit 8 w OR ucast b) (bs :: u8 list) 0 :: 'w::len word) n
    \<longleftrightarrow> n < LENGTH('w) \<and> n div 8 < length bs \<and> bit (bs ! (n div 8)) (n mod 8)"
proof (induction bs arbitrary: n)
  case (Cons b bs)
  show ?case
  proof (cases "n < 8")
    case True
    then show ?thesis by (auto simp: bit_simps)
  next
    case False
    then have "n div 8 = Suc ((n - 8) div 8)" "(n - 8) mod 8 = n mod 8"
      by (simp_all add: le_div_geq le_mod_geq)
    moreover have "\<not> bit b n" using False by (auto dest: bit_imp_le_length)
    ultimately show ?thesis
      using False Cons.IH[of "n - 8"] by (auto simp: bit_simps)
  qed
qed simp

lemma bytes_word_word_bytes:
  assumes "LENGTH('w) = 8 * n"
  shows "bytes_word (word_bytes n w) = (w :: 'w::len word)"
proof (rule bit_word_eqI)
  fix k assume "k < LENGTH('w)"
  with assms have "k div 8 < n" by simp
  moreover have "8 * (k div 8) + k mod 8 = k" by simp
  ultimately show "bit (bytes_word (word_bytes n w) :: 'w word) k = bit w k"
    using \<open>k < LENGTH('w)\<close>
    by (simp add: bytes_word_def foldr_bytes_bit word_bytes_def get_byte_def bit_simps)
qed

lemma word_bytes_bytes_word:
  assumes "LENGTH('w) = 8 * n" and "length bs = n"
  shows "word_bytes n (bytes_word bs :: 'w::len word) = bs"
proof (rule nth_equalityI)
  show "length (word_bytes n (bytes_word bs :: 'w word)) = length bs" using assms by simp
next
  fix i assume "i < length (word_bytes n (bytes_word bs :: 'w word))"
  then have i: "i < n" by simp
  have "get_byte i (bytes_word bs :: 'w word) = bs ! i"
  proof (rule bit_word_eqI)
    fix k assume "k < LENGTH(8)"
    then have "k < 8" by simp
    then have "(8 * i + k) div 8 = i" "(8 * i + k) mod 8 = k" "8 * i + k < 8 * n" using i by simp_all
    then show "bit (get_byte i (bytes_word bs :: 'w word)) k = bit (bs ! i) k"
      using i assms \<open>k < 8\<close> by (simp add: get_byte_def bytes_word_def foldr_bytes_bit bit_simps)
  qed
  with i show "word_bytes n (bytes_word bs :: 'w word) ! i = bs ! i" by (simp add: word_bytes_def)
qed

lemma word_bytes_2: "word_bytes 2 w = [get_byte 0 w, get_byte 1 w]"
  by (simp add: word_bytes_def upt_rec)

end
