(* ===== verification/Fifo_Interface.thy ===== *)
theory Fifo_Interface
  imports Prelude
begin

text \<open>
  The contract that the message queues of the code share: a bounded first-in first-out
  queue. Its clients (the MAC layers, the USART and socket drivers) only push, pop and count.
  The contract is stated once, as a locale over the provider's own operations, with its
  consequences for whole runs of commands; the providers interpret it on their models.
\<close>

section \<open>Runs of queue commands and their specification\<close>

datatype 'a fifo_cmd = Push 'a | Pop

datatype 'a fifo_out = Pushed bool | Popped "'a option"

fun fifo_run ::
  "('a \<Rightarrow> 's \<Rightarrow> bool \<times> 's) \<Rightarrow> ('s \<Rightarrow> 'a option \<times> 's) \<Rightarrow> 'a fifo_cmd list \<Rightarrow> 's \<Rightarrow> 'a fifo_out list \<times> 's"
where
  "fifo_run push pop [] s = ([], s)"
| "fifo_run push pop (Push x # cs) s =
     (case push x s of (r, s') \<Rightarrow>
        case fifo_run push pop cs s' of (outs, s'') \<Rightarrow> (Pushed r # outs, s''))"
| "fifo_run push pop (Pop # cs) s =
     (case pop s of (r, s') \<Rightarrow>
        case fifo_run push pop cs s' of (outs, s'') \<Rightarrow> (Popped r # outs, s''))"

text \<open>The specification: a list that refuses a push when it holds \<open>cap\<close> elements.\<close>

fun fifo_spec :: "nat \<Rightarrow> 'a fifo_cmd list \<Rightarrow> 'a list \<Rightarrow> 'a fifo_out list \<times> 'a list" where
  "fifo_spec cap [] q = ([], q)"
| "fifo_spec cap (Push x # cs) q =
     (if length q < cap
      then (case fifo_spec cap cs (q @ [x]) of (outs, q') \<Rightarrow> (Pushed True # outs, q'))
      else (case fifo_spec cap cs q of (outs, q') \<Rightarrow> (Pushed False # outs, q')))"
| "fifo_spec cap (Pop # cs) q =
     (case q of
        [] \<Rightarrow> (case fifo_spec cap cs [] of (outs, q') \<Rightarrow> (Popped None # outs, q'))
      | x # xs \<Rightarrow> (case fifo_spec cap cs xs of (outs, q') \<Rightarrow> (Popped (Some x) # outs, q')))"

text \<open>What a run took in, and what it gave out, in order.\<close>

fun fifo_taken :: "'a fifo_cmd list \<Rightarrow> 'a fifo_out list \<Rightarrow> 'a list" where
  "fifo_taken (Push x # cs) (Pushed True # outs) = x # fifo_taken cs outs"
| "fifo_taken (c # cs) (ou # outs) = fifo_taken cs outs"
| "fifo_taken cs outs = []"

fun fifo_given :: "'a fifo_out list \<Rightarrow> 'a list" where
  "fifo_given (Popped (Some x) # outs) = x # fifo_given outs"
| "fifo_given (ou # outs) = fifo_given outs"
| "fifo_given [] = []"

text \<open>The specification is a FIFO: nothing is lost, duplicated or reordered.\<close>

lemma fifo_spec_order:
  "fifo_spec cap cs q = (outs, q') \<Longrightarrow> q @ fifo_taken cs outs = fifo_given outs @ q'"
  by (induction cap cs q arbitrary: outs q' rule: fifo_spec.induct)
    (auto split: if_splits prod.splits list.splits)

lemma fifo_spec_bound:
  "fifo_spec cap cs q = (outs, q') \<Longrightarrow> length q \<le> cap \<Longrightarrow> length q' \<le> cap"
  by (induction cap cs q arbitrary: outs q' rule: fifo_spec.induct)
    (auto split: if_splits prod.splits list.splits)

section \<open>The contract\<close>

locale bounded_fifo =
  fixes invar :: "'s \<Rightarrow> bool"
    and contents :: "'s \<Rightarrow> 'a list"
    and cap :: nat
    and push :: "'a \<Rightarrow> 's \<Rightarrow> bool \<times> 's"
    and pop :: "'s \<Rightarrow> 'a option \<times> 's"
  assumes contents_bound: "invar s \<Longrightarrow> length (contents s) \<le> cap"
    and push_room: "invar s \<Longrightarrow> length (contents s) < cap \<Longrightarrow>
      \<exists>s'. push x s = (True, s') \<and> invar s' \<and> contents s' = contents s @ [x]"
    and push_full: "invar s \<Longrightarrow> length (contents s) = cap \<Longrightarrow> push x s = (False, s)"
    and pop_some: "invar s \<Longrightarrow> contents s = x # xs \<Longrightarrow>
      \<exists>s'. pop s = (Some x, s') \<and> invar s' \<and> contents s' = xs"
    and pop_none: "invar s \<Longrightarrow> contents s = [] \<Longrightarrow> pop s = (None, s)"
begin

lemma push_cases:
  assumes "invar s"
  obtains (room) s' where "length (contents s) < cap" "push x s = (True, s')" "invar s'"
      "contents s' = contents s @ [x]"
    | (full) "length (contents s) = cap" "push x s = (False, s)"
proof (cases "length (contents s) < cap")
  case True
  with push_room[OF assms True, of x] that(1) show ?thesis by blast
next
  case False
  with contents_bound[OF assms] have "length (contents s) = cap" by simp
  with push_full[OF assms] that(2) show ?thesis by blast
qed

lemma run_refines_spec:
  assumes "invar s" and "fifo_run push pop cs s = (outs, s')"
  shows "fifo_spec cap cs (contents s) = (outs, contents s') \<and> invar s'"
  using assms
proof (induction cs arbitrary: s outs)
  case Nil
  then show ?case by simp
next
  case (Cons c cs)
  show ?case
  proof (cases c)
    case (Push x)
    show ?thesis
    proof (rule push_cases[OF Cons.prems(1), of x])
      fix s1 assume "length (contents s) < cap" "push x s = (True, s1)" "invar s1"
        "contents s1 = contents s @ [x]"
      with Cons Push show ?thesis by (fastforce split: prod.splits)
    next
      assume "length (contents s) = cap" "push x s = (False, s)"
      with Cons Push show ?thesis by (fastforce split: prod.splits)
    qed
  next
    case Pop
    show ?thesis
    proof (cases "contents s")
      case Nil
      with pop_none[OF Cons.prems(1)] Cons Pop show ?thesis
        by (fastforce split: prod.splits)
    next
      case (Cons x xs)
      from pop_some[OF Cons.prems(1) Cons] obtain s1 where
        "pop s = (Some x, s1)" "invar s1" "contents s1 = xs" by blast
      with Cons.IH[of s1] Cons.prems Pop Cons show ?thesis
        by (fastforce split: prod.splits)
    qed
  qed
qed

lemma run_fifo_order:
  assumes "invar s" and "fifo_run push pop cs s = (outs, s')"
  shows "contents s @ fifo_taken cs outs = fifo_given outs @ contents s'"
    and "length (contents s') \<le> cap" and "invar s'"
  using run_refines_spec[OF assms] fifo_spec_order contents_bound by auto

text \<open>Popping \<open>n\<close> times drops the \<open>n\<close> oldest elements, stopping at the empty queue.\<close>

lemma pop_funpow:
  assumes "invar s"
  shows "invar (((\<lambda>s. snd (pop s)) ^^ n) s)
    \<and> contents (((\<lambda>s. snd (pop s)) ^^ n) s) = drop n (contents s)"
proof (induction n)
  case 0
  with assms show ?case by simp
next
  case (Suc n)
  let ?t = "((\<lambda>s. snd (pop s)) ^^ n) s"
  show ?case
  proof (cases "contents ?t")
    case Nil
    with Suc pop_none[of ?t] have "snd (pop ?t) = ?t" and "drop n (contents s) = []" by auto
    moreover from this(2) have "drop (Suc n) (contents s) = []" by simp
    ultimately show ?thesis using Suc by simp
  next
    case (Cons x xs)
    with Suc pop_some[of ?t x xs] obtain t' where
      "pop ?t = (Some x, t')" "invar t'" "contents t' = xs" by blast
    moreover from Suc Cons have "drop (Suc n) (contents s) = xs"
      by (metis drop_Suc list.sel(3) tl_drop)
    ultimately show ?thesis by simp
  qed
qed

end

end
