(* ===== verification/Message_Model.thy ===== *)
theory Message_Model
  imports Prelude
begin

text \<open>
  The IEEE 802.15.4 message of \<^verbatim>\<open>DeviceCode/include/Samraksh/Message.h\<close>: header, payload,
  footer and metadata records with their accessors, sizes and clearing operations, and the
  payload types that the MAC layers exchange. The lemmas are the round trips of the 64-bit
  receive time stamp, which the metadata keeps as two 32-bit halves, and the layout sizes.
\<close>

section \<open>Payload types\<close>

datatype PayloadTypeMAC =
    MFM_CSMA_TIMESYNCREQ
  | MFM_CSMA_NEIGHBORHOOD
  | MFM_CSMA_ROUTING
  | MFM_CSMA_DISCOVERY
  | MFM_TIMESYNC
  | MFM_CSMA_DATA_ACK
  | MFM_OMAC_TIMESYNCREQ
  | MFM_OMAC_NEIGHBORHOOD
  | MFM_OMAC_ROUTING
  | MFM_OMAC_DISCOVERY
  | MFM_OMAC_DATA_ACK
  | MFM_OMAC_DATA_BEACON_TYPE

text \<open>The enumerators' values, as the one-byte \<open>payloadType\<close> field carries them.\<close>

fun payload_code :: "PayloadTypeMAC \<Rightarrow> u8" where
  "payload_code MFM_CSMA_TIMESYNCREQ = 0x21"
| "payload_code MFM_CSMA_NEIGHBORHOOD = 0x22"
| "payload_code MFM_CSMA_ROUTING = 0x23"
| "payload_code MFM_CSMA_DISCOVERY = 0x24"
| "payload_code MFM_TIMESYNC = 0x25"
| "payload_code MFM_CSMA_DATA_ACK = 0x26"
| "payload_code MFM_OMAC_TIMESYNCREQ = 0x31"
| "payload_code MFM_OMAC_NEIGHBORHOOD = 0x32"
| "payload_code MFM_OMAC_ROUTING = 0x33"
| "payload_code MFM_OMAC_DISCOVERY = 0x34"
| "payload_code MFM_OMAC_DATA_ACK = 0x36"
| "payload_code MFM_OMAC_DATA_BEACON_TYPE = 0x37"

lemma payload_code_inject [simp]: "payload_code p = payload_code q \<longleftrightarrow> p = q"
  by (cases p; cases q) simp_all

definition TIMESTAMPED_FLAG :: u8 where "TIMESTAMPED_FLAG = push_bit 0 1"
definition MFM_TIMESYNC_FLAG :: u8 where "MFM_TIMESYNC_FLAG = push_bit 1 1"
definition MFM_DISCOVERY_FLAG :: u8 where "MFM_DISCOVERY_FLAG = push_bit 2 1"
definition MFM_EXTENDED_MAC_INFO_FLAG :: u8 where "MFM_EXTENDED_MAC_INFO_FLAG = push_bit 4 1"

section \<open>Header\<close>

record ieee_header =
  fcf :: u16
  dsn :: u8
  destpan :: u16
  dest :: u16
  src :: u16
  hdr_length :: u8
  hdr_macName :: u8
  payloadType :: u8
  flags :: u8

definition header_Clear :: "ieee_header \<Rightarrow> ieee_header" where
  "header_Clear h = h\<lparr>fcf := 0, dsn := 0, destpan := 0, dest := 0, src := 0,
     hdr_length := 0, hdr_macName := 0, payloadType := 0, flags := 0\<rparr>"

text \<open>
  \<open>GetDestConst\<close> returns \<open>UINT8\<close> although \<open>dest\<close> is a \<open>UINT16\<close>: the implicit conversion
  keeps the low byte.
\<close>

definition GetDestConst :: "ieee_header \<Rightarrow> u8" where
  "GetDestConst h = ucast (dest h)"

definition GetPayloadTypeConst :: "ieee_header \<Rightarrow> u8" where
  "GetPayloadTypeConst h = payloadType h"

definition GetFlagsConst :: "ieee_header \<Rightarrow> u8" where
  "GetFlagsConst h = flags h"

section \<open>Metadata\<close>

record ieee_metadata =
  network :: u8
  Rssi :: u8
  Lqi :: u8
  ReceiveTimeStamp0 :: u32
  ReceiveTimeStamp1 :: u32
  RetryAttempts :: u8
  PacketID :: u8

definition ClearData :: "ieee_metadata \<Rightarrow> ieee_metadata" where
  "ClearData d = d\<lparr>RetryAttempts := 0, ReceiveTimeStamp1 := 0, ReceiveTimeStamp0 := 0,
     Lqi := 0, Rssi := 0, network := 0, PacketID := 0\<rparr>"

definition GetReceiveTimeStamp :: "ieee_metadata \<Rightarrow> u64" where
  "GetReceiveTimeStamp d =
     (let rtn = push_bit 32 (ucast (ReceiveTimeStamp1 d)) in rtn + ucast (ReceiveTimeStamp0 d))"

text \<open>The three overloads of \<open>SetReceiveTimeStamp\<close>, by argument type.\<close>

definition SetReceiveTimeStamp_UINT64 :: "u64 \<Rightarrow> ieee_metadata \<Rightarrow> ieee_metadata" where
  "SetReceiveTimeStamp_UINT64 t d =
     d\<lparr>ReceiveTimeStamp0 := ucast t, ReceiveTimeStamp1 := ucast (drop_bit 32 t)\<rparr>"

definition SetReceiveTimeStamp_INT64 :: "u64 \<Rightarrow> ieee_metadata \<Rightarrow> ieee_metadata" where
  "SetReceiveTimeStamp_INT64 t d =
     d\<lparr>ReceiveTimeStamp0 := ucast t, ReceiveTimeStamp1 := ucast (signed_drop_bit 32 t)\<rparr>"

definition SetReceiveTimeStamp_UINT32 :: "u32 \<Rightarrow> ieee_metadata \<Rightarrow> ieee_metadata" where
  "SetReceiveTimeStamp_UINT32 t d = d\<lparr>ReceiveTimeStamp0 := t\<rparr>"

definition SetRetryAttempts :: "u8 \<Rightarrow> ieee_metadata \<Rightarrow> u8 \<times> ieee_metadata" where
  "SetRetryAttempts r d = (let d' = d\<lparr>RetryAttempts := r\<rparr> in (RetryAttempts d', d'))"

definition SetPacketID :: "u8 \<Rightarrow> ieee_metadata \<Rightarrow> u8 \<times> ieee_metadata" where
  "SetPacketID r d = (let d' = d\<lparr>PacketID := r\<rparr> in (PacketID d', d'))"

section \<open>Message\<close>

record message =
  header :: ieee_header
  payload :: "u8 list"
  FCS :: u16
  metadata :: ieee_metadata

text \<open>
  Sizes in bytes of the packed structures: the header has fields of 2, 1, 2, 2, 2, 1, 1, 1
  and 1 bytes, the footer 2, the metadata 1, 1, 1, 4, 4, 1 and 1.
\<close>

definition sizeof_header :: nat where "sizeof_header = 2 + 1 + 2 + 2 + 2 + 1 + 1 + 1 + 1"
definition sizeof_footer :: nat where "sizeof_footer = 2"
definition sizeof_metadata :: nat where "sizeof_metadata = 1 + 1 + 1 + 4 + 4 + 1 + 1"
definition IEEE802_15_4_FRAME_LENGTH :: nat where "IEEE802_15_4_FRAME_LENGTH = 128"

definition IEEE802_15_4_MAX_PAYLOAD :: nat where
  "IEEE802_15_4_MAX_PAYLOAD =
     IEEE802_15_4_FRAME_LENGTH - sizeof_header - sizeof_footer - sizeof_metadata"

definition GetMessageSize :: nat where
  "GetMessageSize = sizeof_header + sizeof_footer + sizeof_metadata + IEEE802_15_4_MAX_PAYLOAD"

definition GetPayloadSize :: nat where
  "GetPayloadSize = IEEE802_15_4_MAX_PAYLOAD"

lemmas message_sizes = sizeof_header_def sizeof_footer_def sizeof_metadata_def
  IEEE802_15_4_FRAME_LENGTH_def IEEE802_15_4_MAX_PAYLOAD_def GetMessageSize_def GetPayloadSize_def

text \<open>The message that \<open>memset(msg, 0, sizeof(Message_15_4_t))\<close> leaves.\<close>

definition zero_header :: ieee_header where
  "zero_header = \<lparr>fcf = 0, dsn = 0, destpan = 0, dest = 0, src = 0, hdr_length = 0,
     hdr_macName = 0, payloadType = 0, flags = 0\<rparr>"

definition zero_metadata :: ieee_metadata where
  "zero_metadata = \<lparr>network = 0, Rssi = 0, Lqi = 0, ReceiveTimeStamp0 = 0,
     ReceiveTimeStamp1 = 0, RetryAttempts = 0, PacketID = 0\<rparr>"

definition zero_message :: message where
  "zero_message =
     \<lparr>header = zero_header, payload = replicate IEEE802_15_4_MAX_PAYLOAD 0, FCS = 0,
      metadata = zero_metadata\<rparr>"

definition ClearMsgContents :: "message \<Rightarrow> message" where
  "ClearMsgContents msg = zero_message"

abbreviation msg_dest :: "message \<Rightarrow> u16" where "msg_dest m \<equiv> dest (header m)"
abbreviation msg_type :: "message \<Rightarrow> u8" where "msg_type m \<equiv> payloadType (header m)"
abbreviation msg_time :: "message \<Rightarrow> u64" where "msg_time m \<equiv> GetReceiveTimeStamp (metadata m)"
abbreviation msg_retries :: "message \<Rightarrow> u8" where "msg_retries m \<equiv> RetryAttempts (metadata m)"

section \<open>Time stamp round trips\<close>

lemma split_join_u64: "push_bit 32 (ucast (ucast (drop_bit 32 t) :: u32)) + ucast (ucast t :: u32) = (t :: u64)"
proof -
  have "push_bit 32 (ucast (ucast (drop_bit 32 t) :: u32)) + ucast (ucast t :: u32)
      = push_bit 32 (ucast (ucast (drop_bit 32 t) :: u32)) OR (ucast (ucast t :: u32) :: u64)"
    by (rule disjunctive_add) (auto simp: bit_simps)
  also have "\<dots> = t"
    by (rule bit_word_eqI) (auto simp: bit_simps)
  finally show ?thesis .
qed

lemma signed_half: "(ucast (signed_drop_bit 32 (t::u64)) :: u32) = ucast (drop_bit 32 t)"
  by (rule bit_word_eqI) (auto simp: bit_simps)

lemma GetReceiveTimeStamp_high_low:
  "GetReceiveTimeStamp (d\<lparr>ReceiveTimeStamp0 := lo, ReceiveTimeStamp1 := hi\<rparr>)
   = push_bit 32 (ucast hi) + ucast lo"
  by (simp add: GetReceiveTimeStamp_def)

text \<open>
  A 64-bit time stamp stored in the metadata of a packet, through the unsigned or the
  signed overload of SetReceiveTimeStamp, is the one GetReceiveTimeStamp reads back: the two
  32-bit halves lose nothing. (The 32-bit overload writes the low half only and keeps the old
  high half.)
\<close>

theorem ReceiveTimeStamp_roundtrip:
  "GetReceiveTimeStamp (SetReceiveTimeStamp_UINT64 t d) = t
   \<and> GetReceiveTimeStamp (SetReceiveTimeStamp_INT64 t d) = t
   \<and> GetReceiveTimeStamp (SetReceiveTimeStamp_UINT32 s d)
     = push_bit 32 (ucast (ReceiveTimeStamp1 d)) + ucast s"
  by (simp add: SetReceiveTimeStamp_UINT64_def SetReceiveTimeStamp_INT64_def
      SetReceiveTimeStamp_UINT32_def GetReceiveTimeStamp_def split_join_u64 signed_half)

lemma payload_room: "IEEE802_15_4_MAX_PAYLOAD = 100" "GetMessageSize = 128"
  by (simp_all add: message_sizes)

lemma GetDestConst_truncates: "unat (GetDestConst h) = unat (dest h) mod 256"
  by (simp add: GetDestConst_def unsigned_ucast_eq take_bit_eq_mod)

section \<open>Writing payload bytes\<close>

text \<open>
  The payload copy. The message is a packed structure of 128 bytes and the payload starts
  after the 13 bytes of the header: byte 100 and the following ones of a payload fall on the
  footer and the metadata. \<open>None\<close> is a byte behind the message.
\<close>

definition set_byte :: "nat \<Rightarrow> u8 \<Rightarrow> 'w::len word \<Rightarrow> 'w word" where
  "set_byte k b w = (w AND NOT (push_bit (8 * k) 0xFF)) OR push_bit (8 * k) (ucast b)"

definition poke_payload :: "nat \<Rightarrow> u8 \<Rightarrow> message \<Rightarrow> message option" where
  "poke_payload i b m =
     (let d = metadata m in
      if i < 100 then Some (m\<lparr>payload := (payload m)[i := b]\<rparr>)
      else if i < 102 then Some (m\<lparr>FCS := set_byte (i - 100) b (FCS m)\<rparr>)
      else if i = 102 then Some (m\<lparr>metadata := d\<lparr>network := b\<rparr>\<rparr>)
      else if i = 103 then Some (m\<lparr>metadata := d\<lparr>Rssi := b\<rparr>\<rparr>)
      else if i = 104 then Some (m\<lparr>metadata := d\<lparr>Lqi := b\<rparr>\<rparr>)
      else if i < 109 then Some (m\<lparr>metadata := d\<lparr>ReceiveTimeStamp0 := set_byte (i - 105) b (ReceiveTimeStamp0 d)\<rparr>\<rparr>)
      else if i < 113 then Some (m\<lparr>metadata := d\<lparr>ReceiveTimeStamp1 := set_byte (i - 109) b (ReceiveTimeStamp1 d)\<rparr>\<rparr>)
      else if i = 113 then Some (m\<lparr>metadata := d\<lparr>RetryAttempts := b\<rparr>\<rparr>)
      else if i = 114 then Some (m\<lparr>metadata := d\<lparr>PacketID := b\<rparr>\<rparr>)
      else None)"

fun poke_bytes :: "nat \<Rightarrow> u8 list \<Rightarrow> message \<Rightarrow> message option" where
  "poke_bytes i [] m = Some m"
| "poke_bytes i (b # bs) m = Option.bind (poke_payload i b m) (poke_bytes (Suc i) bs)"

lemma poke_payload_total: "i < 115 \<Longrightarrow> \<exists>m'. poke_payload i b m = Some m'"
  by (auto simp: poke_payload_def Let_def)

lemma poke_payload_header: "poke_payload i b m = Some m' \<Longrightarrow> header m' = header m"
  by (auto simp: poke_payload_def Let_def split: if_splits)

lemma poke_bytes_header: "poke_bytes i bs m = Some m' \<Longrightarrow> header m' = header m"
  by (induction i bs m rule: poke_bytes.induct) (auto simp: bind_eq_Some_conv poke_payload_header)

lemma poke_bytes_total: "i + length bs \<le> 115 \<Longrightarrow> \<exists>m'. poke_bytes i bs m = Some m'"
proof (induction i bs m rule: poke_bytes.induct)
  case (2 i b bs m)
  from 2(2) poke_payload_total[of i b m] obtain m1 where "poke_payload i b m = Some m1" by auto
  with 2 show ?case by auto
qed simp

lemma poke_bytes_append:
  "poke_bytes i (as @ bs) m = Option.bind (poke_bytes i as m) (poke_bytes (i + length as) bs)"
proof (induction i as m rule: poke_bytes.induct)
  case (2 i b as m)
  then show ?case by (cases "poke_payload i b m") simp_all
qed simp

lemma poke_bytes_payload:
  "i + length bs \<le> 100 \<Longrightarrow> length (payload m) = 100 \<Longrightarrow>
   poke_bytes i bs m = Some (m\<lparr>payload := take i (payload m) @ bs @ drop (i + length bs) (payload m)\<rparr>)"
proof (induction i bs m rule: poke_bytes.induct)
  case (2 i b bs m)
  then have "poke_payload i b m = Some (m\<lparr>payload := (payload m)[i := b]\<rparr>)"
    by (simp add: poke_payload_def Let_def)
  moreover have "take (Suc i) ((payload m)[i := b]) = take i (payload m) @ [b]"
    using 2(2,3) by (simp add: take_Suc_conv_app_nth)
  ultimately show ?case using 2 by (simp add: drop_update_cancel)
qed simp

section \<open>Reading payload bytes\<close>

text \<open>
  The byte at a place after the start of the payload, over the footer and the metadata;
  \<open>None\<close> is a byte behind the message.
\<close>

definition peek_payload :: "nat \<Rightarrow> message \<Rightarrow> u8 option" where
  "peek_payload i m =
     (let d = metadata m in
      if i < 100 then Some (payload m ! i)
      else if i < 102 then Some (get_byte (i - 100) (FCS m))
      else if i = 102 then Some (network d)
      else if i = 103 then Some (Rssi d)
      else if i = 104 then Some (Lqi d)
      else if i < 109 then Some (get_byte (i - 105) (ReceiveTimeStamp0 d))
      else if i < 113 then Some (get_byte (i - 109) (ReceiveTimeStamp1 d))
      else if i = 113 then Some (RetryAttempts d)
      else if i = 114 then Some (PacketID d)
      else None)"

fun peek_bytes :: "nat \<Rightarrow> nat \<Rightarrow> message \<Rightarrow> u8 list option" where
  "peek_bytes i 0 m = Some []"
| "peek_bytes i (Suc n) m =
     Option.bind (peek_payload i m) (\<lambda>b. map_option ((#) b) (peek_bytes (Suc i) n m))"

lemma peek_bytes_payload:
  "i + n \<le> 100 \<Longrightarrow> length (payload m) = 100 \<Longrightarrow> peek_bytes i n m = Some (take n (drop i (payload m)))"
proof (induction i n m rule: peek_bytes.induct)
  case (2 i n m)
  then have "drop i (payload m) = payload m ! i # drop (Suc i) (payload m)"
    by (simp add: Cons_nth_drop_Suc)
  with 2 show ?case by (simp add: peek_payload_def)
qed simp

section \<open>The message as bytes\<close>

text \<open>
  The packed header of 13 bytes, then the payload and what follows it, as the radio driver copies
  a message. \<open>message_bytes i n\<close> are \<open>n\<close> bytes from place \<open>i\<close>; \<open>None\<close> is a copy beyond the
  128 bytes of the message.
\<close>

definition header_bytes :: "ieee_header \<Rightarrow> u8 list" where
  "header_bytes h = word_bytes 2 (fcf h) @ [dsn h] @ word_bytes 2 (destpan h) @ word_bytes 2 (dest h)
     @ word_bytes 2 (src h) @ [hdr_length h, hdr_macName h, payloadType h, flags h]"

definition bytes_header :: "u8 list \<Rightarrow> ieee_header" where
  "bytes_header bs = \<lparr>fcf = bytes_word (take 2 bs), dsn = bs ! 2, destpan = bytes_word (take 2 (drop 3 bs)),
     dest = bytes_word (take 2 (drop 5 bs)), src = bytes_word (take 2 (drop 7 bs)), hdr_length = bs ! 9,
     hdr_macName = bs ! 10, payloadType = bs ! 11, flags = bs ! 12\<rparr>"

fun message_bytes :: "nat \<Rightarrow> nat \<Rightarrow> message \<Rightarrow> u8 list option" where
  "message_bytes i 0 m = Some []"
| "message_bytes i (Suc n) m =
     Option.bind (if i < sizeof_header then Some (header_bytes (header m) ! i)
                  else peek_payload (i - sizeof_header) m)
       (\<lambda>b. map_option ((#) b) (message_bytes (Suc i) n m))"

definition write_frame :: "u8 list \<Rightarrow> message \<Rightarrow> message option" where
  "write_frame bs m =
     poke_bytes 0 (drop sizeof_header bs)
       (m\<lparr>header := bytes_header (take sizeof_header bs @ drop (length bs) (header_bytes (header m)))\<rparr>)"

lemma length_header_bytes [simp]: "length (header_bytes h) = sizeof_header"
  by (simp add: header_bytes_def sizeof_header_def)

lemma bytes_header_header_bytes [simp]: "bytes_header (header_bytes h) = h"
proof -
  have w: "bytes_word [get_byte 0 w, get_byte 1 w] = w" for w :: u16
    using bytes_word_word_bytes[of 2 w] by (simp add: word_bytes_2)
  show ?thesis by (cases h) (simp add: bytes_header_def header_bytes_def word_bytes_2 w[simplified])
qed

lemma message_bytes_append:
  "message_bytes i (n + k) m = Option.bind (message_bytes i n m) (\<lambda>a. map_option ((@) a) (message_bytes (i + n) k m))"
proof (induction i n m rule: message_bytes.induct)
  case (1 i m)
  show ?case by (cases "message_bytes i k m") simp_all
next
  case (2 i n m)
  then show ?case by (cases "message_bytes (Suc (i + n)) k m") (auto simp: Option.bind_map_option option.map_comp comp_def split: bind_split)
qed

lemma message_bytes_header: "i + n \<le> sizeof_header \<Longrightarrow> message_bytes i n m = Some (take n (drop i (header_bytes (header m))))"
proof (induction i n m rule: message_bytes.induct)
  case (2 i n m)
  then have "drop i (header_bytes (header m)) = header_bytes (header m) ! i # drop (Suc i) (header_bytes (header m))"
    by (simp add: Cons_nth_drop_Suc)
  with 2 show ?case by simp
qed simp

lemma message_bytes_payload: "message_bytes (sizeof_header + i) n m = peek_bytes i n m"
proof (induction n arbitrary: i)
  case (Suc n)
  from Suc[of "Suc i"] show ?case by simp
qed simp

text \<open>A frame of a message that is written into another message carries header and payload over.\<close>

lemma write_message_bytes:
  assumes "sizeof_header \<le> n" "n \<le> sizeof_header + 100" "length (payload m) = 100" "length (payload m') = 100"
  shows "\<exists>bs. message_bytes 0 n m = Some bs \<and> length bs = n \<and>
    write_frame bs m' = Some (m'\<lparr>header := header m,
      payload := take (n - sizeof_header) (payload m) @ drop (n - sizeof_header) (payload m')\<rparr>)"
proof -
  let ?k = "n - sizeof_header" and ?bs = "header_bytes (header m) @ take (n - sizeof_header) (payload m)"
  have f: "message_bytes 0 n m = Some ?bs"
    using assms message_bytes_append[of 0 sizeof_header ?k m] message_bytes_payload[of 0 ?k m]
    by (simp add: message_bytes_header peek_bytes_payload)
  have l: "length ?bs = n" using assms by simp
  have h: "bytes_header (take sizeof_header ?bs @ drop (length ?bs) (header_bytes (header m'))) = header m"
    using l assms(1) by simp
  have "write_frame ?bs m' = poke_bytes 0 (take ?k (payload m)) (m'\<lparr>header := header m\<rparr>)"
    unfolding write_frame_def h by simp
  also have "\<dots> = Some (m'\<lparr>header := header m, payload := take ?k (payload m) @ drop ?k (payload m')\<rparr>)"
    using assms poke_bytes_payload[of 0 "take ?k (payload m)" "m'\<lparr>header := header m\<rparr>"] by simp
  finally show ?thesis using f l by auto
qed

end
