(* ===== verification/Circular_Buffer.thy ===== *)
theory Circular_Buffer
  imports Fifo_Interface Message_Model
begin

text \<open>
  \<^verbatim>\<open>CircularBuffer<MessageT, BufferSizeT>\<close>
  (\<^verbatim>\<open>DeviceCode/include/Samraksh/Buffers/CircularBuffer.h\<close>) and the message queue
  \<^verbatim>\<open>Buffer_15_4<BufferSize>\<close> built on it (\<^verbatim>\<open>DeviceCode/include/Samraksh/Buffer.h\<close>).
  The buffer keeps an array of message pointers, not of messages: the MAC layer exchanges a
  pointer of the array with the radio's own message (the bag exchange). So the model has an
  explicit store from addresses to messages, and aliasing of two entries is visible.
  Shown here: the ring invariant is kept by every operation, the queue operations refine a
  bounded list, and what the drop from the middle does.
\<close>

section \<open>State\<close>

text \<open>
  An address is an element of the buffer's own array \<open>msg[]\<close>, or a message of somebody else
  that was swapped into the pointer array.
\<close>

datatype msg_addr = OwnMsg nat | ForeignMsg nat

record 'm circ_buf =
  msgPtr :: "msg_addr list"
  msg_store :: "msg_addr \<Rightarrow> 'm"
  nextCleanBuffer :: u8
  firstFullBuffer :: u8
  numElements :: u8

text \<open>The template argument \<open>BufferSizeT\<close> is the argument \<open>sz\<close> of the operations.\<close>

section \<open>CircularBuffer operations\<close>

definition GetFirstFullBufferPosition :: "'m circ_buf \<Rightarrow> u8" where
  "GetFirstFullBufferPosition b = firstFullBuffer b"

text \<open>
  The position comes from the caller and is not checked: \<open>None\<close> is a read behind the array.
\<close>

definition PeekElementAtPosition :: "u8 \<Rightarrow> 'm circ_buf \<Rightarrow> msg_addr option" where
  "PeekElementAtPosition cur_pos b =
     (if unat cur_pos < length (msgPtr b) then Some (msgPtr b ! unat cur_pos) else None)"

definition Initialize_circ :: "u8 \<Rightarrow> 'm circ_buf \<Rightarrow> bool \<times> 'm circ_buf" where
  "Initialize_circ sz b =
     (True, b\<lparr>msgPtr := map OwnMsg [0..<unat sz], numElements := 0, nextCleanBuffer := 0,
              firstFullBuffer := 0\<rparr>)"

definition IsFull :: "u8 \<Rightarrow> 'm circ_buf \<Rightarrow> bool" where
  "IsFull sz b = (numElements b = sz)"

definition IsEmpty :: "'m circ_buf \<Rightarrow> bool" where
  "IsEmpty b = (numElements b = 0)"

text \<open>\<open>GetNextFreeBufferPtr\<close> returns the address of an entry of \<open>msgPtr\<close>: its position.\<close>

definition GetNextFreeBufferPtr :: "u8 \<Rightarrow> 'm circ_buf \<Rightarrow> nat option \<times> 'm circ_buf" where
  "GetNextFreeBufferPtr sz b =
     (if IsFull sz b then (None, b)
      else (Some (unat (nextCleanBuffer b)),
            b\<lparr>nextCleanBuffer := wrap_inc sz (nextCleanBuffer b), numElements := numElements b + 1\<rparr>))"

definition GetNextFreeBuffer :: "u8 \<Rightarrow> 'm circ_buf \<Rightarrow> msg_addr option \<times> 'm circ_buf" where
  "GetNextFreeBuffer sz b =
     (if IsFull sz b then (None, b)
      else (Some (msgPtr b ! unat (nextCleanBuffer b)),
            b\<lparr>nextCleanBuffer := wrap_inc sz (nextCleanBuffer b), numElements := numElements b + 1\<rparr>))"

definition GetFirstFullBuffer :: "u8 \<Rightarrow> 'm circ_buf \<Rightarrow> msg_addr \<times> 'm circ_buf" where
  "GetFirstFullBuffer sz b =
     (msgPtr b ! unat (firstFullBuffer b),
      b\<lparr>firstFullBuffer := wrap_inc sz (firstFullBuffer b), numElements := numElements b - 1\<rparr>)"

definition PeekFirstFullBuffer :: "'m circ_buf \<Rightarrow> msg_addr" where
  "PeekFirstFullBuffer b = msgPtr b ! unat (firstFullBuffer b)"

definition GetFirstFullBufferPtr :: "u8 \<Rightarrow> 'm circ_buf \<Rightarrow> nat \<times> 'm circ_buf" where
  "GetFirstFullBufferPtr sz b =
     (unat (firstFullBuffer b),
      b\<lparr>firstFullBuffer := wrap_inc sz (firstFullBuffer b), numElements := numElements b - 1\<rparr>)"

definition GetLastFullBuffer :: "u8 \<Rightarrow> 'm circ_buf \<Rightarrow> msg_addr \<times> 'm circ_buf" where
  "GetLastFullBuffer sz b =
     (let ncb = nextCleanBuffer b - 1;
          lastFullBuffer = ncb mod sz
      in (msgPtr b ! unat lastFullBuffer,
          b\<lparr>nextCleanBuffer := lastFullBuffer, numElements := numElements b - 1\<rparr>))"

text \<open>
  The loop of \<open>DropElementAtPosition\<close> moves the pointers behind the dropped one down by one
  place. It stops when \<open>i\<close> reaches \<open>nextCleanBuffer\<close>; the fuel is one unit per round, and
  \<open>None\<close> is a run that has not stopped or has written behind the array.
\<close>

fun drop_shift :: "nat \<Rightarrow> u8 \<Rightarrow> u8 \<Rightarrow> u8 \<Rightarrow> u8 \<Rightarrow> msg_addr list \<Rightarrow> msg_addr list option" where
  "drop_shift 0 sz next j i ptrs = (if i = next then Some ptrs else None)"
| "drop_shift (Suc fuel) sz next j i ptrs =
     (if i = next then Some ptrs
      else if unat j < length ptrs \<and> unat i < length ptrs
           then drop_shift fuel sz next i (wrap_inc sz i) (ptrs[unat j := ptrs ! unat i])
           else None)"

definition DropElementAtPosition :: "u8 \<Rightarrow> u8 \<Rightarrow> 'm circ_buf \<Rightarrow> (bool \<times> 'm circ_buf) option" where
  "DropElementAtPosition sz cur_pos b =
     (if cur_pos = firstFullBuffer b then Some (True, snd (GetFirstFullBuffer sz b))
      else map_option
        (\<lambda>ptrs. (True,
           b\<lparr>msgPtr := ptrs, numElements := numElements b - 1,
             nextCleanBuffer :=
               (if nextCleanBuffer b = 0 then sz - 1 else nextCleanBuffer b - 1)\<rparr>))
        (drop_shift (unat sz) sz (nextCleanBuffer b) cur_pos (wrap_inc sz cur_pos) (msgPtr b)))"

function ClearBuffer :: "u8 \<Rightarrow> 'm circ_buf \<Rightarrow> 'm circ_buf" where
  "ClearBuffer sz b = (if IsEmpty b then b else ClearBuffer sz (snd (GetFirstFullBuffer sz b)))"
  by pat_completeness auto
termination
  by (relation "measure (\<lambda>(sz, b). unat (numElements b))")
    (auto simp: IsEmpty_def GetFirstFullBuffer_def unat_minus_one unat_gt_0)

declare ClearBuffer.simps [simp del]

definition GetNumberMessagesInBuffer :: "'m circ_buf \<Rightarrow> u8" where
  "GetNumberMessagesInBuffer b = numElements b"

section \<open>Buffer\_15\_4 operations\<close>

text \<open>
  The payload copy writes the first \<open>size\<close> bytes of the payload and keeps the rest. The
  caller's buffer holds at least \<open>size\<close> bytes.
\<close>

definition CopyPayload :: "u8 \<Rightarrow> u8 list \<Rightarrow> u8 \<Rightarrow> message circ_buf \<Rightarrow> bool \<times> message circ_buf" where
  "CopyPayload sz data n b =
     (if IsFull sz b then (False, b)
      else if unat n > GetPayloadSize then (False, b)
      else case GetNextFreeBuffer sz b of
          (Some p, b') \<Rightarrow>
            (True, b'\<lparr>msg_store := (msg_store b')(p :=
               (msg_store b' p)\<lparr>payload := take (unat n) data @ drop (unat n) (payload (msg_store b' p))\<rparr>)\<rparr>)
        | (None, b') \<Rightarrow> (False, b'))"

definition Store :: "u8 \<Rightarrow> message \<Rightarrow> u8 \<Rightarrow> message circ_buf \<Rightarrow> bool \<times> message circ_buf" where
  "Store sz m n b =
     (if IsFull sz b then (False, b)
      else if unat n > GetMessageSize then (False, b)
      else case GetNextFreeBuffer sz b of
          (Some p, b') \<Rightarrow> (True, b'\<lparr>msg_store := (msg_store b')(p := m)\<rparr>)
        | (None, b') \<Rightarrow> (False, b'))"

definition GetOldest :: "u8 \<Rightarrow> 'm circ_buf \<Rightarrow> msg_addr option \<times> 'm circ_buf" where
  "GetOldest sz b =
     (if IsEmpty b then (None, b)
      else case GetFirstFullBuffer sz b of (p, b') \<Rightarrow> (Some p, b'))"

definition GetOldestwithoutRemoval :: "'m circ_buf \<Rightarrow> msg_addr option" where
  "GetOldestwithoutRemoval b = (if IsEmpty b then None else Some (PeekFirstFullBuffer b))"

definition GetOldestPtr :: "u8 \<Rightarrow> 'm circ_buf \<Rightarrow> nat option \<times> 'm circ_buf" where
  "GetOldestPtr sz b =
     (if IsEmpty b then (None, b)
      else case GetFirstFullBufferPtr sz b of (i, b') \<Rightarrow> (Some i, b'))"

definition GetNewest :: "u8 \<Rightarrow> 'm circ_buf \<Rightarrow> msg_addr option \<times> 'm circ_buf" where
  "GetNewest sz b =
     (if IsEmpty b then (None, b)
      else case GetLastFullBuffer sz b of (p, b') \<Rightarrow> (Some p, b'))"

definition Erase :: "u8 \<Rightarrow> 'm circ_buf \<Rightarrow> 'm circ_buf" where
  "Erase sz b = ClearBuffer sz b"

definition DropOldest :: "u8 \<Rightarrow> u8 \<Rightarrow> 'm circ_buf \<Rightarrow> 'm circ_buf" where
  "DropOldest sz numMessages b = ((\<lambda>b. snd (GetOldest sz b)) ^^ unat numMessages) b"

definition DropNewest :: "u8 \<Rightarrow> u8 \<Rightarrow> 'm circ_buf \<Rightarrow> 'm circ_buf" where
  "DropNewest sz numMessages b = ((\<lambda>b. snd (GetNewest sz b)) ^^ unat numMessages) b"

section \<open>Invariant and abstraction\<close>

definition ring_pos :: "u8 \<Rightarrow> 'm circ_buf \<Rightarrow> nat \<Rightarrow> nat" where
  "ring_pos sz b k = (unat (firstFullBuffer b) + k) mod unat sz"

definition ring_inv :: "u8 \<Rightarrow> 'm circ_buf \<Rightarrow> bool" where
  "ring_inv sz b \<longleftrightarrow>
     0 < unat sz \<and> length (msgPtr b) = unat sz
     \<and> unat (firstFullBuffer b) < unat sz \<and> unat (nextCleanBuffer b) < unat sz
     \<and> unat (numElements b) \<le> unat sz
     \<and> unat (nextCleanBuffer b) = ring_pos sz b (unat (numElements b))"

text \<open>The entries of the pointer array are different messages.\<close>

definition circ_inv :: "u8 \<Rightarrow> 'm circ_buf \<Rightarrow> bool" where
  "circ_inv sz b \<longleftrightarrow> ring_inv sz b \<and> distinct (msgPtr b)"

definition circ_ptrs :: "u8 \<Rightarrow> 'm circ_buf \<Rightarrow> msg_addr list" where
  "circ_ptrs sz b = map (\<lambda>k. msgPtr b ! ring_pos sz b k) [0..<unat (numElements b)]"

definition circ_contents :: "u8 \<Rightarrow> 'm circ_buf \<Rightarrow> 'm list" where
  "circ_contents sz b = map (msg_store b) (circ_ptrs sz b)"

lemma length_circ_contents [simp]: "length (circ_contents sz b) = unat (numElements b)"
  by (simp add: circ_contents_def circ_ptrs_def)

lemma length_circ_ptrs [simp]: "length (circ_ptrs sz b) = unat (numElements b)"
  by (simp add: circ_ptrs_def)

text \<open>Different offsets below the size are different places of the ring.\<close>

lemma ring_offset_inj:
  assumes "(f + i) mod n = (f + j) mod n" and "i < n" and "j < n"
  shows "i = (j::nat)"
proof -
  have wlog: "a = b" if "(f + a) mod n = (f + b) mod n" "a \<le> b" "b < n" for a b
  proof -
    have "n dvd (f + b) - (f + a)"
      using that(1,2) by (metis add_left_mono mod_eq_dvd_iff_nat)
    then have "n dvd b - a" by simp
    moreover have "b - a < n" using that(3) by simp
    ultimately have "b - a = 0" by (meson nat_dvd_not_less not_gr_zero)
    with that(2) show ?thesis by simp
  qed
  show ?thesis
    using wlog[of i j] wlog[of j i] assms by (cases "i \<le> j") auto
qed

lemma ring_offset_neq: "i < n \<Longrightarrow> j < n \<Longrightarrow> i \<noteq> j \<Longrightarrow> (f + i) mod n \<noteq> (f + j) mod (n::nat)"
  using ring_offset_inj by blast

lemma prev_place:
  assumes "(x + 1) mod n = c" and "x < n"
  shows "x = (if c = 0 then n - 1 else c - (1::nat))"
  using assms by (cases "x + 1 = n") auto

lemma ring_pos_less: "0 < unat sz \<Longrightarrow> ring_pos sz b k < unat sz"
  by (simp add: ring_pos_def)


section \<open>One step of the ring\<close>

lemma IsFull_iff: "IsFull sz b \<longleftrightarrow> unat (numElements b) = unat sz"
  by (simp add: IsFull_def word_unat_eq_iff)

lemma IsEmpty_iff: "IsEmpty b \<longleftrightarrow> unat (numElements b) = 0"
  by (simp add: IsEmpty_def unat_eq_zero)

lemma unat_num_inc:
  "unat (numElements b) < unat sz \<Longrightarrow> unat (numElements b + 1) = unat (numElements b) + 1"
  for sz :: u8
  by (rule unat_plus_one) (simp add: word_less_nat_alt)

lemma unat_num_dec:
  "unat (numElements b) \<noteq> 0 \<Longrightarrow> unat (numElements b - 1) = unat (numElements b) - 1"
  by (rule unat_minus_one_pos) auto

lemma unat_wrap_inc': "unat x < unat n \<Longrightarrow> unat (wrap_inc n x) = (unat x + 1) mod unat n"
  by (rule unat_wrap_inc) (simp add: word_less_nat_alt)

lemma ring_step_next:
  assumes "ring_inv sz b"
  shows "unat (wrap_inc sz (nextCleanBuffer b)) = ring_pos sz b (unat (numElements b) + 1)"
  using assms by (simp add: ring_inv_def unat_wrap_inc' ring_pos_def mod_Suc_eq)

lemma ring_pos_first:
  assumes "ring_inv sz b"
  shows "(unat (wrap_inc sz (firstFullBuffer b)) + k) mod unat sz = ring_pos sz b (Suc k)"
  using assms by (simp add: ring_inv_def unat_wrap_inc' ring_pos_def mod_add_left_eq)

lemma ring_pos_0: "ring_inv sz b \<Longrightarrow> ring_pos sz b 0 = unat (firstFullBuffer b)"
  by (simp add: ring_inv_def ring_pos_def)

text \<open>Taking the next free place, and taking the first full one.\<close>

lemma ring_inv_take_free:
  assumes "ring_inv sz b" and "unat (numElements b) < unat sz"
  shows "ring_inv sz (b\<lparr>nextCleanBuffer := wrap_inc sz (nextCleanBuffer b),
                        numElements := numElements b + 1\<rparr>)"
  using assms ring_step_next[OF assms(1)] unat_num_inc[OF assms(2)]
  by (simp add: ring_inv_def unat_wrap_inc' ring_pos_def)

lemma ring_inv_take_first:
  assumes "ring_inv sz b" and "unat (numElements b) \<noteq> 0"
  shows "ring_inv sz (b\<lparr>firstFullBuffer := wrap_inc sz (firstFullBuffer b),
                        numElements := numElements b - 1\<rparr>)"
  using assms ring_pos_first[OF assms(1), of "unat (numElements b) - 1"]
  by (auto simp: ring_inv_def unat_wrap_inc' ring_pos_def unat_num_dec)

lemma ring_inv_store [simp]:
  "ring_inv sz (b\<lparr>msg_store := f\<rparr>) = ring_inv sz b"
  "circ_inv sz (b\<lparr>msg_store := f\<rparr>) = circ_inv sz b"
  "circ_ptrs sz (b\<lparr>msg_store := f\<rparr>) = circ_ptrs sz b"
  by (simp_all add: ring_inv_def circ_inv_def circ_ptrs_def ring_pos_def)

lemma circ_ptrs_take_free:
  assumes "ring_inv sz b" and "unat (numElements b) < unat sz"
  shows "circ_ptrs sz (b\<lparr>nextCleanBuffer := c, numElements := numElements b + 1\<rparr>)
       = circ_ptrs sz b @ [msgPtr b ! unat (nextCleanBuffer b)]"
  using assms unat_num_inc[OF assms(2)]
  by (simp add: circ_ptrs_def ring_pos_def ring_inv_def)

lemma circ_ptrs_take_first:
  assumes "ring_inv sz b" and "unat (numElements b) \<noteq> 0"
  shows "circ_ptrs sz b = msgPtr b ! unat (firstFullBuffer b)
       # circ_ptrs sz (b\<lparr>firstFullBuffer := wrap_inc sz (firstFullBuffer b),
                         numElements := numElements b - 1\<rparr>)"
proof -
  let ?n = "unat (numElements b) - 1"
  have n: "unat (numElements b) = Suc ?n" and dec: "unat (numElements b - 1) = ?n"
    using assms(2) unat_num_dec[OF assms(2)] by simp_all
  have "[0..<unat (numElements b)] = 0 # map Suc [0..<?n]"
    by (subst n) (simp only: upt_conv_Cons map_Suc_upt zero_less_Suc)
  then show ?thesis
    using assms(1) by (simp add: circ_ptrs_def dec ring_pos_first[OF assms(1)] ring_pos_0
        ring_pos_def[of sz "b\<lparr>firstFullBuffer := c, numElements := d\<rparr>" for c d])
qed

text \<open>A write through the free entry does not touch a message of the queue.\<close>

lemma free_ptr_not_full:
  assumes "circ_inv sz b" and "unat (numElements b) < unat sz"
  shows "msgPtr b ! unat (nextCleanBuffer b) \<notin> set (circ_ptrs sz b)"
proof
  assume "msgPtr b ! unat (nextCleanBuffer b) \<in> set (circ_ptrs sz b)"
  then obtain k where k: "k < unat (numElements b)"
    and eq: "msgPtr b ! unat (nextCleanBuffer b) = msgPtr b ! ring_pos sz b k"
    by (auto simp: circ_ptrs_def)
  have "ring_pos sz b (unat (numElements b)) = ring_pos sz b k"
    using assms eq by (auto simp: circ_inv_def ring_inv_def ring_pos_less nth_eq_iff_index_eq)
  with ring_offset_inj[of _ "unat (numElements b)" "unat sz" k] k assms(2)
  show False by (fastforce simp: ring_pos_def)
qed

section \<open>Queue behaviour of every operation\<close>

lemma Initialize_circ_ok:
  assumes "0 < sz"
  shows "circ_inv sz (snd (Initialize_circ sz b)) \<and> circ_contents sz (snd (Initialize_circ sz b)) = []"
  using assms by (auto simp: Initialize_circ_def circ_inv_def ring_inv_def ring_pos_def
      circ_contents_def circ_ptrs_def distinct_map inj_on_def word_less_nat_alt)

lemma circ_bound: "circ_inv sz b \<Longrightarrow> length (circ_contents sz b) \<le> unat sz"
  by (simp add: circ_inv_def ring_inv_def)

lemma Store_room:
  assumes inv: "circ_inv sz b" and room: "unat (numElements b) < unat sz"
    and size: "unat n \<le> GetMessageSize"
  shows "\<exists>b'. Store sz m n b = (True, b') \<and> circ_inv sz b'
    \<and> circ_contents sz b' = circ_contents sz b @ [m] \<and> msgPtr b' = msgPtr b"
proof -
  let ?p = "msgPtr b ! unat (nextCleanBuffer b)"
  let ?b = "b\<lparr>nextCleanBuffer := wrap_inc sz (nextCleanBuffer b), numElements := numElements b + 1\<rparr>"
  have ring: "ring_inv sz b" using inv by (simp add: circ_inv_def)
  have "Store sz m n b = (True, ?b\<lparr>msg_store := (msg_store b)(?p := m)\<rparr>)"
    using room size by (simp add: Store_def GetNextFreeBuffer_def IsFull_iff)
  moreover have "circ_inv sz ?b"
    using ring_inv_take_free[OF ring room] inv by (simp add: circ_inv_def)
  moreover have "map ((msg_store b)(?p := m)) (circ_ptrs sz ?b) = circ_contents sz b @ [m]"
    using free_ptr_not_full[OF inv room]
    by (auto simp: circ_ptrs_take_free[OF ring room] circ_contents_def)
  ultimately show ?thesis
    by (intro exI[of _ "?b\<lparr>msg_store := (msg_store b)(?p := m)\<rparr>"])
      (simp add: circ_contents_def)
qed

lemma Store_refused:
  "IsFull sz b \<or> GetMessageSize < unat n \<Longrightarrow> Store sz m n b = (False, b)"
  by (auto simp: Store_def)

lemma GetOldest_nonempty:
  assumes inv: "circ_inv sz b" and ne: "unat (numElements b) \<noteq> 0"
  shows "\<exists>p b'. GetOldest sz b = (Some p, b') \<and> circ_inv sz b' \<and> msg_store b' = msg_store b
    \<and> circ_contents sz b = msg_store b p # circ_contents sz b'"
proof -
  let ?b = "b\<lparr>firstFullBuffer := wrap_inc sz (firstFullBuffer b), numElements := numElements b - 1\<rparr>"
  let ?p = "msgPtr b ! unat (firstFullBuffer b)"
  have ring: "ring_inv sz b" using inv by (simp add: circ_inv_def)
  have "GetOldest sz b = (Some ?p, ?b)"
    using ne by (simp add: GetOldest_def GetFirstFullBuffer_def IsEmpty_iff)
  moreover have "circ_inv sz ?b"
    using ring_inv_take_first[OF ring ne] inv by (simp add: circ_inv_def)
  moreover have "circ_contents sz b = msg_store b ?p # circ_contents sz ?b"
    using circ_ptrs_take_first[OF ring ne] by (simp add: circ_contents_def)
  ultimately show ?thesis
    by (intro exI[of _ ?p] exI[of _ ?b]) simp
qed

lemma GetOldest_empty: "unat (numElements b) = 0 \<Longrightarrow> GetOldest sz b = (None, b)"
  by (simp add: GetOldest_def IsEmpty_iff)


text \<open>
  The newest element: \<open>nextCleanBuffer\<close> is decremented as a \<open>UINT8\<close> and then reduced modulo
  the size. At \<open>nextCleanBuffer = 0\<close> the decrement gives 255, so the place is the last one of
  the ring when the size divides 256.
\<close>

lemma GetNewest_empty: "unat (numElements b) = 0 \<Longrightarrow> GetNewest sz b = (None, b)"
  by (simp add: GetNewest_def IsEmpty_iff)

lemma last_full_place:
  assumes ring: "ring_inv sz b" and ne: "unat (numElements b) \<noteq> 0"
    and wrap: "nextCleanBuffer b \<noteq> 0 \<or> unat sz dvd 256"
  shows "unat ((nextCleanBuffer b - 1) mod sz) = ring_pos sz b (unat (numElements b) - 1)"
proof -
  let ?n = "unat sz" and ?c = "unat (nextCleanBuffer b)"
  have n: "0 < ?n" "?c < ?n" "?c = ring_pos sz b (unat (numElements b))"
    using ring by (auto simp: ring_inv_def)
  have step: "(ring_pos sz b (unat (numElements b) - 1) + 1) mod ?n = ?c"
    using n ne by (simp add: ring_pos_def mod_Suc_eq)
  have less: "ring_pos sz b (unat (numElements b) - 1) < ?n"
    using n(1) by (simp add: ring_pos_def)
  show ?thesis
  proof (cases "nextCleanBuffer b = 0")
    case True
    then have c0: "?c = 0" by simp
    with prev_place[OF step less] have "ring_pos sz b (unat (numElements b) - 1) = ?n - 1"
      by simp
    moreover from True wrap have "?n dvd 256" by simp
    then have "255 mod ?n = ?n - 1"
    proof (rule dvdE)
      fix q assume q: "256 = ?n * q"
      then have "0 < q" by (cases q) auto
      then have "255 = (?n - 1) + ?n * (q - 1)"
        using q n(1) by (cases q) (auto simp: algebra_simps)
      then show ?thesis using n(1) by (metis diff_less mod_less mod_mult_self2 zero_less_one)
    qed
    moreover have "unat (nextCleanBuffer b - 1) = 255"
      using True by (simp add: unsigned_minus_1_eq_mask mask_eq_exp_minus_1)
    ultimately show ?thesis by (simp add: unat_mod)
  next
    case False
    then have "unat (nextCleanBuffer b - 1) = ?c - 1" and "?c \<noteq> 0"
      by (simp_all add: unat_minus_one_pos unat_eq_zero)
    moreover from this(2) prev_place[OF step less]
    have "ring_pos sz b (unat (numElements b) - 1) = ?c - 1" by simp
    ultimately show ?thesis using n by (simp add: unat_mod)
  qed
qed

lemma circ_ptrs_drop_newest:
  assumes ring: "ring_inv sz b" and ne: "unat (numElements b) \<noteq> 0"
  shows "circ_ptrs sz b = circ_ptrs sz (b\<lparr>nextCleanBuffer := c, numElements := numElements b - 1\<rparr>)
       @ [msgPtr b ! ring_pos sz b (unat (numElements b) - 1)]"
proof -
  have "[0..<unat (numElements b)] = [0..<unat (numElements b) - 1] @ [unat (numElements b) - 1]"
    using ne by (metis Suc_diff_1 not_gr_zero upt_Suc_append le0)
  then show ?thesis using ne by (simp add: circ_ptrs_def unat_num_dec ring_pos_def)
qed

lemma GetNewest_nonempty:
  assumes inv: "circ_inv sz b" and ne: "unat (numElements b) \<noteq> 0"
    and wrap: "nextCleanBuffer b \<noteq> 0 \<or> unat sz dvd 256"
  shows "\<exists>p b'. GetNewest sz b = (Some p, b') \<and> circ_inv sz b' \<and> msg_store b' = msg_store b
    \<and> circ_contents sz b = circ_contents sz b' @ [msg_store b p]"
proof -
  let ?l = "(nextCleanBuffer b - 1) mod sz"
  let ?b = "b\<lparr>nextCleanBuffer := ?l, numElements := numElements b - 1\<rparr>"
  have ring: "ring_inv sz b" using inv by (simp add: circ_inv_def)
  note place = last_full_place[OF ring ne wrap]
  have "GetNewest sz b = (Some (msgPtr b ! unat ?l), ?b)"
    using ne by (simp add: GetNewest_def GetLastFullBuffer_def IsEmpty_iff Let_def)
  moreover have "circ_inv sz ?b"
    using inv place ne by (auto simp: circ_inv_def ring_inv_def unat_num_dec ring_pos_def)
  moreover have "circ_contents sz b = circ_contents sz ?b @ [msg_store b (msgPtr b ! unat ?l)]"
    using circ_ptrs_drop_newest[OF ring ne, of ?l] place by (simp add: circ_contents_def)
  ultimately show ?thesis
    by (intro exI[of _ "msgPtr b ! unat ?l"] exI[of _ ?b]) simp
qed

text \<open>Erasing reads every pointer off the ring and leaves it empty.\<close>

lemma ClearBuffer_ok:
  "circ_inv sz b \<Longrightarrow> circ_inv sz (ClearBuffer sz b) \<and> circ_contents sz (ClearBuffer sz b) = []
    \<and> msg_store (ClearBuffer sz b) = msg_store b"
proof (induction sz b rule: ClearBuffer.induct)
  case (1 sz b)
  show ?case
  proof (cases "IsEmpty b")
    case True
    with "1.prems" show ?thesis
      by (subst (1 2 3) ClearBuffer.simps) (simp add: IsEmpty_iff circ_contents_def circ_ptrs_def)
  next
    case False
    then have ne: "unat (numElements b) \<noteq> 0" by (simp add: IsEmpty_iff)
    have step: "snd (GetFirstFullBuffer sz b) = snd (GetOldest sz b)"
      using False by (simp add: GetOldest_def split: prod.splits)
    with GetOldest_nonempty[OF "1.prems" ne] have
      "circ_inv sz (snd (GetFirstFullBuffer sz b))"
      and "msg_store (snd (GetFirstFullBuffer sz b)) = msg_store b" by auto
    with "1.IH"[OF False] False show ?thesis
      by (subst (1 2 3) ClearBuffer.simps) simp
  qed
qed

section \<open>The queue contract\<close>

text \<open>The queue of the MAC layers: whole messages stored at the back, the oldest taken out.\<close>

definition circ_push :: "u8 \<Rightarrow> message \<Rightarrow> message circ_buf \<Rightarrow> bool \<times> message circ_buf" where
  "circ_push sz m b = Store sz m (of_nat GetMessageSize) b"

definition circ_pop :: "u8 \<Rightarrow> 'm circ_buf \<Rightarrow> 'm option \<times> 'm circ_buf" where
  "circ_pop sz b =
     (case GetOldest sz b of (None, b') \<Rightarrow> (None, b') | (Some p, b') \<Rightarrow> (Some (msg_store b' p), b'))"

lemma message_size_u8: "unat (of_nat GetMessageSize :: u8) = GetMessageSize"
  by (simp add: message_sizes)

interpretation circ: bounded_fifo "circ_inv sz" "circ_contents sz" "unat sz" "circ_push sz" "circ_pop sz"
  for sz :: u8
proof (unfold_locales, goal_cases)
  case (1 s)
  then show ?case by (rule circ_bound)
next
  case (2 s x)
  then show ?case
    using Store_room[of sz s "of_nat GetMessageSize" x]
    by (auto simp: circ_push_def message_size_u8)
next
  case (3 s x)
  then show ?case by (simp add: circ_push_def Store_refused IsFull_iff)
next
  case (4 s x xs)
  then have "unat (numElements s) \<noteq> 0"
    by (metis length_circ_contents length_0_conv list.distinct(1))
  with 4 GetOldest_nonempty[of sz s] show ?case by (fastforce simp: circ_pop_def)
next
  case (5 s)
  then have "unat (numElements s) = 0" by (metis length_circ_contents list.size(3))
  then show ?case by (simp add: circ_pop_def GetOldest_empty)
qed

lemma DropOldest_eq:
  fixes b :: "'m circ_buf"
  shows "DropOldest sz k b = ((\<lambda>b. snd (circ_pop sz b)) ^^ unat k) b"
proof -
  have "(\<lambda>b :: 'm circ_buf. snd (GetOldest sz b)) = (\<lambda>b. snd (circ_pop sz b))"
    by (rule ext) (auto simp: circ_pop_def split: prod.splits option.splits)
  then show ?thesis by (simp add: DropOldest_def)
qed


section \<open>Dropping from the middle\<close>

text \<open>
  Written over the offsets \<open>u\<close> from the first full place: the shift moves the pointers of the
  offsets behind \<open>t\<close> down by one and leaves the last one where it was.
\<close>

lemma drop_shift_ring:
  assumes "length ptrs = unat sz" and "num \<le> unat sz" and "t < num" and "f < unat sz"
    and "unat next = (f + num) mod unat sz"
    and "unat j = (f + t) mod unat sz" and "unat i = (f + t + 1) mod unat sz"
    and "num \<le> t + 1 + fuel"
  shows "\<exists>ptrs'. drop_shift fuel sz next j i ptrs = Some ptrs' \<and> length ptrs' = unat sz
    \<and> (\<forall>u<unat sz. ptrs' ! ((f + u) mod unat sz) =
        (if t \<le> u \<and> u + 1 < num then ptrs ! ((f + u + 1) mod unat sz)
         else ptrs ! ((f + u) mod unat sz)))"
  using assms
proof (induction fuel arbitrary: t j i ptrs)
  case 0
  then have num: "num = t + 1" by simp
  with "0.prems"(5,7) have "i = next" by (simp add: word_unat_eq_iff add.assoc)
  moreover have "\<not> (t \<le> u \<and> u + 1 < num)" for u using num by linarith
  ultimately show ?case using "0.prems"(1) by auto
next
  case (Suc fuel)
  let ?n = "unat sz"
  have n: "0 < ?n" and tn: "t < ?n" using Suc.prems(2-4) by auto
  show ?case
  proof (cases "t + 1 = num")
    case True
    then have num: "num = t + 1" by simp
    with Suc.prems(5,7) have "i = next" by (simp add: word_unat_eq_iff add.assoc)
    with True Suc.prems(1) show ?thesis by auto
  next
    case False
    with Suc.prems(3) have t1: "t + 1 < num" by simp
    have "i \<noteq> next"
    proof
      assume "i = next"
      with Suc.prems(5,7) t1 have "((f + 1) + t) mod ?n = ((f + 1) + (num - 1)) mod ?n"
        by (simp add: add.commute add.left_commute)
      with ring_offset_inj[of "f + 1" t ?n "num - 1"] tn t1 Suc.prems(2) show False by linarith
    qed
    let ?ptrs = "ptrs[unat j := ptrs ! unat i]"
    have "unat i < ?n" "unat j < ?n" using Suc.prems(6,7) n by simp_all
    then have "drop_shift (Suc fuel) sz next j i ptrs = drop_shift fuel sz next i (wrap_inc sz i) ?ptrs"
      using \<open>i \<noteq> next\<close> Suc.prems(1) by simp
    moreover have "unat (wrap_inc sz i) = (f + (t + 1) + 1) mod ?n"
      using \<open>unat i < ?n\<close> Suc.prems(7) by (simp add: unat_wrap_inc' mod_Suc_eq)
    then obtain ptrs' where ptrs': "drop_shift fuel sz next i (wrap_inc sz i) ?ptrs = Some ptrs'"
        "length ptrs' = ?n"
      and nth: "\<And>u. u < ?n \<Longrightarrow> ptrs' ! ((f + u) mod ?n) =
        (if t + 1 \<le> u \<and> u + 1 < num then ?ptrs ! ((f + u + 1) mod ?n)
         else ?ptrs ! ((f + u) mod ?n))"
      using Suc.IH[of ?ptrs "t + 1" i "wrap_inc sz i"] Suc.prems t1 by (auto simp: add.assoc)
    moreover have "ptrs' ! ((f + u) mod ?n) =
        (if t \<le> u \<and> u + 1 < num then ptrs ! ((f + u + 1) mod ?n) else ptrs ! ((f + u) mod ?n))"
      if u: "u < ?n" for u
    proof (cases "u = t")
      case True
      with nth[OF u] t1 Suc.prems(1,6,7) n show ?thesis by simp
    next
      case False
      have keep: "?ptrs ! ((f + v) mod ?n) = ptrs ! ((f + v) mod ?n)" if "v < ?n" "v \<noteq> t" for v
        using ring_offset_neq[OF that(1) tn that(2), of f] Suc.prems(6) by simp
      from keep[of u] keep[of "u + 1"] nth[OF u] False u Suc.prems(2) show ?thesis
        by (auto simp: add.assoc)
    qed
    ultimately show ?thesis by auto
  qed
qed

lemma Drop_middle_state:
  assumes ring: "ring_inv sz b" and k: "0 < k" "k < unat (numElements b)"
    and pos: "unat cur_pos = ring_pos sz b k"
  shows "\<exists>b'. DropElementAtPosition sz cur_pos b = Some (True, b') \<and> ring_inv sz b'
    \<and> firstFullBuffer b' = firstFullBuffer b \<and> msg_store b' = msg_store b
    \<and> unat (numElements b') = unat (numElements b) - 1
    \<and> (\<forall>u<unat sz. msgPtr b' ! ring_pos sz b u =
        (if k \<le> u \<and> u + 1 < unat (numElements b) then msgPtr b ! ring_pos sz b (u + 1)
         else msgPtr b ! ring_pos sz b u))"
proof -
  let ?n = "unat sz" and ?f = "unat (firstFullBuffer b)" and ?num = "unat (numElements b)"
  from ring have b: "0 < ?n" "length (msgPtr b) = ?n" "?f < ?n" "unat (nextCleanBuffer b) < ?n"
    "?num \<le> ?n" "unat (nextCleanBuffer b) = (?f + ?num) mod ?n"
    by (auto simp: ring_inv_def ring_pos_def)
  have cur: "unat cur_pos = (?f + k) mod ?n" using pos by (simp add: ring_pos_def)
  with b(1) have cur_less: "unat cur_pos < ?n" by simp
  have notfirst: "cur_pos \<noteq> firstFullBuffer b"
  proof
    assume "cur_pos = firstFullBuffer b"
    with cur b(3) have "(?f + k) mod ?n = (?f + 0) mod ?n" by simp
    with ring_offset_inj[of ?f k ?n 0] k b(5) show False by simp
  qed
  have "unat (wrap_inc sz cur_pos) = (?f + k + 1) mod ?n"
    using cur cur_less by (simp add: unat_wrap_inc' mod_Suc_eq)
  with drop_shift_ring[of "msgPtr b" sz ?num k ?f "nextCleanBuffer b" cur_pos
      "wrap_inc sz cur_pos" ?n] b k cur
  obtain ptrs where ptrs: "drop_shift ?n sz (nextCleanBuffer b) cur_pos (wrap_inc sz cur_pos) (msgPtr b) = Some ptrs"
      "length ptrs = ?n"
    and nth: "\<forall>u<?n. ptrs ! ((?f + u) mod ?n) =
        (if k \<le> u \<and> u + 1 < ?num then msgPtr b ! ((?f + u + 1) mod ?n)
         else msgPtr b ! ((?f + u) mod ?n))"
    by auto
  let ?next = "if nextCleanBuffer b = 0 then sz - 1 else nextCleanBuffer b - 1"
  let ?b = "b\<lparr>msgPtr := ptrs, numElements := numElements b - 1, nextCleanBuffer := ?next\<rparr>"
  have sz1: "unat (sz - 1) = ?n - 1" using b(1) by (simp add: unat_minus_one_pos unat_gt_0)
  have dec: "unat (numElements b - 1) = ?num - 1" using k by (simp add: unat_num_dec)
  have step: "((?f + (?num - 1)) mod ?n + 1) mod ?n = unat (nextCleanBuffer b)"
    using b(6) k by (simp add: mod_Suc_eq)
  have less: "(?f + (?num - 1)) mod ?n < ?n" using b(1) by simp
  have "unat ?next = (?f + (?num - 1)) mod ?n"
    using prev_place[OF step less] sz1 by (simp add: unat_minus_one_pos unat_eq_zero)
  with b ptrs(2) k less dec have inv: "ring_inv sz ?b"
    by (auto simp: ring_inv_def ring_pos_def)
  have drop: "DropElementAtPosition sz cur_pos b = Some (True, ?b)"
    using notfirst ptrs(1) by (simp add: DropElementAtPosition_def)
  have nth': "\<forall>u<?n. ptrs ! ring_pos sz b u =
      (if k \<le> u \<and> u + 1 < ?num then msgPtr b ! ring_pos sz b (u + 1)
       else msgPtr b ! ring_pos sz b u)"
    using nth unfolding ring_pos_def add.assoc .
  have sel: "firstFullBuffer ?b = firstFullBuffer b" "msg_store ?b = msg_store b"
    "numElements ?b = numElements b - 1" "msgPtr ?b = ptrs"
    by simp_all
  show ?thesis
    by (rule exI[of _ ?b], unfold sel dec) (intro conjI drop inv nth' refl)
qed

lemma Drop_middle_ptrs:
  assumes "ring_inv sz b" and "k < unat (numElements b)"
    and "firstFullBuffer b' = firstFullBuffer b"
    and num: "unat (numElements b') = unat (numElements b) - 1"
    and nth: "\<forall>u<unat sz. msgPtr b' ! ring_pos sz b u =
        (if k \<le> u \<and> u + 1 < unat (numElements b) then msgPtr b ! ring_pos sz b (u + 1)
         else msgPtr b ! ring_pos sz b u)"
  shows "circ_ptrs sz b' = take k (circ_ptrs sz b) @ drop (Suc k) (circ_ptrs sz b)"
proof (rule nth_equalityI)
  show "length (circ_ptrs sz b') = length (take k (circ_ptrs sz b) @ drop (Suc k) (circ_ptrs sz b))"
    using assms(2) num by simp
next
  fix u assume "u < length (circ_ptrs sz b')"
  then have u: "u < unat (numElements b) - 1" using num by simp
  have pos: "ring_pos sz b' v = ring_pos sz b v" for v using assms(3) by (simp add: ring_pos_def)
  have "u < unat sz" using u assms(1) by (auto simp: ring_inv_def)
  with nth have "msgPtr b' ! ring_pos sz b u =
      (if k \<le> u then msgPtr b ! ring_pos sz b (u + 1) else msgPtr b ! ring_pos sz b u)"
    using u by auto
  then show "circ_ptrs sz b' ! u = (take k (circ_ptrs sz b) @ drop (Suc k) (circ_ptrs sz b)) ! u"
    using u num assms(2) by (auto simp: circ_ptrs_def pos nth_append min_def)
qed


section \<open>Properties\<close>

text \<open>
  C2. Refinement: from an initialized buffer, every sequence of Store and GetOldest calls
  answers exactly as a bounded list of the buffer's capacity does, and ends in a state whose
  contents are that list's; so nothing is lost, duplicated or reordered, and the ring
  invariant holds throughout.
\<close>

theorem circular_buffer_refines_bounded_list:
  assumes "0 < sz"
    and "fifo_run (circ_push sz) (circ_pop sz) cs (snd (Initialize_circ sz b)) = (outs, b')"
  shows "fifo_spec (unat sz) cs [] = (outs, circ_contents sz b') \<and> circ_inv sz b'
    \<and> fifo_taken cs outs = fifo_given outs @ circ_contents sz b'"
proof -
  note init = Initialize_circ_ok[OF assms(1), of b]
  show ?thesis
    using circ.run_refines_spec[OF conjunct1[OF init] assms(2)]
      circ.run_fifo_order(1)[OF conjunct1[OF init] assms(2)] init by simp
qed

definition sample_circ :: "message circ_buf" where
  "sample_circ = \<lparr>msgPtr = [], msg_store = (\<lambda>_. zero_message), nextCleanBuffer = 0,
     firstFullBuffer = 0, numElements = 0\<rparr>"

definition sample_msg :: "u8 \<Rightarrow> message" where
  "sample_msg n = zero_message\<lparr>header := zero_header\<lparr>payloadType := n\<rparr>\<rparr>"

lemma circular_buffer_refines_bounded_list_witness:
  "\<exists>outs b'. fifo_run (circ_push 2) (circ_pop 2) [Push (sample_msg 1), Push (sample_msg 2), Pop]
      (snd (Initialize_circ 2 sample_circ)) = (outs, b')
    \<and> fifo_spec 2 [Push (sample_msg 1), Push (sample_msg 2), Pop] [] = (outs, circ_contents 2 b')"
proof -
  obtain outs b' where run: "fifo_run (circ_push 2) (circ_pop 2)
      [Push (sample_msg 1), Push (sample_msg 2), Pop] (snd (Initialize_circ 2 sample_circ)) = (outs, b')"
    by (rule prod.exhaust)
  have "(0::u8) < 2" by simp
  from circular_buffer_refines_bounded_list[OF this run] run show ?thesis by simp
qed

text \<open>
  DropOldest drops the given number of oldest messages and keeps the order of the rest,
  and stops at the empty buffer when there are fewer; Erase leaves the buffer empty with its
  invariant intact.
\<close>

theorem DropOldest_Erase_contents:
  fixes b :: "message circ_buf"
  assumes "circ_inv sz b"
  shows "circ_contents sz (DropOldest sz k b) = drop (unat k) (circ_contents sz b)
    \<and> circ_inv sz (DropOldest sz k b)
    \<and> circ_contents sz (Erase sz b) = [] \<and> circ_inv sz (Erase sz b)"
  using circ.pop_funpow[OF assms, of "unat k"] ClearBuffer_ok[OF assms]
  by (simp add: DropOldest_eq Erase_def)

text \<open>
  GetNewest takes the newest message off the back of the queue and keeps the invariant,
  when the write position is not 0 or the capacity divides 256 (the MAC layers use 8).
\<close>

theorem GetNewest_takes_newest:
  assumes "circ_inv sz b" and "circ_contents sz b \<noteq> []"
    and "nextCleanBuffer b \<noteq> 0 \<or> unat sz dvd 256"
  shows "\<exists>p b'. GetNewest sz b = (Some p, b') \<and> circ_inv sz b'
    \<and> circ_contents sz b = circ_contents sz b' @ [msg_store b p]"
proof -
  have "unat (numElements b) \<noteq> 0"
    using assms(2) by (metis length_circ_contents length_0_conv)
  from GetNewest_nonempty[OF assms(1) this assms(3)] show ?thesis by blast
qed

text \<open>
  The bound above is sharp: at write position 0, with a capacity above 1 that does not
  divide 256, GetNewest reads the entry 255 mod capacity instead of the last one, which is
  a different message.
\<close>

theorem GetNewest_wrong_place:
  assumes "circ_inv sz b" and "circ_contents sz b \<noteq> []" and "nextCleanBuffer b = 0"
    and "\<not> unat sz dvd 256"
  shows "\<exists>p. fst (GetNewest sz b) = Some p \<and> p \<noteq> last (circ_ptrs sz b)"
proof -
  let ?n = "unat sz"
  have ne: "unat (numElements b) \<noteq> 0"
    using assms(2) by (metis length_circ_contents length_0_conv)
  have ring: "ring_inv sz b" and dist: "distinct (msgPtr b)" and len: "length (msgPtr b) = ?n"
    and n: "0 < ?n" using assms(1) by (auto simp: circ_inv_def ring_inv_def)
  have place: "fst (GetNewest sz b) = Some (msgPtr b ! (255 mod ?n))"
    using ne assms(3) by (simp add: GetNewest_def GetLastFullBuffer_def IsEmpty_iff Let_def
        unat_mod unsigned_minus_1_eq_mask mask_eq_exp_minus_1)
  have "(ring_pos sz b (unat (numElements b) - 1) + 1) mod ?n = 0"
    using ring ne assms(3) by (auto simp: ring_inv_def ring_pos_def mod_Suc_eq)
  from prev_place[OF this] n have lastpos: "ring_pos sz b (unat (numElements b) - 1) = ?n - 1"
    by (simp add: ring_pos_def)
  have "last (circ_ptrs sz b) = msgPtr b ! (?n - 1)"
    using circ_ptrs_drop_newest[OF ring ne, of 0] lastpos by simp
  moreover have "255 mod ?n \<noteq> ?n - 1"
  proof
    assume "255 mod ?n = ?n - 1"
    then have "(255 + 1) mod ?n = 0" using n by (metis Suc_diff_1 Suc_eq_plus1 mod_Suc)
    with assms(4) show False by (simp add: mod_eq_0_iff_dvd)
  qed
  then have "msgPtr b ! (255 mod ?n) \<noteq> msgPtr b ! (?n - 1)"
    using dist len n by (simp add: nth_eq_iff_index_eq)
  ultimately show ?thesis using place by simp
qed

definition full10 :: "message circ_buf" where
  "full10 = (snd (Initialize_circ 10 sample_circ))\<lparr>numElements := 10\<rparr>"

lemma full10_inv: "circ_inv 10 full10"
  by (auto simp: full10_def Initialize_circ_def circ_inv_def ring_inv_def ring_pos_def
      distinct_map inj_on_def)

text \<open>
  DropElementAtPosition, given the position of the k-th oldest message (not the oldest),
  returns true and removes exactly that message: the others keep their order.
\<close>

theorem DropElementAtPosition_removes:
  assumes "circ_inv sz b" and "0 < k" and "k < length (circ_contents sz b)"
    and "unat cur_pos = ring_pos sz b k"
  shows "\<exists>b'. DropElementAtPosition sz cur_pos b = Some (True, b') \<and> ring_inv sz b'
    \<and> circ_contents sz b' = take k (circ_contents sz b) @ drop (Suc k) (circ_contents sz b)"
proof -
  have ring: "ring_inv sz b" and k: "k < unat (numElements b)"
    using assms by (simp_all add: circ_inv_def)
  from Drop_middle_state[OF ring assms(2) k assms(4)] obtain b' where
    b': "DropElementAtPosition sz cur_pos b = Some (True, b')" "ring_inv sz b'"
      "firstFullBuffer b' = firstFullBuffer b" "msg_store b' = msg_store b"
      "unat (numElements b') = unat (numElements b) - 1"
    and nth: "\<forall>u<unat sz. msgPtr b' ! ring_pos sz b u =
        (if k \<le> u \<and> u + 1 < unat (numElements b) then msgPtr b ! ring_pos sz b (u + 1)
         else msgPtr b ! ring_pos sz b u)" by blast
  from Drop_middle_ptrs[OF ring k b'(3,5) nth] b' show ?thesis
    by (intro exI[of _ b']) (simp add: circ_contents_def take_map drop_map)
qed

definition full4 :: "message circ_buf" where
  "full4 = (snd (Initialize_circ 4 sample_circ))\<lparr>numElements := 3, nextCleanBuffer := 3\<rparr>"

lemma full4_inv: "circ_inv 4 full4"
  by (auto simp: full4_def Initialize_circ_def circ_inv_def ring_inv_def ring_pos_def
      distinct_map inj_on_def)

lemma full4_pos: "unat (1::u8) = ring_pos 4 full4 1" "1 < unat (numElements full4)"
  by (simp_all add: full4_def Initialize_circ_def ring_pos_def)

text \<open>
  The pointers are copied, not exchanged: after a drop from the middle, the free entry of
  the ring still designates the newest queued message, so the next Store overwrites that
  message as well; the queue then ends in two copies of the stored message.
\<close>

theorem Drop_then_Store_overwrites_newest:
  assumes inv: "circ_inv sz b" and k: "0 < k" "k + 1 < length (circ_contents sz b)"
    and pos: "unat cur_pos = ring_pos sz b k"
    and drop: "DropElementAtPosition sz cur_pos b = Some (True, b1)"
  shows "circ_contents sz (snd (circ_push sz m b1)) = butlast (circ_contents sz b1) @ [m, m]"
proof -
  let ?num = "unat (numElements b)"
  have ring: "ring_inv sz b" and k1: "k < ?num" and k2: "k + 1 < ?num" using inv k
    by (simp_all add: circ_inv_def)
  from Drop_middle_state[OF ring k(1) k1 pos] drop have b1: "ring_inv sz b1"
      "firstFullBuffer b1 = firstFullBuffer b" "msg_store b1 = msg_store b"
      "unat (numElements b1) = ?num - 1"
    and nth: "\<forall>u<unat sz. msgPtr b1 ! ring_pos sz b u =
        (if k \<le> u \<and> u + 1 < ?num then msgPtr b ! ring_pos sz b (u + 1)
         else msgPtr b ! ring_pos sz b u)" by auto
  note ptrs = Drop_middle_ptrs[OF ring k1 b1(2,4) nth]
  have num: "?num \<le> unat sz" using ring by (simp add: ring_inv_def)
  let ?p = "msgPtr b1 ! unat (nextCleanBuffer b1)"
  have pos1: "ring_pos sz b1 v = ring_pos sz b v" for v using b1(2) by (simp add: ring_pos_def)
  have "unat (nextCleanBuffer b1) = ring_pos sz b (?num - 1)"
    using b1(1,4) pos1 by (simp add: ring_inv_def)
  with nth num k2 have p: "?p = msgPtr b ! ring_pos sz b (?num - 1)" by auto
  have "circ_ptrs sz b = circ_ptrs sz (b\<lparr>nextCleanBuffer := 0, numElements := numElements b - 1\<rparr>) @ [?p]"
    using circ_ptrs_drop_newest[OF ring, of 0] k1 p by simp
  moreover have "distinct (circ_ptrs sz b)"
    using inv num by (auto simp: circ_ptrs_def circ_inv_def ring_inv_def distinct_map inj_on_def
        ring_pos_less nth_eq_iff_index_eq dest!: ring_offset_inj[unfolded ring_pos_def[symmetric]]
        intro: ring_offset_inj[of "unat (firstFullBuffer b)" _ "unat sz"] simp: ring_pos_def)
  ultimately obtain xs where xs: "circ_ptrs sz b = xs @ [?p]" "?p \<notin> set xs" by auto
  with k2 have "Suc k \<le> length xs" by (metis Suc_eq_plus1 Suc_leI length_append_singleton
        length_circ_ptrs less_Suc_eq_le)
  with ptrs xs have ptrs1: "circ_ptrs sz b1 = (take k xs @ drop (Suc k) xs) @ [?p]"
    and fresh: "?p \<notin> set (take k xs @ drop (Suc k) xs)"
    by (auto dest: in_set_takeD in_set_dropD)
  have room: "unat (numElements b1) < unat sz" using b1(4) num k1 by simp
  let ?b = "b1\<lparr>nextCleanBuffer := wrap_inc sz (nextCleanBuffer b1), numElements := numElements b1 + 1\<rparr>"
  have "snd (circ_push sz m b1) = ?b\<lparr>msg_store := (msg_store b1)(?p := m)\<rparr>"
    using room by (simp add: circ_push_def Store_def GetNextFreeBuffer_def IsFull_iff message_size_u8)
  then have "circ_contents sz (snd (circ_push sz m b1))
      = map ((msg_store b1)(?p := m)) (circ_ptrs sz b1 @ [?p])"
    using circ_ptrs_take_free[OF b1(1) room] by (simp add: circ_contents_def)
  with ptrs1 fresh show ?thesis by (auto simp: circ_contents_def butlast_append)
qed

end
