(* ===== verification/Hal_Queue.thy ===== *)
theory Hal_Queue
  imports Circular_Buffer
begin

text \<open>
  \<^verbatim>\<open>Hal_Queue_KnownSize\<close> and \<^verbatim>\<open>Hal_Queue_UnknownSize\<close> of
  \<^verbatim>\<open>DeviceCode/include/tinyhal.h\<close>, the ring queues under the USART, USB, I2C and
  debugger transports: single element and block transfers. The two classes are shown to be
  the same queue, to satisfy the contract of \<^verbatim>\<open>Fifo_Interface\<close>, and the block operations to
  move the longest contiguous run they can.
\<close>

section \<open>State\<close>

text \<open>
  \<open>m_writer\<close> and \<open>m_reader\<close> are \<open>size_t\<close>. They stay below the size, and block transfers add
  at most the distance to the end of the array, so they do not wrap and are naturals here.
\<close>

record 'a hal_queue =
  m_writer :: nat
  m_reader :: nat
  m_size :: nat
  m_full :: bool
  m_data :: "'a list"

section \<open>Hal\_Queue\_UnknownSize\<close>

definition UQ_Initialize :: "'a list \<Rightarrow> nat \<Rightarrow> 'a hal_queue" where
  "UQ_Initialize data sz =
     \<lparr>m_writer = 0, m_reader = 0, m_size = sz, m_full = False, m_data = data\<rparr>"

definition UQ_NumberOfElements :: "'a hal_queue \<Rightarrow> nat" where
  "UQ_NumberOfElements q =
     (if m_writer q < m_reader q then m_size q + m_writer q - m_reader q
      else if m_full q then m_size q
      else m_writer q - m_reader q)"

definition UQ_IsEmpty :: "'a hal_queue \<Rightarrow> bool" where
  "UQ_IsEmpty q = (m_writer q = m_reader q \<and> \<not> m_full q)"

definition UQ_IsFull :: "'a hal_queue \<Rightarrow> bool" where
  "UQ_IsFull q = m_full q"

text \<open>
  \<open>operator[]\<close>: the address of an element is its index in \<open>m_data\<close>. A negative index is
  refused first; the comparison with the unsigned count then takes the index as it is.
\<close>

definition UQ_index :: "int \<Rightarrow> 'a hal_queue \<Rightarrow> nat option" where
  "UQ_index i q =
     (if i < 0 \<or> int (UQ_NumberOfElements q) \<le> i then None
      else Some ((m_reader q + nat i) mod m_size q))"

definition UQ_Push :: "'a hal_queue \<Rightarrow> nat option \<times> 'a hal_queue" where
  "UQ_Push q =
     (let oldWriter = m_writer q in
      if m_full q then (None, q)
      else
        let w = (if m_writer q + 1 = m_size q then 0 else m_writer q + 1);
            q1 = q\<lparr>m_writer := w\<rparr>;
            q2 = (if w = m_reader q1 then q1\<lparr>m_full := True\<rparr> else q1)
        in (Some oldWriter, q2))"

definition UQ_Peek :: "'a hal_queue \<Rightarrow> nat option" where
  "UQ_Peek q = (if m_writer q = m_reader q \<and> \<not> m_full q then None else Some (m_reader q))"

definition UQ_Pop :: "'a hal_queue \<Rightarrow> nat option \<times> 'a hal_queue" where
  "UQ_Pop q =
     (let oldReader = m_reader q in
      if m_reader q = m_writer q \<and> \<not> m_full q then (None, q)
      else
        let r = (if m_reader q + 1 = m_size q then 0 else m_reader q + 1)
        in (Some oldReader, q\<lparr>m_reader := r, m_full := False\<rparr>))"

text \<open>
  The block operations take the wanted number of elements by reference and write back the
  number granted: the result is the start index, the granted number and the new state.
\<close>

definition UQ_Push_block :: "nat \<Rightarrow> 'a hal_queue \<Rightarrow> nat option \<times> nat \<times> 'a hal_queue" where
  "UQ_Push_block nElements q =
     (let oldWriter = m_writer q in
      if m_full q \<or> nElements = 0 then (None, 0, q)
      else
        let max = (if m_writer q < m_reader q then m_reader q - m_writer q
                   else m_size q - m_writer q);
            n = (if max < nElements then max else nElements);
            w = (if m_writer q + n = m_size q then 0 else m_writer q + n);
            q1 = q\<lparr>m_writer := w\<rparr>;
            q2 = (if w = m_reader q1 then q1\<lparr>m_full := True\<rparr> else q1)
        in (Some oldWriter, n, q2))"

definition UQ_Pop_block :: "nat \<Rightarrow> 'a hal_queue \<Rightarrow> nat option \<times> nat \<times> 'a hal_queue" where
  "UQ_Pop_block nElements q =
     (let oldReader = m_reader q in
      if nElements = 0 then (None, nElements, q)
      else if m_reader q = m_writer q \<and> \<not> m_full q
           then (None, 0, q\<lparr>m_reader := 0, m_writer := 0\<rparr>)
      else
        let max = (if m_writer q \<le> m_reader q then m_size q - m_reader q
                   else m_writer q - m_reader q);
            n = (if max < nElements then max else nElements);
            r = (if m_reader q + n = m_size q then 0 else m_reader q + n)
        in (Some oldReader, n, q\<lparr>m_reader := r, m_full := False\<rparr>))"

section \<open>Hal\_Queue\_KnownSize\<close>

text \<open>The template argument \<open>size\<close> is the field \<open>m_size\<close>.\<close>

definition KQ_Initialize :: "'a hal_queue \<Rightarrow> 'a hal_queue" where
  "KQ_Initialize q = q\<lparr>m_writer := 0, m_reader := 0, m_full := False\<rparr>"

definition KQ_NumberOfElements :: "'a hal_queue \<Rightarrow> nat" where
  "KQ_NumberOfElements q =
     (if m_writer q < m_reader q then m_size q + m_writer q - m_reader q
      else if m_full q then m_size q
      else m_writer q - m_reader q)"

definition KQ_index :: "int \<Rightarrow> 'a hal_queue \<Rightarrow> nat option" where
  "KQ_index i q =
     (if i < 0 \<or> int (KQ_NumberOfElements q) \<le> i then None
      else Some ((m_reader q + nat i) mod length (m_data q)))"

definition KQ_Push :: "'a hal_queue \<Rightarrow> nat option \<times> 'a hal_queue" where
  "KQ_Push q =
     (let oldWriter = m_writer q;
          nextWriter = (if oldWriter + 1 = m_size q then 0 else oldWriter + 1)
      in if m_full q then (None, q)
         else
           let q1 = (if nextWriter = m_reader q then q\<lparr>m_full := True\<rparr> else q)
           in (Some oldWriter, q1\<lparr>m_writer := nextWriter\<rparr>))"

definition KQ_Peek :: "'a hal_queue \<Rightarrow> nat option" where
  "KQ_Peek q = (if m_writer q = m_reader q \<and> \<not> m_full q then None else Some (m_reader q))"

definition KQ_Pop :: "'a hal_queue \<Rightarrow> nat option \<times> 'a hal_queue" where
  "KQ_Pop q =
     (let oldReader = m_reader q in
      if oldReader = m_writer q \<and> \<not> m_full q then (None, q)
      else
        let nextReader = (if oldReader + 1 = m_size q then 0 else oldReader + 1)
        in (Some oldReader, q\<lparr>m_reader := nextReader, m_full := False\<rparr>))"

section \<open>Invariant and contents\<close>

definition hq_inv :: "'a hal_queue \<Rightarrow> bool" where
  "hq_inv q \<longleftrightarrow> 0 < m_size q \<and> length (m_data q) = m_size q
     \<and> m_writer q < m_size q \<and> m_reader q < m_size q \<and> (m_full q \<longrightarrow> m_writer q = m_reader q)"

definition hq_contents :: "'a hal_queue \<Rightarrow> 'a list" where
  "hq_contents q =
     map (\<lambda>k. m_data q ! ((m_reader q + k) mod m_size q)) [0..<UQ_NumberOfElements q]"

text \<open>Writing a run of elements at the address a block push returned.\<close>

definition hq_write :: "nat \<Rightarrow> 'a list \<Rightarrow> 'a hal_queue \<Rightarrow> 'a hal_queue" where
  "hq_write i xs q = q\<lparr>m_data := take i (m_data q) @ xs @ drop (i + length xs) (m_data q)\<rparr>"

lemma length_hq_contents [simp]: "length (hq_contents q) = UQ_NumberOfElements q"
  by (simp add: hq_contents_def)

lemma hq_count_le: "hq_inv q \<Longrightarrow> UQ_NumberOfElements q \<le> m_size q"
  by (auto simp: hq_inv_def UQ_NumberOfElements_def)

lemma hq_writer_place:
  "hq_inv q \<Longrightarrow> m_writer q = (m_reader q + UQ_NumberOfElements q) mod m_size q"
  by (auto simp: hq_inv_def UQ_NumberOfElements_def mod_if)

lemma hq_full_iff: "hq_inv q \<Longrightarrow> m_full q \<longleftrightarrow> UQ_NumberOfElements q = m_size q"
  by (auto simp: hq_inv_def UQ_NumberOfElements_def split: if_splits)

lemma hq_empty_iff: "hq_inv q \<Longrightarrow> UQ_IsEmpty q \<longleftrightarrow> UQ_NumberOfElements q = 0"
  by (auto simp: hq_inv_def UQ_NumberOfElements_def UQ_IsEmpty_def split: if_splits)

text \<open>What a block push grants, and the state it leaves.\<close>

definition hq_room :: "'a hal_queue \<Rightarrow> nat" where
  "hq_room q = (if m_writer q < m_reader q then m_reader q - m_writer q else m_size q - m_writer q)"

definition hq_run :: "'a hal_queue \<Rightarrow> nat" where
  "hq_run q = (if m_writer q \<le> m_reader q then m_size q - m_reader q else m_writer q - m_reader q)"

lemma push_block_eq:
  assumes "\<not> m_full q" and "0 < n" and "k = min (hq_room q) n"
    and "w = (if m_writer q + k = m_size q then 0 else m_writer q + k)"
  shows "UQ_Push_block n q = (Some (m_writer q), k, q\<lparr>m_writer := w, m_full := (w = m_reader q)\<rparr>)"
proof -
  have "(if hq_room q < n then hq_room q else n) = k" using assms(3) by (simp add: min_def)
  with assms show ?thesis by (simp add: UQ_Push_block_def hq_room_def[symmetric] Let_def)
qed

lemma pop_block_eq:
  assumes "\<not> UQ_IsEmpty q" and "0 < n" and "k = min (hq_run q) n"
    and "r = (if m_reader q + k = m_size q then 0 else m_reader q + k)"
  shows "UQ_Pop_block n q = (Some (m_reader q), k, q\<lparr>m_reader := r, m_full := False\<rparr>)"
proof -
  have "(if hq_run q < n then hq_run q else n) = k" using assms(3) by (simp add: min_def)
  moreover have "\<not> (m_reader q = m_writer q \<and> \<not> m_full q)"
    using assms(1) by (auto simp: UQ_IsEmpty_def)
  ultimately show ?thesis using assms(2,4)
    by (simp add: UQ_Pop_block_def hq_run_def[symmetric] Let_def)
qed

lemma push_block_state:
  assumes inv: "hq_inv q" and full: "\<not> m_full q" and n: "0 < n"
  shows "\<exists>q'. UQ_Push_block n q = (Some (m_writer q), min (hq_room q) n, q') \<and> hq_inv q'
    \<and> m_data q' = m_data q \<and> m_reader q' = m_reader q \<and> m_size q' = m_size q
    \<and> UQ_NumberOfElements q' = UQ_NumberOfElements q + min (hq_room q) n
    \<and> m_writer q + min (hq_room q) n \<le> m_size q"
proof -
  define k where "k = min (hq_room q) n"
  define w where "w = (if m_writer q + k = m_size q then 0 else m_writer q + k)"
  define q' where "q' = q\<lparr>m_writer := w, m_full := (w = m_reader q)\<rparr>"
  have b: "0 < m_size q" "length (m_data q) = m_size q" "m_writer q < m_size q" "m_reader q < m_size q"
    using inv by (auto simp: hq_inv_def)
  have room: "0 < hq_room q" "m_writer q + hq_room q \<le> m_size q"
    "m_writer q < m_reader q \<Longrightarrow> hq_room q = m_reader q - m_writer q"
    using b by (auto simp: hq_room_def)
  have k: "0 < k" "k \<le> hq_room q" using n room(1) by (simp_all add: k_def)
  have "hq_inv q'" using b k room by (simp add: hq_inv_def q'_def w_def)
  moreover have "UQ_NumberOfElements q' = UQ_NumberOfElements q + k"
  proof (cases "m_writer q < m_reader q")
    case True
    with b k room(3)[OF True] show ?thesis
      by (auto simp: UQ_NumberOfElements_def q'_def w_def)
  next
    case False
    with b k room full show ?thesis
      by (auto simp: UQ_NumberOfElements_def q'_def w_def)
  qed
  moreover have "UQ_Push_block n q = (Some (m_writer q), k, q')"
    unfolding q'_def by (rule push_block_eq[OF full n k_def w_def])
  ultimately show ?thesis using k(2) room(2)
    by (intro exI[of _ q'], fold k_def) (simp add: q'_def)
qed

lemma pop_block_state:
  assumes inv: "hq_inv q" and ne: "\<not> UQ_IsEmpty q" and n: "0 < n"
  shows "\<exists>q'. UQ_Pop_block n q = (Some (m_reader q), min (hq_run q) n, q') \<and> hq_inv q'
    \<and> m_data q' = m_data q \<and> m_size q' = m_size q
    \<and> m_reader q' = (m_reader q + min (hq_run q) n) mod m_size q
    \<and> UQ_NumberOfElements q = min (hq_run q) n + UQ_NumberOfElements q'
    \<and> m_reader q + min (hq_run q) n \<le> m_size q"
proof -
  define k where "k = min (hq_run q) n"
  define r where "r = (if m_reader q + k = m_size q then 0 else m_reader q + k)"
  define q' where "q' = q\<lparr>m_reader := r, m_full := False\<rparr>"
  have b: "0 < m_size q" "length (m_data q) = m_size q" "m_writer q < m_size q" "m_reader q < m_size q"
    "m_full q \<longrightarrow> m_writer q = m_reader q"
    using inv by (auto simp: hq_inv_def)
  have run: "0 < hq_run q" "m_reader q + hq_run q \<le> m_size q"
    "m_reader q < m_writer q \<Longrightarrow> hq_run q = m_writer q - m_reader q"
    using b by (auto simp: hq_run_def)
  have k: "0 < k" "k \<le> hq_run q" using n run(1) by (simp_all add: k_def)
  have "hq_inv q'" using b k run by (simp add: hq_inv_def q'_def r_def)
  moreover have "UQ_NumberOfElements q = k + UQ_NumberOfElements q'"
  proof (cases "m_reader q < m_writer q")
    case True
    with b k run(3)[OF True] show ?thesis
      by (auto simp: UQ_NumberOfElements_def q'_def r_def)
  next
    case False
    with b k run ne show ?thesis
      by (auto simp: UQ_NumberOfElements_def q'_def r_def UQ_IsEmpty_def)
  qed
  moreover have "r = (m_reader q + k) mod m_size q" using b(4) k run(2) by (simp add: r_def)
  moreover have "UQ_Pop_block n q = (Some (m_reader q), k, q')"
    unfolding q'_def by (rule pop_block_eq[OF ne n k_def r_def])
  ultimately show ?thesis using k(2) run(2)
    by (intro exI[of _ q'], fold k_def) (simp add: q'_def)
qed

lemma single_push_is_block:
  assumes "hq_inv q"
  shows "UQ_Push q = (case UQ_Push_block 1 q of (p, n, q') \<Rightarrow> (p, q'))"
proof (cases "m_full q")
  case True
  then show ?thesis by (simp add: UQ_Push_def UQ_Push_block_def Let_def)
next
  case False
  have "min (hq_room q) 1 = 1" using assms by (auto simp: hq_inv_def hq_room_def)
  with push_block_eq[OF False zero_less_one refl refl] False show ?thesis
    by (simp add: UQ_Push_def Let_def)
qed

lemma single_pop_is_block:
  assumes "hq_inv q" and "\<not> UQ_IsEmpty q"
  shows "UQ_Pop q = (case UQ_Pop_block 1 q of (p, n, q') \<Rightarrow> (p, q'))"
proof -
  have "min (hq_run q) 1 = 1" using assms(1) by (auto simp: hq_inv_def hq_run_def)
  moreover have "\<not> (m_reader q = m_writer q \<and> \<not> m_full q)"
    using assms(2) by (auto simp: UQ_IsEmpty_def)
  ultimately show ?thesis using pop_block_eq[OF assms(2) zero_less_one refl refl]
    by (simp add: UQ_Pop_def Let_def)
qed

text \<open>The contents after a granted run is written, and after a run is taken out.\<close>

lemma hq_write_sel [simp]:
  "m_writer (hq_write i xs q) = m_writer q" "m_reader (hq_write i xs q) = m_reader q"
  "m_size (hq_write i xs q) = m_size q" "m_full (hq_write i xs q) = m_full q"
  "UQ_NumberOfElements (hq_write i xs q) = UQ_NumberOfElements q"
  by (simp_all add: hq_write_def UQ_NumberOfElements_def)

lemma hq_write_nth:
  assumes "i + length xs \<le> length (m_data q)" and "u < length (m_data q)"
  shows "m_data (hq_write i xs q) ! u =
    (if i \<le> u \<and> u < i + length xs then xs ! (u - i) else m_data q ! u)"
  using assms by (auto simp: hq_write_def nth_append min_def)

lemma push_block_contents:
  assumes inv: "hq_inv q" and full: "\<not> m_full q" and n: "0 < n"
    and xs: "length xs = min (hq_room q) n"
  shows "\<exists>q'. UQ_Push_block n q = (Some (m_writer q), length xs, q')
    \<and> hq_inv (hq_write (m_writer q) xs q')
    \<and> hq_contents (hq_write (m_writer q) xs q') = hq_contents q @ xs"
proof -
  from push_block_state[OF inv full n] xs obtain q' where
    push: "UQ_Push_block n q = (Some (m_writer q), length xs, q')" and inv': "hq_inv q'"
    and q': "m_data q' = m_data q" "m_reader q' = m_reader q" "m_size q' = m_size q"
    and num: "UQ_NumberOfElements q' = UQ_NumberOfElements q + length xs"
    and fit: "m_writer q + length xs \<le> m_size q" by metis
  let ?N = "m_size q" and ?r = "m_reader q" and ?num = "UQ_NumberOfElements q"
  let ?q = "hq_write (m_writer q) xs q'"
  have b: "0 < ?N" "length (m_data q) = ?N" using inv by (simp_all add: hq_inv_def)
  have bound: "?num + length xs \<le> ?N" using hq_count_le[OF inv'] num q'(3) by simp
  have w: "m_writer q = (?r + ?num) mod ?N" by (rule hq_writer_place[OF inv])
  have old: "m_data ?q ! ((?r + k) mod ?N) = m_data q ! ((?r + k) mod ?N)" if "k < ?num" for k
  proof -
    let ?u = "(?r + k) mod ?N"
    have "\<not> (m_writer q \<le> ?u \<and> ?u < m_writer q + length xs)"
    proof
      assume "m_writer q \<le> ?u \<and> ?u < m_writer q + length xs"
      then obtain j where j: "?u = m_writer q + j" "j < length xs" by (metis le_Suc_ex nat_add_left_cancel_less)
      have "(?r + (?num + j)) mod ?N = (m_writer q + j) mod ?N" using w by (simp add: mod_add_left_eq add.assoc)
      also have "\<dots> = m_writer q + j" using fit j(2) by simp
      finally have "(?r + k) mod ?N = (?r + (?num + j)) mod ?N" using j(1) by simp
      from ring_offset_inj[OF this] that bound j(2) show False by simp
    qed
    with hq_write_nth[of "m_writer q" xs q' ?u] fit b q' show ?thesis by simp
  qed
  have new: "m_data ?q ! ((?r + (?num + j)) mod ?N) = xs ! j" if "j < length xs" for j
  proof -
    have "(?r + (?num + j)) mod ?N = m_writer q + j"
      using w fit that by (metis add.assoc mod_add_left_eq mod_less nat_add_left_cancel_less
          order_less_le_trans)
    with hq_write_nth[of "m_writer q" xs q' "m_writer q + j"] fit that b q' show ?thesis by simp
  qed
  have "hq_contents ?q = hq_contents q @ xs"
  proof (rule nth_equalityI)
    show "length (hq_contents ?q) = length (hq_contents q @ xs)" using num by simp
  next
    fix k assume k: "k < length (hq_contents ?q)"
    show "hq_contents ?q ! k = (hq_contents q @ xs) ! k"
    proof (cases "k < ?num")
      case True
      with old[OF True] k q' num show ?thesis by (simp add: hq_contents_def nth_append)
    next
      case False
      then obtain j where "k = ?num + j" by (metis le_Suc_ex not_less)
      with new[of j] k q' num show ?thesis by (simp add: hq_contents_def nth_append)
    qed
  qed
  moreover have "hq_inv ?q" using inv' fit b q' by (simp add: hq_inv_def hq_write_def)
  ultimately show ?thesis using push by blast
qed

lemma pop_block_contents:
  assumes inv: "hq_inv q" and ne: "\<not> UQ_IsEmpty q" and n: "0 < n"
  shows "\<exists>k q'. UQ_Pop_block n q = (Some (m_reader q), k, q') \<and> hq_inv q' \<and> 0 < k \<and> k \<le> n
    \<and> hq_contents q = take k (drop (m_reader q) (m_data q)) @ hq_contents q'"
proof -
  define k where "k = min (hq_run q) n"
  from pop_block_state[OF inv ne n] obtain q' where
    pop: "UQ_Pop_block n q = (Some (m_reader q), k, q')" and inv': "hq_inv q'"
    and q': "m_data q' = m_data q" "m_size q' = m_size q"
      "m_reader q' = (m_reader q + k) mod m_size q"
    and num: "UQ_NumberOfElements q = k + UQ_NumberOfElements q'"
    and fit: "m_reader q + k \<le> m_size q" unfolding k_def by blast
  let ?N = "m_size q" and ?r = "m_reader q"
  have b: "length (m_data q) = ?N" "0 < hq_run q" using inv by (auto simp: hq_inv_def hq_run_def)
  have "hq_contents q = take k (drop ?r (m_data q)) @ hq_contents q'"
  proof (rule nth_equalityI)
    show "length (hq_contents q) = length (take k (drop ?r (m_data q)) @ hq_contents q')"
      using num fit b by simp
  next
    fix i assume i: "i < length (hq_contents q)"
    have split: "(?r + (k + j)) mod ?N = ((?r + k) mod ?N + j) mod ?N" for j
      by (simp add: mod_add_left_eq add.assoc)
    show "hq_contents q ! i = (take k (drop ?r (m_data q)) @ hq_contents q') ! i"
    proof (cases "i < k")
      case True
      with i num fit b show ?thesis by (simp add: hq_contents_def nth_append)
    next
      case False
      then obtain j where "i = k + j" by (metis le_Suc_ex not_less)
      with i num fit b q' split show ?thesis by (simp add: hq_contents_def nth_append)
    qed
  qed
  with pop inv' b(2) n show ?thesis by (intro exI[of _ k] exI[of _ q']) (simp add: k_def)
qed

section \<open>The queue contract\<close>

definition hq_push :: "'a \<Rightarrow> 'a hal_queue \<Rightarrow> bool \<times> 'a hal_queue" where
  "hq_push x q =
     (case UQ_Push q of (None, q') \<Rightarrow> (False, q') | (Some i, q') \<Rightarrow> (True, hq_write i [x] q'))"

definition hq_pop :: "'a hal_queue \<Rightarrow> 'a option \<times> 'a hal_queue" where
  "hq_pop q =
     (case UQ_Pop q of (None, q') \<Rightarrow> (None, q') | (Some i, q') \<Rightarrow> (Some (m_data q' ! i), q'))"

definition hq_ok :: "nat \<Rightarrow> 'a hal_queue \<Rightarrow> bool" where
  "hq_ok n q \<longleftrightarrow> hq_inv q \<and> m_size q = n"


lemma hq_push_room:
  assumes "hq_inv q" and "UQ_NumberOfElements q < m_size q"
  shows "\<exists>q'. hq_push x q = (True, q') \<and> hq_inv q' \<and> m_size q' = m_size q
    \<and> hq_contents q' = hq_contents q @ [x]"
proof -
  have full: "\<not> m_full q" using assms hq_full_iff[OF assms(1)] by auto
  have "min (hq_room q) 1 = 1" using assms(1) by (auto simp: hq_inv_def hq_room_def)
  then have "length [x] = min (hq_room q) 1" by simp
  from push_block_contents[OF assms(1) full zero_less_one this] obtain q' where
    q': "UQ_Push_block 1 q = (Some (m_writer q), length [x], q')"
      "hq_inv (hq_write (m_writer q) [x] q')"
      "hq_contents (hq_write (m_writer q) [x] q') = hq_contents q @ [x]" by blast
  moreover from push_block_state[OF assms(1) full zero_less_one] q'(1)
  have "m_size q' = m_size q" by auto
  ultimately show ?thesis using single_push_is_block[OF assms(1)]
    by (simp add: hq_push_def)
qed

lemma hq_pop_some:
  assumes "hq_inv q" and "hq_contents q = x # xs"
  shows "\<exists>q'. hq_pop q = (Some x, q') \<and> hq_inv q' \<and> m_size q' = m_size q \<and> hq_contents q' = xs"
proof -
  have "UQ_NumberOfElements q \<noteq> 0"
    using assms(2) by (metis length_hq_contents length_0_conv list.distinct(1))
  with assms(1) have ne: "\<not> UQ_IsEmpty q" by (simp add: hq_empty_iff)
  from pop_block_contents[OF assms(1) ne zero_less_one] obtain k q' where
    q': "UQ_Pop_block 1 q = (Some (m_reader q), k, q')" "hq_inv q'" "0 < k" "k \<le> 1"
      "hq_contents q = take k (drop (m_reader q) (m_data q)) @ hq_contents q'" by blast
  from pop_block_state[OF assms(1) ne zero_less_one] q'(1) have
    sel: "m_data q' = m_data q" "m_size q' = m_size q" by auto
  have "k = 1" using q'(3,4) by simp
  have "m_reader q < length (m_data q)" using assms(1) by (simp add: hq_inv_def)
  then have "take 1 (drop (m_reader q) (m_data q)) = [m_data q ! m_reader q]"
    by (simp add: take_Suc hd_drop_conv_nth)
  with q'(5) \<open>k = 1\<close> assms(2) have "x = m_data q ! m_reader q" "xs = hq_contents q'" by simp_all
  with single_pop_is_block[OF assms(1) ne] q'(1,2) sel show ?thesis
    by (simp add: hq_pop_def)
qed

interpretation hq: bounded_fifo "hq_ok n" hq_contents n hq_push hq_pop for n :: nat
proof (unfold_locales, goal_cases)
  case (1 s)
  then show ?case using hq_count_le by (auto simp: hq_ok_def)
next
  case (2 s x)
  then show ?case using hq_push_room[of s x] by (auto simp: hq_ok_def)
next
  case (3 s x)
  then have "m_full s" using hq_full_iff[of s] by (auto simp: hq_ok_def)
  then show ?case by (simp add: hq_push_def UQ_Push_def)
next
  case (4 s x xs)
  then show ?case using hq_pop_some[of s x xs] by (auto simp: hq_ok_def)
next
  case (5 s)
  then have "UQ_IsEmpty s"
    by (metis hq_ok_def hq_empty_iff length_hq_contents list.size(3))
  then show ?case by (simp add: hq_pop_def UQ_Pop_def UQ_IsEmpty_def)
qed

section \<open>Properties\<close>

lemma UQ_Initialize_ok: "0 < n \<Longrightarrow> length data = n \<Longrightarrow> hq_ok n (UQ_Initialize data n)"
  by (simp add: hq_ok_def hq_inv_def UQ_Initialize_def)

lemma UQ_Initialize_contents: "hq_contents (UQ_Initialize data n) = []"
  by (simp add: hq_contents_def UQ_NumberOfElements_def UQ_Initialize_def)

text \<open>
  The two queue templates are the same queue: on well-formed states with equal sizes
  every operation of Hal\_Queue\_KnownSize answers as Hal\_Queue\_UnknownSize does and leaves the
  same state, although Push orders its guard and its writes differently.
\<close>

theorem Known_and_Unknown_queue_agree:
  assumes "hq_inv q"
  shows "KQ_Push q = UQ_Push q \<and> KQ_Pop q = UQ_Pop q \<and> KQ_Peek q = UQ_Peek q
    \<and> KQ_NumberOfElements q = UQ_NumberOfElements q \<and> KQ_index i q = UQ_index i q
    \<and> KQ_Initialize q = UQ_Initialize (m_data q) (m_size q)"
  using assms
  by (simp add: KQ_Push_def UQ_Push_def KQ_Pop_def UQ_Pop_def KQ_Peek_def UQ_Peek_def
      KQ_NumberOfElements_def UQ_NumberOfElements_def KQ_index_def UQ_index_def
      KQ_Initialize_def UQ_Initialize_def Let_def hq_inv_def)

text \<open>
  C28. The HAL queue refines a bounded list: every sequence of pushes (a Push and the write
  through the returned address) and pops from an initialized queue gives the answers of a
  bounded FIFO list of the queue's size, and the elements come out in the order they went in.
\<close>

theorem hal_queue_refines_bounded_list:
  assumes "0 < n" and "length data = n"
    and "fifo_run hq_push hq_pop cs (UQ_Initialize data n) = (outs, q')"
  shows "fifo_spec n cs [] = (outs, hq_contents q')
    \<and> fifo_taken cs outs = fifo_given outs @ hq_contents q' \<and> hq_inv q'"
proof -
  note ok = UQ_Initialize_ok[OF assms(1,2)]
  show ?thesis
    using hq.run_refines_spec[OF ok assms(3)] hq.run_fifo_order(1)[OF ok assms(3)]
    by (simp add: UQ_Initialize_contents hq_ok_def)
qed

lemma hal_queue_refines_bounded_list_witness:
  "\<exists>outs q'. fifo_run hq_push hq_pop [Push 7, Push 8, Push 9, Pop] (UQ_Initialize [0::nat, 0] 2) = (outs, q')
    \<and> fifo_spec 2 [Push 7, Push 8, Push 9, Pop] [] = (outs, hq_contents q')"
proof -
  obtain outs q' where run: "fifo_run hq_push hq_pop [Push 7, Push 8, Push 9, Pop]
      (UQ_Initialize [0::nat, 0] 2) = (outs, q')" by (rule prod.exhaust)
  from hal_queue_refines_bounded_list[OF _ _ run] run show ?thesis by (metis list.size(3,4)
        One_nat_def Suc_1 add.right_neutral add_Suc_right zero_less_Suc)
qed

text \<open>
  Block transfers: a block push on a queue that is not full grants at least one and at most
  the wanted number of elements, and writing exactly the granted run appends it to the
  contents; a block pop hands out a contiguous run of the array that is the front of the
  contents and removes it.
\<close>

theorem block_transfers_preserve_order:
  assumes inv: "hq_inv q" and n: "0 < n"
  shows "(\<not> m_full q \<longrightarrow>
      (\<exists>k q'. UQ_Push_block n q = (Some (m_writer q), k, q') \<and> 0 < k \<and> k \<le> n
        \<and> (\<forall>xs. length xs = k \<longrightarrow> hq_inv (hq_write (m_writer q) xs q')
             \<and> hq_contents (hq_write (m_writer q) xs q') = hq_contents q @ xs)))
    \<and> (\<not> UQ_IsEmpty q \<longrightarrow>
      (\<exists>k q'. UQ_Pop_block n q = (Some (m_reader q), k, q') \<and> hq_inv q' \<and> 0 < k \<and> k \<le> n
        \<and> hq_contents q = take k (drop (m_reader q) (m_data q)) @ hq_contents q'))"
proof (intro conjI impI)
  assume full: "\<not> m_full q"
  let ?k = "min (hq_room q) n"
  from push_block_state[OF inv full n] obtain q' where
    push: "UQ_Push_block n q = (Some (m_writer q), ?k, q')" by blast
  have "0 < ?k" using inv n by (auto simp: hq_inv_def hq_room_def)
  moreover have "hq_inv (hq_write (m_writer q) xs q')
      \<and> hq_contents (hq_write (m_writer q) xs q') = hq_contents q @ xs" if "length xs = ?k" for xs
    using push_block_contents[OF inv full n that] push that by auto
  ultimately show "\<exists>k q'. UQ_Push_block n q = (Some (m_writer q), k, q') \<and> 0 < k \<and> k \<le> n
      \<and> (\<forall>xs. length xs = k \<longrightarrow> hq_inv (hq_write (m_writer q) xs q')
           \<and> hq_contents (hq_write (m_writer q) xs q') = hq_contents q @ xs)"
    using push by (intro exI[of _ ?k] exI[of _ q']) auto
next
  assume "\<not> UQ_IsEmpty q"
  from pop_block_contents[OF inv this n]
  show "\<exists>k q'. UQ_Pop_block n q = (Some (m_reader q), k, q') \<and> hq_inv q' \<and> 0 < k \<and> k \<le> n
      \<and> hq_contents q = take k (drop (m_reader q) (m_data q)) @ hq_contents q'" by blast
qed

end
