(* ===== verification/Packet_Store.thy ===== *)
theory Packet_Store
  imports Prelude
begin

text \<open>
  The contract between a store of packets and a client that purges it. The client's loops
  (\<^verbatim>\<open>NeighborTable::ClearNeighborwIndex\<close>, \<^verbatim>\<open>NeighborTable::InsertMessageGetIndex\<close> and the
  \<^verbatim>\<open>Flush...\<close> functions of \<^verbatim>\<open>Neighbors.h\<close>) look up a packet and delete it until the look-up
  returns \<open>NULL\<close>. They are partial functions, so that not returning is the value \<open>None\<close>. The
  locale says what the store must promise, and shows once that a purge returns and what it
  leaves.
\<close>

section \<open>The client's loops\<close>

text \<open>
  \<open>while(p != NULL)\<close> with body \<open>rem(p); p = next();\<close>, entered with \<open>p = c\<close>.
\<close>

partial_function (option) purge_from ::
  "('s \<Rightarrow> 'p option) \<Rightarrow> ('p option \<Rightarrow> 's \<Rightarrow> 's) \<Rightarrow> 'p option \<Rightarrow> 's \<Rightarrow> 's option"
where
  "purge_from look rem c s =
     (case c of None \<Rightarrow> Some s
      | Some p \<Rightarrow> purge_from look rem (look (rem (Some p) s)) (rem (Some p) s))"

text \<open>\<open>while(exists()) rem(look());\<close>\<close>

partial_function (option) purge_while ::
  "('s \<Rightarrow> bool) \<Rightarrow> ('s \<Rightarrow> 'p option) \<Rightarrow> ('p option \<Rightarrow> 's \<Rightarrow> 's) \<Rightarrow> 's \<Rightarrow> 's option"
where
  "purge_while exists look rem s =
     (if exists s then purge_while exists look rem (rem (look s) s) else Some s)"

lemma purge_from_None [simp]: "purge_from look rem None s = Some s"
  by (simp add: purge_from.simps)

lemma purge_from_Some:
  "purge_from look rem (Some p) s = purge_from look rem (look (rem (Some p) s)) (rem (Some p) s)"
  by (simp add: purge_from.simps)

text \<open>A loop whose body never changes the pointer it tests does not return.\<close>

lemma purge_from_constant: "purge_from (\<lambda>_. Some p) rem (Some p) s = None"
proof (cases "purge_from (\<lambda>_. Some p) rem (Some p) s")
  case (Some y)
  have "(\<lambda>_::'a. Some p) = (\<lambda>_. Some p) \<longrightarrow> Some p = Some p \<longrightarrow> False"
    by (rule purge_from.raw_induct[where P = "\<lambda>look rem c s y. look = (\<lambda>_. Some p) \<longrightarrow> c = Some p \<longrightarrow> False",
          OF _ Some]) fastforce
  then show ?thesis by simp
qed

section \<open>The contract\<close>

text \<open>The entries of a store that a purge of the matching ones leaves.\<close>

definition unmatched :: "('v \<Rightarrow> bool) \<Rightarrow> ('k \<rightharpoonup> 'v) \<Rightarrow> ('k \<rightharpoonup> 'v)" where
  "unmatched hit m k = (case m k of None \<Rightarrow> None | Some v \<Rightarrow> (if hit v then None else Some v))"

lemma unmatched_none: "(\<And>k v. m k = Some v \<Longrightarrow> \<not> hit v) \<Longrightarrow> unmatched hit m = m"
  by (auto simp: unmatched_def fun_eq_iff split: option.splits)

lemma unmatched_remove:
  "m k = Some v \<Longrightarrow> hit v \<Longrightarrow> unmatched hit (m(k := None)) = unmatched hit m"
  by (auto simp: unmatched_def fun_eq_iff)

lemma unmatched_Some: "unmatched hit m k = Some v \<longleftrightarrow> m k = Some v \<and> \<not> hit v"
  by (auto simp: unmatched_def split: option.splits)

locale packet_store =
  fixes inv :: "'s \<Rightarrow> bool"
    and entries :: "'s \<Rightarrow> ('p \<rightharpoonup> 'v)"
    and hit :: "'v \<Rightarrow> bool"
    and exists :: "'s \<Rightarrow> bool"
    and look :: "'s \<Rightarrow> 'p option"
    and rem :: "'p option \<Rightarrow> 's \<Rightarrow> 's"
  assumes finite_entries: "inv s \<Longrightarrow> finite (dom (entries s))"
    and look_None: "inv s \<Longrightarrow> look s = None \<Longrightarrow> entries s p = Some v \<Longrightarrow> \<not> hit v"
    and look_Some: "inv s \<Longrightarrow> look s = Some p \<Longrightarrow> \<exists>v. entries s p = Some v \<and> hit v"
    and exists_look: "inv s \<Longrightarrow> exists s \<longleftrightarrow> look s \<noteq> None"
    and rem_inv: "inv s \<Longrightarrow> entries s p = Some v \<Longrightarrow> inv (rem (Some p) s)"
    and rem_entries: "inv s \<Longrightarrow> entries s p = Some v \<Longrightarrow> entries (rem (Some p) s) = (entries s)(p := None)"
begin

lemma rem_smaller:
  "inv s \<Longrightarrow> entries s p = Some v \<Longrightarrow> card (dom (entries (rem (Some p) s))) < card (dom (entries s))"
  unfolding rem_entries dom_fun_upd by (auto intro: psubset_card_mono finite_entries)

text \<open>A purge returns, keeps the invariant, and removes the matching entries and nothing else.\<close>

lemma purge_total:
  "inv s \<Longrightarrow> \<exists>s'. purge_from look rem (look s) s = Some s' \<and> inv s' \<and> entries s' = unmatched hit (entries s)"
proof (induction "card (dom (entries s))" arbitrary: s rule: less_induct)
  case less
  show ?case
  proof (cases "look s")
    case None
    with look_None[OF less.prems None] have "unmatched hit (entries s) = entries s"
      by (intro unmatched_none)
    with None less.prems show ?thesis by simp
  next
    case (Some p)
    from look_Some[OF less.prems this] obtain v where v: "entries s p = Some v" "hit v" by blast
    from less.hyps[OF rem_smaller[OF less.prems v(1)] rem_inv[OF less.prems v(1)]] Some
    show ?thesis by (simp add: purge_from_Some rem_entries[OF less.prems v(1)] unmatched_remove[where m = "entries s" and k = p and v = v and hit = hit, OF v])
  qed
qed

lemma purge_while_eq: "inv s \<Longrightarrow> purge_while exists look rem s = purge_from look rem (look s) s"
proof (induction "card (dom (entries s))" arbitrary: s rule: less_induct)
  case less
  show ?case
  proof (cases "look s")
    case None
    with exists_look[OF less.prems] show ?thesis by (simp add: purge_while.simps[of exists look rem s])
  next
    case (Some p)
    from look_Some[OF less.prems this] obtain v where v: "entries s p = Some v" by blast
    from less.hyps[OF rem_smaller[OF less.prems v] rem_inv[OF less.prems v]] Some exists_look[OF less.prems]
    show ?thesis by (simp add: purge_while.simps[of exists look rem s] purge_from_Some)
  qed
qed

lemma purge_while_total:
  "inv s \<Longrightarrow> \<exists>s'. purge_while exists look rem s = Some s' \<and> inv s' \<and> entries s' = unmatched hit (entries s)"
  by (simp add: purge_while_eq purge_total)

lemma purge_clears:
  assumes "inv s" and "purge_from look rem (look s) s = Some s'"
  shows "look s' = None"
proof (rule ccontr)
  assume "look s' \<noteq> None"
  then obtain p where p: "look s' = Some p" by blast
  from purge_total[OF assms(1)] assms(2)
  have s': "inv s'" "entries s' = unmatched hit (entries s)" by auto
  from look_Some[OF s'(1) p] s'(2) show False by (auto simp: unmatched_Some)
qed

end

end
