(* ===== verification/Array_Buffer.thy ===== *)
theory Array_Buffer
  imports Message_Model Packet_Store
begin

text \<open>
  \<^verbatim>\<open>ArrayBuffer<BUFFERSIZE>\<close> of
  \<^verbatim>\<open>DeviceCode/include/Samraksh/Buffers/ArrayBuffer.h\<close>: the packet buffer of the MAC
  layers, an array of messages with an owner per slot. Its look-ups walk backwards from the
  last used slot and stop early once they have seen as many used slots as the buffer counts.
  Shown here: the counter is the number of used slots, so the early stop never hides a packet;
  the backward walk visits every slot once; look-ups return the oldest matching packet;
  insertion and deletion are the update and removal of one entry of a finite map. The contract
  a client's purge loops need is a locale, interpreted on the two look-ups.
\<close>

section \<open>State\<close>

datatype BufferOwner = BO_UNUSED | BO_CSMA | BO_OMAC | BO_MFUser

definition INVALID_PACKET_ID :: u16 where "INVALID_PACKET_ID = 255"

definition ISPACKET_ID_VALID :: "u16 \<Rightarrow> bool" where
  "ISPACKET_ID_VALID x = (if x = INVALID_PACKET_ID then False else True)"

record array_buffer =
  last_used_index :: u16
  num_elements :: u16
  send_packet_buffer :: "message list"
  buffer_owner :: "BufferOwner list"

text \<open>A message pointer: the address of a slot, a message elsewhere, or NULL.\<close>

datatype pkt_addr = PSlot u16 | PElsewhere nat

type_synonym pkt_ptr = "pkt_addr option"

text \<open>The template argument \<open>BUFFERSIZE\<close> is the argument \<open>bs\<close> of the operations.\<close>

abbreviation slot_owner :: "array_buffer \<Rightarrow> u16 \<Rightarrow> BufferOwner" where
  "slot_owner ab i \<equiv> buffer_owner ab ! unat i"

abbreviation slot_msg :: "array_buffer \<Rightarrow> u16 \<Rightarrow> message" where
  "slot_msg ab i \<equiv> send_packet_buffer ab ! unat i"

section \<open>Operations\<close>

definition Initialize_ab :: "u16 \<Rightarrow> array_buffer \<Rightarrow> array_buffer" where
  "Initialize_ab bs ab =
     ab\<lparr>last_used_index := 0, num_elements := 0, buffer_owner := replicate (unat bs) BO_UNUSED\<rparr>"

text \<open>The effect of a deletion on one slot of the arrays.\<close>

definition delete_slot :: "u16 \<Rightarrow> array_buffer \<Rightarrow> array_buffer" where
  "delete_slot index ab =
     (if slot_owner ab index \<noteq> BO_UNUSED
      then ab\<lparr>send_packet_buffer := (send_packet_buffer ab)[unat index := ClearMsgContents (slot_msg ab index)],
              buffer_owner := (buffer_owner ab)[unat index := BO_UNUSED],
              num_elements := num_elements ab - 1\<rparr>
      else ab)"

text \<open>
  \<open>None\<close> is an access behind the arrays: an index that is not 255 is not compared with the
  size.
\<close>

definition DeleteElementwIndex :: "u16 \<Rightarrow> array_buffer \<Rightarrow> array_buffer option" where
  "DeleteElementwIndex index ab =
     (if \<not> ISPACKET_ID_VALID index then Some ab
      else if unat index < length (buffer_owner ab) then Some (delete_slot index ab)
      else None)"

definition ChangeOwnerShipOfElementwIndex ::
  "u16 \<Rightarrow> BufferOwner \<Rightarrow> array_buffer \<Rightarrow> (bool \<times> array_buffer) option"
where
  "ChangeOwnerShipOfElementwIndex index n_buf_ow ab =
     (if \<not> ISPACKET_ID_VALID index then Some (False, ab)
      else if \<not> unat index < length (buffer_owner ab) then None
      else if slot_owner ab index \<noteq> BO_UNUSED then
        (if n_buf_ow = BO_UNUSED
         then map_option (\<lambda>ab'. (True, ab')) (DeleteElementwIndex index ab)
         else Some (True, ab\<lparr>buffer_owner := (buffer_owner ab)[unat index := n_buf_ow]\<rparr>))
      else Some (False, ab))"

text \<open>The place the backward walk visits in round \<open>j\<close>.\<close>

definition scan_index :: "u16 \<Rightarrow> u16 \<Rightarrow> u16 \<Rightarrow> u16" where
  "scan_index bs lui j = (if lui < j then (bs - j) + lui else lui - j)"

definition scan_order :: "u16 \<Rightarrow> array_buffer \<Rightarrow> u16 list" where
  "scan_order bs ab = map (\<lambda>j. scan_index bs (last_used_index ab) (of_nat j)) [0..<unat bs]"

definition GetIndex :: "u16 \<Rightarrow> pkt_ptr \<Rightarrow> array_buffer \<Rightarrow> u16" where
  "GetIndex bs temp_msg ab =
     (case find (\<lambda>i. Some (PSlot i) = temp_msg) (scan_order bs ab) of
        Some i \<Rightarrow> i | None \<Rightarrow> INVALID_PACKET_ID)"

text \<open>\<open>DeletePacket\<close> compares the index with the size before it deletes.\<close>

definition DeletePacket :: "u16 \<Rightarrow> pkt_ptr \<Rightarrow> array_buffer \<Rightarrow> bool \<times> array_buffer" where
  "DeletePacket bs msg_carrier ab =
     (let i = GetIndex bs msg_carrier ab in
      if i < bs then (True, if ISPACKET_ID_VALID i then delete_slot i ab else ab)
      else (False, ab))"

definition RemovePacketsWithRetryAttemptsGreaterThan ::
  "u16 \<Rightarrow> u8 \<Rightarrow> array_buffer \<Rightarrow> (bool \<times> array_buffer) option"
where
  "RemovePacketsWithRetryAttemptsGreaterThan bs r ab =
     (case find (\<lambda>i. r < msg_retries (send_packet_buffer ab ! i)) [0..<unat bs] of
        Some i \<Rightarrow> map_option (\<lambda>ab'. (True, ab')) (DeleteElementwIndex (of_nat i) ab)
      | None \<Rightarrow> Some (False, ab))"

definition FindStalePacketWithRetryAttemptsGreaterThan ::
  "u16 \<Rightarrow> u8 \<Rightarrow> BufferOwner \<Rightarrow> array_buffer \<Rightarrow> pkt_ptr"
where
  "FindStalePacketWithRetryAttemptsGreaterThan bs r n_buf_ow ab =
     (case find (\<lambda>i. buffer_owner ab ! i = n_buf_ow
                    \<and> r < msg_retries (send_packet_buffer ab ! i)) [0..<unat bs] of
        Some i \<Rightarrow> Some (PSlot (of_nat i)) | None \<Rightarrow> None)"

text \<open>What the four look-ups test in a slot.\<close>

definition is_tsr_for :: "u16 \<Rightarrow> array_buffer \<Rightarrow> u16 \<Rightarrow> bool" where
  "is_tsr_for address ab i =
     (slot_owner ab i = BO_OMAC
      \<and> msg_type (slot_msg ab i) = payload_code MFM_OMAC_TIMESYNCREQ
      \<and> msg_dest (slot_msg ab i) = address)"

definition is_data_for :: "u16 \<Rightarrow> array_buffer \<Rightarrow> u16 \<Rightarrow> bool" where
  "is_data_for address ab i =
     (slot_owner ab i = BO_OMAC
      \<and> msg_type (slot_msg ab i) \<noteq> payload_code MFM_OMAC_TIMESYNCREQ
      \<and> msg_dest (slot_msg ab i) = address)"

text \<open>
  The walk of \<open>IsThere\<dots>\<close>: it runs while fewer used slots have been seen than the buffer
  holds, counts a used slot, then tests it.
\<close>

fun exists_scan :: "(u16 \<Rightarrow> bool) \<Rightarrow> (u16 \<Rightarrow> bool) \<Rightarrow> u16 \<Rightarrow> u16 \<Rightarrow> u16 list \<Rightarrow> bool" where
  "exists_scan hit used num numiter [] = False"
| "exists_scan hit used num numiter (i # ixs) =
     (if numiter < num then
        (let numiter' = (if used i then numiter + 1 else numiter)
         in if hit i then True else exists_scan hit used num numiter' ixs)
      else False)"

text \<open>The walk of \<open>Find\<dots>\<close>: it keeps the hit with the smallest time stamp, the first on a tie.\<close>

fun oldest_scan ::
  "(u16 \<Rightarrow> bool) \<Rightarrow> (u16 \<Rightarrow> bool) \<Rightarrow> (u16 \<Rightarrow> u64) \<Rightarrow> u16 \<Rightarrow> u16 \<Rightarrow> u16 option \<Rightarrow> u16 list \<Rightarrow> u16 option"
where
  "oldest_scan hit used time num numiter rm [] = rm"
| "oldest_scan hit used time num numiter rm (i # ixs) =
     (if numiter < num then
        (let numiter' = (if used i then numiter + 1 else numiter);
             rm' = (if hit i then
                      (case rm of None \<Rightarrow> Some i
                       | Some r \<Rightarrow> (if time r > time i then Some i else rm))
                    else rm)
         in oldest_scan hit used time num numiter' rm' ixs)
      else rm)"

abbreviation slot_used :: "array_buffer \<Rightarrow> u16 \<Rightarrow> bool" where
  "slot_used ab i \<equiv> slot_owner ab i \<noteq> BO_UNUSED"

abbreviation slot_time :: "array_buffer \<Rightarrow> u16 \<Rightarrow> u64" where
  "slot_time ab i \<equiv> msg_time (slot_msg ab i)"

definition IsThereATSRPacketWithDest :: "u16 \<Rightarrow> u16 \<Rightarrow> array_buffer \<Rightarrow> bool" where
  "IsThereATSRPacketWithDest bs address ab =
     exists_scan (is_tsr_for address ab) (slot_used ab) (num_elements ab) 0 (scan_order bs ab)"

definition IsThereADataPacketWithDest :: "u16 \<Rightarrow> u16 \<Rightarrow> array_buffer \<Rightarrow> bool" where
  "IsThereADataPacketWithDest bs address ab =
     exists_scan (is_data_for address ab) (slot_used ab) (num_elements ab) 0 (scan_order bs ab)"

abbreviation ptr_of :: "u16 option \<Rightarrow> pkt_ptr" where
  "ptr_of r \<equiv> map_option PSlot r"

definition FindTSRPacketForNeighbor :: "u16 \<Rightarrow> u16 \<Rightarrow> array_buffer \<Rightarrow> pkt_ptr" where
  "FindTSRPacketForNeighbor bs neigh ab =
     ptr_of (oldest_scan (is_tsr_for neigh ab) (slot_used ab) (slot_time ab) (num_elements ab) 0 None
       (scan_order bs ab))"

definition FindDataPacketForNeighbor :: "u16 \<Rightarrow> u16 \<Rightarrow> array_buffer \<Rightarrow> pkt_ptr" where
  "FindDataPacketForNeighbor bs neigh ab =
     ptr_of (oldest_scan (is_data_for neigh ab) (slot_used ab) (slot_time ab) (num_elements ab) 0 None
       (scan_order bs ab))"

text \<open>Insertion takes the first unused slot after the last used one.\<close>

definition insert_order :: "u16 \<Rightarrow> array_buffer \<Rightarrow> u16 list" where
  "insert_order bs ab =
     map (\<lambda>i. of_nat ((i + unat (last_used_index ab) + 1) mod unat bs)) [0..<unat bs]"

definition put_slot :: "u16 \<Rightarrow> message \<Rightarrow> BufferOwner \<Rightarrow> array_buffer \<Rightarrow> array_buffer" where
  "put_slot index m bufow ab =
     ab\<lparr>send_packet_buffer := (send_packet_buffer ab)[unat index := m],
        buffer_owner := (buffer_owner ab)[unat index := bufow],
        last_used_index := index, num_elements := num_elements ab + 1\<rparr>"

definition InsertMessage :: "u16 \<Rightarrow> message \<Rightarrow> BufferOwner \<Rightarrow> array_buffer \<Rightarrow> bool \<times> array_buffer" where
  "InsertMessage bs m bufow ab =
     (if num_elements ab < bs then
        (case find (\<lambda>i. slot_owner ab i = BO_UNUSED) (insert_order bs ab) of
           Some index \<Rightarrow> (True, put_slot index m bufow ab)
         | None \<Rightarrow> (False, ab))
      else (False, ab))"

definition InsertMessageGetIndex :: "u16 \<Rightarrow> message \<Rightarrow> BufferOwner \<Rightarrow> array_buffer \<Rightarrow> u16 \<times> array_buffer" where
  "InsertMessageGetIndex bs m bufow ab =
     (if num_elements ab < bs then
        (case find (\<lambda>i. slot_owner ab i = BO_UNUSED) (insert_order bs ab) of
           Some index \<Rightarrow> (index, put_slot index m bufow ab)
         | None \<Rightarrow> (INVALID_PACKET_ID, ab))
      else (INVALID_PACKET_ID, ab))"

definition GetPacketPtrWithIndex :: "u16 \<Rightarrow> u16 \<Rightarrow> array_buffer \<Rightarrow> pkt_ptr" where
  "GetPacketPtrWithIndex bs index ab =
     (if ISPACKET_ID_VALID index \<and> index < bs then Some (PSlot index) else None)"

definition GetNumberofElements :: "array_buffer \<Rightarrow> u16" where
  "GetNumberofElements ab = num_elements ab"

section \<open>Invariant and abstraction\<close>

text \<open>
  Sizes above 255 would make the packet id 255 ambiguous; the code instantiates 18.
\<close>

definition ab_inv :: "u16 \<Rightarrow> array_buffer \<Rightarrow> bool" where
  "ab_inv bs ab \<longleftrightarrow> 0 < unat bs \<and> unat bs \<le> 255
     \<and> length (send_packet_buffer ab) = unat bs \<and> length (buffer_owner ab) = unat bs
     \<and> unat (last_used_index ab) < unat bs
     \<and> unat (num_elements ab) = count_if (\<lambda>ow. ow \<noteq> BO_UNUSED) (buffer_owner ab)"

text \<open>The finite map the buffer stands for.\<close>

definition ab_map :: "array_buffer \<Rightarrow> (u16 \<rightharpoonup> BufferOwner \<times> message)" where
  "ab_map ab i =
     (if unat i < length (buffer_owner ab) \<and> slot_owner ab i \<noteq> BO_UNUSED
      then Some (slot_owner ab i, slot_msg ab i) else None)"

lemma ab_map_Some:
  "ab_map ab i = Some (ow, m) \<longleftrightarrow>
     unat i < length (buffer_owner ab) \<and> slot_owner ab i = ow \<and> ow \<noteq> BO_UNUSED \<and> slot_msg ab i = m"
  by (auto simp: ab_map_def)


lemma ab_invD:
  assumes "ab_inv bs ab"
  shows "0 < unat bs" "unat bs \<le> 255" "length (send_packet_buffer ab) = unat bs"
    "length (buffer_owner ab) = unat bs" "unat (last_used_index ab) < unat bs"
    "unat (num_elements ab) = count_if (\<lambda>ow. ow \<noteq> BO_UNUSED) (buffer_owner ab)"
  using assms by (simp_all add: ab_inv_def)

lemma ab_map_dom: "dom (ab_map ab) \<subseteq> {i. unat i < length (buffer_owner ab)}"
  by (auto simp: ab_map_def split: if_splits)

lemma slot_usedI: "unat i < length (buffer_owner ab) \<Longrightarrow> slot_used ab i \<longleftrightarrow> i \<in> dom (ab_map ab)"
  by (auto simp: ab_map_def)

section \<open>The backward walk visits every slot once\<close>

lemma unat_of_nat_u16: "n \<le> 255 \<Longrightarrow> unat (of_nat n :: u16) = n"
  by (simp add: unat_of_nat)

lemma inj_on_unat: "inj_on (unat :: u16 \<Rightarrow> nat) A"
  by (simp add: inj_on_def word_unat_eq_iff)

lemma unat_scan_index:
  assumes "unat lui < unat bs" and "unat bs \<le> 255" and "j < unat bs"
  shows "unat (scan_index bs lui (of_nat j)) = (if unat lui < j then unat bs - j + unat lui else unat lui - j)"
proof -
  have j: "unat (of_nat j :: u16) = j"
    using assms by (intro unat_of_nat_u16) linarith
  have le: "(of_nat j :: u16) \<le> bs" using assms j by (simp add: word_le_nat_alt)
  have d: "unat (bs - of_nat j) = unat bs - j" using unat_sub[OF le] j by simp
  show ?thesis
  proof (cases "unat lui < j")
    case True
    have "unat (bs - of_nat j) + unat lui < 2 ^ LENGTH(16)"
      using assms d by simp
    with True d j show ?thesis
      by (simp add: scan_index_def word_less_nat_alt unat_add_lem[THEN iffD1])
  next
    case False
    then have "(of_nat j :: u16) \<le> lui" using j by (simp add: word_le_nat_alt)
    from unat_sub[OF this] False j show ?thesis
      by (simp add: scan_index_def word_less_nat_alt)
  qed
qed

lemma scan_order_unats:
  assumes "ab_inv bs ab"
  shows "map unat (scan_order bs ab) =
    map (\<lambda>j. if unat (last_used_index ab) < j then unat bs - j + unat (last_used_index ab)
             else unat (last_used_index ab) - j) [0..<unat bs]"
  using ab_invD[OF assms] by (simp add: scan_order_def unat_scan_index)

lemma scan_order_distinct:
  assumes "ab_inv bs ab"
  shows "distinct (scan_order bs ab)"
proof -
  have "distinct (map unat (scan_order bs ab))"
    unfolding scan_order_unats[OF assms] distinct_map
    by (auto simp: inj_on_def split: if_splits)
  then show ?thesis by (simp add: distinct_map)
qed

lemma scan_order_set:
  assumes "ab_inv bs ab"
  shows "set (scan_order bs ab) = {i. unat i < unat bs}"
proof -
  note inv = ab_invD[OF assms]
  have sub: "unat ` set (scan_order bs ab) \<subseteq> {..<unat bs}"
  proof -
    have "set (map unat (scan_order bs ab)) \<subseteq> {..<unat bs}"
      unfolding scan_order_unats[OF assms] using inv by auto
    then show ?thesis by simp
  qed
  have "card (unat ` set (scan_order bs ab)) = unat bs"
    using distinct_card[OF scan_order_distinct[OF assms]] card_image[OF inj_on_unat[of "set (scan_order bs ab)"]]
    by (simp add: scan_order_def)
  with sub have eq: "unat ` set (scan_order bs ab) = {..<unat bs}"
    by (intro card_subset_eq) simp_all
  show ?thesis
  proof (intro set_eqI iffI)
    fix i :: u16 assume "i \<in> set (scan_order bs ab)"
    with sub show "i \<in> {i. unat i < unat bs}" by auto
  next
    fix i :: u16 assume "i \<in> {i. unat i < unat bs}"
    with eq have "unat i \<in> unat ` set (scan_order bs ab)" by simp
    then show "i \<in> set (scan_order bs ab)" by (auto simp: word_unat_eq_iff[symmetric])
  qed
qed

text \<open>The counter is the number of used slots the walk meets.\<close>

lemma scan_used_count:
  assumes "ab_inv bs ab"
  shows "length (filter (slot_used ab) (scan_order bs ab)) = unat (num_elements ab)"
proof -
  note inv = ab_invD[OF assms]
  let ?U = "{i. i < length (buffer_owner ab) \<and> buffer_owner ab ! i \<noteq> BO_UNUSED}"
  have "length (filter (slot_used ab) (scan_order bs ab)) = card (set (filter (slot_used ab) (scan_order bs ab)))"
    using scan_order_distinct[OF assms] by (simp only: distinct_card distinct_filter)
  also have "\<dots> = card (unat ` set (filter (slot_used ab) (scan_order bs ab)))"
    by (rule card_image[OF inj_on_unat, symmetric])
  also have "unat ` set (filter (slot_used ab) (scan_order bs ab)) = ?U"
  proof (intro set_eqI iffI)
    fix n assume "n \<in> unat ` set (filter (slot_used ab) (scan_order bs ab))"
    then show "n \<in> ?U" using inv by (auto simp: scan_order_set[OF assms])
  next
    fix n assume n: "n \<in> ?U"
    then have u: "unat (of_nat n :: u16) = n" using inv by (intro unat_of_nat_u16) auto
    have "(of_nat n :: u16) \<in> set (filter (slot_used ab) (scan_order bs ab))"
      using n u inv by (auto simp: scan_order_set[OF assms])
    with u show "n \<in> unat ` set (filter (slot_used ab) (scan_order bs ab))"
      by (metis imageI)
  qed
  also have "card ?U = unat (num_elements ab)"
    using inv by (simp add: count_if_def length_filter_conv_card)
  finally show ?thesis .
qed

section \<open>The early stop hides nothing\<close>

lemma exists_scan_correct:
  assumes "unat num = unat numiter + length (filter used ixs)"
    and "\<And>i. hit i \<Longrightarrow> used i"
  shows "exists_scan hit used num numiter ixs \<longleftrightarrow> (\<exists>i\<in>set ixs. hit i)"
  using assms(1)
proof (induction ixs arbitrary: numiter)
  case Nil
  then show ?case by simp
next
  case (Cons i ixs)
  show ?case
  proof (cases "numiter < num")
    case True
    have step: "unat (numiter + 1) = unat numiter + 1" by (rule unat_plus_one[OF True])
    show ?thesis
    proof (cases "used i")
      case U: True
      with Cons.prems step have "unat num = unat (numiter + 1) + length (filter used ixs)" by simp
      from Cons.IH[OF this] True U show ?thesis by (auto simp: Let_def)
    next
      case F: False
      with Cons.prems have "unat num = unat numiter + length (filter used ixs)" by simp
      from Cons.IH[OF this] True F assms(2)[of i] show ?thesis by (auto simp: Let_def)
    qed
  next
    case False
    with Cons.prems have "filter used (i # ixs) = []"
      by (simp add: word_less_nat_alt del: filter.simps)
    then have "\<not> used k" if "k \<in> set (i # ixs)" for k
      using that by (metis filter_empty_conv)
    with assms(2) False show ?thesis by fastforce
  qed
qed

definition best_of :: "(u16 \<Rightarrow> u64) \<Rightarrow> u16 option \<Rightarrow> u16 \<Rightarrow> u16 option" where
  "best_of time rm i =
     (case rm of None \<Rightarrow> Some i | Some r \<Rightarrow> (if time r > time i then Some i else rm))"

lemma oldest_scan_fold:
  assumes "unat num = unat numiter + length (filter used ixs)"
    and "\<And>i. hit i \<Longrightarrow> used i"
  shows "oldest_scan hit used time num numiter rm ixs = foldl (best_of time) rm (filter hit ixs)"
  using assms(1)
proof (induction ixs arbitrary: numiter rm)
  case Nil
  then show ?case by simp
next
  case (Cons i ixs)
  show ?case
  proof (cases "numiter < num")
    case True
    have step: "unat (numiter + 1) = unat numiter + 1" by (rule unat_plus_one[OF True])
    show ?thesis
    proof (cases "used i")
      case U: True
      with Cons.prems step have "unat num = unat (numiter + 1) + length (filter used ixs)" by simp
      from Cons.IH[OF this] True U show ?thesis by (simp add: Let_def best_of_def)
    next
      case F: False
      with Cons.prems have "unat num = unat numiter + length (filter used ixs)" by simp
      from Cons.IH[OF this] True F assms(2)[of i] show ?thesis by (auto simp: Let_def)
    qed
  next
    case False
    with Cons.prems have "filter used (i # ixs) = []"
      by (simp add: word_less_nat_alt del: filter.simps)
    then have "\<not> hit k" if "k \<in> set (i # ixs)" for k
      using that assms(2) by (metis filter_empty_conv)
    then have "filter hit (i # ixs) = []" by (metis filter_False)
    with False show ?thesis by (simp del: filter.simps)
  qed
qed

lemma foldl_best_of_Some:
  "\<exists>r. foldl (best_of time) (Some x) ys = Some r \<and> r \<in> set (x # ys) \<and> (\<forall>k\<in>set (x # ys). time r \<le> time k)"
proof (induction ys arbitrary: x)
  case Nil
  then show ?case by simp
next
  case (Cons y ys)
  obtain z where z: "best_of time (Some x) y = Some z" "z = x \<or> z = y" "time z \<le> time x" "time z \<le> time y"
    by (rule that[of "if time y < time x then y else x"]) (auto simp: best_of_def)
  from Cons.IH[of z] obtain r where
    r: "foldl (best_of time) (Some z) ys = Some r" "r \<in> set (z # ys)" "\<forall>k\<in>set (z # ys). time r \<le> time k"
    by blast
  with z show ?case by (intro exI[of _ r]) (auto intro: order_trans)
qed

lemma foldl_best_of_None:
  "foldl (best_of time) None ys = None \<longleftrightarrow> ys = []"
proof (cases ys)
  case (Cons y ys')
  obtain r where "foldl (best_of time) (Some y) ys' = Some r"
    using foldl_best_of_Some by blast
  with Cons show ?thesis by (simp add: best_of_def)
qed simp

section \<open>Look-ups\<close>

lemma is_tsr_for_used: "is_tsr_for a ab i \<Longrightarrow> slot_used ab i"
  by (auto simp: is_tsr_for_def)

lemma is_data_for_used: "is_data_for a ab i \<Longrightarrow> slot_used ab i"
  by (auto simp: is_data_for_def)

lemma exists_scan_slots:
  assumes "ab_inv bs ab" and "\<And>i. hit i \<Longrightarrow> slot_used ab i"
  shows "exists_scan hit (slot_used ab) (num_elements ab) 0 (scan_order bs ab) \<longleftrightarrow>
    (\<exists>i. unat i < unat bs \<and> hit i)"
proof -
  have c: "unat (num_elements ab) = unat (0::u16) + length (filter (slot_used ab) (scan_order bs ab))"
    using scan_used_count[OF assms(1)] by simp
  show ?thesis
    using exists_scan_correct[OF c assms(2)] by (auto simp: scan_order_set[OF assms(1)])
qed

lemma oldest_scan_slots:
  assumes "ab_inv bs ab" and "\<And>i. hit i \<Longrightarrow> slot_used ab i"
  shows "case oldest_scan hit (slot_used ab) time (num_elements ab) 0 None (scan_order bs ab) of
      None \<Rightarrow> \<forall>i. unat i < unat bs \<longrightarrow> \<not> hit i
    | Some r \<Rightarrow> unat r < unat bs \<and> hit r \<and> (\<forall>i. unat i < unat bs \<longrightarrow> hit i \<longrightarrow> time r \<le> time i)"
proof -
  have c: "unat (num_elements ab) = unat (0::u16) + length (filter (slot_used ab) (scan_order bs ab))"
    using scan_used_count[OF assms(1)] by simp
  have fold: "oldest_scan hit (slot_used ab) time (num_elements ab) 0 None (scan_order bs ab) =
    foldl (best_of time) None (filter hit (scan_order bs ab))"
    by (rule oldest_scan_fold[OF c assms(2)])
  show ?thesis
  proof (cases "filter hit (scan_order bs ab)")
    case Nil
    then show ?thesis
      unfolding fold by (auto simp: filter_empty_conv scan_order_set[OF assms(1)])
  next
    case (Cons y ys)
    have eq: "foldl (best_of time) None (filter hit (scan_order bs ab)) = foldl (best_of time) (Some y) ys"
      using Cons by (simp add: best_of_def)
    obtain r where r: "foldl (best_of time) (Some y) ys = Some r" "r \<in> set (y # ys)"
      "\<forall>k\<in>set (y # ys). time r \<le> time k"
      using foldl_best_of_Some by blast
    have "set (y # ys) = {i. unat i < unat bs \<and> hit i}"
      unfolding Cons[symmetric] by (auto simp: scan_order_set[OF assms(1)])
    with r show ?thesis unfolding fold eq by auto
  qed
qed

lemma FindTSR_spec:
  assumes "ab_inv bs ab"
  shows "case FindTSRPacketForNeighbor bs a ab of
      None \<Rightarrow> \<forall>i. unat i < unat bs \<longrightarrow> \<not> is_tsr_for a ab i
    | Some p \<Rightarrow> \<exists>r. p = PSlot r \<and> unat r < unat bs \<and> is_tsr_for a ab r
        \<and> (\<forall>i. unat i < unat bs \<longrightarrow> is_tsr_for a ab i \<longrightarrow> slot_time ab r \<le> slot_time ab i)"
  using oldest_scan_slots[OF assms is_tsr_for_used, where hit = "is_tsr_for a ab" and time = "slot_time ab"]
  by (auto simp: FindTSRPacketForNeighbor_def split: option.splits)

lemma FindData_spec:
  assumes "ab_inv bs ab"
  shows "case FindDataPacketForNeighbor bs a ab of
      None \<Rightarrow> \<forall>i. unat i < unat bs \<longrightarrow> \<not> is_data_for a ab i
    | Some p \<Rightarrow> \<exists>r. p = PSlot r \<and> unat r < unat bs \<and> is_data_for a ab r
        \<and> (\<forall>i. unat i < unat bs \<longrightarrow> is_data_for a ab i \<longrightarrow> slot_time ab r \<le> slot_time ab i)"
  using oldest_scan_slots[OF assms is_data_for_used, where hit = "is_data_for a ab" and time = "slot_time ab"]
  by (auto simp: FindDataPacketForNeighbor_def split: option.splits)

lemma IsThereATSR_iff:
  "ab_inv bs ab \<Longrightarrow> IsThereATSRPacketWithDest bs a ab \<longleftrightarrow> (\<exists>i. unat i < unat bs \<and> is_tsr_for a ab i)"
  unfolding IsThereATSRPacketWithDest_def by (rule exists_scan_slots) (auto dest: is_tsr_for_used)

lemma IsThereAData_iff:
  "ab_inv bs ab \<Longrightarrow> IsThereADataPacketWithDest bs a ab \<longleftrightarrow> (\<exists>i. unat i < unat bs \<and> is_data_for a ab i)"
  unfolding IsThereADataPacketWithDest_def by (rule exists_scan_slots) (auto dest: is_data_for_used)

lemma IsThere_Find:
  assumes "ab_inv bs ab"
  shows "IsThereATSRPacketWithDest bs a ab \<longleftrightarrow> FindTSRPacketForNeighbor bs a ab \<noteq> None"
    and "IsThereADataPacketWithDest bs a ab \<longleftrightarrow> FindDataPacketForNeighbor bs a ab \<noteq> None"
  using FindTSR_spec[OF assms, of a] FindData_spec[OF assms, of a]
  by (auto simp: IsThereATSR_iff[OF assms] IsThereAData_iff[OF assms] split: option.splits)

section \<open>Deletion\<close>

lemma GetIndex_slot:
  assumes "ab_inv bs ab" and "unat i < unat bs"
  shows "GetIndex bs (Some (PSlot i)) ab = i"
proof -
  have "find (\<lambda>k. Some (PSlot k) = Some (PSlot i)) (scan_order bs ab) \<noteq> None"
    using assms(2) by (auto simp: find_None_iff scan_order_set[OF assms(1)])
  then obtain k where k: "find (\<lambda>k. Some (PSlot k) = Some (PSlot i)) (scan_order bs ab) = Some k" by blast
  from find_SomeD[OF this] k show ?thesis by (simp add: GetIndex_def)
qed

lemma GetIndex_other:
  assumes "ab_inv bs ab" and "\<And>i. unat i < unat bs \<Longrightarrow> p \<noteq> Some (PSlot i)"
  shows "GetIndex bs p ab = INVALID_PACKET_ID"
proof -
  have "find (\<lambda>k. Some (PSlot k) = p) (scan_order bs ab) = None"
    using assms(2) by (force simp: find_None_iff scan_order_set[OF assms(1)])
  then show ?thesis by (simp add: GetIndex_def)
qed

lemma valid_slot: "unat i < unat bs \<Longrightarrow> unat bs \<le> 255 \<Longrightarrow> ISPACKET_ID_VALID i"
  by (auto simp: ISPACKET_ID_VALID_def INVALID_PACKET_ID_def)

lemma delete_slot_inv [inv_intros]:
  assumes "ab_inv bs ab" and "unat i < unat bs"
  shows "ab_inv bs (delete_slot i ab)"
proof (cases "slot_used ab i")
  case True
  note inv = ab_invD[OF assms(1)]
  have i: "unat i < length (buffer_owner ab)" using inv assms(2) by simp
  have c: "count_if (\<lambda>ow. ow \<noteq> BO_UNUSED) ((buffer_owner ab)[unat i := BO_UNUSED]) + 1
      = unat (num_elements ab)"
    using count_if_update[OF i, of "\<lambda>ow. ow \<noteq> BO_UNUSED" BO_UNUSED] True inv by simp
  then have "num_elements ab \<noteq> 0" by auto
  from c unat_minus_one_pos[OF this] True inv assms(2) show ?thesis
    by (simp add: ab_inv_def delete_slot_def)
qed (use assms in \<open>simp add: delete_slot_def\<close>)

lemma delete_slot_map:
  assumes "ab_inv bs ab" and "unat i < unat bs"
  shows "ab_map (delete_slot i ab) = (ab_map ab)(i := None)"
  using ab_invD[OF assms(1)] assms(2)
  by (auto simp: ab_map_def delete_slot_def fun_eq_iff nth_list_update word_unat_eq_iff)

lemma DeletePacket_slot:
  assumes "ab_inv bs ab" and "unat i < unat bs"
  shows "DeletePacket bs (Some (PSlot i)) ab = (True, delete_slot i ab)"
  using GetIndex_slot[OF assms] valid_slot[OF assms(2) ab_invD(2)[OF assms(1)]] assms(2)
  by (simp add: DeletePacket_def word_less_nat_alt)

lemma DeletePacket_other:
  assumes "ab_inv bs ab" and "\<And>i. unat i < unat bs \<Longrightarrow> p \<noteq> Some (PSlot i)"
  shows "DeletePacket bs p ab = (False, ab)"
  using GetIndex_other[OF assms] ab_invD(2)[OF assms(1)]
  by (simp add: DeletePacket_def INVALID_PACKET_ID_def word_less_nat_alt)

section \<open>Insertion\<close>

lemma insert_order_set:
  assumes "ab_inv bs ab"
  shows "unat i < unat bs \<longleftrightarrow> i \<in> set (insert_order bs ab)"
proof -
  note inv = ab_invD[OF assms]
  let ?l = "unat (last_used_index ab)"
  have u: "unat (of_nat ((k + ?l + 1) mod unat bs) :: u16) = (k + ?l + 1) mod unat bs" for k
    using inv mod_less_divisor[OF inv(1), of "k + ?l + 1"] by (intro unat_of_nat_u16) linarith
  show ?thesis
  proof
    assume i: "unat i < unat bs"
    let ?k = "(unat i + (unat bs - 1 - ?l)) mod unat bs"
    have "(?k + ?l + 1) mod unat bs = (unat i + (unat bs - 1 - ?l) + (?l + 1)) mod unat bs"
      using mod_add_left_eq[of "unat i + (unat bs - 1 - ?l)" "unat bs" "?l + 1"] by simp
    also have "unat i + (unat bs - 1 - ?l) + (?l + 1) = unat i + unat bs" using inv by simp
    finally have "(?k + ?l + 1) mod unat bs = unat i" using i by simp
    then have "i = of_nat ((?k + ?l + 1) mod unat bs)" by simp
    moreover have "?k \<in> set [0..<unat bs]" using inv by simp
    ultimately show "i \<in> set (insert_order bs ab)"
      unfolding insert_order_def set_map by (rule image_eqI)
  next
    assume "i \<in> set (insert_order bs ab)"
    then obtain k where "i = of_nat ((k + ?l + 1) mod unat bs)" by (auto simp: insert_order_def)
    then show "unat i < unat bs" using inv u[of k] by (simp del: unat_of_nat)
  qed
qed

lemma free_slot_found:
  assumes "ab_inv bs ab" and "num_elements ab < bs"
  shows "\<exists>i. find (\<lambda>i. slot_owner ab i = BO_UNUSED) (insert_order bs ab) = Some i
           \<and> unat i < unat bs \<and> \<not> slot_used ab i"
proof -
  note inv = ab_invD[OF assms(1)]
  have "count_if (\<lambda>ow. ow \<noteq> BO_UNUSED) (buffer_owner ab) < length (buffer_owner ab)"
    using assms(2) inv by (simp add: word_less_nat_alt)
  then obtain n where n: "n < unat bs" "buffer_owner ab ! n = BO_UNUSED"
    using inv unfolding count_if_lt by auto
  have "unat (of_nat n :: u16) = n" using n inv by (intro unat_of_nat_u16) linarith
  with n have "unat (of_nat n :: u16) < unat bs" "slot_owner ab (of_nat n) = BO_UNUSED" by simp_all
  then have "find (\<lambda>i. slot_owner ab i = BO_UNUSED) (insert_order bs ab) \<noteq> None"
    by (auto simp: find_None_iff insert_order_set[OF assms(1)])
  then obtain i where i: "find (\<lambda>i. slot_owner ab i = BO_UNUSED) (insert_order bs ab) = Some i" by blast
  from find_SomeD[OF i] i show ?thesis by (auto simp: insert_order_set[OF assms(1)])
qed

lemma put_slot_inv [inv_intros]:
  assumes "ab_inv bs ab" and "unat i < unat bs" and "\<not> slot_used ab i" and "ow \<noteq> BO_UNUSED"
  shows "ab_inv bs (put_slot i m ow ab)"
proof -
  note inv = ab_invD[OF assms(1)]
  have i: "unat i < length (buffer_owner ab)" using inv assms(2) by simp
  have c: "count_if (\<lambda>ow. ow \<noteq> BO_UNUSED) ((buffer_owner ab)[unat i := ow]) = unat (num_elements ab) + 1"
    using count_if_update[OF i, of "\<lambda>ow. ow \<noteq> BO_UNUSED" ow] assms(3,4) inv by simp
  have "count_if (\<lambda>ow. ow \<noteq> BO_UNUSED) ((buffer_owner ab)[unat i := ow]) \<le> unat bs"
    using count_if_le[of _ "(buffer_owner ab)[unat i := ow]"] inv by simp
  with c have "num_elements ab < bs" by (simp add: word_less_nat_alt)
  from unat_plus_one[OF this] c inv assms(2) show ?thesis by (simp add: ab_inv_def put_slot_def)
qed

lemma put_slot_map:
  assumes "ab_inv bs ab" and "unat i < unat bs" and "ow \<noteq> BO_UNUSED"
  shows "ab_map (put_slot i m ow ab) = (ab_map ab)(i \<mapsto> (ow, m))"
  using ab_invD[OF assms(1)] assms(2,3)
  by (auto simp: ab_map_def put_slot_def fun_eq_iff nth_list_update word_unat_eq_iff)

lemma InsertMessageGetIndex_cases:
  assumes "ab_inv bs ab"
  obtains (room) i where "num_elements ab < bs" "unat i < unat bs" "\<not> slot_used ab i"
      "InsertMessageGetIndex bs m ow ab = (i, put_slot i m ow ab)"
      "InsertMessage bs m ow ab = (True, put_slot i m ow ab)"
  | (full) "\<not> num_elements ab < bs" "InsertMessageGetIndex bs m ow ab = (INVALID_PACKET_ID, ab)"
      "InsertMessage bs m ow ab = (False, ab)"
proof (cases "num_elements ab < bs")
  case True
  from free_slot_found[OF assms True] obtain i where
    "find (\<lambda>i. slot_owner ab i = BO_UNUSED) (insert_order bs ab) = Some i"
    "unat i < unat bs" "\<not> slot_used ab i" by blast
  with True show ?thesis
    by (intro room[of i]) (simp_all add: InsertMessageGetIndex_def InsertMessage_def)
next
  case False
  then show ?thesis by (intro full) (simp_all add: InsertMessageGetIndex_def InsertMessage_def)
qed

section \<open>The buffer provides the purge contract\<close>

definition ab_entries :: "array_buffer \<Rightarrow> (pkt_addr \<rightharpoonup> BufferOwner \<times> message)" where
  "ab_entries ab p = (case p of PSlot i \<Rightarrow> ab_map ab i | PElsewhere _ \<Rightarrow> None)"

definition tsr_hit :: "u16 \<Rightarrow> BufferOwner \<times> message \<Rightarrow> bool" where
  "tsr_hit a v = (fst v = BO_OMAC \<and> msg_type (snd v) = payload_code MFM_OMAC_TIMESYNCREQ \<and> msg_dest (snd v) = a)"

definition data_hit :: "u16 \<Rightarrow> BufferOwner \<times> message \<Rightarrow> bool" where
  "data_hit a v = (fst v = BO_OMAC \<and> msg_type (snd v) \<noteq> payload_code MFM_OMAC_TIMESYNCREQ \<and> msg_dest (snd v) = a)"

lemma is_tsr_for_map:
  "unat i < length (buffer_owner ab) \<Longrightarrow> is_tsr_for a ab i \<longleftrightarrow> (\<exists>v. ab_map ab i = Some v \<and> tsr_hit a v)"
  by (auto simp: is_tsr_for_def tsr_hit_def ab_map_def)

lemma is_data_for_map:
  "unat i < length (buffer_owner ab) \<Longrightarrow> is_data_for a ab i \<longleftrightarrow> (\<exists>v. ab_map ab i = Some v \<and> data_hit a v)"
  by (auto simp: is_data_for_def data_hit_def ab_map_def)

lemma ab_entries_Some:
  "ab_inv bs ab \<Longrightarrow> ab_entries ab p = Some v \<longleftrightarrow> (\<exists>i. p = PSlot i \<and> unat i < unat bs \<and> ab_map ab i = Some v)"
  using ab_invD(4)[of bs ab] ab_map_dom[of ab]
  by (auto simp: ab_entries_def split: pkt_addr.splits)

lemma ab_entries_finite: "finite (dom (ab_entries ab))"
proof (rule finite_subset)
  show "dom (ab_entries ab) \<subseteq> PSlot ` UNIV"
    by (auto simp: ab_entries_def split: pkt_addr.splits)
qed simp

lemma DeletePacket_entry:
  assumes "ab_inv bs ab" and "ab_entries ab p = Some v"
  shows "ab_inv bs (snd (DeletePacket bs (Some p) ab))"
    and "ab_entries (snd (DeletePacket bs (Some p) ab)) = (ab_entries ab)(p := None)"
proof -
  from assms obtain i where i: "p = PSlot i" "unat i < unat bs" by (auto simp: ab_entries_Some)
  show "ab_inv bs (snd (DeletePacket bs (Some p) ab))"
    using i DeletePacket_slot[OF assms(1) i(2)] delete_slot_inv[OF assms(1) i(2)] by simp
  show "ab_entries (snd (DeletePacket bs (Some p) ab)) = (ab_entries ab)(p := None)"
    using i DeletePacket_slot[OF assms(1) i(2)] delete_slot_map[OF assms(1) i(2)]
    by (auto simp: ab_entries_def fun_eq_iff split: pkt_addr.splits)
qed

interpretation tsr: packet_store "ab_inv bs" ab_entries "tsr_hit a" "IsThereATSRPacketWithDest bs a"
  "FindTSRPacketForNeighbor bs a" "\<lambda>p ab. snd (DeletePacket bs p ab)" for bs a
proof (unfold_locales, goal_cases)
  case (2 s p v)
  with FindTSR_spec[of bs s a] show ?case
    by (cases v) (auto simp: ab_entries_Some is_tsr_for_map ab_invD(4))
next
  case (3 s p)
  with FindTSR_spec[of bs s a] show ?case
    by (auto simp: ab_entries_Some is_tsr_for_map ab_invD(4))
qed (auto simp: ab_entries_finite DeletePacket_entry IsThere_Find)

interpretation dat: packet_store "ab_inv bs" ab_entries "data_hit a" "IsThereADataPacketWithDest bs a"
  "FindDataPacketForNeighbor bs a" "\<lambda>p ab. snd (DeletePacket bs p ab)" for bs a
proof (unfold_locales, goal_cases)
  case (2 s p v)
  with FindData_spec[of bs s a] show ?case
    by (cases v) (auto simp: ab_entries_Some is_data_for_map ab_invD(4))
next
  case (3 s p)
  with FindData_spec[of bs s a] show ?case
    by (auto simp: ab_entries_Some is_data_for_map ab_invD(4))
qed (auto simp: ab_entries_finite DeletePacket_entry IsThere_Find)

lemma Initialize_ab_inv [inv_intros]:
  assumes "0 < unat bs" and "unat bs \<le> 255" and "length (send_packet_buffer ab) = unat bs"
  shows "ab_inv bs (Initialize_ab bs ab)" and "ab_map (Initialize_ab bs ab) = Map.empty"
  using assms by (auto simp: ab_inv_def Initialize_ab_def ab_map_def count_if_def)

lemma num_elements_card:
  assumes "ab_inv bs ab"
  shows "unat (num_elements ab) = card (dom (ab_map ab))"
proof -
  have "unat (num_elements ab) = card (set (filter (slot_used ab) (scan_order bs ab)))"
    using scan_used_count[OF assms] scan_order_distinct[OF assms]
    by (simp only: distinct_card distinct_filter flip: scan_used_count[OF assms])
  also have "set (filter (slot_used ab) (scan_order bs ab)) = dom (ab_map ab)"
    using ab_invD(4)[OF assms] by (auto simp: scan_order_set[OF assms] ab_map_def split: if_splits)
  finally show ?thesis .
qed

lemma ChangeOwnerShip_slot:
  assumes "ab_inv bs ab" and "unat i < unat bs"
  shows "\<exists>ab'. ChangeOwnerShipOfElementwIndex i ow ab = Some (i \<in> dom (ab_map ab), ab') \<and> ab_inv bs ab'
    \<and> ab_map ab' = (ab_map ab)(i := (if ow = BO_UNUSED then None
                                     else map_option (\<lambda>v. (ow, snd v)) (ab_map ab i)))"
proof -
  note inv = ab_invD[OF assms(1)]
  have v: "ISPACKET_ID_VALID i" and l: "unat i < length (buffer_owner ab)"
    using valid_slot[OF assms(2) inv(2)] assms(2) inv by simp_all
  consider (empty) "slot_owner ab i = BO_UNUSED"
    | (drop) "slot_owner ab i \<noteq> BO_UNUSED" "ow = BO_UNUSED"
    | (own) "slot_owner ab i \<noteq> BO_UNUSED" "ow \<noteq> BO_UNUSED"
    by blast
  then show ?thesis
  proof cases
    case empty
    with v l assms(1) show ?thesis
      by (auto simp: ChangeOwnerShipOfElementwIndex_def ab_map_def fun_eq_iff)
  next
    case drop
    with v l delete_slot_inv[OF assms] delete_slot_map[OF assms] show ?thesis
      by (auto simp: ChangeOwnerShipOfElementwIndex_def DeleteElementwIndex_def ab_map_def)
  next
    case own
    let ?ab = "ab\<lparr>buffer_owner := (buffer_owner ab)[unat i := ow]\<rparr>"
    have "count_if (\<lambda>ow. ow \<noteq> BO_UNUSED) ((buffer_owner ab)[unat i := ow]) = unat (num_elements ab)"
      using count_if_update[OF l, of "\<lambda>ow. ow \<noteq> BO_UNUSED" ow] own inv by simp
    then have "ab_inv bs ?ab" using inv by (simp add: ab_inv_def)
    moreover have "ab_map ?ab = (ab_map ab)(i := map_option (\<lambda>v. (ow, snd v)) (ab_map ab i))"
      using own l by (auto simp: ab_map_def fun_eq_iff nth_list_update word_unat_eq_iff)
    ultimately show ?thesis using own v l
      by (auto simp: ChangeOwnerShipOfElementwIndex_def ab_map_def)
  qed
qed

section \<open>Properties\<close>

definition sample_ab :: array_buffer where
  "sample_ab = \<lparr>last_used_index = 0, num_elements = 0, send_packet_buffer = replicate 18 zero_message,
     buffer_owner = replicate 18 BO_UNUSED\<rparr>"

lemma sample_ab_inv: "ab_inv 18 sample_ab"
  by (simp add: ab_inv_def sample_ab_def count_if_def)

text \<open>
  C25. Insertion stores the packet in a free slot, under the returned id, exactly when fewer
  packets than slots are stored; otherwise it returns the invalid id and changes nothing. The
  counter stays the number of stored packets, and InsertMessage reports success accordingly.
\<close>

theorem array_buffer_insert:
  assumes "ab_inv bs ab" and "ow \<noteq> BO_UNUSED" and "InsertMessageGetIndex bs m ow ab = (i, ab')"
  shows "ab_inv bs ab' \<and> unat (GetNumberofElements ab') = card (dom (ab_map ab'))
    \<and> InsertMessage bs m ow ab = (i \<noteq> INVALID_PACKET_ID, ab')
    \<and> (if card (dom (ab_map ab)) < unat bs
       then unat i < unat bs \<and> ab_map ab i = None \<and> ab_map ab' = (ab_map ab)(i \<mapsto> (ow, m))
       else i = INVALID_PACKET_ID \<and> ab' = ab)"
  using assms(1)
proof (cases rule: InsertMessageGetIndex_cases[where m = m and ow = ow])
  case (room k)
  with assms(3) have i: "k = i" "ab' = put_slot i m ow ab" by auto
  have inv': "ab_inv bs ab'" using put_slot_inv[OF assms(1) room(2,3) assms(2)] i by simp
  have "i \<noteq> INVALID_PACKET_ID"
    using valid_slot[OF room(2) ab_invD(2)[OF assms(1)]] i by (auto simp: ISPACKET_ID_VALID_def)
  moreover have "card (dom (ab_map ab)) < unat bs"
    using room(1) num_elements_card[OF assms(1)] by (simp add: word_less_nat_alt)
  moreover have "ab_map ab i = None" using room(3) i by (simp add: ab_map_def)
  ultimately show ?thesis
    using room i inv' num_elements_card[OF inv'] put_slot_map[OF assms(1) room(2) assms(2), of m]
    by (simp add: GetNumberofElements_def)
next
  case full
  with assms show ?thesis
    using num_elements_card[OF assms(1)] by (simp add: GetNumberofElements_def word_less_nat_alt)
qed

lemma array_buffer_insert_witness:
  "ab_inv 18 (snd (InsertMessageGetIndex 18 zero_message BO_OMAC sample_ab))"
  using array_buffer_insert[OF sample_ab_inv _ surjective_pairing, of BO_OMAC zero_message] by simp

text \<open>
  Round trip: the pointer of a stored packet designates what was inserted, its index is the
  id that insertion returned, and deleting it gives back the packets stored before; deleting
  by a pointer that is no slot of the buffer changes nothing and reports failure.
\<close>

theorem array_buffer_roundtrip:
  assumes "ab_inv bs ab" and "ow \<noteq> BO_UNUSED" and "InsertMessageGetIndex bs m ow ab = (i, ab')"
    and "i \<noteq> INVALID_PACKET_ID"
  shows "GetPacketPtrWithIndex bs i ab' = Some (PSlot i) \<and> GetIndex bs (Some (PSlot i)) ab' = i
    \<and> slot_msg ab' i = m
    \<and> (\<exists>ab''. DeletePacket bs (Some (PSlot i)) ab' = (True, ab'') \<and> ab_inv bs ab'' \<and> ab_map ab'' = ab_map ab)
    \<and> (\<forall>n. DeletePacket bs (Some (PElsewhere n)) ab' = (False, ab'))"
  using assms(1)
proof (cases rule: InsertMessageGetIndex_cases[where m = m and ow = ow])
  case (room k)
  with assms(3) have i: "k = i" "ab' = put_slot i m ow ab" by auto
  have b: "unat i < unat bs" using room i by simp
  have inv': "ab_inv bs ab'" using put_slot_inv[OF assms(1) room(2,3) assms(2)] i by simp
  have "slot_msg ab' i = m"
    using i b ab_invD[OF assms(1)] by (simp add: put_slot_def)
  moreover have "ab_map (delete_slot i ab') = ab_map ab"
    using delete_slot_map[OF inv' b] put_slot_map[OF assms(1) b assms(2), of m] room(3) i
    by (auto simp: fun_eq_iff ab_map_def)
  ultimately show ?thesis
    using GetIndex_slot[OF inv' b] DeletePacket_slot[OF inv' b] delete_slot_inv[OF inv' b]
      DeletePacket_other[OF inv'] valid_slot[OF b ab_invD(2)[OF assms(1)]] b
    by (simp add: GetPacketPtrWithIndex_def word_less_nat_alt)
qed (use assms in simp)

text \<open>
  The walk that stops once it has seen as many used slots as the buffer counts misses no
  packet: a data look-up returns NULL exactly when no data packet for that neighbor is stored,
  and otherwise the pointer of one with the smallest time stamp; the existence test agrees
  with it. The same holds of the time-sync-request look-up.
\<close>

theorem lookups_find_the_oldest:
  assumes "ab_inv bs ab"
  shows "IsThereADataPacketWithDest bs a ab = (\<exists>i v. ab_map ab i = Some v \<and> data_hit a v)
    \<and> (IsThereADataPacketWithDest bs a ab = (FindDataPacketForNeighbor bs a ab \<noteq> None))
    \<and> (\<forall>p. FindDataPacketForNeighbor bs a ab = Some p \<longrightarrow>
        (\<exists>r v. p = PSlot r \<and> ab_map ab r = Some v \<and> data_hit a v
          \<and> (\<forall>i w. ab_map ab i = Some w \<longrightarrow> data_hit a w \<longrightarrow> msg_time (snd v) \<le> msg_time (snd w))))
    \<and> IsThereATSRPacketWithDest bs a ab = (\<exists>i v. ab_map ab i = Some v \<and> tsr_hit a v)
    \<and> (IsThereATSRPacketWithDest bs a ab = (FindTSRPacketForNeighbor bs a ab \<noteq> None))
    \<and> (\<forall>p. FindTSRPacketForNeighbor bs a ab = Some p \<longrightarrow>
        (\<exists>r v. p = PSlot r \<and> ab_map ab r = Some v \<and> tsr_hit a v
          \<and> (\<forall>i w. ab_map ab i = Some w \<longrightarrow> tsr_hit a w \<longrightarrow> msg_time (snd v) \<le> msg_time (snd w))))"
proof -
  note len = ab_invD(4)[OF assms]
  have dom: "unat i < unat bs" if "ab_map ab i = Some v" for i v
    using that len by (auto simp: ab_map_def split: if_splits)
  have val: "slot_msg ab i = snd v" if "ab_map ab i = Some v" for i v
    using that by (auto simp: ab_map_def split: if_splits)
  have d: "IsThereADataPacketWithDest bs a ab = (\<exists>i v. ab_map ab i = Some v \<and> data_hit a v)"
    unfolding IsThereAData_iff[OF assms] by (metis is_data_for_map dom len)
  have t: "IsThereATSRPacketWithDest bs a ab = (\<exists>i v. ab_map ab i = Some v \<and> tsr_hit a v)"
    unfolding IsThereATSR_iff[OF assms] by (metis is_tsr_for_map dom len)
  have best: "\<exists>r v. p = PSlot r \<and> ab_map ab r = Some v \<and> hit v
          \<and> (\<forall>i w. ab_map ab i = Some w \<longrightarrow> hit w \<longrightarrow> msg_time (snd v) \<le> msg_time (snd w))"
    if r: "p = PSlot r" "ab_map ab r = Some v" "hit v"
      and min: "\<forall>i. unat i < unat bs \<longrightarrow> (\<exists>w. ab_map ab i = Some w \<and> hit w) \<longrightarrow> slot_time ab r \<le> slot_time ab i"
    for p r v and hit :: "BufferOwner \<times> message \<Rightarrow> bool"
  proof (intro exI conjI allI impI)
    fix i w assume w: "ab_map ab i = Some w" "hit w"
    with min dom have "slot_time ab r \<le> slot_time ab i" by blast
    then show "msg_time (snd v) \<le> msg_time (snd w)" using val[OF r(2)] val[OF w(1)] by simp
  qed (use r in auto)
  have "\<exists>r v. p = PSlot r \<and> ab_map ab r = Some v \<and> data_hit a v
          \<and> (\<forall>i w. ab_map ab i = Some w \<longrightarrow> data_hit a w \<longrightarrow> msg_time (snd v) \<le> msg_time (snd w))"
    if "FindDataPacketForNeighbor bs a ab = Some p" for p
  proof -
    from FindData_spec[OF assms, of a] that obtain r where
      "p = PSlot r" "unat r < unat bs" "is_data_for a ab r"
      "\<forall>i. unat i < unat bs \<longrightarrow> is_data_for a ab i \<longrightarrow> slot_time ab r \<le> slot_time ab i" by auto
    moreover from this obtain v where "ab_map ab r = Some v" "data_hit a v"
      by (auto simp: is_data_for_map len)
    ultimately show ?thesis
      by (intro best[where hit = "data_hit a"]) (simp_all add: is_data_for_map len)
  qed
  moreover have "\<exists>r v. p = PSlot r \<and> ab_map ab r = Some v \<and> tsr_hit a v
          \<and> (\<forall>i w. ab_map ab i = Some w \<longrightarrow> tsr_hit a w \<longrightarrow> msg_time (snd v) \<le> msg_time (snd w))"
    if "FindTSRPacketForNeighbor bs a ab = Some p" for p
  proof -
    from FindTSR_spec[OF assms, of a] that obtain r where
      "p = PSlot r" "unat r < unat bs" "is_tsr_for a ab r"
      "\<forall>i. unat i < unat bs \<longrightarrow> is_tsr_for a ab i \<longrightarrow> slot_time ab r \<le> slot_time ab i" by auto
    moreover from this obtain v where "ab_map ab r = Some v" "tsr_hit a v"
      by (auto simp: is_tsr_for_map len)
    ultimately show ?thesis
      by (intro best[where hit = "tsr_hit a"]) (simp_all add: is_tsr_for_map len)
  qed
  ultimately show ?thesis using IsThere_Find[OF assms, of a] d t by blast
qed

end
