(* ===== verification/Neighbor_Table.thy ===== *)
theory Neighbor_Table
  imports Array_Buffer
begin

text \<open>
  The neighbor table of the MAC layers:
  \<^verbatim>\<open>DeviceCode/include/Samraksh/Neighbors.h\<close> and
  \<^verbatim>\<open>DeviceCode/pal/Samraksh/Wireless/MAC/Neighbors.cpp\<close>. Ten entries keyed by MAC address and
  one packet buffer of eighteen slots shared by all neighbors. Shown here: addresses stay
  unique and a new neighbor never displaces a live one; clearing a neighbor returns and drops
  its packets; the admission rule keeps a slot free for every neighbor without a packet; and
  where the code departs from what it means to do (a flush that does not return, guards with
  the wrong sign, a search for the oldest that takes the first).
\<close>

section \<open>Links and entries (Neighbors.h)\<close>

definition MAX_NEIGHBORS :: nat where "MAX_NEIGHBORS = 10"
definition INVALID_NEIGHBOR_INDEX :: u8 where "INVALID_NEIGHBOR_INDEX = 255"
definition Total_Buffer_SIZE :: u16 where "Total_Buffer_SIZE = 18"
definition NUM_ENFORCED_TSR_PCKTS_BEFORE_DATA_PCKTS :: u8 where
  "NUM_ENFORCED_TSR_PCKTS_BEFORE_DATA_PCKTS = 2"

definition ISMAC_VALID :: "u16 \<Rightarrow> bool" where
  "ISMAC_VALID x = (if x = 65535 \<or> x = 0 then False else True)"

record Link_t =
  AvgRSSI :: u8
  LinkQuality :: u8
  AveDelay :: u8
  Link_reliability_bitmap :: u8

definition Link_Initialize :: "Link_t \<Rightarrow> Link_t" where
  "Link_Initialize l = l\<lparr>AvgRSSI := 0, LinkQuality := 0, AveDelay := 0, Link_reliability_bitmap := 0\<rparr>"

definition RecordPacketSuccess :: "bool \<Rightarrow> Link_t \<Rightarrow> Link_t" where
  "RecordPacketSuccess s l =
     (let b = drop_bit 1 (Link_reliability_bitmap l) in
      l\<lparr>Link_reliability_bitmap := (if s then b OR 0x80 else b AND 0x7F)\<rparr>)"

datatype NeighborStatus = Alive | Dead | NbrStatusError

text \<open>The value of the enumerator, for the one comparison with an integer.\<close>

definition status_code :: "NeighborStatus \<Rightarrow> u64" where
  "status_code s = (case s of Alive \<Rightarrow> 0 | Dead \<Rightarrow> 1 | NbrStatusError \<Rightarrow> 0xF)"

record Neighbor_t =
  MACAddress :: u16
  NumInitializationMessagesSent :: u8
  IsMyScheduleKnown :: bool
  SendLink :: Link_t
  ReceiveLink :: Link_t
  neighborStatus :: NeighborStatus
  IsAvailableForUpperLayers :: bool
  CountOfPacketsReceived :: u16
  LastHeardTime :: u64
  ReceiveDutyCycle :: u8
  FrameLength :: u16
  nextSeed :: u16
  seed_mask :: u16
  nextwakeupSlot :: u64
  seedUpdateIntervalinSlots :: u32
  LastTimeSyncRecvTime :: u64
  LastTimeSyncRequestTime :: u64
  LastTimeSyncSendTime :: u64
  random_back_off_slot :: u8
  random_back_off_window_size :: u8
  radioStartDelay :: u16
  counterOffset :: u16

definition IsSendingMyScheduleNeeded :: "Neighbor_t \<Rightarrow> bool" where
  "IsSendingMyScheduleNeeded n = (\<not> IsMyScheduleKnown n)"

definition IsInitializationTimeSamplesNeeded :: "Neighbor_t \<Rightarrow> bool" where
  "IsInitializationTimeSamplesNeeded n =
     (if IsSendingMyScheduleNeeded n
         \<or> NumInitializationMessagesSent n < NUM_ENFORCED_TSR_PCKTS_BEFORE_DATA_PCKTS
      then True else False)"

definition IncrementNumInitMessagesSent :: "Neighbor_t \<Rightarrow> Neighbor_t" where
  "IncrementNumInitMessagesSent n =
     (if IsInitializationTimeSamplesNeeded n then
        (let c = NumInitializationMessagesSent n + 1 in
         n\<lparr>NumInitializationMessagesSent :=
             (if c = NUM_ENFORCED_TSR_PCKTS_BEFORE_DATA_PCKTS then c + 1 else c)\<rparr>)
      else n)"

definition RecordMyScheduleSent :: "Neighbor_t \<Rightarrow> Neighbor_t" where
  "RecordMyScheduleSent n = n\<lparr>IsMyScheduleKnown := True\<rparr>"

definition MarkAsDead :: "Neighbor_t \<Rightarrow> Neighbor_t" where
  "MarkAsDead n = n\<lparr>neighborStatus := Dead, IsAvailableForUpperLayers := False,
     IsMyScheduleKnown := False, NumInitializationMessagesSent := 0\<rparr>"

text \<open>
  \<open>Clear\<close> declares local variables named \<open>random_back_off_slot\<close> and
  \<open>random_back_off_window_size\<close>: the members keep their values.
\<close>

definition Clear :: "Neighbor_t \<Rightarrow> Neighbor_t" where
  "Clear n = (let n1 = MarkAsDead n in
     n1\<lparr>MACAddress := 0, NumInitializationMessagesSent := 0, IsMyScheduleKnown := False,
        SendLink := Link_Initialize (SendLink n1), ReceiveLink := Link_Initialize (ReceiveLink n1),
        neighborStatus := Dead, IsAvailableForUpperLayers := False, CountOfPacketsReceived := 0,
        LastHeardTime := 0, ReceiveDutyCycle := 0, FrameLength := 0, nextSeed := 0, seed_mask := 0,
        nextwakeupSlot := 0, seedUpdateIntervalinSlots := 0, LastTimeSyncRecvTime := 0,
        LastTimeSyncRequestTime := 0, LastTimeSyncSendTime := 0\<rparr>)"

record common_parameters_one =
  p1_MACAddress :: u16
  p1_status :: NeighborStatus
  p1_lastHeardTime :: u64
  p1_linkQualityMetrics :: Link_t
  p1_availableForUpperLayers :: bool

record common_parameters_two =
  p2_nextSeed :: u16
  p2_mask :: u16
  p2_nextwakeupSlot :: u64
  p2_seedUpdateIntervalinSlots :: u32

definition NeighborTableCommonParameters_One_t :: common_parameters_one where
  "NeighborTableCommonParameters_One_t =
     \<lparr>p1_MACAddress = 0, p1_status = NbrStatusError, p1_lastHeardTime = 0,
      p1_linkQualityMetrics = \<lparr>AvgRSSI = 0, LinkQuality = 0, AveDelay = 0, Link_reliability_bitmap = 0xFF\<rparr>,
      p1_availableForUpperLayers = False\<rparr>"

definition NeighborTableCommonParameters_Two_t :: common_parameters_two where
  "NeighborTableCommonParameters_Two_t =
     \<lparr>p2_nextSeed = 0, p2_mask = 0, p2_nextwakeupSlot = 0, p2_seedUpdateIntervalinSlots = 0\<rparr>"

record neighbor_table =
  NumberValidNeighbor :: u8
  PreviousNumberValidNeighbor :: u8
  Neighbor :: "Neighbor_t list"
  send_buffer :: array_buffer

section \<open>Exponential smoothing\<close>

text \<open>
  \<open>(UINT8)((float)a*0.8 + (float)b*0.2)\<close>: the constants are doubles, so the products and the
  sum are rounded to 53 significant bits, half to even, and the conversion truncates. A value
  \<open>n\<close> stands for \<open>n / 2 ^ 55\<close>; the double nearest to 0.8 is 7205759403792794 / 2 ^ 53 and
  the one nearest to 0.2 is 7205759403792794 / 2 ^ 55.
\<close>

fun bit_length :: "nat \<Rightarrow> nat" where
  "bit_length n = (if n = 0 then 0 else Suc (bit_length (n div 2)))"

declare bit_length.simps [simp del]

definition round53 :: "nat \<Rightarrow> nat" where
  "round53 n =
     (if n < 2 ^ 53 then n
      else let k = bit_length n - 53; q = n div 2 ^ k; r = n mod 2 ^ k in
           (if 2 * r > 2 ^ k \<or> (2 * r = 2 ^ k \<and> odd q) then q + 1 else q) * 2 ^ k)"

definition smooth :: "u8 \<Rightarrow> u8 \<Rightarrow> u8" where
  "smooth a b =
     of_nat (round53 (round53 (unat a * 7205759403792794 * 4) + round53 (unat b * 7205759403792794)) div 2 ^ 55)"

section \<open>Table look-ups\<close>

abbreviation nth_neighbor :: "neighbor_table \<Rightarrow> u8 \<Rightarrow> Neighbor_t" where
  "nth_neighbor tb i \<equiv> Neighbor tb ! unat i"

definition upd_neighbor :: "u8 \<Rightarrow> (Neighbor_t \<Rightarrow> Neighbor_t) \<Rightarrow> neighbor_table \<Rightarrow> neighbor_table" where
  "upd_neighbor i f tb = tb\<lparr>Neighbor := (Neighbor tb)[unat i := f (nth_neighbor tb i)]\<rparr>"

text \<open>
  The look-ups return the status and the value of \<open>*index\<close> after the call: it is written on
  success only, so the value before the call is an argument.
\<close>

definition FindIndexEvenDead :: "u16 \<Rightarrow> u8 \<Rightarrow> neighbor_table \<Rightarrow> DeviceStatus \<times> u8" where
  "FindIndexEvenDead mac index tb =
     (case find (\<lambda>i. MACAddress (Neighbor tb ! i) = mac) [0..<MAX_NEIGHBORS] of
        Some i \<Rightarrow> (DS_Success, of_nat i) | None \<Rightarrow> (DS_Fail, index))"

definition FindIndex :: "u16 \<Rightarrow> u8 \<Rightarrow> neighbor_table \<Rightarrow> DeviceStatus \<times> u8" where
  "FindIndex mac index tb =
     (case find (\<lambda>i. MACAddress (Neighbor tb ! i) = mac \<and> neighborStatus (Neighbor tb ! i) = Alive)
             [0..<MAX_NEIGHBORS] of
        Some i \<Rightarrow> (DS_Success, of_nat i) | None \<Rightarrow> (DS_Fail, index))"

definition GetNeighborPtr :: "u16 \<Rightarrow> neighbor_table \<Rightarrow> u8 option" where
  "GetNeighborPtr address tb =
     (let (rv, index) = FindIndex address 0 tb in if rv \<noteq> DS_Success then None else Some index)"

definition NumberOfNeighbors :: "neighbor_table \<Rightarrow> u8" where
  "NumberOfNeighbors tb = of_nat (count_if (\<lambda>n. neighborStatus n = Alive) (take MAX_NEIGHBORS (Neighbor tb)))"

definition NumberOfNeighborsTotal :: "neighbor_table \<Rightarrow> u8" where
  "NumberOfNeighborsTotal tb = of_nat (count_if (\<lambda>n. ISMAC_VALID (MACAddress n)) (take MAX_NEIGHBORS (Neighbor tb)))"

definition PreviousNumberOfNeighbors :: "neighbor_table \<Rightarrow> u8" where
  "PreviousNumberOfNeighbors tb = PreviousNumberValidNeighbor tb"

definition SetPreviousNumberOfNeighbors :: "u8 \<Rightarrow> neighbor_table \<Rightarrow> neighbor_table" where
  "SetPreviousNumberOfNeighbors c tb = tb\<lparr>PreviousNumberValidNeighbor := c\<rparr>"

definition GetMaxNeighbors :: u16 where "GetMaxNeighbors = of_nat MAX_NEIGHBORS"

definition BringOutYourDead :: "u32 \<Rightarrow> u8" where "BringOutYourDead delay = 0"

definition UpdateNeighborTable_liveness :: "u32 \<Rightarrow> u8" where
  "UpdateNeighborTable_liveness NeighborLivenessDelay = BringOutYourDead NeighborLivenessDelay"

definition UpdateNeighborTable_time :: "u64 \<Rightarrow> u64 \<Rightarrow> u8" where
  "UpdateNeighborTable_time livelinessDelayInTicks currentTime = 0"

section \<open>Packets of a neighbor\<close>

definition IsThereADataPacketFor :: "u16 \<Rightarrow> neighbor_table \<Rightarrow> bool" where
  "IsThereADataPacketFor a tb = IsThereADataPacketWithDest Total_Buffer_SIZE a (send_buffer tb)"

definition IsThereATSRPacketFor :: "u16 \<Rightarrow> neighbor_table \<Rightarrow> bool" where
  "IsThereATSRPacketFor a tb = IsThereATSRPacketWithDest Total_Buffer_SIZE a (send_buffer tb)"

definition IsThereAPacketWithDest :: "u16 \<Rightarrow> neighbor_table \<Rightarrow> bool" where
  "IsThereAPacketWithDest a tb = (IsThereADataPacketFor a tb \<or> IsThereATSRPacketFor a tb)"

definition FindTSRPacket :: "u16 \<Rightarrow> neighbor_table \<Rightarrow> pkt_ptr" where
  "FindTSRPacket a tb = FindTSRPacketForNeighbor Total_Buffer_SIZE a (send_buffer tb)"

definition FindDataPacket :: "u16 \<Rightarrow> neighbor_table \<Rightarrow> pkt_ptr" where
  "FindDataPacket a tb = FindDataPacketForNeighbor Total_Buffer_SIZE a (send_buffer tb)"

definition DeletePacket_nt :: "pkt_ptr \<Rightarrow> neighbor_table \<Rightarrow> bool \<times> neighbor_table" where
  "DeletePacket_nt p tb =
     (let (r, ab) = DeletePacket Total_Buffer_SIZE p (send_buffer tb) in (r, tb\<lparr>send_buffer := ab\<rparr>))"

definition FindStalePacket_nt :: "u8 \<Rightarrow> BufferOwner \<Rightarrow> neighbor_table \<Rightarrow> pkt_ptr" where
  "FindStalePacket_nt retryLimit n_buf_ow tb =
     FindStalePacketWithRetryAttemptsGreaterThan Total_Buffer_SIZE retryLimit n_buf_ow (send_buffer tb)"

definition ChangeOwnerShip_nt :: "u16 \<Rightarrow> BufferOwner \<Rightarrow> neighbor_table \<Rightarrow> (bool \<times> neighbor_table) option" where
  "ChangeOwnerShip_nt index n_buf_ow tb =
     map_option (\<lambda>(r, ab). (r, tb\<lparr>send_buffer := ab\<rparr>))
       (ChangeOwnerShipOfElementwIndex index n_buf_ow (send_buffer tb))"

definition GetPacketPtrWithIndex_nt :: "u16 \<Rightarrow> neighbor_table \<Rightarrow> pkt_ptr" where
  "GetPacketPtrWithIndex_nt index tb = GetPacketPtrWithIndex Total_Buffer_SIZE index (send_buffer tb)"

definition GetIndexWithPtr :: "pkt_ptr \<Rightarrow> neighbor_table \<Rightarrow> u16" where
  "GetIndexWithPtr p tb =
     (if p \<noteq> None then GetIndex Total_Buffer_SIZE p (send_buffer tb) else INVALID_PACKET_ID)"

definition NumberofNeighborsWithNoPacketinQueue :: "neighbor_table \<Rightarrow> u8" where
  "NumberofNeighborsWithNoPacketinQueue tb =
     of_nat (count_if (\<lambda>n. if ISMAC_VALID (MACAddress n) then \<not> IsThereAPacketWithDest (MACAddress n) tb else True)
       (take MAX_NEIGHBORS (Neighbor tb)))"

abbreviation del_pkt :: "pkt_ptr \<Rightarrow> array_buffer \<Rightarrow> array_buffer" where
  "del_pkt p ab \<equiv> snd (DeletePacket Total_Buffer_SIZE p ab)"

text \<open>The purge loops touch the send buffer only; \<open>None\<close> is a loop that does not return.\<close>

definition FlushDataPacketQueueForNeighbor :: "u16 \<Rightarrow> neighbor_table \<Rightarrow> neighbor_table option" where
  "FlushDataPacketQueueForNeighbor address tb =
     (let msg_carrier = FindDataPacket address tb in
      map_option (\<lambda>ab. tb\<lparr>send_buffer := ab\<rparr>)
        (purge_from (\<lambda>_. msg_carrier) del_pkt msg_carrier (send_buffer tb)))"

definition FlushTSRPacketQueueForNeighbor :: "u16 \<Rightarrow> neighbor_table \<Rightarrow> neighbor_table option" where
  "FlushTSRPacketQueueForNeighbor address tb =
     (let msg_carrier = FindTSRPacket address tb in
      map_option (\<lambda>ab. tb\<lparr>send_buffer := ab\<rparr>)
        (purge_from (\<lambda>_. msg_carrier) del_pkt msg_carrier (send_buffer tb)))"

definition FlushAllPacketQueueForNeighbor :: "u16 \<Rightarrow> neighbor_table \<Rightarrow> neighbor_table option" where
  "FlushAllPacketQueueForNeighbor address tb =
     Option.bind (FlushTSRPacketQueueForNeighbor address tb) (FlushDataPacketQueueForNeighbor address)"

text \<open>
  \<open>InsertMessageGetIndex\<close>: the argument is \<open>None\<close> for a null pointer, otherwise the message
  pointed to (a message outside the send buffer). Look-ups of the purge use
  \<open>GetDestConst\<close>, which returns one byte.
\<close>

definition InsertMessageGetIndex_nt :: "message option \<Rightarrow> neighbor_table \<Rightarrow> (u16 \<times> neighbor_table) option" where
  "InsertMessageGetIndex_nt msg_carrier tb =
     (case msg_carrier of
        None \<Rightarrow> Some (INVALID_PACKET_ID, tb)
      | Some m \<Rightarrow>
          if IsThereAPacketWithDest (dest (header m)) tb then
            (let numneigh = NumberofNeighborsWithNoPacketinQueue tb in
             if int (unat numneigh) < int (unat Total_Buffer_SIZE) - int (unat (GetNumberofElements (send_buffer tb))) then
               (let d = ucast (GetDestConst (header m)) in
                map_option
                  (\<lambda>ab. let (i, ab') = InsertMessageGetIndex Total_Buffer_SIZE m BO_OMAC ab
                         in (i, tb\<lparr>send_buffer := ab'\<rparr>))
                  (purge_while (IsThereATSRPacketWithDest Total_Buffer_SIZE d)
                     (FindTSRPacketForNeighbor Total_Buffer_SIZE d) del_pkt (send_buffer tb)))
             else Some (INVALID_PACKET_ID, tb))
          else
            (let (i, ab') = InsertMessageGetIndex Total_Buffer_SIZE m BO_OMAC (send_buffer tb)
             in Some (i, tb\<lparr>send_buffer := ab'\<rparr>)))"

definition InsertMessage_nt :: "message option \<Rightarrow> neighbor_table \<Rightarrow> (bool \<times> neighbor_table) option" where
  "InsertMessage_nt msg_carrier tb =
     map_option (\<lambda>(i, tb'). (if ISPACKET_ID_VALID i then True else False, tb'))
       (InsertMessageGetIndex_nt msg_carrier tb)"

section \<open>Clearing entries\<close>

text \<open>
  Both loops of \<open>ClearNeighborwIndex\<close>: the second starts from the TSR look-up and repeats the
  data look-up. \<open>None\<close> is a loop that does not return or an index behind the table.
\<close>

definition ClearNeighborwIndex :: "u8 \<Rightarrow> neighbor_table \<Rightarrow> (DeviceStatus \<times> neighbor_table) option" where
  "ClearNeighborwIndex index tb =
     (if \<not> unat index < length (Neighbor tb) then None
      else
        let mac = MACAddress (nth_neighbor tb index);
            find_data = FindDataPacketForNeighbor Total_Buffer_SIZE mac;
            find_tsr = FindTSRPacketForNeighbor Total_Buffer_SIZE mac
        in Option.bind (purge_from find_data del_pkt (find_data (send_buffer tb)) (send_buffer tb))
          (\<lambda>ab1. Option.bind (purge_from find_data del_pkt (find_tsr ab1) ab1)
            (\<lambda>ab2. let tb1 = upd_neighbor index Clear (tb\<lparr>send_buffer := ab2\<rparr>)
                    in Some (DS_Success, tb1\<lparr>NumberValidNeighbor := NumberValidNeighbor tb1 - 1\<rparr>))))"

definition ClearNeighbor :: "u16 \<Rightarrow> neighbor_table \<Rightarrow> (DeviceStatus \<times> neighbor_table) option" where
  "ClearNeighbor nodeId tb =
     (let (rv, tableIndex) = FindIndex nodeId 0 tb in
      if rv = DS_Success then ClearNeighborwIndex tableIndex tb else Some (DS_Fail, tb))"

fun clear_entries :: "nat list \<Rightarrow> neighbor_table \<Rightarrow> neighbor_table option" where
  "clear_entries [] tb = Some tb"
| "clear_entries (i # ixs) tb =
     Option.bind (ClearNeighborwIndex (of_nat i) tb) (\<lambda>(_, tb'). clear_entries ixs tb')"

definition ClearTable :: "neighbor_table \<Rightarrow> neighbor_table option" where
  "ClearTable tb =
     map_option (\<lambda>tb'. tb'\<lparr>NumberValidNeighbor := 0,
                         send_buffer := Initialize_ab Total_Buffer_SIZE (send_buffer tb')\<rparr>)
       (clear_entries [0..<MAX_NEIGHBORS] tb)"

text \<open>The scan of \<open>GetFreeIdx\<close>: the first entry without address, else the last one not alive.\<close>

fun free_scan :: "nat \<Rightarrow> DeviceStatus \<times> u8 \<Rightarrow> Neighbor_t list \<Rightarrow> DeviceStatus \<times> u8" where
  "free_scan i acc [] = acc"
| "free_scan i acc (n # ns) =
     (if \<not> ISMAC_VALID (MACAddress n) then (DS_Success, of_nat i)
      else if neighborStatus n \<noteq> Alive then free_scan (Suc i) (DS_Success, of_nat i) ns
      else free_scan (Suc i) acc ns)"

definition GetFreeIdx :: "neighbor_table \<Rightarrow> (DeviceStatus \<times> u8 \<times> neighbor_table) option" where
  "GetFreeIdx tb =
     (let (rv, index) = free_scan 0 (DS_Fail, INVALID_NEIGHBOR_INDEX) (take MAX_NEIGHBORS (Neighbor tb)) in
      if rv = DS_Success \<and> ISMAC_VALID (MACAddress (nth_neighbor tb index))
      then map_option (\<lambda>(_, tb'). (DS_Success, index, tb')) (ClearNeighborwIndex index tb)
      else Some (rv, index, tb))"

section \<open>Inserting and updating entries\<close>

definition FindOrInsertNeighbor :: "u16 \<Rightarrow> u8 \<Rightarrow> neighbor_table \<Rightarrow> (DeviceStatus \<times> u8 \<times> neighbor_table) option" where
  "FindOrInsertNeighbor address index tb =
     (if ISMAC_VALID address then
        (let (rv, i) = FindIndexEvenDead address index tb in
         if rv = DS_Fail then
           map_option
             (\<lambda>(rv', i', tb'). if rv' = DS_Success
                then (rv', i', upd_neighbor i' (\<lambda>n. n\<lparr>MACAddress := address,
                        NumInitializationMessagesSent := 0, IsMyScheduleKnown := False\<rparr>) tb')
                else (rv', i', tb'))
             (GetFreeIdx tb)
         else if neighborStatus (nth_neighbor tb i) \<noteq> Alive
           then Some (rv, i, upd_neighbor i (\<lambda>n. n\<lparr>NumInitializationMessagesSent := 0, IsMyScheduleKnown := False\<rparr>) tb)
           else Some (rv, i, tb))
      else Some (DS_Fail, index, tb))"

text \<open>The common shape of the \<open>Record...\<close> functions: find or insert, then write one entry.\<close>

definition record_entry :: "u16 \<Rightarrow> (Neighbor_t \<Rightarrow> Neighbor_t) \<Rightarrow> neighbor_table \<Rightarrow> (DeviceStatus \<times> neighbor_table) option" where
  "record_entry address f tb =
     map_option
       (\<lambda>(rv, i, tb'). if rv = DS_Success \<and> ISMAC_VALID address
          then (DS_Success, upd_neighbor i f tb') else (DS_Fail, tb'))
       (FindOrInsertNeighbor address 0 tb)"

definition RecordLastHeardTime :: "u16 \<Rightarrow> u64 \<Rightarrow> neighbor_table \<Rightarrow> (DeviceStatus \<times> neighbor_table) option" where
  "RecordLastHeardTime mac currTime = record_entry mac (\<lambda>n. n\<lparr>LastHeardTime := currTime\<rparr>)"

definition RecordTimeSyncRequestSent :: "u16 \<Rightarrow> u64 \<Rightarrow> neighbor_table \<Rightarrow> (DeviceStatus \<times> neighbor_table) option" where
  "RecordTimeSyncRequestSent mac t = record_entry mac (\<lambda>n. n\<lparr>LastTimeSyncRequestTime := t\<rparr>)"

definition RecordTimeSyncSent :: "u16 \<Rightarrow> u64 \<Rightarrow> neighbor_table \<Rightarrow> (DeviceStatus \<times> neighbor_table) option" where
  "RecordTimeSyncSent mac t = record_entry mac (\<lambda>n. n\<lparr>LastTimeSyncSendTime := t\<rparr>)"

definition RecordTimeSyncRecv :: "u16 \<Rightarrow> u64 \<Rightarrow> neighbor_table \<Rightarrow> (DeviceStatus \<times> neighbor_table) option" where
  "RecordTimeSyncRecv mac t = record_entry mac (\<lambda>n. n\<lparr>LastTimeSyncRecvTime := t\<rparr>)"

definition RecordSenderDelayIncoming :: "u16 \<Rightarrow> u8 \<Rightarrow> neighbor_table \<Rightarrow> (DeviceStatus \<times> neighbor_table) option" where
  "RecordSenderDelayIncoming mac delay =
     record_entry mac (\<lambda>n. let l = ReceiveLink n in
       n\<lparr>ReceiveLink := l\<lparr>AveDelay := (if AveDelay l = 0 then delay else smooth (AveDelay l) delay)\<rparr>\<rparr>)"

definition GetLastTimeSyncRecv :: "u16 \<Rightarrow> neighbor_table \<Rightarrow> u64" where
  "GetLastTimeSyncRecv address tb =
     (let (rv, index) = FindIndex address 0 tb in
      if rv = DS_Success \<and> ISMAC_VALID address then LastTimeSyncRecvTime (nth_neighbor tb index) else 0)"

text \<open>What \<open>UpdateNeighbor\<close> (both parameter sets) writes into the entry.\<close>

definition update_two_entry :: "common_parameters_one \<Rightarrow> common_parameters_two \<Rightarrow> Neighbor_t \<Rightarrow> Neighbor_t" where
  "update_two_entry p1 p2 n =
     (let lqi = LinkQuality (p1_linkQualityMetrics p1); rssi = AvgRSSI (p1_linkQualityMetrics p1) in
      n\<lparr>MACAddress := p1_MACAddress p1, neighborStatus := p1_status p1,
        LastHeardTime := p1_lastHeardTime p1,
        IsAvailableForUpperLayers := p1_availableForUpperLayers p1,
        ReceiveLink := (let l = ReceiveLink n in
          if AvgRSSI l = 0 then l\<lparr>AvgRSSI := rssi, LinkQuality := lqi\<rparr>
          else l\<lparr>AvgRSSI := smooth (AvgRSSI l) rssi, LinkQuality := smooth (LinkQuality l) lqi\<rparr>),
        nextSeed := p2_nextSeed p2, seed_mask := p2_mask p2,
        nextwakeupSlot := p2_nextwakeupSlot p2,
        seedUpdateIntervalinSlots := p2_seedUpdateIntervalinSlots p2\<rparr>)"

definition UpdateNeighbor_two ::
  "common_parameters_one \<Rightarrow> common_parameters_two \<Rightarrow> neighbor_table \<Rightarrow> (DeviceStatus \<times> neighbor_table) option"
where
  "UpdateNeighbor_two p1 p2 tb =
     (if p1_status p1 = NbrStatusError then Some (DS_Fail, tb)
      else if p1_lastHeardTime p1 = 0 then Some (DS_Fail, tb)
      else map_option
        (\<lambda>(rv, i, tb'). if rv = DS_Success \<and> ISMAC_VALID (p1_MACAddress p1)
           then (rv, upd_neighbor i (update_two_entry p1 p2) tb')
           else (rv, tb'))
        (FindOrInsertNeighbor (p1_MACAddress p1) 0 tb))"

definition UpdateNeighbor_one ::
  "common_parameters_one \<Rightarrow> neighbor_table \<Rightarrow> (DeviceStatus \<times> neighbor_table) option"
where
  "UpdateNeighbor_one p1 tb =
     (let address = p1_MACAddress p1; lqi = LinkQuality (p1_linkQualityMetrics p1);
          rssi = AvgRSSI (p1_linkQualityMetrics p1) in
      if p1_status p1 = NbrStatusError then Some (DS_Fail, tb)
      else if p1_lastHeardTime p1 = 0 then Some (DS_Fail, tb)
      else map_option
        (\<lambda>(rv, i, tb'). if rv = DS_Success \<and> ISMAC_VALID address
           then (rv, upd_neighbor i (\<lambda>n. let l = ReceiveLink n in
                  n\<lparr>ReceiveLink := l\<lparr>AvgRSSI := smooth (AvgRSSI l) rssi, LinkQuality := smooth (LinkQuality l) lqi\<rparr>,
                    CountOfPacketsReceived := CountOfPacketsReceived n + 1,
                    LastHeardTime := p1_lastHeardTime p1, neighborStatus := p1_status p1\<rparr>) tb')
           else (rv, tb'))
        (FindOrInsertNeighbor address 0 tb))"

definition zero_metrics :: "Link_t \<Rightarrow> Link_t" where
  "zero_metrics l = l\<lparr>AvgRSSI := 0, LinkQuality := 0, AveDelay := 0\<rparr>"

definition InsertNeighbor ::
  "common_parameters_one \<Rightarrow> common_parameters_two \<Rightarrow> neighbor_table \<Rightarrow> (DeviceStatus \<times> neighbor_table) option"
where
  "InsertNeighbor p1 p2 tb =
     Option.bind (FindOrInsertNeighbor (p1_MACAddress p1) 0 tb)
       (\<lambda>(rv, i, tb1). if rv = DS_Success \<and> ISMAC_VALID (p1_MACAddress p1)
          then UpdateNeighbor_two p1 p2
                 (upd_neighbor i (\<lambda>n. n\<lparr>ReceiveLink := zero_metrics (ReceiveLink n),
                                        SendLink := zero_metrics (SendLink n)\<rparr>)
                   (tb1\<lparr>NumberValidNeighbor := NumberValidNeighbor tb1 + 1\<rparr>))
          else Some (rv, tb1))"

text \<open>
  The three \<open>Update...\<close> functions write entry \<open>*index\<close> when the look-up did not succeed;
  \<open>None\<close> is a write behind the table.
\<close>

definition update_if_missing ::
  "u16 \<Rightarrow> (Neighbor_t \<Rightarrow> Neighbor_t) \<Rightarrow> u8 \<Rightarrow> neighbor_table \<Rightarrow> (DeviceStatus \<times> u8 \<times> neighbor_table) option"
where
  "update_if_missing address f index tb =
     (let (rv, i) = FindIndex address index tb in
      if rv \<noteq> DS_Success \<and> ISMAC_VALID address
      then if unat i < length (Neighbor tb) then Some (rv, i, upd_neighbor i f tb) else None
      else Some (rv, i, tb))"

definition copy_metrics :: "Link_t option \<Rightarrow> Link_t \<Rightarrow> Link_t" where
  "copy_metrics from l =
     (case from of None \<Rightarrow> l
      | Some f \<Rightarrow> l\<lparr>AveDelay := AveDelay f, AvgRSSI := AvgRSSI f, LinkQuality := LinkQuality f\<rparr>)"

definition UpdateLink ::
  "u16 \<Rightarrow> Link_t option \<Rightarrow> Link_t option \<Rightarrow> u8 \<Rightarrow> neighbor_table \<Rightarrow> (DeviceStatus \<times> u8 \<times> neighbor_table) option"
where
  "UpdateLink address forwardLink reverseLink index tb =
     (if forwardLink = None \<and> reverseLink = None
      then (let (rv, i) = FindIndex address index tb in Some (rv, i, tb))
      else update_if_missing address
       (\<lambda>n. n\<lparr>SendLink := copy_metrics forwardLink (SendLink n),
              ReceiveLink := copy_metrics reverseLink (ReceiveLink n)\<rparr>) index tb)"

definition UpdateFrameLength ::
  "u16 \<Rightarrow> NeighborStatus \<Rightarrow> u16 \<Rightarrow> u8 \<Rightarrow> neighbor_table \<Rightarrow> (DeviceStatus \<times> u8 \<times> neighbor_table) option"
where
  "UpdateFrameLength address status frameLength =
     update_if_missing address (\<lambda>n. n\<lparr>FrameLength := frameLength\<rparr>)"

definition UpdateDutyCycle ::
  "u16 \<Rightarrow> u8 \<Rightarrow> u8 \<Rightarrow> neighbor_table \<Rightarrow> (DeviceStatus \<times> u8 \<times> neighbor_table) option"
where
  "UpdateDutyCycle address dutyCycle =
     update_if_missing address (\<lambda>n. n\<lparr>ReceiveDutyCycle := dutyCycle\<rparr>)"

section \<open>Choosing a neighbor for time synchronization\<close>

fun obsolete_scan :: "NeighborStatus \<Rightarrow> Neighbor_t list \<Rightarrow> nat option \<Rightarrow> nat list \<Rightarrow> nat option" where
  "obsolete_scan ns ents rn [] = rn"
| "obsolete_scan ns ents rn (i # ixs) =
     obsolete_scan ns ents
       (if neighborStatus (ents ! i) = ns then
          (case rn of None \<Rightarrow> Some i
           | Some r \<Rightarrow> if LastHeardTime (ents ! i) \<noteq> 0
                           \<and> status_code (neighborStatus (ents ! r)) \<le> LastHeardTime (ents ! i)
                        then Some i else rn)
        else rn) ixs"

definition GetMostObsoleteTimeSyncNeighborPtr :: "NeighborStatus \<Rightarrow> neighbor_table \<Rightarrow> nat option" where
  "GetMostObsoleteTimeSyncNeighborPtr ns tb = obsolete_scan ns (Neighbor tb) None [0..<MAX_NEIGHBORS]"

text \<open>The condition inside the loop, on one entry.\<close>

definition sync_due :: "u64 \<Rightarrow> u64 \<Rightarrow> u64 \<Rightarrow> u64 \<Rightarrow> Neighbor_t \<Rightarrow> bool" where
  "sync_due curticks request_limit forcererequest_limit fast_disco_request_interval n =
     ((curticks - LastTimeSyncSendTime n > request_limit
        \<or> curticks - LastTimeSyncRecvTime n > forcererequest_limit
        \<or> IsInitializationTimeSamplesNeeded n)
      \<and> ((LastTimeSyncRequestTime n = 0 \<or> curticks - LastTimeSyncRequestTime n > request_limit
            \<or> curticks - LastTimeSyncRequestTime n > forcererequest_limit)
         \<or> (IsInitializationTimeSamplesNeeded n
            \<and> (LastTimeSyncRequestTime n = 0 \<or> curticks - LastTimeSyncRequestTime n > fast_disco_request_interval))))"

fun critical_scan :: "u64 \<Rightarrow> u64 \<Rightarrow> u64 \<Rightarrow> u64 \<Rightarrow> Neighbor_t list \<Rightarrow> nat option \<Rightarrow> nat list \<Rightarrow> nat option" where
  "critical_scan c rl fl fd ents rn [] = rn"
| "critical_scan c rl fl fd ents rn (i # ixs) =
     (if neighborStatus (ents ! i) \<noteq> Dead then
        if rn = None \<or> LastTimeSyncSendTime (ents ! i) < LastTimeSyncSendTime (ents ! the rn)
           \<or> IsInitializationTimeSamplesNeeded (ents ! i)
        then if sync_due c rl fl fd (ents ! i) then Some i
             else critical_scan c rl fl fd ents rn ixs
        else critical_scan c rl fl fd ents rn ixs
      else critical_scan c rl fl fd ents rn ixs)"

definition GetCritalSyncNeighborWOldestSyncPtr :: "u64 \<Rightarrow> u64 \<Rightarrow> u64 \<Rightarrow> u64 \<Rightarrow> neighbor_table \<Rightarrow> nat option" where
  "GetCritalSyncNeighborWOldestSyncPtr curticks request_limit forcererequest_limit fast_disco_request_interval tb =
     critical_scan curticks request_limit forcererequest_limit fast_disco_request_interval
       (Neighbor tb) None [0..<MAX_NEIGHBORS]"

section \<open>Invariant\<close>

text \<open>
  Ten entries, no two with the same valid address, over a well-formed send buffer.
\<close>

definition nt_inv :: "neighbor_table \<Rightarrow> bool" where
  "nt_inv tb \<longleftrightarrow> length (Neighbor tb) = MAX_NEIGHBORS \<and> ab_inv Total_Buffer_SIZE (send_buffer tb)
     \<and> (\<forall>i<MAX_NEIGHBORS. \<forall>j<MAX_NEIGHBORS. ISMAC_VALID (MACAddress (Neighbor tb ! i))
          \<longrightarrow> MACAddress (Neighbor tb ! i) = MACAddress (Neighbor tb ! j) \<longrightarrow> i = j)"

lemma nt_invD:
  assumes "nt_inv tb"
  shows "length (Neighbor tb) = MAX_NEIGHBORS" "ab_inv Total_Buffer_SIZE (send_buffer tb)"
  using assms by (simp_all add: nt_inv_def)

lemma nt_inv_unique:
  "nt_inv tb \<Longrightarrow> i < MAX_NEIGHBORS \<Longrightarrow> j < MAX_NEIGHBORS \<Longrightarrow> ISMAC_VALID (MACAddress (Neighbor tb ! i))
   \<Longrightarrow> MACAddress (Neighbor tb ! i) = MACAddress (Neighbor tb ! j) \<Longrightarrow> i = j"
  by (auto simp: nt_inv_def)

lemma MAX_pos: "0 < MAX_NEIGHBORS" "MAX_NEIGHBORS \<le> 255"
  by (simp_all add: MAX_NEIGHBORS_def)

lemma unat_index: "i < MAX_NEIGHBORS \<Longrightarrow> unat (of_nat i :: u8) = i"
  by (simp add: unat_of_nat MAX_NEIGHBORS_def)

lemma upd_neighbor_simps [simp]:
  "length (Neighbor (upd_neighbor i f tb)) = length (Neighbor tb)"
  "send_buffer (upd_neighbor i f tb) = send_buffer tb"
  "NumberValidNeighbor (upd_neighbor i f tb) = NumberValidNeighbor tb"
  "Neighbor (upd_neighbor i f tb) = (Neighbor tb)[unat i := f (nth_neighbor tb i)]"
  by (simp_all add: upd_neighbor_def)

text \<open>A write to one entry keeps the invariant when it keeps the address, or sets a fresh or invalid one.\<close>

lemma nt_inv_update:
  assumes "nt_inv tb" and "i < MAX_NEIGHBORS"
    and "MACAddress n = MACAddress (Neighbor tb ! i) \<or> \<not> ISMAC_VALID (MACAddress n)
      \<or> (\<forall>j<MAX_NEIGHBORS. j \<noteq> i \<longrightarrow> MACAddress (Neighbor tb ! j) \<noteq> MACAddress n)"
    and "Neighbor tb' = (Neighbor tb)[i := n]" and "ab_inv Total_Buffer_SIZE (send_buffer tb')"
  shows "nt_inv tb'"
  unfolding nt_inv_def
proof (intro conjI allI impI)
  show "length (Neighbor tb') = MAX_NEIGHBORS" using assms nt_invD[OF assms(1)] by simp
  fix j k assume jk: "j < MAX_NEIGHBORS" "k < MAX_NEIGHBORS" "ISMAC_VALID (MACAddress (Neighbor tb' ! j))"
    "MACAddress (Neighbor tb' ! j) = MACAddress (Neighbor tb' ! k)"
  have nth: "Neighbor tb' ! l = (if l = i then n else Neighbor tb ! l)" if "l < MAX_NEIGHBORS" for l
    using that assms(4) nt_invD(1)[OF assms(1)] by (simp add: nth_list_update)
  show "j = k"
    using jk assms(2,3) nt_inv_unique[OF assms(1)] by (auto simp: nth split: if_splits)
qed (use assms in simp)

lemma nt_inv_cong:
  assumes "nt_inv tb" and "Neighbor tb' = Neighbor tb" and "ab_inv Total_Buffer_SIZE (send_buffer tb')"
  shows "nt_inv tb'"
  using assms(1,3) unfolding nt_inv_def assms(2) by blast

lemma nt_inv_buffer [inv_intros]:
  "nt_inv tb \<Longrightarrow> ab_inv Total_Buffer_SIZE ab \<Longrightarrow> nt_inv (tb\<lparr>send_buffer := ab\<rparr>)"
  by (rule nt_inv_cong) simp_all

lemma nt_inv_count [inv_intros]: "nt_inv tb \<Longrightarrow> nt_inv (tb\<lparr>NumberValidNeighbor := c\<rparr>)"
  by (rule nt_inv_cong) (simp_all add: nt_invD)

lemma nt_inv_keep_address [inv_intros]:
  "nt_inv tb \<Longrightarrow> unat i < MAX_NEIGHBORS \<Longrightarrow> MACAddress (f (nth_neighbor tb i)) = MACAddress (nth_neighbor tb i)
   \<Longrightarrow> nt_inv (upd_neighbor i f tb)"
  by (rule nt_inv_update[where n = "f (nth_neighbor tb i)" and i = "unat i"]) (simp_all add: nt_invD)

section \<open>Clearing\<close>

text \<open>The part of \<open>ClearNeighborwIndex\<close> that works on the send buffer.\<close>

definition clear_buffer :: "u16 \<Rightarrow> array_buffer \<Rightarrow> array_buffer option" where
  "clear_buffer mac ab =
     Option.bind (purge_from (FindDataPacketForNeighbor Total_Buffer_SIZE mac) del_pkt
         (FindDataPacketForNeighbor Total_Buffer_SIZE mac ab) ab)
       (\<lambda>ab1. purge_from (FindDataPacketForNeighbor Total_Buffer_SIZE mac) del_pkt
         (FindTSRPacketForNeighbor Total_Buffer_SIZE mac ab1) ab1)"

lemma ClearNeighborwIndex_alt:
  "ClearNeighborwIndex index tb =
     (if \<not> unat index < length (Neighbor tb) then None
      else Option.bind (clear_buffer (MACAddress (nth_neighbor tb index)) (send_buffer tb))
        (\<lambda>ab. let tb1 = upd_neighbor index Clear (tb\<lparr>send_buffer := ab\<rparr>)
               in Some (DS_Success, tb1\<lparr>NumberValidNeighbor := NumberValidNeighbor tb1 - 1\<rparr>)))"
  by (simp add: ClearNeighborwIndex_def clear_buffer_def Let_def)

lemma hits_disjoint: "tsr_hit a v \<Longrightarrow> \<not> data_hit a v"
  by (auto simp: tsr_hit_def data_hit_def)

text \<open>What the two loops leave: no data packet for the neighbor, and one TSR packet less.\<close>

lemma clear_buffer_total:
  assumes "ab_inv Total_Buffer_SIZE ab"
  shows "\<exists>ab' gone. clear_buffer mac ab = Some ab' \<and> ab_inv Total_Buffer_SIZE ab'
    \<and> ab_entries ab' = (\<lambda>q. if q \<in> gone then None else unmatched (data_hit mac) (ab_entries ab) q)
    \<and> (if \<exists>q v. ab_entries ab q = Some v \<and> tsr_hit mac v
       then \<exists>q v. gone = {q} \<and> ab_entries ab q = Some v \<and> tsr_hit mac v else gone = {})"
proof -
  let ?fd = "FindDataPacketForNeighbor Total_Buffer_SIZE mac"
  let ?ft = "FindTSRPacketForNeighbor Total_Buffer_SIZE mac"
  from dat.purge_total[OF assms, of mac] obtain ab1 where
    1: "purge_from ?fd del_pkt (?fd ab) ab = Some ab1" "ab_inv Total_Buffer_SIZE ab1"
       "ab_entries ab1 = unmatched (data_hit mac) (ab_entries ab)" by blast
  have same: "(ab_entries ab1 q = Some v \<and> tsr_hit mac v) = (ab_entries ab q = Some v \<and> tsr_hit mac v)" for q v
    unfolding 1(3) unmatched_Some using hits_disjoint[of mac v] by blast
  show ?thesis
  proof (cases "?ft ab1")
    case None
    have no: "\<not> (\<exists>q v. ab_entries ab q = Some v \<and> tsr_hit mac v)"
      using tsr.look_None[OF 1(2) None] same by blast
    from 1 None have "clear_buffer mac ab = Some ab1" by (simp add: clear_buffer_def)
    with 1 no show ?thesis by (intro exI[of _ ab1] exI[of _ "{}"]) auto
  next
    case (Some p)
    from tsr.look_Some[OF 1(2) Some] obtain v where v: "ab_entries ab1 p = Some v" "tsr_hit mac v" by blast
    let ?ab2 = "del_pkt (Some p) ab1"
    note del = DeletePacket_entry[OF 1(2) v(1)]
    have "?fd ?ab2 = None"
    proof (rule ccontr)
      assume "?fd ?ab2 \<noteq> None"
      then obtain q where "?fd ?ab2 = Some q" by blast
      from dat.look_Some[OF del(1) this] show False
        using del(2) 1(3) by (auto simp: unmatched_Some split: if_splits)
    qed
    then have "clear_buffer mac ab = Some ?ab2"
      using 1(1) Some by (simp add: clear_buffer_def purge_from_Some)
    moreover have vp: "ab_entries ab p = Some v" using same v by blast
    moreover have "\<exists>q v. ab_entries ab q = Some v \<and> tsr_hit mac v" using vp v(2) by blast
    moreover have "ab_entries ?ab2 = (\<lambda>q. if q \<in> {p} then None else unmatched (data_hit mac) (ab_entries ab) q)"
      using del(2) 1(3) by (simp add: fun_eq_iff)
    ultimately show ?thesis using del(1) v(2)
      by (intro exI[of _ ?ab2] exI[of _ "{p}"]) (simp only: if_True, blast)
  qed
qed

lemma Clear_MAC [simp]: "MACAddress (Clear n) = 0" "neighborStatus (Clear n) = Dead"
  by (simp_all add: Clear_def Let_def)

lemma not_valid_zero [simp]: "\<not> ISMAC_VALID 0"
  by (simp add: ISMAC_VALID_def)

lemma ClearNeighborwIndex_total:
  assumes "nt_inv tb" and "unat i < MAX_NEIGHBORS"
  shows "\<exists>ab tb'. clear_buffer (MACAddress (nth_neighbor tb i)) (send_buffer tb) = Some ab
    \<and> ab_inv Total_Buffer_SIZE ab
    \<and> tb' = (upd_neighbor i Clear (tb\<lparr>send_buffer := ab\<rparr>))\<lparr>NumberValidNeighbor := NumberValidNeighbor tb - 1\<rparr>
    \<and> ClearNeighborwIndex i tb = Some (DS_Success, tb') \<and> nt_inv tb'"
proof -
  note inv = nt_invD[OF assms(1)]
  from clear_buffer_total[OF inv(2)] obtain ab where
    ab: "clear_buffer (MACAddress (nth_neighbor tb i)) (send_buffer tb) = Some ab" "ab_inv Total_Buffer_SIZE ab"
    by blast
  let ?t = "(upd_neighbor i Clear (tb\<lparr>send_buffer := ab\<rparr>))\<lparr>NumberValidNeighbor := NumberValidNeighbor tb - 1\<rparr>"
  have "nt_inv ?t"
    using nt_inv_update[OF assms, where n = "Clear (nth_neighbor tb i)" and tb' = ?t] ab(2) by simp
  moreover have "ClearNeighborwIndex i tb = Some (DS_Success, ?t)"
    using ab inv assms(2) by (simp add: ClearNeighborwIndex_alt)
  ultimately show ?thesis using ab by (intro exI[of _ ab] exI[of _ ?t]) simp
qed

section \<open>Look-ups and insertion\<close>

lemma FindIndexEvenDead_cases:
  obtains (found) i where "i < MAX_NEIGHBORS" "MACAddress (Neighbor tb ! i) = a"
      "FindIndexEvenDead a idx tb = (DS_Success, of_nat i)"
  | (missing) "\<forall>i<MAX_NEIGHBORS. MACAddress (Neighbor tb ! i) \<noteq> a"
      "FindIndexEvenDead a idx tb = (DS_Fail, idx)"
proof (cases "find (\<lambda>i. MACAddress (Neighbor tb ! i) = a) [0..<MAX_NEIGHBORS]")
  case None
  then have "FindIndexEvenDead a idx tb = (DS_Fail, idx)" by (simp add: FindIndexEvenDead_def)
  with None show ?thesis by (intro missing) (simp_all add: find_upt_None)
next
  case (Some i)
  then have "FindIndexEvenDead a idx tb = (DS_Success, of_nat i)" by (simp add: FindIndexEvenDead_def)
  with Some show ?thesis by (intro found[of i]) (simp_all add: find_upt_Some)
qed

lemma FindIndex_cases:
  obtains (found) i where "i < MAX_NEIGHBORS" "MACAddress (Neighbor tb ! i) = a"
      "neighborStatus (Neighbor tb ! i) = Alive" "FindIndex a idx tb = (DS_Success, of_nat i)"
  | (missing) "\<forall>i<MAX_NEIGHBORS. \<not> (MACAddress (Neighbor tb ! i) = a \<and> neighborStatus (Neighbor tb ! i) = Alive)"
      "FindIndex a idx tb = (DS_Fail, idx)"
proof (cases "find (\<lambda>i. MACAddress (Neighbor tb ! i) = a \<and> neighborStatus (Neighbor tb ! i) = Alive)
    [0..<MAX_NEIGHBORS]")
  case None
  then have "FindIndex a idx tb = (DS_Fail, idx)" by (simp add: FindIndex_def)
  with None show ?thesis by (intro missing) (simp_all add: find_upt_None)
next
  case (Some i)
  then have "FindIndex a idx tb = (DS_Success, of_nat i)" by (simp add: FindIndex_def)
  with Some show ?thesis by (intro found[of i]) (simp_all add: find_upt_Some)
qed

lemma free_scan_cases:
  "(\<exists>k<length ns. \<not> ISMAC_VALID (MACAddress (ns ! k)) \<and> free_scan i acc ns = (DS_Success, of_nat (i + k)))
   \<or> (\<forall>k<length ns. ISMAC_VALID (MACAddress (ns ! k)))
      \<and> ((\<exists>k<length ns. neighborStatus (ns ! k) \<noteq> Alive \<and> free_scan i acc ns = (DS_Success, of_nat (i + k)))
         \<or> (\<forall>k<length ns. neighborStatus (ns ! k) = Alive) \<and> free_scan i acc ns = acc)"
proof (induction ns arbitrary: i acc)
  case Nil
  then show ?case by simp
next
  case (Cons n ns)
  show ?case
  proof (cases "ISMAC_VALID (MACAddress n)")
    case False
    then show ?thesis by (intro disjI1 exI[of _ 0]) simp
  next
    case True
    let ?acc = "if neighborStatus n \<noteq> Alive then (DS_Success, of_nat i) else acc"
    have step: "free_scan i acc (n # ns) = free_scan (Suc i) ?acc ns" using True by simp
    consider (invalid) k where "k < length ns" "\<not> ISMAC_VALID (MACAddress (ns ! k))"
        "free_scan (Suc i) ?acc ns = (DS_Success, of_nat (Suc i + k))"
      | (dead) k where "\<forall>k<length ns. ISMAC_VALID (MACAddress (ns ! k))" "k < length ns"
        "neighborStatus (ns ! k) \<noteq> Alive" "free_scan (Suc i) ?acc ns = (DS_Success, of_nat (Suc i + k))"
      | (alive) "\<forall>k<length ns. ISMAC_VALID (MACAddress (ns ! k))" "\<forall>k<length ns. neighborStatus (ns ! k) = Alive"
        "free_scan (Suc i) ?acc ns = ?acc"
      using Cons.IH[of "Suc i" ?acc] by blast
    then show ?thesis
    proof cases
      case (invalid k)
      then show ?thesis unfolding step by (intro disjI1 exI[of _ "Suc k"]) simp
    next
      case (dead k)
      then show ?thesis unfolding step using True
        by (intro disjI2 conjI disjI1 exI[of _ "Suc k"]) (auto simp: less_Suc_eq_0_disj)
    next
      case alive
      then have valid: "\<forall>k<length (n # ns). ISMAC_VALID (MACAddress ((n # ns) ! k))"
        using True by (auto simp: less_Suc_eq_0_disj)
      show ?thesis
      proof (cases "neighborStatus n = Alive")
        case A: True
        with alive have "\<forall>k<length (n # ns). neighborStatus ((n # ns) ! k) = Alive"
          by (auto simp: less_Suc_eq_0_disj)
        with valid alive A show ?thesis unfolding step by simp
      next
        case D: False
        then have "\<exists>k<length (n # ns). neighborStatus ((n # ns) ! k) \<noteq> Alive
            \<and> free_scan (Suc i) ?acc ns = (DS_Success, of_nat (i + k))"
          using alive(3) by (intro exI[of _ 0]) simp
        with valid show ?thesis unfolding step by blast
      qed
    qed
  qed
qed

text \<open>
  A free index is an entry without address, or a dead one that is cleared first; there is none
  exactly when all entries are valid and alive.
\<close>

lemma GetFreeIdx_total:
  assumes "nt_inv tb"
  obtains (free) i tb' where "GetFreeIdx tb = Some (DS_Success, i, tb')" "nt_inv tb'" "unat i < MAX_NEIGHBORS"
      "\<not> ISMAC_VALID (MACAddress (nth_neighbor tb' i))"
      "neighborStatus (nth_neighbor tb i) \<noteq> Alive \<or> \<not> ISMAC_VALID (MACAddress (nth_neighbor tb i))"
      "\<forall>j<MAX_NEIGHBORS. j \<noteq> unat i \<longrightarrow> Neighbor tb' ! j = Neighbor tb ! j"
  | (full) "GetFreeIdx tb = Some (DS_Fail, INVALID_NEIGHBOR_INDEX, tb)"
      "\<forall>j<MAX_NEIGHBORS. ISMAC_VALID (MACAddress (Neighbor tb ! j)) \<and> neighborStatus (Neighbor tb ! j) = Alive"
proof -
  note inv = nt_invD[OF assms]
  let ?sc = "free_scan 0 (DS_Fail, INVALID_NEIGHBOR_INDEX) (Neighbor tb)"
  have take: "take MAX_NEIGHBORS (Neighbor tb) = Neighbor tb" using inv by simp
  consider (invalid) k where "k < MAX_NEIGHBORS" "\<not> ISMAC_VALID (MACAddress (Neighbor tb ! k))"
        "?sc = (DS_Success, of_nat k)"
      | (dead) k where "\<forall>k<MAX_NEIGHBORS. ISMAC_VALID (MACAddress (Neighbor tb ! k))" "k < MAX_NEIGHBORS"
        "neighborStatus (Neighbor tb ! k) \<noteq> Alive" "?sc = (DS_Success, of_nat k)"
      | (alive) "\<forall>k<MAX_NEIGHBORS. ISMAC_VALID (MACAddress (Neighbor tb ! k))"
        "\<forall>k<MAX_NEIGHBORS. neighborStatus (Neighbor tb ! k) = Alive" "?sc = (DS_Fail, INVALID_NEIGHBOR_INDEX)"
    using free_scan_cases[of "Neighbor tb" 0 "(DS_Fail, INVALID_NEIGHBOR_INDEX)"] inv by auto
  then show ?thesis
  proof cases
    case (invalid k)
    then have "GetFreeIdx tb = Some (DS_Success, of_nat k, tb)"
      by (simp only: GetFreeIdx_def take) (simp add: unat_index del: unat_of_nat)
    with invalid assms show ?thesis
      by (intro free[of "of_nat k" tb]) (simp_all add: unat_index del: unat_of_nat)
  next
    case (dead k)
    let ?i = "of_nat k :: u8"
    have i: "unat ?i < MAX_NEIGHBORS" and u: "unat ?i = k"
      using dead(2) unat_index[OF dead(2)] by (simp_all del: unat_of_nat)
    from ClearNeighborwIndex_total[OF assms i] obtain ab tb' where
      c: "tb' = (upd_neighbor ?i Clear (tb\<lparr>send_buffer := ab\<rparr>))\<lparr>NumberValidNeighbor := NumberValidNeighbor tb - 1\<rparr>"
      "ClearNeighborwIndex ?i tb = Some (DS_Success, tb')" "nt_inv tb'" by blast
    have "ISMAC_VALID (MACAddress (nth_neighbor tb ?i))" using dead(1,2) u by metis
    with dead(4) c(2) have g: "GetFreeIdx tb = Some (DS_Success, ?i, tb')"
      by (simp only: GetFreeIdx_def take) (simp del: unat_of_nat)
    have n: "Neighbor tb' = (Neighbor tb)[k := Clear (Neighbor tb ! k)]"
      using c(1) u by (simp del: unat_of_nat)
    show ?thesis
    proof (rule free[OF g c(3) i])
      show "\<not> ISMAC_VALID (MACAddress (nth_neighbor tb' ?i))"
        unfolding u n using dead(2) inv by simp
      show "neighborStatus (nth_neighbor tb ?i) \<noteq> Alive \<or> \<not> ISMAC_VALID (MACAddress (nth_neighbor tb ?i))"
        unfolding u using dead(3) by simp
      show "\<forall>j<MAX_NEIGHBORS. j \<noteq> unat ?i \<longrightarrow> Neighbor tb' ! j = Neighbor tb ! j"
        unfolding u n by simp
    qed
  next
    case alive
    then have "GetFreeIdx tb = Some (DS_Fail, INVALID_NEIGHBOR_INDEX, tb)"
      by (simp only: GetFreeIdx_def take) simp
    with alive show ?thesis by (intro full) simp_all
  qed
qed

lemma FindOrInsert_total:
  assumes "nt_inv tb" and "ISMAC_VALID a"
  obtains (ok) i tb' where "FindOrInsertNeighbor a idx tb = Some (DS_Success, i, tb')" "nt_inv tb'"
      "unat i < MAX_NEIGHBORS" "MACAddress (nth_neighbor tb' i) = a"
      "neighborStatus (nth_neighbor tb i) = Alive \<longrightarrow> ISMAC_VALID (MACAddress (nth_neighbor tb i)) \<longrightarrow> tb' = tb"
      "\<forall>j<MAX_NEIGHBORS. j \<noteq> unat i \<longrightarrow> Neighbor tb' ! j = Neighbor tb ! j"
  | (full) i where "FindOrInsertNeighbor a idx tb = Some (DS_Fail, i, tb)"
      "\<forall>j<MAX_NEIGHBORS. ISMAC_VALID (MACAddress (Neighbor tb ! j)) \<and> neighborStatus (Neighbor tb ! j) = Alive
        \<and> MACAddress (Neighbor tb ! j) \<noteq> a"
proof -
  note inv = nt_invD[OF assms(1)]
  show ?thesis
  proof (cases rule: FindIndexEvenDead_cases[where tb = tb and a = a and idx = idx])
    case (found k)
    let ?i = "of_nat k :: u8"
    have u: "unat ?i = k" by (rule unat_index[OF found(1)])
    let ?f = "\<lambda>n. n\<lparr>NumInitializationMessagesSent := 0, IsMyScheduleKnown := False\<rparr>"
    show ?thesis
    proof (cases "neighborStatus (nth_neighbor tb ?i) = Alive")
      case True
      show ?thesis
        by (rule ok[of ?i tb])
           (use found True assms u in \<open>simp_all add: FindOrInsertNeighbor_def del: unat_of_nat\<close>)
    next
      case False
      have "nt_inv (upd_neighbor ?i ?f tb)"
        by (rule nt_inv_keep_address[OF assms(1)]) (use u found(1) in \<open>simp_all del: unat_of_nat\<close>)
      moreover have "FindOrInsertNeighbor a idx tb = Some (DS_Success, ?i, upd_neighbor ?i ?f tb)"
        using found False assms(2) by (simp add: FindOrInsertNeighbor_def del: unat_of_nat)
      ultimately show ?thesis
        by (intro ok[of ?i "upd_neighbor ?i ?f tb"])
           (use found False inv u in \<open>simp_all del: unat_of_nat\<close>)
    qed
  next
    case missing
    show ?thesis
    proof (cases rule: GetFreeIdx_total[OF assms(1)])
      case (1 i tb')
      let ?f = "\<lambda>n. n\<lparr>MACAddress := a, NumInitializationMessagesSent := 0, IsMyScheduleKnown := False\<rparr>"
      let ?t = "upd_neighbor i ?f tb'"
      have new: "\<forall>j<MAX_NEIGHBORS. j \<noteq> unat i \<longrightarrow> MACAddress (Neighbor tb' ! j) \<noteq> a"
        using missing(1) 1(6) by simp
      have "nt_inv ?t"
        by (rule nt_inv_update[OF 1(2,3), where n = "?f (nth_neighbor tb' i)"])
           (use new nt_invD[OF 1(2)] in simp_all)
      moreover have "FindOrInsertNeighbor a idx tb = Some (DS_Success, i, ?t)"
        using missing(2) 1(1) assms(2) by (simp add: FindOrInsertNeighbor_def)
      ultimately show ?thesis
        by (intro ok[of i ?t]) (use 1 nt_invD[OF 1(2)] in auto)
    next
      case 2
      have "FindOrInsertNeighbor a idx tb = Some (DS_Fail, INVALID_NEIGHBOR_INDEX, tb)"
        using missing(2) 2(1) assms(2) by (simp add: FindOrInsertNeighbor_def)
      with 2(2) missing(1) show ?thesis by (intro full) auto
    qed
  qed
qed

text \<open>Find or insert, then write the entry: the shape of every updating operation.\<close>

lemma FindOrInsert_invalid: "\<not> ISMAC_VALID a \<Longrightarrow> FindOrInsertNeighbor a idx tb = Some (DS_Fail, idx, tb)"
  by (simp add: FindOrInsertNeighbor_def)

lemma find_then_update:
  assumes "nt_inv tb" and keep: "\<And>n. MACAddress n = a \<Longrightarrow> MACAddress (f n) = a"
  shows "\<exists>rv tb'. map_option (\<lambda>(rv, i, tb'). if rv = DS_Success \<and> ISMAC_VALID a
      then (g rv, upd_neighbor i f tb') else (h rv, tb')) (FindOrInsertNeighbor a idx tb) = Some (rv, tb')
    \<and> nt_inv tb'"
proof (cases "ISMAC_VALID a")
  case True
  show ?thesis
  proof (cases rule: FindOrInsert_total[OF assms(1) True, of idx])
    case (1 i tb')
    have "nt_inv (upd_neighbor i f tb')"
      by (rule nt_inv_keep_address[OF 1(2,3)]) (use keep 1(4) in simp)
    with 1 True show ?thesis by simp
  next
    case (2 i)
    with assms show ?thesis by simp
  qed
next
  case False
  with assms show ?thesis by (simp add: FindOrInsert_invalid)
qed

lemma record_entry_total:
  assumes "nt_inv tb" and "\<And>n. MACAddress (f n) = MACAddress n"
  shows "\<exists>rv tb'. record_entry a f tb = Some (rv, tb') \<and> nt_inv tb'"
  unfolding record_entry_def by (rule find_then_update) (use assms in simp_all)

lemma update_two_entry_MAC [simp]: "MACAddress (update_two_entry p1 p2 n) = p1_MACAddress p1"
  by (simp add: update_two_entry_def Let_def)

lemma UpdateNeighbor_two_total:
  "nt_inv tb \<Longrightarrow> \<exists>rv tb'. UpdateNeighbor_two p1 p2 tb = Some (rv, tb') \<and> nt_inv tb'"
  unfolding UpdateNeighbor_two_def
  by (cases "p1_status p1 = NbrStatusError \<or> p1_lastHeardTime p1 = 0")
    (auto simp del: split_paired_Ex intro!: find_then_update[where g = "\<lambda>rv. rv" and h = "\<lambda>rv. rv", simplified])

lemma UpdateNeighbor_one_total:
  "nt_inv tb \<Longrightarrow> \<exists>rv tb'. UpdateNeighbor_one p1 tb = Some (rv, tb') \<and> nt_inv tb'"
  unfolding UpdateNeighbor_one_def Let_def
  by (cases "p1_status p1 = NbrStatusError \<or> p1_lastHeardTime p1 = 0")
    (auto simp del: split_paired_Ex intro!: find_then_update[where g = "\<lambda>rv. rv" and h = "\<lambda>rv. rv", simplified])

lemma InsertNeighbor_total:
  assumes "nt_inv tb"
  shows "\<exists>rv tb'. InsertNeighbor p1 p2 tb = Some (rv, tb') \<and> nt_inv tb'"
proof (cases "ISMAC_VALID (p1_MACAddress p1)")
  case True
  show ?thesis
  proof (cases rule: FindOrInsert_total[OF assms True, of 0])
    case (1 i tb1)
    let ?f = "\<lambda>n. n\<lparr>ReceiveLink := zero_metrics (ReceiveLink n), SendLink := zero_metrics (SendLink n)\<rparr>"
    let ?t = "upd_neighbor i ?f (tb1\<lparr>NumberValidNeighbor := NumberValidNeighbor tb1 + 1\<rparr>)"
    have "nt_inv ?t"
      by (rule nt_inv_keep_address[OF nt_inv_count[OF 1(2)] 1(3)]) simp
    from UpdateNeighbor_two_total[OF this] 1(1) True show ?thesis by (simp add: InsertNeighbor_def)
  next
    case (2 i)
    with assms show ?thesis by (simp add: InsertNeighbor_def)
  qed
next
  case False
  with assms show ?thesis by (simp add: InsertNeighbor_def FindOrInsert_invalid)
qed

lemma ClearNeighbor_total:
  assumes "nt_inv tb"
  shows "\<exists>rv tb'. ClearNeighbor a tb = Some (rv, tb') \<and> nt_inv tb'"
proof (cases rule: FindIndex_cases[where tb = tb and a = a and idx = 0])
  case (found i)
  have "unat (of_nat i :: u8) < MAX_NEIGHBORS" using found(1) unat_index[OF found(1)] by simp
  from ClearNeighborwIndex_total[OF assms this] found(4) show ?thesis
    by (simp add: ClearNeighbor_def) blast
next
  case missing
  with assms show ?thesis by (simp add: ClearNeighbor_def)
qed

lemma clear_entries_total:
  "nt_inv tb \<Longrightarrow> set ixs \<subseteq> {..<MAX_NEIGHBORS} \<Longrightarrow>
   \<exists>tb'. clear_entries ixs tb = Some tb' \<and> nt_inv tb'
     \<and> (\<forall>j<MAX_NEIGHBORS. j \<in> set ixs \<longrightarrow> \<not> ISMAC_VALID (MACAddress (Neighbor tb' ! j)) \<and> neighborStatus (Neighbor tb' ! j) = Dead)
     \<and> (\<forall>j<MAX_NEIGHBORS. \<not> ISMAC_VALID (MACAddress (Neighbor tb ! j)) \<and> neighborStatus (Neighbor tb ! j) = Dead
          \<longrightarrow> \<not> ISMAC_VALID (MACAddress (Neighbor tb' ! j)) \<and> neighborStatus (Neighbor tb' ! j) = Dead)"
proof (induction ixs arbitrary: tb)
  case Nil
  then show ?case by simp
next
  case (Cons i ixs)
  let ?i = "of_nat i :: u8"
  have "i < MAX_NEIGHBORS" using Cons.prems(2) by simp
  then have u: "unat ?i = i" by (rule unat_index)
  with Cons.prems have i: "unat ?i < MAX_NEIGHBORS" by (simp del: unat_of_nat)
  from ClearNeighborwIndex_total[OF Cons.prems(1) i] obtain ab tb' where
    c: "tb' = (upd_neighbor ?i Clear (tb\<lparr>send_buffer := ab\<rparr>))\<lparr>NumberValidNeighbor := NumberValidNeighbor tb - 1\<rparr>"
      "ClearNeighborwIndex ?i tb = Some (DS_Success, tb')" "nt_inv tb'" by blast
  have n: "Neighbor tb' = (Neighbor tb)[i := Clear (Neighbor tb ! i)]"
    using c(1) u by (simp del: unat_of_nat)
  have gone: "\<not> ISMAC_VALID (MACAddress (Neighbor tb' ! j)) \<and> neighborStatus (Neighbor tb' ! j) = Dead"
    if "j < MAX_NEIGHBORS" "j = i \<or> \<not> ISMAC_VALID (MACAddress (Neighbor tb ! j)) \<and> neighborStatus (Neighbor tb ! j) = Dead" for j
    using that nt_invD(1)[OF Cons.prems(1)] by (cases "j = i") (simp_all add: n)
  from Cons.prems(2) have "set ixs \<subseteq> {..<MAX_NEIGHBORS}" by simp
  from Cons.IH[OF c(3) this] obtain tb'' where
    r: "clear_entries ixs tb' = Some tb''" "nt_inv tb''"
      "\<forall>j<MAX_NEIGHBORS. j \<in> set ixs \<longrightarrow> \<not> ISMAC_VALID (MACAddress (Neighbor tb'' ! j)) \<and> neighborStatus (Neighbor tb'' ! j) = Dead"
      "\<forall>j<MAX_NEIGHBORS. \<not> ISMAC_VALID (MACAddress (Neighbor tb' ! j)) \<and> neighborStatus (Neighbor tb' ! j) = Dead
          \<longrightarrow> \<not> ISMAC_VALID (MACAddress (Neighbor tb'' ! j)) \<and> neighborStatus (Neighbor tb'' ! j) = Dead"
    by blast
  with c(2) gone show ?case by auto
qed

lemma ClearTable_total:
  assumes "nt_inv tb"
  shows "\<exists>tb'. ClearTable tb = Some tb' \<and> nt_inv tb' \<and> NumberValidNeighbor tb' = 0
    \<and> ab_map (send_buffer tb') = Map.empty
    \<and> (\<forall>j<MAX_NEIGHBORS. \<not> ISMAC_VALID (MACAddress (Neighbor tb' ! j)) \<and> neighborStatus (Neighbor tb' ! j) = Dead)"
proof -
  have "set [0..<MAX_NEIGHBORS] \<subseteq> {..<MAX_NEIGHBORS}" by auto
  from clear_entries_total[OF assms this] obtain tb' where
    t: "clear_entries [0..<MAX_NEIGHBORS] tb = Some tb'" "nt_inv tb'"
      "\<forall>j<MAX_NEIGHBORS. \<not> ISMAC_VALID (MACAddress (Neighbor tb' ! j)) \<and> neighborStatus (Neighbor tb' ! j) = Dead"
    by auto
  let ?ab = "Initialize_ab Total_Buffer_SIZE (send_buffer tb')"
  have "ab_inv Total_Buffer_SIZE ?ab" "ab_map ?ab = Map.empty"
    using Initialize_ab_inv[of Total_Buffer_SIZE "send_buffer tb'"] ab_invD[OF nt_invD(2)[OF t(2)]] by auto
  moreover from this have "nt_inv (tb'\<lparr>NumberValidNeighbor := 0, send_buffer := ?ab\<rparr>)"
    by (intro nt_inv_cong[OF t(2)]) simp_all
  ultimately show ?thesis using t by (simp add: ClearTable_def)
qed

section \<open>Admission\<close>

text \<open>The packets of a neighbor: those of either look-up.\<close>

definition pkt_hit :: "u16 \<Rightarrow> BufferOwner \<times> message \<Rightarrow> bool" where
  "pkt_hit a v = (fst v = BO_OMAC \<and> msg_dest (snd v) = a)"

lemma pkt_hit_iff: "pkt_hit a v \<longleftrightarrow> data_hit a v \<or> tsr_hit a v"
  by (auto simp: pkt_hit_def data_hit_def tsr_hit_def)

definition no_packet :: "(pkt_addr \<rightharpoonup> BufferOwner \<times> message) \<Rightarrow> Neighbor_t \<Rightarrow> bool" where
  "no_packet E n \<longleftrightarrow> (ISMAC_VALID (MACAddress n) \<longrightarrow> (\<forall>q v. E q = Some v \<longrightarrow> \<not> pkt_hit (MACAddress n) v))"

text \<open>Neighbors without packet, and free slots.\<close>

definition waiting :: "neighbor_table \<Rightarrow> nat" where
  "waiting tb = count_if (no_packet (ab_entries (send_buffer tb))) (Neighbor tb)"

definition free_slots :: "neighbor_table \<Rightarrow> nat" where
  "free_slots tb = unat Total_Buffer_SIZE - card (dom (ab_entries (send_buffer tb)))"

lemma ab_entries_card:
  assumes "ab_inv bs ab"
  shows "card (dom (ab_entries ab)) = unat (num_elements ab)"
proof -
  have "dom (ab_entries ab) = PSlot ` dom (ab_map ab)"
    by (auto simp: ab_entries_def image_iff split: pkt_addr.splits)
  then have "card (dom (ab_entries ab)) = card (dom (ab_map ab))"
    by (simp add: card_image inj_on_def)
  then show ?thesis by (simp add: num_elements_card[OF assms])
qed

lemma num_elements_le: "ab_inv bs ab \<Longrightarrow> unat (num_elements ab) \<le> unat bs"
  using count_if_le[of _ "buffer_owner ab"] by (simp add: ab_inv_def)

lemma ab_entries_map: "(\<exists>q v. ab_entries ab q = Some v \<and> P v) \<longleftrightarrow> (\<exists>i v. ab_map ab i = Some v \<and> P v)"
proof
  assume "\<exists>q v. ab_entries ab q = Some v \<and> P v"
  then obtain q v where "ab_entries ab q = Some v" "P v" by blast
  then show "\<exists>i v. ab_map ab i = Some v \<and> P v" by (cases q; cases v) (auto simp: ab_entries_def)
next
  assume "\<exists>i v. ab_map ab i = Some v \<and> P v"
  then obtain i v where "ab_map ab i = Some v" "P v" by blast
  then show "\<exists>q v. ab_entries ab q = Some v \<and> P v"
    by (intro exI[of _ "PSlot i"]) (simp add: ab_entries_def)
qed

lemma IsThereAPacket_iff:
  assumes "nt_inv tb"
  shows "IsThereAPacketWithDest a tb \<longleftrightarrow> (\<exists>q v. ab_entries (send_buffer tb) q = Some v \<and> pkt_hit a v)"
proof -
  have "(\<exists>q v. ab_entries (send_buffer tb) q = Some v \<and> pkt_hit a v) \<longleftrightarrow>
    (\<exists>q v. ab_entries (send_buffer tb) q = Some v \<and> data_hit a v)
    \<or> (\<exists>q v. ab_entries (send_buffer tb) q = Some v \<and> tsr_hit a v)"
    by (simp only: pkt_hit_iff) blast
  moreover have "IsThereADataPacketFor a tb \<longleftrightarrow> (\<exists>q v. ab_entries (send_buffer tb) q = Some v \<and> data_hit a v)"
    using nt_invD(2)[OF assms] dat.exists_look[OF nt_invD(2)[OF assms], of a]
      dat.look_None[OF nt_invD(2)[OF assms], of a] dat.look_Some[OF nt_invD(2)[OF assms], of a]
    unfolding IsThereADataPacketFor_def by (metis not_None_eq)
  moreover have "IsThereATSRPacketFor a tb \<longleftrightarrow> (\<exists>q v. ab_entries (send_buffer tb) q = Some v \<and> tsr_hit a v)"
    using nt_invD(2)[OF assms] tsr.exists_look[OF nt_invD(2)[OF assms], of a]
      tsr.look_None[OF nt_invD(2)[OF assms], of a] tsr.look_Some[OF nt_invD(2)[OF assms], of a]
    unfolding IsThereATSRPacketFor_def by (metis not_None_eq)
  ultimately show ?thesis by (simp add: IsThereAPacketWithDest_def)
qed

lemma waiting_le: "nt_inv tb \<Longrightarrow> waiting tb \<le> 10"
  using count_if_le[of _ "Neighbor tb"] by (simp add: waiting_def nt_invD MAX_NEIGHBORS_def)

lemma NumberofNeighbors_waiting:
  assumes "nt_inv tb"
  shows "unat (NumberofNeighborsWithNoPacketinQueue tb) = waiting tb"
proof -
  have "(\<lambda>n. if ISMAC_VALID (MACAddress n) then \<not> IsThereAPacketWithDest (MACAddress n) tb else True)
      = no_packet (ab_entries (send_buffer tb))"
    by (auto simp: fun_eq_iff no_packet_def IsThereAPacket_iff[OF assms])
  then have "NumberofNeighborsWithNoPacketinQueue tb = of_nat (waiting tb)"
    using nt_invD(1)[OF assms] by (simp add: NumberofNeighborsWithNoPacketinQueue_def waiting_def)
  then show ?thesis using waiting_le[OF assms] by (simp add: unat_of_nat)
qed

text \<open>Removing the TSR packets of one address costs at most one waiting neighbor more.\<close>

lemma waiting_purge:
  assumes "nt_inv tb" and "E' = unmatched (tsr_hit d) (ab_entries (send_buffer tb))"
  shows "count_if (no_packet E') (Neighbor tb) + card (dom E')
     \<le> waiting tb + card (dom (ab_entries (send_buffer tb)))"
proof (cases "E' = ab_entries (send_buffer tb)")
  case True
  then show ?thesis by (simp add: waiting_def)
next
  case False
  let ?E = "ab_entries (send_buffer tb)"
  have sub: "dom E' \<subseteq> dom ?E" using assms(2) by (auto simp: unmatched_Some)
  have "dom E' \<noteq> dom ?E"
  proof
    assume eq: "dom E' = dom ?E"
    have "E' q = ?E q" for q
    proof (cases "?E q")
      case None
      then show ?thesis using eq by (metis domIff)
    next
      case (Some v)
      then have "q \<in> dom E'" using eq by blast
      then obtain w where "E' q = Some w" by blast
      with Some assms(2) show ?thesis by (auto simp: unmatched_Some)
    qed
    with False show False by (simp add: fun_eq_iff)
  qed
  with sub have lt: "card (dom E') < card (dom ?E)"
    by (intro psubset_card_mono) (auto simp: ab_entries_finite)
  have one: "ISMAC_VALID (MACAddress n) \<and> MACAddress n = d" if "no_packet E' n" "\<not> no_packet ?E n" for n
  proof -
    from that(2) obtain q v where v: "ISMAC_VALID (MACAddress n)" "?E q = Some v" "pkt_hit (MACAddress n) v"
      by (auto simp: no_packet_def)
    with that(1) have "E' q \<noteq> Some v" unfolding no_packet_def by blast
    with v(2) assms(2) have "tsr_hit d v" by (auto simp: unmatched_Some)
    with v show ?thesis by (auto simp: tsr_hit_def pkt_hit_def)
  qed
  have "count_if (no_packet E') (Neighbor tb) \<le> count_if (no_packet ?E) (Neighbor tb) + 1"
  proof (rule count_if_mono_one)
    fix i j assume "i < length (Neighbor tb)" "j < length (Neighbor tb)"
      "no_packet E' (Neighbor tb ! i)" "\<not> no_packet ?E (Neighbor tb ! i)"
      "no_packet E' (Neighbor tb ! j)" "\<not> no_packet ?E (Neighbor tb ! j)"
    with one nt_inv_unique[OF assms(1)] nt_invD(1)[OF assms(1)] show "i = j" by metis
  qed
  with lt show ?thesis by (simp add: waiting_def)
qed

lemma buffer_insert_entries:
  assumes "ab_inv bs ab"
  obtains (room) i ab' where "num_elements ab < bs" "InsertMessageGetIndex bs m BO_OMAC ab = (i, ab')"
      "i \<noteq> INVALID_PACKET_ID" "ab_inv bs ab'" "ab_entries ab (PSlot i) = None"
      "ab_entries ab' = (ab_entries ab)(PSlot i \<mapsto> (BO_OMAC, m))"
  | (full) "\<not> num_elements ab < bs" "InsertMessageGetIndex bs m BO_OMAC ab = (INVALID_PACKET_ID, ab)"
  using assms
proof (cases rule: InsertMessageGetIndex_cases[where m = m and ow = BO_OMAC])
  case (room i)
  let ?ab = "put_slot i m BO_OMAC ab"
  have "ab_entries ?ab = (ab_entries ab)(PSlot i \<mapsto> (BO_OMAC, m))"
    using put_slot_map[OF assms room(2), of BO_OMAC m]
    by (auto simp: ab_entries_def fun_eq_iff split: pkt_addr.splits)
  moreover have "i \<noteq> INVALID_PACKET_ID"
    using valid_slot[OF room(2) ab_invD(2)[OF assms]] by (auto simp: ISPACKET_ID_VALID_def)
  moreover have "ab_entries ab (PSlot i) = None" using room(3) by (simp add: ab_entries_def ab_map_def)
  ultimately show ?thesis
    using that(1)[of i ?ab] room put_slot_inv[OF assms room(2,3), of BO_OMAC m] by simp
qed (use that(2) in blast)

lemma free_slot_guard:
  assumes "nt_inv tb"
  shows "int (unat (NumberofNeighborsWithNoPacketinQueue tb))
      < int (unat Total_Buffer_SIZE) - int (unat (GetNumberofElements (send_buffer tb)))
    \<longleftrightarrow> waiting tb < free_slots tb"
    and "num_elements (send_buffer tb) < Total_Buffer_SIZE \<longleftrightarrow> 0 < free_slots tb"
proof -
  note inv = nt_invD(2)[OF assms]
  have num: "unat (num_elements (send_buffer tb)) = card (dom (ab_entries (send_buffer tb)))"
    by (rule ab_entries_card[OF inv, symmetric])
  have "card (dom (ab_entries (send_buffer tb))) \<le> 18"
    using num_elements_le[OF inv] num by (simp add: Total_Buffer_SIZE_def)
  then show "int (unat (NumberofNeighborsWithNoPacketinQueue tb))
      < int (unat Total_Buffer_SIZE) - int (unat (GetNumberofElements (send_buffer tb)))
    \<longleftrightarrow> waiting tb < free_slots tb"
    using num by (simp add: NumberofNeighbors_waiting[OF assms] GetNumberofElements_def free_slots_def
        Total_Buffer_SIZE_def) linarith
  show "num_elements (send_buffer tb) < Total_Buffer_SIZE \<longleftrightarrow> 0 < free_slots tb"
    using num by (simp add: free_slots_def word_less_nat_alt)
qed

text \<open>The first packet for a neighbor takes the slot that was kept for it.\<close>

lemma admission_first_packet:
  assumes "nt_inv tb" and res: "waiting tb \<le> free_slots tb"
    and k: "k < MAX_NEIGHBORS" "MACAddress (Neighbor tb ! k) = msg_dest m" "ISMAC_VALID (msg_dest m)"
    and no: "\<not> IsThereAPacketWithDest (msg_dest m) tb"
  shows "\<exists>i tb'. InsertMessageGetIndex_nt (Some m) tb = Some (i, tb') \<and> nt_inv tb'
    \<and> Neighbor tb' = Neighbor tb \<and> waiting tb' \<le> free_slots tb' \<and> i \<noteq> INVALID_PACKET_ID"
proof -
  let ?E = "ab_entries (send_buffer tb)"
  note inv = nt_invD[OF assms(1)]
  have klen: "k < length (Neighbor tb)" using k(1) inv by simp
  have nop: "no_packet ?E (Neighbor tb ! k)"
    using no IsThereAPacket_iff[OF assms(1), of "msg_dest m"] k(2) unfolding no_packet_def by auto
  have "0 < waiting tb" unfolding waiting_def by (rule count_if_pos[where P = "no_packet ?E", OF klen nop])
  with res have ex: "num_elements (send_buffer tb) < Total_Buffer_SIZE"
    using free_slot_guard(2)[OF assms(1)] by simp
  show ?thesis
  proof (cases rule: buffer_insert_entries[OF inv(2), of m])
    case (1 i ab')
    let ?t = "tb\<lparr>send_buffer := ab'\<rparr>"
    have "count_if (no_packet (ab_entries ab')) (Neighbor tb) < count_if (no_packet ?E) (Neighbor tb)"
    proof (rule count_if_strict[OF _ klen])
      show "no_packet ?E n" if "no_packet (ab_entries ab') n" for n
        using that 1(5) unfolding no_packet_def 1(6) by (metis fun_upd_apply option.distinct(1))
      show "\<not> no_packet (ab_entries ab') (Neighbor tb ! k)"
        using k(2,3) unfolding no_packet_def 1(6) by (auto simp: pkt_hit_def)
    qed (rule nop)
    moreover have "card (dom (ab_entries ab')) = Suc (card (dom ?E))"
      using 1(5) by (simp add: 1(6) ab_entries_finite card_insert_if domIff)
    ultimately have "waiting ?t \<le> free_slots ?t"
      using res by (simp add: waiting_def free_slots_def)
    moreover have "InsertMessageGetIndex_nt (Some m) tb = Some (i, ?t)"
      using no 1(2) by (simp add: InsertMessageGetIndex_nt_def)
    ultimately show ?thesis
      using 1(3) nt_inv_buffer[OF assms(1) 1(4)] by (intro exI[of _ i] exI[of _ ?t]) simp
  qed (use ex in simp)
qed

text \<open>
  A further packet: the time-sync requests for the low byte of the address leave the buffer,
  then the packet is stored.
\<close>

lemma admission_further_packet:
  assumes "nt_inv tb" and some: "IsThereAPacketWithDest (msg_dest m) tb"
    and room: "waiting tb < free_slots tb"
  shows "\<exists>i tb'. InsertMessageGetIndex_nt (Some m) tb = Some (i, tb') \<and> nt_inv tb'
    \<and> Neighbor tb' = Neighbor tb \<and> waiting tb' \<le> free_slots tb' \<and> i \<noteq> INVALID_PACKET_ID
    \<and> ab_entries (send_buffer tb') =
        (unmatched (tsr_hit (ucast (GetDestConst (header m)))) (ab_entries (send_buffer tb)))
          (PSlot i \<mapsto> (BO_OMAC, m))"
proof -
  let ?ab = "send_buffer tb" and ?E = "ab_entries (send_buffer tb)"
  let ?d = "ucast (GetDestConst (header m)) :: u16"
  note inv = nt_invD[OF assms(1)]
  from tsr.purge_while_total[OF inv(2), of ?d] obtain ab1 where
    p: "purge_while (IsThereATSRPacketWithDest Total_Buffer_SIZE ?d)
          (FindTSRPacketForNeighbor Total_Buffer_SIZE ?d) del_pkt ?ab = Some ab1"
       "ab_inv Total_Buffer_SIZE ab1" "ab_entries ab1 = unmatched (tsr_hit ?d) ?E" by blast
  note cost = waiting_purge[OF assms(1) p(3)]
  have "card (dom (ab_entries ab1)) \<le> card (dom ?E)"
    by (rule card_mono[OF ab_entries_finite]) (auto simp: p(3) unmatched_Some)
  with room have ex: "num_elements ab1 < Total_Buffer_SIZE"
    using ab_entries_card[OF p(2)] by (simp add: free_slots_def Total_Buffer_SIZE_def word_less_nat_alt)
  show ?thesis
  proof (cases rule: buffer_insert_entries[OF p(2), of m])
    case (1 i ab')
    let ?t = "tb\<lparr>send_buffer := ab'\<rparr>"
    have "count_if (no_packet (ab_entries ab')) (Neighbor tb) \<le> count_if (no_packet (ab_entries ab1)) (Neighbor tb)"
      using 1(5) unfolding no_packet_def 1(6)
      by (intro count_if_mono) (metis fun_upd_apply option.distinct(1))
    moreover have "card (dom (ab_entries ab')) = Suc (card (dom (ab_entries ab1)))"
      using 1(5) by (simp add: 1(6) ab_entries_finite card_insert_if domIff)
    ultimately have "waiting ?t \<le> free_slots ?t"
      using cost room by (simp add: waiting_def free_slots_def Total_Buffer_SIZE_def)
    moreover have "InsertMessageGetIndex_nt (Some m) tb = Some (i, ?t)"
      using some room free_slot_guard(1)[OF assms(1)] p(1) 1(2)
      by (simp add: InsertMessageGetIndex_nt_def Let_def)
    ultimately show ?thesis
      using 1(3,6) p(3) nt_inv_buffer[OF assms(1) 1(4)] by (intro exI[of _ i] exI[of _ ?t]) simp
  qed (use ex in simp)
qed

section \<open>Finding a live neighbor\<close>

lemma FindOrInsert_found:
  assumes "nt_inv tb" and "k < MAX_NEIGHBORS" and "MACAddress (Neighbor tb ! k) = a"
    and "ISMAC_VALID a" and "neighborStatus (Neighbor tb ! k) = Alive"
  shows "FindOrInsertNeighbor a idx tb = Some (DS_Success, of_nat k, tb)"
proof (cases rule: FindIndexEvenDead_cases[where tb = tb and a = a and idx = idx])
  case (found i)
  have "i = k" by (rule nt_inv_unique[OF assms(1) found(1) assms(2)]) (use found(2) assms in simp_all)
  with found(3) assms(4,5) unat_index[OF assms(2)] show ?thesis
    by (simp add: FindOrInsertNeighbor_def del: unat_of_nat)
qed (use assms in blast)

lemma NumberOfNeighborsTotal_update:
  assumes "k < length (Neighbor tb)" and "Neighbor tb' = (Neighbor tb)[k := n]"
    and "MACAddress n = MACAddress (Neighbor tb ! k)"
  shows "NumberOfNeighborsTotal tb' = NumberOfNeighborsTotal tb"
proof -
  have c: "count_if (\<lambda>n. ISMAC_VALID (MACAddress n)) xs = count_if ISMAC_VALID (map MACAddress xs)" for xs
    by (simp add: count_if_def filter_map comp_def)
  have "map MACAddress (Neighbor tb') = map MACAddress (Neighbor tb)"
    using assms by (simp add: map_update list_update_same_conv)
  then show ?thesis by (simp add: NumberOfNeighborsTotal_def c flip: take_map)
qed

section \<open>Properties\<close>

definition sample_link :: Link_t where
  "sample_link = \<lparr>AvgRSSI = 0, LinkQuality = 0, AveDelay = 0, Link_reliability_bitmap = 0\<rparr>"

definition sample_entry :: "u16 \<Rightarrow> NeighborStatus \<Rightarrow> Neighbor_t" where
  "sample_entry mac st =
     \<lparr>MACAddress = mac, NumInitializationMessagesSent = 0, IsMyScheduleKnown = False,
      SendLink = sample_link, ReceiveLink = sample_link, neighborStatus = st,
      IsAvailableForUpperLayers = False, CountOfPacketsReceived = 0, LastHeardTime = 0,
      ReceiveDutyCycle = 0, FrameLength = 0, nextSeed = 0, seed_mask = 0, nextwakeupSlot = 0,
      seedUpdateIntervalinSlots = 0, LastTimeSyncRecvTime = 0, LastTimeSyncRequestTime = 0,
      LastTimeSyncSendTime = 0, random_back_off_slot = 0, random_back_off_window_size = 1,
      radioStartDelay = 0, counterOffset = 0\<rparr>"

text \<open>Two live neighbors, 1 and 2, and an empty send buffer.\<close>

definition sample_nt :: neighbor_table where
  "sample_nt = \<lparr>NumberValidNeighbor = 2, PreviousNumberValidNeighbor = 0,
     Neighbor = [sample_entry 1 Alive, sample_entry 2 Alive] @ replicate 8 (sample_entry 0 Dead),
     send_buffer = sample_ab\<rparr>"

lemma sample_nt_mac:
  "i < 10 \<Longrightarrow> MACAddress (Neighbor sample_nt ! i) = (if i = 0 then 1 else if i = 1 then 2 else 0)"
  by (auto simp: sample_nt_def sample_entry_def nth_Cons')

lemma sample_nt_inv: "nt_inv sample_nt"
  unfolding nt_inv_def
proof (intro conjI allI impI)
  fix i j assume "i < MAX_NEIGHBORS" "j < MAX_NEIGHBORS" "ISMAC_VALID (MACAddress (Neighbor sample_nt ! i))"
    "MACAddress (Neighbor sample_nt ! i) = MACAddress (Neighbor sample_nt ! j)"
  then show "i = j" by (simp add: MAX_NEIGHBORS_def sample_nt_mac split: if_splits)
qed (use sample_ab_inv in \<open>simp_all add: sample_nt_def MAX_NEIGHBORS_def Total_Buffer_SIZE_def\<close>)

text \<open>
  Finding or inserting a neighbor with a valid address always returns. On success the
  returned entry holds the address, no other entry changes, and a live neighbor is never
  displaced; it fails only when all ten entries are live neighbors with other addresses, and
  then changes nothing. Addresses stay unique.
\<close>

theorem find_or_insert_neighbor:
  assumes "nt_inv tb" and "ISMAC_VALID a"
  shows "\<exists>rv i tb'. FindOrInsertNeighbor a idx tb = Some (rv, i, tb') \<and> nt_inv tb'
    \<and> (if rv = DS_Success
       then unat i < MAX_NEIGHBORS \<and> MACAddress (nth_neighbor tb' i) = a
         \<and> (\<forall>j<MAX_NEIGHBORS. j \<noteq> unat i \<longrightarrow> Neighbor tb' ! j = Neighbor tb ! j)
         \<and> (neighborStatus (nth_neighbor tb i) = Alive \<and> ISMAC_VALID (MACAddress (nth_neighbor tb i)) \<longrightarrow> tb' = tb)
       else rv = DS_Fail \<and> tb' = tb
         \<and> (\<forall>j<MAX_NEIGHBORS. ISMAC_VALID (MACAddress (Neighbor tb ! j))
              \<and> neighborStatus (Neighbor tb ! j) = Alive \<and> MACAddress (Neighbor tb ! j) \<noteq> a))"
proof (cases rule: FindOrInsert_total[OF assms, of idx])
  case (1 i tb')
  then show ?thesis by (intro exI[of _ DS_Success] exI[of _ i] exI[of _ tb']) simp
next
  case (2 i)
  with assms(1) show ?thesis by (intro exI[of _ DS_Fail] exI[of _ i] exI[of _ tb]) simp
qed

text \<open>
  C10. Every operation that changes entries returns and keeps the table's invariant: insertion,
  both updates, the time-sync records, the link delay, and clearing one entry; clearing the
  table leaves no valid or live entry, no packet, and a count of 0.
\<close>

theorem neighbor_operations_keep_invariant:
  assumes "nt_inv tb"
  shows "(\<exists>rv tb'. InsertNeighbor p1 p2 tb = Some (rv, tb') \<and> nt_inv tb')
    \<and> (\<exists>rv tb'. UpdateNeighbor_two p1 p2 tb = Some (rv, tb') \<and> nt_inv tb')
    \<and> (\<exists>rv tb'. UpdateNeighbor_one p1 tb = Some (rv, tb') \<and> nt_inv tb')
    \<and> (\<exists>rv tb'. RecordLastHeardTime a t tb = Some (rv, tb') \<and> nt_inv tb')
    \<and> (\<exists>rv tb'. RecordTimeSyncRequestSent a t tb = Some (rv, tb') \<and> nt_inv tb')
    \<and> (\<exists>rv tb'. RecordTimeSyncSent a t tb = Some (rv, tb') \<and> nt_inv tb')
    \<and> (\<exists>rv tb'. RecordTimeSyncRecv a t tb = Some (rv, tb') \<and> nt_inv tb')
    \<and> (\<exists>rv tb'. RecordSenderDelayIncoming a d tb = Some (rv, tb') \<and> nt_inv tb')
    \<and> (\<exists>rv tb'. ClearNeighbor a tb = Some (rv, tb') \<and> nt_inv tb')
    \<and> (\<exists>tb'. ClearTable tb = Some tb' \<and> nt_inv tb' \<and> NumberValidNeighbor tb' = 0
        \<and> ab_map (send_buffer tb') = Map.empty
        \<and> (\<forall>j<MAX_NEIGHBORS. \<not> ISMAC_VALID (MACAddress (Neighbor tb' ! j)) \<and> neighborStatus (Neighbor tb' ! j) = Dead))"
  unfolding RecordLastHeardTime_def RecordTimeSyncRequestSent_def RecordTimeSyncSent_def
    RecordTimeSyncRecv_def RecordSenderDelayIncoming_def
  by (intro conjI InsertNeighbor_total UpdateNeighbor_two_total UpdateNeighbor_one_total
      record_entry_total ClearNeighbor_total ClearTable_total assms) (simp_all add: Let_def)

lemma neighbor_operations_keep_invariant_witness:
  "\<exists>rv tb'. RecordLastHeardTime 3 99 sample_nt = Some (rv, tb') \<and> nt_inv tb'"
  using neighbor_operations_keep_invariant[OF sample_nt_inv, of _ _ 3 99] by blast

text \<open>
  Clearing an entry returns: the entry becomes dead and loses its address, the other
  entries keep their contents, and all data packets for the cleared neighbor leave the send
  buffer. Of its time-sync requests exactly one leaves, however many there are: the second loop
  repeats the look-up of the first.
\<close>

theorem ClearNeighbor_leaves_TSR_packets:
  assumes "nt_inv tb" and "unat i < MAX_NEIGHBORS"
  shows "\<exists>tb' gone. ClearNeighborwIndex i tb = Some (DS_Success, tb') \<and> nt_inv tb'
    \<and> Neighbor tb' = (Neighbor tb)[unat i := Clear (nth_neighbor tb i)]
    \<and> (let a = MACAddress (nth_neighbor tb i); E = ab_entries (send_buffer tb) in
       ab_entries (send_buffer tb') = (\<lambda>q. if q \<in> gone then None else unmatched (data_hit a) E q)
       \<and> (if \<exists>q v. E q = Some v \<and> tsr_hit a v
          then \<exists>q v. gone = {q} \<and> E q = Some v \<and> tsr_hit a v else gone = {}))"
proof -
  let ?a = "MACAddress (nth_neighbor tb i)"
  from ClearNeighborwIndex_total[OF assms] obtain ab tb' where
    t: "clear_buffer ?a (send_buffer tb) = Some ab"
      "tb' = (upd_neighbor i Clear (tb\<lparr>send_buffer := ab\<rparr>))\<lparr>NumberValidNeighbor := NumberValidNeighbor tb - 1\<rparr>"
      "ClearNeighborwIndex i tb = Some (DS_Success, tb')" "nt_inv tb'" by blast
  from clear_buffer_total[OF nt_invD(2)[OF assms(1)], of ?a] t(1) obtain gone where
    g: "ab_entries ab = (\<lambda>q. if q \<in> gone then None else unmatched (data_hit ?a) (ab_entries (send_buffer tb)) q)"
      "if \<exists>q v. ab_entries (send_buffer tb) q = Some v \<and> tsr_hit ?a v
       then \<exists>q v. gone = {q} \<and> ab_entries (send_buffer tb) q = Some v \<and> tsr_hit ?a v else gone = {}"
    by auto
  have "Neighbor tb' = (Neighbor tb)[unat i := Clear (nth_neighbor tb i)]" "send_buffer tb' = ab"
    using t(2) by simp_all
  with g t(3,4) show ?thesis unfolding Let_def by (intro exI[of _ tb'] exI[of _ gone]) simp
qed

text \<open>
  C30. The flush of a neighbor's packets returns only when there is nothing to flush: the loop
  deletes the packet it found first and tests the same pointer again.
\<close>

theorem Flush_returns_only_if_nothing_to_flush:
  "FlushDataPacketQueueForNeighbor a tb = (if FindDataPacket a tb = None then Some tb else None)
   \<and> FlushTSRPacketQueueForNeighbor a tb = (if FindTSRPacket a tb = None then Some tb else None)
   \<and> FlushAllPacketQueueForNeighbor a tb =
      (if FindTSRPacket a tb = None \<and> FindDataPacket a tb = None then Some tb else None)"
proof -
  have d: "FlushDataPacketQueueForNeighbor a tb = (if FindDataPacket a tb = None then Some tb else None)"
    by (cases "FindDataPacket a tb") (simp_all add: FlushDataPacketQueueForNeighbor_def purge_from_constant)
  have t: "FlushTSRPacketQueueForNeighbor a tb = (if FindTSRPacket a tb = None then Some tb else None)"
    by (cases "FindTSRPacket a tb") (simp_all add: FlushTSRPacketQueueForNeighbor_def purge_from_constant)
  from d t show ?thesis by (simp add: FlushAllPacketQueueForNeighbor_def)
qed

text \<open>
  C17. Admission. While a slot is free for every neighbor that has no packet, inserting a packet
  for a neighbor of the table returns and keeps it so; a neighbor without packets is always
  served, and one with packets is served exactly when more slots are free than neighbors wait.
\<close>

theorem admission_keeps_the_reserve:
  assumes "nt_inv tb" and res: "waiting tb \<le> free_slots tb"
    and k: "k < MAX_NEIGHBORS" "MACAddress (Neighbor tb ! k) = msg_dest m" "ISMAC_VALID (msg_dest m)"
  shows "\<exists>i tb'. InsertMessageGetIndex_nt (Some m) tb = Some (i, tb') \<and> nt_inv tb'
    \<and> Neighbor tb' = Neighbor tb \<and> waiting tb' \<le> free_slots tb'
    \<and> (i \<noteq> INVALID_PACKET_ID) = (if IsThereAPacketWithDest (msg_dest m) tb then waiting tb < free_slots tb else True)"
proof (cases "IsThereAPacketWithDest (msg_dest m) tb")
  case False
  from admission_first_packet[OF assms False] False show ?thesis by auto
next
  case some: True
  show ?thesis
  proof (cases "waiting tb < free_slots tb")
    case True
    from admission_further_packet[OF assms(1) some True] some True show ?thesis by auto
  next
    case False
    with some free_slot_guard(1)[OF assms(1)] assms show ?thesis
      by (intro exI[of _ INVALID_PACKET_ID] exI[of _ tb]) (simp add: InsertMessageGetIndex_nt_def)
  qed
qed

lemma admission_keeps_the_reserve_witness:
  "\<exists>i tb'. InsertMessageGetIndex_nt (Some (zero_message\<lparr>header := zero_header\<lparr>dest := 2\<rparr>\<rparr>)) sample_nt = Some (i, tb')
     \<and> waiting tb' \<le> free_slots tb'"
proof -
  have "waiting sample_nt \<le> 10" by (rule waiting_le[OF sample_nt_inv])
  moreover have "num_elements (send_buffer sample_nt) = 0" by (simp add: sample_nt_def sample_ab_def)
  then have "free_slots sample_nt = 18"
    using ab_entries_card[OF nt_invD(2)[OF sample_nt_inv]] by (simp add: free_slots_def Total_Buffer_SIZE_def)
  ultimately have "waiting sample_nt \<le> free_slots sample_nt" by simp
  from admission_keeps_the_reserve[OF sample_nt_inv this, of 1 "zero_message\<lparr>header := zero_header\<lparr>dest := 2\<rparr>\<rparr>"]
  show ?thesis by (auto simp: MAX_NEIGHBORS_def sample_nt_mac ISMAC_VALID_def)
qed

text \<open>
  When a further packet for a destination is admitted, what leaves the buffer first are the
  time-sync requests whose destination is the low byte of the packet's destination: for a
  destination above 255 its own requests stay, and those of another neighbor are dropped.
\<close>

theorem admission_purges_low_byte:
  assumes "nt_inv tb" and "IsThereAPacketWithDest (msg_dest m) tb" and "waiting tb < free_slots tb"
  shows "\<exists>i tb'. InsertMessageGetIndex_nt (Some m) tb = Some (i, tb')
    \<and> ab_entries (send_buffer tb') =
        (unmatched (tsr_hit (of_nat (unat (msg_dest m) mod 256))) (ab_entries (send_buffer tb)))
          (PSlot i \<mapsto> (BO_OMAC, m))
    \<and> (\<forall>q v. 255 < unat (msg_dest m) \<and> q \<noteq> PSlot i \<and> ab_entries (send_buffer tb) q = Some v
          \<and> tsr_hit (msg_dest m) v \<longrightarrow> ab_entries (send_buffer tb') q = Some v)"
proof -
  have d: "(ucast (GetDestConst (header m)) :: u16) = of_nat (unat (msg_dest m) mod 256)"
    by (simp add: GetDestConst_def word_unat_eq_iff unsigned_ucast_eq take_bit_eq_mod unat_of_nat unat_mod_distrib)
  have low: "unat (of_nat (unat (msg_dest m) mod 256) :: u16) < 256"
    by (simp add: unat_of_nat)
  from admission_further_packet[OF assms] obtain i tb' where
    t: "InsertMessageGetIndex_nt (Some m) tb = Some (i, tb')"
      "ab_entries (send_buffer tb') =
        (unmatched (tsr_hit (of_nat (unat (msg_dest m) mod 256))) (ab_entries (send_buffer tb)))
          (PSlot i \<mapsto> (BO_OMAC, m))"
    unfolding d by blast
  have "ab_entries (send_buffer tb') q = Some v"
    if "255 < unat (msg_dest m)" "q \<noteq> PSlot i" "ab_entries (send_buffer tb) q = Some v" "tsr_hit (msg_dest m) v" for q v
  proof -
    have "msg_dest m \<noteq> of_nat (unat (msg_dest m) mod 256)"
    proof
      assume "msg_dest m = of_nat (unat (msg_dest m) mod 256)"
      from low[folded this] that(1) show False by simp
    qed
    then have "\<not> tsr_hit (of_nat (unat (msg_dest m) mod 256)) v" using that(4) by (auto simp: tsr_hit_def)
    with that(2,3) show ?thesis by (simp add: t(2) unmatched_Some)
  qed
  with t show ?thesis by (intro exI[of _ i] exI[of _ tb']) blast
qed

text \<open>A table whose buffer holds a time-sync request for neighbor 258.\<close>

definition sample_tsr :: message where
  "sample_tsr = zero_message\<lparr>header := zero_header\<lparr>dest := 258,
     payloadType := payload_code MFM_OMAC_TIMESYNCREQ\<rparr>\<rparr>"

definition sample_nt_busy :: neighbor_table where
  "sample_nt_busy = sample_nt\<lparr>send_buffer := put_slot 1 sample_tsr BO_OMAC sample_ab\<rparr>"

lemma sample_nt_busy_facts:
  "nt_inv sample_nt_busy" "IsThereAPacketWithDest 258 sample_nt_busy"
  "waiting sample_nt_busy < free_slots sample_nt_busy"
proof -
  have u: "unat (1::u16) < unat Total_Buffer_SIZE" by (simp add: Total_Buffer_SIZE_def)
  have free: "\<not> slot_used sample_ab 1" by (simp add: sample_ab_def)
  have ab: "ab_inv Total_Buffer_SIZE sample_ab" using sample_ab_inv by (simp add: Total_Buffer_SIZE_def)
  have pab: "ab_inv Total_Buffer_SIZE (put_slot 1 sample_tsr BO_OMAC sample_ab)"
    by (rule put_slot_inv[OF ab u free]) simp
  then show inv: "nt_inv sample_nt_busy"
    unfolding sample_nt_busy_def by (rule nt_inv_buffer[OF sample_nt_inv])
  have "ab_map (put_slot 1 sample_tsr BO_OMAC sample_ab) 1 = Some (BO_OMAC, sample_tsr)"
    using put_slot_map[OF ab u, of BO_OMAC sample_tsr] by simp
  then have "ab_entries (send_buffer sample_nt_busy) (PSlot 1) = Some (BO_OMAC, sample_tsr)"
    by (simp add: sample_nt_busy_def ab_entries_def)
  moreover have "pkt_hit 258 (BO_OMAC, sample_tsr)" by (simp add: pkt_hit_def sample_tsr_def)
  ultimately show "IsThereAPacketWithDest 258 sample_nt_busy"
    unfolding IsThereAPacket_iff[OF inv] by blast
  have "num_elements (send_buffer sample_nt_busy) = 1"
    by (simp add: sample_nt_busy_def put_slot_def sample_ab_def)
  then have "free_slots sample_nt_busy = 17"
    using ab_entries_card[OF nt_invD(2)[OF inv]] by (simp add: free_slots_def Total_Buffer_SIZE_def)
  with waiting_le[OF inv] show "waiting sample_nt_busy < free_slots sample_nt_busy" by simp
qed

text \<open>
  The guards of UpdateLink, UpdateFrameLength and UpdateDutyCycle have the wrong sign: for a
  live neighbor nothing is updated although the call succeeds, and for an address that is not
  a live neighbor the entry at the caller's old index is overwritten although the call fails.
\<close>

theorem updates_skip_existing_neighbors:
  assumes "nt_inv tb" and "ISMAC_VALID a" and "unat i < MAX_NEIGHBORS"
  shows "if \<exists>k<MAX_NEIGHBORS. MACAddress (Neighbor tb ! k) = a \<and> neighborStatus (Neighbor tb ! k) = Alive
    then \<exists>k. UpdateLink a fl_link rl_link i tb = Some (DS_Success, k, tb)
       \<and> UpdateFrameLength a st fl i tb = Some (DS_Success, k, tb)
       \<and> UpdateDutyCycle a dc i tb = Some (DS_Success, k, tb) \<and> MACAddress (nth_neighbor tb k) = a
    else UpdateFrameLength a st fl i tb = Some (DS_Fail, i, upd_neighbor i (\<lambda>n. n\<lparr>FrameLength := fl\<rparr>) tb)
       \<and> UpdateDutyCycle a dc i tb = Some (DS_Fail, i, upd_neighbor i (\<lambda>n. n\<lparr>ReceiveDutyCycle := dc\<rparr>) tb)"
proof (cases rule: FindIndex_cases[where tb = tb and a = a and idx = i])
  case (found k)
  then have "MACAddress (nth_neighbor tb (of_nat k)) = a" by (simp add: unat_index del: unat_of_nat)
  with found show ?thesis
    by (auto simp: UpdateLink_def UpdateFrameLength_def UpdateDutyCycle_def update_if_missing_def
        intro!: exI[of _ "of_nat k"])
next
  case missing
  then have "\<not> (\<exists>k<MAX_NEIGHBORS. MACAddress (Neighbor tb ! k) = a \<and> neighborStatus (Neighbor tb ! k) = Alive)"
    by blast
  with missing(2) assms(2,3) nt_invD(1)[OF assms(1)] show ?thesis
    by (simp add: UpdateFrameLength_def UpdateDutyCycle_def update_if_missing_def)
qed

text \<open>
  GetCritalSyncNeighborWOldestSyncPtr returns the first entry that is not dead and due for
  synchronization: the comparison of send times never matters, since the result is returned as
  soon as it is set. An entry with an older send time may come later in the table.
\<close>

theorem critical_sync_is_the_first_due:
  "GetCritalSyncNeighborWOldestSyncPtr c rl fl fd tb =
     find (\<lambda>i. neighborStatus (Neighbor tb ! i) \<noteq> Dead \<and> sync_due c rl fl fd (Neighbor tb ! i)) [0..<MAX_NEIGHBORS]"
proof -
  have "critical_scan c rl fl fd ents None ixs =
    find (\<lambda>i. neighborStatus (ents ! i) \<noteq> Dead \<and> sync_due c rl fl fd (ents ! i)) ixs" for ents ixs
    by (induction ixs) auto
  then show ?thesis by (simp add: GetCritalSyncNeighborWOldestSyncPtr_def)
qed

text \<open>
  NumberValidNeighbor does not count the valid neighbors: inserting a neighbor that is in
  the table already adds one to it, while the number of valid addresses stays the same.
\<close>

theorem reinsertion_counts_twice:
  assumes "nt_inv tb" and "MACAddress (Neighbor tb ! k) = p1_MACAddress p1" and "k < MAX_NEIGHBORS"
    and "ISMAC_VALID (p1_MACAddress p1)" and "neighborStatus (Neighbor tb ! k) = Alive"
  shows "\<exists>rv tb'. InsertNeighbor p1 p2 tb = Some (rv, tb')
    \<and> NumberValidNeighbor tb' = NumberValidNeighbor tb + 1
    \<and> NumberOfNeighborsTotal tb' = NumberOfNeighborsTotal tb"
proof -
  let ?i = "of_nat k :: u8"
  let ?z = "\<lambda>n. n\<lparr>ReceiveLink := zero_metrics (ReceiveLink n), SendLink := zero_metrics (SendLink n)\<rparr>"
  let ?t = "upd_neighbor ?i ?z (tb\<lparr>NumberValidNeighbor := NumberValidNeighbor tb + 1\<rparr>)"
  have u: "unat ?i = k" by (rule unat_index[OF assms(3)])
  have nb: "Neighbor ?t = (Neighbor tb)[k := ?z (Neighbor tb ! k)]" using u by (simp del: unat_of_nat)
  have len: "k < length (Neighbor tb)" using assms(3) nt_invD(1)[OF assms(1)] by simp
  have inv: "nt_inv ?t"
    by (rule nt_inv_keep_address[OF nt_inv_count[OF assms(1)]]) (use u assms(3) in \<open>simp_all del: unat_of_nat\<close>)
  note f1 = FindOrInsert_found[OF assms(1,3,2,4,5), of 0]
  have "MACAddress (Neighbor ?t ! k) = p1_MACAddress p1" "neighborStatus (Neighbor ?t ! k) = Alive"
    using assms(2,5) len unfolding nb by simp_all
  note f2 = FindOrInsert_found[OF inv assms(3) this(1) assms(4) this(2), of 0]
  let ?e = "update_two_entry p1 p2"
  have "UpdateNeighbor_two p1 p2 ?t = Some (DS_Fail, ?t)
      \<or> UpdateNeighbor_two p1 p2 ?t = Some (DS_Success, upd_neighbor ?i ?e ?t)"
    using f2 assms(4) by (simp add: UpdateNeighbor_two_def)
  then obtain rv tb' where ins: "InsertNeighbor p1 p2 tb = Some (rv, tb')"
    and t: "tb' = ?t \<or> tb' = upd_neighbor ?i ?e ?t"
    using f1 assms(4) by (auto simp: InsertNeighbor_def)
  have "\<exists>n. MACAddress n = p1_MACAddress p1 \<and> Neighbor tb' = (Neighbor tb)[k := n]"
    using t
  proof
    assume "tb' = ?t"
    with nb assms(2) show ?thesis by (intro exI[of _ "?z (Neighbor tb ! k)"]) simp
  next
    assume "tb' = upd_neighbor ?i ?e ?t"
    then have "Neighbor tb' = (Neighbor tb)[k := ?e (?z (Neighbor tb ! k))]"
      using nb u len by (simp del: unat_of_nat)
    then show ?thesis by (intro exI[of _ "?e (?z (Neighbor tb ! k))"]) simp
  qed
  then have "NumberOfNeighborsTotal tb' = NumberOfNeighborsTotal tb"
    using NumberOfNeighborsTotal_update[OF len] assms(2) by metis
  moreover have "NumberValidNeighbor tb' = NumberValidNeighbor tb + 1" using t by auto
  ultimately show ?thesis using ins by blast
qed

lemma GetNeighborPtr_unique:
  assumes "nt_inv tb" "i < MAX_NEIGHBORS" "MACAddress (Neighbor tb ! i) = a" "ISMAC_VALID a"
  shows "GetNeighborPtr a tb = (if neighborStatus (Neighbor tb ! i) = Alive then Some (of_nat i) else None)"
proof (cases rule: FindIndex_cases[where tb = tb and a = a and idx = 0])
  case (found k)
  have "k = i" by (rule nt_inv_unique[OF assms(1) found(1) assms(2)]) (use found(2) assms in simp_all)
  with found show ?thesis by (simp add: GetNeighborPtr_def)
next
  case missing
  with assms show ?thesis by (auto simp: GetNeighborPtr_def)
qed

end
