(* ===== verification/Mac_Base.thy ===== *)
theory Mac_Base
  imports Message_Model
begin

text \<open>
  The base class of the MAC layers (\<^verbatim>\<open>DeviceCode/include/Samraksh/MAC.h\<close>) and the event
  handler objects of the applications (\<^verbatim>\<open>Mac_decl.h\<close>): the members that every MAC has, as a
  record that the states of the MACs extend, and the operations on its handler tables.
\<close>

section \<open>Constants and event handlers\<close>

definition Buffer_15_4_t_SIZE :: u8 where "Buffer_15_4_t_SIZE = 8"
definition MAX_APPS :: u8 where "MAX_APPS = 4"
definition MAX_NATIVE_APPS :: u8 where "MAX_NATIVE_APPS = 2"
definition NATIVE_APP_ID_OFFSET :: u8 where "NATIVE_APP_ID_OFFSET = 0x80"
definition MAC_BROADCAST_ADDRESS :: u16 where "MAC_BROADCAST_ADDRESS = 65535"
definition FCF_WORD_VALUE :: u16 where "FCF_WORD_VALUE = 0x8861"
definition DEST_PAN_ID :: u16 where "DEST_PAN_ID = 0x5555"
definition TIMESTAMP_SIZE :: u8 where "TIMESTAMP_SIZE = 4"
definition sizeof_softwareACKHeader :: nat where "sizeof_softwareACKHeader = 1 + 2 + 2"

record MACConfig =
  CCA :: bool
  NumberOfRetries :: u8
  CCASenseTime :: u8
  BufferSize :: u8
  NeighborLivenessDelay :: u32

text \<open>Function pointers are numbers; \<open>None\<close> is NULL.\<close>

record MACEventHandler =
  ReceiveHandler_fn :: "nat option"
  SendAckHandler_fn :: "nat option"
  neighborHandler_fn :: "nat option"

definition MACEventHandler_new :: MACEventHandler where
  "MACEventHandler_new = \<lparr>ReceiveHandler_fn = None, SendAckHandler_fn = None, neighborHandler_fn = None\<rparr>"

definition SetReceiveHandler :: "nat option \<Rightarrow> MACEventHandler \<Rightarrow> MACEventHandler" where
  "SetReceiveHandler receive_handler h = h\<lparr>ReceiveHandler_fn := receive_handler\<rparr>"

definition SetSendAckHandler :: "nat option \<Rightarrow> MACEventHandler \<Rightarrow> MACEventHandler" where
  "SetSendAckHandler send_ack_handler h = h\<lparr>SendAckHandler_fn := send_ack_handler\<rparr>"

definition SetNeighborChangeHandler :: "nat option \<Rightarrow> MACEventHandler \<Rightarrow> MACEventHandler" where
  "SetNeighborChangeHandler neighbor_change_handler h = h\<lparr>neighborHandler_fn := neighbor_change_handler\<rparr>"

section \<open>State of the base class\<close>

record mac_base =
  AppHandlers :: "nat option list"
  NativeAppHandlers :: "nat option list"
  handler_at :: "nat \<Rightarrow> MACEventHandler"
  AppIDIndex :: u8
  MyAddress :: u16
  MaxPayload :: u16
  mac_name :: u8
  radioName :: u8
  Initialized :: bool
  AppCount :: u8
  MyConfig :: MACConfig

section \<open>Handler tables (MAC.h)\<close>

text \<open>
  The index of the native table is \<open>routingNativeAppID - 0x80\<close>, an \<open>int\<close>: an id below 0x80
  or equal to 0x82 is let through and falls outside the table (\<open>None\<close>).
\<close>

definition SetNativeAppHandlers :: "u8 \<Rightarrow> nat option \<Rightarrow> 'a mac_base_scheme \<Rightarrow> (bool \<times> 'a mac_base_scheme) option" where
  "SetNativeAppHandlers routingNativeAppID handler s =
     (if handler = None then Some (False, s)
      else if uint routingNativeAppID > uint NATIVE_APP_ID_OFFSET + uint MAX_NATIVE_APPS then Some (False, s)
      else let i = uint routingNativeAppID - uint NATIVE_APP_ID_OFFSET in
        if 0 \<le> i \<and> nat i < length (NativeAppHandlers s)
        then Some (True, s\<lparr>NativeAppHandlers := (NativeAppHandlers s)[nat i := handler]\<rparr>)
        else None)"

definition GetNativeAppHandler :: "u8 \<Rightarrow> 'a mac_base_scheme \<Rightarrow> nat option option" where
  "GetNativeAppHandler routingNativeAppID s =
     (if uint routingNativeAppID > uint NATIVE_APP_ID_OFFSET + uint MAX_NATIVE_APPS then Some None
      else let i = uint routingNativeAppID - uint NATIVE_APP_ID_OFFSET in
        if 0 \<le> i \<and> nat i < length (NativeAppHandlers s) then Some (NativeAppHandlers s ! nat i) else None)"

definition SetAppHandlers :: "nat option \<Rightarrow> 'a mac_base_scheme \<Rightarrow> bool \<times> 'a mac_base_scheme" where
  "SetAppHandlers handler s =
     (if handler = None then (False, s)
      else let TempAppIdIndex = AppIDIndex s in
        if TempAppIdIndex \<ge> MAX_APPS then (False, s)
        else (True, s\<lparr>AppHandlers := (AppHandlers s)[unat TempAppIdIndex := handler]\<rparr>))"

definition GetAppHandler :: "u8 \<Rightarrow> 'a mac_base_scheme \<Rightarrow> nat option" where
  "GetAppHandler MacIndex s = (if MacIndex \<ge> MAX_APPS then None else AppHandlers s ! unat MacIndex)"

definition SetAppIdIndex :: "u8 \<Rightarrow> 'a mac_base_scheme \<Rightarrow> 'a mac_base_scheme" where
  "SetAppIdIndex i s = s\<lparr>AppIDIndex := i\<rparr>"

definition SetMyAddress :: "u16 \<Rightarrow> 'a mac_base_scheme \<Rightarrow> bool \<times> 'a mac_base_scheme" where
  "SetMyAddress a s = (True, s\<lparr>MyAddress := a\<rparr>)"

section \<open>Sequence numbers\<close>

definition final_seq :: "u16 \<Rightarrow> u8 \<Rightarrow> u8" where
  "final_seq address seqNumber =
     ucast (address XOR 0xAA) + ucast (drop_bit 8 address XOR 0x55) + seqNumber"

end
