(* ===== verification/Csma_Mac.thy ===== *)
theory Csma_Mac
  imports Mac_Base Circular_Buffer Neighbor_Table "HOL-Library.Sublist"
begin

text \<open>
  The CSMA MAC layer (\<^verbatim>\<open>DeviceCode/pal/Samraksh/Wireless/MAC/CSMAMAC/csmaMAC.cpp\<close>,
  \<^verbatim>\<open>csmaMAC.h\<close>); its state extends the one of the MAC base
  class (theory \<open>Mac_Base\<close>). It keeps a send queue and a receive queue of eight messages, the neighbor
  table, and the flags of a small state machine: a transmission in flight, the flush timer.
  Calls of the radio, of the virtual timers and of the application are recorded in a trace in
  their order; what the radio answers is an argument, and what a callback of the application
  does to the MAC is the function \<open>app\<close>. A result \<open>None\<close> is a dereferenced null
  pointer, a write behind a message or a copy loop that does not end.
\<close>

section \<open>Constants\<close>

definition BEACON_PERIOD_MICRO :: u32 where "BEACON_PERIOD_MICRO = 10000000"
definition VIRT_TIMER_MAC_SENDPKT :: u8 where "VIRT_TIMER_MAC_SENDPKT = 15"
definition VIRT_TIMER_MAC_BEACON :: u8 where "VIRT_TIMER_MAC_BEACON = 16"
definition VIRT_TIMER_MAC_FLUSHBUFFER :: u8 where "VIRT_TIMER_MAC_FLUSHBUFFER = 17"

lemmas timer_ids = VIRT_TIMER_MAC_SENDPKT_def VIRT_TIMER_MAC_BEACON_def VIRT_TIMER_MAC_FLUSHBUFFER_def

section \<open>State\<close>

text \<open>The calls that leave the MAC layer, with their arguments.\<close>

datatype csma_call =
    TimerSet u8 u32 bool
  | TimerStart u8
  | TimerStop u8
  | RadioInitialize u8
  | RadioUnInitialize u8
  | RadioTurnOnRx u8
  | RadioSetDefaultRxState u8
  | RadioSetAddress u8 u16
  | RadioSetRadioName u8
  | RadioChangeTxPower u8 int
  | RadioChangeChannel u8 int
  | RadioClearChannelAssesment u8
  | SleepMicroSeconds u16
  | RadioSend u8 message u8
  | RadioSendTimeStamped u8 message u8 u32
  | AppReceive nat msg_addr u16
  | AppSendAck nat message u16 NetOpStatus u8
  | AppNeighborChange nat u16

record csma = mac_base +
  CurrentActiveApp :: u8
  RadioAckPending :: bool
  m_recovery :: u8
  flushTimerRunning :: bool
  g_send_buffer :: "message circ_buf"
  g_receive_buffer :: "message circ_buf"
  g_NeighborTable :: neighbor_table
  seqNumber_Send :: u8
  seqNumber_SendTimeStamped :: u8
  csmaSendToRadioFailCount :: u32
  RadioLockUp :: u8
  trace :: "csma_call list"

type_synonym app_callback = "csma_call \<Rightarrow> csma \<Rightarrow> csma"

definition emit :: "csma_call list \<Rightarrow> csma \<Rightarrow> csma" where
  "emit cs s = s\<lparr>trace := trace s @ cs\<rparr>"

text \<open>A callback of the application: the call, then what the application does in it.\<close>

definition call_app :: "app_callback \<Rightarrow> csma_call \<Rightarrow> csma \<Rightarrow> csma" where
  "call_app app c s = app c (emit [c] s)"

section \<open>The active application\<close>

definition SetMaxPayload :: "u16 \<Rightarrow> csma \<Rightarrow> csma" where
  "SetMaxPayload n s = s\<lparr>MaxPayload := n\<rparr>"

text \<open>\<open>GetAppHandler(CurrentActiveApp)\<close>, dereferenced: \<open>None\<close> when it is NULL.\<close>

definition active_handler :: "csma \<Rightarrow> MACEventHandler option" where
  "active_handler s = map_option (handler_at s) (GetAppHandler (CurrentActiveApp s) s)"

section \<open>Sending\<close>

text \<open>
  \<open>SendToRadio\<close>. The radio's answers to the two carrier senses and its address are the
  arguments. The queue is not empty when \<open>GetOldestPtr\<close> is called, so it gives an entry.
\<close>

definition transmit :: "csma \<Rightarrow> csma" where
  "transmit s =
     (case GetOldestPtr Buffer_15_4_t_SIZE (g_send_buffer s) of
        (Some i, b') \<Rightarrow>
          (let txMsg = msg_store b' (msgPtr b' ! i);
               s1 = s\<lparr>g_send_buffer := b', RadioAckPending := True\<rparr> in
           if flags (header txMsg) AND payload_code MFM_TIMESYNC \<noteq> 0
           then emit [RadioSendTimeStamped (radioName s) txMsg (hdr_length (header txMsg))
                        (ucast (GetReceiveTimeStamp (metadata txMsg)))] s1
           else emit [RadioSend (radioName s) txMsg (hdr_length (header txMsg))] s1)
      | (None, b') \<Rightarrow> s)"

record radio_answers =
  cca_first :: DeviceStatus
  cca_second :: DeviceStatus
  radio_address :: u16

definition update_flush_timer :: "csma \<Rightarrow> csma" where
  "update_flush_timer s =
     (if GetNumberMessagesInBuffer (g_send_buffer s) > 1 \<and> flushTimerRunning s = False
      then (emit [TimerStart VIRT_TIMER_MAC_FLUSHBUFFER] s)\<lparr>flushTimerRunning := True\<rparr>
      else if GetNumberMessagesInBuffer (g_send_buffer s) = 0 \<and> flushTimerRunning s = True
      then (emit [TimerStop VIRT_TIMER_MAC_FLUSHBUFFER] s)\<lparr>flushTimerRunning := False\<rparr>
      else s)"

definition SendToRadio :: "radio_answers \<Rightarrow> csma \<Rightarrow> csma" where
  "SendToRadio r s =
     (let s1 = update_flush_timer s in
      if \<not> IsEmpty (g_send_buffer s1) \<and> \<not> RadioAckPending s1 then
        (let s2 = emit [RadioTurnOnRx (radioName s1), RadioClearChannelAssesment (radioName s1)]
                    (s1\<lparr>m_recovery := 1\<rparr>) in
         if cca_first r = DS_Busy then
           (let s3 = emit [SleepMicroSeconds (radio_address r mod 200),
                           RadioClearChannelAssesment (radioName s2)] s2 in
            if cca_second r \<noteq> DS_Success then emit [TimerStart VIRT_TIMER_MAC_SENDPKT] s3
            else transmit s3)
         else if cca_first r = DS_Fail then
           emit [TimerStart VIRT_TIMER_MAC_SENDPKT]
             (s2\<lparr>csmaSendToRadioFailCount := csmaSendToRadioFailCount s2 + 1\<rparr>)
         else transmit s2)
      else s1)"

definition SendFirstPacketToRadio :: "radio_answers \<Rightarrow> csma \<Rightarrow> csma" where
  "SendFirstPacketToRadio r s =
     (if GetNumberMessagesInBuffer (g_send_buffer s) \<ge> 1 then SendToRadio r s
      else if flushTimerRunning s = True then emit [TimerStop VIRT_TIMER_MAC_FLUSHBUFFER] s
      else s)"

text \<open>
  \<open>for(UINT8 i = 0; i < Size; i++) payload[i] = lmsg[i];\<close>: with \<open>Size\<close> above 255 the counter
  wraps and the loop does not end. The caller's buffer must hold \<open>Size\<close> bytes.
\<close>

definition copy_payload_bytes :: "int \<Rightarrow> u8 list \<Rightarrow> message \<Rightarrow> message option" where
  "copy_payload_bytes Size lmsg m =
     (if 255 < Size \<or> length lmsg < nat Size then None else poke_bytes 0 (take (nat Size) lmsg) m)"

text \<open>The header that both \<open>Send\<close> functions write; they differ in the flags.\<close>

definition frame_header :: "u16 \<Rightarrow> u8 \<Rightarrow> u8 \<Rightarrow> u8 \<Rightarrow> int \<Rightarrow> csma \<Rightarrow> ieee_header" where
  "frame_header dst dataType fl seqNumber Size s =
     \<lparr>fcf = FCF_WORD_VALUE, dsn = final_seq (MyAddress s) seqNumber, destpan = DEST_PAN_ID,
      dest = dst, src = MyAddress s, hdr_length = of_int (Size + int sizeof_header),
      hdr_macName = mac_name s, payloadType = dataType, flags = fl\<rparr>"

text \<open>
  \<open>Send\<close> and \<open>SendTimeStamped\<close>. \<open>carrier\<close> is what the uninitialised local message holds.
\<close>

definition Send ::
  "radio_answers \<Rightarrow> message \<Rightarrow> u16 \<Rightarrow> u8 \<Rightarrow> u8 list \<Rightarrow> int \<Rightarrow> csma \<Rightarrow> (bool \<times> csma) option"
where
  "Send r carrier dst dataType msg Size s =
     (if Size > uint (MaxPayload s) then Some (False, s)
      else
        (let m1 = carrier\<lparr>header := frame_header dst dataType 0 (seqNumber_Send s) Size s,
                          metadata := (metadata carrier)\<lparr>network := 0\<rparr>\<rparr>;
             s1 = s\<lparr>seqNumber_Send := seqNumber_Send s + 1\<rparr>;
             len = of_int (Size + int sizeof_header) :: u8 in
         Option.bind (copy_payload_bytes Size msg m1) (\<lambda>m2.
           case Store Buffer_15_4_t_SIZE m2 len (g_send_buffer s1) of
             (False, b') \<Rightarrow> Some (False, s1\<lparr>g_send_buffer := b'\<rparr>)
           | (True, b') \<Rightarrow> Some (True, SendFirstPacketToRadio r (s1\<lparr>g_send_buffer := b'\<rparr>)))))"

definition SendTimeStamped ::
  "radio_answers \<Rightarrow> message \<Rightarrow> u16 \<Rightarrow> u8 \<Rightarrow> u8 list \<Rightarrow> int \<Rightarrow> u32 \<Rightarrow> csma \<Rightarrow> (bool \<times> csma) option"
where
  "SendTimeStamped r carrier dst dataType msg Size eventTime s =
     (if Size > uint (MaxPayload s) then Some (False, s)
      else
        (let m1 = carrier\<lparr>header := frame_header dst dataType TIMESTAMPED_FLAG (seqNumber_SendTimeStamped s) Size s,
                          metadata := SetReceiveTimeStamp_UINT32 eventTime ((metadata carrier)\<lparr>network := 0\<rparr>)\<rparr>;
             s1 = s\<lparr>seqNumber_SendTimeStamped := seqNumber_SendTimeStamped s + 1\<rparr> in
         Option.bind (copy_payload_bytes Size msg m1) (\<lambda>m2.
           case Store Buffer_15_4_t_SIZE m2 (hdr_length (header m2)) (g_send_buffer s1) of
             (False, b') \<Rightarrow> Some (False, s1\<lparr>g_send_buffer := b'\<rparr>)
           | (True, b') \<Rightarrow> Some (True, SendFirstPacketToRadio r (s1\<lparr>g_send_buffer := b'\<rparr>)))))"

text \<open>The bytes 'H', 'E', 'L', 'L', 'O'.\<close>

definition helloPayload :: "u8 list" where "helloPayload = [0x48, 0x45, 0x4C, 0x4C, 0x4F]"

definition SendHello :: "radio_answers \<Rightarrow> message \<Rightarrow> csma \<Rightarrow> (DeviceStatus \<times> csma) option" where
  "SendHello r carrier s =
     map_option (\<lambda>(ok, s'). (if ok then DS_Success else DS_Fail, s'))
       (Send r carrier 0xFFFF (payload_code MFM_CSMA_DISCOVERY) helloPayload 5 s)"

definition Resend :: "message \<Rightarrow> int \<Rightarrow> csma \<Rightarrow> bool \<times> csma" where
  "Resend msg Size s =
     (case Store Buffer_15_4_t_SIZE msg (of_int Size) (g_send_buffer s) of
        (ok, b') \<Rightarrow> (ok, s\<lparr>g_send_buffer := b'\<rparr>))"

section \<open>Beacons and neighbors\<close>

definition UpdateNeighborTable :: "app_callback \<Rightarrow> csma \<Rightarrow> csma option" where
  "UpdateNeighborTable app s =
     (let numberOfDeadNeighbors = UpdateNeighborTable_liveness (NeighborLivenessDelay (MyConfig s)) in
      if numberOfDeadNeighbors > 0 then
        (case active_handler s of
           None \<Rightarrow> None
         | Some h \<Rightarrow>
             (case neighborHandler_fn h of
                None \<Rightarrow> Some s
              | Some f \<Rightarrow> Some (call_app app
                  (AppNeighborChange f (ucast (NumberOfNeighbors (g_NeighborTable s)))) s)))
      else Some s)"

definition beaconScheduler :: "app_callback \<Rightarrow> radio_answers \<Rightarrow> message \<Rightarrow> csma \<Rightarrow> csma option" where
  "beaconScheduler app r carrier s =
     Option.bind (UpdateNeighborTable app s) (\<lambda>s1. map_option snd (SendHello r carrier s1))"

section \<open>Receiving\<close>

text \<open>The parameters of a discovery message; both branches of the code fill the same fields.\<close>

definition discovery_parameters :: "message \<Rightarrow> u64 \<Rightarrow> common_parameters_one" where
  "discovery_parameters m now =
     (let p = NeighborTableCommonParameters_One_t in
      p\<lparr>p1_MACAddress := src (header m), p1_status := Alive, p1_lastHeardTime := now,
        p1_linkQualityMetrics := (p1_linkQualityMetrics p)\<lparr>AvgRSSI := Rssi (metadata m),
                                    LinkQuality := Lqi (metadata m)\<rparr>\<rparr>)"

definition receive_discovery :: "app_callback \<Rightarrow> u64 \<Rightarrow> message \<Rightarrow> csma \<Rightarrow> csma option" where
  "receive_discovery app now m s =
     (if fst (FindIndex (src (header m)) 0 (g_NeighborTable s)) \<noteq> DS_Success then
        Option.bind
          (InsertNeighbor ((discovery_parameters m now)\<lparr>p1_availableForUpperLayers := True\<rparr>)
             NeighborTableCommonParameters_Two_t (g_NeighborTable s))
          (\<lambda>(rv, tb). let s1 = s\<lparr>g_NeighborTable := tb\<rparr> in
             if rv = DS_Success then
               (case active_handler s1 of
                  None \<Rightarrow> None
                | Some h \<Rightarrow> (case neighborHandler_fn h of
                    None \<Rightarrow> Some s1
                  | Some f \<Rightarrow> Some (call_app app (AppNeighborChange f 1) s1)))
             else Some s1)
      else map_option (\<lambda>(rv, tb). s\<lparr>g_NeighborTable := tb\<rparr>)
             (UpdateNeighbor_one (discovery_parameters m now) (g_NeighborTable s)))"

text \<open>
  The bag exchange: the received message takes the place of a free message of the receive
  queue, whose address goes back to the radio. The oldest message is dropped when none is free.
\<close>

definition bag_exchange :: "msg_addr \<Rightarrow> message circ_buf \<Rightarrow> (nat \<times> msg_addr \<times> message circ_buf) option" where
  "bag_exchange msg b =
     (let (free, b1) =
        (case GetNextFreeBufferPtr Buffer_15_4_t_SIZE b of
           (Some i, b1) \<Rightarrow> (Some i, b1)
         | (None, b1) \<Rightarrow> GetNextFreeBufferPtr Buffer_15_4_t_SIZE (DropOldest Buffer_15_4_t_SIZE 1 b1)) in
      case free of
        None \<Rightarrow> None
      | Some i \<Rightarrow> Some (i, msgPtr b1 ! i, b1\<lparr>msgPtr := (msgPtr b1)[i := msg]\<rparr>))"

text \<open>
  \<open>ReceiveHandler(msg, Size)\<close>: \<open>msg\<close> is an address, its contents are in the store of the
  receive queue. \<open>Size\<close> is an \<open>int\<close> that is compared with unsigned values. The result is
  the address given back to the radio.
\<close>

definition strip_time_stamp :: "msg_addr \<Rightarrow> csma \<Rightarrow> csma" where
  "strip_time_stamp msg s =
     (let b = g_receive_buffer s; m = msg_store b msg in
      if flags (header m) = TIMESTAMPED_FLAG
      then s\<lparr>g_receive_buffer := b\<lparr>msg_store := (msg_store b)(msg :=
             m\<lparr>header := (header m)\<lparr>hdr_length := hdr_length (header m) - TIMESTAMP_SIZE\<rparr>\<rparr>)\<rparr>\<rparr>
      else s)"

definition accept_data :: "app_callback \<Rightarrow> msg_addr \<Rightarrow> csma \<Rightarrow> (msg_addr \<times> csma) option" where
  "accept_data app msg s =
     Option.bind (bag_exchange msg (g_receive_buffer s))
       (\<lambda>(i, temp, b1).
          (let s1 = s\<lparr>g_receive_buffer := b1\<rparr> in
           case active_handler s1 of
             None \<Rightarrow> None
           | Some h \<Rightarrow> (case ReceiveHandler_fn h of
               None \<Rightarrow> Some (temp, s1)
             | Some f \<Rightarrow> Some (temp, call_app app
                 (AppReceive f (msgPtr b1 ! i) (ucast (payloadType (header (msg_store b1 msg))))) s1))))"

definition ReceiveHandler ::
  "app_callback \<Rightarrow> u64 \<Rightarrow> u16 \<Rightarrow> msg_addr \<Rightarrow> int \<Rightarrow> csma \<Rightarrow> (msg_addr \<times> csma) option"
where
  "ReceiveHandler app now address msg Size s =
     (let size = of_int Size :: u32 in
      if size = of_nat sizeof_softwareACKHeader then Some (msg, s)
      else if size < of_nat sizeof_header then Some (msg, s)
      else if size > ucast (MaxPayload s) + of_nat sizeof_header then Some (msg, s)
      else
        (let s1 = strip_time_stamp msg s; m = msg_store (g_receive_buffer s1) msg in
         if payloadType (header m) = payload_code MFM_CSMA_DISCOVERY
         then map_option (\<lambda>s2. (msg, s2)) (receive_discovery app now m s1)
         else if dest (header m) \<noteq> 0 \<and> dest (header m) \<noteq> MAC_BROADCAST_ADDRESS
                 \<and> dest (header m) \<noteq> address
         then Some (msg, s1)
         else accept_data app msg s1))"

definition csmaReceiveHandler ::
  "app_callback \<Rightarrow> u64 \<Rightarrow> u16 \<Rightarrow> msg_addr \<Rightarrow> u16 \<Rightarrow> csma \<Rightarrow> (msg_addr \<times> csma) option"
where
  "csmaReceiveHandler app now address msg Size = ReceiveHandler app now address msg (uint Size)"

section \<open>The radio's acknowledgement\<close>

text \<open>
  \<open>SendAckHandler(msg, Size, status, radioAckStatus)\<close>: \<open>sent\<close> is the message at \<open>msg\<close> and
  \<open>p\<close> the address as the packet buffer of the neighbor table sees it.
\<close>

definition ack_success ::
  "app_callback \<Rightarrow> pkt_ptr \<Rightarrow> message \<Rightarrow> int \<Rightarrow> u8 \<Rightarrow> csma \<Rightarrow> csma option"
where
  "ack_success app p sent Size radioAckStatus s =
     map_option
       (\<lambda>s1. if \<not> IsEmpty (g_send_buffer s1)
             then (emit [TimerStart VIRT_TIMER_MAC_FLUSHBUFFER] s1)\<lparr>flushTimerRunning := True\<rparr>
             else s1)
       (if payloadType (header sent) = payload_code MFM_CSMA_DISCOVERY
        then Some (s\<lparr>g_NeighborTable := snd (DeletePacket_nt p (g_NeighborTable s))\<rparr>)
        else (case active_handler s of
                None \<Rightarrow> None
              | Some h \<Rightarrow> (case SendAckHandler_fn h of
                  None \<Rightarrow> Some s
                | Some f \<Rightarrow> Some (call_app app
                    (AppSendAck f sent (of_int Size) NetworkOperations_Success radioAckStatus) s))))"

definition SendAckHandler ::
  "app_callback \<Rightarrow> pkt_ptr \<Rightarrow> message \<Rightarrow> int \<Rightarrow> NetOpStatus \<Rightarrow> u8 \<Rightarrow> csma \<Rightarrow> csma option"
where
  "SendAckHandler app p sent Size status radioAckStatus s =
     map_option (\<lambda>s1. s1\<lparr>RadioAckPending := False, RadioLockUp := 0\<rparr>)
       (case status of
          NetworkOperations_Success \<Rightarrow> ack_success app p sent Size radioAckStatus s
        | NetworkOperations_Busy \<Rightarrow>
            Some ((emit [TimerStart VIRT_TIMER_MAC_FLUSHBUFFER] (snd (Resend sent Size s)))
                    \<lparr>flushTimerRunning := True\<rparr>)
        | _ \<Rightarrow> Some s)"

definition csmaSendAckHandler ::
  "app_callback \<Rightarrow> pkt_ptr \<Rightarrow> message \<Rightarrow> u16 \<Rightarrow> NetOpStatus \<Rightarrow> u8 \<Rightarrow> csma \<Rightarrow> csma option"
where
  "csmaSendAckHandler app p sent Size = SendAckHandler app p sent (uint Size)"

section \<open>Configuration, start and stop\<close>

definition SetConfig :: "MACConfig \<Rightarrow> csma \<Rightarrow> DeviceStatus \<times> csma" where
  "SetConfig config s =
     (DS_Success, s\<lparr>MyConfig := (MyConfig s)\<lparr>BufferSize := BufferSize config, CCA := CCA config,
        NumberOfRetries := NumberOfRetries config, CCASenseTime := CCASenseTime config,
        NeighborLivenessDelay := NeighborLivenessDelay config\<rparr>\<rparr>)"

text \<open>What the radio and the timers answer while the MAC starts; the last three are "supported".\<close>

record init_answers =
  radio_initialize :: DeviceStatus
  radio_rx :: DeviceStatus
  init_address :: u16
  set_sendpkt :: bool
  set_beacon :: bool
  set_flush :: bool

text \<open>The part of \<open>Initialize\<close> before the first call of the radio.\<close>

definition init_state :: "nat option \<Rightarrow> u8 \<Rightarrow> u8 \<Rightarrow> u8 \<Rightarrow> MACConfig \<Rightarrow> csma \<Rightarrow> csma option" where
  "init_state eventHandler macName routingAppID radioID config s =
     (let s1 = snd (SetConfig config (s\<lparr>mac_name := macName, radioName := radioID\<rparr>));
          s2 = snd (SetAppHandlers eventHandler (SetAppIdIndex routingAppID s1));
          s3 = SetMaxPayload (of_nat (IEEE802_15_4_FRAME_LENGTH - sizeof_header)) (s2\<lparr>AppCount := 0\<rparr>);
          s4 = s3\<lparr>g_send_buffer := snd (Initialize_circ Buffer_15_4_t_SIZE (g_send_buffer s3)),
                 g_receive_buffer := snd (Initialize_circ Buffer_15_4_t_SIZE (g_receive_buffer s3))\<rparr> in
      map_option (\<lambda>tb. s4\<lparr>g_NeighborTable := tb, RadioAckPending := False, m_recovery := 1\<rparr>)
        (ClearTable (g_NeighborTable s4)))"

definition init_radio :: "init_answers \<Rightarrow> csma \<Rightarrow> DeviceStatus \<times> csma" where
  "init_radio a s =
     (let s1 = emit [RadioInitialize (radioName s)] s in
      if radio_initialize a \<noteq> DS_Success then (radio_initialize a, s1)
      else let s2 = emit [RadioTurnOnRx (radioName s1)] s1 in
      if radio_rx a \<noteq> DS_Success then (radio_rx a, s2)
      else let s3 = emit [RadioSetDefaultRxState 0, TimerSet VIRT_TIMER_MAC_SENDPKT 30000 True]
                      (snd (SetMyAddress (init_address a) s2)) in
      if \<not> set_sendpkt a then (DS_Fail, s3)
      else let s4 = emit [TimerSet VIRT_TIMER_MAC_BEACON BEACON_PERIOD_MICRO False] s3 in
      if \<not> set_beacon a then (DS_Fail, s4)
      else let s5 = emit [TimerStart VIRT_TIMER_MAC_BEACON, TimerSet VIRT_TIMER_MAC_FLUSHBUFFER 50000 False]
                      (s4\<lparr>flushTimerRunning := False\<rparr>) in
      if \<not> set_flush a then (DS_Fail, s5)
      else (DS_Success, s5\<lparr>Initialized := True\<rparr>))"

definition Initialize ::
  "init_answers \<Rightarrow> nat option \<Rightarrow> u8 \<Rightarrow> u8 \<Rightarrow> u8 \<Rightarrow> MACConfig \<Rightarrow> csma \<Rightarrow> (DeviceStatus \<times> csma) option"
where
  "Initialize a eventHandler macName routingAppID radioID config s =
     (if \<not> Initialized s then
        (if routingAppID \<ge> MAX_APPS then Some (DS_Fail, s)
         else map_option
           (\<lambda>s1. case init_radio a s1 of (status, s2) \<Rightarrow>
              if status = DS_Success then (DS_Success, s2\<lparr>CurrentActiveApp := routingAppID\<rparr>) else (status, s2))
           (init_state eventHandler macName routingAppID radioID config s))
      else Some (DS_Success, s\<lparr>CurrentActiveApp := routingAppID\<rparr>))"

text \<open>The stops are chained with \<open>&&\<close>: a failed one skips those that follow.\<close>

definition UnInitialize :: "bool \<Rightarrow> bool \<Rightarrow> bool \<Rightarrow> bool \<Rightarrow> csma \<Rightarrow> bool \<times> csma" where
  "UnInitialize stop_beacon stop_sendpkt stop_flush radio_ok s =
     (let (ret, s1) =
        (if Initialized s then
           (let s1 = emit [TimerStop VIRT_TIMER_MAC_BEACON] s in
            if \<not> stop_beacon then (False, s1)
            else let s2 = emit [TimerStop VIRT_TIMER_MAC_SENDPKT] s1 in
            if \<not> stop_sendpkt then (False, s2)
            else let s3 = emit [TimerStop VIRT_TIMER_MAC_FLUSHBUFFER] s2 in
            if \<not> stop_flush then (False, s3)
            else (radio_ok, emit [RadioUnInitialize (radioName s3)] s3))
         else (True, s)) in
      (ret, s1\<lparr>Initialized := False\<rparr>))"

text \<open>The calls passed on to the radio, with its answer.\<close>

definition SetRadioAddress :: "bool \<Rightarrow> u16 \<Rightarrow> csma \<Rightarrow> bool \<times> csma" where
  "SetRadioAddress ret address s = (ret, emit [RadioSetAddress (radioName s) address] s)"

definition SetRadioName :: "bool \<Rightarrow> u8 \<Rightarrow> csma \<Rightarrow> bool \<times> csma" where
  "SetRadioName ret rname s = (ret, emit [RadioSetRadioName rname] (s\<lparr>radioName := rname\<rparr>))"

definition SetRadioTxPower :: "bool \<Rightarrow> int \<Rightarrow> csma \<Rightarrow> bool \<times> csma" where
  "SetRadioTxPower ret pw s = (ret, emit [RadioChangeTxPower (radioName s) pw] s)"

definition SetRadioChannel :: "bool \<Rightarrow> int \<Rightarrow> csma \<Rightarrow> bool \<times> csma" where
  "SetRadioChannel ret channel s = (ret, emit [RadioChangeChannel (radioName s) channel] s)"

definition GetSendPending :: "csma \<Rightarrow> u16" where
  "GetSendPending s = ucast (GetNumberMessagesInBuffer (g_send_buffer s))"

definition GetReceivePending :: "csma \<Rightarrow> u16" where
  "GetReceivePending s = ucast (GetNumberMessagesInBuffer (g_receive_buffer s))"

definition GetSendBufferSize :: "csma \<Rightarrow> u8" where "GetSendBufferSize s = Buffer_15_4_t_SIZE"
definition GetReceiveBufferSize :: "csma \<Rightarrow> u8" where "GetReceiveBufferSize s = Buffer_15_4_t_SIZE"

section \<open>The send queue: frames in the order they were accepted\<close>

text \<open>The frames that the trace shows as given to the radio.\<close>

fun sent_frames :: "csma_call list \<Rightarrow> message list" where
  "sent_frames [] = []"
| "sent_frames (RadioSend r m n # cs) = m # sent_frames cs"
| "sent_frames (RadioSendTimeStamped r m n t # cs) = m # sent_frames cs"
| "sent_frames (c # cs) = sent_frames cs"

lemma sent_frames_append [simp]: "sent_frames (as @ bs) = sent_frames as @ sent_frames bs"
  by (induction as rule: sent_frames.induct) simp_all

abbreviation send_queue :: "csma \<Rightarrow> message list" where
  "send_queue s \<equiv> circ_contents Buffer_15_4_t_SIZE (g_send_buffer s)"

abbreviation send_inv :: "csma \<Rightarrow> bool" where
  "send_inv s \<equiv> circ_inv Buffer_15_4_t_SIZE (g_send_buffer s)"

text \<open>Everything accepted so far: what went out, then what waits.\<close>

definition frames :: "csma \<Rightarrow> message list" where
  "frames s = sent_frames (trace s) @ send_queue s"

lemma emit_simps [simp]:
  "g_send_buffer (emit cs s) = g_send_buffer s" "g_receive_buffer (emit cs s) = g_receive_buffer s"
  "RadioAckPending (emit cs s) = RadioAckPending s" "flushTimerRunning (emit cs s) = flushTimerRunning s"
  "trace (emit cs s) = trace s @ cs" "MaxPayload (emit cs s) = MaxPayload s"
  "radioName (emit cs s) = radioName s" "g_NeighborTable (emit cs s) = g_NeighborTable s"
  "active_handler (emit cs s) = active_handler s" "MyAddress (emit cs s) = MyAddress s"
  by (simp_all add: emit_def active_handler_def GetAppHandler_def)

lemma buffer_size: "unat Buffer_15_4_t_SIZE = 8" "0 < Buffer_15_4_t_SIZE"
  by (simp_all add: Buffer_15_4_t_SIZE_def)

lemma queue_empty_iff: "IsEmpty b \<longleftrightarrow> circ_contents sz b = []"
  by (metis IsEmpty_iff length_circ_contents length_0_conv)

lemma queue_count:
  "GetNumberMessagesInBuffer b \<ge> 1 \<longleftrightarrow> circ_contents sz b \<noteq> []"
  "GetNumberMessagesInBuffer b = 0 \<longleftrightarrow> circ_contents sz b = []"
proof -
  have "circ_contents sz b = [] \<longleftrightarrow> numElements b = 0"
    using queue_empty_iff[of b sz] by (simp add: IsEmpty_def)
  then show "GetNumberMessagesInBuffer b \<ge> 1 \<longleftrightarrow> circ_contents sz b \<noteq> []"
    and "GetNumberMessagesInBuffer b = 0 \<longleftrightarrow> circ_contents sz b = []"
    by (simp_all add: GetNumberMessagesInBuffer_def word_le_nat_alt unat_eq_zero Suc_le_eq unat_gt_0)
qed

text \<open>\<open>GetOldestPtr\<close> takes the head of the queue.\<close>

lemma GetOldestPtr_head:
  assumes "circ_inv sz b" and "circ_contents sz b = m # q"
  shows "\<exists>i b'. GetOldestPtr sz b = (Some i, b') \<and> msg_store b' (msgPtr b' ! i) = m
    \<and> circ_inv sz b' \<and> circ_contents sz b' = q"
proof -
  have ne: "unat (numElements b) \<noteq> 0"
    using assms(2) by (metis length_circ_contents length_0_conv list.distinct(1))
  from GetOldest_nonempty[OF assms(1) ne] obtain p b' where
    g: "GetOldest sz b = (Some p, b')" "circ_inv sz b'" "msg_store b' = msg_store b"
      "circ_contents sz b = msg_store b p # circ_contents sz b'" by blast
  from g(1) ne have b': "b' = snd (GetFirstFullBuffer sz b)" and p: "p = msgPtr b ! unat (firstFullBuffer b)"
    by (auto simp: GetOldest_def GetFirstFullBuffer_def IsEmpty_iff)
  have "GetOldestPtr sz b = (Some (unat (firstFullBuffer b)), b')"
    using ne by (simp add: GetOldestPtr_def GetFirstFullBufferPtr_def IsEmpty_iff b' GetFirstFullBuffer_def)
  moreover have "msgPtr b' = msgPtr b" by (simp add: b' GetFirstFullBuffer_def)
  ultimately show ?thesis using g p assms(2) by auto
qed

text \<open>The call that gives a frame to the radio.\<close>

definition radio_call :: "u8 \<Rightarrow> message \<Rightarrow> csma_call" where
  "radio_call rn m =
     (if flags (header m) AND payload_code MFM_TIMESYNC \<noteq> 0
      then RadioSendTimeStamped rn m (hdr_length (header m)) (ucast (msg_time m))
      else RadioSend rn m (hdr_length (header m)))"

lemma sent_radio_call [simp]: "sent_frames [radio_call rn m] = [m]"
  by (simp add: radio_call_def)

lemma transmit_head:
  assumes "send_inv s" and "send_queue s = m # q"
  shows "send_inv (transmit s) \<and> send_queue (transmit s) = q
    \<and> RadioAckPending (transmit s) \<and> flushTimerRunning (transmit s) = flushTimerRunning s
    \<and> trace (transmit s) = trace s @ [radio_call (radioName s) m]"
proof -
  from GetOldestPtr_head[OF assms] obtain i b' where
    g: "GetOldestPtr Buffer_15_4_t_SIZE (g_send_buffer s) = (Some i, b')" "msg_store b' (msgPtr b' ! i) = m"
      "circ_inv Buffer_15_4_t_SIZE b'" "circ_contents Buffer_15_4_t_SIZE b' = q" by blast
  have "transmit s = emit [radio_call (radioName s) m] (s\<lparr>g_send_buffer := b', RadioAckPending := True\<rparr>)"
    using g by (simp add: transmit_def Let_def radio_call_def)
  with g show ?thesis by simp
qed

text \<open>
  What \<open>SendFirstPacketToRadio\<close> does with a queue that is not empty: it waits while a
  transmission is in flight, or hands over the oldest frame, or starts the retry timer.
\<close>

definition channel_clear :: "radio_answers \<Rightarrow> bool" where
  "channel_clear r \<longleftrightarrow> (if cca_first r = DS_Busy then cca_second r = DS_Success else cca_first r \<noteq> DS_Fail)"

lemma update_flush_timer_simps [simp]:
  "g_send_buffer (update_flush_timer s) = g_send_buffer s"
  "g_receive_buffer (update_flush_timer s) = g_receive_buffer s"
  "RadioAckPending (update_flush_timer s) = RadioAckPending s"
  "radioName (update_flush_timer s) = radioName s"
  "sent_frames (trace (update_flush_timer s)) = sent_frames (trace s)"
  "active_handler (update_flush_timer s) = active_handler s"
  "MaxPayload (update_flush_timer s) = MaxPayload s"
  by (simp_all add: update_flush_timer_def active_handler_def GetAppHandler_def emit_def)

lemma SendToRadio_cases:
  assumes "send_inv s" and "send_queue s = m # q"
  shows "SendFirstPacketToRadio r s = SendToRadio r s"
    and "RadioAckPending s \<Longrightarrow> SendToRadio r s = update_flush_timer s"
    and "\<not> RadioAckPending s \<Longrightarrow> channel_clear r \<Longrightarrow>
      send_inv (SendToRadio r s) \<and> send_queue (SendToRadio r s) = q \<and> RadioAckPending (SendToRadio r s)
      \<and> flushTimerRunning (SendToRadio r s) = flushTimerRunning (update_flush_timer s)
      \<and> (\<exists>cs. trace (SendToRadio r s)
            = trace (update_flush_timer s) @ cs @ [radio_call (radioName s) m] \<and> sent_frames cs = []
            \<and> (\<forall>t. TimerStart t \<notin> set cs))"
    and "\<not> RadioAckPending s \<Longrightarrow> \<not> channel_clear r \<Longrightarrow>
      g_send_buffer (SendToRadio r s) = g_send_buffer s \<and> \<not> RadioAckPending (SendToRadio r s)
      \<and> flushTimerRunning (SendToRadio r s) = flushTimerRunning (update_flush_timer s)
      \<and> (\<exists>cs. trace (SendToRadio r s)
            = trace (update_flush_timer s) @ cs @ [TimerStart VIRT_TIMER_MAC_SENDPKT] \<and> sent_frames cs = []
            \<and> (\<forall>t. TimerStart t \<notin> set cs))"
proof -
  have ne: "\<not> IsEmpty (g_send_buffer s)"
    using assms(2) by (simp add: queue_empty_iff[of _ Buffer_15_4_t_SIZE])
  show "SendFirstPacketToRadio r s = SendToRadio r s"
    using assms(2) by (simp add: SendFirstPacketToRadio_def queue_count(1)[of _ Buffer_15_4_t_SIZE])
  show "RadioAckPending s \<Longrightarrow> SendToRadio r s = update_flush_timer s"
    by (simp add: SendToRadio_def Let_def)
  let ?s1 = "update_flush_timer s"
  let ?s2 = "emit [RadioTurnOnRx (radioName ?s1), RadioClearChannelAssesment (radioName ?s1)] (?s1\<lparr>m_recovery := 1\<rparr>)"
  let ?s3 = "emit [SleepMicroSeconds (radio_address r mod 200), RadioClearChannelAssesment (radioName ?s2)] ?s2"
  have t2: "send_inv ?s2" "send_queue ?s2 = m # q" and t3: "send_inv ?s3" "send_queue ?s3 = m # q"
    using assms by simp_all
  note T2 = transmit_head[OF t2] and T3 = transmit_head[OF t3]
  { assume np: "\<not> RadioAckPending s" and cc: "channel_clear r"
    have "SendToRadio r s = (if cca_first r = DS_Busy then transmit ?s3 else transmit ?s2)"
      using np ne cc by (simp add: SendToRadio_def Let_def channel_clear_def split: if_splits)
    with T2 T3 show "send_inv (SendToRadio r s) \<and> send_queue (SendToRadio r s) = q \<and> RadioAckPending (SendToRadio r s)
      \<and> flushTimerRunning (SendToRadio r s) = flushTimerRunning (update_flush_timer s)
      \<and> (\<exists>cs. trace (SendToRadio r s)
            = trace (update_flush_timer s) @ cs @ [radio_call (radioName s) m] \<and> sent_frames cs = []
            \<and> (\<forall>t. TimerStart t \<notin> set cs))"
      by auto }
  { assume np: "\<not> RadioAckPending s" and cc: "\<not> channel_clear r"
    have "SendToRadio r s = (if cca_first r = DS_Busy then emit [TimerStart VIRT_TIMER_MAC_SENDPKT] ?s3
        else emit [TimerStart VIRT_TIMER_MAC_SENDPKT]
             (?s2\<lparr>csmaSendToRadioFailCount := csmaSendToRadioFailCount ?s2 + 1\<rparr>))"
      using np ne cc by (simp add: SendToRadio_def Let_def channel_clear_def split: if_splits)
    with np show "g_send_buffer (SendToRadio r s) = g_send_buffer s \<and> \<not> RadioAckPending (SendToRadio r s)
      \<and> flushTimerRunning (SendToRadio r s) = flushTimerRunning (update_flush_timer s)
      \<and> (\<exists>cs. trace (SendToRadio r s)
            = trace (update_flush_timer s) @ cs @ [TimerStart VIRT_TIMER_MAC_SENDPKT] \<and> sent_frames cs = []
            \<and> (\<forall>t. TimerStart t \<notin> set cs))"
      by auto }
qed

lemma SendFirst_empty:
  "send_queue s = [] \<Longrightarrow> SendFirstPacketToRadio r s =
     (if flushTimerRunning s then emit [TimerStop VIRT_TIMER_MAC_FLUSHBUFFER] s else s)"
  by (simp add: SendFirstPacketToRadio_def queue_count(1)[of _ Buffer_15_4_t_SIZE])

text \<open>In every case the frames accepted so far are the same, in the same order.\<close>

lemma SendFirst_frames:
  assumes "send_inv s"
  shows "send_inv (SendFirstPacketToRadio r s) \<and> frames (SendFirstPacketToRadio r s) = frames s"
proof (cases "send_queue s")
  case Nil
  then show ?thesis using assms by (simp add: SendFirst_empty frames_def)
next
  case (Cons m q)
  note C = SendToRadio_cases[OF assms Cons, where r = r]
  show ?thesis
  proof (cases "RadioAckPending s")
    case True
    then show ?thesis using C(1,2) assms by (simp add: frames_def)
  next
    case False
    with C(1,3,4) Cons assms show ?thesis
      by (cases "channel_clear r") (auto simp: frames_def)
  qed
qed

text \<open>Storing a frame, for both \<open>Send\<close> functions and for \<open>Resend\<close>.\<close>

lemma Store_cases:
  assumes "circ_inv sz b"
  obtains (stored) b' where "Store sz m n b = (True, b')" "circ_inv sz b'"
      "circ_contents sz b' = circ_contents sz b @ [m]" "length (circ_contents sz b) < unat sz"
      "unat n \<le> GetMessageSize"
    | (refused) "Store sz m n b = (False, b)"
        "length (circ_contents sz b) = unat sz \<or> GetMessageSize < unat n"
proof (cases "unat (numElements b) < unat sz \<and> unat n \<le> GetMessageSize")
  case True
  with Store_room[OF assms, of n m] obtain b' where
    "Store sz m n b = (True, b')" "circ_inv sz b'" "circ_contents sz b' = circ_contents sz b @ [m]" by blast
  with stored True show ?thesis by simp
next
  case False
  with assms have full: "unat (numElements b) = unat sz \<or> GetMessageSize < unat n"
    by (auto simp: circ_inv_def ring_inv_def)
  then have "Store sz m n b = (False, b)" by (intro Store_refused) (simp add: IsFull_iff)
  with full show ?thesis by (intro refused) simp_all
qed

definition send_frame :: "message \<Rightarrow> u8 \<Rightarrow> csma \<Rightarrow> radio_answers \<Rightarrow> bool \<times> csma" where
  "send_frame m n s r =
     (case Store Buffer_15_4_t_SIZE m n (g_send_buffer s) of
        (False, b') \<Rightarrow> (False, s\<lparr>g_send_buffer := b'\<rparr>)
      | (True, b') \<Rightarrow> (True, SendFirstPacketToRadio r (s\<lparr>g_send_buffer := b'\<rparr>)))"

lemma Send_alt:
  "Send r carrier dst dataType msg Size s =
     (if Size > uint (MaxPayload s) then Some (False, s)
      else map_option
        (\<lambda>m2. send_frame m2 (of_int (Size + int sizeof_header)) (s\<lparr>seqNumber_Send := seqNumber_Send s + 1\<rparr>) r)
        (copy_payload_bytes Size msg
           (carrier\<lparr>header := frame_header dst dataType 0 (seqNumber_Send s) Size s,
                    metadata := (metadata carrier)\<lparr>network := 0\<rparr>\<rparr>)))"
  by (auto simp: Send_def send_frame_def Let_def map_conv_bind_option intro!: Option.bind_cong split: prod.splits bool.splits)

lemma SendTimeStamped_alt:
  "SendTimeStamped r carrier dst dataType msg Size eventTime s =
     (if Size > uint (MaxPayload s) then Some (False, s)
      else map_option
        (\<lambda>m2. send_frame m2 (hdr_length (header m2))
                (s\<lparr>seqNumber_SendTimeStamped := seqNumber_SendTimeStamped s + 1\<rparr>) r)
        (copy_payload_bytes Size msg
           (carrier\<lparr>header := frame_header dst dataType TIMESTAMPED_FLAG (seqNumber_SendTimeStamped s) Size s,
                    metadata := SetReceiveTimeStamp_UINT32 eventTime ((metadata carrier)\<lparr>network := 0\<rparr>)\<rparr>)))"
  by (auto simp: SendTimeStamped_def send_frame_def Let_def map_conv_bind_option intro!: Option.bind_cong split: prod.splits bool.splits)

lemma send_frame_frames:
  assumes "send_inv s"
  shows "fst (send_frame m n s r) \<longleftrightarrow> length (send_queue s) < 8 \<and> unat n \<le> GetMessageSize"
    and "send_inv (snd (send_frame m n s r))"
    and "frames (snd (send_frame m n s r)) = frames s @ (if fst (send_frame m n s r) then [m] else [])"
proof -
  have "(fst (send_frame m n s r) \<longleftrightarrow> length (send_queue s) < 8 \<and> unat n \<le> GetMessageSize)
    \<and> send_inv (snd (send_frame m n s r))
    \<and> frames (snd (send_frame m n s r)) = frames s @ (if fst (send_frame m n s r) then [m] else [])"
  proof (cases rule: Store_cases[OF assms, where m = m and n = n])
    case (1 b')
    with SendFirst_frames[of "s\<lparr>g_send_buffer := b'\<rparr>" r] buffer_size show ?thesis
      by (simp add: send_frame_def frames_def)
  next
    case 2
    with assms buffer_size show ?thesis by (auto simp: send_frame_def frames_def)
  qed
  then show "fst (send_frame m n s r) \<longleftrightarrow> length (send_queue s) < 8 \<and> unat n \<le> GetMessageSize"
    and "send_inv (snd (send_frame m n s r))"
    and "frames (snd (send_frame m n s r)) = frames s @ (if fst (send_frame m n s r) then [m] else [])"
    by blast+
qed

text \<open>The payload copy keeps the header, and is total up to the 115 bytes behind it.\<close>

lemma copy_total:
  assumes "Size \<le> 115" and "nat Size \<le> length msg"
  shows "\<exists>m'. copy_payload_bytes Size msg m = Some m' \<and> header m' = header m"
proof -
  have "nat Size \<le> 115" using assms(1) by simp
  with poke_bytes_total[of 0 "take (nat Size) msg" m] assms obtain m' where
    "poke_bytes 0 (take (nat Size) msg) m = Some m'" by auto
  with assms poke_bytes_header show ?thesis by (auto simp: copy_payload_bytes_def)
qed

lemma copy_header: "copy_payload_bytes Size msg m = Some m' \<Longrightarrow> header m' = header m"
  by (auto simp: copy_payload_bytes_def poke_bytes_header split: if_splits)

section \<open>Runs of the MAC layer\<close>

text \<open>
  One input per entry point: the application sends, a timer fires (the resend and the flush
  timer have the same handler), the beacon timer fires, the radio delivers or acknowledges.
\<close>

datatype csma_input =
    InSend radio_answers message u16 u8 "u8 list" int
  | InSendTimeStamped radio_answers message u16 u8 "u8 list" int u32
  | InTimer radio_answers
  | InBeacon radio_answers message
  | InReceive u64 u16 msg_addr u16
  | InSendAck pkt_ptr message u16 NetOpStatus u8

fun csma_step :: "app_callback \<Rightarrow> csma_input \<Rightarrow> csma \<Rightarrow> csma option" where
  "csma_step app (InSend r carrier dst dataType msg Size) s =
     map_option snd (Send r carrier dst dataType msg Size s)"
| "csma_step app (InSendTimeStamped r carrier dst dataType msg Size t) s =
     map_option snd (SendTimeStamped r carrier dst dataType msg Size t s)"
| "csma_step app (InTimer r) s = Some (SendFirstPacketToRadio r s)"
| "csma_step app (InBeacon r carrier) s = beaconScheduler app r carrier s"
| "csma_step app (InReceive now address msg Size) s =
     map_option snd (csmaReceiveHandler app now address msg Size s)"
| "csma_step app (InSendAck p sent Size status ack) s = csmaSendAckHandler app p sent Size status ack s"

fun csma_run :: "app_callback \<Rightarrow> csma_input list \<Rightarrow> csma \<Rightarrow> csma option" where
  "csma_run app [] s = Some s"
| "csma_run app (i # ins) s = Option.bind (csma_step app i s) (csma_run app ins)"

text \<open>The later state has accepted the same frames and then possibly more.\<close>

definition extends :: "csma \<Rightarrow> csma \<Rightarrow> bool" where
  "extends s s' \<longleftrightarrow> send_inv s' \<and> (\<exists>new. frames s' = frames s @ new)"

text \<open>What the application may do to the MAC in a callback: the operations do just this.\<close>

definition app_keeps_order :: "app_callback \<Rightarrow> bool" where
  "app_keeps_order app \<longleftrightarrow> (\<forall>c s. send_inv s \<longrightarrow> extends s (app c s))"

named_theorems extends_intros \<open>a step only adds frames at the end\<close>

lemma extends_trans: "extends s s1 \<Longrightarrow> extends s1 s2 \<Longrightarrow> extends s s2"
  by (auto simp: extends_def)

lemma extends_same [extends_intros]:
  "send_inv s \<Longrightarrow> g_send_buffer s' = g_send_buffer s \<Longrightarrow> sent_frames (trace s') = sent_frames (trace s)
   \<Longrightarrow> extends s s'"
  by (auto simp: extends_def frames_def)

lemma extends_cong:
  "extends s s1 \<Longrightarrow> g_send_buffer s2 = g_send_buffer s1 \<Longrightarrow> sent_frames (trace s2) = sent_frames (trace s1)
   \<Longrightarrow> extends s s2"
  by (auto simp: extends_def frames_def)

lemma extends_send_frame:
  assumes "send_inv s" and "g_send_buffer s1 = g_send_buffer s" and "trace s1 = trace s"
  shows "extends s (snd (send_frame m n s1 r))"
proof -
  from assms have "send_inv s1" and "frames s1 = frames s" by (simp_all add: frames_def)
  with send_frame_frames[of s1 m n r] show ?thesis by (simp add: extends_def)
qed

lemma Send_extends:
  assumes "send_inv s"
  shows "Send r carrier dst dataType msg Size s = Some v \<Longrightarrow> extends s (snd v)"
    and "SendTimeStamped r carrier dst dataType msg Size t s = Some v \<Longrightarrow> extends s (snd v)"
  using assms by (auto simp: Send_alt SendTimeStamped_alt intro!: extends_same extends_send_frame split: if_splits)

lemma SendFirst_extends: "send_inv s \<Longrightarrow> extends s (SendFirstPacketToRadio r s)"
  by (simp add: extends_def SendFirst_frames)

lemma call_app_extends:
  assumes "app_keeps_order app" and "send_inv s" and "sent_frames [c] = []"
  shows "extends s (call_app app c s)"
proof -
  have "extends s (emit [c] s)" using assms(2,3) by (auto intro!: extends_same)
  moreover have "extends (emit [c] s) (app c (emit [c] s))"
    using assms(1,2) by (simp add: app_keeps_order_def)
  ultimately show ?thesis unfolding call_app_def by (rule extends_trans)
qed

lemma beacon_extends:
  assumes "send_inv s" and "beaconScheduler app r carrier s = Some s'"
  shows "extends s s'"
  using assms by (auto simp: beaconScheduler_def UpdateNeighborTable_def UpdateNeighborTable_liveness_def
      BringOutYourDead_def SendHello_def dest!: Send_extends(1))

lemma strip_time_stamp_simps [simp]:
  "g_send_buffer (strip_time_stamp msg s) = g_send_buffer s" "trace (strip_time_stamp msg s) = trace s"
  "active_handler (strip_time_stamp msg s) = active_handler s"
  "g_NeighborTable (strip_time_stamp msg s) = g_NeighborTable s"
  by (simp_all add: strip_time_stamp_def Let_def active_handler_def GetAppHandler_def)

lemma receive_discovery_extends:
  assumes "app_keeps_order app" and "send_inv s" and "receive_discovery app now m s = Some s'"
  shows "extends s s'"
proof -
  have nb: "extends s (s\<lparr>g_NeighborTable := tb\<rparr>)" for tb
    using assms(2) by (intro extends_same) simp_all
  have "extends s (call_app app (AppNeighborChange f n) (s\<lparr>g_NeighborTable := tb\<rparr>))" for f n tb
    using call_app_extends[OF assms(1), of "s\<lparr>g_NeighborTable := tb\<rparr>" "AppNeighborChange f n"] assms(2)
    by (auto simp: extends_def frames_def)
  with nb assms(3) show ?thesis
    by (auto simp: receive_discovery_def Let_def bind_eq_Some_conv split: if_splits option.splits)
qed

lemma accept_data_result:
  assumes "accept_data app msg s = Some (t, s')"
  obtains i b1 where "bag_exchange msg (g_receive_buffer s) = Some (i, t, b1)"
    "s' = s\<lparr>g_receive_buffer := b1\<rparr>
     \<or> (\<exists>f a n. s' = call_app app (AppReceive f a n) (s\<lparr>g_receive_buffer := b1\<rparr>))"
proof -
  from assms obtain i t1 b1 where b: "bag_exchange msg (g_receive_buffer s) = Some (i, t1, b1)"
    by (auto simp: accept_data_def bind_eq_Some_conv)
  show thesis
  proof (cases "active_handler (s\<lparr>g_receive_buffer := b1\<rparr>)")
    case None
    then show ?thesis using assms b by (simp add: accept_data_def)
  next
    case (Some h)
    then show ?thesis using assms b that by (cases "ReceiveHandler_fn h") (auto simp: accept_data_def)
  qed
qed

lemma accept_data_extends:
  assumes "app_keeps_order app" and "send_inv s" and "accept_data app msg s = Some (t, s')"
  shows "extends s s'"
proof -
  have "extends s (s\<lparr>g_receive_buffer := b\<rparr>)" for b
    using assms(2) by (intro extends_same) simp_all
  moreover have "extends s (call_app app (AppReceive f a n) (s\<lparr>g_receive_buffer := b\<rparr>))" for f a n b
    using call_app_extends[OF assms(1), of "s\<lparr>g_receive_buffer := b\<rparr>" "AppReceive f a n"] assms(2)
    by (auto simp: extends_def frames_def)
  ultimately show ?thesis using accept_data_result[OF assms(3)] by metis
qed

lemma ReceiveHandler_extends:
  assumes "app_keeps_order app" and "send_inv s" and "ReceiveHandler app now address msg Size s = Some (t, s')"
  shows "extends s s'"
proof -
  let ?s1 = "strip_time_stamp msg s"
  have inv: "send_inv ?s1" using assms(2) by simp
  have s1: "extends s ?s1" by (rule extends_same[OF assms(2)]) simp_all
  have "extends s s" by (rule extends_same[OF assms(2)]) simp_all
  moreover have "extends s s2" if "receive_discovery app now m ?s1 = Some s2" for m s2
    using receive_discovery_extends[OF assms(1) inv that] s1 extends_trans by blast
  moreover have "extends s s2" if "accept_data app msg ?s1 = Some (t, s2)" for s2
    using accept_data_extends[OF assms(1) inv that] s1 extends_trans by blast
  ultimately show ?thesis using s1 assms(3)
    by (auto simp: ReceiveHandler_def Let_def split: if_splits)
qed

lemma ack_extends:
  assumes "app_keeps_order app" and "send_inv s" and "SendAckHandler app p sent Size status ack s = Some s'"
  shows "extends s s'"
proof -
  have "extends s s" by (rule extends_same[OF assms(2)]) simp_all
  moreover have "extends s s1" if ok: "ack_success app p sent Size ack s = Some s1" for s1
  proof -
    have "extends s (s\<lparr>g_NeighborTable := tb\<rparr>)" for tb
      by (rule extends_same[OF assms(2)]) simp_all
    moreover have "extends s (call_app app (AppSendAck f m n st a) s)" for f m n st a
      by (rule call_app_extends[OF assms(1,2)]) simp
    moreover note \<open>extends s s\<close>
    moreover from ok obtain s0 where s0: "s1 = s0 \<or> s1 = (emit [TimerStart VIRT_TIMER_MAC_FLUSHBUFFER] s0)\<lparr>flushTimerRunning := True\<rparr>"
      and "(if payloadType (header sent) = payload_code MFM_CSMA_DISCOVERY
        then Some (s\<lparr>g_NeighborTable := snd (DeletePacket_nt p (g_NeighborTable s))\<rparr>)
        else (case active_handler s of
                None \<Rightarrow> None
              | Some h \<Rightarrow> (case SendAckHandler_fn h of
                  None \<Rightarrow> Some s
                | Some f \<Rightarrow> Some (call_app app
                    (AppSendAck f sent (of_int Size) NetworkOperations_Success ack) s)))) = Some s0"
      unfolding ack_success_def by (elim map_option_eq_Some[THEN iffD1, THEN exE]) (auto split: if_split_asm)
    ultimately have "extends s s0"
      by (cases "active_handler s"; cases "SendAckHandler_fn (the (active_handler s))")
        (auto split: if_split_asm)
    then show ?thesis using s0 by (auto intro: extends_cong)
  qed
  moreover have "extends s ((emit [TimerStart t] (snd (Resend sent Size s)))\<lparr>flushTimerRunning := True\<rparr>)" for t
  proof (cases rule: Store_cases[OF assms(2), where m = sent and n = "of_int Size"])
    case (1 b')
    then show ?thesis by (auto simp: Resend_def extends_def frames_def)
  next
    case 2
    then show ?thesis using assms(2) by (auto simp: Resend_def extends_def frames_def)
  qed
  ultimately obtain s0 where "extends s s0" "s' = s0\<lparr>RadioAckPending := False, RadioLockUp := 0\<rparr>"
    using assms(3) by (auto simp: SendAckHandler_def split: NetOpStatus.split_asm)
  then show ?thesis by (auto intro: extends_cong)
qed

lemma csma_step_extends:
  assumes app: "app_keeps_order app" and inv: "send_inv s" and step: "csma_step app i s = Some s'"
  shows "extends s s'"
proof (cases i)
  case (InSend r carrier dst dataType msg Size)
  then show ?thesis using step Send_extends(1)[OF inv] by force
next
  case (InSendTimeStamped r carrier dst dataType msg Size t)
  then show ?thesis using step Send_extends(2)[OF inv] by force
next
  case (InTimer r)
  then show ?thesis using step SendFirst_extends[OF inv] by auto
next
  case (InBeacon r carrier)
  then show ?thesis using step beacon_extends[OF inv] by simp
next
  case (InReceive now address msg Size)
  then show ?thesis using step ReceiveHandler_extends[OF app inv] by (auto simp: csmaReceiveHandler_def)
next
  case (InSendAck p sent Size status ack)
  then show ?thesis using step ack_extends[OF app inv] by (simp add: csmaSendAckHandler_def)
qed

lemma csma_run_extends:
  assumes "app_keeps_order app"
  shows "send_inv s \<Longrightarrow> csma_run app ins s = Some s' \<Longrightarrow> extends s s'"
proof (induction ins arbitrary: s)
  case Nil
  then show ?case by (auto intro: extends_same)
next
  case (Cons i ins)
  then obtain s1 where s1: "csma_step app i s = Some s1" "csma_run app ins s1 = Some s'"
    by (auto simp: bind_eq_Some_conv)
  with csma_step_extends[OF assms Cons.prems(1)] have "extends s s1" by blast
  moreover from this Cons.IH[of s1] s1(2) have "extends s1 s'" by (simp add: extends_def)
  ultimately show ?case by (rule extends_trans)
qed

section \<open>What one Send does\<close>

lemma copy_payload_keeps:
  assumes "copy_payload_bytes Size msg m = Some m'" and "Size \<le> 100" and "length (payload m) = 100"
  shows "take (nat Size) (payload m') = take (nat Size) msg \<and> metadata m' = metadata m"
proof -
  have "nat Size \<le> length msg" and "poke_bytes 0 (take (nat Size) msg) m = Some m'"
    using assms(1) by (auto simp: copy_payload_bytes_def split: if_splits)
  with poke_bytes_payload[of 0 "take (nat Size) msg" m] assms(2,3) show ?thesis by auto
qed

lemma send_frame_cases:
  assumes inv: "send_inv s" and n: "unat n \<le> GetMessageSize"
  shows "length (send_queue s) = 8 \<Longrightarrow> send_frame m n s r = (False, s)"
    and "length (send_queue s) < 8 \<Longrightarrow> \<exists>b'. circ_inv Buffer_15_4_t_SIZE b'
      \<and> circ_contents Buffer_15_4_t_SIZE b' = send_queue s @ [m]
      \<and> send_frame m n s r = (True, SendToRadio r (s\<lparr>g_send_buffer := b'\<rparr>))"
proof -
  show "send_frame m n s r = (False, s)" if "length (send_queue s) = 8"
    using that buffer_size n by (simp add: send_frame_def Store_refused IsFull_iff)
  show "\<exists>b'. circ_inv Buffer_15_4_t_SIZE b' \<and> circ_contents Buffer_15_4_t_SIZE b' = send_queue s @ [m]
      \<and> send_frame m n s r = (True, SendToRadio r (s\<lparr>g_send_buffer := b'\<rparr>))" if "length (send_queue s) < 8"
  proof -
    from Store_room[OF inv _ n, of m] that buffer_size obtain b' where
      b: "Store Buffer_15_4_t_SIZE m n (g_send_buffer s) = (True, b')" "circ_inv Buffer_15_4_t_SIZE b'"
        "circ_contents Buffer_15_4_t_SIZE b' = send_queue s @ [m]" by auto
    obtain h q where hq: "send_queue s @ [m] = h # q" by (cases "send_queue s @ [m]") auto
    with b SendToRadio_cases(1)[of "s\<lparr>g_send_buffer := b'\<rparr>" h q r] show ?thesis
      by (auto simp: send_frame_def)
  qed
qed

lemma Send_returns:
  assumes "Size \<le> 115" and "nat Size \<le> length msg"
  shows "\<exists>v. Send r carrier dst dataType msg Size s = Some v"
    and "\<exists>v. SendTimeStamped r carrier dst dataType msg Size t s = Some v"
proof -
  have "copy_payload_bytes Size msg m \<noteq> None" for m
    using copy_total[OF assms, of m] by auto
  then have "Send r carrier dst dataType msg Size s \<noteq> None"
    and "SendTimeStamped r carrier dst dataType msg Size t s \<noteq> None"
    by (simp_all add: Send_alt SendTimeStamped_alt del: not_None_eq)
  then show "\<exists>v. Send r carrier dst dataType msg Size s = Some v"
    and "\<exists>v. SendTimeStamped r carrier dst dataType msg Size t s = Some v" by blast+
qed

lemma send_length:
  assumes "0 \<le> Size" and "Size \<le> 115"
  shows "unat (of_int (Size + int sizeof_header) :: u8) \<le> GetMessageSize"
proof -
  from assms have "unat (word_of_int (Size + 13) :: u8) = nat (Size + 13)"
    by (simp add: unsigned_of_int take_bit_eq_mod del: of_int_add)
  with assms show ?thesis by (simp add: message_sizes)
qed

lemma SendToRadio_turn:
  assumes "send_inv s" and "send_queue s = h # q"
  shows "if RadioAckPending s
    then send_queue (SendToRadio r s) = h # q \<and> sent_frames (trace (SendToRadio r s)) = sent_frames (trace s)
    else if channel_clear r
    then send_queue (SendToRadio r s) = q \<and> RadioAckPending (SendToRadio r s)
      \<and> last (trace (SendToRadio r s)) = radio_call (radioName s) h
      \<and> sent_frames (trace (SendToRadio r s)) = sent_frames (trace s) @ [h]
    else send_queue (SendToRadio r s) = h # q \<and> \<not> RadioAckPending (SendToRadio r s)
      \<and> last (trace (SendToRadio r s)) = TimerStart VIRT_TIMER_MAC_SENDPKT
      \<and> sent_frames (trace (SendToRadio r s)) = sent_frames (trace s)"
  using SendToRadio_cases[OF assms, where r = r] assms(2)
  by (cases "RadioAckPending s"; cases "channel_clear r") auto

text \<open>
  C9. Send copies the payload into a frame with the MAC's address, sequence number and length
  and queues it, or refuses it when the eight places are taken, changing nothing but the
  sequence counter. An accepted frame waits behind the older ones while a transmission is in
  flight; otherwise the oldest queued frame goes to the radio when a carrier sense finds the
  channel clear, and the one-shot retry timer is started when it does not.
\<close>

theorem Send_queues_or_transmits:
  assumes "send_inv s" and "0 \<le> Size" and "Size \<le> uint (MaxPayload s)" and "MaxPayload s = 115"
    and "nat Size \<le> length msg"
  shows "\<exists>m s'. Send r carrier dst dataType msg Size s = Some (length (send_queue s) < 8, s')
    \<and> header m = frame_header dst dataType 0 (seqNumber_Send s) Size s
    \<and> (length (payload carrier) = 100 \<and> Size \<le> 100 \<longrightarrow> take (nat Size) (payload m) = take (nat Size) msg)
    \<and> (length (send_queue s) = 8 \<longrightarrow> s' = s\<lparr>seqNumber_Send := seqNumber_Send s + 1\<rparr>)
    \<and> (length (send_queue s) < 8 \<longrightarrow>
        (if RadioAckPending s
         then send_queue s' = send_queue s @ [m] \<and> sent_frames (trace s') = sent_frames (trace s)
         else if channel_clear r
         then send_queue s' = tl (send_queue s @ [m]) \<and> RadioAckPending s'
           \<and> last (trace s') = radio_call (radioName s) (hd (send_queue s @ [m]))
           \<and> sent_frames (trace s') = sent_frames (trace s) @ [hd (send_queue s @ [m])]
         else send_queue s' = send_queue s @ [m] \<and> \<not> RadioAckPending s'
           \<and> last (trace s') = TimerStart VIRT_TIMER_MAC_SENDPKT
           \<and> sent_frames (trace s') = sent_frames (trace s)))"
proof -
  let ?c = "carrier\<lparr>header := frame_header dst dataType 0 (seqNumber_Send s) Size s,
                    metadata := (metadata carrier)\<lparr>network := 0\<rparr>\<rparr>"
  let ?s = "s\<lparr>seqNumber_Send := seqNumber_Send s + 1\<rparr>" and ?n = "of_int (Size + int sizeof_header) :: u8"
  have size: "Size \<le> 115" using assms(3,4) by simp
  from copy_total[OF size assms(5), of ?c] obtain m where
    m: "copy_payload_bytes Size msg ?c = Some m" "header m = header ?c" by blast
  have S: "Send r carrier dst dataType msg Size s = Some (send_frame m ?n ?s r)"
    using assms(3) m(1) by (simp add: Send_alt)
  have len: "unat ?n \<le> GetMessageSize" using send_length assms(2) size by blast
  have pay: "length (payload carrier) = 100 \<and> Size \<le> 100 \<longrightarrow> take (nat Size) (payload m) = take (nat Size) msg"
    using copy_payload_keeps[OF m(1)] by simp
  have inv: "send_inv ?s" using assms(1) by simp
  note F = send_frame_cases[OF inv len, where m = m and r = r]
  show ?thesis
  proof (cases "length (send_queue s) < 8")
    case False
    with circ_bound[OF assms(1)] buffer_size have full: "length (send_queue s) = 8" by simp
    with F(1) S have "Send r carrier dst dataType msg Size s = Some (False, ?s)" by simp
    with full m(2) pay show ?thesis by (intro exI[of _ m] exI[of _ ?s]) simp
  next
    case True
    with F(2) obtain b' where b: "circ_inv Buffer_15_4_t_SIZE b'"
      "circ_contents Buffer_15_4_t_SIZE b' = send_queue s @ [m]"
      "send_frame m ?n ?s r = (True, SendToRadio r (?s\<lparr>g_send_buffer := b'\<rparr>))" by auto
    obtain h q where hq: "send_queue s @ [m] = h # q" by (cases "send_queue s @ [m]") auto
    let ?t = "?s\<lparr>g_send_buffer := b'\<rparr>"
    have "send_inv ?t" and "send_queue ?t = h # q" using b hq by simp_all
    note turn = SendToRadio_turn[OF this, where r = r]
    with True turn S b(3) m(2) pay hq show ?thesis
      by (intro exI[of _ m] exI[of _ "SendToRadio r ?t"]) simp
  qed
qed

text \<open>A MAC after its initialisation, with one application, for the concrete instances.\<close>

definition sample_csma :: csma where
  "sample_csma =
     \<lparr>AppHandlers = [Some 0, None, None, None], NativeAppHandlers = [None, None],
      handler_at = (\<lambda>_. \<lparr>ReceiveHandler_fn = Some 1, SendAckHandler_fn = Some 2, neighborHandler_fn = Some 3\<rparr>),
      AppIDIndex = 0, MyAddress = 7, MaxPayload = 115, mac_name = 1, radioName = 0, Initialized = True,
      AppCount = 0, MyConfig = \<lparr>CCA = True, NumberOfRetries = 0, CCASenseTime = 0, BufferSize = 8,
      NeighborLivenessDelay = 0\<rparr>, CurrentActiveApp = 0, RadioAckPending = False, m_recovery = 1,
      flushTimerRunning = False, g_send_buffer = snd (Initialize_circ 8 sample_circ),
      g_receive_buffer = snd (Initialize_circ 8 sample_circ), g_NeighborTable = sample_nt,
      seqNumber_Send = 0, seqNumber_SendTimeStamped = 0, csmaSendToRadioFailCount = 0,
      RadioLockUp = 0, trace = []\<rparr>"

definition clear_answers :: radio_answers where
  "clear_answers = \<lparr>cca_first = DS_Success, cca_second = DS_Success, radio_address = 7\<rparr>"

lemma clear_answers: "channel_clear clear_answers"
  by (simp add: channel_clear_def clear_answers_def)

lemma sample_csma_simps [simp]:
  "MaxPayload sample_csma = 115" "\<not> RadioAckPending sample_csma" "radioName sample_csma = 0"
  "flushTimerRunning sample_csma = False" "trace sample_csma = []"
  by (simp_all add: sample_csma_def)

lemma sample_csma_queues [simp]:
  "send_inv sample_csma" "send_queue sample_csma = []"
  "circ_inv Buffer_15_4_t_SIZE (g_receive_buffer sample_csma)"
  "circ_contents Buffer_15_4_t_SIZE (g_receive_buffer sample_csma) = []"
  using Initialize_circ_ok[of 8 sample_circ] by (simp_all add: sample_csma_def Buffer_15_4_t_SIZE_def)

lemma Send_queues_or_transmits_witness:
  "\<exists>m s'. Send clear_answers zero_message 3 0x40 [1, 2, 3] 3 sample_csma = Some (True, s')
    \<and> take 3 (payload m) = [1, 2, 3] \<and> sent_frames (trace s') = [m] \<and> send_queue s' = []"
proof -
  have "length (payload zero_message) = 100" by (simp add: zero_message_def payload_room)
  then show ?thesis
    using Send_queues_or_transmits[where s = sample_csma and Size = 3 and msg = "[1, 2, 3]"
        and r = clear_answers and carrier = zero_message and dst = 3 and dataType = "0x40"] clear_answers
    by auto
qed

text \<open>
  C1. Over any run of the MAC layer, with sends, timer and beacon interrupts, receptions and
  acknowledgements in any order, the frames given to the radio followed by the queued ones only
  ever grow at the end: no accepted frame is lost, sent twice or overtaken. (A busy
  acknowledgement queues its frame again, at the end.) The application may do to the MAC in its
  callbacks whatever keeps this, as the MAC's own operations do.
\<close>

theorem csma_transmits_in_order:
  assumes "send_inv s" and "app_keeps_order app" and "csma_run app ins s = Some s'"
  shows "\<exists>new. sent_frames (trace s') @ send_queue s' = sent_frames (trace s) @ send_queue s @ new
    \<and> send_inv s' \<and> length (send_queue s') \<le> 8"
proof -
  from csma_run_extends[OF assms(2,1,3)] have e: "extends s s'" .
  then have "send_inv s'" by (simp add: extends_def)
  from circ_bound[OF this] e show ?thesis by (auto simp: extends_def frames_def buffer_size)
qed

lemma csma_transmits_in_order_witness:
  "app_keeps_order (\<lambda>c s. SendFirstPacketToRadio clear_answers s)
   \<and> (\<exists>s1 s' new. csma_run (\<lambda>c s. SendFirstPacketToRadio clear_answers s)
        [InSend clear_answers zero_message 3 0x40 [1, 2, 3] 3, InTimer clear_answers] sample_csma = Some s'
      \<and> sent_frames (trace s') @ send_queue s' = sent_frames (trace sample_csma) @ send_queue sample_csma @ new)"
proof -
  let ?app = "\<lambda>c s. SendFirstPacketToRadio clear_answers s"
  have app: "app_keeps_order ?app" by (simp add: app_keeps_order_def SendFirst_extends)
  obtain ok s1 where "Send clear_answers zero_message 3 0x40 [1, 2, 3] 3 sample_csma
      = Some (ok, s1)"
    using Send_returns(1)[where Size = 3 and msg = "[1, 2, 3]"] by force
  then have "csma_run ?app [InSend clear_answers zero_message 3 0x40 [1, 2, 3] 3, InTimer clear_answers] sample_csma
      = Some (SendFirstPacketToRadio clear_answers s1)" by simp
  with app csma_transmits_in_order[OF sample_csma_queues(1) app this] show ?thesis by auto
qed

section \<open>The bag exchange\<close>

text \<open>
  A list whose entry \<open>i\<close> is exchanged for a fresh element: the elements stay different and
  the pool of the list and the spare element is the same.
\<close>

lemma exchange_entry:
  assumes "distinct ps" and "i < length ps" and "x \<notin> set ps"
  shows "distinct (ps[i := x])" and "ps ! i \<notin> set (ps[i := x])"
    and "insert (ps ! i) (set (ps[i := x])) = insert x (set ps)"
proof -
  show "distinct (ps[i := x])" using assms by (auto intro: distinct_list_update)
  have s: "set (ps[i := x]) = insert x (set ps - {ps ! i})"
    using assms(1,2) by (rule set_update_distinct)
  have "ps ! i \<noteq> x" using assms(2,3) by auto
  then show "ps ! i \<notin> set (ps[i := x])" unfolding s by simp
  have "ps ! i \<in> set ps" using assms(2) by simp
  then have "insert (ps ! i) (insert x (set ps - {ps ! i})) = insert x (set ps)" by blast
  then show "insert (ps ! i) (set (ps[i := x])) = insert x (set ps)" by (simp only: s)
qed

lemma exchange_ring:
  assumes ring: "ring_inv sz b" and room: "unat (numElements b) < unat sz"
  shows "\<exists>i b1. GetNextFreeBufferPtr sz b = (Some i, b1) \<and> msgPtr b1 = msgPtr b \<and> i < length (msgPtr b)
    \<and> msg_store b1 = msg_store b \<and> numElements b1 = numElements b + 1
    \<and> ring_inv sz (b1\<lparr>msgPtr := (msgPtr b)[i := msg]\<rparr>)
    \<and> circ_ptrs sz (b1\<lparr>msgPtr := (msgPtr b)[i := msg]\<rparr>) = circ_ptrs sz b @ [msg]"
proof -
  let ?i = "unat (nextCleanBuffer b)"
  let ?b1 = "b\<lparr>nextCleanBuffer := wrap_inc sz (nextCleanBuffer b), numElements := numElements b + 1\<rparr>"
  let ?b2 = "?b1\<lparr>msgPtr := (msgPtr b)[?i := msg]\<rparr>"
  from ring have i: "?i < length (msgPtr b)" "?i = ring_pos sz b (unat (numElements b))"
    by (simp_all add: ring_inv_def)
  have "ring_inv sz ?b1" using ring_inv_take_free[OF ring room] .
  then have ring2: "ring_inv sz ?b2" by (simp add: ring_inv_def ring_pos_def)
  have old: "(msgPtr b)[?i := msg] ! ring_pos sz b k = msgPtr b ! ring_pos sz b k"
    if "k < unat (numElements b)" for k
  proof -
    have "ring_pos sz b k \<noteq> ?i"
      using ring_offset_neq[of k "unat sz" "unat (numElements b)"] that room i(2) by (simp add: ring_pos_def)
    then show ?thesis by (metis nth_list_update_neq)
  qed
  have new: "(msgPtr b)[?i := msg] ! ring_pos sz b (unat (numElements b)) = msg"
    using i by simp
  have "circ_ptrs sz ?b2 = map (\<lambda>k. (msgPtr b)[?i := msg] ! ring_pos sz b k) [0..<Suc (unat (numElements b))]"
    using unat_num_inc[OF room] by (simp add: circ_ptrs_def ring_pos_def del: upt_Suc)
  also have "\<dots> = circ_ptrs sz b @ [msg]"
    using old new by (simp add: circ_ptrs_def)
  finally have "circ_ptrs sz ?b2 = circ_ptrs sz b @ [msg]" .
  moreover have "GetNextFreeBufferPtr sz b = (Some ?i, ?b1)"
    using room by (simp add: GetNextFreeBufferPtr_def IsFull_iff)
  ultimately show ?thesis using i ring2 by (intro exI[of _ ?i] exI[of _ ?b1]) simp
qed

lemma exchange_room:
  assumes inv: "circ_inv sz b" and room: "unat (numElements b) < unat sz" and fresh: "msg \<notin> set (msgPtr b)"
  shows "\<exists>i b1. GetNextFreeBufferPtr sz b = (Some i, b1) \<and> msgPtr b1 = msgPtr b \<and> i < length (msgPtr b)
    \<and> circ_inv sz (b1\<lparr>msgPtr := (msgPtr b)[i := msg]\<rparr>) \<and> msg_store b1 = msg_store b
    \<and> circ_contents sz (b1\<lparr>msgPtr := (msgPtr b)[i := msg]\<rparr>) = circ_contents sz b @ [msg_store b msg]"
proof -
  have ring: "ring_inv sz b" and dist: "distinct (msgPtr b)" using inv by (simp_all add: circ_inv_def)
  from exchange_ring[OF ring room, of msg] obtain i b1 where
    e: "GetNextFreeBufferPtr sz b = (Some i, b1)" "msgPtr b1 = msgPtr b" "i < length (msgPtr b)"
      "msg_store b1 = msg_store b" "ring_inv sz (b1\<lparr>msgPtr := (msgPtr b)[i := msg]\<rparr>)"
      "circ_ptrs sz (b1\<lparr>msgPtr := (msgPtr b)[i := msg]\<rparr>) = circ_ptrs sz b @ [msg]" by blast
  with exchange_entry(1)[OF dist e(3) fresh] show ?thesis
    by (intro exI[of _ i] exI[of _ b1]) (simp add: circ_inv_def circ_contents_def)
qed

lemma GetOldest_keeps_ptrs: "msgPtr (snd (GetOldest sz b)) = msgPtr b"
  by (simp add: GetOldest_def GetFirstFullBuffer_def)

lemma bag_exchange_ok:
  assumes inv: "circ_inv Buffer_15_4_t_SIZE b" and fresh: "msg \<notin> set (msgPtr b)"
  shows "\<exists>i t b1. bag_exchange msg b = Some (i, t, b1) \<and> circ_inv Buffer_15_4_t_SIZE b1
    \<and> t \<notin> set (msgPtr b1) \<and> insert t (set (msgPtr b1)) = insert msg (set (msgPtr b))
    \<and> circ_contents Buffer_15_4_t_SIZE b1
      = (if length (circ_contents Buffer_15_4_t_SIZE b) = 8 then tl (circ_contents Buffer_15_4_t_SIZE b)
         else circ_contents Buffer_15_4_t_SIZE b) @ [msg_store b msg]"
proof -
  let ?sz = Buffer_15_4_t_SIZE
  define c where "c = (if length (circ_contents ?sz b) = 8 then DropOldest ?sz 1 b else b)"
  have full: "IsFull ?sz b \<longleftrightarrow> length (circ_contents ?sz b) = 8"
    using buffer_size by (simp add: IsFull_iff)
  have c: "circ_inv ?sz c \<and> msgPtr c = msgPtr b \<and> msg_store c = msg_store b \<and> unat (numElements c) < unat ?sz
    \<and> circ_contents ?sz c = (if length (circ_contents ?sz b) = 8 then tl (circ_contents ?sz b) else circ_contents ?sz b)"
  proof (cases "length (circ_contents ?sz b) = 8")
    case True
    then have "unat (numElements b) \<noteq> 0" by simp
    from GetOldest_nonempty[OF inv this] obtain p b' where
      g: "GetOldest ?sz b = (Some p, b')" "circ_inv ?sz b'" "msg_store b' = msg_store b"
        "circ_contents ?sz b = msg_store b p # circ_contents ?sz b'" by blast
    have "c = b'" using True g(1) by (simp add: c_def DropOldest_def)
    moreover have "msgPtr b' = msgPtr b" using g(1) GetOldest_keeps_ptrs[of ?sz b] by simp
    moreover have "length (circ_contents ?sz b') < 8"
      using True g(4) by (simp del: length_circ_contents)
    then have "unat (numElements b') < unat ?sz" using buffer_size by simp
    ultimately show ?thesis using True g by simp
  next
    case False
    with circ_bound[OF inv] buffer_size inv show ?thesis by (simp add: c_def)
  qed
  from c exchange_room[of ?sz c msg] fresh obtain i b1 where
    e: "GetNextFreeBufferPtr ?sz c = (Some i, b1)" "msgPtr b1 = msgPtr b" "i < length (msgPtr b)"
      "circ_inv ?sz (b1\<lparr>msgPtr := (msgPtr b)[i := msg]\<rparr>)" "msg_store b1 = msg_store b"
      "circ_contents ?sz (b1\<lparr>msgPtr := (msgPtr b)[i := msg]\<rparr>) = circ_contents ?sz c @ [msg_store b msg]"
    by auto
  have "bag_exchange msg b = Some (i, msgPtr b ! i, b1\<lparr>msgPtr := (msgPtr b)[i := msg]\<rparr>)"
  proof (cases "length (circ_contents ?sz b) = 8")
    case True
    with full have "GetNextFreeBufferPtr ?sz b = (None, b)" by (simp add: GetNextFreeBufferPtr_def)
    with True e show ?thesis by (simp add: bag_exchange_def c_def)
  next
    case False
    with e show ?thesis by (simp add: bag_exchange_def c_def)
  qed
  moreover have "distinct (msgPtr b)" using inv by (simp add: circ_inv_def)
  note X = exchange_entry[OF this e(3) fresh]
  ultimately show ?thesis using e c X by auto
qed

text \<open>
  A reception as the radio does it: it writes the message into its spare bag, hands the bag
  to the MAC and keeps the address it gets back as the next bag.
\<close>

record reception =
  rx_message :: message
  rx_time :: u64
  rx_own_address :: u16
  rx_size :: u16

definition put_message :: "msg_addr \<Rightarrow> message \<Rightarrow> csma \<Rightarrow> csma" where
  "put_message p m s = s\<lparr>g_receive_buffer := (g_receive_buffer s)\<lparr>msg_store :=
     (msg_store (g_receive_buffer s))(p := m)\<rparr>\<rparr>"

definition deliver :: "app_callback \<Rightarrow> msg_addr \<Rightarrow> reception \<Rightarrow> csma \<Rightarrow> (msg_addr \<times> csma) option" where
  "deliver app bag x s =
     csmaReceiveHandler app (rx_time x) (rx_own_address x) bag (rx_size x) (put_message bag (rx_message x) s)"

fun deliver_all ::
  "app_callback \<Rightarrow> msg_addr \<Rightarrow> reception list \<Rightarrow> csma \<Rightarrow> (msg_addr \<times> csma) option"
where
  "deliver_all app bag [] s = Some (bag, s)"
| "deliver_all app bag (x # xs) s =
     Option.bind (deliver app bag x s) (\<lambda>(bag', s'). deliver_all app bag' xs s')"

text \<open>Which receptions are data for this node, and what the queue holds of them.\<close>

definition for_this_node :: "reception \<Rightarrow> bool" where
  "for_this_node x \<longleftrightarrow> sizeof_header \<le> unat (rx_size x) \<and> unat (rx_size x) \<le> 115 + sizeof_header
     \<and> msg_type (rx_message x) \<noteq> payload_code MFM_CSMA_DISCOVERY
     \<and> (msg_dest (rx_message x) = 0 \<or> msg_dest (rx_message x) = MAC_BROADCAST_ADDRESS
        \<or> msg_dest (rx_message x) = rx_own_address x)"

definition stored_form :: "message \<Rightarrow> message" where
  "stored_form m =
     (if flags (header m) = TIMESTAMPED_FLAG
      then m\<lparr>header := (header m)\<lparr>hdr_length := hdr_length (header m) - TIMESTAMP_SIZE\<rparr>\<rparr> else m)"

abbreviation receive_queue :: "csma \<Rightarrow> message list" where
  "receive_queue s \<equiv> circ_contents Buffer_15_4_t_SIZE (g_receive_buffer s)"

text \<open>The state of the exchange: the radio's bag is not one of the eight of the queue.\<close>

definition bag_inv :: "msg_addr \<Rightarrow> csma \<Rightarrow> bool" where
  "bag_inv bag s \<longleftrightarrow> circ_inv Buffer_15_4_t_SIZE (g_receive_buffer s) \<and> MaxPayload s = 115
     \<and> bag \<notin> set (msgPtr (g_receive_buffer s))"

definition pool :: "msg_addr \<Rightarrow> csma \<Rightarrow> msg_addr set" where
  "pool bag s = insert bag (set (msgPtr (g_receive_buffer s)))"

text \<open>In its callbacks the application may take messages off the queue.\<close>

definition app_only_takes :: "app_callback \<Rightarrow> bool" where
  "app_only_takes app \<longleftrightarrow> (\<forall>c bag s. bag_inv bag s \<longrightarrow>
     bag_inv bag (app c s) \<and> pool bag (app c s) = pool bag s
     \<and> suffix (receive_queue (app c s)) (receive_queue s))"

lemma put_message_bag:
  assumes "bag_inv bag s"
  shows "bag_inv bag (put_message bag m s)" "pool bag (put_message bag m s) = pool bag s"
    "receive_queue (put_message bag m s) = receive_queue s"
    "msg_store (g_receive_buffer (put_message bag m s)) bag = m"
proof -
  let ?sz = Buffer_15_4_t_SIZE and ?b = "g_receive_buffer s"
  have "set (circ_ptrs ?sz ?b) \<subseteq> set (msgPtr ?b)"
    using assms ring_pos_less[of ?sz ?b] by (auto simp: bag_inv_def circ_inv_def ring_inv_def circ_ptrs_def)
  with assms have "bag \<notin> set (circ_ptrs ?sz ?b)" by (auto simp: bag_inv_def)
  then show "receive_queue (put_message bag m s) = receive_queue s"
    by (auto simp: put_message_def circ_contents_def)
qed (use assms in \<open>auto simp: bag_inv_def pool_def put_message_def\<close>)

lemma strip_put:
  "strip_time_stamp bag (put_message bag m s) = put_message bag (stored_form m) s"
  by (simp add: strip_time_stamp_def put_message_def stored_form_def Let_def)

lemma call_app_bag:
  assumes "app_only_takes app" and "bag_inv bag s"
  shows "bag_inv bag (call_app app c s) \<and> pool bag (call_app app c s) = pool bag s
    \<and> suffix (receive_queue (call_app app c s)) (receive_queue s)"
proof -
  have "bag_inv bag (emit [c] s)" "pool bag (emit [c] s) = pool bag s"
    using assms(2) by (simp_all add: bag_inv_def pool_def)
  moreover from assms(1) this(1) have "bag_inv bag (app c (emit [c] s))
    \<and> pool bag (app c (emit [c] s)) = pool bag (emit [c] s)
    \<and> suffix (receive_queue (app c (emit [c] s))) (receive_queue (emit [c] s))"
    unfolding app_only_takes_def by blast
  ultimately show ?thesis by (simp add: call_app_def)
qed

lemma bag_neighbors:
  "bag_inv bag (s\<lparr>g_NeighborTable := tb\<rparr>) = bag_inv bag s"
  "pool bag (s\<lparr>g_NeighborTable := tb\<rparr>) = pool bag s"
  by (simp_all add: bag_inv_def pool_def)

lemma receive_discovery_bag:
  assumes "app_only_takes app" and "bag_inv bag s" and "receive_discovery app now m s = Some s'"
  shows "bag_inv bag s' \<and> pool bag s' = pool bag s \<and> suffix (receive_queue s') (receive_queue s)"
proof -
  have cb: "bag_inv bag (call_app app c (s\<lparr>g_NeighborTable := tb\<rparr>))
    \<and> pool bag (call_app app c (s\<lparr>g_NeighborTable := tb\<rparr>)) = pool bag s
    \<and> suffix (receive_queue (call_app app c (s\<lparr>g_NeighborTable := tb\<rparr>))) (receive_queue s)" for c tb
    using call_app_bag[OF assms(1), of bag "s\<lparr>g_NeighborTable := tb\<rparr>" c] assms(2) by (simp add: bag_neighbors)
  obtain tb where "s' = s\<lparr>g_NeighborTable := tb\<rparr> \<or> (\<exists>c. s' = call_app app c (s\<lparr>g_NeighborTable := tb\<rparr>))"
    using assms(3)
    by (auto simp: receive_discovery_def Let_def bind_eq_Some_conv split: if_splits option.splits)
  with cb assms(2) show ?thesis by (auto simp: bag_neighbors)
qed

text \<open>Which way a reception goes, as a condition on its size, type and destination.\<close>

lemma ReceiveHandler_alt:
  assumes "MaxPayload s = 115"
  shows "csmaReceiveHandler app now address msg Size s =
    (if \<not> (sizeof_header \<le> unat Size \<and> unat Size \<le> 115 + sizeof_header) then Some (msg, s)
     else let s1 = strip_time_stamp msg s; m = msg_store (g_receive_buffer s1) msg in
       if msg_type m = payload_code MFM_CSMA_DISCOVERY
       then map_option (\<lambda>s2. (msg, s2)) (receive_discovery app now m s1)
       else if msg_dest m = 0 \<or> msg_dest m = MAC_BROADCAST_ADDRESS \<or> msg_dest m = address
       then accept_data app msg s1 else Some (msg, s1))"
proof -
  have "unat Size < 2 ^ LENGTH(16)" by (rule unsigned_less)
  then have "unat Size < 2 ^ 32" by simp
  then have u: "unat (word_of_int (uint Size) :: u32) = unat Size"
    by (simp add: unsigned_ucast_eq take_bit_nat_eq_self)
  have "(word_of_int (uint Size) :: u32) = word_of_nat sizeof_softwareACKHeader \<longleftrightarrow> unat Size = 5"
    using u by (auto simp: word_unat_eq_iff sizeof_softwareACKHeader_def)
  moreover have "(word_of_int (uint Size) :: u32) < word_of_nat sizeof_header \<longleftrightarrow> unat Size < sizeof_header"
    using u by (simp add: word_less_nat_alt message_sizes)
  moreover have "(word_of_int (uint Size) :: u32) > ucast (MaxPayload s) + word_of_nat sizeof_header
      \<longleftrightarrow> 115 + sizeof_header < unat Size"
    using u assms by (simp add: word_less_nat_alt message_sizes)
  ultimately show ?thesis
    by (auto simp: csmaReceiveHandler_def ReceiveHandler_def Let_def message_sizes)
qed

lemma accept_data_bag:
  assumes "app_only_takes app" and inv: "bag_inv bag s" and "accept_data app bag s = Some (bag', s')"
  shows "bag_inv bag' s' \<and> pool bag' s' = pool bag s
    \<and> suffix (receive_queue s') (receive_queue s @ [msg_store (g_receive_buffer s) bag])"
proof -
  from inv have "circ_inv Buffer_15_4_t_SIZE (g_receive_buffer s)" "bag \<notin> set (msgPtr (g_receive_buffer s))"
    by (simp_all add: bag_inv_def)
  from bag_exchange_ok[OF this] obtain i t b1 where
    e: "bag_exchange bag (g_receive_buffer s) = Some (i, t, b1)" "circ_inv Buffer_15_4_t_SIZE b1"
      "t \<notin> set (msgPtr b1)" "insert t (set (msgPtr b1)) = insert bag (set (msgPtr (g_receive_buffer s)))"
      "circ_contents Buffer_15_4_t_SIZE b1 = (if length (receive_queue s) = 8 then tl (receive_queue s)
         else receive_queue s) @ [msg_store (g_receive_buffer s) bag]" by blast
  let ?s1 = "s\<lparr>g_receive_buffer := b1\<rparr>"
  have s1: "bag_inv t ?s1" "pool t ?s1 = pool bag s"
    using e inv by (simp_all add: bag_inv_def pool_def)
  have q1: "suffix (receive_queue ?s1) (receive_queue s @ [msg_store (g_receive_buffer s) bag])"
    using e(5) suffix_tl[of "receive_queue s"] by simp
  from accept_data_result[OF assms(3)] e(1) have "bag' = t"
    and s': "s' = ?s1 \<or> (\<exists>f a n. s' = call_app app (AppReceive f a n) ?s1)"
    by auto
  from call_app_bag[OF assms(1) s1(1)] s' s1 have "bag_inv t s' \<and> pool t s' = pool bag s
    \<and> suffix (receive_queue s') (receive_queue ?s1)"
    using suffix_order.refl[of "receive_queue ?s1"] by metis
  with q1 \<open>bag' = t\<close> suffix_order.trans show ?thesis by blast
qed

lemma deliver_bag:
  assumes "app_only_takes app" and inv: "bag_inv bag s" and "deliver app bag x s = Some (bag', s')"
  shows "bag_inv bag' s' \<and> pool bag' s' = pool bag s
    \<and> suffix (receive_queue s') (receive_queue s @ (if for_this_node x then [stored_form (rx_message x)] else []))"
proof -
  let ?s0 = "put_message bag (rx_message x) s" and ?m = "stored_form (rx_message x)"
  let ?s1 = "put_message bag ?m s"
  note p0 = put_message_bag[OF inv, of "rx_message x"] and p1 = put_message_bag[OF inv, of ?m]
  have same: "msg_type ?m = msg_type (rx_message x)" "msg_dest ?m = msg_dest (rx_message x)"
    by (simp_all add: stored_form_def)
  have max0: "MaxPayload ?s0 = 115" using p0(1) by (simp add: bag_inv_def)
  note R = ReceiveHandler_alt[OF max0, of app "rx_time x" "rx_own_address x" bag "rx_size x"]
  show ?thesis
  proof (cases "sizeof_header \<le> unat (rx_size x) \<and> unat (rx_size x) \<le> 115 + sizeof_header")
    case False
    then have "\<not> for_this_node x" and "(bag', s') = (bag, ?s0)"
      using assms(3) R by (auto simp: deliver_def for_this_node_def)
    with p0 show ?thesis by simp
  next
    case size: True
    show ?thesis
    proof (cases "msg_type ?m = payload_code MFM_CSMA_DISCOVERY")
      case True
      then have "\<not> for_this_node x" "bag' = bag"
        and "receive_discovery app (rx_time x) ?m ?s1 = Some s'"
        using assms(3) R size same p1(4) by (auto simp: deliver_def for_this_node_def strip_put Let_def)
      with receive_discovery_bag[OF assms(1) p1(1)] p1 show ?thesis by simp
    next
      case data: False
      show ?thesis
      proof (cases "for_this_node x")
        case True
        then have "accept_data app bag ?s1 = Some (bag', s')"
          using assms(3) R size data same p1(4) by (auto simp: deliver_def for_this_node_def strip_put Let_def)
        with accept_data_bag[OF assms(1) p1(1) this] p1 True show ?thesis by simp
      next
        case False
        then have "(bag', s') = (bag, ?s1)"
          using assms(3) R size data same p1(4) by (auto simp: deliver_def for_this_node_def strip_put Let_def)
        with p1 False show ?thesis by simp
      qed
    qed
  qed
qed

lemma deliver_all_bag:
  assumes "app_only_takes app"
  shows "bag_inv bag s \<Longrightarrow> deliver_all app bag xs s = Some (bag', s') \<Longrightarrow>
    bag_inv bag' s' \<and> pool bag' s' = pool bag s
    \<and> suffix (receive_queue s') (receive_queue s @ map (\<lambda>x. stored_form (rx_message x)) (filter for_this_node xs))"
proof (induction xs arbitrary: bag s)
  case Nil
  then show ?case by simp
next
  case (Cons x xs)
  let ?z = "if for_this_node x then [stored_form (rx_message x)] else []"
  let ?zs = "map (\<lambda>x. stored_form (rx_message x)) (filter for_this_node xs)"
  obtain bag1 s1 where d: "deliver app bag x s = Some (bag1, s1)" "deliver_all app bag1 xs s1 = Some (bag', s')"
    using Cons.prems(2) by (auto simp: bind_eq_Some_conv)
  note D = deliver_bag[OF assms Cons.prems(1) d(1)]
  with Cons.IH[OF _ d(2)] have I: "bag_inv bag' s'" "pool bag' s' = pool bag s"
    "suffix (receive_queue s') (receive_queue s1 @ ?zs)" by (simp_all only:)
  from D have "suffix (receive_queue s1 @ ?zs) ((receive_queue s @ ?z) @ ?zs)" by (simp only: same_suffix_suffix)
  from suffix_order.trans[OF I(3) this] have "suffix (receive_queue s') (receive_queue s @ ?z @ ?zs)"
    by (simp only: append_assoc)
  with I(1,2) show ?case by (simp split: if_splits)
qed

text \<open>
  C3. The receive side keeps a pool of nine messages, eight of the queue and one of the radio.
  Over any sequence of receptions in which the radio goes on with the bag it gets back, the nine
  addresses stay different and are the same nine: no message is in two hands. The queue holds
  the newest data messages for this node, in the order of reception, and the older queued ones
  before them; discovery messages and messages for others never enter it.
\<close>

theorem received_bags_stay_distinct:
  assumes "bag_inv bag s" and "app_only_takes app" and "deliver_all app bag xs s = Some (bag', s')"
  shows "distinct (bag' # msgPtr (g_receive_buffer s')) \<and> length (msgPtr (g_receive_buffer s')) = 8
    \<and> set (bag' # msgPtr (g_receive_buffer s')) = set (bag # msgPtr (g_receive_buffer s))
    \<and> suffix (receive_queue s')
        (receive_queue s @ map (\<lambda>x. stored_form (rx_message x)) (filter for_this_node xs))"
proof -
  from deliver_all_bag[OF assms(2,1,3)] have d: "bag_inv bag' s'" "pool bag' s' = pool bag s"
    "suffix (receive_queue s') (receive_queue s @ map (\<lambda>x. stored_form (rx_message x)) (filter for_this_node xs))"
    by blast+
  from d(1) have "distinct (bag' # msgPtr (g_receive_buffer s'))" "length (msgPtr (g_receive_buffer s')) = 8"
    by (auto simp: bag_inv_def circ_inv_def ring_inv_def buffer_size)
  with d(2,3) show ?thesis by (simp add: pool_def)
qed

text \<open>An application that takes the oldest message in each of its callbacks.\<close>

definition taking_app :: app_callback where
  "taking_app c s = s\<lparr>g_receive_buffer := snd (GetOldest Buffer_15_4_t_SIZE (g_receive_buffer s))\<rparr>"

lemma taking_app_ok: "app_only_takes taking_app"
  unfolding app_only_takes_def
proof (intro allI impI)
  fix c bag s assume inv: "bag_inv bag s"
  then have circ: "circ_inv Buffer_15_4_t_SIZE (g_receive_buffer s)" by (simp add: bag_inv_def)
  show "bag_inv bag (taking_app c s) \<and> pool bag (taking_app c s) = pool bag s
    \<and> suffix (receive_queue (taking_app c s)) (receive_queue s)"
  proof (cases "unat (numElements (g_receive_buffer s)) = 0")
    case True
    with inv show ?thesis by (simp add: taking_app_def GetOldest_empty)
  next
    case False
    from GetOldest_nonempty[OF circ False] obtain p b' where
      g: "GetOldest Buffer_15_4_t_SIZE (g_receive_buffer s) = (Some p, b')" "circ_inv Buffer_15_4_t_SIZE b'"
        "receive_queue s = msg_store (g_receive_buffer s) p # circ_contents Buffer_15_4_t_SIZE b'" by blast
    moreover have "msgPtr b' = msgPtr (g_receive_buffer s)"
      using GetOldest_keeps_ptrs[of Buffer_15_4_t_SIZE "g_receive_buffer s"] g(1) by simp
    ultimately show ?thesis using inv by (simp add: taking_app_def bag_inv_def pool_def suffix_ConsI)
  qed
qed

definition sample_rx :: "u8 \<Rightarrow> reception" where
  "sample_rx n = \<lparr>rx_message = sample_msg n, rx_time = 1, rx_own_address = 7, rx_size = 20\<rparr>"

lemma sample_bag: "bag_inv (ForeignMsg 0) sample_csma"
  using sample_csma_queues by (auto simp: bag_inv_def sample_csma_def Initialize_circ_def)

lemma sample_rx_simps:
  "rx_message (sample_rx n) = sample_msg n" "n \<noteq> 0x24 \<Longrightarrow> for_this_node (sample_rx n)"
  "stored_form (sample_msg n) = sample_msg n"
  by (simp_all add: sample_rx_def for_this_node_def message_sizes sample_msg_def zero_header_def
      stored_form_def TIMESTAMPED_FLAG_def)

lemma deliver_data:
  assumes "MaxPayload s = 115" and "for_this_node x"
  shows "deliver app bag x s = accept_data app bag (put_message bag (stored_form (rx_message x)) s)"
proof -
  have "MaxPayload (put_message bag (rx_message x) s) = 115" using assms(1) by (simp add: put_message_def)
  moreover have "msg_store (g_receive_buffer (put_message bag m s)) bag = m" for m
    by (simp add: put_message_def)
  moreover have "msg_type (stored_form m) = msg_type m" "msg_dest (stored_form m) = msg_dest m" for m
    by (simp_all add: stored_form_def)
  ultimately show ?thesis using assms(2)
    by (simp add: deliver_def ReceiveHandler_alt strip_put Let_def for_this_node_def)
qed

lemma active_handler_receive [simp]:
  "active_handler (s\<lparr>g_receive_buffer := b\<rparr>) = active_handler s"
  by (simp add: active_handler_def GetAppHandler_def)

lemma accept_data_total:
  assumes "active_handler s = Some h" and "bag_exchange msg (g_receive_buffer s) = Some (i, t, b1)"
  shows "\<exists>s'. accept_data app msg s = Some (t, s')"
proof -
  from assms show ?thesis by (cases "ReceiveHandler_fn h") (auto simp: accept_data_def)
qed

lemma sample_handler: "\<exists>h. active_handler (put_message bag m sample_csma) = Some h"
  by (simp add: active_handler_def GetAppHandler_def put_message_def sample_csma_def MAX_APPS_def)

lemma received_bags_stay_distinct_witness:
  "\<exists>bag s'. deliver_all taking_app (ForeignMsg 0) [sample_rx 1] sample_csma = Some (bag, s')
    \<and> distinct (bag # msgPtr (g_receive_buffer s'))"
proof -
  let ?s = "put_message (ForeignMsg 0) (stored_form (rx_message (sample_rx 1))) sample_csma"
  have "bag_inv (ForeignMsg 0) ?s" using put_message_bag(1)[OF sample_bag] .
  then have "circ_inv Buffer_15_4_t_SIZE (g_receive_buffer ?s)" "ForeignMsg 0 \<notin> set (msgPtr (g_receive_buffer ?s))"
    by (simp_all add: bag_inv_def)
  from bag_exchange_ok[OF this] obtain i t b1 where "bag_exchange (ForeignMsg 0) (g_receive_buffer ?s) = Some (i, t, b1)"
    by blast
  moreover obtain h where "active_handler ?s = Some h" using sample_handler by blast
  ultimately obtain s' where "accept_data taking_app (ForeignMsg 0) ?s = Some (t, s')"
    using accept_data_total by blast
  moreover have "MaxPayload sample_csma = 115" "for_this_node (sample_rx 1)" by (simp_all add: sample_rx_simps)
  note deliver_data[OF this, of taking_app "ForeignMsg 0"]
  ultimately have "deliver_all taking_app (ForeignMsg 0) [sample_rx 1] sample_csma = Some (t, s')" by simp
  with received_bags_stay_distinct[OF sample_bag taking_app_ok this] show ?thesis by blast
qed

lemma bag_exchange_room:
  assumes "ring_inv Buffer_15_4_t_SIZE b" and "unat (numElements b) < 8"
  shows "\<exists>i t b1. bag_exchange msg b = Some (i, t, b1) \<and> ring_inv Buffer_15_4_t_SIZE b1
    \<and> circ_ptrs Buffer_15_4_t_SIZE b1 = circ_ptrs Buffer_15_4_t_SIZE b @ [msg]
    \<and> msg_store b1 = msg_store b \<and> numElements b1 = numElements b + 1"
proof -
  from exchange_ring[OF assms(1), of msg] assms(2) buffer_size obtain i b1 where
    e: "GetNextFreeBufferPtr Buffer_15_4_t_SIZE b = (Some i, b1)" "msgPtr b1 = msgPtr b"
      "msg_store b1 = msg_store b" "numElements b1 = numElements b + 1"
      "ring_inv Buffer_15_4_t_SIZE (b1\<lparr>msgPtr := (msgPtr b)[i := msg]\<rparr>)"
      "circ_ptrs Buffer_15_4_t_SIZE (b1\<lparr>msgPtr := (msgPtr b)[i := msg]\<rparr>) = circ_ptrs Buffer_15_4_t_SIZE b @ [msg]"
    by auto
  then show ?thesis
    by (intro exI[of _ i] exI[of _ "msgPtr b ! i"] exI[of _ "b1\<lparr>msgPtr := (msgPtr b)[i := msg]\<rparr>"])
      (simp add: bag_exchange_def)
qed

text \<open>An application that leaves the MAC alone.\<close>

definition idle_app :: app_callback where "idle_app c s = s"

lemma accept_data_idle:
  assumes "accept_data idle_app msg s = Some (t, s')" and "ring_inv Buffer_15_4_t_SIZE (g_receive_buffer s)"
    and "unat (numElements (g_receive_buffer s)) < 8"
  shows "ring_inv Buffer_15_4_t_SIZE (g_receive_buffer s') \<and> MaxPayload s' = MaxPayload s
    \<and> circ_ptrs Buffer_15_4_t_SIZE (g_receive_buffer s') = circ_ptrs Buffer_15_4_t_SIZE (g_receive_buffer s) @ [msg]
    \<and> msg_store (g_receive_buffer s') = msg_store (g_receive_buffer s)
    \<and> numElements (g_receive_buffer s') = numElements (g_receive_buffer s) + 1"
proof -
  obtain i b1 where b1: "bag_exchange msg (g_receive_buffer s) = Some (i, t, b1)"
    and "s' = s\<lparr>g_receive_buffer := b1\<rparr>
      \<or> (\<exists>f a n. s' = call_app idle_app (AppReceive f a n) (s\<lparr>g_receive_buffer := b1\<rparr>))"
    by (rule accept_data_result[OF assms(1)])
  then have "g_receive_buffer s' = b1 \<and> MaxPayload s' = MaxPayload s"
    by (auto simp: call_app_def idle_app_def)
  with b1 bag_exchange_room[OF assms(2,3), of msg] show ?thesis by auto
qed

text \<open>
  A radio driver that ignores the address ReceiveHandler returns, and receives the next
  message into the bag it has just given away, corrupts the queue: after two data messages the
  queue holds the second one twice and the first one is lost.
\<close>

theorem ignored_bag_is_queued_twice:
  assumes "bag_inv bag s" and "length (receive_queue s) \<le> 6"
    and "for_this_node x" and "for_this_node y"
    and "deliver idle_app bag x s = Some (t, s1)" and "deliver idle_app bag y s1 = Some (u, s2)"
  shows "receive_queue s2 = receive_queue s @ [stored_form (rx_message y), stored_form (rx_message y)]"
proof -
  let ?sz = Buffer_15_4_t_SIZE
  let ?p = "put_message bag (stored_form (rx_message x)) s"
  let ?q = "put_message bag (stored_form (rx_message y)) s1"
  note P = put_message_bag[OF assms(1), of "stored_form (rx_message x)"]
  have num: "unat (numElements (g_receive_buffer s)) \<le> 6" using assms(2) by simp
  have ptrs: "circ_ptrs ?sz (g_receive_buffer (put_message bag m v)) = circ_ptrs ?sz (g_receive_buffer v)"
    "numElements (g_receive_buffer (put_message bag m v)) = numElements (g_receive_buffer v)"
    "ring_inv ?sz (g_receive_buffer (put_message bag m v)) = ring_inv ?sz (g_receive_buffer v)" for m v
    by (simp_all add: put_message_def)
  have ring: "ring_inv ?sz (g_receive_buffer s)" and max: "MaxPayload s = 115"
    using assms(1) by (simp_all add: bag_inv_def circ_inv_def)
  have "accept_data idle_app bag ?p = Some (t, s1)" using deliver_data[OF max assms(3)] assms(5) by simp
  from accept_data_idle[OF this] ring num ptrs have
    A: "ring_inv ?sz (g_receive_buffer s1)" "MaxPayload s1 = MaxPayload ?p"
      "circ_ptrs ?sz (g_receive_buffer s1) = circ_ptrs ?sz (g_receive_buffer s) @ [bag]"
      "msg_store (g_receive_buffer s1) = msg_store (g_receive_buffer ?p)"
      "numElements (g_receive_buffer s1) = numElements (g_receive_buffer s) + 1" by auto
  have max1: "MaxPayload s1 = 115" using A(2) max by (simp add: put_message_def)
  have num1: "unat (numElements (g_receive_buffer s1)) < 8"
    using A(5) num unat_num_inc[of "g_receive_buffer s" ?sz] buffer_size by simp
  have "accept_data idle_app bag ?q = Some (u, s2)" using deliver_data[OF max1 assms(4)] assms(6) by simp
  from accept_data_idle[OF this] A(1) num1 ptrs have
    B: "circ_ptrs ?sz (g_receive_buffer s2) = circ_ptrs ?sz (g_receive_buffer s) @ [bag, bag]"
      "msg_store (g_receive_buffer s2) = msg_store (g_receive_buffer ?q)" using A(3) by auto
  have "set (circ_ptrs ?sz (g_receive_buffer s)) \<subseteq> set (msgPtr (g_receive_buffer s))"
    using ring ring_pos_less[of ?sz "g_receive_buffer s"] by (auto simp: ring_inv_def circ_ptrs_def)
  then have "bag \<notin> set (circ_ptrs ?sz (g_receive_buffer s))" using assms(1) by (auto simp: bag_inv_def)
  with B A(4) show ?thesis by (auto simp: circ_contents_def put_message_def)
qed

lemma accept_data_idle_total:
  assumes "active_handler s = Some h" and "ring_inv Buffer_15_4_t_SIZE (g_receive_buffer s)"
    and "unat (numElements (g_receive_buffer s)) < 8"
  shows "\<exists>t s'. accept_data idle_app msg s = Some (t, s') \<and> active_handler s' = Some h"
proof -
  from bag_exchange_room[OF assms(2,3), of msg] obtain i t b1 where
    b: "bag_exchange msg (g_receive_buffer s) = Some (i, t, b1)" by blast
  with assms(1) show ?thesis
    by (cases "ReceiveHandler_fn h") (simp_all add: accept_data_def call_app_def idle_app_def)
qed

lemma put_message_frame:
  "active_handler (put_message p m s) = active_handler s"
  "ring_inv sz (g_receive_buffer (put_message p m s)) = ring_inv sz (g_receive_buffer s)"
  "numElements (g_receive_buffer (put_message p m s)) = numElements (g_receive_buffer s)"
  "MaxPayload (put_message p m s) = MaxPayload s"
  by (simp_all add: put_message_def active_handler_def GetAppHandler_def)

section \<open>The flush timer\<close>

text \<open>Inputs of the sending side: sends and timers, without receptions and acknowledgements.\<close>

fun sending_input :: "csma_input \<Rightarrow> bool" where
  "sending_input (InReceive now address msg Size) = False"
| "sending_input (InSendAck p sent Size status ack) = False"
| "sending_input i = True"

abbreviation flush_starts :: "csma \<Rightarrow> csma_call list" where
  "flush_starts s \<equiv> filter (\<lambda>c. c = TimerStart VIRT_TIMER_MAC_FLUSHBUFFER) (trace s)"

definition flush_stuck :: "csma_call list \<Rightarrow> csma \<Rightarrow> bool" where
  "flush_stuck cs s \<longleftrightarrow> send_inv s \<and> flushTimerRunning s \<and> flush_starts s = cs"

lemma flush_stuck_cong:
  "flush_stuck cs s \<Longrightarrow> g_send_buffer s' = g_send_buffer s \<Longrightarrow> flushTimerRunning s' = flushTimerRunning s
   \<Longrightarrow> trace s' = trace s \<Longrightarrow> flush_stuck cs s'"
  by (simp add: flush_stuck_def)

lemma SendFirst_stuck:
  assumes "flush_stuck cs s"
  shows "flush_stuck cs (SendFirstPacketToRadio r s)"
proof (cases "send_queue s")
  case Nil
  with assms show ?thesis by (simp add: SendFirst_empty flush_stuck_def)
next
  case (Cons m q)
  from assms have inv: "send_inv s" and run: "flushTimerRunning s" by (simp_all add: flush_stuck_def)
  have upd: "update_flush_timer s = s"
    using Cons run by (simp add: update_flush_timer_def queue_count(2)[of _ Buffer_15_4_t_SIZE])
  have none: "filter (\<lambda>c. c = TimerStart VIRT_TIMER_MAC_FLUSHBUFFER) cs = []"
    if "\<forall>t. TimerStart t \<notin> set cs" for cs
    using that by (auto simp: filter_empty_conv)
  note C = SendToRadio_cases[OF inv Cons, where r = r]
  show ?thesis
  proof (cases "RadioAckPending s")
    case True
    with C(1,2) upd assms show ?thesis by simp
  next
    case False
    with C upd assms none show ?thesis
      by (cases "channel_clear r") (auto simp: flush_stuck_def timer_ids radio_call_def)
  qed
qed

lemma send_frame_stuck:
  assumes "flush_stuck cs s"
  shows "flush_stuck cs (snd (send_frame m n s r))"
proof -
  from assms have "send_inv s" by (simp add: flush_stuck_def)
  then show ?thesis
  proof (cases rule: Store_cases[where m = m and n = n])
    case (stored b')
    with assms have "flush_stuck cs (s\<lparr>g_send_buffer := b'\<rparr>)" by (simp add: flush_stuck_def)
    with stored SendFirst_stuck show ?thesis by (simp add: send_frame_def)
  next
    case refused
    with assms show ?thesis by (simp add: send_frame_def)
  qed
qed

lemma Send_stuck:
  assumes "flush_stuck cs s"
  shows "Send r carrier dst dataType msg Size s = Some v \<Longrightarrow> flush_stuck cs (snd v)"
    and "SendTimeStamped r carrier dst dataType msg Size t s = Some v \<Longrightarrow> flush_stuck cs (snd v)"
  using assms
  by (auto simp: Send_alt SendTimeStamped_alt intro!: send_frame_stuck intro: flush_stuck_cong split: if_splits)

lemma csma_step_stuck:
  assumes "flush_stuck cs s" and "sending_input i" and "csma_step app i s = Some s'"
  shows "flush_stuck cs s'"
  using assms(2)
proof (cases i)
  case (InSend r carrier dst dataType msg Size)
  then show ?thesis using assms(3) Send_stuck(1)[OF assms(1)] by force
next
  case (InSendTimeStamped r carrier dst dataType msg Size t)
  then show ?thesis using assms(3) Send_stuck(2)[OF assms(1)] by force
next
  case (InTimer r)
  then show ?thesis using assms(3) SendFirst_stuck[OF assms(1)] by auto
next
  case (InBeacon r carrier)
  then show ?thesis using assms(3) Send_stuck(1)[OF assms(1)]
    by (force simp: beaconScheduler_def UpdateNeighborTable_def UpdateNeighborTable_liveness_def
        BringOutYourDead_def SendHello_def)
qed simp_all

lemma csma_run_stuck:
  "flush_stuck cs s \<Longrightarrow> \<forall>i\<in>set ins. sending_input i \<Longrightarrow> csma_run app ins s = Some s' \<Longrightarrow> flush_stuck cs s'"
proof (induction ins arbitrary: s)
  case (Cons i ins)
  then obtain s1 where "csma_step app i s = Some s1" "csma_run app ins s1 = Some s'"
    by (auto simp: bind_eq_Some_conv)
  with Cons csma_step_stuck[of cs s i app s1] show ?case by simp
qed simp

text \<open>
  When the flush timer fires with an empty queue, the handler stops the timer but leaves
  flushTimerRunning set. From then on no send, timer or beacon starts the flush timer again,
  however many frames wait: only an acknowledgement does. (The branch of SendToRadio that resets
  the flag needs an empty queue, with which SendToRadio is never called.)
\<close>

theorem flush_flag_outlives_timer:
  assumes "send_inv s" and "send_queue s = []" and "flushTimerRunning s"
    and "\<forall>i\<in>set ins. sending_input i"
    and "csma_run app (InTimer r # ins) s = Some s'"
  shows "trace (SendFirstPacketToRadio r s) = trace s @ [TimerStop VIRT_TIMER_MAC_FLUSHBUFFER]
    \<and> flushTimerRunning s' \<and> flush_starts s' = flush_starts s"
proof -
  have "flush_stuck (flush_starts s) s" using assms by (simp add: flush_stuck_def)
  from csma_run_stuck[OF this _ assms(5)] assms(4) have "flush_stuck (flush_starts s) s'" by simp
  with assms(2,3) show ?thesis by (simp add: flush_stuck_def SendFirst_empty)
qed

section \<open>Time stamped frames\<close>

abbreviation low_stamp :: "message \<Rightarrow> u32" where "low_stamp m \<equiv> ReceiveTimeStamp0 (metadata m)"

lemma low_stamp_radio: "ucast (msg_time m) = low_stamp m"
proof -
  let ?hi = "ucast (ReceiveTimeStamp1 (metadata m)) :: u64" and ?lo = "ucast (low_stamp m) :: u64"
  have "push_bit 32 ?hi + ?lo = push_bit 32 ?hi OR ?lo"
    by (rule disjunctive_add) (auto simp: bit_simps dest: bit_imp_le_length)
  then show ?thesis
    by (simp only: GetReceiveTimeStamp_def Let_def) (rule bit_word_eqI, auto simp: bit_simps)
qed

lemma bit_set_byte:
  "bit (set_byte k b w) n \<longleftrightarrow> (if 8 * k \<le> n \<and> n < 8 * k + 8 then n < LENGTH('w) \<and> bit b (n - 8 * k) else bit w n)"
  for w :: "'w::len word"
proof -
  have m: "(0xFF :: 'w word) = mask 8" by (simp add: mask_eq_exp_minus_1)
  show ?thesis unfolding set_byte_def m
    by (auto simp: bit_simps bit_mask_iff simp del: mask_numeral dest: bit_imp_le_length)
qed

text \<open>The 32-bit number that four bytes are, lowest byte first.\<close>

definition bytes32 :: "u8 \<Rightarrow> u8 \<Rightarrow> u8 \<Rightarrow> u8 \<Rightarrow> u32" where
  "bytes32 b0 b1 b2 b3 =
     ucast b0 OR (push_bit 8 (ucast b1) OR (push_bit 16 (ucast b2) OR push_bit 24 (ucast b3)))"

lemma four_bytes:
  "set_byte 3 b3 (set_byte 2 b2 (set_byte 1 b1 (set_byte 0 b0 w))) = bytes32 b0 b1 b2 b3"
  unfolding bytes32_def
  by (rule bit_word_eqI) (auto simp: bit_set_byte bit_simps dest: bit_imp_le_length)

lemma poke_payload_stamp:
  "poke_payload i b m = Some m' \<Longrightarrow>
   low_stamp m' = (if 105 \<le> i \<and> i < 109 then set_byte (i - 105) b (low_stamp m) else low_stamp m)"
  by (auto simp: poke_payload_def Let_def split: if_splits)

lemma poke_bytes_stamp_outside:
  "poke_bytes i bs m = Some m' \<Longrightarrow> i + length bs \<le> 105 \<or> 109 \<le> i \<Longrightarrow> low_stamp m' = low_stamp m"
proof (induction i bs m rule: poke_bytes.induct)
  case (2 i b bs m)
  then obtain m1 where "poke_payload i b m = Some m1" "poke_bytes (Suc i) bs m1 = Some m'"
    by (auto simp: bind_eq_Some_conv)
  moreover from this(1) 2(3) have "low_stamp m1 = low_stamp m"
    by (auto simp: poke_payload_stamp)
  ultimately show ?case using 2 by auto
qed simp

lemma poke_bytes_stamp_over:
  assumes "poke_bytes 105 [b0, b1, b2, b3] m = Some m'"
  shows "low_stamp m' = bytes32 b0 b1 b2 b3"
  using assms by (auto simp: bind_eq_Some_conv poke_payload_stamp four_bytes[unfolded One_nat_def]
      dest!: poke_payload_stamp)

lemma copy_stamp:
  assumes "copy_payload_bytes Size msg m = Some m'"
  shows "Size \<le> 105 \<Longrightarrow> low_stamp m' = low_stamp m"
    and "109 \<le> Size \<Longrightarrow> low_stamp m' = bytes32 (msg ! 105) (msg ! 106) (msg ! 107) (msg ! 108)"
proof -
  let ?bs = "take (nat Size) msg"
  have c: "poke_bytes 0 ?bs m = Some m'" "nat Size \<le> length msg"
    using assms by (auto simp: copy_payload_bytes_def split: if_splits)
  show "low_stamp m' = low_stamp m" if "Size \<le> 105"
    using poke_bytes_stamp_outside[OF c(1)] that by simp
  assume big: "109 \<le> Size"
  then have len: "109 \<le> length ?bs" using c(2) by simp
  have d: "drop k ?bs = msg ! k # drop (Suc k) ?bs" if "k < 109" for k
    using Cons_nth_drop_Suc[of k ?bs] that len by simp
  have "?bs = take 105 ?bs @ drop 105 ?bs" by (rule append_take_drop_id[symmetric])
  also have "drop 105 ?bs = [msg ! 105, msg ! 106, msg ! 107, msg ! 108] @ drop 109 ?bs"
    using d[of 105] d[of 106] d[of 107] d[of 108] by simp
  finally have split: "?bs = take 105 ?bs @ [msg ! 105, msg ! 106, msg ! 107, msg ! 108] @ drop 109 ?bs" .
  have l105: "length (take 105 ?bs) = 105" using len by simp
  have "poke_bytes 0 (take 105 ?bs @ [msg ! 105, msg ! 106, msg ! 107, msg ! 108] @ drop 109 ?bs) m = Some m'"
    using c(1) split by simp
  then obtain m1 m2 where
    "poke_bytes 105 [msg ! 105, msg ! 106, msg ! 107, msg ! 108] m1 = Some m2"
    "poke_bytes 109 (drop 109 ?bs) m2 = Some m'"
    unfolding poke_bytes_append bind_eq_Some_conv l105 by auto
  from poke_bytes_stamp_over[OF this(1)] poke_bytes_stamp_outside[OF this(2)]
  show "low_stamp m' = bytes32 (msg ! 105) (msg ! 106) (msg ! 107) (msg ! 108)" by simp
qed

text \<open>
  SendTimeStamped on an idle MAC with a clear channel gives the frame to the radio with the
  event time it was called with, as long as the payload has at most 105 bytes. The payload may
  have up to 115 bytes (MaxPayload), and from the 106th on they are copied over the time stamp:
  with 109 bytes or more the radio gets bytes 105 to 108 of the payload instead of the event time.
\<close>

theorem SendTimeStamped_time_stamp:
  assumes "send_inv s" and "send_queue s = []" and "\<not> RadioAckPending s" and "channel_clear r"
    and "MaxPayload s = 115" and "0 \<le> Size" and "Size \<le> 115" and "nat Size \<le> length msg"
  shows "\<exists>m s' stamp. SendTimeStamped r carrier dst dataType msg Size eventTime s = Some (True, s')
    \<and> header m = frame_header dst dataType TIMESTAMPED_FLAG (seqNumber_SendTimeStamped s) Size s
    \<and> last (trace s') = RadioSendTimeStamped (radioName s) m (hdr_length (header m)) stamp
    \<and> (Size \<le> 105 \<longrightarrow> stamp = eventTime)
    \<and> (109 \<le> Size \<longrightarrow> stamp = bytes32 (msg ! 105) (msg ! 106) (msg ! 107) (msg ! 108))"
proof -
  let ?h = "frame_header dst dataType TIMESTAMPED_FLAG (seqNumber_SendTimeStamped s) Size s"
  let ?c = "carrier\<lparr>header := ?h, metadata := SetReceiveTimeStamp_UINT32 eventTime ((metadata carrier)\<lparr>network := 0\<rparr>)\<rparr>"
  let ?s = "s\<lparr>seqNumber_SendTimeStamped := seqNumber_SendTimeStamped s + 1\<rparr>"
  from copy_total[OF assms(7,8), of ?c] obtain m where
    m: "copy_payload_bytes Size msg ?c = Some m" "header m = ?h" by auto
  have S: "SendTimeStamped r carrier dst dataType msg Size eventTime s = Some (send_frame m (hdr_length ?h) ?s r)"
    using assms(5,7) m by (simp add: SendTimeStamped_alt)
  have len: "unat (hdr_length ?h) \<le> GetMessageSize"
    using send_length[OF assms(6,7)] by (simp add: frame_header_def)
  have inv: "send_inv ?s" "length (send_queue ?s) < 8" using assms(1,2) by (simp_all del: length_circ_contents)
  from send_frame_cases(2)[OF inv(1) len inv(2), of m r] assms(2) obtain b' where
    b: "circ_inv Buffer_15_4_t_SIZE b'" "circ_contents Buffer_15_4_t_SIZE b' = [m]"
      "send_frame m (hdr_length ?h) ?s r = (True, SendToRadio r (?s\<lparr>g_send_buffer := b'\<rparr>))" by auto
  let ?t = "?s\<lparr>g_send_buffer := b'\<rparr>"
  have "send_inv ?t" "send_queue ?t = m # []" "\<not> RadioAckPending ?t" using b assms(3) by simp_all
  from SendToRadio_cases(3)[OF this assms(4)]
  have "last (trace (SendToRadio r ?t)) = radio_call (radioName s) m" by auto
  moreover have "flags ?h AND payload_code MFM_TIMESYNC \<noteq> 0"
    by (simp add: frame_header_def TIMESTAMPED_FLAG_def)
  moreover have "low_stamp ?c = eventTime" by (simp add: SetReceiveTimeStamp_UINT32_def)
  ultimately show ?thesis
    using S b(3) m copy_stamp[OF m(1)] low_stamp_radio[of m]
    by (intro exI[of _ m] exI[of _ "SendToRadio r ?t"] exI[of _ "low_stamp m"]) (simp add: radio_call_def)
qed

section \<open>Initialisation\<close>

definition answers_ok :: "init_answers \<Rightarrow> bool" where
  "answers_ok a \<longleftrightarrow> radio_initialize a = DS_Success \<and> radio_rx a = DS_Success
     \<and> set_sendpkt a \<and> set_beacon a \<and> set_flush a"

text \<open>The fields that the radio part of \<open>Initialize\<close> leaves alone.\<close>

lemma init_radio_frame:
  assumes "init_radio a s = (status, s')"
  shows "g_send_buffer s' = g_send_buffer s" "g_receive_buffer s' = g_receive_buffer s"
    "MaxPayload s' = MaxPayload s" "g_NeighborTable s' = g_NeighborTable s"
    "RadioAckPending s' = RadioAckPending s" "AppHandlers s' = AppHandlers s" "handler_at s' = handler_at s"
  using assms by (auto simp: init_radio_def Let_def emit_def SetMyAddress_def split: if_splits)

lemma init_radio_status:
  assumes "init_radio a s = (status, s')" and "\<not> Initialized s"
  shows "status = DS_Success \<longleftrightarrow> answers_ok a" "Initialized s' \<longleftrightarrow> answers_ok a"
    "answers_ok a \<Longrightarrow> MyAddress s' = init_address a \<and> \<not> flushTimerRunning s'
      \<and> TimerStart VIRT_TIMER_MAC_BEACON \<in> set (trace s')"
  using assms by (auto simp: init_radio_def Let_def emit_def SetMyAddress_def answers_ok_def split: if_splits)

lemma init_state_result:
  assumes "nt_inv (g_NeighborTable s)"
  shows "\<exists>s1. init_state eh name appid rad config s = Some s1 \<and> send_inv s1 \<and> send_queue s1 = []
    \<and> circ_inv Buffer_15_4_t_SIZE (g_receive_buffer s1) \<and> receive_queue s1 = []
    \<and> msgPtr (g_receive_buffer s1) = map OwnMsg [0..<8]
    \<and> MaxPayload s1 = 115 \<and> nt_inv (g_NeighborTable s1) \<and> NumberValidNeighbor (g_NeighborTable s1) = 0
    \<and> \<not> RadioAckPending s1 \<and> Initialized s1 = Initialized s \<and> handler_at s1 = handler_at s
    \<and> AppHandlers s1 = (if eh \<noteq> None \<and> appid < MAX_APPS then (AppHandlers s)[unat appid := eh] else AppHandlers s)"
proof -
  from ClearTable_total[OF assms] obtain tb where
    t: "ClearTable (g_NeighborTable s) = Some tb" "nt_inv tb" "NumberValidNeighbor tb = 0" by blast
  note I = Initialize_circ_ok[OF buffer_size(2)]
  have p: "msgPtr (snd (Initialize_circ Buffer_15_4_t_SIZE b)) = map OwnMsg [0..<8]" for b :: "message circ_buf"
    by (simp add: Initialize_circ_def buffer_size)
  show ?thesis
    using t I p by (auto simp: init_state_def Let_def SetConfig_def SetAppHandlers_def SetAppIdIndex_def
        SetMaxPayload_def message_sizes not_le)
qed

text \<open>
  Initialize on a MAC that is not running returns, and reports success exactly when the radio
  and the three timers accept: then the MAC is marked as running, has the radio's address, the
  beacon timer started and the flush timer off. In every case both queues are empty and well
  formed, no transmission is in flight, the neighbor table is cleared, payloads of up to 115
  bytes are allowed, and a bag of the radio that is not one of the queue's own messages can be
  exchanged.
\<close>

theorem Initialize_starts_clean:
  assumes "\<not> Initialized s" and "nt_inv (g_NeighborTable s)" and "appid < MAX_APPS"
    and "length (AppHandlers s) = 4" and "eh \<noteq> None"
  shows "\<exists>status s'. Initialize a eh name appid rad config s = Some (status, s')
    \<and> (status = DS_Success \<longleftrightarrow> answers_ok a) \<and> Initialized s' = answers_ok a
    \<and> send_inv s' \<and> send_queue s' = [] \<and> receive_queue s' = [] \<and> \<not> RadioAckPending s'
    \<and> nt_inv (g_NeighborTable s') \<and> NumberValidNeighbor (g_NeighborTable s') = 0
    \<and> bag_inv (ForeignMsg n) s'
    \<and> (answers_ok a \<longrightarrow> MyAddress s' = init_address a \<and> \<not> flushTimerRunning s'
        \<and> TimerStart VIRT_TIMER_MAC_BEACON \<in> set (trace s')
        \<and> active_handler s' = map_option (handler_at s) eh)"
proof -
  from init_state_result[OF assms(2), of eh name appid rad config] obtain s1 where
    s1: "init_state eh name appid rad config s = Some s1" "send_inv s1" "send_queue s1 = []"
      "circ_inv Buffer_15_4_t_SIZE (g_receive_buffer s1)" "receive_queue s1 = []"
      "msgPtr (g_receive_buffer s1) = map OwnMsg [0..<8]" "MaxPayload s1 = 115"
      "nt_inv (g_NeighborTable s1)" "NumberValidNeighbor (g_NeighborTable s1) = 0"
      "\<not> RadioAckPending s1" "Initialized s1 = Initialized s" "handler_at s1 = handler_at s"
      "AppHandlers s1 = (AppHandlers s)[unat appid := eh]" using assms(3,5) by auto
  obtain status s2 where r: "init_radio a s1 = (status, s2)" by (cases "init_radio a s1")
  note F = init_radio_frame[OF r] and S = init_radio_status[OF r]
  let ?s' = "if status = DS_Success then s2\<lparr>CurrentActiveApp := appid\<rparr> else s2"
  have I: "Initialize a eh name appid rad config s = Some (status, ?s')"
    using assms(1,3) s1(1) r by (auto simp: Initialize_def dest: leD)
  have "unat appid < 4" using assms(3) by (simp add: MAX_APPS_def word_less_nat_alt)
  then have act: "active_handler (s2\<lparr>CurrentActiveApp := appid\<rparr>) = map_option (handler_at s) eh"
    using F s1 assms(3)[unfolded not_le[symmetric]] assms(4) by (auto simp: active_handler_def GetAppHandler_def)
  have "bag_inv (ForeignMsg n) ?s'" using F s1 by (auto simp: bag_inv_def)
  then show ?thesis
    using I F S s1 assms(1) act by (intro exI[of _ status] exI[of _ ?s']) auto
qed

end
