(* ===== verification/Mac_Functions.thy ===== *)
theory Mac_Functions
  imports Csma_Mac "HOL-Library.Monad_Syntax"
begin

text \<open>
  The MAC layer's functions for the rest of the system
  (\<^verbatim>\<open>DeviceCode/pal/Samraksh/Wireless/MAC/Mac_Functions.cpp\<close>), in the configuration of
  \<^verbatim>\<open>Solutions/STM32H743NUCLEO/platform_selector.h\<close>: \<^verbatim>\<open>__MAC_CSMA__\<close> is defined and
  \<^verbatim>\<open>__MAC_OMAC__\<close> is not, so the OMAC branches select a MAC without doing anything. The
  functions pass calls to the CSMA MAC, and copy packets and neighbors into the byte buffers
  of the managed application. The lemmas give the layout of these buffers.
\<close>

section \<open>State\<close>

definition CSMAMAC :: u8 where "CSMAMAC = 1"
definition OMAC :: u8 where "OMAC = 2"

lemmas mac_names = CSMAMAC_def OMAC_def

record mac_world =
  currentMacName :: u8
  g_csmaMacObject :: csma

section \<open>Calls passed to the selected MAC\<close>

definition MAC_Initialize ::
  "init_answers \<Rightarrow> nat option \<Rightarrow> u8 \<Rightarrow> u8 \<Rightarrow> u8 \<Rightarrow> MACConfig \<Rightarrow> mac_world \<Rightarrow> (DeviceStatus \<times> mac_world) option"
where
  "MAC_Initialize a eventHandler macName routingAppID radio_name config w =
     (if macName = CSMAMAC then
        (let w1 = w\<lparr>currentMacName := macName\<rparr> in
         map_option (\<lambda>(status, s). (status, w1\<lparr>g_csmaMacObject := s\<rparr>))
           (Initialize a eventHandler macName routingAppID radio_name config (g_csmaMacObject w1)))
      else if macName = OMAC then Some (DS_Success, w\<lparr>currentMacName := macName\<rparr>)
      else Some (DS_Fail, w))"

definition MAC_Reconfigure :: "MACConfig \<Rightarrow> mac_world \<Rightarrow> DeviceStatus \<times> mac_world" where
  "MAC_Reconfigure config w =
     (if currentMacName w = CSMAMAC then
        (case SetConfig config (g_csmaMacObject w) of (status, s) \<Rightarrow> (status, w\<lparr>g_csmaMacObject := s\<rparr>))
      else if currentMacName w = OMAC then (DS_Success, w)
      else (DS_Fail, w))"

text \<open>\<open>UINT16 tempMacName = -1\<close> is what is returned when no MAC answers.\<close>

definition MAC_GetRadioAddress :: "u16 \<Rightarrow> mac_world \<Rightarrow> u16" where
  "MAC_GetRadioAddress address w = (if currentMacName w = CSMAMAC then address else - 1)"

definition to_csma :: "(csma \<Rightarrow> bool \<times> csma) \<Rightarrow> mac_world \<Rightarrow> bool \<times> mac_world" where
  "to_csma f w =
     (if currentMacName w = CSMAMAC
      then (case f (g_csmaMacObject w) of (status, s) \<Rightarrow> (status, w\<lparr>g_csmaMacObject := s\<rparr>))
      else (False, w))"

definition MAC_SetRadioAddress :: "bool \<Rightarrow> u16 \<Rightarrow> mac_world \<Rightarrow> bool \<times> mac_world" where
  "MAC_SetRadioAddress ret address = to_csma (SetRadioAddress ret address)"

text \<open>The parameter is an \<open>INT8\<close>; the MAC takes a \<open>UINT8\<close> of the same bits.\<close>

definition MAC_SetRadioName :: "bool \<Rightarrow> u8 \<Rightarrow> mac_world \<Rightarrow> bool \<times> mac_world" where
  "MAC_SetRadioName ret rname = to_csma (SetRadioName ret rname)"

definition MAC_SetRadioTxPower :: "bool \<Rightarrow> int \<Rightarrow> mac_world \<Rightarrow> bool \<times> mac_world" where
  "MAC_SetRadioTxPower ret pw = to_csma (SetRadioTxPower ret pw)"

definition MAC_SetRadioChannel :: "bool \<Rightarrow> int \<Rightarrow> mac_world \<Rightarrow> bool \<times> mac_world" where
  "MAC_SetRadioChannel ret channel = to_csma (SetRadioChannel ret channel)"

text \<open>The functions on packet indices work on OMAC's packet buffer only.\<close>

definition MAC_DeletePacketWithIndexInternal :: "u16 \<Rightarrow> mac_world \<Rightarrow> DeviceStatus" where
  "MAC_DeletePacketWithIndexInternal index w = DS_Fail"

definition MAC_GetMsgIdWithPtr :: "pkt_ptr \<Rightarrow> mac_world \<Rightarrow> u16" where
  "MAC_GetMsgIdWithPtr msg_carrier w = INVALID_PACKET_ID"

text \<open>\<open>INVALID_PACKET_ID\<close> is returned as a \<open>bool\<close>: 255 converts to true.\<close>

definition MAC_ChangeOwnerShipOfElementwIndex :: "u16 \<Rightarrow> BufferOwner \<Rightarrow> mac_world \<Rightarrow> bool" where
  "MAC_ChangeOwnerShipOfElementwIndex index n_buf_ow w = (INVALID_PACKET_ID \<noteq> 0)"

definition MAC_GetPacketWithIndex :: "u8 \<Rightarrow> u16 \<Rightarrow> mac_world \<Rightarrow> DeviceStatus" where
  "MAC_GetPacketWithIndex buffersize index w = DS_Fail"

definition MAC_GetPacketSizeWithIndex :: "u16 \<Rightarrow> mac_world \<Rightarrow> DeviceStatus" where
  "MAC_GetPacketSizeWithIndex index w = DS_Fail"

definition MAC_EnqueueToSend :: "u16 \<Rightarrow> u8 \<Rightarrow> u8 list \<Rightarrow> u16 \<Rightarrow> mac_world \<Rightarrow> u16" where
  "MAC_EnqueueToSend destAddress dataType msg len w = INVALID_PACKET_ID"

definition MAC_EnqueueToSendTimeStamped :: "u16 \<Rightarrow> u8 \<Rightarrow> u8 list \<Rightarrow> u16 \<Rightarrow> u32 \<Rightarrow> mac_world \<Rightarrow> u16" where
  "MAC_EnqueueToSendTimeStamped destAddress dataType msg len eventTime w = INVALID_PACKET_ID"

definition MAC_Send ::
  "radio_answers \<Rightarrow> message \<Rightarrow> u16 \<Rightarrow> u8 \<Rightarrow> u8 list \<Rightarrow> u16 \<Rightarrow> mac_world \<Rightarrow> (DeviceStatus \<times> mac_world) option"
where
  "MAC_Send r carrier destAddress dataType msg len w =
     (if currentMacName w = CSMAMAC then
        map_option (\<lambda>(status, s). (if status then DS_Success else DS_Fail, w\<lparr>g_csmaMacObject := s\<rparr>))
          (Send r carrier destAddress dataType msg (uint len) (g_csmaMacObject w))
      else Some (DS_Fail, w))"

definition MAC_SendTimeStamped ::
  "radio_answers \<Rightarrow> message \<Rightarrow> u16 \<Rightarrow> u8 \<Rightarrow> u8 list \<Rightarrow> u16 \<Rightarrow> u32 \<Rightarrow> mac_world \<Rightarrow> (DeviceStatus \<times> mac_world) option"
where
  "MAC_SendTimeStamped r carrier destAddress dataType msg len eventTime w =
     (if currentMacName w = CSMAMAC then
        map_option (\<lambda>(status, s). (if status then DS_Success else DS_Fail, w\<lparr>g_csmaMacObject := s\<rparr>))
          (SendTimeStamped r carrier destAddress dataType msg (uint len) eventTime (g_csmaMacObject w))
      else Some (DS_Fail, w))"

definition MAC_UnInitialize :: "bool \<Rightarrow> bool \<Rightarrow> bool \<Rightarrow> bool \<Rightarrow> mac_world \<Rightarrow> DeviceStatus \<times> mac_world" where
  "MAC_UnInitialize b1 b2 b3 b4 w =
     (case to_csma (UnInitialize b1 b2 b3 b4) w of (status, w') \<Rightarrow>
        (if status then DS_Success else DS_Fail, w'))"

definition MACLayer_UnInitialize :: "bool \<Rightarrow> bool \<Rightarrow> bool \<Rightarrow> bool \<Rightarrow> mac_world \<Rightarrow> bool \<times> mac_world" where
  "MACLayer_UnInitialize b1 b2 b3 b4 = to_csma (UnInitialize b1 b2 b3 b4)"

definition MACLayer_Initialize :: bool where "MACLayer_Initialize = False"

definition MACLayer_NumberMacsSupported :: u8 where
  "MACLayer_NumberMacsSupported = of_int (BOOL_int False)"

definition MAC_RemovePacket :: "u8 list \<Rightarrow> DeviceStatus" where "MAC_RemovePacket msg = DS_Fail"

definition MAC_GetID :: "mac_world \<Rightarrow> u8" where "MAC_GetID w = currentMacName w"

text \<open>\<open>UINT8 bufferSize = -1\<close> is what is returned when no MAC answers.\<close>

definition MAC_GetSendBufferSize :: "mac_world \<Rightarrow> u8" where
  "MAC_GetSendBufferSize w = (if currentMacName w = CSMAMAC then GetSendBufferSize (g_csmaMacObject w) else - 1)"

definition MAC_GetReceiveBufferSize :: "mac_world \<Rightarrow> u8" where
  "MAC_GetReceiveBufferSize w = (if currentMacName w = CSMAMAC then GetReceiveBufferSize (g_csmaMacObject w) else - 1)"

definition MAC_GetPendingPacketsCount_Send :: "mac_world \<Rightarrow> u8" where
  "MAC_GetPendingPacketsCount_Send w =
     (if currentMacName w = CSMAMAC then ucast (GetSendPending (g_csmaMacObject w)) else - 1)"

definition MAC_GetPendingPacketsCount_Receive :: "mac_world \<Rightarrow> u8" where
  "MAC_GetPendingPacketsCount_Receive w =
     (if currentMacName w = CSMAMAC then ucast (GetReceivePending (g_csmaMacObject w)) else - 1)"

section \<open>Packets for the application\<close>

definition TXRXOFFSET :: u64 where "TXRXOFFSET = 50"

text \<open>
  \<open>PacketTimeSync_15_4::EventTime\<close>: the time of the event in the clock of the receiver. The
  delay of the sender stands in the last four bytes of the payload, which the caller gives the
  size of; \<open>INT64\<close> arithmetic wraps, so that words have the same bits. The rate of the
  clock, \<open>CPU_TicksPerSecond\<close>, belongs to the board.
\<close>

definition EventTime :: "u32 \<Rightarrow> u8 \<Rightarrow> message \<Rightarrow> u64 option" where
  "EventTime tps payloadsize m =
     map_option (\<lambda>bs. msg_time m - ucast (bytes_word bs :: u32) - ucast (tps div 1000000) * TXRXOFFSET)
       (if unat payloadsize < 4 then None else peek_bytes (unat payloadsize - 4) 4 m)"

text \<open>
  The bytes of a packet: the size (its high byte is always 0), the payload, the type, signal
  strength and quality, the source, whether the packet was addressed to this node, whether it
  has a time stamp, and the time. The size of the payload is computed in a \<open>UINT8\<close>; the flags
  are tested with the payload type \<open>MFM_TIMESYNC\<close>, and the event time is taken with the length
  of the whole frame.
\<close>

definition packet_bytes :: "u32 \<Rightarrow> message \<Rightarrow> u8 list option" where
  "packet_bytes tps m =
     (let h = header m; d = metadata m; sz = hdr_length h - of_nat sizeof_header;
          stamped = flags h AND payload_code MFM_TIMESYNC \<noteq> 0
      in do {
        p \<leftarrow> peek_bytes 0 (unat sz) m;
        t \<leftarrow> (if stamped then EventTime tps (hdr_length h) m else Some (msg_time m));
        Some ([sz, 0] @ p @ [payloadType h, Rssi d, Lqi d] @ word_bytes 2 (src h)
              @ [if dest h = MAC_BROADCAST_ADDRESS then 0 else 1, of_bool stamped] @ word_bytes 8 t)
      })"

text \<open>
  The managed buffer is filled from its start; \<open>None\<close> is a write behind its end, a read behind
  the message, or the null pointer that an empty queue gives.
\<close>

definition fill_buffer :: "u8 list \<Rightarrow> u8 list \<Rightarrow> u8 list option" where
  "fill_buffer bs managedBuffer =
     (if length bs \<le> length managedBuffer then Some (bs @ drop (length bs) managedBuffer) else None)"

definition MAC_GetNextPacket ::
  "u32 \<Rightarrow> u8 list \<Rightarrow> mac_world \<Rightarrow> (DeviceStatus \<times> u8 list \<times> mac_world) option"
where
  "MAC_GetNextPacket tps managedBuffer w =
     (let s = g_csmaMacObject w; b = g_receive_buffer s in
      case GetOldestPtr Buffer_15_4_t_SIZE b of
        (None, _) \<Rightarrow> None
      | (Some i, b1) \<Rightarrow>
          (let w1 = w\<lparr>g_csmaMacObject := s\<lparr>g_receive_buffer := b1\<rparr>\<rparr>; m = msg_store b1 (msgPtr b1 ! i) in
           if hdr_length (header m) - of_nat sizeof_header > 127 then Some (DS_Fail, managedBuffer, w1)
           else do {
             bs \<leftarrow> packet_bytes tps m;
             mb \<leftarrow> fill_buffer bs managedBuffer;
             Some (DS_Success, mb, w1)
           }))"

section \<open>Neighbors for the application\<close>

text \<open>
  The addresses are written one after the other over a buffer of zeros; both loops run over
  the whole table.
\<close>

fun list_neighbors :: "(Neighbor_t \<Rightarrow> bool) \<Rightarrow> Neighbor_t list \<Rightarrow> u8 \<Rightarrow> u16 list \<Rightarrow> u8 \<times> u16 list" where
  "list_neighbors P [] neighborCount buf = (neighborCount, buf)"
| "list_neighbors P (n # ns) neighborCount buf =
     (if P n then list_neighbors P ns (neighborCount + 1) (buf[unat neighborCount := MACAddress n])
      else list_neighbors P ns neighborCount buf)"

definition fill_neighbors ::
  "(Neighbor_t \<Rightarrow> bool) \<Rightarrow> u16 list \<Rightarrow> mac_world \<Rightarrow> (DeviceStatus \<times> u16 list) option"
where
  "fill_neighbors P buf w =
     (if length buf < MAX_NEIGHBORS then None
      else let buf1 = replicate MAX_NEIGHBORS 0 @ drop MAX_NEIGHBORS buf;
               (neighborCount, buf2) =
                 list_neighbors P (take MAX_NEIGHBORS (Neighbor (g_NeighborTable (g_csmaMacObject w)))) 0 buf1
           in Some (DS_Success, if neighborCount = 0 then buf2[0 := 0] else buf2))"

definition MAC_GetNeighborList :: "u16 list \<Rightarrow> mac_world \<Rightarrow> (DeviceStatus \<times> u16 list) option" where
  "MAC_GetNeighborList = fill_neighbors (\<lambda>n. neighborStatus n = Alive \<and> IsAvailableForUpperLayers n)"

definition MAC_GetMACNeighborList :: "u16 list \<Rightarrow> mac_world \<Rightarrow> (DeviceStatus \<times> u16 list) option" where
  "MAC_GetMACNeighborList = fill_neighbors (\<lambda>n. ISMAC_VALID (MACAddress n))"

text \<open>
  The status of a neighbor in 22 bytes. Byte 8 joins its two parts with the logical \<open>||\<close>, so it is
  0 or 1; byte 10 is written with OMAC only and keeps its value.
\<close>

definition status_bytes :: "Neighbor_t \<Rightarrow> u8 \<Rightarrow> u8 list" where
  "status_bytes n old =
     word_bytes 2 (MACAddress n)
     @ [AvgRSSI (SendLink n), LinkQuality (SendLink n), AveDelay (SendLink n),
        AvgRSSI (ReceiveLink n), LinkQuality (ReceiveLink n), AveDelay (ReceiveLink n),
        of_bool (status_code (neighborStatus n) AND 0x0F \<noteq> 0 \<or> IsAvailableForUpperLayers n),
        NumInitializationMessagesSent n, old]
     @ word_bytes 8 (LastHeardTime n) @ [ReceiveDutyCycle n] @ word_bytes 2 (FrameLength n)"

definition MAC_GetNeighborStatus :: "u16 \<Rightarrow> u8 list \<Rightarrow> mac_world \<Rightarrow> (DeviceStatus \<times> u8 list) option" where
  "MAC_GetNeighborStatus macAddress buf w =
     (case find (\<lambda>n. MACAddress n = macAddress)
             (take MAX_NEIGHBORS (Neighbor (g_NeighborTable (g_csmaMacObject w)))) of
        None \<Rightarrow> Some (DS_Fail, buf)
      | Some n \<Rightarrow> map_option (\<lambda>bs. (DS_Success, bs))
          (if length buf < 22 then None else fill_buffer (status_bytes n (buf ! 10)) buf))"

section \<open>What the application reads\<close>

lemma GetOldestPtr_place:
  assumes "unat (numElements b) \<noteq> 0"
  shows "\<exists>i b1. GetOldestPtr sz b = (Some i, b1) \<and> GetOldest sz b = (Some (msgPtr b1 ! i), b1)"
  using assms by (simp add: GetOldestPtr_def GetOldest_def GetFirstFullBufferPtr_def GetFirstFullBuffer_def IsEmpty_iff)

text \<open>
  A received packet reaches the application intact: when the oldest packet of the receive
  queue has a payload of \<open>n\<close> bytes and no time stamp, and the managed buffer has room for
  \<open>n + 17\<close> bytes, \<open>MAC_GetNextPacket\<close> takes that packet off the queue and no other, and the
  application reads from the buffer its size, its payload, type, source and time, and whether it
  was a broadcast; the buffer behind the packet is left alone.
\<close>

theorem MAC_GetNextPacket_delivers:
  fixes w mb m ms tps n
  defines "q \<equiv> \<lambda>w. circ_contents Buffer_15_4_t_SIZE (g_receive_buffer (g_csmaMacObject w))"
  assumes inv: "circ_inv Buffer_15_4_t_SIZE (g_receive_buffer (g_csmaMacObject w))" and q: "q w = m # ms"
    and m: "length (payload m) = 100" "unat (hdr_length (header m)) = sizeof_header + n" "n \<le> 100"
      "flags (header m) AND payload_code MFM_TIMESYNC = 0"
    and room: "17 + n \<le> length mb"
  shows "\<exists>mb' w'. MAC_GetNextPacket tps mb w = Some (DS_Success, mb', w') \<and> q w' = ms
    \<and> circ_inv Buffer_15_4_t_SIZE (g_receive_buffer (g_csmaMacObject w'))
    \<and> unat (bytes_word (take 2 mb') :: u16) = n \<and> take n (drop 2 mb') = take n (payload m)
    \<and> mb' ! (n + 2) = payloadType (header m) \<and> bytes_word (take 2 (drop (n + 5) mb')) = src (header m)
    \<and> (mb' ! (n + 7) = 0 \<longleftrightarrow> dest (header m) = MAC_BROADCAST_ADDRESS)
    \<and> bytes_word (take 8 (drop (n + 9) mb')) = msg_time m \<and> drop (17 + n) mb' = drop (17 + n) mb"
proof -
  let ?b = "g_receive_buffer (g_csmaMacObject w)" and ?sz = "hdr_length (header m) - of_nat sizeof_header"
  have "length (q w) \<noteq> 0" using q by simp
  then have ne: "unat (numElements ?b) \<noteq> 0" by (simp add: q_def)
  obtain i b1 where 1: "GetOldestPtr Buffer_15_4_t_SIZE ?b = (Some i, b1)"
      "GetOldest Buffer_15_4_t_SIZE ?b = (Some (msgPtr b1 ! i), b1)"
    using GetOldestPtr_place[OF ne] by blast
  from GetOldest_nonempty[OF inv ne] 1(2) q have b1: "circ_inv Buffer_15_4_t_SIZE b1" "msg_store b1 (msgPtr b1 ! i) = m"
      "circ_contents Buffer_15_4_t_SIZE b1 = ms"
    by (auto simp: q_def)
  have sz: "unat ?sz = n" using m(2,3) by (simp add: unat_sub word_le_nat_alt sizeof_header_def)
  have bs: "packet_bytes tps m = Some ([?sz, 0] @ take n (payload m)
      @ [payloadType (header m), Rssi (metadata m), Lqi (metadata m)] @ word_bytes 2 (src (header m))
      @ [if dest (header m) = MAC_BROADCAST_ADDRESS then 0 else 1, 0] @ word_bytes 8 (msg_time m))" (is "_ = Some ?bs")
    using m sz by (simp add: packet_bytes_def peek_bytes_payload Let_def)
  have len: "length ?bs = 17 + n" using m(1,3) by simp
  let ?w = "w\<lparr>g_csmaMacObject := (g_csmaMacObject w)\<lparr>g_receive_buffer := b1\<rparr>\<rparr>" and ?mb = "?bs @ drop (17 + n) mb"
  have "\<not> ?sz > 127" using sz m(3) by (simp add: word_less_nat_alt)
  then have r: "MAC_GetNextPacket tps mb w = Some (DS_Success, ?mb, ?w)"
    using 1 b1(2) bs len room by (simp add: MAC_GetNextPacket_def fill_buffer_def Let_def del: append.append_Cons)
  have size: "unat (bytes_word [?sz, 0] :: u16) = n"
    using sz m(3) by (simp add: bytes_word_def unsigned_ucast_eq take_bit_nat_eq_self)
  show ?thesis
    using r b1 size m(1,3) room
    by (intro exI[of _ ?mb] exI[of _ ?w])
      (simp add: q_def nth_append bytes_word_word_bytes drop_Cons')
qed

lemma list_neighbors_writes:
  assumes "length as = unat c" "unat c + length ns < 256" "length ns \<le> j"
  shows "list_neighbors P ns c (as @ replicate j 0 @ rest)
    = (c + of_nat (length (filter P ns)),
       as @ map MACAddress (filter P ns) @ replicate (j - length (filter P ns)) 0 @ rest)"
  using assms
proof (induction ns arbitrary: as c j)
  case (Cons n ns)
  then obtain j' where j: "j = Suc j'" by (cases j) auto
  show ?case
  proof (cases "P n")
    case True
    have u: "unat (c + 1) = unat c + 1" using Cons.prems(2) by (simp add: unat_word_ariths)
    have "list_neighbors P (n # ns) c (as @ replicate j 0 @ rest)
        = list_neighbors P ns (c + 1) ((as @ [MACAddress n]) @ replicate j' 0 @ rest)"
      using True Cons.prems(1) j by (simp add: list_update_append)
    also have "\<dots> = (c + 1 + of_nat (length (filter P ns)), (as @ [MACAddress n])
        @ map MACAddress (filter P ns) @ replicate (j' - length (filter P ns)) 0 @ rest)"
      using Cons.prems u j by (intro Cons.IH) simp_all
    finally show ?thesis using True j by (simp add: add.assoc)
  next
    case False
    then show ?thesis using Cons.IH[of as c j] Cons.prems by simp
  qed
qed simp

lemma fill_neighbors_lists:
  assumes "MAX_NEIGHBORS \<le> length buf"
  defines "ns \<equiv> \<lambda>P w. filter P (take MAX_NEIGHBORS (Neighbor (g_NeighborTable (g_csmaMacObject w))))"
  shows "fill_neighbors P buf w = Some (DS_Success,
    map MACAddress (ns P w) @ replicate (MAX_NEIGHBORS - length (ns P w)) 0 @ drop MAX_NEIGHBORS buf)"
proof -
  let ?t = "take MAX_NEIGHBORS (Neighbor (g_NeighborTable (g_csmaMacObject w)))"
  have len: "length ?t \<le> MAX_NEIGHBORS" "MAX_NEIGHBORS = 10" by (simp_all add: MAX_NEIGHBORS_def nth_append)
  have "length (filter P ?t) \<le> 10" using len length_filter_le[of P ?t] by simp
  then have "(of_nat (length (filter P ?t)) :: u8) = 0 \<longleftrightarrow> filter P ?t = []"
    by (simp add: word_eq_iff_unsigned unat_of_nat word_unat_eq_iff)
  moreover have "(replicate MAX_NEIGHBORS 0 @ drop MAX_NEIGHBORS buf)[0 := 0] = replicate MAX_NEIGHBORS 0 @ drop MAX_NEIGHBORS buf"
    by (rule list_update_same_conv[THEN iffD2]) (simp_all add: MAX_NEIGHBORS_def nth_append)
  ultimately show ?thesis
    using assms(1) list_neighbors_writes[of "[]" 0 ?t MAX_NEIGHBORS P "drop MAX_NEIGHBORS buf"] len
    by (simp add: fill_neighbors_def ns_def Let_def)
qed

text \<open>
  The list of neighbors that the application gets contains the addresses of exactly the
  neighbors that are alive and available, in ten places padded with zeros, and leaves the buffer
  behind them alone.
\<close>

theorem MAC_GetNeighborList_lists:
  assumes "MAX_NEIGHBORS \<le> length buf" and "length (Neighbor (g_NeighborTable (g_csmaMacObject w))) = MAX_NEIGHBORS"
  shows "\<exists>addrs. MAC_GetNeighborList buf w = Some (DS_Success, addrs @ drop MAX_NEIGHBORS buf)
    \<and> length addrs = MAX_NEIGHBORS
    \<and> (\<forall>a. a \<noteq> 0 \<longrightarrow> (a \<in> set addrs \<longleftrightarrow> (\<exists>n \<in> set (Neighbor (g_NeighborTable (g_csmaMacObject w))).
          MACAddress n = a \<and> neighborStatus n = Alive \<and> IsAvailableForUpperLayers n)))"
proof -
  let ?ns = "Neighbor (g_NeighborTable (g_csmaMacObject w))"
  let ?f = "filter (\<lambda>n. neighborStatus n = Alive \<and> IsAvailableForUpperLayers n) ?ns"
  let ?a = "map MACAddress ?f @ replicate (MAX_NEIGHBORS - length ?f) 0"
  have "MAC_GetNeighborList buf w = Some (DS_Success, ?a @ drop MAX_NEIGHBORS buf)"
    using assms by (simp add: MAC_GetNeighborList_def fill_neighbors_lists)
  moreover have "length ?a = MAX_NEIGHBORS"
    using assms(2) length_filter_le[of "\<lambda>n. neighborStatus n = Alive \<and> IsAvailableForUpperLayers n" ?ns] by simp
  ultimately show ?thesis by (intro exI[of _ ?a]) auto
qed

end
