(* ===== verification/Dbl_Linked_List.thy ===== *)
theory Dbl_Linked_List
  imports Prelude
begin

text \<open>
  \<^verbatim>\<open>HAL_DblLinkedNode\<close> and \<^verbatim>\<open>HAL_DblLinkedList\<close> of \<^verbatim>\<open>DeviceCode/include/tinyhal.h\<close>: intrusive
  doubly linked lists, whose list object stands for a node before the first and a node after
  the last that share the cell \<^verbatim>\<open>m_null\<close>. The model keeps every pointer cell; the abstraction
  reads the list of node addresses off them. Shown here: the pointer operations implement
  insertion and removal on that list.
\<close>

section \<open>Pointer cells\<close>

text \<open>
  An address of a node: the overlapping list object read as \<open>Head()\<close> or as \<open>Tail()\<close>, or a node
  of its own.
\<close>

datatype node = Head | Tail | Node nat

record dll =
  m_first :: "node option"
  m_null :: "node option"
  m_last :: "node option"
  m_nextNode :: "nat \<Rightarrow> node option"
  m_prevNode :: "nat \<Rightarrow> node option"

definition get_next :: "dll \<Rightarrow> node \<Rightarrow> node option" where
  "get_next s p = (case p of Head \<Rightarrow> m_first s | Tail \<Rightarrow> m_null s | Node n \<Rightarrow> m_nextNode s n)"

definition get_prev :: "dll \<Rightarrow> node \<Rightarrow> node option" where
  "get_prev s p = (case p of Head \<Rightarrow> m_null s | Tail \<Rightarrow> m_last s | Node n \<Rightarrow> m_prevNode s n)"

definition set_next :: "node \<Rightarrow> node option \<Rightarrow> dll \<Rightarrow> dll" where
  "set_next p v s =
     (case p of Head \<Rightarrow> s\<lparr>m_first := v\<rparr> | Tail \<Rightarrow> s\<lparr>m_null := v\<rparr>
      | Node n \<Rightarrow> s\<lparr>m_nextNode := (m_nextNode s)(n := v)\<rparr>)"

definition set_prev :: "node \<Rightarrow> node option \<Rightarrow> dll \<Rightarrow> dll" where
  "set_prev p v s =
     (case p of Head \<Rightarrow> s\<lparr>m_null := v\<rparr> | Tail \<Rightarrow> s\<lparr>m_last := v\<rparr>
      | Node n \<Rightarrow> s\<lparr>m_prevNode := (m_prevNode s)(n := v)\<rparr>)"

section \<open>Operations of a node\<close>

definition Node_Initialize :: "nat \<Rightarrow> dll \<Rightarrow> dll" where
  "Node_Initialize n s = set_prev (Node n) None (set_next (Node n) None s)"

definition Node_IsLinked :: "dll \<Rightarrow> nat \<Rightarrow> bool" where
  "Node_IsLinked s n = (get_next s (Node n) \<noteq> None)"

definition RemoveFromList :: "nat \<Rightarrow> dll \<Rightarrow> dll" where
  "RemoveFromList n s =
     (let nx = get_next s (Node n); pv = get_prev s (Node n);
          s1 = (case pv of None \<Rightarrow> s | Some p \<Rightarrow> set_next p nx s)
      in (case nx of None \<Rightarrow> s1 | Some q \<Rightarrow> set_prev q pv s1))"

definition Unlink :: "nat \<Rightarrow> dll \<Rightarrow> dll" where
  "Unlink n s =
     (let nx = get_next s (Node n); pv = get_prev s (Node n);
          s1 = (case pv of None \<Rightarrow> s | Some p \<Rightarrow> set_next p nx s);
          s2 = (case nx of None \<Rightarrow> s1 | Some q \<Rightarrow> set_prev q pv s1)
      in set_prev (Node n) None (set_next (Node n) None s2))"

section \<open>Operations of the list\<close>

definition List_Initialize :: "dll \<Rightarrow> dll" where
  "List_Initialize s = s\<lparr>m_first := Some Tail, m_null := None, m_last := Some Head\<rparr>"

definition FirstNode :: "dll \<Rightarrow> node option" where "FirstNode s = m_first s"
definition LastNode :: "dll \<Rightarrow> node option" where "LastNode s = m_last s"
definition List_IsEmpty :: "dll \<Rightarrow> bool" where "List_IsEmpty s = (m_first s = Some Tail)"

text \<open>
  The result of an operation that may follow a null pointer: \<open>None\<close> is that access. The inner
  option of the two look-ups is the pointer returned.
\<close>

definition FirstValidNode :: "dll \<Rightarrow> node option option" where
  "FirstValidNode s =
     (case m_first s of None \<Rightarrow> None
      | Some res \<Rightarrow> Some (if get_next s res \<noteq> None then Some res else None))"

definition LastValidNode :: "dll \<Rightarrow> node option option" where
  "LastValidNode s =
     (case m_last s of None \<Rightarrow> None
      | Some res \<Rightarrow> Some (if get_prev s res \<noteq> None then Some res else None))"

text \<open>\<open>NumOfNodes\<close> counts the nodes in front of the one without successor, within fuel.\<close>

fun count_nodes :: "nat \<Rightarrow> dll \<Rightarrow> node \<Rightarrow> nat \<Rightarrow> nat option" where
  "count_nodes 0 s p num = None"
| "count_nodes (Suc fuel) s p num =
     (case get_next s p of None \<Rightarrow> Some num | Some q \<Rightarrow> count_nodes fuel s q (num + 1))"

definition NumOfNodes :: "nat \<Rightarrow> dll \<Rightarrow> nat option" where
  "NumOfNodes fuel s = (case m_first s of None \<Rightarrow> None | Some p \<Rightarrow> count_nodes fuel s p 0)"

definition Insert :: "node \<Rightarrow> node \<Rightarrow> nat \<Rightarrow> dll \<Rightarrow> dll" where
  "Insert prev nx n s =
     set_next prev (Some (Node n)) (set_prev nx (Some (Node n))
       (set_prev (Node n) (Some prev) (set_next (Node n) (Some nx) s)))"

definition InsertBeforeNode :: "node \<Rightarrow> nat \<Rightarrow> dll \<Rightarrow> dll option" where
  "InsertBeforeNode p nodeNew s =
     (if p \<noteq> Node nodeNew then
        (let s1 = RemoveFromList nodeNew s in
         case get_prev s1 p of None \<Rightarrow> None | Some q \<Rightarrow> Some (Insert q p nodeNew s1))
      else Some s)"

definition InsertAfterNode :: "node \<Rightarrow> nat \<Rightarrow> dll \<Rightarrow> dll option" where
  "InsertAfterNode p nodeNew s =
     (if p \<noteq> Node nodeNew then
        (let s1 = RemoveFromList nodeNew s in
         case get_next s1 p of None \<Rightarrow> None | Some q \<Rightarrow> Some (Insert p q nodeNew s1))
      else Some s)"

definition LinkAtFront :: "nat \<Rightarrow> dll \<Rightarrow> dll option" where
  "LinkAtFront n s = InsertAfterNode Head n s"

definition LinkAtBack :: "nat \<Rightarrow> dll \<Rightarrow> dll option" where
  "LinkAtBack n s = InsertBeforeNode Tail n s"

text \<open>
  Extraction unlinks the node found; the sentinels are never found, since one has no successor
  and the other no predecessor.
\<close>

definition unlink_found :: "node option \<Rightarrow> dll \<Rightarrow> dll" where
  "unlink_found r s = (case r of Some (Node n) \<Rightarrow> Unlink n s | _ \<Rightarrow> s)"

definition ExtractFirstNode :: "dll \<Rightarrow> (node option \<times> dll) option" where
  "ExtractFirstNode s = map_option (\<lambda>r. (r, unlink_found r s)) (FirstValidNode s)"

definition ExtractLastNode :: "dll \<Rightarrow> (node option \<times> dll) option" where
  "ExtractLastNode s = map_option (\<lambda>r. (r, unlink_found r s)) (LastValidNode s)"

section \<open>The list a state stands for\<close>

text \<open>A chain of nodes from \<open>p\<close> to \<open>q\<close>, linked in both directions.\<close>

fun chain :: "dll \<Rightarrow> node \<Rightarrow> nat list \<Rightarrow> node \<Rightarrow> bool" where
  "chain s p [] q \<longleftrightarrow> get_next s p = Some q \<and> get_prev s q = Some p"
| "chain s p (x # xs) q \<longleftrightarrow>
     get_next s p = Some (Node x) \<and> get_prev s (Node x) = Some p \<and> chain s (Node x) xs q"

definition dll_list :: "dll \<Rightarrow> nat list \<Rightarrow> bool" where
  "dll_list s xs \<longleftrightarrow> chain s Head xs Tail \<and> distinct xs \<and> m_null s = None
     \<and> (\<forall>n. n \<notin> set xs \<longrightarrow> m_nextNode s n = None \<and> m_prevNode s n = None)"

lemma get_set [simp]:
  "get_next (set_prev p v s) q = (if p = Head \<and> q = Tail then v else get_next s q)"
  "get_prev (set_next p v s) q = (if p = Tail \<and> q = Head then v else get_prev s q)"
  "get_next (set_next p v s) q = (if p = q then v else get_next s q)"
  "get_prev (set_prev p v s) q = (if p = q then v else get_prev s q)"
  by (auto simp: get_next_def get_prev_def set_next_def set_prev_def split: node.splits)

lemma m_null_set [simp]:
  "m_null (set_next p v s) = (if p = Tail then v else m_null s)"
  "m_null (set_prev p v s) = (if p = Head then v else m_null s)"
  by (auto simp: set_next_def set_prev_def split: node.splits)

lemma cells:
  "get_next s (Node n) = m_nextNode s n" "get_prev s (Node n) = m_prevNode s n"
  "get_next s Head = m_first s" "get_prev s Tail = m_last s"
  "get_next s Tail = m_null s" "get_prev s Head = m_null s"
  by (simp_all add: get_next_def get_prev_def)

lemma chain_append: "chain s p (xs @ x # ys) q \<longleftrightarrow> chain s p xs (Node x) \<and> chain s (Node x) ys q"
  by (induction xs arbitrary: p) auto

text \<open>A chain depends on the successors of its front nodes and the predecessors of its back nodes only.\<close>

lemma chain_cong:
  assumes "\<And>r. r \<in> insert p (Node ` set xs) \<Longrightarrow> get_next s' r = get_next s r"
    and "\<And>r. r \<in> insert q (Node ` set xs) \<Longrightarrow> get_prev s' r = get_prev s r"
  shows "chain s' p xs q = chain s p xs q"
  using assms by (induction xs arbitrary: p) auto

text \<open>The nodes at the two ends of a place in a list.\<close>

definition before :: "nat list \<Rightarrow> node" where
  "before ys = (if ys = [] then Head else Node (last ys))"

definition after :: "nat list \<Rightarrow> node" where
  "after zs = (case zs of [] \<Rightarrow> Tail | z # _ \<Rightarrow> Node z)"

lemma before_after_simps [simp]:
  "before [] = Head" "before (ys @ [y]) = Node y" "after [] = Tail" "after (z # zs) = Node z"
  "before ys \<noteq> Tail" "after zs \<noteq> Head"
  by (auto simp: before_def after_def split: list.splits)

lemma before_in: "before ys = Node n \<Longrightarrow> n \<in> set ys"
  by (auto simp: before_def split: if_splits)

lemma after_in: "after zs = Node n \<Longrightarrow> n \<in> set zs"
  by (auto simp: after_def split: list.splits)

text \<open>A chain is cut at a place: what is in front, the joint, what is behind.\<close>

definition front_ok :: "dll \<Rightarrow> nat list \<Rightarrow> bool" where
  "front_ok s ys \<longleftrightarrow> (case rev ys of [] \<Rightarrow> True | y # ry \<Rightarrow> chain s Head (rev ry) (Node y))"

definition back_ok :: "dll \<Rightarrow> nat list \<Rightarrow> bool" where
  "back_ok s zs \<longleftrightarrow> (case zs of [] \<Rightarrow> True | z # zs' \<Rightarrow> chain s (Node z) zs' Tail)"

lemma chain_cut:
  "chain s Head (ys @ zs) Tail \<longleftrightarrow>
     front_ok s ys \<and> get_next s (before ys) = Some (after zs) \<and> get_prev s (after zs) = Some (before ys) \<and> back_ok s zs"
proof (cases ys rule: rev_cases)
  case Nil
  then show ?thesis by (cases zs) (auto simp: front_ok_def back_ok_def)
next
  case (snoc ys' y)
  then show ?thesis by (cases zs) (auto simp: front_ok_def back_ok_def chain_append)
qed

lemma front_ok_cong:
  assumes "\<And>r. r \<in> insert Head (Node ` set ys) \<Longrightarrow> r \<noteq> before ys \<Longrightarrow> get_next s' r = get_next s r"
    and "\<And>r. r \<in> Node ` set ys \<Longrightarrow> get_prev s' r = get_prev s r" and "distinct ys"
  shows "front_ok s' ys = front_ok s ys"
proof (cases ys rule: rev_cases)
  case (snoc ys' y)
  have "chain s' Head ys' (Node y) = chain s Head ys' (Node y)"
    by (rule chain_cong) (use assms snoc in \<open>auto\<close>)
  then show ?thesis by (simp add: front_ok_def snoc)
qed (simp add: front_ok_def)

lemma back_ok_cong:
  assumes "\<And>r. r \<in> Node ` set zs \<Longrightarrow> get_next s' r = get_next s r"
    and "\<And>r. r \<in> insert Tail (Node ` set zs) \<Longrightarrow> r \<noteq> after zs \<Longrightarrow> get_prev s' r = get_prev s r"
    and "distinct zs"
  shows "back_ok s' zs = back_ok s zs"
proof (cases zs)
  case (Cons z zs')
  have "chain s' (Node z) zs' Tail = chain s (Node z) zs' Tail"
    by (rule chain_cong) (use assms Cons in \<open>auto\<close>)
  then show ?thesis by (simp add: back_ok_def Cons)
qed (simp add: back_ok_def)

section \<open>Pointer operations as list operations\<close>

lemma dll_listD:
  assumes "dll_list s xs"
  shows "chain s Head xs Tail" "distinct xs" "m_null s = None"
    "\<And>n. n \<notin> set xs \<Longrightarrow> m_nextNode s n = None \<and> m_prevNode s n = None"
  using assms by (simp_all add: dll_list_def)

lemma List_Initialize_list:
  "(\<And>n. m_nextNode s n = None \<and> m_prevNode s n = None) \<Longrightarrow> dll_list (List_Initialize s) []"
  by (simp add: dll_list_def List_Initialize_def cells)

lemma dll_list_links:
  assumes "dll_list s (ys @ n # zs)"
  shows "get_next s (Node n) = Some (after zs)" "get_prev s (Node n) = Some (before ys)"
proof -
  have "chain s Head (ys @ n # zs) Tail" "chain s Head ((ys @ [n]) @ zs) Tail"
    using dll_listD[OF assms] by simp_all
  then show "get_next s (Node n) = Some (after zs)" "get_prev s (Node n) = Some (before ys)"
    unfolding chain_cut by simp_all
qed

text \<open>Bypassing a node: the rest of the list stays linked, whatever the node's own cells hold.\<close>

lemma bypass_chain:
  assumes "dll_list s (ys @ n # zs)"
  shows "chain (set_prev (after zs) (Some (before ys)) (set_next (before ys) (Some (after zs)) s)) Head (ys @ zs) Tail"
    (is "chain ?s _ _ _")
proof -
  have d: "distinct (ys @ n # zs)" using dll_listD[OF assms] by simp
  have c: "chain s Head (ys @ n # zs) Tail" "chain s Head ((ys @ [n]) @ zs) Tail"
    using dll_listD[OF assms] by simp_all
  have "front_ok s ys" "back_ok s zs" using c[unfolded chain_cut] by simp_all
  moreover have "front_ok ?s ys = front_ok s ys"
    by (rule front_ok_cong) (use d in \<open>auto dest: after_in\<close>)
  moreover have "back_ok ?s zs = back_ok s zs"
    by (rule back_ok_cong) (use d in \<open>auto dest: before_in\<close>)
  moreover have "before ys \<noteq> after zs"
    using d by (cases zs) (auto simp: before_def)
  ultimately show ?thesis unfolding chain_cut by simp
qed

text \<open>A list from which one node is out, its own cells holding anything.\<close>

definition dll_but :: "nat \<Rightarrow> dll \<Rightarrow> nat list \<Rightarrow> bool" where
  "dll_but n s xs \<longleftrightarrow> chain s Head xs Tail \<and> distinct xs \<and> n \<notin> set xs \<and> m_null s = None
     \<and> (\<forall>k. k \<notin> set xs \<longrightarrow> k \<noteq> n \<longrightarrow> m_nextNode s k = None \<and> m_prevNode s k = None)"

lemma RemoveFromList_but:
  assumes "dll_list s xs"
  shows "dll_but n (RemoveFromList n s) (remove1 n xs)"
proof (cases "n \<in> set xs")
  case True
  then obtain ys zs where xs: "xs = ys @ n # zs" and n: "n \<notin> set ys" by (meson split_list_first)
  note d = assms[unfolded xs]
  let ?s = "set_prev (after zs) (Some (before ys)) (set_next (before ys) (Some (after zs)) s)"
  have r: "RemoveFromList n s = ?s"
    using dll_list_links[OF d] by (simp add: RemoveFromList_def)
  have dist: "distinct (ys @ n # zs)" using dll_listD[OF d] by simp
  have "m_nextNode ?s k = None \<and> m_prevNode ?s k = None" if "k \<notin> set (ys @ zs)" "k \<noteq> n" for k
  proof -
    have "before ys \<noteq> Node k" "after zs \<noteq> Node k" using that(1) before_in after_in by auto
    then have "get_next ?s (Node k) = get_next s (Node k)" "get_prev ?s (Node k) = get_prev s (Node k)"
      by auto
    with dll_listD(4)[OF d, of k] that show ?thesis by (simp add: cells)
  qed
  with bypass_chain[OF d] dist dll_listD(3)[OF d] n show ?thesis
    unfolding dll_but_def r xs by (auto simp: remove1_append)
next
  case False
  then have "RemoveFromList n s = s"
    using dll_listD(4)[OF assms False] by (simp add: RemoveFromList_def cells)
  with assms False show ?thesis by (simp add: dll_but_def dll_list_def remove1_idem)
qed

lemma null_own_cells:
  assumes "dll_but n s xs"
  shows "dll_list (set_prev (Node n) None (set_next (Node n) None s)) xs" (is "dll_list ?s xs")
proof -
  have "chain ?s Head xs Tail = chain s Head xs Tail"
    by (rule chain_cong) (use assms in \<open>auto simp: dll_but_def\<close>)
  moreover have "m_nextNode ?s k = None \<and> m_prevNode ?s k = None" if "k \<notin> set xs" for k
  proof -
    have "get_next ?s (Node k) = None" "get_prev ?s (Node k) = None"
      using that assms by (auto simp: dll_but_def cells[of s])
    then show ?thesis by (simp only: cells)
  qed
  ultimately show ?thesis using assms by (auto simp: dll_list_def dll_but_def)
qed

lemma Unlink_alt: "Unlink n s = set_prev (Node n) None (set_next (Node n) None (RemoveFromList n s))"
  by (simp add: Unlink_def RemoveFromList_def Let_def)

lemma Unlink_list: "dll_list s xs \<Longrightarrow> dll_list (Unlink n s) (remove1 n xs)"
  unfolding Unlink_alt by (rule null_own_cells[OF RemoveFromList_but])

lemma Insert_list:
  assumes "dll_but n s (ys @ zs)"
  shows "dll_list (Insert (before ys) (after zs) n s) (ys @ n # zs)" (is "dll_list ?s _")
proof -
  have d: "distinct (ys @ zs)" "n \<notin> set (ys @ zs)" using assms by (simp_all add: dll_but_def)
  have b: "before ys \<noteq> Node n" and a: "after zs \<noteq> Node n" using d before_in after_in by auto
  have ba: "before ys \<noteq> after zs" using d by (cases zs) (auto simp: before_def)
  have c: "front_ok s ys" "back_ok s zs"
    using assms unfolding dll_but_def chain_cut by simp_all
  have "front_ok ?s ys = front_ok s ys"
    by (rule front_ok_cong) (use d b in \<open>auto simp: Insert_def dest: after_in\<close>)
  moreover have "back_ok ?s zs = back_ok s zs"
    by (rule back_ok_cong) (use d a in \<open>auto simp: Insert_def dest: before_in\<close>)
  moreover have "back_ok ?s (n # zs) \<longleftrightarrow> back_ok ?s zs"
  proof (cases zs)
    case Nil
    then show ?thesis using b a ba by (simp add: back_ok_def Insert_def)
  next
    case (Cons z zs')
    then show ?thesis using b a ba by (simp add: back_ok_def Insert_def)
  qed
  moreover have "get_next ?s (before ys) = Some (Node n)" "get_prev ?s (Node n) = Some (before ys)"
    using b a by (simp_all add: Insert_def)
  ultimately have "chain ?s Head (ys @ n # zs) Tail"
    using c unfolding chain_cut by simp
  moreover have "m_nextNode ?s k = None \<and> m_prevNode ?s k = None" if "k \<notin> set (ys @ n # zs)" for k
  proof -
    have "before ys \<noteq> Node k" "after zs \<noteq> Node k" using that before_in after_in by auto
    then have "get_next ?s (Node k) = get_next s (Node k)" "get_prev ?s (Node k) = get_prev s (Node k)"
      using that by (auto simp: Insert_def)
    then show ?thesis using assms that by (auto simp: dll_but_def cells[of s] cells[of ?s])
  qed
  ultimately show ?thesis using d assms by (auto simp: dll_list_def dll_but_def Insert_def)
qed

lemma InsertBeforeNode_list:
  assumes "dll_list s xs" and "remove1 n xs = ys @ zs" and "p = after zs" and "p \<noteq> Node n"
  shows "\<exists>s'. InsertBeforeNode p n s = Some s' \<and> dll_list s' (ys @ n # zs)"
proof -
  have b: "dll_but n (RemoveFromList n s) (ys @ zs)" using RemoveFromList_but[OF assms(1), of n] assms(2) by simp
  then have "get_prev (RemoveFromList n s) (after zs) = Some (before ys)"
    unfolding dll_but_def chain_cut by simp
  with Insert_list[OF b] assms(3,4) show ?thesis by (simp add: InsertBeforeNode_def Let_def)
qed

lemma InsertAfterNode_list:
  assumes "dll_list s xs" and "remove1 n xs = ys @ zs" and "p = before ys" and "p \<noteq> Node n"
  shows "\<exists>s'. InsertAfterNode p n s = Some s' \<and> dll_list s' (ys @ n # zs)"
proof -
  have b: "dll_but n (RemoveFromList n s) (ys @ zs)" using RemoveFromList_but[OF assms(1), of n] assms(2) by simp
  then have "get_next (RemoveFromList n s) (before ys) = Some (after zs)"
    unfolding dll_but_def chain_cut by simp
  with Insert_list[OF b] assms(3,4) show ?thesis by (simp add: InsertAfterNode_def Let_def)
qed

lemma LinkAtBack_list: "dll_list s xs \<Longrightarrow> \<exists>s'. LinkAtBack n s = Some s' \<and> dll_list s' (remove1 n xs @ [n])"
  unfolding LinkAtBack_def by (rule InsertBeforeNode_list[where zs = "[]"]) simp_all

lemma LinkAtFront_list: "dll_list s xs \<Longrightarrow> \<exists>s'. LinkAtFront n s = Some s' \<and> dll_list s' (n # remove1 n xs)"
  unfolding LinkAtFront_def using InsertAfterNode_list[where ys = "[]" and zs = "remove1 n xs"] by simp

lemma first_cell: "dll_list s xs \<Longrightarrow> m_first s = Some (after xs)"
  using dll_listD(1)[of s xs] chain_cut[of s "[]" xs] by (simp add: cells)

lemma last_cell: "dll_list s xs \<Longrightarrow> m_last s = Some (before xs)"
  using dll_listD(1)[of s xs] chain_cut[of s xs "[]"] by (simp add: cells)

lemma next_null: "dll_list s xs \<Longrightarrow> get_next s (after xs) = None \<longleftrightarrow> xs = []"
  using dll_list_links(1)[of s "[]"] dll_listD(3)[of s xs] by (cases xs) (auto simp: cells)

lemma prev_null: "dll_list s xs \<Longrightarrow> get_prev s (before xs) = None \<longleftrightarrow> xs = []"
  using dll_list_links(2)[of s "butlast xs" "last xs" "[]"] dll_listD(3)[of s xs]
  by (cases xs rule: rev_cases) (auto simp: cells)

lemma FirstValidNode_list:
  "dll_list s xs \<Longrightarrow> FirstValidNode s = Some (case xs of [] \<Rightarrow> None | x # _ \<Rightarrow> Some (Node x))"
  using first_cell[of s xs] next_null[of s xs] by (cases xs) (auto simp: FirstValidNode_def)

lemma LastValidNode_list:
  "dll_list s xs \<Longrightarrow> LastValidNode s = Some (if xs = [] then None else Some (Node (last xs)))"
  using last_cell[of s xs] prev_null[of s xs]
  by (cases xs rule: rev_cases) (auto simp: LastValidNode_def)

lemma ExtractFirstNode_list:
  assumes "dll_list s xs"
  shows "\<exists>s'. ExtractFirstNode s = Some (case xs of [] \<Rightarrow> None | x # _ \<Rightarrow> Some (Node x), s') \<and> dll_list s' (tl xs)"
  using assms Unlink_list[OF assms, of "hd xs"] FirstValidNode_list[OF assms]
  by (cases xs) (simp_all add: ExtractFirstNode_def unlink_found_def)

lemma ExtractLastNode_list:
  assumes "dll_list s xs"
  shows "\<exists>s'. ExtractLastNode s = Some (if xs = [] then None else Some (Node (last xs)), s') \<and> dll_list s' (butlast xs)"
proof (cases xs rule: rev_cases)
  case Nil
  then show ?thesis using assms LastValidNode_list[OF assms] by (simp add: ExtractLastNode_def unlink_found_def)
next
  case (snoc ys y)
  have "y \<notin> set ys" using dll_listD(2)[OF assms] snoc by simp
  then have "remove1 y xs = ys" using snoc by (simp add: remove1_append)
  then show ?thesis using snoc LastValidNode_list[OF assms] Unlink_list[OF assms, of y]
    by (simp add: ExtractLastNode_def unlink_found_def)
qed

lemma count_nodes_chain:
  "chain s p xs Tail \<Longrightarrow> m_null s = None \<Longrightarrow> length xs < fuel \<Longrightarrow>
   \<exists>q. get_next s p = Some q \<and> count_nodes fuel s q num = Some (num + length xs)"
proof (induction xs arbitrary: p fuel num)
  case Nil
  then show ?case by (cases fuel) (auto simp: cells)
next
  case (Cons x xs)
  then obtain f where f: "fuel = Suc f" "length xs < f" by (cases fuel) auto
  from Cons.prems have "chain s (Node x) xs Tail" by simp
  from Cons.IH[OF this Cons.prems(2) f(2), of "num + 1"] Cons.prems f show ?case by auto
qed

lemma NumOfNodes_list: "dll_list s xs \<Longrightarrow> length xs < fuel \<Longrightarrow> NumOfNodes fuel s = Some (length xs)"
  using count_nodes_chain[of s Head xs fuel 0] dll_listD[of s xs] by (auto simp: NumOfNodes_def cells)

lemma List_IsEmpty_list: "dll_list s xs \<Longrightarrow> List_IsEmpty s \<longleftrightarrow> xs = []"
  using first_cell[of s xs] by (cases xs) (auto simp: List_IsEmpty_def)

lemma Node_IsLinked_list:
  assumes "dll_list s xs"
  shows "Node_IsLinked s n \<longleftrightarrow> n \<in> set xs"
proof (cases "n \<in> set xs")
  case True
  then obtain ys zs where "xs = ys @ n # zs" by (meson split_list)
  with dll_list_links(1)[of s ys n zs] assms True show ?thesis by (simp add: Node_IsLinked_def)
next
  case False
  with dll_listD(4)[OF assms False] show ?thesis by (simp add: Node_IsLinked_def cells)
qed

section \<open>Property\<close>

text \<open>
  C26. The pointer operations implement a list of distinct nodes: linking at either end moves a
  node there, whether it was linked or not, unlinking removes it, and extraction takes the
  first or last node or finds none; the count (with more fuel than nodes) and the tests agree.
\<close>

theorem linked_list_refines_list:
  assumes "dll_list s xs" and "length xs < fuel"
  shows "(\<exists>s'. LinkAtBack n s = Some s' \<and> dll_list s' (remove1 n xs @ [n]))
    \<and> (\<exists>s'. LinkAtFront n s = Some s' \<and> dll_list s' (n # remove1 n xs))
    \<and> dll_list (Unlink n s) (remove1 n xs)
    \<and> (\<exists>s'. ExtractFirstNode s = Some (case xs of [] \<Rightarrow> None | x # _ \<Rightarrow> Some (Node x), s') \<and> dll_list s' (tl xs))
    \<and> (\<exists>s'. ExtractLastNode s = Some (if xs = [] then None else Some (Node (last xs)), s') \<and> dll_list s' (butlast xs))
    \<and> NumOfNodes fuel s = Some (length xs) \<and> List_IsEmpty s = (xs = []) \<and> Node_IsLinked s n = (n \<in> set xs)"
  using LinkAtBack_list[OF assms(1)] LinkAtFront_list[OF assms(1)] Unlink_list[OF assms(1)]
    ExtractFirstNode_list[OF assms(1)] ExtractLastNode_list[OF assms(1)] NumOfNodes_list[OF assms]
    List_IsEmpty_list[OF assms(1)] Node_IsLinked_list[OF assms(1)]
  by simp

definition sample_dll :: dll where
  "sample_dll = \<lparr>m_first = Some Tail, m_null = None, m_last = Some Head,
     m_nextNode = \<lambda>_. None, m_prevNode = \<lambda>_. None\<rparr>"

lemma sample_dll_list: "dll_list sample_dll []"
  by (simp add: sample_dll_def dll_list_def cells)

lemma linked_list_refines_list_witness:
  "\<exists>s'. LinkAtBack 7 sample_dll = Some s' \<and> dll_list s' [7]"
  using linked_list_refines_list[OF sample_dll_list, of 1 7] by simp

end
