(* ===== verification/Async_Calls.thy ===== *)
theory Async_Calls
  imports Dbl_Linked_List
begin

text \<open>
  Continuations and completions: \<^verbatim>\<open>DeviceCode/include/AsyncProcCalls_decl.h\<close>,
  \<^verbatim>\<open>DeviceCode/pal/AsyncProcCall/Continuations.cpp\<close> and
  \<^verbatim>\<open>DeviceCode/pal/AsyncProcCall/Completions.cpp\<close>. The two global lists are the node lists that
  \<^verbatim>\<open>Dbl_Linked_List\<close> reads off the pointer cells; a node has one pair of link cells, so it is in
  at most one of them and unlinking takes it out of either. What a callback does is a parameter.
  Shown here: the completion list stays ordered by time, first come first served on equal
  times; when the time compare register follows the first completion and when it does not;
  continuations run in the order they were queued.
\<close>

section \<open>State\<close>

record hal_callback =
  EntryPoint :: "nat option"
  Argument :: nat

text \<open>
  \<open>compare_log\<close> holds the values given to \<open>HAL_Time_SetCompare\<close>, the latest first;
  \<open>timer_event\<close> is the flag \<open>SYSTEM_EVENT_FLAG_SYSTEM_TIMER\<close>.
\<close>

record async =
  continuation_list :: "nat list"
  completion_list :: "nat list"
  EventTimeTicks :: "nat \<Rightarrow> u64"
  ExecuteInISR :: "nat \<Rightarrow> bool"
  Callback :: "nat \<Rightarrow> hal_callback"
  compare_log :: "u64 list"
  timer_event :: bool

type_synonym run_callback = "nat \<Rightarrow> nat \<Rightarrow> async \<Rightarrow> async"

definition HAL_Completion_IdleValue :: u64 where
  "HAL_Completion_IdleValue = 0x0000FFFFFFFFFFFF"

definition SetCompare :: "u64 \<Rightarrow> async \<Rightarrow> async" where
  "SetCompare t s = s\<lparr>compare_log := t # compare_log s\<rparr>"

section \<open>Continuations\<close>

definition callback_Execute :: "run_callback \<Rightarrow> hal_callback \<Rightarrow> async \<Rightarrow> async" where
  "callback_Execute run cb s = (case EntryPoint cb of None \<Rightarrow> s | Some f \<Rightarrow> run f (Argument cb) s)"

definition unlink_node :: "nat \<Rightarrow> async \<Rightarrow> async" where
  "unlink_node n s = s\<lparr>continuation_list := remove1 n (continuation_list s),
                      completion_list := remove1 n (completion_list s)\<rparr>"

definition Continuation_IsLinked :: "nat \<Rightarrow> async \<Rightarrow> bool" where
  "Continuation_IsLinked n s = (n \<in> set (continuation_list s) \<or> n \<in> set (completion_list s))"

definition Continuation_InitializeList :: "async \<Rightarrow> async" where
  "Continuation_InitializeList s = s\<lparr>continuation_list := []\<rparr>"

definition Continuation_Enqueue :: "nat \<Rightarrow> async \<Rightarrow> async" where
  "Continuation_Enqueue n s =
     (if EntryPoint (Callback s n) \<noteq> None then
        (let s1 = unlink_node n s in s1\<lparr>continuation_list := continuation_list s1 @ [n]\<rparr>)
      else s)"

definition Continuation_Abort :: "nat \<Rightarrow> async \<Rightarrow> async" where
  "Continuation_Abort n s = unlink_node n s"

definition Dequeue_And_Execute :: "run_callback \<Rightarrow> async \<Rightarrow> bool \<times> async" where
  "Dequeue_And_Execute run s =
     (case continuation_list s of [] \<Rightarrow> (False, s)
      | n # ns \<Rightarrow> (True, callback_Execute run (Callback s n) (s\<lparr>continuation_list := ns\<rparr>)))"

text \<open>
  \<open>InitializeCallback\<close> clears the node's link cells without unlinking it: on a linked node the
  lists are no longer linked lists, which is \<open>None\<close>.
\<close>

definition InitializeCallback :: "nat \<Rightarrow> nat option \<Rightarrow> nat \<Rightarrow> async \<Rightarrow> async option" where
  "InitializeCallback n entry arg s =
     (if Continuation_IsLinked n s then None
      else Some (s\<lparr>Callback := (Callback s)(n := \<lparr>EntryPoint = entry, Argument = arg\<rparr>)\<rparr>))"

fun extract_all :: "nat list \<Rightarrow> nat list" where
  "extract_all [] = []"
| "extract_all (n # ns) = extract_all ns"

definition Continuation_Uninitialize :: "async \<Rightarrow> async" where
  "Continuation_Uninitialize s = s\<lparr>continuation_list := extract_all (continuation_list s)\<rparr>"

section \<open>Completions\<close>

definition InitializeForISR :: "nat \<Rightarrow> nat option \<Rightarrow> nat \<Rightarrow> async \<Rightarrow> async option" where
  "InitializeForISR n entry arg s =
     InitializeCallback n entry arg (s\<lparr>ExecuteInISR := (ExecuteInISR s)(n := True)\<rparr>)"

definition InitializeForUserMode :: "nat \<Rightarrow> nat option \<Rightarrow> nat \<Rightarrow> async \<Rightarrow> async option" where
  "InitializeForUserMode n entry arg s =
     InitializeCallback n entry arg (s\<lparr>ExecuteInISR := (ExecuteInISR s)(n := False)\<rparr>)"

definition Completion_Execute :: "run_callback \<Rightarrow> nat \<Rightarrow> async \<Rightarrow> async" where
  "Completion_Execute run n s =
     (if ExecuteInISR s n then callback_Execute run (Callback s n) s else Continuation_Enqueue n s)"

definition Completion_InitializeList :: "async \<Rightarrow> async" where
  "Completion_InitializeList s = s\<lparr>completion_list := []\<rparr>"

definition DequeueAndExec :: "run_callback \<Rightarrow> async \<Rightarrow> async" where
  "DequeueAndExec run s =
     (case completion_list s of [] \<Rightarrow> s
      | n # ns \<Rightarrow>
          (let s1 = s\<lparr>timer_event := True, completion_list := ns\<rparr>;
               s2 = SetCompare (case ns of [] \<Rightarrow> HAL_Completion_IdleValue | m # _ \<Rightarrow> EventTimeTicks s m) s1
           in Completion_Execute run n s2))"

text \<open>
  Insertion of a node before another (\<open>None\<close> is the end of the list): the node leaves the place
  it is in first; before itself it stays.
\<close>

definition insert_before :: "nat option \<Rightarrow> nat \<Rightarrow> nat list \<Rightarrow> nat list" where
  "insert_before ptr n xs =
     (if ptr = Some n then xs
      else let xs' = remove1 n xs in
        takeWhile (\<lambda>k. Some k \<noteq> ptr) xs' @ n # dropWhile (\<lambda>k. Some k \<noteq> ptr) xs')"

definition EnqueueTicks :: "nat \<Rightarrow> u64 \<Rightarrow> async \<Rightarrow> async" where
  "EnqueueTicks n t s =
     (let s1 = s\<lparr>EventTimeTicks := (EventTimeTicks s)(n := t)\<rparr>;
          ptr = find (\<lambda>k. t < EventTimeTicks s1 k) (completion_list s1);
          s2 = s1\<lparr>continuation_list := remove1 n (continuation_list s1),
                  completion_list := insert_before ptr n (completion_list s1)\<rparr>
      in if completion_list s2 \<noteq> [] \<and> hd (completion_list s2) = n then SetCompare t s2 else s2)"

text \<open>The time source and the conversion are hardware functions: parameters.\<close>

definition EnqueueDelta64 :: "(u64 \<Rightarrow> u64) \<Rightarrow> u64 \<Rightarrow> nat \<Rightarrow> u64 \<Rightarrow> async \<Rightarrow> async" where
  "EnqueueDelta64 to_ticks now n uSecFromNow = EnqueueTicks n (now + to_ticks uSecFromNow)"

definition EnqueueDelta :: "(u64 \<Rightarrow> u64) \<Rightarrow> u64 \<Rightarrow> nat \<Rightarrow> u32 \<Rightarrow> async \<Rightarrow> async" where
  "EnqueueDelta to_ticks now n uSecFromNow = EnqueueDelta64 to_ticks now n (ucast uSecFromNow)"

definition Completion_Abort :: "nat \<Rightarrow> async \<Rightarrow> async" where
  "Completion_Abort n s =
     (let s1 = unlink_node n s in
      if completion_list s \<noteq> [] \<and> hd (completion_list s) = n
      then SetCompare (case completion_list s1 of [] \<Rightarrow> HAL_Completion_IdleValue
                       | m # _ \<Rightarrow> EventTimeTicks s1 m) s1
      else s1)"

definition WaitForInterrupts :: "u64 \<Rightarrow> async \<Rightarrow> async" where
  "WaitForInterrupts expire s =
     (case completion_list s of
        [] \<Rightarrow> SetCompare HAL_Completion_IdleValue (SetCompare expire s)
      | n # _ \<Rightarrow> if EventTimeTicks s n > expire
                 then SetCompare (EventTimeTicks s n) (SetCompare expire s) else s)"

definition Completion_Uninitialize :: "async \<Rightarrow> async" where
  "Completion_Uninitialize s = s\<lparr>completion_list := extract_all (completion_list s)\<rparr>"

section \<open>Invariants\<close>

text \<open>A node is in one list, once; completions are ordered by time.\<close>

definition async_inv :: "async \<Rightarrow> bool" where
  "async_inv s \<longleftrightarrow> distinct (continuation_list s @ completion_list s)
     \<and> sorted (map (EventTimeTicks s) (completion_list s))"

text \<open>The time the first completion waits for, and whether the compare register holds it.\<close>

definition next_time :: "async \<Rightarrow> u64" where
  "next_time s = (case completion_list s of [] \<Rightarrow> HAL_Completion_IdleValue | n # _ \<Rightarrow> EventTimeTicks s n)"

definition armed :: "async \<Rightarrow> bool" where
  "armed s \<longleftrightarrow> compare_log s \<noteq> [] \<and> hd (compare_log s) = next_time s"

lemma SetCompare_frame [frame_simps]:
  "continuation_list (SetCompare t s) = continuation_list s"
  "completion_list (SetCompare t s) = completion_list s"
  "EventTimeTicks (SetCompare t s) = EventTimeTicks s"
  "ExecuteInISR (SetCompare t s) = ExecuteInISR s"
  "Callback (SetCompare t s) = Callback s"
  "compare_log (SetCompare t s) = t # compare_log s"
  "timer_event (SetCompare t s) = timer_event s"
  by (simp_all add: SetCompare_def)

lemma SetCompare_inv [simp]: "async_inv (SetCompare t s) = async_inv s"
  by (simp add: async_inv_def frame_simps)

lemma SetCompare_armed [simp]: "armed (SetCompare t s) \<longleftrightarrow> t = next_time s"
  by (simp add: armed_def next_time_def frame_simps split: list.splits)

text \<open>The place \<open>EnqueueTicks\<close> finds splits the other completions at the time.\<close>

lemma insert_before_split:
  assumes "distinct xs" and "ptr = find P xs" and "\<not> P n"
  shows "insert_before ptr n xs =
     takeWhile (\<lambda>k. \<not> P k) (remove1 n xs) @ n # dropWhile (\<lambda>k. \<not> P k) (remove1 n xs)"
proof -
  have "ptr \<noteq> Some n" using assms(2,3) by (auto dest: find_SomeD)
  have find: "find P (remove1 n xs) = find P xs" using assms(3)
    by (induction xs) auto
  have "takeWhile (\<lambda>k. Some k \<noteq> find P ys) ys = takeWhile (\<lambda>k. \<not> P k) ys
    \<and> dropWhile (\<lambda>k. Some k \<noteq> find P ys) ys = dropWhile (\<lambda>k. \<not> P k) ys" if "distinct ys" for ys
    using that
  proof (induction ys)
    case (Cons y ys)
    have "Some y \<noteq> find P ys" using Cons.prems find_SomeD[of P ys y] by auto
    with Cons show ?case by auto
  qed simp
  from this[of "remove1 n xs"] find assms(1,2) \<open>ptr \<noteq> Some n\<close> show ?thesis
    by (simp add: insert_before_def Let_def)
qed

lemma EnqueueTicks_list:
  assumes "async_inv s"
  shows "completion_list (EnqueueTicks n t s) =
     takeWhile (\<lambda>k. EventTimeTicks s k \<le> t) (remove1 n (completion_list s)) @
     n # dropWhile (\<lambda>k. EventTimeTicks s k \<le> t) (remove1 n (completion_list s))"
proof -
  let ?ev = "(EventTimeTicks s)(n := t)" and ?xs = "completion_list s"
  have d: "distinct ?xs" using assms by (simp add: async_inv_def)
  then have "n \<notin> set (remove1 n ?xs)" by simp
  then have eq: "takeWhile (\<lambda>k. \<not> t < ?ev k) (remove1 n ?xs) = takeWhile (\<lambda>k. EventTimeTicks s k \<le> t) (remove1 n ?xs)"
    "dropWhile (\<lambda>k. \<not> t < ?ev k) (remove1 n ?xs) = dropWhile (\<lambda>k. EventTimeTicks s k \<le> t) (remove1 n ?xs)"
    by (auto intro!: takeWhile_cong dropWhile_cong)
  have "insert_before (find (\<lambda>k. t < ?ev k) ?xs) n ?xs =
    takeWhile (\<lambda>k. \<not> t < ?ev k) (remove1 n ?xs) @ n # dropWhile (\<lambda>k. \<not> t < ?ev k) (remove1 n ?xs)"
    by (rule insert_before_split[OF d refl]) simp
  then show ?thesis unfolding eq by (simp add: EnqueueTicks_def Let_def frame_simps)
qed

lemma EnqueueTicks_frame:
  "EventTimeTicks (EnqueueTicks n t s) = (EventTimeTicks s)(n := t)"
  "continuation_list (EnqueueTicks n t s) = remove1 n (continuation_list s)"
  "Callback (EnqueueTicks n t s) = Callback s" "ExecuteInISR (EnqueueTicks n t s) = ExecuteInISR s"
  by (simp_all add: EnqueueTicks_def Let_def frame_simps)

lemma sorted_remove1_map: "sorted (map f xs) \<Longrightarrow> sorted (map f (remove1 n xs))"
proof (induction xs)
  case (Cons x xs)
  have "set (remove1 n xs) \<subseteq> set xs" by (rule set_remove1_subset)
  with Cons show ?case by (auto simp: sorted_wrt_map)
qed simp

lemma sorted_split_insert:
  assumes "sorted (map f xs)" and "f n = t"
  shows "sorted (map f (takeWhile (\<lambda>k. f k \<le> t) xs @ n # dropWhile (\<lambda>k. f k \<le> t) xs))"
  using assms(1)
proof (induction xs)
  case Nil
  then show ?case by simp
next
  case (Cons x xs)
  have eq: "set (takeWhile (\<lambda>k. f k \<le> t) xs) \<union> set (dropWhile (\<lambda>k. f k \<le> t) xs) = set xs"
    by (metis set_append takeWhile_dropWhile_id)
  show ?case
  proof (cases "f x \<le> t")
    case True
    with Cons assms(2) eq show ?thesis by auto
  next
    case False
    with Cons.prems assms(2) show ?thesis by auto
  qed
qed

lemma EnqueueTicks_inv [inv_intros]:
  assumes "async_inv s"
  shows "async_inv (EnqueueTicks n t s)"
proof -
  let ?xs = "remove1 n (completion_list s)" and ?ev = "(EventTimeTicks s)(n := t)"
  have d: "distinct (completion_list s)" "distinct (continuation_list s)"
    "set (continuation_list s) \<inter> set (completion_list s) = {}"
    using assms by (auto simp: async_inv_def)
  have n: "n \<notin> set ?xs" using d by simp
  have eq: "takeWhile (\<lambda>k. EventTimeTicks s k \<le> t) ?xs = takeWhile (\<lambda>k. ?ev k \<le> t) ?xs"
    "dropWhile (\<lambda>k. EventTimeTicks s k \<le> t) ?xs = dropWhile (\<lambda>k. ?ev k \<le> t) ?xs"
    using n by (auto intro!: takeWhile_cong dropWhile_cong)
  have set: "set (completion_list (EnqueueTicks n t s)) = insert n (set ?xs)"
    unfolding EnqueueTicks_list[OF assms] using takeWhile_dropWhile_id[of _ ?xs] by (metis Un_insert_right list.simps(15) set_append)
  have "map ?ev ?xs = map (EventTimeTicks s) ?xs" using n by auto
  then have "sorted (map ?ev ?xs)"
    using sorted_remove1_map[of "EventTimeTicks s" "completion_list s" n] assms by (simp add: async_inv_def)
  from sorted_split_insert[OF this, of n t]
  have "sorted (map ?ev (completion_list (EnqueueTicks n t s)))"
    unfolding EnqueueTicks_list[OF assms] eq by simp
  moreover have "distinct (completion_list (EnqueueTicks n t s))"
  proof -
    have "distinct (takeWhile (\<lambda>k. EventTimeTicks s k \<le> t) ?xs @ dropWhile (\<lambda>k. EventTimeTicks s k \<le> t) ?xs)"
      using d by simp
    then show ?thesis unfolding EnqueueTicks_list[OF assms] using n
      by (auto dest: set_takeWhileD set_dropWhileD simp del: takeWhile_dropWhile_id)
  qed
  ultimately show ?thesis
    using d set by (auto simp: async_inv_def EnqueueTicks_frame)
qed

lemma EnqueueTicks_hd:
  assumes "async_inv s" and "hd (completion_list (EnqueueTicks n t s)) \<noteq> n"
  shows "\<exists>m rest. remove1 n (completion_list s) = m # rest \<and> EventTimeTicks s m \<le> t
    \<and> hd (completion_list (EnqueueTicks n t s)) = m"
  using assms(2) unfolding EnqueueTicks_list[OF assms(1)]
  by (cases "remove1 n (completion_list s)") (auto split: if_splits)

lemma EnqueueTicks_nonempty: "async_inv s \<Longrightarrow> completion_list (EnqueueTicks n t s) \<noteq> []"
  by (simp add: EnqueueTicks_list)

lemma EnqueueTicks_log:
  assumes "async_inv s"
  shows "compare_log (EnqueueTicks n t s) =
    (if hd (completion_list (EnqueueTicks n t s)) = n then t # compare_log s else compare_log s)"
proof -
  let ?s2 = "s\<lparr>EventTimeTicks := (EventTimeTicks s)(n := t), continuation_list := remove1 n (continuation_list s),
    completion_list := insert_before (find (\<lambda>k. t < ((EventTimeTicks s)(n := t)) k) (completion_list s)) n (completion_list s)\<rparr>"
  have eq: "EnqueueTicks n t s = (if completion_list ?s2 \<noteq> [] \<and> hd (completion_list ?s2) = n then SetCompare t ?s2 else ?s2)"
    by (simp add: EnqueueTicks_def Let_def)
  then have l: "completion_list (EnqueueTicks n t s) = completion_list ?s2" by (simp add: frame_simps)
  with EnqueueTicks_nonempty[OF assms, of n t] show ?thesis unfolding eq by (simp add: frame_simps)
qed

lemma unlink_inv [inv_intros]:
  assumes "async_inv s"
  shows "async_inv (unlink_node n s)"
  using assms sorted_remove1_map[of "EventTimeTicks s" "completion_list s" n]
    set_remove1_subset[of n "completion_list s"] set_remove1_subset[of n "continuation_list s"]
  by (auto simp: async_inv_def unlink_node_def)

lemma Abort_inv [inv_intros]: "async_inv s \<Longrightarrow> async_inv (Completion_Abort n s)"
  using unlink_inv[of s n] by (simp add: Completion_Abort_def Let_def)

lemma Abort_armed:
  assumes "async_inv s" and "armed s"
  shows "armed (Completion_Abort n s)"
proof (cases "completion_list s \<noteq> [] \<and> hd (completion_list s) = n")
  case True
  then show ?thesis by (simp add: Completion_Abort_def Let_def next_time_def)
next
  case False
  then have "completion_list (unlink_node n s) = [] \<longleftrightarrow> completion_list s = []"
    "completion_list s \<noteq> [] \<Longrightarrow> hd (completion_list (unlink_node n s)) = hd (completion_list s)"
    by (cases "completion_list s"; auto simp: unlink_node_def)+
  then have "next_time (unlink_node n s) = next_time s"
    by (cases "completion_list s"; cases "completion_list (unlink_node n s)")
      (auto simp: next_time_def unlink_node_def)
  moreover have "Completion_Abort n s = unlink_node n s"
    using False by (auto simp: Completion_Abort_def Let_def)
  moreover have "compare_log (unlink_node n s) = compare_log s" by (simp add: unlink_node_def)
  ultimately show ?thesis using assms by (simp add: armed_def)
qed

lemma Enqueue_inv [inv_intros]: "async_inv s \<Longrightarrow> async_inv (Continuation_Enqueue n s)"
  using unlink_inv[of s n] set_remove1_subset[of n "continuation_list s"]
  by (auto simp: Continuation_Enqueue_def Let_def async_inv_def unlink_node_def)

section \<open>Properties\<close>

definition sample_async :: async where
  "sample_async = \<lparr>continuation_list = [], completion_list = [1, 2],
     EventTimeTicks = (\<lambda>n. if n = 1 then 10 else 20), ExecuteInISR = (\<lambda>_. False),
     Callback = (\<lambda>n. \<lparr>EntryPoint = Some n, Argument = 0\<rparr>), compare_log = [10], timer_event = False\<rparr>"

lemma sample_async_ok: "async_inv sample_async" "armed sample_async"
  by (simp_all add: async_inv_def armed_def next_time_def sample_async_def)

text \<open>
  Queueing a completion puts it behind the completions that are due no later and in front of
  the later ones, wherever the node was before; the list stays ordered by time and each node
  is in one list only.
\<close>

theorem EnqueueTicks_keeps_time_order:
  assumes "async_inv s"
  shows "async_inv (EnqueueTicks n t s)
    \<and> EventTimeTicks (EnqueueTicks n t s) = (EventTimeTicks s)(n := t)
    \<and> (\<exists>early late. completion_list (EnqueueTicks n t s) = early @ n # late
        \<and> early @ late = remove1 n (completion_list s)
        \<and> (\<forall>k\<in>set early. EventTimeTicks s k \<le> t) \<and> (\<forall>k\<in>set late. t < EventTimeTicks s k))"
proof -
  let ?xs = "remove1 n (completion_list s)" and ?P = "\<lambda>k. EventTimeTicks s k \<le> t"
  have "sorted (map (EventTimeTicks s) ?xs)"
    using assms by (intro sorted_remove1_map) (simp add: async_inv_def)
  then have "\<forall>k\<in>set (dropWhile ?P ?xs). t < EventTimeTicks s k"
  proof (induction ?xs arbitrary: n)
    case Nil
    then show ?case by (metis dropWhile.simps(1) empty_iff list.set(1))
  next
    case (Cons y ys)
    have late: "\<forall>k\<in>set (dropWhile ?P zs). t < EventTimeTicks s k" if "sorted (map (EventTimeTicks s) zs)" for zs
      using that by (induction zs) (auto simp: not_le intro: less_le_trans)
    show ?case by (rule late) (rule Cons.prems)
  qed
  moreover have "\<forall>k\<in>set (takeWhile ?P ?xs). EventTimeTicks s k \<le> t" by (auto dest: set_takeWhileD)
  ultimately show ?thesis
    using EnqueueTicks_inv[OF assms] EnqueueTicks_list[OF assms, of n t]
    by (intro conjI exI[of _ "takeWhile ?P ?xs"] exI[of _ "dropWhile ?P ?xs"])
      (simp_all add: EnqueueTicks_frame)
qed

text \<open>
  The compare register follows the first completion: queueing and aborting keep it armed for
  the first one. The exception is queueing again, for a later time, the completion that is
  first: another one becomes first and the register keeps the old time, unless both are equal.
\<close>

theorem compare_register_follows_first:
  assumes "async_inv s" and "armed s"
  shows "armed (Completion_Abort n s)
    \<and> armed (EnqueueTicks n t s) =
       (if completion_list s \<noteq> [] \<and> hd (completion_list s) = n \<and> hd (completion_list (EnqueueTicks n t s)) \<noteq> n
        then EventTimeTicks s (hd (completion_list (EnqueueTicks n t s))) = EventTimeTicks s n
        else True)"
proof
  show "armed (Completion_Abort n s)" by (rule Abort_armed[OF assms])
  let ?s = "EnqueueTicks n t s"
  obtain m rest where new: "completion_list ?s = m # rest"
    using EnqueueTicks_nonempty[OF assms(1), of n t] by (cases "completion_list ?s") auto
  have nt: "next_time ?s = (if m = n then t else EventTimeTicks s m)"
    by (simp add: next_time_def new EnqueueTicks_frame)
  show "armed ?s = (if completion_list s \<noteq> [] \<and> hd (completion_list s) = n \<and> hd (completion_list ?s) \<noteq> n
        then EventTimeTicks s (hd (completion_list ?s)) = EventTimeTicks s n else True)"
  proof (cases "m = n")
    case True
    then show ?thesis using EnqueueTicks_log[OF assms(1), of n t] nt new by (simp add: armed_def)
  next
    case False
    then have log: "compare_log ?s = compare_log s"
      using EnqueueTicks_log[OF assms(1), of n t] new by simp
    from EnqueueTicks_hd[OF assms(1), of n t] False new
    obtain r where rm: "remove1 n (completion_list s) = m # r" by auto
    then obtain h tl where old: "completion_list s = h # tl" by (cases "completion_list s") auto
    then have "h \<noteq> n \<Longrightarrow> h = m" using rm by auto
    moreover have "hd (compare_log s) = EventTimeTicks s h" "compare_log s \<noteq> []"
      using assms(2) old by (simp_all add: armed_def next_time_def)
    ultimately show ?thesis using False log nt old new by (auto simp: armed_def)
  qed
qed

text \<open>
  The timer interrupt takes the first completion off the list whatever the time is, arms the
  register for the next one or for the idle value, and only then serves the completion: in the
  interrupt, or by queueing it behind the waiting continuations.
\<close>

theorem DequeueAndExec_serves_first:
  assumes "async_inv s" and "completion_list s = n # ns"
  shows "\<exists>s1. DequeueAndExec run s = Completion_Execute run n s1 \<and> completion_list s1 = ns
    \<and> continuation_list s1 = continuation_list s \<and> timer_event s1 \<and> armed s1 \<and> async_inv s1
    \<and> (\<forall>k\<in>set ns. EventTimeTicks s n \<le> EventTimeTicks s k)
    \<and> (\<not> ExecuteInISR s n \<and> EntryPoint (Callback s n) \<noteq> None \<longrightarrow>
         continuation_list (DequeueAndExec run s) = continuation_list s @ [n]
         \<and> armed (DequeueAndExec run s) \<and> async_inv (DequeueAndExec run s))"
proof -
  let ?s0 = "s\<lparr>timer_event := True, completion_list := ns\<rparr>"
  let ?s1 = "SetCompare (case ns of [] \<Rightarrow> HAL_Completion_IdleValue | m # _ \<Rightarrow> EventTimeTicks s m) ?s0"
  have run: "DequeueAndExec run s = Completion_Execute run n ?s1"
    using assms(2) by (simp add: DequeueAndExec_def Let_def)
  have "async_inv ?s0" using assms by (auto simp: async_inv_def)
  then have inv: "async_inv ?s1" by simp
  have arm: "armed ?s1" by (cases ns) (simp_all add: next_time_def)
  have notin: "n \<notin> set ns" "n \<notin> set (continuation_list s)" using assms by (auto simp: async_inv_def)
  have "continuation_list (DequeueAndExec run s) = continuation_list s @ [n]"
    "armed (DequeueAndExec run s)" "async_inv (DequeueAndExec run s)"
    if "\<not> ExecuteInISR s n" "EntryPoint (Callback s n) \<noteq> None"
  proof -
    have e: "DequeueAndExec run s = ?s1\<lparr>continuation_list := continuation_list s @ [n]\<rparr>"
      using that notin unfolding run
      by (simp add: Completion_Execute_def Continuation_Enqueue_def Let_def unlink_node_def frame_simps remove1_idem)
    show "continuation_list (DequeueAndExec run s) = continuation_list s @ [n]" unfolding e by simp
    show "armed (DequeueAndExec run s)" using arm unfolding e by (simp add: armed_def next_time_def cong: list.case_cong)
    show "async_inv (DequeueAndExec run s)" using inv notin unfolding e by (auto simp: async_inv_def frame_simps)
  qed
  moreover have "\<forall>k\<in>set ns. EventTimeTicks s n \<le> EventTimeTicks s k"
    using assms by (auto simp: async_inv_def)
  ultimately show ?thesis using run inv arm by (intro exI[of _ ?s1]) (simp add: frame_simps)
qed

text \<open>
  Waiting for interrupts leaves the register as it was when the first completion is due by
  the expiry time, and otherwise sets it to the expiry time and back: the register is armed
  for the first completion afterwards.
\<close>

theorem WaitForInterrupts_rearms:
  assumes "armed s"
  shows "armed (WaitForInterrupts expire s)
    \<and> (compare_log (WaitForInterrupts expire s) = compare_log s
       \<or> compare_log (WaitForInterrupts expire s) = next_time s # expire # compare_log s)"
  using assms
  by (auto simp: WaitForInterrupts_def frame_simps next_time_def armed_def split: list.splits)

text \<open>
  A run of the continuation queue: continuations are enqueued and the first one is taken off and
  executed, in any interleaving. \<open>enqueues_ok\<close> says of a run that a node is enqueued only while it
  is in neither list and when it has a function, \<open>enqueued\<close> gives the enqueued nodes in order.
\<close>

datatype cont_op = Op_enqueue nat | Op_execute

fun cont_run :: "run_callback \<Rightarrow> cont_op list \<Rightarrow> async \<Rightarrow> async" where
  "cont_run run [] s = s"
| "cont_run run (Op_enqueue n # ops) s = cont_run run ops (Continuation_Enqueue n s)"
| "cont_run run (Op_execute # ops) s = cont_run run ops (snd (Dequeue_And_Execute run s))"

fun enqueued :: "cont_op list \<Rightarrow> nat list" where
  "enqueued [] = []"
| "enqueued (Op_enqueue n # ops) = n # enqueued ops"
| "enqueued (Op_execute # ops) = enqueued ops"

fun enqueues_ok :: "run_callback \<Rightarrow> cont_op list \<Rightarrow> async \<Rightarrow> bool" where
  "enqueues_ok run [] s = True"
| "enqueues_ok run (Op_enqueue n # ops) s =
     (\<not> Continuation_IsLinked n s \<and> EntryPoint (Callback s n) \<noteq> None
      \<and> enqueues_ok run ops (Continuation_Enqueue n s))"
| "enqueues_ok run (Op_execute # ops) s = enqueues_ok run ops (snd (Dequeue_And_Execute run s))"

text \<open>
  The record of the call that executing a node makes; \<open>note_call f a\<close> is what is noted down of a
  call of the function \<open>f\<close> with the argument \<open>a\<close>.
\<close>

definition call_of :: "(nat \<Rightarrow> nat \<Rightarrow> 'c) \<Rightarrow> async \<Rightarrow> nat \<Rightarrow> 'c" where
  "call_of note_call s n = note_call (the (EntryPoint (Callback s n))) (Argument (Callback s n))"

lemma call_of_cong: "Callback s = Callback s' \<Longrightarrow> call_of note_call s = call_of note_call s'"
  by (simp add: call_of_def fun_eq_iff)

lemma Enqueue_unlinked:
  "\<not> Continuation_IsLinked n s \<Longrightarrow> EntryPoint (Callback s n) \<noteq> None \<Longrightarrow>
   Continuation_Enqueue n s = s\<lparr>continuation_list := continuation_list s @ [n]\<rparr>"
  by (simp add: Continuation_Enqueue_def Continuation_IsLinked_def Let_def unlink_node_def remove1_idem)

lemma cont_run_append: "cont_run run (xs @ ys) s = cont_run run ys (cont_run run xs s)"
  by (induction run xs s rule: cont_run.induct) simp_all

lemma enqueues_ok_executes: "enqueues_ok run (xs @ replicate k Op_execute) s = enqueues_ok run xs s"
proof (induction run xs s rule: enqueues_ok.induct)
  case (1 run s)
  show ?case by (induction k arbitrary: s) simp_all
qed simp_all

lemma enqueued_executes: "enqueued (xs @ replicate k Op_execute) = enqueued xs"
proof (induction xs rule: enqueued.induct)
  case 1
  show ?case by (induction k) simp_all
qed simp_all

text \<open>
  The functions of the continuations leave the queue and the callbacks of the nodes alone;
  \<open>calls\<close> is the record, kept by the functions themselves, of the calls made so far.
\<close>

definition records_calls :: "run_callback \<Rightarrow> (nat \<Rightarrow> nat \<Rightarrow> 'c) \<Rightarrow> (async \<Rightarrow> 'c list) \<Rightarrow> bool" where
  "records_calls run note_call calls \<longleftrightarrow>
     (\<forall>f a s. continuation_list (run f a s) = continuation_list s \<and> Callback (run f a s) = Callback s
        \<and> calls (run f a s) = calls s @ [note_call f a])
     \<and> (\<forall>s ns. calls (s\<lparr>continuation_list := ns\<rparr>) = calls s)"

lemma execute_first:
  assumes "records_calls run note_call calls" and "continuation_list s = n # ns" and "EntryPoint (Callback s n) \<noteq> None"
  defines "s' \<equiv> snd (Dequeue_And_Execute run s)"
  shows "continuation_list s' = ns" "Callback s' = Callback s" "calls s' = calls s @ [call_of note_call s n]"
  using assms by (auto simp: records_calls_def Dequeue_And_Execute_def callback_Execute_def call_of_def)

lemma calls_and_queue:
  assumes "records_calls run note_call calls"
  shows "(\<forall>n\<in>set (continuation_list s). EntryPoint (Callback s n) \<noteq> None) \<Longrightarrow> enqueues_ok run ops s \<Longrightarrow>
     Callback (cont_run run ops s) = Callback s
     \<and> (\<forall>n\<in>set (continuation_list (cont_run run ops s)). EntryPoint (Callback s n) \<noteq> None)
     \<and> calls (cont_run run ops s) @ map (call_of note_call s) (continuation_list (cont_run run ops s)) =
         calls s @ map (call_of note_call s) (continuation_list s @ enqueued ops)"
proof (induction ops arbitrary: s)
  case (Cons op ops)
  show ?case
  proof (cases op)
    case (Op_enqueue n)
    let ?s1 = "s\<lparr>continuation_list := continuation_list s @ [n]\<rparr>"
    have s1: "Continuation_Enqueue n s = ?s1" using Cons.prems(2) Op_enqueue by (simp add: Enqueue_unlinked)
    have c: "calls ?s1 = calls s" using assms by (simp add: records_calls_def)
    have co: "call_of note_call ?s1 = call_of note_call s" by (rule call_of_cong) simp
    have ok: "\<forall>n\<in>set (continuation_list ?s1). EntryPoint (Callback ?s1 n) \<noteq> None" "enqueues_ok run ops ?s1"
      using Cons.prems Op_enqueue unfolding s1[symmetric] by (auto simp: s1)
    have run: "cont_run run (op # ops) s = cont_run run ops ?s1" using Op_enqueue s1 by simp
    from Cons.IH[OF ok] show ?thesis unfolding run co c using Op_enqueue by simp
  next
    case Op_execute
    show ?thesis
    proof (cases "continuation_list s")
      case Nil
      then have "snd (Dequeue_And_Execute run s) = s" by (simp add: Dequeue_And_Execute_def)
      with Cons Op_execute show ?thesis by simp
    next
      case (Cons n ns)
      let ?s1 = "snd (Dequeue_And_Execute run s)"
      have "EntryPoint (Callback s n) \<noteq> None" using Cons.prems(1) Cons by simp
      note e = execute_first[OF assms Cons this]
      have co: "call_of note_call ?s1 = call_of note_call s" using e(2) by (rule call_of_cong)
      show ?thesis
        using Cons.IH[of ?s1] Cons.prems Op_execute Cons e co by simp
    qed
  qed
qed simp

lemma executes_empty_queue:
  assumes "records_calls run note_call calls"
  shows "(\<forall>n\<in>set (continuation_list s). EntryPoint (Callback s n) \<noteq> None) \<Longrightarrow>
    continuation_list (cont_run run (replicate (length (continuation_list s)) Op_execute) s) = []"
proof (induction "continuation_list s" arbitrary: s)
  case (Cons n ns)
  have "EntryPoint (Callback s n) \<noteq> None" using Cons.prems Cons.hyps(2)[symmetric] by simp
  note e = execute_first[OF assms Cons.hyps(2)[symmetric] this]
  show ?case using Cons.hyps(1)[of "snd (Dequeue_And_Execute run s)"] Cons.prems e Cons.hyps(2)[symmetric] by simp
qed simp

text \<open>
  C29. Continuations are executed in the order in which they were enqueued: over any interleaving
  of enqueuing and executing, the calls made so far followed by those of the nodes that still wait
  are the calls of the nodes waiting at the start followed by those of the enqueued nodes, in this
  order; and executing as often as nodes wait makes all these calls and empties the queue. A node
  is enqueued while it is in neither list and has a function, and the functions leave the queue
  and the callbacks of the nodes alone.
\<close>

theorem continuations_run_in_order:
  assumes "records_calls run note_call calls"
    and "\<forall>n\<in>set (continuation_list s). EntryPoint (Callback s n) \<noteq> None" and "enqueues_ok run ops s"
  shows "let s' = cont_run run ops s; n = length (continuation_list s');
      s'' = cont_run run (ops @ replicate n Op_execute) s in
    calls s' @ map (call_of note_call s) (continuation_list s') = calls s @ map (call_of note_call s) (continuation_list s @ enqueued ops)
    \<and> continuation_list s'' = [] \<and> calls s'' = calls s @ map (call_of note_call s) (continuation_list s @ enqueued ops)"
proof -
  let ?s' = "cont_run run ops s"
  let ?more = "replicate (length (continuation_list ?s')) Op_execute"
  note a = calls_and_queue[OF assms]
  have "continuation_list (cont_run run (ops @ ?more) s) = []"
    unfolding cont_run_append by (rule executes_empty_queue[OF assms(1)]) (use a in simp)
  with a calls_and_queue[OF assms(1,2), of "ops @ ?more"] assms(3) show ?thesis
    unfolding Let_def enqueues_ok_executes enqueued_executes by simp
qed

text \<open>The functions put their number into the compare log.\<close>

lemma continuations_run_in_order_witness:
  "compare_log (cont_run (\<lambda>f a. SetCompare (of_nat f)) [Op_enqueue 7, Op_enqueue 3, Op_execute, Op_enqueue 9, Op_execute, Op_execute]
     (sample_async\<lparr>compare_log := []\<rparr>)) = [9, 3, 7]"
proof -
  let ?s = "sample_async\<lparr>compare_log := []\<rparr>"
  let ?ops = "[Op_enqueue 7, Op_enqueue 3, Op_execute, Op_enqueue 9, Op_execute, Op_execute]"
  have r: "records_calls (\<lambda>f a. SetCompare (of_nat f)) (\<lambda>f a. of_nat f) (\<lambda>s. rev (compare_log s))"
    by (simp add: records_calls_def frame_simps)
  have q: "\<forall>n\<in>set (continuation_list ?s). EntryPoint (Callback ?s n) \<noteq> None"
    by (simp add: sample_async_def)
  have ok: "enqueues_ok (\<lambda>f a. SetCompare (of_nat f)) ?ops ?s"
    by (simp add: Continuation_IsLinked_def Continuation_Enqueue_def unlink_node_def Let_def
        Dequeue_And_Execute_def callback_Execute_def SetCompare_def sample_async_def)
  have e: "continuation_list (cont_run (\<lambda>f a. SetCompare (of_nat f)) ?ops ?s) = []"
    by (simp add: Continuation_Enqueue_def unlink_node_def Let_def
        Dequeue_And_Execute_def callback_Execute_def SetCompare_def sample_async_def)
  have c: "continuation_list ?s = []" "compare_log ?s = []" "map (call_of (\<lambda>f a. of_nat f) ?s) (enqueued ?ops) = [7, 3, 9 :: u64]"
    by (simp_all add: sample_async_def call_of_def)
  have "rev (compare_log (cont_run (\<lambda>f a. SetCompare (of_nat f)) ?ops ?s)) = [7, 3, 9]"
    using continuations_run_in_order[OF r q ok] unfolding Let_def e c append_Nil list.map append_Nil2 rev.simps by blast
  from this[unfolded rev_swap] show ?thesis by simp
qed

end
