(* ===== verification/Virtual_Timer.thy ===== *)
theory Virtual_Timer
  imports Async_Calls
begin

text \<open>
  Virtual timers: \<^verbatim>\<open>DeviceCode/include/Samraksh/VirtualTimer.h\<close> and
  \<^verbatim>\<open>DeviceCode/pal/Samraksh/VirtualTimer/VirtualTimer.cpp\<close>, with the interface of
  \<^verbatim>\<open>VirtualTimer_pal.cpp\<close> and the constants of the STM32H743 target
  (\<^verbatim>\<open>Solutions/STM32H743NUCLEO/platform_selector.h\<close>). Each of two hardware timers multiplexes twenty
  virtual ones. The clock, the conversion to ticks and the functions called back are parameters;
  the values given to the hardware compare register are kept in a log, and \<open>ASSERT\<close> is the
  empty macro of a release build. Shown here: timer ids stay unique; the compare register is set
  to the earliest running timer; a fired timer is served and re-armed or stopped; and where the
  code departs from that (a full table disables a hardware timer, no timer at all makes the
  interrupt read behind the table, stopping always reports success).
\<close>

section \<open>Constants of the target\<close>

definition SYSTEM_TIME :: u8 where "SYSTEM_TIME = 0"
definition DEFAULT_TIMER :: u8 where "DEFAULT_TIMER = 1"
definition g_CountOfHardwareTimers :: nat where "g_CountOfHardwareTimers = 2"
definition g_HardwareTimerIDs :: "u8 list" where "g_HardwareTimerIDs = [SYSTEM_TIME, DEFAULT_TIMER]"
definition g_VirtualTimerPerHardwareTimer :: u16 where "g_VirtualTimerPerHardwareTimer = 20"
definition VIRT_TIMER_INTERRUPT_CONTEXT_MARKER :: u8 where "VIRT_TIMER_INTERRUPT_CONTEXT_MARKER = 5"
definition cTimerMax64Value :: u64 where "cTimerMax64Value = 0x0000FFFFFFFFFFFF"
definition VT_CALLBACK_CONTINUATION_MAX :: nat where "VT_CALLBACK_CONTINUATION_MAX = 8"

datatype VirtualTimerReturnMessage = TimerReserved | TimerNotSupported | TimerSupported

definition return_code :: "VirtualTimerReturnMessage \<Rightarrow> int" where
  "return_code r = (case r of TimerReserved \<Rightarrow> - 2 | TimerNotSupported \<Rightarrow> - 1 | TimerSupported \<Rightarrow> 1)"

section \<open>State\<close>

record vt_info =
  m_timer_id :: u8
  m_start_delay :: u32
  m_period :: u32
  m_is_one_shot :: bool
  m_is_running :: bool
  m_reserved :: bool
  m_ticks_when_match :: u64
  m_callBack :: "nat option"

text \<open>The operator \<open>>\<close> of the class; \<open>set_m_ticks_when_match_\<close> tests an unsigned value for \<open>< 0\<close>.\<close>

definition vt_greater :: "vt_info \<Rightarrow> vt_info \<Rightarrow> bool" where
  "vt_greater a b = (m_ticks_when_match a > m_ticks_when_match b)"

definition set_ticks_when_match :: "u64 \<Rightarrow> vt_info \<Rightarrow> vt_info" where
  "set_ticks_when_match d v = v\<lparr>m_ticks_when_match := (if d < 0 then 0 else d)\<rparr>"

text \<open>\<open>alarm_log\<close>: the values given to \<open>CPU_Timer_SetCompare\<close> for this timer, the latest first.\<close>

record vt_mapper =
  m_current_timer_cnt :: u16
  m_current_timer_running :: u16
  is_callback_running :: bool
  VTM_hardwareTimerId :: u16
  g_VirtualTimerInfo :: "vt_info list"
  alarm_log :: "u64 list"

record ext_continuation =
  m_EntryPoint :: "nat option"
  m_Argument :: nat
  num_attempting_to_grab :: u8

record vt_world =
  virtualTimerMapper :: "vt_mapper list"
  isInitialized :: bool
  vtCallbackContinuationArray :: "ext_continuation list"
  vt_async :: async

definition upd_info :: "nat \<Rightarrow> (vt_info \<Rightarrow> vt_info) \<Rightarrow> vt_mapper \<Rightarrow> vt_mapper" where
  "upd_info i f m = m\<lparr>g_VirtualTimerInfo := (g_VirtualTimerInfo m)[i := f (g_VirtualTimerInfo m ! i)]\<rparr>"

section \<open>Operations of a mapper\<close>

definition VirtTimerIndexMapper :: "u8 \<Rightarrow> vt_mapper \<Rightarrow> nat option" where
  "VirtTimerIndexMapper timer_id m =
     find (\<lambda>i. m_timer_id (g_VirtualTimerInfo m ! i) = timer_id) [0..<unat (m_current_timer_cnt m)]"

text \<open>The loop over the ids, then the hardware timer's initialization, whose result is a parameter.\<close>

definition Mapper_Initialize :: "bool \<Rightarrow> u16 \<Rightarrow> vt_mapper \<Rightarrow> bool \<times> vt_mapper" where
  "Mapper_Initialize hw_ok temp_HWID m =
     (let m1 = m\<lparr>is_callback_running := False, VTM_hardwareTimerId := temp_HWID,
               g_VirtualTimerInfo :=
                 map (\<lambda>i. if i < unat (m_current_timer_cnt m)
                          then (g_VirtualTimerInfo m ! i)\<lparr>m_timer_id := 250\<rparr>
                          else g_VirtualTimerInfo m ! i) [0..<length (g_VirtualTimerInfo m)]\<rparr>
      in (hw_ok, m1))"

definition Mapper_UnInitialize :: "bool \<Rightarrow> vt_mapper \<Rightarrow> bool \<times> vt_mapper" where
  "Mapper_UnInitialize hw_ok m = (if \<not> hw_ok then (False, m) else (True, m\<lparr>m_current_timer_cnt := 0\<rparr>))"

text \<open>\<open>us\<close> converts microseconds to ticks of the system time, \<open>now\<close> reads that clock.\<close>

definition SetTimer ::
  "(u32 \<Rightarrow> u32) \<Rightarrow> u64 \<Rightarrow> u8 \<Rightarrow> u32 \<Rightarrow> u32 \<Rightarrow> bool \<Rightarrow> bool \<Rightarrow> nat option \<Rightarrow> vt_mapper \<Rightarrow> bool \<times> vt_mapper"
where
  "SetTimer us now timer_id start_delay period is_one_shot isreserved callback m =
     (let setup = (\<lambda>i m1.
        if m_reserved (g_VirtualTimerInfo m1 ! i) then (False, m1)
        else (let ticksPeriod = us period; ticksStartDelay = us start_delay in
          (True, upd_info i (\<lambda>v. set_ticks_when_match (now + ucast ticksPeriod + ucast ticksStartDelay)
             (v\<lparr>m_callBack := callback, m_period := ticksPeriod, m_is_one_shot := is_one_shot,
                m_is_running := False, m_reserved := isreserved, m_start_delay := ticksStartDelay,
                m_timer_id := timer_id\<rparr>)) m1)))
      in case VirtTimerIndexMapper timer_id m of
           Some i \<Rightarrow> setup i m
         | None \<Rightarrow>
             if m_current_timer_cnt m \<ge> g_VirtualTimerPerHardwareTimer then (False, m)
             else setup (unat (m_current_timer_cnt m)) (m\<lparr>m_current_timer_cnt := m_current_timer_cnt m + 1\<rparr>))"

definition ChangeTimer :: "(u32 \<Rightarrow> u32) \<Rightarrow> u8 \<Rightarrow> u32 \<Rightarrow> u32 \<Rightarrow> bool \<Rightarrow> vt_mapper \<Rightarrow> bool \<times> vt_mapper" where
  "ChangeTimer us timer_id start_delay period is_one_shot m =
     (case VirtTimerIndexMapper timer_id m of
        None \<Rightarrow> (False, m)
      | Some i \<Rightarrow> (True, upd_info i (\<lambda>v. v\<lparr>m_start_delay := us start_delay, m_period := us period,
                                         m_is_one_shot := is_one_shot\<rparr>) m))"

text \<open>The scan for the earliest running timer: the last one among equals.\<close>

fun alarm_scan :: "vt_info list \<Rightarrow> nat list \<Rightarrow> u64 \<times> nat \<times> bool \<Rightarrow> u64 \<times> nat \<times> bool" where
  "alarm_scan infos [] acc = acc"
| "alarm_scan infos (i # ixs) (smallestTicks, nextTimer, timerInQueue) =
     alarm_scan infos ixs
       (if m_is_running (infos ! i) then
          if m_ticks_when_match (infos ! i) \<le> smallestTicks
          then (m_ticks_when_match (infos ! i), i, True)
          else (smallestTicks, nextTimer, timerInQueue)
        else (smallestTicks, nextTimer, timerInQueue))"

definition next_alarm :: "vt_mapper \<Rightarrow> u64 \<times> nat \<times> bool" where
  "next_alarm m =
     alarm_scan (g_VirtualTimerInfo m) [0..<unat (m_current_timer_cnt m)] (cTimerMax64Value, 0, False)"

text \<open>No value is returned while a callback runs: \<open>None\<close>.\<close>

definition GetNextAlarm :: "vt_mapper \<Rightarrow> u64 option" where
  "GetNextAlarm m =
     (if \<not> is_callback_running m then
        (let (_, nextTimer, timerInQueue) = next_alarm m in
         Some (if timerInQueue then m_ticks_when_match (g_VirtualTimerInfo m ! nextTimer) else cTimerMax64Value))
      else None)"

definition SetAlarmForTheNextTimer :: "vt_mapper \<Rightarrow> vt_mapper" where
  "SetAlarmForTheNextTimer m =
     (if \<not> is_callback_running m then
        (let (_, nextTimer, timerInQueue) = next_alarm m in
         if timerInQueue
         then m\<lparr>alarm_log := m_ticks_when_match (g_VirtualTimerInfo m ! nextTimer) # alarm_log m,
                m_current_timer_running := of_nat nextTimer\<rparr>
         else m\<lparr>m_current_timer_running := g_VirtualTimerPerHardwareTimer\<rparr>)
      else m)"

definition StartTimer :: "u64 \<Rightarrow> u8 \<Rightarrow> vt_mapper \<Rightarrow> bool \<times> vt_mapper" where
  "StartTimer now timer_id m =
     (case VirtTimerIndexMapper timer_id m of
        None \<Rightarrow> (False, m)
      | Some i \<Rightarrow>
          if m_is_running (g_VirtualTimerInfo m ! i) then (True, m)
          else (True, SetAlarmForTheNextTimer
            (upd_info i (\<lambda>v. (set_ticks_when_match (now + ucast (m_period v) + ucast (m_start_delay v)) v)
                               \<lparr>m_is_running := True\<rparr>) m)))"

definition StopTimer :: "u8 \<Rightarrow> vt_mapper \<Rightarrow> bool \<times> vt_mapper" where
  "StopTimer timer_id m =
     (case VirtTimerIndexMapper timer_id m of
        None \<Rightarrow> (False, m)
      | Some i \<Rightarrow> (True, upd_info i (\<lambda>v. v\<lparr>m_is_running := False, m_reserved := False\<rparr>) m))"

definition Mapper_IsRunning :: "u8 \<Rightarrow> vt_mapper \<Rightarrow> bool" where
  "Mapper_IsRunning timer_id m =
     (case VirtTimerIndexMapper timer_id m of
        None \<Rightarrow> False | Some i \<Rightarrow> m_is_running (g_VirtualTimerInfo m ! i))"

section \<open>Continuations of fired timers\<close>

definition SetUsed :: "ext_continuation \<Rightarrow> bool \<times> ext_continuation" where
  "SetUsed c =
     (if num_attempting_to_grab c = 0 then
        (let c1 = c\<lparr>num_attempting_to_grab := num_attempting_to_grab c + 1\<rparr> in
         if num_attempting_to_grab c1 = 1 then (True, c1)
         else (False, c1\<lparr>num_attempting_to_grab := num_attempting_to_grab c1 - 1\<rparr>))
      else (False, c))"

definition SetUnUsed :: "ext_continuation \<Rightarrow> ext_continuation" where
  "SetUnUsed c = c\<lparr>m_Argument := 0, m_EntryPoint := None, num_attempting_to_grab := 0\<rparr>"

definition IsUsed :: "ext_continuation \<Rightarrow> bool" where
  "IsUsed c = (if num_attempting_to_grab c > 0 then False else if m_EntryPoint c = None then False else True)"

text \<open>
  Element \<open>i\<close> of the array is the continuation node \<open>i\<close>; its callback is the function
  \<open>HAL_CONTINUATION_ExtendedExecute\<close> with the element as argument. \<open>None\<close>: the node is linked
  when it is initialized.
\<close>

definition EXTENDED_EXECUTE :: nat where "EXTENDED_EXECUTE = 0"

definition InitializeExtendedCallback :: "nat \<Rightarrow> nat option \<Rightarrow> nat \<Rightarrow> vt_world \<Rightarrow> (bool \<times> vt_world) option" where
  "InitializeExtendedCallback i entry arg w =
     (let c = vtCallbackContinuationArray w ! i in
      if \<not> IsUsed c then
        (let (ok, c1) = SetUsed c in
         if ok then
           map_option
             (\<lambda>a. (True, w\<lparr>vtCallbackContinuationArray := (vtCallbackContinuationArray w)
                         [i := c1\<lparr>m_EntryPoint := entry, m_Argument := arg\<rparr>], vt_async := a\<rparr>))
             (InitializeCallback i (Some EXTENDED_EXECUTE) i (vt_async w))
         else Some (False, w\<lparr>vtCallbackContinuationArray := (vtCallbackContinuationArray w)[i := c1]\<rparr>))
      else Some (False, w))"

text \<open>What the function of a timer does to the system is a parameter \<open>run\<close>.\<close>

definition ExtendedExecute :: "(nat option \<Rightarrow> vt_world \<Rightarrow> vt_world) \<Rightarrow> nat \<Rightarrow> vt_world \<Rightarrow> vt_world" where
  "ExtendedExecute run i w =
     (let w1 = run (m_EntryPoint (vtCallbackContinuationArray w ! i)) w in
      w1\<lparr>vtCallbackContinuationArray := (vtCallbackContinuationArray w1)
          [i := SetUnUsed (vtCallbackContinuationArray w1 ! i)]\<rparr>)"

fun queue_scan :: "nat list \<Rightarrow> nat option \<Rightarrow> vt_world \<Rightarrow> (bool \<times> vt_world) option" where
  "queue_scan [] cb w = Some (False, w)"
| "queue_scan (i # ixs) cb w =
     (if \<not> Continuation_IsLinked i (vt_async w) then
        Option.bind (InitializeExtendedCallback i cb 0 w)
          (\<lambda>(ok, w1). if ok then Some (True, w1\<lparr>vt_async := Continuation_Enqueue i (vt_async w1)\<rparr>)
                      else queue_scan ixs cb w1)
      else queue_scan ixs cb w)"

definition queueVTCallback :: "vt_info \<Rightarrow> vt_world \<Rightarrow> (bool \<times> vt_world) option" where
  "queueVTCallback runningTimer w =
     queue_scan [0..<VT_CALLBACK_CONTINUATION_MAX] (m_callBack runningTimer) w"

section \<open>The interrupt\<close>

definition upd_mapper :: "nat \<Rightarrow> (vt_mapper \<Rightarrow> vt_mapper) \<Rightarrow> vt_world \<Rightarrow> vt_world" where
  "upd_mapper k f w = w\<lparr>virtualTimerMapper := (virtualTimerMapper w)[k := f (virtualTimerMapper w ! k)]\<rparr>"

text \<open>The mapper of a hardware timer as the code finds it: the byte 255 stands for none.\<close>

definition AssignMapper :: "u32 \<Rightarrow> u8" where
  "AssignMapper hardwareTimerId =
     (case find (\<lambda>i. hardwareTimerId = ucast (g_HardwareTimerIDs ! i)) [0..<g_CountOfHardwareTimers] of
        None \<Rightarrow> - 1 | Some i \<Rightarrow> of_nat i)"

text \<open>Serving the timer that fired; the clock is read again afterwards.\<close>

definition serve_timer ::
  "(nat option \<Rightarrow> vt_world \<Rightarrow> vt_world) \<Rightarrow> u64 \<Rightarrow> nat \<Rightarrow> nat \<Rightarrow> vt_world \<Rightarrow> vt_world option"
where
  "serve_timer run now2 k i w =
     (let t = g_VirtualTimerInfo (virtualTimerMapper w ! k) ! i in
      map_option
        (\<lambda>w1. let t1 = g_VirtualTimerInfo (virtualTimerMapper w1 ! k) ! i in
           upd_mapper k (upd_info i (\<lambda>v. if m_is_one_shot t1 then v\<lparr>m_is_running := False\<rparr>
             else set_ticks_when_match (now2 + ucast (m_period t1)) v)) w1)
        (if m_timer_id t \<le> VIRT_TIMER_INTERRUPT_CONTEXT_MARKER then Some (run (m_callBack t) w)
         else map_option snd (queueVTCallback t w)))"

text \<open>\<open>None\<close> is an access behind the mappers or behind the timers of a mapper.\<close>

definition VirtualTimerCallback ::
  "(nat option \<Rightarrow> vt_world \<Rightarrow> vt_world) \<Rightarrow> u64 \<Rightarrow> u64 \<Rightarrow> u32 \<Rightarrow> vt_world \<Rightarrow> vt_world option"
where
  "VirtualTimerCallback run now1 now2 currentHardwareTimerId w =
     (let currentVTMapper = AssignMapper currentHardwareTimerId; k = unat currentVTMapper in
      if int k = - 1 then Some w
      else if \<not> k < length (virtualTimerMapper w) then None
      else
        (let w1 = upd_mapper k (\<lambda>m. m\<lparr>is_callback_running := True\<rparr>) w;
             m = virtualTimerMapper w1 ! k in
         if m_current_timer_cnt m \<ge> g_VirtualTimerPerHardwareTimer then Some w1
         else if \<not> unat (m_current_timer_running m) < length (g_VirtualTimerInfo m) then None
         else
           (let i = unat (m_current_timer_running m); t = g_VirtualTimerInfo m ! i in
            map_option
              (\<lambda>w2. upd_mapper k (\<lambda>m. SetAlarmForTheNextTimer (m\<lparr>is_callback_running := False\<rparr>)) w2)
              (if m_is_running t \<and> m_ticks_when_match t < now1 then serve_timer run now2 k i w1
               else Some w1))))"

section \<open>The interface (VirtualTimer\_pal.cpp)\<close>

definition timer_mapper_scan :: "u8 \<Rightarrow> vt_mapper list \<Rightarrow> nat option" where
  "timer_mapper_scan timer_id ms =
     find (\<lambda>i. \<exists>j<unat g_VirtualTimerPerHardwareTimer. m_timer_id (g_VirtualTimerInfo (ms ! i) ! j) = timer_id)
       [0..<g_CountOfHardwareTimers]"

definition HardwareVirtTimerMapper :: "u8 \<Rightarrow> vt_world \<Rightarrow> nat" where
  "HardwareVirtTimerMapper timer_id w =
     (case timer_mapper_scan timer_id (virtualTimerMapper w) of None \<Rightarrow> 0 | Some i \<Rightarrow> i)"

text \<open>Calling an operation on one mapper.\<close>

definition on_mapper :: "nat \<Rightarrow> (vt_mapper \<Rightarrow> 'a \<times> vt_mapper) \<Rightarrow> vt_world \<Rightarrow> 'a \<times> vt_world" where
  "on_mapper k f w = (let (r, m) = f (virtualTimerMapper w ! k) in (r, upd_mapper k (\<lambda>_. m) w))"

fun initialize_mappers :: "(nat \<Rightarrow> bool) \<Rightarrow> nat list \<Rightarrow> vt_world \<Rightarrow> bool \<times> vt_world" where
  "initialize_mappers hw_ok [] w = (True, w\<lparr>isInitialized := True\<rparr>)"
| "initialize_mappers hw_ok (i # ixs) w =
     (let (ok, w1) = on_mapper i (Mapper_Initialize (hw_ok i) (ucast (g_HardwareTimerIDs ! i))) w in
      if \<not> ok then (False, w1) else initialize_mappers hw_ok ixs w1)"

definition VirtTimer_Initialize :: "(nat \<Rightarrow> bool) \<Rightarrow> vt_world \<Rightarrow> bool \<times> vt_world" where
  "VirtTimer_Initialize hw_ok w =
     (if isInitialized w then (True, w) else initialize_mappers hw_ok [0..<g_CountOfHardwareTimers] w)"

fun uninitialize_mappers :: "(nat \<Rightarrow> bool) \<Rightarrow> nat list \<Rightarrow> bool \<Rightarrow> vt_world \<Rightarrow> bool \<times> vt_world" where
  "uninitialize_mappers hw_ok [] ret w = (ret, w\<lparr>isInitialized := False\<rparr>)"
| "uninitialize_mappers hw_ok (i # ixs) ret w =
     (let (ok, w1) = on_mapper i (Mapper_UnInitialize (hw_ok i)) w in
      uninitialize_mappers hw_ok ixs (ret \<and> ok) (upd_mapper i (\<lambda>m. m\<lparr>m_current_timer_cnt := 0\<rparr>) w1))"

definition VirtTimer_UnInitialize :: "(nat \<Rightarrow> bool) \<Rightarrow> vt_world \<Rightarrow> bool \<times> vt_world" where
  "VirtTimer_UnInitialize hw_ok w = uninitialize_mappers hw_ok [0..<g_CountOfHardwareTimers] True w"

text \<open>\<open>None\<close>: no mapper has the hardware timer, and the code indexes with 255.\<close>

definition VirtTimer_SetTimer ::
  "(u32 \<Rightarrow> u32) \<Rightarrow> u64 \<Rightarrow> u8 \<Rightarrow> u32 \<Rightarrow> u32 \<Rightarrow> bool \<Rightarrow> bool \<Rightarrow> nat option \<Rightarrow> u8 \<Rightarrow> vt_world
   \<Rightarrow> (VirtualTimerReturnMessage \<times> vt_world) option"
where
  "VirtTimer_SetTimer us now timer_id start_delay period is_one_shot isreserved callback hardwareTimerId w =
     (let k = unat (AssignMapper (ucast hardwareTimerId)) in
      if \<not> k < length (virtualTimerMapper w) then None
      else let (ok, w1) = on_mapper k (SetTimer us now timer_id start_delay period is_one_shot isreserved callback) w
        in Some (if \<not> ok then TimerReserved else TimerSupported, w1))"

definition VirtTimer_Change ::
  "(u32 \<Rightarrow> u32) \<Rightarrow> u8 \<Rightarrow> u32 \<Rightarrow> u32 \<Rightarrow> bool \<Rightarrow> u8 \<Rightarrow> vt_world \<Rightarrow> VirtualTimerReturnMessage \<times> vt_world"
where
  "VirtTimer_Change us timer_id start_delay period is_one_shot hardwareTimerId w =
     (let (ok, w1) = on_mapper (HardwareVirtTimerMapper timer_id w)
            (ChangeTimer us timer_id start_delay period is_one_shot) w
      in (if \<not> ok then TimerNotSupported else TimerSupported, w1))"

definition VirtTimer_SetOrChangeTimer ::
  "(u32 \<Rightarrow> u32) \<Rightarrow> u64 \<Rightarrow> u8 \<Rightarrow> u32 \<Rightarrow> u32 \<Rightarrow> bool \<Rightarrow> bool \<Rightarrow> nat option \<Rightarrow> u8 \<Rightarrow> vt_world
   \<Rightarrow> (VirtualTimerReturnMessage \<times> vt_world) option"
where
  "VirtTimer_SetOrChangeTimer us now timer_id start_delay period is_one_shot isreserved callback hardwareTimerId w =
     map_option
       (\<lambda>(r, w1). if r \<noteq> TimerSupported
          then VirtTimer_Change us timer_id start_delay period is_one_shot hardwareTimerId w1 else (r, w1))
       (VirtTimer_SetTimer us now timer_id start_delay period is_one_shot isreserved callback hardwareTimerId w)"

definition VirtTimer_Start :: "u64 \<Rightarrow> u8 \<Rightarrow> vt_world \<Rightarrow> VirtualTimerReturnMessage \<times> vt_world" where
  "VirtTimer_Start now timer_id w =
     (let (ok, w1) = on_mapper (HardwareVirtTimerMapper timer_id w) (StartTimer now timer_id) w
      in (if \<not> ok then TimerNotSupported else TimerSupported, w1))"

text \<open>The result is a \<open>BOOL\<close>, 0 or 1, and is compared with the enumerator \<open>- 1\<close>.\<close>

definition VirtTimer_Stop :: "u8 \<Rightarrow> vt_world \<Rightarrow> VirtualTimerReturnMessage \<times> vt_world" where
  "VirtTimer_Stop timer_id w =
     (let (ok, w1) = on_mapper (HardwareVirtTimerMapper timer_id w) (StopTimer timer_id) w
      in (if BOOL_int ok = return_code TimerNotSupported then TimerNotSupported else TimerSupported, w1))"

definition VirtTimer_IsRunning :: "u8 \<Rightarrow> vt_world \<Rightarrow> bool" where
  "VirtTimer_IsRunning timer_id w =
     Mapper_IsRunning timer_id (virtualTimerMapper w ! HardwareVirtTimerMapper timer_id w)"

text \<open>The hardware timer whose functions the remaining calls of the interface use.\<close>

definition hardware_timer_of :: "u8 \<Rightarrow> vt_world \<Rightarrow> u16" where
  "hardware_timer_of timer_id w = ucast (g_HardwareTimerIDs ! HardwareVirtTimerMapper timer_id w)"

definition VirtTimer_GetTicks :: "(u16 \<Rightarrow> u64) \<Rightarrow> u8 \<Rightarrow> vt_world \<Rightarrow> u64" where
  "VirtTimer_GetTicks ticks timer_id w = ticks (hardware_timer_of timer_id w)"

definition VirtTimer_TicksToTime :: "(u64 \<Rightarrow> u16 \<Rightarrow> u64) \<Rightarrow> u8 \<Rightarrow> u64 \<Rightarrow> vt_world \<Rightarrow> u64" where
  "VirtTimer_TicksToTime f timer_id Ticks w = f Ticks (hardware_timer_of timer_id w)"

definition VirtTimer_TicksToMicroseconds :: "(u64 \<Rightarrow> u16 \<Rightarrow> u64) \<Rightarrow> u8 \<Rightarrow> u64 \<Rightarrow> vt_world \<Rightarrow> u64" where
  "VirtTimer_TicksToMicroseconds f timer_id Ticks w = f Ticks (hardware_timer_of timer_id w)"

definition VirtTimer_GetMaxTicks :: "(u16 \<Rightarrow> u32) \<Rightarrow> u8 \<Rightarrow> vt_world \<Rightarrow> u32" where
  "VirtTimer_GetMaxTicks max_ticks timer_id w = max_ticks (hardware_timer_of timer_id w)"

definition VirtTimer_GetNextAlarm :: "(u16 \<Rightarrow> u32) \<Rightarrow> vt_world \<Rightarrow> u64 option" where
  "VirtTimer_GetNextAlarm max_ticks w =
     (let nextAlarm = ucast (VirtTimer_GetMaxTicks max_ticks (g_HardwareTimerIDs ! 0) w) in
      map_option (\<lambda>retTime. if retTime < nextAlarm then retTime else nextAlarm)
        (GetNextAlarm (virtualTimerMapper w ! 0)))"

definition VirtTimer_UpdateAlarms :: "vt_world \<Rightarrow> vt_world" where
  "VirtTimer_UpdateAlarms w = upd_mapper 0 SetAlarmForTheNextTimer w"

section \<open>Invariant of a mapper\<close>

abbreviation info :: "vt_mapper \<Rightarrow> nat \<Rightarrow> vt_info" where
  "info m i \<equiv> g_VirtualTimerInfo m ! i"

abbreviation timers :: "vt_mapper \<Rightarrow> nat" where
  "timers m \<equiv> unat (m_current_timer_cnt m)"

text \<open>Twenty entries, of which the first ones are in use, under distinct ids.\<close>

definition vm_inv :: "vt_mapper \<Rightarrow> bool" where
  "vm_inv m \<longleftrightarrow> length (g_VirtualTimerInfo m) = 20 \<and> timers m \<le> 20
     \<and> (\<forall>i<timers m. \<forall>j<timers m. m_timer_id (info m i) = m_timer_id (info m j) \<longrightarrow> i = j)"

lemma vm_invD:
  assumes "vm_inv m"
  shows "length (g_VirtualTimerInfo m) = 20" "timers m \<le> 20"
  using assms by (simp_all add: vm_inv_def)

lemma vm_inv_unique:
  "vm_inv m \<Longrightarrow> i < timers m \<Longrightarrow> j < timers m \<Longrightarrow> m_timer_id (info m i) = m_timer_id (info m j) \<Longrightarrow> i = j"
  by (auto simp: vm_inv_def)

lemma upd_info_simps [simp]:
  "g_VirtualTimerInfo (upd_info i f m) = (g_VirtualTimerInfo m)[i := f (info m i)]"
  "m_current_timer_cnt (upd_info i f m) = m_current_timer_cnt m"
  "m_current_timer_running (upd_info i f m) = m_current_timer_running m"
  "is_callback_running (upd_info i f m) = is_callback_running m"
  "alarm_log (upd_info i f m) = alarm_log m"
  by (simp_all add: upd_info_def)

lemma set_ticks_simps [simp]:
  "m_ticks_when_match (set_ticks_when_match d v) = d" "m_timer_id (set_ticks_when_match d v) = m_timer_id v"
  "m_is_running (set_ticks_when_match d v) = m_is_running v" "m_reserved (set_ticks_when_match d v) = m_reserved v"
  "m_is_one_shot (set_ticks_when_match d v) = m_is_one_shot v" "m_period (set_ticks_when_match d v) = m_period v"
  "m_start_delay (set_ticks_when_match d v) = m_start_delay v" "m_callBack (set_ticks_when_match d v) = m_callBack v"
  by (simp_all add: set_ticks_when_match_def)

lemma VirtTimerIndexMapper_Some:
  "VirtTimerIndexMapper t m = Some i \<Longrightarrow> i < timers m \<and> m_timer_id (info m i) = t"
  by (simp add: VirtTimerIndexMapper_def find_upt_Some)

lemma VirtTimerIndexMapper_None:
  "VirtTimerIndexMapper t m = None \<longleftrightarrow> (\<forall>i<timers m. m_timer_id (info m i) \<noteq> t)"
  by (simp add: VirtTimerIndexMapper_def find_upt_None)

lemma VirtTimerIndexMapper_found:
  "vm_inv m \<Longrightarrow> i < timers m \<Longrightarrow> VirtTimerIndexMapper (m_timer_id (info m i)) m = Some i"
  unfolding VirtTimerIndexMapper_def
  by (rule find_upt_unique) (auto dest: vm_inv_unique)

lemma vm_inv_frame:
  assumes "vm_inv m" and "m_current_timer_cnt m' = m_current_timer_cnt m"
    and "map m_timer_id (g_VirtualTimerInfo m') = map m_timer_id (g_VirtualTimerInfo m)"
  shows "vm_inv m'"
proof -
  have len: "length (g_VirtualTimerInfo m') = 20" using assms vm_invD(1)[OF assms(1)] by (metis length_map)
  have id: "m_timer_id (info m' i) = m_timer_id (info m i)" if "i < timers m" for i
    using that assms(3) len vm_invD[OF assms(1)] by (metis nth_map order_less_le_trans)
  show ?thesis using assms(1) len unfolding vm_inv_def assms(2) by (simp add: id)
qed

lemma vm_inv_upd [inv_intros]:
  assumes "vm_inv m" and "m_timer_id (f (info m i)) = m_timer_id (info m i)"
  shows "vm_inv (upd_info i f m)"
proof (rule vm_inv_frame[OF assms(1)])
  show "map m_timer_id (g_VirtualTimerInfo (upd_info i f m)) = map m_timer_id (g_VirtualTimerInfo m)"
    using assms(2) by (cases "i < length (g_VirtualTimerInfo m)") (simp_all add: map_update list_update_same_conv list_update_beyond)
qed simp

lemma SetAlarm_frame [frame_simps]:
  "g_VirtualTimerInfo (SetAlarmForTheNextTimer m) = g_VirtualTimerInfo m"
  "m_current_timer_cnt (SetAlarmForTheNextTimer m) = m_current_timer_cnt m"
  "is_callback_running (SetAlarmForTheNextTimer m) = is_callback_running m"
  by (simp_all add: SetAlarmForTheNextTimer_def split: prod.splits)

lemma vm_inv_SetAlarm [inv_intros]: "vm_inv m \<Longrightarrow> vm_inv (SetAlarmForTheNextTimer m)"
  by (rule vm_inv_frame) (simp_all add: frame_simps)

lemma vm_inv_callback [inv_intros]: "vm_inv m \<Longrightarrow> vm_inv (m\<lparr>is_callback_running := b\<rparr>)"
  by (rule vm_inv_frame) simp_all

section \<open>The earliest running timer\<close>

lemma alarm_scan_append: "alarm_scan ts (xs @ ys) acc = alarm_scan ts ys (alarm_scan ts xs acc)"
  by (induction xs arbitrary: acc) auto

lemma alarm_scan_spec:
  "case alarm_scan ts [0..<n] (smax, 0, False) of (t, k, found) \<Rightarrow>
     if found
     then k < n \<and> m_is_running (ts ! k) \<and> t = m_ticks_when_match (ts ! k) \<and> t \<le> smax
       \<and> (\<forall>i<n. m_is_running (ts ! i) \<longrightarrow>
            t \<le> m_ticks_when_match (ts ! i) \<and> (k < i \<longrightarrow> t < m_ticks_when_match (ts ! i)))
     else t = smax \<and> (\<forall>i<n. m_is_running (ts ! i) \<longrightarrow> smax < m_ticks_when_match (ts ! i))"
proof (induction n)
  case 0
  then show ?case by simp
next
  case (Suc n)
  obtain t k found where r: "alarm_scan ts [0..<n] (smax, 0, False) = (t, k, found)" by (metis prod_cases3)
  have step: "alarm_scan ts [0..<Suc n] (smax, 0, False) = alarm_scan ts [n] (t, k, found)"
    by (simp add: alarm_scan_append r)
  show ?case
  proof (cases "m_is_running (ts ! n) \<and> m_ticks_when_match (ts ! n) \<le> t")
    case True
    then have res: "alarm_scan ts [0..<Suc n] (smax, 0, False) = (m_ticks_when_match (ts ! n), n, True)"
      unfolding step by simp
    have "m_ticks_when_match (ts ! n) \<le> m_ticks_when_match (ts ! i)" if "i < n" "m_is_running (ts ! i)" for i
      using Suc[unfolded r] True that by (cases found) (auto intro: order_trans less_imp_le)
    moreover have "m_ticks_when_match (ts ! n) \<le> smax"
      using Suc[unfolded r] True by (cases found) (auto intro: order_trans)
    ultimately show ?thesis unfolding res using True by (auto simp: less_Suc_eq)
  next
    case False
    then have res: "alarm_scan ts [0..<Suc n] (smax, 0, False) = (t, k, found)"
      unfolding step by auto
    show ?thesis unfolding res using Suc[unfolded r] False
      by (cases found) (auto simp: less_Suc_eq not_le)
  qed
qed

definition due_timers :: "vt_mapper \<Rightarrow> nat set" where
  "due_timers m = {i. i < timers m \<and> m_is_running (info m i) \<and> m_ticks_when_match (info m i) \<le> cTimerMax64Value}"

lemma next_alarm_cases:
  obtains (found) k where "next_alarm m = (m_ticks_when_match (info m k), k, True)" "k \<in> due_timers m"
      "\<forall>i<timers m. m_is_running (info m i) \<longrightarrow> m_ticks_when_match (info m k) \<le> m_ticks_when_match (info m i)
         \<and> (k < i \<longrightarrow> m_ticks_when_match (info m k) < m_ticks_when_match (info m i))"
  | (idle) t k where "next_alarm m = (t, k, False)" "due_timers m = {}"
proof -
  obtain t k b where r: "alarm_scan (g_VirtualTimerInfo m) [0..<timers m] (cTimerMax64Value, 0, False) = (t, k, b)"
    by (metis prod_cases3)
  have spec: "if b
     then k < timers m \<and> m_is_running (info m k) \<and> t = m_ticks_when_match (info m k) \<and> t \<le> cTimerMax64Value
       \<and> (\<forall>i<timers m. m_is_running (info m i) \<longrightarrow>
            t \<le> m_ticks_when_match (info m i) \<and> (k < i \<longrightarrow> t < m_ticks_when_match (info m i)))
     else t = cTimerMax64Value \<and> (\<forall>i<timers m. m_is_running (info m i) \<longrightarrow> cTimerMax64Value < m_ticks_when_match (info m i))"
    using alarm_scan_spec[where ts = "g_VirtualTimerInfo m" and n = "timers m" and smax = cTimerMax64Value] unfolding r by simp
  show ?thesis
  proof (cases b)
    case True
    with spec show ?thesis using r by (intro found[of k]) (auto simp: next_alarm_def due_timers_def)
  next
    case False
    with spec have "due_timers m = {}" by (auto simp: due_timers_def)
    with False r show ?thesis by (intro idle[of t k]) (simp_all add: next_alarm_def)
  qed
qed

text \<open>The compare register is not later than any running timer, and no callback is under way.\<close>

definition alarm_ready :: "vt_mapper \<Rightarrow> bool" where
  "alarm_ready m \<longleftrightarrow> \<not> is_callback_running m
     \<and> (\<forall>i\<in>due_timers m. alarm_log m \<noteq> [] \<and> hd (alarm_log m) \<le> m_ticks_when_match (info m i))"

lemma SetAlarm_ready: "\<not> is_callback_running m \<Longrightarrow> alarm_ready (SetAlarmForTheNextTimer m)"
  by (cases rule: next_alarm_cases[of m])
    (auto simp: SetAlarmForTheNextTimer_def alarm_ready_def due_timers_def)

lemma alarm_ready_fewer:
  assumes "alarm_ready m" and "\<not> is_callback_running m'" and "alarm_log m' = alarm_log m"
    and "\<And>i. i \<in> due_timers m' \<Longrightarrow> i \<in> due_timers m \<and> m_ticks_when_match (info m' i) = m_ticks_when_match (info m i)"
  shows "alarm_ready m'"
  using assms unfolding alarm_ready_def by auto

section \<open>Operations keep the invariant and the alarm\<close>

text \<open>\<open>SetTimer\<close>: an existing timer, a new entry, an entry still marked reserved, or a full table.\<close>

definition configure :: "(u32 \<Rightarrow> u32) \<Rightarrow> u64 \<Rightarrow> u8 \<Rightarrow> u32 \<Rightarrow> u32 \<Rightarrow> bool \<Rightarrow> bool \<Rightarrow> nat option \<Rightarrow> vt_info \<Rightarrow> vt_info" where
  "configure us now tid sd per os res cb v =
     set_ticks_when_match (now + ucast (us per) + ucast (us sd))
       (v\<lparr>m_callBack := cb, m_period := us per, m_is_one_shot := os, m_is_running := False,
          m_reserved := res, m_start_delay := us sd, m_timer_id := tid\<rparr>)"

lemma configure_simps [simp]:
  "m_timer_id (configure us now tid sd per os res cb v) = tid"
  "m_is_running (configure us now tid sd per os res cb v) = False"
  by (simp_all add: configure_def)

lemma SetTimer_cases:
  assumes "vm_inv m"
  obtains (change) i where "i < timers m" "m_timer_id (info m i) = tid" "\<not> m_reserved (info m i)"
      "SetTimer us now tid sd per os res cb m = (True, upd_info i (configure us now tid sd per os res cb) m)"
  | (busy) i where "i < timers m" "m_timer_id (info m i) = tid" "m_reserved (info m i)"
      "SetTimer us now tid sd per os res cb m = (False, m)"
  | (new) "\<forall>i<timers m. m_timer_id (info m i) \<noteq> tid" "timers m < 20" "\<not> m_reserved (info m (timers m))"
      "SetTimer us now tid sd per os res cb m = (True, upd_info (timers m) (configure us now tid sd per os res cb)
         (m\<lparr>m_current_timer_cnt := m_current_timer_cnt m + 1\<rparr>))"
  | (leak) "\<forall>i<timers m. m_timer_id (info m i) \<noteq> tid" "timers m < 20" "m_reserved (info m (timers m))"
      "SetTimer us now tid sd per os res cb m = (False, m\<lparr>m_current_timer_cnt := m_current_timer_cnt m + 1\<rparr>)"
  | (full) "\<forall>i<timers m. m_timer_id (info m i) \<noteq> tid" "timers m = 20"
      "SetTimer us now tid sd per os res cb m = (False, m)"
proof (cases "VirtTimerIndexMapper tid m")
  case (Some i)
  note VirtTimerIndexMapper_Some[OF Some]
  then show ?thesis using change[of i] busy[of i] Some
    by (cases "m_reserved (info m i)") (simp_all add: SetTimer_def Let_def configure_def[abs_def])
next
  case None
  have per: "unat g_VirtualTimerPerHardwareTimer = 20" by (simp add: g_VirtualTimerPerHardwareTimer_def)
  note missing = None[unfolded VirtTimerIndexMapper_None]
  show ?thesis
  proof (cases "m_current_timer_cnt m \<ge> g_VirtualTimerPerHardwareTimer")
    case True
    then have "timers m = 20" using vm_invD(2)[OF assms] per by (simp add: word_le_nat_alt)
    with None True missing show ?thesis by (intro full) (simp_all add: SetTimer_def)
  next
    case False
    then have lt: "timers m < 20" using per by (simp add: word_le_nat_alt)
    show ?thesis
    proof (cases "m_reserved (info m (timers m))")
      case True
      with None False missing lt show ?thesis by (intro leak) (simp_all add: SetTimer_def Let_def)
    next
      case free: False
      with None False missing lt show ?thesis
        by (intro new) (simp_all add: SetTimer_def Let_def configure_def[abs_def])
    qed
  qed
qed

lemma timers_plus_one: "timers m < 20 \<Longrightarrow> unat (m_current_timer_cnt m + 1) = timers m + 1"
  by (rule unat_plus_one[where n = 20]) (simp add: word_less_nat_alt)

lemma SetTimer_inv [inv_intros]:
  assumes "vm_inv m" and "SetTimer us now tid sd per os res cb m = (True, m')"
  shows "vm_inv m'"
  using assms(1)
proof (cases rule: SetTimer_cases[where us = us and now = now and tid = tid and sd = sd and per = per
      and os = os and res = res and cb = cb])
  case (change i)
  with assms vm_inv_upd[OF assms(1), of "configure us now tid sd per os res cb" i] show ?thesis by simp
next
  case new
  let ?m1 = "m\<lparr>m_current_timer_cnt := m_current_timer_cnt m + 1\<rparr>"
  have m': "m' = upd_info (timers m) (configure us now tid sd per os res cb) ?m1" using new(4) assms(2) by simp
  have cnt: "timers m' = timers m + 1" unfolding m' using timers_plus_one[OF new(2)] by simp
  have id: "m_timer_id (info m' i) = (if i = timers m then tid else m_timer_id (info m i))" if "i < timers m'" for i
    using that new(2) vm_invD[OF assms(1)] unfolding cnt by (simp add: m' nth_list_update)
  show ?thesis
    unfolding vm_inv_def
  proof (intro conjI allI impI)
    show "length (g_VirtualTimerInfo m') = 20" using vm_invD[OF assms(1)] by (simp add: m')
    show "timers m' \<le> 20" using cnt new(2) by simp
    fix i j assume ij: "i < timers m'" "j < timers m'" "m_timer_id (info m' i) = m_timer_id (info m' j)"
    then show "i = j"
      using new(1) vm_inv_unique[OF assms(1), of i j] unfolding cnt id[OF ij(1)] id[OF ij(2)]
      by (auto simp: less_Suc_eq split: if_splits)
  qed
qed (use assms in simp_all)

lemma due_timers_upd:
  "i < length (g_VirtualTimerInfo m) \<Longrightarrow> k \<in> due_timers (upd_info i f m) \<longleftrightarrow>
     k < timers m \<and> (if k = i then m_is_running (f (info m i)) \<and> m_ticks_when_match (f (info m i)) \<le> cTimerMax64Value
       else m_is_running (info m k) \<and> m_ticks_when_match (info m k) \<le> cTimerMax64Value)"
  by (auto simp: due_timers_def nth_list_update)

lemma alarm_ready_stop:
  assumes "alarm_ready m" and "i < length (g_VirtualTimerInfo m)" and "\<not> m_is_running (f (info m i))"
  shows "alarm_ready (upd_info i f m)"
  using assms(1)
proof (rule alarm_ready_fewer)
  fix k assume "k \<in> due_timers (upd_info i f m)"
  then show "k \<in> due_timers m \<and> m_ticks_when_match (info (upd_info i f m) k) = m_ticks_when_match (info m k)"
    using assms(2,3) unfolding due_timers_upd[OF assms(2)] by (auto simp: due_timers_def split: if_splits)
qed (use assms(1) in \<open>simp_all add: alarm_ready_def\<close>)

lemma SetTimer_ready:
  assumes "vm_inv m" and "alarm_ready m" and "SetTimer us now tid sd per os res cb m = (True, m')"
  shows "alarm_ready m'"
  using assms(1)
proof (cases rule: SetTimer_cases[where us = us and now = now and tid = tid and sd = sd and per = per
      and os = os and res = res and cb = cb])
  case (change i)
  then show ?thesis
    using assms alarm_ready_stop[OF assms(2), of i "configure us now tid sd per os res cb"] vm_invD[OF assms(1)] by simp
next
  case new
  let ?m1 = "m\<lparr>m_current_timer_cnt := m_current_timer_cnt m + 1\<rparr>"
  have m': "m' = upd_info (timers m) (configure us now tid sd per os res cb) ?m1" using new(4) assms(3) by simp
  have len: "timers m < length (g_VirtualTimerInfo ?m1)" using new(2) vm_invD[OF assms(1)] by simp
  show ?thesis
  proof (rule alarm_ready_fewer[OF assms(2)])
    fix k assume k: "k \<in> due_timers m'"
    then have "k < timers m"
      unfolding m' due_timers_upd[OF len] using timers_plus_one[OF new(2)] by (auto split: if_splits)
    with k show "k \<in> due_timers m \<and> m_ticks_when_match (info m' k) = m_ticks_when_match (info m k)"
      unfolding m' due_timers_upd[OF len] by (auto simp: due_timers_def)
  qed (use assms(2) in \<open>simp_all add: alarm_ready_def m'\<close>)
qed (use assms in simp_all)

lemma StartTimer_inv [inv_intros]: "vm_inv m \<Longrightarrow> vm_inv (snd (StartTimer now t m))"
  unfolding StartTimer_def
  by (auto split: option.splits intro!: vm_inv_SetAlarm vm_inv_upd)

lemma StopTimer_inv [inv_intros]: "vm_inv m \<Longrightarrow> vm_inv (snd (StopTimer t m))"
  unfolding StopTimer_def by (auto split: option.splits intro!: vm_inv_upd)

lemma ChangeTimer_inv [inv_intros]: "vm_inv m \<Longrightarrow> vm_inv (snd (ChangeTimer us t sd p os m))"
  unfolding ChangeTimer_def by (auto split: option.splits intro!: vm_inv_upd)

lemma StartTimer_ready: "alarm_ready m \<Longrightarrow> alarm_ready (snd (StartTimer now t m))"
  unfolding StartTimer_def
  by (auto split: option.splits intro!: SetAlarm_ready simp: alarm_ready_def[of m])

lemma StopTimer_ready:
  assumes "vm_inv m" and "alarm_ready m"
  shows "alarm_ready (snd (StopTimer t m))"
proof (cases "VirtTimerIndexMapper t m")
  case (Some i)
  with VirtTimerIndexMapper_Some[OF Some] vm_invD[OF assms(1)] show ?thesis
    by (simp add: StopTimer_def) (rule alarm_ready_stop[OF assms(2)]; simp)
qed (use assms in \<open>simp add: StopTimer_def\<close>)

lemma ChangeTimer_ready:
  assumes "vm_inv m" and "alarm_ready m"
  shows "alarm_ready (snd (ChangeTimer us t sd p os m))"
proof (cases "VirtTimerIndexMapper t m")
  case (Some i)
  have len: "i < length (g_VirtualTimerInfo m)" using VirtTimerIndexMapper_Some[OF Some] vm_invD[OF assms(1)] by simp
  let ?f = "\<lambda>v. v\<lparr>m_start_delay := us sd, m_period := us p, m_is_one_shot := os\<rparr>"
  have "alarm_ready (upd_info i ?f m)"
  proof (rule alarm_ready_fewer[OF assms(2)])
    fix k assume "k \<in> due_timers (upd_info i ?f m)"
    then show "k \<in> due_timers m \<and> m_ticks_when_match (info (upd_info i ?f m) k) = m_ticks_when_match (info m k)"
      unfolding due_timers_upd[OF len] using len by (auto simp: due_timers_def nth_list_update split: if_splits)
  qed (use assms(2) in \<open>simp_all add: alarm_ready_def\<close>)
  with Some show ?thesis by (simp add: ChangeTimer_def)
qed (use assms in \<open>simp add: ChangeTimer_def\<close>)

section \<open>Continuations and the interrupt\<close>

text \<open>An array element that can take a fired timer.\<close>

definition slot_free :: "vt_world \<Rightarrow> nat \<Rightarrow> bool" where
  "slot_free w i \<longleftrightarrow> \<not> Continuation_IsLinked i (vt_async w)
     \<and> num_attempting_to_grab (vtCallbackContinuationArray w ! i) = 0
     \<and> m_EntryPoint (vtCallbackContinuationArray w ! i) = None"

lemma InitializeExtended_free:
  "slot_free w i \<Longrightarrow> InitializeExtendedCallback i cb arg w =
     Some (True, w\<lparr>vtCallbackContinuationArray := (vtCallbackContinuationArray w)
         [i := (vtCallbackContinuationArray w ! i)\<lparr>num_attempting_to_grab := 1, m_EntryPoint := cb, m_Argument := arg\<rparr>],
       vt_async := (vt_async w)\<lparr>Callback := (Callback (vt_async w))(i := \<lparr>EntryPoint = Some EXTENDED_EXECUTE, Argument = i\<rparr>)\<rparr>\<rparr>)"
  by (simp add: slot_free_def InitializeExtendedCallback_def IsUsed_def SetUsed_def InitializeCallback_def Let_def)

lemma InitializeExtended_taken:
  assumes "\<not> slot_free w i" and "\<not> Continuation_IsLinked i (vt_async w)"
  shows "InitializeExtendedCallback i cb arg w = Some (False, w)"
  using assms
  by (auto simp: slot_free_def InitializeExtendedCallback_def IsUsed_def SetUsed_def Let_def word_gt_0)

lemma queue_scan_free:
  "(\<forall>i\<in>set ixs. \<not> slot_free w i) \<Longrightarrow> queue_scan ixs cb w = Some (False, w)"
  by (induction ixs) (simp_all add: InitializeExtended_taken)

definition take_slot :: "nat \<Rightarrow> nat option \<Rightarrow> vt_world \<Rightarrow> vt_world" where
  "take_slot i cb w =
     w\<lparr>vtCallbackContinuationArray := (vtCallbackContinuationArray w)
         [i := (vtCallbackContinuationArray w ! i)\<lparr>num_attempting_to_grab := 1, m_EntryPoint := cb, m_Argument := 0\<rparr>],
       vt_async := Continuation_Enqueue i ((vt_async w)\<lparr>Callback :=
         (Callback (vt_async w))(i := \<lparr>EntryPoint = Some EXTENDED_EXECUTE, Argument = i\<rparr>)\<rparr>)\<rparr>"

lemma queue_scan_taken:
  "(\<exists>i\<in>set ixs. slot_free w i) \<Longrightarrow>
   \<exists>i\<in>set ixs. slot_free w i \<and> queue_scan ixs cb w = Some (True, take_slot i cb w)"
proof (induction ixs)
  case (Cons i ixs)
  show ?case
  proof (cases "slot_free w i")
    case True
    then have "queue_scan (i # ixs) cb w = Some (True, take_slot i cb w)"
      using InitializeExtended_free[OF True, of cb 0] by (simp add: slot_free_def take_slot_def)
    with True show ?thesis by auto
  next
    case False
    then have "queue_scan (i # ixs) cb w = queue_scan ixs cb w"
      by (cases "Continuation_IsLinked i (vt_async w)") (simp_all add: InitializeExtended_taken)
    with Cons False show ?thesis by auto
  qed
qed simp

lemma queueVTCallback_total:
  "\<exists>ok w'. queueVTCallback t w = Some (ok, w') \<and> virtualTimerMapper w' = virtualTimerMapper w"
proof (cases "\<exists>i\<in>set [0..<VT_CALLBACK_CONTINUATION_MAX]. slot_free w i")
  case True
  from queue_scan_taken[OF this, of "m_callBack t"] show ?thesis
    by (auto simp: queueVTCallback_def take_slot_def)
next
  case False
  with queue_scan_free[of "[0..<VT_CALLBACK_CONTINUATION_MAX]" w "m_callBack t"]
  have "queueVTCallback t w = Some (False, w)" by (simp add: queueVTCallback_def)
  then show ?thesis by blast
qed

lemma upd_mapper_simps [simp]:
  "virtualTimerMapper (upd_mapper k f w) = (virtualTimerMapper w)[k := f (virtualTimerMapper w ! k)]"
  "vt_async (upd_mapper k f w) = vt_async w"
  "vtCallbackContinuationArray (upd_mapper k f w) = vtCallbackContinuationArray w"
  by (simp_all add: upd_mapper_def)

text \<open>What serving does to the entry of the timer.\<close>

definition rearm :: "u64 \<Rightarrow> vt_info \<Rightarrow> vt_info" where
  "rearm now v = (if m_is_one_shot v then v\<lparr>m_is_running := False\<rparr>
                  else set_ticks_when_match (now + ucast (m_period v)) v)"

lemma serve_timer_mapper:
  assumes "k < length (virtualTimerMapper w)"
    and "\<And>cb w. virtualTimerMapper (run cb w) = virtualTimerMapper w"
  shows "\<exists>w'. serve_timer run now2 k i w = Some w'
    \<and> virtualTimerMapper w' = (virtualTimerMapper w)[k := upd_info i (rearm now2) (virtualTimerMapper w ! k)]"
proof -
  let ?t = "info (virtualTimerMapper w ! k) i"
  obtain w1 where w1: "(if m_timer_id ?t \<le> VIRT_TIMER_INTERRUPT_CONTEXT_MARKER then Some (run (m_callBack ?t) w)
         else map_option snd (queueVTCallback ?t w)) = Some w1" "virtualTimerMapper w1 = virtualTimerMapper w"
    using assms(2) queueVTCallback_total[of ?t w]
    by (cases "m_timer_id ?t \<le> VIRT_TIMER_INTERRUPT_CONTEXT_MARKER") auto
  have "upd_info i (\<lambda>v. if m_is_one_shot ?t then v\<lparr>m_is_running := False\<rparr>
      else set_ticks_when_match (now2 + ucast (m_period ?t)) v) (virtualTimerMapper w ! k)
    = upd_info i (rearm now2) (virtualTimerMapper w ! k)"
    by (simp add: upd_info_def rearm_def)
  with w1 show ?thesis by (simp add: serve_timer_def Let_def cong: if_cong)
qed

text \<open>
  What becomes of the rest of the system when a timer is served: in the interrupt context its
  function is run, otherwise it is put in a free continuation, or lost when all are taken.
\<close>

definition served :: "(nat option \<Rightarrow> vt_world \<Rightarrow> vt_world) \<Rightarrow> vt_info \<Rightarrow> vt_world \<Rightarrow> vt_world \<Rightarrow> bool" where
  "served run t w w' \<longleftrightarrow>
     (if m_timer_id t \<le> VIRT_TIMER_INTERRUPT_CONTEXT_MARKER then w' = run (m_callBack t) w
      else if \<exists>i<VT_CALLBACK_CONTINUATION_MAX. slot_free w i
      then \<exists>i<VT_CALLBACK_CONTINUATION_MAX. slot_free w i \<and> w' = take_slot i (m_callBack t) w
      else w' = w)"

lemma queueVTCallback_served:
  assumes "\<not> m_timer_id t \<le> VIRT_TIMER_INTERRUPT_CONTEXT_MARKER"
  shows "\<exists>ok w'. queueVTCallback t w = Some (ok, w') \<and> served run t w w'"
proof (cases "\<exists>i\<in>set [0..<VT_CALLBACK_CONTINUATION_MAX]. slot_free w i")
  case True
  from queue_scan_taken[OF this, of "m_callBack t"] obtain i where
    "i < VT_CALLBACK_CONTINUATION_MAX" "slot_free w i"
    "queueVTCallback t w = Some (True, take_slot i (m_callBack t) w)" by (auto simp: queueVTCallback_def)
  with assms show ?thesis unfolding served_def by auto
next
  case False
  with queue_scan_free[of "[0..<VT_CALLBACK_CONTINUATION_MAX]" w "m_callBack t"] assms show ?thesis
    by (auto simp: queueVTCallback_def served_def)
qed

lemma serve_timer_served:
  assumes "serve_timer run now2 k i w = Some w'" and "t = info (virtualTimerMapper w ! k) i"
  shows "\<exists>ws. served run t w ws \<and> (\<exists>ms. w' = ws\<lparr>virtualTimerMapper := ms\<rparr>)"
proof (cases "m_timer_id t \<le> VIRT_TIMER_INTERRUPT_CONTEXT_MARKER")
  case True
  with assms show ?thesis
    by (auto simp: serve_timer_def Let_def served_def upd_mapper_def)
next
  case False
  from queueVTCallback_served[OF False, of w run] obtain ok ws where
    "queueVTCallback t w = Some (ok, ws)" "served run t w ws" by blast
  with False assms show ?thesis
    by (intro exI[of _ ws]) (auto simp: serve_timer_def Let_def upd_mapper_def)
qed

section \<open>Properties\<close>

definition sample_timer :: "u8 \<Rightarrow> u64 \<Rightarrow> bool \<Rightarrow> vt_info" where
  "sample_timer tid t os = \<lparr>m_timer_id = tid, m_start_delay = 0, m_period = 100, m_is_one_shot = os,
     m_is_running = True, m_reserved = False, m_ticks_when_match = t, m_callBack = Some 9\<rparr>"

text \<open>Two running timers, 1 (periodic, due at 500) and 2 (one shot, due at 700).\<close>

definition sample_mapper :: vt_mapper where
  "sample_mapper = \<lparr>m_current_timer_cnt = 2, m_current_timer_running = 0, is_callback_running = False,
     VTM_hardwareTimerId = 0,
     g_VirtualTimerInfo = [sample_timer 1 500 False, sample_timer 2 700 True]
       @ replicate 18 ((sample_timer 0 0 False)\<lparr>m_is_running := False\<rparr>),
     alarm_log = [500]\<rparr>"

lemma sample_mapper_timers: "timers sample_mapper = 2"
  by (simp add: sample_mapper_def)

lemma sample_mapper_info:
  "info sample_mapper 0 = sample_timer 1 500 False" "info sample_mapper (Suc 0) = sample_timer 2 700 True"
  by (simp_all add: sample_mapper_def)

lemma sample_mapper_ok: "vm_inv sample_mapper" "alarm_ready sample_mapper"
proof -
  show "vm_inv sample_mapper"
    unfolding vm_inv_def sample_mapper_timers
  proof (intro conjI allI impI)
    fix i j :: nat
    assume "i < 2" "j < 2" "m_timer_id (info sample_mapper i) = m_timer_id (info sample_mapper j)"
    then show "i = j"
      by (auto dest!: less_2_cases simp: sample_mapper_info) (simp_all add: sample_timer_def)
  qed (simp_all add: sample_mapper_def)
  have "hd (alarm_log sample_mapper) \<le> m_ticks_when_match (info sample_mapper i)" if "i < 2" for i
    using less_2_cases[OF that] by (auto simp: sample_mapper_info) (simp_all add: sample_mapper_def sample_timer_def)
  then show "alarm_ready sample_mapper"
    unfolding alarm_ready_def due_timers_def sample_mapper_timers by (simp add: sample_mapper_def)
qed

text \<open>
  C18. The compare register is given the match time of the earliest running timer, the last one
  in the table on a tie, and that timer is recorded as the one to serve; with none due within
  48 bits nothing is programmed and the recorded index is the size of the table. GetNextAlarm
  reports the same time.
\<close>

theorem SetAlarm_programs_earliest_timer:
  assumes "vm_inv m" and "\<not> is_callback_running m"
  shows "if due_timers m = {}
    then SetAlarmForTheNextTimer m = m\<lparr>m_current_timer_running := 20\<rparr> \<and> GetNextAlarm m = Some cTimerMax64Value
    else \<exists>k\<in>due_timers m.
      SetAlarmForTheNextTimer m = m\<lparr>alarm_log := m_ticks_when_match (info m k) # alarm_log m,
        m_current_timer_running := of_nat k\<rparr>
      \<and> GetNextAlarm m = Some (m_ticks_when_match (info m k))
      \<and> (\<forall>i<timers m. m_is_running (info m i) \<longrightarrow> m_ticks_when_match (info m k) \<le> m_ticks_when_match (info m i)
           \<and> (k < i \<longrightarrow> m_ticks_when_match (info m k) < m_ticks_when_match (info m i)))"
proof (cases rule: next_alarm_cases[of m])
  case (found k)
  then show ?thesis using assms(2)
    by (auto simp: SetAlarmForTheNextTimer_def GetNextAlarm_def intro!: bexI[of _ k])
next
  case (idle t k)
  then show ?thesis using assms(2)
    by (simp add: SetAlarmForTheNextTimer_def GetNextAlarm_def g_VirtualTimerPerHardwareTimer_def)
qed

lemma SetAlarm_programs_earliest_timer_witness:
  "\<exists>k\<in>due_timers sample_mapper. GetNextAlarm sample_mapper = Some (m_ticks_when_match (info sample_mapper k))"
proof -
  have "0 \<in> due_timers sample_mapper"
    by (simp add: due_timers_def sample_mapper_def sample_timer_def cTimerMax64Value_def)
  moreover have "\<not> is_callback_running sample_mapper" by (simp add: sample_mapper_def)
  ultimately show ?thesis
    using SetAlarm_programs_earliest_timer[OF sample_mapper_ok(1)] by (auto split: if_splits)
qed

text \<open>
  C20. Timer ids stay unique, and while no callback runs the compare register is never later than
  a running timer: successful setting, starting, stopping and changing keep both.
\<close>

theorem timer_operations_keep_alarm:
  assumes "vm_inv m" and "alarm_ready m"
  shows "(fst (SetTimer us now tid sd per os res cb m) \<longrightarrow>
      vm_inv (snd (SetTimer us now tid sd per os res cb m)) \<and> alarm_ready (snd (SetTimer us now tid sd per os res cb m)))
    \<and> vm_inv (snd (StartTimer now tid m)) \<and> alarm_ready (snd (StartTimer now tid m))
    \<and> vm_inv (snd (StopTimer tid m)) \<and> alarm_ready (snd (StopTimer tid m))
    \<and> vm_inv (snd (ChangeTimer us tid sd per os m)) \<and> alarm_ready (snd (ChangeTimer us tid sd per os m))"
  using SetTimer_inv[OF assms(1), of us now tid sd per os res cb] SetTimer_ready[OF assms, of us now tid sd per os res cb]
    StartTimer_inv[OF assms(1)] StartTimer_ready[OF assms(2)] StopTimer_inv[OF assms(1)] StopTimer_ready[OF assms]
    ChangeTimer_inv[OF assms(1)] ChangeTimer_ready[OF assms]
  by (cases "SetTimer us now tid sd per os res cb m") auto

lemma timer_operations_keep_alarm_witness: "alarm_ready (snd (StartTimer 600 1 sample_mapper))"
  using timer_operations_keep_alarm[OF sample_mapper_ok, of id 600 1] by blast

lemma SetTimer_configures:
  assumes "vm_inv m" and "SetTimer us now tid sd per os res cb m = (True, m1)"
  obtains i where "i < timers m1" "info m1 i = configure us now tid sd per os res cb (info m i)"
    "\<forall>j. j \<noteq> i \<longrightarrow> info m1 j = info m j"
  using assms(1)
proof (cases rule: SetTimer_cases[where us = us and now = now and tid = tid and sd = sd and per = per
      and os = os and res = res and cb = cb])
  case (change i)
  then show ?thesis using assms vm_invD[OF assms(1)] by (intro that[of i]) auto
next
  case new
  then show ?thesis using assms vm_invD[OF assms(1)] timers_plus_one[OF new(2)]
    by (intro that[of "timers m"]) auto
qed (use assms in simp_all)

lemma StartTimer_starts:
  fixes now :: u64
  assumes "vm_inv m" and "VirtTimerIndexMapper tid m = Some i" and "i < timers m" and "m_timer_id (info m i) = tid"
    and "\<not> m_is_running (info m i)"
  defines "m2 \<equiv> snd (StartTimer now tid m)"
  shows "fst (StartTimer now tid m)" and "vm_inv m2" and "i < timers m2"
    and "VirtTimerIndexMapper tid m2 = Some i" and "m_timer_id (info m2 i) = tid" and "m_is_running (info m2 i)"
    and "m_ticks_when_match (info m2 i) = now + ucast (m_period (info m i)) + ucast (m_start_delay (info m i))"
    and "\<not> is_callback_running m \<Longrightarrow> m_ticks_when_match (info m2 i) \<le> cTimerMax64Value \<Longrightarrow>
      alarm_log m2 \<noteq> [] \<and> hd (alarm_log m2) \<le> m_ticks_when_match (info m2 i)"
    and "\<And>j. j \<noteq> i \<Longrightarrow> info m2 j = info m j"
proof -
  let ?f = "\<lambda>v. (set_ticks_when_match (now + ucast (m_period v) + ucast (m_start_delay v)) v)\<lparr>m_is_running := True\<rparr>"
  have len: "i < length (g_VirtualTimerInfo m)" using assms(3) vm_invD[OF assms(1)] by simp
  have m2: "StartTimer now tid m = (True, m2)" "m2 = SetAlarmForTheNextTimer (upd_info i ?f m)"
    using assms(2,4,5) by (simp_all add: StartTimer_def m2_def)
  have i2: "info m2 i = ?f (info m i)" using len by (simp add: m2(2) frame_simps)
  show "fst (StartTimer now tid m)" using m2(1) by simp
  show "\<And>j. j \<noteq> i \<Longrightarrow> info m2 j = info m j" by (simp add: m2(2) frame_simps)
  show inv2: "vm_inv m2" using StartTimer_inv[OF assms(1), of now tid] m2(1) by simp
  show t2: "i < timers m2" using assms(3) by (simp add: m2(2) frame_simps)
  show "m_timer_id (info m2 i) = tid" "m_is_running (info m2 i)"
    and w: "m_ticks_when_match (info m2 i) = now + ucast (m_period (info m i)) + ucast (m_start_delay (info m i))"
    using i2 assms(4) by simp_all
  then show "VirtTimerIndexMapper tid m2 = Some i" using VirtTimerIndexMapper_found[OF inv2 t2] by simp
  assume quiet: "\<not> is_callback_running m" and "m_ticks_when_match (info m2 i) \<le> cTimerMax64Value"
  then have "i \<in> due_timers m2" using t2 i2 by (simp add: due_timers_def)
  moreover have "alarm_ready m2" unfolding m2(2) by (rule SetAlarm_ready) (use quiet in simp)
  ultimately show "alarm_log m2 \<noteq> [] \<and> hd (alarm_log m2) \<le> m_ticks_when_match (info m2 i)"
    by (auto simp: alarm_ready_def)
qed

lemma StopTimer_stops:
  assumes "vm_inv m" and "VirtTimerIndexMapper tid m = Some i" and "i < timers m" and "m_timer_id (info m i) = tid"
  shows "fst (StopTimer tid m)" and "\<not> Mapper_IsRunning tid (snd (StopTimer tid m))"
    and "\<not> m_reserved (info (snd (StopTimer tid m)) i)"
    and "\<And>j. j \<noteq> i \<Longrightarrow> info (snd (StopTimer tid m)) j = info m j"
proof -
  let ?m = "upd_info i (\<lambda>v. v\<lparr>m_is_running := False, m_reserved := False\<rparr>) m"
  have stop: "StopTimer tid m = (True, ?m)" using assms(2) by (simp add: StopTimer_def)
  have len: "i < length (g_VirtualTimerInfo m)" using assms(3) vm_invD[OF assms(1)] by simp
  have inv: "vm_inv ?m" by (rule vm_inv_upd[OF assms(1)]) simp
  have info: "info ?m i = (info m i)\<lparr>m_is_running := False, m_reserved := False\<rparr>"
    using len by (simp add: frame_simps)
  then have "VirtTimerIndexMapper tid ?m = Some i"
    using VirtTimerIndexMapper_found[OF inv, of i] assms(3,4) by simp
  then show "fst (StopTimer tid m)" "\<not> Mapper_IsRunning tid (snd (StopTimer tid m))"
    "\<not> m_reserved (info (snd (StopTimer tid m)) i)"
    using stop info by (simp_all add: Mapper_IsRunning_def)
  show "\<And>j. j \<noteq> i \<Longrightarrow> info (snd (StopTimer tid m)) j = info m j" using stop by (simp add: frame_simps)
qed

text \<open>
  C19. Life of a timer: after a successful SetTimer the timer is found, stopped, and due after
  period and delay; StartTimer makes it run and due after period and delay from then, and the
  register is set no later; StopTimer stops it and releases its reservation. None of the three
  calls changes any other timer.
\<close>

theorem timer_life_cycle:
  assumes "vm_inv m" and "SetTimer us now tid sd per os res cb m = (True, m1)"
  shows "\<exists>i<timers m1. VirtTimerIndexMapper tid m1 = Some i
    \<and> info m1 i = configure us now tid sd per os res cb (info m i)
    \<and> (\<forall>j. j \<noteq> i \<longrightarrow> info m1 j = info m j)
    \<and> (let m2 = snd (StartTimer now' tid m1) in
         fst (StartTimer now' tid m1) \<and> m_is_running (info m2 i)
         \<and> m_ticks_when_match (info m2 i) = now' + ucast (us per) + ucast (us sd)
         \<and> (\<not> is_callback_running m1 \<and> m_ticks_when_match (info m2 i) \<le> cTimerMax64Value \<longrightarrow>
              alarm_log m2 \<noteq> [] \<and> hd (alarm_log m2) \<le> m_ticks_when_match (info m2 i))
         \<and> (\<forall>j. j \<noteq> i \<longrightarrow> info m2 j = info m j)
         \<and> fst (StopTimer tid m2) \<and> \<not> Mapper_IsRunning tid (snd (StopTimer tid m2))
         \<and> \<not> m_reserved (info (snd (StopTimer tid m2)) i)
         \<and> (\<forall>j. j \<noteq> i \<longrightarrow> info (snd (StopTimer tid m2)) j = info m j))"
proof -
  have inv: "vm_inv m1" by (rule SetTimer_inv[OF assms])
  from assms obtain i where i: "i < timers m1" "info m1 i = configure us now tid sd per os res cb (info m i)"
    "\<forall>j. j \<noteq> i \<longrightarrow> info m1 j = info m j" by (rule SetTimer_configures)
  have tid: "m_timer_id (info m1 i) = tid" "\<not> m_is_running (info m1 i)" "m_period (info m1 i) = us per" "m_start_delay (info m1 i) = us sd"
    using i(2) by (simp_all add: configure_def)
  have found: "VirtTimerIndexMapper tid m1 = Some i" using VirtTimerIndexMapper_found[OF inv i(1)] tid by simp
  note S = StartTimer_starts[where now = now', OF inv found i(1) tid(1,2)]
  show ?thesis
    unfolding Let_def using i found S StopTimer_stops[OF S(2,4,3,5)] tid(3,4) by (intro exI[of _ i]) simp
qed

lemma timer_life_cycle_witness:
  "\<exists>i m1. SetTimer id 1000 3 5 50 True False (Some 4) sample_mapper = (True, m1)
     \<and> VirtTimerIndexMapper 3 m1 = Some i"
proof -
  have "\<exists>m1. SetTimer id 1000 3 5 50 True False (Some 4) sample_mapper = (True, m1)"
    using sample_mapper_ok(1)
    by (cases rule: SetTimer_cases[where us = id and now = 1000 and tid = 3 and sd = 5 and per = 50
          and os = True and res = False and cb = "Some 4"])
      (auto simp: sample_mapper_def sample_timer_def nth_Cons' split: if_splits)
  then obtain m1 where "SetTimer id 1000 3 5 50 True False (Some 4) sample_mapper = (True, m1)" by blast
  with timer_life_cycle[OF sample_mapper_ok(1) this, of 0] show ?thesis by blast
qed

definition sample_world :: vt_world where
  "sample_world = \<lparr>virtualTimerMapper = [sample_mapper, sample_mapper], isInitialized = True,
     vtCallbackContinuationArray = replicate 8 \<lparr>m_EntryPoint = None, m_Argument = 0, num_attempting_to_grab = 0\<rparr>,
     vt_async = sample_async\<lparr>completion_list := []\<rparr>\<rparr>"

lemma AssignMapper_0: "unat (AssignMapper 0) = 0"
  by (simp add: AssignMapper_def g_CountOfHardwareTimers_def g_HardwareTimerIDs_def SYSTEM_TIME_def numeral_2_eq_2)

lemma interrupt_not_full:
  fixes run :: "nat option \<Rightarrow> vt_world \<Rightarrow> vt_world" and now1 now2 :: u64
  assumes "unat (AssignMapper hw) = k" and "k < length (virtualTimerMapper w)"
    and "vm_inv (virtualTimerMapper w ! k)" and "timers (virtualTimerMapper w ! k) < 20"
    and "unat (m_current_timer_running (virtualTimerMapper w ! k)) = i" and "i < 20"
    and "\<And>cb w. virtualTimerMapper (run cb w) = virtualTimerMapper w"
  defines "m \<equiv> virtualTimerMapper w ! k" and "w1 \<equiv> upd_mapper k (\<lambda>m. m\<lparr>is_callback_running := True\<rparr>) w"
  defines "due \<equiv> m_is_running (info m i) \<and> m_ticks_when_match (info m i) < now1"
  obtains w' ws where "VirtualTimerCallback run now1 now2 hw w = Some w'"
    and "\<exists>ms. w' = ws\<lparr>virtualTimerMapper := ms\<rparr>"
    and "if due then served run (info m i) w1 ws else ws = w1"
    and "virtualTimerMapper w' ! k =
      SetAlarmForTheNextTimer ((if due then upd_info i (rearm now2) m else m)\<lparr>is_callback_running := False\<rparr>)"
    and "\<And>k'. k' \<noteq> k \<Longrightarrow> virtualTimerMapper w' ! k' = virtualTimerMapper w ! k'"
proof -
  have m1: "virtualTimerMapper w1 ! k = m\<lparr>is_callback_running := True\<rparr>" using assms(2) by (simp add: m_def w1_def)
  have k1: "k < length (virtualTimerMapper w1)" using assms(2) by (simp add: w1_def)
  from serve_timer_mapper[OF k1, where run = run and ?now2.0 = now2 and i = i, OF assms(7)] obtain ws where
    ws: "serve_timer run now2 k i w1 = Some ws"
      "virtualTimerMapper ws = (virtualTimerMapper w1)[k := upd_info i (rearm now2) (virtualTimerMapper w1 ! k)]"
    by blast
  from serve_timer_served[OF ws(1) refl] m1 obtain wr where
    wr: "served run (info m i) w1 wr" "\<exists>ms. ws = wr\<lparr>virtualTimerMapper := ms\<rparr>" by auto
  let ?w2 = "if due then ws else w1"
  let ?w' = "upd_mapper k (\<lambda>m. SetAlarmForTheNextTimer (m\<lparr>is_callback_running := False\<rparr>)) ?w2"
  have cnt: "\<not> g_VirtualTimerPerHardwareTimer \<le> m_current_timer_cnt m"
    using assms(4) by (simp add: m_def word_le_nat_alt g_VirtualTimerPerHardwareTimer_def)
  have len: "i < length (g_VirtualTimerInfo m)" using assms(6) vm_invD[OF assms(3)] by (simp add: m_def)
  have run: "VirtualTimerCallback run now1 now2 hw w = Some ?w'"
    using assms(1,2,5) cnt len ws(1) m1
    by (cases "m_is_running (info m i)"; cases "m_ticks_when_match (info m i) < now1")
      (simp_all add: VirtualTimerCallback_def Let_def due_def m_def w1_def[symmetric])
  have mw2: "virtualTimerMapper ?w2 ! k = (if due then upd_info i (rearm now2) m else m)\<lparr>is_callback_running := True\<rparr>"
    "k < length (virtualTimerMapper ?w2)"
    using ws(2) m1 k1 by (simp_all add: upd_info_def)
  have m': "virtualTimerMapper ?w' ! k =
      SetAlarmForTheNextTimer ((if due then upd_info i (rearm now2) m else m)\<lparr>is_callback_running := False\<rparr>)"
    using mw2 by (simp only: upd_mapper_simps nth_list_update_eq) simp
  have other: "virtualTimerMapper ?w' ! k' = virtualTimerMapper w ! k'" if "k' \<noteq> k" for k'
    using that ws(2) by (simp add: w1_def)
  show thesis
  proof (cases due)
    case True
    have "\<exists>ms. ?w' = wr\<lparr>virtualTimerMapper := ms\<rparr>" using True wr(2) by (auto simp: upd_mapper_def)
    from that[OF run this] True wr(1) m' other show thesis by simp
  next
    case False
    have "\<exists>ms. ?w' = w1\<lparr>virtualTimerMapper := ms\<rparr>"
      using False by (intro exI[of _ "virtualTimerMapper ?w'"]) (simp add: upd_mapper_def)
    from that[OF run this] False m' other show thesis by simp
  qed
qed

text \<open>
  C21. The timer interrupt, when the functions of the timers leave the timer table alone. With
  fewer than twenty timers in the table: if the recorded timer runs and its time has passed, its
  function is run at once (timers of the interrupt context) or put in a free continuation (the
  others, lost when all eight are taken), and the timer is stopped when it is one-shot and
  otherwise made due one period after the clock is read again; if not, no function is run. No
  other timer changes, the callback flag is cleared, and the compare register is not later than
  any running timer. With a full table the interrupt only sets the callback flag, which stays
  set: no function is run, no timer changes and no alarm is programmed.
\<close>

theorem timer_interrupt_serves_timer:
  assumes "unat (AssignMapper hw) = k" and "k < length (virtualTimerMapper w)"
    and "vm_inv (virtualTimerMapper w ! k)"
    and "unat (m_current_timer_running (virtualTimerMapper w ! k)) = i" and "i < 20"
    and "\<And>cb w. virtualTimerMapper (run cb w) = virtualTimerMapper w"
  shows "\<exists>w' ws. VirtualTimerCallback run now1 now2 hw w = Some w'
    \<and> (let m = virtualTimerMapper w ! k; m' = virtualTimerMapper w' ! k;
           w1 = upd_mapper k (\<lambda>m. m\<lparr>is_callback_running := True\<rparr>) w;
           due = (m_is_running (info m i) \<and> m_ticks_when_match (info m i) < now1) in
       if timers m < 20 then
         (\<exists>ms. w' = ws\<lparr>virtualTimerMapper := ms\<rparr>)
         \<and> (if due then served run (info m i) w1 ws else ws = w1)
         \<and> vm_inv m' \<and> \<not> is_callback_running m' \<and> alarm_ready m' \<and> (\<forall>j. j \<noteq> i \<longrightarrow> info m' j = info m j)
         \<and> info m' i = (if due then rearm now2 (info m i) else info m i)
       else w' = w1)"
proof (cases "timers (virtualTimerMapper w ! k) < 20")
  case True
  let ?m = "virtualTimerMapper w ! k"
  let ?due = "m_is_running (info ?m i) \<and> m_ticks_when_match (info ?m i) < now1"
  let ?core = "if ?due then upd_info i (rearm now2) ?m else ?m"
  from interrupt_not_full[where run = run and ?now1.0 = now1 and ?now2.0 = now2, OF assms(1-3) True assms(4-6)]
  obtain w' ws where w': "VirtualTimerCallback run now1 now2 hw w = Some w'"
    "\<exists>ms. w' = ws\<lparr>virtualTimerMapper := ms\<rparr>"
    "if ?due then served run (info ?m i) (upd_mapper k (\<lambda>m. m\<lparr>is_callback_running := True\<rparr>) w) ws
     else ws = upd_mapper k (\<lambda>m. m\<lparr>is_callback_running := True\<rparr>) w"
    and m': "virtualTimerMapper w' ! k = SetAlarmForTheNextTimer (?core\<lparr>is_callback_running := False\<rparr>)"
    by metis
  have len: "i < length (g_VirtualTimerInfo ?m)" using assms(5) vm_invD[OF assms(3)] by simp
  have "vm_inv ?core"
    using assms(3) by (auto intro!: vm_inv_upd simp: rearm_def)
  then have "vm_inv (virtualTimerMapper w' ! k)"
    unfolding m' by (intro vm_inv_SetAlarm vm_inv_callback)
  moreover have "alarm_ready (virtualTimerMapper w' ! k)" "\<not> is_callback_running (virtualTimerMapper w' ! k)"
    unfolding m' by (auto intro: SetAlarm_ready simp: frame_simps)
  moreover have "g_VirtualTimerInfo (virtualTimerMapper w' ! k) = g_VirtualTimerInfo ?core"
    unfolding m' by (simp add: frame_simps)
  ultimately show ?thesis
    using True w' len unfolding Let_def by (intro exI[of _ w'] exI[of _ ws]) (simp split: if_splits)
next
  case False
  then have "g_VirtualTimerPerHardwareTimer \<le> m_current_timer_cnt (virtualTimerMapper w ! k)"
    by (simp add: word_le_nat_alt g_VirtualTimerPerHardwareTimer_def)
  with False assms(1,2) show ?thesis by (simp add: VirtualTimerCallback_def Let_def)
qed

text \<open>The function of the first timer sets the mark \<open>isInitialized\<close> to show that it has run.\<close>

lemma timer_interrupt_serves_timer_witness:
  "\<exists>w'. VirtualTimerCallback (\<lambda>cb w. w\<lparr>isInitialized := cb = Some 8\<rparr>) 501 510 0 sample_world = Some w'
     \<and> m_ticks_when_match (info (virtualTimerMapper w' ! 0) 0) = 610 \<and> \<not> isInitialized w'"
proof -
  have "virtualTimerMapper sample_world ! 0 = sample_mapper" "0 < length (virtualTimerMapper sample_world)"
    by (simp_all add: sample_world_def)
  then show ?thesis
    using timer_interrupt_serves_timer[OF AssignMapper_0, of sample_world 0 "\<lambda>cb w. w\<lparr>isInitialized := cb = Some 8\<rparr>" 501 510]
      sample_mapper_ok(1)
    by (auto simp: sample_mapper_timers sample_mapper_info Let_def)
      (auto simp: sample_mapper_def sample_timer_def rearm_def served_def VIRT_TIMER_INTERRUPT_CONTEXT_MARKER_def)
qed

text \<open>
  When all entries of a mapper are in use, its interrupt returns before it clears the callback
  flag: from then on starting a timer of that mapper programs no alarm, whatever is called.
\<close>

theorem full_table_disables_alarms:
  assumes "unat (AssignMapper hw) = k" and "k < length (virtualTimerMapper w)"
    and "timers (virtualTimerMapper w ! k) = 20"
  shows "\<exists>w'. VirtualTimerCallback run now1 now2 hw w = Some w'
    \<and> is_callback_running (virtualTimerMapper w' ! k)
    \<and> g_VirtualTimerInfo (virtualTimerMapper w' ! k) = g_VirtualTimerInfo (virtualTimerMapper w ! k)
    \<and> (\<forall>now tid. alarm_log (snd (StartTimer now tid (virtualTimerMapper w' ! k))) = alarm_log (virtualTimerMapper w ! k)
         \<and> is_callback_running (snd (StartTimer now tid (virtualTimerMapper w' ! k))))"
proof -
  let ?w1 = "upd_mapper k (\<lambda>m. m\<lparr>is_callback_running := True\<rparr>) w"
  have "g_VirtualTimerPerHardwareTimer \<le> m_current_timer_cnt (virtualTimerMapper w ! k)"
    using assms(3) by (simp add: word_le_nat_alt g_VirtualTimerPerHardwareTimer_def)
  then have run: "VirtualTimerCallback run now1 now2 hw w = Some ?w1"
    using assms(1,2) by (simp add: VirtualTimerCallback_def Let_def)
  have m1: "virtualTimerMapper ?w1 ! k = (virtualTimerMapper w ! k)\<lparr>is_callback_running := True\<rparr>"
    using assms(2) by simp
  have "alarm_log (snd (StartTimer now tid m)) = alarm_log m \<and> is_callback_running (snd (StartTimer now tid m))"
    if "is_callback_running m" for now tid m
    using that by (simp add: StartTimer_def SetAlarmForTheNextTimer_def split: option.splits)
  with run m1 show ?thesis by (intro exI[of _ ?w1]) simp
qed

text \<open>
  Once no timer of a mapper is due the recorded index is the size of the table, and the next
  interrupt of that hardware timer reads behind it.
\<close>

theorem idle_interrupt_reads_behind_table:
  assumes "unat (AssignMapper hw) = k" and "k < length (virtualTimerMapper w)"
    and "vm_inv (virtualTimerMapper w ! k)" and "timers (virtualTimerMapper w ! k) < 20"
    and "\<not> is_callback_running (virtualTimerMapper w ! k)" and "due_timers (virtualTimerMapper w ! k) = {}"
  shows "VirtualTimerCallback run now1 now2 hw (upd_mapper k SetAlarmForTheNextTimer w) = None"
proof -
  let ?m = "virtualTimerMapper w ! k"
  have a: "SetAlarmForTheNextTimer ?m = ?m\<lparr>m_current_timer_running := g_VirtualTimerPerHardwareTimer\<rparr>"
    using assms(5,6) by (cases rule: next_alarm_cases[of ?m]) (auto simp: SetAlarmForTheNextTimer_def)
  have "\<not> g_VirtualTimerPerHardwareTimer \<le> m_current_timer_cnt ?m"
    using assms(4) by (simp add: word_le_nat_alt g_VirtualTimerPerHardwareTimer_def)
  with assms(1,2) a vm_invD[OF assms(3)] show ?thesis
    by (simp add: VirtualTimerCallback_def Let_def) (simp add: g_VirtualTimerPerHardwareTimer_def)
qed

text \<open>
  A timer outside the interrupt context is queued in a free element of the array, which stays
  taken until its function has run; when all eight elements are taken nothing is queued and the
  firing is lost, since the interrupt re-arms or stops the timer all the same.
\<close>

theorem queued_timer_takes_a_slot:
  assumes "length (vtCallbackContinuationArray w) = VT_CALLBACK_CONTINUATION_MAX"
  shows "if \<exists>i<VT_CALLBACK_CONTINUATION_MAX. slot_free w i
    then \<exists>i w'. i < VT_CALLBACK_CONTINUATION_MAX \<and> slot_free w i \<and> queueVTCallback t w = Some (True, w')
      \<and> continuation_list (vt_async w') = continuation_list (vt_async w) @ [i]
      \<and> Callback (vt_async w') i = \<lparr>EntryPoint = Some EXTENDED_EXECUTE, Argument = i\<rparr>
      \<and> m_EntryPoint (vtCallbackContinuationArray w' ! i) = m_callBack t
      \<and> (\<forall>a. \<not> slot_free (w'\<lparr>vt_async := a\<rparr>) i)
      \<and> num_attempting_to_grab (vtCallbackContinuationArray (ExtendedExecute (\<lambda>_ w. w) i w') ! i) = 0
      \<and> m_EntryPoint (vtCallbackContinuationArray (ExtendedExecute (\<lambda>_ w. w) i w') ! i) = None
    else queueVTCallback t w = Some (False, w)"
proof (cases "\<exists>i<VT_CALLBACK_CONTINUATION_MAX. slot_free w i")
  case True
  then have "\<exists>i\<in>set [0..<VT_CALLBACK_CONTINUATION_MAX]. slot_free w i" by auto
  from queue_scan_taken[OF this, of "m_callBack t"] obtain i where
    i: "i < VT_CALLBACK_CONTINUATION_MAX" "slot_free w i"
      "queueVTCallback t w = Some (True, take_slot i (m_callBack t) w)"
    by (auto simp: queueVTCallback_def)
  have "i \<notin> set (continuation_list (vt_async w))" using i(2) by (simp add: slot_free_def Continuation_IsLinked_def)
  then have "continuation_list (vt_async (take_slot i (m_callBack t) w)) = continuation_list (vt_async w) @ [i]"
    by (simp add: take_slot_def Continuation_Enqueue_def Let_def unlink_node_def remove1_idem)
  moreover have "Callback (vt_async (take_slot i (m_callBack t) w)) i = \<lparr>EntryPoint = Some EXTENDED_EXECUTE, Argument = i\<rparr>"
    by (simp add: take_slot_def Continuation_Enqueue_def Let_def unlink_node_def)
  moreover have "vtCallbackContinuationArray (take_slot i (m_callBack t) w) ! i =
      (vtCallbackContinuationArray w ! i)\<lparr>num_attempting_to_grab := 1, m_EntryPoint := m_callBack t, m_Argument := 0\<rparr>"
    and "i < length (vtCallbackContinuationArray (take_slot i (m_callBack t) w))"
    using i(1) assms by (simp_all add: take_slot_def)
  ultimately show ?thesis
    unfolding if_P[OF True] using i
    by (intro exI[of _ i] exI[of _ "take_slot i (m_callBack t) w"])
      (simp add: slot_free_def ExtendedExecute_def Let_def SetUnUsed_def)
next
  case False
  then have "\<forall>i\<in>set [0..<VT_CALLBACK_CONTINUATION_MAX]. \<not> slot_free w i" by auto
  from queue_scan_free[OF this] False show ?thesis by (simp add: queueVTCallback_def)
qed

text \<open>
  Stopping a timer reports that it is supported even when no timer has the id: the truth value
  0 or 1 is compared with the enumerator -1.
\<close>

theorem Stop_always_reports_success:
  "fst (VirtTimer_Stop tid w) = TimerSupported
   \<and> (VirtTimerIndexMapper tid (virtualTimerMapper w ! HardwareVirtTimerMapper tid w) = None \<longrightarrow>
        virtualTimerMapper (snd (VirtTimer_Stop tid w)) = virtualTimerMapper w)"
  by (auto simp: VirtTimer_Stop_def on_mapper_def BOOL_int_def return_code_def StopTimer_def Let_def
      split: prod.splits option.splits)

section \<open>Access to the hardware counters\<close>

text \<open>
  These calls act on the hardware timer of the mapper; \<open>h\<close> is the state of the hardware and the
  first argument the function of the processor.
\<close>

definition VirtTimer_GetCounter :: "(u16 \<Rightarrow> u32) \<Rightarrow> u8 \<Rightarrow> vt_world \<Rightarrow> u32" where
  "VirtTimer_GetCounter counter timer_id w = counter (hardware_timer_of timer_id w)"

definition VirtTimer_SetCounter :: "(u16 \<Rightarrow> u32 \<Rightarrow> 'h \<Rightarrow> u32 \<times> 'h) \<Rightarrow> u8 \<Rightarrow> u32 \<Rightarrow> vt_world \<Rightarrow> 'h \<Rightarrow> u32 \<times> 'h" where
  "VirtTimer_SetCounter set_counter timer_id Count w h = set_counter (hardware_timer_of timer_id w) Count h"

definition VirtTimer_SetCompare :: "(u16 \<Rightarrow> u64 \<Rightarrow> 'h \<Rightarrow> bool \<times> 'h) \<Rightarrow> u8 \<Rightarrow> u64 \<Rightarrow> vt_world \<Rightarrow> 'h \<Rightarrow> bool \<times> 'h" where
  "VirtTimer_SetCompare set_compare timer_id CompareValue w h =
     set_compare (hardware_timer_of timer_id w) CompareValue h"

definition VirtTimer_SleepMicroseconds :: "(u32 \<Rightarrow> u16 \<Rightarrow> 'h \<Rightarrow> 'h) \<Rightarrow> u8 \<Rightarrow> u32 \<Rightarrow> vt_world \<Rightarrow> 'h \<Rightarrow> 'h" where
  "VirtTimer_SleepMicroseconds sleep timer_id uSec w h = sleep uSec (hardware_timer_of timer_id w) h"

end
