(* ===== verification/Time_Driver.thy ===== *)
theory Time_Driver
  imports Virtual_Timer "HOL-Library.Monad_Syntax"
begin

text \<open>
  The time driver: \<^verbatim>\<open>DeviceCode/pal/Samraksh/eMote_Time/eMote_Time.cpp\<close> and
  \<^verbatim>\<open>eMote_Time_functions.cpp\<close>, which put the compare values of the completions on a virtual timer, in
  the configuration of the STM32H743 target. The clock and its conversions are parameters. Here
  completions, virtual timers and the interrupt meet: the lemmas show when the timer follows
  the first completion and when it does not.
\<close>

section \<open>Hardware\<close>

definition ADVTIMER_32BIT :: u8 where "ADVTIMER_32BIT = 1"
definition LOW_DRIFT_TIMER :: u8 where "LOW_DRIFT_TIMER = 4"
definition VIRT_TIMER_EVENTS :: u8 where "VIRT_TIMER_EVENTS = 1"
definition VIRT_TIMER_SLEEP :: u8 where "VIRT_TIMER_SLEEP = 6"

text \<open>
  The processor's clock at its successive readings in a call, the conversions of the clock, and
  the period of the hardware timers.
\<close>

record time_hw =
  clock_at :: "nat \<Rightarrow> u64"
  us_to_ticks :: "u32 \<Rightarrow> u32"
  ticks_to_us :: "u64 \<Rightarrow> u8 \<Rightarrow> u64"
  ticks_to_time :: "u64 \<Rightarrow> u8 \<Rightarrow> u64"
  max_ticks :: "u8 \<Rightarrow> u32"

text \<open>The function \<open>SetCompareHandler\<close> as a timer callback.\<close>

definition SET_COMPARE_HANDLER :: nat where "SET_COMPARE_HANDLER = 1"

section \<open>Time driver (eMote\_Time.cpp)\<close>

definition TD_Initialize :: "time_hw \<Rightarrow> vt_world \<Rightarrow> (bool \<times> vt_world) option" where
  "TD_Initialize hw w =
     map_option (\<lambda>(r, w). (r = TimerSupported, w))
       (VirtTimer_SetTimer (us_to_ticks hw) (clock_at hw 0) VIRT_TIMER_EVENTS 0 (max_ticks hw ADVTIMER_32BIT)
          False True (Some SET_COMPARE_HANDLER) ADVTIMER_32BIT w)"

definition TD_StopTimer :: "vt_world \<Rightarrow> vt_world" where
  "TD_StopTimer w = snd (VirtTimer_Stop VIRT_TIMER_EVENTS w)"

definition TD_Uninitialize :: "vt_world \<Rightarrow> bool \<times> vt_world" where
  "TD_Uninitialize w = (let (r, w) = VirtTimer_Stop VIRT_TIMER_EVENTS w in (r = TimerSupported, w))"

definition TD_CurrentTicks :: "time_hw \<Rightarrow> u64" where "TD_CurrentTicks hw = clock_at hw 0"

definition TD_CounterValue :: "time_hw \<Rightarrow> u32" where "TD_CounterValue hw = ucast (clock_at hw 0)"

text \<open>
  A timer is changed, or set when it is not there yet, and started. Starting a timer that runs
  does nothing.
\<close>

definition change_set_start :: "time_hw \<Rightarrow> u8 \<Rightarrow> u32 \<Rightarrow> u8 \<Rightarrow> vt_world \<Rightarrow> vt_world option" where
  "change_set_start hw timer_id delay hardwareTimerId w = do {
     let (r, w) = VirtTimer_Change (us_to_ticks hw) timer_id delay 0 True hardwareTimerId w;
     w \<leftarrow> (if r \<noteq> TimerSupported
          then map_option snd (VirtTimer_SetTimer (us_to_ticks hw) (clock_at hw 1) timer_id delay 0 True True
                 (Some SET_COMPARE_HANDLER) hardwareTimerId w)
          else Some w);
     Some (snd (VirtTimer_Start (clock_at hw 2) timer_id w))
   }"

definition compare_delay :: "time_hw \<Rightarrow> u64 \<Rightarrow> u32" where
  "compare_delay hw compareTicks =
     (let t = (if compareTicks > 0xFFFFFFFF then 0xFFFFFFFF else compareTicks)
      in ucast (ticks_to_us hw (ucast (ucast t :: u32)) ADVTIMER_32BIT))"

definition TD_SetCompareValue :: "time_hw \<Rightarrow> u64 \<Rightarrow> vt_world \<Rightarrow> vt_world option" where
  "TD_SetCompareValue hw compareTicks =
     change_set_start hw VIRT_TIMER_EVENTS (compare_delay hw compareTicks) ADVTIMER_32BIT"

definition TD_StopTimerSleepClock :: "vt_world \<Rightarrow> vt_world" where
  "TD_StopTimerSleepClock w = snd (VirtTimer_Stop VIRT_TIMER_SLEEP w)"

definition TD_SetCompareValueSleepClockMicroSeconds :: "time_hw \<Rightarrow> u32 \<Rightarrow> vt_world \<Rightarrow> vt_world option" where
  "TD_SetCompareValueSleepClockMicroSeconds hw compareTimeInMicroSecs =
     change_set_start hw VIRT_TIMER_SLEEP compareTimeInMicroSecs LOW_DRIFT_TIMER"

definition TD_TicksToTime :: "time_hw \<Rightarrow> u64 \<Rightarrow> u64" where
  "TD_TicksToTime hw Ticks = ticks_to_time hw Ticks SYSTEM_TIME"

definition TD_TicksToMicroseconds :: "time_hw \<Rightarrow> u64 \<Rightarrow> u64" where
  "TD_TicksToMicroseconds hw Ticks = ticks_to_us hw Ticks SYSTEM_TIME"

text \<open>
  The time from the ticks and the drift parameters of the processor: the multiplier and the
  divisor are \<open>INT32\<close> and are extended to the \<open>UINT64\<close> of the ticks.
\<close>

definition TD_CurrentTime :: "u32 \<Rightarrow> u32 \<Rightarrow> u64 \<Rightarrow> time_hw \<Rightarrow> u64" where
  "TD_CurrentTime a b c hw =
     (let t = TD_CurrentTicks hw * scast b + c in
      if a = 1 then t
      else if a = 2 then drop_bit 1 t
      else if a = 4 then drop_bit 2 t
      else if a \<noteq> 0 then t div scast a
      else 0)"

definition TD_TimeNow :: "u32 \<Rightarrow> u32 \<Rightarrow> u64 \<Rightarrow> time_hw \<Rightarrow> u64" where
  "TD_TimeNow = TD_CurrentTime"

text \<open>The clock of the processor is advanced, a hardware call, and the alarms are set again.\<close>

definition TD_AddClockTime :: "u64 \<Rightarrow> vt_world \<Rightarrow> vt_world" where
  "TD_AddClockTime timeToAdd w = VirtTimer_UpdateAlarms w"

section \<open>Functions of the system (eMote\_Time\_functions.cpp)\<close>

definition HAL_Time_Initialize :: "time_hw \<Rightarrow> vt_world \<Rightarrow> (bool \<times> vt_world) option" where
  "HAL_Time_Initialize = TD_Initialize"

definition HAL_Time_Uninitialize :: "vt_world \<Rightarrow> bool \<times> vt_world" where
  "HAL_Time_Uninitialize = TD_Uninitialize"

definition Time_CurrentTicks :: "time_hw \<Rightarrow> u64" where "Time_CurrentTicks hw = clock_at hw 0"

definition HAL_Time_TicksToMicroseconds :: "time_hw \<Rightarrow> u64 \<Rightarrow> u64" where
  "HAL_Time_TicksToMicroseconds = TD_TicksToMicroseconds"

definition HAL_Time_SetCompare :: "time_hw \<Rightarrow> u64 \<Rightarrow> vt_world \<Rightarrow> vt_world option" where
  "HAL_Time_SetCompare hw CompareTicks w =
     (if CompareTicks = HAL_Completion_IdleValue then Some (TD_StopTimer w)
      else let NowTicks = clock_at hw 0 in
        if CompareTicks > NowTicks then TD_SetCompareValue hw (CompareTicks - NowTicks) w
        else TD_SetCompareValue hw 300 w)"

definition HAL_Time_SetCompare_Sleep_Clock_MicroSeconds :: "time_hw \<Rightarrow> u32 \<Rightarrow> vt_world \<Rightarrow> vt_world option" where
  "HAL_Time_SetCompare_Sleep_Clock_MicroSeconds = TD_SetCompareValueSleepClockMicroSeconds"

definition HAL_Time_AddClockTime :: "u64 \<Rightarrow> vt_world \<Rightarrow> vt_world" where
  "HAL_Time_AddClockTime = TD_AddClockTime"

section \<open>Completions on the time driver\<close>

text \<open>
  An operation on the completions calls \<open>HAL_Time_SetCompare\<close> with the values that it adds to
  the compare log; the timers are not read by the completions, so that the calls can be made
  after the operation, in their order.
\<close>

definition set_compares :: "time_hw \<Rightarrow> u64 list \<Rightarrow> vt_world \<Rightarrow> vt_world option" where
  "set_compares hw ts w = fold (\<lambda>t r. Option.bind r (HAL_Time_SetCompare hw t)) ts (Some w)"

definition on_completions :: "time_hw \<Rightarrow> (async \<Rightarrow> async) \<Rightarrow> vt_world \<Rightarrow> vt_world option" where
  "on_completions hw f w =
     (let a = f (vt_async w)
      in set_compares hw (rev (take (length (compare_log a) - length (compare_log (vt_async w))) (compare_log a)))
           (w\<lparr>vt_async := a\<rparr>))"

definition SetCompareHandler :: "time_hw \<Rightarrow> run_callback \<Rightarrow> vt_world \<Rightarrow> vt_world option" where
  "SetCompareHandler hw run = on_completions hw (DequeueAndExec run)"

text \<open>The functions of the virtual timers, with that of the events timer among them.\<close>

definition timer_functions ::
  "time_hw \<Rightarrow> run_callback \<Rightarrow> (nat option \<Rightarrow> vt_world \<Rightarrow> vt_world) \<Rightarrow> nat option \<Rightarrow> vt_world \<Rightarrow> vt_world"
where
  "timer_functions hw run others cb w =
     (if cb = Some SET_COMPARE_HANDLER
      then (case SetCompareHandler hw run w of Some w' \<Rightarrow> w' | None \<Rightarrow> w)
      else others cb w)"

section \<open>What the drift correction computes\<close>

text \<open>
  The branches for the divisors 1, 2 and 4 are short cuts: for every divisor but 0 the current
  time is the corrected tick count divided by it, in 64-bit arithmetic.
\<close>

theorem CurrentTime_divides:
  assumes "a \<noteq> 0"
  shows "TD_CurrentTime a b c hw = (clock_at hw 0 * scast b + c) div scast a"
proof -
  have s: "scast (1 :: u32) = (1 :: u64)" "scast (2 :: u32) = (2 :: u64)" "scast (4 :: u32) = (4 :: u64)"
    by simp_all
  have d: "drop_bit (Suc 0) t = t div 2" "drop_bit 2 t = t div 4" for t :: u64
    by (simp_all add: drop_bit_eq_div)
  show ?thesis using assms unfolding TD_CurrentTime_def TD_CurrentTicks_def Let_def
    by (simp add: s d)
qed

section \<open>The events timer\<close>

text \<open>The events timer has the entry \<open>i\<close> of the mapper \<open>k\<close>.\<close>

definition events_entry :: "vt_world \<Rightarrow> nat \<Rightarrow> nat \<Rightarrow> bool" where
  "events_entry w k i \<longleftrightarrow> HardwareVirtTimerMapper VIRT_TIMER_EVENTS w = k \<and> k < length (virtualTimerMapper w)
     \<and> vm_inv (virtualTimerMapper w ! k) \<and> VirtTimerIndexMapper VIRT_TIMER_EVENTS (virtualTimerMapper w ! k) = Some i"

lemma events_entry_async [simp]: "events_entry (w\<lparr>vt_async := a\<rparr>) k i = events_entry w k i"
  by (simp add: events_entry_def HardwareVirtTimerMapper_def)

text \<open>Operations that keep the ids and the number of timers keep the entry.\<close>

definition same_ids :: "vt_mapper \<Rightarrow> vt_mapper \<Rightarrow> bool" where
  "same_ids m m' \<longleftrightarrow> m_current_timer_cnt m' = m_current_timer_cnt m
     \<and> map m_timer_id (g_VirtualTimerInfo m') = map m_timer_id (g_VirtualTimerInfo m)"

lemma same_ids_refl: "same_ids m m" by (simp add: same_ids_def)

lemma same_ids_id: "same_ids m m' \<Longrightarrow> j < length (g_VirtualTimerInfo m) \<Longrightarrow> m_timer_id (info m' j) = m_timer_id (info m j)"
  by (metis length_map nth_map same_ids_def)

lemma same_ids_upd: "m_timer_id (f (info m i)) = m_timer_id (info m i) \<Longrightarrow> same_ids m (upd_info i f m)"
  by (cases "i < length (g_VirtualTimerInfo m)")
    (simp_all add: same_ids_def map_update list_update_same_conv list_update_beyond)

lemma same_ids_index:
  assumes "same_ids m m'" "vm_inv m"
  shows "VirtTimerIndexMapper t m' = VirtTimerIndexMapper t m"
proof -
  have "find (\<lambda>i. m_timer_id (info m' i) = t) [0..<n] = find (\<lambda>i. m_timer_id (info m i) = t) [0..<n]" if "n \<le> 20" for n
    using that by (intro find_cong) (auto simp: same_ids_id[OF assms(1)] vm_invD(1)[OF assms(2)])
  then show ?thesis using assms vm_invD(2)[OF assms(2)] by (simp add: VirtTimerIndexMapper_def same_ids_def)
qed

lemma events_entry_upd:
  assumes "events_entry w k i" "same_ids (virtualTimerMapper w ! k) m"
  shows "events_entry (w\<lparr>virtualTimerMapper := (virtualTimerMapper w)[k := m]\<rparr>) k i"
proof -
  let ?ms = "virtualTimerMapper w"
  have k: "k < length ?ms" "vm_inv (?ms ! k)" using assms(1) by (simp_all add: events_entry_def)
  have inv: "vm_inv m" using vm_inv_frame[OF k(2)] assms(2) by (simp add: same_ids_def)
  have "m_timer_id (info (?ms[k := m] ! j) l) = m_timer_id (info (?ms ! j) l)" if "l < 20" for j l
    using that k same_ids_id[OF assms(2), of l] vm_invD(1)[OF k(2)] by (cases "j = k") simp_all
  then have "timer_mapper_scan VIRT_TIMER_EVENTS (?ms[k := m]) = timer_mapper_scan VIRT_TIMER_EVENTS ?ms"
    by (auto simp: timer_mapper_scan_def g_VirtualTimerPerHardwareTimer_def cong: conj_cong)
  with assms inv k show ?thesis
    by (simp add: events_entry_def HardwareVirtTimerMapper_def same_ids_index[OF assms(2)])
qed

text \<open>Setting the delay of the events timer, and starting it.\<close>

definition set_delay :: "time_hw \<Rightarrow> u32 \<Rightarrow> vt_info \<Rightarrow> vt_info" where
  "set_delay hw d v = v\<lparr>m_start_delay := us_to_ticks hw d, m_period := us_to_ticks hw 0, m_is_one_shot := True\<rparr>"

definition start_entry :: "time_hw \<Rightarrow> vt_info \<Rightarrow> vt_info" where
  "start_entry hw v = (set_ticks_when_match (clock_at hw 2 + ucast (m_period v) + ucast (m_start_delay v)) v)
     \<lparr>m_is_running := True\<rparr>"

lemma delay_simps [simp]:
  "m_timer_id (set_delay hw d v) = m_timer_id v" "m_is_running (set_delay hw d v) = m_is_running v"
  "m_ticks_when_match (set_delay hw d v) = m_ticks_when_match v" "m_is_one_shot (set_delay hw d v)"
  "m_reserved (set_delay hw d v) = m_reserved v" "m_timer_id (start_entry hw v) = m_timer_id v"
  "m_is_running (start_entry hw v)" "m_is_one_shot (start_entry hw v) = m_is_one_shot v"
  by (simp_all add: set_delay_def start_entry_def)

lemma same_ids_SetAlarm: "same_ids m m1 \<Longrightarrow> same_ids m (SetAlarmForTheNextTimer m1)"
  by (simp add: same_ids_def frame_simps)

lemma change_start_events:
  fixes hw d h
  assumes "events_entry w k i"
  defines "m \<equiv> upd_info i (set_delay hw d) (virtualTimerMapper w ! k)"
  defines "m' \<equiv> if m_is_running (info (virtualTimerMapper w ! k) i) then m
                 else SetAlarmForTheNextTimer (upd_info i (start_entry hw) m)"
  shows "change_set_start hw VIRT_TIMER_EVENTS d h w = Some (w\<lparr>virtualTimerMapper := (virtualTimerMapper w)[k := m']\<rparr>)
    \<and> events_entry (w\<lparr>virtualTimerMapper := (virtualTimerMapper w)[k := m']\<rparr>) k i"
proof -
  let ?m = "virtualTimerMapper w ! k" and ?w1 = "w\<lparr>virtualTimerMapper := (virtualTimerMapper w)[k := m]\<rparr>"
  have e: "HardwareVirtTimerMapper VIRT_TIMER_EVENTS w = k" "k < length (virtualTimerMapper w)" "vm_inv ?m"
    "VirtTimerIndexMapper VIRT_TIMER_EVENTS ?m = Some i" using assms(1) by (simp_all add: events_entry_def)
  have i: "i < length (g_VirtualTimerInfo ?m)"
    using VirtTimerIndexMapper_Some[OF e(4)] vm_invD[OF e(3)] by simp
  have c: "VirtTimer_Change (us_to_ticks hw) VIRT_TIMER_EVENTS d 0 True h w = (TimerSupported, ?w1)"
    using e by (simp add: VirtTimer_Change_def on_mapper_def ChangeTimer_def upd_mapper_def m_def set_delay_def[abs_def] Let_def)
  have same: "same_ids ?m m" by (simp add: m_def same_ids_upd)
  have e1: "events_entry ?w1 k i" by (rule events_entry_upd[OF assms(1) same])
  then have x: "HardwareVirtTimerMapper VIRT_TIMER_EVENTS ?w1 = k" "VirtTimerIndexMapper VIRT_TIMER_EVENTS m = Some i"
    using e(2) by (simp_all add: events_entry_def)
  have run: "m_is_running (info m i) = m_is_running (info ?m i)" using i by (simp add: m_def)
  have s: "VirtTimer_Start (clock_at hw 2) VIRT_TIMER_EVENTS ?w1
      = (TimerSupported, w\<lparr>virtualTimerMapper := (virtualTimerMapper w)[k := m']\<rparr>)"
    using x e(2) run by (simp add: VirtTimer_Start_def on_mapper_def StartTimer_def upd_mapper_def m'_def start_entry_def[abs_def])
  have "same_ids ?m m'"
    using same i by (auto simp: m'_def m_def same_ids_def frame_simps map_update list_update_same_conv)
  from c s events_entry_upd[OF assms(1) this] show ?thesis by (simp add: change_set_start_def)
qed

text \<open>
  A compare value in the future makes the events timer run. A stopped timer becomes due the
  converted distance after the clock is read again, and the hardware alarm follows it; but a
  timer that runs keeps its due time and its alarm, whatever the new value is: a completion that
  is queued in front of the others is not served earlier.
\<close>

theorem SetCompare_arms_only_a_stopped_timer:
  fixes hw t w
  assumes "events_entry w k i" and "t \<noteq> HAL_Completion_IdleValue" and "clock_at hw 0 < t"
  defines "d \<equiv> compare_delay hw (t - clock_at hw 0)"
  shows "\<exists>w'. HAL_Time_SetCompare hw t w = Some w' \<and> events_entry w' k i \<and> vt_async w' = vt_async w
    \<and> (let m = virtualTimerMapper w ! k; m' = virtualTimerMapper w' ! k in
       m_is_running (info m' i)
       \<and> (if m_is_running (info m i)
          then m_ticks_when_match (info m' i) = m_ticks_when_match (info m i) \<and> alarm_log m' = alarm_log m
          else m_ticks_when_match (info m' i) = clock_at hw 2 + ucast (us_to_ticks hw 0) + ucast (us_to_ticks hw d)
             \<and> (alarm_ready m \<longrightarrow> alarm_ready m')))"
proof -
  let ?m = "virtualTimerMapper w ! k"
  have e: "k < length (virtualTimerMapper w)" "vm_inv ?m" "VirtTimerIndexMapper VIRT_TIMER_EVENTS ?m = Some i"
    using assms(1) by (simp_all add: events_entry_def)
  have i: "i < length (g_VirtualTimerInfo ?m)" using VirtTimerIndexMapper_Some[OF e(3)] vm_invD[OF e(2)] by simp
  have "alarm_ready (SetAlarmForTheNextTimer (upd_info i (start_entry hw) (upd_info i (set_delay hw d) ?m)))"
    if "alarm_ready ?m" using that by (intro SetAlarm_ready) (simp add: alarm_ready_def)
  with change_start_events[OF assms(1), of hw d ADVTIMER_32BIT] assms(2,3) e(1) i show ?thesis
    by (auto simp: HAL_Time_SetCompare_def TD_SetCompareValue_def d_def Let_def frame_simps start_entry_def set_delay_def)
qed

text \<open>What calls with compare values keep: the entry, and that the timer is a one-shot timer.\<close>

definition events_kept :: "nat \<Rightarrow> nat \<Rightarrow> vt_world \<Rightarrow> vt_world \<Rightarrow> bool" where
  "events_kept k i w w' \<longleftrightarrow> events_entry w' k i \<and> vt_async w' = vt_async w
     \<and> (m_is_one_shot (info (virtualTimerMapper w ! k) i) \<longrightarrow> m_is_one_shot (info (virtualTimerMapper w' ! k) i))
     \<and> m_current_timer_cnt (virtualTimerMapper w' ! k) = m_current_timer_cnt (virtualTimerMapper w ! k)"

lemma events_entryD:
  assumes "events_entry w k i"
  shows "k < length (virtualTimerMapper w)" "vm_inv (virtualTimerMapper w ! k)"
    "i < length (g_VirtualTimerInfo (virtualTimerMapper w ! k))" "i < timers (virtualTimerMapper w ! k)"
    "m_timer_id (info (virtualTimerMapper w ! k) i) = VIRT_TIMER_EVENTS"
  using assms VirtTimerIndexMapper_Some[of VIRT_TIMER_EVENTS "virtualTimerMapper w ! k" i] vm_invD
  by (auto simp: events_entry_def) (metis order_less_le_trans)

lemma StopTimer_kept:
  assumes "events_entry w k i"
  shows "events_kept k i w (TD_StopTimer w)"
proof -
  let ?m = "virtualTimerMapper w ! k" and ?f = "\<lambda>v. v\<lparr>m_is_running := False, m_reserved := False\<rparr>"
  have "TD_StopTimer w = w\<lparr>virtualTimerMapper := (virtualTimerMapper w)[k := upd_info i ?f ?m]\<rparr>"
    using assms by (simp add: TD_StopTimer_def VirtTimer_Stop_def on_mapper_def StopTimer_def upd_mapper_def
        events_entry_def Let_def split: prod.splits)
  moreover have "same_ids ?m (upd_info i ?f ?m)" by (simp add: same_ids_upd)
  ultimately show ?thesis using events_entryD[OF assms] events_entry_upd[OF assms] by (simp add: events_kept_def)
qed

lemma HAL_Time_SetCompare_kept:
  assumes "events_entry w k i"
  shows "\<exists>w'. HAL_Time_SetCompare hw t w = Some w' \<and> events_kept k i w w'"
proof -
  have "\<exists>w'. TD_SetCompareValue hw d w = Some w' \<and> events_kept k i w w'" for d
    using change_start_events[OF assms, of hw "compare_delay hw d" ADVTIMER_32BIT] events_entryD[OF assms]
    by (auto simp: TD_SetCompareValue_def events_kept_def frame_simps)
  with StopTimer_kept[OF assms] show ?thesis by (simp add: HAL_Time_SetCompare_def Let_def)
qed

lemma set_compares_kept:
  assumes "events_entry w k i"
  shows "\<exists>w'. set_compares hw ts w = Some w' \<and> events_kept k i w w'"
  using assms
proof (induction ts arbitrary: w)
  case Nil
  then show ?case by (simp add: set_compares_def events_kept_def)
next
  case (Cons t ts)
  from HAL_Time_SetCompare_kept[OF Cons.prems, of hw t] obtain w1 where
    1: "HAL_Time_SetCompare hw t w = Some w1" "events_kept k i w w1" by blast
  with Cons.IH[of w1] obtain w2 where "set_compares hw ts w1 = Some w2" "events_kept k i w1 w2"
    by (auto simp: events_kept_def)
  with 1 show ?case by (auto simp: set_compares_def events_kept_def)
qed

text \<open>
  When the events timer fires, the first completion is taken off the list and executed, and
  afterwards the timer is stopped, whatever the callback did and however many completions still
  wait: the compare value for the next completion was set while the timer still counted as running,
  and the interrupt stops the one-shot timer after the callback.
\<close>

theorem events_timer_stops_after_interrupt:
  assumes "events_entry w k i" and "unat (AssignMapper hwid) = k" and "timers (virtualTimerMapper w ! k) < 20"
    and "unat (m_current_timer_running (virtualTimerMapper w ! k)) = i"
    and "m_is_running (info (virtualTimerMapper w ! k) i)" "m_is_one_shot (info (virtualTimerMapper w ! k) i)"
      "m_ticks_when_match (info (virtualTimerMapper w ! k) i) < now1"
      "m_callBack (info (virtualTimerMapper w ! k) i) = Some SET_COMPARE_HANDLER"
  shows "\<exists>w'. VirtualTimerCallback (timer_functions hw run others) now1 now2 hwid w = Some w'
    \<and> vt_async w' = DequeueAndExec run (vt_async w) \<and> events_entry w' k i
    \<and> \<not> m_is_running (info (virtualTimerMapper w' ! k) i)"
proof -
  let ?m = "virtualTimerMapper w ! k"
  define w1 where "w1 = upd_mapper k (\<lambda>m. m\<lparr>is_callback_running := True\<rparr>) w"
  have k: "k < length (virtualTimerMapper w)" and i: "i < length (g_VirtualTimerInfo ?m)"
    and id: "m_timer_id (info ?m i) = VIRT_TIMER_EVENTS" using events_entryD[OF assms(1)] by simp_all
  have m1: "virtualTimerMapper w1 ! k = ?m\<lparr>is_callback_running := True\<rparr>" using k by (simp add: w1_def)
  have "same_ids ?m (?m\<lparr>is_callback_running := True\<rparr>)" by (simp add: same_ids_def)
  from events_entry_upd[OF assms(1) this] have e1: "events_entry w1 k i" by (simp add: w1_def upd_mapper_def)
  let ?a = "DequeueAndExec run (vt_async w1)"
  have "events_entry (w1\<lparr>vt_async := ?a\<rparr>) k i" using e1 by simp
  from set_compares_kept[OF this, of hw "rev (take (length (compare_log ?a) - length (compare_log (vt_async w1))) (compare_log ?a))"]
  obtain w2 where w2: "SetCompareHandler hw run w1 = Some w2" "events_kept k i (w1\<lparr>vt_async := ?a\<rparr>) w2"
    by (auto simp: SetCompareHandler_def on_completions_def Let_def)
  have e2: "events_entry w2 k i" and a2: "vt_async w2 = ?a" and os: "m_is_one_shot (info (virtualTimerMapper w2 ! k) i)"
    using w2(2) m1 assms(6) by (simp_all add: events_kept_def)
  let ?stop = "\<lambda>v. v\<lparr>m_is_running := False\<rparr>"
  let ?m3 = "upd_info i ?stop (virtualTimerMapper w2 ! k)"
  have s: "serve_timer (timer_functions hw run others) now2 k i w1 = Some (upd_mapper k (\<lambda>_. ?m3) w2)"
    using m1 id assms(8) w2(1) os
    by (simp add: serve_timer_def timer_functions_def VIRT_TIMER_EVENTS_def VIRT_TIMER_INTERRUPT_CONTEXT_MARKER_def
        Let_def upd_mapper_def)
  let ?m4 = "SetAlarmForTheNextTimer (?m3\<lparr>is_callback_running := False\<rparr>)"
  have k2: "k < length (virtualTimerMapper w2)" using events_entryD[OF e2] by simp
  have w1e: "w\<lparr>virtualTimerMapper := (virtualTimerMapper w)[k := ?m\<lparr>is_callback_running := True\<rparr>]\<rparr> = w1"
    by (simp add: w1_def upd_mapper_def)
  have r: "VirtualTimerCallback (timer_functions hw run others) now1 now2 hwid w
      = Some (w2\<lparr>virtualTimerMapper := (virtualTimerMapper w2)[k := ?m4]\<rparr>)"
    using assms(2-7) k i s k2 m1
    by (simp add: VirtualTimerCallback_def Let_def g_VirtualTimerPerHardwareTimer_def word_le_nat_alt upd_mapper_def w1e)
  have "same_ids (virtualTimerMapper w2 ! k) ?m4"
    using same_ids_upd[of ?stop "virtualTimerMapper w2 ! k" i] by (simp add: same_ids_def frame_simps)
  from events_entry_upd[OF e2 this] r a2 k2 events_entryD(3)[OF e2] show ?thesis
    by (simp add: frame_simps w1_def)
qed

text \<open>Sample values: the events timer is due, and two completions wait.\<close>

definition sample_hw :: time_hw where
  "sample_hw = \<lparr>clock_at = (\<lambda>n. 400 + of_nat n), us_to_ticks = (\<lambda>u. u * 48), ticks_to_us = (\<lambda>t _. t div 48),
     ticks_to_time = (\<lambda>t _. t * 10 div 48), max_ticks = (\<lambda>_. 0xFFFFFFFF)\<rparr>"

definition waiting_world :: vt_world where
  "waiting_world = (upd_mapper 0 (upd_info 0 (\<lambda>v. v\<lparr>m_is_one_shot := True, m_callBack := Some SET_COMPARE_HANDLER\<rparr>)) sample_world)
     \<lparr>vt_async := sample_async\<lparr>completion_list := [1, 2]\<rparr>\<rparr>"

lemma waiting_entry: "events_entry waiting_world 0 0"
proof -
  let ?f = "\<lambda>v. v\<lparr>m_is_one_shot := True, m_callBack := Some SET_COMPARE_HANDLER\<rparr>"
  have "VirtTimerIndexMapper VIRT_TIMER_EVENTS sample_mapper = Some 0"
    by (simp add: VirtTimerIndexMapper_def sample_mapper_timers numeral_2_eq_2 sample_mapper_info sample_timer_def VIRT_TIMER_EVENTS_def)
  moreover have "timer_mapper_scan VIRT_TIMER_EVENTS [sample_mapper, sample_mapper] = Some 0"
  proof -
    have "m_timer_id (info sample_mapper 0) = VIRT_TIMER_EVENTS"
      by (simp add: sample_mapper_info sample_timer_def VIRT_TIMER_EVENTS_def)
    moreover have "0 < unat g_VirtualTimerPerHardwareTimer" by (simp add: g_VirtualTimerPerHardwareTimer_def)
    ultimately have "\<exists>j<unat g_VirtualTimerPerHardwareTimer.
        m_timer_id (info ([sample_mapper, sample_mapper] ! 0) j) = VIRT_TIMER_EVENTS" by (intro exI[of _ 0]) simp
    then show ?thesis by (simp add: timer_mapper_scan_def g_CountOfHardwareTimers_def upt_conv_Cons)
  qed
  ultimately have "events_entry sample_world 0 0" using sample_mapper_ok
    by (simp add: events_entry_def HardwareVirtTimerMapper_def sample_world_def)
  from events_entry_upd[OF this, of "upd_info 0 ?f sample_mapper"]
  have "events_entry (upd_mapper 0 (upd_info 0 ?f) sample_world) 0 0"
    by (simp add: same_ids_upd upd_mapper_def sample_world_def)
  then show ?thesis by (simp add: waiting_world_def)
qed

lemma waiting_timer:
  "timers (virtualTimerMapper waiting_world ! 0) = 2" "m_current_timer_running (virtualTimerMapper waiting_world ! 0) = 0"
  "info (virtualTimerMapper waiting_world ! 0) 0 = (sample_timer 1 500 True)\<lparr>m_callBack := Some SET_COMPARE_HANDLER\<rparr>"
  by (simp_all add: waiting_world_def sample_world_def sample_mapper_def sample_timer_def)

end
