(* ===== verification/Omac_Schedule.thy ===== *)
theory Omac_Schedule
  imports Neighbor_Table
begin

text \<open>
  The slots of the OMAC protocol: clock conversions
  (\<^verbatim>\<open>DeviceCode/include/Samraksh/MAC/OMAC/OMACClock.h\<close>, \<^verbatim>\<open>OMACConstants.h\<close>), the pseudo random
  generator (\<^verbatim>\<open>SeedGenerator.h\<close>), the wake-up schedule of a receiver and its prediction by a
  sender (\<^verbatim>\<open>DataReceptionHandler.cpp\<close>, \<^verbatim>\<open>DataTransmissionHandler.cpp\<close>), and the slots of the
  discovery beacons (\<^verbatim>\<open>DiscoveryHandler.cpp\<close>). Shown here: the generator is a permutation of
  the seeds; sender and receiver agree on every wake-up slot, however often each brings its
  copy of the schedule up to date; and any two nodes share a discovery slot within the product
  of two of their periods, whatever the offset of their slot numbers.
\<close>

section \<open>Clock (OMACClock.h)\<close>

definition SLOT_PERIOD_TICKS :: nat where "SLOT_PERIOD_TICKS = 16 * 8000"

definition ConvertTickstoMicroSecs :: "u64 \<Rightarrow> u64" where
  "ConvertTickstoMicroSecs t = t div 8"

definition ConvertMicroSecstoTicks :: "u64 \<Rightarrow> u64" where
  "ConvertMicroSecstoTicks m = m * 8"

definition ConvertSlotstoTicks :: "u64 \<Rightarrow> u64" where
  "ConvertSlotstoTicks n = n * 16000 * 8"

text \<open>\<open>ASSERT\<close> has no effect in a release build; the difference below zero is zero.\<close>

definition SubstractTicks :: "u64 \<Rightarrow> u64 \<Rightarrow> u64" where
  "SubstractTicks a b = (if a > b then a - b else 0)"

definition SubstractMicroSeconds :: "u64 \<Rightarrow> u64 \<Rightarrow> u64" where
  "SubstractMicroSeconds a b = (if a > b then a - b else 0)"

definition AddTicks :: "u64 \<Rightarrow> u64 \<Rightarrow> u64" where "AddTicks a b = a + b"

definition AddMicroSeconds :: "u64 \<Rightarrow> u64 \<Rightarrow> u64" where "AddMicroSeconds a b = a + b"

text \<open>Slot numbers of the scheduler (Scheduler.cpp).\<close>

definition GetSlotNumberfromTicks :: "u64 \<Rightarrow> u64" where
  "GetSlotNumberfromTicks y = y div of_nat SLOT_PERIOD_TICKS"

definition GetSlotNumberfromMicroSec :: "u64 \<Rightarrow> u32" where
  "GetSlotNumberfromMicroSec y = ucast (y div 1000 div 16)"

text \<open>
  The time to the end of a slot, for the scheduler's slots and for discovery slots of a given
  length: the variable is called \<open>ms_till_end\<close>, the unit is microseconds.
\<close>

definition GetTimeTillTheEndofSlot :: "u64 \<Rightarrow> u32" where
  "GetTimeTillTheEndofSlot cur_ticks =
     (let p = of_nat SLOT_PERIOD_TICKS; ticks_till_end = p - (cur_ticks + p) mod p in
      ucast ticks_till_end div (8000 div 1000))"

definition disco_slot_ticks :: "u32 \<Rightarrow> u64" where
  "disco_slot_ticks period_micro = ucast period_micro * 8"

definition Disco_GetSlotNumber :: "u32 \<Rightarrow> u64 \<Rightarrow> u64" where
  "Disco_GetSlotNumber period_micro currentTicks = currentTicks div disco_slot_ticks period_micro"

definition Disco_GetTimeTillTheEndofSlot :: "u32 \<Rightarrow> u64 \<Rightarrow> u64" where
  "Disco_GetTimeTillTheEndofSlot period_micro cur_ticks =
     (let p = disco_slot_ticks period_micro; ticks_till_end = p - (cur_ticks + p) mod p in
      ucast (ucast ticks_till_end div (8000 div 1000) :: u32))"

section \<open>Random numbers (SeedGenerator.h)\<close>

text \<open>The functions return the random number and the new value of \<open>*seedRet\<close>.\<close>

definition RandWithMask :: "u16 \<Rightarrow> u16 \<Rightarrow> u16 \<times> u16" where
  "RandWithMask seed msk =
     (let endbit = (seed AND 0x8000 \<noteq> 0);
          t1 = push_bit 1 seed;
          t2 = (if endbit then t1 XOR 0x100b else t1);
          t3 = t2 + 1
      in (t3 XOR msk, t3))"

definition Rand :: "u16 \<Rightarrow> u16 \<Rightarrow> u16 \<times> u16" where
  "Rand seed nodeID = RandWithMask seed (137 * 29 * (nodeID + 1))"

definition RandWithMask_Dummy :: "u16 \<Rightarrow> u16 \<Rightarrow> u16 \<times> u16" where
  "RandWithMask_Dummy seed msk = (seed, (seed + 1) * (seed + 10) * msk)"

section \<open>Wake-up slots (DataReceptionHandler.cpp)\<close>

definition MAXUPDATESEEDITERS :: u32 where "MAXUPDATESEEDITERS = 2000"
definition SEED_UPDATE_INTERVAL_IN_SLOTS :: u32 where "SEED_UPDATE_INTERVAL_IN_SLOTS = 100"

text \<open>
  The loop of \<open>UpdateSeedandCalculateWakeupSlot\<close>: one frame per round. It ends when the
  wake-up slot is after the current one, which a wrap of the slot numbers could prevent.
\<close>

partial_function (option) frame_loop ::
  "u16 \<Rightarrow> u32 \<Rightarrow> u64 \<Rightarrow> u64 \<Rightarrow> u64 \<Rightarrow> u16 \<Rightarrow> (u64 \<times> u16) option"
where
  "frame_loop msk interval currentSlotNum curFrameStart wakeupSlot next_seed =
     (if currentSlotNum \<ge> wakeupSlot then
        (let (randVal, seed1) = RandWithMask next_seed msk;
             frame1 = curFrameStart + ucast interval
         in frame_loop msk interval currentSlotNum frame1
              (frame1 + ucast (ucast randVal mod interval)) seed1)
      else Some (wakeupSlot, next_seed))"

text \<open>
  The result is the returned truth value and the wake-up slot and seed after the call. An
  interval of 0 divides by zero.
\<close>

definition UpdateSeedandCalculateWakeupSlot ::
  "u64 \<Rightarrow> u16 \<Rightarrow> u16 \<Rightarrow> u32 \<Rightarrow> u64 \<Rightarrow> (bool \<times> u64 \<times> u16) option"
where
  "UpdateSeedandCalculateWakeupSlot wakeupSlot next_seed msk interval currentSlotNum =
     (if currentSlotNum \<ge> wakeupSlot then
        (if interval = 0 then None
         else
           (let curFrameStart = wakeupSlot - wakeupSlot mod ucast interval in
            if currentSlotNum > curFrameStart
               \<and> currentSlotNum - curFrameStart > ucast (MAXUPDATESEEDITERS * interval)
            then Some (False, wakeupSlot, next_seed)
            else map_option (\<lambda>(w, s). (True, w, s))
                   (frame_loop msk interval currentSlotNum curFrameStart wakeupSlot next_seed)))
      else Some (True, wakeupSlot, next_seed))"

text \<open>The schedule part of \<open>DataReceptionHandler::Initialize\<close>.\<close>

record schedule =
  m_nextSeed :: u16
  m_mask :: u16
  m_nextwakeupSlot :: u64
  m_seedUpdateIntervalinSlots :: u32

definition update_schedule :: "u64 \<Rightarrow> schedule \<Rightarrow> (bool \<times> schedule) option" where
  "update_schedule currentSlotNum d =
     map_option (\<lambda>(rv, w, s). (rv, d\<lparr>m_nextwakeupSlot := w, m_nextSeed := s\<rparr>))
       (UpdateSeedandCalculateWakeupSlot (m_nextwakeupSlot d) (m_nextSeed d) (m_mask d)
          (m_seedUpdateIntervalinSlots d) currentSlotNum)"

definition Initialize_schedule :: "u16 \<Rightarrow> u64 \<Rightarrow> schedule option" where
  "Initialize_schedule address currentSlotNum =
     (let msk = 137 * 29 * (address + 1);
          (r, seed) = RandWithMask (119 * 119 * (address + 1)) msk
      in map_option snd (update_schedule currentSlotNum
           \<lparr>m_nextSeed = seed, m_mask = msk,
            m_nextwakeupSlot = ucast (ucast r mod SEED_UPDATE_INTERVAL_IN_SLOTS),
            m_seedUpdateIntervalinSlots = SEED_UPDATE_INTERVAL_IN_SLOTS\<rparr>))"


section \<open>Discovery slots (DiscoveryHandler.cpp)\<close>

text \<open>
  The pools of primes of \<^verbatim>\<open>OMACConstants.h\<close> on the platforms other than Austere and
  EmoteDotNow. A node takes the primes at the index that its address gives.
\<close>

definition DISCOVERY_SIZE_OF_PRIME_NUMBER_POOL :: u16 where
  "DISCOVERY_SIZE_OF_PRIME_NUMBER_POOL = 7"

definition CONTROL_P1 :: "u16 list" where "CONTROL_P1 = [2099, 2111, 2113, 2129, 2131, 2137, 2153]"
definition CONTROL_P2 :: "u16 list" where "CONTROL_P2 = [8627, 8623, 8467, 8447, 8443, 8429, 8419]"
definition CONTROL_P3 :: "u16 list" where "CONTROL_P3 = [2099, 2111, 2113, 2129, 2131, 2137, 2153]"
definition CONTROL_P4 :: "u16 list" where "CONTROL_P4 = [8627, 8623, 8467, 8447, 8443, 8429, 8419]"

text \<open>The periods that \<open>TempIncreaseDiscoRate\<close> and \<open>PermanentlyDecreaseDiscoRate\<close> set.\<close>

definition high_rate_periods :: "u16 \<Rightarrow> u16 \<times> u16" where
  "high_rate_periods address =
     (CONTROL_P1 ! unat (address mod DISCOVERY_SIZE_OF_PRIME_NUMBER_POOL),
      CONTROL_P2 ! unat (address mod DISCOVERY_SIZE_OF_PRIME_NUMBER_POOL))"

definition low_rate_periods :: "u16 \<Rightarrow> u16 \<times> u16" where
  "low_rate_periods address =
     (CONTROL_P3 ! unat (address mod DISCOVERY_SIZE_OF_PRIME_NUMBER_POOL),
      CONTROL_P4 ! unat (address mod DISCOVERY_SIZE_OF_PRIME_NUMBER_POOL))"

text \<open>\<open>NextEventinSlots\<close>, with the periods of the node: the slots between this one and the next event's.\<close>

definition NextEventinSlots :: "u16 \<times> u16 \<Rightarrow> u64 \<Rightarrow> u64" where
  "NextEventinSlots periods currentSlotNum =
     (let period1Remaining = ucast (fst periods) - currentSlotNum mod ucast (fst periods);
          period2Remaining = ucast (snd periods) - currentSlotNum mod ucast (snd periods)
      in if period1Remaining = 0 \<or> period2Remaining = 0 then 0
         else if period1Remaining < period2Remaining then period1Remaining - 1
         else period2Remaining - 1)"

section \<open>The generator permutes the seeds\<close>

lemma seed_step_inj:
  assumes "snd (RandWithMask s m) = snd (RandWithMask t m')"
  shows "s = t"
proof -
  define f where "f x = (if bit x 15 then push_bit 1 x XOR 0x100b else push_bit 1 x)" for x :: u16
  have top: "(x AND 0x8000 \<noteq> 0) = bit x 15" for x :: u16
  proof -
    have "x AND 0x8000 = x AND push_bit 15 1" by simp
    also have "\<dots> = (if bit x 15 then push_bit 15 1 else 0)"
    proof (rule bit_word_eqI)
      fix n assume "n < LENGTH(16)"
      then show "bit (x AND push_bit 15 1) n = bit (if bit x 15 then push_bit 15 1 else 0 :: u16) n"
        by (cases "n = 15") (auto simp: bit_simps simp del: push_bit_of_1 push_bit_numeral)
    qed
    finally show ?thesis by auto
  qed
  from assms have f: "f s = f t"
    by (auto simp: RandWithMask_def Let_def f_def top split: if_splits)
  have low: "bit (f x) 0 = bit x 15" for x
    by (auto simp: f_def bit_0 even_xor_iff)
  from f low have e: "bit s 15 = bit t 15" by metis
  have cancel: "a = b" if "a XOR c = b XOR c" for a b c :: u16
    using that by (metis xor.assoc xor_self_eq xor.right_neutral)
  from f e have p: "push_bit 1 s = push_bit 1 t" by (auto simp: f_def split: if_splits dest: cancel)
  show "s = t"
  proof (rule bit_word_eqI)
    fix n assume n: "n < LENGTH(16)"
    show "bit s n = bit t n"
    proof (cases "n = 15")
      case False
      with n have "Suc n < 16" by simp
      with arg_cong[OF p, of "\<lambda>w. bit w (Suc n)"] show ?thesis
        by (simp only: bit_push_bit_iff) simp
    qed (use e in simp)
  qed
qed

section \<open>The schedule as a sequence of frames\<close>

definition frame_start :: "u32 \<Rightarrow> u64 \<Rightarrow> u64" where
  "frame_start interval w = w - w mod ucast interval"

text \<open>The next wake-up slot and seed: a random slot of the next frame.\<close>

definition next_wake :: "u16 \<Rightarrow> u32 \<Rightarrow> u64 \<times> u16 \<Rightarrow> u64 \<times> u16" where
  "next_wake msk interval ws =
     (let (r, s) = RandWithMask (snd ws) msk in
      (frame_start interval (fst ws) + ucast interval + ucast (ucast r mod interval), s))"

lemma unat_interval: "unat (ucast (i::u32) :: u64) = unat i"
  using unat_bound[of i] by (simp add: unsigned_ucast_eq take_bit_nat_eq_self)

lemma unat_frame_start: "unat (frame_start i w) = unat w - unat w mod unat i"
proof -
  have "w mod ucast i \<le> w" by (simp add: word_le_nat_alt unat_mod_distrib)
  then show ?thesis by (simp add: frame_start_def unat_sub unat_mod_distrib unat_interval)
qed

lemma unat_frame_start_div: "unat (frame_start i w) = unat w div unat i * unat i"
  by (simp add: unat_frame_start minus_mod_eq_div_mult)

lemma unat_random_slot:
  fixes r :: u16
  assumes "i \<noteq> (0::u32)"
  shows "unat (ucast (ucast r mod i) :: u64) < unat i"
proof -
  have "unat (ucast r mod i :: u32) < unat i"
    using assms by (simp add: unat_mod_distrib unat_gt_0)
  then show ?thesis by (simp add: unat_interval)
qed

lemma next_wake_bounds:
  assumes "i \<noteq> 0" and "unat w + 2 * unat i < 2 ^ 64"
  shows "\<exists>k<unat i. unat (fst (next_wake m i (w, s))) = (unat w div unat i + 1) * unat i + k"
proof -
  obtain r s' where r: "RandWithMask s m = (r, s')" by fastforce
  let ?k = "unat (ucast (ucast r mod i) :: u64)"
  have k: "?k < unat i" by (rule unat_random_slot[OF assms(1)])
  have f: "unat (frame_start i w) \<le> unat w" by (simp add: unat_frame_start)
  have "unat (frame_start i w + ucast i) = unat (frame_start i w) + unat i"
    using assms(2) f by (subst unat_plus_if') (simp add: unat_interval)
  moreover have "unat (frame_start i w + ucast i + ucast (ucast r mod i))
      = unat (frame_start i w + ucast i) + ?k"
    using assms(2) f k calculation by (subst unat_plus_if') simp
  ultimately show ?thesis
    using k by (auto simp: next_wake_def r unat_frame_start_div)
qed

lemma next_wake_frame:
  assumes "i \<noteq> 0" and "unat w + 2 * unat i < 2 ^ 64"
  shows "frame_start i (fst (next_wake m i (w, s))) = frame_start i w + ucast i"
proof -
  from next_wake_bounds[OF assms] obtain k where k: "k < unat i"
    "unat (fst (next_wake m i (w, s))) = (unat w div unat i + 1) * unat i + k" by blast
  then have "unat (fst (next_wake m i (w, s))) div unat i = unat w div unat i + 1"
    using assms(1) by (simp add: unat_gt_0 del: mult_Suc)
  moreover have "unat (frame_start i w) \<le> unat w" by (simp add: unat_frame_start)
  then have "unat (frame_start i w + ucast i) = unat (frame_start i w) + unat i"
    using assms(2) by (subst unat_plus_if') (simp add: unat_interval)
  ultimately show ?thesis
    by (intro word_unat_eq_iff[THEN iffD2]) (simp add: unat_frame_start_div algebra_simps)
qed

lemma next_wake_later:
  assumes "i \<noteq> 0" and "unat w + 2 * unat i < 2 ^ 64"
  shows "unat w < unat (fst (next_wake m i (w, s)))"
    and "unat (fst (next_wake m i (w, s))) < unat w + 2 * unat i"
proof -
  from next_wake_bounds[OF assms] obtain k where k: "k < unat i"
    "unat (fst (next_wake m i (w, s))) = (unat w div unat i + 1) * unat i + k" by blast
  have i: "0 < unat i" using assms(1) by (simp add: unat_gt_0)
  have d: "unat w = unat w div unat i * unat i + unat w mod unat i" by simp
  have m: "unat w mod unat i < unat i" using i by simp
  have e: "unat (fst (next_wake m i (w, s))) = unat w div unat i * unat i + unat i + k"
    using k(2) by simp
  show "unat w < unat (fst (next_wake m i (w, s)))" using e d m k(1) by linarith
  show "unat (fst (next_wake m i (w, s))) < unat w + 2 * unat i" using e d m k(1) by linarith
qed


text \<open>A round of the loop is one step of the sequence.\<close>

lemma frame_loop_step:
  assumes "i \<noteq> 0" and "unat w + 2 * unat i < 2 ^ 64" and "w \<le> c"
  shows "frame_loop m i c (frame_start i w) w s =
    (case next_wake m i (w, s) of (w', s') \<Rightarrow> frame_loop m i c (frame_start i w') w' s')"
proof -
  obtain r s' where r: "RandWithMask s m = (r, s')" by fastforce
  have "frame_loop m i c (frame_start i w) w s = frame_loop m i c (frame_start i w + ucast i)
      (frame_start i w + ucast i + ucast (ucast r mod i)) s'"
    using assms(3) by (subst frame_loop.simps) (simp add: r Let_def)
  with next_wake_frame[OF assms(1,2), of m s] show ?thesis
    by (simp add: next_wake_def r)
qed

lemma frame_loop_done: "c < w \<Longrightarrow> frame_loop m i c f w s = Some (w, s)"
  by (subst frame_loop.simps) auto

text \<open>The loop returns; the slot it returns is after the current one and less than two frames away.\<close>

lemma frame_loop_total:
  assumes i: "i \<noteq> 0" and room: "unat c + 2 * unat i < 2 ^ 64"
  shows "\<exists>w' s'. frame_loop m i c (frame_start i w) w s = Some (w', s') \<and> c < w' \<and> w \<le> w'
    \<and> (w \<le> c \<longrightarrow> unat w' < unat c + 2 * unat i)"
proof (induction "unat c + 1 - unat w" arbitrary: w s rule: less_induct)
  case less
  show ?case
  proof (cases "w \<le> c")
    case False
    then show ?thesis by (auto simp: frame_loop_done not_le)
  next
    case True
    with room have fit: "unat w + 2 * unat i < 2 ^ 64" by (simp add: word_le_nat_alt)
    obtain w1 s1 where n: "next_wake m i (w, s) = (w1, s1)" by fastforce
    have later: "unat w < unat w1" "unat w1 < unat w + 2 * unat i"
      using next_wake_later[OF i fit, of m s] n by simp_all
    have "unat c + 1 - unat w1 < unat c + 1 - unat w"
      using later True by (simp add: word_le_nat_alt)
    from less[OF this, of s1] obtain w' s' where
      w': "frame_loop m i c (frame_start i w1) w1 s1 = Some (w', s')" "c < w'" "w1 \<le> w'"
        "w1 \<le> c \<longrightarrow> unat w' < unat c + 2 * unat i" by blast
    have "unat w' < unat c + 2 * unat i"
    proof (cases "w1 \<le> c")
      case False
      then have "w' = w1" using w'(1) by (simp add: frame_loop_done not_le)
      with later(2) True show ?thesis by (simp add: word_le_nat_alt)
    qed (use w'(4) in simp)
    with w' later(1) frame_loop_step[OF i fit True, of m s] n show ?thesis
      by (auto simp: word_le_nat_alt)
  qed
qed

text \<open>Stopping at an earlier slot first makes no difference.\<close>

lemma frame_loop_compose:
  assumes i: "i \<noteq> 0" and room: "unat n + 2 * unat i < 2 ^ 64" and "c \<le> n"
    and "frame_loop m i c (frame_start i w) w s = Some (w1, s1)"
  shows "frame_loop m i n (frame_start i w1) w1 s1 = frame_loop m i n (frame_start i w) w s"
  using assms(4)
proof (induction "unat c + 1 - unat w" arbitrary: w s rule: less_induct)
  case less
  show ?case
  proof (cases "w \<le> c")
    case False
    with less.prems show ?thesis by (simp add: frame_loop_done not_le)
  next
    case True
    with room assms(3) have fit: "unat w + 2 * unat i < 2 ^ 64" and wn: "w \<le> n"
      by (simp_all add: word_le_nat_alt)
    obtain w2 s2 where n: "next_wake m i (w, s) = (w2, s2)" by fastforce
    have "unat w < unat w2" using next_wake_later(1)[OF i fit, of m s] n by simp
    then have "unat c + 1 - unat w2 < unat c + 1 - unat w"
      using True by (simp add: word_le_nat_alt)
    moreover have "frame_loop m i c (frame_start i w2) w2 s2 = Some (w1, s1)"
      using less.prems frame_loop_step[OF i fit True, of m s] n by simp
    ultimately have "frame_loop m i n (frame_start i w1) w1 s1 = frame_loop m i n (frame_start i w2) w2 s2"
      by (rule less.hyps)
    with frame_loop_step[OF i fit wn, of m s] n show ?thesis by simp
  qed
qed


section \<open>Sender and receiver\<close>

text \<open>
  A copy of the schedule brought up to date at a sequence of slots: the receiver's own copy at
  the times of its \<open>NextEvent\<close>, the copy in a sender's neighbor table at the times the sender
  looks for a slot. A refused update leaves the copy as it is.
\<close>

fun bring_up_to_date :: "u64 list \<Rightarrow> schedule \<Rightarrow> schedule option" where
  "bring_up_to_date [] d = Some d"
| "bring_up_to_date (c # cs) d =
     Option.bind (update_schedule c d) (\<lambda>(rv, d'). bring_up_to_date cs d')"

text \<open>The distance that \<open>UpdateSeedandCalculateWakeupSlot\<close> accepts.\<close>

definition within_update_limit :: "u64 \<Rightarrow> schedule \<Rightarrow> bool" where
  "within_update_limit n d \<longleftrightarrow> m_nextwakeupSlot d \<le> n \<longrightarrow>
     n - frame_start (m_seedUpdateIntervalinSlots d) (m_nextwakeupSlot d)
       \<le> ucast (MAXUPDATESEEDITERS * m_seedUpdateIntervalinSlots d)"

lemma frame_start_le: "frame_start i w \<le> w"
  by (simp add: word_le_nat_alt unat_frame_start)

lemma frame_start_mono:
  assumes "w \<le> w'"
  shows "frame_start i w \<le> frame_start i w'"
  using assms by (simp add: word_le_nat_alt unat_frame_start_div div_le_mono)

lemma update_schedule_accepted:
  assumes "m_seedUpdateIntervalinSlots d \<noteq> 0" and "within_update_limit n d"
  shows "update_schedule n d =
    map_option (\<lambda>(w, s). (True, d\<lparr>m_nextwakeupSlot := w, m_nextSeed := s\<rparr>))
      (frame_loop (m_mask d) (m_seedUpdateIntervalinSlots d) n
        (frame_start (m_seedUpdateIntervalinSlots d) (m_nextwakeupSlot d)) (m_nextwakeupSlot d) (m_nextSeed d))"
proof (cases "m_nextwakeupSlot d \<le> n")
  case True
  with assms show ?thesis
    by (auto simp: update_schedule_def UpdateSeedandCalculateWakeupSlot_def within_update_limit_def
        frame_start_def Let_def option.map_comp comp_def case_prod_unfold not_less)
next
  case False
  then show ?thesis
    using frame_loop_done[OF False[unfolded not_le]]
    by (simp add: update_schedule_def UpdateSeedandCalculateWakeupSlot_def)
qed

text \<open>An earlier query is within the limit, and a query before it keeps a later one within it.\<close>

lemma within_limit_earlier:
  assumes "within_update_limit n d" and "c \<le> n"
  shows "within_update_limit c d"
proof (unfold within_update_limit_def, intro impI)
  let ?f = "frame_start (m_seedUpdateIntervalinSlots d) (m_nextwakeupSlot d)"
  assume w: "m_nextwakeupSlot d \<le> c"
  with assms(2) have "m_nextwakeupSlot d \<le> n" by simp
  with assms(1) have lim: "n - ?f \<le> ucast (MAXUPDATESEEDITERS * m_seedUpdateIntervalinSlots d)"
    by (simp add: within_update_limit_def)
  have "?f \<le> c" using frame_start_le w order_trans by blast
  with assms(2) have "c - ?f \<le> n - ?f"
    by (simp add: word_le_nat_alt unat_sub)
  with lim show "c - ?f \<le> ucast (MAXUPDATESEEDITERS * m_seedUpdateIntervalinSlots d)" by simp
qed

lemma within_limit_later:
  assumes "within_update_limit n d" and "m_nextwakeupSlot d \<le> w" and "m_nextwakeupSlot d \<le> n"
  shows "within_update_limit n (d\<lparr>m_nextwakeupSlot := w, m_nextSeed := s\<rparr>)"
proof -
  let ?i = "m_seedUpdateIntervalinSlots d"
  have lim: "n - frame_start ?i (m_nextwakeupSlot d) \<le> ucast (MAXUPDATESEEDITERS * ?i)"
    using assms(1,3) by (simp add: within_update_limit_def)
  have "n - frame_start ?i w \<le> n - frame_start ?i (m_nextwakeupSlot d)" if "w \<le> n"
  proof -
    have "frame_start ?i w \<le> n" using frame_start_le that order_trans by blast
    with frame_start_mono[OF assms(2), of ?i] show ?thesis
      by (simp add: word_le_nat_alt unat_sub)
  qed
  with lim show ?thesis by (auto simp: within_update_limit_def)
qed

text \<open>A query, then a later one: the schedule is the one of the later query alone.\<close>

lemma update_schedule_compose:
  assumes i: "m_seedUpdateIntervalinSlots d \<noteq> 0"
    and room: "unat n + 2 * unat (m_seedUpdateIntervalinSlots d) < 2 ^ 64"
    and lim: "within_update_limit n d" and "c \<le> n"
  shows "\<exists>d'. update_schedule c d = Some (True, d') \<and> update_schedule n d' = update_schedule n d
    \<and> m_seedUpdateIntervalinSlots d' = m_seedUpdateIntervalinSlots d \<and> within_update_limit n d'"
proof -
  let ?i = "m_seedUpdateIntervalinSlots d" and ?w = "m_nextwakeupSlot d"
  have "unat c + 2 * unat ?i < 2 ^ 64" using room assms(4) by (simp add: word_le_nat_alt)
  from frame_loop_total[OF i this, of "m_mask d" ?w "m_nextSeed d"] obtain w' s' where
    loop: "frame_loop (m_mask d) ?i c (frame_start ?i ?w) ?w (m_nextSeed d) = Some (w', s')"
      and later: "?w \<le> w'" by blast
  let ?d = "d\<lparr>m_nextwakeupSlot := w', m_nextSeed := s'\<rparr>"
  have c: "update_schedule c d = Some (True, ?d)"
    using update_schedule_accepted[OF i within_limit_earlier[OF lim assms(4)]] loop by simp
  have lim': "within_update_limit n ?d"
  proof (cases "?w \<le> n")
    case True
    then show ?thesis by (rule within_limit_later[OF lim later])
  next
    case False
    with later show ?thesis by (auto simp: within_update_limit_def)
  qed
  have "update_schedule n ?d = update_schedule n d"
    using update_schedule_accepted[OF _ lim'] update_schedule_accepted[OF i lim] i
      frame_loop_compose[OF i room assms(4) loop]
    by (simp add: option.map_comp comp_def case_prod_unfold)
  with c lim' show ?thesis by auto
qed

lemma bring_up_to_date_last:
  assumes "m_seedUpdateIntervalinSlots d \<noteq> 0"
    and "unat n + 2 * unat (m_seedUpdateIntervalinSlots d) < 2 ^ 64"
    and "within_update_limit n d" and "\<forall>c\<in>set cs. c \<le> n"
  shows "bring_up_to_date (cs @ [n]) d = map_option snd (update_schedule n d)"
  using assms
proof (induction cs arbitrary: d)
  case Nil
  then show ?case by (cases "update_schedule n d") auto
next
  case (Cons c cs)
  from update_schedule_compose[OF Cons.prems(1,2,3), of c] Cons.prems(4) obtain d' where
    d': "update_schedule c d = Some (True, d')" "update_schedule n d' = update_schedule n d"
      "m_seedUpdateIntervalinSlots d' = m_seedUpdateIntervalinSlots d" "within_update_limit n d'"
    by auto
  with Cons.IH[of d'] Cons.prems show ?case by simp
qed


text \<open>What an accepted update gives.\<close>

lemma update_schedule_result:
  assumes "m_seedUpdateIntervalinSlots d \<noteq> 0"
    and "unat n + 2 * unat (m_seedUpdateIntervalinSlots d) < 2 ^ 64" and "within_update_limit n d"
  shows "\<exists>d'. update_schedule n d = Some (True, d') \<and> n < m_nextwakeupSlot d'
    \<and> (m_nextwakeupSlot d \<le> n \<longrightarrow>
         unat (m_nextwakeupSlot d') < unat n + 2 * unat (m_seedUpdateIntervalinSlots d))"
proof -
  from frame_loop_total[OF assms(1,2), of "m_mask d" "m_nextwakeupSlot d" "m_nextSeed d"]
  obtain w' s' where "frame_loop (m_mask d) (m_seedUpdateIntervalinSlots d) n
      (frame_start (m_seedUpdateIntervalinSlots d) (m_nextwakeupSlot d)) (m_nextwakeupSlot d) (m_nextSeed d)
      = Some (w', s')" "n < w'"
    "m_nextwakeupSlot d \<le> n \<longrightarrow> unat w' < unat n + 2 * unat (m_seedUpdateIntervalinSlots d)" by blast
  with update_schedule_accepted[OF assms(1,3)] show ?thesis by simp
qed

text \<open>
  C11. Sender and receiver agree on the receiver's wake-up slots. Both start from the schedule
  the receiver announced, and each brings its copy up to date at times of its own. When both
  then look at slot n, and the announcement is not further back than the update accepts, both
  have the same schedule: its next wake-up slot is after n and less than two frames away.
\<close>

theorem sender_and_receiver_agree:
  assumes "m_seedUpdateIntervalinSlots d \<noteq> 0"
    and "unat n + 2 * unat (m_seedUpdateIntervalinSlots d) < 2 ^ 64"
    and "m_nextwakeupSlot d \<le> n" and "within_update_limit n d"
    and "\<forall>c\<in>set receiver. c \<le> n" and "\<forall>c\<in>set sender. c \<le> n"
  shows "\<exists>d'. bring_up_to_date (receiver @ [n]) d = Some d'
    \<and> bring_up_to_date (sender @ [n]) d = Some d'
    \<and> n < m_nextwakeupSlot d'
    \<and> unat (m_nextwakeupSlot d') < unat n + 2 * unat (m_seedUpdateIntervalinSlots d)"
proof -
  from update_schedule_result[OF assms(1,2,4)] obtain d' where
    "update_schedule n d = Some (True, d')" "n < m_nextwakeupSlot d'"
    "unat (m_nextwakeupSlot d') < unat n + 2 * unat (m_seedUpdateIntervalinSlots d)"
    using assms(3) by blast
  with bring_up_to_date_last[OF assms(1,2,4,5)] bring_up_to_date_last[OF assms(1,2,4,6)]
  show ?thesis by simp
qed

definition sample_schedule :: schedule where
  "sample_schedule = \<lparr>m_nextSeed = 7, m_mask = 11, m_nextwakeupSlot = 250, m_seedUpdateIntervalinSlots = 100\<rparr>"

lemma sample_limit: "within_update_limit 1000 sample_schedule"
  by (simp add: within_update_limit_def sample_schedule_def frame_start_def MAXUPDATESEEDITERS_def)

lemma sender_and_receiver_agree_witness:
  "\<exists>d'. bring_up_to_date ([300, 450, 520] @ [1000]) sample_schedule = Some d'
    \<and> bring_up_to_date ([999] @ [1000]) sample_schedule = Some d' \<and> 1000 < m_nextwakeupSlot d'"
  using sender_and_receiver_agree[OF _ _ _ sample_limit, of "[300, 450, 520]" "[999]"]
  by (auto simp: sample_schedule_def)

text \<open>
  Every frame has one reception slot: the update at the current wake-up slot, with which
  the handlers step to the following one, gives a slot of the next frame, and is never refused.
\<close>

theorem one_reception_slot_per_frame:
  assumes "m_seedUpdateIntervalinSlots d \<noteq> 0"
    and "m_seedUpdateIntervalinSlots d < 2000000"
    and "unat (m_nextwakeupSlot d) + 2 * unat (m_seedUpdateIntervalinSlots d) < 2 ^ 64"
  shows "\<exists>d'. update_schedule (m_nextwakeupSlot d) d = Some (True, d')
    \<and> unat (m_nextwakeupSlot d') div unat (m_seedUpdateIntervalinSlots d)
       = unat (m_nextwakeupSlot d) div unat (m_seedUpdateIntervalinSlots d) + 1
    \<and> (m_nextwakeupSlot d', m_nextSeed d')
       = next_wake (m_mask d) (m_seedUpdateIntervalinSlots d) (m_nextwakeupSlot d, m_nextSeed d)"
proof -
  let ?i = "m_seedUpdateIntervalinSlots d" and ?w = "m_nextwakeupSlot d"
  have i: "unat ?i < 2000000" "0 < unat ?i" using assms(1,2) by (simp_all add: word_less_nat_alt unat_gt_0)
  have "unat (MAXUPDATESEEDITERS * ?i) = 2000 * unat ?i"
    using i(1) by (simp add: MAXUPDATESEEDITERS_def unat_word_ariths)
  moreover have "unat (?w - frame_start ?i ?w) = unat ?w mod unat ?i"
    using frame_start_le[of ?i ?w] by (simp add: unat_sub unat_frame_start)
  moreover have "unat ?w mod unat ?i \<le> 2000 * unat ?i"
    using mod_less_divisor[OF i(2), of "unat ?w"] by linarith
  ultimately have lim: "within_update_limit ?w d"
    by (simp add: within_update_limit_def word_le_nat_alt unat_interval)
  obtain w' s' where n: "next_wake (m_mask d) ?i (?w, m_nextSeed d) = (w', s')" by fastforce
  with next_wake_later(1)[OF assms(1,3), of "m_mask d" "m_nextSeed d"] have later: "?w < w'"
    by (simp add: word_less_nat_alt)
  have "frame_loop (m_mask d) ?i ?w (frame_start ?i ?w) ?w (m_nextSeed d) = Some (w', s')"
    using frame_loop_step[OF assms(1,3) order_refl, of "m_mask d" "m_nextSeed d"] n later
    by (simp add: frame_loop_done)
  with update_schedule_accepted[OF assms(1) lim] have
    "update_schedule ?w d = Some (True, d\<lparr>m_nextwakeupSlot := w', m_nextSeed := s'\<rparr>)" by simp
  moreover from next_wake_bounds[OF assms(1,3), of "m_mask d" "m_nextSeed d"] n obtain k where
    "k < unat ?i" "unat w' = (unat ?w div unat ?i + 1) * unat ?i + k" by auto
  then have "unat w' div unat ?i = unat ?w div unat ?i + 1" using i(2) by (simp del: mult_Suc)
  ultimately show ?thesis using n by simp
qed

text \<open>
  The pseudo random generator loses nothing: for every mask its state steps through a
  permutation of the 65536 seeds, so no two seeds ever meet, and the number it draws is the new
  state combined with the mask.
\<close>

theorem generator_permutes_seeds:
  "bij (\<lambda>seed. snd (RandWithMask seed msk))
    \<and> (\<forall>seed. fst (RandWithMask seed msk) = snd (RandWithMask seed msk) XOR msk)"
proof -
  have "inj (\<lambda>seed. snd (RandWithMask seed msk))" by (rule injI) (rule seed_step_inj)
  then have "bij (\<lambda>seed. snd (RandWithMask seed msk))"
    by (simp add: bij_def finite_UNIV_inj_surj)
  then show ?thesis by (simp add: RandWithMask_def Let_def)
qed


section \<open>Discovery slots\<close>

text \<open>The next multiple of a period after a slot.\<close>

lemma next_multiple:
  fixes p c :: nat
  assumes "0 < p"
  shows "p dvd c + (p - c mod p)" and "c < k \<Longrightarrow> k < c + (p - c mod p) \<Longrightarrow> \<not> p dvd k"
proof -
  have m: "c mod p < p" and c: "c = c div p * p + c mod p" using assms by simp_all
  then have "c + (p - c mod p) = c div p * p + p" by linarith
  also have "\<dots> = (c div p + 1) * p" by simp
  finally have e: "c + (p - c mod p) = (c div p + 1) * p" .
  then show "p dvd c + (p - c mod p)" by simp
  assume k: "c < k" "k < c + (p - c mod p)"
  show "\<not> p dvd k"
  proof
    assume "p dvd k"
    then obtain q where q: "k = q * p" by (metis dvd_def mult.commute)
    from k(2) e q have "q * p < (c div p + 1) * p" by metis
    then have "q < c div p + 1" by (simp only: mult_less_cancel2)
    then have "q \<le> c div p" by simp
    then have "k \<le> c div p * p" unfolding q by (rule mult_right_mono) simp
    with c k(1) show False by linarith
  qed
qed

lemma unat_remaining:
  fixes p :: u16 and c :: u64
  assumes "p \<noteq> 0"
  shows "unat (ucast p - c mod ucast p) = unat p - unat c mod unat p"
    and "0 < unat p - unat c mod unat p"
proof -
  have u: "unat (ucast p :: u64) = unat p"
    using unat_bound[of p] by (simp add: unsigned_ucast_eq take_bit_nat_eq_self)
  have "0 < unat p" using assms by (simp add: unat_gt_0)
  then show pos: "0 < unat p - unat c mod unat p" by simp
  then have "c mod ucast p \<le> ucast p" by (simp add: word_le_nat_alt unat_mod_distrib u)
  then show "unat (ucast p - c mod ucast p) = unat p - unat c mod unat p"
    by (simp add: unat_sub unat_mod_distrib u)
qed

lemma NextEventinSlots_nat:
  assumes "p1 \<noteq> 0" and "p2 \<noteq> 0"
  shows "unat (NextEventinSlots (p1, p2) c) + 1
    = min (unat p1 - unat c mod unat p1) (unat p2 - unat c mod unat p2)"
proof -
  let ?r1 = "ucast p1 - c mod ucast p1" and ?r2 = "ucast p2 - c mod ucast p2"
  note r = unat_remaining[OF assms(1), of c] unat_remaining[OF assms(2), of c]
  then have nz: "?r1 \<noteq> 0" "?r2 \<noteq> 0" by (metis less_irrefl unat_0)+
  have "unat (x - 1) + 1 = unat x" if "x \<noteq> 0" for x :: u64
    using that unat_minus_one[OF that] unat_gt_0[of x] by simp
  with nz r show ?thesis
    by (auto simp: NextEventinSlots_def Let_def min_def word_less_nat_alt)
qed

lemma next_event_multiple:
  assumes "p1 \<noteq> 0" and "p2 \<noteq> 0" and n: "n = unat c + 1 + unat (NextEventinSlots (p1, p2) c)"
  shows "unat p1 dvd n \<or> unat p2 dvd n"
    and "unat c < k \<Longrightarrow> k < n \<Longrightarrow> \<not> unat p1 dvd k \<and> \<not> unat p2 dvd k"
proof -
  let ?r1 = "unat p1 - unat c mod unat p1" and ?r2 = "unat p2 - unat c mod unat p2"
  have p: "0 < unat p1" "0 < unat p2" using assms(1,2) by (simp_all add: unat_gt_0)
  have n: "n = unat c + min ?r1 ?r2"
    using NextEventinSlots_nat[OF assms(1,2), of c] by (simp add: n)
  show "unat p1 dvd n \<or> unat p2 dvd n"
    using next_multiple(1)[OF p(1), of "unat c"] next_multiple(1)[OF p(2), of "unat c"]
    by (auto simp: n min_def)
  show "\<not> unat p1 dvd k \<and> \<not> unat p2 dvd k" if "unat c < k" "k < n"
    using that next_multiple(2)[OF p(1), of "unat c" k] next_multiple(2)[OF p(2), of "unat c" k]
    by (auto simp: n)
qed

text \<open>
  The number of slots the discovery handler waits is right: the event it announces falls on
  the first slot after the current one whose number is a multiple of one of the node's periods.
\<close>

theorem discovery_event_is_next_multiple:
  assumes "p1 \<noteq> 0" and "p2 \<noteq> 0" and "n = unat c + 1 + unat (NextEventinSlots (p1, p2) c)"
  shows "(unat p1 dvd n \<or> unat p2 dvd n)
    \<and> (\<forall>k. unat c < k \<and> k < n \<longrightarrow> \<not> unat p1 dvd k \<and> \<not> unat p2 dvd k)"
  using next_event_multiple[OF assms] by blast

text \<open>A slot at which the event of the slot before is due at once.\<close>

lemma event_due_iff:
  assumes "p1 \<noteq> 0" "p2 \<noteq> 0" "0 < n" "n < 2 ^ 64" and "unat p1 dvd n \<or> unat p2 dvd n"
  shows "NextEventinSlots (p1, p2) (of_nat (n - 1)) = 0"
proof (rule ccontr)
  let ?c = "of_nat (n - 1) :: u64"
  have c: "unat ?c = n - 1" using assms(4) by (simp add: unat_of_nat)
  assume "NextEventinSlots (p1, p2) ?c \<noteq> 0"
  then have "0 < unat (NextEventinSlots (p1, p2) ?c)" by (simp add: unat_gt_0)
  with next_event_multiple(2)[OF assms(1,2) refl, of ?c n] c assms(3,5) show False by force
qed


text \<open>
  Two coprime periods meet at every offset: the first multiple after \<open>start\<close> with the wanted
  remainder comes within the product of the periods.
\<close>

lemma periods_meet:
  fixes p q d start :: nat
  assumes "coprime p q" and "0 < p" and "0 < q"
  shows "\<exists>n. start < n \<and> n \<le> start + p * q \<and> p dvd n \<and> q dvd n + d"
proof -
  from bezout_add_strong_nat[of p q] assms(2) obtain g x y where
    g: "g dvd p" "g dvd q" and b: "p * x = q * y + g" by auto
  from assms(1) g have "g = 1" by (metis coprime_common_divisor nat_dvd_1_iff_1)
  with b have b: "p * x = q * y + 1" by simp
  define k where "k = q - d mod q"
  have "d mod q < q" "d = q * (d div q) + d mod q" using assms(3) by simp_all
  then have "k + d = q * (d div q) + q" unfolding k_def by linarith
  then have "k + d = q * (d div q + 1)" by simp
  moreover have "p * (x * k) + d = q * (y * k) + (k + d)"
    using arg_cong[OF b, of "\<lambda>z. z * k"] by (simp add: algebra_simps)
  ultimately have m0: "q dvd p * (x * k) + d" by (metis dvd_add dvd_triv_left)
  let ?m = "p * (x * k)" and ?M = "p * q"
  let ?m' = "?m + (start + 1) * ?M"
  let ?n = "start + 1 + (?m' - (start + 1)) mod ?M"
  have M: "0 < ?M" using assms by simp
  have "(start + 1) * 1 \<le> (start + 1) * ?M" by (rule mult_le_mono2) (use M in simp)
  then have big: "start + 1 \<le> ?m'" by (simp only: mult_1_right trans_le_add2)
  have "?m' - (start + 1) = (?m' - (start + 1)) div ?M * ?M + (?m' - (start + 1)) mod ?M"
    by (rule div_mult_mod_eq[symmetric])
  with big have t: "?m' = ?n + (?m' - (start + 1)) div ?M * ?M" by linarith
  let ?t = "(?m' - (start + 1)) div ?M"
  have "p dvd ?m'" by simp
  moreover have "p dvd ?t * ?M" by simp
  ultimately have pn: "p dvd ?n" using t by (metis dvd_add_left_iff)
  have "q dvd ?m' + d" using m0 dvd_add[of q "p * (x * k) + d" "(start + 1) * ?M"]
    by (simp add: ac_simps)
  moreover have "?m' + d = (?n + d) + ?t * ?M" using t by linarith
  moreover have "q dvd ?t * ?M" by simp
  ultimately have qn: "q dvd ?n + d" by (metis dvd_add_left_iff)
  have "(?m' - (start + 1)) mod ?M < ?M" using M by simp
  then have "?n \<le> start + ?M" by linarith
  moreover have "start < ?n" by linarith
  ultimately show ?thesis using pn qn by blast
qed

lemma pool_periods:
  assumes "i < 7" and "j < 7"
  shows "coprime (unat (CONTROL_P1 ! i)) (unat (CONTROL_P2 ! j))"
    and "CONTROL_P1 ! i \<noteq> 0" "CONTROL_P2 ! j \<noteq> 0"
    and "unat (CONTROL_P1 ! i) \<le> 2153" "unat (CONTROL_P2 ! j) \<le> 8627"
proof -
  have "list_all (\<lambda>p. list_all (\<lambda>q. coprime (unat p) (unat q)) CONTROL_P2) CONTROL_P1"
    by (simp add: CONTROL_P1_def CONTROL_P2_def coprime_iff_gcd_eq_1 gcd_non_0_nat)
  moreover have "list_all (\<lambda>p. p \<noteq> 0 \<and> unat p \<le> 2153) CONTROL_P1"
    "list_all (\<lambda>q. q \<noteq> 0 \<and> unat q \<le> 8627) CONTROL_P2"
    by (simp_all add: CONTROL_P1_def CONTROL_P2_def)
  moreover have "length CONTROL_P1 = 7" "length CONTROL_P2 = 7"
    by (simp_all add: CONTROL_P1_def CONTROL_P2_def)
  ultimately show "coprime (unat (CONTROL_P1 ! i)) (unat (CONTROL_P2 ! j))"
    "CONTROL_P1 ! i \<noteq> 0" "CONTROL_P2 ! j \<noteq> 0"
    "unat (CONTROL_P1 ! i) \<le> 2153" "unat (CONTROL_P2 ! j) \<le> 8627"
    using assms by (simp_all add: list_all_length)
qed

text \<open>At both rates the periods come from the same pools.\<close>

lemma rates_same_pool: "high_rate_periods a = low_rate_periods a"
  by (simp add: high_rate_periods_def low_rate_periods_def CONTROL_P1_def CONTROL_P2_def
      CONTROL_P3_def CONTROL_P4_def)

lemma pool_index: "unat (a mod DISCOVERY_SIZE_OF_PRIME_NUMBER_POOL) < 7"
  by (simp add: unat_mod_distrib DISCOVERY_SIZE_OF_PRIME_NUMBER_POOL_def)


text \<open>
  C13. Discovery. Any two nodes, whatever their addresses, whichever rate each is at, and however
  far apart their slot numbers are, have a common slot in which the discovery handlers of both
  are due, within the product of the one's first and the other's second period after any slot:
  at most 18573931 slots.
\<close>

theorem neighbors_share_discovery_slot:
  assumes "start + d + 20000000 < 2 ^ 64"
    and "pa \<in> {high_rate_periods a, low_rate_periods a}"
    and "pb \<in> {high_rate_periods b, low_rate_periods b}"
  shows "\<exists>n. start < n \<and> n \<le> start + unat (fst pa) * unat (snd pb)
    \<and> unat (fst pa) * unat (snd pb) \<le> 18573931
    \<and> NextEventinSlots pa (of_nat (n - 1)) = 0 \<and> NextEventinSlots pb (of_nat (n + d - 1)) = 0"
proof -
  let ?i = "unat (a mod DISCOVERY_SIZE_OF_PRIME_NUMBER_POOL)"
    and ?j = "unat (b mod DISCOVERY_SIZE_OF_PRIME_NUMBER_POOL)"
  have pa: "pa = (CONTROL_P1 ! ?i, CONTROL_P2 ! ?i)" and pb: "pb = (CONTROL_P1 ! ?j, CONTROL_P2 ! ?j)"
    using assms(2,3) by (simp_all add: rates_same_pool[symmetric]) (simp_all add: high_rate_periods_def)
  note P = pool_periods[OF pool_index[of a] pool_index[of b]]
    pool_periods[OF pool_index[of a] pool_index[of a]] pool_periods[OF pool_index[of b] pool_index[of b]]
  let ?p = "unat (CONTROL_P1 ! ?i)" and ?q = "unat (CONTROL_P2 ! ?j)"
  have pos: "0 < ?p" "0 < ?q" using P(2,3) by (simp_all add: unat_gt_0)
  from periods_meet[OF P(1) pos, of start d] obtain n where
    n: "start < n" "n \<le> start + ?p * ?q" "?p dvd n" "?q dvd n + d" by blast
  have M: "?p * ?q \<le> 18573931" using mult_le_mono[OF P(4,5)] by simp
  with n(1,2) assms(1) have room: "0 < n" "n < 2 ^ 64" "0 < n + d" "n + d < 2 ^ 64" by linarith+
  have "NextEventinSlots pa (of_nat (n - 1)) = 0"
    unfolding pa by (rule event_due_iff[OF P(7,8) room(1,2)]) (use n(3) in simp)
  moreover have "NextEventinSlots pb (of_nat (n + d - 1)) = 0"
    unfolding pb by (rule event_due_iff[OF P(12,13) room(3,4)]) (use n(4) in simp)
  ultimately show ?thesis using n(1,2) M pa pb by auto
qed

lemma neighbors_share_discovery_slot_witness:
  "\<exists>n. 1000 < n \<and> n \<le> 1000 + 2111 * 8467 \<and> NextEventinSlots (2111, 8623) (of_nat (n - 1)) = 0
     \<and> NextEventinSlots (2113, 8467) (of_nat (n + 77 - 1)) = 0"
  using neighbors_share_discovery_slot[of 1000 77 "high_rate_periods 8" 8 "high_rate_periods 2" 2]
  by (auto simp: high_rate_periods_def DISCOVERY_SIZE_OF_PRIME_NUMBER_POOL_def CONTROL_P1_def CONTROL_P2_def)

end
