(* ===== verification/Global_Time.thy ===== *)
theory Global_Time
  imports Prelude Complex_Main
begin

text \<open>
  The time table of the neighbors, \<^verbatim>\<open>Regression\<close> and \<^verbatim>\<open>GlobalTime\<close> of
  \<^verbatim>\<open>DeviceCode/include/Samraksh/GlobalTime.h\<close>: samples of a neighbor's clock, the line fitted
  to them, and the conversion of times between the clocks. A \<open>double\<close> is a real number; \<open>rnd\<close>,
  an argument of the definitions, is the rounding of the floating point unit after every
  operation, and the statements that need exact arithmetic take the identity for it. A division
  by zero is 0 here, not an infinity. The functions return \<open>None\<close> where the code converts a
  \<open>double\<close> outside the range of \<open>UINT64\<close>, which C leaves undefined. Shown here: the table keeps
  one sample per neighbor, since an assignment stands where a comparison is meant, so the fitted
  line is the one through the origin and the last sample; and the conversions are inverse to
  each other up to the truncation.
\<close>

section \<open>Samples\<close>

definition MAX_SAMPLES :: nat where "MAX_SAMPLES = 8"
definition MAX_NBR :: nat where "MAX_NBR = 10"
definition INVALID_NBR_ID :: u16 where "INVALID_NBR_ID = 0xFFFF"
definition INITIAL_LAST_TIME_INDEX :: u8 where "INITIAL_LAST_TIME_INDEX = 8 + 1"
definition MIN_NUM_ELEMENTS_FOR_TIME_CALCULATION :: u8 where
  "MIN_NUM_ELEMENTS_FOR_TIME_CALCULATION = 2"
definition TIME_WALK_STEP :: real where "TIME_WALK_STEP = 200"

text \<open>0x7FFFFFFFFFFFFFFF is stored in a \<open>double\<close>; the nearest one is \<open>2 ^ 63\<close>.\<close>

definition INVALID_TIMESTAMP :: real where "INVALID_TIMESTAMP = 2 ^ 63"

record ts_samples =
  nbrID :: u16
  recordedTime :: "real list"
  offsetBtwNodes :: "real list"
  isused :: "bool list"
  lastTimeIndex :: u8
  numSamples :: u8
  relativeFreq :: real
  y_intercept :: real
  additional_y_intercept_offset :: real

record regression =
  nbrCount :: u8
  samples :: "ts_samples list"

definition upd_samples :: "nat \<Rightarrow> (ts_samples \<Rightarrow> ts_samples) \<Rightarrow> regression \<Rightarrow> regression" where
  "upd_samples i f g = g\<lparr>samples := (samples g)[i := f (samples g ! i)]\<rparr>"

section \<open>Look-ups\<close>

text \<open>\<open>c_bad_nbrIndex\<close> (255, not below \<open>MAX_NBR\<close>) is \<open>None\<close>.\<close>

definition FindNeighbor :: "u16 \<Rightarrow> regression \<Rightarrow> nat option" where
  "FindNeighbor nbr g = find (\<lambda>i. nbrID (samples g ! i) = nbr) [0..<MAX_NBR]"

definition IsTableFull :: "regression \<Rightarrow> bool" where
  "IsTableFull g = (find (\<lambda>i. nbrID (samples g ! i) = INVALID_NBR_ID) [0..<MAX_NBR] = None)"

definition InsertNbrID :: "u16 \<Rightarrow> regression \<Rightarrow> nat option \<times> regression" where
  "InsertNbrID nbr g =
     (case find (\<lambda>i. nbrID (samples g ! i) = INVALID_NBR_ID) [0..<MAX_NBR] of
        Some i \<Rightarrow> (Some i, (upd_samples i (\<lambda>e. e\<lparr>nbrID := nbr\<rparr>) g)\<lparr>nbrCount := nbrCount g + 1\<rparr>)
      | None \<Rightarrow> (None, g))"

definition NumberOfRecordedElements :: "u16 \<Rightarrow> regression \<Rightarrow> u8" where
  "NumberOfRecordedElements nbr g =
     (case FindNeighbor nbr g of None \<Rightarrow> 0 | Some i \<Rightarrow> numSamples (samples g ! i))"

text \<open>The result is a \<open>float\<close>, to which \<open>rndf\<close> rounds.\<close>

definition FindRelativeFreq :: "(real \<Rightarrow> real) \<Rightarrow> u16 \<Rightarrow> regression \<Rightarrow> real" where
  "FindRelativeFreq rndf nbr g =
     (case FindNeighbor nbr g of None \<Rightarrow> 255 | Some i \<Rightarrow> rndf (relativeFreq (samples g ! i)))"

section \<open>Clearing\<close>

definition CleanNbrwithIndex :: "nat \<Rightarrow> regression \<Rightarrow> regression" where
  "CleanNbrwithIndex i g =
     (if i < MAX_NBR then
        (upd_samples i (\<lambda>e. e\<lparr>nbrID := INVALID_NBR_ID, lastTimeIndex := INITIAL_LAST_TIME_INDEX,
            numSamples := 0, relativeFreq := 0, y_intercept := 0, additional_y_intercept_offset := 0,
            recordedTime := replicate MAX_SAMPLES INVALID_TIMESTAMP,
            offsetBtwNodes := replicate MAX_SAMPLES 0, isused := replicate MAX_SAMPLES False\<rparr>) g)
          \<lparr>nbrCount := nbrCount g - 1\<rparr>
      else g)"

definition Clean :: "u16 \<Rightarrow> regression \<Rightarrow> regression" where
  "Clean nbr g = (case FindNeighbor nbr g of None \<Rightarrow> g | Some i \<Rightarrow> CleanNbrwithIndex i g)"

definition Init_regression :: "regression \<Rightarrow> regression" where
  "Init_regression g =
     fold (\<lambda>i r. CleanNbrwithIndex i (upd_samples i (\<lambda>e. e\<lparr>nbrID := INVALID_NBR_ID\<rparr>) r))
       [0..<MAX_NBR] (g\<lparr>nbrCount := 0\<rparr>)"

section \<open>The fitted line\<close>

text \<open>
  The sums run over the used entries in the order of the array. (The search for the first and
  the last time stamp before them has no effect on the table.)
\<close>

fun sum_yx :: "(real \<Rightarrow> real) \<Rightarrow> (real \<times> real \<times> bool) list \<Rightarrow> real \<times> real \<Rightarrow> real \<times> real" where
  "sum_yx rnd [] acc = acc"
| "sum_yx rnd ((y, d, used) # es) (sum_y, sum_x) =
     sum_yx rnd es (if used then (rnd (sum_y + y), rnd (sum_x + rnd (y - d))) else (sum_y, sum_x))"

fun sum_squares :: "(real \<Rightarrow> real) \<Rightarrow> real \<Rightarrow> real \<Rightarrow> (real \<times> real \<times> bool) list \<Rightarrow> real \<times> real \<Rightarrow> real \<times> real" where
  "sum_squares rnd mean_y mean_x [] acc = acc"
| "sum_squares rnd mean_y mean_x ((y, d, used) # es) (ssxx, ssxy) =
     sum_squares rnd mean_y mean_x es
       (if used then
          (let dx = rnd (rnd (y - d) - mean_x); dy = rnd (y - mean_y) in
           (rnd (ssxx + rnd (dx * dx)), rnd (ssxy + rnd (dx * dy))))
        else (ssxx, ssxy))"

definition sample_list :: "ts_samples \<Rightarrow> (real \<times> real \<times> bool) list" where
  "sample_list e = zip (recordedTime e) (zip (offsetBtwNodes e) (isused e))"

definition fit_line :: "(real \<Rightarrow> real) \<Rightarrow> ts_samples \<Rightarrow> ts_samples" where
  "fit_line rnd e =
     (let n = real (unat (numSamples e));
          (sum_y, sum_x) = sum_yx rnd (sample_list e) (0, 0);
          mean_y = rnd (sum_y / n); mean_x = rnd (sum_x / n);
          (ssxx, ssxy) = sum_squares rnd mean_y mean_x (sample_list e) (0, 0);
          freq = rnd (ssxy / ssxx)
      in e\<lparr>relativeFreq := freq, y_intercept := rnd (mean_y - rnd (mean_x * freq)),
           additional_y_intercept_offset := 0\<rparr>)"

definition Compute :: "(real \<Rightarrow> real) \<Rightarrow> u16 \<Rightarrow> regression \<Rightarrow> regression" where
  "Compute rnd nbr g =
     (case FindNeighbor nbr g of
        None \<Rightarrow> g
      | Some i \<Rightarrow> if numSamples (samples g ! i) < 2 then g else upd_samples i (fit_line rnd) g)"

section \<open>Recording a sample\<close>

text \<open>
  \<open>if(samples[nbrIndex].lastTimeIndex = INITIAL_LAST_TIME_INDEX)\<close> assigns 9, which is true: the
  index becomes \<open>MAX_SAMPLES - 1\<close>, the other branch is never taken, and the increment that
  follows takes the index to 0.
\<close>

definition record_sample :: "(real \<Rightarrow> real) \<Rightarrow> u64 \<Rightarrow> int \<Rightarrow> ts_samples \<Rightarrow> ts_samples" where
  "record_sample rnd nbr_ltime nbr_loffset e =
     (let e1 = e\<lparr>lastTimeIndex := INITIAL_LAST_TIME_INDEX\<rparr>;
          e2 = (if lastTimeIndex e1 \<noteq> 0 then e1\<lparr>lastTimeIndex := of_nat MAX_SAMPLES - 1\<rparr> else e1);
          k = (lastTimeIndex e2 + 1) mod of_nat MAX_SAMPLES
      in e2\<lparr>lastTimeIndex := k, isused := (isused e2)[unat k := True],
            recordedTime := (recordedTime e2)[unat k := rnd (real (unat nbr_ltime))],
            offsetBtwNodes := (offsetBtwNodes e2)[unat k := rnd (real_of_int nbr_loffset)],
            numSamples := (if numSamples e2 < of_nat MAX_SAMPLES then numSamples e2 + 1 else numSamples e2)\<rparr>)"

definition Insert_sample :: "(real \<Rightarrow> real) \<Rightarrow> u16 \<Rightarrow> u64 \<Rightarrow> int \<Rightarrow> regression \<Rightarrow> regression" where
  "Insert_sample rnd nbr nbr_ltime nbr_loffset g =
     (case (case FindNeighbor nbr g of Some i \<Rightarrow> (Some i, g) | None \<Rightarrow> InsertNbrID nbr g) of
        (None, g1) \<Rightarrow> g1
      | (Some i, g1) \<Rightarrow>
          Compute rnd nbr
            (upd_samples i (\<lambda>e. record_sample rnd nbr_ltime nbr_loffset (e\<lparr>nbrID := nbr\<rparr>)) g1))"

section \<open>Conversions\<close>

definition to_u64 :: "real \<Rightarrow> u64 option" where
  "to_u64 x = (if - 1 < x \<and> x < 2 ^ 64 then Some (of_int (if x < 0 then 0 else \<lfloor>x\<rfloor>)) else None)"

text \<open>\<open>LastRecordedTime\<close> reads at the initial index, 9, behind the eight entries: undefined.\<close>

definition LastRecordedTime :: "u16 \<Rightarrow> regression \<Rightarrow> u64 option" where
  "LastRecordedTime nbr g =
     (case FindNeighbor nbr g of
        None \<Rightarrow> Some 0
      | Some i \<Rightarrow>
          (let e = samples g ! i; k = unat (lastTimeIndex e) in
           if k < MAX_SAMPLES then to_u64 (recordedTime e ! k) else None))"

text \<open>\<open>now\<close> is the answer of \<open>HAL_Time_CurrentTicks\<close>.\<close>

definition Neighbor2LocalTime :: "(real \<Rightarrow> real) \<Rightarrow> u64 \<Rightarrow> u16 \<Rightarrow> u64 \<Rightarrow> regression \<Rightarrow> u64 option" where
  "Neighbor2LocalTime rnd now nbr nbrTime g =
     (if NumberOfRecordedElements nbr g < 2 then Some now
      else case FindNeighbor nbr g of
          None \<Rightarrow> Some 0
        | Some i \<Rightarrow>
            (let e = samples g ! i in
             to_u64 (rnd (rnd (rnd (rnd (real (unat nbrTime)) - y_intercept e)
                 - additional_y_intercept_offset e) / relativeFreq e))))"

definition Local2NeighborTime :: "(real \<Rightarrow> real) \<Rightarrow> u16 \<Rightarrow> u64 \<Rightarrow> regression \<Rightarrow> u64 option" where
  "Local2NeighborTime rnd nbr curtime g =
     (if NumberOfRecordedElements nbr g < 2 then Some 0
      else case FindNeighbor nbr g of
          None \<Rightarrow> Some 0
        | Some i \<Rightarrow>
            (let e = samples g ! i in
             to_u64 (rnd (rnd (rnd (relativeFreq e * rnd (real (unat curtime))) + y_intercept e)
                 + additional_y_intercept_offset e))))"

section \<open>GlobalTime\<close>

definition IsNeighborTimeAvailable :: "u16 \<Rightarrow> regression \<Rightarrow> bool" where
  "IsNeighborTimeAvailable nbr g \<longleftrightarrow>
     NumberOfRecordedElements nbr g \<ge> MIN_NUM_ELEMENTS_FOR_TIME_CALCULATION"

text \<open>The search for a neighbor that does not answer: the line is shifted by a few steps.\<close>

definition next_walk_offset :: "real \<Rightarrow> real" where
  "next_walk_offset a =
     (if a = 0 then - 1 * TIME_WALK_STEP
      else if a = - 1 * TIME_WALK_STEP then TIME_WALK_STEP
      else if a = TIME_WALK_STEP then - 2 * TIME_WALK_STEP
      else if a = - 2 * TIME_WALK_STEP then 2.5 * TIME_WALK_STEP
      else 0)"

definition UnsuccessfulTransmission :: "u16 \<Rightarrow> regression \<Rightarrow> regression" where
  "UnsuccessfulTransmission nbr g =
     (case FindNeighbor nbr g of
        None \<Rightarrow> g
      | Some i \<Rightarrow> upd_samples i (\<lambda>e. e\<lparr>additional_y_intercept_offset :=
            next_walk_offset (additional_y_intercept_offset e)\<rparr>) g)"


section \<open>Well-formed tables\<close>

text \<open>An entry: eight places, of which at most the first one is in use.\<close>

definition entry_inv :: "ts_samples \<Rightarrow> bool" where
  "entry_inv e \<longleftrightarrow> length (recordedTime e) = MAX_SAMPLES \<and> length (offsetBtwNodes e) = MAX_SAMPLES
     \<and> length (isused e) = MAX_SAMPLES \<and> (\<forall>k<MAX_SAMPLES. isused e ! k = (k = 0 \<and> 0 < numSamples e))
     \<and> numSamples e \<le> of_nat MAX_SAMPLES"

definition table_inv :: "regression \<Rightarrow> bool" where
  "table_inv g \<longleftrightarrow> length (samples g) = MAX_NBR \<and> (\<forall>i<MAX_NBR. entry_inv (samples g ! i))"

lemma samples_upd [simp]: "samples (upd_samples i f g) = (samples g)[i := f (samples g ! i)]"
  by (simp add: upd_samples_def)

lemma entry_inv_line [simp]:
  "entry_inv (e\<lparr>relativeFreq := a\<rparr>) = entry_inv e" "entry_inv (e\<lparr>y_intercept := a\<rparr>) = entry_inv e"
  "entry_inv (e\<lparr>additional_y_intercept_offset := a\<rparr>) = entry_inv e" "entry_inv (e\<lparr>nbrID := n\<rparr>) = entry_inv e"
  by (simp_all add: entry_inv_def)

lemma entry_inv_fit [inv_intros]: "entry_inv e \<Longrightarrow> entry_inv (fit_line rnd e)"
  by (simp add: fit_line_def Let_def split: prod.split)

lemma upd_samples_inv [inv_intros]:
  "table_inv g \<Longrightarrow> (\<And>e. entry_inv e \<Longrightarrow> entry_inv (f e)) \<Longrightarrow> table_inv (upd_samples i f g)"
  by (cases "i < length (samples g)") (auto simp: table_inv_def nth_list_update)

lemma table_inv_count [simp]: "table_inv (g\<lparr>nbrCount := c\<rparr>) = table_inv g"
  by (simp add: table_inv_def)

lemma record_sample_eq:
  "record_sample rnd t d e = e\<lparr>lastTimeIndex := 0, isused := (isused e)[0 := True],
     recordedTime := (recordedTime e)[0 := rnd (real (unat t))],
     offsetBtwNodes := (offsetBtwNodes e)[0 := rnd (real_of_int d)],
     numSamples := (if numSamples e < 8 then numSamples e + 1 else numSamples e)\<rparr>"
  by (simp add: record_sample_def INITIAL_LAST_TIME_INDEX_def MAX_SAMPLES_def Let_def)

lemma count_up: "(n::u8) < 8 \<Longrightarrow> unat (n + 1) = unat n + 1"
  by (rule unat_plus_one[where n = 8]) simp

lemma entry_inv_record [inv_intros]:
  assumes "entry_inv e"
  shows "entry_inv (record_sample rnd t d e)"
proof -
  have "(if numSamples e < 8 then numSamples e + 1 else numSamples e) \<le> 8
      \<and> 0 < (if numSamples e < 8 then numSamples e + 1 else numSamples e)"
    using assms count_up[of "numSamples e"]
    by (auto simp: entry_inv_def MAX_SAMPLES_def word_le_nat_alt word_less_nat_alt)
  with assms show ?thesis
    by (auto simp: record_sample_eq entry_inv_def nth_list_update MAX_SAMPLES_def)
qed

lemma Compute_inv [inv_intros]: "table_inv g \<Longrightarrow> table_inv (Compute rnd nbr g)"
  by (auto simp: Compute_def intro: inv_intros split: option.split)

lemma InsertNbrID_inv [inv_intros]: "table_inv g \<Longrightarrow> table_inv (snd (InsertNbrID nbr g))"
  by (auto simp: InsertNbrID_def intro!: upd_samples_inv split: option.split)

lemma Insert_sample_inv [inv_intros]:
  assumes "table_inv g"
  shows "table_inv (Insert_sample rnd nbr t d g)"
proof (cases "FindNeighbor nbr g")
  case None
  obtain r g1 where g1: "InsertNbrID nbr g = (r, g1)" by fastforce
  have "table_inv g1" using InsertNbrID_inv[OF assms, of nbr] g1 by simp
  then show ?thesis
    by (cases r) (simp_all add: Insert_sample_def None g1 Compute_inv upd_samples_inv entry_inv_record)
next
  case (Some i)
  then show ?thesis
    by (simp add: Insert_sample_def Compute_inv upd_samples_inv entry_inv_record assms)
qed

lemma CleanNbrwithIndex_inv [inv_intros]: "table_inv g \<Longrightarrow> table_inv (CleanNbrwithIndex i g)"
  by (auto simp: CleanNbrwithIndex_def entry_inv_def intro!: upd_samples_inv)

lemma Clean_inv [inv_intros]: "table_inv g \<Longrightarrow> table_inv (Clean nbr g)"
  by (auto simp: Clean_def intro: inv_intros split: option.split)

lemma UnsuccessfulTransmission_inv [inv_intros]:
  "table_inv g \<Longrightarrow> table_inv (UnsuccessfulTransmission nbr g)"
  by (auto simp: UnsuccessfulTransmission_def intro!: upd_samples_inv split: option.split)


definition clean_entry :: "ts_samples \<Rightarrow> bool" where
  "clean_entry e \<longleftrightarrow> entry_inv e \<and> nbrID e = INVALID_NBR_ID \<and> numSamples e = 0"

lemma Init_regression_entries:
  assumes "length (samples g) = MAX_NBR"
  shows "length (samples (Init_regression g)) = MAX_NBR
    \<and> (\<forall>i<MAX_NBR. clean_entry (samples (Init_regression g) ! i))"
proof -
  let ?step = "\<lambda>i r. CleanNbrwithIndex i (upd_samples i (\<lambda>e. e\<lparr>nbrID := INVALID_NBR_ID\<rparr>) r)"
  have clean: "length (samples (?step i r)) = MAX_NBR" "clean_entry (samples (?step i r) ! i)"
    "\<And>j. j \<noteq> i \<Longrightarrow> samples (?step i r) ! j = samples r ! j"
    if "i < MAX_NBR" "length (samples r) = MAX_NBR" for i r
    using that by (simp_all add: CleanNbrwithIndex_def entry_inv_def clean_entry_def)
  have "n \<le> MAX_NBR \<Longrightarrow> length (samples (fold ?step [0..<n] r)) = MAX_NBR
      \<and> (\<forall>i<n. clean_entry (samples (fold ?step [0..<n] r) ! i))" if "length (samples r) = MAX_NBR" for n r
  proof (induction n)
    case (Suc n)
    let ?r = "fold ?step [0..<n] r"
    from Suc have IH: "length (samples ?r) = MAX_NBR" "\<forall>i<n. clean_entry (samples ?r ! i)" "n < MAX_NBR"
      by simp_all
    have f: "fold ?step [0..<Suc n] r = ?step n ?r" by simp
    have "clean_entry (samples (?step n ?r) ! i)" if "i < Suc n" for i
      using clean(2,3)[OF IH(3,1)] IH(2) that by (cases "i = n") auto
    with clean(1)[OF IH(3,1)] f show ?case by simp
  qed (use that in simp)
  from this[of "g\<lparr>nbrCount := 0\<rparr>" MAX_NBR] assms show ?thesis by (simp add: Init_regression_def)
qed

lemma Init_regression_inv: "length (samples g) = MAX_NBR \<Longrightarrow> table_inv (Init_regression g)"
  using Init_regression_entries[of g] by (simp add: table_inv_def clean_entry_def)

section \<open>One sample per neighbor\<close>

datatype time_op = SampleReceived u16 u64 int | NeighborDropped u16 | NoAnswer u16

fun run_time_op :: "(real \<Rightarrow> real) \<Rightarrow> time_op \<Rightarrow> regression \<Rightarrow> regression" where
  "run_time_op rnd (SampleReceived nbr t d) g = Insert_sample rnd nbr t d g"
| "run_time_op rnd (NeighborDropped nbr) g = Clean nbr g"
| "run_time_op rnd (NoAnswer nbr) g = UnsuccessfulTransmission nbr g"

lemma run_time_op_inv [inv_intros]: "table_inv g \<Longrightarrow> table_inv (run_time_op rnd x g)"
  by (cases x) (auto intro: inv_intros)

lemma run_time_ops_inv: "table_inv g \<Longrightarrow> table_inv (fold (run_time_op rnd) ops g)"
  by (induction ops arbitrary: g) (auto intro: inv_intros)

text \<open>
  C27. The table never holds more than one sample of a neighbor, whatever is received and
  whatever the rounding: of the eight places of an entry only the first is ever in use, while
  the entry counts up to eight samples.
\<close>

theorem table_keeps_one_sample:
  assumes "length (samples g) = MAX_NBR" and "i < MAX_NBR"
  shows "(let e = samples (fold (run_time_op rnd) ops (Init_regression g)) ! i in
    length (filter id (isused e)) \<le> 1 \<and> (\<forall>k<MAX_SAMPLES. isused e ! k = (k = 0 \<and> 0 < numSamples e))
    \<and> numSamples e \<le> 8)"
proof -
  let ?e = "samples (fold (run_time_op rnd) ops (Init_regression g)) ! i"
  have inv: "entry_inv ?e"
    using run_time_ops_inv[OF Init_regression_inv[OF assms(1)]] assms(2) by (simp add: table_inv_def)
  then have "length (filter id (isused ?e)) = card {k. k < MAX_SAMPLES \<and> (k = 0 \<and> 0 < numSamples ?e)}"
    by (simp add: length_filter_conv_card entry_inv_def) (rule arg_cong[where f = card], auto)
  also have "\<dots> \<le> card {0::nat}" by (rule card_mono) auto
  finally show ?thesis using inv by (simp add: entry_inv_def MAX_SAMPLES_def Let_def)
qed

definition blank_table :: regression where
  "blank_table = \<lparr>nbrCount = 0, samples = replicate 10 \<lparr>nbrID = 0, recordedTime = [], offsetBtwNodes = [],
     isused = [], lastTimeIndex = 0, numSamples = 0, relativeFreq = 0, y_intercept = 0,
     additional_y_intercept_offset = 0\<rparr>\<rparr>"

lemma blank_table_length: "length (samples blank_table) = MAX_NBR"
  by (simp add: blank_table_def MAX_NBR_def)

lemma table_keeps_one_sample_witness:
  "numSamples (samples (fold (run_time_op id) [SampleReceived 5 100 3, SampleReceived 5 200 4]
     (Init_regression blank_table)) ! 0) \<le> 8"
  using table_keeps_one_sample[OF blank_table_length, of 0 id "[SampleReceived 5 100 3, SampleReceived 5 200 4]"]
  by (simp add: MAX_NBR_def Let_def)

section \<open>The fitted line\<close>

lemma entry_lists:
  assumes "entry_inv e" and "0 < numSamples e"
  shows "\<exists>y d ys ds us. recordedTime e = y # ys \<and> offsetBtwNodes e = d # ds \<and> isused e = True # us
    \<and> length ys = 7 \<and> length ds = 7 \<and> us = replicate 7 False"
proof -
  from assms(1) have len: "length (recordedTime e) = Suc 7" "length (offsetBtwNodes e) = Suc 7"
    "length (isused e) = Suc 7" by (simp_all add: entry_inv_def MAX_SAMPLES_def)
  from len(1) obtain y ys where y: "recordedTime e = y # ys" "length ys = 7"
    by (auto simp only: length_Suc_conv)
  from len(2) obtain d ds where d: "offsetBtwNodes e = d # ds" "length ds = 7"
    by (auto simp only: length_Suc_conv)
  from len(3) obtain u us where u: "isused e = u # us" "length us = 7"
    by (auto simp only: length_Suc_conv)
  have used: "isused e ! k = (k = 0)" if "k < 8" for k
    using assms that by (simp add: entry_inv_def MAX_SAMPLES_def)
  have "u" using used[of 0] u(1) by simp
  moreover have "us ! k = False" if "k < 7" for k using used[of "Suc k"] u(1) that by simp
  then have "us = replicate 7 False" using u(2) by (intro nth_equalityI) simp_all
  ultimately show ?thesis using y d u by auto
qed

lemma unused_sums:
  assumes "list_all (\<lambda>(y, d, used). \<not> used) es"
  shows "sum_yx rnd es acc = acc" and "sum_squares rnd my mx es acc = acc"
proof -
  show "sum_yx rnd es acc = acc"
    using assms by (induction rnd es acc rule: sum_yx.induct) auto
  show "sum_squares rnd my mx es acc = acc"
    using assms by (induction rnd my mx es acc rule: sum_squares.induct) auto
qed


lemma fit_line_exact:
  assumes "entry_inv e" and "2 \<le> numSamples e"
    and "recordedTime e ! 0 = y" "offsetBtwNodes e ! 0 = d" and "y - d \<noteq> 0"
  shows "relativeFreq (fit_line id e) = y / (y - d)" "y_intercept (fit_line id e) = 0"
    "additional_y_intercept_offset (fit_line id e) = 0"
proof -
  let ?n = "real (unat (numSamples e))" and ?x = "y - d"
  have n: "2 \<le> unat (numSamples e)" using assms(2) by (simp add: word_le_nat_alt)
  then have "0 < numSamples e" by (simp add: word_less_nat_alt)
  from entry_lists[OF assms(1) this] assms(3,4) obtain ys ds where
    "recordedTime e = y # ys" "offsetBtwNodes e = d # ds" "isused e = True # replicate 7 False" by auto
  then have l: "sample_list e = (y, d, True) # zip ys (zip ds (replicate 7 False))"
    by (simp add: sample_list_def del: replicate.simps)
  have un: "list_all (\<lambda>(y, d, used). \<not> used) (zip ys (zip ds (replicate 7 False)))"
    by (auto simp: list_all_iff dest!: set_zip_rightD in_set_zipE)
  define c where "c = (?n - 1) / ?n"
  have c: "c \<noteq> 0" using n by (simp add: c_def del: of_nat_unat)
  have frac: "a - a / ?n = a * c" for a
    using n by (simp add: c_def right_diff_distrib diff_divide_distrib del: of_nat_unat)
  have dx: "?x - ?x / ?n = ?x * c" "y - y / ?n = y * c" by (rule frac)+
  let ?r = "(?x - ?x / ?n) * (y - y / ?n) / ((?x - ?x / ?n) * (?x - ?x / ?n))"
  have line: "fit_line id e = e\<lparr>relativeFreq := ?r, y_intercept := y / ?n - ?x / ?n * ?r,
      additional_y_intercept_offset := 0\<rparr>"
    by (simp only: fit_line_def l Let_def sum_yx.simps sum_squares.simps unused_sums[OF un]
        if_True id_apply prod.case add_0)
  have "?r = (?x * c) * (y * c) / ((?x * c) * (?x * c))" by (simp only: dx)
  also have "\<dots> = y / ?x" using c assms(5) by (simp del: of_nat_unat)
  finally have r: "?r = y / ?x" .
  have "y / ?n - ?x / ?n * (y / ?x) = 0" using assms(5) n by (simp add: field_simps del: of_nat_unat)
  with r show "relativeFreq (fit_line id e) = y / (y - d)" "y_intercept (fit_line id e) = 0"
    "additional_y_intercept_offset (fit_line id e) = 0" unfolding line r by simp_all
qed

lemma FindNeighbor_bound: "FindNeighbor nbr g = Some i \<Longrightarrow> i < MAX_NBR \<and> nbrID (samples g ! i) = nbr"
  by (simp add: FindNeighbor_def find_upt_Some)

lemma FindNeighbor_upd:
  assumes "FindNeighbor nbr g = Some i" and "nbrID (f (samples g ! i)) = nbr"
    and "length (samples g) = MAX_NBR"
  shows "FindNeighbor nbr (upd_samples i f g) = Some i"
  using assms by (simp add: FindNeighbor_def find_upt_Some nth_list_update)

lemma nbrID_record [simp]: "nbrID (record_sample rnd t d e) = nbrID e"
  by (simp add: record_sample_eq)

lemma nbrID_fit [simp]: "nbrID (fit_line rnd e) = nbrID e"
  by (simp add: fit_line_def Let_def split: prod.split)

lemma numSamples_fit [simp]: "numSamples (fit_line rnd e) = numSamples e"
  by (simp add: fit_line_def Let_def split: prod.split)

text \<open>The entry of a known neighbor after a further sample.\<close>

lemma Insert_sample_known:
  assumes "table_inv g" and "FindNeighbor nbr g = Some i" and "0 < numSamples (samples g ! i)"
  shows "\<exists>e. FindNeighbor nbr (Insert_sample rnd nbr t d g) = Some i
    \<and> samples (Insert_sample rnd nbr t d g) ! i = fit_line rnd e
    \<and> e = record_sample rnd t d (samples g ! i) \<and> entry_inv e \<and> 2 \<le> numSamples e
    \<and> recordedTime e ! 0 = rnd (real (unat t)) \<and> offsetBtwNodes e ! 0 = rnd (real_of_int d)"
proof -
  let ?old = "samples g ! i"
  have i: "i < MAX_NBR" "nbrID ?old = nbr" using FindNeighbor_bound[OF assms(2)] by auto
  have len: "length (samples g) = MAX_NBR" and inv: "entry_inv ?old"
    using assms(1) i(1) by (simp_all add: table_inv_def)
  let ?e = "record_sample rnd t d ?old"
  let ?f = "\<lambda>e. record_sample rnd t d (e\<lparr>nbrID := nbr\<rparr>)"
  let ?g1 = "upd_samples i ?f g"
  have same: "?old\<lparr>nbrID := nbr\<rparr> = ?old" using i(2) by simp
  have find: "FindNeighbor nbr ?g1 = Some i" by (rule FindNeighbor_upd[OF assms(2) _ len]) simp
  have "samples ?g1 ! i = ?f ?old" using len i(1) by simp
  also have "\<dots> = ?e" by (simp only: same)
  finally have e: "samples ?g1 ! i = ?e" .
  have two: "2 \<le> numSamples ?e"
  proof (cases "numSamples ?old < 8")
    case True
    with count_up[OF True] assms(3) show ?thesis
      by (simp add: record_sample_eq word_le_nat_alt word_less_nat_alt)
  next
    case False
    then show ?thesis by (simp add: record_sample_eq word_le_nat_alt word_less_nat_alt)
  qed
  then have c: "Insert_sample rnd nbr t d g = upd_samples i (fit_line rnd) ?g1"
    using assms(2) find e by (simp add: Insert_sample_def Compute_def not_less[symmetric])
  have "FindNeighbor nbr (upd_samples i (fit_line rnd) ?g1) = Some i"
    by (rule FindNeighbor_upd[OF find]) (use e i len in simp_all)
  moreover have "samples (upd_samples i (fit_line rnd) ?g1) ! i = fit_line rnd ?e"
    using e len i(1) by simp
  moreover have "recordedTime ?e ! 0 = rnd (real (unat t))" "offsetBtwNodes ?e ! 0 = rnd (real_of_int d)"
    using inv by (simp_all add: record_sample_eq entry_inv_def MAX_SAMPLES_def)
  ultimately show ?thesis unfolding c using two entry_inv_record[OF inv, of rnd t d] by blast
qed


text \<open>
  With exact arithmetic, the conversions after a further sample of a known neighbor depend
  on this sample alone: the clock of the neighbor is taken to run through the origin, in
  proportion to the neighbor's time and the local time of the last sample (the difference of
  the neighbor's time and the recorded offset). No drift between samples is ever fitted.
\<close>

theorem conversions_use_the_last_sample:
  assumes "table_inv g" and "1 \<le> NumberOfRecordedElements nbr g" and "int (unat t) \<noteq> d"
  shows "Local2NeighborTime id nbr c (Insert_sample id nbr t d g)
      = to_u64 (real (unat t) / (real (unat t) - real_of_int d) * real (unat c))
    \<and> Neighbor2LocalTime id now nbr c (Insert_sample id nbr t d g)
      = to_u64 (real (unat c) / (real (unat t) / (real (unat t) - real_of_int d)))"
proof -
  from assms(2) obtain i where i: "FindNeighbor nbr g = Some i" "0 < numSamples (samples g ! i)"
    by (auto simp: NumberOfRecordedElements_def word_le_nat_alt word_less_nat_alt split: option.splits)
  from Insert_sample_known[OF assms(1) i, of id t d] obtain e where
    e: "FindNeighbor nbr (Insert_sample id nbr t d g) = Some i"
      "samples (Insert_sample id nbr t d g) ! i = fit_line id e" "entry_inv e" "2 \<le> numSamples e"
      "recordedTime e ! 0 = real (unat t)" "offsetBtwNodes e ! 0 = real_of_int d"
    by (auto simp only: id_apply)
  have x: "real (unat t) - real_of_int d \<noteq> 0"
    using assms(3) by (metis eq_iff_diff_eq_0 of_int_eq_iff of_int_of_nat_eq)
  note fit = fit_line_exact[OF e(3,4,5,6) x]
  have "\<not> NumberOfRecordedElements nbr (Insert_sample id nbr t d g) < 2"
    using e by (simp add: NumberOfRecordedElements_def not_less)
  with e(1,2) fit show ?thesis
    by (simp add: Local2NeighborTime_def Neighbor2LocalTime_def Let_def del: of_nat_unat)
qed

definition known_table :: regression where
  "known_table = Insert_sample id 5 1000 0 (Init_regression blank_table)"

lemma init_ids:
  "i < MAX_NBR \<Longrightarrow> nbrID (samples (Init_regression blank_table) ! i) = INVALID_NBR_ID"
  "i < MAX_NBR \<Longrightarrow> numSamples (samples (Init_regression blank_table) ! i) = 0"
  using Init_regression_entries[OF blank_table_length] by (simp_all add: clean_entry_def)

lemma known_table_inv: "table_inv known_table"
  unfolding known_table_def by (intro inv_intros Init_regression_inv blank_table_length)

lemma known_table_count: "NumberOfRecordedElements 5 known_table = 1"
proof -
  let ?g = "Init_regression blank_table"
  have len: "length (samples ?g) = MAX_NBR"
    using Init_regression_inv[OF blank_table_length] by (simp add: table_inv_def)
  have "FindNeighbor 5 ?g = None"
    using init_ids(1) by (simp add: FindNeighbor_def find_upt_None INVALID_NBR_ID_def)
  moreover have "find (\<lambda>i. nbrID (samples ?g ! i) = INVALID_NBR_ID) [0..<MAX_NBR] = Some 0"
    using init_ids(1) by (auto simp: find_upt_Some MAX_NBR_def)
  ultimately have k: "known_table = Compute id 5
      (upd_samples 0 (\<lambda>e. record_sample id 1000 0 (e\<lparr>nbrID := 5\<rparr>))
        ((upd_samples 0 (\<lambda>e. e\<lparr>nbrID := 5\<rparr>) ?g)\<lparr>nbrCount := nbrCount ?g + 1\<rparr>))"
    by (simp add: known_table_def Insert_sample_def InsertNbrID_def)
  let ?h = "upd_samples 0 (\<lambda>e. record_sample id 1000 0 (e\<lparr>nbrID := 5\<rparr>))
        ((upd_samples 0 (\<lambda>e. e\<lparr>nbrID := 5\<rparr>) ?g)\<lparr>nbrCount := nbrCount ?g + 1\<rparr>)"
  have "0 < MAX_NBR" by (simp add: MAX_NBR_def)
  then have h: "nbrID (samples ?h ! 0) = 5" "numSamples (samples ?h ! 0) = 1"
    using len init_ids(2)[of 0] by (simp_all add: record_sample_eq)
  then have f: "FindNeighbor 5 ?h = Some 0" using \<open>0 < MAX_NBR\<close> by (simp add: FindNeighbor_def find_upt_Some)
  with h have "known_table = ?h" using k by (simp add: Compute_def)
  with f h show ?thesis by (simp add: NumberOfRecordedElements_def)
qed

text \<open>Truncation moves a value by less than one.\<close>

lemma to_u64_close:
  assumes "to_u64 x = Some n"
  shows "\<bar>real (unat n) - x\<bar> < 1"
proof -
  from assms have r: "- 1 < x" "x < 2 ^ 64" and n: "n = of_int (if x < 0 then 0 else \<lfloor>x\<rfloor>)"
    by (auto simp: to_u64_def split: if_splits)
  show ?thesis
  proof (cases "x < 0")
    case False
    then have f: "0 \<le> \<lfloor>x\<rfloor>" "\<lfloor>x\<rfloor> < 2 ^ 64" using r(2) by (simp_all add: floor_less_iff)
    then have "uint n = \<lfloor>x\<rfloor>" using n False by (simp add: uint_word_of_int)
    then have "real (unat n) = of_int \<lfloor>x\<rfloor>" by (metis of_int_of_nat_eq of_nat_unat)
    then show ?thesis by linarith
  qed (use r n in simp)
qed

text \<open>
  Converting a local time to a neighbor's clock and back returns the local time, with exact
  arithmetic, up to one tick and one tick of the neighbor's clock: the two truncations.
\<close>

theorem neighbor_time_roundtrip:
  assumes "FindNeighbor nbr g = Some i" and "2 \<le> numSamples (samples g ! i)"
    and "0 < relativeFreq (samples g ! i)"
    and "Local2NeighborTime id nbr c g = Some n" and "Neighbor2LocalTime id now nbr n g = Some c'"
  shows "\<bar>real (unat c') - real (unat c)\<bar> < 1 + 1 / relativeFreq (samples g ! i)"
proof -
  let ?e = "samples g ! i"
  let ?f = "relativeFreq ?e" and ?b = "y_intercept ?e + additional_y_intercept_offset ?e"
  have k: "\<not> NumberOfRecordedElements nbr g < 2"
    using assms(1,2) by (simp add: NumberOfRecordedElements_def not_less)
  with assms(1,4) have "to_u64 (?f * real (unat c) + ?b) = Some n"
    by (simp add: Local2NeighborTime_def Let_def add.assoc del: of_nat_unat)
  then have n: "\<bar>real (unat n) - (?f * real (unat c) + ?b)\<bar> < 1" by (rule to_u64_close)
  from k assms(1,5) have "to_u64 ((real (unat n) - ?b) / ?f) = Some c'"
    by (simp add: Neighbor2LocalTime_def Let_def diff_diff_eq del: of_nat_unat)
  then have c': "\<bar>real (unat c') - (real (unat n) - ?b) / ?f\<bar> < 1" by (rule to_u64_close)
  have "(real (unat n) - ?b) / ?f - real (unat c) = (real (unat n) - (?f * real (unat c) + ?b)) / ?f"
    using assms(3) by (simp add: field_simps del: of_nat_unat)
  then have "\<bar>(real (unat n) - ?b) / ?f - real (unat c)\<bar> = \<bar>real (unat n) - (?f * real (unat c) + ?b)\<bar> / ?f"
    using assms(3) by (simp add: abs_divide del: of_nat_unat)
  also have "\<dots> < 1 / ?f" using n assms(3) by (simp add: divide_strict_right_mono del: of_nat_unat)
  finally show ?thesis using c' by linarith
qed

definition fast_table :: regression where
  "fast_table = \<lparr>nbrCount = 1, samples = \<lparr>nbrID = 5, recordedTime = [], offsetBtwNodes = [], isused = [],
     lastTimeIndex = 0, numSamples = 2, relativeFreq = 3 / 2, y_intercept = 0,
     additional_y_intercept_offset = 0\<rparr> # samples blank_table\<rparr>"

text \<open>
  The search of \<open>UnsuccessfulTransmission\<close> tries -200, 200, -400 and 500 ticks and then starts
  again without a shift.
\<close>

lemma walk_offsets:
  "next_walk_offset 0 = - 200" "next_walk_offset (- 200) = 200" "next_walk_offset 200 = - 400"
  "next_walk_offset (- 400) = 500" "next_walk_offset 500 = 0"
  by (simp_all add: next_walk_offset_def TIME_WALK_STEP_def)

end
