(* ===== verification/Omac_State.thy ===== *)
theory Omac_State
  imports Mac_Base Circular_Buffer Omac_Schedule Global_Time "HOL-Library.Monad_Syntax"
begin

text \<open>
  State and environment of the OMAC layer (\<^verbatim>\<open>DeviceCode/include/Samraksh/MAC/OMAC\<close>): the MAC object
  with its scheduler, its handlers and its radio control, as one record that extends the MAC
  base class; the calls that leave the layer, as a history; and the answers to them, as
  functions of the history. So a clock may advance between two readings, a timer may fail
  to start, and the application may do anything in a callback. Then the timing parameters that
  depend on the radio (\<^verbatim>\<open>OMAC.cpp\<close>). Everything the radio driver, the timer driver and the board
  configuration define is part of the environment.
\<close>

section \<open>Enumerations\<close>

datatype OMACSchedulerState_t =
    I_IDLE | I_DATA_RCV_PENDING | I_DATA_SEND_PENDING | I_TIMESYNC_PENDING | I_DISCO_PENDING
  | I_DWELL_SEND | I_RADIO_STOP_RETRY | I_FAILSAFE_STOP | I_POST_EXECUTE

datatype HandlerType_t =
  NULL_HANDLER | CONTROL_BEACON_HANDLER | DATA_RX_HANDLER | DATA_TX_HANDLER | TIMESYNC_HANDLER

datatype DiscoState =
    DISCO_INITIAL | DISCO_LISTEN_SUCCESS | DISCO_LISTEN_FAIL | BEACON1_SKIPPED | BEACON1_SEND_START
  | BEACON1_SEND_DONE | BEACON2_SKIPPED | BEACON2_SEND_START | BEACON2_SEND_DONE | WAITING_FOR_SLEEP
  | SLEEP_SUCCESSFUL | FAILSAFE_STOPPING | WAIT_AFTER_BEACON1 | WAIT_AFTER_BEACON2

datatype DRH_States =
    DRS_EXECUTE_START | DRS_RX_START | DRS_RX_END | DRS_TX_START | DRS_TX_END | DRS_TX_POST_EXECUTE
  | DRS_RADIO_START_FAIl | DRS_TX_FAIL

datatype DataTransmissionHandlerStates =
    DTS_EXECUTE_START | DTS_RADIO_START_SUCCESS | DTS_RADIO_START_FAILED | DTS_BACKOFF
  | DTS_DEST_NOT_AVAILABLE | DTS_SEND_INITIATION_SUCCESS | DTS_SEND_INITIATION_FAIL | DTS_CCA_CLEAR
  | DTS_CCA_BUSY | DTS_SEND_FINISHED | DTS_WAITING_FOR_ACKS | DTS_RECEIVEDDATAACK | DTS_POSTEXECUTION
  | DTS_SEND_INITIATED | DTS_SEND_PACKET_NOT_READY | DTS_PACKET_SELECTED | DTS_PACKET_NOTSELECTED

datatype TRAC_STATUS =
    TRAC_STATUS_SUCCESS | TRAC_STATUS_SUCCESS_DATA_PENDING | TRAC_STATUS_SUCCESS_WAIT_FOR_ACK
  | TRAC_STATUS_CHANNEL_ACCESS_FAILURE | TRAC_STATUS_FAIL_TO_SEND | TRAC_STATUS_NO_ACK | TRAC_STATUS_INVALID

fun trac_code :: "TRAC_STATUS \<Rightarrow> u8" where
  "trac_code TRAC_STATUS_SUCCESS = 0x00"
| "trac_code TRAC_STATUS_SUCCESS_DATA_PENDING = 0x20"
| "trac_code TRAC_STATUS_SUCCESS_WAIT_FOR_ACK = 0x40"
| "trac_code TRAC_STATUS_CHANNEL_ACCESS_FAILURE = 0x60"
| "trac_code TRAC_STATUS_FAIL_TO_SEND = 0x80"
| "trac_code TRAC_STATUS_NO_ACK = 0xA0"
| "trac_code TRAC_STATUS_INVALID = 0xE0"

datatype RadioAckType = HARDWARE_ACK | SOFTWARE_ACK | NO_ACK

text \<open>The timers of the layer; their numbers are part of the board configuration.\<close>

datatype omac_timer =
    VIRT_TIMER_OMAC_SCHEDULER | VIRT_TIMER_OMAC_SCHEDULER_FAILSAFE
  | VIRT_TIMER_OMAC_SCHEDULER_RADIO_STOP_RETRY | VIRT_TIMER_OMAC_DISCOVERY | VIRT_TIMER_OMAC_RECEIVER
  | VIRT_TIMER_OMAC_RECEIVER_ACK | VIRT_TIMER_OMAC_TRANSMITTER | VIRT_TIMER_OMAC_TIMESYNC

section \<open>Constants (OMACConstants.h, Scheduler.h)\<close>

definition MAX_UINT64 :: u64 where "MAX_UINT64 = 0xFFFFFFFFFFFFFFFF"
definition MAX_SLEEP_RETRY_ATTEMPTS :: u8 where "MAX_SLEEP_RETRY_ATTEMPTS = 10"
definition FRAMERETRYMAXATTEMPT :: u8 where "FRAMERETRYMAXATTEMPT = 2"
definition GUARDTIME_MICRO :: u32 where "GUARDTIME_MICRO = 200000"
definition ADDITIONAL_TIMEADVANCE_FOR_RECEPTION :: u32 where "ADDITIONAL_TIMEADVANCE_FOR_RECEPTION = 0"
definition INITIAL_RETRY_BACKOFF_WINDOW_SIZE :: u8 where "INITIAL_RETRY_BACKOFF_WINDOW_SIZE = 3"
definition MAX_RETRY_BACKOFF_WINDOW_SIZE :: u8 where "MAX_RETRY_BACKOFF_WINDOW_SIZE = 10"
definition OMAC_SCHEDULER_MIN_REACTION_TIME_IN_TICKS :: u64 where
  "OMAC_SCHEDULER_MIN_REACTION_TIME_IN_TICKS = 4000"
definition OMAC_SCHEDULER_MIN_REACTION_TIME_IN_MICRO :: u64 where
  "OMAC_SCHEDULER_MIN_REACTION_TIME_IN_MICRO = 500"
definition FAILSAFETIME_MICRO :: u64 where "FAILSAFETIME_MICRO = 60000000000"
definition FORCE_REQUESTTIMESYNC_INMICS :: u64 where "FORCE_REQUESTTIMESYNC_INMICS = 6100000000"
definition SENDER_CENTRIC_PROACTIVE_TIMESYNC_REQUEST_INMICS :: u64 where
  "SENDER_CENTRIC_PROACTIVE_TIMESYNC_REQUEST_INMICS = 600000000"
definition INITIALIZATION_TIMESYNC_INTERVAL_INMICS :: u64 where
  "INITIALIZATION_TIMESYNC_INTERVAL_INMICS = 10000000"
definition OMAC_MAX_WAITING_TIME_FOR_TIMESAMPLES_INMICS :: u64 where
  "OMAC_MAX_WAITING_TIME_FOR_TIMESAMPLES_INMICS = 152 * 3600 * 1000000"
definition HIGH_DISCO_PERIOD_IN_SLOTS_CONSTANT :: u32 where "HIGH_DISCO_PERIOD_IN_SLOTS_CONSTANT = 50000"
definition HIGH_DISCO_PERIOD_ALWAYS_ON :: bool where "HIGH_DISCO_PERIOD_ALWAYS_ON = False"
definition CCA_PERIOD_MICRO :: u32 where "CCA_PERIOD_MICRO = 200"
definition MAXSCHEDULERUPDATE :: u64 where "MAXSCHEDULERUPDATE = 5000000"
definition DISCO_SLOT_GUARD :: u64 where "DISCO_SLOT_GUARD = 10"
definition RADIO_BROADCAST_ADDRESS :: u16 where "RADIO_BROADCAST_ADDRESS = 65535"

section \<open>State\<close>

record softwareACKHeader =
  ack_payloadType :: u8
  ack_src :: u16
  ack_dest :: u16

record omac_params =
  RETRY_RANDOM_BACKOFF_DELAY_MICRO :: u32
  RETRANS_DELAY_DUE_TO_MISSING_ACK :: u32
  DELAY_IN_RECEIVING_ACK :: u32
  DELAY_IN_RECEIVING_HW_ACK :: u32
  DELAY_IN_RECEIVING_SW_ACK :: u32
  RETRANS_DELAY_DUE_TO_MISSING_HW_ACK :: u32
  RETRANS_DELAY_DUE_TO_MISSING_SW_ACK :: u32
  DELAY_FROM_RADIO_DRIVER_TX_TO_RADIO_DRIVER_RX :: u32
  DELAY_FROM_OMAC_TX_TO_RADIO_DRIVER_TX :: u32
  CCA_PERIOD_DESIRED :: u32
  CCA_PERIOD_ACTUAL :: u32
  RADIO_TURN_ON_DELAY_TX :: u32
  RADIO_TURN_ON_DELAY_RX :: u32
  TIME_RX_TIMESTAMP_OFFSET_MICRO :: u32
  TX_TIME_PER_BIT_IN_MICROSEC :: u32
  ACK_RX_MAX_DURATION_MICRO :: u32
  ACK_TX_MAX_DURATION_MICRO :: u32
  MAX_PACKET_TX_DURATION_MICRO :: u32
  MAX_PACKET_RX_DURATION_MICRO :: u32
  DISCO_PACKET_TX_TIME_MICRO :: u32
  DISCO_SLOT_PERIOD_MICRO :: u32
  DISCO_BEACON_TX_MAX_DURATION_MICRO :: u32
  HIGH_DISCO_PERIOD_IN_SLOTS :: u32
  LISTEN_PERIOD_FOR_RECEPTION_HANDLER :: u32

text \<open>
  The objects a \<open>Message_15_4_t*\<close> can point to here: a slot of the send buffer, the message
  under construction, the beacon, the software acknowledgement (cast to a message), a message
  of the radio driver. What is handed to the radio is a snapshot of the object.
\<close>

datatype msg_ref = RefSlot u16 | RefTx | RefDisco | RefAck

datatype frame = FrMessage message | FrAck softwareACKHeader

text \<open>The calls that leave the layer.\<close>

datatype omac_call =
    CGetTicks
  | CHalTicks
  | CTimerSet omac_timer u32 bool
  | CTimerChange omac_timer u32
  | CTimerStart omac_timer
  | CTimerStop omac_timer
  | CTimerInitialize
  | CWakeLock
  | CWakeUnlock
  | CRadioInitialize u8
  | CRadioUnInitialize u8
  | CRadioGetAddress u8
  | CRadioTurnOnRx u8
  | CRadioTurnOffRx u8
  | CRadioSleep u8
  | CRadioClearChannelAssesment u8
  | CRadioPreload u8 frame u16
  | CRadioSend u8 frame u16
  | CRadioSendTimeStamped u8 frame u16 u32
  | CAppReceive nat message u8
  | CAppSendAck nat message NetOpStatus u8
  | CAppNeighborChange nat u8

record omac = mac_base +
  MyID :: u16
  CurrentActiveApp :: u8
  isSendDone :: bool
  m_txAckHandler :: "nat option"
  m_rxAckHandler :: "nat option"
  tx_msg :: message
  omac_seqNumber :: u8
  params :: omac_params
  stayOn :: bool
  next_piggybacked_extendedneighborinfo_index :: u8
  preload_seqNumber :: u8
  sched_state :: OMACSchedulerState_t
  m_execution_started :: bool
  m_num_sleep_retry_attempts :: u8
  m_num_FailsafeStop :: u8
  m_num_FailsafeTimerFiring :: u8
  m_num_rescheduled :: u8
  m_scheduledTimer_in_ticks :: u64
  m_curTime_in_ticks :: u64
  m_scheduledFailSafeTimer_in_ticks :: u64
  SchedulerINUse :: bool
  m_lastHandler :: HandlerType_t
  disco_state :: DiscoState
  disco_sleep_retry_attempts :: u8
  m_periods :: "u16 \<times> u16"
  highdiscorate :: bool
  firstHighRateDiscoTimeinSlotNum :: u64
  beacon_received :: bool
  m_discoveryMsgBuffer :: message
  disco_seqNumber :: u8
  m_receptionstate :: DRH_States
  own_schedule :: schedule
  m_lastRXNodeId :: u16
  is_VIRT_TIMER_OMAC_RECEIVER_in_use :: bool
  ack_header_set :: bool
  softwareAckHeader :: softwareACKHeader
  txhandler_state :: DataTransmissionHandlerStates
  m_outgoingEntryPtr :: pkt_ptr
  m_outgoingEntryPtr_dest :: u16
  isDataPacketScheduled :: bool
  m_currentSlotRetryAttempt :: u8
  m_RANDOM_BACKOFF :: bool
  m_backoff_seed :: u16
  m_backoff_mask :: u16
  dth_scheduledTimer_in_ticks :: u64
  dth_curTime_in_ticks :: u64
  m_messagePeriod :: u64
  regressgt2 :: regression
  g_NeighborTable :: neighbor_table
  g_receive_buffer :: "message circ_buf"
  history :: "omac_call list"

section \<open>Environment\<close>

text \<open>What the radio driver returns for a frame: a null pointer, the frame given, another one.\<close>

datatype send_answer = ReturnsNull | ReturnsSame | ReturnsOther

text \<open>
  The answers, each a function of the history with the call itself at its head. \<open>env_ticks\<close> is
  \<open>OMACClock::GetCurrentTimeinTicks\<close>: the reading of the low drift timer, scaled by a floating
  point factor, less the first reading. \<open>env_app\<close> is what the application does in a callback.
  \<open>env_enum_size\<close> is the number of bytes the compiler gives the enumeration \<open>NeighborStatus\<close>.
\<close>

record omac_env =
  env_ticks :: "omac_call list \<Rightarrow> u64"
  env_hal_ticks :: "omac_call list \<Rightarrow> u64"
  env_timer :: "omac_call list \<Rightarrow> bool"
  env_status :: "omac_call list \<Rightarrow> DeviceStatus"
  env_bool :: "omac_call list \<Rightarrow> bool"
  env_address :: "omac_call list \<Rightarrow> u16"
  env_send :: "omac_call list \<Rightarrow> send_answer"
  env_app :: "omac_call list \<Rightarrow> omac \<Rightarrow> omac"
  env_ack_type :: RadioAckType
  env_round :: "real \<Rightarrow> real"
  env_disco_seq_number :: u8
  env_SX1276 :: u8
  env_enum_size :: nat

abbreviation call :: "omac_call \<Rightarrow> omac \<Rightarrow> omac" where
  "call c s \<equiv> s\<lparr>history := c # history s\<rparr>"

definition GetCurrentTimeinTicks :: "omac_env \<Rightarrow> omac \<Rightarrow> u64 \<times> omac" where
  "GetCurrentTimeinTicks E s = (let s1 = call CGetTicks s in (env_ticks E (history s1), s1))"

definition HAL_Time_CurrentTicks :: "omac_env \<Rightarrow> omac \<Rightarrow> u64 \<times> omac" where
  "HAL_Time_CurrentTicks E s = (let s1 = call CHalTicks s in (env_hal_ticks E (history s1), s1))"

definition GetSlotNumber :: "omac_env \<Rightarrow> omac \<Rightarrow> u64 \<times> omac" where
  "GetSlotNumber E s = (let (t, s1) = GetCurrentTimeinTicks E s in (GetSlotNumberfromTicks t, s1))"

text \<open>The timer functions return \<open>TimerSupported\<close> or not; a period is a \<open>UINT32\<close>.\<close>

definition VirtTimer_SetTimer :: "omac_env \<Rightarrow> omac_timer \<Rightarrow> u32 \<Rightarrow> bool \<Rightarrow> omac \<Rightarrow> bool \<times> omac" where
  "VirtTimer_SetTimer E t period oneshot s =
     (let s1 = call (CTimerSet t period oneshot) s in (env_timer E (history s1), s1))"

definition VirtTimer_Change :: "omac_env \<Rightarrow> omac_timer \<Rightarrow> u32 \<Rightarrow> omac \<Rightarrow> bool \<times> omac" where
  "VirtTimer_Change E t period s =
     (let s1 = call (CTimerChange t period) s in (env_timer E (history s1), s1))"

definition VirtTimer_Start :: "omac_env \<Rightarrow> omac_timer \<Rightarrow> omac \<Rightarrow> bool \<times> omac" where
  "VirtTimer_Start E t s = (let s1 = call (CTimerStart t) s in (env_timer E (history s1), s1))"

definition VirtTimer_Stop :: "omac_env \<Rightarrow> omac_timer \<Rightarrow> omac \<Rightarrow> bool \<times> omac" where
  "VirtTimer_Stop E t s = (let s1 = call (CTimerStop t) s in (env_timer E (history s1), s1))"

definition call_status :: "omac_env \<Rightarrow> omac_call \<Rightarrow> omac \<Rightarrow> DeviceStatus \<times> omac" where
  "call_status E c s = (let s1 = call c s in (env_status E (history s1), s1))"

text \<open>A callback of the application: the call, then what the application does in it.\<close>

definition call_app :: "omac_env \<Rightarrow> omac_call \<Rightarrow> omac \<Rightarrow> omac" where
  "call_app E c s = (let s1 = call c s in env_app E (history s1) s1)"

section \<open>Messages by reference\<close>

definition get_msg :: "msg_ref \<Rightarrow> omac \<Rightarrow> message" where
  "get_msg r s =
     (case r of RefSlot i \<Rightarrow> slot_msg (send_buffer (g_NeighborTable s)) i
      | RefTx \<Rightarrow> tx_msg s | RefDisco \<Rightarrow> m_discoveryMsgBuffer s | RefAck \<Rightarrow> zero_message)"

definition upd_msg :: "msg_ref \<Rightarrow> (message \<Rightarrow> message) \<Rightarrow> omac \<Rightarrow> omac" where
  "upd_msg r f s =
     (case r of
        RefSlot i \<Rightarrow>
          (let tb = g_NeighborTable s; ab = send_buffer tb in
           s\<lparr>g_NeighborTable := tb\<lparr>send_buffer := ab\<lparr>send_packet_buffer :=
               (send_packet_buffer ab)[unat i := f (slot_msg ab i)]\<rparr>\<rparr>\<rparr>)
      | RefTx \<Rightarrow> s\<lparr>tx_msg := f (tx_msg s)\<rparr>
      | RefDisco \<Rightarrow> s\<lparr>m_discoveryMsgBuffer := f (m_discoveryMsgBuffer s)\<rparr>
      | RefAck \<Rightarrow> s)"

definition snapshot :: "msg_ref \<Rightarrow> omac \<Rightarrow> frame" where
  "snapshot r s = (case r of RefAck \<Rightarrow> FrAck (softwareAckHeader s) | _ \<Rightarrow> FrMessage (get_msg r s))"

text \<open>Dereferencing a packet pointer.\<close>

definition deref :: "pkt_ptr \<Rightarrow> msg_ref option" where
  "deref p = (case p of Some (PSlot i) \<Rightarrow> Some (RefSlot i) | _ \<Rightarrow> None)"

text \<open>An operation of the neighbor table; \<open>None\<close> is one that does not return.\<close>

definition on_table :: "(neighbor_table \<Rightarrow> ('r \<times> neighbor_table) option) \<Rightarrow> omac \<Rightarrow> ('r \<times> omac) option" where
  "on_table f s = map_option (\<lambda>(r, tb). (r, s\<lparr>g_NeighborTable := tb\<rparr>)) (f (g_NeighborTable s))"

definition upd_entry :: "u8 \<Rightarrow> (Neighbor_t \<Rightarrow> Neighbor_t) \<Rightarrow> omac \<Rightarrow> omac" where
  "upd_entry i f s = s\<lparr>g_NeighborTable := upd_neighbor i f (g_NeighborTable s)\<rparr>"

section \<open>Parameters of the radios (OMAC.cpp)\<close>

definition RF231RADIO :: u8 where "RF231RADIO = 0"
definition RF231RADIOLR :: u8 where "RF231RADIOLR = 1"
definition SI4468_SPI2 :: u8 where "SI4468_SPI2 = 2"
definition BITS_PER_BYTE :: u32 where "BITS_PER_BYTE = 8"
definition sizeof_DiscoveryMsg :: nat where "sizeof_DiscoveryMsg = 2 + 2 + 4 + 4 + 4"
definition RANDOM_BACKOFF_COUNT_MAX :: u32 where "RANDOM_BACKOFF_COUNT_MAX = 4"

text \<open>
  The acknowledgement delays, per radio and kind of acknowledgement; for another kind the
  members keep their values. (In a release build \<open>ASSERT\<close> is empty.)
\<close>

definition ack_delays :: "u32 \<Rightarrow> u32 \<Rightarrow> u32 \<Rightarrow> u32 \<Rightarrow> u32 \<Rightarrow> omac_params \<Rightarrow> omac_params" where
  "ack_delays hw sw rhw rsw tx p = p\<lparr>DELAY_IN_RECEIVING_HW_ACK := hw, DELAY_IN_RECEIVING_SW_ACK := sw,
     RETRANS_DELAY_DUE_TO_MISSING_HW_ACK := rhw, RETRANS_DELAY_DUE_TO_MISSING_SW_ACK := rsw,
     ACK_TX_MAX_DURATION_MICRO := tx\<rparr>"

text \<open>\<open>TX_TIME_PER_BIT_IN_MICROSEC = 3.9\<close> is stored in a \<open>UINT32\<close>: 3.\<close>

definition params_RF231 :: "RadioAckType \<Rightarrow> omac_params \<Rightarrow> omac_params" where
  "params_RF231 ack p =
     (let TX_BUFFER = 1000; RX_BUFFER = 1000; DISCO_BUFFER = 500;
          per_bit = 3; max_tx = of_nat IEEE802_15_4_FRAME_LENGTH * BITS_PER_BYTE * per_bit + TX_BUFFER;
          p1 = p\<lparr>TX_TIME_PER_BIT_IN_MICROSEC := per_bit,
            RETRY_RANDOM_BACKOFF_DELAY_MICRO := RANDOM_BACKOFF_COUNT_MAX * CCA_PERIOD_MICRO,
            MAX_PACKET_TX_DURATION_MICRO := max_tx,
            MAX_PACKET_RX_DURATION_MICRO := max_tx + RX_BUFFER,
            ACK_RX_MAX_DURATION_MICRO := of_nat sizeof_softwareACKHeader * BITS_PER_BYTE * per_bit + RX_BUFFER,
            DISCO_PACKET_TX_TIME_MICRO := of_nat sizeof_DiscoveryMsg * BITS_PER_BYTE * per_bit + DISCO_BUFFER,
            DISCO_BEACON_TX_MAX_DURATION_MICRO := 1200,
            DISCO_SLOT_PERIOD_MICRO := 15 * 1000,
            HIGH_DISCO_PERIOD_IN_SLOTS := HIGH_DISCO_PERIOD_IN_SLOTS_CONSTANT\<rparr>;
          p2 = (case ack of SOFTWARE_ACK \<Rightarrow> ack_delays 0 600 0 200 4000 p1
                | HARDWARE_ACK \<Rightarrow> ack_delays 400 0 0 0 0 p1 | NO_ACK \<Rightarrow> p1)
      in p2\<lparr>DELAY_IN_RECEIVING_ACK := DELAY_IN_RECEIVING_HW_ACK p2 + DELAY_IN_RECEIVING_SW_ACK p2,
            RETRANS_DELAY_DUE_TO_MISSING_ACK :=
              RETRANS_DELAY_DUE_TO_MISSING_HW_ACK p2 + RETRANS_DELAY_DUE_TO_MISSING_SW_ACK p2,
            DELAY_FROM_RADIO_DRIVER_TX_TO_RADIO_DRIVER_RX := 284,
            DELAY_FROM_OMAC_TX_TO_RADIO_DRIVER_TX := 581,
            CCA_PERIOD_ACTUAL := CCA_PERIOD_DESIRED p2 + 165,
            RADIO_TURN_ON_DELAY_TX := 693, RADIO_TURN_ON_DELAY_RX := 693,
            TIME_RX_TIMESTAMP_OFFSET_MICRO := 141,
            LISTEN_PERIOD_FOR_RECEPTION_HANDLER := GUARDTIME_MICRO + GUARDTIME_MICRO + 284\<rparr>)"

definition params_SI4468 :: "RadioAckType \<Rightarrow> omac_params \<Rightarrow> omac_params" where
  "params_SI4468 ack p =
     (let TX_BUFFER = 2000; RX_BUFFER = 7000;
          per_bit = 25; max_tx = of_nat IEEE802_15_4_FRAME_LENGTH * BITS_PER_BYTE * per_bit + TX_BUFFER;
          p1 = p\<lparr>TX_TIME_PER_BIT_IN_MICROSEC := per_bit,
            RETRY_RANDOM_BACKOFF_DELAY_MICRO := RANDOM_BACKOFF_COUNT_MAX * CCA_PERIOD_MICRO,
            MAX_PACKET_TX_DURATION_MICRO := max_tx,
            MAX_PACKET_RX_DURATION_MICRO := max_tx,
            ACK_RX_MAX_DURATION_MICRO := of_nat sizeof_softwareACKHeader * BITS_PER_BYTE * per_bit + RX_BUFFER,
            DISCO_PACKET_TX_TIME_MICRO := max_tx,
            DISCO_BEACON_TX_MAX_DURATION_MICRO := 10 * 1000,
            DISCO_SLOT_PERIOD_MICRO := 15 * 1000,
            HIGH_DISCO_PERIOD_IN_SLOTS := HIGH_DISCO_PERIOD_IN_SLOTS_CONSTANT\<rparr>;
          p2 = (if ack = SOFTWARE_ACK then ack_delays 0 0 0 0 8000 p1 else p1)
      in p2\<lparr>DELAY_IN_RECEIVING_ACK := 3600, RETRANS_DELAY_DUE_TO_MISSING_ACK := 12800,
            DELAY_FROM_RADIO_DRIVER_TX_TO_RADIO_DRIVER_RX := 1718,
            DELAY_FROM_OMAC_TX_TO_RADIO_DRIVER_TX := 1440,
            CCA_PERIOD_ACTUAL := CCA_PERIOD_DESIRED p2 + 1565,
            RADIO_TURN_ON_DELAY_TX := 143, RADIO_TURN_ON_DELAY_RX := 163,
            TIME_RX_TIMESTAMP_OFFSET_MICRO := 1415,
            LISTEN_PERIOD_FOR_RECEPTION_HANDLER := GUARDTIME_MICRO + GUARDTIME_MICRO + 1718\<rparr>)"

text \<open>\<open>(UINT32)12.8*(UINT32)MILLISECINMICSEC\<close> is 12000.\<close>

definition params_SX1276 :: "RadioAckType \<Rightarrow> omac_params \<Rightarrow> omac_params" where
  "params_SX1276 ack p =
     (let TX_BUFFER = 20000; DISCO_BUFFER = 10000;
          per_bit = 1000; max_tx = of_nat IEEE802_15_4_FRAME_LENGTH * BITS_PER_BYTE * per_bit + TX_BUFFER;
          p1 = p\<lparr>TX_TIME_PER_BIT_IN_MICROSEC := per_bit,
            RETRY_RANDOM_BACKOFF_DELAY_MICRO := RANDOM_BACKOFF_COUNT_MAX * CCA_PERIOD_MICRO,
            MAX_PACKET_TX_DURATION_MICRO := max_tx,
            MAX_PACKET_RX_DURATION_MICRO := max_tx,
            ACK_RX_MAX_DURATION_MICRO := max_tx,
            DISCO_PACKET_TX_TIME_MICRO := of_nat sizeof_DiscoveryMsg * BITS_PER_BYTE * per_bit + DISCO_BUFFER,
            DISCO_BEACON_TX_MAX_DURATION_MICRO := 10 * 1000,
            DISCO_SLOT_PERIOD_MICRO := 15 * 1000,
            HIGH_DISCO_PERIOD_IN_SLOTS := HIGH_DISCO_PERIOD_IN_SLOTS_CONSTANT\<rparr>;
          p2 = (if ack = SOFTWARE_ACK then ack_delays 0 0 0 0 max_tx p1 else p1)
      in p2\<lparr>DELAY_IN_RECEIVING_ACK := 5 * 1000, RETRANS_DELAY_DUE_TO_MISSING_ACK := 12 * 1000,
            DELAY_FROM_RADIO_DRIVER_TX_TO_RADIO_DRIVER_RX := 88926,
            DELAY_FROM_OMAC_TX_TO_RADIO_DRIVER_TX := 677,
            CCA_PERIOD_ACTUAL := CCA_PERIOD_DESIRED p2 + 165,
            RADIO_TURN_ON_DELAY_TX := 200, RADIO_TURN_ON_DELAY_RX := 200,
            TIME_RX_TIMESTAMP_OFFSET_MICRO := 1415,
            LISTEN_PERIOD_FOR_RECEPTION_HANDLER := GUARDTIME_MICRO + GUARDTIME_MICRO + 88926\<rparr>)"

definition SetOMACParametersBasedOnRadioName :: "omac_env \<Rightarrow> u8 \<Rightarrow> omac \<Rightarrow> DeviceStatus \<times> omac" where
  "SetOMACParametersBasedOnRadioName E radio s =
     (let p = (params s)\<lparr>CCA_PERIOD_DESIRED := CCA_PERIOD_MICRO\<rparr>; ack = env_ack_type E in
      if radio = RF231RADIOLR \<or> radio = RF231RADIO then (DS_Success, s\<lparr>params := params_RF231 ack p\<rparr>)
      else if radio = SI4468_SPI2 then (DS_Success, s\<lparr>params := params_SI4468 ack p\<rparr>)
      else if radio = env_SX1276 E then (DS_Success, s\<lparr>params := params_SX1276 ack p\<rparr>)
      else (DS_Fail, s\<lparr>params := p\<rparr>))"

section \<open>Running timers\<close>

text \<open>
  What the calls of the layer tell about a timer: it runs if a start of it was answered with
  \<open>TimerSupported\<close> and it was neither stopped nor set up anew since; its period is the one
  last given.
\<close>

fun running :: "omac_env \<Rightarrow> omac_timer \<Rightarrow> omac_call list \<Rightarrow> bool" where
  "running E t [] = False"
| "running E t (c # cs) =
     (case c of
        CTimerStart u \<Rightarrow> (u = t \<and> env_timer E (c # cs)) \<or> running E t cs
      | CTimerStop u \<Rightarrow> u \<noteq> t \<and> running E t cs
      | CTimerSet u _ _ \<Rightarrow> u \<noteq> t \<and> running E t cs
      | _ \<Rightarrow> running E t cs)"

fun timer_period :: "omac_timer \<Rightarrow> omac_call list \<Rightarrow> u32 option" where
  "timer_period t [] = None"
| "timer_period t (c # cs) =
     (case c of
        CTimerSet u p _ \<Rightarrow> if u = t then Some p else timer_period t cs
      | CTimerChange u p \<Rightarrow> if u = t then Some p else timer_period t cs
      | _ \<Rightarrow> timer_period t cs)"

lemmas timer_defs = VirtTimer_SetTimer_def VirtTimer_Change_def VirtTimer_Start_def VirtTimer_Stop_def

lemma start_running: "VirtTimer_Start E t s = (True, s') \<Longrightarrow> running E t (history s')"
  by (auto simp: VirtTimer_Start_def Let_def)

section \<open>A sample node\<close>

text \<open>
  The node that the examples of the theories above start from: address 7, initialised, with two
  neighbors in its table. Its timers start, its radio does what it is told, its clock stands
  at 8000000 ticks, one second.
\<close>

definition quiet_env :: omac_env where
  "quiet_env = \<lparr>env_ticks = (\<lambda>_. 8000000), env_hal_ticks = (\<lambda>_. 8000000), env_timer = (\<lambda>_. True),
     env_status = (\<lambda>_. DS_Success), env_bool = (\<lambda>_. True), env_address = (\<lambda>_. 7),
     env_send = (\<lambda>_. ReturnsSame), env_app = (\<lambda>_ s. s), env_ack_type = SOFTWARE_ACK, env_round = (\<lambda>x. x),
     env_disco_seq_number = 33, env_SX1276 = 3, env_enum_size = 1\<rparr>"

definition zero_params :: omac_params where
  "zero_params = \<lparr>RETRY_RANDOM_BACKOFF_DELAY_MICRO = 0, RETRANS_DELAY_DUE_TO_MISSING_ACK = 0,
     DELAY_IN_RECEIVING_ACK = 0, DELAY_IN_RECEIVING_HW_ACK = 0, DELAY_IN_RECEIVING_SW_ACK = 0,
     RETRANS_DELAY_DUE_TO_MISSING_HW_ACK = 0, RETRANS_DELAY_DUE_TO_MISSING_SW_ACK = 0,
     DELAY_FROM_RADIO_DRIVER_TX_TO_RADIO_DRIVER_RX = 0, DELAY_FROM_OMAC_TX_TO_RADIO_DRIVER_TX = 0,
     CCA_PERIOD_DESIRED = 0, CCA_PERIOD_ACTUAL = 0, RADIO_TURN_ON_DELAY_TX = 0, RADIO_TURN_ON_DELAY_RX = 0,
     TIME_RX_TIMESTAMP_OFFSET_MICRO = 0, TX_TIME_PER_BIT_IN_MICROSEC = 0, ACK_RX_MAX_DURATION_MICRO = 0,
     ACK_TX_MAX_DURATION_MICRO = 0, MAX_PACKET_TX_DURATION_MICRO = 0, MAX_PACKET_RX_DURATION_MICRO = 0,
     DISCO_PACKET_TX_TIME_MICRO = 0, DISCO_SLOT_PERIOD_MICRO = 0, DISCO_BEACON_TX_MAX_DURATION_MICRO = 0,
     HIGH_DISCO_PERIOD_IN_SLOTS = 0, LISTEN_PERIOD_FOR_RECEPTION_HANDLER = 0\<rparr>"

definition sample_omac :: omac where
  "sample_omac =
     \<lparr>AppHandlers = [Some 0, None, None, None], NativeAppHandlers = [None, None],
      handler_at = (\<lambda>_. \<lparr>ReceiveHandler_fn = Some 1, SendAckHandler_fn = Some 2, neighborHandler_fn = Some 3\<rparr>),
      AppIDIndex = 0, MyAddress = 7, MaxPayload = 100, mac_name = 1, radioName = 0, Initialized = True,
      AppCount = 0, MyConfig = \<lparr>CCA = True, NumberOfRetries = 0, CCASenseTime = 0, BufferSize = 8,
      NeighborLivenessDelay = 0\<rparr>,
      MyID = 7, CurrentActiveApp = 0, isSendDone = True, m_txAckHandler = Some 2, m_rxAckHandler = Some 1,
      tx_msg = zero_message, omac_seqNumber = 0, params = params_RF231 SOFTWARE_ACK zero_params,
      stayOn = False, next_piggybacked_extendedneighborinfo_index = 0, preload_seqNumber = 0,
      sched_state = I_IDLE, m_execution_started = False, m_num_sleep_retry_attempts = 0,
      m_num_FailsafeStop = 0, m_num_FailsafeTimerFiring = 0, m_num_rescheduled = 0,
      m_scheduledTimer_in_ticks = 0, m_curTime_in_ticks = 0, m_scheduledFailSafeTimer_in_ticks = 0,
      SchedulerINUse = True, m_lastHandler = NULL_HANDLER, disco_state = DISCO_INITIAL,
      disco_sleep_retry_attempts = 0, m_periods = low_rate_periods 7, highdiscorate = False,
      firstHighRateDiscoTimeinSlotNum = 1, beacon_received = False, m_discoveryMsgBuffer = zero_message,
      disco_seqNumber = 0, m_receptionstate = DRS_TX_POST_EXECUTE, own_schedule = sample_schedule,
      m_lastRXNodeId = 0, is_VIRT_TIMER_OMAC_RECEIVER_in_use = False, ack_header_set = False,
      softwareAckHeader = \<lparr>ack_payloadType = 0, ack_src = 0, ack_dest = 0\<rparr>,
      txhandler_state = DTS_POSTEXECUTION, m_outgoingEntryPtr = None, m_outgoingEntryPtr_dest = 0,
      isDataPacketScheduled = False, m_currentSlotRetryAttempt = 0, m_RANDOM_BACKOFF = False,
      m_backoff_seed = 1, m_backoff_mask = 1, dth_scheduledTimer_in_ticks = 0, dth_curTime_in_ticks = 0,
      m_messagePeriod = 0, regressgt2 = blank_table, g_NeighborTable = sample_nt,
      g_receive_buffer = sample_circ, history = []\<rparr>"

end
