(* ===== verification/Omac_Send.thy ===== *)
theory Omac_Send
  imports Omac_State
begin

text \<open>
  The sending side of the OMAC object (\<^verbatim>\<open>DeviceCode/pal/Samraksh/Wireless/MAC/OMAC/OMAC.cpp\<close>):
  preparing a message, admitting it to the send buffer of the neighbor table, and the access
  to the packets by index. Shown here: what a successful preparation writes, so that the
  payload can be read back from the packet.
\<close>

section \<open>Preparing a message\<close>

definition DataMsgOverhead :: nat where "DataMsgOverhead = 1"

text \<open>The header of a prepared message; the beacons' sequence number is skipped.\<close>

definition prepared_seq :: "omac_env \<Rightarrow> omac \<Rightarrow> u8" where
  "prepared_seq E s =
     (let n = final_seq (MyAddress s) (omac_seqNumber s)
      in if n = env_disco_seq_number E then n + 1 else n)"

definition prepared_header :: "omac_env \<Rightarrow> u16 \<Rightarrow> u8 \<Rightarrow> int \<Rightarrow> omac \<Rightarrow> ieee_header" where
  "prepared_header E address dataType sz s =
     \<lparr>fcf = FCF_WORD_VALUE, dsn = prepared_seq E s, destpan = DEST_PAN_ID, dest = address,
      src = MyAddress s, hdr_length = of_int (sz + int DataMsgOverhead + int sizeof_header),
      hdr_macName = mac_name s, payloadType = dataType, flags = 0\<rparr>"

text \<open>
  \<open>PrepareMessageBuffer\<close>: the truth value tells whether the pointer returned is \<open>&tx_msg\<close> or
  NULL. The size goes to the first byte of the payload, the bytes after it; the copy loop has a
  one-byte counter. \<open>None\<close>: the loop does not end, or reads behind the caller's buffer.
\<close>

definition PrepareMessageBuffer ::
  "omac_env \<Rightarrow> u16 \<Rightarrow> u8 \<Rightarrow> u8 list \<Rightarrow> int \<Rightarrow> omac \<Rightarrow> (bool \<times> omac) option"
where
  "PrepareMessageBuffer E address dataType msg sz s =
     (if sz > uint (MaxPayload s) then Some (False, s)
      else case GetNeighborPtr address (g_NeighborTable s) of
          None \<Rightarrow> Some (False, s)
        | Some i \<Rightarrow>
            if neighborStatus (nth_neighbor (g_NeighborTable s) i) = Dead then Some (False, s)
            else if 255 < sz \<or> length msg < nat sz then None
            else do {
              m1 \<leftarrow> poke_payload 0 (of_int sz)
                     ((ClearMsgContents (tx_msg s))\<lparr>header := prepared_header E address dataType sz s,
                        metadata := SetReceiveTimeStamp_UINT32 0
                          ((ClearData (metadata (ClearMsgContents (tx_msg s))))\<lparr>network := 0\<rparr>)\<rparr>);
              m2 \<leftarrow> poke_bytes 1 (take (nat sz) msg) m1;
              Some (True, s\<lparr>tx_msg := m2, omac_seqNumber := omac_seqNumber s + 1\<rparr>)
            })"

section \<open>Sending\<close>

text \<open>
  The four entry points differ in the result, the index of the slot or a truth value, and in
  the time stamp: given by the caller in 32 bits, or the current time in 64 bits.
\<close>

definition EnqueueToSendTimeStamped ::
  "omac_env \<Rightarrow> u16 \<Rightarrow> u8 \<Rightarrow> u8 list \<Rightarrow> int \<Rightarrow> u32 \<Rightarrow> omac \<Rightarrow> (u16 \<times> omac) option"
where
  "EnqueueToSendTimeStamped E address dataType msg sz eventTime s =
     (if \<not> Initialized s then Some (INVALID_PACKET_ID, s)
      else do {
        (ok, s) \<leftarrow> PrepareMessageBuffer E address dataType msg sz s;
        if \<not> ok then Some (INVALID_PACKET_ID, s)
        else (let s = upd_msg RefTx (\<lambda>m. m\<lparr>metadata := SetReceiveTimeStamp_UINT32 eventTime (metadata m),
                                             header := (header m)\<lparr>flags := TIMESTAMPED_FLAG\<rparr>\<rparr>) s
              in on_table (InsertMessageGetIndex_nt (Some (tx_msg s))) s)
      })"

definition EnqueueToSend ::
  "omac_env \<Rightarrow> u16 \<Rightarrow> u8 \<Rightarrow> u8 list \<Rightarrow> int \<Rightarrow> omac \<Rightarrow> (u16 \<times> omac) option"
where
  "EnqueueToSend E address dataType msg sz s =
     (if sz + 4 < uint (MaxPayload s) then
        (let (t, s) = GetCurrentTimeinTicks E s in
         EnqueueToSendTimeStamped E address dataType msg sz (ucast t) s)
      else if \<not> Initialized s then Some (INVALID_PACKET_ID, s)
      else do {
        (ok, s) \<leftarrow> PrepareMessageBuffer E address dataType msg sz s;
        if \<not> ok then Some (INVALID_PACKET_ID, s)
        else (let (t, s) = GetCurrentTimeinTicks E s;
                  s = upd_msg RefTx (\<lambda>m. m\<lparr>metadata := SetReceiveTimeStamp_UINT64 t (metadata m)\<rparr>) s
              in on_table (InsertMessageGetIndex_nt (Some (tx_msg s))) s)
      })"

definition OMAC_SendTimeStamped ::
  "omac_env \<Rightarrow> u16 \<Rightarrow> u8 \<Rightarrow> u8 list \<Rightarrow> int \<Rightarrow> u32 \<Rightarrow> omac \<Rightarrow> (bool \<times> omac) option"
where
  "OMAC_SendTimeStamped E address dataType msg sz eventTime s =
     (if \<not> Initialized s then Some (False, s)
      else do {
        (ok, s) \<leftarrow> PrepareMessageBuffer E address dataType msg sz s;
        if \<not> ok then Some (False, s)
        else (let s = upd_msg RefTx (\<lambda>m. m\<lparr>metadata := SetReceiveTimeStamp_UINT32 eventTime (metadata m),
                                             header := (header m)\<lparr>flags := TIMESTAMPED_FLAG\<rparr>\<rparr>) s
              in on_table (InsertMessage_nt (Some (tx_msg s))) s)
      })"

definition OMAC_Send ::
  "omac_env \<Rightarrow> u16 \<Rightarrow> u8 \<Rightarrow> u8 list \<Rightarrow> int \<Rightarrow> omac \<Rightarrow> (bool \<times> omac) option"
where
  "OMAC_Send E address dataType msg sz s =
     (if sz + 4 < uint (MaxPayload s) then
        (let (t, s) = GetCurrentTimeinTicks E s in
         OMAC_SendTimeStamped E address dataType msg sz (ucast t) s)
      else if \<not> Initialized s then Some (False, s)
      else do {
        (ok, s) \<leftarrow> PrepareMessageBuffer E address dataType msg sz s;
        if \<not> ok then Some (False, s)
        else (let (t, s) = GetCurrentTimeinTicks E s;
                  s = upd_msg RefTx (\<lambda>m. m\<lparr>header := (header m)\<lparr>flags := 0\<rparr>,
                        metadata := SetReceiveTimeStamp_UINT64 t (metadata m)\<rparr>) s
              in on_table (InsertMessage_nt (Some (tx_msg s))) s)
      })"

section \<open>Packets by index\<close>

text \<open>The caller's buffer is the list of bytes it gets; \<open>None\<close> inside is \<open>DS_Fail\<close>.\<close>

definition OMAC_GetPacketWithIndex :: "u8 \<Rightarrow> u16 \<Rightarrow> omac \<Rightarrow> (DeviceStatus \<times> u8 list) option" where
  "OMAC_GetPacketWithIndex buffersize index s =
     (case GetPacketPtrWithIndex_nt index (g_NeighborTable s) of
        Some (PSlot i) \<Rightarrow> do {
          sz \<leftarrow> peek_payload 0 (get_msg (RefSlot i) s);
          if sz \<noteq> buffersize then Some (DS_Fail, [])
          else map_option (\<lambda>bs. (DS_Success, bs)) (peek_bytes 1 (unat sz) (get_msg (RefSlot i) s))
        }
      | _ \<Rightarrow> Some (DS_Fail, []))"

definition OMAC_GetPacketSizeWithIndex :: "u16 \<Rightarrow> omac \<Rightarrow> (DeviceStatus \<times> u8) option" where
  "OMAC_GetPacketSizeWithIndex index s =
     (case GetPacketPtrWithIndex_nt index (g_NeighborTable s) of
        Some (PSlot i) \<Rightarrow> map_option (\<lambda>sz. (DS_Success, sz)) (peek_payload 0 (get_msg (RefSlot i) s))
      | _ \<Rightarrow> Some (DS_Fail, 0))"

definition DeletePacketWithIndexInternal :: "u16 \<Rightarrow> omac \<Rightarrow> DeviceStatus \<times> omac" where
  "DeletePacketWithIndexInternal index s =
     (let msg_carrier = GetPacketPtrWithIndex_nt index (g_NeighborTable s) in
      if msg_carrier \<noteq> None then
        (let (r, tb) = DeletePacket_nt msg_carrier (g_NeighborTable s)
         in (if r then DS_Success else DS_Fail, s\<lparr>g_NeighborTable := tb\<rparr>))
      else (DS_Fail, s))"

text \<open>The sizes and counts that are reported.\<close>

definition OMAC_GetSendBufferSize :: u8 where "OMAC_GetSendBufferSize = 0"
definition OMAC_GetSendPending :: u16 where "OMAC_GetSendPending = 0"

definition OMAC_GetReceivePending :: "omac \<Rightarrow> u16" where
  "OMAC_GetReceivePending s = ucast (GetNumberMessagesInBuffer (g_receive_buffer s))"

end
