(* ===== verification/Omac_Radio.thy ===== *)
theory Omac_Radio
  imports Omac_Send
begin

text \<open>
  The radio control of OMAC (\<^verbatim>\<open>DeviceCode/pal/Samraksh/Wireless/MAC/OMAC/RadioControl.cpp\<close>) and the
  messages that it piggybacks on a frame: the time of the sender (\<^verbatim>\<open>OMACTimeSync.cpp\<close>), the
  wake-up schedule (\<^verbatim>\<open>DiscoveryHandler.cpp\<close>) and a summary of the neighbor table. Shown here: the
  time a frame carries is the time of its event, recovered from 32 bits; and a schedule that is
  written into a frame is the one that is read from it.
\<close>

section \<open>Messages inside a payload\<close>

definition sizeof_TimeSyncMsg :: nat where "sizeof_TimeSyncMsg = 4 + 4"
definition sizeof_EntendedMACInfoMsgSummary :: nat where "sizeof_EntendedMACInfoMsgSummary = 1 + 1 + 1"
definition sizeof_MACNeighborLinkInfo :: nat where "sizeof_MACNeighborLinkInfo = 4 + 4"

definition sizeof_MACNeighborInfo :: "omac_env \<Rightarrow> nat" where
  "sizeof_MACNeighborInfo E = 2 + env_enum_size E + 1 + 1 + 1 + 1"

definition poke_msg :: "msg_ref \<Rightarrow> nat \<Rightarrow> u8 list \<Rightarrow> omac \<Rightarrow> omac option" where
  "poke_msg r i bs s = map_option (\<lambda>m. upd_msg r (\<lambda>_. m) s) (poke_bytes i bs (get_msg r s))"

text \<open>\<open>OMACTimeSync::CreateMessage\<close> and \<open>DiscoveryHandler::CreateMessage\<close>: the bytes, lowest first.\<close>

definition timesync_bytes :: "u64 \<Rightarrow> u8 list" where
  "timesync_bytes curticks =
     word_bytes 4 (ucast curticks :: u32) @ word_bytes 4 (ucast (drop_bit 32 curticks) :: u32)"

definition disco_bytes :: "schedule \<Rightarrow> u8 list" where
  "disco_bytes d =
     word_bytes 2 (m_nextSeed d) @ word_bytes 2 (m_mask d)
     @ word_bytes 4 (ucast (m_nextwakeupSlot d) :: u32)
     @ word_bytes 4 (ucast (drop_bit 32 (m_nextwakeupSlot d)) :: u32)
     @ word_bytes 4 (m_seedUpdateIntervalinSlots d)"

text \<open>
  The place behind the payload so far, \<open>size - sizeof(IEEE802_15_4_Header_t)\<close>, and the test
  for room, both in the 32-bit arithmetic of \<open>size_t\<close>.
\<close>

definition payload_place :: "u16 \<Rightarrow> u32" where
  "payload_place sz = ucast sz - of_nat sizeof_header"

definition fits :: "u16 \<Rightarrow> nat \<Rightarrow> nat \<Rightarrow> bool" where
  "fits sz msg_size overhead \<longleftrightarrow>
     payload_place sz < of_nat IEEE802_15_4_MAX_PAYLOAD - (of_nat msg_size + of_nat overhead)"

definition upd_header :: "msg_ref \<Rightarrow> (ieee_header \<Rightarrow> ieee_header) \<Rightarrow> omac \<Rightarrow> omac" where
  "upd_header r f s = upd_msg r (\<lambda>m. m\<lparr>header := f (header m)\<rparr>) s"

definition upd_metadata :: "msg_ref \<Rightarrow> (ieee_metadata \<Rightarrow> ieee_metadata) \<Rightarrow> omac \<Rightarrow> omac" where
  "upd_metadata r f s = upd_msg r (\<lambda>m. m\<lparr>metadata := f (metadata m)\<rparr>) s"

abbreviation has_flag :: "u8 \<Rightarrow> message \<Rightarrow> bool" where
  "has_flag f m \<equiv> flags (header m) AND f \<noteq> 0"

text \<open>
  \<open>y - ( y_lo - event_time_lo )\<close>: the difference of the low halves is an unsigned 32-bit number.
\<close>

definition carried_time :: "u64 \<Rightarrow> u64 \<Rightarrow> u64" where
  "carried_time y event_time =
     (let y_lo = ucast (y AND 0xFFFFFFFF) :: u32; event_time_lo = ucast (event_time AND 0xFFFFFFFF)
      in y - ucast (y_lo - event_time_lo))"

section \<open>Piggybacked messages\<close>

text \<open>The functions return their truth value and the size after the call.\<close>

definition write_timesync :: "omac_env \<Rightarrow> msg_ref \<Rightarrow> u16 \<Rightarrow> u64 \<Rightarrow> omac \<Rightarrow> (bool \<times> u16 \<times> omac) option" where
  "write_timesync E r sz event_time s =
     (let s = upd_metadata r (SetReceiveTimeStamp_INT64 event_time) s;
          s = upd_header r (\<lambda>h. h\<lparr>flags := flags h OR TIMESTAMPED_FLAG\<rparr>) s;
          (y, s) = GetCurrentTimeinTicks E s;
          y = carried_time y event_time
      in do {
        s \<leftarrow> poke_msg r (unat (payload_place sz)) (timesync_bytes y) s;
        let dst = msg_dest (get_msg r s);
        (_, s) \<leftarrow> (if dst \<noteq> 0 \<and> dst \<noteq> RADIO_BROADCAST_ADDRESS
                   then on_table (RecordTimeSyncSent dst y) s else Some (DS_Success, s));
        let s = upd_header r (\<lambda>h. h\<lparr>flags := flags h OR MFM_TIMESYNC_FLAG\<rparr>) s;
        Some (True, sz + of_nat sizeof_TimeSyncMsg, s)
      })"

definition PiggybackTimeSyncMessage :: "omac_env \<Rightarrow> msg_ref \<Rightarrow> u16 \<Rightarrow> omac \<Rightarrow> (bool \<times> u16 \<times> omac) option" where
  "PiggybackTimeSyncMessage E r sz s =
     (if has_flag MFM_TIMESYNC_FLAG (get_msg r s) \<or> msg_type (get_msg r s) = payload_code MFM_TIMESYNC
      then Some (False, sz, s)
      else
        (let (event_time, overhead, s) =
               (if has_flag TIMESTAMPED_FLAG (get_msg r s) then (msg_time (get_msg r s), 2, s)
                else (let (t, s) = GetCurrentTimeinTicks E s in (t, 2 + unat TIMESTAMP_SIZE, s)))
         in if fits sz sizeof_TimeSyncMsg overhead then write_timesync E r sz event_time s
            else Some (False, sz, s)))"

definition PiggybackDiscoMessage :: "msg_ref \<Rightarrow> u16 \<Rightarrow> omac \<Rightarrow> (bool \<times> u16 \<times> omac) option" where
  "PiggybackDiscoMessage r sz s =
     (if has_flag MFM_DISCOVERY_FLAG (get_msg r s) \<or> msg_type (get_msg r s) = payload_code MFM_OMAC_DISCOVERY
      then Some (False, sz, s)
      else if fits sz sizeof_DiscoveryMsg 2 then do {
        s \<leftarrow> poke_msg r (unat (payload_place sz)) (disco_bytes (own_schedule s)) s;
        let s = upd_header r (\<lambda>h. h\<lparr>flags := flags h OR MFM_DISCOVERY_FLAG\<rparr>) s;
        Some (True, sz + of_nat sizeof_DiscoveryMsg, s)
      }
      else Some (False, sz, s))"

text \<open>
  The summary of the neighbor table, a row per neighbor, then a row of link qualities per
  neighbor. The second loop counts \<open>starting_next_\<dots>\<close> but reads the table at \<open>next_\<dots>\<close>, which
  may be the number of entries; \<open>None\<close> is a read behind the table.
\<close>

definition info_bytes :: "omac_env \<Rightarrow> Neighbor_t \<Rightarrow> omac \<Rightarrow> u8 list" where
  "info_bytes E n s =
     word_bytes 2 (MACAddress n) @ word_bytes (env_enum_size E) (status_code (neighborStatus n))
     @ [of_bool (IsAvailableForUpperLayers n), of_bool (IsMyScheduleKnown n),
        NumInitializationMessagesSent n, NumberOfRecordedElements (MACAddress n) (regressgt2 s)]"

definition link_bytes :: "Neighbor_t \<Rightarrow> u8 list" where
  "link_bytes n =
     (let f = (\<lambda>l. [AvgRSSI l, LinkQuality l, AveDelay l, Link_reliability_bitmap l])
      in f (SendLink n) @ f (ReceiveLink n))"

abbreviation count_place :: "u16 \<Rightarrow> nat" where "count_place p \<equiv> unat (payload_place p) + 2"

fun info_rows :: "omac_env \<Rightarrow> msg_ref \<Rightarrow> u16 \<Rightarrow> nat \<Rightarrow> u8 \<Rightarrow> u16 \<Rightarrow> omac \<Rightarrow> (u16 \<times> omac) option" where
  "info_rows E r summary 0 tot sz s = Some (sz, s)"
| "info_rows E r summary (Suc k) tot sz s =
     (let i = (if next_piggybacked_extendedneighborinfo_index s \<ge> tot then 0
               else next_piggybacked_extendedneighborinfo_index s)
      in do {
        (sz, s) \<leftarrow>
          (if fits sz (sizeof_MACNeighborInfo E) 2 then
             (if unat i < length (Neighbor (g_NeighborTable s)) then do {
                s \<leftarrow> poke_msg r (unat (payload_place sz)) (info_bytes E (nth_neighbor (g_NeighborTable s) i) s) s;
                c \<leftarrow> peek_payload (count_place summary) (get_msg r s);
                s \<leftarrow> poke_msg r (count_place summary) [c + 1] s;
                Some (sz + of_nat (sizeof_MACNeighborInfo E), s)
              } else None)
           else Some (sz, s));
        info_rows E r summary k tot sz (s\<lparr>next_piggybacked_extendedneighborinfo_index := i + 1\<rparr>)
      })"

fun link_rows :: "msg_ref \<Rightarrow> nat \<Rightarrow> u16 \<Rightarrow> omac \<Rightarrow> (u16 \<times> omac) option" where
  "link_rows r 0 sz s = Some (sz, s)"
| "link_rows r (Suc k) sz s = do {
     (sz, s) \<leftarrow>
       (if fits sz sizeof_MACNeighborLinkInfo 2 then
          (let i = next_piggybacked_extendedneighborinfo_index s in
           if unat i < length (Neighbor (g_NeighborTable s)) then do {
             s \<leftarrow> poke_msg r (unat (payload_place sz)) (link_bytes (nth_neighbor (g_NeighborTable s) i)) s;
             Some (sz + of_nat sizeof_MACNeighborLinkInfo, s)
           } else None)
        else Some (sz, s));
     link_rows r k sz s
   }"

definition PiggybackEntendedMACInfoMsg :: "omac_env \<Rightarrow> msg_ref \<Rightarrow> u16 \<Rightarrow> omac \<Rightarrow> (bool \<times> u16 \<times> omac) option" where
  "PiggybackEntendedMACInfoMsg E r sz s =
     (if has_flag MFM_EXTENDED_MAC_INFO_FLAG (get_msg r s) then Some (False, sz, s)
      else if fits sz sizeof_EntendedMACInfoMsgSummary 2 then do {
        let tot = NumberOfNeighborsTotal (g_NeighborTable s);
        s' \<leftarrow> poke_msg r (unat (payload_place sz))
               [tot, PreviousNumberOfNeighbors (g_NeighborTable s), 0] s;
        let s' = upd_header r (\<lambda>h. h\<lparr>flags := flags h OR MFM_EXTENDED_MAC_INFO_FLAG\<rparr>) s';
        let sz1 = sz + of_nat sizeof_EntendedMACInfoMsgSummary;
        let remSize = (ucast (of_nat IEEE802_15_4_MAX_PAYLOAD - 2 - payload_place sz1) :: u16);
        let numNfits = (of_nat (unat remSize div sizeof_MACNeighborInfo E) :: u8);
        let numNfits = (if numNfits > tot then tot else numNfits);
        (sz2, s') \<leftarrow> info_rows E r sz (unat numNfits) tot sz1 s';
        (sz3, s') \<leftarrow> link_rows r (unat numNfits) sz2 s';
        Some (True, sz3, s')
      }
      else Some (False, sz, s))"

text \<open>
  \<open>PiggybackMessages\<close>: what a frame takes along. Each of the three messages has its own
  condition.
\<close>

definition piggyback_sync :: "omac_env \<Rightarrow> msg_ref \<Rightarrow> u16 \<Rightarrow> omac \<Rightarrow> (bool \<times> u16 \<times> omac) option" where
  "piggyback_sync E r sz s =
     (if \<not> has_flag MFM_TIMESYNC_FLAG (get_msg r s) \<and> msg_type (get_msg r s) \<noteq> payload_code MFM_TIMESYNC
      then PiggybackTimeSyncMessage E r sz s else Some (False, sz, s))"

definition piggyback_schedule :: "msg_ref \<Rightarrow> u16 \<Rightarrow> omac \<Rightarrow> (bool \<times> u16 \<times> omac) option" where
  "piggyback_schedule r sz s =
     (if msg_type (get_msg r s) = payload_code MFM_OMAC_TIMESYNCREQ
         \<and> \<not> has_flag MFM_DISCOVERY_FLAG (get_msg r s) \<and> msg_type (get_msg r s) \<noteq> payload_code MFM_OMAC_DISCOVERY
      then (let dst = msg_dest (get_msg r s) in
            case GetNeighborPtr dst (g_NeighborTable s) of
              Some i \<Rightarrow> if dst \<noteq> 0 \<and> dst \<noteq> RADIO_BROADCAST_ADDRESS
                           \<and> IsSendingMyScheduleNeeded (nth_neighbor (g_NeighborTable s) i)
                        then PiggybackDiscoMessage r sz s else Some (False, sz, s)
            | None \<Rightarrow> Some (False, sz, s))
      else Some (False, sz, s))"

definition piggyback_info :: "omac_env \<Rightarrow> msg_ref \<Rightarrow> u16 \<Rightarrow> omac \<Rightarrow> (bool \<times> u16 \<times> omac) option" where
  "piggyback_info E r sz s =
     (if msg_type (get_msg r s) = payload_code MFM_OMAC_DISCOVERY
      then PiggybackEntendedMACInfoMsg E r sz s else Some (False, sz, s))"

definition PiggybackMessages :: "omac_env \<Rightarrow> msg_ref \<Rightarrow> u16 \<Rightarrow> omac \<Rightarrow> (bool \<times> u16 \<times> omac) option" where
  "PiggybackMessages E r sz s = do {
     (rv1, sz, s) \<leftarrow> piggyback_sync E r sz s;
     (rv2, sz, s) \<leftarrow> piggyback_schedule r sz s;
     (rv3, sz, s) \<leftarrow> piggyback_info E r sz s;
     Some (rv1 \<or> rv2 \<or> rv3, sz, s)
   }"

section \<open>Radio control\<close>

definition RC_Initialize :: "omac \<Rightarrow> DeviceStatus \<times> omac" where
  "RC_Initialize s = (DS_Success, s\<lparr>stayOn := False, next_piggybacked_extendedneighborinfo_index := 0\<rparr>)"

definition RC_Stop :: "omac_env \<Rightarrow> omac \<Rightarrow> DeviceStatus \<times> omac" where
  "RC_Stop E s =
     (if stayOn s then (DS_Success, s)
      else call_status E (CRadioSleep (radioName s)) (call CWakeUnlock s))"

definition RC_Uninitialize :: "omac_env \<Rightarrow> omac \<Rightarrow> DeviceStatus \<times> omac" where
  "RC_Uninitialize E s = RC_Stop E s"

definition RC_StartRx :: "omac_env \<Rightarrow> omac \<Rightarrow> DeviceStatus \<times> omac" where
  "RC_StartRx E s =
     (if stayOn s then (DS_Success, s)
      else call_status E (CRadioTurnOnRx (radioName s)) (call CWakeLock s))"

definition RC_Preload :: "u16 \<Rightarrow> msg_ref \<Rightarrow> u16 \<Rightarrow> omac \<Rightarrow> DeviceStatus \<times> omac" where
  "RC_Preload address r sz s =
     (let s = upd_header r (\<lambda>h. h\<lparr>fcf := FCF_WORD_VALUE, dsn := final_seq (MyAddress s) (preload_seqNumber s),
                destpan := DEST_PAN_ID, dest := address, src := MyAddress s,
                hdr_length := ucast (sz + of_nat sizeof_header)\<rparr>) s;
          s = s\<lparr>preload_seqNumber := preload_seqNumber s + 1\<rparr>
      in (DS_Success, call (CRadioPreload (radioName s) (snapshot r s) (sz + of_nat sizeof_header)) s))"

text \<open>Handing a frame to the radio; the driver's answer decides whether the send has begun.\<close>

definition radio_send :: "omac_env \<Rightarrow> omac_call \<Rightarrow> omac \<Rightarrow> send_answer \<times> omac" where
  "radio_send E c s = (let s1 = call c s in (env_send E (history s1), s1))"

definition begin_send :: "omac_env \<Rightarrow> omac_call \<Rightarrow> omac \<Rightarrow> DeviceStatus \<times> omac" where
  "begin_send E c s =
     (if isSendDone s then
        (let (a, s) = radio_send E c (s\<lparr>isSendDone := False\<rparr>) in
         if a \<noteq> ReturnsNull then (DS_Success, s) else (DS_Fail, s\<lparr>isSendDone := True\<rparr>))
      else (DS_Fail, s))"

definition RC_Send :: "omac_env \<Rightarrow> u16 \<Rightarrow> msg_ref \<Rightarrow> u16 \<Rightarrow> omac \<Rightarrow> (DeviceStatus \<times> omac) option" where
  "RC_Send E address r sz s =
     (if unat sz = sizeof_softwareACKHeader then
        (let (a, s) = radio_send E (CRadioSend (radioName s) (snapshot r s) sz) s
         in Some (if a = ReturnsSame then DS_Success else DS_Fail, s))
      else do {
        (_, sz, s) \<leftarrow> PiggybackMessages E r sz s;
        let s = upd_header r (\<lambda>h. h\<lparr>hdr_length := ucast sz\<rparr>) s;
        if has_flag TIMESTAMPED_FLAG (get_msg r s) then
          (let (y, s) = GetCurrentTimeinTicks E s;
               elapsed = y - msg_time (get_msg r s);
               (now, s) = HAL_Time_CurrentTicks E s;
               event_time = now - elapsed
           in Some (begin_send E (CRadioSendTimeStamped (radioName s) (snapshot r s) sz (ucast event_time)) s))
        else Some (begin_send E (CRadioSend (radioName s) (snapshot r s) sz) s)
      })"

section \<open>The time a frame carries\<close>

text \<open>
  The time written into a frame: the latest time not after the present whose low half is that
  of the event. So the full time of the event is recovered from the 32 bits that the
  metadata keep, for events up to \<open>2 ^ 32\<close> ticks, almost nine minutes, ago.
\<close>

lemma low_half: "(ucast (y AND 0xFFFFFFFF) :: u32) = of_nat (unat (y :: u64))"
proof -
  have m: "(0xFFFFFFFF :: u64) = mask 32" by (simp add: mask_eq_exp_minus_1)
  have "(ucast (y AND 0xFFFFFFFF) :: u32) = ucast y"
    unfolding m by (rule bit_word_eqI) (auto simp: bit_simps)
  then show ?thesis by simp
qed

lemma carried_time_recovers:
  assumes "t \<le> y" and "unat y < unat t + 2 ^ 32"
    and "(of_nat (unat e) :: u32) = of_nat (unat t)"
  shows "carried_time y e = t"
proof -
  define k where "k = y - t"
  have uk: "unat k = unat y - unat t" using assms(1) by (simp add: k_def unat_sub)
  have le: "unat t \<le> unat y" using assms(1) by (simp add: word_le_nat_alt)
  have k: "unat k < 2 ^ 32" using uk assms(2) le by linarith
  have "unat y = unat t + unat k" using uk le by simp
  then have "(of_nat (unat y) :: u32) - of_nat (unat t) = of_nat (unat k)"
    by (simp only: of_nat_add add_diff_cancel_left')
  moreover have "(ucast (of_nat (unat k) :: u32) :: u64) = k"
    using k by (intro word_unat_eq_iff[THEN iffD2])
      (simp add: unsigned_ucast_eq take_bit_nat_eq_self del: of_nat_unat add: unat_of_nat)
  ultimately show ?thesis
    unfolding carried_time_def Let_def low_half assms(3) by (simp only: k_def) simp
qed

section \<open>What piggybacking keeps\<close>

lemma unat_payload_place:
  assumes "sizeof_header \<le> unat sz"
  shows "unat (payload_place sz) = unat sz - sizeof_header"
proof -
  have u: "unat (ucast sz :: u32) = unat sz"
    using unat_bound[of sz] by (simp add: unsigned_ucast_eq take_bit_nat_eq_self)
  have "(13 :: u32) \<le> ucast sz" using assms u by (simp add: word_le_nat_alt sizeof_header_def)
  then show ?thesis by (simp add: payload_place_def sizeof_header_def unat_sub u)
qed

lemma fits_place:
  assumes "fits sz n m" "sizeof_header \<le> unat sz" "n + m \<le> 100"
  shows "unat sz + n + m < 113" "unat (sz + of_nat n) = unat sz + n"
proof -
  have "unat (of_nat IEEE802_15_4_MAX_PAYLOAD - (of_nat n + of_nat m) :: u32) = 100 - (n + m)"
    using assms(3) by (simp add: IEEE802_15_4_MAX_PAYLOAD_def IEEE802_15_4_FRAME_LENGTH_def sizeof_header_def
        sizeof_footer_def sizeof_metadata_def unat_sub word_le_nat_alt unat_of_nat flip: of_nat_add)
  with assms show *: "unat sz + n + m < 113"
    by (simp add: fits_def word_less_nat_alt unat_payload_place sizeof_header_def)
  then show "unat (sz + of_nat n) = unat sz + n"
    by (simp add: unat_word_ariths unat_of_nat)
qed

definition has_room :: "nat \<Rightarrow> u16 \<Rightarrow> bool" where
  "has_room lo sz \<longleftrightarrow> lo + sizeof_header \<le> unat sz"

text \<open>
  The messages that are piggybacked on a frame write its payload from a place on, its flags and
  its time stamp, and the bookkeeping of the neighbor table, and call the clock. A
  relation between states that these steps keep is kept by \<open>PiggybackMessages\<close>.
\<close>

locale piggyback_relation =
  fixes R :: "omac \<Rightarrow> omac \<Rightarrow> bool" and r :: msg_ref and lo :: nat
  assumes refl: "R s s"
    and trans: "R s s1 \<Longrightarrow> R s1 s2 \<Longrightarrow> R s s2"
    and poke: "poke_msg r i bs s = Some s' \<Longrightarrow> lo \<le> i \<Longrightarrow> R s s'"
    and flag: "R s (upd_header r (\<lambda>h. h\<lparr>flags := flags h OR f\<rparr>) s)"
    and stamp: "R s (upd_metadata r (SetReceiveTimeStamp_INT64 t) s)"
    and sent: "on_table (RecordTimeSyncSent a t) s = Some (x, s') \<Longrightarrow> R s s'"
    and clock: "R s (call CGetTicks s)"
    and index: "R s (s\<lparr>next_piggybacked_extendedneighborinfo_index := j\<rparr>)"
begin

lemma room_place: "has_room lo sz \<Longrightarrow> lo \<le> unat (payload_place sz)"
  by (simp add: has_room_def unat_payload_place)

lemma room_more: "has_room lo sz \<Longrightarrow> fits sz n m \<Longrightarrow> n + m \<le> 100 \<Longrightarrow> has_room lo (sz + of_nat n)"
  using fits_place(2)[of sz n m] by (simp add: has_room_def)

lemma ticks: "GetCurrentTimeinTicks E s = (t, s') \<Longrightarrow> R s s'"
  using clock by (auto simp: GetCurrentTimeinTicks_def Let_def)

lemma pokeI: "poke_msg r (unat (payload_place sz)) bs s1 = Some s' \<Longrightarrow> has_room lo sz \<Longrightarrow> R s s1 \<Longrightarrow> R s s'"
  using poke room_place trans by blast

text \<open>A byte of the summary lies behind the start of the summary.\<close>

lemma pokeI_count: "poke_msg r (count_place p) bs s1 = Some s' \<Longrightarrow> has_room lo p \<Longrightarrow> R s s1 \<Longrightarrow> R s s'"
  using poke[of "count_place p"] room_place[of p] trans by fastforce

lemma info_row_R:
  assumes "info_rows E r p (Suc k) n sz s1 = Some (sz', s')" "R s s1" "has_room lo p" "has_room lo sz" "env_enum_size E \<le> 4"
  obtains sz2 s2 where "info_rows E r p k n sz2 s2 = Some (sz', s')" "R s s2" "has_room lo sz2"
proof -
  define i where "i = (if next_piggybacked_extendedneighborinfo_index s1 \<ge> n then 0
      else next_piggybacked_extendedneighborinfo_index s1)"
  have big: "sizeof_MACNeighborInfo E + 2 \<le> 100" using assms(5) by (simp add: sizeof_MACNeighborInfo_def)
  show ?thesis
  proof (cases "fits sz (sizeof_MACNeighborInfo E) 2")
    case False
    with assms(1) have "info_rows E r p k n sz (s1\<lparr>next_piggybacked_extendedneighborinfo_index := i + 1\<rparr>) = Some (sz', s')"
      by (simp add: Let_def i_def)
    with that assms trans index show ?thesis by blast
  next
    case True
    with assms(1) obtain s2 c s3 where
      "poke_msg r (unat (payload_place sz)) (info_bytes E (nth_neighbor (g_NeighborTable s1) i) s1) s1 = Some s2"
      "poke_msg r (count_place p) [c] s2 = Some s3"
      "info_rows E r p k n (sz + of_nat (sizeof_MACNeighborInfo E))
         (s3\<lparr>next_piggybacked_extendedneighborinfo_index := i + 1\<rparr>) = Some (sz', s')"
      by (auto simp: Let_def i_def[symmetric] split: Option.bind_split_asm if_split_asm)
    note p = this
    have "R s s3" using pokeI_count[OF p(2) assms(3) pokeI[OF p(1) assms(4,2)]] .
    from that[OF p(3) trans[OF this index] room_more[OF assms(4) True big]] show ?thesis .
  qed
qed

lemma info_rows_R:
  assumes "info_rows E r p k n sz s1 = Some (sz', s')" "R s s1" "has_room lo p" "has_room lo sz" "env_enum_size E \<le> 4"
  shows "R s s' \<and> has_room lo sz'"
  using assms
proof (induction k arbitrary: sz s1)
  case (Suc k)
  obtain sz2 s2 where "info_rows E r p k n sz2 s2 = Some (sz', s')" "R s s2" "has_room lo sz2"
    by (rule info_row_R[OF Suc.prems])
  then show ?case using Suc.IH Suc.prems(3,5) by blast
qed simp

lemma link_rows_R:
  assumes "link_rows r k sz s1 = Some (sz', s')" "R s s1" "has_room lo sz"
  shows "R s s' \<and> has_room lo sz'"
  using assms
proof (induction k arbitrary: sz s1)
  case (Suc k)
  have big: "sizeof_MACNeighborLinkInfo + 2 \<le> 100" by (simp add: sizeof_MACNeighborLinkInfo_def)
  from Suc.prems(1) obtain sz2 s2 where "link_rows r k sz2 s2 = Some (sz', s')"
    "sz2 = sz \<and> s2 = s1 \<or> (\<exists>bs. poke_msg r (unat (payload_place sz)) bs s1 = Some s2
       \<and> fits sz sizeof_MACNeighborLinkInfo 2 \<and> sz2 = sz + of_nat sizeof_MACNeighborLinkInfo)"
    by (auto simp: Let_def split: Option.bind_split_asm if_split_asm)
  moreover have "R s s2 \<and> has_room lo sz2"
    using calculation(2) Suc.prems(2,3) pokeI[OF _ Suc.prems(3,2)] room_more[OF Suc.prems(3) _ big] by blast
  ultimately show ?case using Suc.IH by blast
qed simp

lemma PiggybackDisco_R:
  assumes "PiggybackDiscoMessage r sz s = Some (b, sz', s')" "has_room lo sz"
  shows "R s s' \<and> has_room lo sz'"
proof (cases "(b, sz', s') = (False, sz, s)")
  case True
  then show ?thesis using assms(2) refl by simp
next
  case False
  have big: "sizeof_DiscoveryMsg + 2 \<le> 100" by (simp add: sizeof_DiscoveryMsg_def)
  have fit: "fits sz sizeof_DiscoveryMsg 2" using assms(1) False
    by (cases "fits sz sizeof_DiscoveryMsg 2") (simp_all add: PiggybackDiscoMessage_def split: if_split_asm)
  from assms(1) False obtain s1 where
    p: "poke_msg r (unat (payload_place sz)) (disco_bytes (own_schedule s)) s = Some s1"
    "s' = upd_header r (\<lambda>h. h\<lparr>flags := flags h OR MFM_DISCOVERY_FLAG\<rparr>) s1" "sz' = sz + of_nat sizeof_DiscoveryMsg"
    using fit by (cases "poke_msg r (unat (payload_place sz)) (disco_bytes (own_schedule s)) s")
      (simp_all add: PiggybackDiscoMessage_def split: if_split_asm)
  show ?thesis
    using trans[OF pokeI[OF p(1) assms(2) refl] flag] room_more[OF assms(2) fit big] p(2,3) by simp
qed

lemma write_timesync_R:
  assumes "write_timesync E r sz et s = Some (b, sz', s')" "has_room lo sz"
  shows "R s s' \<and> sz' = sz + of_nat sizeof_TimeSyncMsg"
proof -
  define s1 where "s1 = upd_header r (\<lambda>h. h\<lparr>flags := flags h OR TIMESTAMPED_FLAG\<rparr>)
    (upd_metadata r (SetReceiveTimeStamp_INT64 et) s)"
  obtain y s2 where y: "GetCurrentTimeinTicks E s1 = (y, s2)" by fastforce
  from assms(1) y obtain s3 where
    p: "poke_msg r (unat (payload_place sz)) (timesync_bytes (carried_time y et)) s2 = Some s3"
    by (auto simp: write_timesync_def Let_def bind_eq_Some_conv simp flip: s1_def)
  define f where "f = (if msg_dest (get_msg r s3) \<noteq> 0 \<and> msg_dest (get_msg r s3) \<noteq> RADIO_BROADCAST_ADDRESS
    then on_table (RecordTimeSyncSent (msg_dest (get_msg r s3)) (carried_time y et)) s3 else Some (DS_Success, s3))"
  from assms(1) y p obtain x s4 where t: "f = Some (x, s4)"
    and e: "s' = upd_header r (\<lambda>h. h\<lparr>flags := flags h OR MFM_TIMESYNC_FLAG\<rparr>) s4" "sz' = sz + of_nat sizeof_TimeSyncMsg"
    by (auto simp: write_timesync_def Let_def bind_eq_Some_conv simp flip: s1_def f_def)
  have "R s s2" using trans[OF trans[OF stamp flag] ticks[OF y[unfolded s1_def]]] .
  from pokeI[OF p assms(2) this] t sent trans have "R s s4" by (auto simp: f_def split: if_split_asm)
  with e trans[OF _ flag] show ?thesis by simp
qed

lemma PiggybackTimeSync_R:
  assumes "PiggybackTimeSyncMessage E r sz s = Some (b, sz', s')" "has_room lo sz"
  shows "R s s' \<and> has_room lo sz'"
proof -
  have big: "sizeof_TimeSyncMsg + 2 \<le> 100" "sizeof_TimeSyncMsg + (2 + unat TIMESTAMP_SIZE) \<le> 100"
    by (simp_all add: sizeof_TimeSyncMsg_def TIMESTAMP_SIZE_def)
  have w: "R s s' \<and> has_room lo sz'"
    if "R s s0" "fits sz sizeof_TimeSyncMsg ov" "write_timesync E r sz et s0 = Some (b, sz', s')"
      "ov = 2 \<or> ov = 2 + unat TIMESTAMP_SIZE" for s0 ov et
    using that write_timesync_R[OF that(3) assms(2)] room_more[OF assms(2) that(2)] big trans by auto
  show ?thesis
  proof (cases "has_flag TIMESTAMPED_FLAG (get_msg r s)")
    case True
    then show ?thesis using assms refl w[OF refl]
      by (auto simp: PiggybackTimeSyncMessage_def split: if_split_asm)
  next
    case False
    obtain t s0 where 0: "GetCurrentTimeinTicks E s = (t, s0)" by fastforce
    from False assms refl w[OF ticks[OF 0]] ticks[OF 0] 0 show ?thesis
      by (auto simp: PiggybackTimeSyncMessage_def split: if_split_asm)
  qed
qed

lemma PiggybackInfo_R:
  assumes "PiggybackEntendedMACInfoMsg E r sz s = Some (b, sz', s')" "has_room lo sz" "env_enum_size E \<le> 4"
  shows "R s s' \<and> has_room lo sz'"
proof (cases "(b, sz', s') = (False, sz, s)")
  case True
  then show ?thesis using assms(2) refl by simp
next
  case False
  have big: "sizeof_EntendedMACInfoMsgSummary + 2 \<le> 100" by (simp add: sizeof_EntendedMACInfoMsgSummary_def)
  from assms(1) False obtain bs s1 k n sz2 s2 where
    fit: "fits sz sizeof_EntendedMACInfoMsgSummary 2"
    and p: "poke_msg r (unat (payload_place sz)) bs s = Some s1"
    and i: "info_rows E r sz k n (sz + of_nat sizeof_EntendedMACInfoMsgSummary)
        (upd_header r (\<lambda>h. h\<lparr>flags := flags h OR MFM_EXTENDED_MAC_INFO_FLAG\<rparr>) s1) = Some (sz2, s2)"
    and l: "link_rows r k sz2 s2 = Some (sz', s')"
    by (auto simp: PiggybackEntendedMACInfoMsg_def Let_def split: Option.bind_split_asm if_split_asm)
  from info_rows_R[OF i trans[OF pokeI[OF p assms(2) refl] flag] assms(2) room_more[OF assms(2) fit big] assms(3)]
  have "R s s2" "has_room lo sz2" by auto
  from link_rows_R[OF l this] show ?thesis .
qed

lemma PiggybackMessages_R:
  assumes "PiggybackMessages E r sz s = Some (b, sz', s')" "has_room lo sz" "env_enum_size E \<le> 4"
  shows "R s s' \<and> has_room lo sz'"
proof -
  from assms(1) obtain b1 sz1 s1 b2 sz2 s2 b3 where
    1: "piggyback_sync E r sz s = Some (b1, sz1, s1)" and 2: "piggyback_schedule r sz1 s1 = Some (b2, sz2, s2)"
    and 3: "piggyback_info E r sz2 s2 = Some (b3, sz', s')"
    by (simp add: PiggybackMessages_def bind_eq_Some_conv split_paired_Ex) blast
  have "R s s1 \<and> has_room lo sz1" using 1 PiggybackTimeSync_R assms(2) refl
    by (auto simp: piggyback_sync_def split: if_split_asm)
  moreover have "R s1 s2 \<and> has_room lo sz2" if "has_room lo sz1" using 2 PiggybackDisco_R refl that
    by (auto simp: piggyback_schedule_def Let_def split: if_split_asm option.split_asm)
  moreover have "R s2 s' \<and> has_room lo sz'" if "has_room lo sz2" using 3 PiggybackInfo_R assms(3) refl that
    by (auto simp: piggyback_info_def split: if_split_asm)
  ultimately show ?thesis using trans by blast
qed


end

section \<open>One frame at a time\<close>

text \<open>Frames handed to the radio, without the software acknowledgements.\<close>

fun frames_sent :: "omac_call list \<Rightarrow> nat" where
  "frames_sent [] = 0"
| "frames_sent (c # cs) =
     (case c of CRadioSend _ (FrMessage _) _ \<Rightarrow> 1 | CRadioSendTimeStamped _ (FrMessage _) _ _ \<Rightarrow> 1 | _ \<Rightarrow> 0) + frames_sent cs"

definition same_send :: "omac \<Rightarrow> omac \<Rightarrow> bool" where
  "same_send s s' \<longleftrightarrow> isSendDone s' = isSendDone s \<and> frames_sent (history s') = frames_sent (history s)"

lemma upd_msg_frame [frame_simps]:
  "isSendDone (upd_msg r f s) = isSendDone s" "history (upd_msg r f s) = history s"
  by (cases r; simp add: upd_msg_def Let_def)+

lemmas part_defs = upd_header_def upd_metadata_def poke_msg_def on_table_def

interpretation pending: piggyback_relation same_send r 0 for r :: msg_ref
  by unfold_locales (auto simp: same_send_def part_defs frame_simps)

lemma begin_send_frames:
  assumes "begin_send E c s = (ds, s')" "frames_sent (c # cs) = frames_sent cs + 1"
  shows "frames_sent (history s') = frames_sent (history s) + of_bool (isSendDone s)
    \<and> (isSendDone s' \<longleftrightarrow> isSendDone s \<and> ds \<noteq> DS_Success) \<and> (\<not> isSendDone s \<longrightarrow> ds = DS_Fail)"
  using assms by (auto simp: begin_send_def radio_send_def Let_def split: if_split_asm)

text \<open>
  C15. The radio gets one frame at a time: \<open>Send\<close> hands it exactly one frame when the previous
  one is done and none otherwise, where it answers \<open>DS_Fail\<close>; afterwards the radio counts as busy if
  and only if it was busy or took the frame. This holds whatever is piggybacked on the frame; the
  software acknowledgement alone bypasses the check.
\<close>

theorem one_frame_at_a_time:
  assumes "RC_Send E address r sz s = Some (ds, s')" and "sizeof_header \<le> unat sz"
    and "r \<noteq> RefAck" and "env_enum_size E \<le> 4"
  shows "frames_sent (history s') = frames_sent (history s) + of_bool (isSendDone s)
    \<and> (isSendDone s' \<longleftrightarrow> isSendDone s \<and> ds \<noteq> DS_Success) \<and> (\<not> isSendDone s \<longrightarrow> ds = DS_Fail)"
proof -
  have ns: "unat sz \<noteq> sizeof_softwareACKHeader"
    using assms(2) by (simp add: sizeof_header_def sizeof_softwareACKHeader_def)
  from assms(1) ns obtain b sz1 s1 where 1: "PiggybackMessages E r sz s = Some (b, sz1, s1)"
    by (auto simp: RC_Send_def bind_eq_Some_conv)
  have s1: "same_send s s1"
    using pending.PiggybackMessages_R[OF 1 _ assms(4)] assms(2) by (simp add: has_room_def)
  define s2 where "s2 = upd_header r (\<lambda>h. h\<lparr>hdr_length := ucast sz1\<rparr>) s1"
  have s2: "same_send s s2" using s1 by (simp add: same_send_def s2_def part_defs frame_simps)
  obtain x where fr: "snapshot r t = FrMessage (x t)" for t
    using assms(3) by (cases r) (auto simp: snapshot_def)
  show ?thesis
  proof (cases "has_flag TIMESTAMPED_FLAG (get_msg r s2)")
    case True
    obtain y s3 where y: "GetCurrentTimeinTicks E s2 = (y, s3)" by fastforce
    obtain h s4 where h: "HAL_Time_CurrentTicks E s3 = (h, s4)" by fastforce
    have "same_send s s4" using s2 y h
      by (auto simp: same_send_def GetCurrentTimeinTicks_def HAL_Time_CurrentTicks_def Let_def)
    moreover have "begin_send E (CRadioSendTimeStamped (radioName s4) (snapshot r s4) sz1
        (ucast (h - (y - msg_time (get_msg r s3))))) s4 = (ds, s')"
      using assms(1) ns 1 True y h by (simp add: RC_Send_def Let_def flip: s2_def)
    ultimately show ?thesis using begin_send_frames by (fastforce simp: same_send_def fr)
  next
    case False
    then have "begin_send E (CRadioSend (radioName s2) (snapshot r s2) sz1) s2 = (ds, s')"
      using assms(1) ns 1 by (simp add: RC_Send_def Let_def flip: s2_def)
    with s2 show ?thesis using begin_send_frames by (fastforce simp: same_send_def fr)
  qed
qed

text \<open>Sample values: a node with an empty neighbor table, an idle radio and a quiet environment.\<close>

definition lonely_omac :: omac where
  "lonely_omac = sample_omac\<lparr>g_NeighborTable := sample_nt\<lparr>Neighbor := replicate 10 (sample_entry 0 Dead)\<rparr>\<rparr>"

lemma lonely: "m_discoveryMsgBuffer lonely_omac = zero_message" "radioName lonely_omac = 0"
  "beacon_received lonely_omac = False" "isSendDone lonely_omac" "own_schedule lonely_omac = sample_schedule"
  "MyAddress lonely_omac = 7" "history lonely_omac = []" "NumberOfNeighborsTotal (g_NeighborTable lonely_omac) = 0"
  by (simp_all add: lonely_omac_def sample_omac_def NumberOfNeighborsTotal_def sample_nt_def sample_entry_def count_if_def
      MAX_NEIGHBORS_def)

lemma quiet: "env_ticks quiet_env h = 8000000" "env_hal_ticks quiet_env h = 8000000" "env_timer quiet_env h"
  "env_status quiet_env h = DS_Success" "env_send quiet_env h = ReturnsSame" "env_ack_type quiet_env = SOFTWARE_ACK"
  "env_enum_size quiet_env = 1" "env_app quiet_env h s = s"
  by (simp_all add: quiet_env_def)

lemma zero_message_simps: "payloadType (header zero_message) = 0" "flags (header zero_message) = 0" "dest (header zero_message) = 0" "metadata zero_message = zero_metadata"
  by (simp_all add: zero_message_def zero_header_def)

lemma len0: "length (payload zero_message) = 100"
  by (simp add: zero_message_def IEEE802_15_4_MAX_PAYLOAD_def IEEE802_15_4_FRAME_LENGTH_def sizeof_header_def
      sizeof_footer_def sizeof_metadata_def)

lemma len_disco: "length (disco_bytes d) = 16" "length (timesync_bytes t) = 8"
  by (simp_all add: disco_bytes_def timesync_bytes_def)

lemmas constant_defs = sizeof_DiscoveryMsg_def sizeof_header_def sizeof_softwareACKHeader_def sizeof_TimeSyncMsg_def
  sizeof_EntendedMACInfoMsgSummary_def TIMESTAMP_SIZE_def payload_place_def fits_def IEEE802_15_4_MAX_PAYLOAD_def
  IEEE802_15_4_FRAME_LENGTH_def sizeof_footer_def sizeof_metadata_def RADIO_BROADCAST_ADDRESS_def
  TIMESTAMPED_FLAG_def MFM_TIMESYNC_FLAG_def MFM_DISCOVERY_FLAG_def MFM_EXTENDED_MAC_INFO_FLAG_def

lemma upd_RefDisco:
  "upd_msg RefDisco f s = s\<lparr>m_discoveryMsgBuffer := f (m_discoveryMsgBuffer s)\<rparr>"
  "get_msg RefDisco s = m_discoveryMsgBuffer s"
  by (simp_all add: upd_msg_def get_msg_def)

lemmas send_defs = zero_message_simps RC_Send_def Let_def GetCurrentTimeinTicks_def
  part_defs upd_RefDisco poke_bytes_payload len0 len_disco lonely quiet constant_defs
  PiggybackMessages_def piggyback_sync_def piggyback_schedule_def piggyback_info_def
  PiggybackTimeSyncMessage_def write_timesync_def PiggybackEntendedMACInfoMsg_def
  HAL_Time_CurrentTicks_def begin_send_def radio_send_def sizeof_MACNeighborInfo_def split_beta

lemma lonely_send: "\<exists>s'. RC_Send quiet_env 0xFFFF RefDisco 29 lonely_omac = Some (DS_Success, s')"
  by (simp add: send_defs del: poke_bytes.simps)

lemma one_frame_at_a_time_witness:
  "\<exists>s'. RC_Send quiet_env 0xFFFF RefDisco 29 lonely_omac = Some (DS_Success, s')
    \<and> frames_sent (history s') = 1 \<and> \<not> isSendDone s'"
proof -
  obtain s' where s: "RC_Send quiet_env 0xFFFF RefDisco 29 lonely_omac = Some (DS_Success, s')"
    using lonely_send by blast
  from one_frame_at_a_time[OF s] show ?thesis by (intro exI[of _ s'] conjI s) (simp_all add: lonely quiet sizeof_header_def)
qed

end
