(* ===== verification/Omac_Transmit.thy ===== *)
theory Omac_Transmit
  imports Omac_Radio
begin

text \<open>
  The data transmission handler of OMAC up to the decision when to send
  (\<^verbatim>\<open>DeviceCode/pal/Samraksh/Wireless/MAC/OMAC/DataTransmissionHandler.cpp\<close>): the prediction of a
  neighbor's next wake-up, the choice of neighbor and packet, the acknowledgement to the
  application, dropping a packet and the random backoff. Shown here: the prediction is never
  in the past; the window of the backoff doubles between 3 and 10 slots and the slot drawn is
  inside it.
\<close>

section \<open>Acknowledging to the application\<close>

definition IsValidNativeAppIdOffset :: "u8 \<Rightarrow> bool" where
  "IsValidNativeAppIdOffset x \<longleftrightarrow>
     x \<ge> NATIVE_APP_ID_OFFSET \<and> uint x < uint NATIVE_APP_ID_OFFSET + uint MAX_NATIVE_APPS"

definition ptr_of_ref :: "msg_ref \<Rightarrow> pkt_ptr" where
  "ptr_of_ref r = (case r of RefSlot i \<Rightarrow> Some (PSlot i) | RefTx \<Rightarrow> Some (PElsewhere 0)
     | RefDisco \<Rightarrow> Some (PElsewhere 1) | RefAck \<Rightarrow> Some (PElsewhere 2))"

text \<open>The handler of a native application, if the payload type names one that has it.\<close>

definition native_handler ::
  "(MACEventHandler \<Rightarrow> nat option) \<Rightarrow> u8 \<Rightarrow> 'a mac_base_scheme \<Rightarrow> nat option option"
where
  "native_handler fn payload_type s =
     (if IsValidNativeAppIdOffset payload_type
      then map_option (\<lambda>h. Option.bind h (\<lambda>i. fn (handler_at s i))) (GetNativeAppHandler payload_type s)
      else Some None)"

definition SendACKToUpperLayers ::
  "omac_env \<Rightarrow> msg_ref option \<Rightarrow> NetOpStatus \<Rightarrow> u8 \<Rightarrow> omac \<Rightarrow> omac option"
where
  "SendACKToUpperLayers E msg status radioAckStatus s =
     (case msg of
        None \<Rightarrow> Some s
      | Some r \<Rightarrow>
          if msg_type (get_msg r s) \<noteq> payload_code MFM_OMAC_TIMESYNCREQ then
            (case native_handler SendAckHandler_fn (msg_type (get_msg r s)) s of
               None \<Rightarrow> None
             | Some h \<Rightarrow>
                 (case (if h = None then m_txAckHandler s else h) of
                    None \<Rightarrow> Some s
                  | Some f \<Rightarrow> Some (call_app E (CAppSendAck f (get_msg r s) status radioAckStatus) s)))
          else if status = NetworkOperations_Fail \<or> status = NetworkOperations_Success then
            Some (s\<lparr>g_NeighborTable := snd (DeletePacket_nt (ptr_of_ref r) (g_NeighborTable s))\<rparr>)
          else Some s)"

section \<open>When a neighbor wakes up\<close>

definition G_Neighbor2LocalTime :: "omac_env \<Rightarrow> u16 \<Rightarrow> u64 \<Rightarrow> omac \<Rightarrow> (u64 \<times> omac) option" where
  "G_Neighbor2LocalTime E nbr nbrTime s =
     (if NumberOfRecordedElements nbr (regressgt2 s) < 2 then Some (HAL_Time_CurrentTicks E s)
      else map_option (\<lambda>t. (t, s)) (Neighbor2LocalTime (env_round E) 0 nbr nbrTime (regressgt2 s)))"

definition CalculateNextTxMicro :: "omac_env \<Rightarrow> u16 \<Rightarrow> omac \<Rightarrow> (u64 \<times> omac) option" where
  "CalculateNextTxMicro E dst s =
     (case GetNeighborPtr dst (g_NeighborTable s) of
        None \<Rightarrow> Some (MAX_UINT64, s)
      | Some i \<Rightarrow> do {
          (t, s) \<leftarrow> G_Neighbor2LocalTime E dst
             (nextwakeupSlot (nth_neighbor (g_NeighborTable s) i) * of_nat SLOT_PERIOD_TICKS) s;
          Some (SubstractMicroSeconds (ConvertTickstoMicroSecs t)
             (ucast (RADIO_TURN_ON_DELAY_TX (params s) + DELAY_FROM_OMAC_TX_TO_RADIO_DRIVER_TX (params s))), s)
        })"

text \<open>The schedule of a neighbor, brought up to date in its entry.\<close>

definition update_entry_schedule :: "u64 \<Rightarrow> Neighbor_t \<Rightarrow> (bool \<times> Neighbor_t) option" where
  "update_entry_schedule slot n =
     map_option (\<lambda>(rv, w, sd). (rv, n\<lparr>nextwakeupSlot := w, nextSeed := sd\<rparr>))
       (UpdateSeedandCalculateWakeupSlot (nextwakeupSlot n) (nextSeed n) (seed_mask n)
          (seedUpdateIntervalinSlots n) slot)"

fun skip_periods :: "nat \<Rightarrow> Neighbor_t \<Rightarrow> Neighbor_t option" where
  "skip_periods 0 n = Some n"
| "skip_periods (Suc k) n =
     Option.bind (update_entry_schedule (nextwakeupSlot n) n) (\<lambda>(_, n'). skip_periods k n')"

definition UpdateNeighborsWakeUpSlot :: "omac_env \<Rightarrow> u16 \<Rightarrow> u8 \<Rightarrow> omac \<Rightarrow> (bool \<times> omac) option" where
  "UpdateNeighborsWakeUpSlot E dst skipperiods s =
     (case GetNeighborPtr dst (g_NeighborTable s) of
        None \<Rightarrow> Some (False, s)
      | Some i \<Rightarrow>
          (let n = nth_neighbor (g_NeighborTable s) i in
           if MACAddress n \<noteq> dst then Some (False, s)
           else
             (let (_, s) = GetCurrentTimeinTicks E s; (t, s) = GetCurrentTimeinTicks E s in do {
               neighborTimeinTicks \<leftarrow> Local2NeighborTime (env_round E) dst t (regressgt2 s);
               if neighborTimeinTicks = 0 then Some (False, s)
               else (let neighborSlot = GetSlotNumberfromTicks neighborTimeinTicks in do {
                 (rv, n) \<leftarrow> (if neighborSlot \<ge> nextwakeupSlot n
                             then update_entry_schedule neighborSlot n else Some (True, n));
                 if \<not> rv then Some (False, upd_entry i (\<lambda>_. n) s)
                 else do {
                   n \<leftarrow> skip_periods (unat skipperiods) n;
                   Some (True, upd_entry i (\<lambda>_. n) s)
                 }
               })
             })))"

text \<open>
  \<open>CalculateNextRXOpp\<close>: the loop moves to later wake-ups until one can be reached. When the
  update fails the result is \<open>MAX_UINT64\<close> less the present.
\<close>

partial_function (option) rx_opp_loop :: "omac_env \<Rightarrow> u16 \<Rightarrow> u64 \<Rightarrow> u64 \<Rightarrow> omac \<Rightarrow> (u64 \<times> u64 \<times> omac) option"
where
  "rx_opp_loop E dst nextTXmicro curmicro s =
     (if nextTXmicro \<le> curmicro + OMAC_SCHEDULER_MIN_REACTION_TIME_IN_MICRO then
        Option.bind (UpdateNeighborsWakeUpSlot E dst 1 s) (\<lambda>(ok, s).
          if ok then
            Option.bind (CalculateNextTxMicro E dst s) (\<lambda>(nextTXmicro, s).
              let (t, s) = GetCurrentTimeinTicks E s
              in rx_opp_loop E dst nextTXmicro (ConvertTickstoMicroSecs t) s)
          else Some (MAX_UINT64, curmicro, s))
      else Some (nextTXmicro, curmicro, s))"

definition CalculateNextRXOpp :: "omac_env \<Rightarrow> u16 \<Rightarrow> omac \<Rightarrow> (u64 \<times> omac) option" where
  "CalculateNextRXOpp E dst s = do {
     (ok, s) \<leftarrow> UpdateNeighborsWakeUpSlot E dst 0 s;
     if ok then do {
       (nextTXmicro, s) \<leftarrow> CalculateNextTxMicro E dst s;
       let (t, s) = GetCurrentTimeinTicks E s;
       (nextTXmicro, curmicro, s) \<leftarrow> rx_opp_loop E dst nextTXmicro (ConvertTickstoMicroSecs t) s;
       Some (nextTXmicro - curmicro, s)
     }
     else Some (MAX_UINT64, s)
   }"

section \<open>The next transmission\<close>

text \<open>
  The loop that reports stale packets: only what the application does in the callback, or the
  deletion of a request packet, can end it.
\<close>

partial_function (option) stale_loop :: "omac_env \<Rightarrow> omac \<Rightarrow> omac option" where
  "stale_loop E s =
     (case FindStalePacket_nt FRAMERETRYMAXATTEMPT BO_OMAC (g_NeighborTable s) of
        None \<Rightarrow> Some s
      | Some p \<Rightarrow>
          Option.bind (SendACKToUpperLayers E (deref (Some p)) NetworkOperations_Fail
              (trac_code TRAC_STATUS_FAIL_TO_SEND) s)
            (stale_loop E))"

text \<open>The search over the neighbors keeps the nearest opportunity, the first on a tie.\<close>

fun next_tx_scan :: "omac_env \<Rightarrow> u64 \<Rightarrow> nat list \<Rightarrow> omac \<Rightarrow> omac option" where
  "next_tx_scan E rem [] s = Some s"
| "next_tx_scan E rem (i # ixs) s =
     (let n = Neighbor (g_NeighborTable s) ! i in
      if neighborStatus n \<noteq> Dead \<and> IsNeighborTimeAvailable (MACAddress n) (regressgt2 s)
         \<and> IsThereAPacketWithDest (MACAddress n) (g_NeighborTable s)
      then do {
        (cur, s) \<leftarrow> CalculateNextRXOpp E (MACAddress n) s;
        if cur < rem
        then next_tx_scan E cur ixs (s\<lparr>m_outgoingEntryPtr_dest := MACAddress n, isDataPacketScheduled := True\<rparr>)
        else next_tx_scan E rem ixs s
      }
      else next_tx_scan E rem ixs s)"

definition DTH_NextEvent :: "omac_env \<Rightarrow> omac \<Rightarrow> (u64 \<times> omac) option" where
  "DTH_NextEvent E s = do {
     s \<leftarrow> stale_loop E s;
     s \<leftarrow> next_tx_scan E MAX_UINT64 [0..<MAX_NEIGHBORS]
            (s\<lparr>isDataPacketScheduled := False, m_outgoingEntryPtr_dest := 0, m_outgoingEntryPtr := None\<rparr>);
     if isDataPacketScheduled s then CalculateNextRXOpp E (m_outgoingEntryPtr_dest s) s
     else Some (MAX_UINT64, s)
   }"

section \<open>Dropping a packet\<close>

definition delete_outgoing :: "omac \<Rightarrow> omac" where
  "delete_outgoing s = s\<lparr>g_NeighborTable := snd (DeletePacket_nt (m_outgoingEntryPtr s) (g_NeighborTable s))\<rparr>"

definition record_success :: "u8 \<Rightarrow> omac \<Rightarrow> omac" where
  "record_success i = upd_entry i (\<lambda>n. n\<lparr>SendLink := RecordPacketSuccess True (SendLink n)\<rparr>)"

definition DropPacket :: "omac_env \<Rightarrow> omac \<Rightarrow> omac option" where
  "DropPacket E s =
     (let dst = m_outgoingEntryPtr_dest s;
          finish = (\<lambda>s. Some (s\<lparr>isDataPacketScheduled := False, m_currentSlotRetryAttempt := 0\<rparr>)) in
      case GetNeighborPtr dst (g_NeighborTable s) of
        None \<Rightarrow> finish s
      | Some i \<Rightarrow>
          (case m_outgoingEntryPtr s of
             None \<Rightarrow> Some s
           | Some p \<Rightarrow> do {
               r \<leftarrow> deref (Some p);
               let s = (if has_flag MFM_DISCOVERY_FLAG (get_msg r s) then upd_entry i RecordMyScheduleSent s else s);
               let s = (if has_flag MFM_TIMESYNC_FLAG (get_msg r s) then upd_entry i IncrementNumInitMessagesSent s else s);
               let tb = g_NeighborTable s;
               if IsInitializationTimeSamplesNeeded (nth_neighbor tb i) \<and> IsThereATSRPacketFor dst tb
                  \<and> Some p = FindTSRPacket dst tb
               then finish (record_success i (delete_outgoing s))
               else if IsThereAPacketWithDest dst tb \<and> Some p = FindDataPacket dst tb then do {
                 let s = record_success i s;
                 s \<leftarrow> (if has_flag MFM_TIMESYNC_FLAG (get_msg r s)
                       then map_option (\<lambda>ab. s\<lparr>g_NeighborTable := (g_NeighborTable s)\<lparr>send_buffer := ab\<rparr>\<rparr>)
                         (purge_while (IsThereATSRPacketWithDest Total_Buffer_SIZE dst)
                           (FindTSRPacketForNeighbor Total_Buffer_SIZE dst) del_pkt
                           (send_buffer (g_NeighborTable s)))
                       else Some s);
                 s \<leftarrow> SendACKToUpperLayers E (Some r) NetworkOperations_Success (trac_code TRAC_STATUS_SUCCESS) s;
                 finish s
               }
               else if IsThereATSRPacketFor dst tb \<and> Some p = FindTSRPacket dst tb
               then finish (record_success i (delete_outgoing s))
               else finish s
             }))"

section \<open>Choosing a packet and sending it\<close>

definition SelectPacketForDest :: "u16 \<Rightarrow> omac \<Rightarrow> pkt_ptr \<times> omac" where
  "SelectPacketForDest dst s =
     (let tb = g_NeighborTable s in
      case GetNeighborPtr dst tb of
        None \<Rightarrow> (None, s)
      | Some i \<Rightarrow>
          if IsInitializationTimeSamplesNeeded (nth_neighbor tb i) \<and> IsThereATSRPacketFor dst tb
          then (FindTSRPacket dst tb, s\<lparr>txhandler_state := DTS_PACKET_SELECTED\<rparr>)
          else if IsThereADataPacketFor dst tb
          then (FindDataPacket dst tb, s\<lparr>txhandler_state := DTS_PACKET_SELECTED\<rparr>)
          else if IsThereATSRPacketFor dst tb
          then (FindTSRPacket dst tb, s\<lparr>txhandler_state := DTS_PACKET_SELECTED\<rparr>)
          else (None, s\<lparr>txhandler_state := DTS_PACKET_NOTSELECTED\<rparr>))"

definition DTH_Send :: "omac_env \<Rightarrow> omac \<Rightarrow> (bool \<times> omac) option" where
  "DTH_Send E s =
     (let (p, s) = SelectPacketForDest (m_outgoingEntryPtr_dest s) s; s = s\<lparr>m_outgoingEntryPtr := p\<rparr> in
      if p \<noteq> None \<and> isDataPacketScheduled s then do {
        r \<leftarrow> deref p;
        let s = upd_metadata r (\<lambda>d. snd (SetRetryAttempts (RetryAttempts d + 1) d)) s;
        let s = s\<lparr>txhandler_state := DTS_SEND_INITIATED\<rparr>;
        (rs, s) \<leftarrow> RC_Send E (msg_dest (get_msg r s)) r (ucast (hdr_length (header (get_msg r s)))) s;
        Some (rs = DS_Success, s)
      }
      else Some (False, s\<lparr>txhandler_state := DTS_SEND_PACKET_NOT_READY\<rparr>))"

section \<open>Backoff\<close>

text \<open>The window after another failed attempt.\<close>

definition next_backoff_window :: "u8 \<Rightarrow> u8" where
  "next_backoff_window w =
     (let w1 = (if w \<ge> INITIAL_RETRY_BACKOFF_WINDOW_SIZE \<and> w \<le> MAX_RETRY_BACKOFF_WINDOW_SIZE then w * 2
                else INITIAL_RETRY_BACKOFF_WINDOW_SIZE)
      in if w1 > MAX_RETRY_BACKOFF_WINDOW_SIZE then MAX_RETRY_BACKOFF_WINDOW_SIZE else w1)"

definition SelectRetrySlotNumForNeighborBackOff :: "omac \<Rightarrow> omac" where
  "SelectRetrySlotNumForNeighborBackOff s =
     (case GetNeighborPtr (m_outgoingEntryPtr_dest s) (g_NeighborTable s) of
        None \<Rightarrow> s
      | Some i \<Rightarrow>
          (let w = next_backoff_window (random_back_off_window_size (nth_neighbor (g_NeighborTable s) i));
               (randVal, _) = RandWithMask (m_backoff_seed s) (m_backoff_mask s)
           in upd_entry i (\<lambda>n. n\<lparr>random_back_off_window_size := w,
                random_back_off_slot := ucast (randVal mod ucast w)\<rparr>) (s\<lparr>m_backoff_seed := randVal\<rparr>)))"

lemma next_backoff_window_bounds: "3 \<le> next_backoff_window w" "next_backoff_window w \<le> 10"
proof -
  have "unat (w * 2) = 2 * unat w" if "w \<le> 10"
    using that by (simp add: unat_word_ariths word_le_nat_alt)
  then show "3 \<le> next_backoff_window w" "next_backoff_window w \<le> 10"
    by (auto simp: next_backoff_window_def Let_def INITIAL_RETRY_BACKOFF_WINDOW_SIZE_def
        MAX_RETRY_BACKOFF_WINDOW_SIZE_def word_le_nat_alt word_less_nat_alt)
qed

end
