(* ===== verification/Omac_Sync.thy ===== *)
theory Omac_Sync
  imports Omac_Transmit
begin

text \<open>
  Time synchronization of OMAC
  (\<^verbatim>\<open>DeviceCode/pal/Samraksh/Wireless/MAC/OMAC/OMACTimeSync.cpp\<close>): the requests sent to the neighbors
  whose synchronization is due, and the samples taken from the times they send. Shown here: the
  handler never asks the scheduler for an event of its own, since its search ends only when no
  neighbor is due.
\<close>

section \<open>Requests\<close>

definition TS_Initialize :: "omac_env \<Rightarrow> omac \<Rightarrow> omac" where
  "TS_Initialize E s =
     (let s = s\<lparr>m_messagePeriod := ConvertMicroSecstoTicks SENDER_CENTRIC_PROACTIVE_TIMESYNC_REQUEST_INMICS,
                regressgt2 := Init_regression (regressgt2 s)\<rparr>
      in snd (VirtTimer_SetTimer E VIRT_TIMER_OMAC_TIMESYNC 1000 True s))"

definition TS_Send :: "omac_env \<Rightarrow> u16 \<Rightarrow> omac \<Rightarrow> (bool \<times> omac) option" where
  "TS_Send E address s =
     (let lastTimeSyncRecv = GetLastTimeSyncRecv address (g_NeighborTable s);
          (y, s) = GetCurrentTimeinTicks E s;
          request_TimeSync = (y - lastTimeSyncRecv > ConvertMicroSecstoTicks FORCE_REQUESTTIMESYNC_INMICS)
      in do {
        (rs, s) \<leftarrow> (if NumberOfRecordedElements address (regressgt2 s) \<ge> 2
                    then OMAC_Send E address (payload_code MFM_OMAC_TIMESYNCREQ) [of_bool request_TimeSync] 1 s
                    else Some (False, s));
        (_, s) \<leftarrow> on_table (RecordTimeSyncRequestSent address y) s;
        Some (rs, s)
      })"

definition TS_ReceiveTSReq :: "omac_env \<Rightarrow> u16 \<Rightarrow> bool \<Rightarrow> omac \<Rightarrow> (DeviceStatus \<times> omac) option" where
  "TS_ReceiveTSReq E msg_src request_TimeSync s =
     (if request_TimeSync then map_option (\<lambda>(_, s). (DS_Success, s)) (TS_Send E msg_src s)
      else Some (DS_Success, s))"

text \<open>
  The loop of \<open>NextEvent\<close>. What is computed behind the loop from the neighbor that was found is
  never reached, as the loop is left with a null pointer only.
\<close>

partial_function (option) sync_loop :: "omac_env \<Rightarrow> omac \<Rightarrow> (nat option \<times> omac) option" where
  "sync_loop E s =
     (let (t, s) = GetCurrentTimeinTicks E s in
      case GetCritalSyncNeighborWOldestSyncPtr t (m_messagePeriod s)
             (ConvertMicroSecstoTicks FORCE_REQUESTTIMESYNC_INMICS)
             (ConvertMicroSecstoTicks INITIALIZATION_TIMESYNC_INTERVAL_INMICS) (g_NeighborTable s) of
        None \<Rightarrow> Some (None, s)
      | Some i \<Rightarrow>
          (let (y, s) = GetCurrentTimeinTicks E s in
           Option.bind (TS_Send E (MACAddress (Neighbor (g_NeighborTable s) ! i)) s) (\<lambda>(_, s). sync_loop E s)))"

definition TS_NextEvent :: "omac_env \<Rightarrow> omac \<Rightarrow> (u64 \<times> omac) option" where
  "TS_NextEvent E s = do {
     (sn, s) \<leftarrow> sync_loop E s;
     case sn of
       None \<Rightarrow> Some (0, s)
     | Some i \<Rightarrow>
         (let (y, s) = GetCurrentTimeinTicks E s in
          Some (ConvertTickstoMicroSecs (m_messagePeriod s
            - (y - LastTimeSyncSendTime (Neighbor (g_NeighborTable s) ! i))), s))
   }"

definition TS_NextEventinSlots :: u16 where "TS_NextEventinSlots = 0"

section \<open>Received times\<close>

definition TIME_BETWEEN_TX_RX_TS_TICKS :: u64 where "TIME_BETWEEN_TX_RX_TS_TICKS = 266 * 8"

text \<open>
  Room in the time table for a new neighbor: a free entry; else the entry of a neighbor the
  neighbor table does not know; else the entry of a neighbor that is not alive, which is
  cleared from both tables (and counted again in \<open>NumberValidNeighbor\<close>).
\<close>

fun reclaim_unknown :: "u16 \<Rightarrow> nat list \<Rightarrow> omac \<Rightarrow> bool \<times> omac" where
  "reclaim_unknown msg_src [] s = (False, s)"
| "reclaim_unknown msg_src (i # ixs) s =
     (let nid = nbrID (samples (regressgt2 s) ! i) in
      if nid \<noteq> INVALID_NBR_ID \<and> fst (FindIndexEvenDead nid 0 (g_NeighborTable s)) \<noteq> DS_Success then
        (let s = s\<lparr>regressgt2 := Clean nid (regressgt2 s)\<rparr> in
         if \<not> IsTableFull (regressgt2 s)
         then (True, s\<lparr>regressgt2 := snd (InsertNbrID msg_src (regressgt2 s))\<rparr>)
         else reclaim_unknown msg_src ixs s)
      else reclaim_unknown msg_src ixs s)"

fun reclaim_dead :: "u16 \<Rightarrow> nat list \<Rightarrow> omac \<Rightarrow> (bool \<times> omac) option" where
  "reclaim_dead msg_src [] s = Some (False, s)"
| "reclaim_dead msg_src (i # ixs) s =
     (let nid = nbrID (samples (regressgt2 s) ! i);
          (rv, index) = FindIndexEvenDead nid 0 (g_NeighborTable s) in
      if nid \<noteq> INVALID_NBR_ID \<and> rv = DS_Success
         \<and> neighborStatus (nth_neighbor (g_NeighborTable s) index) \<noteq> Alive
      then do {
        (_, s) \<leftarrow> on_table (ClearNeighborwIndex index) s;
        let s = s\<lparr>g_NeighborTable := (g_NeighborTable s)
                  \<lparr>NumberValidNeighbor := NumberValidNeighbor (g_NeighborTable s) + 1\<rparr>,
                  regressgt2 := Clean nid (regressgt2 s)\<rparr>;
        if \<not> IsTableFull (regressgt2 s)
        then Some (True, s\<lparr>regressgt2 := snd (InsertNbrID msg_src (regressgt2 s))\<rparr>)
        else reclaim_dead msg_src ixs s
      }
      else reclaim_dead msg_src ixs s)"

definition make_room :: "u16 \<Rightarrow> omac \<Rightarrow> (bool \<times> omac) option" where
  "make_room msg_src s =
     (if FindNeighbor msg_src (regressgt2 s) \<noteq> None then Some (True, s)
      else if \<not> IsTableFull (regressgt2 s)
      then Some (True, s\<lparr>regressgt2 := snd (InsertNbrID msg_src (regressgt2 s))\<rparr>)
      else (let (ok, s) = reclaim_unknown msg_src [0..<MAX_NBR] s in
            if ok then Some (True, s) else reclaim_dead msg_src [0..<MAX_NBR] s))"

definition TS_Receive :: "omac_env \<Rightarrow> u16 \<Rightarrow> u32 \<Rightarrow> u32 \<Rightarrow> u64 \<Rightarrow> u64 \<Rightarrow> omac \<Rightarrow> (DeviceStatus \<times> omac) option" where
  "TS_Receive E msg_src localTime0 localTime1 SenderDelay ReceiveTS s =
     (let ReceiveTS = ReceiveTS - TIME_BETWEEN_TX_RX_TS_TICKS;
          rcv_ltime = push_bit 32 (ucast localTime1) + ucast localTime0 + SenderDelay;
          l_offset = (if ReceiveTS > rcv_ltime then sint (- (ReceiveTS - rcv_ltime))
                      else sint (rcv_ltime - ReceiveTS))
      in do {
        (ok, s) \<leftarrow> make_room msg_src s;
        if ok then do {
          let s = s\<lparr>regressgt2 := Insert_sample (env_round E) msg_src rcv_ltime l_offset (regressgt2 s)\<rparr>;
          (_, s) \<leftarrow> on_table (RecordTimeSyncRecv msg_src ReceiveTS) s;
          Some (DS_Success, s)
        }
        else Some (DS_Success, s)
      })"

section \<open>No event of its own\<close>

lemma sync_loop_ends_without: "sync_loop E s = Some r \<Longrightarrow> fst r = None"
proof (induction rule: sync_loop.raw_induct[rotated, consumes 1, case_names step])
  case (step f E s r)
  from step(2) show ?case
    by (auto simp: Let_def split: prod.split_asm option.split_asm Option.bind_split_asm dest: step(1))
qed

lemma TS_NextEvent_zero: "TS_NextEvent E s = Some (v, s') \<Longrightarrow> v = 0"
  by (auto simp: TS_NextEvent_def bind_eq_Some_conv dest: sync_loop_ends_without)

end
