(* ===== verification/Omac_Scheduler.thy ===== *)
theory Omac_Scheduler
  imports Omac_Sync
begin

text \<open>
  The scheduler of OMAC (\<^verbatim>\<open>DeviceCode/pal/Samraksh/Wireless/MAC/OMAC/Scheduler.cpp\<close>): it asks
  every handler when its next event is due (\<^verbatim>\<open>DataReceptionHandler.cpp\<close>,
  \<^verbatim>\<open>DiscoveryHandler.cpp\<close>; the other two are in the theories before this one), brings the
  neighbor table up to date (\<^verbatim>\<open>OMAC.cpp\<close>), programs its timer for the earliest event, and after
  an event stops the radio and starts over. Shown here: which event is chosen and when the
  timer is set; that stopping the radio is tried at most ten times, at once and without the
  timer that is meant for it.
\<close>

section \<open>The next reception\<close>

definition rx_advance :: "omac \<Rightarrow> u64" where
  "rx_advance s = ConvertMicroSecstoTicks
     (ucast (RADIO_TURN_ON_DELAY_RX (params s) + GUARDTIME_MICRO + ADDITIONAL_TIMEADVANCE_FOR_RECEPTION))"

text \<open>The ticks at which the radio is turned on for the next wake-up slot.\<close>

definition rx_event_ticks :: "u64 \<Rightarrow> schedule \<Rightarrow> u64" where
  "rx_event_ticks adv d = SubstractTicks (ConvertSlotstoTicks (m_nextwakeupSlot d)) adv"

partial_function (option) wake_loop :: "u64 \<Rightarrow> u64 \<Rightarrow> schedule \<Rightarrow> (u64 \<times> schedule) option" where
  "wake_loop y adv d =
     (if rx_event_ticks adv d \<le> y + OMAC_SCHEDULER_MIN_REACTION_TIME_IN_TICKS
      then Option.bind (update_schedule (m_nextwakeupSlot d) d) (\<lambda>(_, d). wake_loop y adv d)
      else Some (rx_event_ticks adv d, d))"

definition DRH_NextEvent :: "omac_env \<Rightarrow> omac \<Rightarrow> (u64 \<times> omac) option" where
  "DRH_NextEvent E s =
     (let (y, s) = GetCurrentTimeinTicks E s; (currentSlotNum, s) = GetSlotNumber E s in do {
        (_, d) \<leftarrow> (if currentSlotNum \<ge> m_nextwakeupSlot (own_schedule s)
                   then update_schedule currentSlotNum (own_schedule s) else Some (True, own_schedule s));
        (NextEventTimeinTicks, d) \<leftarrow> wake_loop y (rx_advance s) d;
        let s = s\<lparr>own_schedule := d\<rparr>;
        let (now, s) = GetCurrentTimeinTicks E s;
        let (_, s) = GetCurrentTimeinTicks E s;
        Some (ConvertTickstoMicroSecs (NextEventTimeinTicks - now), s)
      })"

section \<open>The next beacon\<close>

text \<open>\<open>None\<close> is a division by zero, of the slot length or of a period.\<close>

definition G_Disco_GetSlotNumber :: "omac_env \<Rightarrow> omac \<Rightarrow> (u64 \<times> omac) option" where
  "G_Disco_GetSlotNumber E s =
     (let (t, s) = GetCurrentTimeinTicks E s; p = DISCO_SLOT_PERIOD_MICRO (params s) in
      if p = 0 then None else Some (Disco_GetSlotNumber p t, s))"

definition G_Disco_GetTimeTillTheEndofSlot :: "omac_env \<Rightarrow> omac \<Rightarrow> (u64 \<times> omac) option" where
  "G_Disco_GetTimeTillTheEndofSlot E s =
     (let (t, s) = GetCurrentTimeinTicks E s; p = DISCO_SLOT_PERIOD_MICRO (params s) in
      if p = 0 then None else Some (Disco_GetTimeTillTheEndofSlot p t, s))"

definition G_NextEventinSlots :: "u64 \<Rightarrow> omac \<Rightarrow> u64 option" where
  "G_NextEventinSlots slot s =
     (if fst (m_periods s) = 0 \<or> snd (m_periods s) = 0 then None
      else Some (NextEventinSlots (m_periods s) slot))"

definition TempIncreaseDiscoRate :: "omac_env \<Rightarrow> omac \<Rightarrow> omac option" where
  "TempIncreaseDiscoRate E s = do {
     (slot, s) \<leftarrow> G_Disco_GetSlotNumber E
        (s\<lparr>m_periods := high_rate_periods (MyAddress s), highdiscorate := True\<rparr>);
     Some (s\<lparr>firstHighRateDiscoTimeinSlotNum := slot, stayOn := HIGH_DISCO_PERIOD_ALWAYS_ON\<rparr>)
   }"

definition PermanentlyDecreaseDiscoRate :: "omac \<Rightarrow> omac" where
  "PermanentlyDecreaseDiscoRate s =
     s\<lparr>m_periods := low_rate_periods (MyAddress s), stayOn := False, highdiscorate := False\<rparr>"

text \<open>The slots are kept in 16 bits; their product with the slot length is a 32-bit one.\<close>

definition slots_to_micro :: "u16 \<Rightarrow> omac \<Rightarrow> u64" where
  "slots_to_micro slots s = ucast (ucast slots * DISCO_SLOT_PERIOD_MICRO (params s))"

definition Disco_NextEvent :: "omac_env \<Rightarrow> omac \<Rightarrow> (u64 \<times> omac) option" where
  "Disco_NextEvent E s = do {
     (currentSlotNum, s) \<leftarrow> G_Disco_GetSlotNumber E s;
     s \<leftarrow> (if firstHighRateDiscoTimeinSlotNum s = 0 then
             (let s = s\<lparr>firstHighRateDiscoTimeinSlotNum := currentSlotNum\<rparr> in
              if HIGH_DISCO_PERIOD_IN_SLOTS (params s) \<noteq> 0 then TempIncreaseDiscoRate E s else Some s)
           else Some s);
     let s = (if highdiscorate s
                 \<and> currentSlotNum - firstHighRateDiscoTimeinSlotNum s > ucast (HIGH_DISCO_PERIOD_IN_SLOTS (params s))
              then PermanentlyDecreaseDiscoRate s else s);
     n \<leftarrow> G_NextEventinSlots currentSlotNum s;
     (rest, s) \<leftarrow> G_Disco_GetTimeTillTheEndofSlot E s;
     let nextEventsMicroSec = slots_to_micro (ucast n) s + rest;
     if nextEventsMicroSec < OMAC_SCHEDULER_MIN_REACTION_TIME_IN_MICRO then do {
       n \<leftarrow> G_NextEventinSlots (currentSlotNum + 1) s;
       (rest, s) \<leftarrow> G_Disco_GetTimeTillTheEndofSlot E s;
       Some (slots_to_micro (ucast n + 1) s + rest, s)
     }
     else Some (nextEventsMicroSec, s)
   }"

section \<open>The neighbor table, brought up to date (OMAC.cpp)\<close>

text \<open>The two loops of \<open>MarkNeighborAsDead\<close>; as above, only the application can end them.\<close>

partial_function (option) fail_packets ::
  "omac_env \<Rightarrow> (u16 \<Rightarrow> neighbor_table \<Rightarrow> pkt_ptr) \<Rightarrow> nat \<Rightarrow> omac \<Rightarrow> omac option"
where
  "fail_packets E look i s =
     (case look (MACAddress (Neighbor (g_NeighborTable s) ! i)) (g_NeighborTable s) of
        None \<Rightarrow> Some s
      | Some p \<Rightarrow>
          Option.bind (SendACKToUpperLayers E (deref (Some p)) NetworkOperations_Fail
              (trac_code TRAC_STATUS_FAIL_TO_SEND) s)
            (fail_packets E look i))"

definition MarkNeighborAsDead :: "omac_env \<Rightarrow> nat \<Rightarrow> omac \<Rightarrow> omac option" where
  "MarkNeighborAsDead E i s = do {
     s \<leftarrow> fail_packets E FindDataPacket i (upd_entry (of_nat i) MarkAsDead s);
     fail_packets E FindTSRPacket i s
   }"

definition set_available :: "nat \<Rightarrow> bool \<Rightarrow> omac \<Rightarrow> omac" where
  "set_available i b = upd_entry (of_nat i) (\<lambda>n. n\<lparr>IsAvailableForUpperLayers := b\<rparr>)"

text \<open>One round of the loop of \<open>UpdateNeighborTable\<close>: the change of the number of dead neighbors.\<close>

definition check_neighbor :: "omac_env \<Rightarrow> u64 \<Rightarrow> u64 \<Rightarrow> nat \<Rightarrow> omac \<Rightarrow> (u8 \<times> omac) option" where
  "check_neighbor E currentTime liveness i s =
     (let n = Neighbor (g_NeighborTable s) ! i in
      if ISMAC_VALID (MACAddress n) \<and> neighborStatus n = Alive then
        (if IsNeighborTimeAvailable (MACAddress n) (regressgt2 s) then
           (let s = set_available i (\<not> IsInitializationTimeSamplesNeeded n) s in
            if LastHeardTime n \<noteq> 0 \<and> currentTime - LastHeardTime n > liveness
            then map_option (\<lambda>s. (1, s)) (MarkNeighborAsDead E i s) else Some (0, s))
         else
           (let s = set_available i False s in
            if LastHeardTime n = 0 then Some (0, s)
            else if currentTime - LastHeardTime n
                    > ConvertMicroSecstoTicks OMAC_MAX_WAITING_TIME_FOR_TIMESAMPLES_INMICS
            then map_option (\<lambda>s. (1, s)) (MarkNeighborAsDead E i s) else Some (0, s)))
      else Some (0, set_available i False s))"

fun check_neighbors :: "omac_env \<Rightarrow> u64 \<Rightarrow> u64 \<Rightarrow> nat list \<Rightarrow> u8 \<Rightarrow> u8 \<Rightarrow> omac \<Rightarrow> (u8 \<times> u8 \<times> omac) option" where
  "check_neighbors E currentTime liveness [] dead available s = Some (dead, available, s)"
| "check_neighbors E currentTime liveness (i # ixs) dead available s = do {
     (d, s) \<leftarrow> check_neighbor E currentTime liveness i s;
     let n = Neighbor (g_NeighborTable s) ! i;
     check_neighbors E currentTime liveness ixs (dead + d)
       (if ISMAC_VALID (MACAddress n) \<and> IsAvailableForUpperLayers n then available + 1 else available) s
   }"

text \<open>\<open>(UINT64)(MyConfig.NeighborLivenessDelay * 1000000)\<close> multiplies in 32 bits.\<close>

definition liveness_ticks :: "omac \<Rightarrow> u64" where
  "liveness_ticks s = ConvertMicroSecstoTicks (ucast (NeighborLivenessDelay (MyConfig s) * 1000000))"

definition OMAC_UpdateNeighborTable :: "omac_env \<Rightarrow> omac \<Rightarrow> (u8 \<times> omac) option" where
  "OMAC_UpdateNeighborTable E s =
     (let (currentTime, s) = GetCurrentTimeinTicks E s in do {
        (dead, available, s) \<leftarrow> check_neighbors E currentTime (liveness_ticks s) [0..<MAX_NEIGHBORS] 0 0 s;
        if PreviousNumberOfNeighbors (g_NeighborTable s) \<noteq> available then
          (case GetAppHandler (CurrentActiveApp s) s of
             None \<Rightarrow> None
           | Some h \<Rightarrow>
               (let s = (case neighborHandler_fn (handler_at s h) of
                           None \<Rightarrow> s | Some f \<Rightarrow> call_app E (CAppNeighborChange f available) s)
                in Some (dead, s\<lparr>g_NeighborTable := SetPreviousNumberOfNeighbors available (g_NeighborTable s)\<rparr>)))
        else Some (dead, s)
      })"

section \<open>Scheduling\<close>

text \<open>An offset below the reaction time is taken as none.\<close>

definition reachable_offset :: "u64 \<Rightarrow> u64" where
  "reachable_offset t = (if t < OMAC_SCHEDULER_MIN_REACTION_TIME_IN_MICRO then MAX_UINT64 else t)"

text \<open>
  The choice between the events: offsets in microseconds, those of reception and transmission
  less the time since they were computed, that of the beacon with this time as an argument of
  its own.
\<close>

definition choose_event ::
  "u64 \<Rightarrow> u64 \<Rightarrow> u64 \<Rightarrow> u64 \<Rightarrow> u64 \<Rightarrow> OMACSchedulerState_t \<times> u64"
where
  "choose_event rx tx beacon beacon_elapsed timesync =
     (let n0 = MAXSCHEDULERUPDATE;
          n1 = (if rx < MAXSCHEDULERUPDATE \<and> rx < n0 then rx else n0);
          n2 = (if tx < MAXSCHEDULERUPDATE \<and> tx < n1 then tx else n1);
          take_beacon = (beacon < MAXSCHEDULERUPDATE \<and> beacon + DISCO_SLOT_GUARD * 16 * 1000 < n2);
          beacon1 = (if take_beacon then beacon - beacon_elapsed else beacon);
          n3 = (if take_beacon then beacon1 else n2);
          n4 = (if timesync < MAXSCHEDULERUPDATE \<and> timesync < n3 then timesync else n3);
          st = (if rx = n4 then I_DATA_RCV_PENDING else if tx = n4 then I_DATA_SEND_PENDING
                else if beacon1 = n4 then I_DISCO_PENDING else if timesync = n4 then I_TIMESYNC_PENDING
                else I_IDLE)
      in if n4 > MAXSCHEDULERUPDATE \<or> n4 < OMAC_SCHEDULER_MIN_REACTION_TIME_IN_MICRO
         then (I_IDLE, MAXSCHEDULERUPDATE) else (st, n4))"

text \<open>\<open>while(rm != TimerSupported) rm = VirtTimer_Start(\<dots>)\<close>.\<close>

partial_function (option) start_until_supported :: "omac_env \<Rightarrow> omac_timer \<Rightarrow> omac \<Rightarrow> omac option" where
  "start_until_supported E t s =
     (let (rm, s) = VirtTimer_Start E t s in if rm then Some s else start_until_supported E t s)"

text \<open>What \<open>ScheduleNextEvent\<close> does with its choice: it programs the timer and starts it.\<close>

definition program_event :: "omac_env \<Rightarrow> OMACSchedulerState_t \<Rightarrow> u64 \<Rightarrow> omac \<Rightarrow> omac option" where
  "program_event E st nextWakeupTimeInMicSec s =
     (let s = s\<lparr>sched_state := st\<rparr>;
          (_, s) = VirtTimer_Change E VIRT_TIMER_OMAC_SCHEDULER (ucast nextWakeupTimeInMicSec) s;
          (t, s) = GetCurrentTimeinTicks E s;
          s = s\<lparr>m_curTime_in_ticks := t\<rparr>;
          (t, s) = GetCurrentTimeinTicks E s;
          s = s\<lparr>m_scheduledTimer_in_ticks := t + ConvertMicroSecstoTicks nextWakeupTimeInMicSec,
                m_num_rescheduled := 0\<rparr>
      in do {
        s \<leftarrow> start_until_supported E VIRT_TIMER_OMAC_SCHEDULER s;
        let (t, s) = GetCurrentTimeinTicks E s;
        Some (s\<lparr>m_scheduledFailSafeTimer_in_ticks := t + ConvertMicroSecstoTicks FAILSAFETIME_MICRO,
                SchedulerINUse := True\<rparr>)
      })"

definition ScheduleNextEvent :: "omac_env \<Rightarrow> omac \<Rightarrow> omac option" where
  "ScheduleNextEvent E s = do {
     (_, s) \<leftarrow> OMAC_UpdateNeighborTable E s;
     (timesync, s) \<leftarrow> TS_NextEvent E s;
     let (_, s) = GetCurrentTimeinTicks E s;
     (rx, s) \<leftarrow> DRH_NextEvent E s;
     let (curticks_rx, s) = GetCurrentTimeinTicks E s;
     (tx, s) \<leftarrow> DTH_NextEvent E s;
     let (curticks_tx, s) = GetCurrentTimeinTicks E s;
     (beacon, s) \<leftarrow> Disco_NextEvent E s;
     let (curticks_beacon, s) = GetCurrentTimeinTicks E s;
     let (curticks, s) = GetCurrentTimeinTicks E s;
     let (st, nextWakeupTimeInMicSec) = choose_event
       (reachable_offset rx - ConvertTickstoMicroSecs (curticks - curticks_rx))
       (reachable_offset tx - ConvertTickstoMicroSecs (curticks - curticks_tx))
       (reachable_offset beacon) (ConvertTickstoMicroSecs (curticks - curticks_beacon))
       (reachable_offset timesync);
     program_event E st nextWakeupTimeInMicSec s
   }"

section \<open>After an event\<close>

definition EnsureStopRadio :: "omac_env \<Rightarrow> omac \<Rightarrow> bool \<times> omac" where
  "EnsureStopRadio E s = (let (ds, s) = RC_Stop E s in (ds = DS_Success, s))"

text \<open>
  \<open>rm\<close> is initialised with \<open>TimerNotSupported\<close> and the timer is used only if it is
  \<open>TimerSupported\<close>, so the function calls itself at once.
\<close>

partial_function (option) PostExecution :: "omac_env \<Rightarrow> omac \<Rightarrow> omac option" where
  "PostExecution E s =
     (let rm = False; (stopped, s) = EnsureStopRadio E (s\<lparr>m_execution_started := False\<rparr>) in
      if \<not> stopped then
        (let s = s\<lparr>m_num_sleep_retry_attempts := m_num_sleep_retry_attempts s + 1\<rparr> in
         if m_num_sleep_retry_attempts s < MAX_SLEEP_RETRY_ATTEMPTS then
           (let s = s\<lparr>sched_state := I_RADIO_STOP_RETRY\<rparr>;
                (rm, s) = (if rm then VirtTimer_Stop E VIRT_TIMER_OMAC_SCHEDULER_RADIO_STOP_RETRY s else (rm, s));
                (rm, s) = (if rm then VirtTimer_Start E VIRT_TIMER_OMAC_SCHEDULER_RADIO_STOP_RETRY s else (rm, s))
            in if \<not> rm then PostExecution E s else Some s)
         else ScheduleNextEvent E (s\<lparr>sched_state := I_POST_EXECUTE\<rparr>))
      else ScheduleNextEvent E (s\<lparr>sched_state := I_IDLE\<rparr>))"

section \<open>The timer after scheduling\<close>

lemma choose_event_bounds:
  assumes "choose_event rx tx beacon el ts = (st, off)"
  shows "OMAC_SCHEDULER_MIN_REACTION_TIME_IN_MICRO \<le> off \<and> off \<le> MAXSCHEDULERUPDATE"
  using assms
  by (auto simp: choose_event_def Let_def OMAC_SCHEDULER_MIN_REACTION_TIME_IN_MICRO_def MAXSCHEDULERUPDATE_def not_less
      split: if_splits)

lemma start_until_supported_running:
  "start_until_supported E t s = Some s' \<Longrightarrow>
     running E t (history s') \<and> timer_period t (history s') = timer_period t (history s)
     \<and> sched_state s' = sched_state s"
proof (induction rule: start_until_supported.raw_induct[rotated, consumes 1, case_names step])
  case (step f E t s s')
  have s1: "VirtTimer_Start E t s = (env_timer E (CTimerStart t # history s), call (CTimerStart t) s)"
    by (simp add: VirtTimer_Start_def Let_def)
  show ?case
  proof (cases "env_timer E (CTimerStart t # history s)")
    case True
    then have "s' = call (CTimerStart t) s" using step(2) s1 by simp
    then show ?thesis using True by simp
  next
    case False
    with step(2) s1 have "f E t (call (CTimerStart t) s) = Some s'" by simp
    from step(1)[OF this] show ?thesis by simp
  qed
qed

lemma program_event_running:
  assumes "program_event E st off s = Some s'"
  shows "running E VIRT_TIMER_OMAC_SCHEDULER (history s')
    \<and> timer_period VIRT_TIMER_OMAC_SCHEDULER (history s') = Some (ucast off)
    \<and> sched_state s' = st \<and> SchedulerINUse s'"
  using assms
  by (auto simp: program_event_def timer_defs GetCurrentTimeinTicks_def Let_def bind_eq_Some_conv
      dest!: start_until_supported_running)

lemma choose_event_no_timesync:
  "choose_event rx tx beacon el MAX_UINT64 = (st, off) \<Longrightarrow> st \<noteq> I_TIMESYNC_PENDING"
  by (auto simp: choose_event_def Let_def MAX_UINT64_def MAXSCHEDULERUPDATE_def split: if_splits)

lemma choose_event_states:
  "choose_event rx tx beacon el ts = (st, off) \<Longrightarrow>
     st \<in> {I_IDLE, I_DATA_RCV_PENDING, I_DATA_SEND_PENDING, I_DISCO_PENDING, I_TIMESYNC_PENDING}"
  by (auto simp: choose_event_def Let_def split: if_splits)

lemma ScheduleNextEvent_running:
  assumes "ScheduleNextEvent E s = Some s'"
  shows "running E VIRT_TIMER_OMAC_SCHEDULER (history s')
    \<and> (\<exists>p. timer_period VIRT_TIMER_OMAC_SCHEDULER (history s') = Some p \<and> 500 \<le> p \<and> p \<le> 5000000)
    \<and> sched_state s' \<in> {I_IDLE, I_DATA_RCV_PENDING, I_DATA_SEND_PENDING, I_DISCO_PENDING}
    \<and> SchedulerINUse s'"
proof -
  obtain rx tx b el st off s1 where ch: "choose_event rx tx b el (reachable_offset 0) = (st, off)"
    and p: "program_event E st off s1 = Some s'"
    using assms
    by (auto simp: ScheduleNextEvent_def Let_def split: prod.split_asm Option.bind_split_asm dest!: TS_NextEvent_zero)
  have "(500 :: u32) \<le> ucast off \<and> (ucast off :: u32) \<le> 5000000"
    using choose_event_bounds[OF ch]
    by (simp add: OMAC_SCHEDULER_MIN_REACTION_TIME_IN_MICRO_def MAXSCHEDULERUPDATE_def word_le_nat_alt
        unsigned_ucast_eq take_bit_nat_eq_self)
  moreover have "st \<noteq> I_TIMESYNC_PENDING"
    using choose_event_no_timesync[of rx tx b el] ch
    by (simp add: reachable_offset_def OMAC_SCHEDULER_MIN_REACTION_TIME_IN_MICRO_def)
  ultimately show ?thesis
    using program_event_running[OF p] choose_event_states[OF ch] by auto
qed

lemma PostExecution_running:
  "PostExecution E s = Some s' \<Longrightarrow> running E VIRT_TIMER_OMAC_SCHEDULER (history s')"
proof (induction rule: PostExecution.raw_induct[rotated, consumes 1, case_names step])
  case (step f E s s')
  from step(2) show ?case
    by (auto simp: Let_def split: prod.split_asm if_split_asm dest: step(1) ScheduleNextEvent_running)
qed
section \<open>The contract of a handler\<close>

text \<open>
  The base class \<open>EventHandler\<close> (\<^verbatim>\<open>Handlers.h\<close>): what the scheduler relies on is that a handler that was
  given the radio always has a timer running that gives the radio back, its own one or,
  when the event is over, that of the scheduler.
\<close>

locale event_handler =
  fixes E :: omac_env and own :: omac_timer
    and ExecuteEvent PostExecuteEvent :: "omac \<Rightarrow> omac option"
  assumes execute_runs: "ExecuteEvent s = Some s' \<Longrightarrow>
      running E own (history s') \<or> running E VIRT_TIMER_OMAC_SCHEDULER (history s')"
    and post_runs: "PostExecuteEvent s = Some s' \<Longrightarrow>
      running E own (history s') \<or> running E VIRT_TIMER_OMAC_SCHEDULER (history s')"
begin

text \<open>What the handler answers to its event, and to each firing of its timer.\<close>

lemma awake:
  "ExecuteEvent s = Some s' \<or> PostExecuteEvent s = Some s' \<Longrightarrow> \<exists>t\<in>{own, VIRT_TIMER_OMAC_SCHEDULER}. running E t (history s')"
  using execute_runs post_runs by blast

lemma execute_after:
  assumes "map_option f (ExecuteEvent s) = Some s'" and "\<And>x. history (f x) = history x"
  shows "\<exists>t\<in>{own, VIRT_TIMER_OMAC_SCHEDULER}. running E t (history s')"
  using assms awake by fastforce

end

section \<open>The end of an event\<close>

text \<open>The radio calls of one attempt, the latest first.\<close>

definition sleep_calls :: "nat \<Rightarrow> omac \<Rightarrow> omac_call list" where
  "sleep_calls n s = concat (replicate n [CRadioSleep (radioName s), CWakeUnlock])"

lemma RC_Stop_cases:
  "RC_Stop E s = (if stayOn s then (DS_Success, s)
     else (env_status E (sleep_calls 1 s @ history s), s\<lparr>history := sleep_calls 1 s @ history s\<rparr>))"
  by (simp add: RC_Stop_def call_status_def sleep_calls_def Let_def)

lemma sleep_calls_Suc: "sleep_calls n s @ sleep_calls 1 s = sleep_calls (Suc n) s"
  by (induction n) (simp_all add: sleep_calls_def)

lemma PostExecution_cases:
  fixes s :: omac
  defines "s0 \<equiv> s\<lparr>m_execution_started := False\<rparr>" and "h \<equiv> sleep_calls 1 s @ history s"
    and "a \<equiv> m_num_sleep_retry_attempts s + 1"
  shows "PostExecution E s =
    (if stayOn s then ScheduleNextEvent E (s0\<lparr>sched_state := I_IDLE\<rparr>)
     else if env_status E h = DS_Success then ScheduleNextEvent E (s0\<lparr>history := h, sched_state := I_IDLE\<rparr>)
     else if a < MAX_SLEEP_RETRY_ATTEMPTS
     then PostExecution E (s0\<lparr>history := h, m_num_sleep_retry_attempts := a, sched_state := I_RADIO_STOP_RETRY\<rparr>)
     else ScheduleNextEvent E (s0\<lparr>history := h, m_num_sleep_retry_attempts := a, sched_state := I_POST_EXECUTE\<rparr>))"
  unfolding assms
  by (subst PostExecution.simps) (simp add: EnsureStopRadio_def RC_Stop_cases sleep_calls_def Let_def)

text \<open>
  C16. Putting the radio to sleep after an event takes at most ten attempts: whatever the
  radio answers, \<open>PostExecution\<close> calls \<open>Sleep\<close> and releases the wake lock as often as attempts
  are left of the ten at most, and then plans the next event, with the event marked
  as over.
\<close>

theorem PostExecution_tries_ten_times:
  assumes "m_num_sleep_retry_attempts s < MAX_SLEEP_RETRY_ATTEMPTS"
  shows "\<exists>n s1. PostExecution E s = ScheduleNextEvent E s1
    \<and> n + unat (m_num_sleep_retry_attempts s) \<le> unat MAX_SLEEP_RETRY_ATTEMPTS
    \<and> history s1 = sleep_calls n s @ history s \<and> \<not> m_execution_started s1
    \<and> sched_state s1 \<in> {I_IDLE, I_POST_EXECUTE}"
  using assms
proof (induction "10 - unat (m_num_sleep_retry_attempts s)" arbitrary: s rule: less_induct)
  case less
  let ?a = "m_num_sleep_retry_attempts s + 1"
  let ?s1 = "s\<lparr>m_execution_started := False, history := sleep_calls 1 s @ history s,
    m_num_sleep_retry_attempts := ?a, sched_state := I_RADIO_STOP_RETRY\<rparr>"
  note C = PostExecution_cases[of E s]
  have lim: "unat (m_num_sleep_retry_attempts s) < 10" and ua: "unat ?a = unat (m_num_sleep_retry_attempts s) + 1"
    using less.prems by (simp_all add: MAX_SLEEP_RETRY_ATTEMPTS_def word_less_nat_alt unat_word_ariths)
  consider (on) "stayOn s" | (once) "\<not> stayOn s"
      "env_status E (sleep_calls 1 s @ history s) = DS_Success \<or> \<not> ?a < MAX_SLEEP_RETRY_ATTEMPTS"
    | (again) "\<not> stayOn s" "env_status E (sleep_calls 1 s @ history s) \<noteq> DS_Success"
      "?a < MAX_SLEEP_RETRY_ATTEMPTS" by blast
  then show ?case
  proof cases
    case on
    with C lim show ?thesis by (intro exI[of _ 0]) (auto simp: sleep_calls_def MAX_SLEEP_RETRY_ATTEMPTS_def)
  next
    case once
    with C lim show ?thesis by (intro exI[of _ 1]) (auto simp: MAX_SLEEP_RETRY_ATTEMPTS_def)
  next
    case again
    have "10 - unat (m_num_sleep_retry_attempts ?s1) < 10 - unat (m_num_sleep_retry_attempts s)"
      using ua lim by simp
    from less.hyps[OF this] again(3) obtain n s2 where
      n: "PostExecution E ?s1 = ScheduleNextEvent E s2" "n + unat ?a \<le> unat MAX_SLEEP_RETRY_ATTEMPTS"
      "history s2 = sleep_calls n ?s1 @ history ?s1" "\<not> m_execution_started s2"
      "sched_state s2 \<in> {I_IDLE, I_POST_EXECUTE}" by auto
    have "sleep_calls n ?s1 @ sleep_calls 1 s = sleep_calls (Suc n) s"
      using sleep_calls_Suc[of n s] by (simp add: sleep_calls_def)
    then have "history s2 = sleep_calls (Suc n) s @ history s"
      using n(3) by (simp flip: append_assoc)
    with n again C ua show ?thesis by (intro exI[of _ "Suc n"] exI[of _ s2]) simp
  qed
qed

lemma PostExecution_tries_ten_times_witness:
  "\<exists>n s1. PostExecution quiet_env sample_omac = ScheduleNextEvent quiet_env s1 \<and> n \<le> unat MAX_SLEEP_RETRY_ATTEMPTS"
proof -
  have "m_num_sleep_retry_attempts sample_omac < MAX_SLEEP_RETRY_ATTEMPTS"
    by (simp add: sample_omac_def MAX_SLEEP_RETRY_ATTEMPTS_def)
  from PostExecution_tries_ten_times[OF this, of quiet_env] show ?thesis by (metis add_leD1)
qed

end
