(* ===== verification/Omac_Handlers.thy ===== *)
theory Omac_Handlers
  imports Omac_Scheduler
begin

text \<open>
  The state machines of the four OMAC handlers, from the execution of an event to its end
  (\<^verbatim>\<open>DataTransmissionHandler.cpp\<close>, \<^verbatim>\<open>DataReceptionHandler.cpp\<close>, \<^verbatim>\<open>DiscoveryHandler.cpp\<close> and
  \<^verbatim>\<open>OMACTimeSync.cpp\<close> of \<^verbatim>\<open>DeviceCode/pal/Samraksh/Wireless/MAC/OMAC\<close>), in the configuration of the
  code: without fast recovery and without carrier sense before a transmission.
\<close>

section \<open>Data transmission\<close>

definition DTH_Initialize :: "omac_env \<Rightarrow> omac \<Rightarrow> omac" where
  "DTH_Initialize E s =
     (let s = s\<lparr>dth_curTime_in_ticks := 0, isDataPacketScheduled := False, m_currentSlotRetryAttempt := 0,
                m_RANDOM_BACKOFF := False, m_backoff_mask := 137 * 29 * (MyAddress s + 1),
                m_backoff_seed := 119 * 119 * (MyAddress s + 1)\<rparr>
      in snd (VirtTimer_SetTimer E VIRT_TIMER_OMAC_TRANSMITTER (MAX_PACKET_TX_DURATION_MICRO (params s)) True s))"

text \<open>
  \<open>PostExecuteEvent\<close>: a frame that was not acknowledged makes the neighbor back off. The packet
  pointer is tested before the packet is read.
\<close>

definition DTH_PostExecuteEvent :: "omac_env \<Rightarrow> omac \<Rightarrow> omac option" where
  "DTH_PostExecuteEvent E s = do {
     s \<leftarrow> (if txhandler_state s = DTS_WAITING_FOR_ACKS \<and> m_outgoingEntryPtr s \<noteq> None
              \<and> m_outgoingEntryPtr_dest s \<noteq> 0
           then do {
             let s = SelectRetrySlotNumForNeighborBackOff s;
             r \<leftarrow> deref (m_outgoingEntryPtr s);
             if msg_type (get_msg r s) \<noteq> payload_code MFM_OMAC_TIMESYNCREQ
             then SendACKToUpperLayers E (Some r) NetworkOperations_SendNACKed 0 s else Some s
           }
           else Some s);
     PostExecution E (s\<lparr>txhandler_state := DTS_POSTEXECUTION\<rparr>)
   }"

text \<open>Change and start of the transmitter's timer, with the bookkeeping for an early firing.\<close>

definition change_start_transmitter :: "omac_env \<Rightarrow> u32 \<Rightarrow> omac \<Rightarrow> bool \<times> omac" where
  "change_start_transmitter E period s =
     (let (_, s) = VirtTimer_Change E VIRT_TIMER_OMAC_TRANSMITTER period s;
          (t, s) = GetCurrentTimeinTicks E s;
          s = s\<lparr>dth_scheduledTimer_in_ticks := t + ConvertMicroSecstoTicks (ucast period)\<rparr>
      in VirtTimer_Start E VIRT_TIMER_OMAC_TRANSMITTER s)"

definition rearm_transmitter :: "omac_env \<Rightarrow> u32 \<Rightarrow> omac \<Rightarrow> bool \<times> omac" where
  "rearm_transmitter E period s =
     change_start_transmitter E period (snd (VirtTimer_Stop E VIRT_TIMER_OMAC_TRANSMITTER s))"

text \<open>The carrier senses of the random backoff; the first failure ends them.\<close>

fun backoff_senses :: "omac_env \<Rightarrow> nat \<Rightarrow> omac \<Rightarrow> bool \<times> omac" where
  "backoff_senses E 0 s = (True, s)"
| "backoff_senses E (Suc k) s =
     (let (ds, s) = call_status E (CRadioClearChannelAssesment (radioName s)) s in
      if ds \<noteq> DS_Success then (False, s) else backoff_senses E k s)"

definition ExecuteEventHelper :: "omac_env \<Rightarrow> omac \<Rightarrow> omac option" where
  "ExecuteEventHelper E s =
     (let (canISend, s) =
        (if m_RANDOM_BACKOFF s then
           (let (randVal, _) = RandWithMask (m_backoff_seed s) (m_backoff_mask s)
            in backoff_senses E (unat (randVal mod ucast RANDOM_BACKOFF_COUNT_MAX) + 1)
                 (s\<lparr>m_backoff_seed := randVal\<rparr>))
         else (True, s))
      in if canISend then do {
           (rv, s) \<leftarrow> DTH_Send E (s\<lparr>txhandler_state := DTS_CCA_CLEAR\<rparr>);
           s \<leftarrow> (if rv then
                   (let s = s\<lparr>txhandler_state := DTS_SEND_INITIATION_SUCCESS\<rparr> in
                    if env_ack_type E = NO_ACK then DropPacket E s else Some s)
                 else Some (s\<lparr>txhandler_state := DTS_SEND_INITIATION_FAIL\<rparr>));
           let (rm, s) = rearm_transmitter E (MAX_PACKET_TX_DURATION_MICRO (params s)) s;
           if \<not> rm then DTH_PostExecuteEvent E s else Some s
         }
         else do {
           let (p, s) = SelectPacketForDest (m_outgoingEntryPtr_dest s) (s\<lparr>txhandler_state := DTS_CCA_BUSY\<rparr>);
           let s = s\<lparr>m_outgoingEntryPtr := p\<rparr>;
           s \<leftarrow> (if p \<noteq> None \<and> isDataPacketScheduled s then
                   map_option (\<lambda>r. upd_metadata r (\<lambda>d. snd (SetRetryAttempts (RetryAttempts d + 1) d)) s) (deref p)
                 else Some s);
           let (rm, s) = rearm_transmitter E 0 s;
           if \<not> rm then DTH_PostExecuteEvent E s else Some s
         })"

definition DTH_ExecuteEvent :: "omac_env \<Rightarrow> omac \<Rightarrow> omac option" where
  "DTH_ExecuteEvent E s =
     (let s = s\<lparr>m_currentSlotRetryAttempt := 0, m_RANDOM_BACKOFF := False,
                txhandler_state := DTS_EXECUTE_START\<rparr>;
          (e, s) =
            (case GetNeighborPtr (m_outgoingEntryPtr_dest s) (g_NeighborTable s) of
               None \<Rightarrow> (DS_Fail, s\<lparr>txhandler_state := DTS_DEST_NOT_AVAILABLE\<rparr>)
             | Some i \<Rightarrow>
                 if random_back_off_slot (nth_neighbor (g_NeighborTable s) i) \<noteq> 0 then
                   (DS_Fail, (upd_entry i (\<lambda>n. n\<lparr>random_back_off_slot := random_back_off_slot n - 1\<rparr>) s)
                               \<lparr>txhandler_state := DTS_BACKOFF\<rparr>)
                 else
                   (let (e, s) = RC_StartRx E s in
                    (e, s\<lparr>txhandler_state := (if e = DS_Success then DTS_RADIO_START_SUCCESS
                                              else DTS_RADIO_START_FAILED)\<rparr>)))
      in if e = DS_Success then ExecuteEventHelper E s
         else (let (rm, s) = rearm_transmitter E 0 s in
               if \<not> rm then DTH_PostExecuteEvent E s else Some s))"

text \<open>\<open>SendRetry\<close>: the condition for a retry contains \<open>FAST_RECOVERY\<close>, which is 0.\<close>

definition SendRetry :: "omac_env \<Rightarrow> omac \<Rightarrow> omac option" where
  "SendRetry E s = DTH_PostExecuteEvent E (s\<lparr>m_currentSlotRetryAttempt := m_currentSlotRetryAttempt s + 1\<rparr>)"

text \<open>The timer: a firing before the scheduled time starts it again for the rest.\<close>

definition PublicDataTxCallback :: "omac_env \<Rightarrow> omac \<Rightarrow> omac option" where
  "PublicDataTxCallback E s =
     (let (t, s) = GetCurrentTimeinTicks E s; s = s\<lparr>dth_curTime_in_ticks := t\<rparr> in
      if dth_scheduledTimer_in_ticks s > dth_curTime_in_ticks s then
        (let (_, s) = VirtTimer_Stop E VIRT_TIMER_OMAC_TRANSMITTER s;
             rem_time_micros = ConvertTickstoMicroSecs (dth_scheduledTimer_in_ticks s - dth_curTime_in_ticks s);
             (_, s) = VirtTimer_Change E VIRT_TIMER_OMAC_TRANSMITTER (ucast rem_time_micros) s;
             (_, s) = VirtTimer_Start E VIRT_TIMER_OMAC_TRANSMITTER s
         in Some s)
      else DTH_PostExecuteEvent E s)"

text \<open>
  \<open>SendACKHandler\<close>: the radio has sent the frame and tells whether it was acknowledged. The
  packet pointer is dereferenced without a test.
\<close>

definition outgoing_is_data :: "omac \<Rightarrow> bool option" where
  "outgoing_is_data s =
     map_option (\<lambda>r. msg_type (get_msg r s) \<noteq> payload_code MFM_OMAC_TIMESYNCREQ) (deref (m_outgoingEntryPtr s))"

definition ack_if_data :: "omac_env \<Rightarrow> msg_ref \<Rightarrow> NetOpStatus \<Rightarrow> u8 \<Rightarrow> omac \<Rightarrow> omac option" where
  "ack_if_data E rcv_msg status radioAckStatus s = do {
     d \<leftarrow> outgoing_is_data s;
     if d then SendACKToUpperLayers E (Some rcv_msg) status radioAckStatus s else Some s
   }"

definition DTH_SendACKHandler :: "omac_env \<Rightarrow> msg_ref \<Rightarrow> u8 \<Rightarrow> omac \<Rightarrow> omac option" where
  "DTH_SendACKHandler E rcv_msg radioAckStatus s =
     (let s = s\<lparr>txhandler_state := DTS_SEND_FINISHED\<rparr>; dst = m_outgoingEntryPtr_dest s; myID = MyAddress s in
      case env_ack_type E of
        HARDWARE_ACK \<Rightarrow>
          if radioAckStatus = trac_code TRAC_STATUS_SUCCESS
             \<or> radioAckStatus = trac_code TRAC_STATUS_SUCCESS_DATA_PENDING
          then do {
            s \<leftarrow> ack_if_data E rcv_msg NetworkOperations_SendACKed radioAckStatus s;
            s \<leftarrow> DropPacket E s;
            let s = s\<lparr>m_currentSlotRetryAttempt := 0\<rparr>;
            s \<leftarrow> (if dst \<noteq> myID then
                    (let (t, s) = GetCurrentTimeinTicks E s in
                     map_option snd (on_table (RecordLastHeardTime dst t) s))
                  else Some s);
            let (rm, s) = rearm_transmitter E 0 (s\<lparr>txhandler_state := DTS_RECEIVEDDATAACK\<rparr>);
            if \<not> rm then DTH_PostExecuteEvent E s else Some s
          }
          else if radioAckStatus = trac_code TRAC_STATUS_NO_ACK
                  \<or> radioAckStatus = trac_code TRAC_STATUS_FAIL_TO_SEND
          then do {
            s \<leftarrow> (if radioAckStatus = trac_code TRAC_STATUS_NO_ACK
                  then ack_if_data E rcv_msg NetworkOperations_SendNACKed radioAckStatus s else Some s);
            s \<leftarrow> ack_if_data E rcv_msg NetworkOperations_Busy radioAckStatus s;
            let (rm, s) = rearm_transmitter E 0 (s\<lparr>txhandler_state := DTS_WAITING_FOR_ACKS\<rparr>);
            if \<not> rm then DTH_PostExecuteEvent E s else Some s
          }
          else Some s
      | SOFTWARE_ACK \<Rightarrow> do {
          let (rm, s) = rearm_transmitter E (ACK_RX_MAX_DURATION_MICRO (params s)) s;
          s \<leftarrow> (if rm then Some (s\<lparr>txhandler_state := DTS_WAITING_FOR_ACKS\<rparr>) else DTH_PostExecuteEvent E s);
          ack_if_data E rcv_msg NetworkOperations_SendInitiated radioAckStatus s
        }
      | NO_ACK \<Rightarrow>
          (let (rm, s) = change_start_transmitter E 0 s in
           if \<not> rm then DTH_PostExecuteEvent E s else Some s))"

definition ReceiveDATAACK :: "omac_env \<Rightarrow> u16 \<Rightarrow> omac \<Rightarrow> omac option" where
  "ReceiveDATAACK E sourceaddress s =
     (if env_ack_type E = SOFTWARE_ACK \<and> m_execution_started s \<and> sourceaddress = m_outgoingEntryPtr_dest s then
        (if txhandler_state s \<noteq> DTS_WAITING_FOR_ACKS then Some s
         else do {
           let s = s\<lparr>txhandler_state := DTS_RECEIVEDDATAACK\<rparr>;
           s \<leftarrow> (if m_outgoingEntryPtr s \<noteq> None then do {
                    r \<leftarrow> deref (m_outgoingEntryPtr s);
                    ack_if_data E r NetworkOperations_SendACKed (trac_code TRAC_STATUS_SUCCESS) s
                  } else Some s);
           let (t, s) = GetCurrentTimeinTicks E s;
           (_, s) \<leftarrow> on_table (RecordLastHeardTime sourceaddress t) s;
           s \<leftarrow> DropPacket E s;
           let (rm, s) = VirtTimer_Stop E VIRT_TIMER_OMAC_TRANSMITTER s;
           if rm then
             (let (rm, s) = change_start_transmitter E 0 s in
              if \<not> rm then DTH_PostExecuteEvent E s else Some s)
           else Some s
         })
      else Some s)"

definition DTH_FailsafeStop :: "omac_env \<Rightarrow> omac \<Rightarrow> omac" where
  "DTH_FailsafeStop E s = snd (VirtTimer_Stop E VIRT_TIMER_OMAC_TRANSMITTER s)"

section \<open>Time synchronization\<close>

definition TS_PostExecuteEvent :: "omac_env \<Rightarrow> omac \<Rightarrow> omac option" where
  "TS_PostExecuteEvent E s = PostExecution E s"

definition TS_ExecuteEvent :: "omac_env \<Rightarrow> omac \<Rightarrow> omac option" where
  "TS_ExecuteEvent E s =
     (let (rm, s) = VirtTimer_Start E VIRT_TIMER_OMAC_TIMESYNC s in
      if \<not> rm then TS_PostExecuteEvent E s else Some s)"

definition TS_FailsafeStop :: "omac_env \<Rightarrow> omac \<Rightarrow> omac" where
  "TS_FailsafeStop E s = snd (VirtTimer_Stop E VIRT_TIMER_OMAC_TIMESYNC s)"

section \<open>The contract\<close>

lemma rearm_transmitter_running:
  "rearm_transmitter E p s = (True, s') \<Longrightarrow> running E VIRT_TIMER_OMAC_TRANSMITTER (history s')"
  by (auto simp: rearm_transmitter_def change_start_transmitter_def split: prod.split_asm dest: start_running)

lemma DTH_Post_running:
  "DTH_PostExecuteEvent E s = Some s' \<Longrightarrow> running E VIRT_TIMER_OMAC_SCHEDULER (history s')"
  by (auto simp: DTH_PostExecuteEvent_def bind_eq_Some_conv dest: PostExecution_running)

interpretation dth: event_handler E VIRT_TIMER_OMAC_TRANSMITTER "DTH_ExecuteEvent E" "DTH_PostExecuteEvent E"
  for E :: omac_env
proof (unfold_locales, goal_cases)
  case (1 s s')
  have h: "ExecuteEventHelper E x = Some s' \<Longrightarrow> ?case" for x
    by (auto simp: ExecuteEventHelper_def Let_def split: prod.split_asm if_split_asm Option.bind_split_asm
        dest: rearm_transmitter_running DTH_Post_running)
  from 1 show ?case
    by (auto simp: DTH_ExecuteEvent_def Let_def split: prod.split_asm if_split_asm
        dest: rearm_transmitter_running DTH_Post_running h)
next
  case (2 s s')
  then show ?case by (auto dest: DTH_Post_running)
qed

interpretation ts: event_handler E VIRT_TIMER_OMAC_TIMESYNC "TS_ExecuteEvent E" "TS_PostExecuteEvent E"
  for E :: omac_env
  by unfold_locales
    (auto simp: TS_ExecuteEvent_def TS_PostExecuteEvent_def split: prod.split_asm if_split_asm
      dest: start_running PostExecution_running)

end
