(* ===== verification/Omac_Discovery.thy ===== *)
theory Omac_Discovery
  imports Omac_Handlers
begin

text \<open>
  The data reception handler and the discovery handler of OMAC
  (\<^verbatim>\<open>DataReceptionHandler.cpp\<close> and \<^verbatim>\<open>DiscoveryHandler.cpp\<close> of
  \<^verbatim>\<open>DeviceCode/pal/Samraksh/Wireless/MAC/OMAC\<close>): the state machines of a reception slot with its
  acknowledgement, and of a beacon.
\<close>

section \<open>Data reception\<close>

definition DRH_Initialize :: "omac_env \<Rightarrow> omac \<Rightarrow> omac option" where
  "DRH_Initialize E s =
     (let (slot, s) = GetSlotNumber E s in do {
        d \<leftarrow> Initialize_schedule (MyAddress s) slot;
        let s = s\<lparr>own_schedule := d\<rparr>;
        let (_, s) = VirtTimer_SetTimer E VIRT_TIMER_OMAC_RECEIVER (LISTEN_PERIOD_FOR_RECEPTION_HANDLER (params s)) True s;
        let s = (if env_ack_type E = SOFTWARE_ACK
                 then snd (VirtTimer_SetTimer E VIRT_TIMER_OMAC_RECEIVER_ACK 0 True s) else s);
        Some (s\<lparr>m_receptionstate := DRS_TX_POST_EXECUTE\<rparr>)
      })"

text \<open>Both branches on the result of stopping the radio end in \<open>PostExecution\<close>.\<close>

definition DRH_PostExecuteEvent :: "omac_env \<Rightarrow> omac \<Rightarrow> omac option" where
  "DRH_PostExecuteEvent E s =
     PostExecution E (snd (RC_Stop E (s\<lparr>m_receptionstate := DRS_TX_POST_EXECUTE\<rparr>)))"

text \<open>Stop, change and start of the receiver's timer; the flag is set again by the caller.\<close>

definition restart_receiver :: "omac_env \<Rightarrow> u32 \<Rightarrow> omac \<Rightarrow> bool \<times> omac" where
  "restart_receiver E period s =
     (let (_, s) = VirtTimer_Stop E VIRT_TIMER_OMAC_RECEIVER s;
          s = s\<lparr>is_VIRT_TIMER_OMAC_RECEIVER_in_use := False\<rparr>;
          (_, s) = VirtTimer_Change E VIRT_TIMER_OMAC_RECEIVER period s
      in VirtTimer_Start E VIRT_TIMER_OMAC_RECEIVER s)"

abbreviation receiver_in_use :: "omac \<Rightarrow> omac" where
  "receiver_in_use s \<equiv> s\<lparr>is_VIRT_TIMER_OMAC_RECEIVER_in_use := True\<rparr>"

definition DRH_ExecuteEvent :: "omac_env \<Rightarrow> omac \<Rightarrow> omac option" where
  "DRH_ExecuteEvent E s =
     (let (e, s) = RC_StartRx E (s\<lparr>m_receptionstate := DRS_EXECUTE_START\<rparr>);
          (rm, s) =
            (if e = DS_Success then restart_receiver E (LISTEN_PERIOD_FOR_RECEPTION_HANDLER (params s)) s
             else restart_receiver E 100 (s\<lparr>m_receptionstate := DRS_RADIO_START_FAIl\<rparr>))
      in map_option receiver_in_use (if \<not> rm then DRH_PostExecuteEvent E s else Some s))"

text \<open>The interrupt at the start of a frame gives it the time to be received.\<close>

definition DRH_HandleRadioInterrupt :: "omac_env \<Rightarrow> omac \<Rightarrow> omac" where
  "DRH_HandleRadioInterrupt E s =
     (if m_receptionstate s \<noteq> DRS_EXECUTE_START then s
      else receiver_in_use (snd (restart_receiver E (MAX_PACKET_RX_DURATION_MICRO (params s))
             (s\<lparr>m_receptionstate := DRS_RX_START\<rparr>))))"

definition DRH_SendACKHandler :: "omac_env \<Rightarrow> omac \<Rightarrow> omac" where
  "DRH_SendACKHandler E s =
     (if env_ack_type E = SOFTWARE_ACK \<and> m_receptionstate s = DRS_TX_START
      then receiver_in_use (snd (restart_receiver E 0 (s\<lparr>m_receptionstate := DRS_TX_END\<rparr>))) else s)"

text \<open>
  \<open>SendDataACK\<close>: the acknowledgement is a static object; source and type are written once, by
  the first call.
\<close>

definition SendDataACK :: "omac_env \<Rightarrow> omac \<Rightarrow> omac option" where
  "SendDataACK E s =
     (if m_receptionstate s \<noteq> DRS_RX_END then Some s
      else
        (let s = s\<lparr>m_receptionstate := DRS_TX_START\<rparr>;
             s = (if \<not> ack_header_set s
                  then s\<lparr>softwareAckHeader := (softwareAckHeader s)
                           \<lparr>ack_src := MyAddress s, ack_payloadType := payload_code MFM_OMAC_DATA_ACK\<rparr>,
                         ack_header_set := True\<rparr>
                  else s);
             s = s\<lparr>softwareAckHeader := (softwareAckHeader s)\<lparr>ack_dest := m_lastRXNodeId s\<rparr>\<rparr>
         in do {
           (rs, s) \<leftarrow> RC_Send E (m_lastRXNodeId s) RefAck (of_nat sizeof_softwareACKHeader) s;
           let (_, s) = (if rs \<noteq> DS_Success then restart_receiver E 0 (s\<lparr>m_receptionstate := DRS_TX_FAIL\<rparr>)
                         else restart_receiver E (ACK_TX_MAX_DURATION_MICRO (params s))
                                (s\<lparr>m_receptionstate := DRS_TX_START\<rparr>));
           Some (receiver_in_use s)
         }))"

definition HandleEndofReception :: "omac_env \<Rightarrow> u16 \<Rightarrow> omac \<Rightarrow> omac option" where
  "HandleEndofReception E address s =
     (case env_ack_type E of
        SOFTWARE_ACK \<Rightarrow>
          if m_receptionstate s \<noteq> DRS_RX_START \<and> m_receptionstate s \<noteq> DRS_EXECUTE_START then Some s
          else
            (let (_, s) = VirtTimer_Stop E VIRT_TIMER_OMAC_RECEIVER
                            (s\<lparr>m_receptionstate := DRS_RX_END, m_lastRXNodeId := address\<rparr>);
                 (rm, s) = VirtTimer_Start E VIRT_TIMER_OMAC_RECEIVER_ACK
                            (s\<lparr>is_VIRT_TIMER_OMAC_RECEIVER_in_use := False\<rparr>)
             in if \<not> rm then SendDataACK E s else Some s)
      | HARDWARE_ACK \<Rightarrow>
          (let (rm, s) = restart_receiver E 0 (s\<lparr>m_receptionstate := DRS_RX_END, m_lastRXNodeId := address\<rparr>)
           in map_option receiver_in_use (if \<not> rm then SendDataACK E s else Some s))
      | NO_ACK \<Rightarrow> Some (receiver_in_use (snd (restart_receiver E 0 (s\<lparr>m_receptionstate := DRS_RX_END\<rparr>)))))"

definition PublicDataRxCallback :: "omac_env \<Rightarrow> omac \<Rightarrow> omac option" where
  "PublicDataRxCallback E s =
     (if env_ack_type E = SOFTWARE_ACK \<and> m_receptionstate s = DRS_RX_END then SendDataACK E s
      else DRH_PostExecuteEvent E s)"

definition PublicDataRxSendAckCallback :: "omac_env \<Rightarrow> omac \<Rightarrow> omac option" where
  "PublicDataRxSendAckCallback E s = SendDataACK E s"

definition DRH_FailsafeStop :: "omac_env \<Rightarrow> omac \<Rightarrow> omac" where
  "DRH_FailsafeStop E s =
     (snd (VirtTimer_Stop E VIRT_TIMER_OMAC_RECEIVER s))
       \<lparr>is_VIRT_TIMER_OMAC_RECEIVER_in_use := False, m_receptionstate := DRS_TX_POST_EXECUTE\<rparr>"

section \<open>Discovery\<close>

definition RADIO_STOP_RETRY_PERIOD_IN_MICS :: u32 where
  "RADIO_STOP_RETRY_PERIOD_IN_MICS = ucast OMAC_SCHEDULER_MIN_REACTION_TIME_IN_MICRO"

definition Disco_Initialize :: "omac_env \<Rightarrow> omac \<Rightarrow> omac" where
  "Disco_Initialize E s =
     (let s = PermanentlyDecreaseDiscoRate (s\<lparr>disco_state := DISCO_INITIAL, disco_sleep_retry_attempts := 0,
                firstHighRateDiscoTimeinSlotNum := 0\<rparr>)
      in snd (VirtTimer_SetTimer E VIRT_TIMER_OMAC_DISCOVERY (DISCO_SLOT_PERIOD_MICRO (params s)) True s))"

definition change_start_discovery :: "omac_env \<Rightarrow> u32 \<Rightarrow> omac \<Rightarrow> bool \<times> omac" where
  "change_start_discovery E period s =
     VirtTimer_Start E VIRT_TIMER_OMAC_DISCOVERY (snd (VirtTimer_Change E VIRT_TIMER_OMAC_DISCOVERY period s))"

text \<open>The function calls itself when the timer cannot be started.\<close>

partial_function (option) Disco_PostExecuteEvent :: "omac_env \<Rightarrow> omac \<Rightarrow> omac option" where
  "Disco_PostExecuteEvent E s =
     (let (ds, s) = RC_Stop E (s\<lparr>disco_state := WAITING_FOR_SLEEP\<rparr>) in
      if ds = DS_Success then PostExecution E (s\<lparr>disco_state := SLEEP_SUCCESSFUL\<rparr>)
      else if disco_sleep_retry_attempts s < MAX_SLEEP_RETRY_ATTEMPTS then
        (let (rm, s) = change_start_discovery E RADIO_STOP_RETRY_PERIOD_IN_MICS
               (s\<lparr>disco_sleep_retry_attempts := disco_sleep_retry_attempts s + 1\<rparr>)
         in if \<not> rm then Disco_PostExecuteEvent E s else Some s)
      else PostExecution E s)"

definition arm_discovery :: "omac_env \<Rightarrow> u32 \<Rightarrow> omac \<Rightarrow> omac option" where
  "arm_discovery E period s =
     (let (rm, s) = change_start_discovery E period s
      in if \<not> rm then Disco_PostExecuteEvent E s else Some s)"

definition Disco_ExecuteEvent :: "omac_env \<Rightarrow> omac \<Rightarrow> omac option" where
  "Disco_ExecuteEvent E s =
     (let (e, s) = RC_StartRx E (s\<lparr>beacon_received := False, disco_sleep_retry_attempts := 0,
                                   disco_state := DISCO_INITIAL\<rparr>)
      in arm_discovery E 1 (s\<lparr>disco_state := (if e = DS_Success then DISCO_LISTEN_SUCCESS else DISCO_LISTEN_FAIL)\<rparr>))"

definition Disco_FailsafeStop :: "omac_env \<Rightarrow> omac \<Rightarrow> bool \<times> omac" where
  "Disco_FailsafeStop E s = VirtTimer_Stop E VIRT_TIMER_OMAC_DISCOVERY (s\<lparr>disco_state := FAILSAFE_STOPPING\<rparr>)"

definition ShouldBeacon :: bool where "ShouldBeacon = True"

definition Disco_Send :: "omac_env \<Rightarrow> u16 \<Rightarrow> msg_ref \<Rightarrow> u16 \<Rightarrow> u64 \<Rightarrow> omac \<Rightarrow> (DeviceStatus \<times> omac) option" where
  "Disco_Send E address r sz event_time s =
     (let s = upd_header r (\<lambda>h. h\<lparr>fcf := FCF_WORD_VALUE, dsn := env_disco_seq_number E, destpan := DEST_PAN_ID,
                dest := address, src := MyAddress s, hdr_length := ucast (sz + of_nat sizeof_header),
                hdr_macName := mac_name s, payloadType := payload_code MFM_OMAC_DISCOVERY, flags := 0\<rparr>) s;
          s = upd_metadata r (SetReceiveTimeStamp_INT64 event_time)
                (s\<lparr>disco_seqNumber := disco_seqNumber s + 1\<rparr>)
      in if beacon_received s then Some (DS_Fail, s)
         else RC_Send E address r (ucast (hdr_length (header (get_msg r s)))) s)"

text \<open>The carrier is sensed once: the loop is left after its first round.\<close>

definition Beacon :: "omac_env \<Rightarrow> u16 \<Rightarrow> msg_ref \<Rightarrow> omac \<Rightarrow> (DeviceStatus \<times> omac) option" where
  "Beacon E dst r s = do {
     s \<leftarrow> poke_msg r 0 (disco_bytes (own_schedule s)) s;
     let (_, s) = GetCurrentTimeinTicks E s;
     let (DS, s) = call_status E (CRadioClearChannelAssesment (radioName s)) s;
     if DS = DS_Success then Disco_Send E dst r (of_nat sizeof_DiscoveryMsg) 0 s
     else Some (DS, s)
   }"

text \<open>The two beacons differ in the states they go through.\<close>

definition send_beacon :: "omac_env \<Rightarrow> DiscoState \<Rightarrow> DiscoState \<Rightarrow> omac \<Rightarrow> omac option" where
  "send_beacon E started skipped s = do {
     (ds, s) \<leftarrow> (if ShouldBeacon
                 then Beacon E RADIO_BROADCAST_ADDRESS RefDisco (s\<lparr>disco_state := started\<rparr>)
                 else Some (DS_Fail, s));
     if ds = DS_Success then arm_discovery E (MAX_PACKET_TX_DURATION_MICRO (params s)) s
     else arm_discovery E (DISCO_PACKET_TX_TIME_MICRO (params s)) (s\<lparr>disco_state := skipped\<rparr>)
   }"

definition Beacon1 :: "omac_env \<Rightarrow> omac \<Rightarrow> omac option" where
  "Beacon1 E = send_beacon E BEACON1_SEND_START BEACON1_SKIPPED"

definition BeaconN :: "omac_env \<Rightarrow> omac \<Rightarrow> omac option" where
  "BeaconN E = send_beacon E BEACON2_SEND_START BEACON2_SKIPPED"

definition BeaconAckHandler :: "omac_env \<Rightarrow> omac \<Rightarrow> omac option" where
  "BeaconAckHandler E s =
     (case disco_state s of
        BEACON1_SEND_START \<Rightarrow>
          arm_discovery E 1 (snd (VirtTimer_Stop E VIRT_TIMER_OMAC_DISCOVERY (s\<lparr>disco_state := BEACON1_SEND_DONE\<rparr>)))
      | BEACON2_SEND_START \<Rightarrow>
          Some (snd (change_start_discovery E 1
            (snd (VirtTimer_Stop E VIRT_TIMER_OMAC_DISCOVERY (s\<lparr>disco_state := BEACON2_SEND_DONE\<rparr>)))))
      | _ \<Rightarrow> Some s)"

text \<open>The timer: most cases fall through to the end of the event.\<close>

definition BeaconNTimerHandler :: "omac_env \<Rightarrow> omac \<Rightarrow> omac option" where
  "BeaconNTimerHandler E s =
     (case disco_state s of
        FAILSAFE_STOPPING \<Rightarrow> Some s
      | DISCO_LISTEN_SUCCESS \<Rightarrow> Beacon1 E s
      | BEACON1_SEND_START \<Rightarrow>
          if \<not> isSendDone s then
            (let (rm, s) = change_start_discovery E (MAX_PACKET_TX_DURATION_MICRO (params s)) s
             in if rm then Some s else Disco_PostExecuteEvent E s)
          else Disco_PostExecuteEvent E s
      | DISCO_INITIAL \<Rightarrow> Some s
      | SLEEP_SUCCESSFUL \<Rightarrow> Some s
      | _ \<Rightarrow> Disco_PostExecuteEvent E s)"

text \<open>A discovery message at a place of a payload.\<close>

definition disco_at :: "nat \<Rightarrow> message \<Rightarrow> common_parameters_two option" where
  "disco_at i m = map_option (\<lambda>bs.
     \<lparr>p2_nextSeed = bytes_word (take 2 bs), p2_mask = bytes_word (take 2 (drop 2 bs)),
      p2_nextwakeupSlot = push_bit 32 (ucast (bytes_word (take 4 (drop 8 bs)) :: u32))
        + ucast (bytes_word (take 4 (drop 4 bs)) :: u32),
      p2_seedUpdateIntervalinSlots = bytes_word (take 4 (drop 12 bs))\<rparr>)
     (peek_bytes i sizeof_DiscoveryMsg m)"

definition Disco_Receive :: "omac_env \<Rightarrow> u16 \<Rightarrow> common_parameters_two \<Rightarrow> u8 \<Rightarrow> u8 \<Rightarrow> omac \<Rightarrow> (DeviceStatus \<times> omac) option" where
  "Disco_Receive E source p2 rssi lqi s =
     (let (localTime, s) = GetCurrentTimeinTicks E (s\<lparr>beacon_received := True\<rparr>);
          d = NeighborTableCommonParameters_One_t;
          p1 = d\<lparr>p1_MACAddress := source, p1_status := Alive, p1_lastHeardTime := localTime,
                 p1_linkQualityMetrics := (p1_linkQualityMetrics d)\<lparr>AvgRSSI := rssi, LinkQuality := lqi\<rparr>\<rparr>
      in map_option (\<lambda>(_, s). (DS_Success, s)) (on_table (UpdateNeighbor_two p1 p2) s))"

section \<open>The contract\<close>

lemma restart_receiver_running:
  "restart_receiver E p s = (True, s') \<Longrightarrow> running E VIRT_TIMER_OMAC_RECEIVER (history s')"
  by (auto simp: restart_receiver_def split: prod.split_asm dest: start_running)

interpretation drh: event_handler E VIRT_TIMER_OMAC_RECEIVER "DRH_ExecuteEvent E" "DRH_PostExecuteEvent E"
  for E :: omac_env
  by unfold_locales
    (auto simp: DRH_ExecuteEvent_def DRH_PostExecuteEvent_def Let_def split: prod.split_asm if_split_asm
      dest: restart_receiver_running PostExecution_running)

lemma change_start_discovery_running:
  "change_start_discovery E p s = (True, s') \<Longrightarrow> running E VIRT_TIMER_OMAC_DISCOVERY (history s')"
  by (auto simp: change_start_discovery_def dest: start_running)

lemma Disco_Post_running:
  "Disco_PostExecuteEvent E s = Some s' \<Longrightarrow>
     running E VIRT_TIMER_OMAC_DISCOVERY (history s') \<or> running E VIRT_TIMER_OMAC_SCHEDULER (history s')"
proof (induction rule: Disco_PostExecuteEvent.raw_induct[rotated, consumes 1, case_names step])
  case (step f E s s')
  from step(2) show ?case
    by (auto simp: Let_def split: prod.split_asm if_split_asm
        dest: step(1) change_start_discovery_running PostExecution_running)
qed

lemma arm_discovery_running:
  "arm_discovery E p s = Some s' \<Longrightarrow>
     running E VIRT_TIMER_OMAC_DISCOVERY (history s') \<or> running E VIRT_TIMER_OMAC_SCHEDULER (history s')"
  by (auto simp: arm_discovery_def split: prod.split_asm if_split_asm
      dest: change_start_discovery_running Disco_Post_running)

interpretation disco: event_handler E VIRT_TIMER_OMAC_DISCOVERY "Disco_ExecuteEvent E" "Disco_PostExecuteEvent E"
  for E :: omac_env
  by unfold_locales
    (auto simp: Disco_ExecuteEvent_def split: prod.split_asm dest: arm_discovery_running Disco_Post_running)

section \<open>What a frame carries\<close>

text \<open>Bytes behind a place do not change what stands before it.\<close>

lemma poke_payload_prefix:
  "poke_payload i b m = Some m' \<Longrightarrow> n \<le> i \<Longrightarrow>
     take n (payload m') = take n (payload m) \<and> length (payload m') = length (payload m) \<and> header m' = header m"
  by (auto simp: poke_payload_def Let_def split: if_split_asm)

lemma poke_bytes_prefix:
  "poke_bytes i bs m = Some m' \<Longrightarrow> n \<le> i \<Longrightarrow>
     take n (payload m') = take n (payload m) \<and> length (payload m') = length (payload m) \<and> header m' = header m"
proof (induction i bs m rule: poke_bytes.induct)
  case (2 i b bs m)
  then obtain m1 where "poke_payload i b m = Some m1" "poke_bytes (Suc i) bs m1 = Some m'"
    by (auto simp: bind_eq_Some_conv)
  with 2(1) 2(3) poke_payload_prefix[of i b m m1 n] show ?case by auto
qed simp

definition same_beacon :: "omac \<Rightarrow> omac \<Rightarrow> bool" where
  "same_beacon s s' \<longleftrightarrow>
     (let m = m_discoveryMsgBuffer s; m' = m_discoveryMsgBuffer s' in
      (header m')\<lparr>flags := 0\<rparr> = (header m)\<lparr>flags := 0\<rparr> \<and> length (payload m') = length (payload m)
      \<and> take sizeof_DiscoveryMsg (payload m') = take sizeof_DiscoveryMsg (payload m))"


interpretation announced: piggyback_relation same_beacon RefDisco sizeof_DiscoveryMsg
proof (unfold_locales, goal_cases)
  case (3 i bs s s')
  then show ?case
    by (auto simp: same_beacon_def part_defs upd_RefDisco dest: poke_bytes_prefix)
qed (auto simp: same_beacon_def part_defs upd_RefDisco Let_def)

text \<open>A schedule as parameters of a neighbor, and back from the bytes.\<close>

definition announce :: "schedule \<Rightarrow> common_parameters_two" where
  "announce d = \<lparr>p2_nextSeed = m_nextSeed d, p2_mask = m_mask d, p2_nextwakeupSlot = m_nextwakeupSlot d,
     p2_seedUpdateIntervalinSlots = m_seedUpdateIntervalinSlots d\<rparr>"

lemma disco_at_disco_bytes:
  assumes "length (payload m) = 100" and "take sizeof_DiscoveryMsg (payload m) = disco_bytes d"
  shows "disco_at 0 m = Some (announce d)"
proof -
  have "peek_bytes 0 sizeof_DiscoveryMsg m = Some (disco_bytes d)"
    using peek_bytes_payload[of 0 sizeof_DiscoveryMsg m] assms by (simp add: sizeof_DiscoveryMsg_def)
  then show ?thesis
    by (simp add: disco_at_def announce_def disco_bytes_def bytes_word_word_bytes split_join_u64)
qed

text \<open>The frame a call hands to the radio.\<close>

fun sent_frame :: "omac_call \<Rightarrow> frame option" where
  "sent_frame (CRadioSend _ f _) = Some f"
| "sent_frame (CRadioSendTimeStamped _ f _ _) = Some f"
| "sent_frame _ = None"

lemma begin_send_success:
  "begin_send E c s = (DS_Success, s') \<Longrightarrow> history s' = c # history s"
  by (auto simp: begin_send_def radio_send_def Let_def split: if_split_asm)

lemma RC_Send_hands_over:
  assumes "RC_Send E address r sz s = Some (DS_Success, s')" "sizeof_softwareACKHeader \<noteq> unat sz"
  obtains b sz1 s1 s2 c cs where "PiggybackMessages E r sz s = Some (b, sz1, s1)"
    "history s' = c # cs" "sent_frame c = Some (snapshot r s2)"
    "s2 = (upd_header r (\<lambda>h. h\<lparr>hdr_length := ucast sz1\<rparr>) s1)\<lparr>history := history s2\<rparr>"
proof -
  from assms obtain b sz1 s1 where 1: "PiggybackMessages E r sz s = Some (b, sz1, s1)"
    by (auto simp: RC_Send_def bind_eq_Some_conv)
  define s2 where "s2 = upd_header r (\<lambda>h. h\<lparr>hdr_length := ucast sz1\<rparr>) s1"
  show ?thesis
  proof (cases "has_flag TIMESTAMPED_FLAG (get_msg r s2)")
    case True
    define s4 where "s4 = s2\<lparr>history := CHalTicks # CGetTicks # history s2\<rparr>"
    obtain t where "begin_send E (CRadioSendTimeStamped (radioName s4) (snapshot r s4) sz1 t) s4 = (DS_Success, s')"
      using assms 1 True
      by (auto simp: RC_Send_def GetCurrentTimeinTicks_def HAL_Time_CurrentTicks_def s4_def Let_def simp flip: s2_def)
    from that[OF 1 begin_send_success[OF this], of s4] show ?thesis by (simp add: s4_def flip: s2_def)
  next
    case False
    then have "begin_send E (CRadioSend (radioName s2) (snapshot r s2) sz1) s2 = (DS_Success, s')"
      using assms 1 by (simp add: RC_Send_def Let_def flip: s2_def)
    from that[OF 1 begin_send_success[OF this], of s2] show ?thesis by (simp flip: s2_def)
  qed
qed

text \<open>
  A beacon that the radio takes carries the schedule of its sender, from its address, in the
  first bytes of the payload, whatever is piggybacked behind it.
\<close>

lemma beacon_announces_schedule:
  assumes "Beacon E dst RefDisco s = Some (DS_Success, s')"
    and "length (payload (m_discoveryMsgBuffer s)) = 100" and "env_enum_size E \<le> 4"
  shows "\<exists>m. sent_frame (hd (history s')) = Some (FrMessage m)
    \<and> disco_at 0 m = Some (announce (own_schedule s)) \<and> msg_type m = payload_code MFM_OMAC_DISCOVERY
    \<and> src (header m) = MyAddress s \<and> dest (header m) = dst \<and> fcf (header m) = FCF_WORD_VALUE"
proof -
  let ?d = "disco_bytes (own_schedule s)" and ?m = "m_discoveryMsgBuffer s"
  have len: "length ?d = 16" by (simp add: disco_bytes_def)
  define m1 where "m1 = ?m\<lparr>payload := ?d @ drop 16 (payload ?m)\<rparr>"
  have p: "poke_msg RefDisco 0 ?d s = Some (s\<lparr>m_discoveryMsgBuffer := m1\<rparr>)"
    using assms(2) by (simp add: poke_msg_def upd_RefDisco poke_bytes_payload len m1_def)
  define s1 where "s1 = s\<lparr>m_discoveryMsgBuffer := m1,
      history := CRadioClearChannelAssesment (radioName s) # CGetTicks # history s\<rparr>"
  define m2 where "m2 = m1\<lparr>header := (header m1)\<lparr>fcf := FCF_WORD_VALUE, dsn := env_disco_seq_number E,
      destpan := DEST_PAN_ID, dest := dst, src := MyAddress s, hdr_length := 29, hdr_macName := mac_name s,
      payloadType := payload_code MFM_OMAC_DISCOVERY, flags := 0\<rparr>,
      metadata := SetReceiveTimeStamp_INT64 0 (metadata m1)\<rparr>"
  define s2 where "s2 = s1\<lparr>disco_seqNumber := disco_seqNumber s + 1, m_discoveryMsgBuffer := m2\<rparr>"
  have "Disco_Send E dst RefDisco (of_nat sizeof_DiscoveryMsg) 0 s1 = Some (DS_Success, s')"
    using assms(1) p by (simp add: Beacon_def s1_def call_status_def GetCurrentTimeinTicks_def Let_def split: if_split_asm)
  then have "RC_Send E dst RefDisco 29 s2 = Some (DS_Success, s')"
    by (simp add: Disco_Send_def s2_def s1_def m2_def part_defs upd_RefDisco Let_def sizeof_DiscoveryMsg_def
        sizeof_header_def split: if_split_asm)
  then obtain b sz1 s3 s4 c cs where 3: "PiggybackMessages E RefDisco 29 s2 = Some (b, sz1, s3)"
    and c: "history s' = c # cs" "sent_frame c = Some (snapshot RefDisco s4)"
    and s4: "s4 = (upd_header RefDisco (\<lambda>h. h\<lparr>hdr_length := ucast sz1\<rparr>) s3)\<lparr>history := history s4\<rparr>"
    by (rule RC_Send_hands_over) (simp add: sizeof_softwareACKHeader_def)
  define m where "m = m_discoveryMsgBuffer s4"
  have "same_beacon s2 s3"
    using announced.PiggybackMessages_R[OF 3 _ assms(3)]
    by (simp add: has_room_def sizeof_DiscoveryMsg_def sizeof_header_def)
  moreover have m: "m = (m_discoveryMsgBuffer s3)\<lparr>header := (header (m_discoveryMsgBuffer s3))\<lparr>hdr_length := ucast sz1\<rparr>\<rparr>"
    unfolding m_def by (subst s4) (simp add: part_defs upd_RefDisco)
  ultimately have h: "(header m)\<lparr>flags := 0, hdr_length := 0\<rparr> = (header m2)\<lparr>flags := 0, hdr_length := 0\<rparr>"
    and pay: "length (payload m) = 100" "take sizeof_DiscoveryMsg (payload m) = ?d"
    using assms(2) len
    by (simp_all add: same_beacon_def Let_def s2_def m2_def m1_def sizeof_DiscoveryMsg_def)
  have "fcf (header m) = fcf (header m2) \<and> src (header m) = src (header m2) \<and> dest (header m) = dest (header m2)
      \<and> payloadType (header m) = payloadType (header m2)"
    using arg_cong[OF h, of fcf] arg_cong[OF h, of src] arg_cong[OF h, of dest] arg_cong[OF h, of payloadType] by simp
  then show ?thesis
    using c disco_at_disco_bytes[OF pay]
    by (intro exI[of _ m]) (simp add: m2_def m_def snapshot_def upd_RefDisco)
qed

end
