(* ===== verification/Omac_Mac.thy ===== *)
theory Omac_Mac
  imports Omac_Discovery
begin

text \<open>
  The entry points of OMAC: the scheduler's timers and its start and stop
  (\<^verbatim>\<open>Scheduler.cpp\<close>), and the handlers the radio calls, with the start and stop of the MAC
  (\<^verbatim>\<open>OMAC.cpp\<close> of \<^verbatim>\<open>DeviceCode/pal/Samraksh/Wireless/MAC/OMAC\<close>). Shown here: which packets the
  receive handler refuses, that an uninitialised MAC does not react, and that a schedule sent
  by one node arrives in the neighbor table of another.
\<close>

section \<open>Scheduler\<close>

definition set_failsafe_time :: "omac_env \<Rightarrow> omac \<Rightarrow> omac" where
  "set_failsafe_time E s =
     (let (t, s) = GetCurrentTimeinTicks E s
      in s\<lparr>m_scheduledFailSafeTimer_in_ticks := t + ConvertMicroSecstoTicks FAILSAFETIME_MICRO\<rparr>)"

definition Scheduler_Initialize :: "omac_env \<Rightarrow> omac \<Rightarrow> omac option" where
  "Scheduler_Initialize E s =
     (let s = call CTimerInitialize (s\<lparr>m_num_FailsafeStop := 0, sched_state := I_IDLE,
                m_execution_started := False, m_num_sleep_retry_attempts := 0\<rparr>);
          (_, s) = VirtTimer_SetTimer E VIRT_TIMER_OMAC_SCHEDULER (16 * 1000) True s;
          (_, s) = VirtTimer_SetTimer E VIRT_TIMER_OMAC_SCHEDULER_FAILSAFE (ucast FAILSAFETIME_MICRO) False s;
          (_, s) = VirtTimer_SetTimer E VIRT_TIMER_OMAC_SCHEDULER_RADIO_STOP_RETRY
                     RADIO_STOP_RETRY_PERIOD_IN_MICS True s
      in do {
        s \<leftarrow> DRH_Initialize E (Disco_Initialize E s);
        s \<leftarrow> ScheduleNextEvent E (TS_Initialize E (DTH_Initialize E s));
        let s = set_failsafe_time E (s\<lparr>m_num_FailsafeTimerFiring := 0\<rparr>);
        Some (snd (VirtTimer_Start E VIRT_TIMER_OMAC_SCHEDULER_FAILSAFE s))
      })"

definition Scheduler_UnInitialize :: "omac_env \<Rightarrow> omac \<Rightarrow> omac" where
  "Scheduler_UnInitialize E s =
     (let s = snd (Disco_FailsafeStop E (DRH_FailsafeStop E (DTH_FailsafeStop E (TS_FailsafeStop E s))));
          (_, s) = VirtTimer_Stop E VIRT_TIMER_OMAC_SCHEDULER s
      in snd (VirtTimer_Stop E VIRT_TIMER_OMAC_SCHEDULER_FAILSAFE s))"

definition RunEventTask :: "omac_env \<Rightarrow> omac \<Rightarrow> omac option" where
  "RunEventTask E s =
     (let s = s\<lparr>SchedulerINUse := False\<rparr>;
          s = (if sched_state s \<noteq> I_RADIO_STOP_RETRY then s\<lparr>m_num_sleep_retry_attempts := 0\<rparr> else s);
          s = set_failsafe_time E s;
          (_, s) = GetCurrentTimeinTicks E s;
          s = s\<lparr>m_execution_started := True\<rparr>
      in case sched_state s of
           I_DATA_SEND_PENDING \<Rightarrow> DTH_ExecuteEvent E (s\<lparr>m_lastHandler := DATA_TX_HANDLER\<rparr>)
         | I_DATA_RCV_PENDING \<Rightarrow> DRH_ExecuteEvent E (s\<lparr>m_lastHandler := DATA_RX_HANDLER\<rparr>)
         | I_TIMESYNC_PENDING \<Rightarrow> TS_ExecuteEvent E (s\<lparr>m_lastHandler := TIMESYNC_HANDLER\<rparr>)
         | I_DISCO_PENDING \<Rightarrow>
             map_option (\<lambda>s. s\<lparr>m_lastHandler := CONTROL_BEACON_HANDLER\<rparr>) (Disco_ExecuteEvent E s)
         | _ \<Rightarrow> PostExecution E s)"

text \<open>The scheduler's timer: a firing before the scheduled time starts it again for the rest.\<close>

definition PublicSchedulerTaskHandler1 :: "omac_env \<Rightarrow> omac \<Rightarrow> omac option" where
  "PublicSchedulerTaskHandler1 E s =
     (let (_, s) = VirtTimer_Stop E VIRT_TIMER_OMAC_SCHEDULER s;
          (t, s) = GetCurrentTimeinTicks E s;
          s = s\<lparr>m_curTime_in_ticks := t\<rparr>
      in if m_scheduledTimer_in_ticks s > m_curTime_in_ticks s then
           (let (_, s) = VirtTimer_Stop E VIRT_TIMER_OMAC_SCHEDULER (s\<lparr>m_num_rescheduled := m_num_rescheduled s + 1\<rparr>);
                rem_time_micros = ConvertTickstoMicroSecs (m_scheduledTimer_in_ticks s - m_curTime_in_ticks s);
                rem_time_micros = (if rem_time_micros < OMAC_SCHEDULER_MIN_REACTION_TIME_IN_MICRO
                                   then OMAC_SCHEDULER_MIN_REACTION_TIME_IN_MICRO else rem_time_micros);
                (_, s) = VirtTimer_Change E VIRT_TIMER_OMAC_SCHEDULER (ucast rem_time_micros) s
            in Some (snd (VirtTimer_Start E VIRT_TIMER_OMAC_SCHEDULER s)))
         else RunEventTask E s)"

definition Scheduler_FailsafeStop :: "omac_env \<Rightarrow> omac \<Rightarrow> omac option" where
  "Scheduler_FailsafeStop E s =
     (let (t, s) = GetCurrentTimeinTicks E s in
      if t > m_scheduledFailSafeTimer_in_ticks s then
        (let s = s\<lparr>m_num_FailsafeTimerFiring := m_num_FailsafeTimerFiring s + 1\<rparr> in
         case sched_state s of
           I_DATA_SEND_PENDING \<Rightarrow> PostExecution E (DTH_FailsafeStop E s)
         | I_DATA_RCV_PENDING \<Rightarrow> PostExecution E (DRH_FailsafeStop E s)
         | I_TIMESYNC_PENDING \<Rightarrow> PostExecution E (TS_FailsafeStop E s)
         | I_DISCO_PENDING \<Rightarrow>
             (let (rv, s) = Disco_FailsafeStop E s in
              if \<not> rv then Some (set_failsafe_time E s) else PostExecution E s)
         | _ \<Rightarrow> PostExecution E s)
      else Some s)"

section \<open>The radio's interrupts\<close>

definition StartOfReception :: u32 where "StartOfReception = push_bit 4 1"

definition OMACRadioInterruptHandler :: "omac_env \<Rightarrow> u32 \<Rightarrow> omac \<Rightarrow> bool \<times> omac" where
  "OMACRadioInterruptHandler E Interrupt s =
     (True,
      if m_execution_started s \<and> sched_state s = I_DATA_RCV_PENDING \<and> Interrupt = StartOfReception
      then DRH_HandleRadioInterrupt E s else s)"

text \<open>
  \<open>OMACSendAckHandler\<close>. The message is one the layer has given to the radio. The last case
  compares the status of the radio with \<open>NetworkOperations_Success\<close>, which is 0.
\<close>

definition OMACSendAckHandler :: "omac_env \<Rightarrow> msg_ref \<Rightarrow> u16 \<Rightarrow> NetOpStatus \<Rightarrow> u8 \<Rightarrow> omac \<Rightarrow> omac option" where
  "OMACSendAckHandler E r Size status radioAckStatus s =
     (let s = s\<lparr>isSendDone := True\<rparr>; receiving = (m_execution_started s \<and> sched_state s = I_DATA_RCV_PENDING);
          t = msg_type (get_msg r s) in
      if status \<noteq> NetworkOperations_Success then Some s
      else if unat Size = sizeof_softwareACKHeader then
        Some (if receiving then DRH_SendACKHandler E s else s)
      else if t = payload_code MFM_OMAC_DISCOVERY then BeaconAckHandler E s
      else if t \<in> {payload_code MFM_OMAC_ROUTING, payload_code MFM_OMAC_NEIGHBORHOOD, payload_code MFM_TIMESYNC}
      then Some s
      else if t = payload_code MFM_OMAC_DATA_ACK then
        Some (if env_ack_type E = SOFTWARE_ACK \<and> receiving then DRH_SendACKHandler E s else s)
      else if m_execution_started s \<and> sched_state s = I_DATA_SEND_PENDING \<and> radioAckStatus = 0
      then DTH_SendACKHandler E r radioAckStatus s
      else Some s)"

section \<open>Receiving\<close>

text \<open>The time stamp is the last four bytes of the payload, or what stands there.\<close>

definition SenderDelay :: "message \<Rightarrow> u8 \<Rightarrow> u64 option" where
  "SenderDelay m payloadsize =
     map_option (\<lambda>bs. ucast (bytes_word bs :: u32)) (message_bytes (sizeof_header + unat payloadsize - 4) 4 m)"

definition IsPcktValid :: "message \<Rightarrow> bool" where
  "IsPcktValid m \<longleftrightarrow> msg_type m \<in> set (map payload_code
     [MFM_CSMA_TIMESYNCREQ, MFM_CSMA_NEIGHBORHOOD, MFM_CSMA_ROUTING, MFM_CSMA_DISCOVERY, MFM_TIMESYNC,
      MFM_CSMA_DATA_ACK, MFM_OMAC_TIMESYNCREQ, MFM_OMAC_NEIGHBORHOOD, MFM_OMAC_ROUTING,
      MFM_OMAC_DISCOVERY, MFM_OMAC_DATA_ACK, MFM_OMAC_DATA_BEACON_TYPE])"

text \<open>The acknowledgement overlays the first five bytes of the frame.\<close>

definition ProcessSoftwareAck :: "omac_env \<Rightarrow> message \<Rightarrow> omac \<Rightarrow> omac option" where
  "ProcessSoftwareAck E m s =
     (let bs = header_bytes (header m); ack_type = bs ! 0;
          sourceID = bytes_word (take 2 (drop 1 bs)); destID = bytes_word (take 2 (drop 3 bs)) in
      if destID = MyAddress s \<and> env_ack_type E = SOFTWARE_ACK \<and> ack_type = payload_code MFM_OMAC_DATA_ACK
      then ReceiveDATAACK E sourceID s else Some s)"

definition SendRXPacketToUpperLayers :: "omac_env \<Rightarrow> message \<Rightarrow> u8 \<Rightarrow> omac \<Rightarrow> omac option" where
  "SendRXPacketToUpperLayers E m payload_type s =
     (case native_handler ReceiveHandler_fn payload_type s of
        None \<Rightarrow> None
      | Some h \<Rightarrow>
          (case (if h = None then m_rxAckHandler s else h) of
             None \<Rightarrow> Some s
           | Some f \<Rightarrow> Some (call_app E (CAppReceive f m payload_type) s)))"

text \<open>
  The data of a packet goes to the next free message of the receive buffer, then to the
  application; \<open>None\<close> is a buffer without room after its oldest message was dropped.
\<close>

definition store_received :: "omac_env \<Rightarrow> message \<Rightarrow> nat \<Rightarrow> omac \<Rightarrow> omac option" where
  "store_received E m data_size s =
     (let (p, b) = GetNextFreeBuffer Buffer_15_4_t_SIZE (g_receive_buffer s);
          (p, b) = (if p = None
                    then GetNextFreeBuffer Buffer_15_4_t_SIZE (DropOldest Buffer_15_4_t_SIZE 1 b) else (p, b))
      in do {
        a \<leftarrow> p;
        bs \<leftarrow> peek_bytes 1 data_size m;
        m1 \<leftarrow> poke_bytes 0 bs (msg_store b a);
        let m2 = m1\<lparr>header := (header m)\<lparr>hdr_length := of_nat (data_size + sizeof_header)\<rparr>,
                    FCS := FCS m, metadata := metadata m\<rparr>;
        SendRXPacketToUpperLayers E m2 (msg_type m)
          (s\<lparr>g_receive_buffer := b\<lparr>msg_store := (msg_store b)(a := m2)\<rparr>\<rparr>)
      })"

text \<open>
  The primary message of a packet, by its type. The result is the place behind it in the
  payload, or nothing when the handler returns at once. Sizes are compared as 32-bit numbers
  without sign: after the time stamp is taken off, a size below four is a very large one.
\<close>

definition receive_primary :: "omac_env \<Rightarrow> message \<Rightarrow> u32 \<Rightarrow> omac \<Rightarrow> (u16 option \<times> omac) option" where
  "receive_primary E m sz s =
     (let t = msg_type m; sourceID = src (header m); destID = dest (header m); myID = MyAddress s;
          executing = (\<lambda>s. m_execution_started s \<and> sched_state s = I_DATA_RCV_PENDING) in
      if t = payload_code MFM_OMAC_DISCOVERY then
        (if sz < of_nat sizeof_DiscoveryMsg then Some (None, s)
         else do {
           p2 \<leftarrow> disco_at 0 m;
           (_, s) \<leftarrow> Disco_Receive E sourceID p2 (Rssi (metadata m)) (Lqi (metadata m)) s;
           Some (Some (of_nat sizeof_DiscoveryMsg), s)
         })
      else if t = payload_code MFM_OMAC_ROUTING then
        map_option (\<lambda>n. (Some (ucast n + of_nat DataMsgOverhead), s)) (peek_payload 0 m)
      else if t = payload_code MFM_OMAC_NEIGHBORHOOD then Some (Some 0, s)
      else if t = payload_code MFM_OMAC_TIMESYNCREQ then
        (if sz < of_nat DataMsgOverhead + 1 then Some (None, s)
         else do {
           s \<leftarrow> (if executing s then HandleEndofReception E sourceID s else Some s);
           n \<leftarrow> peek_payload 0 m;
           s \<leftarrow> (if myID = destID then do {
                   request \<leftarrow> peek_payload 1 m;
                   map_option snd (TS_ReceiveTSReq E sourceID (request \<noteq> 0) s)
                 } else Some s);
           Some (Some (ucast n + of_nat DataMsgOverhead), s)
         })
      else if t = payload_code MFM_OMAC_DATA_BEACON_TYPE then Some (Some 0, s)
      else if t = payload_code MFM_OMAC_DATA_ACK then
        (if env_ack_type E = SOFTWARE_ACK
         then map_option (\<lambda>s. (Some 1, s)) (ReceiveDATAACK E sourceID s) else Some (Some 0, s))
      else
        (if sz < of_nat DataMsgOverhead then Some (None, s)
         else do {
           s \<leftarrow> (if myID = destID \<and> executing s then HandleEndofReception E sourceID s else Some s);
           n \<leftarrow> peek_payload 0 m;
           if n > hdr_length (header m) then Some (None, s)
           else do {
             s \<leftarrow> (if myID = destID \<and> executing s then store_received E m (unat n) s else Some s);
             Some (Some (ucast n + of_nat DataMsgOverhead), s)
           }
         }))"

text \<open>The messages behind the primary one.\<close>

definition receive_timesync :: "omac_env \<Rightarrow> message \<Rightarrow> (u64 \<times> u64) option \<Rightarrow> u16 \<Rightarrow> omac \<Rightarrow> (u16 \<times> omac) option" where
  "receive_timesync E m stamp loc s =
     (if has_flag MFM_TIMESYNC_FLAG m then do {
        bs \<leftarrow> peek_bytes (unat loc) sizeof_TimeSyncMsg m;
        (senderDelay, rx_time_stamp) \<leftarrow> stamp;
        (_, s) \<leftarrow> TS_Receive E (src (header m)) (bytes_word (take 4 bs)) (bytes_word (drop 4 bs))
                    senderDelay rx_time_stamp s;
        Some (loc + of_nat sizeof_TimeSyncMsg, s)
      } else Some (loc, s))"

definition receive_piggybacked_schedule :: "omac_env \<Rightarrow> message \<Rightarrow> u16 \<Rightarrow> omac \<Rightarrow> omac option" where
  "receive_piggybacked_schedule E m loc s =
     (if has_flag MFM_DISCOVERY_FLAG m then do {
        p2 \<leftarrow> disco_at (unat loc) m;
        map_option snd (Disco_Receive E (src (header m)) p2 (Rssi (metadata m)) (Lqi (metadata m)) s)
      } else Some s)"

text \<open>The delay on the sender's side, in units of \<open>2 ^ 19\<close> ticks, at most 255.\<close>

definition record_delay :: "message \<Rightarrow> u64 option \<Rightarrow> omac \<Rightarrow> omac option" where
  "record_delay m senderDelay s =
     (if msg_type m \<noteq> payload_code MFM_OMAC_DATA_ACK \<and> msg_type m \<noteq> payload_code MFM_OMAC_DISCOVERY then
        (case senderDelay of
           None \<Rightarrow> Some s
         | Some d \<Rightarrow>
             (let t = drop_bit 19 d in
              map_option snd (on_table (RecordSenderDelayIncoming (src (header m)) (if t > 0xFF then 0xFF else ucast t)) s)))
      else Some s)"

definition MAX_PCKT_SIZE :: u8 where "MAX_PCKT_SIZE = 128"

text \<open>
  \<open>ReceiveHandler\<close>: it returns the message it was given, which it does not change. \<open>stamp\<close> is
  the sender's delay and the time of reception, set when the packet has a time stamp. \<open>None\<close>:
  a read or write outside of a message, the use of a time that was not set, or a call that
  does not return.
\<close>

definition OMAC_ReceiveHandler :: "omac_env \<Rightarrow> message \<Rightarrow> u16 \<Rightarrow> omac \<Rightarrow> omac option" where
  "OMAC_ReceiveHandler E m Size s =
     (if \<not> Initialized s then Some s
      else
        (let (_, s) = GetCurrentTimeinTicks E s; h = header m; n = unat Size in
         if n = sizeof_softwareACKHeader \<or> (n > sizeof_softwareACKHeader \<and> n < sizeof_header)
         then ProcessSoftwareAck E m s
         else if fcf h \<noteq> FCF_WORD_VALUE then Some s
         else if n > sizeof_header \<and> n - sizeof_header > unat (MaxPayload s) then Some s
         else if n < sizeof_header then Some s
         else if src h = 0 \<or> src h = 0xFFFF \<or> dest h = 0 \<or> hdr_length h > MAX_PCKT_SIZE then Some s
         else if \<not> IsPcktValid m then Some s
         else
           (let sz = ucast Size - of_nat sizeof_header in do {
              (stamp, sz, s) \<leftarrow>
                (if has_flag TIMESTAMPED_FLAG m then do {
                   d \<leftarrow> SenderDelay m (ucast sz);
                   let (now, s) = GetCurrentTimeinTicks E s;
                   let (hal, s) = HAL_Time_CurrentTicks E s;
                   Some (Some (d + ConvertMicroSecstoTicks (ucast (TIME_RX_TIMESTAMP_OFFSET_MICRO (params s))),
                               now - (hal - msg_time m)), sz - 4, s)
                 } else Some (None, sz, s));
              (loc, s) \<leftarrow> receive_primary E m sz s;
              case loc of
                None \<Rightarrow> Some s
              | Some loc \<Rightarrow> do {
                  (loc, s) \<leftarrow> receive_timesync E m stamp loc s;
                  s \<leftarrow> receive_piggybacked_schedule E m loc s;
                  let (t, s) = GetCurrentTimeinTicks E s;
                  (_, s) \<leftarrow> on_table (RecordLastHeardTime (src h) t) s;
                  record_delay m (map_option fst stamp) s
                }
            })))"

section \<open>Start and stop\<close>

definition OMAC_SetConfig :: "MACConfig \<Rightarrow> omac \<Rightarrow> DeviceStatus \<times> omac" where
  "OMAC_SetConfig config s = (DS_Success, s\<lparr>MyConfig := config\<rparr>)"

text \<open>The part of \<open>Initialize\<close> for a MAC that is not initialised yet; true tells to go on.\<close>

definition OMAC_initialize_new ::
  "omac_env \<Rightarrow> nat option \<Rightarrow> u8 \<Rightarrow> u8 \<Rightarrow> u8 \<Rightarrow> MACConfig \<Rightarrow> omac \<Rightarrow> (bool \<times> DeviceStatus \<times> omac) option"
where
  "OMAC_initialize_new E eventHandler macName routingAppID radioID config s =
     (if routingAppID \<ge> MAX_APPS then Some (False, DS_Fail, s)
      else
        (let s = s\<lparr>mac_name := macName, radioName := radioID, isSendDone := True\<rparr>;
             s = SetAppIdIndex routingAppID (snd (OMAC_SetConfig config s));
             s = (snd (SetAppHandlers eventHandler s))
                   \<lparr>AppCount := 0, MaxPayload := of_nat IEEE802_15_4_MAX_PAYLOAD\<rparr>;
             s = s\<lparr>g_receive_buffer := snd (Initialize_circ Buffer_15_4_t_SIZE (g_receive_buffer s))\<rparr>
         in do {
           tb \<leftarrow> ClearTable (g_NeighborTable s);
           let s = s\<lparr>g_NeighborTable := SetPreviousNumberOfNeighbors 0 tb\<rparr>;
           let (status, s) = call_status E (CRadioInitialize (radioName s)) s;
           if status \<noteq> DS_Success then Some (False, status, s)
           else
             (let (status, s) = call_status E (CRadioTurnOnRx (radioName s)) s in
              if status \<noteq> DS_Success then Some (False, status, s)
              else
                (let (_, s) = SetOMACParametersBasedOnRadioName E (radioName s) s;
                     s = call (CRadioGetAddress (radioName s)) s;
                     (_, s) = SetMyAddress (env_address E (history s)) s;
                     s = call (CRadioGetAddress (radioName s)) s;
                     s = s\<lparr>MyID := env_address E (history s)\<rparr>;
                     (_, s) = RC_Initialize s
                 in do {
                   s \<leftarrow> Scheduler_Initialize E s;
                   Some (True, DS_Success, s\<lparr>Initialized := True\<rparr>)
                 }))
         }))"

definition OMAC_Initialize ::
  "omac_env \<Rightarrow> nat option \<Rightarrow> u8 \<Rightarrow> u8 \<Rightarrow> u8 \<Rightarrow> MACConfig \<Rightarrow> omac \<Rightarrow> (DeviceStatus \<times> omac) option"
where
  "OMAC_Initialize E eventHandler macName routingAppID radioID config s = do {
     (go_on, status, s) \<leftarrow>
       (if Initialized s then Some (True, DS_Success, s)
        else OMAC_initialize_new E eventHandler macName routingAppID radioID config s);
     if \<not> go_on then Some (status, s)
     else
       (let h = GetAppHandler (AppIDIndex s) s in
        Some (DS_Success, s\<lparr>CurrentActiveApp := routingAppID,
          m_rxAckHandler := Option.bind h (\<lambda>i. ReceiveHandler_fn (handler_at s i)),
          m_txAckHandler := Option.bind h (\<lambda>i. SendAckHandler_fn (handler_at s i)),
          tx_msg := zero_message\<rparr>))
   }"

definition OMAC_UnInitialize :: "omac_env \<Rightarrow> omac \<Rightarrow> bool \<times> omac" where
  "OMAC_UnInitialize E s =
     (let s = Scheduler_UnInitialize E s;
          (ds, s) = RC_Uninitialize E s;
          (off, s) = call_status E (CRadioTurnOffRx (radioName s)) s;
          s = call (CRadioUnInitialize (radioName s)) s;
          un = env_bool E (history s)
      in (ds = DS_Success \<and> off = DS_Success \<and> un, s\<lparr>Initialized := False\<rparr>))"

section \<open>The MAC does not fall asleep\<close>




section \<open>Two nodes\<close>

text \<open>A table with room for an address: a free or dead entry, or the entry of this address.\<close>

definition has_entry_for :: "u16 \<Rightarrow> neighbor_table \<Rightarrow> bool" where
  "has_entry_for a tb \<longleftrightarrow> (\<exists>j<MAX_NEIGHBORS. MACAddress (Neighbor tb ! j) = a
     \<or> \<not> ISMAC_VALID (MACAddress (Neighbor tb ! j)) \<or> neighborStatus (Neighbor tb ! j) \<noteq> Alive)"

text \<open>The neighbor table after \<open>UpdateNeighbor\<close>: a live entry has the parameters given.\<close>

lemma UpdateNeighbor_two_entry:
  assumes "nt_inv tb" and "ISMAC_VALID (p1_MACAddress p1)" and "p1_status p1 = Alive" and "p1_lastHeardTime p1 \<noteq> 0"
    and "has_entry_for (p1_MACAddress p1) tb"
  obtains i tb' n where "UpdateNeighbor_two p1 p2 tb = Some (DS_Success, tb')"
    "GetNeighborPtr (p1_MACAddress p1) tb' = Some i" "nth_neighbor tb' i = update_two_entry p1 p2 n"
proof (cases rule: FindOrInsert_total[OF assms(1,2), of 0])
  case (1 k t)
  let ?t = "upd_neighbor k (update_two_entry p1 p2) t"
  have u: "UpdateNeighbor_two p1 p2 tb = Some (DS_Success, ?t)"
    using assms(2-4) 1(1) by (simp add: UpdateNeighbor_two_def)
  have inv: "nt_inv ?t"
    by (rule nt_inv_keep_address[OF 1(2,3)]) (use 1(4) in simp)
  have n: "nth_neighbor ?t k = update_two_entry p1 p2 (nth_neighbor t k)"
    using 1(3) nt_invD(1)[OF 1(2)] by simp
  have "GetNeighborPtr (p1_MACAddress p1) ?t = Some k"
    using GetNeighborPtr_unique[OF inv 1(3), of "p1_MACAddress p1"] n assms(2,3)
    by (simp add: update_two_entry_def Let_def)
  from that[OF u this n] show ?thesis .
next
  case (2 k)
  with assms(5) show ?thesis by (auto simp: has_entry_for_def)
qed

lemma Disco_Receive_entry:
  assumes "nt_inv (g_NeighborTable s)" and "ISMAC_VALID source" and "env_ticks E (CGetTicks # history s) \<noteq> 0"
    and "has_entry_for source (g_NeighborTable s)"
  obtains s' i where "Disco_Receive E source p2 rssi lqi s = Some (DS_Success, s')"
    "GetNeighborPtr source (g_NeighborTable s') = Some i"
    "nextwakeupSlot (nth_neighbor (g_NeighborTable s') i) = p2_nextwakeupSlot p2"
    "nextSeed (nth_neighbor (g_NeighborTable s') i) = p2_nextSeed p2"
    "seed_mask (nth_neighbor (g_NeighborTable s') i) = p2_mask p2"
    "seedUpdateIntervalinSlots (nth_neighbor (g_NeighborTable s') i) = p2_seedUpdateIntervalinSlots p2"
proof -
  let ?d = NeighborTableCommonParameters_One_t
  define p1 where "p1 = ?d\<lparr>p1_MACAddress := source, p1_status := Alive,
    p1_lastHeardTime := env_ticks E (CGetTicks # history s),
    p1_linkQualityMetrics := (p1_linkQualityMetrics ?d)\<lparr>AvgRSSI := rssi, LinkQuality := lqi\<rparr>\<rparr>"
  have p1: "p1_MACAddress p1 = source" "p1_status p1 = Alive" "p1_lastHeardTime p1 \<noteq> 0"
    using assms(3) by (simp_all add: p1_def)
  obtain i tb n where u: "UpdateNeighbor_two p1 p2 (g_NeighborTable s) = Some (DS_Success, tb)"
    "GetNeighborPtr source tb = Some i" "nth_neighbor tb i = update_two_entry p1 p2 n"
    using UpdateNeighbor_two_entry[of "g_NeighborTable s" p1 p2] assms p1 by metis
  let ?s = "s\<lparr>beacon_received := True, history := CGetTicks # history s, g_NeighborTable := tb\<rparr>"
  have "Disco_Receive E source p2 rssi lqi s = Some (DS_Success, ?s)"
    using u(1) by (simp add: Disco_Receive_def GetCurrentTimeinTicks_def on_table_def Let_def p1_def)
  then show ?thesis
    by (rule that[where i = i]) (use u(2,3) in \<open>simp_all add: update_two_entry_def Let_def\<close>)
qed

text \<open>The entry of a neighbor follows the neighbor's own schedule.\<close>

lemma entry_follows_schedule:
  assumes "nextwakeupSlot n = m_nextwakeupSlot d" "nextSeed n = m_nextSeed d" "seed_mask n = m_mask d"
    "seedUpdateIntervalinSlots n = m_seedUpdateIntervalinSlots d" and "update_schedule c d = Some (rv, d')"
  shows "update_entry_schedule c n
    = Some (rv, n\<lparr>nextwakeupSlot := m_nextwakeupSlot d', nextSeed := m_nextSeed d'\<rparr>)"
  using assms by (auto simp: update_entry_schedule_def update_schedule_def)

text \<open>
  C12. Two nodes together: when the radio of a node takes a discovery beacon, and that very frame
  reaches a node that has room in its neighbor table, then the receive handler of that node has
  an entry of the sender from which, at every later slot within the update limit, it computes the
  wake-up slot and the seed that the sender computes for itself.
\<close>

theorem beacon_lets_neighbor_predict:
  fixes sA sA' sB :: omac
  defines "d \<equiv> own_schedule sA"
  assumes beacon: "Beacon EA dst RefDisco sA = Some (DS_Success, sA')"
      "length (payload (m_discoveryMsgBuffer sA)) = 100" "env_enum_size EA \<le> 4"
    and heard: "sent_frame (hd (history sA')) = Some (FrMessage m)" "of_nat sizeof_DiscoveryMsg \<le> sz"
    and B: "nt_inv (g_NeighborTable sB)" "ISMAC_VALID (MyAddress sA)" "env_ticks EB (CGetTicks # history sB) \<noteq> 0"
      "has_entry_for (MyAddress sA) (g_NeighborTable sB)"
    and slot: "m_seedUpdateIntervalinSlots d \<noteq> 0" "unat c + 2 * unat (m_seedUpdateIntervalinSlots d) < 2 ^ 64"
      "within_update_limit c d"
  shows "\<exists>loc sB' i n d'. receive_primary EB m sz sB = Some (Some loc, sB')
    \<and> GetNeighborPtr (MyAddress sA) (g_NeighborTable sB') = Some i \<and> n = nth_neighbor (g_NeighborTable sB') i
    \<and> update_schedule c d = Some (True, d') \<and> c < m_nextwakeupSlot d'
    \<and> update_entry_schedule c n
      = Some (True, n\<lparr>nextwakeupSlot := m_nextwakeupSlot d', nextSeed := m_nextSeed d'\<rparr>)"
proof -
  have m: "disco_at 0 m = Some (announce d)" "msg_type m = payload_code MFM_OMAC_DISCOVERY"
    "src (header m) = MyAddress sA"
    using beacon_announces_schedule[OF beacon] heard(1) by (auto simp: d_def)
  obtain sB' i where r: "Disco_Receive EB (MyAddress sA) (announce d) (Rssi (metadata m)) (Lqi (metadata m)) sB
      = Some (DS_Success, sB')" and i: "GetNeighborPtr (MyAddress sA) (g_NeighborTable sB') = Some i"
    and n: "nextwakeupSlot (nth_neighbor (g_NeighborTable sB') i) = m_nextwakeupSlot d"
    "nextSeed (nth_neighbor (g_NeighborTable sB') i) = m_nextSeed d"
    "seed_mask (nth_neighbor (g_NeighborTable sB') i) = m_mask d"
    "seedUpdateIntervalinSlots (nth_neighbor (g_NeighborTable sB') i) = m_seedUpdateIntervalinSlots d"
    by (rule Disco_Receive_entry[OF B, of "announce d"]) (simp add: announce_def)
  have "receive_primary EB m sz sB = Some (Some (of_nat sizeof_DiscoveryMsg), sB')"
    using heard(2) m r by (simp add: receive_primary_def Let_def not_less)
  moreover obtain d' where "update_schedule c d = Some (True, d')" "c < m_nextwakeupSlot d'"
    using update_schedule_result[OF slot] by blast
  ultimately show ?thesis using i entry_follows_schedule[OF n] by blast
qed

lemma lonely_beacon: "\<exists>s'. Beacon quiet_env 0xFFFF RefDisco lonely_omac = Some (DS_Success, s')"
  by (simp add: Beacon_def Disco_Send_def call_status_def send_defs del: poke_bytes.simps)

lemma beacon_lets_neighbor_predict_witness:
  "\<exists>sA' m loc sB' i. Beacon quiet_env 0xFFFF RefDisco lonely_omac = Some (DS_Success, sA')
    \<and> sent_frame (hd (history sA')) = Some (FrMessage m)
    \<and> receive_primary quiet_env m 40 sample_omac = Some (Some loc, sB')
    \<and> GetNeighborPtr 7 (g_NeighborTable sB') = Some i
    \<and> update_entry_schedule 1000 (nth_neighbor (g_NeighborTable sB') i) \<noteq> None"
proof -
  obtain sA' where b: "Beacon quiet_env 0xFFFF RefDisco lonely_omac = Some (DS_Success, sA')"
    using lonely_beacon by blast
  have l: "length (payload (m_discoveryMsgBuffer lonely_omac)) = 100" "env_enum_size quiet_env \<le> 4"
    by (simp_all add: lonely len0 quiet)
  obtain m where m: "sent_frame (hd (history sA')) = Some (FrMessage m)"
    using beacon_announces_schedule[OF b l] by blast
  have "has_entry_for 7 (g_NeighborTable sample_omac)"
    by (auto simp: has_entry_for_def sample_omac_def sample_nt_mac MAX_NEIGHBORS_def ISMAC_VALID_def intro!: exI[of _ 2])
  moreover have "nt_inv (g_NeighborTable sample_omac)" using sample_nt_inv by (simp add: sample_omac_def)
  moreover have "within_update_limit 1000 (own_schedule lonely_omac)" using sample_limit by (simp add: lonely)
  ultimately show ?thesis
    using b m beacon_lets_neighbor_predict[OF b l m, of 40 sample_omac quiet_env 1000]
    by (auto simp: sizeof_DiscoveryMsg_def ISMAC_VALID_def quiet lonely sample_schedule_def)
qed

end
