(* ===== verification/Si446x_Chip.thy ===== *)
theory Si446x_Chip
  imports Prelude "HOL-Library.Monad_Syntax"
begin

unbundle bit_operations_syntax

text \<open>
  The command layer of the SI446x radio chip, \<^verbatim>\<open>DeviceCode/Targets/Native/radio/SI4468/si446x.cpp\<close>:
  commands and replies over SPI, the clear-to-send handshake, the shadow of the chip state.
  The SPI bus is a trace of what the processor puts on it; the byte that the chip answers is a
  function of that trace, a parameter. \<open>None\<close> is a call that does not return: \<open>radio_error\<close> is an
  endless loop. The lemmas show which commands an operation puts on the bus, and that
  on a bus whose other end follows the protocol of the chip an operation gets the chip's reply.
\<close>

section \<open>The bus\<close>

datatype spi_event = Sel_Assert | Sel_Release | Spi_Byte u8 | Radio_Shutdown bool

text \<open>
  The reply union holds the last reply that was read. Its members overlay each other; the code
  reads a member only in the function that has just written it.
\<close>

datatype si446x_cmd_reply_union =
    PART_INFO (CHIPREV: u8) (PART: u16) (PBUILD: u8) (ID: u16) (CUSTOMER: u8) (ROMID: u8)
  | FUNC_INFO (REVEXT: u8) (REVBRANCH: u8) (REVINT: u8) (PATCH: u16) (FUNC: u8)
  | GET_INT_STATUS u8 u8 u8 u8 u8 u8 u8 u8
  | REQUEST_DEVICE_STATE u8 u8
  | GET_MODEM_STATUS u8 u8 u8 u8 u8 u8 u16
  | FIFO_INFO u8 u8
  | FRR_READ u8 u8 u8 u8
  | GET_ADC_READING u16 u16 u16
  | PACKET_INFO u16
  | NO_REPLY

record chip =
  ctsWentHigh :: u32
  current_state :: u8
  latched_rssi :: u8
  current_rssi :: u8
  ph_status :: u8
  modem_status :: u8
  chip_status :: u8
  ph_pend :: u8
  modem_pend :: u8
  chip_pend :: u8
  freq_offset :: u16
  Si446xCmd :: si446x_cmd_reply_union
  Pro2Cmd :: "u8 list"
  bus :: "spi_event list"

text \<open>The chip at the other end: its answer to the last byte of the trace.\<close>

type_synonym spi_chip = "spi_event list \<Rightarrow> u8"

definition CTS_TIMEOUT :: nat where "CTS_TIMEOUT = 262143 * 2"
definition SI446X_MODEM_PEND_MASK :: u8 where "SI446X_MODEM_PEND_MASK = 0x01"
definition SI446X_PH_PEND_MASK :: u8 where "SI446X_PH_PEND_MASK = 0x38"
definition ROMC2A :: u8 where "ROMC2A = 6"
definition PART_SI446X :: u16 where "PART_SI446X = 0x4468"
definition PATCHID :: u16 where "PATCHID = 0"

definition SI_STATE_BOOT :: u8 where "SI_STATE_BOOT = 0"
definition SI_STATE_SLEEP :: u8 where "SI_STATE_SLEEP = 1"
definition SI_STATE_SPI_ACTIVE :: u8 where "SI_STATE_SPI_ACTIVE = 2"
definition SI_STATE_READY :: u8 where "SI_STATE_READY = 3"
definition SI_STATE_TX_TUNE :: u8 where "SI_STATE_TX_TUNE = 5"
definition SI_STATE_RX_TUNE :: u8 where "SI_STATE_RX_TUNE = 6"
definition SI_STATE_TX :: u8 where "SI_STATE_TX = 7"
definition SI_STATE_RX :: u8 where "SI_STATE_RX = 8"
definition SI_STATE_ERROR :: u8 where "SI_STATE_ERROR = 9"
definition SI_STATE_UNKNOWN :: u8 where "SI_STATE_UNKNOWN = 10"

lemmas si_states = SI_STATE_BOOT_def SI_STATE_SLEEP_def SI_STATE_SPI_ACTIVE_def SI_STATE_READY_def
  SI_STATE_TX_TUNE_def SI_STATE_RX_TUNE_def SI_STATE_TX_def SI_STATE_RX_def SI_STATE_ERROR_def
  SI_STATE_UNKNOWN_def

definition put_event :: "spi_event \<Rightarrow> 'a chip_scheme \<Rightarrow> 'a chip_scheme" where
  "put_event e s = s\<lparr>bus := bus s @ [e]\<rparr>"

definition radio_spi_sel_assert :: "'a chip_scheme \<Rightarrow> 'a chip_scheme" where
  "radio_spi_sel_assert s = put_event Sel_Assert s"

definition radio_spi_sel_no_assert :: "'a chip_scheme \<Rightarrow> 'a chip_scheme" where
  "radio_spi_sel_no_assert s = put_event Sel_Release s"

definition radio_shutdown :: "bool \<Rightarrow> 'a chip_scheme \<Rightarrow> 'a chip_scheme" where
  "radio_shutdown go s = put_event (Radio_Shutdown go) s"

definition radio_spi_go :: "spi_chip \<Rightarrow> u8 \<Rightarrow> 'a chip_scheme \<Rightarrow> u8 \<times> 'a chip_scheme" where
  "radio_spi_go E b s = (let s1 = put_event (Spi_Byte b) s in (E (bus s1), s1))"

fun spi_read_bytes :: "spi_chip \<Rightarrow> nat \<Rightarrow> 'a chip_scheme \<Rightarrow> u8 list \<times> 'a chip_scheme" where
  "spi_read_bytes E 0 s = ([], s)"
| "spi_read_bytes E (Suc n) s =
     (let (b, s1) = radio_spi_go E 0 s; (bs, s2) = spi_read_bytes E n s1 in (b # bs, s2))"

fun spi_write_bytes :: "spi_chip \<Rightarrow> u8 list \<Rightarrow> 'a chip_scheme \<Rightarrow> 'a chip_scheme" where
  "spi_write_bytes E [] s = s"
| "spi_write_bytes E (b # bs) s = spi_write_bytes E bs (snd (radio_spi_go E b s))"

section \<open>Commands and replies\<close>

text \<open>
  The wait for the chip: the reply buffer is asked until it starts with \<open>0xFF\<close>. The count of the
  code is compared before it is incremented, so the loop runs at most \<open>CTS_TIMEOUT + 1\<close> times.
\<close>

function resp_loop :: "spi_chip \<Rightarrow> nat \<Rightarrow> u8 \<Rightarrow> 'a chip_scheme \<Rightarrow> u8 \<times> 'a chip_scheme" where
  "resp_loop E timeout ctsVal s =
     (if ctsVal \<noteq> 0xFF \<and> timeout \<le> CTS_TIMEOUT then
        (let s1 = radio_spi_sel_assert (radio_spi_sel_no_assert s);
             s2 = snd (radio_spi_go E 0x44 s1);
             (v, s3) = radio_spi_go E 0 s2
         in resp_loop E (timeout + 1) v s3)
      else (ctsVal, s))"
  by pat_completeness auto
termination by (relation "measure (\<lambda>(E, timeout, _, _). CTS_TIMEOUT + 1 - timeout)") auto

declare resp_loop.simps [simp del]

definition radio_comm_GetResp ::
  "spi_chip \<Rightarrow> nat \<Rightarrow> 'a chip_scheme \<Rightarrow> (u8 \<times> u8 list \<times> 'a chip_scheme) option" where
  "radio_comm_GetResp E byteCount s =
     (let s1 = snd (radio_spi_go E 0x44 (radio_spi_sel_assert s));
          (ctsVal, s2) = radio_spi_go E 0 s1;
          (ctsVal, s3) = resp_loop E 0 ctsVal s2
      in if ctsVal \<noteq> 0xFF then None
         else let (bs, s4) = spi_read_bytes E byteCount (s3\<lparr>ctsWentHigh := 1\<rparr>)
              in Some (ctsVal, bs, radio_spi_sel_no_assert s4))"

function poll_loop :: "spi_chip \<Rightarrow> nat \<Rightarrow> 'a chip_scheme \<Rightarrow> (nat \<times> 'a chip_scheme) option" where
  "poll_loop E timeout s =
     (if ctsWentHigh s = 0 \<and> timeout < CTS_TIMEOUT then
        (case radio_comm_GetResp E 0 s of
           None \<Rightarrow> None
         | Some (_, _, s1) \<Rightarrow> poll_loop E (timeout + 1) s1)
      else Some (timeout, s))"
  by pat_completeness auto
termination by (relation "measure (\<lambda>(E, timeout, _). CTS_TIMEOUT - timeout)") auto

declare poll_loop.simps [simp del]

definition radio_comm_PollCTS :: "spi_chip \<Rightarrow> 'a chip_scheme \<Rightarrow> (u32 \<times> 'a chip_scheme) option" where
  "radio_comm_PollCTS E s = do {
     (timeout, s) \<leftarrow> poll_loop E 0 (s\<lparr>ctsWentHigh := 0\<rparr>);
     (if timeout = CTS_TIMEOUT then None else Some (1, s))
   }"

definition radio_comm_SendCmd :: "spi_chip \<Rightarrow> u8 list \<Rightarrow> 'a chip_scheme \<Rightarrow> 'a chip_scheme option" where
  "radio_comm_SendCmd E pData s = do {
     (_, s) \<leftarrow> radio_comm_PollCTS E s;
     let s = spi_write_bytes E pData (radio_spi_sel_assert s);
     Some ((radio_spi_sel_no_assert s)\<lparr>ctsWentHigh := 0\<rparr>)
   }"

partial_function (option) poll_until_cts :: "spi_chip \<Rightarrow> 'a chip_scheme \<Rightarrow> 'a chip_scheme option" where
  "poll_until_cts E s =
     (if ctsWentHigh s = 0 then Option.bind (radio_comm_PollCTS E s) (\<lambda>(_, s1). poll_until_cts E s1)
      else Some s)"

definition radio_comm_WriteData ::
  "spi_chip \<Rightarrow> u8 \<Rightarrow> bool \<Rightarrow> u8 list \<Rightarrow> 'a chip_scheme \<Rightarrow> 'a chip_scheme option" where
  "radio_comm_WriteData E cmd pollCts pData s = do {
     s \<leftarrow> (if pollCts then poll_until_cts E s else Some s);
     let s = snd (radio_spi_go E cmd (radio_spi_sel_assert s));
     let s = spi_write_bytes E pData s;
     Some ((radio_spi_sel_no_assert s)\<lparr>ctsWentHigh := 0\<rparr>)
   }"

definition radio_comm_ReadData ::
  "spi_chip \<Rightarrow> u8 \<Rightarrow> bool \<Rightarrow> nat \<Rightarrow> 'a chip_scheme \<Rightarrow> (u8 list \<times> 'a chip_scheme) option" where
  "radio_comm_ReadData E cmd pollCts byteCount s = do {
     s \<leftarrow> (if pollCts then map_option snd (radio_comm_PollCTS E s) else Some s);
     let s = snd (radio_spi_go E cmd (radio_spi_sel_assert s));
     let (bs, s) = spi_read_bytes E byteCount s;
     Some (bs, (radio_spi_sel_no_assert s)\<lparr>ctsWentHigh := 0\<rparr>)
   }"

definition radio_comm_SendCmdGetResp ::
  "spi_chip \<Rightarrow> u8 list \<Rightarrow> nat \<Rightarrow> 'a chip_scheme \<Rightarrow> (u8 list \<times> 'a chip_scheme) option" where
  "radio_comm_SendCmdGetResp E pCmdData respByteCount s = do {
     s \<leftarrow> radio_comm_SendCmd E pCmdData s;
     (_, bs, s) \<leftarrow> radio_comm_GetResp E respByteCount s;
     Some (bs, s)
   }"

text \<open>
  Every command is put together in the buffer \<open>Pro2Cmd\<close>, which also takes the reply: the bytes
  behind those written keep their old values.
\<close>

definition fill_cmd :: "u8 list \<Rightarrow> 'a chip_scheme \<Rightarrow> 'a chip_scheme" where
  "fill_cmd bs s = s\<lparr>Pro2Cmd := bs @ drop (length bs) (Pro2Cmd s)\<rparr>"

definition send_command :: "spi_chip \<Rightarrow> u8 list \<Rightarrow> 'a chip_scheme \<Rightarrow> 'a chip_scheme option" where
  "send_command E bs s = (let s = fill_cmd bs s in radio_comm_SendCmd E (take (length bs) (Pro2Cmd s)) s)"

definition command_reply :: "spi_chip \<Rightarrow> u8 list \<Rightarrow> nat \<Rightarrow> 'a chip_scheme \<Rightarrow> 'a chip_scheme option" where
  "command_reply E bs n s = do {
     let s = fill_cmd bs s;
     (r, s) \<leftarrow> radio_comm_SendCmdGetResp E (take (length bs) (Pro2Cmd s)) n s;
     Some (fill_cmd r s)
   }"

definition be16 :: "u8 \<Rightarrow> u8 \<Rightarrow> u16" where
  "be16 h l = (push_bit 8 (ucast h) AND 0xFF00) OR (ucast l AND 0x00FF)"

abbreviation pro :: "'a chip_scheme \<Rightarrow> nat \<Rightarrow> u8" where "pro s i \<equiv> Pro2Cmd s ! i"

section \<open>Shadow state\<close>

definition si446x_get_afc_info :: "'a chip_scheme \<Rightarrow> int" where
  "si446x_get_afc_info s = sint (freq_offset s) * (16000000 div 262144 div 8)"

definition si446x_get_latched_rssi :: "'a chip_scheme \<Rightarrow> u8" where
  "si446x_get_latched_rssi s = latched_rssi s"

definition si446x_get_current_rssi :: "'a chip_scheme \<Rightarrow> u8" where
  "si446x_get_current_rssi s = current_rssi s"

definition si446x_get_ph_status :: "'a chip_scheme \<Rightarrow> u8" where
  "si446x_get_ph_status s = ph_status s"

definition si446x_get_ph_pend :: "'a chip_scheme \<Rightarrow> u8" where
  "si446x_get_ph_pend s = ph_pend s AND SI446X_PH_PEND_MASK"

definition si446x_get_modem_status :: "'a chip_scheme \<Rightarrow> u8" where
  "si446x_get_modem_status s = modem_status s"

definition si446x_get_modem_pend :: "'a chip_scheme \<Rightarrow> u8" where
  "si446x_get_modem_pend s = modem_pend s AND SI446X_MODEM_PEND_MASK"

definition si446x_get_chip_status :: "'a chip_scheme \<Rightarrow> u8" where
  "si446x_get_chip_status s = chip_status s"

definition si446x_get_chip_pend :: "'a chip_scheme \<Rightarrow> u8" where
  "si446x_get_chip_pend s = chip_pend s"

definition si446x_request_device_state_shadow :: "'a chip_scheme \<Rightarrow> u8" where
  "si446x_request_device_state_shadow s = current_state s"

section \<open>The commands\<close>

text \<open>
  \<open>si446x_set_property\<close> takes the values as variable arguments; the command buffer has 16 places,
  4 of them taken, so more than 12 values write behind it.
\<close>

definition si446x_set_property :: "spi_chip \<Rightarrow> u8 \<Rightarrow> u8 list \<Rightarrow> u8 \<Rightarrow> 'a chip_scheme \<Rightarrow> 'a chip_scheme option" where
  "si446x_set_property E GROUP args START_PROP s =
     (if length args > 12 then None
      else send_command E ([0x11, GROUP, of_nat (length args), START_PROP] @ args) s)"

definition si446x_part_info :: "spi_chip \<Rightarrow> 'a chip_scheme \<Rightarrow> (int \<times> 'a chip_scheme) option" where
  "si446x_part_info E s = do {
     s \<leftarrow> command_reply E [0x01] 8 s;
     let r = PART_INFO (pro s 0) (be16 (pro s 1) (pro s 2)) (pro s 3) (be16 (pro s 4) (pro s 5)) (pro s 6) (pro s 7);
     (if ROMID r = ROMC2A \<and> PART r = PART_SI446X then Some (0, s\<lparr>Si446xCmd := r\<rparr>) else None)
   }"

definition si446x_func_info :: "spi_chip \<Rightarrow> 'a chip_scheme \<Rightarrow> (int \<times> 'a chip_scheme) option" where
  "si446x_func_info E s = do {
     s \<leftarrow> command_reply E [0x10] 6 s;
     let r = FUNC_INFO (pro s 0) (pro s 1) (pro s 2) (be16 (pro s 3) (pro s 4)) (pro s 5);
     (if PATCH r = PATCHID then Some (0, s\<lparr>Si446xCmd := r\<rparr>) else None)
   }"

definition si446x_get_int_status :: "spi_chip \<Rightarrow> u8 \<Rightarrow> u8 \<Rightarrow> u8 \<Rightarrow> 'a chip_scheme \<Rightarrow> 'a chip_scheme option" where
  "si446x_get_int_status E PH_CLR_PEND MODEM_CLR_PEND CHIP_CLR_PEND s = do {
     s \<leftarrow> command_reply E [0x20, PH_CLR_PEND, MODEM_CLR_PEND, CHIP_CLR_PEND] 8 s;
     let s = s\<lparr>Si446xCmd := GET_INT_STATUS (pro s 0) (pro s 1) (pro s 2) (pro s 3) (pro s 4) (pro s 5) (pro s 6) (pro s 7),
               ph_pend := pro s 2, ph_status := pro s 3, modem_pend := pro s 4, modem_status := pro s 5,
               chip_pend := pro s 6, chip_status := pro s 7\<rparr>;
     Some (if current_state s = SI_STATE_SLEEP then s\<lparr>current_state := SI_STATE_UNKNOWN\<rparr> else s)
   }"

definition si446x_request_device_state :: "spi_chip \<Rightarrow> 'a chip_scheme \<Rightarrow> (u8 \<times> 'a chip_scheme) option" where
  "si446x_request_device_state E s = do {
     s \<leftarrow> command_reply E [0x33] 2 s;
     let s = s\<lparr>Si446xCmd := REQUEST_DEVICE_STATE (pro s 0) (pro s 1), current_state := pro s 0\<rparr>;
     Some (current_state s, s)
   }"

definition si446x_change_state :: "spi_chip \<Rightarrow> u8 \<Rightarrow> 'a chip_scheme \<Rightarrow> 'a chip_scheme option" where
  "si446x_change_state E NEXT_STATE1 s = do {
     s \<leftarrow> send_command E [0x34, NEXT_STATE1] s;
     Some (s\<lparr>current_state := NEXT_STATE1\<rparr>)
   }"

definition si446x_write_tx_fifo :: "spi_chip \<Rightarrow> u8 list \<Rightarrow> 'a chip_scheme \<Rightarrow> 'a chip_scheme option" where
  "si446x_write_tx_fifo E pTxData s = radio_comm_WriteData E 0x66 False pTxData s"

definition si446x_read_rx_fifo :: "spi_chip \<Rightarrow> u8 \<Rightarrow> 'a chip_scheme \<Rightarrow> (u8 list \<times> 'a chip_scheme) option" where
  "si446x_read_rx_fifo E numBytes s = radio_comm_ReadData E 0x77 False (unat numBytes) s"

definition si446x_get_modem_status_cmd :: "spi_chip \<Rightarrow> u8 \<Rightarrow> 'a chip_scheme \<Rightarrow> 'a chip_scheme option" where
  "si446x_get_modem_status_cmd E MODEM_CLR_PEND s = do {
     s \<leftarrow> command_reply E [0x22, MODEM_CLR_PEND] 8 s;
     let afc = be16 (pro s 6) (pro s 7);
     Some (s\<lparr>Si446xCmd := GET_MODEM_STATUS (pro s 0) (pro s 1) (pro s 2) (pro s 3) (pro s 4) (pro s 5) afc,
             freq_offset := afc, latched_rssi := pro s 3, current_rssi := pro s 2\<rparr>)
   }"

definition si446x_start_tx_fast :: "spi_chip \<Rightarrow> 'a chip_scheme \<Rightarrow> 'a chip_scheme option" where
  "si446x_start_tx_fast E s = send_command E [0x31] s"

definition si446x_start_tx_fast_channel :: "spi_chip \<Rightarrow> u8 \<Rightarrow> 'a chip_scheme \<Rightarrow> 'a chip_scheme option" where
  "si446x_start_tx_fast_channel E CHANNEL s = send_command E [0x31, CHANNEL] s"

definition si446x_start_tx :: "spi_chip \<Rightarrow> u8 \<Rightarrow> u8 \<Rightarrow> u16 \<Rightarrow> 'a chip_scheme \<Rightarrow> 'a chip_scheme option" where
  "si446x_start_tx E CHANNEL CONDITION TX_LEN s = do {
     s \<leftarrow> send_command E [0x31, CHANNEL, CONDITION, ucast (drop_bit 8 TX_LEN), ucast TX_LEN, 0, 0] s;
     Some (s\<lparr>current_state := SI_STATE_TX\<rparr>)
   }"

definition si446x_start_rx ::
  "spi_chip \<Rightarrow> u8 \<Rightarrow> u8 \<Rightarrow> u16 \<Rightarrow> u8 \<Rightarrow> u8 \<Rightarrow> u8 \<Rightarrow> 'a chip_scheme \<Rightarrow> 'a chip_scheme option" where
  "si446x_start_rx E CHANNEL CONDITION RX_LEN NEXT_STATE1 NEXT_STATE2 NEXT_STATE3 s = do {
     s \<leftarrow> send_command E [0x32, CHANNEL, CONDITION, ucast (drop_bit 8 RX_LEN), ucast RX_LEN,
            NEXT_STATE1, NEXT_STATE2, NEXT_STATE3] s;
     Some (s\<lparr>current_state := SI_STATE_RX\<rparr>)
   }"

definition si446x_start_rx_fast :: "spi_chip \<Rightarrow> 'a chip_scheme \<Rightarrow> 'a chip_scheme option" where
  "si446x_start_rx_fast E s = send_command E [0x32] s"

definition si446x_start_rx_fast_channel :: "spi_chip \<Rightarrow> u8 \<Rightarrow> 'a chip_scheme \<Rightarrow> 'a chip_scheme option" where
  "si446x_start_rx_fast_channel E CHANNEL s = send_command E [0x32, CHANNEL] s"

definition si446x_fifo_info :: "spi_chip \<Rightarrow> u8 \<Rightarrow> 'a chip_scheme \<Rightarrow> 'a chip_scheme option" where
  "si446x_fifo_info E FIFO s = do {
     s \<leftarrow> command_reply E [0x15, FIFO] 2 s;
     Some (s\<lparr>Si446xCmd := FIFO_INFO (pro s 0) (pro s 1)\<rparr>)
   }"

text \<open>
  The four fast response registers, read from one of them on; the union member has them in the
  order A, B, C, D.
\<close>

definition frr_read :: "spi_chip \<Rightarrow> u8 \<Rightarrow> u8 \<Rightarrow> 'a chip_scheme \<Rightarrow> 'a chip_scheme option" where
  "frr_read E cmd respByteCount s =
     (if unat respByteCount > 16 then None
      else map_option (\<lambda>(r, s). fill_cmd r s) (radio_comm_ReadData E cmd False (unat respByteCount) s))"

definition si446x_frr_a_read :: "spi_chip \<Rightarrow> u8 \<Rightarrow> 'a chip_scheme \<Rightarrow> 'a chip_scheme option" where
  "si446x_frr_a_read E n s = do {
     s \<leftarrow> frr_read E 0x50 n s; Some (s\<lparr>Si446xCmd := FRR_READ (pro s 0) (pro s 1) (pro s 2) (pro s 3)\<rparr>) }"

definition si446x_frr_b_read :: "spi_chip \<Rightarrow> u8 \<Rightarrow> 'a chip_scheme \<Rightarrow> 'a chip_scheme option" where
  "si446x_frr_b_read E n s = do {
     s \<leftarrow> frr_read E 0x51 n s; Some (s\<lparr>Si446xCmd := FRR_READ (pro s 3) (pro s 0) (pro s 1) (pro s 2)\<rparr>) }"

definition si446x_frr_c_read :: "spi_chip \<Rightarrow> u8 \<Rightarrow> 'a chip_scheme \<Rightarrow> 'a chip_scheme option" where
  "si446x_frr_c_read E n s = do {
     s \<leftarrow> frr_read E 0x53 n s; Some (s\<lparr>Si446xCmd := FRR_READ (pro s 2) (pro s 3) (pro s 0) (pro s 1)\<rparr>) }"

definition si446x_frr_d_read :: "spi_chip \<Rightarrow> u8 \<Rightarrow> 'a chip_scheme \<Rightarrow> 'a chip_scheme option" where
  "si446x_frr_d_read E n s = do {
     s \<leftarrow> frr_read E 0x57 n s; Some (s\<lparr>Si446xCmd := FRR_READ (pro s 1) (pro s 2) (pro s 3) (pro s 0)\<rparr>) }"

text \<open>The code sends three bytes (\<open>ARG_COUNT\<close>) and has set two of them: the third is an old one.\<close>

definition si446x_get_adc_reading :: "spi_chip \<Rightarrow> u8 \<Rightarrow> 'a chip_scheme \<Rightarrow> 'a chip_scheme option" where
  "si446x_get_adc_reading E ADC_EN s = do {
     let s = fill_cmd [0x14, ADC_EN] s;
     (r, s) \<leftarrow> radio_comm_SendCmdGetResp E (take 3 (Pro2Cmd s)) 6 s;
     let s = fill_cmd r s;
     Some (s\<lparr>Si446xCmd := GET_ADC_READING (be16 (pro s 0) (pro s 1)) (be16 (pro s 2) (pro s 3)) (be16 (pro s 4) (pro s 5))\<rparr>)
   }"

definition si446x_get_property :: "spi_chip \<Rightarrow> u8 \<Rightarrow> u8 \<Rightarrow> u8 \<Rightarrow> 'a chip_scheme \<Rightarrow> (u8 \<times> 'a chip_scheme) option" where
  "si446x_get_property E GROUP NUM_PROPS START_PROP s =
     (if unat NUM_PROPS > 16 then None
      else do {
        s \<leftarrow> command_reply E [0x12, GROUP, NUM_PROPS, START_PROP] (unat NUM_PROPS) s;
        Some (pro s 0, s)
      })"

definition si446x_get_property_multi ::
  "spi_chip \<Rightarrow> u8 \<Rightarrow> u8 \<Rightarrow> u8 \<Rightarrow> 'a chip_scheme \<Rightarrow> (u8 \<times> u8 list \<times> 'a chip_scheme) option" where
  "si446x_get_property_multi E GROUP NUM_PROPS START_PROP s =
     (if unat NUM_PROPS > 16 then None
      else do {
        s \<leftarrow> command_reply E [0x12, GROUP, NUM_PROPS, START_PROP] (unat NUM_PROPS) s;
        Some (pro s 0, take (unat NUM_PROPS) (Pro2Cmd s), s)
      })"

definition si446x_ircal :: "spi_chip \<Rightarrow> u8 \<Rightarrow> u8 \<Rightarrow> u8 \<Rightarrow> u8 \<Rightarrow> 'a chip_scheme \<Rightarrow> 'a chip_scheme option" where
  "si446x_ircal E step_size rssi_avg RX_CHAIN_SETTING1 RX_CHAIN_SETTING2 s =
     send_command E [0x17, step_size, rssi_avg, RX_CHAIN_SETTING1, RX_CHAIN_SETTING2] s"

definition si446x_get_packet_info :: "spi_chip \<Rightarrow> u8 \<Rightarrow> u16 \<Rightarrow> u16 \<Rightarrow> 'a chip_scheme \<Rightarrow> (u16 \<times> 'a chip_scheme) option" where
  "si446x_get_packet_info E FIELD_NUMBER_MASK LEN DIFF_LEN s = do {
     s \<leftarrow> command_reply E [0x16, FIELD_NUMBER_MASK, ucast (drop_bit 8 LEN), ucast LEN,
            ucast (drop_bit 8 DIFF_LEN), ucast DIFF_LEN] 2 s;
     let l = be16 (pro s 0) (pro s 1);
     Some (l, s\<lparr>Si446xCmd := PACKET_INFO l\<rparr>)
   }"

text \<open>
  The configuration is one array, generated by the tool of the chip's maker: a size, that many
  bytes, the next size, and a zero at the end. \<open>None\<close> is a read behind it.
\<close>

function config_loop :: "spi_chip \<Rightarrow> u8 list \<Rightarrow> 'a chip_scheme \<Rightarrow> 'a chip_scheme option" where
  "config_loop E [] s = None"
| "config_loop E (sz # rest) s =
     (if sz = 0 then Some s
      else if length rest < unat sz then None
      else case radio_comm_SendCmd E (take (unat sz) rest) s of
             None \<Rightarrow> None
           | Some s1 \<Rightarrow> config_loop E (drop (unat sz) rest) s1)"
  by pat_completeness auto
termination by (relation "measure (\<lambda>(E, cfg, _). length cfg)") auto

definition si446x_reset :: "spi_chip \<Rightarrow> u8 list \<Rightarrow> 'a chip_scheme \<Rightarrow> 'a chip_scheme option" where
  "si446x_reset E init_commands s = do {
     let s = s\<lparr>ctsWentHigh := 0, current_state := SI_STATE_BOOT\<rparr>;
     let s = radio_shutdown False (radio_shutdown True s);
     (_, s) \<leftarrow> radio_comm_PollCTS E s;
     s \<leftarrow> config_loop E init_commands s;
     s \<leftarrow> si446x_change_state E SI_STATE_READY s;
     (st, s) \<leftarrow> si446x_request_device_state E s;
     (if st = SI_STATE_READY then Some s else None)
   }"

section \<open>What is on the bus\<close>

text \<open>
  A transaction is the list of the bytes between the assertion and the release of the select
  line. Polls of the reply buffer are no commands.
\<close>

fun bus_step :: "u8 list list \<times> u8 list \<Rightarrow> spi_event \<Rightarrow> u8 list list \<times> u8 list" where
  "bus_step (fs, cur) Sel_Assert = (fs, [])"
| "bus_step (fs, cur) (Spi_Byte b) = (fs, cur @ [b])"
| "bus_step (fs, cur) Sel_Release = (fs @ [cur], [])"
| "bus_step (fs, cur) (Radio_Shutdown go) = (fs, cur)"

definition bus_view :: "spi_event list \<Rightarrow> u8 list list \<times> u8 list" where
  "bus_view tr = foldl bus_step ([], []) tr"

definition is_poll :: "u8 list \<Rightarrow> bool" where
  "is_poll f \<longleftrightarrow> take 1 f = [0x44]"

definition cmds_of :: "u8 list list \<Rightarrow> u8 list list" where
  "cmds_of fs = filter (\<lambda>f. \<not> is_poll f) fs"

definition polls_of :: "u8 list list \<Rightarrow> nat" where
  "polls_of fs = length (takeWhile is_poll (rev fs))"

abbreviation view :: "'a chip_scheme \<Rightarrow> u8 list list \<times> u8 list" where
  "view s \<equiv> bus_view (bus s)"

definition commands :: "'a chip_scheme \<Rightarrow> u8 list list" where
  "commands s = cmds_of (fst (view s))"

text \<open>What a transfer may change: the bus and the ready flag.\<close>

definition bus_only :: "'a chip_scheme \<Rightarrow> 'a chip_scheme \<Rightarrow> bool" where
  "bus_only s s' \<longleftrightarrow> s' = s\<lparr>ctsWentHigh := ctsWentHigh s', bus := bus s'\<rparr>"

lemma bus_view_append [simp]: "bus_view (tr @ es) = foldl bus_step (bus_view tr) es"
  by (simp add: bus_view_def)

lemma put_event_simps [simp]:
  "bus (put_event e s) = bus s @ [e]" "bus (radio_spi_sel_assert s) = bus s @ [Sel_Assert]"
  "bus (radio_spi_sel_no_assert s) = bus s @ [Sel_Release]"
  "bus (snd (radio_spi_go E b s)) = bus s @ [Spi_Byte b]"
  "fst (radio_spi_go E b s) = E (bus s @ [Spi_Byte b])"
  by (simp_all add: put_event_def radio_spi_sel_assert_def radio_spi_sel_no_assert_def radio_spi_go_def Let_def)

lemma event_keeps:
  "ctsWentHigh (put_event e s) = ctsWentHigh s" "ctsWentHigh (radio_spi_sel_no_assert s) = ctsWentHigh s"
  "ctsWentHigh (snd (radio_spi_go E b s)) = ctsWentHigh s"
  by (simp_all add: put_event_def radio_spi_sel_no_assert_def radio_spi_go_def Let_def)

lemma bus_step_pair [simp]:
  "bus_step v Sel_Assert = (fst v, [])" "bus_step v (Spi_Byte b) = (fst v, snd v @ [b])"
  "bus_step v Sel_Release = (fst v @ [snd v], [])"
  by (cases v; simp)+

lemma bus_only_refl [simp, intro]: "bus_only s s"
  by (simp add: bus_only_def)

lemma bus_only_trans: "bus_only s t \<Longrightarrow> bus_only t u \<Longrightarrow> bus_only s u"
  by (cases s; cases t; cases u) (simp add: bus_only_def)

lemma bus_only_steps [simp]:
  "bus_only s (radio_spi_sel_assert s')= bus_only s s'" "bus_only s (radio_spi_sel_no_assert s') = bus_only s s'"
  "bus_only s (snd (radio_spi_go E b s')) = bus_only s s'" "bus_only s (s'\<lparr>ctsWentHigh := c\<rparr>) = bus_only s s'"
  by (cases s; cases s'; auto simp: bus_only_def radio_spi_sel_assert_def radio_spi_sel_no_assert_def
      radio_spi_go_def put_event_def Let_def)+

lemma bus_only_more: "bus_only s s' \<Longrightarrow> chip.more s' = chip.more s \<and> Pro2Cmd s' = Pro2Cmd s"
  by (cases s; cases s') (simp add: bus_only_def)

lemma write_bytes_view:
  "view (spi_write_bytes E bs s) = (fst (view s), snd (view s) @ bs) \<and> bus_only s (spi_write_bytes E bs s)"
proof (induction E bs s rule: spi_write_bytes.induct)
  case (2 E b bs s)
  then show ?case using bus_only_trans[of s "snd (radio_spi_go E b s)"] by auto
qed simp

lemma read_bytes_view:
  assumes "spi_read_bytes E n s = (bs, s')"
  shows "length bs = n \<and> view s' = (fst (view s), snd (view s) @ replicate n 0) \<and> bus_only s s'"
  using assms
proof (induction n arbitrary: s bs s')
  case (Suc n)
  obtain r t where r: "spi_read_bytes E n (snd (radio_spi_go E 0 s)) = (r, t)" by fastforce
  from Suc.prems r have "bs = E (bus s @ [Spi_Byte 0]) # r" "s' = t"
    by (simp_all add: split_beta Let_def)
  with Suc.IH[OF r] show ?case using bus_only_trans[of s "snd (radio_spi_go E 0 s)" t] by auto
qed simp

lemma read_bytes_flag: "ctsWentHigh (snd (spi_read_bytes E n s)) = ctsWentHigh s"
  by (induction n arbitrary: s) (simp_all add: split_beta Let_def event_keeps)

lemma resp_loop_view:
  assumes "resp_loop E k v s = (v', s')" "snd (view s) = [0x44, 0]"
  shows "bus_only s s' \<and> snd (view s') = [0x44, 0] \<and>
    (\<exists>j. fst (view s') = fst (view s) @ replicate j [0x44, 0])"
  using assms
proof (induction E k v s rule: resp_loop.induct)
  case (1 E k v s)
  show ?case
  proof (cases "v \<noteq> 0xFF \<and> k \<le> CTS_TIMEOUT")
    case True
    let ?t = "snd (radio_spi_go E 0 (snd (radio_spi_go E 0x44 (radio_spi_sel_assert (radio_spi_sel_no_assert s)))))"
    let ?b = "fst (radio_spi_go E 0 (snd (radio_spi_go E 0x44 (radio_spi_sel_assert (radio_spi_sel_no_assert s)))))"
    have "resp_loop E (k + 1) ?b ?t = (v', s')"
      using 1(2) True by (subst (asm) resp_loop.simps) (simp add: Let_def split_beta del: put_event_simps)
    moreover have "snd (view ?t) = [0x44, 0]" by simp
    ultimately have IH: "bus_only ?t s'" "snd (view s') = [0x44, 0]"
      "\<exists>j. fst (view s') = fst (view ?t) @ replicate j [0x44, 0]"
      using 1(1)[OF True refl refl refl prod.collapse] by blast+
    obtain j where "fst (view s') = fst (view s) @ replicate (Suc j) [0x44, 0]"
      using IH(3) 1(3) by auto
    moreover have "bus_only s s'" using bus_only_trans[of s ?t s'] IH(1) by simp
    ultimately show ?thesis using IH(2) by blast
  next
    case False
    then have "v' = v \<and> s' = s" using 1(2) by (subst (asm) resp_loop.simps) auto
    then show ?thesis using 1(3) by (auto intro: exI[of _ 0])
  qed
qed

lemma cmds_of_append [simp]: "cmds_of (xs @ ys) = cmds_of xs @ cmds_of ys"
  by (simp add: cmds_of_def)

lemma cmds_of_polls [simp]: "cmds_of (replicate j (0x44 # bs)) = []" "cmds_of [0x44 # bs] = []"
  by (simp_all add: cmds_of_def is_poll_def)

lemma cmds_of_single: "\<not> is_poll f \<Longrightarrow> cmds_of [f] = [f]"
  by (simp add: cmds_of_def)

lemma commands_upd [simp]: "commands (s\<lparr>ctsWentHigh := c\<rparr>) = commands s"
  by (simp add: commands_def)

lemma GetResp_view:
  assumes "radio_comm_GetResp E n s = Some (v, bs, s')"
  shows "v = 0xFF \<and> length bs = n \<and> bus_only s s' \<and> commands s' = commands s \<and> ctsWentHigh s' = 1"
proof -
  let ?t = "snd (radio_spi_go E 0 (snd (radio_spi_go E 0x44 (radio_spi_sel_assert s))))"
  let ?b = "fst (radio_spi_go E 0 (snd (radio_spi_go E 0x44 (radio_spi_sel_assert s))))"
  obtain c u where c: "resp_loop E 0 ?b ?t = (c, u)" by fastforce
  obtain r w where r: "spi_read_bytes E n (u\<lparr>ctsWentHigh := 1\<rparr>) = (r, w)" by fastforce
  have res: "c = 0xFF" "v = 0xFF" "bs = r" "s' = radio_spi_sel_no_assert w"
    using assms c r by (auto simp: radio_comm_GetResp_def Let_def split_beta split: if_splits simp del: put_event_simps)
  have t: "snd (view ?t) = [0x44, 0]" "fst (view ?t) = fst (view s)" "bus_only s ?t" by simp_all
  obtain j where u: "bus_only ?t u" "snd (view u) = [0x44, 0]"
    "fst (view u) = fst (view s) @ replicate j [0x44, 0]" using resp_loop_view[OF c t(1)] t(2) by auto
  have w: "length r = n" "view w = (fst (view u), [0x44, 0] @ replicate n 0)" "bus_only (u\<lparr>ctsWentHigh := 1\<rparr>) w"
    using read_bytes_view[OF r] u(2) by simp_all
  have cts: "ctsWentHigh w = 1" using read_bytes_flag[of E n "u\<lparr>ctsWentHigh := 1\<rparr>"] r by simp
  have "bus_only s w"
    by (rule bus_only_trans[OF bus_only_trans[OF t(3) u(1)]], rule bus_only_trans[OF _ w(3)]) simp
  moreover have "commands (radio_spi_sel_no_assert w) = commands s"
    using w(2) u(3) by (simp add: commands_def)
  ultimately show ?thesis using res w(1) cts by (simp add: event_keeps)
qed

lemma PollCTS_view:
  assumes "radio_comm_PollCTS E s = Some (v, s')"
  shows "bus_only s s' \<and> commands s' = commands s \<and> ctsWentHigh s' = 1"
proof -
  let ?s = "s\<lparr>ctsWentHigh := 0\<rparr>"
  have p0: "poll_loop E 0 ?s = (case radio_comm_GetResp E 0 ?s of None \<Rightarrow> None | Some (_, _, s1) \<Rightarrow> poll_loop E 1 s1)"
    by (subst poll_loop.simps) (simp add: CTS_TIMEOUT_def split: option.split)
  with assms obtain c bs t where g: "radio_comm_GetResp E 0 ?s = Some (c, bs, t)"
    by (auto simp: radio_comm_PollCTS_def bind_eq_Some_conv split: option.splits)
  from GetResp_view[OF this] have t: "bus_only s t" "commands t = commands s" "ctsWentHigh t = 1"
    by (auto intro: bus_only_trans[of s ?s])
  then have "poll_loop E 1 t = Some (1, t)" by (subst poll_loop.simps) simp
  then have "s' = t" using assms p0 g by (auto simp: radio_comm_PollCTS_def bind_eq_Some_conv split: if_splits)
  with t show ?thesis by simp
qed

lemma SendCmd_view:
  assumes "radio_comm_SendCmd E bs s = Some s'" "\<not> is_poll bs"
  shows "bus_only s s' \<and> commands s' = commands s @ [bs]"
proof -
  from assms(1) obtain c t where t: "radio_comm_PollCTS E s = Some (c, t)"
    and s': "s' = (radio_spi_sel_no_assert (spi_write_bytes E bs (radio_spi_sel_assert t)))\<lparr>ctsWentHigh := 0\<rparr>"
    by (auto simp: radio_comm_SendCmd_def bind_eq_Some_conv)
  have w: "view (spi_write_bytes E bs (radio_spi_sel_assert t)) = (fst (view t), bs)"
    "bus_only t (spi_write_bytes E bs (radio_spi_sel_assert t))"
    using write_bytes_view[of E bs "radio_spi_sel_assert t"] bus_only_trans[of t "radio_spi_sel_assert t"] by auto
  have "bus_only s s'" using PollCTS_view[OF t] w(2) bus_only_trans[of s t] s' by simp
  moreover have "commands s' = commands t @ [bs]"
    using w(1) s' assms(2) by (simp add: commands_def cmds_of_single)
  ultimately show ?thesis using PollCTS_view[OF t] by simp
qed

lemma WriteData_view:
  assumes "radio_comm_WriteData E cmd False bs s = Some s'" "cmd \<noteq> 0x44"
  shows "bus_only s s' \<and> commands s' = commands s @ [cmd # bs]"
proof -
  let ?t = "snd (radio_spi_go E cmd (radio_spi_sel_assert s))"
  have s': "s' = (radio_spi_sel_no_assert (spi_write_bytes E bs ?t))\<lparr>ctsWentHigh := 0\<rparr>"
    using assms(1) by (simp add: radio_comm_WriteData_def)
  have w: "view (spi_write_bytes E bs ?t) = (fst (view s), cmd # bs)" "bus_only s (spi_write_bytes E bs ?t)"
    using write_bytes_view[of E bs ?t] bus_only_trans[of s ?t] by auto
  have "\<not> is_poll (cmd # bs)" using assms(2) by (simp add: is_poll_def)
  then show ?thesis using w s' by (simp add: commands_def cmds_of_single)
qed

lemma ReadData_view:
  assumes "radio_comm_ReadData E cmd False n s = Some (bs, s')" "cmd \<noteq> 0x44"
  shows "length bs = n \<and> bus_only s s' \<and> commands s' = commands s @ [cmd # replicate n 0]"
proof -
  let ?t = "snd (radio_spi_go E cmd (radio_spi_sel_assert s))"
  obtain r u where r: "spi_read_bytes E n ?t = (r, u)" by fastforce
  then have s': "bs = r" "s' = (radio_spi_sel_no_assert u)\<lparr>ctsWentHigh := 0\<rparr>"
    using assms(1) by (simp_all add: radio_comm_ReadData_def)
  have w: "length r = n" "view u = (fst (view s), cmd # replicate n 0)" "bus_only s u"
    using read_bytes_view[OF r] bus_only_trans[of s ?t u] by auto
  have "\<not> is_poll (cmd # replicate n 0)" using assms(2) by (simp add: is_poll_def)
  then show ?thesis using w s' by (simp add: commands_def cmds_of_single)
qed

text \<open>
  What a command changes in the state of the layers above: nothing but the fields of the chip.
\<close>

definition chip_only :: "'a chip_scheme \<Rightarrow> 'a chip_scheme \<Rightarrow> bool" where
  "chip_only s s' \<longleftrightarrow> chip.more s' = chip.more s"

lemma chip_only_refl [simp, intro]: "chip_only s s"
  by (simp add: chip_only_def)

lemma chip_only_trans [trans]: "chip_only s t \<Longrightarrow> chip_only t u \<Longrightarrow> chip_only s u"
  by (simp add: chip_only_def)

lemma bus_only_chip: "bus_only s s' \<Longrightarrow> chip_only s s'"
  by (simp add: chip_only_def bus_only_more)

lemma chip_only_upd [simp]:
  "chip_only s (s'\<lparr>Si446xCmd := c\<rparr>) = chip_only s s'" "chip_only s (s'\<lparr>current_state := x\<rparr>) = chip_only s s'"
  "chip_only s (fill_cmd bs s') = chip_only s s'" "chip_only (fill_cmd bs s) s' = chip_only s s'"
  by (simp_all add: chip_only_def fill_cmd_def)

lemma fill_cmd_simps [simp]:
  "bus (fill_cmd bs s) = bus s" "commands (fill_cmd bs s) = commands s"
  "take (length bs) (Pro2Cmd (fill_cmd bs s)) = bs" "n = length bs \<Longrightarrow> take n (Pro2Cmd (fill_cmd bs s)) = bs"
  by (simp_all add: fill_cmd_def commands_def)

lemma send_command_view:
  assumes "send_command E bs s = Some s'" "\<not> is_poll bs"
  shows "chip_only s s' \<and> commands s' = commands s @ [bs]"
  using SendCmd_view[of E bs "fill_cmd bs s" s'] assms bus_only_chip[of "fill_cmd bs s" s']
  by (simp add: send_command_def Let_def)

lemma SendCmdGetResp_view:
  assumes "radio_comm_SendCmdGetResp E bs n s = Some (r, s')" "\<not> is_poll bs"
  shows "bus_only s s' \<and> commands s' = commands s @ [bs] \<and> length r = n"
proof -
  from assms(1) obtain t v where t: "radio_comm_SendCmd E bs s = Some t"
    and g: "radio_comm_GetResp E n t = Some (v, r, s')"
    by (auto simp: radio_comm_SendCmdGetResp_def bind_eq_Some_conv)
  from SendCmd_view[OF t assms(2)] GetResp_view[OF g] show ?thesis by (auto intro: bus_only_trans)
qed

lemma command_reply_view:
  assumes "command_reply E bs n s = Some s'" "\<not> is_poll bs"
  shows "chip_only s s' \<and> commands s' = commands s @ [bs]"
proof -
  from assms(1) obtain r t where r: "radio_comm_SendCmdGetResp E bs n (fill_cmd bs s) = Some (r, t)"
    and s': "s' = fill_cmd r t" by (auto simp: command_reply_def bind_eq_Some_conv Let_def)
  from SendCmdGetResp_view[OF r assms(2)] s' bus_only_chip[of "fill_cmd bs s" t] show ?thesis by simp
qed

text \<open>The commands of the driver, with what each puts on the bus.\<close>

lemma poll_byte [simp]: "is_poll (c # bs) \<longleftrightarrow> c = 0x44"
  by (simp add: is_poll_def)

lemma change_state_view:
  "si446x_change_state E st s = Some s' \<Longrightarrow>
   chip_only s s' \<and> commands s' = commands s @ [[0x34, st]] \<and> current_state s' = st"
  using send_command_view[of E "[0x34, st]" s]
  by (auto simp: si446x_change_state_def bind_eq_Some_conv commands_def)

lemma start_tx_view:
  "si446x_start_tx E ch cond n s = Some s' \<Longrightarrow>
   chip_only s s' \<and> commands s' = commands s @ [[0x31, ch, cond, ucast (drop_bit 8 n), ucast n, 0, 0]]"
  using send_command_view[of E "[0x31, ch, cond, ucast (drop_bit 8 n), ucast n, 0, 0]" s]
  by (auto simp: si446x_start_tx_def bind_eq_Some_conv commands_def)

lemma start_rx_fast_channel_view:
  "si446x_start_rx_fast_channel E ch s = Some s' \<Longrightarrow> chip_only s s' \<and> commands s' = commands s @ [[0x32, ch]]"
  using send_command_view[of E "[0x32, ch]" s] by (simp add: si446x_start_rx_fast_channel_def)

lemma set_property_view:
  "si446x_set_property E g [v] p s = Some s' \<Longrightarrow> chip_only s s' \<and> commands s' = commands s @ [[0x11, g, 1, p, v]]"
  using send_command_view[of E "[0x11, g, 1, p, v]" s] by (simp add: si446x_set_property_def)

lemma write_tx_fifo_view:
  "si446x_write_tx_fifo E bs s = Some s' \<Longrightarrow> chip_only s s' \<and> commands s' = commands s @ [0x66 # bs]"
  using WriteData_view[of E "0x66"] by (auto simp: si446x_write_tx_fifo_def bus_only_chip)

lemma read_rx_fifo_view:
  "si446x_read_rx_fifo E n s = Some (bs, s') \<Longrightarrow>
   length bs = unat n \<and> chip_only s s' \<and> commands s' = commands s @ [0x77 # replicate (unat n) 0]"
  using ReadData_view[of E "0x77"] by (auto simp: si446x_read_rx_fifo_def bus_only_chip)

lemma request_device_state_view:
  "si446x_request_device_state E s = Some (st, s') \<Longrightarrow>
   chip_only s s' \<and> commands s' = commands s @ [[0x33]] \<and> current_state s' = st"
  using command_reply_view[of E "[0x33]" 2 s]
  by (auto simp: si446x_request_device_state_def bind_eq_Some_conv commands_def)

lemma get_int_status_view:
  "si446x_get_int_status E a b c s = Some s' \<Longrightarrow> chip_only s s' \<and> commands s' = commands s @ [[0x20, a, b, c]]"
  using command_reply_view[of E "[0x20, a, b, c]" 8 s]
  by (auto simp: si446x_get_int_status_def bind_eq_Some_conv commands_def chip_only_def Let_def)

lemma get_modem_status_view:
  "si446x_get_modem_status_cmd E c s = Some s' \<Longrightarrow> chip_only s s' \<and> commands s' = commands s @ [[0x22, c]]"
  using command_reply_view[of E "[0x22, c]" 8 s]
  by (auto simp: si446x_get_modem_status_cmd_def bind_eq_Some_conv commands_def chip_only_def Let_def)

lemma fifo_info_view:
  "si446x_fifo_info E c s = Some s' \<Longrightarrow> chip_only s s' \<and> commands s' = commands s @ [[0x15, c]]"
  using command_reply_view[of E "[0x15, c]" 2 s]
  by (auto simp: si446x_fifo_info_def bind_eq_Some_conv commands_def)

lemma get_property_view:
  "si446x_get_property E g n p s = Some (v, s') \<Longrightarrow> chip_only s s' \<and> commands s' = commands s @ [[0x12, g, n, p]]"
  using command_reply_view[of E "[0x12, g, n, p]" "unat n" s]
  by (auto simp: si446x_get_property_def bind_eq_Some_conv split: if_splits)

lemma get_packet_info_view:
  "si446x_get_packet_info E f l d s = Some (v, s') \<Longrightarrow>
   chip_only s s' \<and> commands s' = commands s @ [[0x16, f, ucast (drop_bit 8 l), ucast l, ucast (drop_bit 8 d), ucast d]]"
  using command_reply_view[of E "[0x16, f, ucast (drop_bit 8 l), ucast l, ucast (drop_bit 8 d), ucast d]" 2 s]
  by (auto simp: si446x_get_packet_info_def bind_eq_Some_conv commands_def Let_def)

lemma config_loop_chip: "config_loop E cfg s = Some s' \<Longrightarrow> chip_only s s'"
proof (induction E cfg s rule: config_loop.induct)
  case (2 E sz rest s)
  then show ?case
  proof (cases "sz = 0 \<or> length rest < unat sz")
    case False
    then obtain t where t: "radio_comm_SendCmd E (take (unat sz) rest) s = Some t"
      using 2(2) by (auto split: option.splits)
    have "bus_only s t"
    proof -
      obtain c u where u: "radio_comm_PollCTS E s = Some (c, u)"
        "t = (radio_spi_sel_no_assert (spi_write_bytes E (take (unat sz) rest) (radio_spi_sel_assert u)))\<lparr>ctsWentHigh := 0\<rparr>"
        using t by (auto simp: radio_comm_SendCmd_def bind_eq_Some_conv)
      have "bus_only u (spi_write_bytes E (take (unat sz) rest) (radio_spi_sel_assert u))"
        using write_bytes_view[of E _ "radio_spi_sel_assert u"] bus_only_trans[of u "radio_spi_sel_assert u"] by auto
      with PollCTS_view[OF u(1)] u(2) show ?thesis using bus_only_trans[of s u] by simp
    qed
    moreover have "chip_only t s'" using 2 False t by auto
    ultimately show ?thesis using bus_only_chip chip_only_trans by blast
  qed (use 2 in \<open>auto split: if_splits\<close>)
qed simp

lemma reset_chip: "si446x_reset E cfg s = Some s' \<Longrightarrow> chip_only s s'"
  by (auto simp: si446x_reset_def bind_eq_Some_conv Let_def radio_shutdown_def put_event_def chip_only_def split: if_splits
      dest!: PollCTS_view config_loop_chip change_state_view request_device_state_view bus_only_more)

lemma part_info_chip: "si446x_part_info E s = Some (v, s') \<Longrightarrow> chip_only s s'"
  using command_reply_view[of E "[0x01]" 8 s] by (auto simp: si446x_part_info_def bind_eq_Some_conv Let_def split: if_splits)

lemma func_info_chip: "si446x_func_info E s = Some (v, s') \<Longrightarrow> chip_only s s'"
  using command_reply_view[of E "[0x10]" 6 s] by (auto simp: si446x_func_info_def bind_eq_Some_conv Let_def split: if_splits)

section \<open>The protocol of the chip\<close>

text \<open>
  What the chip does according to its interface: it works on a command for some polls, then the
  reply buffer reads \<open>0xFF\<close> and the bytes of the reply; a fast command is answered at once. The
  functions of the chip's history are parameters.
\<close>

record si446x_protocol =
  reply :: "u8 list list \<Rightarrow> nat \<Rightarrow> u8"
  fast :: "u8 list list \<Rightarrow> u8 \<Rightarrow> nat \<Rightarrow> u8"
  busy_polls :: "u8 list list \<Rightarrow> nat"

definition protocol_chip :: "si446x_protocol \<Rightarrow> spi_chip" where
  "protocol_chip P tr =
     (let (fs, cur) = bus_view tr; cs = cmds_of fs in
      if length cur < 2 then 0
      else if hd cur = 0x44 then
        (if length cur = 2 then (if busy_polls P cs \<le> polls_of fs then 0xFF else 0)
         else reply P cs (length cur - 3))
      else fast P cs (hd cur) (length cur - 2))"

definition ready_in_time :: "si446x_protocol \<Rightarrow> u8 list list \<Rightarrow> bool" where
  "ready_in_time P cs \<longleftrightarrow> busy_polls P cs \<le> CTS_TIMEOUT + 1"

lemma polls_of_simps [simp]:
  "polls_of (fs @ [[0x44, 0]]) = Suc (polls_of fs)" "c \<noteq> 0x44 \<Longrightarrow> polls_of (fs @ [c # bs]) = 0"
  by (simp_all add: polls_of_def)

lemma resp_loop_protocol:
  assumes "snd (view s) = [0x44, 0]" "fst (view s) = fs" "cs = cmds_of fs"
    "v = (if busy_polls P cs \<le> polls_of fs then 0xFF else 0)" "k + (busy_polls P cs - polls_of fs) \<le> CTS_TIMEOUT + 1"
  shows "fst (resp_loop (protocol_chip P) k v s) = 0xFF"
  using assms
proof (induction "busy_polls P cs - polls_of fs" arbitrary: k v s fs)
  case 0
  then show ?case by (subst resp_loop.simps) simp
next
  case (Suc x)
  let ?E = "protocol_chip P"
  let ?s = "snd (radio_spi_go ?E 0x44 (radio_spi_sel_assert (radio_spi_sel_no_assert s)))"
  let ?t = "snd (radio_spi_go ?E 0 ?s)" and ?b = "fst (radio_spi_go ?E 0 ?s)"
  have v: "v = 0" "k \<le> CTS_TIMEOUT" using Suc by auto
  have t: "snd (view ?t) = [0x44, 0]" "fst (view ?t) = fs @ [[0x44, 0]]" using Suc.prems(1,2) by simp_all
  have cs: "cs = cmds_of (fs @ [[0x44, 0]])" using Suc.prems(3) by simp
  have b: "?b = (if busy_polls P cs \<le> polls_of (fs @ [[0x44, 0]]) then 0xFF else 0)"
    using Suc.prems(1-3) cs by (simp add: protocol_chip_def split_beta Let_def)
  have k: "k + 1 + (busy_polls P cs - polls_of (fs @ [[0x44, 0]])) \<le> CTS_TIMEOUT + 1"
    "x = busy_polls P cs - polls_of (fs @ [[0x44, 0]])"
    using Suc.hyps(2) Suc.prems(5) by simp_all
  have "resp_loop ?E k v s = resp_loop ?E (k + 1) ?b ?t"
    using v by (subst resp_loop.simps) (simp add: Let_def split_beta del: put_event_simps)
  then show ?case using Suc.hyps(1)[OF k(2) t cs b k(1)] by simp
qed

lemma read_bytes_protocol:
  assumes "view s = (fs, 0x44 # 0 # rest)"
  shows "fst (spi_read_bytes (protocol_chip P) n s)
    = map (reply P (cmds_of fs)) [length rest ..< length rest + n]"
  using assms
proof (induction n arbitrary: s rest)
  case (Suc n)
  let ?t = "snd (radio_spi_go (protocol_chip P) 0 s)"
  have b: "fst (radio_spi_go (protocol_chip P) 0 s) = reply P (cmds_of fs) (length rest)"
    using Suc.prems by (simp add: protocol_chip_def Let_def)
  have "view ?t = (fs, 0x44 # 0 # (rest @ [0]))" using Suc.prems by simp
  from Suc.IH[OF this] b show ?case
    by (simp add: split_beta Let_def upt_conv_Cons del: put_event_simps upt_Suc)
qed simp

lemma read_bytes_fast:
  assumes "view s = (fs, c # rest)" "c \<noteq> 0x44"
  shows "fst (spi_read_bytes (protocol_chip P) n s)
    = map (fast P (cmds_of fs) c) [length rest ..< length rest + n]"
  using assms
proof (induction n arbitrary: s rest)
  case (Suc n)
  let ?t = "snd (radio_spi_go (protocol_chip P) 0 s)"
  have b: "fst (radio_spi_go (protocol_chip P) 0 s) = fast P (cmds_of fs) c (length rest)"
    using Suc.prems by (simp add: protocol_chip_def Let_def)
  have "view ?t = (fs, c # (rest @ [0]))" using Suc.prems by simp
  from Suc.IH[OF this Suc.prems(2)] b show ?case
    by (simp add: split_beta Let_def upt_conv_Cons del: put_event_simps upt_Suc)
qed simp

lemma ReadData_protocol:
  assumes "c \<noteq> 0x44"
  shows "\<exists>s'. radio_comm_ReadData (protocol_chip P) c False n s = Some (map (fast P (commands s) c) [0..<n], s')"
proof -
  let ?t = "snd (radio_spi_go (protocol_chip P) c (radio_spi_sel_assert s))"
  have "view ?t = (fst (view s), [c])" by simp
  from read_bytes_fast[OF this assms, of P n] show ?thesis
    by (simp add: radio_comm_ReadData_def split_beta commands_def)
qed

lemma GetResp_protocol:
  assumes "ready_in_time P (commands s)"
  shows "\<exists>s'. radio_comm_GetResp (protocol_chip P) n s = Some (0xFF, map (reply P (commands s)) [0..<n], s')"
proof -
  let ?E = "protocol_chip P"
  let ?t = "snd (radio_spi_go ?E 0 (snd (radio_spi_go ?E 0x44 (radio_spi_sel_assert s))))"
  let ?b = "fst (radio_spi_go ?E 0 (snd (radio_spi_go ?E 0x44 (radio_spi_sel_assert s))))"
  obtain c u where u: "resp_loop ?E 0 ?b ?t = (c, u)" by fastforce
  have t: "snd (view ?t) = [0x44, 0]" "fst (view ?t) = fst (view s)" by simp_all
  have b: "?b = (if busy_polls P (commands s) \<le> polls_of (fst (view s)) then 0xFF else 0)"
    by (simp add: protocol_chip_def split_beta Let_def commands_def)
  have "fst (resp_loop ?E 0 ?b ?t) = 0xFF"
    by (rule resp_loop_protocol[OF t _ b]) (use assms in \<open>simp_all add: commands_def ready_in_time_def\<close>)
  then have c: "c = 0xFF" using u by simp
  obtain j where v: "snd (view u) = [0x44, 0]" "fst (view u) = fst (view s) @ replicate j [0x44, 0]"
    using resp_loop_view[OF u t(1)] t(2) by auto
  then have "view (u\<lparr>ctsWentHigh := 1\<rparr>) = (fst (view u), 0x44 # 0 # [])" by (simp add: prod_eq_iff)
  from read_bytes_protocol[OF this, of P n] v(2)
  have "fst (spi_read_bytes ?E n (u\<lparr>ctsWentHigh := 1\<rparr>)) = map (reply P (commands s)) [0..<n]"
    by (simp add: commands_def)
  then show ?thesis using u c by (simp add: radio_comm_GetResp_def Let_def split_beta del: put_event_simps)
qed

lemma PollCTS_protocol:
  assumes "ready_in_time P (commands s)"
  shows "\<exists>s'. radio_comm_PollCTS (protocol_chip P) s = Some (1, s')"
proof -
  obtain t where g: "radio_comm_GetResp (protocol_chip P) 0 (s\<lparr>ctsWentHigh := 0\<rparr>) = Some (0xFF, [], t)"
    using GetResp_protocol[of P "s\<lparr>ctsWentHigh := 0\<rparr>" 0] assms by auto
  from GetResp_view[OF g] have "poll_loop (protocol_chip P) 1 t = Some (1, t)" by (subst poll_loop.simps) simp
  moreover have "poll_loop (protocol_chip P) 0 (s\<lparr>ctsWentHigh := 0\<rparr>) = poll_loop (protocol_chip P) 1 t"
    using g by (subst poll_loop.simps) (simp add: CTS_TIMEOUT_def)
  ultimately show ?thesis by (simp add: radio_comm_PollCTS_def CTS_TIMEOUT_def)
qed

lemma SendCmd_protocol:
  assumes "ready_in_time P (commands s)"
  shows "\<exists>s'. radio_comm_SendCmd (protocol_chip P) bs s = Some s'"
  using PollCTS_protocol[OF assms] by (auto simp: radio_comm_SendCmd_def)

text \<open>
  C23. The byte-level driver implements commands: if the chip is ready within the time limit, a
  command with a reply returns, puts exactly its bytes on the bus (the polls aside), and gives
  the bytes of the reply to it, although the chip answers only single bytes and keeps the driver
  waiting as long as it likes within the limit.
\<close>

theorem command_gets_its_reply:
  assumes "ready_in_time P (commands s)" "ready_in_time P (commands s @ [pCmdData])" "\<not> is_poll pCmdData"
  shows "\<exists>s'. radio_comm_SendCmdGetResp (protocol_chip P) pCmdData n s
      = Some (map (reply P (commands s @ [pCmdData])) [0..<n], s')
    \<and> commands s' = commands s @ [pCmdData] \<and> chip.more s' = chip.more s"
proof -
  obtain t where t: "radio_comm_SendCmd (protocol_chip P) pCmdData s = Some t"
    using SendCmd_protocol[OF assms(1)] by blast
  have c: "commands t = commands s @ [pCmdData]" using SendCmd_view[OF t assms(3)] by simp
  obtain s' where g: "radio_comm_GetResp (protocol_chip P) n t = Some (0xFF, map (reply P (commands t)) [0..<n], s')"
    using GetResp_protocol[of P t n] assms(2) c by auto
  have r: "radio_comm_SendCmdGetResp (protocol_chip P) pCmdData n s
      = Some (map (reply P (commands s @ [pCmdData])) [0..<n], s')"
    using t g c by (simp add: radio_comm_SendCmdGetResp_def)
  from SendCmdGetResp_view[OF r assms(3)] bus_only_more[of s s'] r show ?thesis by auto
qed

definition idle_chip :: chip where
  "idle_chip = \<lparr>ctsWentHigh = 0, current_state = 0, latched_rssi = 0, current_rssi = 0, ph_status = 0,
     modem_status = 0, chip_status = 0, ph_pend = 0, modem_pend = 0, chip_pend = 0, freq_offset = 0,
     Si446xCmd = NO_REPLY, Pro2Cmd = replicate 16 0, bus = []\<rparr>"

lemma command_gets_its_reply_witness:
  "\<exists>s'. radio_comm_SendCmdGetResp (protocol_chip \<lparr>reply = \<lambda>cs k. of_nat k + 7, fast = \<lambda>_ _ _. 0, busy_polls = length\<rparr>)
      [0x33] 2 idle_chip = Some ([7, 8], s') \<and> commands s' = [[0x33]]"
proof -
  let ?P = "\<lparr>reply = \<lambda>cs k. of_nat k + 7, fast = \<lambda>_ _ _. 0, busy_polls = length\<rparr>"
  have c: "commands idle_chip = []" by (simp add: idle_chip_def commands_def bus_view_def cmds_of_def)
  have n: "[0..<2] = [0, Suc 0]" by (simp add: upt_rec)
  show ?thesis
    using command_gets_its_reply[of ?P idle_chip "[0x33]" 2] by (auto simp: c n ready_in_time_def CTS_TIMEOUT_def)
qed

end
