(* ===== verification/Radio_Base.thy ===== *)
theory Radio_Base
  imports Prelude
begin

text \<open>
  The class template \<open>Radio\<close> of \<^verbatim>\<open>DeviceCode/include/Samraksh/Radio.h\<close>, which every radio driver
  holds: the address, the MAC layers that are registered and their handlers. A pointer to
  a handler structure is a number or \<open>None\<close>, the null pointer; an index behind a table gives \<open>None\<close>.
\<close>

definition MAX_MACS_SUPPORTED :: nat where "MAX_MACS_SUPPORTED = 4"

record radio_obj =
  RadioID :: u8
  radio_MyAddress :: u16
  MacIDs :: "u8 list"
  MacIDIndex :: u8
  defaultHandler :: nat
  MacHandlers :: "nat option list"
  Radio_Type :: u8
  radio_Initialized :: bool

definition put_handler :: "nat option \<Rightarrow> radio_obj \<Rightarrow> radio_obj option" where
  "put_handler h r =
     (if unat (MacIDIndex r) < length (MacHandlers r)
      then Some (r\<lparr>MacHandlers := (MacHandlers r)[unat (MacIDIndex r) := h]\<rparr>) else None)"

definition SetMacHandlers :: "nat option \<Rightarrow> radio_obj \<Rightarrow> (bool \<times> radio_obj) option" where
  "SetMacHandlers h r =
     (if h = None then Some (False, r)
      else map_option (\<lambda>r. (True, r\<lparr>MacIDIndex := MacIDIndex r + 1\<rparr>)) (put_handler h r))"

definition GetMacHandler :: "nat \<Rightarrow> radio_obj \<Rightarrow> nat option option" where
  "GetMacHandler MacIndex r =
     (if MacIndex < length (MacHandlers r) then Some (MacHandlers r ! MacIndex) else None)"

definition SetDefaultHandlers :: "radio_obj \<Rightarrow> (bool \<times> radio_obj) option" where
  "SetDefaultHandlers r = map_option (Pair True) (put_handler (Some (defaultHandler r)) r)"

definition Radio_GetAddress :: "radio_obj \<Rightarrow> u16" where "Radio_GetAddress r = radio_MyAddress r"

definition Radio_SetAddress :: "u16 \<Rightarrow> radio_obj \<Rightarrow> bool \<times> radio_obj" where
  "Radio_SetAddress address r = (True, r\<lparr>radio_MyAddress := address\<rparr>)"

definition Radio_Initialize :: "nat option \<Rightarrow> u8 \<Rightarrow> radio_obj \<Rightarrow> (DeviceStatus \<times> radio_obj) option" where
  "Radio_Initialize event_handler mac_id r =
     (if unat (MacIDIndex r) < length (MacIDs r) then
        (let r1 = r\<lparr>MacIDs := (MacIDs r)[unat (MacIDIndex r) := mac_id]\<rparr> in
         case (if event_handler = None then map_option snd (SetDefaultHandlers r1) else put_handler event_handler r1) of
           None \<Rightarrow> None
         | Some r2 \<Rightarrow> Some (DS_Success, r2\<lparr>MacIDIndex := MacIDIndex r2 + 1\<rparr>))
      else None)"

text \<open>
  Both tables are shifted down from the place of the removed entry. The last step of a shift
  reads one place behind the table; what stands there is overwritten at once.
\<close>

definition shift_down :: "nat \<Rightarrow> 'a \<Rightarrow> 'a \<Rightarrow> 'a list \<Rightarrow> 'a list" where
  "shift_down itr behind last_value xs =
     (foldl (\<lambda>l i. l[i := (l @ [behind]) ! (i + 1)]) xs [itr..<length xs])[length xs - 1 := last_value]"

definition Radio_UnInitialize :: "u8 \<Rightarrow> nat option \<Rightarrow> u8 \<Rightarrow> radio_obj \<Rightarrow> DeviceStatus \<times> radio_obj" where
  "Radio_UnInitialize behind_ids behind_handlers mac_id r =
     (case find (\<lambda>i. MacIDs r ! i = mac_id) [0..<MAX_MACS_SUPPORTED] of
        None \<Rightarrow> (DS_Fail, r)
      | Some itr \<Rightarrow>
          (DS_Success, r\<lparr>MacIDs := shift_down itr behind_ids 0 ((MacIDs r)[itr := 0]),
                         MacHandlers := shift_down itr behind_handlers None ((MacHandlers r)[itr := None]),
                         MacIDIndex := MacIDIndex r - 1\<rparr>))"

definition GetRadioID :: "radio_obj \<Rightarrow> u8" where "GetRadioID r = RadioID r"
definition SetRadioID :: "u8 \<Rightarrow> radio_obj \<Rightarrow> radio_obj" where "SetRadioID i r = r\<lparr>RadioID := i\<rparr>"
definition GetRadioType :: "radio_obj \<Rightarrow> u8" where "GetRadioType r = Radio_Type r"
definition SetRadioType :: "u8 \<Rightarrow> radio_obj \<Rightarrow> radio_obj" where "SetRadioType t r = r\<lparr>Radio_Type := t\<rparr>"
definition IsInitialized :: "radio_obj \<Rightarrow> bool" where "IsInitialized r = radio_Initialized r"
definition SetInitialized :: "bool \<Rightarrow> radio_obj \<Rightarrow> radio_obj" where
  "SetInitialized b r = r\<lparr>radio_Initialized := b\<rparr>"
definition GetMacIdIndex :: "radio_obj \<Rightarrow> u8" where "GetMacIdIndex r = MacIDIndex r"

text \<open>Registering a MAC and removing it leaves the tables as they were, if none was registered.\<close>

lemma shift_down_first:
  assumes "length xs = 4" shows "shift_down 0 b v xs = tl xs @ [v]"
proof -
  from assms obtain a1 a2 a3 a4 where "xs = [a1, a2, a3, a4]" by (auto simp: numeral_eq_Suc length_Suc_conv)
  then show ?thesis by (simp add: shift_down_def upt_rec nth_append numeral_eq_Suc)
qed

lemma UnInitialize_Initialize:
  assumes "MacIDIndex r = 0" "MacIDs r = [0, 0, 0, 0]" "MacHandlers r = [None, None, None, None]"
  shows "\<exists>r1. Radio_Initialize (Some h) mac_id r = Some (DS_Success, r1) \<and> GetMacHandler 0 r1 = Some (Some h)
    \<and> Radio_UnInitialize bi bh mac_id r1 = (DS_Success, r)"
  using assms by (simp add: Radio_Initialize_def put_handler_def GetMacHandler_def Radio_UnInitialize_def
      MAX_MACS_SUPPORTED_def upt_rec shift_down_first)

end
