(* ===== verification/Si4468_Driver.thy ===== *)
theory Si4468_Driver
  imports Si446x_Chip Radio_Base Message_Model
begin

unbundle bit_operations_syntax

text \<open>
  The driver of the SI4468 radio, \<^verbatim>\<open>DeviceCode/Targets/Native/radio/SI4468/si4468_driver.cpp\<close>: the locks
  of bus and radio, sending, receiving, clear channel assessment, sleep, the interrupt handler
  and the continuations. The state extends the record of the chip layer. Calls of the MAC, of
  the application and of the board are a history, their answers functions of it. An operation
  runs to its end before the next one begins; an interrupt that arrives while an operation holds
  the bus can only be deferred by the handler, and \<open>interrupts\<close> lets it arrive where the operation
  looks for it. The load and store instructions of a lock may fail for no reason that the
  program can see (\<open>strex_ok\<close>). \<open>None\<close> is undefined behaviour or a call that does not return.
\<close>

section \<open>State\<close>

type_synonym lock_id = u32

definition radio_lock_none :: lock_id where "radio_lock_none = 0"
definition radio_lock_tx :: lock_id where "radio_lock_tx = 1"
definition radio_lock_tx_power :: lock_id where "radio_lock_tx_power = 2"
definition radio_lock_set_channel :: lock_id where "radio_lock_set_channel = 3"
definition radio_lock_cca_ms :: lock_id where "radio_lock_cca_ms = 5"
definition radio_lock_rx :: lock_id where "radio_lock_rx = 6"
definition radio_lock_init :: lock_id where "radio_lock_init = 7"
definition radio_lock_uninit :: lock_id where "radio_lock_uninit = 8"
definition radio_lock_reset :: lock_id where "radio_lock_reset = 9"
definition radio_lock_sleep :: lock_id where "radio_lock_sleep = 10"
definition radio_lock_interrupt :: lock_id where "radio_lock_interrupt = 12"
definition radio_lock_rx_setup :: lock_id where "radio_lock_rx_setup = 13"

lemmas lock_ids = radio_lock_none_def radio_lock_tx_def radio_lock_tx_power_def radio_lock_set_channel_def
  radio_lock_cca_ms_def radio_lock_rx_def radio_lock_init_def radio_lock_uninit_def radio_lock_reset_def
  radio_lock_sleep_def radio_lock_interrupt_def radio_lock_rx_setup_def

definition PH_STATUS_MASK_PACKET_SENT :: u8 where "PH_STATUS_MASK_PACKET_SENT = 0x20"
definition PH_STATUS_MASK_PACKET_RX :: u8 where "PH_STATUS_MASK_PACKET_RX = 0x10"
definition PH_STATUS_MASK_CRC_ERROR :: u8 where "PH_STATUS_MASK_CRC_ERROR = 0x08"
definition MODEM_MASK_SYNC_DETECT :: u8 where "MODEM_MASK_SYNC_DETECT = 0x01"

definition si446x_lock_max_attempts :: nat where "si446x_lock_max_attempts = 2"
definition si446x_packet_size :: nat where "si446x_packet_size = 128"
definition si446x_payload_ts :: nat where "si446x_payload_ts = 124"
definition si446x_default_power :: u32 where "si446x_default_power = 0x7F"
definition si446x_rssi_cca_thresh :: u8 where "si446x_rssi_cca_thresh = 0x7F"
definition si446x_tx_timeout :: nat where "si446x_tx_timeout = 200"

text \<open>\<open>SI446x_TX_DONE_STATE\<close> is the state after sending, in the high half of its byte.\<close>

definition SI446x_TX_DONE_STATE :: u8 where "SI446x_TX_DONE_STATE = push_bit 4 SI_STATE_RX"
definition SI446x_TX_ACK_DONE_STATE :: u8 where "SI446x_TX_ACK_DONE_STATE = push_bit 4 SI_STATE_SPI_ACTIVE"

datatype gpio_port = GPIOA | GPIOB | GPIOC

record pin_setup =
  nirq_port :: gpio_port
  nirq_pin :: u16
  nirq_mf_pin :: u32
  gpio0_port :: gpio_port
  gpio1_port :: gpio_port
  gpio0_pin :: u16
  gpio1_pin :: u16
  cs_port :: gpio_port
  cs_pin :: u16
  sclk_pin :: u16
  miso_pin :: u16
  mosi_pin :: u16
  sdn_port :: gpio_port
  sdn_pin :: u16

datatype drv_call =
    Lock_Attempt lock_id
  | Call_SendAck nat nat u16 NetOpStatus u8
  | Call_Receive nat nat u16
  | Call_RadioInterrupt nat
  | Call_TxCallback nat
  | Call_RxCallback nat u64 "u8 list"
  | Call_Sleep u32
  | Call_PowerPwm bool
  | Call_InitPins
  | Call_EnableInterruptPin u32
  | Call_DisablePin u32
  | Report string

record drv = chip +
  spi_lock :: lock_id
  radio_lock :: lock_id
  defaultRxDoneState :: u8
  SI446X_pin_setup :: pin_setup
  tx_callback :: "nat option"
  rx_callback :: "nat option"
  tx_linked :: bool
  rx_linked :: bool
  int_defer_linked :: bool
  isInit :: bool
  si446x_channel :: u32
  tx_power :: u32
  rx_timestamp :: u64
  radio_si446x_spi2 :: radio_obj
  active_mac_index :: u16
  tx_msg_ptr :: nat
  rx_msg_ptr :: "nat option"
  mem :: "nat \<Rightarrow> message option"
  ack_prepared :: bool
  softwareAckHeader :: "u8 list"
  radioType :: u8
  calls :: "drv_call list"

text \<open>
  The messages \<open>tx_msg\<close> and \<open>rx_msg\<close> of the driver itself have the addresses 0 and 1.
\<close>

definition addr_tx_msg :: nat where "addr_tx_msg = 0"
definition addr_rx_msg :: nat where "addr_rx_msg = 1"

record drv_env =
  spi_answer :: spi_chip
  strex_ok :: "drv_call list \<Rightarrow> bool"
  CurrentTicks :: "spi_event list \<Rightarrow> drv_call list \<Rightarrow> u64"
  irq_arrives :: "spi_event list \<Rightarrow> drv_call list \<Rightarrow> bool"
  mac_receive :: "drv_call list \<Rightarrow> (nat \<Rightarrow> message option) \<Rightarrow> nat option \<times> (nat \<Rightarrow> message option)"
  mac_ack :: "drv_call list \<Rightarrow> (nat \<Rightarrow> message option) \<Rightarrow> (nat \<Rightarrow> message option)"
  Device_Serial :: "u32 \<times> u32 \<times> u32"
  platform_austere :: bool
  init_commands :: "u8 list"
  behind_tables :: "u8 \<times> nat option"

definition log_call :: "drv_call \<Rightarrow> drv \<Rightarrow> drv" where
  "log_call c s = s\<lparr>calls := calls s @ [c]\<rparr>"

definition now :: "drv_env \<Rightarrow> drv \<Rightarrow> u64" where
  "now E s = CurrentTicks E (bus s) (calls s)"

section \<open>Locks\<close>

definition get_lock_inner ::
  "drv_env \<Rightarrow> (drv \<Rightarrow> lock_id) \<Rightarrow> (lock_id \<Rightarrow> drv \<Rightarrow> drv) \<Rightarrow> lock_id \<Rightarrow> drv \<Rightarrow> bool \<times> drv" where
  "get_lock_inner E rd wr ident s =
     (if rd s \<noteq> radio_lock_none then (False, s)
      else let s1 = log_call (Lock_Attempt ident) s in
           if strex_ok E (calls s1) then (True, wr ident s1) else (False, s1))"

fun lock_attempts ::
  "drv_env \<Rightarrow> (drv \<Rightarrow> lock_id) \<Rightarrow> (lock_id \<Rightarrow> drv \<Rightarrow> drv) \<Rightarrow> lock_id \<Rightarrow> nat \<Rightarrow> drv \<Rightarrow> lock_id \<times> drv" where
  "lock_attempts E rd wr ident 0 s = (rd s, s)"
| "lock_attempts E rd wr ident (Suc attempts) s =
     (case get_lock_inner E rd wr ident s of
        (True, s1) \<Rightarrow> (0, s1)
      | (False, s1) \<Rightarrow> lock_attempts E rd wr ident attempts s1)"

definition get_lock ::
  "drv_env \<Rightarrow> (drv \<Rightarrow> lock_id) \<Rightarrow> (lock_id \<Rightarrow> drv \<Rightarrow> drv) \<Rightarrow> lock_id \<Rightarrow> drv \<Rightarrow> lock_id \<times> drv" where
  "get_lock E rd wr ident s = lock_attempts E rd wr ident si446x_lock_max_attempts s"

definition set_spi_lock :: "lock_id \<Rightarrow> drv \<Rightarrow> drv" where "set_spi_lock v s = s\<lparr>spi_lock := v\<rparr>"
definition set_radio_lock :: "lock_id \<Rightarrow> drv \<Rightarrow> drv" where "set_radio_lock v s = s\<lparr>radio_lock := v\<rparr>"

definition free_lock :: "(lock_id \<Rightarrow> drv \<Rightarrow> drv) \<Rightarrow> drv \<Rightarrow> drv" where
  "free_lock wr s = wr radio_lock_none s"

definition si446x_spi_lock :: "drv_env \<Rightarrow> lock_id \<Rightarrow> drv \<Rightarrow> lock_id \<times> drv" where
  "si446x_spi_lock E ident s = get_lock E spi_lock set_spi_lock ident s"

definition si446x_spi_unlock :: "drv \<Rightarrow> drv" where
  "si446x_spi_unlock s = free_lock set_spi_lock s"

definition si446x_radio_lock :: "drv_env \<Rightarrow> lock_id \<Rightarrow> drv \<Rightarrow> lock_id \<times> drv" where
  "si446x_radio_lock E ident s = get_lock E radio_lock set_radio_lock ident s"

definition si446x_radio_unlock :: "drv \<Rightarrow> drv" where
  "si446x_radio_unlock s = free_lock set_radio_lock s"

definition si446x_radio_lock_nofail :: "lock_id \<Rightarrow> drv \<Rightarrow> lock_id \<times> drv" where
  "si446x_radio_lock_nofail ident s = (radio_lock s, s\<lparr>radio_lock := ident\<rparr>)"

definition si446x_radio_lock_if_then_nofail :: "lock_id \<Rightarrow> lock_id \<Rightarrow> drv \<Rightarrow> bool \<times> drv" where
  "si446x_radio_lock_if_then_nofail cond target s =
     (if radio_lock s = cond then (True, s\<lparr>radio_lock := target\<rparr>) else (False, s))"

definition unlock_both :: "drv \<Rightarrow> drv" where
  "unlock_both s = si446x_spi_unlock (si446x_radio_unlock s)"

section \<open>Interrupts\<close>

text \<open>The handlers of the MAC that is registered; a null pointer or a bad index is \<open>None\<close>.\<close>

definition active_mac :: "drv \<Rightarrow> nat option" where
  "active_mac s = Option.bind (GetMacHandler (unat (active_mac_index s)) (radio_si446x_spi2 s)) (\<lambda>h. h)"

definition call_send_ack :: "drv_env \<Rightarrow> u16 \<Rightarrow> NetOpStatus \<Rightarrow> drv \<Rightarrow> drv option" where
  "call_send_ack E sz status s = do {
     h \<leftarrow> active_mac s;
     let s = log_call (Call_SendAck h (tx_msg_ptr s) sz status 0) s;
     Some (s\<lparr>mem := mac_ack E (calls s) (mem s)\<rparr>)
   }"

definition set_radio_power_pwm :: "bool \<Rightarrow> drv \<Rightarrow> drv" where
  "set_radio_power_pwm go s = log_call (Call_PowerPwm go) s"

definition cont_busy :: "drv \<Rightarrow> bool" where
  "cont_busy s \<longleftrightarrow> tx_linked s \<or> rx_linked s \<or> int_defer_linked s"

definition si446x_pkt_tx_int :: "drv \<Rightarrow> drv" where
  "si446x_pkt_tx_int s = (set_radio_power_pwm False s)\<lparr>tx_linked := True\<rparr>"

definition si446x_pkt_rx_int :: "drv \<Rightarrow> drv" where
  "si446x_pkt_rx_int s = s\<lparr>rx_linked := True\<rparr>"

definition si446x_pkt_bad_crc_int :: "drv_env \<Rightarrow> drv \<Rightarrow> drv option" where
  "si446x_pkt_bad_crc_int E s =
     (if spi_lock s \<noteq> radio_lock_interrupt then Some s
      else if radio_lock s \<noteq> radio_lock_rx then Some s
      else map_option si446x_radio_unlock (si446x_fifo_info (spi_answer E) 0x3 s))"

definition sync_detected :: "drv_env \<Rightarrow> u64 \<Rightarrow> drv \<Rightarrow> drv option" where
  "sync_detected E int_ts s = do {
     let s = (snd (si446x_radio_lock_nofail radio_lock_rx s))\<lparr>rx_timestamp := int_ts\<rparr>;
     h \<leftarrow> active_mac s;
     Some (log_call (Call_RadioInterrupt h) s)
   }"

definition si446x_spi2_handle_interrupt :: "drv_env \<Rightarrow> u32 \<Rightarrow> drv \<Rightarrow> drv option" where
  "si446x_spi2_handle_interrupt E Pin s =
     (let int_ts = now E s in
      if Pin \<noteq> nirq_mf_pin (SI446X_pin_setup s) then Some s
      else let (owner, s) = si446x_spi_lock E radio_lock_interrupt s in
      if owner \<noteq> 0 then Some (s\<lparr>int_defer_linked := True\<rparr>)
      else do {
        s \<leftarrow> si446x_get_int_status (spi_answer E) 0 0 0 s;
        let ph = si446x_get_ph_pend s;
        let md = si446x_get_modem_pend s;
        s \<leftarrow> (if md AND MODEM_MASK_SYNC_DETECT \<noteq> 0 then sync_detected E int_ts s else Some s);
        let s = (if ph AND PH_STATUS_MASK_PACKET_RX \<noteq> 0 then si446x_pkt_rx_int s else s);
        let s = (if ph AND PH_STATUS_MASK_PACKET_SENT \<noteq> 0 then si446x_pkt_tx_int s else s);
        s \<leftarrow> (if ph AND PH_STATUS_MASK_CRC_ERROR \<noteq> 0 then si446x_pkt_bad_crc_int E s else Some s);
        Some (si446x_spi_unlock s)
      })"

definition interrupts :: "drv_env \<Rightarrow> drv \<Rightarrow> drv option" where
  "interrupts E s =
     (if irq_arrives E (bus s) (calls s)
      then si446x_spi2_handle_interrupt E (nirq_mf_pin (SI446X_pin_setup s)) s else Some s)"

definition int_cont_do :: "drv_env \<Rightarrow> drv \<Rightarrow> drv option" where
  "int_cont_do E s = si446x_spi2_handle_interrupt E (nirq_mf_pin (SI446X_pin_setup s)) s"

section \<open>Sending\<close>

text \<open>
  The wait for the state change. The count is decremented after its test: when all attempts
  failed it has wrapped to \<open>0xFFFFFFFF\<close>, and the test for \<open>0\<close> that follows is true when the last
  attempt succeeded.
\<close>

fun leave_rx_wait :: "drv_env \<Rightarrow> nat \<Rightarrow> drv \<Rightarrow> (u32 \<times> drv) option" where
  "leave_rx_wait E timeout s =
     Option.bind (si446x_request_device_state (spi_answer E) s)
       (\<lambda>(st, s1).
          if st = SI_STATE_SPI_ACTIVE then Some (of_nat timeout, s1)
          else if timeout = 0 then Some (- 1, s1)
          else leave_rx_wait E (timeout - 1) s1)"

declare leave_rx_wait.simps [simp del]

definition rx_activity :: "drv \<Rightarrow> bool" where
  "rx_activity s \<longleftrightarrow> si446x_get_ph_pend s \<noteq> 0 \<or> si446x_get_modem_pend s \<noteq> 0"

definition si446x_leave_rx :: "drv_env \<Rightarrow> lock_id \<Rightarrow> drv \<Rightarrow> (bool \<times> drv) option" where
  "si446x_leave_rx E ident s =
     (if ident \<noteq> spi_lock s \<or> ident \<noteq> radio_lock s then Some (True, s)
      else do {
        (st, s) \<leftarrow> si446x_request_device_state (spi_answer E) s;
        (if st \<noteq> SI_STATE_RX \<and> st \<noteq> SI_STATE_RX_TUNE then Some (False, s)
         else do {
           (int_enable, s) \<leftarrow> si446x_get_property (spi_answer E) 0x01 1 0 s;
           s \<leftarrow> si446x_set_property (spi_answer E) 0x01 [0] 0 s;
           s \<leftarrow> si446x_get_int_status (spi_answer E) 0xFF 0xFF 0xFF s;
           s \<leftarrow> interrupts E s;
           (if rx_activity s \<or> cont_busy s
            then do { s \<leftarrow> si446x_set_property (spi_answer E) 0x01 [int_enable] 0 s; Some (True, s) }
            else do {
              s \<leftarrow> si446x_change_state (spi_answer E) SI_STATE_SPI_ACTIVE s;
              (timeout, s) \<leftarrow> leave_rx_wait E si446x_tx_timeout s;
              let s = (if timeout = 0 then log_call (Report ''State Change Timeout'') s else s);
              s \<leftarrow> si446x_get_int_status (spi_answer E) 0 0 0 s;
              s \<leftarrow> si446x_fifo_info (spi_answer E) 0x3 s;
              s \<leftarrow> si446x_set_property (spi_answer E) 0x01 [int_enable] 0 s;
              Some (False, s)
            })
         })
      })"

partial_function (option) wait_tx_tune :: "drv_env \<Rightarrow> drv \<Rightarrow> drv option" where
  "wait_tx_tune E s =
     Option.bind (si446x_request_device_state (spi_answer E) s)
       (\<lambda>(st, s1). if st \<noteq> SI_STATE_TX_TUNE then wait_tx_tune E s1 else Some s1)"

text \<open>The frame goes to the chip: its length, its bytes, the age of the event if it is stamped.\<close>

definition send_frame_bytes ::
  "drv_env \<Rightarrow> u8 \<Rightarrow> u8 list \<Rightarrow> u32 \<Rightarrow> bool \<Rightarrow> u8 \<Rightarrow> drv \<Rightarrow> drv option" where
  "send_frame_bytes E chan pkt eventTime doTS after_state s = do {
     let s = set_radio_power_pwm True s;
     let len = (of_nat (length pkt) + (if doTS then 4 else 0) :: u8);
     s \<leftarrow> si446x_write_tx_fifo (spi_answer E) (len # pkt) s;
     s \<leftarrow> (if doTS then do {
             s \<leftarrow> si446x_change_state (spi_answer E) SI_STATE_TX_TUNE s;
             s \<leftarrow> wait_tx_tune E s;
             let eventOffset = (ucast (now E s) - eventTime :: u32);
             si446x_write_tx_fifo (spi_answer E) (word_bytes 4 eventOffset) s
           } else Some s);
     si446x_start_tx (spi_answer E) chan after_state (ucast len + 1) s
   }"

definition si446x_packet_send ::
  "drv_env \<Rightarrow> u8 \<Rightarrow> (nat \<Rightarrow> u8 list option) \<Rightarrow> u8 \<Rightarrow> u32 \<Rightarrow> bool \<Rightarrow> u8 \<Rightarrow> drv \<Rightarrow> (DeviceStatus \<times> drv) option" where
  "si446x_packet_send E chan pkt len eventTime doTS after_state s =
     (if unat len > si446x_packet_size \<or> (doTS \<and> unat len > si446x_payload_ts) then Some (DS_Timeout, s)
      else if \<not> isInit s then Some (DS_Fail, s)
      else let (owner, s) = si446x_spi_lock E radio_lock_tx s in
      if owner \<noteq> 0 then Some (DS_Busy, s)
      else let (owner, s) = si446x_radio_lock E radio_lock_tx s in
      if owner \<noteq> 0 then Some (DS_Busy, si446x_spi_unlock s)
      else do {
        (busy, s) \<leftarrow> si446x_leave_rx E radio_lock_tx s;
        (if busy then Some (DS_Busy, unlock_both s)
         else do {
           (st, s) \<leftarrow> si446x_request_device_state (spi_answer E) s;
           (if st = SI_STATE_ERROR then Some (DS_Fail, unlock_both s)
            else do {
              bs \<leftarrow> pkt (unat len);
              s \<leftarrow> send_frame_bytes E chan bs eventTime doTS after_state s;
              Some (DS_Success, si446x_spi_unlock s)
            })
         })
      })"

text \<open>The bytes at a message pointer.\<close>

definition bytes_at :: "drv \<Rightarrow> nat \<Rightarrow> nat \<Rightarrow> u8 list option" where
  "bytes_at s p n = Option.bind (mem s p) (message_bytes 0 n)"

text \<open>
  Both send functions: the size is a \<open>UINT16\<close> and becomes a \<open>uint8_t\<close>; a failure is told to the
  MAC with the pointer of the message sent last; the pointer that is returned is the one passed.
\<close>

definition send_refused :: "drv_env \<Rightarrow> u16 \<Rightarrow> DeviceStatus \<Rightarrow> drv \<Rightarrow> drv option" where
  "send_refused E sz ret s =
     call_send_ack E sz (case ret of DS_Busy \<Rightarrow> NetworkOperations_Busy
                                   | DS_Timeout \<Rightarrow> NetworkOperations_BadPacket
                                   | _ \<Rightarrow> NetworkOperations_Fail) s"

definition hal_send_common :: "drv_env \<Rightarrow> nat \<Rightarrow> u16 \<Rightarrow> u32 \<Rightarrow> bool \<Rightarrow> drv \<Rightarrow> (nat \<times> drv) option" where
  "hal_send_common E msg sz eventTime doTS s = do {
     (ret, s) \<leftarrow> si446x_packet_send E (ucast (si446x_channel s)) (bytes_at s msg) (ucast sz) eventTime doTS
                   SI446x_TX_DONE_STATE s;
     (if ret \<noteq> DS_Success then do { s \<leftarrow> send_refused E sz ret s; Some (msg, s) }
      else Some (msg, s\<lparr>tx_msg_ptr := msg\<rparr>))
   }"

definition si446x_hal_send :: "drv_env \<Rightarrow> nat \<Rightarrow> u16 \<Rightarrow> drv \<Rightarrow> (nat \<times> drv) option" where
  "si446x_hal_send E msg sz s = hal_send_common E msg sz 0 False s"

definition si446x_hal_send_ts :: "drv_env \<Rightarrow> nat \<Rightarrow> u16 \<Rightarrow> u32 \<Rightarrow> drv \<Rightarrow> (nat \<times> drv) option" where
  "si446x_hal_send_ts E msg sz eventTime s = hal_send_common E msg sz eventTime True s"

definition sendSoftwareAck :: "drv_env \<Rightarrow> u16 \<Rightarrow> drv \<Rightarrow> drv option" where
  "sendSoftwareAck E ack_to s =
     (let s1 = (if ack_prepared s then s
                else s\<lparr>softwareAckHeader := payload_code MFM_OMAC_DATA_ACK #
                          word_bytes 2 (Radio_GetAddress (radio_si446x_spi2 s)) @ drop 3 (softwareAckHeader s),
                       ack_prepared := True\<rparr>);
          s2 = s1\<lparr>softwareAckHeader := take 3 (softwareAckHeader s1) @ word_bytes 2 ack_to\<rparr>
      in map_option snd (si446x_packet_send E (ucast (si446x_channel s2)) (\<lambda>n. Some (take n (softwareAckHeader s2)))
           5 0 False SI446x_TX_ACK_DONE_STATE s2))"

section \<open>Continuations\<close>

definition tx_cont_do :: "drv_env \<Rightarrow> drv \<Rightarrow> drv option" where
  "tx_cont_do E s = do {
     let s = (case tx_callback s of None \<Rightarrow> s | Some f \<Rightarrow> log_call (Call_TxCallback f) s);
     s \<leftarrow> call_send_ack E (of_nat si446x_packet_size) NetworkOperations_Success s;
     Some (snd (si446x_radio_lock_if_then_nofail radio_lock_tx radio_lock_none s))
   }"

text \<open>The RSSI in dBm; the metadata keeps its low byte.\<close>

definition convert_rssi :: "u8 \<Rightarrow> int" where
  "convert_rssi x = uint x div 2 - 0x40 - 70"

definition end_of_reception :: "drv_env \<Rightarrow> drv \<Rightarrow> (u8 \<times> drv) option" where
  "end_of_reception E s = do {
     s \<leftarrow> si446x_get_modem_status_cmd (spi_answer E) 0xFF s;
     let rssi = si446x_get_latched_rssi s;
     s \<leftarrow> si446x_fifo_info (spi_answer E) 0x3 s;
     s \<leftarrow> si446x_change_state (spi_answer E) (defaultRxDoneState s) s;
     Some (rssi, unlock_both s)
   }"

text \<open>The packet is copied into the message of the MAC, with its metadata and its length.\<close>

definition fill_rx_msg :: "u8 list \<Rightarrow> u8 \<Rightarrow> u64 \<Rightarrow> message \<Rightarrow> message option" where
  "fill_rx_msg pkt rssi t m = do {
     m \<leftarrow> write_frame pkt m;
     let m = m\<lparr>metadata := SetReceiveTimeStamp_INT64 t ((metadata m)\<lparr>Rssi := of_int (convert_rssi rssi), Lqi := 0\<rparr>)\<rparr>;
     Some (m\<lparr>header := (header m)\<lparr>hdr_length := of_nat (length pkt)\<rparr>\<rparr>)
   }"

definition deliver_packet :: "drv_env \<Rightarrow> u8 list \<Rightarrow> u8 \<Rightarrow> drv \<Rightarrow> drv option" where
  "deliver_packet E pkt rssi s =
     (case rx_msg_ptr s of
        None \<Rightarrow> Some s
      | Some p \<Rightarrow> do {
          m \<leftarrow> mem s p;
          m \<leftarrow> fill_rx_msg pkt rssi (rx_timestamp s) m;
          h \<leftarrow> active_mac s;
          let s = log_call (Call_Receive h p (ucast (hdr_length (header m)))) (s\<lparr>mem := (mem s)(p \<mapsto> m)\<rparr>);
          let (q, mm) = mac_receive E (calls s) (mem s);
          Some (s\<lparr>rx_msg_ptr := q, mem := mm\<rparr>)
        })"

definition rx_cont_do :: "drv_env \<Rightarrow> drv \<Rightarrow> drv option" where
  "rx_cont_do E s =
     (let (owner, s) = si446x_spi_lock E radio_lock_rx s in
      if owner \<noteq> 0 then Some (s\<lparr>rx_linked := True\<rparr>)
      else let (owner, s) = si446x_radio_lock E radio_lock_rx s in
      do {
        (_, s) \<leftarrow> si446x_request_device_state (spi_answer E) s;
        (sz, s) \<leftarrow> si446x_get_packet_info (spi_answer E) 0 0 0 s;
        (if unat sz > si446x_packet_size then map_option snd (end_of_reception E s)
         else do {
           (pkt, s) \<leftarrow> si446x_read_rx_fifo (spi_answer E) (ucast sz) s;
           let s = (case rx_callback s of None \<Rightarrow> s | Some f \<Rightarrow> log_call (Call_RxCallback f (rx_timestamp s) pkt) s);
           (rssi, s) \<leftarrow> end_of_reception E s;
           deliver_packet E pkt rssi s
         })
      })"

definition si446x_hal_register_tx_callback :: "nat \<Rightarrow> drv \<Rightarrow> drv" where
  "si446x_hal_register_tx_callback f s = s\<lparr>tx_callback := Some f\<rparr>"
definition si446x_hal_unregister_tx_callback :: "drv \<Rightarrow> drv" where
  "si446x_hal_unregister_tx_callback s = s\<lparr>tx_callback := None\<rparr>"
definition si446x_hal_register_rx_callback :: "nat \<Rightarrow> drv \<Rightarrow> drv" where
  "si446x_hal_register_rx_callback f s = s\<lparr>rx_callback := Some f\<rparr>"
definition si446x_hal_unregister_rx_callback :: "drv \<Rightarrow> drv" where
  "si446x_hal_unregister_rx_callback s = s\<lparr>rx_callback := None\<rparr>"

section \<open>Receiving, sleeping, settings\<close>

definition si446x_hal_rx :: "drv_env \<Rightarrow> drv \<Rightarrow> (DeviceStatus \<times> drv) option" where
  "si446x_hal_rx E s =
     (if \<not> isInit s then Some (DS_Fail, s)
      else if cont_busy s then Some (DS_Fail, s)
      else let (owner, s) = si446x_spi_lock E radio_lock_rx_setup s in
      if owner \<noteq> 0 then Some (DS_Busy, s)
      else let (owner, s) = si446x_radio_lock E radio_lock_rx_setup s in
      if owner \<noteq> 0 then Some (DS_Busy, si446x_spi_unlock s)
      else do {
        s \<leftarrow> si446x_get_int_status (spi_answer E) 0xFF 0xFF 0xFF s;
        s \<leftarrow> interrupts E s;
        (if cont_busy s \<or> rx_activity s then Some (DS_Busy, unlock_both s)
         else do {
           let s = si446x_radio_unlock s;
           s \<leftarrow> si446x_start_rx_fast_channel (spi_answer E) (ucast (si446x_channel s)) s;
           Some (DS_Success, si446x_spi_unlock s)
         })
      })"

definition si446x_hal_sleep :: "drv_env \<Rightarrow> drv \<Rightarrow> (DeviceStatus \<times> drv) option" where
  "si446x_hal_sleep E s =
     (if \<not> isInit s then Some (DS_Fail, s)
      else if si446x_request_device_state_shadow s = SI_STATE_SLEEP then Some (DS_Success, s)
      else let (owner, s) = si446x_spi_lock E radio_lock_sleep s in
      if owner \<noteq> 0 then Some (DS_Fail, s)
      else let (owner, s) = si446x_radio_lock E radio_lock_sleep s in
      if owner \<noteq> 0 then Some (DS_Fail, si446x_spi_unlock s)
      else do {
        (busy, s) \<leftarrow> si446x_leave_rx E radio_lock_sleep s;
        (if busy then Some (DS_Fail, unlock_both s)
         else do {
           s \<leftarrow> si446x_change_state (spi_answer E) SI_STATE_SLEEP s;
           Some (DS_Success, unlock_both s)
         })
      })"

definition si446x_hal_tx_power :: "drv_env \<Rightarrow> u32 \<Rightarrow> drv \<Rightarrow> (DeviceStatus \<times> drv) option" where
  "si446x_hal_tx_power E pwr s =
     (if sint pwr < 0 then Some (DS_Fail, s)
      else let (owner, s) = si446x_spi_lock E radio_lock_tx_power s in
      if owner \<noteq> 0 then Some (DS_Fail, s)
      else if \<not> isInit s then Some (DS_Fail, si446x_spi_unlock s)
      else let (owner, s) = si446x_radio_lock E radio_lock_tx_power s in
      if owner \<noteq> 0 then Some (DS_Fail, si446x_spi_unlock s)
      else do {
        s \<leftarrow> si446x_set_property (spi_answer E) 0x22 [ucast pwr] 0x01 s;
        Some (DS_Success, unlock_both (s\<lparr>tx_power := pwr\<rparr>))
      })"

definition si446x_hal_set_channel :: "drv_env \<Rightarrow> u32 \<Rightarrow> drv \<Rightarrow> (DeviceStatus \<times> drv) option" where
  "si446x_hal_set_channel E channel s =
     (if sint channel < 0 then Some (DS_Fail, s)
      else let (owner, s) = si446x_spi_lock E radio_lock_set_channel s in
      if owner \<noteq> 0 then Some (DS_Fail, s)
      else if \<not> isInit s then Some (DS_Fail, si446x_spi_unlock s)
      else let (owner, s) = si446x_radio_lock E radio_lock_set_channel s in
      if owner \<noteq> 0 then Some (DS_Fail, si446x_spi_unlock s)
      else Some (DS_Success, unlock_both (s\<lparr>si446x_channel := channel\<rparr>)))"

definition si446x_hal_set_RadioType :: "u8 \<Rightarrow> drv \<Rightarrow> drv" where
  "si446x_hal_set_RadioType radio s = s\<lparr>radioType := radio\<rparr>"
definition si446x_hal_get_RadioType :: "drv \<Rightarrow> u8" where "si446x_hal_get_RadioType s = radioType s"
definition si446x_hal_get_chan :: "drv \<Rightarrow> u32" where "si446x_hal_get_chan s = si446x_channel s"
definition si446x_hal_get_power :: "drv \<Rightarrow> u32" where "si446x_hal_get_power s = tx_power s"
definition si446x_hal_get_rssi :: "drv \<Rightarrow> u32" where
  "si446x_hal_get_rssi s = ucast (si446x_get_latched_rssi s)"
definition si446x_hal_get_address :: "drv \<Rightarrow> u16" where
  "si446x_hal_get_address s = Radio_GetAddress (radio_si446x_spi2 s)"
definition si446x_hal_set_address :: "u16 \<Rightarrow> drv \<Rightarrow> bool \<times> drv" where
  "si446x_hal_set_address address s =
     (let (r, ro) = Radio_SetAddress address (radio_si446x_spi2 s) in (r, s\<lparr>radio_si446x_spi2 := ro\<rparr>))"
definition si446x_hal_set_default_state :: "u8 \<Rightarrow> drv \<Rightarrow> drv" where
  "si446x_hal_set_default_state defaultState s = s\<lparr>defaultRxDoneState := defaultState\<rparr>"

text \<open>
  Clear channel assessment. The waiting time is computed in milliseconds, in the unsigned
  arithmetic of 64 bits, and passed to a function that takes microseconds.
\<close>

partial_function (option) wait_while_tuning :: "drv_env \<Rightarrow> u8 \<Rightarrow> drv \<Rightarrow> drv option" where
  "wait_while_tuning E st s =
     (if st = SI_STATE_RX_TUNE then
        Option.bind (si446x_request_device_state (spi_answer E) s) (\<lambda>(st1, s1). wait_while_tuning E st1 s1)
      else Some s)"

definition cca_wait :: "drv_env \<Rightarrow> u32 \<Rightarrow> u64 \<Rightarrow> drv \<Rightarrow> drv" where
  "cca_wait E ms started s =
     (let adjusted_ms = (ucast (ucast ms - (now E s - started) div 8000 - 1 :: u64) :: u32)
      in if sint adjusted_ms > 0 then log_call (Call_Sleep adjusted_ms) s else s)"

definition cca_measure :: "drv_env \<Rightarrow> u32 \<Rightarrow> u64 \<Rightarrow> drv \<Rightarrow> (DeviceStatus \<times> drv) option" where
  "cca_measure E ms started s = do {
     (int_enable, s) \<leftarrow> si446x_get_property (spi_answer E) 0x01 1 0 s;
     s \<leftarrow> si446x_set_property (spi_answer E) 0x01 [0] 0 s;
     s \<leftarrow> si446x_get_int_status (spi_answer E) 0xFF 0xFF 0xFF s;
     (if rx_activity s then do {
        s \<leftarrow> si446x_set_property (spi_answer E) 0x01 [int_enable] 0 s;
        Some (DS_Fail, unlock_both s)
      } else do {
        s \<leftarrow> si446x_get_modem_status_cmd (spi_answer E) 0xFF (cca_wait E ms started s);
        let ret = (if si446x_get_current_rssi s \<ge> si446x_rssi_cca_thresh then DS_Busy else DS_Success);
        (_, s) \<leftarrow> si446x_leave_rx E radio_lock_cca_ms s;
        s \<leftarrow> si446x_get_int_status (spi_answer E) 0 0 0 s;
        s \<leftarrow> si446x_fifo_info (spi_answer E) 0x3 s;
        s \<leftarrow> si446x_set_property (spi_answer E) 0x01 [int_enable] 0 s;
        s \<leftarrow> si446x_start_rx_fast_channel (spi_answer E) (ucast (si446x_channel s)) s;
        Some (ret, unlock_both s)
      })
   }"

definition si446x_hal_cca_ms :: "drv_env \<Rightarrow> u32 \<Rightarrow> drv \<Rightarrow> (DeviceStatus \<times> drv) option" where
  "si446x_hal_cca_ms E ms s =
     (let started = now E s in
      if \<not> isInit s then Some (DS_Fail, s)
      else let (owner, s) = si446x_spi_lock E radio_lock_cca_ms s in
      if owner \<noteq> 0 then Some (DS_Fail, s)
      else let (owner, s) = si446x_radio_lock E radio_lock_cca_ms s in
      if owner \<noteq> 0 then Some (DS_Fail, si446x_spi_unlock s)
      else do {
        s \<leftarrow> interrupts E s;
        (if cont_busy s then Some (DS_Fail, unlock_both s)
         else do {
           (st, s) \<leftarrow> si446x_request_device_state (spi_answer E) s;
           (if st \<noteq> SI_STATE_RX \<and> st \<noteq> SI_STATE_RX_TUNE then Some (DS_Fail, unlock_both s)
            else do {
              s \<leftarrow> wait_while_tuning E st s;
              cca_measure E ms started s
            })
         })
      })"

section \<open>Initialization\<close>

text \<open>The serial number of the processor: twelve bytes, as a string of hexadecimal digits.\<close>

definition GetCPUSerial :: "drv_env \<Rightarrow> nat \<Rightarrow> u8 list \<Rightarrow> u8 list" where
  "GetCPUSerial E num_of_bytes ptr =
     (let (d0, d1, d2) = Device_Serial E in
      if num_of_bytes = 12 then word_bytes 4 d0 @ word_bytes 4 d1 @ word_bytes 4 d2 @ drop 12 ptr else ptr)"

definition hex_byte :: "u8 \<Rightarrow> string" where
  "hex_byte b = [''0123456789abcdef'' ! (unat b div 16), ''0123456789abcdef'' ! (unat b mod 16)]"

definition dotnow_serial_numbers :: "string list" where
  "dotnow_serial_numbers =
     [''3400dc05414d303638391043'', ''3600d8053259383732441543'', ''392dd9054355353848400843'',
      ''3400d805414d303631321043'', ''3400d905414d303640461443'', ''3400d605414d303629401043'']"

definition wwf2_serial_numbers :: "string list" where
  "wwf2_serial_numbers =
     [''05de00333035424643163542'', ''05d900333035424643162544'', ''3300d9054642353041381643'',
      ''3300df054642353040531643'']"

definition am_i_wwf :: "drv_env \<Rightarrow> nat" where
  "am_i_wwf E =
     (if platform_austere E then 3
      else let my_serial = concat (map hex_byte (GetCPUSerial E 12 (replicate 12 0))) in
        if my_serial \<in> set dotnow_serial_numbers then 0
        else if my_serial \<in> set wwf2_serial_numbers then 2 else 1)"

definition GPIO_Pin :: "nat \<Rightarrow> u16" where "GPIO_Pin n = push_bit n 1"

text \<open>The four boards; bus, clock and data pins are the same on all of them.\<close>

definition pins :: "gpio_port \<Rightarrow> nat \<Rightarrow> u32 \<Rightarrow> gpio_port \<times> nat \<Rightarrow> gpio_port \<times> nat \<Rightarrow> gpio_port \<times> nat
    \<Rightarrow> gpio_port \<times> nat \<Rightarrow> pin_setup" where
  "pins irq_port irq mf_pin gpio0 gpio1 cs sdn =
     \<lparr>nirq_port = irq_port, nirq_pin = GPIO_Pin irq, nirq_mf_pin = mf_pin, gpio0_port = fst gpio0,
      gpio1_port = fst gpio1, gpio0_pin = GPIO_Pin (snd gpio0), gpio1_pin = GPIO_Pin (snd gpio1),
      cs_port = fst cs, cs_pin = GPIO_Pin (snd cs), sclk_pin = GPIO_Pin 13, miso_pin = GPIO_Pin 14,
      mosi_pin = GPIO_Pin 15, sdn_port = fst sdn, sdn_pin = GPIO_Pin (snd sdn)\<rparr>"

definition choose_hardware_config :: "nat \<Rightarrow> pin_setup" where
  "choose_hardware_config isWWF =
     (if isWWF = 1 then pins GPIOB 10 26 (GPIOA, 6) (GPIOA, 0) (GPIOB, 12) (GPIOB, 11)
      else if isWWF = 2 then pins GPIOB 10 26 (GPIOB, 6) (GPIOA, 3) (GPIOB, 12) (GPIOB, 11)
      else if isWWF = 3 then pins GPIOB 10 26 (GPIOC, 0) (GPIOC, 1) (GPIOB, 12) (GPIOB, 11)
      else pins GPIOA 1 1 (GPIOA, 3) (GPIOA, 8) (GPIOA, 4) (GPIOA, 2))"

text \<open>The address of the node: the six halves of the serial number, combined by exclusive or.\<close>

definition serial_hash :: "drv_env \<Rightarrow> u16" where
  "serial_hash E =
     (let bs = GetCPUSerial E 12 (replicate 12 0)
      in foldl (\<lambda>h i. h XOR bytes_word (take 2 (drop (2 * i) bs))) 0 [0..<6])"

definition check_property :: "drv_env \<Rightarrow> u8 \<Rightarrow> u8 \<Rightarrow> u8 \<Rightarrow> drv \<Rightarrow> drv option" where
  "check_property E grp prop v s = do {
     (temp, s) \<leftarrow> si446x_get_property (spi_answer E) grp 1 prop s;
     (if temp \<noteq> v then si446x_set_property (spi_answer E) grp [v] prop s else Some s)
   }"

definition init_radio_chip :: "drv_env \<Rightarrow> drv \<Rightarrow> (int \<times> drv) option" where
  "init_radio_chip E s = do {
     let s = log_call Call_InitPins (s\<lparr>SI446X_pin_setup := choose_hardware_config (am_i_wwf E), si446x_channel := 0,
               tx_power := si446x_default_power, tx_msg_ptr := addr_tx_msg, rx_msg_ptr := Some addr_rx_msg\<rparr>);
     s \<leftarrow> si446x_reset (spi_answer E) (init_commands E) s;
     (e1, s) \<leftarrow> si446x_part_info (spi_answer E) s;
     (e2, s) \<leftarrow> si446x_func_info (spi_answer E) s;
     Some (e1 + e2, s)
   }"

definition init_radio_object :: "drv_env \<Rightarrow> nat option \<Rightarrow> u8 \<Rightarrow> drv \<Rightarrow> (DeviceStatus \<times> drv) option" where
  "init_radio_object E event_handler mac_id s = do {
     let s = s\<lparr>active_mac_index := ucast (GetMacIdIndex (radio_si446x_spi2 s))\<rparr>;
     (r, ro) \<leftarrow> Radio_Initialize event_handler mac_id (radio_si446x_spi2 s);
     (if r \<noteq> DS_Success then Some (DS_Fail, s\<lparr>radio_si446x_spi2 := ro\<rparr>)
      else let s = s\<lparr>radio_si446x_spi2 := snd (Radio_SetAddress (serial_hash E) ro)\<rparr>;
               s = log_call (Call_EnableInterruptPin (nirq_mf_pin (SI446X_pin_setup s))) s
           in Some (DS_Success, s\<lparr>tx_linked := False, rx_linked := False, int_defer_linked := False\<rparr>))
   }"

definition si446x_hal_init :: "drv_env \<Rightarrow> nat option \<Rightarrow> u8 \<Rightarrow> drv \<Rightarrow> (DeviceStatus \<times> drv) option" where
  "si446x_hal_init E event_handler mac_id s =
     (let (owner, s) = si446x_spi_lock E radio_lock_init s in
      if owner \<noteq> 0 then Some (DS_Fail, s)
      else do {
        (reset_errors, s) \<leftarrow> init_radio_chip E s;
        (if reset_errors \<noteq> 0 then Some (DS_Fail, unlock_both s)
         else do {
           let s = s\<lparr>isInit := True\<rparr>;
           s \<leftarrow> si446x_get_int_status (spi_answer E) 0 0 0 s;
           (_, s) \<leftarrow> si446x_request_device_state (spi_answer E) s;
           s \<leftarrow> check_property E 0x00 0x03 0x70 s;
           s \<leftarrow> check_property E 0x12 0x08 0x22 s;
           s \<leftarrow> check_property E 0x12 0x12 0x90 s;
           s \<leftarrow> si446x_fifo_info (spi_answer E) 0x3 s;
           (ret, s) \<leftarrow> init_radio_object E event_handler mac_id s;
           Some (ret, unlock_both s)
         })
      })"

text \<open>The MAC is removed by its index, where \<open>UnInitialize\<close> expects its id.\<close>

definition si446x_hal_uninitialize :: "drv_env \<Rightarrow> drv \<Rightarrow> DeviceStatus \<times> drv" where
  "si446x_hal_uninitialize E s =
     (let (owner, s) = si446x_spi_lock E radio_lock_uninit s in
      if owner \<noteq> 0 then (DS_Fail, s)
      else if \<not> isInit s then (DS_Fail, si446x_spi_unlock s)
      else
        let s = radio_shutdown True (s\<lparr>isInit := False\<rparr>);
            s = log_call (Call_DisablePin (nirq_mf_pin (SI446X_pin_setup s))) s;
            (ret, ro) = Radio_UnInitialize (fst (behind_tables E)) (snd (behind_tables E))
                          (ucast (active_mac_index s)) (SetInitialized False (radio_si446x_spi2 s))
        in (ret, unlock_both (s\<lparr>rx_callback := None, tx_callback := None, radio_si446x_spi2 := ro\<rparr>)))"

definition si446x_hal_reset :: "drv_env \<Rightarrow> drv \<Rightarrow> (DeviceStatus \<times> drv) option" where
  "si446x_hal_reset E s =
     (let (owner, s) = si446x_spi_lock E radio_lock_reset s in
      if owner \<noteq> 0 then Some (DS_Fail, s)
      else do {
        s \<leftarrow> si446x_reset (spi_answer E) (init_commands E) s;
        s \<leftarrow> si446x_get_int_status (spi_answer E) 0 0 0 s;
        s \<leftarrow> si446x_fifo_info (spi_answer E) 0x3 s;
        Some (DS_Success, s)
      })"

end
