(* ===== verification/Si4468_Locks.thy ===== *)
theory Si4468_Locks
  imports Si4468_Driver
begin

unbundle bit_operations_syntax

text \<open>
  What the driver of the SI4468 radio promises: the locks of bus and radio over all operations,
  interrupts and continuations, the bounded wait for the chip, and the way of a message from the
  driver of one node to that of another.
\<close>

section \<open>Lemmas on locks and chip operations\<close>

text \<open>A chip operation leaves every field of the driver as it is.\<close>

lemma chip_only_drv:
  assumes "chip_only s (s' :: drv)"
  shows "spi_lock s' = spi_lock s" "radio_lock s' = radio_lock s" "defaultRxDoneState s' = defaultRxDoneState s"
    "SI446X_pin_setup s' = SI446X_pin_setup s" "tx_callback s' = tx_callback s" "rx_callback s' = rx_callback s"
    "tx_linked s' = tx_linked s" "rx_linked s' = rx_linked s" "int_defer_linked s' = int_defer_linked s"
    "isInit s' = isInit s" "si446x_channel s' = si446x_channel s" "tx_power s' = tx_power s"
    "rx_timestamp s' = rx_timestamp s" "radio_si446x_spi2 s' = radio_si446x_spi2 s"
    "active_mac_index s' = active_mac_index s" "tx_msg_ptr s' = tx_msg_ptr s" "rx_msg_ptr s' = rx_msg_ptr s"
    "mem s' = mem s" "calls s' = calls s"
  using assms by (cases s; cases s'; simp add: chip_only_def)+

lemmas chip_views = change_state_view start_tx_view start_rx_fast_channel_view set_property_view
  write_tx_fifo_view read_rx_fifo_view request_device_state_view get_int_status_view get_modem_status_view
  fifo_info_view get_property_view get_packet_info_view

abbreviation locks :: "drv \<Rightarrow> lock_id \<times> lock_id" where
  "locks s \<equiv> (spi_lock s, radio_lock s)"

lemma chip_only_locks: "chip_only s s' \<Longrightarrow> locks s' = locks s"
  by (simp add: chip_only_drv)

lemma drv_upd_simps [simp]:
  "commands (log_call c s) = commands s" "commands (set_spi_lock v s) = commands s"
  "commands (set_radio_lock v s) = commands s" "commands (si446x_spi_unlock s) = commands s"
  "commands (si446x_radio_unlock s) = commands s" "commands (unlock_both s) = commands s"
  "spi_lock (log_call c s) = spi_lock s" "radio_lock (log_call c s) = radio_lock s"
  "spi_lock (si446x_spi_unlock s) = 0" "radio_lock (si446x_spi_unlock s) = radio_lock s"
  "spi_lock (si446x_radio_unlock s) = spi_lock s" "radio_lock (si446x_radio_unlock s) = 0"
  "spi_lock (unlock_both s) = 0" "radio_lock (unlock_both s) = 0"
  by (simp_all add: commands_def log_call_def set_spi_lock_def set_radio_lock_def si446x_spi_unlock_def
      si446x_radio_unlock_def unlock_both_def free_lock_def radio_lock_none_def)

lemma commands_drv_upd [simp]:
  "commands (s\<lparr>spi_lock := a\<rparr>) = commands s" "commands (s\<lparr>radio_lock := b\<rparr>) = commands s"
  "commands (s\<lparr>calls := c\<rparr>) = commands s" "commands (s\<lparr>tx_linked := d\<rparr>) = commands s"
  "commands (s\<lparr>rx_linked := d\<rparr>) = commands s" "commands (s\<lparr>int_defer_linked := d\<rparr>) = commands s"
  "commands (s\<lparr>tx_msg_ptr := p\<rparr>) = commands s" "commands (s\<lparr>rx_msg_ptr := q\<rparr>) = commands s"
  "commands (s\<lparr>mem := m\<rparr>) = commands s" "commands (s\<lparr>rx_timestamp := t\<rparr>) = commands s"
  "commands (s\<lparr>tx_power := pw\<rparr>) = commands s" "commands (s\<lparr>si446x_channel := ch\<rparr>) = commands s"
  by (simp_all add: commands_def)

lemma lock_ids_pos: "radio_lock_none = 0" by (simp add: radio_lock_none_def)

lemma get_lock_busy:
  assumes "rd s \<noteq> 0"
  shows "get_lock E rd wr i s = (rd s, s)"
  using assms by (simp add: get_lock_def si446x_lock_max_attempts_def numeral_2_eq_2 get_lock_inner_def lock_ids_pos)

lemma spi_lock_busy [simp]: "spi_lock s \<noteq> 0 \<Longrightarrow> si446x_spi_lock E i s = (spi_lock s, s)"
  by (simp add: si446x_spi_lock_def get_lock_busy)

lemma radio_lock_busy [simp]: "radio_lock s \<noteq> 0 \<Longrightarrow> si446x_radio_lock E i s = (radio_lock s, s)"
  by (simp add: si446x_radio_lock_def get_lock_busy)

text \<open>A free lock is reported as taken, whether a store succeeded or not.\<close>

definition stored :: "drv_env \<Rightarrow> lock_id \<Rightarrow> drv \<Rightarrow> bool" where
  "stored E i s \<longleftrightarrow> strex_ok E (calls s @ [Lock_Attempt i]) \<or> strex_ok E (calls s @ [Lock_Attempt i, Lock_Attempt i])"

lemma get_lock_free:
  assumes "rd s = 0" "rd (log_call (Lock_Attempt i) s) = 0" "rd (log_call (Lock_Attempt i) (log_call (Lock_Attempt i) s)) = 0"
  shows "\<exists>cs. get_lock E rd wr i s = (0, (if stored E i s then wr i else id) (s\<lparr>calls := calls s @ cs\<rparr>))"
proof -
  have "get_lock E rd wr i s =
      (if strex_ok E (calls s @ [Lock_Attempt i]) then (0, wr i (s\<lparr>calls := calls s @ [Lock_Attempt i]\<rparr>))
       else if strex_ok E (calls s @ [Lock_Attempt i, Lock_Attempt i])
       then (0, wr i (s\<lparr>calls := calls s @ [Lock_Attempt i, Lock_Attempt i]\<rparr>))
       else (0, s\<lparr>calls := calls s @ [Lock_Attempt i, Lock_Attempt i]\<rparr>))"
    using assms by (simp add: get_lock_def si446x_lock_max_attempts_def numeral_2_eq_2 get_lock_inner_def
        lock_ids_pos Let_def log_call_def)
  then show ?thesis
    by (cases "strex_ok E (calls s @ [Lock_Attempt i])") (auto simp: stored_def)
qed

lemma spi_lock_free:
  assumes "spi_lock s = 0"
  shows "\<exists>cs. si446x_spi_lock E i s = (0, s\<lparr>calls := calls s @ cs, spi_lock := if stored E i s then i else 0\<rparr>)"
proof -
  obtain cs where "si446x_spi_lock E i s = (0, (if stored E i s then set_spi_lock i else id) (s\<lparr>calls := calls s @ cs\<rparr>))"
    using get_lock_free[of spi_lock s i E set_spi_lock] assms by (auto simp: si446x_spi_lock_def log_call_def)
  moreover have "s\<lparr>calls := calls s @ cs, spi_lock := 0\<rparr> = s\<lparr>calls := calls s @ cs\<rparr>" using assms by (cases s) simp
  ultimately show ?thesis by (intro exI[of _ cs]) (simp add: set_spi_lock_def)
qed

lemma radio_lock_free:
  assumes "radio_lock s = 0"
  shows "\<exists>cs. si446x_radio_lock E i s = (0, s\<lparr>calls := calls s @ cs, radio_lock := if stored E i s then i else 0\<rparr>)"
proof -
  obtain cs where "si446x_radio_lock E i s = (0, (if stored E i s then set_radio_lock i else id) (s\<lparr>calls := calls s @ cs\<rparr>))"
    using get_lock_free[of radio_lock s i E set_radio_lock] assms by (auto simp: si446x_radio_lock_def log_call_def)
  moreover have "s\<lparr>calls := calls s @ cs, radio_lock := 0\<rparr> = s\<lparr>calls := calls s @ cs\<rparr>" using assms by (cases s) simp
  ultimately show ?thesis by (intro exI[of _ cs]) (simp add: set_radio_lock_def)
qed

text \<open>
  What a lock function answers. A lock with an owner is not touched, and the owner is the
  answer. For a free lock the answer is 0, which all callers take for success: if one of
  the two stores succeeds, the lock has the caller as its owner; if both fail, as the processor
  may let them, the lock is still free, and the answer is 0 all the same.
\<close>

theorem lock_answers:
  "(owner = radio_lock s \<longrightarrow> owner \<noteq> 0 \<longrightarrow> si446x_radio_lock E i s = (owner, s))
   \<and> (radio_lock s = 0 \<longrightarrow>
      (\<exists>s'. si446x_radio_lock E i s = (0, s') \<and> radio_lock s' = (if stored E i s then i else 0)
        \<and> spi_lock s' = spi_lock s \<and> commands s' = commands s))"
  using radio_lock_free[of s E i] by auto

section \<open>The interrupt handler\<close>

lemma handler_deferred:
  assumes "spi_lock s \<noteq> 0"
  shows "si446x_spi2_handle_interrupt E pin s
    = Some (if pin = nirq_mf_pin (SI446X_pin_setup s) then s\<lparr>int_defer_linked := True\<rparr> else s)"
  using assms by (simp add: si446x_spi2_handle_interrupt_def)

lemma interrupts_locked:
  "spi_lock s \<noteq> 0 \<Longrightarrow> \<exists>d. interrupts E s = Some (s\<lparr>int_defer_linked := d\<rparr>)"
  by (cases "irq_arrives E (bus s) (calls s)") (auto simp: interrupts_def handler_deferred intro: exI[of _ "int_defer_linked s"])

lemma sync_detected_locks:
  "sync_detected E t s = Some s' \<Longrightarrow> spi_lock s' = spi_lock s \<and> radio_lock s' = radio_lock_rx \<and> commands s' = commands s
    \<and> SI446X_pin_setup s' = SI446X_pin_setup s"
  by (auto simp: sync_detected_def bind_eq_Some_conv si446x_radio_lock_nofail_def log_call_def Let_def)

lemma bad_crc_locks:
  "si446x_pkt_bad_crc_int E s = Some s' \<Longrightarrow>
   spi_lock s' = spi_lock s \<and> (radio_lock s' = radio_lock s \<or> radio_lock s' = 0)"
  by (auto simp: si446x_pkt_bad_crc_int_def si446x_radio_unlock_def free_lock_def set_radio_lock_def lock_ids_pos
      split: if_splits dest!: fifo_info_view chip_only_locks)

lemma pkt_int_simps [simp]:
  "spi_lock (si446x_pkt_rx_int s) = spi_lock s" "radio_lock (si446x_pkt_rx_int s) = radio_lock s"
  "spi_lock (si446x_pkt_tx_int s) = spi_lock s" "radio_lock (si446x_pkt_tx_int s) = radio_lock s"
  by (simp_all add: si446x_pkt_rx_int_def si446x_pkt_tx_int_def set_radio_power_pwm_def log_call_def)

text \<open>What an interrupt does to the locks: the bus is free afterwards, the radio may be taken for a reception.\<close>

lemma handler_locks:
  assumes "si446x_spi2_handle_interrupt E pin s = Some s'" "spi_lock s = 0"
  shows "spi_lock s' = 0 \<and> radio_lock s' \<in> {radio_lock s, 0, radio_lock_rx}"
proof (cases "pin = nirq_mf_pin (SI446X_pin_setup s)")
  case True
  obtain t where l: "si446x_spi_lock E radio_lock_interrupt s = (0, t)" "radio_lock t = radio_lock s"
    using spi_lock_free[OF assms(2), of E radio_lock_interrupt] by auto
  let ?b = "\<lambda>c (u::drv). if c then si446x_pkt_rx_int u else u"
  obtain u1 u2 u5 p1 p2 p3 where u1: "si446x_get_int_status (spi_answer E) 0 0 0 t = Some u1"
    and u2: "(if si446x_get_modem_pend u1 AND MODEM_MASK_SYNC_DETECT \<noteq> 0 then sync_detected E (now E s) u1 else Some u1) = Some u2"
    and u5: "(if p3 then si446x_pkt_bad_crc_int E (if p2 then si446x_pkt_tx_int (?b p1 u2) else ?b p1 u2)
              else Some (if p2 then si446x_pkt_tx_int (?b p1 u2) else ?b p1 u2)) = Some u5"
    and s': "s' = si446x_spi_unlock u5"
    using assms(1) True l by (auto simp: si446x_spi2_handle_interrupt_def Let_def bind_eq_Some_conv)
  have "radio_lock u1 = radio_lock s" using get_int_status_view[OF u1] chip_only_locks l(2) by fastforce
  then have "radio_lock u2 \<in> {radio_lock s, radio_lock_rx}"
    using u2 sync_detected_locks[of E _ u1 u2] by (auto split: if_splits)
  then have "radio_lock u5 \<in> {radio_lock s, 0, radio_lock_rx}"
    using u5 bad_crc_locks[of E "if p2 then si446x_pkt_tx_int (?b p1 u2) else ?b p1 u2" u5]
    by (auto split: if_splits)
  then show ?thesis using s' by (simp add: si446x_spi_unlock_def free_lock_def set_spi_lock_def lock_ids_pos)
next
  case False
  then show ?thesis using assms by (simp add: si446x_spi2_handle_interrupt_def)
qed

section \<open>Leaving the reception\<close>

text \<open>
  Commands that neither send nor receive, and what an operation may change while it holds the
  locks: fields of the chip, a deferred interrupt, the history.
\<close>

definition quiet :: "u8 list \<Rightarrow> bool" where
  "quiet c \<longleftrightarrow> hd c \<notin> {0x31, 0x32, 0x66}"

definition steady :: "drv \<Rightarrow> drv \<Rightarrow> bool" where
  "steady s s' \<longleftrightarrow> (\<exists>d c. chip_only (s\<lparr>int_defer_linked := d, calls := c\<rparr>) s')
     \<and> (\<exists>cs. commands s' = commands s @ cs \<and> (\<forall>c\<in>set cs. quiet c))"

lemma steady_chip: "chip_only s s' \<Longrightarrow> commands s' = commands s @ [c] \<Longrightarrow> quiet c \<Longrightarrow> steady s s'"
  unfolding steady_def
  by (intro conjI exI[of _ "int_defer_linked s"] exI[of _ "calls s"] exI[of _ "[c]"]) simp_all

lemma chip_only_defer: "chip_only (s\<lparr>int_defer_linked := d, calls := c\<rparr>) t
    \<Longrightarrow> chip_only (s\<lparr>int_defer_linked := d', calls := c'\<rparr>) (t\<lparr>int_defer_linked := d', calls := c'\<rparr>)"
  by (cases s; cases t; simp add: chip_only_def)

lemma steady_trans: 
  assumes "steady s t" "steady t u" shows "steady s u"
proof -
  from assms(1) obtain d c cs where 1: "chip_only (s\<lparr>int_defer_linked := d, calls := c\<rparr>) t"
    "commands t = commands s @ cs" "\<forall>c\<in>set cs. quiet c" by (auto simp: steady_def)
  from assms(2) obtain d' c' cs' where 2: "chip_only (t\<lparr>int_defer_linked := d', calls := c'\<rparr>) u"
    "commands u = commands t @ cs'" "\<forall>c\<in>set cs'. quiet c" by (auto simp: steady_def)
  have "chip_only (s\<lparr>int_defer_linked := d', calls := c'\<rparr>) u"
    using chip_only_defer[OF 1(1)] 2(1) chip_only_trans by blast
  moreover have "commands u = commands s @ (cs @ cs')" using 1 2 by simp
  ultimately show ?thesis unfolding steady_def using 1(3) 2(3)
    by (metis (no_types, lifting) Un_iff set_append)
qed

lemma steady_drv:
  assumes "steady s s'"
  shows "spi_lock s' = spi_lock s" "radio_lock s' = radio_lock s" "isInit s' = isInit s"
    "si446x_channel s' = si446x_channel s" "tx_msg_ptr s' = tx_msg_ptr s" "rx_msg_ptr s' = rx_msg_ptr s"
    "mem s' = mem s" "SI446X_pin_setup s' = SI446X_pin_setup s" "rx_timestamp s' = rx_timestamp s"
    "radio_si446x_spi2 s' = radio_si446x_spi2 s" "active_mac_index s' = active_mac_index s"
    "defaultRxDoneState s' = defaultRxDoneState s" "tx_linked s' = tx_linked s" "rx_linked s' = rx_linked s"
proof -
  from assms obtain d c where "chip_only (s\<lparr>int_defer_linked := d, calls := c\<rparr>) s'" by (auto simp: steady_def)
  note f = chip_only_drv[OF this]
  show "spi_lock s' = spi_lock s" "radio_lock s' = radio_lock s" "isInit s' = isInit s"
    "si446x_channel s' = si446x_channel s" "tx_msg_ptr s' = tx_msg_ptr s" "rx_msg_ptr s' = rx_msg_ptr s"
    "mem s' = mem s" "SI446X_pin_setup s' = SI446X_pin_setup s" "rx_timestamp s' = rx_timestamp s"
    "radio_si446x_spi2 s' = radio_si446x_spi2 s" "active_mac_index s' = active_mac_index s"
    "defaultRxDoneState s' = defaultRxDoneState s" "tx_linked s' = tx_linked s" "rx_linked s' = rx_linked s"
    using f by simp_all
qed

lemma steady_same:
  "commands s' = commands s \<Longrightarrow> chip_only (s\<lparr>int_defer_linked := d, calls := c\<rparr>) s' \<Longrightarrow> steady s s'"
  unfolding steady_def by (intro conjI exI[of _ d] exI[of _ c] exI[of _ "[]"]) simp_all

lemma steady_upd:
  "steady s (s\<lparr>int_defer_linked := d\<rparr>)" "steady s (log_call c s)" "steady s s"
  by (rule steady_same[where d = d and c = "calls s"], simp, simp)
     (rule steady_same[where d = "int_defer_linked s" and c = "calls s @ [c]"], simp, simp add: log_call_def,
      rule steady_same[where d = "int_defer_linked s" and c = "calls s"], simp, simp)

lemma quiet_simps [simp]: "quiet (c # bs) \<longleftrightarrow> c \<noteq> 0x31 \<and> c \<noteq> 0x32 \<and> c \<noteq> 0x66"
  by (simp add: quiet_def)

lemma steady_ops:
  "si446x_change_state A st s = Some s' \<Longrightarrow> steady s s'"
  "si446x_set_property A g [v] p s = Some s' \<Longrightarrow> steady s s'"
  "si446x_request_device_state A s = Some (r, s') \<Longrightarrow> steady s s'"
  "si446x_get_int_status A x y z s = Some s' \<Longrightarrow> steady s s'"
  "si446x_get_modem_status_cmd A x s = Some s' \<Longrightarrow> steady s s'"
  "si446x_fifo_info A x s = Some s' \<Longrightarrow> steady s s'"
  "si446x_get_property A g n p s = Some (r, s') \<Longrightarrow> steady s s'"
  "si446x_get_packet_info A f l d s = Some (r2, s') \<Longrightarrow> steady s s'"
  "si446x_read_rx_fifo A k s = Some (bs, s') \<Longrightarrow> steady s s'"
  by (auto dest!: chip_views intro!: steady_chip)

lemma leave_rx_wait_steady: "leave_rx_wait E n s = Some (t, s') \<Longrightarrow> steady s s'"
proof (induction E n s arbitrary: t s' rule: leave_rx_wait.induct)
  case (1 E n s)
  from 1(2) obtain st s1 where st: "si446x_request_device_state (spi_answer E) s = Some (st, s1)"
    and r: "(if st = SI_STATE_SPI_ACTIVE then Some (of_nat n, s1)
      else if n = 0 then Some (- 1, s1) else leave_rx_wait E (n - 1) s1) = Some (t, s')"
    by (subst (asm) leave_rx_wait.simps) (auto simp: bind_eq_Some_conv)
  show ?case
  proof (cases "st = SI_STATE_SPI_ACTIVE \<or> n = 0")
    case True
    then show ?thesis using r steady_ops(3)[OF st] by (auto split: if_splits)
  next
    case False
    then have "leave_rx_wait E (n - 1) s1 = Some (t, s')" using r by simp
    then have "steady s1 s'" using 1(1)[OF st refl] False by auto
    then show ?thesis using steady_trans steady_ops(3)[OF st] by blast
  qed
qed

lemma leave_rx_steady:
  assumes "si446x_leave_rx E i s = Some (b, s')" "i \<noteq> 0"
  shows "steady s s' \<and> (\<not> b \<longrightarrow> spi_lock s = i \<and> radio_lock s = i)"
proof (cases "i \<noteq> spi_lock s \<or> i \<noteq> radio_lock s")
  case True
  then show ?thesis using assms steady_upd(3) by (auto simp: si446x_leave_rx_def)
next
  case False
  obtain st s1 where s1: "si446x_request_device_state (spi_answer E) s = Some (st, s1)"
    using assms(1) False by (auto simp: si446x_leave_rx_def bind_eq_Some_conv)
  show ?thesis
  proof (cases "st \<noteq> SI_STATE_RX \<and> st \<noteq> SI_STATE_RX_TUNE")
    case True
    then show ?thesis using assms(1) False s1 steady_ops(3)[OF s1] by (auto simp: si446x_leave_rx_def)
  next
    case no: False
    obtain en s2 where s2: "si446x_get_property (spi_answer E) 0x01 1 0 s1 = Some (en, s2)"
      using assms(1) False no s1 by (auto simp: si446x_leave_rx_def bind_eq_Some_conv)
    obtain s3 where s3: "si446x_set_property (spi_answer E) 0x01 [0] 0 s2 = Some s3"
      using assms(1) False no s1 s2 by (auto simp: si446x_leave_rx_def bind_eq_Some_conv)
    obtain s4 where s4: "si446x_get_int_status (spi_answer E) 0xFF 0xFF 0xFF s3 = Some s4"
      using assms(1) False no s1 s2 s3 by (auto simp: si446x_leave_rx_def bind_eq_Some_conv)
    note to4 = steady_trans[OF steady_trans[OF steady_trans[OF steady_ops(3)[OF s1] steady_ops(7)[OF s2]]
      steady_ops(2)[OF s3]] steady_ops(4)[OF s4]]
    have "spi_lock s4 \<noteq> 0" using steady_drv(1)[OF to4] False assms(2) by simp
    then obtain d where d: "interrupts E s4 = Some (s4\<lparr>int_defer_linked := d\<rparr>)" using interrupts_locked by blast
    let ?s5 = "s4\<lparr>int_defer_linked := d\<rparr>"
    have to5: "steady s ?s5" using steady_trans[OF to4 steady_upd(1)] .
    have "steady ?s5 s'"
    proof (cases "rx_activity ?s5 \<or> cont_busy ?s5")
      case True
      then show ?thesis using assms(1) False no s1 s2 s3 s4 d
        by (auto simp: si446x_leave_rx_def bind_eq_Some_conv intro: steady_ops)
    next
      case idle: False
      obtain s6 t s7 s8 s9 where w: "si446x_change_state (spi_answer E) SI_STATE_SPI_ACTIVE ?s5 = Some s6"
        "leave_rx_wait E si446x_tx_timeout s6 = Some (t, s7)"
        "si446x_get_int_status (spi_answer E) 0 0 0
          (if t = 0 then log_call (Report ''State Change Timeout'') s7 else s7) = Some s8"
        "si446x_fifo_info (spi_answer E) 0x3 s8 = Some s9"
        "si446x_set_property (spi_answer E) 0x01 [en] 0 s9 = Some s'"
        using assms(1) False no s1 s2 s3 s4 d idle
        by (auto simp: si446x_leave_rx_def bind_eq_Some_conv)
      have "steady s7 (if t = 0 then log_call (Report ''State Change Timeout'') s7 else s7)"
        using steady_upd by simp
      with w show ?thesis by (meson steady_trans steady_ops leave_rx_wait_steady)
    qed
    then show ?thesis using steady_trans[OF to5] False by auto
  qed
qed

section \<open>What the operations do to the locks\<close>

lemma wait_tx_tune_steady: "wait_tx_tune E s = Some s' \<Longrightarrow> steady s s'"
proof (induction rule: wait_tx_tune.raw_induct[rotated, consumes 1, case_names step])
  case (step w E s s')
  from step(2) obtain st s1 where st: "si446x_request_device_state (spi_answer E) s = Some (st, s1)"
    and r: "(if st \<noteq> SI_STATE_TX_TUNE then w E s1 else Some s1) = Some s'"
    by (auto simp: bind_eq_Some_conv)
  show ?case using r step(1)[of E s1 s'] steady_ops(3)[OF st] steady_trans by (auto split: if_splits)
qed

lemma wait_while_tuning_steady: "wait_while_tuning E st s = Some s' \<Longrightarrow> steady s s'"
proof (induction rule: wait_while_tuning.raw_induct[rotated, consumes 1, case_names step])
  case (step w E st s s')
  show ?case
  proof (cases "st = SI_STATE_RX_TUNE")
    case True
    with step(2) obtain st1 s1 where st: "si446x_request_device_state (spi_answer E) s = Some (st1, s1)"
      and r: "w E st1 s1 = Some s'" by (auto simp: bind_eq_Some_conv)
    show ?thesis using step(1)[OF r] steady_ops(3)[OF st] steady_trans by blast
  qed (use step(2) steady_upd(3) in auto)
qed

text \<open>The frame bytes on the bus: the length byte and the frame, at last the start of the transmission.\<close>

lemma send_frame_bytes_view:
  assumes "send_frame_bytes E chan bs ev doTS after_st s = Some s'"
  shows "spi_lock s' = spi_lock s \<and> radio_lock s' = radio_lock s \<and>
    (\<exists>mid hi lo. commands s' = commands s @ [0x66 # (of_nat (length bs) + (if doTS then 4 else 0)) # bs] @ mid
        @ [[0x31, chan, after_st, hi, lo, 0, 0]] \<and> (\<not> doTS \<longrightarrow> mid = []))"
proof -
  let ?s0 = "set_radio_power_pwm True s"
  obtain s1 s2 n where w: "si446x_write_tx_fifo (spi_answer E) ((of_nat (length bs) + (if doTS then 4 else 0)) # bs) ?s0 = Some s1"
    and m: "(if doTS then do {
             s \<leftarrow> si446x_change_state (spi_answer E) SI_STATE_TX_TUNE s1;
             s \<leftarrow> wait_tx_tune E s;
             let eventOffset = (ucast (now E s) - ev :: u32);
             si446x_write_tx_fifo (spi_answer E) (word_bytes 4 eventOffset) s
           } else Some s1) = Some s2"
    and t: "si446x_start_tx (spi_answer E) chan after_st n s2 = Some s'"
    using assms unfolding send_frame_bytes_def by (auto simp: bind_eq_Some_conv Let_def[of "set_radio_power_pwm _ _"] Let_def[of "word_of_nat _ + _"] split: if_splits)
  have s0: "locks ?s0 = locks s" "commands ?s0 = commands s" by (simp_all add: set_radio_power_pwm_def)
  have s1: "locks s1 = locks s" "commands s1 = commands s @ [0x66 # (of_nat (length bs) + (if doTS then 4 else 0)) # bs]"
    using write_tx_fifo_view[OF w] chip_only_locks s0 by auto
  have s2: "locks s2 = locks s1 \<and> (\<exists>mid. commands s2 = commands s1 @ mid \<and> (\<not> doTS \<longrightarrow> mid = []))"
  proof (cases doTS)
    case True
    then obtain t1 t2 where t: "si446x_change_state (spi_answer E) SI_STATE_TX_TUNE s1 = Some t1"
      "wait_tx_tune E t1 = Some t2"
      "si446x_write_tx_fifo (spi_answer E) (word_bytes 4 (ucast (now E t2) - ev :: u32)) t2 = Some s2"
      using m by (auto simp: bind_eq_Some_conv)
    have "steady s1 t2" using steady_trans[OF steady_ops(1)[OF t(1)] wait_tx_tune_steady[OF t(2)]] .
    then have "locks t2 = locks s1" "\<exists>cs. commands t2 = commands s1 @ cs"
      using steady_drv by (auto simp: steady_def)
    with write_tx_fifo_view[OF t(3)] chip_only_locks True show ?thesis by fastforce
  qed (use m in auto)
  with s1 start_tx_view[OF t] chip_only_locks[of s2 s'] show ?thesis by fastforce
qed

text \<open>Both locks are asked for: either the radio has an owner, or the state has changed by the locks only.\<close>

lemma both_locks [consumes 1, case_names busy free]:
  assumes "spi_lock s = 0"
  obtains s1 where "si446x_spi_lock E i s = (0, s1)" "radio_lock s \<noteq> 0"
      "si446x_radio_lock E i s1 = (radio_lock s, s1)" "commands s1 = commands s" "radio_lock s1 = radio_lock s"
    | s1 s2 cs a b where "si446x_spi_lock E i s = (0, s1)" "radio_lock s = 0" "si446x_radio_lock E i s1 = (0, s2)"
      "s2 = s\<lparr>calls := cs, spi_lock := a, radio_lock := b\<rparr>" "commands s1 = commands s" "radio_lock s1 = 0"
proof -
  obtain cs where l: "si446x_spi_lock E i s = (0, s\<lparr>calls := calls s @ cs, spi_lock := if stored E i s then i else 0\<rparr>)"
    using spi_lock_free[OF assms] by blast
  let ?s1 = "s\<lparr>calls := calls s @ cs, spi_lock := if stored E i s then i else 0\<rparr>"
  show thesis
  proof (cases "radio_lock s = 0")
    case True
    obtain cs' where "si446x_radio_lock E i ?s1
        = (0, ?s1\<lparr>calls := calls ?s1 @ cs', radio_lock := if stored E i ?s1 then i else 0\<rparr>)"
      using radio_lock_free[of ?s1 E i] True by auto
    then have r: "si446x_radio_lock E i ?s1 = (0, s\<lparr>calls := calls s @ cs @ cs',
        spi_lock := if stored E i s then i else 0, radio_lock := if stored E i ?s1 then i else 0\<rparr>)" by simp
    show thesis by (rule that(2)[OF l True r refl]) (use True in simp_all)
  next
    case False
    show thesis by (rule that(1)[OF l]) (use False in simp_all)
  qed
qed

lemma packet_send_locks:
  assumes "si446x_packet_send E chan pkt len ev doTS after_st s = Some (r, s')" "spi_lock s = 0"
  shows "spi_lock s' = 0 \<and> (radio_lock s \<noteq> 0 \<longrightarrow> r \<noteq> DS_Success \<and> commands s' = commands s)
    \<and> (r \<noteq> DS_Success \<longrightarrow> radio_lock s' = radio_lock s \<and> (\<exists>cs. commands s' = commands s @ cs \<and> (\<forall>c\<in>set cs. quiet c)))
    \<and> (r = DS_Success \<longrightarrow> radio_lock s' = radio_lock_tx \<and> isInit s \<and> unat len \<le> (if doTS then 124 else 128)
        \<and> (\<exists>cs bs mid hi lo. pkt (unat len) = Some bs \<and> (\<forall>c\<in>set cs. quiet c)
            \<and> commands s' = commands s @ cs @ [0x66 # (of_nat (length bs) + (if doTS then 4 else 0)) # bs] @ mid
                @ [[0x31, chan, after_st, hi, lo, 0, 0]] \<and> (\<not> doTS \<longrightarrow> mid = [])))"
proof (cases "unat len > si446x_packet_size \<or> (doTS \<and> unat len > si446x_payload_ts) \<or> \<not> isInit s")
  case True
  have e: "\<exists>cs. commands s = commands s @ cs \<and> (\<forall>c\<in>set cs. quiet c)" by (rule exI[of _ "[]"]) simp
  from True assms e show ?thesis by (auto simp: si446x_packet_send_def split: if_splits)
next
  case False
  then have size: "unat len \<le> (if doTS then 124 else 128)" "isInit s"
    by (auto simp: si446x_packet_size_def si446x_payload_ts_def)
  from assms(2) show ?thesis
  proof (cases rule: both_locks[where E = E and i = radio_lock_tx])
    case (busy s1)
    have "r = DS_Busy" "s' = si446x_spi_unlock s1"
      using assms(1) False busy by (auto simp: si446x_packet_send_def)
    with busy show ?thesis by auto
  next
    case (free s1 s2 cs a b)
    note l = free(1) and r2 = free(3) and s2 = free(4)
    obtain bu s3 where lr: "si446x_leave_rx E radio_lock_tx s2 = Some (bu, s3)"
      using assms(1) False l r2 by (auto simp: si446x_packet_send_def bind_eq_Some_conv)
    have st: "steady s2 s3" "\<not> bu \<longrightarrow> spi_lock s2 = radio_lock_tx \<and> radio_lock s2 = radio_lock_tx"
      using leave_rx_steady[OF lr] by (auto simp: radio_lock_tx_def)
    obtain q where q: "commands s3 = commands s @ q" "\<forall>c\<in>set q. quiet c"
      using st(1) s2 by (auto simp: steady_def)
    show ?thesis
    proof (cases bu)
      case True
      then have "r = DS_Busy" "s' = unlock_both s3"
        using assms(1) False l r2 lr by (auto simp: si446x_packet_send_def)
      with free(2) q show ?thesis by auto
    next
      case nb: False
      obtain st1 s4 where s4: "si446x_request_device_state (spi_answer E) s3 = Some (st1, s4)"
        using assms(1) False l r2 lr nb by (auto simp: si446x_packet_send_def bind_eq_Some_conv)
      have c4: "commands s4 = commands s @ (q @ [[0x33]])" "locks s4 = locks s3" "\<forall>c\<in>set (q @ [[0x33]]). quiet c"
        using request_device_state_view[OF s4] q chip_only_locks by auto
      show ?thesis
      proof (cases "st1 = SI_STATE_ERROR")
        case True
        then have "r = DS_Fail" "s' = unlock_both s4"
          using assms(1) False l r2 lr nb s4 by (auto simp: si446x_packet_send_def)
        with free(2) c4 show ?thesis by auto
      next
        case ne: False
        obtain bs s5 where p: "pkt (unat len) = Some bs"
          and s5: "send_frame_bytes E chan bs ev doTS after_st s4 = Some s5"
          and res: "r = DS_Success" "s' = si446x_spi_unlock s5"
          using assms(1) False l r2 lr nb s4 ne by (auto simp: si446x_packet_send_def bind_eq_Some_conv)
        have "radio_lock s5 = radio_lock_tx" using send_frame_bytes_view[OF s5] c4(2) st nb steady_drv by auto
        moreover obtain mid hi lo where "commands s5 = (commands s @ (q @ [[0x33]])) @
            [0x66 # (of_nat (length bs) + (if doTS then 4 else 0)) # bs] @ mid @ [[0x31, chan, after_st, hi, lo, 0, 0]]"
          "\<not> doTS \<longrightarrow> mid = []" using send_frame_bytes_view[OF s5] c4(1) by auto
        then have "\<exists>cs bs mid hi lo. pkt (unat len) = Some bs \<and> (\<forall>c\<in>set cs. quiet c)
            \<and> commands s' = commands s @ cs @ [0x66 # (of_nat (length bs) + (if doTS then 4 else 0)) # bs] @ mid
                @ [[0x31, chan, after_st, hi, lo, 0, 0]] \<and> (\<not> doTS \<longrightarrow> mid = [])"
          using p c4(3) res by (intro exI[of _ "q @ [[0x33]]"] exI[of _ bs] exI[of _ mid] exI[of _ hi] exI[of _ lo]) auto
        ultimately show ?thesis using res size free(2) by simp
      qed
    qed
  qed
qed

text \<open>
  The requests of the layers above. With the bus free, every request frees it again and leaves
  the radio as it was, sending aside; a radio with an owner is not touched.
\<close>

definition left_alone :: "drv \<Rightarrow> DeviceStatus \<Rightarrow> drv \<Rightarrow> bool" where
  "left_alone s r s' \<longleftrightarrow> spi_lock s' = 0 \<and> radio_lock s' = radio_lock s \<and>
     (radio_lock s \<noteq> 0 \<longrightarrow> commands s' = commands s)"

lemma unlocked_free: "radio_lock s = 0 \<Longrightarrow> left_alone s r (unlock_both t)"
  by (simp add: left_alone_def)

lemma hal_rx_locks:
  assumes "si446x_hal_rx E s = Some (r, s')" "spi_lock s = 0"
  shows "left_alone s r s' \<and> (radio_lock s \<noteq> 0 \<longrightarrow> r \<noteq> DS_Success)"
  using assms(2)
proof (cases rule: both_locks[where E = E and i = radio_lock_rx_setup])
  case busy
  then show ?thesis using assms
    by (auto simp: si446x_hal_rx_def left_alone_def Let_def split: if_splits)
next
  case free
  then show ?thesis using assms
    by (auto simp: si446x_hal_rx_def bind_eq_Some_conv left_alone_def Let_def split: if_splits
        dest!: start_rx_fast_channel_view chip_only_locks)
qed

lemma hal_sleep_locks:
  assumes "si446x_hal_sleep E s = Some (r, s')" "spi_lock s = 0"
  shows "left_alone s r s' \<and> (radio_lock s \<noteq> 0 \<longrightarrow> r = DS_Success \<longrightarrow> current_state s = SI_STATE_SLEEP)"
  using assms(2)
proof (cases rule: both_locks[where E = E and i = radio_lock_sleep])
  case busy
  then show ?thesis using assms
    by (auto simp: si446x_hal_sleep_def left_alone_def Let_def si446x_request_device_state_shadow_def split: if_splits)
next
  case free
  then show ?thesis using assms
    by (auto simp: si446x_hal_sleep_def bind_eq_Some_conv left_alone_def Let_def si446x_request_device_state_shadow_def split: if_splits)
qed

lemma hal_tx_power_locks:
  assumes "si446x_hal_tx_power E pwr s = Some (r, s')" "spi_lock s = 0"
  shows "left_alone s r s' \<and> (radio_lock s \<noteq> 0 \<longrightarrow> r \<noteq> DS_Success)"
  using assms(2)
proof (cases rule: both_locks[where E = E and i = radio_lock_tx_power])
  case busy
  then show ?thesis using assms
    by (auto simp: si446x_hal_tx_power_def left_alone_def Let_def split: if_splits)
next
  case free
  then show ?thesis using assms
    by (auto simp: si446x_hal_tx_power_def bind_eq_Some_conv left_alone_def Let_def split: if_splits)
qed

lemma hal_set_channel_locks:
  assumes "si446x_hal_set_channel E channel s = Some (r, s')" "spi_lock s = 0"
  shows "left_alone s r s' \<and> (radio_lock s \<noteq> 0 \<longrightarrow> r \<noteq> DS_Success)"
  using assms(2)
proof (cases rule: both_locks[where E = E and i = radio_lock_set_channel])
  case busy
  then show ?thesis using assms
    by (auto simp: si446x_hal_set_channel_def left_alone_def Let_def split: if_splits)
next
  case free
  then show ?thesis using assms
    by (auto simp: si446x_hal_set_channel_def bind_eq_Some_conv left_alone_def Let_def split: if_splits)
qed

lemma cca_measure_unlocks:
  "cca_measure E ms t s = Some (r, s') \<Longrightarrow> \<exists>u. s' = unlock_both u"
  by (auto simp: cca_measure_def bind_eq_Some_conv Let_def split: if_splits)

lemma hal_cca_ms_locks:
  assumes "si446x_hal_cca_ms E ms s = Some (r, s')" "spi_lock s = 0"
  shows "left_alone s r s' \<and> (radio_lock s \<noteq> 0 \<longrightarrow> r \<noteq> DS_Success)"
  using assms(2)
proof (cases rule: both_locks[where E = E and i = radio_lock_cca_ms])
  case busy
  then show ?thesis using assms
    by (auto simp: si446x_hal_cca_ms_def left_alone_def Let_def split: if_splits)
next
  case free
  then show ?thesis using assms
    by (auto simp: si446x_hal_cca_ms_def bind_eq_Some_conv left_alone_def Let_def split: if_splits dest!: cca_measure_unlocks)
qed

section \<open>Requests, interrupts, continuations\<close>

datatype radio_request =
    R_Send nat u16 | R_Send_ts nat u16 u32 | R_Rx | R_Sleep | R_Power u32 | R_Channel u32 | R_Cca u32

text \<open>The answer to a request; the send functions answer with the pointer, and the locks tell the outcome.\<close>

fun request :: "drv_env \<Rightarrow> radio_request \<Rightarrow> drv \<Rightarrow> (DeviceStatus option \<times> drv) option" where
  "request E (R_Send msg sz) s = map_option (\<lambda>(_, s). (None, s)) (si446x_hal_send E msg sz s)"
| "request E (R_Send_ts msg sz t) s = map_option (\<lambda>(_, s). (None, s)) (si446x_hal_send_ts E msg sz t s)"
| "request E R_Rx s = map_option (apfst Some) (si446x_hal_rx E s)"
| "request E R_Sleep s = map_option (apfst Some) (si446x_hal_sleep E s)"
| "request E (R_Power p) s = map_option (apfst Some) (si446x_hal_tx_power E p s)"
| "request E (R_Channel c) s = map_option (apfst Some) (si446x_hal_set_channel E c s)"
| "request E (R_Cca ms) s = map_option (apfst Some) (si446x_hal_cca_ms E ms s)"

text \<open>
  A step of the driver: initialization and shut-down, a request, an interrupt, a continuation that
  the main loop takes off its queue, a setting. \<open>si446x_hal_reset\<close> is kept apart.
\<close>

inductive drv_step :: "drv_env \<Rightarrow> drv \<Rightarrow> drv \<Rightarrow> bool" for E where
  step_init: "si446x_hal_init E h mac_id s = Some (r, s') \<Longrightarrow> drv_step E s s'"
| step_uninit: "si446x_hal_uninitialize E s = (r, s') \<Longrightarrow> drv_step E s s'"
| step_request: "request E rq s = Some (r, s') \<Longrightarrow> drv_step E s s'"
| step_interrupt: "si446x_spi2_handle_interrupt E pin s = Some s' \<Longrightarrow> drv_step E s s'"
| step_tx_cont: "tx_linked s \<Longrightarrow> tx_cont_do E (s\<lparr>tx_linked := False\<rparr>) = Some s' \<Longrightarrow> drv_step E s s'"
| step_rx_cont: "rx_linked s \<Longrightarrow> rx_cont_do E (s\<lparr>rx_linked := False\<rparr>) = Some s' \<Longrightarrow> drv_step E s s'"
| step_int_cont: "int_defer_linked s \<Longrightarrow> int_cont_do E (s\<lparr>int_defer_linked := False\<rparr>) = Some s' \<Longrightarrow> drv_step E s s'"
| step_setting: "s' \<in> {si446x_hal_register_tx_callback f s, si446x_hal_unregister_tx_callback s,
      si446x_hal_register_rx_callback f s, si446x_hal_unregister_rx_callback s,
      si446x_hal_set_default_state d s, snd (si446x_hal_set_address ad s), si446x_hal_set_RadioType t s} \<Longrightarrow> drv_step E s s'"

inductive drv_reachable :: "drv_env \<Rightarrow> drv \<Rightarrow> bool" for E where
  reach_start: "spi_lock s = 0 \<Longrightarrow> radio_lock s = 0 \<Longrightarrow> drv_reachable E s"
| reach_step: "drv_reachable E s \<Longrightarrow> drv_step E s s' \<Longrightarrow> drv_reachable E s'"

lemma call_send_ack_keeps:
  "call_send_ack E sz st s = Some s' \<Longrightarrow>
   spi_lock s' = spi_lock s \<and> radio_lock s' = radio_lock s \<and> commands s' = commands s"
  by (auto simp: call_send_ack_def bind_eq_Some_conv Let_def)

lemma hal_send_locks:
  assumes "hal_send_common E msg sz t doTS s = Some (q, s')" "spi_lock s = 0"
  shows "spi_lock s' = 0 \<and> (radio_lock s \<noteq> 0 \<longrightarrow> radio_lock s' = radio_lock s \<and> commands s' = commands s)
    \<and> radio_lock s' \<in> {radio_lock s, radio_lock_tx}"
proof -
  obtain r s1 where p: "si446x_packet_send E (ucast (si446x_channel s)) (bytes_at s msg) (ucast sz) t doTS
      SI446x_TX_DONE_STATE s = Some (r, s1)"
    and o: "(if r \<noteq> DS_Success then do { s \<leftarrow> send_refused E sz r s1; Some (msg, s) }
      else Some (msg, s1\<lparr>tx_msg_ptr := msg\<rparr>)) = Some (q, s')"
    using assms(1) by (auto simp: hal_send_common_def bind_eq_Some_conv)
  note l = packet_send_locks[OF p assms(2)]
  show ?thesis
  proof (cases "r = DS_Success")
    case True
    then have "s' = s1\<lparr>tx_msg_ptr := msg\<rparr>" using o by auto
    then show ?thesis using l True by auto
  next
    case False
    then obtain s2 where "send_refused E sz r s1 = Some s2" "s' = s2" using o by (auto simp: bind_eq_Some_conv)
    then have "spi_lock s' = spi_lock s1 \<and> radio_lock s' = radio_lock s1 \<and> commands s' = commands s1"
      using call_send_ack_keeps by (auto simp: send_refused_def)
    then show ?thesis using l False by auto
  qed
qed

lemma request_locks:
  assumes "request E rq s = Some (r, s')" "spi_lock s = 0"
  shows "spi_lock s' = 0 \<and> (radio_lock s \<noteq> 0 \<longrightarrow> radio_lock s' = radio_lock s \<and> commands s' = commands s
      \<and> (r = Some DS_Success \<longrightarrow> rq = R_Sleep \<and> current_state s = SI_STATE_SLEEP))
    \<and> radio_lock s' \<in> {radio_lock s, radio_lock_tx}"
  using assms
  by (cases rq) (auto simp: si446x_hal_send_def si446x_hal_send_ts_def left_alone_def
      dest!: hal_send_locks hal_rx_locks hal_sleep_locks hal_tx_power_locks hal_set_channel_locks hal_cca_ms_locks)

lemma tx_cont_locks:
  assumes "tx_cont_do E s = Some s'"
  shows "spi_lock s' = spi_lock s \<and> radio_lock s' \<in> {radio_lock s, 0} \<and> commands s' = commands s"
proof -
  let ?s = "case tx_callback s of None \<Rightarrow> s | Some f \<Rightarrow> log_call (Call_TxCallback f) s"
  obtain u where u: "call_send_ack E (of_nat si446x_packet_size) NetworkOperations_Success ?s = Some u"
    "s' = snd (si446x_radio_lock_if_then_nofail radio_lock_tx radio_lock_none u)"
    using assms unfolding tx_cont_do_def by (auto simp: bind_eq_Some_conv Let_def)
  have "spi_lock ?s = spi_lock s" "radio_lock ?s = radio_lock s" "commands ?s = commands s"
    by (simp_all split: option.split)
  with call_send_ack_keeps[OF u(1)] u(2) show ?thesis
    by (auto simp: si446x_radio_lock_if_then_nofail_def lock_ids_pos)
qed

lemma deliver_keeps:
  "deliver_packet E pkt rssi s = Some s' \<Longrightarrow>
   spi_lock s' = spi_lock s \<and> radio_lock s' = radio_lock s \<and> commands s' = commands s"
  by (auto simp: deliver_packet_def bind_eq_Some_conv Let_def split_beta split: option.splits)

lemma end_of_reception_locks:
  "end_of_reception E s = Some (r, s') \<Longrightarrow> spi_lock s' = 0 \<and> radio_lock s' = 0"
  by (auto simp: end_of_reception_def bind_eq_Some_conv Let_def)

lemma rx_cont_locks:
  assumes "rx_cont_do E s = Some s'" "spi_lock s = 0"
  shows "spi_lock s' = 0 \<and> radio_lock s' = 0"
proof -
  obtain s1 where l: "si446x_spi_lock E radio_lock_rx s = (0, s1)" using spi_lock_free[OF assms(2)] by blast
  obtain ow s2 where "si446x_radio_lock E radio_lock_rx s1 = (ow, s2)" by fastforce
  then show ?thesis using assms(1) l
    by (auto simp: rx_cont_do_def bind_eq_Some_conv Let_def split: if_splits
        dest!: end_of_reception_locks deliver_keeps)
qed

lemma init_locks:
  assumes "si446x_hal_init E h mac_id s = Some (r, s')" "spi_lock s = 0"
  shows "spi_lock s' = 0 \<and> radio_lock s' = 0"
proof -
  obtain s1 where l: "si446x_spi_lock E radio_lock_init s = (0, s1)" using spi_lock_free[OF assms(2)] by blast
  then show ?thesis using assms(1)
    by (auto simp: si446x_hal_init_def bind_eq_Some_conv Let_def split: if_splits)
qed

lemma uninit_locks:
  assumes "si446x_hal_uninitialize E s = (r, s')" "spi_lock s = 0"
  shows "spi_lock s' = 0 \<and> radio_lock s' \<in> {radio_lock s, 0}"
proof -
  obtain s1 where l: "si446x_spi_lock E radio_lock_uninit s = (0, s1)" "radio_lock s1 = radio_lock s"
    using spi_lock_free[OF assms(2), of E radio_lock_uninit] by auto
  then show ?thesis using assms(1)
    by (auto simp: si446x_hal_uninitialize_def Let_def split_beta split: if_splits)
qed

lemma step_locks:
  assumes "drv_step E s s'" "spi_lock s = 0"
  shows "spi_lock s' = 0 \<and> radio_lock s' \<in> {radio_lock s, 0, radio_lock_tx, radio_lock_rx}"
  using assms(1)
proof (cases rule: drv_step.cases)
  case step_init then show ?thesis using init_locks assms(2) by blast
next
  case step_uninit then show ?thesis using uninit_locks assms(2) by blast
next
  case step_request then show ?thesis using request_locks assms(2) by blast
next
  case step_interrupt then show ?thesis using handler_locks assms(2) by blast
next
  case step_tx_cont then show ?thesis using tx_cont_locks[of E "s\<lparr>tx_linked := False\<rparr>" s'] assms(2) by auto
next
  case step_rx_cont then show ?thesis using rx_cont_locks[of E "s\<lparr>rx_linked := False\<rparr>" s'] assms(2) by auto
next
  case step_int_cont
  then show ?thesis using handler_locks[of E _ "s\<lparr>int_defer_linked := False\<rparr>" s'] assms(2)
    by (auto simp: int_cont_do_def)
next
  case step_setting
  then show ?thesis using assms(2)
    by (auto simp: si446x_hal_register_tx_callback_def si446x_hal_unregister_tx_callback_def
        si446x_hal_register_rx_callback_def si446x_hal_unregister_rx_callback_def
        si446x_hal_set_default_state_def si446x_hal_set_address_def si446x_hal_set_RadioType_def split_beta)
qed

lemma reachable_spi_free: "drv_reachable E s \<Longrightarrow> spi_lock s = 0"
  by (induction rule: drv_reachable.induct) (auto dest: step_locks)

text \<open>
  C8. While a frame is being sent or received, no request reaches the chip: the radio lock has an
  owner, and every request leaves the lock to it, frees the bus and puts no command on it. No request
  reports success, but the request to sleep of a driver that believes the chip asleep.
\<close>

theorem busy_radio_is_left_alone:
  assumes "drv_reachable E s" "radio_lock s \<noteq> radio_lock_none" "request E rq s = Some (r, s')"
  shows "commands s' = commands s \<and> radio_lock s' = radio_lock s \<and> spi_lock s' = radio_lock_none
    \<and> (r = Some DS_Success \<longrightarrow> rq = R_Sleep \<and> current_state s = SI_STATE_SLEEP)"
  using request_locks[OF assms(3) reachable_spi_free[OF assms(1)]] assms(2) by (auto simp: lock_ids_pos)

section \<open>The driver after a reset\<close>

lemma request_deaf:
  assumes "spi_lock s \<noteq> 0" "request E rq s = Some (r, s')"
  shows "spi_lock s' = spi_lock s \<and> commands s' = commands s
    \<and> (r = Some DS_Success \<longrightarrow> rq = R_Sleep \<and> current_state s = SI_STATE_SLEEP)"
proof -
  have send: "spi_lock s' = spi_lock s \<and> commands s' = commands s"
    if "hal_send_common E msg sz t doTS s = Some (q, s')" for msg sz t doTS q
    using that assms(1) by (auto simp: hal_send_common_def si446x_packet_send_def bind_eq_Some_conv send_refused_def
        split: if_splits dest!: call_send_ack_keeps)
  show ?thesis
  proof (cases rq)
    case R_Rx
    then show ?thesis using assms by (auto simp: si446x_hal_rx_def split: if_splits)
  next
    case R_Sleep
    then show ?thesis using assms
      by (auto simp: si446x_hal_sleep_def si446x_request_device_state_shadow_def split: if_splits)
  next
    case R_Power
    then show ?thesis using assms by (auto simp: si446x_hal_tx_power_def split: if_splits)
  next
    case R_Channel
    then show ?thesis using assms by (auto simp: si446x_hal_set_channel_def split: if_splits)
  next
    case R_Cca
    then show ?thesis using assms by (auto simp: si446x_hal_cca_ms_def Let_def split: if_splits)
  qed (use assms(2) send in \<open>auto simp: si446x_hal_send_def si446x_hal_send_ts_def\<close>)
qed

lemma step_deaf:
  assumes "drv_step E s s'" "spi_lock s \<noteq> 0"
  shows "spi_lock s' = spi_lock s \<and> commands s' = commands s"
  using assms(1)
proof (cases rule: drv_step.cases)
  case step_init then show ?thesis using assms(2) by (simp add: si446x_hal_init_def)
next
  case step_uninit then show ?thesis using assms(2) by (simp add: si446x_hal_uninitialize_def)
next
  case step_request then show ?thesis using request_deaf assms(2) by blast
next
  case step_interrupt then show ?thesis using assms(2) by (auto simp: handler_deferred)
next
  case step_tx_cont then show ?thesis using tx_cont_locks[of E "s\<lparr>tx_linked := False\<rparr>" s'] assms(2) by auto
next
  case step_rx_cont then show ?thesis using assms(2) by (auto simp: rx_cont_do_def)
next
  case step_int_cont then show ?thesis using assms(2) by (auto simp: int_cont_do_def handler_deferred)
next
  case step_setting
  then show ?thesis
    by (auto simp: si446x_hal_register_tx_callback_def si446x_hal_unregister_tx_callback_def
        si446x_hal_register_rx_callback_def si446x_hal_unregister_rx_callback_def
        si446x_hal_set_default_state_def si446x_hal_set_address_def si446x_hal_set_RadioType_def split_beta commands_def)
qed

lemma request_deaf_lock:
  assumes "spi_lock s \<noteq> 0" "request E rq s = Some (r, s')"
  shows "radio_lock s' = radio_lock s"
proof -
  have send: "radio_lock s' = radio_lock s" if "hal_send_common E msg sz t doTS s = Some (q, s')" for msg sz t doTS q
    using that assms(1) by (auto simp: hal_send_common_def si446x_packet_send_def bind_eq_Some_conv send_refused_def
        split: if_splits dest!: call_send_ack_keeps)
  show ?thesis
    by (cases rq) (use assms send in \<open>auto simp: si446x_hal_send_def si446x_hal_send_ts_def si446x_hal_rx_def
        si446x_hal_sleep_def si446x_request_device_state_shadow_def si446x_hal_tx_power_def
        si446x_hal_set_channel_def si446x_hal_cca_ms_def Let_def split: if_splits\<close>)
qed

lemma step_deaf_lock:
  assumes "drv_step E s s'" "spi_lock s \<noteq> 0"
  shows "radio_lock s' \<in> {radio_lock s, 0}"
  using assms(1)
proof (cases rule: drv_step.cases)
  case step_init then show ?thesis using assms(2) by (simp add: si446x_hal_init_def)
next
  case step_uninit then show ?thesis using assms(2) by (simp add: si446x_hal_uninitialize_def)
next
  case step_request then show ?thesis using request_deaf_lock assms(2) by blast
next
  case step_interrupt then show ?thesis using assms(2) by (auto simp: handler_deferred)
next
  case step_tx_cont then show ?thesis using tx_cont_locks[of E "s\<lparr>tx_linked := False\<rparr>" s'] by auto
next
  case step_rx_cont then show ?thesis using assms(2) by (auto simp: rx_cont_do_def)
next
  case step_int_cont then show ?thesis using assms(2) by (auto simp: int_cont_do_def handler_deferred)
next
  case step_setting
  then show ?thesis
    by (auto simp: si446x_hal_register_tx_callback_def si446x_hal_unregister_tx_callback_def
        si446x_hal_register_rx_callback_def si446x_hal_unregister_rx_callback_def
        si446x_hal_set_default_state_def si446x_hal_set_address_def si446x_hal_set_RadioType_def split_beta)
qed

lemma reset_locks:
  assumes "si446x_hal_reset E s = Some (r, s')"
  shows "radio_lock s' = radio_lock s \<and> spi_lock s' \<in> {spi_lock s, radio_lock_reset}"
proof (cases "spi_lock s = 0")
  case True
  then obtain t where t: "si446x_spi_lock E radio_lock_reset s = (0, t)" "spi_lock t \<in> {0, radio_lock_reset}"
    "radio_lock t = radio_lock s"
    using spi_lock_free[of s E radio_lock_reset] by auto
  then show ?thesis using assms True
    by (auto simp: si446x_hal_reset_def bind_eq_Some_conv
        dest!: reset_chip get_int_status_view fifo_info_view chip_only_locks)
next
  case False
  then show ?thesis using assms by (simp add: si446x_hal_reset_def)
qed

text \<open>
  A run of the driver with all its operations: the steps above and resets of the chip. The truth
  value tells whether the chip was reset on the way.
\<close>

inductive drv_run :: "drv_env \<Rightarrow> bool \<Rightarrow> drv \<Rightarrow> bool" for E where
  run_start: "spi_lock s = 0 \<Longrightarrow> radio_lock s = 0 \<Longrightarrow> drv_run E False s"
| run_step: "drv_run E b s \<Longrightarrow> drv_step E s s' \<Longrightarrow> drv_run E b s'"
| run_reset: "drv_run E b s \<Longrightarrow> si446x_hal_reset E s = Some (r, s') \<Longrightarrow> drv_run E True s'"

text \<open>
  C22. The values of the lock variables. Between any two operations of the driver, resets of the
  chip included, whatever the chip answers, whenever interrupts come and however often a store
  fails, the radio lock has one of three values, free, sending and receiving, and the bus lock is
  free or held by a reset; as long as the chip was not reset it is free. So every other owner holds
  a lock only while its own operation runs.
\<close>

theorem lock_variables_have_three_values:
  assumes "drv_run E was_reset s"
  shows "radio_lock s \<in> {radio_lock_none, radio_lock_tx, radio_lock_rx}
    \<and> spi_lock s \<in> {radio_lock_none, radio_lock_reset} \<and> (\<not> was_reset \<longrightarrow> spi_lock s = radio_lock_none)"
  using assms
proof (induction rule: drv_run.induct)
  case (run_step b s s')
  then show ?case using step_locks[of E s s'] step_deaf[of E s s'] step_deaf_lock[of E s s']
    by (cases "spi_lock s = 0") (auto simp: lock_ids_pos)
next
  case (run_reset b s r s')
  then show ?case using reset_locks[of E s r s'] by auto
qed (simp add: lock_ids_pos)

text \<open>
  C24. A reset of the chip that succeeds locks the driver out for good. \<open>si446x_hal_reset\<close> takes the
  lock of the bus and does not free it: in no run of the driver after it does a command
  reach the chip, every request but that of a sleeping radio fails, and interrupts are deferred for ever.
\<close>

theorem reset_locks_the_driver_out:
  assumes "si446x_hal_reset E s = Some (DS_Success, s1)" "spi_lock s = radio_lock_none"
    "stored E radio_lock_reset s" "(drv_step E)\<^sup>*\<^sup>* s1 s2"
  shows "spi_lock s2 = radio_lock_reset \<and> commands s2 = commands s1
    \<and> (\<forall>rq r s3. request E rq s2 = Some (r, s3) \<longrightarrow> r = Some DS_Success \<longrightarrow>
         rq = R_Sleep \<and> current_state s2 = SI_STATE_SLEEP)
    \<and> si446x_spi2_handle_interrupt E (nirq_mf_pin (SI446X_pin_setup s2)) s2 = Some (s2\<lparr>int_defer_linked := True\<rparr>)"
proof -
  obtain t where t: "si446x_spi_lock E radio_lock_reset s = (0, t)" "spi_lock t = radio_lock_reset"
    using spi_lock_free[of s E radio_lock_reset] assms(2,3) by (auto simp: lock_ids_pos)
  have s1: "spi_lock s1 = radio_lock_reset"
    using assms(1) t by (auto simp: si446x_hal_reset_def bind_eq_Some_conv
        dest!: reset_chip get_int_status_view fifo_info_view chip_only_locks)
  have s2: "spi_lock s2 = radio_lock_reset \<and> commands s2 = commands s1"
    using assms(4)
  proof (induction rule: rtranclp_induct)
    case (step y z)
    then show ?case using step_deaf[of E y z] by (auto simp: radio_lock_reset_def)
  qed (simp add: s1)
  then have "spi_lock s2 \<noteq> 0" by (simp add: radio_lock_reset_def)
  with s2 show ?thesis using request_deaf[of s2 E] by (auto simp: handler_deferred)
qed

section \<open>On a chip that follows its protocol\<close>

definition always_ready :: "si446x_protocol \<Rightarrow> bool" where
  "always_ready P \<longleftrightarrow> (\<forall>cs. ready_in_time P cs)"

lemma command_reply_protocol:
  assumes "always_ready P" "\<not> is_poll bs"
  shows "\<exists>s'. command_reply (protocol_chip P) bs n s = Some s' \<and> chip_only s s' \<and> commands s' = commands s @ [bs]
    \<and> (\<forall>i<n. pro s' i = reply P (commands s @ [bs]) i)"
proof -
  obtain t where t: "radio_comm_SendCmd (protocol_chip P) bs (fill_cmd bs s) = Some t"
    using SendCmd_protocol[of P "fill_cmd bs s" bs] assms(1) by (auto simp: always_ready_def)
  have c: "commands t = commands s @ [bs]" using SendCmd_view[OF t assms(2)] by simp
  obtain u where "radio_comm_GetResp (protocol_chip P) n t = Some (0xFF, map (reply P (commands t)) [0..<n], u)"
    using GetResp_protocol[of P t n] assms(1) by (auto simp: always_ready_def)
  then have r: "command_reply (protocol_chip P) bs n s = Some (fill_cmd (map (reply P (commands s @ [bs])) [0..<n]) u)"
    using t c by (simp add: command_reply_def radio_comm_SendCmdGetResp_def)
  from command_reply_view[OF r assms(2)] r show ?thesis by (auto simp: fill_cmd_def nth_append)
qed

lemma send_command_protocol:
  "always_ready P \<Longrightarrow> \<exists>s'. send_command (protocol_chip P) bs s = Some s'"
  using SendCmd_protocol[of P "fill_cmd bs s"] by (auto simp: send_command_def always_ready_def Let_def)

lemma chip_ops_return:
  assumes "always_ready P"
  shows "\<exists>s'. si446x_change_state (protocol_chip P) st s = Some s'"
    "\<exists>s'. si446x_set_property (protocol_chip P) g [v] p s = Some s'"
    "\<exists>s'. si446x_get_int_status (protocol_chip P) a b c s = Some s'"
    "\<exists>s'. si446x_get_modem_status_cmd (protocol_chip P) a s = Some s'"
    "\<exists>s'. si446x_fifo_info (protocol_chip P) a s = Some s'"
    "\<exists>s'. si446x_write_tx_fifo (protocol_chip P) bs s = Some s'"
    "\<exists>s'. si446x_start_tx (protocol_chip P) ch cond len s = Some s'"
  using send_command_protocol[OF assms, of "[0x34, st]" s] send_command_protocol[OF assms, of "[0x11, g, 1, p, v]" s]
    send_command_protocol[OF assms, of "[0x31, ch, cond, ucast (drop_bit 8 len), ucast len, 0, 0]" s]
    command_reply_protocol[OF assms, of "[0x20, a, b, c]" 8 s] command_reply_protocol[OF assms, of "[0x22, a]" 8 s]
    command_reply_protocol[OF assms, of "[0x15, a]" 2 s]
  by (auto simp: si446x_change_state_def si446x_set_property_def si446x_get_int_status_def si446x_get_modem_status_cmd_def
      si446x_fifo_info_def si446x_write_tx_fifo_def radio_comm_WriteData_def si446x_start_tx_def Let_def)

lemma request_device_state_protocol:
  assumes "always_ready P"
  shows "\<exists>s'. si446x_request_device_state (protocol_chip P) s = Some (reply P (commands s @ [[0x33]]) 0, s')"
  using command_reply_protocol[OF assms, of "[0x33]" 2 s] by (auto simp: si446x_request_device_state_def)

lemma get_packet_info_protocol:
  assumes "always_ready P"
  shows "\<exists>s'. si446x_get_packet_info (protocol_chip P) 0 0 0 s
    = Some (be16 (reply P (commands s @ [[0x16, 0, 0, 0, 0, 0]]) 0) (reply P (commands s @ [[0x16, 0, 0, 0, 0, 0]]) 1), s')"
  using command_reply_protocol[OF assms, of "[0x16, 0, 0, 0, 0, 0]" 2 s]
  by (auto simp: si446x_get_packet_info_def Let_def)

text \<open>
  The wait for the chip to leave the reception ends after at most 201 questions, with the chip
  in the asked state or not; but the count that remains does not tell which. It is 0, which the
  code reports as a time-out, exactly if the last question was the first to find the chip
  in its new state; a real time-out leaves the wrapped count and is not reported.
\<close>

theorem leave_rx_wait_is_bounded:
  assumes "spi_answer E = protocol_chip P" "always_ready P"
  shows "\<exists>t s' k. leave_rx_wait E si446x_tx_timeout s = Some (t, s') \<and> 1 \<le> k \<and> k \<le> 201
    \<and> commands s' = commands s @ replicate k [0x33]
    \<and> (current_state s' = SI_STATE_SPI_ACTIVE \<longrightarrow> t = of_nat (201 - k))
    \<and> (current_state s' \<noteq> SI_STATE_SPI_ACTIVE \<longrightarrow> k = 201 \<and> t = - 1)
    \<and> (t = 0 \<longleftrightarrow> k = 201 \<and> current_state s' = SI_STATE_SPI_ACTIVE)"
proof -
  have "\<exists>t s' k. leave_rx_wait E n s = Some (t, s') \<and> 1 \<le> k \<and> k \<le> Suc n
    \<and> commands s' = commands s @ replicate k [0x33]
    \<and> (current_state s' = SI_STATE_SPI_ACTIVE \<longrightarrow> t = of_nat (Suc n - k))
    \<and> (current_state s' \<noteq> SI_STATE_SPI_ACTIVE \<longrightarrow> k = Suc n \<and> t = - 1)" for n
  proof (induction n arbitrary: s)
    case n: (Suc n)
    obtain st s1 where q: "si446x_request_device_state (spi_answer E) s = Some (st, s1)"
      using request_device_state_protocol[OF assms(2)] assms(1) by metis
    note v = request_device_state_view[OF q]
    show ?case
    proof (cases "st = SI_STATE_SPI_ACTIVE")
      case True
      then have "leave_rx_wait E (Suc n) s = Some (of_nat (Suc n), s1)"
        using q by (subst leave_rx_wait.simps) simp
      then show ?thesis using v True
        by (intro exI[of _ "of_nat (Suc n)"] exI[of _ s1] exI[of _ 1]) simp
    next
      case False
      then have w: "leave_rx_wait E (Suc n) s = leave_rx_wait E n s1"
        using q by (subst leave_rx_wait.simps) simp
      from n[of s1] obtain t s' k where "leave_rx_wait E n s1 = Some (t, s')" "1 \<le> k" "k \<le> Suc n"
        "commands s' = commands s1 @ replicate k [0x33]"
        "current_state s' = SI_STATE_SPI_ACTIVE \<longrightarrow> t = of_nat (Suc n - k)"
        "current_state s' \<noteq> SI_STATE_SPI_ACTIVE \<longrightarrow> k = Suc n \<and> t = - 1" by blast
      then show ?thesis using w v
        by (intro exI[of _ t] exI[of _ s'] exI[of _ "Suc k"]) simp
    qed
  next
    case 0
    obtain st s1 where q: "si446x_request_device_state (spi_answer E) s = Some (st, s1)"
      using request_device_state_protocol[OF assms(2)] assms(1) by metis
    have "leave_rx_wait E 0 s = Some (if st = SI_STATE_SPI_ACTIVE then 0 else - 1, s1)"
      using q by (subst leave_rx_wait.simps) simp
    then show ?case using request_device_state_view[OF q]
      by (intro exI[of _ "if st = SI_STATE_SPI_ACTIVE then 0 else - 1"] exI[of _ s1] exI[of _ 1]) simp
  qed
  from this[of si446x_tx_timeout] obtain t s' k where w: "leave_rx_wait E si446x_tx_timeout s = Some (t, s')"
    "1 \<le> k" "k \<le> 201" "commands s' = commands s @ replicate k [0x33]"
    "current_state s' = SI_STATE_SPI_ACTIVE \<longrightarrow> t = of_nat (201 - k)"
    "current_state s' \<noteq> SI_STATE_SPI_ACTIVE \<longrightarrow> k = 201 \<and> t = - 1"
    by (auto simp: si446x_tx_timeout_def)
  have small: "(of_nat j :: u32) = 0 \<longleftrightarrow> j = 0" if "j \<le> 200" for j
    using that by (auto simp: word_of_nat_eq_0_iff dest: dvd_imp_le)
  have "(of_nat (201 - k) :: u32) = 0 \<longleftrightarrow> 201 - k = 0" by (rule small) (use w(2) in simp)
  also have "\<dots> \<longleftrightarrow> k = 201" using w(3) by auto
  finally have "(of_nat (201 - k) :: u32) = 0 \<longleftrightarrow> k = 201" .
  with w show ?thesis by (intro exI[of _ t] exI[of _ s'] exI[of _ k]) auto
qed

section \<open>From one node to another\<close>

text \<open>What the chip of the receiver holds after a packet: its length and its bytes.\<close>

definition chip_received :: "si446x_protocol \<Rightarrow> u8 list \<Rightarrow> bool" where
  "chip_received P bs \<longleftrightarrow> always_ready P
     \<and> (\<forall>cs. reply P (cs @ [[0x16, 0, 0, 0, 0, 0]]) 0 = 0
            \<and> reply P (cs @ [[0x16, 0, 0, 0, 0, 0]]) 1 = of_nat (length bs))
     \<and> (\<forall>cs k. k < length bs \<longrightarrow> fast P cs 0x77 k = bs ! k)"

lemma be16_low: "n < 256 \<Longrightarrow> unat (be16 0 (of_nat n)) = n"
proof -
  assume n: "n < 256"
  have m: "(0x00FF :: u16) = mask 8" by (simp add: mask_eq_exp_minus_1)
  have "be16 0 b = ucast b" for b
    unfolding be16_def m by (rule bit_word_eqI) (auto simp: bit_simps dest: bit_imp_le_length)
  then show ?thesis using n by (simp add: unsigned_ucast_eq unsigned_of_nat take_bit_nat_eq_self)
qed

lemma hal_send_accepted:
  assumes "hal_send_common E msg sz t doTS s = Some (q, s1)" "spi_lock s = 0" "radio_lock s = 0"
    "radio_lock s1 = radio_lock_tx"
  shows "tx_msg_ptr s1 = msg \<and> q = msg \<and> (\<exists>cs bs mid hi lo. bytes_at s msg (unat (ucast sz :: u8)) = Some bs
    \<and> (\<forall>c\<in>set cs. quiet c)
    \<and> commands s1 = commands s @ cs @ [0x66 # (of_nat (length bs) + (if doTS then 4 else 0)) # bs] @ mid
        @ [[0x31, ucast (si446x_channel s), SI446x_TX_DONE_STATE, hi, lo, 0, 0]] \<and> (\<not> doTS \<longrightarrow> mid = []))"
proof -
  obtain r s2 where p: "si446x_packet_send E (ucast (si446x_channel s)) (bytes_at s msg) (ucast sz) t doTS
      SI446x_TX_DONE_STATE s = Some (r, s2)"
    and o: "(if r \<noteq> DS_Success then do { s \<leftarrow> send_refused E sz r s2; Some (msg, s) }
      else Some (msg, s2\<lparr>tx_msg_ptr := msg\<rparr>)) = Some (q, s1)"
    using assms(1) by (auto simp: hal_send_common_def bind_eq_Some_conv)
  note l = packet_send_locks[OF p assms(2)]
  have r: "r = DS_Success"
  proof (rule ccontr)
    assume "r \<noteq> DS_Success"
    then have "radio_lock s1 = radio_lock s2" "radio_lock s2 = 0"
      using o l assms(3) by (auto simp: bind_eq_Some_conv send_refused_def dest!: call_send_ack_keeps)
    then show False using assms(4) by (simp add: radio_lock_tx_def)
  qed
  then have "q = msg" "s1 = s2\<lparr>tx_msg_ptr := msg\<rparr>" using o by auto
  with r l show ?thesis by auto
qed

lemma end_of_reception_returns:
  assumes "always_ready P" "spi_answer E = protocol_chip P"
  shows "\<exists>rssi u. end_of_reception E s = Some (rssi, unlock_both u) \<and> steady s u"
proof -
  obtain a where a: "si446x_get_modem_status_cmd (spi_answer E) 0xFF s = Some a"
    using chip_ops_return(4)[OF assms(1)] assms(2) by metis
  obtain b where b: "si446x_fifo_info (spi_answer E) 0x3 a = Some b"
    using chip_ops_return(5)[OF assms(1)] assms(2) by metis
  obtain c where c: "si446x_change_state (spi_answer E) (defaultRxDoneState b) b = Some c"
    using chip_ops_return(1)[OF assms(1)] assms(2) by metis
  have "steady s c" using steady_ops(5)[OF a] steady_ops(6)[OF b] steady_ops(1)[OF c] steady_trans by blast
  then show ?thesis using a b c by (auto simp: end_of_reception_def Let_def)
qed

lemma unlock_both_keeps [simp]:
  "rx_msg_ptr (unlock_both s) = rx_msg_ptr s" "mem (unlock_both s) = mem s" "rx_timestamp (unlock_both s) = rx_timestamp s"
  "active_mac (unlock_both s) = active_mac s"
  by (simp_all add: unlock_both_def si446x_spi_unlock_def si446x_radio_unlock_def free_lock_def set_spi_lock_def
      set_radio_lock_def active_mac_def)

lemma rx_cont_receives:
  assumes "chip_received P bs" "spi_answer E = protocol_chip P" "spi_lock r = 0" "length bs \<le> 128"
    "rx_msg_ptr r = Some p" "mem r p = Some m0" "active_mac r = Some h"
  shows "\<exists>rssi u. rx_cont_do E r = deliver_packet E bs rssi u \<and> rx_msg_ptr u = Some p \<and> mem u = mem r
    \<and> active_mac u = Some h \<and> rx_timestamp u = rx_timestamp r \<and> spi_lock u = 0 \<and> radio_lock u = 0"
proof -
  have ready: "always_ready P" using assms(1) by (simp add: chip_received_def)
  obtain r1 where l1: "si446x_spi_lock E radio_lock_rx r = (0, r1)" and k1: "rx_msg_ptr r1 = rx_msg_ptr r" "mem r1 = mem r"
    "active_mac r1 = active_mac r" "rx_timestamp r1 = rx_timestamp r"
    using spi_lock_free[OF assms(3), of E radio_lock_rx] by (auto simp: active_mac_def)
  obtain ow r2 where l2: "si446x_radio_lock E radio_lock_rx r1 = (ow, r2)" by fastforce
  have k2: "rx_msg_ptr r2 = rx_msg_ptr r" "mem r2 = mem r" "active_mac r2 = active_mac r" "rx_timestamp r2 = rx_timestamp r"
    using radio_lock_free[of r1 E radio_lock_rx] l2 k1
    by (cases "radio_lock r1 = 0"; auto simp: active_mac_def)+
  obtain st r3 where q3: "si446x_request_device_state (spi_answer E) r2 = Some (st, r3)"
    using request_device_state_protocol[OF ready] assms(2) by metis
  obtain r4 where q4: "si446x_get_packet_info (spi_answer E) 0 0 0 r3 = Some (be16 0 (of_nat (length bs)), r4)"
    using get_packet_info_protocol[OF ready, of r3] assms(1,2) by (auto simp: chip_received_def)
  have n: "unat (be16 0 (of_nat (length bs))) = length bs" using assms(4) by (simp add: be16_low)
  have "unat (ucast (be16 0 (of_nat (length bs))) :: u8) = length bs"
    using n assms(4) by (simp add: unsigned_ucast_eq take_bit_nat_eq_self)
  moreover have "map (fast P (commands r4) 0x77) [0..<length bs] = bs"
    using assms(1) by (intro nth_equalityI) (simp_all add: chip_received_def)
  ultimately obtain r5 where q5: "si446x_read_rx_fifo (spi_answer E) (ucast (be16 0 (of_nat (length bs)))) r4 = Some (bs, r5)"
    using ReadData_protocol[of "0x77" P "length bs" r4] assms(2) by (auto simp: si446x_read_rx_fifo_def)
  let ?r6 = "case rx_callback r5 of None \<Rightarrow> r5 | Some f \<Rightarrow> log_call (Call_RxCallback f (rx_timestamp r5) bs) r5"
  have "steady r2 r5" using steady_ops(3)[OF q3] steady_ops(8)[OF q4] steady_ops(9)[OF q5] steady_trans by blast
  then have "steady r2 ?r6" using steady_upd(2) steady_trans by (auto split: option.split)
  moreover obtain rssi u where u: "end_of_reception E ?r6 = Some (rssi, unlock_both u)" "steady ?r6 u"
    using end_of_reception_returns[OF ready assms(2)] by blast
  ultimately have "steady r2 u" using steady_trans by blast
  then have f: "rx_msg_ptr u = Some p" "mem u = mem r" "active_mac u = Some h" "rx_timestamp u = rx_timestamp r"
    using k2 assms(5,7) by (simp_all add: steady_drv active_mac_def)
  have "rx_cont_do E r = deliver_packet E bs rssi (unlock_both u)"
    using l1 l2 q3 q4 q5 n assms(4) u(1) by (simp add: rx_cont_do_def si446x_packet_size_def Let_def)
  then show ?thesis using f by (intro exI[of _ rssi] exI[of _ "unlock_both u"]) simp
qed

lemma deliver_packet_message:
  assumes "message_bytes 0 n m = Some bs" "sizeof_header \<le> n" "n \<le> sizeof_header + 100" "length (payload m) = 100"
    "rx_msg_ptr u = Some p" "mem u p = Some m0" "length (payload m0) = 100" "active_mac u = Some h"
  shows "\<exists>u' m'. deliver_packet E bs rssi u = Some u'
    \<and> spi_lock u' = spi_lock u \<and> radio_lock u' = radio_lock u
    \<and> calls u' = calls u @ [Call_Receive h p (of_nat n)]
    \<and> (rx_msg_ptr u', mem u') = mac_receive E (calls u') ((mem u)(p \<mapsto> m'))
    \<and> header m' = (header m)\<lparr>hdr_length := of_nat n\<rparr>
    \<and> take (n - sizeof_header) (payload m') = take (n - sizeof_header) (payload m)
    \<and> msg_time m' = rx_timestamp u"
proof -
  from write_message_bytes[OF assms(2-4,7)] assms(1) have w: "length bs = n"
    "write_frame bs m0 = Some (m0\<lparr>header := header m,
      payload := take (n - sizeof_header) (payload m) @ drop (n - sizeof_header) (payload m0)\<rparr>)" by auto
  have n: "n < 256" using assms(3) by (simp add: sizeof_header_def)
  let ?m = "(m0\<lparr>header := (header m)\<lparr>hdr_length := of_nat n\<rparr>,
      payload := take (n - sizeof_header) (payload m) @ drop (n - sizeof_header) (payload m0),
      metadata := SetReceiveTimeStamp_INT64 (rx_timestamp u) ((metadata m0)\<lparr>Rssi := of_int (convert_rssi rssi), Lqi := 0\<rparr>)\<rparr>)"
  have f: "fill_rx_msg bs rssi (rx_timestamp u) m0 = Some ?m"
    using w by (simp add: fill_rx_msg_def Let_def)
  have l: "(ucast (of_nat n :: u8) :: u16) = of_nat n"
    by (rule word_unat_eq_iff[THEN iffD2]) (use n in \<open>simp add: unsigned_ucast_eq unsigned_of_nat take_bit_nat_eq_self\<close>)
  obtain q mm where r: "mac_receive E (calls u @ [Call_Receive h p (of_nat n)]) ((mem u)(p \<mapsto> ?m)) = (q, mm)" by fastforce
  have "deliver_packet E bs rssi u = Some (u\<lparr>mem := mm, calls := calls u @ [Call_Receive h p (of_nat n)], rx_msg_ptr := q\<rparr>)"
    using assms(5,6,8) f r l by (simp add: deliver_packet_def log_call_def Let_def)
  moreover have "take (n - sizeof_header) (payload ?m) = take (n - sizeof_header) (payload m)"
    using assms(3,4) by simp
  moreover have "msg_time ?m = rx_timestamp u"
    by (simp add: SetReceiveTimeStamp_INT64_def GetReceiveTimeStamp_def split_join_u64 signed_half)
  ultimately show ?thesis using r by (intro exI[of _ _] exI[of _ ?m]) auto
qed

text \<open>
  C4. What one node sends another one receives. If the driver of one node accepts a message (the
  radio is locked for sending afterwards), the last commands on its bus are the length and the
  bytes of the frame and the start of the transmission; and if a second node's chip has
  received these bytes, its driver gives its MAC a message with the same header, its length
  filled in, the same payload and the time of the reception, and frees both locks.
\<close>

theorem what_is_sent_is_received:
  assumes "si446x_hal_send E msg sz s = Some (q, s1)" "spi_lock s = 0" "radio_lock s = 0"
    "radio_lock s1 = radio_lock_tx" "mem s msg = Some m" "length (payload m) = 100"
    "sizeof_header \<le> unat sz" "unat sz \<le> sizeof_header + 100"
    and "spi_answer E' = protocol_chip P" "spi_lock r = 0" "rx_msg_ptr r = Some p" "mem r p = Some m0"
    "length (payload m0) = 100" "active_mac r = Some h"
  shows "\<exists>cs bs hi lo. commands s1 = cs @ [0x66 # ucast sz # bs, [0x31, ucast (si446x_channel s), SI446x_TX_DONE_STATE, hi, lo, 0, 0]]
    \<and> (chip_received P bs \<longrightarrow> (\<exists>r' mm m'. rx_cont_do E' r = Some r' \<and> locks r' = (0, 0)
        \<and> last (calls r') = Call_Receive h p (ucast sz)
        \<and> (rx_msg_ptr r', mem r') = mac_receive E' (calls r') ((mem r)(p \<mapsto> m'))
        \<and> header m' = (header m)\<lparr>hdr_length := ucast sz\<rparr>
        \<and> take (unat sz - sizeof_header) (payload m') = take (unat sz - sizeof_header) (payload m)
        \<and> msg_time m' = rx_timestamp r))"
proof -
  have sz: "unat (ucast sz :: u8) = unat sz"
    using assms(8) by (simp add: unsigned_ucast_eq take_bit_nat_eq_self sizeof_header_def)
  have send: "hal_send_common E msg sz 0 False s = Some (q, s1)" using assms(1) by (simp add: si446x_hal_send_def)
  from hal_send_accepted[OF this assms(2-4)] obtain cs bs hi lo where b: "message_bytes 0 (unat sz) m = Some bs"
    and c: "commands s1 = commands s @ cs @ [0x66 # of_nat (length bs) # bs]
        @ [[0x31, ucast (si446x_channel s), SI446x_TX_DONE_STATE, hi, lo, 0, 0]]"
    using sz assms(5) by (auto simp: bytes_at_def)
  have len: "length bs = unat sz" using write_message_bytes[OF assms(7,8,6,6)] b by auto
  have lsz: "(of_nat (length bs) :: u8) = ucast sz" using len by simp
  have rx: "\<exists>r' mm m'. rx_cont_do E' r = Some r' \<and> locks r' = (0, 0)
        \<and> last (calls r') = Call_Receive h p (ucast sz)
        \<and> (rx_msg_ptr r', mem r') = mac_receive E' (calls r') ((mem r)(p \<mapsto> m'))
        \<and> header m' = (header m)\<lparr>hdr_length := ucast sz\<rparr>
        \<and> take (unat sz - sizeof_header) (payload m') = take (unat sz - sizeof_header) (payload m)
        \<and> msg_time m' = rx_timestamp r" if "chip_received P bs"
  proof -
    have "length bs \<le> 128" using len assms(8) by (simp add: sizeof_header_def)
    from rx_cont_receives[OF that assms(9,10) this assms(11,12,14)] obtain rssi u where
      u: "rx_cont_do E' r = deliver_packet E' bs rssi u" "rx_msg_ptr u = Some p" "mem u = mem r"
      "active_mac u = Some h" "rx_timestamp u = rx_timestamp r" "spi_lock u = 0" "radio_lock u = 0" by blast
    from deliver_packet_message[OF b assms(7,8,6) u(2) _ assms(13) u(4), of E' rssi] u(3) assms(12) obtain u' m' where
      "deliver_packet E' bs rssi u = Some u'" "spi_lock u' = 0" "radio_lock u' = 0"
      "calls u' = calls u @ [Call_Receive h p (of_nat (unat sz))]"
      "(rx_msg_ptr u', mem u') = mac_receive E' (calls u') ((mem r)(p \<mapsto> m'))"
      "header m' = (header m)\<lparr>hdr_length := of_nat (unat sz)\<rparr>"
      "take (unat sz - sizeof_header) (payload m') = take (unat sz - sizeof_header) (payload m)"
      "msg_time m' = rx_timestamp r" using u(3,5-7) by auto
    then show ?thesis using u(1) lsz len by auto
  qed
  show ?thesis
    by (intro exI[of _ "commands s @ cs"] exI[of _ bs] exI[of _ hi] exI[of _ lo] conjI impI)
      (use c lsz rx in auto)
qed

section \<open>An idle radio sends\<close>

lemma get_lock_stores:
  assumes "\<And>cs. strex_ok E cs" shows "stored E i s"
  using assms by (simp add: stored_def)

lemma packet_send_succeeds:
  assumes "spi_answer E = protocol_chip P" "always_ready P" "\<And>cs. strex_ok E cs"
    "\<And>cs. reply P (cs @ [[0x33]]) 0 = SI_STATE_READY"
    "spi_lock s = 0" "radio_lock s = 0" "isInit s" "unat len \<le> 128" "pkt (unat len) = Some bs"
  shows "\<exists>s'. si446x_packet_send E chan pkt len ev False after_st s = Some (DS_Success, s') \<and> radio_lock s' = radio_lock_tx"
proof -
  obtain cs where l1: "si446x_spi_lock E radio_lock_tx s = (0, s\<lparr>calls := calls s @ cs, spi_lock := radio_lock_tx\<rparr>)"
    using spi_lock_free[OF assms(5), of E radio_lock_tx] get_lock_stores[of E, OF assms(3)] by auto
  let ?s1 = "s\<lparr>calls := calls s @ cs, spi_lock := radio_lock_tx\<rparr>"
  obtain cs' where l2: "si446x_radio_lock E radio_lock_tx ?s1 = (0, ?s1\<lparr>calls := calls ?s1 @ cs', radio_lock := radio_lock_tx\<rparr>)"
    using radio_lock_free[of ?s1 E radio_lock_tx] get_lock_stores[of E, OF assms(3)] assms(6) by auto
  let ?s2 = "?s1\<lparr>calls := calls ?s1 @ cs', radio_lock := radio_lock_tx\<rparr>"
  obtain s3 where q3: "si446x_request_device_state (spi_answer E) ?s2 = Some (SI_STATE_READY, s3)"
    using request_device_state_protocol[OF assms(2), of ?s2] assms(1,4) by auto
  have lr: "si446x_leave_rx E radio_lock_tx ?s2 = Some (False, s3)"
    using q3 by (simp add: si446x_leave_rx_def si_states)
  obtain s4 where q4: "si446x_request_device_state (spi_answer E) s3 = Some (SI_STATE_READY, s4)"
    using request_device_state_protocol[OF assms(2), of s3] assms(1,4) by auto
  obtain s5 where q5: "si446x_write_tx_fifo (spi_answer E) (of_nat (length bs) # bs) (set_radio_power_pwm True s4) = Some s5"
    using chip_ops_return(6)[OF assms(2)] assms(1) by metis
  obtain s6 where q6: "si446x_start_tx (spi_answer E) chan after_st (ucast (of_nat (length bs) :: u8) + 1) s5 = Some s6"
    using chip_ops_return(7)[OF assms(2)] assms(1) by metis
  have send: "send_frame_bytes E chan bs ev False after_st s4 = Some s6"
    using q5 q6 by (simp add: send_frame_bytes_def Let_def)
  have "radio_lock s6 = radio_lock_tx"
    using send_frame_bytes_view[OF send] steady_drv(2)[OF steady_ops(3)[OF q3]] steady_drv(2)[OF steady_ops(3)[OF q4]] by simp
  moreover have "si446x_packet_send E chan pkt len ev False after_st s = Some (DS_Success, si446x_spi_unlock s6)"
    using l1 l2 lr q4 send assms(7-9)
    by (simp add: si446x_packet_send_def si446x_packet_size_def si_states Let_def)
  ultimately show ?thesis by simp
qed

lemma hal_send_succeeds:
  assumes "spi_answer E = protocol_chip P" "always_ready P" "\<And>cs. strex_ok E cs"
    "\<And>cs. reply P (cs @ [[0x33]]) 0 = SI_STATE_READY"
    "spi_lock s = 0" "radio_lock s = 0" "isInit s" "unat (ucast sz :: u8) \<le> 128"
    "bytes_at s msg (unat (ucast sz :: u8)) = Some bs"
  shows "\<exists>s'. si446x_hal_send E msg sz s = Some (msg, s') \<and> radio_lock s' = radio_lock_tx"
  using packet_send_succeeds[OF assms(1-4), of s "ucast sz" "bytes_at s msg" bs "ucast (si446x_channel s)" 0 SI446x_TX_DONE_STATE]
    assms(5-9) by (auto simp: si446x_hal_send_def hal_send_common_def)

lemma hal_reset_succeeds:
  assumes "spi_answer E = protocol_chip P" "always_ready P" "\<And>cs. reply P (cs @ [[0x33]]) 0 = SI_STATE_READY"
    "init_commands E = [0]" "spi_lock s = 0"
  shows "\<exists>s'. si446x_hal_reset E s = Some (DS_Success, s')"
proof -
  obtain s1 where l: "si446x_spi_lock E radio_lock_reset s = (0, s1)" using spi_lock_free[OF assms(5)] by blast
  let ?s2 = "radio_shutdown False (radio_shutdown True (s1\<lparr>ctsWentHigh := 0, current_state := SI_STATE_BOOT\<rparr>))"
  obtain v s3 where q3: "radio_comm_PollCTS (spi_answer E) ?s2 = Some (v, s3)"
    using PollCTS_protocol[of P ?s2] assms(1,2) by (auto simp: always_ready_def)
  obtain s4 where q4: "si446x_change_state (spi_answer E) SI_STATE_READY s3 = Some s4"
    using chip_ops_return(1)[OF assms(2)] assms(1) by metis
  obtain s5 where q5: "si446x_request_device_state (spi_answer E) s4 = Some (SI_STATE_READY, s5)"
    using request_device_state_protocol[OF assms(2), of s4] assms(1,3) by auto
  obtain s6 where q6: "si446x_get_int_status (spi_answer E) 0 0 0 s5 = Some s6"
    using chip_ops_return(3)[OF assms(2)] assms(1) by metis
  obtain s7 where q7: "si446x_fifo_info (spi_answer E) 0x3 s6 = Some s7"
    using chip_ops_return(5)[OF assms(2)] assms(1) by metis
  have "si446x_reset (spi_answer E) [0] s1 = Some s5"
    using q3 q4 q5 by (simp add: si446x_reset_def Let_def)
  then show ?thesis using l q6 q7 assms(4) by (simp add: si446x_hal_reset_def)
qed

text \<open>A node with one message to send, and its chip.\<close>

definition sample_protocol :: "u8 list \<Rightarrow> si446x_protocol" where
  "sample_protocol bs =
     \<lparr>reply = (\<lambda>cs k. if last cs = [0x33] then SI_STATE_READY
                      else if last cs = [0x16, 0, 0, 0, 0, 0] \<and> k = 1 then of_nat (length bs) else 0),
      fast = (\<lambda>_ _ k. if k < length bs then bs ! k else 0), busy_polls = (\<lambda>_. 0)\<rparr>"

definition sample_drv_env :: "u8 list \<Rightarrow> drv_env" where
  "sample_drv_env bs =
     \<lparr>spi_answer = protocol_chip (sample_protocol bs), strex_ok = (\<lambda>_. True), CurrentTicks = (\<lambda>_ _. 0),
      irq_arrives = (\<lambda>_ _. False), mac_receive = (\<lambda>_ m. (Some 1, m)), mac_ack = (\<lambda>_ m. m),
      Device_Serial = (0, 0, 0), platform_austere = True, init_commands = [0], behind_tables = (0, None)\<rparr>"

definition sample_drv :: drv where
  "sample_drv =
     \<lparr>ctsWentHigh = 0, current_state = 0, latched_rssi = 0, current_rssi = 0, ph_status = 0, modem_status = 0,
      chip_status = 0, ph_pend = 0, modem_pend = 0, chip_pend = 0, freq_offset = 0, Si446xCmd = NO_REPLY,
      Pro2Cmd = replicate 16 0, bus = [], spi_lock = 0, radio_lock = 0, defaultRxDoneState = SI_STATE_SLEEP,
      SI446X_pin_setup = choose_hardware_config 3, tx_callback = None, rx_callback = None, tx_linked = False,
      rx_linked = False, int_defer_linked = False, isInit = True, si446x_channel = 0, tx_power = 0x7F,
      rx_timestamp = 5, radio_si446x_spi2 = \<lparr>RadioID = 0, radio_MyAddress = 7, MacIDs = [1, 0, 0, 0],
        MacIDIndex = 1, defaultHandler = 0, MacHandlers = [Some 9, None, None, None], Radio_Type = 0,
        radio_Initialized = True\<rparr>,
      active_mac_index = 0, tx_msg_ptr = 0, rx_msg_ptr = Some 1, mem = (\<lambda>_. Some zero_message),
      ack_prepared = False, softwareAckHeader = replicate 5 0, radioType = 0, calls = []\<rparr>"

lemma sample_simps:
  "spi_answer (sample_drv_env bs) = protocol_chip (sample_protocol bs)" "strex_ok (sample_drv_env bs) cs"
  "init_commands (sample_drv_env bs) = [0]"
  "reply (sample_protocol bs) (cs' @ [[0x33]]) 0 = SI_STATE_READY" "always_ready (sample_protocol bs)"
  "chip_received (sample_protocol bs) bs"
  "spi_lock sample_drv = 0" "radio_lock sample_drv = 0" "isInit sample_drv" "mem sample_drv p = Some zero_message"
  "rx_msg_ptr sample_drv = Some 1" "active_mac sample_drv = Some 9" "length (payload zero_message) = 100"
  "commands sample_drv = []"
  by (auto simp: sample_drv_env_def sample_protocol_def sample_drv_def always_ready_def ready_in_time_def
      chip_received_def active_mac_def GetMacHandler_def zero_message_def payload_room commands_def bus_view_def cmds_of_def)

lemma sample_send:
  "\<exists>s'. si446x_hal_send (sample_drv_env bs) 2 20 sample_drv = Some (2, s') \<and> radio_lock s' = radio_lock_tx"
proof -
  obtain b where "message_bytes 0 20 zero_message = Some b"
    using write_message_bytes[of 20 zero_message zero_message] by (auto simp: sizeof_header_def sample_simps)
  then show ?thesis
    by (intro hal_send_succeeds[of _ "sample_protocol bs" _ _ _ b])
      (simp_all add: sample_simps bytes_at_def)
qed

lemma sample_reachable: "drv_reachable (sample_drv_env bs) sample_drv"
  by (rule reach_start) (simp_all add: sample_simps)

text \<open>The sample driver is reset and holds the bus lock.\<close>

lemma lock_variables_have_three_values_witness:
  "\<exists>s1. si446x_hal_reset (sample_drv_env []) sample_drv = Some (DS_Success, s1)
     \<and> spi_lock s1 \<in> {radio_lock_none, radio_lock_reset} \<and> radio_lock s1 \<in> {radio_lock_none, radio_lock_tx, radio_lock_rx}
     \<and> spi_lock sample_drv = radio_lock_none"
proof -
  let ?E = "sample_drv_env []"
  have start: "drv_run ?E False sample_drv" by (rule run_start) (simp_all add: sample_simps)
  obtain s1 where s1: "si446x_hal_reset ?E sample_drv = Some (DS_Success, s1)"
    using hal_reset_succeeds[of ?E "sample_protocol []" sample_drv] by (auto simp: sample_simps)
  from lock_variables_have_three_values[OF start] lock_variables_have_three_values[OF run_reset[OF start s1]] s1
  show ?thesis by auto
qed

lemma busy_radio_is_left_alone_witness:
  "\<exists>s r s'. radio_lock s = radio_lock_tx \<and> request (sample_drv_env []) R_Rx s = Some (r, s') \<and> commands s' = commands s
     \<and> radio_lock s' = radio_lock_tx"
proof -
  let ?E = "sample_drv_env []"
  obtain s where s: "si446x_hal_send ?E 2 20 sample_drv = Some (2, s)" "radio_lock s = radio_lock_tx"
    using sample_send by blast
  have "request ?E (R_Send 2 20) sample_drv = Some (None, s)" using s by simp
  then have re: "drv_reachable ?E s" by (rule reach_step[OF sample_reachable step_request])
  then have free: "spi_lock s = 0" by (rule reachable_spi_free)
  have "\<exists>r s'. request ?E R_Rx s = Some (r, s')"
  proof -
    obtain cs where l: "si446x_spi_lock ?E radio_lock_rx_setup s
        = (0, s\<lparr>calls := calls s @ cs, spi_lock := if stored ?E radio_lock_rx_setup s then radio_lock_rx_setup else 0\<rparr>)"
      using spi_lock_free[OF free] by blast
    have "si446x_radio_lock ?E radio_lock_rx_setup
        (s\<lparr>calls := calls s @ cs, spi_lock := if stored ?E radio_lock_rx_setup s then radio_lock_rx_setup else 0\<rparr>)
        = (radio_lock_tx, s\<lparr>calls := calls s @ cs, spi_lock := if stored ?E radio_lock_rx_setup s then radio_lock_rx_setup else 0\<rparr>)"
      using s(2) by (simp add: radio_lock_tx_def)
    with l show ?thesis by (auto simp: si446x_hal_rx_def radio_lock_tx_def)
  qed
  then obtain r s' where "request ?E R_Rx s = Some (r, s')" by blast
  with busy_radio_is_left_alone[OF re _ this] s(2) show ?thesis
    by (intro exI[of _ s] exI[of _ r] exI[of _ s']) (simp add: lock_ids)
qed

lemma reset_locks_the_driver_out_witness:
  "\<exists>s1. si446x_hal_reset (sample_drv_env []) sample_drv = Some (DS_Success, s1) \<and> spi_lock s1 = radio_lock_reset"
proof -
  obtain s1 where s1: "si446x_hal_reset (sample_drv_env []) sample_drv = Some (DS_Success, s1)"
    using hal_reset_succeeds[of "sample_drv_env []" "sample_protocol []" sample_drv] by (auto simp: sample_simps)
  with reset_locks_the_driver_out[OF s1, of s1] show ?thesis
    by (auto simp: sample_simps lock_ids_pos stored_def)
qed

lemma what_is_sent_is_received_witness:
  "\<exists>bs s1 r' m'. si446x_hal_send (sample_drv_env []) 2 20 sample_drv = Some (2, s1)
     \<and> rx_cont_do (sample_drv_env bs) sample_drv = Some r' \<and> mem r' 1 = Some m'
     \<and> header m' = (header zero_message)\<lparr>hdr_length := 20\<rparr>"
proof -
  obtain s1 where s1: "si446x_hal_send (sample_drv_env []) 2 20 sample_drv = Some (2, s1)" "radio_lock s1 = radio_lock_tx"
    using sample_send by blast
  have r: "mac_receive (sample_drv_env bs) cs mm = (Some 1, mm)" for bs cs mm by (simp add: sample_drv_env_def)
  have sz: "sizeof_header \<le> unat (20 :: u16)" "unat (20 :: u16) \<le> sizeof_header + 100"
    by (simp_all add: sizeof_header_def)
  note t = what_is_sent_is_received[OF s1(1) sample_simps(7) sample_simps(8) s1(2) sample_simps(10) sample_simps(13) sz
    sample_simps(1) sample_simps(7) sample_simps(11) sample_simps(10) sample_simps(13) sample_simps(12)]
  let ?tail = "\<lambda>bs hi lo. [0x66 # ucast (20 :: u16) # bs, [0x31, ucast (si446x_channel sample_drv), SI446x_TX_DONE_STATE, hi, lo, 0, 0]]"
  obtain cs0 bs hi0 lo0 where b: "commands s1 = cs0 @ ?tail bs hi0 lo0"
    using t[of "[]"] by (elim exE conjE) (rule that)
  obtain cs' bs' hi lo where c: "commands s1 = cs' @ ?tail bs' hi lo"
    and k: "chip_received (sample_protocol bs) bs' \<longrightarrow> (\<exists>r' mm m'. rx_cont_do (sample_drv_env bs) sample_drv = Some r'
        \<and> locks r' = (0, 0) \<and> last (calls r') = Call_Receive 9 1 (ucast (20 :: u16))
        \<and> (rx_msg_ptr r', mem r') = mac_receive (sample_drv_env bs) (calls r') ((mem sample_drv)(1 \<mapsto> m'))
        \<and> header m' = (header zero_message)\<lparr>hdr_length := ucast (20 :: u16)\<rparr>
        \<and> take (unat (20 :: u16) - sizeof_header) (payload m') = take (unat (20 :: u16) - sizeof_header) (payload zero_message)
        \<and> msg_time m' = rx_timestamp sample_drv)"
    using t[of bs] by (elim exE conjE) (rule that)
  have "bs' = bs" using b c by auto
  then obtain r' m' where "rx_cont_do (sample_drv_env bs) sample_drv = Some r'" "mem r' 1 = Some m'"
    "header m' = (header zero_message)\<lparr>hdr_length := 20\<rparr>" using k sample_simps(6)[of bs] by (auto simp: r)
  with s1(1) show ?thesis by blast
qed

end
