(* ===== verification/Usart.thy ===== *)
theory Usart
  imports Hal_Queue
begin

text \<open>
  \<^verbatim>\<open>DeviceCode/pal/COM/usart/usart.cpp\<close>: the serial port driver between the interrupt handlers of the
  processor and the users of a port. A port has two queues of \<open>Hal_Queue\<close>, flow control by XON and XOFF in both
  directions, and events. A call of the processor's USART code, of an event sink or of the event flags is
  an entry of the history \<open>calls\<close>; what the hardware answers is a function of the history. An operation
  runs without an interrupt in between, but for the waits of \<open>Flush\<close>. \<open>ASSERT\<close> has no effect in a
  release build.
\<close>

section \<open>State of a port\<close>

record usart_state =
  TxQueue :: "u8 hal_queue"
  Flag :: u32
  TicksStartTxXOFF :: u64
  RxQueue :: "u8 hal_queue"
  RxBufferHighWaterMark :: nat
  RxBufferLowWaterMark :: nat
  fDataEventSet :: bool
  PortIndex :: int
  DataContext :: nat
  ErrorContext :: nat
  UsartDataEventCallback :: "nat option"
  UsartErrorEventCallback :: "nat option"

definition c_TX_BUFFERXOFF :: u32 where "c_TX_BUFFERXOFF = 0x1"
definition c_TX_BUFFERXON :: u32 where "c_TX_BUFFERXON = 0x2"
definition c_TX_SWFLOW_CTRL :: u32 where "c_TX_SWFLOW_CTRL = 0x4"
definition c_TX_XON_STATE :: u32 where "c_TX_XON_STATE = 0x8"
definition c_RX_SWFLOW_CTRL :: u32 where "c_RX_SWFLOW_CTRL = 0x100"
definition c_RX_XOFFSTATE :: u32 where "c_RX_XOFFSTATE = 0x600"
definition c_RX_HWFLOW_CTRL :: u32 where "c_RX_HWFLOW_CTRL = 0x800"
definition c_POWERSAVE :: u32 where "c_POWERSAVE = 0x10000"
definition c_INITIALIZED :: u32 where "c_INITIALIZED = 0x20000"
definition c_RX_XOFFSTATE_SHIFT :: nat where "c_RX_XOFFSTATE_SHIFT = 9"

definition XON :: u8 where "XON = 17"
definition XOFF :: u8 where "XOFF = 19"
definition XOFF_FLAG_FULL :: u32 where "XOFF_FLAG_FULL = 0x01"
definition XOFF_CLOCK_HALT :: u32 where "XOFF_CLOCK_HALT = 0x02"

definition USART_FLOW_HW_IN_EN :: u32 where "USART_FLOW_HW_IN_EN = 0x02"
definition USART_FLOW_SW_IN_EN :: u32 where "USART_FLOW_SW_IN_EN = 0x08"
definition USART_FLOW_SW_OUT_EN :: u32 where "USART_FLOW_SW_OUT_EN = 0x10"

definition USART_EVENT_ERROR_TXFULL :: nat where "USART_EVENT_ERROR_TXFULL = 0"
definition USART_EVENT_ERROR_RXOVER :: nat where "USART_EVENT_ERROR_RXOVER = 1"
definition USART_EVENT_DATA_CHARS :: nat where "USART_EVENT_DATA_CHARS = 5"
definition USART_EVENT_TYPE_ERROR :: int where "USART_EVENT_TYPE_ERROR = 1"
definition USART_EVENT_TYPE_DATA :: int where "USART_EVENT_TYPE_DATA = 2"
definition USART_TX_XOFF_TIMEOUT_INFINITE :: u64 where "USART_TX_XOFF_TIMEOUT_INFINITE = 0xFFFFFFFF"

definition flag_set :: "usart_state \<Rightarrow> u32 \<Rightarrow> bool" where
  "flag_set st f \<longleftrightarrow> Flag st AND f \<noteq> 0"

definition SET_USART_FLAG :: "u32 \<Rightarrow> usart_state \<Rightarrow> usart_state" where
  "SET_USART_FLAG f st = st\<lparr>Flag := Flag st OR f\<rparr>"

definition CLEAR_USART_FLAG :: "u32 \<Rightarrow> usart_state \<Rightarrow> usart_state" where
  "CLEAR_USART_FLAG f st = st\<lparr>Flag := Flag st AND NOT f\<rparr>"

definition IS_POWERSAVE_ENABLED :: "usart_state \<Rightarrow> bool" where
  "IS_POWERSAVE_ENABLED st \<longleftrightarrow> flag_set st c_POWERSAVE"

definition IS_USART_INITIALIZED :: "usart_state \<Rightarrow> bool" where
  "IS_USART_INITIALIZED st \<longleftrightarrow> flag_set st c_INITIALIZED"

definition RX_XOFF_STATE :: "usart_state \<Rightarrow> u32" where
  "RX_XOFF_STATE st = drop_bit c_RX_XOFFSTATE_SHIFT (Flag st AND c_RX_XOFFSTATE)"

section \<open>The driver\<close>

datatype usart_call =
    CPU_Initialize int | CPU_Uninitialize int
  | TxBufferEmptyInterruptEnable int bool | RxBufferFullInterruptEnable int bool
  | WriteCharToTxBuffer int u8 | Ask_Hardware | Sleep_MicroSeconds nat | Events_WaitForEvents u32 nat
  | DataEvent nat nat nat | ErrorEvent nat nat nat | Events_Set u32

record usart =
  ports :: "usart_state list"
  calls :: "usart_call list"

text \<open>
  What the processor answers after a history: whether a port could be set up or shut down, the clock, the states of
  the transmitter, and how many characters its interrupt takes while \<open>Flush\<close> sleeps.
\<close>

record usart_env =
  tx_buffer_size :: nat
  rx_buffer_size :: nat
  USART_TX_XOFF_TIMEOUT_TICKS :: u64
  cpu_init :: "usart_call list \<Rightarrow> bool"
  cpu_uninit :: "usart_call list \<Rightarrow> bool"
  current_ticks :: "usart_call list \<Rightarrow> u64"
  tx_buffer_empty :: "usart_call list \<Rightarrow> bool"
  tx_shift_empty :: "usart_call list \<Rightarrow> bool"
  tx_handshake :: "usart_call list \<Rightarrow> bool"
  tx_int_state :: "usart_call list \<Rightarrow> bool"
  intc_state :: "usart_call list \<Rightarrow> bool"
  was_disabled :: "usart_call list \<Rightarrow> bool"
  interrupts_enabled :: "usart_call list \<Rightarrow> bool"
  tx_interrupts :: "usart_call list \<Rightarrow> nat"

definition valid_port :: "int \<Rightarrow> usart \<Rightarrow> bool" where
  "valid_port port u \<longleftrightarrow> 0 \<le> port \<and> port < int (length (ports u))"

definition port_state :: "int \<Rightarrow> usart \<Rightarrow> usart_state" where
  "port_state port u = ports u ! nat port"

definition on_port :: "int \<Rightarrow> (usart_state \<Rightarrow> usart_state) \<Rightarrow> usart \<Rightarrow> usart" where
  "on_port port f u = u\<lparr>ports := (ports u)[nat port := f (ports u ! nat port)]\<rparr>"

definition did :: "usart_call \<Rightarrow> usart \<Rightarrow> usart" where
  "did e u = u\<lparr>calls := calls u @ [e]\<rparr>"

section \<open>Events and flow control\<close>

definition SetEvent :: "int \<Rightarrow> nat \<Rightarrow> usart \<Rightarrow> usart" where
  "SetEvent port event u =
     (if \<not> valid_port port u then u
      else let st = port_state port u in
        if event < USART_EVENT_DATA_CHARS then
          (case UsartErrorEventCallback st of None \<Rightarrow> u
           | Some cb \<Rightarrow> did (ErrorEvent cb (ErrorContext st) event) u)
        else if \<not> fDataEventSet st then
          (case UsartDataEventCallback st of None \<Rightarrow> u
           | Some cb \<Rightarrow> did (DataEvent cb (DataContext st) (event - USART_EVENT_DATA_CHARS))
                         (on_port port (\<lambda>st. st\<lparr>fDataEventSet := True\<rparr>) u))
        else u)"

definition SendXOFF :: "int \<Rightarrow> u32 \<Rightarrow> usart \<Rightarrow> usart" where
  "SendXOFF port flg u =
     (let st = port_state port u in
      if IS_POWERSAVE_ENABLED st then u
      else on_port port (SET_USART_FLAG (push_bit c_RX_XOFFSTATE_SHIFT flg))
        (if RX_XOFF_STATE st = 0
         then did (TxBufferEmptyInterruptEnable port True) (on_port port (SET_USART_FLAG c_TX_BUFFERXOFF) u)
         else u))"

definition SendXON :: "int \<Rightarrow> u32 \<Rightarrow> usart \<Rightarrow> usart" where
  "SendXON port flg u =
     (if IS_POWERSAVE_ENABLED (port_state port u) then u
      else let u1 = on_port port (CLEAR_USART_FLAG (push_bit c_RX_XOFFSTATE_SHIFT flg)) u in
        if RX_XOFF_STATE (port_state port u1) = 0
        then did (TxBufferEmptyInterruptEnable port True) (on_port port (SET_USART_FLAG c_TX_BUFFERXON) u1)
        else u1)"

section \<open>Set-up\<close>

definition initial_state :: "usart_env \<Rightarrow> int \<Rightarrow> u32 \<Rightarrow> usart_state \<Rightarrow> usart_state" where
  "initial_state E port flow st =
     st\<lparr>fDataEventSet := False, PortIndex := port,
        Flag := c_INITIALIZED OR c_TX_XON_STATE
          OR (if flow AND USART_FLOW_SW_IN_EN \<noteq> 0 then c_RX_SWFLOW_CTRL else 0)
          OR (if flow AND USART_FLOW_SW_OUT_EN \<noteq> 0 then c_TX_SWFLOW_CTRL else 0)
          OR (if flow AND USART_FLOW_HW_IN_EN \<noteq> 0 then c_RX_HWFLOW_CTRL else 0),
        RxBufferHighWaterMark := rx_buffer_size E * 3 div 4,
        RxBufferLowWaterMark := rx_buffer_size E * 1 div 4,
        TicksStartTxXOFF := 0,
        TxQueue := UQ_Initialize (m_data (TxQueue st)) (tx_buffer_size E),
        RxQueue := UQ_Initialize (m_data (RxQueue st)) (rx_buffer_size E)\<rparr>"

definition USART_Initialize :: "usart_env \<Rightarrow> int \<Rightarrow> u32 \<Rightarrow> usart \<Rightarrow> bool \<times> usart" where
  "USART_Initialize E port flow u =
     (if \<not> valid_port port u then (False, u)
      else if \<not> IS_USART_INITIALIZED (port_state port u) then
        (let u1 = did (CPU_Initialize port) (on_port port (initial_state E port flow) u)
         in (cpu_init E (calls u1), u1))
      else (True, u))"

definition USART_Uninitialize :: "usart_env \<Rightarrow> int \<Rightarrow> usart \<Rightarrow> bool \<times> usart" where
  "USART_Uninitialize E port u =
     (if \<not> valid_port port u then (False, u)
      else if IS_USART_INITIALIZED (port_state port u) then
        (let u1 = did (CPU_Uninitialize port) (on_port port
                    (\<lambda>st. CLEAR_USART_FLAG c_INITIALIZED (st\<lparr>fDataEventSet := False, PortIndex := port\<rparr>)) u)
         in (cpu_uninit E (calls u1), u1))
      else (True, u))"

definition USART_CloseAllPorts :: "usart_env \<Rightarrow> usart \<Rightarrow> usart" where
  "USART_CloseAllPorts E u =
     fold (\<lambda>port u. if IS_USART_INITIALIZED (ports u ! port) then snd (USART_Uninitialize E (int port) u) else u)
       [0..<length (ports u)] u"

section \<open>Writing\<close>

text \<open>
  The loop of \<open>Write\<close>, at most twice, because the free places of a ring are at most two runs. Its value
  is the number of bytes written.
\<close>

fun write_loop :: "nat \<Rightarrow> int \<Rightarrow> u8 list \<Rightarrow> usart \<Rightarrow> nat \<times> usart" where
  "write_loop 0 port bs u = (0, u)"
| "write_loop (Suc j) port bs u =
     (if bs = [] then (0, u)
      else case UQ_Push_block (length bs) (TxQueue (port_state port u)) of
        (Some place, n, q) \<Rightarrow>
          (let (k, u') = write_loop j port (drop n bs)
                 (on_port port (\<lambda>st. st\<lparr>TxQueue := hq_write place (take n bs) q\<rparr>) u)
           in (n + k, u'))
      | (None, n, q) \<Rightarrow>
          (let u1 = on_port port (\<lambda>st. st\<lparr>TxQueue := q\<rparr>) u in
           if \<not> flag_set (port_state port u1) c_RX_HWFLOW_CTRL
           then (0, SetEvent port USART_EVENT_ERROR_TXFULL u1)
           else write_loop j port bs u1))"

definition USART_Write :: "usart_env \<Rightarrow> int \<Rightarrow> u8 list option \<Rightarrow> nat \<Rightarrow> usart \<Rightarrow> int \<times> usart" where
  "USART_Write E port Data sz u =
     (if \<not> valid_port port u then (-1, u)
      else if sz = 0 then (-1, u)
      else case Data of None \<Rightarrow> (-1, u)
      | Some bs \<Rightarrow>
        (let st = port_state port u in
         if IS_POWERSAVE_ENABLED st \<or> \<not> IS_USART_INITIALIZED st then (-1, u)
         else
           let blocked = flag_set st c_TX_SWFLOW_CTRL \<and> \<not> flag_set st c_TX_XON_STATE;
               expired = USART_TX_XOFF_TIMEOUT_INFINITE \<noteq> USART_TX_XOFF_TIMEOUT_TICKS E
                 \<and> USART_TX_XOFF_TIMEOUT_TICKS E < current_ticks E (calls u) - TicksStartTxXOFF st
           in if blocked \<and> \<not> expired then (0, u)
              else
                let (n, u1) = write_loop 2 port (take sz bs)
                      (if blocked then on_port port (SET_USART_FLAG c_TX_XON_STATE) u else u)
                in (int n, if \<not> IS_POWERSAVE_ENABLED (port_state port u1)
                           then did (TxBufferEmptyInterruptEnable port True) u1 else u1)))"

section \<open>Reading\<close>

definition below_low_water :: "int \<Rightarrow> nat \<Rightarrow> usart \<Rightarrow> usart" where
  "below_low_water port toRead u =
     (let st = port_state port u; n = UQ_NumberOfElements (RxQueue st) in
      if n \<le> RxBufferLowWaterMark st \<and> RxBufferLowWaterMark st < n + toRead then
        (let u1 = (if flag_set st c_RX_SWFLOW_CTRL then SendXON port XOFF_FLAG_FULL u else u)
         in if flag_set (port_state port u1) c_RX_HWFLOW_CTRL
            then did (RxBufferFullInterruptEnable port True) u1 else u1)
      else u)"

text \<open>
  The loop of \<open>Read\<close> with the number of bytes still wanted: it ends when the queue is empty. Every
  turn takes a byte, so that \<open>sz\<close> turns are enough; the first argument counts them.
\<close>

fun read_loop :: "nat \<Rightarrow> int \<Rightarrow> nat \<Rightarrow> usart \<Rightarrow> u8 list \<times> usart" where
  "read_loop 0 port want u = ([], u)"
| "read_loop (Suc turns) port want u =
     (if want = 0 then ([], u)
      else let q = RxQueue (port_state port u) in
        case UQ_Pop_block want q of
          (None, n, q') \<Rightarrow> ([], on_port port (\<lambda>st. st\<lparr>RxQueue := q'\<rparr>) u)
        | (Some place, n, q') \<Rightarrow>
            (let u1 = below_low_water port n (on_port port (\<lambda>st. st\<lparr>RxQueue := q'\<rparr>) u);
                 (bs, u2) = read_loop turns port (want - n) u1
             in (take n (drop place (m_data q)) @ bs, u2)))"

text \<open>The bytes read are returned with the result of the call.\<close>

definition USART_Read :: "int \<Rightarrow> nat \<Rightarrow> usart \<Rightarrow> int \<times> u8 list \<times> usart" where
  "USART_Read port sz u =
     (if \<not> valid_port port u then (-1, [], u)
      else let st = port_state port u in
        if IS_POWERSAVE_ENABLED st \<or> \<not> IS_USART_INITIALIZED st then (-1, [], u)
        else
          let (bs, u1) = read_loop sz port sz u;
              u2 = on_port port (\<lambda>st. st\<lparr>fDataEventSet := False\<rparr>) u1
          in (int (length bs), bs,
              if \<not> UQ_IsEmpty (RxQueue (port_state port u2)) then SetEvent port USART_EVENT_DATA_CHARS u2
              else u2))"

section \<open>The interrupts\<close>

definition USART_AddCharToRxBuffer :: "usart_env \<Rightarrow> int \<Rightarrow> u8 \<Rightarrow> usart \<Rightarrow> bool \<times> usart" where
  "USART_AddCharToRxBuffer E port c u =
     (if \<not> valid_port port u then (False, u)
      else let st = port_state port u in
        if flag_set st c_TX_SWFLOW_CTRL \<and> c = XOFF then
          (True, on_port port (\<lambda>st. CLEAR_USART_FLAG c_TX_XON_STATE
                   (st\<lparr>TicksStartTxXOFF := current_ticks E (calls u)\<rparr>)) u)
        else if flag_set st c_TX_SWFLOW_CTRL \<and> c = XON then
          (True, on_port port (SET_USART_FLAG c_TX_XON_STATE) u)
        else case UQ_Push (RxQueue st) of
          (Some place, q) \<Rightarrow>
            (let u1 = on_port port (\<lambda>st. st\<lparr>RxQueue := hq_write place [c] q\<rparr>) u;
                 st1 = port_state port u1;
                 u2 = (if RxBufferHighWaterMark st1 \<le> UQ_NumberOfElements (RxQueue st1) then
                         (let u' = (if flag_set st1 c_RX_SWFLOW_CTRL then SendXOFF port XOFF_FLAG_FULL u1 else u1)
                          in if flag_set (port_state port u') c_RX_HWFLOW_CTRL
                             then did (RxBufferFullInterruptEnable port False) u' else u')
                       else u1)
             in (True, did (Events_Set 1) (SetEvent port USART_EVENT_DATA_CHARS u2)))
        | (None, q) \<Rightarrow>
            (False, SetEvent port USART_EVENT_ERROR_RXOVER (on_port port (\<lambda>st. st\<lparr>RxQueue := q\<rparr>) u)))"

definition USART_RemoveCharFromTxBuffer :: "int \<Rightarrow> usart \<Rightarrow> u8 option \<times> usart" where
  "USART_RemoveCharFromTxBuffer port u =
     (if \<not> valid_port port u then (None, u)
      else let st = port_state port u in
        if flag_set st c_TX_BUFFERXOFF then (Some XOFF, on_port port (CLEAR_USART_FLAG c_TX_BUFFERXOFF) u)
        else if flag_set st c_TX_BUFFERXON then (Some XON, on_port port (CLEAR_USART_FLAG c_TX_BUFFERXON) u)
        else case UQ_Pop (TxQueue st) of
          (Some place, q) \<Rightarrow>
            (Some (m_data q ! place), did (Events_Set 2) (on_port port (\<lambda>st. st\<lparr>TxQueue := q\<rparr>) u))
        | (None, q) \<Rightarrow> (None, on_port port (\<lambda>st. st\<lparr>TxQueue := q\<rparr>) u))"

section \<open>Flushing\<close>

text \<open>
  \<open>Flush\<close> waits for the hardware: \<open>None\<close> is a wait that does not end. Every look at the hardware is an
  entry of the history, so that the next one may differ.
\<close>

definition ask :: "(usart_env \<Rightarrow> usart_call list \<Rightarrow> bool) \<Rightarrow> usart_env \<Rightarrow> usart \<Rightarrow> bool \<times> usart" where
  "ask f E u = (f E (calls u), did Ask_Hardware u)"

partial_function (option) wait_place :: "usart_env \<Rightarrow> usart \<Rightarrow> (bool \<times> usart) option" where
  "wait_place E u =
     (let (empty, u1) = ask tx_buffer_empty E u in
      if empty then Some (True, u1)
      else let (hs, u2) = ask tx_handshake E u1 in
        if \<not> hs then Some (False, u2) else wait_place E u2)"

definition send_next :: "int \<Rightarrow> usart \<Rightarrow> usart" where
  "send_next port u =
     (case USART_RemoveCharFromTxBuffer port u of
        (Some c, u1) \<Rightarrow> did (WriteCharToTxBuffer port c) u1 | (None, u1) \<Rightarrow> u1)"

partial_function (option) flush_polling :: "usart_env \<Rightarrow> int \<Rightarrow> usart \<Rightarrow> (bool \<times> usart) option" where
  "flush_polling E port u =
     (if UQ_IsEmpty (TxQueue (port_state port u)) then Some (True, u)
      else if IS_POWERSAVE_ENABLED (port_state port u) then Some (False, u)
      else let (hs, u1) = ask tx_handshake E u in
        if \<not> hs then Some (False, u1)
        else Option.bind (wait_place E u1)
          (\<lambda>(ok, u2). if ok then flush_polling E port (send_next port u2) else Some (False, u2)))"

partial_function (option) flush_waiting :: "usart_env \<Rightarrow> int \<Rightarrow> usart \<Rightarrow> (bool \<times> usart) option" where
  "flush_waiting E port u =
     (if UQ_IsEmpty (TxQueue (port_state port u)) then Some (True, u)
      else if IS_POWERSAVE_ENABLED (port_state port u) then Some (False, u)
      else let (hs, u1) = ask tx_handshake E u in
        if \<not> hs then Some (False, u1)
        else let u2 = did (Sleep_MicroSeconds 1000) u1
          in flush_waiting E port ((send_next port ^^ tx_interrupts E (calls u2)) u2))"

partial_function (option) wait_sent ::
    "(usart_env \<Rightarrow> usart_call list \<Rightarrow> bool) \<Rightarrow> usart_env \<Rightarrow> usart \<Rightarrow> usart option" where
  "wait_sent f E u =
     (let (empty, u1) = ask f E u in
      if empty then Some u1
      else let (hs, u2) = ask tx_handshake E u1 in if hs then wait_sent f E u2 else Some u2)"

definition flush_by_hand :: "usart_env \<Rightarrow> usart \<Rightarrow> bool \<times> usart" where
  "flush_by_hand E u =
     (let (off, u1) = ask was_disabled E u in
      if off then (True, u1)
      else let (int_on, u2) = ask tx_int_state E u1 in
        if \<not> int_on then (True, u2)
        else let (intc, u3) = ask intc_state E u2 in (\<not> intc, u3))"

definition USART_Flush :: "usart_env \<Rightarrow> int \<Rightarrow> usart \<Rightarrow> (bool \<times> usart) option" where
  "USART_Flush E port u =
     (if \<not> valid_port port u then Some (False, u)
      else let st = port_state port u in
        if IS_POWERSAVE_ENABLED st \<or> \<not> IS_USART_INITIALIZED st then Some (True, u)
        else if flag_set st c_TX_SWFLOW_CTRL \<and> \<not> flag_set st c_TX_XON_STATE then Some (False, u)
        else let (hs, u1) = ask tx_handshake E u in
          if \<not> hs then Some (False, u1)
          else let (by_hand, u2) = flush_by_hand E u1 in
            Option.bind (if by_hand then flush_polling E port u2 else flush_waiting E port u2)
              (\<lambda>(ok, u3).
                if \<not> ok \<or> IS_POWERSAVE_ENABLED (port_state port u3) then Some (False, u3)
                else Option.bind (wait_sent tx_buffer_empty E u3)
                  (\<lambda>u4. map_option (Pair True) (wait_sent tx_shift_empty E u4))))"

section \<open>Power, clock and buffers\<close>

definition USART_PowerSave :: "int \<Rightarrow> bool \<Rightarrow> usart \<Rightarrow> int \<times> usart" where
  "USART_PowerSave port enable u =
     (if \<not> valid_port port u then (0, u)
      else (if IS_POWERSAVE_ENABLED (port_state port u) then 1 else 0,
            on_port port ((if enable then SET_USART_FLAG else CLEAR_USART_FLAG) c_POWERSAVE) u))"

definition USART_PrepareForClockStop :: "usart \<Rightarrow> usart" where
  "USART_PrepareForClockStop u =
     fold (\<lambda>port u. if flag_set (ports u ! port) c_RX_SWFLOW_CTRL then SendXOFF (int port) XOFF_CLOCK_HALT u else u)
       [0..<length (ports u)] u"

definition USART_ClockStopFinished :: "usart \<Rightarrow> usart" where
  "USART_ClockStopFinished u =
     fold (\<lambda>port u. if flag_set (ports u ! port) c_RX_SWFLOW_CTRL then SendXON (int port) XOFF_CLOCK_HALT u else u)
       [0..<length (ports u)] u"

definition USART_ForceXON :: "int \<Rightarrow> usart \<Rightarrow> usart" where
  "USART_ForceXON port u = SendXON port XOFF_FLAG_FULL u"

definition USART_BytesInBuffer :: "int \<Rightarrow> bool \<Rightarrow> usart \<Rightarrow> int" where
  "USART_BytesInBuffer port fRx u =
     (if \<not> valid_port port u then -1
      else int (UQ_NumberOfElements ((if fRx then RxQueue else TxQueue) (port_state port u))))"

definition pop_all :: "u8 hal_queue \<Rightarrow> u8 hal_queue" where
  "pop_all q = snd (snd (UQ_Pop_block (UQ_NumberOfElements q) q))"

definition USART_DiscardBuffer :: "int \<Rightarrow> bool \<Rightarrow> usart \<Rightarrow> usart" where
  "USART_DiscardBuffer port fRx u =
     (if \<not> valid_port port u then u
      else if fRx then
        (let u1 = on_port port (\<lambda>st. st\<lparr>RxQueue := pop_all (pop_all (RxQueue st))\<rparr>) u;
             u2 = (if flag_set (port_state port u1) c_RX_SWFLOW_CTRL then SendXON port XOFF_FLAG_FULL u1 else u1)
         in if flag_set (port_state port u2) c_RX_HWFLOW_CTRL
            then did (RxBufferFullInterruptEnable port True) u2 else u2)
      else on_port port (\<lambda>st. st\<lparr>TxQueue := pop_all (pop_all (TxQueue st))\<rparr>) u)"

definition USART_ConnectEventSink :: "int \<Rightarrow> int \<Rightarrow> nat \<Rightarrow> nat option \<Rightarrow> usart \<Rightarrow> bool \<times> usart" where
  "USART_ConnectEventSink port EventType ctx handler u =
     (if \<not> valid_port port u then (False, u)
      else (True, on_port port (\<lambda>st.
        if EventType = USART_EVENT_TYPE_DATA then
          st\<lparr>PortIndex := port, UsartDataEventCallback := handler, DataContext := ctx\<rparr>
        else if EventType = USART_EVENT_TYPE_ERROR then
          st\<lparr>PortIndex := port, UsartErrorEventCallback := handler, ErrorContext := ctx\<rparr>
        else st\<lparr>PortIndex := port\<rparr>) u))"

section \<open>The queues of a port\<close>

definition rx_contents :: "int \<Rightarrow> usart \<Rightarrow> u8 list" where
  "rx_contents port u = hq_contents (RxQueue (port_state port u))"

definition tx_contents :: "int \<Rightarrow> usart \<Rightarrow> u8 list" where
  "tx_contents port u = hq_contents (TxQueue (port_state port u))"

definition port_ok :: "int \<Rightarrow> usart \<Rightarrow> bool" where
  "port_ok port u \<longleftrightarrow> valid_port port u \<and> hq_inv (TxQueue (port_state port u))
     \<and> hq_inv (RxQueue (port_state port u))"

definition port_on :: "int \<Rightarrow> usart \<Rightarrow> bool" where
  "port_on port u \<longleftrightarrow> IS_USART_INITIALIZED (port_state port u) \<and> \<not> IS_POWERSAVE_ENABLED (port_state port u)"

definition tx_room :: "int \<Rightarrow> usart \<Rightarrow> nat" where
  "tx_room port u = m_size (TxQueue (port_state port u)) - length (tx_contents port u)"

lemma on_port_sel [simp]:
  "valid_port port (on_port port' f u) = valid_port port u"
  "valid_port port u \<Longrightarrow> port_state port (on_port port f u) = f (port_state port u)"
  "length (ports (on_port port' f u)) = length (ports u)" "calls (on_port port f u) = calls u"
  by (simp_all add: valid_port_def port_state_def on_port_def nat_less_iff)

lemma did_sel [simp]:
  "valid_port port (did e u) = valid_port port u" "port_state port (did e u) = port_state port u"
  "ports (did e u) = ports u"
  by (simp_all add: valid_port_def port_state_def did_def)

lemma flag_fields [simp]:
  "TxQueue (SET_USART_FLAG f st) = TxQueue st" "RxQueue (SET_USART_FLAG f st) = RxQueue st"
  "TxQueue (CLEAR_USART_FLAG f st) = TxQueue st" "RxQueue (CLEAR_USART_FLAG f st) = RxQueue st"
  by (simp_all add: SET_USART_FLAG_def CLEAR_USART_FLAG_def)

lemma word_or_zero: "(v OR w) = 0 \<longleftrightarrow> v = 0 \<and> w = (0 :: 'w::len word)"
  by (metis bit.conj_disj_distrib bit.disj_cancel_left or.right_neutral or.commute or.idem
      or_eq_0_iff)

lemma flag_set_SET [simp]: "flag_set (SET_USART_FLAG f st) g \<longleftrightarrow> flag_set st g \<or> f AND g \<noteq> 0"
  by (simp add: flag_set_def SET_USART_FLAG_def bit.conj_disj_distrib2 word_or_zero)

lemma flag_set_CLEAR: "f AND g = 0 \<Longrightarrow> flag_set (CLEAR_USART_FLAG f st) g \<longleftrightarrow> flag_set st g"
proof -
  assume "f AND g = 0"
  then have "\<not> (bit f n \<and> bit g n)" for n by (metis bit_0_eq bit_and_iff bot_apply bot_bool_def)
  then have "(Flag st AND NOT f) AND g = Flag st AND g"
    by (intro bit_word_eqI) (auto simp: bit_simps)
  then show ?thesis by (simp add: flag_set_def CLEAR_USART_FLAG_def)
qed

text \<open>Events and flow control leave the queues and the switches of a port alone.\<close>

definition same_queues :: "int \<Rightarrow> usart \<Rightarrow> usart \<Rightarrow> bool" where
  "same_queues port u u' \<longleftrightarrow> valid_port port u' = valid_port port u
     \<and> TxQueue (port_state port u') = TxQueue (port_state port u)
     \<and> RxQueue (port_state port u') = RxQueue (port_state port u)
     \<and> port_on port u' = port_on port u
     \<and> flag_set (port_state port u') c_TX_SWFLOW_CTRL = flag_set (port_state port u) c_TX_SWFLOW_CTRL
     \<and> flag_set (port_state port u') c_TX_XON_STATE = flag_set (port_state port u) c_TX_XON_STATE"

lemma same_queues_trans: "same_queues port u v \<Longrightarrow> same_queues port v w \<Longrightarrow> same_queues port u w"
  by (simp add: same_queues_def)

lemma same_queues_ok: "same_queues port u u' \<Longrightarrow> port_ok port u \<Longrightarrow> port_ok port u'
    \<and> rx_contents port u' = rx_contents port u \<and> tx_contents port u' = tx_contents port u
    \<and> port_on port u' = port_on port u \<and> tx_room port u' = tx_room port u"
  by (simp add: same_queues_def port_ok_def rx_contents_def tx_contents_def tx_room_def)

lemma same_queues_did [simp]: "same_queues port u (did e u)" "same_queues port u u"
  by (simp_all add: same_queues_def port_on_def)

lemma same_queues_SetEvent: "valid_port port u \<Longrightarrow> same_queues port u (SetEvent port e u)"
  by (auto simp: SetEvent_def same_queues_def port_on_def IS_USART_INITIALIZED_def
      IS_POWERSAVE_ENABLED_def flag_set_def Let_def split: option.split)

lemma same_queues_SendXON:
  assumes "valid_port port u" and "flg \<in> {XOFF_FLAG_FULL, XOFF_CLOCK_HALT}"
  shows "same_queues port u (SendXON port flg u)"
proof -
  have m: "push_bit c_RX_XOFFSTATE_SHIFT flg AND c_INITIALIZED = 0"
    "push_bit c_RX_XOFFSTATE_SHIFT flg AND c_POWERSAVE = 0"
    "push_bit c_RX_XOFFSTATE_SHIFT flg AND c_TX_SWFLOW_CTRL = 0"
    "push_bit c_RX_XOFFSTATE_SHIFT flg AND c_TX_XON_STATE = 0"
    "c_TX_BUFFERXON AND c_INITIALIZED = 0" "c_TX_BUFFERXON AND c_POWERSAVE = 0"
    "c_TX_BUFFERXON AND c_TX_SWFLOW_CTRL = 0" "c_TX_BUFFERXON AND c_TX_XON_STATE = 0"
    using assms(2) by (auto simp: XOFF_FLAG_FULL_def XOFF_CLOCK_HALT_def c_RX_XOFFSTATE_SHIFT_def c_TX_SWFLOW_CTRL_def
      c_TX_XON_STATE_def c_INITIALIZED_def c_POWERSAVE_def c_TX_BUFFERXON_def push_bit_eq_mult)
  then show ?thesis using assms(1)
    by (simp add: SendXON_def same_queues_def port_on_def IS_USART_INITIALIZED_def
      IS_POWERSAVE_ENABLED_def flag_set_CLEAR Let_def)
qed

lemma same_queues_SendXOFF:
  assumes "valid_port port u" and "flg \<in> {XOFF_FLAG_FULL, XOFF_CLOCK_HALT}"
  shows "same_queues port u (SendXOFF port flg u)"
proof -
  have m: "push_bit c_RX_XOFFSTATE_SHIFT flg AND c_INITIALIZED = 0"
    "push_bit c_RX_XOFFSTATE_SHIFT flg AND c_POWERSAVE = 0"
    "push_bit c_RX_XOFFSTATE_SHIFT flg AND c_TX_SWFLOW_CTRL = 0"
    "push_bit c_RX_XOFFSTATE_SHIFT flg AND c_TX_XON_STATE = 0"
    "c_TX_BUFFERXOFF AND c_INITIALIZED = 0" "c_TX_BUFFERXOFF AND c_POWERSAVE = 0"
    "c_TX_BUFFERXOFF AND c_TX_SWFLOW_CTRL = 0" "c_TX_BUFFERXOFF AND c_TX_XON_STATE = 0"
    using assms(2) by (auto simp: XOFF_FLAG_FULL_def XOFF_CLOCK_HALT_def c_RX_XOFFSTATE_SHIFT_def c_TX_SWFLOW_CTRL_def
      c_TX_XON_STATE_def c_INITIALIZED_def c_POWERSAVE_def c_TX_BUFFERXOFF_def push_bit_eq_mult)
  then show ?thesis using assms(1)
    by (simp add: SendXOFF_def same_queues_def port_on_def IS_USART_INITIALIZED_def
      IS_POWERSAVE_ENABLED_def Let_def)
qed

lemma same_queues_below: "valid_port port u \<Longrightarrow> same_queues port u (below_low_water port n u)"
proof -
  assume v: "valid_port port u"
  define u1 where "u1 = (if flag_set (port_state port u) c_RX_SWFLOW_CTRL then SendXON port XOFF_FLAG_FULL u else u)"
  have "same_queues port u u1" using same_queues_SendXON[OF v, of XOFF_FLAG_FULL] by (simp add: u1_def)
  then have "same_queues port u (did e u1)" for e by (rule same_queues_trans) simp
  with \<open>same_queues port u u1\<close> show ?thesis
    by (simp add: below_low_water_def Let_def flip: u1_def)
qed

section \<open>Reading takes the bytes in the order of their arrival\<close>

lemma below_low_water_ok:
  "port_ok port u \<Longrightarrow> port_ok port (below_low_water port n u)
     \<and> rx_contents port (below_low_water port n u) = rx_contents port u
     \<and> tx_contents port (below_low_water port n u) = tx_contents port u
     \<and> port_on port (below_low_water port n u) = port_on port u"
  using same_queues_ok[OF same_queues_below, of port u n] by (simp add: port_ok_def)

lemma read_loop_takes:
  assumes "port_ok port u" and "want \<le> turns" and "read_loop turns port want u = (bs, u')"
  shows "bs = take want (rx_contents port u) \<and> rx_contents port u' = drop want (rx_contents port u)
    \<and> port_ok port u' \<and> port_on port u' = port_on port u \<and> tx_contents port u' = tx_contents port u"
  using assms
proof (induction turns arbitrary: want u bs u')
  case (Suc turns)
  let ?q = "RxQueue (port_state port u)"
  have v: "valid_port port u" "hq_inv ?q" "hq_inv (TxQueue (port_state port u))"
    using Suc.prems(1) by (simp_all add: port_ok_def)
  show ?case
  proof (cases "want = 0")
    case True
    then show ?thesis using Suc.prems by simp
  next
    case want: False
    show ?thesis
    proof (cases "UQ_IsEmpty ?q")
      case True
      then have empty: "rx_contents port u = []"
        using hq_empty_iff[OF v(2)] by (metis length_0_conv length_hq_contents rx_contents_def)
      have pop: "UQ_Pop_block want ?q = (None, 0, ?q\<lparr>m_reader := 0, m_writer := 0\<rparr>)"
        using True want by (simp add: UQ_Pop_block_def UQ_IsEmpty_def)
      have "hq_inv (?q\<lparr>m_reader := 0, m_writer := 0\<rparr>)" "hq_contents (?q\<lparr>m_reader := 0, m_writer := 0\<rparr>) = []"
        using v(2) True by (auto simp: hq_inv_def hq_contents_def UQ_NumberOfElements_def UQ_IsEmpty_def)
      then show ?thesis
        using Suc.prems(3) want pop v empty
        by (auto simp: port_ok_def rx_contents_def tx_contents_def port_on_def IS_USART_INITIALIZED_def
            IS_POWERSAVE_ENABLED_def flag_set_def Let_def)
    next
      case False
      obtain n q' where pop: "UQ_Pop_block want ?q = (Some (m_reader ?q), n, q')" "hq_inv q'" "0 < n"
        "n \<le> want" "hq_contents ?q = take n (drop (m_reader ?q) (m_data ?q)) @ hq_contents q'"
        using pop_block_contents[OF v(2) False, of want] want by blast
      define taken where "taken = take n (drop (m_reader ?q) (m_data ?q))"
      have "m_reader ?q + n \<le> length (m_data ?q)"
        using pop_block_state[OF v(2) False, of want] pop(1) want v(2) by (auto simp: hq_inv_def)
      then have len: "length taken = n" by (simp add: taken_def)
      define u1 where "u1 = on_port port (\<lambda>st. st\<lparr>RxQueue := q'\<rparr>) u"
      have u1: "port_ok port u1" "rx_contents port u1 = hq_contents q'" "port_on port u1 = port_on port u"
        "tx_contents port u1 = tx_contents port u"
        using v pop(2) by (simp_all add: u1_def port_ok_def rx_contents_def tx_contents_def port_on_def
            IS_USART_INITIALIZED_def IS_POWERSAVE_ENABLED_def flag_set_def)
      note b = below_low_water_ok[OF u1(1), of n]
      obtain bs1 where r: "read_loop turns port (want - n) (below_low_water port n u1) = (bs1, u')"
        "bs = taken @ bs1"
        using Suc.prems(3) want pop(1) by (auto simp: Let_def u1_def taken_def split: prod.splits)
      have "want - n \<le> turns" using pop(3) Suc.prems(2) by simp
      from Suc.IH[OF _ this r(1)] b u1
      have "bs1 = take (want - n) (hq_contents q') \<and> rx_contents port u' = drop (want - n) (hq_contents q')
          \<and> port_ok port u' \<and> port_on port u' = port_on port u \<and> tx_contents port u' = tx_contents port u"
        by simp
      moreover have "rx_contents port u = taken @ hq_contents q'"
        using pop(5) by (simp add: rx_contents_def taken_def)
      ultimately show ?thesis using r(2) len pop(4) by simp
    qed
  qed
qed simp

lemma USART_Read_takes:
  assumes "port_ok port u" and "port_on port u"
  shows "\<exists>u'. USART_Read port sz u
      = (int (length (take sz (rx_contents port u))), take sz (rx_contents port u), u')
    \<and> rx_contents port u' = drop sz (rx_contents port u) \<and> tx_contents port u' = tx_contents port u
    \<and> port_ok port u' \<and> port_on port u'"
proof -
  obtain bs u1 where r: "read_loop sz port sz u = (bs, u1)" by fastforce
  note l = read_loop_takes[OF assms(1) order_refl r]
  define u2 where "u2 = on_port port (\<lambda>st. st\<lparr>fDataEventSet := False\<rparr>) u1"
  have v: "valid_port port u" "valid_port port u1" using assms(1) l by (simp_all add: port_ok_def)
  have u2: "same_queues port u1 u2"
    using v by (simp add: u2_def same_queues_def port_on_def IS_USART_INITIALIZED_def
        IS_POWERSAVE_ENABLED_def flag_set_def)
  have v2: "valid_port port u2" using v by (simp add: u2_def)
  define u3 where "u3 = (if \<not> UQ_IsEmpty (RxQueue (port_state port u2))
      then SetEvent port USART_EVENT_DATA_CHARS u2 else u2)"
  have "same_queues port u1 u3"
    using same_queues_trans[OF u2 same_queues_SetEvent[OF v2]] u2 by (simp add: u3_def)
  moreover have "USART_Read port sz u = (int (length bs), bs, u3)"
    using r assms(2) v(1) by (simp add: USART_Read_def port_on_def Let_def u3_def u2_def)
  ultimately show ?thesis using same_queues_ok l assms(2) by auto
qed

section \<open>What arrives is kept or reported\<close>

lemma AddChar_room:
  assumes ok: "port_ok port u" and room: "length (rx_contents port u) < m_size (RxQueue (port_state port u))"
    and plain: "\<not> flag_set (port_state port u) c_TX_SWFLOW_CTRL \<or> c \<noteq> XON \<and> c \<noteq> XOFF"
  shows "\<exists>u'. USART_AddCharToRxBuffer E port c u = (True, u')
    \<and> rx_contents port u' = rx_contents port u @ [c] \<and> tx_contents port u' = tx_contents port u
    \<and> port_ok port u' \<and> port_on port u' = port_on port u
    \<and> m_size (RxQueue (port_state port u')) = m_size (RxQueue (port_state port u))
    \<and> flag_set (port_state port u') c_TX_SWFLOW_CTRL = flag_set (port_state port u) c_TX_SWFLOW_CTRL
    \<and> flag_set (port_state port u') c_TX_XON_STATE = flag_set (port_state port u) c_TX_XON_STATE"
proof -
  have v: "valid_port port u" "hq_inv (RxQueue (port_state port u))" using ok by (simp_all add: port_ok_def)
  obtain q' where q': "hq_push c (RxQueue (port_state port u)) = (True, q')" "hq_inv q'"
    "m_size q' = m_size (RxQueue (port_state port u))"
    "hq_contents q' = hq_contents (RxQueue (port_state port u)) @ [c]"
    using hq_push_room[OF v(2)] room by (auto simp: rx_contents_def)
  obtain place q where push: "UQ_Push (RxQueue (port_state port u)) = (Some place, q)" "q' = hq_write place [c] q"
    using q'(1) by (auto simp: hq_push_def split: prod.splits option.splits)
  define u1 where "u1 = on_port port (\<lambda>st. st\<lparr>RxQueue := q'\<rparr>) u"
  define u' where "u' = (if flag_set (port_state port u1) c_RX_SWFLOW_CTRL then SendXOFF port XOFF_FLAG_FULL u1 else u1)"
  define u2 where "u2 = (if RxBufferHighWaterMark (port_state port u1) \<le> UQ_NumberOfElements (RxQueue (port_state port u1))
     then if flag_set (port_state port u') c_RX_HWFLOW_CTRL
          then did (RxBufferFullInterruptEnable port False) u' else u' else u1)"
  define u3 where "u3 = did (Events_Set 1) (SetEvent port USART_EVENT_DATA_CHARS u2)"
  have v1: "valid_port port u1" using v by (simp add: u1_def)
  have "same_queues port u1 u'"
    using same_queues_SendXOFF[OF v1, of XOFF_FLAG_FULL] by (simp add: u'_def)
  then have s2: "same_queues port u1 u2"
    using same_queues_trans[OF _ same_queues_did(1)] by (simp add: u2_def)
  then have v2: "valid_port port u2" using v1 by (simp add: same_queues_def)
  have s3: "same_queues port u1 u3"
    unfolding u3_def
    by (rule same_queues_trans[OF s2 same_queues_trans[OF same_queues_SetEvent[OF v2] same_queues_did(1)]])
  have "USART_AddCharToRxBuffer E port c u = (True, u3)"
  proof -
    have "\<not> (flag_set (port_state port u) c_TX_SWFLOW_CTRL \<and> c = XOFF)"
      "\<not> (flag_set (port_state port u) c_TX_SWFLOW_CTRL \<and> c = XON)" using plain by auto
    then show ?thesis
      unfolding USART_AddCharToRxBuffer_def Let_def u3_def u2_def u'_def u1_def push(2)
      by (simp only: v(1) push(1) if_True if_False not_True_eq_False prod.case option.case)
  qed
  moreover have "port_ok port u1" "rx_contents port u1 = rx_contents port u @ [c]"
    "tx_contents port u1 = tx_contents port u" "port_on port u1 = port_on port u"
    "m_size (RxQueue (port_state port u1)) = m_size (RxQueue (port_state port u))"
    "flag_set (port_state port u1) c_TX_SWFLOW_CTRL = flag_set (port_state port u) c_TX_SWFLOW_CTRL"
    "flag_set (port_state port u1) c_TX_XON_STATE = flag_set (port_state port u) c_TX_XON_STATE"
    using v ok q' by (simp_all add: u1_def port_ok_def rx_contents_def tx_contents_def port_on_def
      IS_USART_INITIALIZED_def IS_POWERSAVE_ENABLED_def flag_set_def)
  ultimately show ?thesis using same_queues_ok[OF s3] s3 by (simp add: same_queues_def)
qed

lemma AddChar_full:
  assumes ok: "port_ok port u" and full: "length (rx_contents port u) = m_size (RxQueue (port_state port u))"
    and plain: "\<not> flag_set (port_state port u) c_TX_SWFLOW_CTRL \<or> c \<noteq> XON \<and> c \<noteq> XOFF"
  shows "USART_AddCharToRxBuffer E port c u = (False, SetEvent port USART_EVENT_ERROR_RXOVER u)"
proof -
  have v: "valid_port port u" "hq_inv (RxQueue (port_state port u))" using ok by (simp_all add: port_ok_def)
  have "m_full (RxQueue (port_state port u))" using full hq_full_iff[OF v(2)] by (simp add: rx_contents_def)
  then have "UQ_Push (RxQueue (port_state port u)) = (None, RxQueue (port_state port u))"
    by (simp add: UQ_Push_def)
  moreover have "on_port port (\<lambda>st. st\<lparr>RxQueue := RxQueue (port_state port u)\<rparr>) u = u"
    using v(1) by (simp add: on_port_def port_state_def valid_port_def nat_less_iff)
  ultimately show ?thesis using v(1) plain by (simp add: USART_AddCharToRxBuffer_def Let_def)
qed

text \<open>Flow characters are those a port with software flow control on its transmissions obeys.\<close>

definition flow_char :: "int \<Rightarrow> usart \<Rightarrow> u8 \<Rightarrow> bool" where
  "flow_char port u c \<longleftrightarrow> flag_set (port_state port u) c_TX_SWFLOW_CTRL \<and> (c = XON \<or> c = XOFF)"

definition rx_room :: "int \<Rightarrow> usart \<Rightarrow> nat" where
  "rx_room port u = m_size (RxQueue (port_state port u)) - length (rx_contents port u)"

lemma rx_fits: "port_ok port u \<Longrightarrow> length (rx_contents port u) \<le> m_size (RxQueue (port_state port u))"
  using hq_count_le[of "RxQueue (port_state port u)"] by (simp add: port_ok_def rx_contents_def)

lemma AddChar_flow:
  assumes ok: "port_ok port u" and flow: "flow_char port u c"
  shows "\<exists>u'. USART_AddCharToRxBuffer E port c u = (True, u')
    \<and> rx_contents port u' = rx_contents port u \<and> tx_contents port u' = tx_contents port u
    \<and> port_ok port u' \<and> port_on port u' = port_on port u
    \<and> m_size (RxQueue (port_state port u')) = m_size (RxQueue (port_state port u))
    \<and> flag_set (port_state port u') c_TX_SWFLOW_CTRL \<and> flag_set (port_state port u') c_TX_XON_STATE = (c = XON)"
proof -
  have m: "c_TX_XON_STATE AND c_INITIALIZED = 0" "c_TX_XON_STATE AND c_POWERSAVE = 0" "c_TX_XON_STATE AND c_TX_SWFLOW_CTRL = 0"
    "c_TX_XON_STATE \<noteq> 0" "XON \<noteq> XOFF"
    by (simp_all add: c_TX_XON_STATE_def c_INITIALIZED_def c_POWERSAVE_def c_TX_SWFLOW_CTRL_def XON_def XOFF_def)
  have off: "\<not> flag_set (CLEAR_USART_FLAG f st) f" for f st
    by (simp add: flag_set_def CLEAR_USART_FLAG_def and.assoc)
  have v: "valid_port port u" "flag_set (port_state port u) c_TX_SWFLOW_CTRL" using ok flow by (simp_all add: port_ok_def flow_char_def)
  show ?thesis
  proof (cases "c = XOFF")
    case True
    let ?st = "CLEAR_USART_FLAG c_TX_XON_STATE ((port_state port u)\<lparr>TicksStartTxXOFF := current_ticks E (calls u)\<rparr>)"
    have "flag_set ?st g = flag_set (port_state port u) g" if "c_TX_XON_STATE AND g = 0" for g
      using that by (simp add: flag_set_CLEAR) (simp add: flag_set_def)
    then show ?thesis using True v ok m off
      by (simp add: USART_AddCharToRxBuffer_def Let_def rx_contents_def tx_contents_def port_ok_def port_on_def
          IS_USART_INITIALIZED_def IS_POWERSAVE_ENABLED_def)
  next
    case False
    then have "c = XON" using flow by (simp add: flow_char_def)
    then show ?thesis using v ok m
      by (simp add: USART_AddCharToRxBuffer_def Let_def rx_contents_def tx_contents_def port_ok_def port_on_def
          IS_USART_INITIALIZED_def IS_POWERSAVE_ENABLED_def)
  qed
qed

text \<open>The receive interrupt on any character and any port: obeyed, stored, or reported as lost.\<close>

lemma AddChar_any:
  fixes u :: usart and c :: u8 and E :: usart_env
  assumes ok: "port_ok port u"
  defines "u' \<equiv> snd (USART_AddCharToRxBuffer E port c u)"
  shows "port_ok port u'" "port_on port u' = port_on port u" "flow_char port u' = flow_char port u"
    "rx_contents port u' = rx_contents port u @ (if flow_char port u c then [] else take (rx_room port u) [c])"
    "rx_room port u' = (if flow_char port u c then rx_room port u else rx_room port u - 1)"
    "flag_set (port_state port u') c_TX_XON_STATE
      = (if flow_char port u c then c = XON else flag_set (port_state port u) c_TX_XON_STATE)"
proof -
  let ?f = "flag_set (port_state port u) c_TX_SWFLOW_CTRL"
  have "port_ok port u' \<and> port_on port u' = port_on port u \<and> flow_char port u' = flow_char port u
    \<and> rx_contents port u' = rx_contents port u @ (if flow_char port u c then [] else take (rx_room port u) [c])
    \<and> rx_room port u' = (if flow_char port u c then rx_room port u else rx_room port u - 1)
    \<and> flag_set (port_state port u') c_TX_XON_STATE
      = (if flow_char port u c then c = XON else flag_set (port_state port u) c_TX_XON_STATE)"
  proof (cases "flow_char port u c")
    case True
    from AddChar_flow[OF ok True, of E] True show ?thesis
      by (auto simp: u'_def flow_char_def rx_room_def fun_eq_iff)
  next
    case plain: False
    then have p: "\<not> ?f \<or> c \<noteq> XON \<and> c \<noteq> XOFF" by (auto simp: flow_char_def)
    show ?thesis
    proof (cases "length (rx_contents port u) < m_size (RxQueue (port_state port u))")
      case True
      from AddChar_room[OF ok True p, of E] True plain show ?thesis
        by (auto simp: u'_def flow_char_def rx_room_def fun_eq_iff Suc_diff_Suc)
    next
      case False
      then have full: "length (rx_contents port u) = m_size (RxQueue (port_state port u))" using rx_fits[OF ok] by simp
      have v: "valid_port port u" using ok by (simp add: port_ok_def)
      have u': "u' = SetEvent port USART_EVENT_ERROR_RXOVER u" using AddChar_full[OF ok full p] by (simp add: u'_def)
      note s = same_queues_SetEvent[OF v, of USART_EVENT_ERROR_RXOVER, folded u']
      show ?thesis using same_queues_ok[OF s ok] s plain full
        by (auto simp: rx_room_def flow_char_def fun_eq_iff same_queues_def)
    qed
  qed
  then show "port_ok port u'" "port_on port u' = port_on port u" "flow_char port u' = flow_char port u"
    "rx_contents port u' = rx_contents port u @ (if flow_char port u c then [] else take (rx_room port u) [c])"
    "rx_room port u' = (if flow_char port u c then rx_room port u else rx_room port u - 1)"
    "flag_set (port_state port u') c_TX_XON_STATE
      = (if flow_char port u c then c = XON else flag_set (port_state port u) c_TX_XON_STATE)" by blast+
qed

section \<open>What is written is sent\<close>

lemma room_after_push:
  assumes "hq_inv q" and "\<not> m_full q" and "hq_room q < n" and "UQ_Push_block n q = (p, k, q')"
  shows "m_full q' \<or> hq_room q' = m_size q' - UQ_NumberOfElements q'"
proof -
  have b: "m_writer q < m_size q" "m_reader q < m_size q" "0 < n" using assms by (auto simp: hq_inv_def)
  have "q' = q\<lparr>m_writer := (if m_writer q + hq_room q = m_size q then 0 else m_writer q + hq_room q),
      m_full := ((if m_writer q + hq_room q = m_size q then 0 else m_writer q + hq_room q) = m_reader q)\<rparr>"
    using push_block_eq[OF assms(2) b(3) refl refl] assms(3,4) by (simp add: min_def)
  then show ?thesis using b by (auto simp: hq_room_def UQ_NumberOfElements_def)
qed

lemma write_step:
  assumes ok: "port_ok port u" and full: "\<not> m_full (TxQueue (port_state port u))" and bs: "bs \<noteq> []"
  shows "\<exists>place n q. UQ_Push_block (length bs) (TxQueue (port_state port u)) = (Some place, n, q)
    \<and> n = min (hq_room (TxQueue (port_state port u))) (length bs) \<and> n \<le> tx_room port u
    \<and> (let u1 = on_port port (\<lambda>st. st\<lparr>TxQueue := hq_write place (take n bs) q\<rparr>) u in
        port_ok port u1 \<and> tx_contents port u1 = tx_contents port u @ take n bs
        \<and> rx_contents port u1 = rx_contents port u \<and> port_on port u1 = port_on port u
        \<and> tx_room port u1 = tx_room port u - n
        \<and> (n = length bs \<or> m_full (TxQueue (port_state port u1))
           \<or> hq_room (TxQueue (port_state port u1)) = tx_room port u1))"
proof -
  let ?q = "TxQueue (port_state port u)"
  have v: "valid_port port u" "hq_inv ?q" using ok by (simp_all add: port_ok_def)
  define n where "n = min (hq_room ?q) (length bs)"
  have "length (take n bs) = min (hq_room ?q) (length bs)" by (simp add: n_def)
  from push_block_contents[OF v(2) full _ this] bs obtain q where
    q: "UQ_Push_block (length bs) ?q = (Some (m_writer ?q), n, q)"
    "hq_inv (hq_write (m_writer ?q) (take n bs) q)"
    "hq_contents (hq_write (m_writer ?q) (take n bs) q) = hq_contents ?q @ take n bs"
    by (auto simp: n_def)
  have st: "m_size q = m_size ?q" "UQ_NumberOfElements q = UQ_NumberOfElements ?q + n" "hq_inv q"
    using push_block_state[OF v(2) full, of "length bs"] bs q(1) by auto
  have fit: "n \<le> m_size ?q - UQ_NumberOfElements ?q" using hq_count_le[OF st(3)] st by simp
  have room: "hq_room (hq_write p xs q) = hq_room q" for p xs by (simp add: hq_room_def)
  have "n = length bs \<or> m_full q \<or> hq_room q = m_size q - UQ_NumberOfElements q"
    using room_after_push[OF v(2) full _ q(1)] by (auto simp: n_def min_def)
  then show ?thesis
    using q st v ok fit n_def
    by (intro exI[of _ "m_writer ?q"] exI[of _ n] exI[of _ q])
       (simp add: Let_def port_ok_def tx_contents_def rx_contents_def tx_room_def room port_on_def
         IS_USART_INITIALIZED_def IS_POWERSAVE_ENABLED_def flag_set_def)
qed

lemma write_full:
  assumes ok: "port_ok port u" and full: "m_full (TxQueue (port_state port u))"
    and w: "write_loop j port bs u = (n, u')"
  shows "n = 0 \<and> same_queues port u u'"
  using w
proof (induction j arbitrary: n u')
  case (Suc j)
  have v: "valid_port port u" using ok by (simp add: port_ok_def)
  have none: "UQ_Push_block (length bs) (TxQueue (port_state port u)) = (None, 0, TxQueue (port_state port u))"
    using full by (simp add: UQ_Push_block_def)
  have same: "on_port port (\<lambda>st. st\<lparr>TxQueue := TxQueue (port_state port u)\<rparr>) u = u"
    using v by (simp add: on_port_def port_state_def valid_port_def nat_less_iff)
  show ?case
    using Suc same_queues_SetEvent[OF v, of USART_EVENT_ERROR_TXFULL]
    by (auto simp: none same Let_def split: if_splits)
qed simp

lemma write_loop_appends:
  assumes ok: "port_ok port u" and w: "write_loop 2 port bs u = (n, u')"
  shows "n = min (length bs) (tx_room port u) \<and> tx_contents port u' = tx_contents port u @ take n bs
    \<and> rx_contents port u' = rx_contents port u \<and> port_ok port u' \<and> port_on port u' = port_on port u"
proof -
  have two: "(2::nat) = Suc (Suc 0)" by simp
  have no_room: "tx_room port v = 0" if "port_ok port v" "m_full (TxQueue (port_state port v))" for v
    using that hq_full_iff[of "TxQueue (port_state port v)"] by (simp add: port_ok_def tx_room_def tx_contents_def)
  show ?thesis
  proof (cases "bs = [] \<or> m_full (TxQueue (port_state port u))")
    case True
    then show ?thesis
    proof
      assume "bs = []"
      then show ?thesis using w ok by (simp add: two)
    next
      assume f: "m_full (TxQueue (port_state port u))"
      have "n = 0" "same_queues port u u'" using write_full[OF ok f w] by simp_all
      then show ?thesis using same_queues_ok[OF _ ok, of u'] no_room[OF ok f] by simp
    qed
  next
    case False
    obtain place k q where p: "UQ_Push_block (length bs) (TxQueue (port_state port u)) = (Some place, k, q)"
      and k: "k = min (hq_room (TxQueue (port_state port u))) (length bs)" "k \<le> tx_room port u"
      and rest: "let u1 = on_port port (\<lambda>st. st\<lparr>TxQueue := hq_write place (take k bs) q\<rparr>) u in
        port_ok port u1 \<and> tx_contents port u1 = tx_contents port u @ take k bs
        \<and> rx_contents port u1 = rx_contents port u \<and> port_on port u1 = port_on port u
        \<and> tx_room port u1 = tx_room port u - k
        \<and> (k = length bs \<or> m_full (TxQueue (port_state port u1))
           \<or> hq_room (TxQueue (port_state port u1)) = tx_room port u1)"
      using write_step[OF ok] False by blast
    define u1 where "u1 = on_port port (\<lambda>st. st\<lparr>TxQueue := hq_write place (take k bs) q\<rparr>) u"
    have u1: "port_ok port u1" "tx_contents port u1 = tx_contents port u @ take k bs"
      "rx_contents port u1 = rx_contents port u" "port_on port u1 = port_on port u"
      "tx_room port u1 = tx_room port u - k"
      "k = length bs \<or> m_full (TxQueue (port_state port u1)) \<or> hq_room (TxQueue (port_state port u1)) = tx_room port u1"
      using rest unfolding Let_def u1_def[symmetric] by blast+
    have "write_loop 2 port bs u = (let (m, u'') = write_loop (Suc 0) port (drop k bs) u1 in (k + m, u''))"
      using False unfolding two write_loop.simps(2)[of "Suc 0"] by (simp add: p u1_def del: write_loop.simps)
    then obtain m where m: "write_loop (Suc 0) port (drop k bs) u1 = (m, u')" "n = k + m"
      using w by (auto split: prod.splits)
    show ?thesis
    proof (cases "drop k bs = []")
      case True
      then have "k = length bs" using k(1) by simp
      then show ?thesis using m u1 k(2) by simp
    next
      case more: False
      show ?thesis
      proof (cases "m_full (TxQueue (port_state port u1))")
        case True
        have "m = 0" "same_queues port u1 u'" using write_full[OF u1(1) True m(1)] by simp_all
        moreover have "k = tx_room port u" using no_room[OF u1(1) True] u1(5) k(2) by simp
        moreover have "k \<le> length bs" using k(1) by simp
        ultimately show ?thesis
          using same_queues_ok[OF _ u1(1), of u'] u1(2-4) m(2) by (simp add: min_absorb2)
      next
        case not_full: False
        obtain place2 k2 q2 where p2: "UQ_Push_block (length (drop k bs)) (TxQueue (port_state port u1))
            = (Some place2, k2, q2)"
          and k2: "k2 = min (hq_room (TxQueue (port_state port u1))) (length (drop k bs))"
          and rest2: "let v = on_port port (\<lambda>st. st\<lparr>TxQueue := hq_write place2 (take k2 (drop k bs)) q2\<rparr>) u1 in
            port_ok port v \<and> tx_contents port v = tx_contents port u1 @ take k2 (drop k bs)
            \<and> rx_contents port v = rx_contents port u1 \<and> port_on port v = port_on port u1"
          using write_step[OF u1(1) not_full more] unfolding Let_def by blast
        have "m = k2 \<and> u' = on_port port (\<lambda>st. st\<lparr>TxQueue := hq_write place2 (take k2 (drop k bs)) q2\<rparr>) u1"
          using m(1) more p2 by (auto simp: Let_def)
        moreover have "k2 = min (length bs - k) (tx_room port u - k)"
          using k2 u1(5,6) more not_full by (auto simp: min.commute)
        moreover have "k + min (length bs - k) (tx_room port u - k) = min (length bs) (tx_room port u)"
          using k by simp
        moreover have "take (k + k2) bs = take k bs @ take k2 (drop k bs)" by (rule take_add)
        ultimately show ?thesis using rest2 u1(2-4) m(2) by (simp add: Let_def)
      qed
    qed
  qed
qed

lemma USART_Write_appends:
  assumes ok: "port_ok port u" and on: "port_on port u" and bs: "bs \<noteq> []"
    and free: "\<not> (flag_set (port_state port u) c_TX_SWFLOW_CTRL \<and> \<not> flag_set (port_state port u) c_TX_XON_STATE)"
  shows "\<exists>u'. USART_Write E port (Some bs) (length bs) u = (int (min (length bs) (tx_room port u)), u')
    \<and> tx_contents port u' = tx_contents port u @ take (min (length bs) (tx_room port u)) bs
    \<and> rx_contents port u' = rx_contents port u \<and> port_ok port u' \<and> port_on port u'"
proof -
  obtain n u1 where w: "write_loop 2 port bs u = (n, u1)" by fastforce
  note l = write_loop_appends[OF ok w]
  have "USART_Write E port (Some bs) (length bs) u = (int n, did (TxBufferEmptyInterruptEnable port True) u1)"
  proof -
    have "\<not> (IS_POWERSAVE_ENABLED (port_state port u) \<or> \<not> IS_USART_INITIALIZED (port_state port u))"
      "valid_port port u" "length bs \<noteq> 0" "take (length bs) bs = bs"
      "\<not> IS_POWERSAVE_ENABLED (port_state port u1)"
      using ok on bs l by (simp_all add: port_ok_def port_on_def)
    then show ?thesis
      unfolding USART_Write_def Let_def
      by (simp only: free w option.case prod.case if_True if_False not_False_eq_True not_True_eq_False
          simp_thms)
  qed
  moreover note same_queues_ok[OF same_queues_did(1)[of port u1 "TxBufferEmptyInterruptEnable port True"]]
  ultimately show ?thesis using l on by simp
qed

lemma write_loop_Flag:
  "valid_port port u \<Longrightarrow> write_loop j port bs u = (n, u') \<Longrightarrow> Flag (port_state port u') = Flag (port_state port u)"
proof (induction j arbitrary: bs u n)
  case (Suc j)
  have e: "Flag (port_state port (SetEvent port e v)) = Flag (port_state port v)" if "valid_port port v" for e v
    using that by (auto simp: SetEvent_def Let_def split: option.split)
  show ?case
  proof (cases "bs = []")
    case False
    obtain p k q where push: "UQ_Push_block (length bs) (TxQueue (port_state port u)) = (p, k, q)"
      by (metis prod_cases3)
    show ?thesis
    proof (cases p)
      case None
      then show ?thesis
        using Suc.prems False push e Suc.IH[of "on_port port (\<lambda>st. st\<lparr>TxQueue := q\<rparr>) u" bs n]
        by (auto simp: Let_def split: if_splits)
    next
      case (Some place)
      obtain m where "write_loop j port (drop k bs)
          (on_port port (\<lambda>st. st\<lparr>TxQueue := hq_write place (take k bs) q\<rparr>) u) = (m, u')"
        using Suc.prems(2) False push Some by (auto simp: Let_def split: prod.splits)
      from Suc.IH[OF _ this] Suc.prems(1) show ?thesis by simp
    qed
  qed (use Suc.prems in simp)
qed simp

lemma USART_Write_Flag:
  assumes "valid_port port u" and "USART_Write E port (Some bs) n u = (k, u')"
    and "\<not> flag_set (port_state port u) c_TX_SWFLOW_CTRL"
  shows "Flag (port_state port u') = Flag (port_state port u)"
  using assms write_loop_Flag[OF assms(1), of 2 "take n bs"]
  by (auto simp: USART_Write_def Let_def split: prod.splits if_splits)

lemma write_loop_size:
  "valid_port port u \<Longrightarrow> write_loop j port bs u = (n, u') \<Longrightarrow>
   m_size (TxQueue (port_state port u')) = m_size (TxQueue (port_state port u))"
proof (induction j arbitrary: bs u n)
  case (Suc j)
  have e: "TxQueue (port_state port (SetEvent port e v)) = TxQueue (port_state port v)" if "valid_port port v" for e v
    using same_queues_SetEvent[OF that, of e] by (simp add: same_queues_def)
  show ?case
  proof (cases "bs = []")
    case False
    obtain p k q where push: "UQ_Push_block (length bs) (TxQueue (port_state port u)) = (p, k, q)"
      by (metis prod_cases3)
    then have sz: "m_size q = m_size (TxQueue (port_state port u))"
      by (auto simp: UQ_Push_block_def Let_def split: if_splits)
    show ?thesis
    proof (cases p)
      case None
      then show ?thesis
        using Suc.prems False push e sz Suc.IH[of "on_port port (\<lambda>st. st\<lparr>TxQueue := q\<rparr>) u" bs n]
        by (auto simp: Let_def split: if_splits)
    next
      case (Some place)
      obtain m where "write_loop j port (drop k bs)
          (on_port port (\<lambda>st. st\<lparr>TxQueue := hq_write place (take k bs) q\<rparr>) u) = (m, u')"
        using Suc.prems(2) False push Some by (auto simp: Let_def split: prod.splits)
      from Suc.IH[OF _ this] Suc.prems(1) sz show ?thesis by simp
    qed
  qed (use Suc.prems in simp)
qed simp

lemma USART_Write_size:
  assumes "valid_port port u" and "USART_Write E port (Some bs) n u = (k, u')"
    and "\<not> flag_set (port_state port u) c_TX_SWFLOW_CTRL"
  shows "m_size (TxQueue (port_state port u')) = m_size (TxQueue (port_state port u))"
  using assms write_loop_size[OF assms(1), of 2 "take n bs"]
  by (auto simp: USART_Write_def Let_def split: prod.splits if_splits)

text \<open>The transmit interrupt takes flow characters first, then the bytes in the order they were written.\<close>

lemma RemoveChar_data:
  assumes ok: "port_ok port u" and quiet: "\<not> flag_set (port_state port u) c_TX_BUFFERXOFF"
    "\<not> flag_set (port_state port u) c_TX_BUFFERXON" and xs: "tx_contents port u = c # cs"
  shows "\<exists>u'. USART_RemoveCharFromTxBuffer port u = (Some c, u') \<and> tx_contents port u' = cs
    \<and> rx_contents port u' = rx_contents port u \<and> port_ok port u' \<and> port_on port u' = port_on port u
    \<and> Flag (port_state port u') = Flag (port_state port u)"
proof -
  have v: "valid_port port u" "hq_inv (TxQueue (port_state port u))" using ok by (simp_all add: port_ok_def)
  obtain q' where q': "hq_pop (TxQueue (port_state port u)) = (Some c, q')" "hq_inv q'" "hq_contents q' = cs"
    using hq_pop_some[OF v(2)] xs by (auto simp: tx_contents_def)
  then obtain place where "UQ_Pop (TxQueue (port_state port u)) = (Some place, q')" "m_data q' ! place = c"
    by (auto simp: hq_pop_def split: prod.splits option.splits)
  then show ?thesis
    using v ok quiet q' by (simp add: USART_RemoveCharFromTxBuffer_def Let_def port_ok_def rx_contents_def
      tx_contents_def port_on_def IS_USART_INITIALIZED_def IS_POWERSAVE_ENABLED_def flag_set_def)
qed

fun send_run :: "nat \<Rightarrow> int \<Rightarrow> usart \<Rightarrow> u8 option list \<times> usart" where
  "send_run 0 port u = ([], u)"
| "send_run (Suc n) port u =
     (let (c, u1) = USART_RemoveCharFromTxBuffer port u; (cs, u2) = send_run n port u1 in (c # cs, u2))"

lemma send_run_data:
  assumes "port_ok port u" and "\<not> flag_set (port_state port u) c_TX_BUFFERXOFF"
    and "\<not> flag_set (port_state port u) c_TX_BUFFERXON" and "n \<le> length (tx_contents port u)"
  shows "fst (send_run n port u) = map Some (take n (tx_contents port u))"
  using assms
proof (induction n arbitrary: u)
  case (Suc n)
  obtain c cs where xs: "tx_contents port u = c # cs" using Suc.prems(4) by (cases "tx_contents port u") auto
  obtain u1 where u1: "USART_RemoveCharFromTxBuffer port u = (Some c, u1)" "tx_contents port u1 = cs"
    "port_ok port u1" "Flag (port_state port u1) = Flag (port_state port u)"
    using RemoveChar_data[OF Suc.prems(1-3) xs] by blast
  have "fst (send_run n port u1) = map Some (take n cs)"
    using Suc.IH[of u1] u1 Suc.prems xs by (simp add: flag_set_def)
  then show ?case using u1(1) xs by (simp add: split_def)
qed simp

text \<open>
  A port that obeys software flow control refuses to take bytes after an XOFF, until the time for
  which it waits is over.
\<close>

definition write_blocked :: "usart_env \<Rightarrow> int \<Rightarrow> usart \<Rightarrow> bool" where
  "write_blocked E port u \<longleftrightarrow> flag_set (port_state port u) c_TX_SWFLOW_CTRL \<and> \<not> flag_set (port_state port u) c_TX_XON_STATE
     \<and> (USART_TX_XOFF_TIMEOUT_TICKS E = USART_TX_XOFF_TIMEOUT_INFINITE
        \<or> current_ticks E (calls u) - TicksStartTxXOFF (port_state port u) \<le> USART_TX_XOFF_TIMEOUT_TICKS E)"

lemma USART_Write_any:
  fixes E :: usart_env and u :: usart and bs :: "u8 list" and port :: int
  assumes ok: "port_ok port u" and on: "port_on port u" and bs: "bs \<noteq> []"
  defines "n \<equiv> (if write_blocked E port u then 0 else min (length bs) (tx_room port u))"
  shows "\<exists>u'. USART_Write E port (Some bs) (length bs) u = (int n, u') \<and> port_ok port u'
    \<and> tx_contents port u' = tx_contents port u @ take n bs
    \<and> flag_set (port_state port u') c_TX_BUFFERXOFF = flag_set (port_state port u) c_TX_BUFFERXOFF
    \<and> flag_set (port_state port u') c_TX_BUFFERXON = flag_set (port_state port u) c_TX_BUFFERXON"
proof -
  let ?st = "port_state port u"
  let ?xoff = "flag_set ?st c_TX_SWFLOW_CTRL \<and> \<not> flag_set ?st c_TX_XON_STATE"
  have v: "valid_port port u" using ok by (simp add: port_ok_def)
  have usable: "\<not> (IS_POWERSAVE_ENABLED ?st \<or> \<not> IS_USART_INITIALIZED ?st)" "length bs \<noteq> 0" "take (length bs) bs = bs"
    using on bs by (simp_all add: port_on_def)
  have blocked: "write_blocked E port u \<longleftrightarrow> ?xoff \<and> \<not> (USART_TX_XOFF_TIMEOUT_INFINITE \<noteq> USART_TX_XOFF_TIMEOUT_TICKS E
      \<and> USART_TX_XOFF_TIMEOUT_TICKS E < current_ticks E (calls u) - TicksStartTxXOFF ?st)"
    by (auto simp: write_blocked_def not_less)
  show ?thesis
  proof (cases "write_blocked E port u")
    case True
    then have "USART_Write E port (Some bs) (length bs) u = (0, u)"
      using v usable blocked by (simp add: USART_Write_def Let_def)
    with True ok show ?thesis by (simp add: n_def)
  next
    case False
    define w where "w = (if ?xoff then on_port port (SET_USART_FLAG c_TX_XON_STATE) u else u)"
    have m: "c_TX_XON_STATE AND c_TX_BUFFERXOFF = 0" "c_TX_XON_STATE AND c_TX_BUFFERXON = 0"
      "c_TX_XON_STATE AND c_INITIALIZED = 0" "c_TX_XON_STATE AND c_POWERSAVE = 0"
      by (simp_all add: c_TX_XON_STATE_def c_TX_BUFFERXOFF_def c_TX_BUFFERXON_def c_INITIALIZED_def c_POWERSAVE_def)
    have w: "port_ok port w" "tx_contents port w = tx_contents port u" "tx_room port w = tx_room port u"
      "port_on port w" "valid_port port w"
      "flag_set (port_state port w) c_TX_BUFFERXOFF = flag_set ?st c_TX_BUFFERXOFF"
      "flag_set (port_state port w) c_TX_BUFFERXON = flag_set ?st c_TX_BUFFERXON"
      using ok on v m by (simp_all add: w_def port_ok_def tx_contents_def tx_room_def port_on_def
          IS_USART_INITIALIZED_def IS_POWERSAVE_ENABLED_def)
    obtain k u1 where l: "write_loop 2 port bs w = (k, u1)" by fastforce
    note a = write_loop_appends[OF w(1) l] and f = write_loop_Flag[OF w(5) l]
    have "\<not> IS_POWERSAVE_ENABLED (port_state port u1)" using a w(4) by (simp add: port_on_def)
    then have p1: "\<not> IS_POWERSAVE_ENABLED (port_state port u1)" .
    have "USART_Write E port (Some bs) (length bs) u = (int k, did (TxBufferEmptyInterruptEnable port True) u1)"
    proof -
      note nb = False[unfolded blocked]
      show ?thesis
        unfolding USART_Write_def Let_def usable(3) option.case w_def[symmetric]
        using v usable(1,2) p1 nb l by (simp only: if_True if_False prod.case not_False_eq_True simp_thms)
    qed
    moreover note same_queues_ok[OF same_queues_did(1)[of port u1 "TxBufferEmptyInterruptEnable port True"]]
    ultimately show ?thesis using a f w False by (simp add: n_def flag_set_def)
  qed
qed

text \<open>A pending flow character is sent before the data, XOFF before XON.\<close>

definition pending_flow :: "int \<Rightarrow> usart \<Rightarrow> u8 list" where
  "pending_flow port u = (if flag_set (port_state port u) c_TX_BUFFERXOFF then [XOFF] else [])
     @ (if flag_set (port_state port u) c_TX_BUFFERXON then [XON] else [])"

lemma RemoveChar_flow:
  assumes ok: "port_ok port u" and p: "pending_flow port u = c # cs"
  shows "\<exists>u'. USART_RemoveCharFromTxBuffer port u = (Some c, u') \<and> pending_flow port u' = cs
    \<and> tx_contents port u' = tx_contents port u \<and> port_ok port u'"
proof -
  have m: "c_TX_BUFFERXOFF AND c_TX_BUFFERXON = 0" by (simp add: c_TX_BUFFERXOFF_def c_TX_BUFFERXON_def)
  have off: "\<not> flag_set (CLEAR_USART_FLAG f st) f" for f st
    by (simp add: flag_set_def CLEAR_USART_FLAG_def and.assoc)
  have v: "valid_port port u" using ok by (simp add: port_ok_def)
  have both: "flag_set (CLEAR_USART_FLAG c_TX_BUFFERXON st) c_TX_BUFFERXOFF = flag_set st c_TX_BUFFERXOFF" for st
    by (rule flag_set_CLEAR) (simp add: m and.commute)
  show ?thesis
    using v ok p m off both by (auto simp: pending_flow_def USART_RemoveCharFromTxBuffer_def Let_def port_ok_def
        tx_contents_def flag_set_CLEAR split: if_splits)
qed

lemma send_run_all:
  assumes "port_ok port u" and "n \<le> length (tx_contents port u)"
  shows "fst (send_run (length (pending_flow port u) + n) port u) = map Some (pending_flow port u @ take n (tx_contents port u))"
  using assms
proof (induction "pending_flow port u" arbitrary: u)
  case Nil
  then have "\<not> flag_set (port_state port u) c_TX_BUFFERXOFF" "\<not> flag_set (port_state port u) c_TX_BUFFERXON"
    by (auto simp: pending_flow_def split: if_splits)
  with send_run_data[OF Nil(2)] Nil show ?case by simp
next
  case (Cons c cs)
  obtain u1 where u1: "USART_RemoveCharFromTxBuffer port u = (Some c, u1)" "pending_flow port u1 = cs"
    "tx_contents port u1 = tx_contents port u" "port_ok port u1"
    using RemoveChar_flow[OF Cons(3) Cons(2)[symmetric]] by blast
  from Cons(1)[of u1] u1 Cons(4) show ?case unfolding Cons(2)[symmetric] by (simp add: split_def)
qed

section \<open>Properties\<close>

definition receive_run :: "usart_env \<Rightarrow> int \<Rightarrow> u8 list \<Rightarrow> usart \<Rightarrow> usart" where
  "receive_run E port = fold (\<lambda>c u. snd (USART_AddCharToRxBuffer E port c u))"

lemma receive_run_keeps:
  assumes "port_ok port u"
  shows "port_ok port (receive_run E port cs u) \<and> port_on port (receive_run E port cs u) = port_on port u
    \<and> flow_char port (receive_run E port cs u) = flow_char port u
    \<and> rx_contents port (receive_run E port cs u) = rx_contents port u @ take (rx_room port u) (filter (\<lambda>c. \<not> flow_char port u c) cs)
    \<and> flag_set (port_state port (receive_run E port cs u)) c_TX_XON_STATE
      = fold (\<lambda>c on. if flow_char port u c then c = XON else on) cs (flag_set (port_state port u) c_TX_XON_STATE)"
  using assms
proof (induction cs arbitrary: u)
  case (Cons c cs)
  note a = AddChar_any[OF Cons.prems, of E c]
  let ?u1 = "snd (USART_AddCharToRxBuffer E port c u)"
  have run: "receive_run E port (c # cs) u = receive_run E port cs ?u1" by (simp add: receive_run_def)
  note ih = Cons.IH[OF a(1)]
  have take: "take n [c] @ take (n - 1) xs = take n (c # xs)" for n and xs :: "u8 list" by (cases n) simp_all
  have "rx_contents port (receive_run E port cs ?u1)
      = rx_contents port u @ take (rx_room port u) (filter (\<lambda>c. \<not> flow_char port u c) (c # cs))"
    using ih a(4,5) take unfolding a(3) by (cases "flow_char port u c") auto
  then show ?case using ih a(2,6) unfolding run a(3) by auto
qed (simp add: receive_run_def)

definition sample_queue :: "u8 hal_queue" where
  "sample_queue = \<lparr>m_writer = 3, m_reader = 2, m_size = 4, m_full = False, m_data = [0, 0, 7, 0]\<rparr>"

definition sample_port :: "u32 \<Rightarrow> usart_state" where
  "sample_port f = \<lparr>TxQueue = sample_queue, Flag = f, TicksStartTxXOFF = 0, RxQueue = sample_queue,
     RxBufferHighWaterMark = 3, RxBufferLowWaterMark = 1, fDataEventSet = False, PortIndex = 0,
     DataContext = 0, ErrorContext = 0, UsartDataEventCallback = Some 1, UsartErrorEventCallback = None\<rparr>"

definition sample_usart :: "u32 \<Rightarrow> usart" where
  "sample_usart f = \<lparr>ports = [sample_port f], calls = []\<rparr>"

definition quiet_usart :: usart_env where
  "quiet_usart = \<lparr>tx_buffer_size = 4, rx_buffer_size = 4, USART_TX_XOFF_TIMEOUT_TICKS = 100, cpu_init = (\<lambda>_. True),
     cpu_uninit = (\<lambda>_. True), current_ticks = (\<lambda>_. 0), tx_buffer_empty = (\<lambda>_. True), tx_shift_empty = (\<lambda>_. True),
     tx_handshake = (\<lambda>_. True), tx_int_state = (\<lambda>_. True), intc_state = (\<lambda>_. True), was_disabled = (\<lambda>_. False), interrupts_enabled = (\<lambda>_. True),
     tx_interrupts = (\<lambda>_. 0)\<rparr>"

lemma sample_usart_ok:
  "port_ok 0 (sample_usart f)" "rx_contents 0 (sample_usart f) = [7]" "tx_contents 0 (sample_usart f) = [7]"
  "Flag (port_state 0 (sample_usart f)) = f" "m_size (RxQueue (port_state 0 (sample_usart f))) = 4"
  "m_size (TxQueue (port_state 0 (sample_usart f))) = 4" "valid_port 0 (sample_usart f)"
  by (simp_all add: port_ok_def valid_port_def sample_usart_def port_state_def sample_port_def sample_queue_def
      hq_inv_def rx_contents_def tx_contents_def hq_contents_def UQ_NumberOfElements_def)

lemma sample_usart_on: "port_on 0 (sample_usart 0x20008)"
  by (simp add: port_on_def IS_USART_INITIALIZED_def IS_POWERSAVE_ENABLED_def flag_set_def sample_usart_ok
      c_INITIALIZED_def c_POWERSAVE_def)

text \<open>
  C38. What the receive interrupt puts into a port is read in the order of its arrival, whatever the reader
  asks for at a time; what it does not ask for stays. When the port obeys software flow control, XON and XOFF
  are kept out of this stream, and the last of them tells whether the port may send; otherwise they are data
  like all other bytes. Of the data as many bytes are kept as there is room for, the first ones.
\<close>

theorem received_bytes_are_read_in_order:
  assumes "port_ok port u" and "port_on port u"
  shows "let data = filter (\<lambda>c. \<not> (flag_set (port_state port u) c_TX_SWFLOW_CTRL \<and> (c = XON \<or> c = XOFF))) cs;
      kept = rx_contents port u @ take (rx_room port u) data; u1 = receive_run E port cs u in
    \<exists>u'. USART_Read port sz u1 = (int (length (take sz kept)), take sz kept, u')
    \<and> rx_contents port u' = drop sz kept
    \<and> flag_set (port_state port u1) c_TX_XON_STATE =
        fold (\<lambda>c on. if flag_set (port_state port u) c_TX_SWFLOW_CTRL \<and> (c = XON \<or> c = XOFF) then c = XON else on)
          cs (flag_set (port_state port u) c_TX_XON_STATE)"
  using USART_Read_takes[of port "receive_run E port cs u" sz] receive_run_keeps[OF assms(1), of E cs] assms(2)
  unfolding Let_def flow_char_def by auto

text \<open>Flow control is on: of five bytes XOFF is obeyed, three are kept, one is lost.\<close>

lemma received_bytes_are_read_in_order_witness:
  "\<exists>u'. USART_Read 0 2 (receive_run quiet_usart 0 [8, XOFF, 9, 10, 11] (sample_usart 0x2000C)) = (2, [7, 8], u')
    \<and> rx_contents 0 u' = [9, 10]"
proof -
  let ?u = "sample_usart 0x2000C"
  have on: "port_on 0 ?u" and f: "flag_set (port_state 0 ?u) c_TX_SWFLOW_CTRL"
    by (simp_all add: port_on_def IS_USART_INITIALIZED_def IS_POWERSAVE_ENABLED_def flag_set_def sample_usart_ok
        c_INITIALIZED_def c_POWERSAVE_def c_TX_SWFLOW_CTRL_def)
  have d: "filter (\<lambda>c. \<not> (flag_set (port_state 0 ?u) c_TX_SWFLOW_CTRL \<and> (c = XON \<or> c = XOFF))) [8, XOFF, 9, 10, 11]
      = [8, 9, 10, 11]" using f by (simp add: XON_def XOFF_def)
  have r: "rx_room 0 ?u = 3" by (simp add: rx_room_def sample_usart_ok)
  show ?thesis
    using received_bytes_are_read_in_order[where E = quiet_usart and sz = 2 and cs = "[8, XOFF, 9, 10, 11]", OF sample_usart_ok(1) on]
    unfolding Let_def d r by (auto simp: sample_usart_ok)
qed

text \<open>
  C39. A port accepts of the bytes written as many as its buffer has room for, and none while it obeys an XOFF
  whose time is not over; the transmit interrupt sends a pending XOFF and a pending XON, then what waited
  before, and then the accepted bytes, in their order.
\<close>

theorem written_bytes_are_sent_in_order:
  assumes "port_ok port u" and "port_on port u" and "bs \<noteq> []"
  shows "let n = (if write_blocked E port u then 0 else min (length bs) (tx_room port u));
      out = pending_flow port u @ tx_contents port u @ take n bs in
    \<exists>u'. USART_Write E port (Some bs) (length bs) u = (int n, u') \<and> fst (send_run (length out) port u') = map Some out"
proof -
  let ?n = "if write_blocked E port u then 0 else min (length bs) (tx_room port u)"
  obtain u' where u': "USART_Write E port (Some bs) (length bs) u = (int ?n, u')" "port_ok port u'"
    "tx_contents port u' = tx_contents port u @ take ?n bs" "pending_flow port u' = pending_flow port u"
    using USART_Write_any[OF assms, of E] by (auto simp: pending_flow_def)
  then show ?thesis
    using send_run_all[OF u'(2) order_refl] unfolding Let_def by (intro exI[of _ u']) simp
qed

lemma written_bytes_are_sent_in_order_witness:
  "\<exists>u'. USART_Write quiet_usart 0 (Some [1, 2, 3, 4, 5]) 5 (sample_usart 0x20009) = (3, u')
    \<and> fst (send_run 5 0 u') = [Some XOFF, Some 7, Some 1, Some 2, Some 3]"
proof -
  let ?u = "sample_usart 0x20009"
  have on: "port_on 0 ?u"
    by (simp add: port_on_def IS_USART_INITIALIZED_def IS_POWERSAVE_ENABLED_def flag_set_def sample_usart_ok
        c_INITIALIZED_def c_POWERSAVE_def)
  have "tx_room 0 ?u = 3" "pending_flow 0 ?u = [XOFF]" "\<not> write_blocked quiet_usart 0 ?u"
    by (simp_all add: tx_room_def pending_flow_def write_blocked_def flag_set_def sample_usart_ok
        c_TX_BUFFERXOFF_def c_TX_BUFFERXON_def c_TX_SWFLOW_CTRL_def)
  then show ?thesis
    using written_bytes_are_sent_in_order[where E = quiet_usart and bs = "[1, 2, 3, 4, 5]", OF sample_usart_ok(1) on]
    unfolding Let_def by (simp add: sample_usart_ok numeral_eq_Suc)
qed

lemma RX_XOFF_bit: "bit (RX_XOFF_STATE st) n \<longleftrightarrow> n < 2 \<and> bit (Flag st) (n + 9)"
proof -
  have "c_RX_XOFFSTATE = push_bit 9 (mask 2)"
    by (simp add: c_RX_XOFFSTATE_def push_bit_eq_mult mask_eq_exp_minus_1)
  then have "RX_XOFF_STATE st = drop_bit 9 (Flag st AND push_bit 9 (mask 2))"
    by (simp only: RX_XOFF_STATE_def c_RX_XOFFSTATE_SHIFT_def)
  then show ?thesis by (auto simp: bit_simps add.commute dest: bit_imp_le_length)
qed

lemma XON_XOFF_flags:
  assumes "flg \<in> {XOFF_FLAG_FULL, XOFF_CLOCK_HALT}" and "RX_XOFF_STATE st = flg"
    and "\<not> IS_POWERSAVE_ENABLED st"
    and st0_def: "st0 = CLEAR_USART_FLAG (push_bit c_RX_XOFFSTATE_SHIFT flg) st"
    and st1_def: "st1 = SET_USART_FLAG c_TX_BUFFERXON st0"
    and st2_def: "st2 = SET_USART_FLAG (push_bit c_RX_XOFFSTATE_SHIFT flg) (SET_USART_FLAG c_TX_BUFFERXOFF st1)"
    and st3_def: "st3 = CLEAR_USART_FLAG c_TX_BUFFERXOFF st2"
    and st4_def: "st4 = CLEAR_USART_FLAG c_TX_BUFFERXON st3"
  shows XON_lifts_state: "RX_XOFF_STATE st0 = 0" "RX_XOFF_STATE st1 = 0"
    and XOFF_sets_state: "RX_XOFF_STATE st4 = flg"
    and still_powered: "\<not> IS_POWERSAVE_ENABLED st1"
    and both_flags: "flag_set st2 c_TX_BUFFERXOFF" "flag_set st3 c_TX_BUFFERXON"
      "\<not> flag_set st3 c_TX_BUFFERXOFF"
proof -
  let ?m = "push_bit c_RX_XOFFSTATE_SHIFT flg"
  note defs = st0_def st1_def st2_def st3_def st4_def SET_USART_FLAG_def CLEAR_USART_FLAG_def
  have b9: "bit ?m (n + 9) \<longleftrightarrow> n < 23 \<and> bit flg n" for n
    by (auto simp: c_RX_XOFFSTATE_SHIFT_def bit_simps)
  have bits: "bit flg n \<longleftrightarrow> n < 2 \<and> bit (Flag st) (n + 9)" for n
    using RX_XOFF_bit[of st n] assms(2) by simp
  have low: "\<not> bit c_TX_BUFFERXOFF (n + 9)" "\<not> bit c_TX_BUFFERXON (n + 9)" for n
    by (simp_all add: c_TX_BUFFERXOFF_def c_TX_BUFFERXON_def bit_1_iff bit_2_iff)
  have f: "Flag st0 = Flag st AND NOT ?m" "Flag st1 = Flag st0 OR c_TX_BUFFERXON"
    "Flag st2 = (Flag st1 OR c_TX_BUFFERXOFF) OR ?m"
    "Flag st4 = (Flag st2 AND NOT c_TX_BUFFERXOFF) AND NOT c_TX_BUFFERXON"
    by (simp_all add: defs)
  show rx0: "RX_XOFF_STATE st0 = 0"
  proof (rule bit_word_eqI)
    fix n
    show "bit (RX_XOFF_STATE st0) n = bit 0 n"
      using bits[of n] b9[of n] by (simp only: RX_XOFF_bit f(1)) (auto simp: bit_and_iff bit_not_iff)
  qed
  show rx1: "RX_XOFF_STATE st1 = 0"
  proof (rule bit_word_eqI)
    fix n
    show "bit (RX_XOFF_STATE st1) n = bit 0 n"
      using arg_cong[OF rx0, of "\<lambda>w. bit w n"] low[of n]
      by (simp only: RX_XOFF_bit f(2)) (auto simp: bit_or_iff)
  qed
  show "RX_XOFF_STATE st4 = flg"
  proof (rule bit_word_eqI)
    fix n
    show "bit (RX_XOFF_STATE st4) n = bit flg n"
      using arg_cong[OF rx1, of "\<lambda>w. bit w n"] low[of n] b9[of n] bits[of n]
      by (simp only: RX_XOFF_bit f(3,4)) (auto simp: bit_or_iff bit_and_iff bit_not_iff)
  qed
  have m: "?m AND c_POWERSAVE = 0" "c_TX_BUFFERXON AND c_POWERSAVE = 0" "?m AND c_TX_BUFFERXOFF = 0"
    "?m AND c_TX_BUFFERXON = 0" "c_TX_BUFFERXOFF AND c_TX_BUFFERXON = 0"
    using assms(1) by (auto simp: XOFF_FLAG_FULL_def XOFF_CLOCK_HALT_def c_RX_XOFFSTATE_SHIFT_def
      c_POWERSAVE_def c_TX_BUFFERXON_def c_TX_BUFFERXOFF_def push_bit_eq_mult)
  show "\<not> IS_POWERSAVE_ENABLED st1"
    using assms(3) m by (simp add: IS_POWERSAVE_ENABLED_def st1_def st0_def flag_set_CLEAR)
  show "flag_set st2 c_TX_BUFFERXOFF" by (simp add: st2_def c_TX_BUFFERXOFF_def)
  show "flag_set st3 c_TX_BUFFERXON" "\<not> flag_set st3 c_TX_BUFFERXOFF"
    using m by (simp_all add: st3_def flag_set_CLEAR st2_def st1_def)
      (simp_all add: c_TX_BUFFERXON_def c_TX_BUFFERXOFF_def flag_set_def CLEAR_USART_FLAG_def and.assoc)
qed

text \<open>
  C40. When the port asks to go on and then to stop before the transmitter was ready for either, it sends the
  stop first and the go afterwards, although it is still in the state of being stopped.
\<close>

theorem stale_XON_overtakes_XOFF:
  assumes "valid_port port u" and "\<not> IS_POWERSAVE_ENABLED (port_state port u)"
    and "flg \<in> {XOFF_FLAG_FULL, XOFF_CLOCK_HALT}" and "RX_XOFF_STATE (port_state port u) = flg"
  shows "\<exists>u'. send_run 2 port (SendXOFF port flg (SendXON port flg u)) = ([Some XOFF, Some XON], u')
    \<and> RX_XOFF_STATE (port_state port u') = flg"
proof -
  let ?m = "push_bit c_RX_XOFFSTATE_SHIFT flg"
  define st where "st = port_state port u"
  define st0 where "st0 = CLEAR_USART_FLAG ?m st"
  define st1 where "st1 = SET_USART_FLAG c_TX_BUFFERXON st0"
  define st2 where "st2 = SET_USART_FLAG ?m (SET_USART_FLAG c_TX_BUFFERXOFF st1)"
  define st3 where "st3 = CLEAR_USART_FLAG c_TX_BUFFERXOFF st2"
  define st4 where "st4 = CLEAR_USART_FLAG c_TX_BUFFERXON st3"
  have st: "RX_XOFF_STATE st = flg" "\<not> IS_POWERSAVE_ENABLED st" using assms(2,4) by (simp_all add: st_def)
  note f = XON_XOFF_flags[OF assms(3) st st0_def st1_def st2_def st3_def st4_def]
  define u1 where "u1 = SendXON port flg u"
  have u1: "port_state port u1 = st1" "valid_port port u1"
    using assms(1,2) f(1) by (simp_all add: u1_def SendXON_def Let_def st0_def st1_def st_def)
  define u2 where "u2 = SendXOFF port flg u1"
  have u2: "port_state port u2 = st2" "valid_port port u2"
    using u1 f(2,4) by (simp_all add: u2_def SendXOFF_def Let_def st2_def)
  have "send_run 2 port u2 = ([Some XOFF, Some XON],
      on_port port (CLEAR_USART_FLAG c_TX_BUFFERXON) (on_port port (CLEAR_USART_FLAG c_TX_BUFFERXOFF) u2))"
    using u2 f(5-7) by (simp add: numeral_2_eq_2 USART_RemoveCharFromTxBuffer_def st3_def)
  then show ?thesis using f(3) u2 by (simp add: u2_def u1_def st4_def st3_def)
qed

lemma stale_XON_overtakes_XOFF_witness:
  "\<exists>u'. send_run 2 0 (SendXOFF 0 1 (SendXON 0 1 (sample_usart 0x20308))) = ([Some XOFF, Some XON], u')
    \<and> RX_XOFF_STATE (port_state 0 u') = 1"
proof -
  have "RX_XOFF_STATE (port_state 0 (sample_usart 0x20308)) = 1"
    "\<not> IS_POWERSAVE_ENABLED (port_state 0 (sample_usart 0x20308))"
    by (simp_all add: RX_XOFF_STATE_def IS_POWERSAVE_ENABLED_def flag_set_def sample_usart_ok
      c_RX_XOFFSTATE_def c_RX_XOFFSTATE_SHIFT_def c_POWERSAVE_def drop_bit_eq_div)
  then show ?thesis
    using stale_XON_overtakes_XOFF[of 0 "sample_usart 0x20308" 1] sample_usart_ok(7)
    by (simp only: XOFF_FLAG_FULL_def) simp
qed

end
