(* ===== verification/Serial_Stream.thy ===== *)
theory Serial_Stream
  imports Usart
begin

text \<open>
  The serial port as its users see it: a stream of bytes that are accepted and sent in their order, however
  the interrupts, the waits of \<open>Flush\<close> and the writes take turns. It holds for a port without software flow
  control, which is how the debugger port is set up.
\<close>

section \<open>A port without flow control\<close>

text \<open>The debugger port is set up without flow control, so that no XON or XOFF is ever due.\<close>

definition no_flow :: "usart_state \<Rightarrow> bool" where
  "no_flow st \<longleftrightarrow> \<not> flag_set st c_TX_SWFLOW_CTRL \<and> \<not> flag_set st c_RX_SWFLOW_CTRL
     \<and> \<not> flag_set st c_TX_BUFFERXOFF \<and> \<not> flag_set st c_TX_BUFFERXON"

definition serial_ok :: "int \<Rightarrow> usart \<Rightarrow> bool" where
  "serial_ok port u \<longleftrightarrow> port_ok port u \<and> port_on port u \<and> no_flow (port_state port u)"

text \<open>What has left a port and what still waits in it, in the order in which it was accepted.\<close>

definition sent_chars :: "int \<Rightarrow> usart \<Rightarrow> u8 list" where
  "sent_chars port u = concat (map (\<lambda>e. case e of WriteCharToTxBuffer p c \<Rightarrow> if p = port then [c] else [] | _ \<Rightarrow> [])
     (calls u))"

definition port_stream :: "int \<Rightarrow> usart \<Rightarrow> u8 list" where
  "port_stream port u = sent_chars port u @ tx_contents port u"

text \<open>The steps that move bytes out, but change nothing for a reader of the port or of its stream.\<close>

definition keeps_stream :: "int \<Rightarrow> usart \<Rightarrow> usart \<Rightarrow> bool" where
  "keeps_stream port u u' \<longleftrightarrow> serial_ok port u' \<and> rx_contents port u' = rx_contents port u
     \<and> port_stream port u' = port_stream port u"

lemma keeps_stream_trans: "keeps_stream port u v \<Longrightarrow> keeps_stream port v w \<Longrightarrow> keeps_stream port u w"
  by (simp add: keeps_stream_def)

lemma keeps_stream_refl: "serial_ok port u \<Longrightarrow> keeps_stream port u u"
  by (simp add: keeps_stream_def)

lemma keeps_stream_ok: "keeps_stream port u u' \<Longrightarrow> serial_ok port u'"
  by (simp add: keeps_stream_def)

definition not_char :: "usart_call \<Rightarrow> bool" where
  "not_char e \<longleftrightarrow> (\<forall>p c. e \<noteq> WriteCharToTxBuffer p c)"

lemma sent_chars_did [simp]:
  "not_char e \<Longrightarrow> sent_chars port (did e u) = sent_chars port u"
  "sent_chars port (did (WriteCharToTxBuffer port c) u) = sent_chars port u @ [c]"
  "sent_chars port (on_port p f u) = sent_chars port u"
  by (cases e) (auto simp: sent_chars_def did_def not_char_def on_port_def)

lemma not_char_simps [simp]:
  "not_char Ask_Hardware" "not_char (Sleep_MicroSeconds n)" "not_char (Events_WaitForEvents v n)"
  "not_char (DataEvent a b n)" "not_char (ErrorEvent a b n)" "not_char (Events_Set v)"
  "not_char (TxBufferEmptyInterruptEnable i b2)" "not_char (RxBufferFullInterruptEnable i b2)"
  by (simp_all add: not_char_def)

lemma queues_did [simp]:
  "port_ok port (did e u) = port_ok port u" "port_on port (did e u) = port_on port u"
  "rx_contents port (did e u) = rx_contents port u" "tx_contents port (did e u) = tx_contents port u"
  by (simp_all add: port_ok_def port_on_def rx_contents_def tx_contents_def)

lemma keeps_stream_did: "not_char e \<Longrightarrow> serial_ok port u \<Longrightarrow> keeps_stream port u (did e u)"
  by (simp add: keeps_stream_def serial_ok_def port_stream_def)

lemma serial_ok_did [simp]: "serial_ok port (did e u) = serial_ok port u"
  by (simp add: serial_ok_def)

lemma no_flow_Flag: "Flag st' = Flag st \<Longrightarrow> no_flow st' = no_flow st"
  by (simp add: no_flow_def flag_set_def)

section \<open>Sending keeps the stream\<close>

lemma RemoveChar_none:
  assumes "port_ok port u" "tx_contents port u = []"
    and "\<not> flag_set (port_state port u) c_TX_BUFFERXOFF" "\<not> flag_set (port_state port u) c_TX_BUFFERXON"
  shows "\<exists>u'. USART_RemoveCharFromTxBuffer port u = (None, u') \<and> calls u' = calls u \<and> same_queues port u u'
    \<and> Flag (port_state port u') = Flag (port_state port u)"
proof -
  have v: "valid_port port u" "hq_inv (TxQueue (port_state port u))" using assms(1) by (simp_all add: port_ok_def)
  have "UQ_Pop (TxQueue (port_state port u)) = (None, TxQueue (port_state port u))"
    using v(2) assms(2) by (auto simp: UQ_Pop_def tx_contents_def hq_contents_def UQ_NumberOfElements_def
        UQ_IsEmpty_def hq_inv_def Let_def split: if_splits)
  then show ?thesis using v assms(3,4)
    by (simp add: USART_RemoveCharFromTxBuffer_def same_queues_def port_on_def IS_USART_INITIALIZED_def
        IS_POWERSAVE_ENABLED_def flag_set_def Let_def)
qed

lemma RemoveChar_calls:
  assumes "USART_RemoveCharFromTxBuffer port u = (r, u')"
  shows "sent_chars p u' = sent_chars p u"
  using assms by (auto simp: USART_RemoveCharFromTxBuffer_def Let_def split: if_splits prod.splits option.splits)

lemma send_next_keeps:
  assumes "serial_ok port u"
  shows "keeps_stream port u (send_next port u)"
proof (cases "tx_contents port u")
  case Nil
  then obtain u' where u': "USART_RemoveCharFromTxBuffer port u = (None, u')" "same_queues port u u'"
    "Flag (port_state port u') = Flag (port_state port u)"
    using RemoveChar_none[of port u] assms by (auto simp: serial_ok_def no_flow_def)
  then show ?thesis
    using assms same_queues_ok[OF u'(2)] no_flow_Flag[OF u'(3)] RemoveChar_calls[OF u'(1)]
    by (simp add: send_next_def keeps_stream_def serial_ok_def port_stream_def)
next
  case (Cons c cs)
  obtain u' where u': "USART_RemoveCharFromTxBuffer port u = (Some c, u')" "tx_contents port u' = cs"
    "rx_contents port u' = rx_contents port u" "port_ok port u'" "port_on port u' = port_on port u"
    "Flag (port_state port u') = Flag (port_state port u)"
    using RemoveChar_data[OF _ _ _ Cons] assms by (auto simp: serial_ok_def no_flow_def)
  then show ?thesis
    using assms no_flow_Flag[OF u'(6)] RemoveChar_calls[OF u'(1)] Cons
    by (simp add: send_next_def keeps_stream_def serial_ok_def port_stream_def)
qed

lemma send_next_run_keeps: "serial_ok port u \<Longrightarrow> keeps_stream port u ((send_next port ^^ n) u)"
  by (induction n) (auto simp: keeps_stream_refl intro: keeps_stream_trans send_next_keeps keeps_stream_ok)

section \<open>Flushing keeps the stream\<close>

lemma ask_keeps: "serial_ok port u \<Longrightarrow> ask f E u = (b, u') \<Longrightarrow> keeps_stream port u u'"
  by (auto simp: ask_def keeps_stream_did)

lemma asked_keeps:
  "serial_ok port u \<Longrightarrow> keeps_stream port u (did Ask_Hardware u)"
  "serial_ok port u \<Longrightarrow> keeps_stream port u (did Ask_Hardware (did Ask_Hardware u))"
  by (simp_all add: keeps_stream_def serial_ok_def port_stream_def)

lemma wait_place_keeps:
  assumes "wait_place E u = Some r" and "serial_ok port u"
  shows "keeps_stream port u (snd r)"
  using assms
proof (induction rule: wait_place.raw_induct[rotated, consumes 1, case_names step])
  case (step proc E u r)
  let ?u2 = "did Ask_Hardware (did Ask_Hardware u)"
  have "r = (True, did Ask_Hardware u) \<or> r = (False, ?u2) \<or> proc E ?u2 = Some r"
    using step(2) by (simp add: ask_def Let_def split: if_splits)
  then show ?case
    using step(1)[of E ?u2 r] step(3) asked_keeps[OF step(3)] keeps_stream_trans by auto
qed

lemma flush_polling_keeps:
  assumes "flush_polling E port u = Some r" and "serial_ok port u"
  shows "keeps_stream port u (snd r)"
  using assms
proof (induction rule: flush_polling.raw_induct[rotated, consumes 1, case_names step])
  case (step proc E port u r)
  let ?u1 = "did Ask_Hardware u"
  have "snd r = u \<or> snd r = ?u1 \<or> (\<exists>ok u2. wait_place E ?u1 = Some (ok, u2)
      \<and> (if ok then proc E port (send_next port u2) = Some r else r = (False, u2)))"
  proof (cases "UQ_IsEmpty (TxQueue (port_state port u)) \<or> IS_POWERSAVE_ENABLED (port_state port u)
      \<or> \<not> tx_handshake E (calls u)")
    case True
    then have "snd r = u \<or> snd r = ?u1" using step(2) by (simp add: ask_def Let_def split: if_splits) auto
    then show ?thesis by blast
  next
    case False
    then have "Option.bind (wait_place E ?u1)
        (\<lambda>(ok, u2). if ok then proc E port (send_next port u2) else Some (False, u2)) = Some r"
      using step(2) by (simp add: ask_def Let_def)
    then obtain w where "wait_place E ?u1 = Some w"
      "(case w of (ok, u2) \<Rightarrow> if ok then proc E port (send_next port u2) else Some (False, u2)) = Some r"
      unfolding bind_eq_Some_conv by blast
    then obtain ok u2 where w: "wait_place E ?u1 = Some (ok, u2)"
      "(if ok then proc E port (send_next port u2) else Some (False, u2)) = Some r" by (cases w) simp
    have "if ok then proc E port (send_next port u2) = Some r else r = (False, u2)"
      using w(2) by (cases ok) simp_all
    then show ?thesis using w(1) by blast
  qed
  moreover have "keeps_stream port u (snd r)"
    if "wait_place E ?u1 = Some (ok, u2)" "if ok then proc E port (send_next port u2) = Some r else r = (False, u2)"
    for ok u2
  proof -
    have w: "keeps_stream port u u2"
      using wait_place_keeps[OF that(1), of port] asked_keeps(1)[OF step(3)] step(3) keeps_stream_trans by auto
    show ?thesis
    proof (cases ok)
      case True
      have s: "keeps_stream port u (send_next port u2)"
        using w send_next_keeps[OF keeps_stream_ok[OF w]] keeps_stream_trans by blast
      then show ?thesis
        using True that(2) step(1)[of E port "send_next port u2" r] keeps_stream_ok keeps_stream_trans by auto
    next
      case False
      then show ?thesis using w that(2) by simp
    qed
  qed
  ultimately show ?case using asked_keeps(1)[OF step(3)] keeps_stream_refl[OF step(3)] by auto
qed

lemma flush_waiting_keeps:
  assumes "flush_waiting E port u = Some r" and "serial_ok port u"
  shows "keeps_stream port u (snd r)"
  using assms
proof (induction rule: flush_waiting.raw_induct[rotated, consumes 1, case_names step])
  case (step proc E port u r)
  let ?u2 = "did (Sleep_MicroSeconds 1000) (did Ask_Hardware u)"
  let ?u3 = "(send_next port ^^ tx_interrupts E (calls ?u2)) ?u2"
  have "snd r = u \<or> snd r = did Ask_Hardware u \<or> proc E port ?u3 = Some r"
    using step(2) by (auto simp: ask_def Let_def split: if_splits)
  moreover have s: "keeps_stream port u ?u3"
    using keeps_stream_trans[OF _ send_next_run_keeps[of port ?u2]] step(3)
    by (simp add: keeps_stream_def serial_ok_def port_stream_def)
  moreover have "keeps_stream port u (snd r)" if "proc E port ?u3 = Some r"
    using step(1)[OF that keeps_stream_ok[OF s]] s keeps_stream_trans by blast
  ultimately show ?case using asked_keeps(1)[OF step(3)] keeps_stream_refl[OF step(3)] by auto
qed

lemma wait_sent_keeps:
  assumes "wait_sent f E u = Some u'" and "serial_ok port u"
  shows "keeps_stream port u u'"
  using assms
proof (induction rule: wait_sent.raw_induct[rotated, consumes 1, case_names step])
  case (step proc f E u r)
  let ?u2 = "did Ask_Hardware (did Ask_Hardware u)"
  have "r = did Ask_Hardware u \<or> r = ?u2 \<or> proc f E ?u2 = Some r"
    using step(2) by (simp add: ask_def Let_def split: if_splits)
  then show ?case
    using step(1)[of f E ?u2 r] step(3) asked_keeps[OF step(3)] keeps_stream_trans by auto
qed

lemma flush_by_hand_keeps: "serial_ok port u \<Longrightarrow> keeps_stream port u (snd (flush_by_hand E u))"
  by (simp add: flush_by_hand_def ask_def Let_def keeps_stream_def serial_ok_def port_stream_def)

lemma USART_Flush_keeps:
  assumes "USART_Flush E port u = Some (ok, u')" and "serial_ok port u"
  shows "keeps_stream port u u'"
proof -
  have on: "valid_port port u" "\<not> IS_POWERSAVE_ENABLED (port_state port u)" "IS_USART_INITIALIZED (port_state port u)"
    "\<not> flag_set (port_state port u) c_TX_SWFLOW_CTRL"
    using assms(2) by (simp_all add: serial_ok_def port_ok_def port_on_def no_flow_def)
  obtain by_hand u2 where h: "flush_by_hand E (did Ask_Hardware u) = (by_hand, u2)" by fastforce
  have u2: "keeps_stream port u u2"
    using flush_by_hand_keeps[of port "did Ask_Hardware u" E] asked_keeps(1)[OF assms(2)] assms(2) h
      keeps_stream_trans by auto
  have "u' = did Ask_Hardware u \<or> (\<exists>ok3 u3. (if by_hand then flush_polling E port u2 else flush_waiting E port u2) = Some (ok3, u3)
      \<and> (u' = u3 \<or> (\<exists>u4. wait_sent tx_buffer_empty E u3 = Some u4 \<and> wait_sent tx_shift_empty E u4 = Some u')))"
    using assms(1) on h
    by (auto simp: USART_Flush_def ask_def Let_def bind_eq_Some_conv split: if_splits)
  then consider "u' = did Ask_Hardware u" | ok3 u3 where
    "(if by_hand then flush_polling E port u2 else flush_waiting E port u2) = Some (ok3, u3)"
    "u' = u3 \<or> (\<exists>u4. wait_sent tx_buffer_empty E u3 = Some u4 \<and> wait_sent tx_shift_empty E u4 = Some u')"
    by blast
  then show ?thesis
  proof cases
    case 1
    then show ?thesis using asked_keeps(1)[OF assms(2)] by simp
  next
    case 2
    have "keeps_stream port u2 u3"
      using 2(1) flush_polling_keeps[of E port u2 "(ok3, u3)"] flush_waiting_keeps[of E port u2 "(ok3, u3)"]
        keeps_stream_ok[OF u2] by (auto split: if_splits)
    then have u3: "keeps_stream port u u3" using u2 keeps_stream_trans by blast
    then show ?thesis
      using 2(2) wait_sent_keeps[of _ E _ _ port] keeps_stream_ok keeps_stream_trans by meson
  qed
qed

section \<open>Writing and reading\<close>

lemma sent_chars_SetEvent [simp]: "sent_chars p (SetEvent port e u) = sent_chars p u"
  by (simp add: SetEvent_def Let_def split: option.split)

lemma sent_chars_SendXON [simp]: "sent_chars p (SendXON port f u) = sent_chars p u"
  by (simp add: SendXON_def Let_def)

lemma sent_chars_below [simp]: "sent_chars p (below_low_water port n u) = sent_chars p u"
  by (simp add: below_low_water_def Let_def)

lemma sent_chars_write_loop: "write_loop j port bs u = (n, u') \<Longrightarrow> sent_chars p u' = sent_chars p u"
proof (induction j arbitrary: bs u n u')
  case (Suc j)
  then show ?case by (fastforce simp: Let_def split: if_splits prod.splits option.splits)
qed simp

lemma sent_chars_read_loop: "read_loop t port want u = (bs, u') \<Longrightarrow> sent_chars p u' = sent_chars p u"
proof (induction t arbitrary: want u bs u')
  case (Suc t)
  then show ?case by (fastforce simp: Let_def split: if_splits prod.splits option.splits)
qed simp

lemma read_loop_Flag:
  "valid_port port u \<Longrightarrow> \<not> flag_set (port_state port u) c_RX_SWFLOW_CTRL \<Longrightarrow> read_loop t port want u = (bs, u')
   \<Longrightarrow> valid_port port u' \<and> Flag (port_state port u') = Flag (port_state port u)"
proof (induction t arbitrary: want u bs u')
  case (Suc t)
  let ?q = "RxQueue (port_state port u)"
  show ?case
  proof (cases "want = 0")
    case True
    then show ?thesis using Suc.prems by simp
  next
    case False
    obtain r n q where pop: "UQ_Pop_block want ?q = (r, n, q)" using prod_cases3 by blast
    define u0 where "u0 = on_port port (\<lambda>st. st\<lparr>RxQueue := q\<rparr>) u"
    have u0: "valid_port port u0" "Flag (port_state port u0) = Flag (port_state port u)"
      using Suc.prems(1) by (simp_all add: u0_def)
    have b: "valid_port port (below_low_water port n u0)
        \<and> Flag (port_state port (below_low_water port n u0)) = Flag (port_state port u)"
      using u0 Suc.prems(2) by (simp add: below_low_water_def flag_set_def Let_def)
    show ?thesis
    proof (cases r)
      case None
      then show ?thesis using Suc.prems(3) False pop u0 by (simp add: Let_def u0_def)
    next
      case (Some place)
      then obtain bs1 where "read_loop t port (want - n) (below_low_water port n u0) = (bs1, u')"
        using Suc.prems(3) False pop by (auto simp: Let_def u0_def split: prod.splits)
      then show ?thesis using Suc.IH[of "below_low_water port n u0"] b Suc.prems(2) by (simp add: flag_set_def)
    qed
  qed
qed simp

lemma SetEvent_Flag: "valid_port port u \<Longrightarrow> Flag (port_state port (SetEvent port e u)) = Flag (port_state port u)"
  by (simp add: SetEvent_def Let_def split: option.split)

lemma serial_read:
  assumes "serial_ok port u"
  shows "\<exists>u'. USART_Read port sz u
      = (int (length (take sz (rx_contents port u))), take sz (rx_contents port u), u')
    \<and> rx_contents port u' = drop sz (rx_contents port u) \<and> serial_ok port u'
    \<and> port_stream port u' = port_stream port u"
proof -
  have ok: "port_ok port u" "port_on port u" "no_flow (port_state port u)" "valid_port port u"
    using assms by (simp_all add: serial_ok_def port_ok_def)
  obtain u' where u': "USART_Read port sz u
      = (int (length (take sz (rx_contents port u))), take sz (rx_contents port u), u')"
    "rx_contents port u' = drop sz (rx_contents port u)" "tx_contents port u' = tx_contents port u"
    "port_ok port u'" "port_on port u'"
    using USART_Read_takes[OF ok(1,2)] by blast
  obtain bs u1 where r: "read_loop sz port sz u = (bs, u1)" by fastforce
  have f: "valid_port port u1" "Flag (port_state port u1) = Flag (port_state port u)"
    using read_loop_Flag[OF ok(4) _ r] ok(3) by (simp_all add: no_flow_def)
  define u2 where "u2 = on_port port (\<lambda>st. st\<lparr>fDataEventSet := False\<rparr>) u1"
  have "u' = (if \<not> UQ_IsEmpty (RxQueue (port_state port u2)) then SetEvent port USART_EVENT_DATA_CHARS u2 else u2)"
    using u'(1) r ok(2,4) by (auto simp: USART_Read_def port_on_def Let_def u2_def)
  moreover have "valid_port port u2" "Flag (port_state port u2) = Flag (port_state port u)"
    "sent_chars port u2 = sent_chars port u"
    using f sent_chars_read_loop[OF r, of port] by (simp_all add: u2_def)
  ultimately have fl: "Flag (port_state port u') = Flag (port_state port u)" "sent_chars port u' = sent_chars port u"
    by (simp_all add: SetEvent_Flag)
  show ?thesis
    by (intro exI[of _ u']) (use u' ok(3) no_flow_Flag[OF fl(1)] fl(2) in \<open>simp add: serial_ok_def port_stream_def\<close>)
qed

lemma serial_write:
  assumes "serial_ok port u" and "bs \<noteq> []"
  shows "\<exists>n u'. USART_Write E port (Some bs) (length bs) u = (int n, u') \<and> n \<le> length bs
    \<and> serial_ok port u' \<and> rx_contents port u' = rx_contents port u
    \<and> port_stream port u' = port_stream port u @ take n bs"
proof -
  have ok: "port_ok port u" "port_on port u" "no_flow (port_state port u)" "valid_port port u"
    using assms by (simp_all add: serial_ok_def port_ok_def)
  obtain n u' where w: "USART_Write E port (Some bs) (length bs) u = (int n, u')" "n \<le> length bs"
    "tx_contents port u' = tx_contents port u @ take n bs" "rx_contents port u' = rx_contents port u"
    "port_ok port u'" "port_on port u'"
    using USART_Write_appends[OF ok(1,2) assms(2), of E] ok(3) by (auto simp: no_flow_def)
  have f: "Flag (port_state port u') = Flag (port_state port u)"
    using USART_Write_Flag[OF ok(4) w(1)] ok(3) by (simp add: no_flow_def)
  have "sent_chars port u' = sent_chars port u"
    using w(1) ok(2,3,4) assms(2)
    by (auto simp: USART_Write_def port_on_def no_flow_def Let_def split: if_splits prod.splits
        dest: sent_chars_write_loop)
  then show ?thesis
    by (intro exI[of _ n] exI[of _ u']) (use w ok(3) no_flow_Flag[OF f] in \<open>simp add: serial_ok_def port_stream_def\<close>)
qed

section \<open>Flushing ends when the hardware sends\<close>

definition eager_usart :: "usart_env \<Rightarrow> bool" where
  "eager_usart E \<longleftrightarrow> (\<forall>cs. tx_buffer_empty E cs \<and> tx_shift_empty E cs \<and> 0 < tx_interrupts E cs)"

text \<open>A write that fits into the free part of the buffer takes all bytes at once.\<close>

lemma serial_write_fits:
  assumes "serial_ok port u" and "bs \<noteq> []" and "length bs \<le> tx_room port u"
  obtains u' where "USART_Write E port (Some bs) (length bs) u = (int (length bs), u')"
    "serial_ok port u'" "rx_contents port u' = rx_contents port u" "port_stream port u' = port_stream port u @ bs"
    "tx_room port u' = tx_room port u - length bs"
proof -
  have ok: "port_ok port u" "port_on port u" "valid_port port u" "\<not> flag_set (port_state port u) c_TX_SWFLOW_CTRL"
    using assms(1) by (simp_all add: serial_ok_def port_ok_def no_flow_def)
  obtain u' where u': "USART_Write E port (Some bs) (length bs) u = (int (length bs), u')"
    "tx_contents port u' = tx_contents port u @ bs"
    using USART_Write_appends[OF ok(1,2) assms(2), of E] ok(4) assms(3) by (auto simp: min_absorb1)
  have "tx_room port u' = tx_room port u - length bs"
    using USART_Write_size[OF ok(3) u'(1) ok(4)] u'(2) by (simp add: tx_room_def)
  then show thesis using that[of u'] serial_write[OF assms(1,2), of E] u'(1) by auto
qed

lemma wait_ends:
  assumes "eager_usart E"
  shows "wait_place E u = Some (True, did Ask_Hardware u)"
    and "wait_sent tx_buffer_empty E u = Some (did Ask_Hardware u)"
    and "wait_sent tx_shift_empty E u = Some (did Ask_Hardware u)"
  using assms by (simp_all add: eager_usart_def wait_place.simps[of E u] wait_sent.simps[of _ E u] ask_def)

lemma tx_empty_iff: "port_ok port u \<Longrightarrow> UQ_IsEmpty (TxQueue (port_state port u)) \<longleftrightarrow> tx_contents port u = []"
  using hq_empty_iff[of "TxQueue (port_state port u)"] by (simp add: port_ok_def tx_contents_def flip: length_0_conv)

lemma send_next_shorter:
  assumes "serial_ok port u" and "tx_contents port u \<noteq> []"
  shows "length (tx_contents port (send_next port u)) < length (tx_contents port u)"
proof -
  obtain c cs where xs: "tx_contents port u = c # cs" using assms(2) by (cases "tx_contents port u") auto
  obtain u' where "USART_RemoveCharFromTxBuffer port u = (Some c, u')" "tx_contents port u' = cs"
    using RemoveChar_data[OF _ _ _ xs] assms(1) by (auto simp: serial_ok_def no_flow_def)
  then show ?thesis using xs by (simp add: send_next_def)
qed

lemma send_next_not_longer:
  "serial_ok port u \<Longrightarrow> length (tx_contents port (send_next port u)) \<le> length (tx_contents port u)"
proof (cases "tx_contents port u = []")
  case True
  assume ok: "serial_ok port u"
  obtain u' where u': "USART_RemoveCharFromTxBuffer port u = (None, u')" "same_queues port u u'"
    using RemoveChar_none[OF _ True] ok by (auto simp: serial_ok_def no_flow_def)
  then show ?thesis using same_queues_ok[OF u'(2)] ok by (simp add: send_next_def serial_ok_def)
next
  case False
  assume "serial_ok port u"
  then show ?thesis using send_next_shorter[OF _ False] by simp
qed

lemma send_next_run_shorter:
  assumes "serial_ok port u" and "tx_contents port u \<noteq> []" and "0 < n"
  shows "length (tx_contents port ((send_next port ^^ n) u)) < length (tx_contents port u)"
  using assms(3)
proof (induction n)
  case (Suc n)
  have ok: "serial_ok port ((send_next port ^^ n) u)"
    using send_next_run_keeps[OF assms(1)] keeps_stream_ok by blast
  show ?case
  proof (cases "n = 0")
    case True
    then show ?thesis using send_next_shorter[OF assms(1,2)] by simp
  next
    case False
    then show ?thesis using Suc.IH send_next_not_longer[OF ok] by simp
  qed
qed simp

lemma flush_polling_returns:
  assumes "eager_usart E" and "serial_ok port u"
  shows "flush_polling E port u \<noteq> None"
  using assms(2)
proof (induction "length (tx_contents port u)" arbitrary: u rule: less_induct)
  case less
  let ?u = "did Ask_Hardware (did Ask_Hardware u)"
  show ?case
  proof (cases "UQ_IsEmpty (TxQueue (port_state port u))")
    case True
    then show ?thesis by (simp add: flush_polling.simps[of E port u])
  next
    case False
    then have ne: "tx_contents port ?u \<noteq> []" using less.prems tx_empty_iff by (simp add: serial_ok_def)
    have ok: "serial_ok port ?u" using less.prems by simp
    have "length (tx_contents port (send_next port ?u)) < length (tx_contents port u)"
      using send_next_shorter[OF ok ne] by simp
    then have "flush_polling E port (send_next port ?u) \<noteq> None"
      using less.hyps keeps_stream_ok[OF send_next_keeps[OF ok]] by blast
    then show ?thesis using wait_ends(1)[OF assms(1)]
      by (auto simp: flush_polling.simps[of E port u] ask_def)
  qed
qed

lemma flush_waiting_returns:
  assumes "eager_usart E" and "serial_ok port u"
  shows "flush_waiting E port u \<noteq> None"
  using assms(2)
proof (induction "length (tx_contents port u)" arbitrary: u rule: less_induct)
  case less
  let ?u = "did (Sleep_MicroSeconds 1000) (did Ask_Hardware u)"
  show ?case
  proof (cases "UQ_IsEmpty (TxQueue (port_state port u))")
    case True
    then show ?thesis by (simp add: flush_waiting.simps[of E port u])
  next
    case False
    then have ne: "tx_contents port ?u \<noteq> []" using less.prems tx_empty_iff by (simp add: serial_ok_def)
    have ok: "serial_ok port ?u" using less.prems by simp
    have n: "0 < tx_interrupts E (calls ?u)" using assms(1) by (simp add: eager_usart_def)
    let ?v = "(send_next port ^^ tx_interrupts E (calls ?u)) ?u"
    have "length (tx_contents port ?v) < length (tx_contents port u)"
      using send_next_run_shorter[OF ok ne n] by simp
    then have "flush_waiting E port ?v \<noteq> None"
      using less.hyps keeps_stream_ok[OF send_next_run_keeps[OF ok]] by blast
    then show ?thesis by (auto simp: flush_waiting.simps[of E port u] ask_def Let_def)
  qed
qed

lemma USART_Flush_returns:
  assumes "eager_usart E" and "serial_ok port u"
  shows "USART_Flush E port u \<noteq> None"
proof -
  obtain b u2 where h: "flush_by_hand E (did Ask_Hardware u) = (b, u2)" by fastforce
  have "serial_ok port u2"
    using flush_by_hand_keeps[of port "did Ask_Hardware u" E] assms(2) h keeps_stream_ok by fastforce
  then obtain ok u3 where f: "(if b then flush_polling E port u2 else flush_waiting E port u2) = Some (ok, u3)"
    using flush_polling_returns[OF assms(1)] flush_waiting_returns[OF assms(1)] by (cases b) fastforce+
  show ?thesis
    using h f wait_ends(2,3)[OF assms(1)] by (auto simp: USART_Flush_def ask_def Let_def)
qed

end
