(* ===== verification/Debugger_Port.thy ===== *)
theory Debugger_Port
  imports Serial_Stream
begin

text \<open>
  \<^verbatim>\<open>DeviceCode/pal/COM/ComDirector.cpp\<close>: the port of the debugger, whose handle says which transport
  carries it. The serial port is the driver of \<open>Usart\<close>; of the other transports (USB, sockets, generic)
  only the calls are modelled, and what they answer is a function of the calls made so far. The
  upgrade of a connection to SSL is not modelled.
\<close>

section \<open>Handles\<close>

definition TRANSPORT_SHIFT :: nat where "TRANSPORT_SHIFT = 8"
definition TRANSPORT_MASK :: u32 where "TRANSPORT_MASK = push_bit TRANSPORT_SHIFT 0xFF"
definition PORT_NUMBER_MASK :: u32 where "PORT_NUMBER_MASK = 0xFF"
definition USART_TRANSPORT :: u32 where "USART_TRANSPORT = push_bit TRANSPORT_SHIFT 1"
definition USB_TRANSPORT :: u32 where "USB_TRANSPORT = push_bit TRANSPORT_SHIFT 2"
definition SOCKET_TRANSPORT :: u32 where "SOCKET_TRANSPORT = push_bit TRANSPORT_SHIFT 3"
definition GENERIC_TRANSPORT :: u32 where "GENERIC_TRANSPORT = push_bit TRANSPORT_SHIFT 8"

definition ExtractTransport :: "u32 \<Rightarrow> u32" where
  "ExtractTransport h = h AND TRANSPORT_MASK"

definition ConvertCOM_ComPort :: "u32 \<Rightarrow> int" where
  "ConvertCOM_ComPort h = sint (h AND PORT_NUMBER_MASK) - 1"

section \<open>Transports\<close>

datatype transport_op =
    Op_Configure | Op_Initialize | Op_OpenStream | Op_CloseStream | Op_Uninitialize
  | Op_Write "u8 list" | Op_Read nat | Op_Flush

text \<open>A call of a transport other than the serial port, with the handle that selects its port or stream.\<close>

type_synonym transport_call = "u32 \<times> transport_op"

record com =
  serial :: usart
  transport_calls :: "transport_call list"

text \<open>
  The answers of the other transports: whether a call succeeds, how many bytes a write takes (not more than it is
  offered) or its error, and the bytes of a read with its result.
\<close>

record com_env =
  serial_env :: usart_env
  transport_bool :: "transport_call list \<Rightarrow> bool"
  transport_accepts :: "transport_call list \<Rightarrow> int"
  transport_data :: "transport_call list \<Rightarrow> int \<times> u8 list"

definition call :: "u32 \<Rightarrow> transport_op \<Rightarrow> com \<Rightarrow> com" where
  "call h f d = d\<lparr>transport_calls := transport_calls d @ [(h, f)]\<rparr>"

definition call_bool :: "com_env \<Rightarrow> u32 \<Rightarrow> transport_op \<Rightarrow> com \<Rightarrow> bool \<times> com" where
  "call_bool E h f d = (let d1 = call h f d in (transport_bool E (transport_calls d1), d1))"

definition DebuggerPort_Initialize :: "com_env \<Rightarrow> u32 \<Rightarrow> com \<Rightarrow> bool \<times> com" where
  "DebuggerPort_Initialize E h d =
     (let transport = ExtractTransport h in
      if transport = USART_TRANSPORT then
        (let (ok, u) = USART_Initialize (serial_env E) (ConvertCOM_ComPort h) 0 (serial d)
         in (ok, d\<lparr>serial := u\<rparr>))
      else if transport = USB_TRANSPORT then
        (let (ok, d1) = call_bool E h Op_Configure d in
         if \<not> ok then (False, d1)
         else let (ok, d2) = call_bool E h Op_Initialize d1 in
           if \<not> ok then (False, d2) else call_bool E h Op_OpenStream d2)
      else if transport = SOCKET_TRANSPORT \<or> transport = GENERIC_TRANSPORT then call_bool E h Op_Initialize d
      else (False, d))"

definition DebuggerPort_Uninitialize :: "com_env \<Rightarrow> u32 \<Rightarrow> com \<Rightarrow> bool \<times> com" where
  "DebuggerPort_Uninitialize E h d =
     (let transport = ExtractTransport h in
      if transport = USART_TRANSPORT then
        (let (ok, u) = USART_Uninitialize (serial_env E) (ConvertCOM_ComPort h) (serial d)
         in (ok, d\<lparr>serial := u\<rparr>))
      else if transport = USB_TRANSPORT then call_bool E h Op_Uninitialize (call h Op_CloseStream d)
      else if transport = SOCKET_TRANSPORT \<or> transport = GENERIC_TRANSPORT then call_bool E h Op_Uninitialize d
      else (False, d))"

section \<open>Writing\<close>

text \<open>One call of the driver; the first component of the result is \<open>ret\<close>.\<close>

definition transport_write :: "com_env \<Rightarrow> u32 \<Rightarrow> u8 list \<Rightarrow> com \<Rightarrow> int \<times> com" where
  "transport_write E h bs d =
     (let transport = ExtractTransport h in
      if transport = USART_TRANSPORT then
        (let (ret, u) = USART_Write (serial_env E) (ConvertCOM_ComPort h) (Some bs) (length bs) (serial d)
         in (ret, d\<lparr>serial := u\<rparr>))
      else if transport = USB_TRANSPORT \<or> transport = SOCKET_TRANSPORT \<or> transport = GENERIC_TRANSPORT then
        (let d1 = call h (Op_Write bs) d
         in (min (int (length bs)) (transport_accepts E (transport_calls d1)), d1))
      else (0, d))"

text \<open>While the caller waits for events, the transmit interrupt of the serial port may take characters.\<close>

definition wait_tx :: "com_env \<Rightarrow> u32 \<Rightarrow> com \<Rightarrow> com" where
  "wait_tx E h d =
     (let u = did (Events_WaitForEvents 0 1) (serial d) in
      d\<lparr>serial := if ExtractTransport h = USART_TRANSPORT
         then (send_next (ConvertCOM_ComPort h) ^^ tx_interrupts (serial_env E) (calls u)) u else u\<rparr>)"

text \<open>
  The loop of \<open>Write\<close>, with the bytes that are left, \<open>retries\<close> and \<open>totWrite\<close>. A write that takes
  nothing uses up a retry, one that takes something gives them all back.
\<close>

function write_retry :: "com_env \<Rightarrow> u32 \<Rightarrow> int \<Rightarrow> u8 list \<Rightarrow> int \<Rightarrow> int \<Rightarrow> com \<Rightarrow> int \<times> com" where
  "write_retry E h maxRetries bs retries totWrite d =
     (if bs = [] \<or> retries \<le> 0 then (totWrite, d)
      else let (ret, d1) = transport_write E h bs d in
        if ret < 0 then (totWrite, d1)
        else if ret = 0 then
          (let (on, u) = ask interrupts_enabled (serial_env E) (serial d1); d2 = d1\<lparr>serial := u\<rparr> in
           if \<not> on \<or> retries - 1 \<le> 0 then (totWrite, d2)
           else write_retry E h maxRetries bs (retries - 1) totWrite (wait_tx E h d2))
        else write_retry E h maxRetries (drop (nat ret) bs) (maxRetries + 1) (totWrite + ret) d1)"
  by pat_completeness auto
termination
  by (relation "measures [\<lambda>(E, h, m, bs, r, t, d). length bs, \<lambda>(E, h, m, bs, r, t, d). nat r]") auto

declare write_retry.simps [simp del]

definition DebuggerPort_Write :: "com_env \<Rightarrow> u32 \<Rightarrow> u8 list \<Rightarrow> int \<Rightarrow> com \<Rightarrow> int \<times> com" where
  "DebuggerPort_Write E h bs maxRetries d =
     (if ExtractTransport h = GENERIC_TRANSPORT \<and> bs \<noteq> [] \<and> 0 < maxRetries + 1 then transport_write E h bs d
      else write_retry E h maxRetries bs (maxRetries + 1) 0 d)"

definition default_retries :: int where "default_retries = 99"

section \<open>Reading and flushing\<close>

definition DebuggerPort_Read :: "com_env \<Rightarrow> u32 \<Rightarrow> nat \<Rightarrow> com \<Rightarrow> int \<times> u8 list \<times> com" where
  "DebuggerPort_Read E h sz d =
     (let transport = ExtractTransport h in
      if transport = USART_TRANSPORT then
        (let (ret, bs, u) = USART_Read (ConvertCOM_ComPort h) sz (serial d) in (ret, bs, d\<lparr>serial := u\<rparr>))
      else if transport = USB_TRANSPORT \<or> transport = SOCKET_TRANSPORT \<or> transport = GENERIC_TRANSPORT then
        (let d1 = call h (Op_Read sz) d; (ret, bs) = transport_data E (transport_calls d1) in (ret, bs, d1))
      else (0, [], d))"

definition DebuggerPort_Flush :: "com_env \<Rightarrow> u32 \<Rightarrow> com \<Rightarrow> (bool \<times> com) option" where
  "DebuggerPort_Flush E h d =
     (let transport = ExtractTransport h in
      if transport = USART_TRANSPORT then
        map_option (\<lambda>(ok, u). (ok, d\<lparr>serial := u\<rparr>)) (USART_Flush (serial_env E) (ConvertCOM_ComPort h) (serial d))
      else if transport = USB_TRANSPORT \<or> transport = SOCKET_TRANSPORT \<or> transport = GENERIC_TRANSPORT then
        Some (call_bool E h Op_Flush d)
      else Some (False, d))"

section \<open>The debugger port on a serial line\<close>

definition com_ok :: "u32 \<Rightarrow> com \<Rightarrow> bool" where
  "com_ok h d \<longleftrightarrow> ExtractTransport h = USART_TRANSPORT \<and> serial_ok (ConvertCOM_ComPort h) (serial d)"

definition com_input :: "u32 \<Rightarrow> com \<Rightarrow> u8 list" where
  "com_input h d = rx_contents (ConvertCOM_ComPort h) (serial d)"

definition com_output :: "u32 \<Rightarrow> com \<Rightarrow> u8 list" where
  "com_output h d = port_stream (ConvertCOM_ComPort h) (serial d)"

lemma wait_tx_keeps:
  assumes "com_ok h d"
  shows "com_ok h (wait_tx E h d) \<and> com_input h (wait_tx E h d) = com_input h d
    \<and> com_output h (wait_tx E h d) = com_output h d"
  using assms send_next_run_keeps[of "ConvertCOM_ComPort h" "did (Events_WaitForEvents 0 1) (serial d)"]
  by (simp add: wait_tx_def com_ok_def com_input_def com_output_def keeps_stream_def Let_def port_stream_def)

lemma write_retry_appends:
  assumes "com_ok h d"
  shows "\<exists>n d'. write_retry E h m bs r tot d = (tot + int n, d') \<and> n \<le> length bs \<and> com_ok h d'
    \<and> com_input h d' = com_input h d \<and> com_output h d' = com_output h d @ take n bs"
  using assms
proof (induction E h m bs r tot d rule: write_retry.induct)
  case (1 E h m bs r tot d)
  let ?p = "ConvertCOM_ComPort h"
  have tr: "ExtractTransport h = USART_TRANSPORT" using 1(3) by (simp add: com_ok_def)
  show ?case
  proof (cases "bs = [] \<or> r \<le> 0")
    case True
    then have "write_retry E h m bs r tot d = (tot + int 0, d)" by (simp add: write_retry.simps[of E h m bs])
    then show ?thesis using 1(3) by fastforce
  next
    case False
    obtain n u' where w: "USART_Write (serial_env E) ?p (Some bs) (length bs) (serial d) = (int n, u')"
      "n \<le> length bs" "serial_ok ?p u'" "rx_contents ?p u' = rx_contents ?p (serial d)"
      "port_stream ?p u' = port_stream ?p (serial d) @ take n bs"
      using serial_write[of ?p "serial d" bs "serial_env E"] 1(3) False by (auto simp: com_ok_def)
    let ?d1 = "d\<lparr>serial := u'\<rparr>"
    have tw: "transport_write E h bs d = (int n, ?d1)" using w(1) tr by (simp add: transport_write_def)
    have d1: "com_ok h ?d1" "com_input h ?d1 = com_input h d" "com_output h ?d1 = com_output h d @ take n bs"
      using w tr by (simp_all add: com_ok_def com_input_def com_output_def)
    show ?thesis
    proof (cases "n = 0")
      case True
      define d2 where "d2 = ?d1\<lparr>serial := did Ask_Hardware u'\<rparr>"
      have d2: "com_ok h d2" "com_input h d2 = com_input h d" "com_output h d2 = com_output h d"
        using d1 True by (simp_all add: d2_def com_ok_def com_input_def com_output_def port_stream_def)
      define on where "on = interrupts_enabled (serial_env E) (calls u')"
      have step: "write_retry E h m bs r tot d = (if \<not> on \<or> r - 1 \<le> 0 then (tot, d2)
          else write_retry E h m bs (r - 1) tot (wait_tx E h d2))"
        using False tw True by (subst write_retry.simps) (simp add: ask_def d2_def on_def Let_def)
      show ?thesis
      proof (cases "\<not> on \<or> r - 1 \<le> 0")
        case True
        then have "write_retry E h m bs r tot d = (tot + int 0, d2)" using step by auto
        then show ?thesis using d2 by fastforce
      next
        case go: False
        have "\<exists>n d'. write_retry E h m bs (r - 1) tot (wait_tx E h d2) = (tot + int n, d') \<and> n \<le> length bs
            \<and> com_ok h d' \<and> com_input h d' = com_input h (wait_tx E h d2)
            \<and> com_output h d' = com_output h (wait_tx E h d2) @ take n bs"
          using 1(1)[OF False tw[symmetric] _ _ _ _ _ refl] go True wait_tx_keeps[OF d2(1)]
          by (simp add: ask_def d2_def on_def)
        then show ?thesis using step go wait_tx_keeps[OF d2(1), of E] d2 by auto
      qed
    next
      case pos: False
      have step: "write_retry E h m bs r tot d
          = write_retry E h m (drop n bs) (m + 1) (tot + int n) ?d1"
        using False tw pos by (subst write_retry.simps) simp
      have "\<exists>k d'. write_retry E h m (drop n bs) (m + 1) (tot + int n) ?d1 = (tot + int n + int k, d')
          \<and> k \<le> length (drop n bs) \<and> com_ok h d' \<and> com_input h d' = com_input h ?d1
          \<and> com_output h d' = com_output h ?d1 @ take k (drop n bs)"
        using 1(2)[OF False tw[symmetric]] pos d1(1) by simp
      then obtain k d' where k: "write_retry E h m (drop n bs) (m + 1) (tot + int n) ?d1 = (tot + int n + int k, d')"
        "k \<le> length bs - n" "com_ok h d'" "com_input h d' = com_input h d"
        "com_output h d' = com_output h d @ take n bs @ take k (drop n bs)"
        using d1 by auto
      have "write_retry E h m bs r tot d = (tot + int (n + k), d')" using step k(1) by simp
      moreover have "take n bs @ take k (drop n bs) = take (n + k) bs" by (simp add: take_add)
      ultimately show ?thesis using k w(2) by (intro exI[of _ "n + k"] exI[of _ d']) simp
    qed
  qed
qed

lemma DebuggerPort_Write_appends:
  assumes "com_ok h d"
  shows "\<exists>n d'. DebuggerPort_Write E h bs m d = (int n, d') \<and> n \<le> length bs \<and> com_ok h d'
    \<and> com_input h d' = com_input h d \<and> com_output h d' = com_output h d @ take n bs"
proof -
  have "ExtractTransport h \<noteq> GENERIC_TRANSPORT"
    using assms by (simp add: com_ok_def USART_TRANSPORT_def GENERIC_TRANSPORT_def TRANSPORT_SHIFT_def push_bit_eq_mult)
  then show ?thesis using write_retry_appends[OF assms, of E m bs "m + 1" 0] by (simp add: DebuggerPort_Write_def)
qed

text \<open>The bytes that the transmit buffer of the port has room for.\<close>

definition com_room :: "u32 \<Rightarrow> com \<Rightarrow> nat" where
  "com_room h d = tx_room (ConvertCOM_ComPort h) (serial d)"

lemma DebuggerPort_Write_fits:
  assumes "com_ok h d" and "length bs \<le> com_room h d" and "0 \<le> m"
  obtains d' where "DebuggerPort_Write E h bs m d = (int (length bs), d')" "com_ok h d'"
    "com_input h d' = com_input h d" "com_output h d' = com_output h d @ bs"
    "com_room h d' = com_room h d - length bs"
proof -
  have tr: "ExtractTransport h = USART_TRANSPORT" "ExtractTransport h \<noteq> GENERIC_TRANSPORT"
    using assms(1) by (simp_all add: com_ok_def USART_TRANSPORT_def GENERIC_TRANSPORT_def TRANSPORT_SHIFT_def push_bit_eq_mult)
  show thesis
  proof (cases "bs = []")
    case True
    have "DebuggerPort_Write E h bs m d = (0, d)" using True tr by (simp add: DebuggerPort_Write_def write_retry.simps)
    then show thesis using that[of d] assms(1) True by simp
  next
    case False
    obtain u' where u': "USART_Write (serial_env E) (ConvertCOM_ComPort h) (Some bs) (length bs) (serial d) = (int (length bs), u')"
      "serial_ok (ConvertCOM_ComPort h) u'" "rx_contents (ConvertCOM_ComPort h) u' = com_input h d"
      "port_stream (ConvertCOM_ComPort h) u' = com_output h d @ bs"
      "tx_room (ConvertCOM_ComPort h) u' = com_room h d - length bs"
      using serial_write_fits[OF _ False, of "ConvertCOM_ComPort h" "serial d" "serial_env E"] assms
      by (auto simp: com_ok_def com_room_def com_input_def com_output_def)
    have "transport_write E h bs d = (int (length bs), d\<lparr>serial := u'\<rparr>)" using u'(1) tr by (simp add: transport_write_def)
    then have "write_retry E h m bs (m + 1) 0 d = write_retry E h m [] (m + 1) (int (length bs)) (d\<lparr>serial := u'\<rparr>)"
      using False assms(3) by (subst write_retry.simps) simp
    also have "\<dots> = (int (length bs), d\<lparr>serial := u'\<rparr>)" by (simp add: write_retry.simps)
    finally have "DebuggerPort_Write E h bs m d = (int (length bs), d\<lparr>serial := u'\<rparr>)"
      using tr by (simp add: DebuggerPort_Write_def)
    then show thesis
      by (rule that) (use u' tr in \<open>simp_all add: com_ok_def com_input_def com_output_def com_room_def\<close>)
  qed
qed

lemma DebuggerPort_Flush_keeps:
  assumes "com_ok h d" and "DebuggerPort_Flush E h d = Some (ok, d')"
  shows "com_ok h d' \<and> com_input h d' = com_input h d \<and> com_output h d' = com_output h d"
  using assms USART_Flush_keeps[of "serial_env E" "ConvertCOM_ComPort h" "serial d" ok]
  by (auto simp: DebuggerPort_Flush_def com_ok_def com_input_def com_output_def keeps_stream_def Let_def)

lemma DebuggerPort_Read_takes:
  assumes "com_ok h d"
  shows "\<exists>d'. DebuggerPort_Read E h n d
      = (int (length (take n (com_input h d))), take n (com_input h d), d')
    \<and> com_ok h d' \<and> com_input h d' = drop n (com_input h d) \<and> com_output h d' = com_output h d"
proof -
  obtain u' where "USART_Read (ConvertCOM_ComPort h) n (serial d)
      = (int (length (take n (com_input h d))), take n (com_input h d), u')"
    "rx_contents (ConvertCOM_ComPort h) u' = drop n (com_input h d)" "serial_ok (ConvertCOM_ComPort h) u'"
    "port_stream (ConvertCOM_ComPort h) u' = com_output h d"
    using serial_read[of "ConvertCOM_ComPort h" "serial d" n] assms
    by (auto simp: com_ok_def com_input_def com_output_def)
  then show ?thesis using assms
    by (simp add: DebuggerPort_Read_def com_ok_def com_input_def com_output_def Let_def)
qed

end
