(* ===== verification/Crc.thy ===== *)
theory Crc
  imports Prelude
begin

text \<open>
  \<^verbatim>\<open>Support/crc/CRC.cpp\<close>: the checksum of 32 bits, computed a byte at a time with a table. Shown
  here: the table computes the division by the generator polynomial bit by bit, and a change that is
  confined to four consecutive bytes always changes the checksum.
\<close>

section \<open>The code\<close>

definition c_CRCTable :: "u32 list" where
  "c_CRCTable = [
    0x00000000, 0x04C11DB7, 0x09823B6E, 0x0D4326D9, 0x130476DC, 0x17C56B6B, 0x1A864DB2, 0x1E475005,
    0x2608EDB8, 0x22C9F00F, 0x2F8AD6D6, 0x2B4BCB61, 0x350C9B64, 0x31CD86D3, 0x3C8EA00A, 0x384FBDBD,
    0x4C11DB70, 0x48D0C6C7, 0x4593E01E, 0x4152FDA9, 0x5F15ADAC, 0x5BD4B01B, 0x569796C2, 0x52568B75,
    0x6A1936C8, 0x6ED82B7F, 0x639B0DA6, 0x675A1011, 0x791D4014, 0x7DDC5DA3, 0x709F7B7A, 0x745E66CD,
    0x9823B6E0, 0x9CE2AB57, 0x91A18D8E, 0x95609039, 0x8B27C03C, 0x8FE6DD8B, 0x82A5FB52, 0x8664E6E5,
    0xBE2B5B58, 0xBAEA46EF, 0xB7A96036, 0xB3687D81, 0xAD2F2D84, 0xA9EE3033, 0xA4AD16EA, 0xA06C0B5D,
    0xD4326D90, 0xD0F37027, 0xDDB056FE, 0xD9714B49, 0xC7361B4C, 0xC3F706FB, 0xCEB42022, 0xCA753D95,
    0xF23A8028, 0xF6FB9D9F, 0xFBB8BB46, 0xFF79A6F1, 0xE13EF6F4, 0xE5FFEB43, 0xE8BCCD9A, 0xEC7DD02D,
    0x34867077, 0x30476DC0, 0x3D044B19, 0x39C556AE, 0x278206AB, 0x23431B1C, 0x2E003DC5, 0x2AC12072,
    0x128E9DCF, 0x164F8078, 0x1B0CA6A1, 0x1FCDBB16, 0x018AEB13, 0x054BF6A4, 0x0808D07D, 0x0CC9CDCA,
    0x7897AB07, 0x7C56B6B0, 0x71159069, 0x75D48DDE, 0x6B93DDDB, 0x6F52C06C, 0x6211E6B5, 0x66D0FB02,
    0x5E9F46BF, 0x5A5E5B08, 0x571D7DD1, 0x53DC6066, 0x4D9B3063, 0x495A2DD4, 0x44190B0D, 0x40D816BA,
    0xACA5C697, 0xA864DB20, 0xA527FDF9, 0xA1E6E04E, 0xBFA1B04B, 0xBB60ADFC, 0xB6238B25, 0xB2E29692,
    0x8AAD2B2F, 0x8E6C3698, 0x832F1041, 0x87EE0DF6, 0x99A95DF3, 0x9D684044, 0x902B669D, 0x94EA7B2A,
    0xE0B41DE7, 0xE4750050, 0xE9362689, 0xEDF73B3E, 0xF3B06B3B, 0xF771768C, 0xFA325055, 0xFEF34DE2,
    0xC6BCF05F, 0xC27DEDE8, 0xCF3ECB31, 0xCBFFD686, 0xD5B88683, 0xD1799B34, 0xDC3ABDED, 0xD8FBA05A,
    0x690CE0EE, 0x6DCDFD59, 0x608EDB80, 0x644FC637, 0x7A089632, 0x7EC98B85, 0x738AAD5C, 0x774BB0EB,
    0x4F040D56, 0x4BC510E1, 0x46863638, 0x42472B8F, 0x5C007B8A, 0x58C1663D, 0x558240E4, 0x51435D53,
    0x251D3B9E, 0x21DC2629, 0x2C9F00F0, 0x285E1D47, 0x36194D42, 0x32D850F5, 0x3F9B762C, 0x3B5A6B9B,
    0x0315D626, 0x07D4CB91, 0x0A97ED48, 0x0E56F0FF, 0x1011A0FA, 0x14D0BD4D, 0x19939B94, 0x1D528623,
    0xF12F560E, 0xF5EE4BB9, 0xF8AD6D60, 0xFC6C70D7, 0xE22B20D2, 0xE6EA3D65, 0xEBA91BBC, 0xEF68060B,
    0xD727BBB6, 0xD3E6A601, 0xDEA580D8, 0xDA649D6F, 0xC423CD6A, 0xC0E2D0DD, 0xCDA1F604, 0xC960EBB3,
    0xBD3E8D7E, 0xB9FF90C9, 0xB4BCB610, 0xB07DABA7, 0xAE3AFBA2, 0xAAFBE615, 0xA7B8C0CC, 0xA379DD7B,
    0x9B3660C6, 0x9FF77D71, 0x92B45BA8, 0x9675461F, 0x8832161A, 0x8CF30BAD, 0x81B02D74, 0x857130C3,
    0x5D8A9099, 0x594B8D2E, 0x5408ABF7, 0x50C9B640, 0x4E8EE645, 0x4A4FFBF2, 0x470CDD2B, 0x43CDC09C,
    0x7B827D21, 0x7F436096, 0x7200464F, 0x76C15BF8, 0x68860BFD, 0x6C47164A, 0x61043093, 0x65C52D24,
    0x119B4BE9, 0x155A565E, 0x18197087, 0x1CD86D30, 0x029F3D35, 0x065E2082, 0x0B1D065B, 0x0FDC1BEC,
    0x3793A651, 0x3352BBE6, 0x3E119D3F, 0x3AD08088, 0x2497D08D, 0x2056CD3A, 0x2D15EBE3, 0x29D4F654,
    0xC5A92679, 0xC1683BCE, 0xCC2B1D17, 0xC8EA00A0, 0xD6AD50A5, 0xD26C4D12, 0xDF2F6BCB, 0xDBEE767C,
    0xE3A1CBC1, 0xE760D676, 0xEA23F0AF, 0xEEE2ED18, 0xF0A5BD1D, 0xF464A0AA, 0xF9278673, 0xFDE69BC4,
    0x89B8FD09, 0x8D79E0BE, 0x803AC667, 0x84FBDBD0, 0x9ABC8BD5, 0x9E7D9662, 0x933EB0BB, 0x97FFAD0C,
    0xAFB010B1, 0xAB710D06, 0xA6322BDF, 0xA2F33668, 0xBCB4666D, 0xB8757BDA, 0xB5365D03, 0xB1F740B4]"

definition crc_update :: "u8 \<Rightarrow> u32 \<Rightarrow> u32" where
  "crc_update b crc =
     c_CRCTable ! unat ((drop_bit 24 crc XOR ucast b) AND 0xFF) XOR push_bit 8 crc"

text \<open>
  \<open>nLength\<close> is a signed integer; \<open>None\<close> is a read behind the end of the block.
\<close>

fun SUPPORT_ComputeCRC :: "u8 list \<Rightarrow> int \<Rightarrow> u32 \<Rightarrow> u32 option" where
  "SUPPORT_ComputeCRC [] nLength crc = (if 0 < nLength then None else Some crc)"
| "SUPPORT_ComputeCRC (b # bs) nLength crc =
     (if 0 < nLength then SUPPORT_ComputeCRC bs (nLength - 1) (crc_update b crc) else Some crc)"

section \<open>Division by the generator polynomial\<close>

definition crc_poly :: u32 where "crc_poly = 0x04C11DB7"

definition crc_shift :: "u32 \<Rightarrow> u32" where
  "crc_shift w = (if bit w 31 then 2 * w XOR crc_poly else 2 * w)"

definition crc_byte :: "u32 \<Rightarrow> u32" where
  "crc_byte w = (crc_shift ^^ 8) w"

definition crc_reference :: "u8 list \<Rightarrow> u32 \<Rightarrow> u32" where
  "crc_reference = fold (\<lambda>b crc. crc_byte (crc XOR push_bit 24 (ucast b)))"

lemma crc_shift_xor: "crc_shift (v XOR w) = crc_shift v XOR crc_shift w"
  by (rule bit_word_eqI) (auto simp: crc_shift_def bit_simps)

lemma crc_byte_xor: "crc_byte (v XOR w) = crc_byte v XOR crc_byte w"
proof -
  have "(crc_shift ^^ n) (v XOR w) = (crc_shift ^^ n) v XOR (crc_shift ^^ n) w" for n
    by (induction n) (simp_all add: crc_shift_xor)
  then show ?thesis by (simp add: crc_byte_def)
qed

text \<open>
  Entry \<open>2 k\<close> is entry \<open>k\<close> shifted, and an odd entry differs from the even one before it by the
  polynomial.
\<close>

fun table_ok :: "u32 list \<Rightarrow> u32 list \<Rightarrow> bool" where
  "table_ok (a # as) (b # c # bs) \<longleftrightarrow> crc_shift a = b \<and> b XOR crc_poly = c \<and> table_ok as bs"
| "table_ok as [] \<longleftrightarrow> True"
| "table_ok as bs \<longleftrightarrow> False"

lemma crc_shift_0 [simp]: "crc_shift 0 = 0"
  by (simp add: crc_shift_def)

lemma crc_shift_numeral [simp]:
  "crc_shift (numeral n) = (if bit (numeral n :: u32) 31 then 2 * numeral n XOR crc_poly
     else 2 * numeral n)"
  by (rule crc_shift_def)

lemma table_ok_table: "table_ok c_CRCTable c_CRCTable"
  by (simp add: c_CRCTable_def crc_poly_def bit_numeral_rec push_bit_eq_mult)

lemma table_okD:
  "table_ok as bs \<Longrightarrow> 2 * k < length bs \<Longrightarrow>
   bs ! (2 * k) = crc_shift (as ! k) \<and> bs ! (2 * k + 1) = bs ! (2 * k) XOR crc_poly"
proof (induction as bs arbitrary: k rule: table_ok.induct)
  case (1 a as b c bs)
  then show ?case by (cases k) auto
qed simp_all

lemma length_table [simp]: "length c_CRCTable = 256"
  by (simp add: c_CRCTable_def)

lemma crc_byte_shift: "crc_byte (crc_shift w) = crc_shift (crc_byte w)"
  by (simp add: crc_byte_def funpow_swap1)

lemma crc_byte_unfold:
  "crc_byte w = crc_shift (crc_shift (crc_shift (crc_shift (crc_shift (crc_shift (crc_shift (crc_shift w)))))))"
  by (simp add: crc_byte_def numeral_eq_Suc)

lemma crc_byte_unit: "crc_byte 0x1000000 = crc_poly" "crc_byte 0 = 0"
  by (simp_all add: crc_byte_unfold bit_numeral_rec crc_shift_def crc_poly_def)

lemma crc_byte_even:
  assumes "k < 128"
  shows "crc_byte (push_bit 24 (of_nat (2 * k))) = crc_shift (crc_byte (push_bit 24 (of_nat k)))"
proof -
  have "k div 2 ^ 7 = 0" using assms by simp
  then have "\<not> bit k 7" by (simp only: bit_iff_odd) simp
  then have "\<not> bit (push_bit 24 (of_nat k) :: u32) 31" by (simp only: bit_simps) simp
  moreover have "2 * push_bit 24 (of_nat k) = (push_bit 24 (of_nat (2 * k)) :: u32)"
    by (simp add: push_bit_eq_mult)
  ultimately have "crc_shift (push_bit 24 (of_nat k)) = push_bit 24 (of_nat (2 * k))"
    by (simp only: crc_shift_def) simp
  then show ?thesis by (metis crc_byte_shift)
qed

lemma crc_byte_odd:
  "crc_byte (push_bit 24 (of_nat (2 * k + 1))) = crc_byte (push_bit 24 (of_nat (2 * k))) XOR crc_poly"
proof -
  have "of_nat (2 * k + 1) = (of_nat (2 * k) XOR 1 :: u32)"
    by (simp add: xor_one_eq)
  then have "push_bit 24 (of_nat (2 * k + 1)) = (push_bit 24 (of_nat (2 * k)) XOR 0x1000000 :: u32)"
    by (simp only: push_bit_xor) simp
  then show ?thesis by (simp only: crc_byte_xor crc_byte_unit)
qed

lemma crc_table_entry: "i < 256 \<Longrightarrow> c_CRCTable ! i = crc_byte (push_bit 24 (of_nat i))"
proof (induction i rule: less_induct)
  case (less i)
  define k where "k = i div 2"
  note step = table_okD[OF table_ok_table, of k]
  have k: "k < 128" using less.prems by (simp add: k_def)
  have even: "c_CRCTable ! (2 * k) = crc_byte (push_bit 24 (of_nat (2 * k)))"
  proof (cases "k = 0")
    case True
    then show ?thesis by (simp add: crc_byte_unit c_CRCTable_def)
  next
    case False
    then have "k < i" by (simp add: k_def)
    then show ?thesis using less.IH[of k] k step by (simp add: crc_byte_even del: of_nat_mult)
  qed
  show ?case
  proof (cases "even i")
    case True
    then show ?thesis using even by (simp add: k_def)
  next
    case False
    then have "i = 2 * k + 1" by (simp add: k_def)
    then show ?thesis using even step k crc_byte_odd[of k] by simp
  qed
qed

lemma crc_byte_low:
  assumes "\<And>n. 32 - k \<le> n \<Longrightarrow> \<not> bit w n" and "k \<le> 8"
  shows "(crc_shift ^^ k) w = push_bit k w"
  using assms
proof (induction k arbitrary: w)
  case (Suc k)
  have "\<not> bit w 31" using Suc.prems by auto
  then have "crc_shift w = 2 * w" by (simp add: crc_shift_def)
  moreover have "(crc_shift ^^ k) (2 * w) = push_bit k (2 * w)"
    using Suc.prems by (intro Suc.IH) (auto simp: bit_double_iff)
  ultimately show ?case by (simp add: funpow_swap1 mult.commute)
qed simp

lemma byte_mask: "(0xFF :: u32) = mask 8"
  by (simp add: mask_eq_exp_minus_1)

lemma crc_update_reference: "crc_update b crc = crc_byte (crc XOR push_bit 24 (ucast b))"
proof -
  define hi :: u32 where "hi = drop_bit 24 crc XOR ucast b"
  define lo where "lo = take_bit 24 crc"
  have "crc XOR push_bit 24 (ucast b) = push_bit 24 hi XOR lo"
    by (rule bit_word_eqI) (auto simp: hi_def lo_def bit_simps)
  moreover have hi: "hi AND 0xFF = hi"
    by (rule bit_word_eqI) (auto simp: hi_def bit_simps byte_mask dest: bit_imp_le_length)
  moreover have "push_bit 8 crc = push_bit 8 lo"
    by (rule bit_word_eqI) (auto simp: lo_def bit_simps)
  moreover have "unat hi < 256"
    using word_and_le1[of hi "0xFF"] hi by (simp add: word_le_nat_alt)
  moreover have "crc_byte lo = push_bit 8 lo"
    unfolding crc_byte_def by (rule crc_byte_low) (auto simp: lo_def bit_simps)
  ultimately show ?thesis
    by (simp add: crc_update_def crc_table_entry crc_byte_xor flip: hi_def)
qed


lemma SUPPORT_ComputeCRC_fold:
  "nLength \<le> int (length bs) \<Longrightarrow>
   SUPPORT_ComputeCRC bs nLength crc = Some (fold crc_update (take (nat nLength) bs) crc)"
proof (induction bs nLength crc rule: SUPPORT_ComputeCRC.induct)
  case (2 b bs nLength crc)
  show ?case
  proof (cases "0 < nLength")
    case True
    then have "nat nLength = Suc (nat (nLength - 1))" by simp
    with 2 True show ?thesis by simp
  qed simp
qed simp

lemma SUPPORT_ComputeCRC_short: "int (length bs) < nLength \<Longrightarrow> SUPPORT_ComputeCRC bs nLength crc = None"
  by (induction bs nLength crc rule: SUPPORT_ComputeCRC.induct) auto

lemma crc_reference_update: "crc_reference bs crc = fold crc_update bs crc"
  by (simp add: crc_reference_def crc_update_reference[abs_def])

text \<open>
  C31. The checksum read from the table is the remainder of the division by the generator polynomial,
  computed bit by bit over the first \<open>nLength\<close> bytes.
\<close>

theorem table_checksum_is_polynomial_division:
  assumes "nLength \<le> int (length rgBlock)"
  shows "SUPPORT_ComputeCRC rgBlock nLength crc = Some (crc_reference (take (nat nLength) rgBlock) crc)"
  using SUPPORT_ComputeCRC_fold[OF assms] by (simp add: crc_reference_update)

lemma table_checksum_is_polynomial_division_witness:
  "SUPPORT_ComputeCRC [0x31, 0x32, 0x33] 3 0 = Some (crc_reference [0x31, 0x32, 0x33] 0)"
  using table_checksum_is_polynomial_division[of 3 "[0x31, 0x32, 0x33]" 0] by simp

section \<open>What the checksum detects\<close>

lemma crc_shift_zero: "crc_shift w = 0 \<longleftrightarrow> w = 0"
proof
  assume z: "crc_shift w = 0"
  have "\<not> bit w 31"
  proof
    assume b: "bit w 31"
    then have "2 * w XOR crc_poly = 0" using z by (simp add: crc_shift_def)
    then have "\<not> bit (2 * w XOR crc_poly) 0" by simp
    then show False by (simp add: bit_simps crc_poly_def)
  qed
  moreover from this z have "bit (2 * w) (Suc n) = False" for n by (simp add: crc_shift_def)
  ultimately have "\<not> bit w n" if "n < 32" for n
    using that by (cases "n = 31") (auto simp: bit_double_iff)
  then show "w = 0" by (intro bit_word_eqI) auto
qed simp

lemma word_xor_zero: "v XOR w = 0 \<longleftrightarrow> v = (w :: 'w::len word)"
  by (metis bit.xor_cancel_right bit.xor_left_self xor.right_neutral)

lemma crc_shift_inj: "crc_shift v = crc_shift w \<longleftrightarrow> v = w"
  by (metis crc_shift_xor crc_shift_zero word_xor_zero)

lemma crc_byte_inj [simp]: "crc_byte v = crc_byte w \<longleftrightarrow> v = w"
  by (simp add: crc_byte_unfold crc_shift_inj)

lemma word_xor_cancel [simp]: "v XOR c = w XOR c \<longleftrightarrow> v = (w :: 'w::len word)"
  by (metis bit.xor_cancel_right xor.assoc xor_self_eq xor.right_neutral)

lemma fold_update_inj: "fold crc_update bs v = fold crc_update bs w \<longleftrightarrow> v = w"
  by (induction bs arbitrary: v w) (simp_all add: crc_update_reference)

lemma crc_byte_up:
  assumes "k + 8 \<le> 24"
  shows "crc_byte (push_bit k (ucast (b :: u8))) = push_bit (k + 8) (ucast b)"
proof -
  have "\<not> bit (push_bit k (ucast b) :: u32) n" if "32 - 8 \<le> n" for n
    using that assms bit_imp_le_length[of b "n - k"] by (auto simp: bit_simps)
  then have "crc_byte (push_bit k (ucast b)) = push_bit 8 (push_bit k (ucast b))"
    unfolding crc_byte_def by (rule crc_byte_low) simp_all
  then show ?thesis by (simp only: push_bit_push_bit add.commute)
qed

fun word_of_4 :: "u8 list \<Rightarrow> u32" where
  "word_of_4 [a, b, c, d] = push_bit 24 (ucast a) XOR push_bit 16 (ucast b)
     XOR push_bit 8 (ucast c) XOR push_bit 0 (ucast d)"
| "word_of_4 bs = 0"

lemma fold_update_4:
  "fold crc_update [a, b, c, d] crc
     = crc_byte (crc_byte (crc_byte (crc_byte (crc XOR word_of_4 [a, b, c, d]))))"
  using crc_byte_up[of 16 b] crc_byte_up[of 8 c] crc_byte_up[of 16 c] crc_byte_up[of 0 d]
    crc_byte_up[of 8 d] crc_byte_up[of 16 d]
  by (simp add: crc_update_reference crc_byte_xor xor.assoc del: word_xor_cancel push_bit_of_0)

lemma bytes_of_word:
  fixes a b c d :: u8
  defines "w \<equiv> word_of_4 [a, b, c, d]"
  shows "ucast (drop_bit 24 w) = a" "ucast (drop_bit 16 w) = b" "ucast (drop_bit 8 w) = c" "ucast w = d"
  unfolding w_def by (rule bit_word_eqI, auto simp: bit_simps dest: bit_imp_le_length)+

lemma word_of_4_inj: "word_of_4 [a, b, c, d] = word_of_4 [a', b', c', d'] \<Longrightarrow> [a, b, c, d] = [a', b', c', d']"
  by (metis bytes_of_word)

lemma list_of_4: "length bs = 4 \<Longrightarrow> \<exists>a b c d. bs = [a, b, c, d]"
  by (auto simp: length_Suc_conv numeral_eq_Suc)

text \<open>
  C32. A change that is confined to four consecutive bytes of a block changes its checksum, wherever in the
  block the bytes are and whatever was summed up before.
\<close>

theorem checksum_detects_bursts:
  assumes "length burst = 4" and "length burst' = 4" and "burst \<noteq> burst'"
    and "nLength = int (length (before @ burst @ after))"
  shows "SUPPORT_ComputeCRC (before @ burst @ after) nLength crc
         \<noteq> SUPPORT_ComputeCRC (before @ burst' @ after) nLength crc"
proof -
  obtain a b c d where b: "burst = [a, b, c, d]" using list_of_4[OF assms(1)] by blast
  obtain a' b' c' d' where b': "burst' = [a', b', c', d']" using list_of_4[OF assms(2)] by blast
  have "fold crc_update burst w \<noteq> fold crc_update burst' w" for w
    using assms(3) word_of_4_inj unfolding b b' fold_update_4 by (auto simp: xor.commute[of w])
  then show ?thesis
    using assms by (simp add: SUPPORT_ComputeCRC_fold fold_update_inj)
qed

lemma checksum_detects_bursts_witness:
  "SUPPORT_ComputeCRC ([1] @ [0, 0, 0, 0x80] @ [2]) 6 0 \<noteq> SUPPORT_ComputeCRC ([1] @ [0x80, 0, 0, 0] @ [2]) 6 0"
  by (rule checksum_detects_bursts) simp_all

end
