(* ===== verification/Wire_Protocol.thy ===== *)
theory Wire_Protocol
  imports Crc
begin

text \<open>
  \<^verbatim>\<open>Support/WireProtocol/WireProtocol.cpp\<close> and \<^verbatim>\<open>Support/Include/WireProtocol.h\<close>: the protocol between
  the device and a host on the debugger port. A message is a header of 32 bytes with a checksum of its
  own and a payload with another one. The receiver is a state machine that is called whenever there may
  be input; the physical layer and the application are structures of function pointers. Trace output
  is not modelled.
\<close>

section \<open>Packets\<close>

definition MARKER_DEBUGGER_V1 :: "u8 list" where
  "MARKER_DEBUGGER_V1 = [0x4D, 0x53, 0x64, 0x62, 0x67, 0x56, 0x31, 0]"

definition MARKER_PACKET_V1 :: "u8 list" where
  "MARKER_PACKET_V1 = [0x4D, 0x53, 0x70, 0x6B, 0x74, 0x56, 0x31, 0]"

definition c_NonCritical :: u32 where "c_NonCritical = 0x0001"
definition c_Reply :: u32 where "c_Reply = 0x0002"
definition c_BadHeader :: u32 where "c_BadHeader = 0x0004"
definition c_BadPayload :: u32 where "c_BadPayload = 0x0008"
definition c_NoCaching :: u32 where "c_NoCaching = 0x2000"
definition c_NACK :: u32 where "c_NACK = 0x4000"
definition c_ACK :: u32 where "c_ACK = 0x8000"

record WP_Packet =
  m_signature :: "u8 list"
  m_crcHeader :: u32
  m_crcData :: u32
  m_cmd :: u32
  m_seq :: u16
  m_seqReply :: u16
  m_flags :: u32
  m_size :: u32

definition sizeof_packet :: nat where "sizeof_packet = 32"
definition sizeof_signature :: nat where "sizeof_signature = 8"

text \<open>The structure in memory, on a processor that stores the low byte first.\<close>

definition packet_bytes :: "WP_Packet \<Rightarrow> u8 list" where
  "packet_bytes p = m_signature p @ word_bytes 4 (m_crcHeader p) @ word_bytes 4 (m_crcData p)
     @ word_bytes 4 (m_cmd p) @ word_bytes 2 (m_seq p) @ word_bytes 2 (m_seqReply p)
     @ word_bytes 4 (m_flags p) @ word_bytes 4 (m_size p)"

definition bytes_packet :: "u8 list \<Rightarrow> WP_Packet" where
  "bytes_packet bs = \<lparr>m_signature = take 8 bs, m_crcHeader = bytes_word (take 4 (drop 8 bs)),
     m_crcData = bytes_word (take 4 (drop 12 bs)), m_cmd = bytes_word (take 4 (drop 16 bs)),
     m_seq = bytes_word (take 2 (drop 20 bs)), m_seqReply = bytes_word (take 2 (drop 22 bs)),
     m_flags = bytes_word (take 4 (drop 24 bs)), m_size = bytes_word (take 4 (drop 28 bs))\<rparr>"

definition zero_packet :: WP_Packet where
  "zero_packet = bytes_packet (replicate sizeof_packet 0)"

section \<open>Messages and controllers\<close>

datatype ReceiveState =
    Idle | Initialize | WaitingForHeader | ReadingHeader | CompleteHeader | ReadingPayload
  | CompletePayload | Other int

definition c_PayloadTimeout :: u64 where "c_PayloadTimeout = 60000000"

text \<open>\<open>m_pos\<close> points nowhere, into the header or into the payload.\<close>

datatype rx_pos = NoPos | HeaderPos nat | PayloadPos nat

text \<open>\<open>m_left\<close> is the member \<^verbatim>\<open>m_size\<close> of \<^verbatim>\<open>WP_Message\<close>: the bytes that are still to come.\<close>

record WP_Message =
  m_header :: WP_Packet
  m_payload :: "u8 list option"
  m_pos :: rx_pos
  m_left :: u32
  m_payloadTicks :: u64
  m_rxState :: ReceiveState

record 's WP_Controller =
  m_szMarker :: "u8 list option"
  m_state :: 's
  m_inboundMessage :: WP_Message
  m_lastOutboundMessage :: u16

text \<open>
  The two layers. \<open>ReceiveBytes\<close> gets the number of bytes wanted and returns the bytes it wrote at the
  pointer, which it moves behind them. The callbacks of the application get the message that is received,
  and the state, through which they reach the controller. \<open>None\<close> is a call that does not return.
\<close>

record 's WP_PhysicalLayer =
  ReceiveBytes :: "'s \<Rightarrow> u32 \<Rightarrow> bool \<times> u8 list \<times> 's"
  TransmitMessage :: "'s \<Rightarrow> WP_Message \<Rightarrow> (bool \<times> 's) option"

record 's WP_ApplicationLayer =
  App_Header :: "'s WP_Controller \<Rightarrow> (bool \<times> 's WP_Controller) option"
  App_Payload :: "'s WP_Controller \<Rightarrow> (bool \<times> 's WP_Controller) option"
  App_Free :: "'s WP_Controller \<Rightarrow> (bool \<times> 's WP_Controller) option"

text \<open>The clock of the HAL is read from the state of the device.\<close>

record 's wp_env =
  m_phy :: "'s WP_PhysicalLayer"
  m_app :: "'s WP_ApplicationLayer"
  HAL_Time_CurrentTicks :: "'s \<Rightarrow> u64"
  HAL_Time_TicksToTime :: "u64 \<Rightarrow> u64"

definition on_inbound :: "(WP_Message \<Rightarrow> WP_Message) \<Rightarrow> 's WP_Controller \<Rightarrow> 's WP_Controller" where
  "on_inbound f c = c\<lparr>m_inboundMessage := f (m_inboundMessage c)\<rparr>"

section \<open>Operations of a message\<close>

definition Message_Initialize :: WP_Message where
  "Message_Initialize = \<lparr>m_header = zero_packet, m_payload = None, m_pos = NoPos, m_left = 0,
     m_payloadTicks = 0, m_rxState = Idle\<rparr>"

definition PrepareReception :: "WP_Message \<Rightarrow> WP_Message" where
  "PrepareReception msg = msg\<lparr>m_rxState := Initialize\<rparr>"

definition buffer_bytes :: "u8 list option \<Rightarrow> u8 list" where
  "buffer_bytes payload = (case payload of None \<Rightarrow> [] | Some bs \<Rightarrow> bs)"

definition header_crc :: "WP_Packet \<Rightarrow> u32 option" where
  "header_crc p = SUPPORT_ComputeCRC (packet_bytes (p\<lparr>m_crcHeader := 0\<rparr>)) (int sizeof_packet) 0"

definition marker_of :: "'s WP_Controller \<Rightarrow> u8 list" where
  "marker_of c = take sizeof_signature
     (case m_szMarker c of None \<Rightarrow> MARKER_PACKET_V1 | Some s \<Rightarrow> s)"

definition PrepareRequest ::
    "u32 \<Rightarrow> u32 \<Rightarrow> u32 \<Rightarrow> u8 list option \<Rightarrow> 's WP_Controller \<Rightarrow> WP_Message
     \<Rightarrow> ('s WP_Controller \<times> WP_Message) option" where
  "PrepareRequest cmd flags payloadSize payload c msg =
     Option.bind (SUPPORT_ComputeCRC (buffer_bytes payload) (sint payloadSize) 0) (\<lambda>crcData.
       let h = \<lparr>m_signature = marker_of c, m_crcHeader = 0, m_crcData = crcData, m_cmd = cmd,
                m_seq = m_lastOutboundMessage c, m_seqReply = 0, m_flags = flags,
                m_size = payloadSize\<rparr>;
           c' = c\<lparr>m_lastOutboundMessage := m_lastOutboundMessage c + 1\<rparr>
       in map_option (\<lambda>crc. (c', msg\<lparr>m_header := h\<lparr>m_crcHeader := crc\<rparr>, m_payload := payload\<rparr>))
            (header_crc h))"

definition PrepareReply ::
    "WP_Packet \<Rightarrow> u32 \<Rightarrow> u32 \<Rightarrow> u8 list option \<Rightarrow> 's WP_Controller \<Rightarrow> WP_Message
     \<Rightarrow> ('s WP_Controller \<times> WP_Message) option" where
  "PrepareReply req flags payloadSize payload c msg =
     Option.bind (SUPPORT_ComputeCRC (buffer_bytes payload) (sint payloadSize) 0) (\<lambda>crcData.
       let h = \<lparr>m_signature = marker_of c, m_crcHeader = 0, m_crcData = crcData, m_cmd = m_cmd req,
                m_seq = m_lastOutboundMessage c, m_seqReply = m_seq req, m_flags = flags OR c_Reply,
                m_size = payloadSize\<rparr>;
           c' = c\<lparr>m_lastOutboundMessage := m_lastOutboundMessage c + 1\<rparr>
       in map_option (\<lambda>crc. (c', msg\<lparr>m_header := h\<lparr>m_crcHeader := crc\<rparr>, m_payload := payload\<rparr>))
            (header_crc h))"

definition SetPayload :: "u8 list option \<Rightarrow> WP_Message \<Rightarrow> WP_Message" where
  "SetPayload payload msg = msg\<lparr>m_payload := payload\<rparr>"

definition Message_Release :: "'s wp_env \<Rightarrow> 's WP_Controller \<Rightarrow> 's WP_Controller option" where
  "Message_Release env c =
     (if m_payload (m_inboundMessage c) \<noteq> None then
        map_option (\<lambda>(r, c'). on_inbound (\<lambda>m. m\<lparr>m_payload := None\<rparr>) c') (App_Free (m_app env) c)
      else Some c)"

definition VerifyHeader :: "WP_Message \<Rightarrow> bool" where
  "VerifyHeader msg \<longleftrightarrow> header_crc (m_header msg) = Some (m_crcHeader (m_header msg))"

definition VerifyPayload :: "WP_Message \<Rightarrow> bool option" where
  "VerifyPayload msg =
     (if m_payload msg = None \<and> m_size (m_header msg) \<noteq> 0 then Some False
      else map_option (\<lambda>crc. crc = m_crcData (m_header msg))
             (SUPPORT_ComputeCRC (buffer_bytes (m_payload msg)) (sint (m_size (m_header msg))) 0))"

section \<open>Sending\<close>

definition SendMessage ::
    "'s WP_PhysicalLayer \<Rightarrow> WP_Message \<Rightarrow> 's WP_Controller \<Rightarrow> (bool \<times> 's WP_Controller) option" where
  "SendMessage phy msg c =
     map_option (\<lambda>(ok, s). (ok, c\<lparr>m_state := s\<rparr>)) (TransmitMessage phy (m_state c) msg)"

definition SendProtocolMessage ::
    "'s WP_PhysicalLayer \<Rightarrow> u32 \<Rightarrow> u32 \<Rightarrow> u32 \<Rightarrow> u8 list option \<Rightarrow> 's WP_Controller
     \<Rightarrow> (bool \<times> 's WP_Controller) option" where
  "SendProtocolMessage phy cmd flags payloadSize payload c =
     Option.bind (PrepareRequest cmd flags payloadSize payload c Message_Initialize)
       (\<lambda>(c', msg). SendMessage phy msg c')"

definition ReplyBadPacket :: "'s wp_env \<Rightarrow> u32 \<Rightarrow> 's WP_Controller \<Rightarrow> 's WP_Controller option" where
  "ReplyBadPacket env flags c =
     Option.bind (PrepareRequest 0 (c_NonCritical OR c_NACK OR flags) 0 None c Message_Initialize)
       (\<lambda>(c', msg). map_option snd (SendMessage (m_phy env) msg c'))"

section \<open>Receiving\<close>

text \<open>Bytes arrive at \<open>m_pos\<close>; \<open>None\<close> is a write outside the header or the payload buffer.\<close>

definition store_bytes :: "u8 list \<Rightarrow> WP_Message \<Rightarrow> WP_Message option" where
  "store_bytes bs msg =
     (case m_pos msg of
        NoPos \<Rightarrow> (if bs = [] then Some msg else None)
      | HeaderPos i \<Rightarrow>
          (if i + length bs \<le> sizeof_packet then
             (let old = packet_bytes (m_header msg)
              in Some (msg\<lparr>m_header := bytes_packet (take i old @ bs @ drop (i + length bs) old),
                           m_pos := HeaderPos (i + length bs)\<rparr>))
           else None)
      | PayloadPos i \<Rightarrow>
          (case m_payload msg of
             None \<Rightarrow> (if bs = [] then Some msg else None)
           | Some old \<Rightarrow>
               (if i + length bs \<le> length old then
                  Some (msg\<lparr>m_payload := Some (take i old @ bs @ drop (i + length bs) old),
                            m_pos := PayloadPos (i + length bs)\<rparr>)
                else None)))"

definition receive :: "'s wp_env \<Rightarrow> 's WP_Controller \<Rightarrow> (bool \<times> 's WP_Controller) option" where
  "receive env c =
     (let (ok, bs, s) = ReceiveBytes (m_phy env) (m_state c) (m_left (m_inboundMessage c))
      in map_option (\<lambda>msg. (ok, c\<lparr>m_state := s,
                      m_inboundMessage := msg\<lparr>m_left := m_left msg - of_nat (length bs)\<rparr>\<rparr>))
           (store_bytes bs (m_inboundMessage c)))"

text \<open>
  The inner loop of \<open>WaitingForHeader\<close>: while the bytes that are there are not the beginning of a marker,
  the first one is dropped. The result is \<open>len\<close> with the message.
\<close>

definition rx_len :: "WP_Message \<Rightarrow> int" where
  "rx_len msg = sint (of_nat sizeof_packet - m_left msg)"

definition back_one :: "rx_pos \<Rightarrow> rx_pos" where
  "back_one p = (case p of NoPos \<Rightarrow> NoPos | HeaderPos i \<Rightarrow> HeaderPos (i - 1)
     | PayloadPos i \<Rightarrow> PayloadPos (i - 1))"

definition at_marker :: "nat \<Rightarrow> u8 list \<Rightarrow> bool" where
  "at_marker lenCmp bs \<longleftrightarrow> take lenCmp bs = take lenCmp MARKER_DEBUGGER_V1
     \<or> take lenCmp bs = take lenCmp MARKER_PACKET_V1"

definition drop_byte :: "WP_Message \<Rightarrow> WP_Message" where
  "drop_byte msg =
     (let buf = packet_bytes (m_header msg); n = nat (rx_len msg) - 1
      in msg\<lparr>m_header := bytes_packet (take n (drop 1 buf) @ drop n buf),
             m_pos := back_one (m_pos msg), m_left := m_left msg + 1\<rparr>)"

lemma sint_minus_one_pos:
  assumes "0 < sint (w :: 'w::len word)"
  shows "sint (w - 1) = sint w - 1"
proof -
  have "w - 1 = word_of_int (sint w - 1)" by (simp add: of_int_diff)
  moreover have "- (2 ^ (LENGTH('w) - 1)) \<le> sint w - 1" using assms
    by (smt (verit) zero_le_power)
  moreover have "sint w - 1 < 2 ^ (LENGTH('w) - 1)" using sint_lt[of w] by linarith
  ultimately show ?thesis by (simp only: sint_sbintrunc' signed_take_bit_int_eq_self)
qed

lemma rx_len_drop_byte:
  assumes "0 < rx_len msg"
  shows "rx_len (drop_byte msg) = rx_len msg - 1"
proof -
  have "sint (of_nat sizeof_packet - m_left msg - 1) = sint (of_nat sizeof_packet - m_left msg) - 1"
    using assms by (intro sint_minus_one_pos) (simp add: rx_len_def)
  then show ?thesis by (simp add: rx_len_def drop_byte_def Let_def algebra_simps)
qed

function synch :: "WP_Message \<Rightarrow> int \<times> WP_Message" where
  "synch msg =
     (let len = rx_len msg in
      if len \<le> 0 then (len, msg)
      else if at_marker (min (nat len) sizeof_signature) (packet_bytes (m_header msg)) then (len, msg)
      else synch (drop_byte msg))"
  by auto
termination by (relation "measure (\<lambda>msg. nat (rx_len msg))") (auto simp: rx_len_drop_byte)

declare synch.simps [simp del]


definition set_rx :: "ReceiveState \<Rightarrow> 's WP_Controller \<Rightarrow> 's WP_Controller" where
  "set_rx st = on_inbound (\<lambda>m. m\<lparr>m_rxState := st\<rparr>)"

text \<open>
  One turn of the loop of \<open>Process\<close>, a definition for each state. The first component of the result is
  the value \<open>Process\<close> returns, or \<open>None\<close> when the loop goes on.
\<close>

type_synonym 's turn = "(bool option \<times> 's WP_Controller) option"

definition turn_Initialize :: "'s wp_env \<Rightarrow> 's WP_Controller \<Rightarrow> 's turn" where
  "turn_Initialize env c =
     map_option (\<lambda>c'. (None, on_inbound (\<lambda>m. m\<lparr>m_rxState := WaitingForHeader, m_pos := HeaderPos 0,
                                          m_left := of_nat sizeof_packet\<rparr>) c'))
       (Message_Release env c)"

definition turn_WaitingForHeader :: "'s wp_env \<Rightarrow> 's WP_Controller \<Rightarrow> 's turn" where
  "turn_WaitingForHeader env c =
     map_option (\<lambda>(ok, c').
       if \<not> ok then (Some True, c')
       else (let (len, msg) = synch (m_inboundMessage c'); c'' = on_inbound (\<lambda>_. msg) c'
             in (None, if of_nat sizeof_signature \<le> (word_of_int len :: u32) then set_rx ReadingHeader c''
                       else c''))) (receive env c)"

definition turn_ReadingHeader :: "'s wp_env \<Rightarrow> 's WP_Controller \<Rightarrow> 's turn" where
  "turn_ReadingHeader env c =
     map_option (\<lambda>(ok, c').
       if \<not> ok then (Some True, c')
       else (None, if m_left (m_inboundMessage c') = 0 then set_rx CompleteHeader c' else c'))
       (receive env c)"

definition after_header :: "'s wp_env \<Rightarrow> 's WP_Controller \<Rightarrow> 's WP_Controller" where
  "after_header env c =
     (let msg = m_inboundMessage c in
      if m_size (m_header msg) \<noteq> 0 then
        (if m_payload msg = None then set_rx Initialize c
         else on_inbound (\<lambda>m. m\<lparr>m_payloadTicks := HAL_Time_CurrentTicks env (m_state c),
                m_rxState := ReadingPayload, m_pos := PayloadPos 0, m_left := m_size (m_header msg)\<rparr>) c)
      else set_rx CompletePayload c)"

definition bad_header :: "'s wp_env \<Rightarrow> 's WP_Controller \<Rightarrow> 's WP_Controller option" where
  "bad_header env c =
     map_option (set_rx Initialize)
       (if m_flags (m_header (m_inboundMessage c)) AND c_NonCritical = 0
        then ReplyBadPacket env c_BadHeader c else Some c)"

definition turn_CompleteHeader :: "'s wp_env \<Rightarrow> 's WP_Controller \<Rightarrow> 's turn" where
  "turn_CompleteHeader env c =
     map_option (\<lambda>c'. (None, c'))
       (if VerifyHeader (m_inboundMessage c) then
          Option.bind (App_Header (m_app env) c)
            (\<lambda>(ok, c'). if ok then Some (after_header env c') else bad_header env c')
        else bad_header env c)"

definition turn_ReadingPayload :: "'s wp_env \<Rightarrow> 's WP_Controller \<Rightarrow> 's turn" where
  "turn_ReadingPayload env c =
     (let curTicks = HAL_Time_CurrentTicks env (m_state c) in
      if HAL_Time_TicksToTime env (curTicks - m_payloadTicks (m_inboundMessage c)) < c_PayloadTimeout then
        map_option (\<lambda>(ok, c').
          if \<not> ok then (Some True, c')
          else (None, if m_left (m_inboundMessage c') = 0 then set_rx CompletePayload c' else c'))
          (receive env (on_inbound (\<lambda>m. m\<lparr>m_payloadTicks := curTicks\<rparr>) c))
      else Some (None, set_rx Initialize c))"

definition turn_CompletePayload :: "'s wp_env \<Rightarrow> 's WP_Controller \<Rightarrow> 's turn" where
  "turn_CompletePayload env c =
     Option.bind (VerifyPayload (m_inboundMessage c)) (\<lambda>ok.
       map_option (\<lambda>c'. (None, set_rx Initialize c'))
         (if ok then map_option snd (App_Payload (m_app env) c)
          else ReplyBadPacket env c_BadPayload c))"

definition process_turn :: "'s wp_env \<Rightarrow> 's WP_Controller \<Rightarrow> 's turn" where
  "process_turn env c =
     (case m_rxState (m_inboundMessage c) of
        Idle \<Rightarrow> Some (Some True, c)
      | Initialize \<Rightarrow> turn_Initialize env c
      | WaitingForHeader \<Rightarrow> turn_WaitingForHeader env c
      | ReadingHeader \<Rightarrow> turn_ReadingHeader env c
      | CompleteHeader \<Rightarrow> turn_CompleteHeader env c
      | ReadingPayload \<Rightarrow> turn_ReadingPayload env c
      | CompletePayload \<Rightarrow> turn_CompletePayload env c
      | Other i \<Rightarrow> Some (Some False, c))"

partial_function (option) Process :: "'s wp_env \<Rightarrow> 's WP_Controller \<Rightarrow> (bool \<times> 's WP_Controller) option"
where
  "Process env c =
     Option.bind (process_turn env c)
       (\<lambda>(r, c'). case r of Some b \<Rightarrow> Some (b, c') | None \<Rightarrow> Process env c')"

section \<open>The controller\<close>

definition Controller_Initialize :: "u8 list option \<Rightarrow> 's \<Rightarrow> 's WP_Controller" where
  "Controller_Initialize szMarker s =
     \<lparr>m_szMarker = szMarker, m_state = s, m_inboundMessage = PrepareReception Message_Initialize,
      m_lastOutboundMessage = 0\<rparr>"

definition AdvanceState :: "'s wp_env \<Rightarrow> 's WP_Controller \<Rightarrow> (bool \<times> 's WP_Controller) option" where
  "AdvanceState env c = Process env c"

end
