(* ===== verification/Wire_Receiver.thy ===== *)
theory Wire_Receiver
  imports Wire_Protocol
begin

text \<open>
  What the receiver of \<open>Wire_Protocol\<close> does with a stream of bytes. The locale \<open>wire_layers\<close> holds
  what it relies on: the physical layer hands over the bytes that wait at the port, in any pieces, and the
  callbacks of the application return. Shown under it: every call returns and writes only inside
  its buffers; a packet is delivered with its payload whatever precedes it, unless a marker begins
  there.
\<close>

section \<open>Packets and bytes\<close>

lemma length_packet_bytes [simp]: "length (packet_bytes p) = 24 + length (m_signature p)"
  by (simp add: packet_bytes_def)

lemma bytes_packet_packet_bytes:
  "length (m_signature p) = 8 \<Longrightarrow> bytes_packet (packet_bytes p) = p"
  using bytes_word_word_bytes[of 4 "m_crcHeader p"] bytes_word_word_bytes[of 4 "m_crcData p"]
    bytes_word_word_bytes[of 4 "m_cmd p"] bytes_word_word_bytes[of 4 "m_flags p"]
    bytes_word_word_bytes[of 4 "m_size p"] bytes_word_word_bytes[of 2 "m_seq p"]
    bytes_word_word_bytes[of 2 "m_seqReply p"]
  by (cases p) (simp add: bytes_packet_def packet_bytes_def)

lemma append_take_drop_more: "k \<le> n \<Longrightarrow> take (n - k) (drop k xs) @ drop n xs = drop k xs"
  by (metis append_take_drop_id drop_drop le_add_diff_inverse2)

lemma packet_bytes_bytes_packet:
  assumes "length bs = 32"
  shows "packet_bytes (bytes_packet bs) = bs"
proof -
  have w4: "word_bytes 4 (bytes_word (take 4 (drop k bs)) :: u32) = take 4 (drop k bs)" if "k \<le> 28" for k
    using assms that by (intro word_bytes_bytes_word) simp_all
  have w2: "word_bytes 2 (bytes_word (take 2 (drop k bs)) :: u16) = take 2 (drop k bs)" if "k \<le> 28" for k
    using assms that by (intro word_bytes_bytes_word) simp_all
  have step: "take n (drop k bs) @ drop (n + k) bs = drop k bs" for n k
    by (metis append_take_drop_id drop_drop)
  have last: "take 4 (drop 28 bs) = drop 28 bs"
    "word_bytes 4 (bytes_word (drop 28 bs) :: u32) = drop 28 bs"
    using assms by (simp_all add: word_bytes_bytes_word)
  show ?thesis
    using step[of 4 8] step[of 4 12] step[of 4 16] step[of 2 20] step[of 2 22] step[of 4 24]
    by (simp add: packet_bytes_def bytes_packet_def w4 w2 last)
qed

lemma length_signature_bytes_packet [simp]: "8 \<le> length bs \<Longrightarrow> length (m_signature (bytes_packet bs)) = 8"
  by (simp add: bytes_packet_def)

lemma header_crc_total: "length (m_signature p) = 8 \<Longrightarrow> \<exists>crc. header_crc p = Some crc"
  by (simp add: header_crc_def SUPPORT_ComputeCRC_fold sizeof_packet_def)

section \<open>Synchronisation on a list of bytes\<close>

text \<open>The longest end of the received bytes that may still become a marker.\<close>

fun resync :: "u8 list \<Rightarrow> u8 list" where
  "resync [] = []"
| "resync (b # bs) = (if at_marker (min (length (b # bs)) 8) (b # bs) then b # bs else resync bs)"

lemma at_marker_prefix: "at_marker n bs \<Longrightarrow> k \<le> n \<Longrightarrow> at_marker k bs"
  by (auto simp: at_marker_def) (metis min.absorb1 take_take)+

lemma at_marker_append: "n \<le> length bs \<Longrightarrow> at_marker n (bs @ cs) = at_marker n bs"
  by (simp add: at_marker_def)

lemma at_marker_long: "8 \<le> n \<Longrightarrow> at_marker n bs \<Longrightarrow> at_marker 8 bs"
  by (rule at_marker_prefix)

lemma resync_marked: "resync bs = [] \<or> at_marker (min (length (resync bs)) 8) (resync bs)"
  by (induction bs) auto

lemma resync_id: "bs = [] \<or> at_marker (min (length bs) 8) bs \<Longrightarrow> resync bs = bs"
  by (cases bs) auto

lemma resync_length: "length (resync bs) \<le> length bs"
  by (induction bs) auto

text \<open>It does not matter in which pieces the bytes arrive.\<close>

lemma resync_append: "resync (resync xs @ ys) = resync (xs @ ys)"
proof (induction xs)
  case (Cons x xs)
  show ?case
  proof (cases "at_marker (min (length (x # xs)) 8) (x # xs)")
    case True
    then show ?thesis by simp
  next
    case False
    have "at_marker (min (length (x # xs)) 8) ((x # xs) @ ys) = at_marker (min (length (x # xs)) 8) (x # xs)"
      by (rule at_marker_append) simp
    moreover have "min (length (x # xs)) 8 \<le> min (length (x # xs @ ys)) 8" by simp
    ultimately have "\<not> at_marker (min (length (x # xs @ ys)) 8) (x # xs @ ys)"
      using False at_marker_prefix[of "min (length (x # xs @ ys)) 8" "x # xs @ ys" "min (length (x # xs)) 8"]
      by fastforce
    with False Cons show ?thesis by simp
  qed
qed simp

text \<open>Bytes in which no marker begins are dropped.\<close>

lemma resync_junk:
  assumes "\<And>i. i < length junk \<Longrightarrow> \<not> at_marker 8 (drop i (junk @ bs))" and "8 \<le> length bs"
  shows "resync (junk @ bs) = resync bs"
  using assms
proof (induction junk)
  case (Cons j junk)
  have "\<not> at_marker 8 (drop i (junk @ bs))" if "i < length junk" for i
    using Cons.prems(1)[of "Suc i"] that by simp
  moreover have "\<not> at_marker (min (length (j # junk @ bs)) 8) (j # junk @ bs)"
    using Cons.prems(1)[of 0] Cons.prems(2) by (simp add: min_def)
  ultimately show ?case using Cons by simp
qed simp

section \<open>The part of the header that has arrived\<close>

definition rx_bytes :: "WP_Message \<Rightarrow> u8 list" where
  "rx_bytes msg = take (32 - unat (m_left msg)) (packet_bytes (m_header msg))"

definition header_phase :: "WP_Message \<Rightarrow> bool" where
  "header_phase msg \<longleftrightarrow> length (m_signature (m_header msg)) = 8 \<and> unat (m_left msg) \<le> 32
     \<and> m_pos msg = HeaderPos (32 - unat (m_left msg))"

lemma length_rx_bytes: "header_phase msg \<Longrightarrow> length (rx_bytes msg) = 32 - unat (m_left msg)"
  by (simp add: header_phase_def rx_bytes_def)

lemma rx_bytes_all:
  "header_phase msg \<Longrightarrow> m_left msg = 0 \<Longrightarrow> m_header msg = bytes_packet (rx_bytes msg)"
  by (simp add: header_phase_def rx_bytes_def bytes_packet_packet_bytes)

lemma sint_small: "n < 2 ^ 31 \<Longrightarrow> sint (of_nat n :: u32) = int n"
  using sint_sbintrunc'[of "int n", where 'a=32] by (simp add: signed_take_bit_int_eq_self)

lemma rx_len_header:
  assumes "header_phase msg"
  shows "rx_len msg = int (length (rx_bytes msg))"
proof -
  have "unat (m_left msg) \<le> 32" using assms by (simp add: header_phase_def)
  then have "of_nat sizeof_packet - m_left msg = of_nat (32 - unat (m_left msg))"
    by (simp add: sizeof_packet_def of_nat_diff)
  then show ?thesis using assms by (simp add: rx_len_def length_rx_bytes sint_small)
qed

text \<open>Bytes that arrive in the header are appended.\<close>

definition received :: "u8 list \<Rightarrow> WP_Message \<Rightarrow> WP_Message" where
  "received bs msg = msg\<lparr>m_header := bytes_packet (rx_bytes msg @ bs
       @ drop (length (rx_bytes msg) + length bs) (packet_bytes (m_header msg))),
     m_pos := HeaderPos (length (rx_bytes msg) + length bs),
     m_left := m_left msg - of_nat (length bs)\<rparr>"

lemma store_bytes_header:
  assumes "header_phase msg" and "length bs \<le> unat (m_left msg)"
  shows "map_option (\<lambda>m. m\<lparr>m_left := m_left m - of_nat (length bs)\<rparr>) (store_bytes bs msg)
           = Some (received bs msg)"
proof -
  define i where "i = 32 - unat (m_left msg)"
  have i: "m_pos msg = HeaderPos i" "i + length bs \<le> 32" "length (rx_bytes msg) = i"
    "rx_bytes msg = take i (packet_bytes (m_header msg))"
    using assms length_rx_bytes[OF assms(1)] by (auto simp: header_phase_def i_def rx_bytes_def)
  then show ?thesis
    by (simp add: store_bytes_def received_def sizeof_packet_def Let_def)
qed

lemma received_header:
  assumes "header_phase msg" and "length bs \<le> unat (m_left msg)"
  shows "header_phase (received bs msg)" "rx_bytes (received bs msg) = rx_bytes msg @ bs"
proof -
  have "unat (m_left msg - of_nat (length bs)) = unat (m_left msg) - length bs"
    using assms(2) unat_bound[of "m_left msg"] by (simp add: unat_sub word_le_nat_alt unat_of_nat take_bit_nat_eq_self)
  moreover define all where "all = rx_bytes msg @ bs
    @ drop (length (rx_bytes msg) + length bs) (packet_bytes (m_header msg))"
  moreover have "length all = 32"
    using assms by (simp add: all_def length_rx_bytes header_phase_def)
  moreover have "32 - (unat (m_left msg) - length bs) = length (rx_bytes msg) + length bs"
    "unat (m_left msg) \<le> 32"
    using assms by (auto simp: length_rx_bytes header_phase_def)
  ultimately show "header_phase (received bs msg)" "rx_bytes (received bs msg) = rx_bytes msg @ bs"
    by (simp_all add: received_def header_phase_def rx_bytes_def[of "_\<lparr>m_left := _\<rparr>"]
        packet_bytes_bytes_packet flip: all_def) (simp add: all_def)
qed

lemma drop_byte_header:
  assumes "header_phase msg" and "rx_bytes msg \<noteq> []"
  shows "header_phase (drop_byte msg)" "rx_bytes (drop_byte msg) = tl (rx_bytes msg)"
proof -
  define buf where "buf = packet_bytes (m_header msg)"
  define n where "n = 31 - unat (m_left msg)"
  have left: "unat (m_left msg) < 32" using assms length_rx_bytes[OF assms(1)]
    by (metis diff_is_0_eq length_0_conv not_less)
  have "nat (rx_len msg) = 32 - unat (m_left msg)"
    by (metis rx_len_header[OF assms(1)] length_rx_bytes[OF assms(1)] nat_int)
  then have len: "nat (rx_len msg) - 1 = n" "32 - unat (m_left msg) = Suc n"
    using left by (simp_all add: n_def)
  have buf: "length buf = 32" using assms by (simp add: buf_def header_phase_def)
  have next_left: "unat (m_left msg + 1) = Suc (unat (m_left msg))" "32 - unat (m_left msg + 1) = n"
    using left unat_plus_one[of "m_left msg" 32] by (simp_all add: word_less_nat_alt n_def)
  have n: "n < 32" by (simp add: n_def)
  have all: "length (take n (drop 1 buf) @ drop n buf) = 32" using buf n by simp
  have db: "drop_byte msg = msg\<lparr>m_header := bytes_packet (take n (drop 1 buf) @ drop n buf),
      m_pos := back_one (m_pos msg), m_left := m_left msg + 1\<rparr>"
    by (simp only: drop_byte_def Let_def len(1) buf_def)
  have "m_pos msg = HeaderPos (Suc n)" using assms(1) len by (simp add: header_phase_def)
  then show "header_phase (drop_byte msg)"
    using next_left left all by (simp add: header_phase_def db back_one_def)
  have "rx_bytes msg = take (Suc n) buf" by (simp add: rx_bytes_def len buf_def)
  moreover have "rx_bytes (drop_byte msg) = take n (drop 1 buf)"
    using all buf n
    by (simp add: rx_bytes_def db next_left(2) packet_bytes_bytes_packet)
  ultimately show "rx_bytes (drop_byte msg) = tl (rx_bytes msg)"
    by (simp add: drop_Suc tl_take)
qed

lemma drop_byte_fields [simp]:
  "m_payload (drop_byte msg) = m_payload msg" "m_rxState (drop_byte msg) = m_rxState msg"
  by (simp_all add: drop_byte_def Let_def)

lemma synch_step:
  assumes "header_phase msg"
  shows "synch msg =
    (if rx_bytes msg = [] \<or> at_marker (min (length (rx_bytes msg)) 8) (rx_bytes msg)
     then (int (length (rx_bytes msg)), msg) else synch (drop_byte msg))"
proof -
  define k where "k = min (length (rx_bytes msg)) 8"
  have "k \<le> 32 - unat (m_left msg)" by (simp add: k_def length_rx_bytes[OF assms])
  then have "at_marker k (packet_bytes (m_header msg)) = at_marker k (rx_bytes msg)"
    by (simp add: rx_bytes_def at_marker_def min_absorb1)
  then show ?thesis
    using rx_len_header[OF assms]
    by (subst synch.simps) (auto simp: k_def Let_def sizeof_signature_def)
qed

lemma synch_header:
  "header_phase msg \<Longrightarrow>
   \<exists>msg'. synch msg = (int (length (resync (rx_bytes msg))), msg')
     \<and> header_phase msg' \<and> rx_bytes msg' = resync (rx_bytes msg)
     \<and> m_payload msg' = m_payload msg \<and> m_rxState msg' = m_rxState msg"
proof (induction "rx_bytes msg" arbitrary: msg)
  case Nil
  then show ?case by (simp add: synch_step flip: Nil(1))
next
  case (Cons b bs)
  show ?case
  proof (cases "at_marker (min (length (b # bs)) 8) (b # bs)")
    case True
    with Cons.prems show ?thesis by (subst synch_step) (simp_all flip: Cons(2))
  next
    case False
    have "rx_bytes (drop_byte msg) = bs" "header_phase (drop_byte msg)"
      using drop_byte_header[OF Cons.prems] by (simp_all flip: Cons(2))
    moreover have "synch msg = synch (drop_byte msg)" "resync (rx_bytes msg) = resync bs"
      using False Cons.prems by (simp_all add: synch_step[of msg] flip: Cons(2))
    ultimately show ?thesis using Cons(1)[of "drop_byte msg"] by simp
  qed
qed

lemma Process_go: "process_turn env c = Some (None, c') \<Longrightarrow> Process env c = Process env c'"
  by (subst Process.simps) simp

lemma Process_stop: "process_turn env c = Some (Some b, c') \<Longrightarrow> Process env c = Some (b, c')"
  by (subst Process.simps) simp

text \<open>The controllers that \<open>Process\<close> goes through.\<close>

inductive turns :: "'s wp_env \<Rightarrow> 's WP_Controller \<Rightarrow> 's WP_Controller \<Rightarrow> bool" for env where
  refl: "turns env c c"
| step: "process_turn env c = Some (None, c') \<Longrightarrow> turns env c' c'' \<Longrightarrow> turns env c c''"

lemma turns_Process: "turns env c c' \<Longrightarrow> Process env c = Process env c'"
  by (induction rule: turns.induct) (simp_all add: Process_go)

definition rx_running :: "ReceiveState \<Rightarrow> bool" where
  "rx_running st \<longleftrightarrow> (case st of Idle \<Rightarrow> False | Other i \<Rightarrow> False | _ \<Rightarrow> True)"

lemma rx_running_simps [simp]:
  "rx_running Initialize" "rx_running WaitingForHeader" "rx_running ReadingHeader" "rx_running CompleteHeader"
  "rx_running ReadingPayload" "rx_running CompletePayload" "\<not> rx_running Idle" "\<not> rx_running (Other i)"
  by (simp_all add: rx_running_def)

section \<open>What the receiver relies on\<close>

text \<open>
  \<open>input\<close> are the bytes that wait at the port. \<open>ReceiveBytes\<close> takes some of them, at least one when there
  are any, and succeeds when it does; the callbacks leave the input and, but for the payload buffer, the
  state of the reception alone.
\<close>

definition undisturbed :: "('s \<Rightarrow> bool) \<Rightarrow> ('s \<Rightarrow> u8 list) \<Rightarrow> 's WP_Controller \<Rightarrow> 's WP_Controller \<Rightarrow> bool"
where
  "undisturbed good input c c' \<longleftrightarrow> good (m_state c') \<and> input (m_state c') = input (m_state c)
     \<and> m_szMarker c' = m_szMarker c"

locale wire_layers =
  fixes env :: "'s wp_env"
    and input :: "'s \<Rightarrow> u8 list"
    and good :: "'s \<Rightarrow> bool"
  assumes receive_law: "good s \<Longrightarrow> ReceiveBytes (m_phy env) s n = (ok, bs, s') \<Longrightarrow>
      good s' \<and> input s = bs @ input s' \<and> length bs \<le> unat n
      \<and> (if n = 0 then ok else ok = (bs \<noteq> []) \<and> (bs = [] \<longrightarrow> input s' = []))"
    and transmit_law: "good s \<Longrightarrow> TransmitMessage (m_phy env) s msg = Some (ok, s') \<Longrightarrow>
      good s' \<and> input s' = input s"
    and header_returns: "good (m_state c) \<Longrightarrow> App_Header (m_app env) c \<noteq> None"
    and header_law: "good (m_state c) \<Longrightarrow> App_Header (m_app env) c = Some (ok, c') \<Longrightarrow>
      undisturbed good input c c'
      \<and> (\<exists>p. m_inboundMessage c' = (m_inboundMessage c)\<lparr>m_payload := p\<rparr>
           \<and> (\<forall>buf. p = Some buf \<longrightarrow> ok \<longrightarrow> m_size (m_header (m_inboundMessage c)) \<noteq> 0 \<longrightarrow>
                length buf = unat (m_size (m_header (m_inboundMessage c)))))"
    and payload_law: "good (m_state c) \<Longrightarrow> App_Payload (m_app env) c = Some (ok, c') \<Longrightarrow>
      undisturbed good input c c'
      \<and> length (m_signature (m_header (m_inboundMessage c')))
         = length (m_signature (m_header (m_inboundMessage c)))"
    and free_returns: "good (m_state c) \<Longrightarrow> App_Free (m_app env) c \<noteq> None"
    and free_law: "good (m_state c) \<Longrightarrow> App_Free (m_app env) c = Some (ok, c') \<Longrightarrow>
      undisturbed good input c c'
      \<and> (\<exists>p. m_inboundMessage c' = (m_inboundMessage c)\<lparr>m_payload := p\<rparr>)"

text \<open>States that are left without input come in a descending order.\<close>

definition rx_rank :: "ReceiveState \<Rightarrow> nat" where
  "rx_rank st = (case st of ReadingHeader \<Rightarrow> 6 | CompleteHeader \<Rightarrow> 5 | ReadingPayload \<Rightarrow> 4
     | CompletePayload \<Rightarrow> 3 | Initialize \<Rightarrow> 2 | _ \<Rightarrow> 1)"

section \<open>The state of the reception\<close>

definition rx_ok :: "WP_Message \<Rightarrow> bool" where
  "rx_ok msg \<longleftrightarrow> length (m_signature (m_header msg)) = 8 \<and>
     (case m_rxState msg of
        WaitingForHeader \<Rightarrow> header_phase msg \<and> length (rx_bytes msg) < 8
      | ReadingHeader \<Rightarrow> header_phase msg
      | ReadingPayload \<Rightarrow> m_left msg \<noteq> 0 \<and> (\<exists>buf. m_payload msg = Some buf
          \<and> length buf = unat (m_size (m_header msg)) \<and> unat (m_left msg) \<le> length buf
          \<and> m_pos msg = PayloadPos (length buf - unat (m_left msg)))
      | CompletePayload \<Rightarrow> m_size (m_header msg) \<noteq> 0 \<longrightarrow>
          (\<exists>buf. m_payload msg = Some buf \<and> length buf = unat (m_size (m_header msg)))
      | _ \<Rightarrow> True)"

lemma marker_of_length: "m_szMarker c = None \<or> (\<exists>s. m_szMarker c = Some s \<and> 8 \<le> length s)
    \<Longrightarrow> length (marker_of c) = 8"
  by (auto simp: marker_of_def sizeof_signature_def MARKER_PACKET_V1_def)

lemma on_inbound_sel [simp]:
  "m_inboundMessage (on_inbound f c) = f (m_inboundMessage c)" "m_state (on_inbound f c) = m_state c"
  "m_szMarker (on_inbound f c) = m_szMarker c"
  "m_lastOutboundMessage (on_inbound f c) = m_lastOutboundMessage c"
  by (simp_all add: on_inbound_def)

lemma set_rx_sel [simp]:
  "m_inboundMessage (set_rx st c) = (m_inboundMessage c)\<lparr>m_rxState := st\<rparr>"
  "m_state (set_rx st c) = m_state c" "m_szMarker (set_rx st c) = m_szMarker c"
  by (simp_all add: set_rx_def)

lemma receive_header:
  assumes "header_phase (m_inboundMessage c)"
    and "ReceiveBytes (m_phy env) (m_state c) (m_left (m_inboundMessage c)) = (ok, bs, s)"
    and "length bs \<le> unat (m_left (m_inboundMessage c))"
  shows "receive env c = Some (ok, c\<lparr>m_state := s, m_inboundMessage := received bs (m_inboundMessage c)\<rparr>)"
proof -
  obtain msg where "store_bytes bs (m_inboundMessage c) = Some msg"
    "msg\<lparr>m_left := m_left msg - of_nat (length bs)\<rparr> = received bs (m_inboundMessage c)"
    using store_bytes_header[OF assms(1,3)] by (cases "store_bytes bs (m_inboundMessage c)") auto
  then show ?thesis using assms(2) by (simp add: receive_def)
qed

lemma received_fields [simp]:
  "m_payload (received bs msg) = m_payload msg" "m_rxState (received bs msg) = m_rxState msg"
  by (simp_all add: received_def)

lemma header_left_0: "header_phase msg \<Longrightarrow> m_left msg = 0 \<longleftrightarrow> length (rx_bytes msg) = 32"
proof -
  assume h: "header_phase msg"
  then have "length (rx_bytes msg) = 32 - unat (m_left msg)" "unat (m_left msg) \<le> 32"
    by (simp_all add: length_rx_bytes header_phase_def)
  then have "unat (m_left msg) = 0 \<longleftrightarrow> length (rx_bytes msg) = 32" by linarith
  then show ?thesis by (simp add: unat_eq_0)
qed

lemma rx_bytes_update [simp]:
  "rx_bytes (msg\<lparr>m_rxState := st\<rparr>) = rx_bytes msg" "header_phase (msg\<lparr>m_rxState := st\<rparr>) = header_phase msg"
  "rx_bytes (msg\<lparr>m_payload := p\<rparr>) = rx_bytes msg" "header_phase (msg\<lparr>m_payload := p\<rparr>) = header_phase msg"
  by (simp_all add: rx_bytes_def header_phase_def)

text \<open>The part of the payload that has arrived.\<close>

definition pl_bytes :: "WP_Message \<Rightarrow> u8 list" where
  "pl_bytes msg = (case m_payload msg of None \<Rightarrow> []
     | Some buf \<Rightarrow> take (length buf - unat (m_left msg)) buf)"

lemma receive_payload:
  assumes st: "m_rxState (m_inboundMessage c) = ReadingPayload" and rx: "rx_ok (m_inboundMessage c)"
    and rb: "ReceiveBytes (m_phy env) (m_state c) (m_left (m_inboundMessage c)) = (ok, bs, s)"
    and len: "length bs \<le> unat (m_left (m_inboundMessage c))"
  shows "\<exists>m'. receive env c = Some (ok, c\<lparr>m_state := s, m_inboundMessage := m'\<rparr>)
    \<and> pl_bytes m' = pl_bytes (m_inboundMessage c) @ bs \<and> m_header m' = m_header (m_inboundMessage c)
    \<and> m_rxState m' = ReadingPayload \<and> m_payloadTicks m' = m_payloadTicks (m_inboundMessage c)
    \<and> unat (m_left m') = unat (m_left (m_inboundMessage c)) - length bs
    \<and> (\<exists>buf. m_payload m' = Some buf \<and> length buf = unat (m_size (m_header m'))
         \<and> m_pos m' = PayloadPos (length buf - unat (m_left m')))"
proof -
  let ?m = "m_inboundMessage c"
  obtain buf where buf: "m_payload ?m = Some buf" "length buf = unat (m_size (m_header ?m))"
    "unat (m_left ?m) \<le> length buf" "m_pos ?m = PayloadPos (length buf - unat (m_left ?m))"
    using rx st by (auto simp: rx_ok_def)
  define i where "i = length buf - unat (m_left ?m)"
  have i: "i + length bs \<le> length buf" "m_pos ?m = PayloadPos i" using len buf by (auto simp: i_def)
  have left: "unat (m_left ?m - of_nat (length bs)) = unat (m_left ?m) - length bs"
    using len unat_bound[of "m_left ?m"] by (simp add: unat_sub word_le_nat_alt unat_of_nat take_bit_nat_eq_self)
  have rest: "length buf - (unat (m_left ?m) - length bs) = i + length bs"
    using len buf(3) by (simp add: i_def)
  define new where "new = take i buf @ bs @ drop (i + length bs) buf"
  have new: "length new = length buf" "take (i + length bs) new = take i buf @ bs"
    using i by (simp_all add: new_def)
  define m' where "m' = ?m\<lparr>m_payload := Some new, m_pos := PayloadPos (i + length bs),
    m_left := m_left ?m - of_nat (length bs)\<rparr>"
  have "receive env c = Some (ok, c\<lparr>m_state := s, m_inboundMessage := m'\<rparr>)"
    using i buf(1) by (simp add: receive_def rb store_bytes_def m'_def new_def)
  moreover have "pl_bytes m' = pl_bytes ?m @ bs"
    using new rest buf(1) by (simp add: pl_bytes_def m'_def left flip: i_def)
  moreover have "m_payload m' = Some new \<and> length new = unat (m_size (m_header m'))
      \<and> m_pos m' = PayloadPos (length new - unat (m_left m'))"
    using new(1) buf(2) rest by (simp add: m'_def left)
  moreover have "m_header m' = m_header ?m" "m_rxState m' = ReadingPayload"
      "unat (m_left m') = unat (m_left ?m) - length bs" "m_payloadTicks m' = m_payloadTicks ?m"
    using st by (simp_all add: m'_def left)
  ultimately show ?thesis by blast
qed

lemma pl_bytes_update [simp]: "pl_bytes (msg\<lparr>m_rxState := st\<rparr>) = pl_bytes msg"
  by (simp add: pl_bytes_def cong: option.case_cong)

lemma take_common:
  assumes "as @ bs = cs @ ds" and "k \<le> length as" and "k \<le> length cs"
  shows "take k as = take k cs"
proof -
  have "take k as = take k (as @ bs)" using assms(2) by simp
  also have "\<dots> = take k (cs @ ds)" by (simp only: assms(1))
  finally show ?thesis using assms(3) by simp
qed

text \<open>One turn in \<open>WaitingForHeader\<close> and in \<open>ReadingHeader\<close>.\<close>

context wire_layers
begin

lemma turn_Waiting:
  assumes good: "good (m_state c)" and rx: "rx_ok (m_inboundMessage c)"
    and st: "m_rxState (m_inboundMessage c) = WaitingForHeader"
  shows "\<exists>r c'. process_turn env c = Some (r, c') \<and> good (m_state c') \<and> rx_ok (m_inboundMessage c')
    \<and> m_szMarker c' = m_szMarker c \<and> m_payload (m_inboundMessage c') = m_payload (m_inboundMessage c)
    \<and> (if input (m_state c) = [] then r = Some True \<and> input (m_state c') = []
         \<and> m_inboundMessage c' = received [] (m_inboundMessage c)
       else r = None \<and> length (input (m_state c')) < length (input (m_state c)) \<and>
        (\<exists>bs. input (m_state c) = bs @ input (m_state c') \<and> bs \<noteq> []
          \<and> rx_bytes (m_inboundMessage c') = resync (rx_bytes (m_inboundMessage c) @ bs)
          \<and> m_rxState (m_inboundMessage c') = (if 8 \<le> length (rx_bytes (m_inboundMessage c'))
              then ReadingHeader else WaitingForHeader)))"
proof -
  let ?m = "m_inboundMessage c"
  obtain ok bs s where rb: "ReceiveBytes (m_phy env) (m_state c) (m_left ?m) = (ok, bs, s)"
    by (cases "ReceiveBytes (m_phy env) (m_state c) (m_left ?m)") auto
  have h: "header_phase ?m" "length (rx_bytes ?m) < 8" using rx st by (simp_all add: rx_ok_def)
  then have left: "m_left ?m \<noteq> 0" by (auto simp: length_rx_bytes)
  have law: "good s" "input (m_state c) = bs @ input s" "length bs \<le> unat (m_left ?m)"
    "ok = (bs \<noteq> [])" "bs = [] \<longrightarrow> input s = []"
    using receive_law[OF good rb] left by simp_all
  note rec = received_header[OF h(1) law(3)]
  note turn = receive_header[OF h(1) rb law(3)]
  show ?thesis
  proof (cases "input (m_state c) = []")
    case True
    then have none: "bs = []" "input s = []" "\<not> ok" using law by simp_all
    have "process_turn env c = Some (Some True, c\<lparr>m_state := s, m_inboundMessage := received [] ?m\<rparr>)"
      using none turn st by (simp add: process_turn_def turn_WaitingForHeader_def)
    moreover have "rx_ok (received [] ?m)"
      using rec none h st by (simp add: rx_ok_def) (simp add: header_phase_def)
    ultimately show ?thesis using True law none by simp
  next
    case False
    then have ok: "ok" "bs \<noteq> []" using law by auto
    let ?m1 = "received bs ?m"
    obtain m2 where m2: "synch ?m1 = (int (length (resync (rx_bytes ?m1))), m2)" "header_phase m2"
      "rx_bytes m2 = resync (rx_bytes ?m1)" "m_payload m2 = m_payload ?m1" "m_rxState m2 = m_rxState ?m1"
      using synch_header[OF rec(1)] by blast
    define n where "n = length (rx_bytes m2)"
    have "n \<le> 32" using length_rx_bytes[OF m2(2)] by (simp add: n_def)
    then have ge: "(of_nat sizeof_signature \<le> (word_of_int (int n) :: u32)) = (8 \<le> n)"
      by (simp add: sizeof_signature_def word_le_nat_alt unat_of_nat take_bit_nat_eq_self)
    have sy: "synch ?m1 = (int n, m2)" using m2 by (simp add: n_def)
    have "process_turn env c = Some (None, (if 8 \<le> n then set_rx ReadingHeader else id)
        (on_inbound (\<lambda>_. m2) (c\<lparr>m_state := s, m_inboundMessage := ?m1\<rparr>)))"
      using st turn ok ge by (simp add: process_turn_def turn_WaitingForHeader_def sy del: of_int_of_nat_eq)
    moreover have "length (m_signature (m_header m2)) = 8" using m2(2) by (simp add: header_phase_def)
    ultimately show ?thesis
      using False law ok m2 st rec by (auto simp: rx_ok_def n_def)
  qed
qed

lemma turn_Reading:
  assumes good: "good (m_state c)" and rx: "rx_ok (m_inboundMessage c)"
    and st: "m_rxState (m_inboundMessage c) = ReadingHeader"
  shows "\<exists>r c'. process_turn env c = Some (r, c') \<and> good (m_state c') \<and> rx_ok (m_inboundMessage c')
    \<and> m_szMarker c' = m_szMarker c \<and> m_payload (m_inboundMessage c') = m_payload (m_inboundMessage c)
    \<and> (if m_left (m_inboundMessage c) = 0 then r = None \<and> input (m_state c') = input (m_state c)
         \<and> m_header (m_inboundMessage c') = bytes_packet (rx_bytes (m_inboundMessage c))
         \<and> m_rxState (m_inboundMessage c') = CompleteHeader
       else if input (m_state c) = [] then r = Some True \<and> input (m_state c') = []
         \<and> m_inboundMessage c' = received [] (m_inboundMessage c)
       else r = None \<and> length (input (m_state c')) < length (input (m_state c)) \<and>
        (\<exists>bs. input (m_state c) = bs @ input (m_state c') \<and> bs \<noteq> []
          \<and> rx_bytes (m_inboundMessage c') = rx_bytes (m_inboundMessage c) @ bs
          \<and> header_phase (m_inboundMessage c')
          \<and> m_rxState (m_inboundMessage c') = (if length (rx_bytes (m_inboundMessage c')) = 32
              then CompleteHeader else ReadingHeader)))"
proof -
  let ?m = "m_inboundMessage c"
  obtain ok bs s where rb: "ReceiveBytes (m_phy env) (m_state c) (m_left ?m) = (ok, bs, s)"
    by (cases "ReceiveBytes (m_phy env) (m_state c) (m_left ?m)") auto
  have h: "header_phase ?m" using rx st by (simp add: rx_ok_def)
  have law: "good s" "input (m_state c) = bs @ input s" "length bs \<le> unat (m_left ?m)"
    using receive_law[OF good rb] by simp_all
  note rec = received_header[OF h law(3)]
  note turn = receive_header[OF h rb law(3)]
  define m1 where "m1 = received bs ?m"
  have left: "m_left m1 = 0 \<longleftrightarrow> length (rx_bytes m1) = 32"
    using header_left_0[OF rec(1)] by (simp add: m1_def)
  have sig: "length (m_signature (m_header m1)) = 8" using rec(1) by (simp add: m1_def header_phase_def)
  have go: "process_turn env c = Some (None, (if m_left m1 = 0 then set_rx CompleteHeader else id)
      (c\<lparr>m_state := s, m_inboundMessage := m1\<rparr>))" if ok
    using that turn st by (simp add: process_turn_def turn_ReadingHeader_def m1_def)
  show ?thesis
  proof (cases "m_left ?m = 0")
    case True
    then have "bs = []" "ok" using law receive_law[OF good rb] by simp_all
    moreover from this True have "m_left m1 = 0" by (simp add: m1_def received_def)
    moreover from this have "m_header m1 = bytes_packet (rx_bytes m1)"
      using rec(1) by (intro rx_bytes_all) (simp_all add: m1_def)
    ultimately show ?thesis
      using True go law rec sig by (simp add: rx_ok_def m1_def)
  next
    case False
    then have ok: "ok = (bs \<noteq> [])" "bs = [] \<longrightarrow> input s = []"
      using receive_law[OF good rb] by simp_all
    show ?thesis
    proof (cases "input (m_state c) = []")
      case True
      then have none: "bs = []" "input s = []" "\<not> ok" using law ok by simp_all
      have "process_turn env c = Some (Some True, c\<lparr>m_state := s, m_inboundMessage := received [] ?m\<rparr>)"
        using none turn st by (simp add: process_turn_def turn_ReadingHeader_def)
      moreover have "rx_ok (received [] ?m)"
        using rec sig none st by (simp add: rx_ok_def m1_def)
      ultimately show ?thesis using True False law none by simp
    next
      case some: False
      then have "ok" "bs \<noteq> []" using law ok by auto
      then show ?thesis
        using go law rec sig left some False st by (auto simp: rx_ok_def m1_def)
    qed
  qed
qed

lemma turn_Initialize:
  assumes good: "good (m_state c)" and rx: "rx_ok (m_inboundMessage c)"
    and st: "m_rxState (m_inboundMessage c) = Initialize"
  shows "\<exists>c'. process_turn env c = Some (None, c') \<and> undisturbed good input c c' \<and> rx_ok (m_inboundMessage c') \<and> m_payload (m_inboundMessage c') = None
    \<and> m_rxState (m_inboundMessage c') = WaitingForHeader \<and> rx_bytes (m_inboundMessage c') = []"
proof -
  have sig: "length (m_signature (m_header (m_inboundMessage c))) = 8" using rx by (simp add: rx_ok_def)
  obtain c1 where c1: "Message_Release env c = Some c1" "undisturbed good input c c1" "m_payload (m_inboundMessage c1) = None"
    "length (m_signature (m_header (m_inboundMessage c1))) = 8"
  proof (cases "m_payload (m_inboundMessage c)")
    case None
    then show ?thesis using that[of c] good sig by (simp add: Message_Release_def undisturbed_def)
  next
    case (Some p)
    obtain ok c1 where f: "App_Free (m_app env) c = Some (ok, c1)"
      using free_returns[OF good] by auto
    show ?thesis
      using that[of "on_inbound (\<lambda>m. m\<lparr>m_payload := None\<rparr>) c1"] free_law[OF good f] Some f sig
      by (auto simp: Message_Release_def undisturbed_def)
  qed
  then show ?thesis
    using st by (auto simp: process_turn_def turn_Initialize_def rx_ok_def header_phase_def rx_bytes_def
        sizeof_packet_def undisturbed_def)
qed

text \<open>The reply to a bad packet is a message without payload.\<close>

lemma ReplyBadPacket_keeps:
  assumes "good (m_state c)" and "ReplyBadPacket env flg c = Some c'"
  shows "undisturbed good input c c' \<and> m_inboundMessage c' = m_inboundMessage c"
proof -
  obtain c1 msg ok s where p: "PrepareRequest 0 (c_NonCritical OR c_NACK OR flg) 0 None c Message_Initialize = Some (c1, msg)"
    "TransmitMessage (m_phy env) (m_state c1) msg = Some (ok, s)" "c' = c1\<lparr>m_state := s\<rparr>"
    using assms(2) by (auto simp: ReplyBadPacket_def SendMessage_def bind_eq_Some_conv)
  have "m_state c1 = m_state c" "m_szMarker c1 = m_szMarker c" "m_inboundMessage c1 = m_inboundMessage c"
    using p(1) by (auto simp: PrepareRequest_def bind_eq_Some_conv Let_def)
  then show ?thesis using transmit_law[of "m_state c1" msg ok s] assms(1) p(2,3) by (simp add: undisturbed_def)
qed

text \<open>It fails to return only in the physical layer.\<close>

lemma ReplyBadPacket_stuck:
  assumes "ReplyBadPacket env flg c = None" and "length (marker_of c) = 8"
  shows "\<exists>msg. m_payload msg = None \<and> TransmitMessage (m_phy env) (m_state c) msg = None"
proof -
  define h where "h = \<lparr>m_signature = marker_of c, m_crcHeader = 0, m_crcData = 0, m_cmd = 0,
    m_seq = m_lastOutboundMessage c, m_seqReply = 0, m_flags = c_NonCritical OR c_NACK OR flg, m_size = 0\<rparr>"
  obtain crc where crc: "header_crc h = Some crc"
    using header_crc_total[of h] assms(2) by (auto simp: h_def)
  let ?msg = "Message_Initialize\<lparr>m_header := h\<lparr>m_crcHeader := crc\<rparr>, m_payload := None\<rparr>"
  have "PrepareRequest 0 (c_NonCritical OR c_NACK OR flg) 0 None c Message_Initialize
      = Some (c\<lparr>m_lastOutboundMessage := m_lastOutboundMessage c + 1\<rparr>, ?msg)"
    using crc by (simp add: PrepareRequest_def buffer_bytes_def h_def)
  then have "TransmitMessage (m_phy env) (m_state c) ?msg = None"
    using assms(1) by (simp add: ReplyBadPacket_def SendMessage_def)
  moreover have "m_payload ?msg = None" by simp
  ultimately show ?thesis by blast
qed

lemma turn_CompleteHeader:
  assumes good: "good (m_state c)" and rx: "rx_ok (m_inboundMessage c)"
    and st: "m_rxState (m_inboundMessage c) = CompleteHeader" and turn: "process_turn env c = Some (r, c')"
  shows "r = None \<and> undisturbed good input c c' \<and> rx_ok (m_inboundMessage c')
    \<and> m_rxState (m_inboundMessage c') \<in> {Initialize, ReadingPayload, CompletePayload}"
proof -
  have sig: "length (m_signature (m_header (m_inboundMessage c))) = 8" using rx by (simp add: rx_ok_def)
  have bad: "undisturbed good input c c2 \<and> rx_ok (m_inboundMessage c2)
      \<and> m_rxState (m_inboundMessage c2) = Initialize"
    if u: "undisturbed good input c c1" "length (m_signature (m_header (m_inboundMessage c1))) = 8"
      and b: "bad_header env c1 = Some c2" for c1 c2
  proof (cases "m_flags (m_header (m_inboundMessage c1)) AND c_NonCritical = 0")
    case True
    then obtain c3 where "ReplyBadPacket env c_BadHeader c1 = Some c3" "c2 = set_rx Initialize c3"
      using b by (auto simp: bad_header_def)
    then show ?thesis
      using ReplyBadPacket_keeps[of c1 c_BadHeader c3] u by (simp add: undisturbed_def rx_ok_def)
  next
    case False
    then show ?thesis using b u by (auto simp: bad_header_def undisturbed_def rx_ok_def)
  qed
  have refl: "undisturbed good input c c" using good by (simp add: undisturbed_def)
  show ?thesis
  proof (cases "VerifyHeader (m_inboundMessage c)")
    case False
    then have "r = None \<and> bad_header env c = Some c'"
      using turn st by (auto simp: process_turn_def turn_CompleteHeader_def)
    then show ?thesis using bad[OF refl sig] by simp
  next
    case True
    obtain ok c1 where a: "App_Header (m_app env) c = Some (ok, c1)"
      using header_returns[OF good] by auto
    obtain p where p: "undisturbed good input c c1" "m_inboundMessage c1 = (m_inboundMessage c)\<lparr>m_payload := p\<rparr>"
      "\<And>buf. p = Some buf \<Longrightarrow> ok \<Longrightarrow> m_size (m_header (m_inboundMessage c)) \<noteq> 0 \<Longrightarrow>
         length buf = unat (m_size (m_header (m_inboundMessage c)))"
      using header_law[OF good a] by auto
    have turn': "r = None \<and> (if ok then Some (after_header env c1) else bad_header env c1) = Some c'"
      using turn a st True by (auto simp: process_turn_def turn_CompleteHeader_def)
    show ?thesis
    proof (cases ok)
      case False
      then show ?thesis using bad[OF p(1), of c'] p(2) turn' sig by simp
    next
      case ok: True
      let ?c = "after_header env c1"
      have "rx_ok (m_inboundMessage ?c)
          \<and> m_rxState (m_inboundMessage ?c) \<in> {Initialize, ReadingPayload, CompletePayload}"
        using p(2,3) ok sig by (cases p) (auto simp: after_header_def rx_ok_def Let_def)
      moreover have "undisturbed good input c1 ?c"
        using p(1) by (simp add: after_header_def undisturbed_def Let_def)
      ultimately show ?thesis using p(1) turn' ok by (auto simp: undisturbed_def)
    qed
  qed
qed

lemma turn_ReadingPayload:
  assumes good: "good (m_state c)" and rx: "rx_ok (m_inboundMessage c)"
    and st: "m_rxState (m_inboundMessage c) = ReadingPayload"
  shows "\<exists>r c'. process_turn env c = Some (r, c') \<and> good (m_state c') \<and> rx_ok (m_inboundMessage c')
    \<and> m_szMarker c' = m_szMarker c \<and> m_header (m_inboundMessage c') = m_header (m_inboundMessage c)
    \<and> (if \<not> HAL_Time_TicksToTime env (HAL_Time_CurrentTicks env (m_state c)
            - m_payloadTicks (m_inboundMessage c)) < c_PayloadTimeout
       then r = None \<and> input (m_state c') = input (m_state c) \<and> m_rxState (m_inboundMessage c') = Initialize
       else if input (m_state c) = [] then r = Some True \<and> input (m_state c') = []
         \<and> m_rxState (m_inboundMessage c') = ReadingPayload
         \<and> pl_bytes (m_inboundMessage c') = pl_bytes (m_inboundMessage c)
       else r = None \<and> length (input (m_state c')) < length (input (m_state c)) \<and>
        (\<exists>bs. input (m_state c) = bs @ input (m_state c') \<and> bs \<noteq> []
          \<and> (\<exists>n. ReceiveBytes (m_phy env) (m_state c) n = (True, bs, m_state c'))
          \<and> length bs \<le> unat (m_left (m_inboundMessage c))
          \<and> pl_bytes (m_inboundMessage c') = pl_bytes (m_inboundMessage c) @ bs
          \<and> unat (m_left (m_inboundMessage c')) = unat (m_left (m_inboundMessage c)) - length bs
          \<and> m_payloadTicks (m_inboundMessage c') = HAL_Time_CurrentTicks env (m_state c)
          \<and> m_rxState (m_inboundMessage c') = (if m_left (m_inboundMessage c') = 0
              then CompletePayload else ReadingPayload)))"
proof -
  let ?m = "m_inboundMessage c"
  let ?cur = "HAL_Time_CurrentTicks env (m_state c)"
  have sig: "length (m_signature (m_header ?m)) = 8" using rx by (simp add: rx_ok_def)
  show ?thesis
  proof (cases "HAL_Time_TicksToTime env (?cur - m_payloadTicks ?m) < c_PayloadTimeout")
    case False
    then show ?thesis
      using st good sig by (simp add: process_turn_def turn_ReadingPayload_def rx_ok_def Let_def)
  next
    case time: True
    define c1 where "c1 = on_inbound (\<lambda>m. m\<lparr>m_payloadTicks := ?cur\<rparr>) c"
    obtain ok bs s where rb: "ReceiveBytes (m_phy env) (m_state c) (m_left ?m) = (ok, bs, s)"
      by (cases "ReceiveBytes (m_phy env) (m_state c) (m_left ?m)") auto
    have left: "m_left ?m \<noteq> 0" using rx st by (simp add: rx_ok_def)
    have law: "good s" "input (m_state c) = bs @ input s" "length bs \<le> unat (m_left ?m)"
      "ok = (bs \<noteq> [])" "bs = [] \<longrightarrow> input s = []"
      using receive_law[OF good rb] left by simp_all
    have "m_rxState (m_inboundMessage c1) = ReadingPayload" "rx_ok (m_inboundMessage c1)"
      using st rx by (simp_all add: c1_def rx_ok_def)
    note rp = receive_payload[OF this, of env ok bs s]
    have c1: "m_left (m_inboundMessage c1) = m_left ?m" "pl_bytes (m_inboundMessage c1) = pl_bytes ?m"
      "m_header (m_inboundMessage c1) = m_header ?m" "m_state c1 = m_state c"
      by (simp_all add: c1_def pl_bytes_def cong: option.case_cong)
    obtain m' where m':
      "receive env c1 = Some (ok, c1\<lparr>m_state := s, m_inboundMessage := m'\<rparr>)"
      "pl_bytes m' = pl_bytes ?m @ bs" "m_header m' = m_header ?m" "m_rxState m' = ReadingPayload"
      "unat (m_left m') = unat (m_left ?m) - length bs"
      "m_payloadTicks m' = m_payloadTicks (m_inboundMessage c1)" "\<exists>buf. m_payload m' = Some buf \<and> length buf = unat (m_size (m_header m'))
         \<and> m_pos m' = PayloadPos (length buf - unat (m_left m'))"
      using rp rb law(3) unfolding c1 by blast
    have le: "unat (m_left m') \<le> unat (m_size (m_header m'))"
      using m'(3,5) rx st by (auto simp: rx_ok_def)
    have ok': "rx_ok m'" if "m_left m' \<noteq> 0" using that m' sig le by (auto simp: rx_ok_def)
    have full: "rx_ok (m'\<lparr>m_rxState := CompletePayload\<rparr>)" using m' sig by (auto simp: rx_ok_def)
    have turn: "process_turn env c = (if ok then Some (None, (if m_left m' = 0 then set_rx CompletePayload else id)
          (c1\<lparr>m_state := s, m_inboundMessage := m'\<rparr>))
        else Some (Some True, c1\<lparr>m_state := s, m_inboundMessage := m'\<rparr>))"
      using time st m'(1) by (simp add: process_turn_def turn_ReadingPayload_def Let_def flip: c1_def)
    have keep: "m_szMarker c1 = m_szMarker c" "m_payloadTicks (m_inboundMessage c1) = ?cur"
      by (simp_all add: c1_def)
    show ?thesis
    proof (cases "input (m_state c) = []")
      case True
      then have none: "bs = []" "\<not> ok" "input s = []" using law by simp_all
      then have "m_left m' \<noteq> 0" using m'(5) left by (simp add: word_unat_eq_iff)
      then show ?thesis using True time turn none law(1) m' ok' keep by simp
    next
      case False
      then have some: "ok" "bs \<noteq> []" using law by auto
      have rb1: "\<exists>n. ReceiveBytes (m_phy env) (m_state c) n = (True, bs, s)" using rb some(1) by auto
      show ?thesis
      proof (cases "m_left m' = 0")
        case True
        then show ?thesis using False time turn some law m' full keep rb1 by auto
      next
        case more: False
        then show ?thesis using False time turn some law m' ok' keep rb1 by auto
      qed
    qed
  qed
qed

lemma sint_le_unat: "sint (w :: 'w::len word) \<le> int (unat w)"
  by (simp add: sint_uint signed_take_bit_int_less_eq_self_iff) (meson less_le_trans neg_less_0_iff_less uint_ge_0 zero_less_numeral zero_less_power less_imp_le)

lemma VerifyPayload_returns:
  assumes "rx_ok msg" and "m_rxState msg = CompletePayload"
  shows "\<exists>b. VerifyPayload msg = Some b"
proof (cases "m_size (m_header msg) = 0")
  case True
  then show ?thesis by (simp add: VerifyPayload_def SUPPORT_ComputeCRC_fold)
next
  case False
  then obtain buf where "m_payload msg = Some buf" "length buf = unat (m_size (m_header msg))"
    using assms by (auto simp: rx_ok_def)
  with sint_le_unat[of "m_size (m_header msg)"] show ?thesis
    by (simp add: VerifyPayload_def SUPPORT_ComputeCRC_fold buffer_bytes_def)
qed

lemma turn_CompletePayload:
  assumes good: "good (m_state c)" and rx: "rx_ok (m_inboundMessage c)"
    and st: "m_rxState (m_inboundMessage c) = CompletePayload" and turn: "process_turn env c = Some (r, c')"
  shows "r = None \<and> undisturbed good input c c' \<and> rx_ok (m_inboundMessage c')
    \<and> m_rxState (m_inboundMessage c') = Initialize"
proof -
  have sig: "length (m_signature (m_header (m_inboundMessage c))) = 8" using rx by (simp add: rx_ok_def)
  obtain b where b: "VerifyPayload (m_inboundMessage c) = Some b"
    using VerifyPayload_returns[OF rx st] by blast
  show ?thesis
  proof (cases b)
    case True
    then obtain ok c1 where "App_Payload (m_app env) c = Some (ok, c1)" "c' = set_rx Initialize c1" "r = None"
      using turn st b by (auto simp: process_turn_def turn_CompletePayload_def)
    then show ?thesis using payload_law[OF good, of ok c1] sig by (simp add: undisturbed_def rx_ok_def)
  next
    case False
    then obtain c1 where "ReplyBadPacket env c_BadPayload c = Some c1" "c' = set_rx Initialize c1" "r = None"
      using turn st b by (auto simp: process_turn_def turn_CompletePayload_def)
    then show ?thesis using ReplyBadPacket_keeps[OF good, of c_BadPayload c1] sig by (simp add: undisturbed_def rx_ok_def)
  qed
qed

section \<open>Every call of \<open>Process\<close> returns\<close>

definition rx_measure :: "'s WP_Controller \<Rightarrow> nat \<times> nat" where
  "rx_measure c = (length (input (m_state c)), rx_rank (m_rxState (m_inboundMessage c)))"

lemma turn_progress:
  assumes "good (m_state c)" and "rx_ok (m_inboundMessage c)" and turn: "process_turn env c = Some (r, c')"
  shows "good (m_state c') \<and> rx_ok (m_inboundMessage c') \<and> m_szMarker c' = m_szMarker c
    \<and> (rx_running (m_rxState (m_inboundMessage c)) \<longrightarrow> rx_running (m_rxState (m_inboundMessage c')))
    \<and> (case r of None \<Rightarrow> (rx_measure c', rx_measure c) \<in> less_than <*lex*> less_than
       | Some b \<Rightarrow> (case m_rxState (m_inboundMessage c') of Idle \<Rightarrow> b | Other i \<Rightarrow> \<not> b
           | _ \<Rightarrow> b \<and> input (m_state c') = []))"
proof (cases "m_rxState (m_inboundMessage c)")
  case Idle
  then show ?thesis using assms by (auto simp: process_turn_def)
next
  case Initialize
  then show ?thesis using turn_Initialize[OF assms(1,2)] turn
    by (auto simp: rx_measure_def undisturbed_def rx_rank_def)
next
  case WaitingForHeader
  then show ?thesis using turn_Waiting[OF assms(1,2)] turn
    by (cases "input (m_state c) = []") (fastforce simp: rx_measure_def split: if_splits)+
next
  case ReadingHeader
  then show ?thesis using turn_Reading[OF assms(1,2)] turn
    by (cases "input (m_state c) = []"; cases "m_left (m_inboundMessage c) = 0")
       (fastforce simp: rx_measure_def rx_rank_def split: if_splits)+
next
  case CompleteHeader
  then show ?thesis using turn_CompleteHeader[OF assms(1,2) _ turn]
    by (fastforce simp: rx_measure_def undisturbed_def rx_rank_def)
next
  case ReadingPayload
  then show ?thesis using turn_ReadingPayload[OF assms(1,2)] turn
    by (fastforce simp: rx_measure_def rx_rank_def split: if_splits)
next
  case CompletePayload
  then show ?thesis using turn_CompletePayload[OF assms(1,2) _ turn]
    by (fastforce simp: rx_measure_def undisturbed_def rx_rank_def)
next
  case (Other i)
  then show ?thesis using assms by (auto simp: process_turn_def)
qed

text \<open>A turn that does not end hangs in a callback of the application or in the transmission of a complaint.\<close>

lemma turn_stuck:
  assumes "good (m_state c)" and "rx_ok (m_inboundMessage c)" and "length (marker_of c) = 8"
    and "process_turn env c = None"
  shows "(m_rxState (m_inboundMessage c) = CompletePayload \<and> VerifyPayload (m_inboundMessage c) = Some True
      \<and> App_Payload (m_app env) c = None)
    \<or> (\<exists>s msg. good s \<and> m_payload msg = None \<and> TransmitMessage (m_phy env) s msg = None)"
proof (cases "m_rxState (m_inboundMessage c)")
  case Initialize
  then show ?thesis using turn_Initialize[OF assms(1,2)] assms(4) by auto
next
  case WaitingForHeader
  then show ?thesis using turn_Waiting[OF assms(1,2)] assms(4) by auto
next
  case ReadingHeader
  then show ?thesis using turn_Reading[OF assms(1,2)] assms(4) by auto
next
  case ReadingPayload
  then show ?thesis using turn_ReadingPayload[OF assms(1,2)] assms(4) by auto
next
  case CompleteHeader
  have "\<exists>s msg. good s \<and> m_payload msg = None \<and> TransmitMessage (m_phy env) s msg = None"
    if "undisturbed good input c c1" "bad_header env c1 = None" for c1
  proof -
    have "ReplyBadPacket env c_BadHeader c1 = None" using that(2) by (simp add: bad_header_def split: if_splits)
    then show ?thesis
      using ReplyBadPacket_stuck[of c_BadHeader c1] that(1) assms(3) by (auto simp: undisturbed_def marker_of_def)
  qed
  moreover obtain ok c1 where "App_Header (m_app env) c = Some (ok, c1)"
    using header_returns[OF assms(1)] by auto
  moreover have "undisturbed good input c c" using assms(1) by (simp add: undisturbed_def)
  ultimately show ?thesis
    using CompleteHeader assms(4) header_law[OF assms(1)]
    by (auto simp: process_turn_def turn_CompleteHeader_def split: if_splits)
next
  case CompletePayload
  obtain b where "VerifyPayload (m_inboundMessage c) = Some b"
    using VerifyPayload_returns[OF assms(2) CompletePayload] by blast
  then show ?thesis
    using CompletePayload assms(1,3,4) ReplyBadPacket_stuck[of c_BadPayload c]
    by (cases b) (auto simp: process_turn_def turn_CompletePayload_def)
qed (use assms(4) in \<open>simp_all add: process_turn_def\<close>)

lemma Process_returns:
  assumes "good (m_state c)" and "rx_ok (m_inboundMessage c)" and "length (marker_of c) = 8"
    and app: "\<And>c1. turns env c c1 \<Longrightarrow> m_rxState (m_inboundMessage c1) = CompletePayload \<Longrightarrow>
      VerifyPayload (m_inboundMessage c1) = Some True \<Longrightarrow> App_Payload (m_app env) c1 \<noteq> None"
    and tx: "\<And>s msg. good s \<Longrightarrow> m_payload msg = None \<Longrightarrow> TransmitMessage (m_phy env) s msg \<noteq> None"
  shows "\<exists>b c'. Process env c = Some (b, c') \<and> good (m_state c') \<and> rx_ok (m_inboundMessage c')
    \<and> m_szMarker c' = m_szMarker c
    \<and> (rx_running (m_rxState (m_inboundMessage c)) \<longrightarrow> rx_running (m_rxState (m_inboundMessage c')))
    \<and> (case m_rxState (m_inboundMessage c') of Idle \<Rightarrow> b | Other i \<Rightarrow> \<not> b
       | _ \<Rightarrow> b \<and> input (m_state c') = [])"
  using assms(1-4)
proof (induction "rx_measure c" arbitrary: c rule: wf_induct[OF wf_lex_prod[OF wf_less_than wf_less_than]])
  case 1
  have "process_turn env c \<noteq> None"
    using turn_stuck[OF 1(2-4)] 1(5)[OF turns.refl] tx by blast
  then obtain r c' where t: "process_turn env c = Some (r, c')" by auto
  note p = turn_progress[OF 1(2,3) t]
  show ?case
  proof (cases r)
    case None
    have m: "length (marker_of c') = 8" using 1(4) p by (simp add: marker_of_def)
    have a: "App_Payload (m_app env) c1 \<noteq> None" if "turns env c' c1"
      "m_rxState (m_inboundMessage c1) = CompletePayload" "VerifyPayload (m_inboundMessage c1) = Some True" for c1
      using 1(5)[of c1] turns.step[of env c c' c1] t None that by simp
    have "(rx_measure c', rx_measure c) \<in> less_than <*lex*> less_than" using p None by simp
    then have "\<exists>b d. Process env c' = Some (b, d) \<and> good (m_state d) \<and> rx_ok (m_inboundMessage d)
        \<and> m_szMarker d = m_szMarker c'
        \<and> (rx_running (m_rxState (m_inboundMessage c')) \<longrightarrow> rx_running (m_rxState (m_inboundMessage d)))
        \<and> (case m_rxState (m_inboundMessage d) of Idle \<Rightarrow> b | Other i \<Rightarrow> \<not> b
           | _ \<Rightarrow> b \<and> input (m_state d) = [])"
      using 1(1) p m a by blast
    then obtain b d where "Process env c' = Some (b, d) \<and> good (m_state d) \<and> rx_ok (m_inboundMessage d)
        \<and> m_szMarker d = m_szMarker c'
        \<and> (rx_running (m_rxState (m_inboundMessage c')) \<longrightarrow> rx_running (m_rxState (m_inboundMessage d)))
        \<and> (case m_rxState (m_inboundMessage d) of Idle \<Rightarrow> b | Other i \<Rightarrow> \<not> b
           | _ \<Rightarrow> b \<and> input (m_state d) = [])" by blast
    then show ?thesis
      by (intro exI[of _ b] exI[of _ d]) (use p None t Process_go[of env c c'] in simp)
  next
    case (Some b)
    then show ?thesis using t p Process_stop[of _ c b c'] by auto
  qed
qed

section \<open>A packet that arrives is delivered\<close>

lemma resync_position:
  assumes "xs @ ys = junk @ H @ rest" and "at_marker 8 H" and "8 \<le> length H"
    and "\<And>i. i < length junk \<Longrightarrow> \<not> at_marker 8 (drop i (junk @ H))"
  shows "\<exists>dropped junk2. junk = dropped @ junk2 \<and> resync xs @ ys = junk2 @ H @ rest
    \<and> (8 \<le> length (resync xs) \<longrightarrow> junk2 = [])"
  using assms
proof (induction xs arbitrary: junk)
  case (Cons x xs)
  let ?k = "min (length (x # xs)) 8"
  show ?case
  proof (cases "at_marker ?k (x # xs)")
    case True
    have "junk = []" if "8 \<le> length (x # xs)"
    proof (rule ccontr)
      assume "junk \<noteq> []"
      have "take 8 (x # xs) = take 8 (junk @ H)"
        using Cons.prems(1,3) that by (intro take_common[of _ ys _ rest]) simp_all
      moreover have "?k = 8" using that by simp
      ultimately have "at_marker 8 (junk @ H)" using True by (simp only: at_marker_def)
      then show False using Cons.prems(4)[of 0] \<open>junk \<noteq> []\<close> by simp
    qed
    with True Cons.prems(1) show ?thesis by (intro exI[of _ "[]"] exI[of _ junk]) auto
  next
    case False
    have "junk \<noteq> []"
    proof
      assume "junk = []"
      then have "take ?k (x # xs) = take ?k H"
        using Cons.prems(1,3) by (intro take_common[of _ ys _ rest]) simp_all
      moreover have "at_marker ?k H" using Cons.prems(2) by (rule at_marker_prefix) simp
      ultimately show False using False by (simp add: at_marker_def)
    qed
    then obtain junk' where junk: "junk = x # junk'" using Cons.prems(1) by (cases junk) auto
    have "\<not> at_marker 8 (drop i (junk' @ H))" if "i < length junk'" for i
      using Cons.prems(4)[of "Suc i"] that junk by simp
    then obtain dropped junk2 where "junk' = dropped @ junk2" "resync xs @ ys = junk2 @ H @ rest"
      "8 \<le> length (resync xs) \<longrightarrow> junk2 = []"
      using Cons.IH[of junk'] Cons.prems(1-3) junk by auto
    then show ?thesis using False junk by (intro exI[of _ "x # dropped"] exI[of _ junk2]) auto
  qed
qed auto

lemma header_arrives:
  assumes "good (m_state c)" and "rx_ok (m_inboundMessage c)"
    and "m_rxState (m_inboundMessage c) = WaitingForHeader
      \<or> m_rxState (m_inboundMessage c) = ReadingHeader \<and> junk = []"
    and "rx_bytes (m_inboundMessage c) @ input (m_state c) = junk @ H @ rest"
    and H: "at_marker 8 H" "length H = 32"
    and "\<And>i. i < length junk \<Longrightarrow> \<not> at_marker 8 (drop i (junk @ H))"
  shows "\<exists>c'. Process env c = Process env c' \<and> good (m_state c') \<and> rx_ok (m_inboundMessage c')
    \<and> m_szMarker c' = m_szMarker c \<and> m_header (m_inboundMessage c') = bytes_packet H
    \<and> m_rxState (m_inboundMessage c') = CompleteHeader \<and> input (m_state c') = rest"
  using assms(1-4,7)
proof (induction "length (input (m_state c))" arbitrary: c junk rule: less_induct)
  case less
  note good = less.prems(1) and rx = less.prems(2) and stream = less.prems(4)
  let ?m = "m_inboundMessage c"
  show ?case
  proof (cases "m_rxState ?m = WaitingForHeader")
    case True
    have "length (rx_bytes ?m) < 8" using rx True by (simp add: rx_ok_def)
    then have some: "input (m_state c) \<noteq> []"
      using arg_cong[OF stream, of length] H(2) by auto
    obtain c1 bs where t: "process_turn env c = Some (None, c1)" "good (m_state c1)" "rx_ok (m_inboundMessage c1)"
      "m_szMarker c1 = m_szMarker c" "length (input (m_state c1)) < length (input (m_state c))"
      "input (m_state c) = bs @ input (m_state c1)"
      "rx_bytes (m_inboundMessage c1) = resync (rx_bytes ?m @ bs)"
      "m_rxState (m_inboundMessage c1)
        = (if 8 \<le> length (rx_bytes (m_inboundMessage c1)) then ReadingHeader else WaitingForHeader)"
      using turn_Waiting[OF good rx True] some by auto
    have "(rx_bytes ?m @ bs) @ input (m_state c1) = junk @ H @ rest" using stream t(6) by simp
    from resync_position[OF this H(1) _ less.prems(5)] H(2) obtain dropped junk2 where
      j: "junk = dropped @ junk2" "resync (rx_bytes ?m @ bs) @ input (m_state c1) = junk2 @ H @ rest"
        "8 \<le> length (resync (rx_bytes ?m @ bs)) \<longrightarrow> junk2 = []" by auto
    have "\<not> at_marker 8 (drop i (junk2 @ H))" if "i < length junk2" for i
      using less.prems(5)[of "length dropped + i"] that j(1) by simp
    moreover have "m_rxState (m_inboundMessage c1) = WaitingForHeader
        \<or> m_rxState (m_inboundMessage c1) = ReadingHeader \<and> junk2 = []"
      using t(7,8) j(3) by auto
    ultimately obtain c' where "Process env c1 = Process env c' \<and> good (m_state c')
        \<and> rx_ok (m_inboundMessage c') \<and> m_szMarker c' = m_szMarker c1
        \<and> m_header (m_inboundMessage c') = bytes_packet H
        \<and> m_rxState (m_inboundMessage c') = CompleteHeader \<and> input (m_state c') = rest"
      using less.hyps[OF t(5) t(2,3), of junk2] t(7) j(2) by auto
    then show ?thesis using t(4) Process_go[OF t(1)] by auto
  next
    case False
    then have st: "m_rxState ?m = ReadingHeader" "junk = []" using less.prems(3) by auto
    have h: "header_phase ?m" using rx st by (simp add: rx_ok_def)
    note turn = turn_Reading[OF good rx st(1)]
    show ?thesis
    proof (cases "m_left ?m = 0")
      case True
      then have "length (rx_bytes ?m) = 32" using length_rx_bytes[OF h] by simp
      then have "rx_bytes ?m = H \<and> input (m_state c) = rest" using stream st H(2) by simp
      then show ?thesis using turn True Process_go by (auto simp: if_P)
    next
      case more: False
      have "input (m_state c) \<noteq> []"
      proof
        assume "input (m_state c) = []"
        then have "32 \<le> length (rx_bytes ?m)" using stream st H(2) by simp
        moreover have "0 < unat (m_left ?m)" using more by (simp add: unat_gt_0)
        ultimately show False using length_rx_bytes[OF h] by linarith
      qed
      then obtain c1 bs where t: "process_turn env c = Some (None, c1)" "good (m_state c1)"
        "rx_ok (m_inboundMessage c1)" "m_szMarker c1 = m_szMarker c"
        "length (input (m_state c1)) < length (input (m_state c))"
        "input (m_state c) = bs @ input (m_state c1)"
        "rx_bytes (m_inboundMessage c1) = rx_bytes ?m @ bs" "header_phase (m_inboundMessage c1)"
        "m_rxState (m_inboundMessage c1)
          = (if length (rx_bytes (m_inboundMessage c1)) = 32 then CompleteHeader else ReadingHeader)"
        using turn more by auto
      have stream1: "rx_bytes (m_inboundMessage c1) @ input (m_state c1) = H @ rest"
        using stream st t(6,7) by simp
      show ?thesis
      proof (cases "length (rx_bytes (m_inboundMessage c1)) = 32")
        case True
        then have "rx_bytes (m_inboundMessage c1) = H \<and> input (m_state c1) = rest"
          using stream1 H(2) by simp
        moreover have "m_left (m_inboundMessage c1) = 0"
          using True header_left_0[OF t(8)] by simp
        ultimately show ?thesis
          using t True rx_bytes_all[OF t(8)] Process_go[OF t(1)] by auto
      next
        case False
        then show ?thesis
          using less.hyps[OF t(5) t(2,3), of "[]"] t(9) stream1 Process_go[OF t(1)] t(4) by auto
      qed
    qed
  qed
qed

lemma payload_arrives:
  assumes "good (m_state c)" and "rx_ok (m_inboundMessage c)"
    and "m_rxState (m_inboundMessage c) = ReadingPayload"
    and "pl_bytes (m_inboundMessage c) @ input (m_state c) = P @ rest"
    and "length P = unat (m_size (m_header (m_inboundMessage c)))"
    and timely: "\<And>s n bs s'. good s \<Longrightarrow> ReceiveBytes (m_phy env) s n = (True, bs, s') \<Longrightarrow>
      HAL_Time_TicksToTime env (HAL_Time_CurrentTicks env s' - HAL_Time_CurrentTicks env s) < c_PayloadTimeout"
    and "HAL_Time_TicksToTime env (HAL_Time_CurrentTicks env (m_state c)
      - m_payloadTicks (m_inboundMessage c)) < c_PayloadTimeout"
  shows "\<exists>c'. Process env c = Process env c' \<and> good (m_state c') \<and> rx_ok (m_inboundMessage c')
    \<and> m_szMarker c' = m_szMarker c \<and> m_header (m_inboundMessage c') = m_header (m_inboundMessage c)
    \<and> m_payload (m_inboundMessage c') = Some P
    \<and> m_rxState (m_inboundMessage c') = CompletePayload \<and> input (m_state c') = rest"
  using assms(1-5,7)
proof (induction "length (input (m_state c))" arbitrary: c rule: less_induct)
  case less
  note good = less.prems(1) and rx = less.prems(2) and st = less.prems(3) and stream = less.prems(4)
  let ?m = "m_inboundMessage c"
  obtain buf where buf: "m_payload ?m = Some buf" "length buf = length P" "unat (m_left ?m) \<le> length buf"
    "m_left ?m \<noteq> 0" using rx st less.prems(5) by (auto simp: rx_ok_def)
  then have pos: "0 < unat (m_left ?m)" by (simp add: unat_gt_0)
  then have "length (pl_bytes ?m) < length P" using buf by (simp add: pl_bytes_def)
  then have some: "input (m_state c) \<noteq> []" using arg_cong[OF stream, of length] by auto
  have time: "HAL_Time_TicksToTime env (HAL_Time_CurrentTicks env (m_state c) - m_payloadTicks ?m)
      < c_PayloadTimeout" using less.prems(6) by simp
  obtain c1 bs where t: "process_turn env c = Some (None, c1)" "good (m_state c1)"
    "rx_ok (m_inboundMessage c1)" "m_szMarker c1 = m_szMarker c"
    "m_header (m_inboundMessage c1) = m_header ?m"
    "length (input (m_state c1)) < length (input (m_state c))"
    "input (m_state c) = bs @ input (m_state c1)"
    "pl_bytes (m_inboundMessage c1) = pl_bytes ?m @ bs"
    "\<exists>n. ReceiveBytes (m_phy env) (m_state c) n = (True, bs, m_state c1)"
    "m_payloadTicks (m_inboundMessage c1) = HAL_Time_CurrentTicks env (m_state c)"
    "m_rxState (m_inboundMessage c1)
      = (if m_left (m_inboundMessage c1) = 0 then CompletePayload else ReadingPayload)"
    using turn_ReadingPayload[OF good rx st] some time by auto
  have stream1: "pl_bytes (m_inboundMessage c1) @ input (m_state c1) = P @ rest"
    using stream t(7,8) by simp
  show ?case
  proof (cases "m_left (m_inboundMessage c1) = 0")
    case True
    have "m_size (m_header ?m) \<noteq> 0" using pos buf(2,3) less.prems(5) by (auto simp: unat_eq_0)
    then obtain buf1 where b1: "m_payload (m_inboundMessage c1) = Some buf1" "length buf1 = length P"
      using t(3,5,11) True less.prems(5) by (auto simp: rx_ok_def)
    then have "buf1 = P \<and> input (m_state c1) = rest"
      using stream1 True by (simp add: pl_bytes_def)
    then show ?thesis using t True b1 Process_go[OF t(1)] by auto
  next
    case False
    have "HAL_Time_TicksToTime env (HAL_Time_CurrentTicks env (m_state c1)
        - m_payloadTicks (m_inboundMessage c1)) < c_PayloadTimeout"
      using t(9,10) timely[OF good] by auto
    then show ?thesis
      using False less.hyps[OF t(6) t(2,3)] t stream1 less.prems(5) Process_go[OF t(1)] by auto
  qed
qed

lemma packet_delivered:
  assumes good: "good (m_state c)" and rx: "rx_ok (m_inboundMessage c)"
    and st: "m_rxState (m_inboundMessage c) = Initialize"
    and input: "input (m_state c) = junk @ packet_bytes h @ P @ rest"
    and sig: "m_signature h = MARKER_DEBUGGER_V1 \<or> m_signature h = MARKER_PACKET_V1"
    and junk: "\<And>i. i < length junk \<Longrightarrow> \<not> at_marker 8 (drop i (junk @ packet_bytes h))"
    and crc: "header_crc h = Some (m_crcHeader h)"
    and len: "length P = unat (m_size h)"
    and accept: "\<And>c1. good (m_state c1) \<Longrightarrow> m_header (m_inboundMessage c1) = h \<Longrightarrow>
      \<exists>c2. App_Header (m_app env) c1 = Some (True, c2)
        \<and> (m_size h \<noteq> 0 \<longrightarrow> m_payload (m_inboundMessage c2) \<noteq> None)"
    and now: "HAL_Time_TicksToTime env 0 < c_PayloadTimeout"
    and timely: "\<And>s n bs s'. good s \<Longrightarrow> ReceiveBytes (m_phy env) s n = (True, bs, s') \<Longrightarrow>
      HAL_Time_TicksToTime env (HAL_Time_CurrentTicks env s' - HAL_Time_CurrentTicks env s) < c_PayloadTimeout"
  shows "\<exists>c'. Process env c = Process env c' \<and> good (m_state c') \<and> rx_ok (m_inboundMessage c')
    \<and> m_szMarker c' = m_szMarker c \<and> m_header (m_inboundMessage c') = h
    \<and> (m_size h \<noteq> 0 \<longrightarrow> m_payload (m_inboundMessage c') = Some P)
    \<and> m_rxState (m_inboundMessage c') = CompletePayload \<and> input (m_state c') = rest"
proof -
  have sig8: "length (m_signature h) = 8" using sig by (auto simp: MARKER_DEBUGGER_V1_def MARKER_PACKET_V1_def)
  have H: "at_marker 8 (packet_bytes h)" "length (packet_bytes h) = 32" "bytes_packet (packet_bytes h) = h"
    using sig sig8 by (auto simp: at_marker_def bytes_packet_packet_bytes) (auto simp: packet_bytes_def)
  obtain c0 where c0: "process_turn env c = Some (None, c0)" "undisturbed good input c c0"
    "rx_ok (m_inboundMessage c0)" "m_rxState (m_inboundMessage c0) = WaitingForHeader"
    "rx_bytes (m_inboundMessage c0) = []"
    using turn_Initialize[OF good rx st] by blast
  then obtain c1 where c1: "Process env c0 = Process env c1" "good (m_state c1)" "rx_ok (m_inboundMessage c1)"
    "m_szMarker c1 = m_szMarker c0" "m_header (m_inboundMessage c1) = h"
    "m_rxState (m_inboundMessage c1) = CompleteHeader" "input (m_state c1) = P @ rest"
    using header_arrives[of c0 junk "packet_bytes h" "P @ rest"] H junk input
    by (auto simp: undisturbed_def)
  obtain c2 where c2: "App_Header (m_app env) c1 = Some (True, c2)"
    "m_size h \<noteq> 0 \<longrightarrow> m_payload (m_inboundMessage c2) \<noteq> None"
    using accept[OF c1(2,5)] by blast
  obtain p where p: "undisturbed good input c1 c2" "m_inboundMessage c2 = (m_inboundMessage c1)\<lparr>m_payload := p\<rparr>"
    "\<And>buf. p = Some buf \<Longrightarrow> m_size h \<noteq> 0 \<Longrightarrow> length buf = unat (m_size h)"
    using header_law[OF c1(2) c2(1)] c1(5) by auto
  define c3 where "c3 = after_header env c2"
  have "process_turn env c1 = Some (None, c3)"
    using c1(5,6) crc c2(1) by (simp add: process_turn_def turn_CompleteHeader_def VerifyHeader_def c3_def)
  then have go: "Process env c = Process env c3"
    using Process_go[OF c0(1)] c1(1) Process_go[of _ c1 c3] by simp
  have c3: "good (m_state c3)" "input (m_state c3) = P @ rest"
    "m_szMarker c3 = m_szMarker c" "m_header (m_inboundMessage c3) = h"
    using p c0(2) c1(4,5,7) by (simp_all add: c3_def after_header_def undisturbed_def Let_def)
  show ?thesis
  proof (cases "m_size h = 0")
    case True
    have "rx_ok (m_inboundMessage c3) \<and> m_rxState (m_inboundMessage c3) = CompletePayload"
      using p(2) c1(5) sig8 True by (simp add: c3_def after_header_def rx_ok_def)
    then show ?thesis using True go c3 len by auto
  next
    case False
    then obtain buf where buf: "p = Some buf" "length buf = unat (m_size h)" using c2(2) p by auto
    have r: "rx_ok (m_inboundMessage c3)" "m_rxState (m_inboundMessage c3) = ReadingPayload"
      "pl_bytes (m_inboundMessage c3) = []"
      "m_payloadTicks (m_inboundMessage c3) = HAL_Time_CurrentTicks env (m_state c3)"
      using p(2) c1(5) sig8 False buf
      by (auto simp: c3_def after_header_def rx_ok_def pl_bytes_def Let_def)
    then show ?thesis
      using payload_arrives[of c3 P rest] c3 len now timely go False by auto
  qed
qed

end

section \<open>What the layers keep, the controller keeps\<close>

text \<open>
  A property of the device that every operation of the two layers keeps, the callbacks with whatever the
  controller is in at the time.
\<close>

locale device_invariant =
  fixes env :: "'s wp_env" and ok :: "'s \<Rightarrow> bool"
  assumes receive_ok: "ok s \<Longrightarrow> ReceiveBytes (m_phy env) s n = (r, bs, s') \<Longrightarrow> ok s'"
    and transmit_ok: "ok s \<Longrightarrow> TransmitMessage (m_phy env) s msg = Some (r, s') \<Longrightarrow> ok s'"
    and header_ok: "ok (m_state c) \<Longrightarrow> App_Header (m_app env) c = Some (r, c') \<Longrightarrow> ok (m_state c')"
    and payload_ok: "ok (m_state c) \<Longrightarrow> App_Payload (m_app env) c = Some (r, c') \<Longrightarrow> ok (m_state c')"
    and free_ok: "ok (m_state c) \<Longrightarrow> App_Free (m_app env) c = Some (r, c') \<Longrightarrow> ok (m_state c')"
begin

lemma receive_call_ok: "ok (m_state c) \<Longrightarrow> receive env c = Some (r, c') \<Longrightarrow> ok (m_state c')"
  by (auto simp: receive_def Let_def split: prod.splits dest: receive_ok)

lemma send_ok: "ok (m_state c) \<Longrightarrow> SendMessage (m_phy env) msg c = Some (r, c') \<Longrightarrow> ok (m_state c')"
  by (auto simp: SendMessage_def dest: transmit_ok)

lemma bad_packet_ok:
  assumes "ok (m_state c)" and "ReplyBadPacket env flg c = Some c'"
  shows "ok (m_state c')"
proof -
  obtain c2 msg b where "PrepareRequest 0 (c_NonCritical OR c_NACK OR flg) 0 None c Message_Initialize = Some (c2, msg)"
    and s: "SendMessage (m_phy env) msg c2 = Some (b, c')"
    using assms(2) by (auto simp: ReplyBadPacket_def bind_eq_Some_conv)
  then have "m_state c2 = m_state c" by (auto simp: PrepareRequest_def bind_eq_Some_conv Let_def)
  with assms(1) show ?thesis using send_ok[OF _ s] by simp
qed

lemma bad_header_ok: "ok (m_state c) \<Longrightarrow> bad_header env c = Some c' \<Longrightarrow> ok (m_state c')"
  using bad_packet_ok[of c] by (auto simp: bad_header_def set_rx_def split: if_splits)

lemma turn_ok:
  assumes "ok (m_state c)" and "process_turn env c = Some (r, c')"
  shows "ok (m_state c')"
proof (cases "m_rxState (m_inboundMessage c)")
  case Initialize
  then show ?thesis using assms
    by (auto simp: process_turn_def turn_Initialize_def Message_Release_def split: if_splits dest: free_ok)
next
  case WaitingForHeader
  then show ?thesis using assms
    by (auto simp: process_turn_def turn_WaitingForHeader_def Let_def set_rx_def split: if_splits prod.splits
        dest: receive_call_ok)
next
  case ReadingHeader
  then show ?thesis using assms
    by (auto simp: process_turn_def turn_ReadingHeader_def set_rx_def split: if_splits dest: receive_call_ok)
next
  case CompleteHeader
  have "ok (m_state (after_header env c1))" if "ok (m_state c1)" for c1
    using that by (simp add: after_header_def Let_def set_rx_def)
  then show ?thesis using assms CompleteHeader
    using bad_header_ok[OF assms(1)] bad_header_ok header_ok[OF assms(1)]
    by (auto simp: process_turn_def turn_CompleteHeader_def bind_eq_Some_conv split: if_splits)
next
  case ReadingPayload
  let ?c = "on_inbound (\<lambda>m. m\<lparr>m_payloadTicks := HAL_Time_CurrentTicks env (m_state c)\<rparr>) c"
  have "ok (m_state c1)" if "receive env ?c = Some (b, c1)" for b c1
    using receive_call_ok[OF _ that] assms(1) by simp
  then show ?thesis using assms ReadingPayload
    by (auto simp: process_turn_def turn_ReadingPayload_def Let_def set_rx_def split: if_splits)
next
  case CompletePayload
  then show ?thesis using assms
    by (auto simp: process_turn_def turn_CompletePayload_def bind_eq_Some_conv set_rx_def split: if_splits
        dest: bad_packet_ok payload_ok)
qed (use assms in \<open>auto simp: process_turn_def\<close>)

lemma process_ok: "Process e c = Some (b, c') \<Longrightarrow> e = env \<Longrightarrow> ok (m_state c) \<Longrightarrow> ok (m_state c')"
proof (induction "(b, c')" arbitrary: b c' rule: Process.raw_induct[rotated, consumes 1, case_names step])
  case (step proc env' c)
  obtain x c1 where turn: "process_turn env c = Some (x, c1)"
    "(case x of Some v \<Rightarrow> Some (v, c1) | None \<Rightarrow> proc env' c1) = Some (b, c')"
    using step(2,3) by (auto simp: bind_eq_Some_conv)
  have "ok (m_state c1)" using turn_ok[OF step(4) turn(1)] .
  then show ?case using turn(2) step(1)[of env' c1 b c'] step(3) by (cases x) auto
qed

end

section \<open>Only what is verified reaches the application\<close>

lemma process_turn_verified:
  assumes "m_phy e1 = m_phy e2" and "HAL_Time_CurrentTicks e1 = HAL_Time_CurrentTicks e2"
    and "HAL_Time_TicksToTime e1 = HAL_Time_TicksToTime e2" and "App_Free (m_app e1) = App_Free (m_app e2)"
    and "\<And>c. VerifyHeader (m_inboundMessage c) \<Longrightarrow> App_Header (m_app e1) c = App_Header (m_app e2) c"
    and "\<And>c. VerifyPayload (m_inboundMessage c) = Some True \<Longrightarrow> App_Payload (m_app e1) c = App_Payload (m_app e2) c"
  shows "process_turn e1 c = process_turn e2 c"
proof -
  have send: "receive e1 = receive e2" and bad: "ReplyBadPacket e1 = ReplyBadPacket e2"
    using assms(1) by (simp_all add: ReplyBadPacket_def receive_def fun_eq_iff)
  have after: "after_header e1 = after_header e2" "bad_header e1 = bad_header e2"
      "Message_Release e1 = Message_Release e2"
    by (intro ext, simp add: after_header_def bad_header_def Message_Release_def Let_def assms(1-4) bad)+
  have "turn_CompleteHeader e1 c = turn_CompleteHeader e2 c"
    using assms(5)[of c] by (simp only: turn_CompleteHeader_def after) (simp cong: if_cong)
  moreover have "turn_CompletePayload e1 c = turn_CompletePayload e2 c"
    using assms(6)[of c] bad by (cases "VerifyPayload (m_inboundMessage c)")
      (auto simp: turn_CompletePayload_def)
  ultimately show ?thesis
    using assms send after
    by (simp add: process_turn_def turn_Initialize_def turn_WaitingForHeader_def turn_ReadingHeader_def
        turn_ReadingPayload_def Let_def split: ReceiveState.split)
qed

lemma Process_same_turns:
  assumes "\<And>c. process_turn e1 c = process_turn e2 c"
  shows "Process e1 c = Process e2 c"
proof -
  have half: "Process b c = Some r"
    if "Process a c = Some r" and "\<And>c. process_turn a c = process_turn b c" for a b c r
    using that
  proof (induction rule: Process.raw_induct[rotated, consumes 1, case_names step])
    case (step proc env c r)
    obtain x c1 where turn: "process_turn env c = Some (x, c1)"
      "(case x of Some v \<Rightarrow> Some (v, c1) | None \<Rightarrow> proc env c1) = Some r"
      using step(2) by (auto simp: bind_eq_Some_conv)
    have "process_turn b c = Some (x, c1)" using step(3) turn(1) by simp
    then show ?case
      using turn(2) step(1)[of env c1 r] step(3)
      by (cases x) (simp_all add: Process_go Process_stop)
  qed
  show ?thesis using half[of e1 c _ e2] half[of e2 c _ e1] assms by (metis option.exhaust)
qed

text \<open>
  C33. The application sees nothing that is not verified: two applications that treat headers with a
  right checksum and payloads with a right checksum alike cannot be told apart, whatever they do with
  others.
\<close>

theorem only_verified_packets_reach_the_application:
  assumes "m_phy e1 = m_phy e2" and "HAL_Time_CurrentTicks e1 = HAL_Time_CurrentTicks e2"
    and "HAL_Time_TicksToTime e1 = HAL_Time_TicksToTime e2" and "App_Free (m_app e1) = App_Free (m_app e2)"
    and "\<And>c. VerifyHeader (m_inboundMessage c) \<Longrightarrow> App_Header (m_app e1) c = App_Header (m_app e2) c"
    and "\<And>c. VerifyPayload (m_inboundMessage c) = Some True \<Longrightarrow> App_Payload (m_app e1) c = App_Payload (m_app e2) c"
  shows "Process e1 c = Process e2 c"
  using process_turn_verified[OF assms] by (intro Process_same_turns) blast

definition deaf :: "nat WP_PhysicalLayer" where
  "deaf = \<lparr>ReceiveBytes = \<lambda>s n. (n = 0, [], s), TransmitMessage = \<lambda>s msg. Some (True, s + 1)\<rparr>"

definition careless :: "nat WP_ApplicationLayer" where
  "careless = \<lparr>App_Header = \<lambda>c. Some (True, c), App_Payload = \<lambda>c. Some (True, c), App_Free = \<lambda>c. Some (True, c)\<rparr>"

definition careful :: "nat WP_ApplicationLayer" where
  "careful = careless\<lparr>App_Header := \<lambda>c. Some (VerifyHeader (m_inboundMessage c), c),
     App_Payload := \<lambda>c. if VerifyPayload (m_inboundMessage c) = Some True then Some (True, c) else None\<rparr>"

lemma only_verified_packets_reach_the_application_witness:
  "Process \<lparr>m_phy = deaf, m_app = careless, HAL_Time_CurrentTicks = of_nat, HAL_Time_TicksToTime = id\<rparr>
     (Controller_Initialize None 0)
   = Process \<lparr>m_phy = deaf, m_app = careful, HAL_Time_CurrentTicks = of_nat, HAL_Time_TicksToTime = id\<rparr>
     (Controller_Initialize None 0)"
  by (rule only_verified_packets_reach_the_application) (simp_all add: careless_def careful_def)

section \<open>What the sender prepares is accepted\<close>

lemma PrepareRequest_valid:
  assumes "PrepareRequest cmd flg n p c msg = Some (c', msg')" and "length (marker_of c) = 8"
  shows "length (m_signature (m_header msg')) = 8" "m_signature (m_header msg') = marker_of c"
    "header_crc (m_header msg') = Some (m_crcHeader (m_header msg'))"
    "m_size (m_header msg') = n" "m_payload msg' = p" "m_cmd (m_header msg') = cmd"
    "m_flags (m_header msg') = flg" "m_seq (m_header msg') = m_lastOutboundMessage c"
    "SUPPORT_ComputeCRC (buffer_bytes p) (sint n) 0 = Some (m_crcData (m_header msg'))"
  using assms by (auto simp: PrepareRequest_def bind_eq_Some_conv header_crc_def Let_def)

lemma PrepareReply_valid:
  assumes "PrepareReply req flg n p c msg = Some (c', msg')" and "length (marker_of c) = 8"
  shows "length (m_signature (m_header msg')) = 8" "m_signature (m_header msg') = marker_of c"
    "header_crc (m_header msg') = Some (m_crcHeader (m_header msg'))"
    "m_size (m_header msg') = n" "m_payload msg' = p" "m_cmd (m_header msg') = m_cmd req"
    "m_flags (m_header msg') = flg OR c_Reply" "m_seq (m_header msg') = m_lastOutboundMessage c"
    "m_seqReply (m_header msg') = m_seq req"
    "SUPPORT_ComputeCRC (buffer_bytes p) (sint n) 0 = Some (m_crcData (m_header msg'))"
  using assms by (auto simp: PrepareReply_def bind_eq_Some_conv header_crc_def Let_def)

end
