(* ===== verification/Clr_Messaging.thy ===== *)
theory Clr_Messaging
  imports Debugger_Port Wire_Receiver
begin

text \<open>
  \<^verbatim>\<open>CLR/Messaging/Messaging.cpp\<close>, \<^verbatim>\<open>CLR/Include/TinyCLR_Messaging.h\<close> and the endpoints of
  \<^verbatim>\<open>CLR/Core/RPC/CLR_RT_HeapBlock_EndPoint.cpp\<close>: the layers above and below the wire protocol. Below
  it bytes go to the debugger port; above it a message is handed to the handler of its command, requests
  are answered, and copies of what was sent are kept, so that a repeated request is answered from
  the copy and a repeated reply is dropped.

  The object \<^verbatim>\<open>CLR_Messaging\<close> is the state \<open>m_state\<close> of its controller, so that the whole object is a
  \<open>WP_Controller\<close> over \<open>messaging\<close>. A pointer to a handler is the name of the handler; the handlers of
  the debugger are not modelled: what they do with a message is a parameter, as are the clock and the
  heap. Big endian processors are not modelled.
\<close>

section \<open>Endpoints\<close>

record Port =
  Port_type :: u32
  Port_id :: u32

record Address =
  Addr_seq :: u32
  Addr_from :: Port
  Addr_to :: Port

record Ep_Message =
  Msg_cmd :: u32
  Msg_addr :: Address
  Msg_found :: u32
  Msg_length :: u32
  Msg_data :: "u8 list"

record EndPoint =
  Ep_addr :: Port
  Ep_messages :: "Ep_Message list"
  Ep_seq :: u32

definition FindEndPoint :: "Port \<Rightarrow> EndPoint list \<Rightarrow> EndPoint option" where
  "FindEndPoint port eps =
     find (\<lambda>ep. Port_type (Ep_addr ep) = Port_type port \<and> Port_id (Ep_addr ep) = Port_id port) eps"

definition Port_Compare :: "Port \<Rightarrow> Port \<Rightarrow> bool" where
  "Port_Compare p q \<longleftrightarrow> Port_type p = Port_type q \<and> Port_id p = Port_id q"

definition FindMessage :: "u32 \<Rightarrow> u32 option \<Rightarrow> EndPoint \<Rightarrow> Ep_Message option" where
  "FindMessage cmd seq ep =
     find (\<lambda>msg. Msg_cmd msg = cmd \<and> (case seq of None \<Rightarrow> True | Some s \<Rightarrow> Addr_seq (Msg_addr msg) = s))
       (Ep_messages ep)"

text \<open>Queue a message at the first endpoint with the address, the one that \<open>FindEndPoint\<close> returns.\<close>

fun queue_message :: "Port \<Rightarrow> Ep_Message \<Rightarrow> EndPoint list \<Rightarrow> EndPoint list" where
  "queue_message port msg [] = []"
| "queue_message port msg (ep # eps) =
     (if Port_type (Ep_addr ep) = Port_type port \<and> Port_id (Ep_addr ep) = Port_id port
      then ep\<lparr>Ep_messages := Ep_messages ep @ [msg]\<rparr> # eps
      else ep # queue_message port msg eps)"

text \<open>The structures in memory.\<close>

definition sizeof_Address :: nat where "sizeof_Address = 20"

definition address_bytes :: "Address \<Rightarrow> u8 list" where
  "address_bytes a = word_bytes 4 (Addr_seq a)
     @ word_bytes 4 (Port_type (Addr_from a)) @ word_bytes 4 (Port_id (Addr_from a))
     @ word_bytes 4 (Port_type (Addr_to a)) @ word_bytes 4 (Port_id (Addr_to a))"

definition bytes_address :: "u8 list \<Rightarrow> Address" where
  "bytes_address bs = \<lparr>Addr_seq = bytes_word (take 4 bs),
     Addr_from = \<lparr>Port_type = bytes_word (take 4 (drop 4 bs)), Port_id = bytes_word (take 4 (drop 8 bs))\<rparr>,
     Addr_to = \<lparr>Port_type = bytes_word (take 4 (drop 12 bs)), Port_id = bytes_word (take 4 (drop 16 bs))\<rparr>\<rparr>"

section \<open>State\<close>

type_synonym i64 = "64 word"

definition c_Messaging_Query :: u32 where "c_Messaging_Query = 0x00020090"
definition c_Messaging_Send :: u32 where "c_Messaging_Send = 0x00020091"
definition c_Messaging_Reply :: u32 where "c_Messaging_Reply = 0x00020092"

definition c_Processed :: u32 where "c_Processed = 1"
definition c_MaxCacheSize :: u32 where "c_MaxCacheSize = 5 * 1024"
definition TIME_CONVERSION__TO_SECONDS :: i64 where "TIME_CONVERSION__TO_SECONDS = 10000000"
definition c_Event_EndPoint :: u32 where "c_Event_EndPoint = 0x01000000"

record CachedMessage =
  Cm_flags :: u32
  Cm_size :: u32
  Cm_lastSeen :: i64
  Cm_message :: WP_Message

datatype handler =
    Messaging_Query | Messaging_Query__Reply | Messaging_Send | Messaging_Send__Reply
  | Messaging_Reply | Messaging_Reply__Reply | Other_Handler nat

text \<open>A table of handlers with its owner; \<open>size\<close> of the structure is the length of the list.\<close>

record lookups =
  Lk_table :: "(handler \<times> u32) list"
  Lk_owner :: nat

definition c_Messaging_Lookup_Request :: "(handler \<times> u32) list" where
  "c_Messaging_Lookup_Request =
     [(Messaging_Query, c_Messaging_Query), (Messaging_Send, c_Messaging_Send),
      (Messaging_Reply, c_Messaging_Reply)]"

definition c_Messaging_Lookup_Reply :: "(handler \<times> u32) list" where
  "c_Messaging_Lookup_Reply =
     [(Messaging_Query, c_Messaging_Query), (Messaging_Send, c_Messaging_Send),
      (Messaging_Reply, c_Messaging_Reply)]"

datatype clr_call = Allocate nat | Release | SignalEvents u32 | Watchdog_ResetCounter

record 'a messaging =
  m_fInitialized :: bool
  m_fDebuggerInitialized :: bool
  m_Lookup_Requests :: "lookups list"
  m_Lookup_Replies :: "lookups list"
  m_cacheSubordinate :: "CachedMessage list"
  m_cacheMaster :: "CachedMessage list"
  m_cacheTotalSize :: u32
  m_port :: u32
  dev :: com
  endPoints :: "EndPoint list"
  clr_calls :: "clr_call list"
  debugger :: 'a

type_synonym 'a ctrl = "'a messaging WP_Controller"

text \<open>What a handler of the debugger does with the message: it answers, or sends events.\<close>

datatype reaction = Answer bool bool "u8 list" | Event u32 u32 "u8 list"

record 'a clr_env =
  port_env :: com_env
  MessagingPort :: u32
  DebuggerPort :: u32
  fDoNotUninitializeDebuggerPort :: bool
  sizeof_CachedMessage :: u32
  sizeof_Ep_Message :: nat
  allocates :: "'a messaging \<Rightarrow> nat \<Rightarrow> bool"
  fresh_byte :: "'a messaging \<Rightarrow> nat \<Rightarrow> u8"
  Time_GetMachineTime :: "'a messaging \<Rightarrow> i64"
  CurrentTicks :: "'a messaging \<Rightarrow> u64"
  TicksToTime :: "u64 \<Rightarrow> u64"
  other_handler :: "nat \<Rightarrow> nat \<Rightarrow> WP_Message \<Rightarrow> 'a \<Rightarrow> (bool \<times> reaction list \<times> 'a) option"

definition on_state :: "('a messaging \<Rightarrow> 'a messaging) \<Rightarrow> 'a ctrl \<Rightarrow> 'a ctrl" where
  "on_state f c = c\<lparr>m_state := f (m_state c)\<rparr>"

definition noted :: "clr_call \<Rightarrow> 'a messaging \<Rightarrow> 'a messaging" where
  "noted e s = s\<lparr>clr_calls := clr_calls s @ [e]\<rparr>"

definition heap_allocate :: "'a clr_env \<Rightarrow> nat \<Rightarrow> 'a messaging \<Rightarrow> bool \<times> 'a messaging" where
  "heap_allocate E n s = (allocates E s n, noted (Allocate n) s)"

section \<open>The physical layer\<close>

definition Phy_ReceiveBytes ::
    "'a clr_env \<Rightarrow> 'a messaging \<Rightarrow> u32 \<Rightarrow> bool \<times> u8 list \<times> 'a messaging" where
  "Phy_ReceiveBytes E s n =
     (if n \<noteq> 0 then
        (let (ret, bs, d) = DebuggerPort_Read (port_env E) (m_port s) (unat n) (dev s); s1 = s\<lparr>dev := d\<rparr>
         in if ret \<le> 0 then (False, [], s1) else (True, bs, s1))
      else (True, [], s))"

text \<open>The copy of a message that was sent, in front of the list it belongs to.\<close>

definition cached_copy :: "WP_Message \<Rightarrow> WP_Message" where
  "cached_copy msg =
     (if m_size (m_header msg) \<noteq> 0 \<and> m_payload msg \<noteq> None
      then msg\<lparr>m_payload := map_option (take (unat (m_size (m_header msg)))) (m_payload msg)\<rparr>
      else msg\<lparr>m_header := (m_header msg)\<lparr>m_size := 0\<rparr>, m_payload := None\<rparr>)"

definition cache_message :: "'a clr_env \<Rightarrow> WP_Message \<Rightarrow> 'a messaging \<Rightarrow> 'a messaging" where
  "cache_message E msg s =
     (let flags = m_flags (m_header msg) in
      if flags AND c_NoCaching \<noteq> 0 \<or> flags AND c_Reply = 0 \<and> flags AND c_NonCritical \<noteq> 0 then s
      else
        let len = sizeof_CachedMessage E + m_size (m_header msg); (ok, s1) = heap_allocate E (unat len) s in
        if \<not> ok then s1
        else
          let cache = \<lparr>Cm_flags = 0, Cm_size = len, Cm_lastSeen = Time_GetMachineTime E s1,
                       Cm_message = cached_copy msg\<rparr>;
              s2 = s1\<lparr>m_cacheTotalSize := m_cacheTotalSize s1 + len\<rparr>
          in if flags AND c_Reply \<noteq> 0 then s2\<lparr>m_cacheSubordinate := cache # m_cacheSubordinate s2\<rparr>
             else s2\<lparr>m_cacheMaster := cache # m_cacheMaster s2\<rparr>)"

text \<open>\<open>None\<close> is a flush that does not return or a payload that is shorter than the header says.\<close>

definition Messaging_TransmitMessage ::
    "'a clr_env \<Rightarrow> WP_Message \<Rightarrow> bool \<Rightarrow> 'a messaging \<Rightarrow> (bool \<times> 'a messaging) option" where
  "Messaging_TransmitMessage E msg fQueue s =
     (let payloadSize = m_size (m_header msg);
          write = \<lambda>bs d. DebuggerPort_Write (port_env E) (m_port s) bs default_retries d;
          (n, d1) = write (packet_bytes (m_header msg)) (dev s)
      in if n \<noteq> int sizeof_packet then Some (False, s\<lparr>dev := d1\<rparr>)
         else if payloadSize \<noteq> 0 \<and> m_payload msg \<noteq> None \<and> length (the (m_payload msg)) < unat payloadSize then None
         else
           let (k, d2) = (if payloadSize \<noteq> 0 \<and> m_payload msg \<noteq> None
                          then write (take (unat payloadSize) (the (m_payload msg))) d1
                          else (int (unat payloadSize), d1))
           in if k \<noteq> int (unat payloadSize) then Some (False, s\<lparr>dev := d2\<rparr>)
              else map_option (\<lambda>(_, d3). (True, if fQueue then cache_message E msg (s\<lparr>dev := d3\<rparr>) else s\<lparr>dev := d3\<rparr>))
                     (DebuggerPort_Flush (port_env E) (m_port s) d2))"

definition Phy_TransmitMessage :: "'a clr_env \<Rightarrow> 'a messaging \<Rightarrow> WP_Message \<Rightarrow> (bool \<times> 'a messaging) option" where
  "Phy_TransmitMessage E s msg = Messaging_TransmitMessage E msg True s"

definition messaging_phy :: "'a clr_env \<Rightarrow> 'a messaging WP_PhysicalLayer" where
  "messaging_phy E = \<lparr>ReceiveBytes = Phy_ReceiveBytes E, TransmitMessage = Phy_TransmitMessage E\<rparr>"

section \<open>Answers\<close>

definition answered :: "WP_Message \<Rightarrow> WP_Message" where
  "answered msg = msg\<lparr>m_header := (m_header msg)\<lparr>m_flags := m_flags (m_header msg) OR c_NonCritical\<rparr>\<rparr>"

text \<open>
  The message is the one that is received. That it is not answered twice is a flag in its header, which is
  also the flag of a message that wants no answer.
\<close>

definition ReplyToCommand :: "'a clr_env \<Rightarrow> bool \<Rightarrow> bool \<Rightarrow> u8 list option \<Rightarrow> 'a ctrl \<Rightarrow> 'a ctrl option" where
  "ReplyToCommand E fSuccess fCritical ptr c =
     (let h = m_header (m_inboundMessage c) in
      if m_flags h AND c_NonCritical \<noteq> 0 then Some c
      else
        let c1 = on_inbound answered c;
            flags = (if m_flags h AND c_NoCaching \<noteq> 0 then c_NoCaching else 0)
              OR (if fSuccess then c_ACK else c_NACK) OR (if \<not> fCritical then c_NonCritical else 0);
            ptr' = (if fSuccess then ptr else None)
        in Option.bind (PrepareReply (m_header (m_inboundMessage c1)) flags (of_nat (length (buffer_bytes ptr')))
              ptr' c1 Message_Initialize)
            (\<lambda>(c2, msg). map_option snd (SendMessage (messaging_phy E) msg c2)))"

definition SendEvent :: "'a clr_env \<Rightarrow> u32 \<Rightarrow> u32 \<Rightarrow> u8 list option \<Rightarrow> u32 \<Rightarrow> 'a ctrl \<Rightarrow> (bool \<times> 'a ctrl) option"
where
  "SendEvent E cmd payloadSize bs flg c =
     SendProtocolMessage (messaging_phy E) cmd flg payloadSize bs c"

section \<open>Handlers\<close>

definition AllocateAndQueueMessage ::
    "'a clr_env \<Rightarrow> u32 \<Rightarrow> u8 list \<Rightarrow> Port \<Rightarrow> Address \<Rightarrow> u32 \<Rightarrow> 'a messaging \<Rightarrow> bool \<times> 'a messaging" where
  "AllocateAndQueueMessage E cmd bs port addr found s =
     (if FindEndPoint port (endPoints s) = None then (False, s)
      else let (ok, s1) = heap_allocate E (sizeof_Ep_Message E + length bs) s in
        if \<not> ok then (False, s1)
        else
          let rpc = \<lparr>Msg_cmd = cmd, Msg_addr = addr, Msg_found = found, Msg_length = of_nat (length bs),
                     Msg_data = bs\<rparr>
          in (True, noted (SignalEvents c_Event_EndPoint)
                (s1\<lparr>endPoints := queue_message port rpc (endPoints s1)\<rparr>)))"

definition inbound_bytes :: "'a ctrl \<Rightarrow> u8 list" where
  "inbound_bytes c = buffer_bytes (m_payload (m_inboundMessage c))"

text \<open>
  The handlers read a structure at the beginning of the payload. A payload that is shorter than that
  is read, or copied with a length below zero, outside its buffer: \<open>None\<close>.
\<close>

definition run_Messaging_Query :: "'a clr_env \<Rightarrow> 'a ctrl \<Rightarrow> (bool \<times> 'a ctrl) option" where
  "run_Messaging_Query E c =
     (let p = inbound_bytes c in
      if length p < sizeof_Address then None
      else
        let addr = bytes_address p;
            found = (if FindEndPoint (Addr_to addr) (endPoints (m_state c)) \<noteq> None then 1 else 0) :: u32
        in map_option (Pair True)
             (ReplyToCommand E True False (Some (word_bytes 4 found @ address_bytes addr)) c))"

definition run_Messaging_Query__Reply :: "'a clr_env \<Rightarrow> 'a ctrl \<Rightarrow> (bool \<times> 'a ctrl) option" where
  "run_Messaging_Query__Reply E c =
     (let p = inbound_bytes c in
      if length p < 4 + sizeof_Address then None
      else
        let found = bytes_word (take 4 p); addr = bytes_address (drop 4 p)
        in Some (True, on_state (\<lambda>s. snd (AllocateAndQueueMessage E c_Messaging_Query [] (Addr_from addr) addr found s)) c))"

text \<open>\<open>Messaging_Send\<close> and \<open>Messaging_Reply\<close> differ in the command and in the port.\<close>

definition queue_and_answer :: "'a clr_env \<Rightarrow> u32 \<Rightarrow> (Address \<Rightarrow> Port) \<Rightarrow> 'a ctrl \<Rightarrow> (bool \<times> 'a ctrl) option" where
  "queue_and_answer E cmd port c =
     (let p = inbound_bytes c in
      if length p < sizeof_Address then None
      else
        let addr = bytes_address p;
            (fRes, s1) = AllocateAndQueueMessage E cmd (drop sizeof_Address p) (port addr) addr 0 (m_state c)
        in map_option (Pair True)
             (ReplyToCommand E fRes False (Some (word_bytes 4 (1 :: u32) @ address_bytes addr)) (c\<lparr>m_state := s1\<rparr>)))"

definition run_Messaging_Send :: "'a clr_env \<Rightarrow> 'a ctrl \<Rightarrow> (bool \<times> 'a ctrl) option" where
  "run_Messaging_Send E c = queue_and_answer E c_Messaging_Send Addr_to c"

definition run_Messaging_Reply :: "'a clr_env \<Rightarrow> 'a ctrl \<Rightarrow> (bool \<times> 'a ctrl) option" where
  "run_Messaging_Reply E c = queue_and_answer E c_Messaging_Reply Addr_from c"

definition run_Messaging_Send__Reply :: "'a ctrl \<Rightarrow> (bool \<times> 'a ctrl) option" where
  "run_Messaging_Send__Reply c = Some (True, c)"

definition run_Messaging_Reply__Reply :: "'a ctrl \<Rightarrow> (bool \<times> 'a ctrl) option" where
  "run_Messaging_Reply__Reply c = Some (True, c)"

fun run_reactions :: "'a clr_env \<Rightarrow> reaction list \<Rightarrow> 'a ctrl \<Rightarrow> 'a ctrl option" where
  "run_reactions E [] c = Some c"
| "run_reactions E (Answer ok critical bs # rs) c =
     Option.bind (ReplyToCommand E ok critical (Some bs) c) (run_reactions E rs)"
| "run_reactions E (Event cmd flg bs # rs) c =
     Option.bind (SendEvent E cmd (of_nat (length bs)) (Some bs) flg c) (\<lambda>(_, c1). run_reactions E rs c1)"

definition run_other :: "'a clr_env \<Rightarrow> nat \<Rightarrow> nat \<Rightarrow> 'a ctrl \<Rightarrow> (bool \<times> 'a ctrl) option" where
  "run_other E f owner c =
     Option.bind (other_handler E f owner (m_inboundMessage c) (debugger (m_state c)))
       (\<lambda>(ok, rs, dbg). map_option (Pair ok) (run_reactions E rs (on_state (\<lambda>s. s\<lparr>debugger := dbg\<rparr>) c)))"

definition run_handler :: "'a clr_env \<Rightarrow> handler \<Rightarrow> nat \<Rightarrow> 'a ctrl \<Rightarrow> (bool \<times> 'a ctrl) option" where
  "run_handler E hnd owner c =
     (case hnd of
        Messaging_Query \<Rightarrow> run_Messaging_Query E c
      | Messaging_Query__Reply \<Rightarrow> run_Messaging_Query__Reply E c
      | Messaging_Send \<Rightarrow> run_Messaging_Send E c
      | Messaging_Send__Reply \<Rightarrow> run_Messaging_Send__Reply c
      | Messaging_Reply \<Rightarrow> run_Messaging_Reply E c
      | Messaging_Reply__Reply \<Rightarrow> run_Messaging_Reply__Reply c
      | Other_Handler f \<Rightarrow> run_other E f owner c)"

section \<open>Dispatch\<close>

text \<open>The first entry for the command, in the order of the tables.\<close>

fun find_handler :: "u32 \<Rightarrow> lookups list \<Rightarrow> (handler \<times> nat) option" where
  "find_handler cmd [] = None"
| "find_handler cmd (t # ts) =
     (case find (\<lambda>(hnd, n). n = cmd) (Lk_table t) of
        Some (hnd, n) \<Rightarrow> Some (hnd, Lk_owner t)
      | None \<Rightarrow> find_handler cmd ts)"

definition dispatch :: "'a clr_env \<Rightarrow> lookups list \<Rightarrow> 'a ctrl \<Rightarrow> 'a ctrl option" where
  "dispatch E tables c =
     (case find_handler (m_cmd (m_header (m_inboundMessage c))) tables of
        Some (hnd, owner) \<Rightarrow>
          Option.bind (run_handler E hnd owner c) (\<lambda>(ok, c1). ReplyToCommand E ok False None c1)
      | None \<Rightarrow> ReplyToCommand E False False None c)"

text \<open>The first entry of a cache with a property, and the others in their order.\<close>

definition take_out :: "('a \<Rightarrow> bool) \<Rightarrow> 'a list \<Rightarrow> ('a \<times> 'a list) option" where
  "take_out P xs = map_option (\<lambda>x. (x, takeWhile (\<lambda>y. \<not> P y) xs @ tl (dropWhile (\<lambda>y. \<not> P y) xs))) (find P xs)"

definition seen_now :: "'a clr_env \<Rightarrow> 'a messaging \<Rightarrow> CachedMessage \<Rightarrow> CachedMessage" where
  "seen_now E s m = m\<lparr>Cm_lastSeen := Time_GetMachineTime E s\<rparr>"

definition is_reply_to :: "WP_Packet \<Rightarrow> WP_Packet \<Rightarrow> bool" where
  "is_reply_to res req \<longleftrightarrow> m_cmd req = m_cmd res \<and> m_seq req = m_seqReply res"

definition process_reply :: "'a clr_env \<Rightarrow> 'a ctrl \<Rightarrow> 'a ctrl option" where
  "process_reply E c =
     (let s = m_state c; res = m_header (m_inboundMessage c) in
      case take_out (\<lambda>m. is_reply_to res (m_header (Cm_message m))) (m_cacheMaster s) of
        None \<Rightarrow> dispatch E (m_Lookup_Replies s) c
      | Some (m, rest) \<Rightarrow>
          let m1 = seen_now E s m in
          if Cm_flags m1 AND c_Processed \<noteq> 0 then Some (c\<lparr>m_state := s\<lparr>m_cacheMaster := m1 # rest\<rparr>\<rparr>)
          else dispatch E (m_Lookup_Replies s)
            (c\<lparr>m_state := s\<lparr>m_cacheMaster := m1\<lparr>Cm_flags := Cm_flags m1 OR c_Processed\<rparr> # rest\<rparr>\<rparr>))"

definition process_request :: "'a clr_env \<Rightarrow> 'a ctrl \<Rightarrow> 'a ctrl option" where
  "process_request E c =
     (let s = m_state c; req = m_header (m_inboundMessage c) in
      case take_out (\<lambda>m. is_reply_to (m_header (Cm_message m)) req) (m_cacheSubordinate s) of
        None \<Rightarrow> dispatch E (m_Lookup_Requests s) c
      | Some (m, rest) \<Rightarrow>
          map_option (\<lambda>(ok, s1). c\<lparr>m_state := s1\<rparr>)
            (Messaging_TransmitMessage E (Cm_message m) False
              (s\<lparr>m_cacheSubordinate := seen_now E s m # rest\<rparr>)))"

definition ProcessPayload :: "'a clr_env \<Rightarrow> 'a ctrl \<Rightarrow> (bool \<times> 'a ctrl) option" where
  "ProcessPayload E c =
     (let flags = m_flags (m_header (m_inboundMessage c)) in
      if flags AND c_NACK \<noteq> 0 then Some (True, c)
      else map_option (Pair True) (if flags AND c_Reply \<noteq> 0 then process_reply E c else process_request E c))"

section \<open>The application layer\<close>

definition ProcessHeader :: "'a ctrl \<Rightarrow> bool" where
  "ProcessHeader c \<longleftrightarrow> True"

definition App_ProcessHeader :: "'a clr_env \<Rightarrow> 'a ctrl \<Rightarrow> (bool \<times> 'a ctrl) option" where
  "App_ProcessHeader E c =
     (let c1 = on_state (noted Watchdog_ResetCounter) c; n = unat (m_size (m_header (m_inboundMessage c1))) in
      if \<not> ProcessHeader c1 then Some (False, c1)
      else if n \<noteq> 0 then
        (let (ok, s) = heap_allocate E n (m_state c1); c2 = c1\<lparr>m_state := s\<rparr> in
         if \<not> ok then Some (False, c2)
         else Some (True, on_inbound (\<lambda>m. m\<lparr>m_payload := Some (map (fresh_byte E s) [0..<n])\<rparr>) c2))
      else Some (True, c1))"

definition App_ProcessPayload :: "'a clr_env \<Rightarrow> 'a ctrl \<Rightarrow> (bool \<times> 'a ctrl) option" where
  "App_ProcessPayload E c = ProcessPayload E (on_state (noted Watchdog_ResetCounter) c)"

definition App_Release :: "'a ctrl \<Rightarrow> (bool \<times> 'a ctrl) option" where
  "App_Release c =
     Some (True, if m_payload (m_inboundMessage c) \<noteq> None
       then on_inbound (\<lambda>m. m\<lparr>m_payload := None\<rparr>) (on_state (noted Release) c) else c)"

definition messaging_app :: "'a clr_env \<Rightarrow> 'a messaging WP_ApplicationLayer" where
  "messaging_app E = \<lparr>App_Header = App_ProcessHeader E, App_Payload = App_ProcessPayload E, App_Free = App_Release\<rparr>"

definition messaging_env :: "'a clr_env \<Rightarrow> 'a messaging wp_env" where
  "messaging_env E = \<lparr>m_phy = messaging_phy E, m_app = messaging_app E, HAL_Time_CurrentTicks = CurrentTicks E,
     HAL_Time_TicksToTime = TicksToTime E\<rparr>"

section \<open>Life cycle\<close>

definition Messaging_Initialize ::
    "'a clr_env \<Rightarrow> u32 \<Rightarrow> (handler \<times> u32) list option \<Rightarrow> (handler \<times> u32) list option \<Rightarrow> nat \<Rightarrow> 'a ctrl \<Rightarrow> 'a ctrl"
where
  "Messaging_Initialize E port requestLookup replyLookup owner c =
     (if port = MessagingPort E \<and> port = DebuggerPort E \<and> requestLookup = None then c
      else if m_fInitialized (m_state c) then c
      else
        let entries = \<lambda>t. case t of None \<Rightarrow> [] | Some es \<Rightarrow> es;
            (ok, d) = DebuggerPort_Initialize (port_env E) port (dev (m_state c));
            s = (m_state c)\<lparr>m_Lookup_Requests := [\<lparr>Lk_table = c_Messaging_Lookup_Request, Lk_owner = 0\<rparr>,
                    \<lparr>Lk_table = entries requestLookup, Lk_owner = owner\<rparr>],
                  m_Lookup_Replies := [\<lparr>Lk_table = c_Messaging_Lookup_Reply, Lk_owner = 0\<rparr>,
                    \<lparr>Lk_table = entries replyLookup, Lk_owner = owner\<rparr>],
                  m_cacheSubordinate := [], m_cacheMaster := [], m_cacheTotalSize := 0, m_port := port,
                  dev := d, m_fDebuggerInitialized := ok, m_fInitialized := True\<rparr>
        in Controller_Initialize (Some MARKER_DEBUGGER_V1) s)"

definition Cleanup :: "'a clr_env \<Rightarrow> 'a ctrl \<Rightarrow> 'a ctrl" where
  "Cleanup E c =
     (if \<not> m_fInitialized (m_state c) then c
      else
        let s = m_state c;
            d = (if fDoNotUninitializeDebuggerPort E then dev s
                 else snd (DebuggerPort_Uninitialize (port_env E) (m_port s) (dev s)));
            n = length (m_cacheSubordinate s) + length (m_cacheMaster s)
        in c\<lparr>m_state := s\<lparr>dev := d, m_cacheSubordinate := [], m_cacheMaster := [], m_cacheTotalSize := 0,
              m_fDebuggerInitialized := False, m_fInitialized := False,
              clr_calls := clr_calls s @ replicate n Release\<rparr>\<rparr>)"

definition InitializeDebugger :: "'a clr_env \<Rightarrow> 'a ctrl \<Rightarrow> 'a ctrl" where
  "InitializeDebugger E c =
     on_state (\<lambda>s. let (ok, d) = DebuggerPort_Initialize (port_env E) (m_port s) (dev s)
       in s\<lparr>dev := d, m_fDebuggerInitialized := ok\<rparr>) c"

definition ProcessCommands :: "'a clr_env \<Rightarrow> 'a ctrl \<Rightarrow> 'a ctrl option" where
  "ProcessCommands E c =
     (if m_fInitialized (m_state c) then map_option snd (AdvanceState (messaging_env E) c) else Some c)"

section \<open>Purging the caches\<close>

text \<open>The entries from the last to the first, with \<open>m_cacheTotalSize\<close>; the ones that stay, in the order of the list.\<close>

fun purge :: "i64 \<Rightarrow> CachedMessage list \<Rightarrow> u32 \<Rightarrow> CachedMessage list \<times> u32" where
  "purge oldest [] n = ([], n)"
| "purge oldest (m # ms) n =
     (if sint (Cm_lastSeen m) < sint oldest \<or> c_MaxCacheSize < n then purge oldest ms (n - Cm_size m)
      else let (kept, n') = purge oldest ms n in (kept @ [m], n'))"

definition PurgeCache_list ::
    "i64 \<Rightarrow> CachedMessage list \<Rightarrow> 'a messaging \<Rightarrow> CachedMessage list \<times> 'a messaging" where
  "PurgeCache_list oldest xs s =
     (let (kept, n) = purge oldest (rev xs) (m_cacheTotalSize s)
      in (kept, s\<lparr>m_cacheTotalSize := n,
                  clr_calls := clr_calls s @ replicate (length xs - length kept) Release\<rparr>))"

definition PurgeCache :: "'a clr_env \<Rightarrow> 'a messaging \<Rightarrow> 'a messaging" where
  "PurgeCache E s =
     (let oldest = Time_GetMachineTime E s - TIME_CONVERSION__TO_SECONDS * 3;
          (master, s1) = PurgeCache_list oldest (m_cacheMaster s) s;
          (subordinate, s2) = PurgeCache_list oldest (m_cacheSubordinate s1) (s1\<lparr>m_cacheMaster := master\<rparr>)
      in s2\<lparr>m_cacheSubordinate := subordinate\<rparr>)"

section \<open>The messaging layers are layers of the wire protocol\<close>

definition line_ok :: "'a messaging \<Rightarrow> bool" where
  "line_ok s \<longleftrightarrow> com_ok (m_port s) (dev s)"

definition line_input :: "'a messaging \<Rightarrow> u8 list" where
  "line_input s = com_input (m_port s) (dev s)"

definition line_output :: "'a messaging \<Rightarrow> u8 list" where
  "line_output s = com_output (m_port s) (dev s)"

lemma line_simps [simp]:
  "line_ok (s\<lparr>dev := d\<rparr>) = com_ok (m_port s) d" "line_input (s\<lparr>dev := d\<rparr>) = com_input (m_port s) d"
  "line_output (s\<lparr>dev := d\<rparr>) = com_output (m_port s) d"
  "line_ok (noted e s) = line_ok s" "line_input (noted e s) = line_input s"
  "line_output (noted e s) = line_output s"
  "line_ok (s\<lparr>debugger := x\<rparr>) = line_ok s" "line_input (s\<lparr>debugger := x\<rparr>) = line_input s"
  "line_ok (s\<lparr>m_cacheMaster := ms\<rparr>) = line_ok s" "line_input (s\<lparr>m_cacheMaster := ms\<rparr>) = line_input s"
  "line_output (s\<lparr>m_cacheMaster := ms\<rparr>) = line_output s"
  "line_ok (s\<lparr>m_cacheSubordinate := ms\<rparr>) = line_ok s"
  "line_input (s\<lparr>m_cacheSubordinate := ms\<rparr>) = line_input s"
  "line_output (s\<lparr>m_cacheSubordinate := ms\<rparr>) = line_output s"
  "line_ok (s\<lparr>m_cacheTotalSize := n\<rparr>) = line_ok s" "line_input (s\<lparr>m_cacheTotalSize := n\<rparr>) = line_input s"
  "line_output (s\<lparr>m_cacheTotalSize := n\<rparr>) = line_output s"
  "line_ok (s\<lparr>endPoints := eps\<rparr>) = line_ok s" "line_input (s\<lparr>endPoints := eps\<rparr>) = line_input s"
  by (simp_all add: line_ok_def line_input_def line_output_def noted_def)

lemma heap_allocate_line:
  "heap_allocate E n s = (ok, s') \<Longrightarrow> line_ok s' = line_ok s \<and> line_input s' = line_input s
   \<and> line_output s' = line_output s"
  by (auto simp: heap_allocate_def)

lemma cache_message_line [simp]:
  "line_ok (cache_message E msg s) = line_ok s" "line_input (cache_message E msg s) = line_input s"
  "line_output (cache_message E msg s) = line_output s"
  by (simp_all add: cache_message_def heap_allocate_def Let_def)

lemma Phy_ReceiveBytes_law:
  assumes "line_ok s" and "Phy_ReceiveBytes E s n = (ok, bs, s')"
  shows "line_ok s' \<and> line_input s = bs @ line_input s' \<and> length bs \<le> unat n
    \<and> (if n = 0 then ok else ok = (bs \<noteq> []) \<and> (bs = [] \<longrightarrow> line_input s' = []))"
proof (cases "n = 0")
  case True
  then show ?thesis using assms by (simp add: Phy_ReceiveBytes_def)
next
  case False
  then have pos: "0 < unat n" by (simp add: unat_gt_0)
  let ?in = "com_input (m_port s) (dev s)"
  obtain d where d: "DebuggerPort_Read (port_env E) (m_port s) (unat n) (dev s)
      = (int (length (take (unat n) ?in)), take (unat n) ?in, d)"
    "com_ok (m_port s) d" "com_input (m_port s) d = drop (unat n) ?in"
    using DebuggerPort_Read_takes[of "m_port s" "dev s" "port_env E" "unat n"] assms(1) by (auto simp: line_ok_def)
  show ?thesis
  proof (cases "?in = []")
    case True
    then have "\<not> ok \<and> bs = [] \<and> s' = s\<lparr>dev := d\<rparr>"
      using assms(2) False d by (simp add: Phy_ReceiveBytes_def)
    then show ?thesis using True False d by (simp add: line_input_def)
  next
    case some: False
    then have ne: "take (unat n) ?in \<noteq> []" "0 < length (take (unat n) ?in)" using pos by simp_all
    then have "ok \<and> bs = take (unat n) ?in \<and> s' = s\<lparr>dev := d\<rparr>"
      using assms(2) False d(1) by (simp add: Phy_ReceiveBytes_def del: length_take)
    then show ?thesis using False d some pos by (simp add: line_input_def)
  qed
qed

text \<open>What a message looks like on the line.\<close>

definition message_on_line :: "WP_Message \<Rightarrow> u8 list" where
  "message_on_line msg = packet_bytes (m_header msg) @ (case m_payload msg of None \<Rightarrow> []
     | Some bs \<Rightarrow> take (unat (m_size (m_header msg))) bs)"

lemma TransmitMessage_keeps:
  assumes "line_ok s" and "Messaging_TransmitMessage E msg q s = Some (ok, s')"
  shows "line_ok s' \<and> line_input s' = line_input s"
proof -
  let ?w = "\<lambda>bs d. DebuggerPort_Write (port_env E) (m_port s) bs default_retries d"
  let ?keeps = "\<lambda>d. com_ok (m_port s) d \<and> com_input (m_port s) d = line_input s"
  have w: "?keeps d \<Longrightarrow> ?w bs d = (n, d') \<Longrightarrow> ?keeps d'" for bs d n d'
    using DebuggerPort_Write_appends[of "m_port s" d "port_env E" bs default_retries] by auto
  have f: "?keeps d \<Longrightarrow> DebuggerPort_Flush (port_env E) (m_port s) d = Some (b, d') \<Longrightarrow> ?keeps d'" for d b d'
    using DebuggerPort_Flush_keeps by metis
  have s: "?keeps (dev s)" using assms(1) by (simp add: line_ok_def line_input_def)
  obtain n d1 where d1: "?w (packet_bytes (m_header msg)) (dev s) = (n, d1)" by fastforce
  have k1: "?keeps d1" using w[OF s d1] .
  let ?sz = "m_size (m_header msg)"
  define snd_part where "snd_part = (if ?sz \<noteq> 0 \<and> m_payload msg \<noteq> None
    then ?w (take (unat ?sz) (the (m_payload msg))) d1 else (int (unat ?sz), d1))"
  obtain k d2 where d2: "snd_part = (k, d2)" by fastforce
  have k2: "?keeps d2" using d2 k1 w[OF k1] by (auto simp: snd_part_def split: if_splits)
  have "Messaging_TransmitMessage E msg q s = (if n \<noteq> int sizeof_packet then Some (False, s\<lparr>dev := d1\<rparr>)
      else if ?sz \<noteq> 0 \<and> m_payload msg \<noteq> None \<and> length (the (m_payload msg)) < unat ?sz then None
      else if k \<noteq> int (unat ?sz) then Some (False, s\<lparr>dev := d2\<rparr>)
      else map_option (\<lambda>(_, d3). (True, if q then cache_message E msg (s\<lparr>dev := d3\<rparr>) else s\<lparr>dev := d3\<rparr>))
             (DebuggerPort_Flush (port_env E) (m_port s) d2))"
    by (simp only: Messaging_TransmitMessage_def Let_def d1 d2[unfolded snd_part_def] prod.case)
  then have "\<dots> = Some (ok, s')" using assms(2) by simp
  then consider "s' = s\<lparr>dev := d1\<rparr>" | "s' = s\<lparr>dev := d2\<rparr>"
    | b d3 where "DebuggerPort_Flush (port_env E) (m_port s) d2 = Some (b, d3)"
        "s' = (if q then cache_message E msg (s\<lparr>dev := d3\<rparr>) else s\<lparr>dev := d3\<rparr>)"
    by (force simp: map_option_case split: if_split_asm option.split_asm)
  then show ?thesis
  proof cases
    case (3 b d3)
    then show ?thesis using f[OF k2 3(1)] by simp
  qed (use k1 k2 in simp_all)
qed

lemma TransmitMessage_line:
  assumes "line_ok s" and "Messaging_TransmitMessage E msg q s = Some (ok, s')"
    and "length (m_signature (m_header msg)) = 8"
  shows "line_ok s' \<and> line_input s' = line_input s
    \<and> (ok \<longrightarrow> line_output s' = line_output s @ message_on_line msg)
    \<and> (\<exists>k. line_output s' = line_output s @ take k (message_on_line msg))"
proof -
  let ?w = "\<lambda>bs d. DebuggerPort_Write (port_env E) (m_port s) bs default_retries d"
  let ?sz = "unat (m_size (m_header msg))"
  obtain n d1 where w1: "?w (packet_bytes (m_header msg)) (dev s) = (int n, d1)" "n \<le> 32" "com_ok (m_port s) d1"
    "com_input (m_port s) d1 = line_input s"
    "com_output (m_port s) d1 = line_output s @ take n (packet_bytes (m_header msg))"
    using DebuggerPort_Write_appends[of "m_port s" "dev s" "port_env E" "packet_bytes (m_header msg)" default_retries]
      assms(1,3) by (auto simp: line_ok_def line_input_def line_output_def)
  show ?thesis
  proof (cases "n = 32")
    case False
    then have "(ok, s') = (False, s\<lparr>dev := d1\<rparr>)"
      using assms(2) w1 by (simp add: Messaging_TransmitMessage_def sizeof_packet_def)
    moreover have "take n (packet_bytes (m_header msg)) = take n (message_on_line msg)"
      using w1(2) assms(3) by (simp add: message_on_line_def)
    ultimately show ?thesis using w1 by auto
  next
    case head: True
    define has where "has \<longleftrightarrow> m_size (m_header msg) \<noteq> 0 \<and> m_payload msg \<noteq> None"
    define P where "P = take ?sz (the (m_payload msg))"
    have line: "message_on_line msg = packet_bytes (m_header msg) @ (if has then P else [])"
      by (auto simp: message_on_line_def has_def P_def split: option.split)
    obtain k d2 where w2: "(if has then ?w P d1 else (int ?sz, d1)) = (int k, d2)" "com_ok (m_port s) d2"
      "com_input (m_port s) d2 = line_input s" "k \<le> ?sz"
      "com_output (m_port s) d2 = line_output s @ packet_bytes (m_header msg) @ (if has then take k P else [])"
    proof (cases has)
      case True
      obtain k d2 where "?w P d1 = (int k, d2)" "com_ok (m_port s) d2" "k \<le> length P"
        "com_input (m_port s) d2 = line_input s" "com_output (m_port s) d2 = com_output (m_port s) d1 @ take k P"
        using DebuggerPort_Write_appends[OF w1(3), of "port_env E" P default_retries] w1(4) by auto
      then show ?thesis using True w1(5) head assms(3) that[of k d2] by (simp add: P_def)
    next
      case False
      then show ?thesis using w1 head assms(3) that[of ?sz d1] by simp
    qed
    have enough: "\<not> (has \<and> length (the (m_payload msg)) < ?sz)"
      using assms(2) w1(1) head
      by (auto simp: Messaging_TransmitMessage_def sizeof_packet_def has_def Let_def)
    have step: "Some (ok, s') = (if int k \<noteq> int ?sz then Some (False, s\<lparr>dev := d2\<rparr>)
        else map_option (\<lambda>(_, d3). (True, if q then cache_message E msg (s\<lparr>dev := d3\<rparr>) else s\<lparr>dev := d3\<rparr>))
               (DebuggerPort_Flush (port_env E) (m_port s) d2))"
    proof (cases has)
      case True
      then have "m_size (m_header msg) \<noteq> 0" "m_payload msg \<noteq> None" by (simp_all add: has_def)
      then show ?thesis using assms(2) w1(1) w2(1) head enough True
        by (simp add: Messaging_TransmitMessage_def sizeof_packet_def flip: P_def)
    next
      case False
      then show ?thesis using assms(2) w1(1) w2(1) head
        by (auto simp: Messaging_TransmitMessage_def sizeof_packet_def has_def)
    qed
    show ?thesis
    proof (cases "k = ?sz")
      case False
      have "packet_bytes (m_header msg) @ (if has then take k P else []) = take (32 + k) (message_on_line msg)"
        using assms(3) by (simp add: line)
      moreover have "int k \<noteq> int ?sz" using False by (metis of_nat_eq_iff)
      then have "ok = False" "s' = s\<lparr>dev := d2\<rparr>" using step by (simp_all only: if_True option.inject prod.inject simp_thms)
      ultimately show ?thesis using w2 by auto
    next
      case True
      obtain b d3 where f: "DebuggerPort_Flush (port_env E) (m_port s) d2 = Some (b, d3)"
        "s' = (if q then cache_message E msg (s\<lparr>dev := d3\<rparr>) else s\<lparr>dev := d3\<rparr>)" "ok"
        using step True by (auto simp: map_option_case split: option.splits)
      have "line_output s @ packet_bytes (m_header msg) @ (if has then take k P else []) = line_output s @ message_on_line msg"
        using True by (simp add: line P_def)
      then have out: "line_output s' = line_output s @ message_on_line msg"
        using DebuggerPort_Flush_keeps[OF w2(2) f(1)] f(2) w2(5) by simp
      moreover have "\<exists>k. message_on_line msg = take k (message_on_line msg)" by (metis take_all_iff le_refl)
      ultimately show ?thesis using DebuggerPort_Flush_keeps[OF w2(2) f(1)] f(2) w2(3) by auto
    qed
  qed
qed

text \<open>The bytes that can be written without waiting.\<close>

definition line_room :: "'a messaging \<Rightarrow> nat" where
  "line_room s = com_room (m_port s) (dev s)"

lemma TransmitMessage_fits:
  assumes "line_ok s" and "Messaging_TransmitMessage E msg q s = Some (ok, s')"
    and "length (m_signature (m_header msg)) = 8" and "length (message_on_line msg) \<le> line_room s"
  shows "ok"
proof -
  let ?w = "\<lambda>bs d. DebuggerPort_Write (port_env E) (m_port s) bs default_retries d"
  let ?sz = "unat (m_size (m_header msg))" and ?h = "packet_bytes (m_header msg)"
  have h: "length ?h = 32" using assms(3) by simp
  have room: "length ?h \<le> com_room (m_port s) (dev s)" using assms(3,4) by (simp add: line_room_def message_on_line_def)
  obtain d1 where d1: "?w ?h (dev s) = (32, d1)" "com_ok (m_port s) d1" "com_room (m_port s) d1 = com_room (m_port s) (dev s) - 32"
    using DebuggerPort_Write_fits[of "m_port s" "dev s" ?h default_retries "port_env E", OF _ room] assms(1) h
    by (auto simp: line_ok_def default_retries_def)
  show ?thesis
  proof (cases "m_size (m_header msg) \<noteq> 0 \<and> m_payload msg \<noteq> None")
    case True
    define P where "P = take ?sz (the (m_payload msg))"
    have enough: "\<not> length (the (m_payload msg)) < ?sz"
      using assms(2) d1(1) True by (auto simp: Messaging_TransmitMessage_def sizeof_packet_def Let_def)
    then have len: "length P = ?sz" by (simp add: P_def)
    have fit: "length P \<le> com_room (m_port s) d1"
      using assms(4) True d1(3) h by (auto simp: line_room_def message_on_line_def P_def)
    obtain d2 where d2: "?w P d1 = (int ?sz, d2)"
      using DebuggerPort_Write_fits[OF d1(2) fit, of default_retries "port_env E"] len by (auto simp: default_retries_def)
    show ?thesis using assms(2) d1(1) d2 True enough
      by (auto simp: Messaging_TransmitMessage_def sizeof_packet_def Let_def P_def map_option_case split: option.splits)
  next
    case False
    then show ?thesis using assms(2) d1(1)
      by (auto simp: Messaging_TransmitMessage_def sizeof_packet_def Let_def map_option_case split: option.splits)
  qed
qed

section \<open>The handlers keep the line\<close>

text \<open>What the wire protocol asks of a callback for the payload, apart from its result.\<close>

definition keeps_line :: "'a ctrl \<Rightarrow> 'a ctrl \<Rightarrow> bool" where
  "keeps_line c c' \<longleftrightarrow> line_ok (m_state c') \<and> line_input (m_state c') = line_input (m_state c)
     \<and> m_szMarker c' = m_szMarker c
     \<and> length (m_signature (m_header (m_inboundMessage c'))) = length (m_signature (m_header (m_inboundMessage c)))"

lemma keeps_line_trans: "keeps_line c d \<Longrightarrow> keeps_line d e \<Longrightarrow> keeps_line c e"
  by (simp add: keeps_line_def)

lemma keeps_line_ok: "keeps_line c c' \<Longrightarrow> line_ok (m_state c')"
  by (simp add: keeps_line_def)

lemma keeps_line_state:
  "line_ok s \<Longrightarrow> line_input s = line_input (m_state c) \<Longrightarrow> keeps_line c (c\<lparr>m_state := s\<rparr>)"
  by (simp add: keeps_line_def)

lemma keeps_line_refl: "line_ok (m_state c) \<Longrightarrow> keeps_line c c"
  by (simp add: keeps_line_def)

lemma answered_sel [simp]:
  "m_signature (m_header (answered msg)) = m_signature (m_header msg)"
  "m_payload (answered msg) = m_payload msg" "m_cmd (m_header (answered msg)) = m_cmd (m_header msg)"
  "m_seq (m_header (answered msg)) = m_seq (m_header msg)"
  by (simp_all add: answered_def)

lemma on_state_sel [simp]:
  "m_state (on_state f c) = f (m_state c)" "m_inboundMessage (on_state f c) = m_inboundMessage c"
  "m_szMarker (on_state f c) = m_szMarker c"
  by (simp_all add: on_state_def)

lemma PrepareReply_state:
  assumes "PrepareReply req flg n p c msg = Some (c', msg')"
  shows "m_state c' = m_state c" "m_inboundMessage c' = m_inboundMessage c" "m_szMarker c' = m_szMarker c"
  using assms by (auto simp: PrepareReply_def bind_eq_Some_conv Let_def)

lemma PrepareRequest_state:
  assumes "PrepareRequest cmd flg n p c msg = Some (c', msg')"
  shows "m_state c' = m_state c" "m_inboundMessage c' = m_inboundMessage c" "m_szMarker c' = m_szMarker c"
  using assms by (auto simp: PrepareRequest_def bind_eq_Some_conv Let_def)

lemma SendMessage_keeps:
  assumes "SendMessage (messaging_phy E) msg c = Some (ok, c')" and "line_ok (m_state c)"
  shows "keeps_line c c'"
proof -
  obtain s where s: "Messaging_TransmitMessage E msg True (m_state c) = Some (ok, s)" "c' = c\<lparr>m_state := s\<rparr>"
    using assms(1) by (auto simp: SendMessage_def messaging_phy_def Phy_TransmitMessage_def)
  then show ?thesis using TransmitMessage_keeps[OF assms(2) s(1)] by (simp add: keeps_line_def)
qed

lemma ReplyToCommand_keeps:
  assumes "ReplyToCommand E ok critical ptr c = Some c'" and "line_ok (m_state c)"
  shows "keeps_line c c'"
proof (cases "m_flags (m_header (m_inboundMessage c)) AND c_NonCritical = 0")
  case False
  then show ?thesis using assms by (simp add: ReplyToCommand_def keeps_line_refl)
next
  case True
  let ?c1 = "on_inbound answered c"
  obtain req flg n p c2 msg where r: "PrepareReply req flg n p ?c1 Message_Initialize = Some (c2, msg)"
    "map_option snd (SendMessage (messaging_phy E) msg c2) = Some c'"
    using assms(1) True by (auto simp: ReplyToCommand_def bind_eq_Some_conv Let_def)
  have "keeps_line c c2"
    using PrepareReply_state[OF r(1)] assms(2) by (simp add: keeps_line_def)
  moreover obtain b where "SendMessage (messaging_phy E) msg c2 = Some (b, c')" using r(2) by auto
  ultimately show ?thesis using SendMessage_keeps keeps_line_trans keeps_line_ok by blast
qed

lemma SendEvent_keeps:
  assumes "SendEvent E cmd n p flg c = Some (ok, c')" and "line_ok (m_state c)"
  shows "keeps_line c c'"
proof -
  obtain c2 msg where r: "PrepareRequest cmd flg n p c Message_Initialize = Some (c2, msg)"
    "SendMessage (messaging_phy E) msg c2 = Some (ok, c')"
    using assms(1) by (auto simp: SendEvent_def SendProtocolMessage_def bind_eq_Some_conv)
  have "keeps_line c c2"
    using PrepareRequest_state[OF r(1)] assms(2) by (simp add: keeps_line_def)
  then show ?thesis using SendMessage_keeps[OF r(2)] keeps_line_trans keeps_line_ok by blast
qed

lemma AllocateAndQueueMessage_line:
  "AllocateAndQueueMessage E cmd bs port addr found s = (ok, s') \<Longrightarrow>
   line_ok s' = line_ok s \<and> line_input s' = line_input s"
  by (auto simp: AllocateAndQueueMessage_def heap_allocate_def Let_def split: if_splits)

lemma run_reactions_keeps:
  "run_reactions E rs c = Some c' \<Longrightarrow> line_ok (m_state c) \<Longrightarrow> keeps_line c c'"
proof (induction rs arbitrary: c)
  case Nil
  then show ?case by (simp add: keeps_line_refl)
next
  case (Cons r rs)
  obtain c1 where c1: "keeps_line c c1" "run_reactions E rs c1 = Some c'"
    using Cons.prems ReplyToCommand_keeps SendEvent_keeps by (cases r) (fastforce simp: bind_eq_Some_conv)+
  then show ?case
    using Cons.IH[OF c1(2) keeps_line_ok[OF c1(1)]] keeps_line_trans
    by blast
qed

lemma queue_and_answer_keeps:
  assumes "queue_and_answer E cmd port c = Some (ok, c')" and "line_ok (m_state c)"
  shows "keeps_line c c'"
proof -
  obtain f s1 addr bs ptr where q: "AllocateAndQueueMessage E cmd bs (port addr) addr 0 (m_state c) = (f, s1)"
    "ReplyToCommand E f False ptr (c\<lparr>m_state := s1\<rparr>) = Some c'"
    using assms(1) by (auto simp: queue_and_answer_def Let_def split: if_splits prod.splits)
  have k: "keeps_line c (c\<lparr>m_state := s1\<rparr>)"
    using AllocateAndQueueMessage_line[OF q(1)] assms(2) by (simp add: keeps_line_state)
  then show ?thesis
    using ReplyToCommand_keeps[OF q(2) keeps_line_ok[OF k]] keeps_line_trans
    by blast
qed

lemma run_handler_keeps:
  assumes "run_handler E hnd owner c = Some (ok, c')" and "line_ok (m_state c)"
  shows "keeps_line c c'"
proof (cases hnd)
  case Messaging_Query
  then show ?thesis using assms ReplyToCommand_keeps
    by (fastforce simp: run_handler_def run_Messaging_Query_def Let_def split: if_splits)
next
  case Messaging_Query__Reply
  then obtain cmd bs port addr found where
    "c' = on_state (\<lambda>s. snd (AllocateAndQueueMessage E cmd bs port addr found s)) c"
    using assms(1) by (auto simp: run_handler_def run_Messaging_Query__Reply_def Let_def split: if_splits)
  then show ?thesis
    using AllocateAndQueueMessage_line[of E cmd bs port addr found "m_state c"] assms(2)
    by (simp add: on_state_def keeps_line_state prod_eq_iff)
next
  case (Other_Handler f)
  then obtain rs dbg where "run_reactions E rs (on_state (\<lambda>s. s\<lparr>debugger := dbg\<rparr>) c) = Some c'"
    using assms(1) by (auto simp: run_handler_def run_other_def bind_eq_Some_conv)
  moreover have "keeps_line c (on_state (\<lambda>s. s\<lparr>debugger := dbg\<rparr>) c)" for dbg
    using assms(2) by (simp add: keeps_line_def)
  ultimately show ?thesis
    using run_reactions_keeps keeps_line_ok keeps_line_trans by metis
qed (use assms queue_and_answer_keeps keeps_line_refl in \<open>auto simp: run_handler_def run_Messaging_Send_def
  run_Messaging_Reply_def run_Messaging_Send__Reply_def run_Messaging_Reply__Reply_def\<close>)

lemma dispatch_keeps:
  assumes "dispatch E tables c = Some c'" and "line_ok (m_state c)"
  shows "keeps_line c c'"
proof (cases "find_handler (m_cmd (m_header (m_inboundMessage c))) tables")
  case None
  then show ?thesis using assms ReplyToCommand_keeps by (simp add: dispatch_def)
next
  case (Some h)
  then obtain ok c1 where c1: "run_handler E (fst h) (snd h) c = Some (ok, c1)"
    "ReplyToCommand E ok False None c1 = Some c'"
    using assms(1) by (auto simp: dispatch_def bind_eq_Some_conv split: prod.splits)
  have k: "keeps_line c c1" using run_handler_keeps[OF c1(1) assms(2)] .
  then show ?thesis
    using ReplyToCommand_keeps[OF c1(2) keeps_line_ok[OF k]] keeps_line_trans
    by blast
qed

lemma take_out_Some:
  assumes "take_out P xs = Some (x, ys)"
  shows "P x" "x \<in> set xs" "set ys \<subseteq> set xs" "\<exists>as bs. xs = as @ x # bs \<and> ys = as @ bs \<and> (\<forall>a \<in> set as. \<not> P a)"
proof -
  have f: "find P xs = Some x" "ys = takeWhile (\<lambda>y. \<not> P y) xs @ tl (dropWhile (\<lambda>y. \<not> P y) xs)"
    using assms by (auto simp: take_out_def)
  obtain i where i: "i < length xs" "P (xs ! i)" "x = xs ! i" "\<forall>j < i. \<not> P (xs ! j)"
    using f(1) by (auto simp: find_Some_iff)
  show "P x" "x \<in> set xs" using i by auto
  have tw: "takeWhile (\<lambda>y. \<not> P y) xs = take i xs" using i by (intro takeWhile_eq_take_P_nth) auto
  then have dw: "dropWhile (\<lambda>y. \<not> P y) xs = drop i xs" by (metis dropWhile_eq_drop i(1) length_take min.absorb2 less_imp_le)
  have ys: "ys = take i xs @ drop (Suc i) xs" using f(2) tw dw by (simp add: drop_Suc tl_drop)
  have xs: "xs = take i xs @ x # drop (Suc i) xs" using i by (simp add: id_take_nth_drop)
  show "set ys \<subseteq> set xs" using ys by (auto dest: in_set_takeD in_set_dropD)
  have "\<forall>a \<in> set (take i xs). \<not> P a" using i by (auto simp: in_set_conv_nth)
  then show "\<exists>as bs. xs = as @ x # bs \<and> ys = as @ bs \<and> (\<forall>a \<in> set as. \<not> P a)" using xs ys by blast
qed

lemma process_reply_keeps:
  assumes "process_reply E c = Some c'" and "line_ok (m_state c)"
  shows "keeps_line c c'"
proof -
  let ?c = "\<lambda>ms. c\<lparr>m_state := (m_state c)\<lparr>m_cacheMaster := ms\<rparr>\<rparr>"
  have k: "keeps_line c (?c ms)" for ms using assms(2) by (simp add: keeps_line_def)
  have d: "keeps_line c c'" if "dispatch E ts (?c ms) = Some c'" for ts ms
    using keeps_line_trans[OF k dispatch_keeps[OF that keeps_line_ok[OF k]]] .
  show ?thesis
  proof (cases "take_out (\<lambda>m. is_reply_to (m_header (m_inboundMessage c)) (m_header (Cm_message m)))
      (m_cacheMaster (m_state c))")
    case None
    then show ?thesis using assms dispatch_keeps by (simp add: process_reply_def)
  next
    case (Some r)
    obtain m rest where r: "r = (m, rest)" by fastforce
    show ?thesis
    proof (cases "Cm_flags (seen_now E (m_state c) m) AND c_Processed = 0")
      case True
      then show ?thesis using assms(1) Some r d by (simp add: process_reply_def Let_def)
    next
      case False
      then have "c' = ?c (seen_now E (m_state c) m # rest)"
        using assms(1) Some r by (simp add: process_reply_def Let_def)
      then show ?thesis using k by simp
    qed
  qed
qed

lemma process_request_keeps:
  assumes "process_request E c = Some c'" and "line_ok (m_state c)"
  shows "keeps_line c c'"
proof (cases "take_out (\<lambda>m. is_reply_to (m_header (Cm_message m)) (m_header (m_inboundMessage c)))
    (m_cacheSubordinate (m_state c))")
  case None
  then show ?thesis using assms dispatch_keeps by (simp add: process_request_def)
next
  case (Some r)
  obtain ms msg ok s1 where
    "Messaging_TransmitMessage E msg False ((m_state c)\<lparr>m_cacheSubordinate := ms\<rparr>) = Some (ok, s1)"
    "c' = c\<lparr>m_state := s1\<rparr>"
    using assms(1) Some by (cases r) (auto simp: process_request_def Let_def)
  then show ?thesis
    using TransmitMessage_keeps[of "(m_state c)\<lparr>m_cacheSubordinate := ms\<rparr>"] assms(2)
    by (simp add: keeps_line_state)
qed

lemma ProcessPayload_keeps:
  assumes "ProcessPayload E c = Some (ok, c')" and "line_ok (m_state c)"
  shows "keeps_line c c'"
  using assms process_reply_keeps process_request_keeps
  by (auto simp: ProcessPayload_def Let_def keeps_line_refl split: if_splits)

interpretation clr: wire_layers "messaging_env E" line_input line_ok for E :: "'a clr_env"
proof (unfold_locales, goal_cases)
  case (1 s n ok bs s')
  then show ?case using Phy_ReceiveBytes_law[of s E n ok bs s'] by (simp add: messaging_env_def messaging_phy_def)
next
  case (2 s msg ok s')
  then show ?case using TransmitMessage_keeps[of s E msg True ok s']
    by (simp add: messaging_env_def messaging_phy_def Phy_TransmitMessage_def)
next
  case (3 c)
  then show ?case by (auto simp: messaging_env_def messaging_app_def App_ProcessHeader_def ProcessHeader_def
    heap_allocate_def Let_def)
next
  case (4 c ok c')
  let ?n = "unat (m_size (m_header (m_inboundMessage c)))"
  let ?s = "noted (Allocate ?n) (noted Watchdog_ResetCounter (m_state c))"
  define p where "p = (if ok \<and> ?n \<noteq> 0 then Some (map (fresh_byte E ?s) [0..<?n]) else m_payload (m_inboundMessage c))"
  have "undisturbed line_ok line_input c c' \<and> m_inboundMessage c' = (m_inboundMessage c)\<lparr>m_payload := p\<rparr>"
    using 4 by (auto simp: messaging_env_def messaging_app_def App_ProcessHeader_def ProcessHeader_def
        heap_allocate_def undisturbed_def Let_def p_def split: if_splits)
  moreover have "length buf = ?n" if "p = Some buf" "ok" "m_size (m_header (m_inboundMessage c)) \<noteq> 0" for buf
    using that by (auto simp: p_def unat_eq_0 split: if_splits)
  ultimately show ?case by blast
next
  case (5 c ok c')
  have "keeps_line (on_state (noted Watchdog_ResetCounter) c) c'"
    using 5 ProcessPayload_keeps[of E _ ok c'] by (simp add: messaging_env_def messaging_app_def App_ProcessPayload_def)
  then show ?case by (simp add: keeps_line_def undisturbed_def)
next
  case (6 c)
  then show ?case by (simp add: messaging_env_def messaging_app_def App_Release_def)
next
  case (7 c ok c')
  then show ?case
    by (auto simp: messaging_env_def messaging_app_def App_Release_def undisturbed_def split: if_splits
        intro: exI[of _ None] exI[of _ "m_payload (m_inboundMessage c)"])
qed

section \<open>A message travels from one side to the other\<close>

text \<open>The receive interrupt of the other side gets the bytes.\<close>

definition arrive :: "'a clr_env \<Rightarrow> u8 list \<Rightarrow> 'a ctrl \<Rightarrow> 'a ctrl" where
  "arrive E bs c = on_state (\<lambda>s. s\<lparr>dev := (dev s)\<lparr>serial :=
     receive_run (serial_env (port_env E)) (ConvertCOM_ComPort (m_port s)) bs (serial (dev s))\<rparr>\<rparr>) c"

lemma AddChar_Flag:
  assumes "valid_port port u" and "no_flow (port_state port u)"
    and "USART_AddCharToRxBuffer E port c u = (b, u')"
  shows "Flag (port_state port u') = Flag (port_state port u)"
proof -
  have nf: "\<not> flag_set (port_state port u) c_TX_SWFLOW_CTRL" "\<not> flag_set (port_state port u) c_RX_SWFLOW_CTRL"
    using assms(2) by (simp_all add: no_flow_def)
  show ?thesis
  proof (cases "UQ_Push (RxQueue (port_state port u))")
    case (Pair r q)
    then show ?thesis
      using assms(1,3) nf
      by (cases r) (auto simp: USART_AddCharToRxBuffer_def SetEvent_Flag flag_set_def Let_def split: if_splits)
  qed
qed

lemma receive_run_serial:
  assumes "serial_ok port u" and "length (rx_contents port u) + length bs \<le> hal_queue.m_size (RxQueue (port_state port u))"
  shows "serial_ok port (receive_run E port bs u)
    \<and> rx_contents port (receive_run E port bs u) = rx_contents port u @ bs"
  using assms
proof (induction bs arbitrary: u)
  case (Cons c bs)
  have ok: "port_ok port u" "port_on port u" "no_flow (port_state port u)" "valid_port port u"
    using Cons.prems(1) by (simp_all add: serial_ok_def port_ok_def)
  obtain u1 where u1: "USART_AddCharToRxBuffer E port c u = (True, u1)"
    "rx_contents port u1 = rx_contents port u @ [c]" "port_ok port u1" "port_on port u1 = port_on port u"
    "hal_queue.m_size (RxQueue (port_state port u1)) = hal_queue.m_size (RxQueue (port_state port u))"
    using AddChar_room[OF ok(1), of c E] Cons.prems(2) ok(3) by (auto simp: no_flow_def)
  have "serial_ok port u1"
    using u1 ok no_flow_Flag[OF AddChar_Flag[OF ok(4,3) u1(1)]] by (simp add: serial_ok_def)
  then show ?case using Cons.IH[of u1] Cons.prems(2) u1 by (simp add: receive_run_def)
qed (simp add: receive_run_def)

lemma SendEvent_line:
  assumes "SendEvent E cmd n (Some P) flg c = Some (True, c')" and "line_ok (m_state c)"
    and "length P = unat n" and "m_szMarker c = Some MARKER_DEBUGGER_V1"
  shows "\<exists>h. line_output (m_state c') = line_output (m_state c) @ packet_bytes h @ P
    \<and> m_signature h = MARKER_DEBUGGER_V1 \<and> header_crc h = Some (m_crcHeader h) \<and> m_size h = n
    \<and> m_cmd h = cmd \<and> m_flags h = flg \<and> m_seq h = m_lastOutboundMessage c
    \<and> SUPPORT_ComputeCRC P (sint n) 0 = Some (m_crcData h)"
proof -
  obtain c2 msg where r: "PrepareRequest cmd flg n (Some P) c Message_Initialize = Some (c2, msg)"
    "SendMessage (messaging_phy E) msg c2 = Some (True, c')"
    using assms(1) by (auto simp: SendEvent_def SendProtocolMessage_def bind_eq_Some_conv)
  have mk: "marker_of c = MARKER_DEBUGGER_V1" "length (marker_of c) = 8"
    using assms(4) by (simp_all add: marker_of_def MARKER_DEBUGGER_V1_def sizeof_signature_def)
  note v = PrepareRequest_valid[OF r(1) mk(2)]
  obtain s where s: "Messaging_TransmitMessage E msg True (m_state c2) = Some (True, s)" "c' = c2\<lparr>m_state := s\<rparr>"
    using r(2) by (auto simp: SendMessage_def messaging_phy_def Phy_TransmitMessage_def)
  have "line_output s = line_output (m_state c) @ message_on_line msg"
    using TransmitMessage_line[OF _ s(1) v(1)] PrepareRequest_state[OF r(1)] assms(2) by simp
  moreover have "message_on_line msg = packet_bytes (m_header msg) @ P"
    using v(4,5) assms(3) by (simp add: message_on_line_def)
  ultimately show ?thesis using v s(2) mk(1) by (intro exI[of _ "m_header msg"]) (simp add: buffer_bytes_def)
qed

lemma SUPPORT_ComputeCRC_none [simp]: "SUPPORT_ComputeCRC bs 0 crc = Some crc"
  by (cases bs) simp_all

lemma messaging_env_simps:
  "HAL_Time_TicksToTime (messaging_env E) = TicksToTime E"
  "HAL_Time_CurrentTicks (messaging_env E) = CurrentTicks E"
  "ReceiveBytes (m_phy (messaging_env E)) = Phy_ReceiveBytes E"
  by (simp_all add: messaging_env_def messaging_phy_def)

lemma payload_verified:
  assumes "m_header (m_inboundMessage c) = h" and "m_size h = n" and "length P = unat n"
    and "m_size h \<noteq> 0 \<longrightarrow> m_payload (m_inboundMessage c) = Some P"
    and "SUPPORT_ComputeCRC P (sint n) 0 = Some (m_crcData h)"
  shows "take (unat n) (inbound_bytes c) = P" and "VerifyPayload (m_inboundMessage c) = Some True"
proof -
  have "take (unat n) (inbound_bytes c) = P \<and> VerifyPayload (m_inboundMessage c) = Some True"
  proof (cases "n = 0")
    case True
    then have "VerifyPayload (m_inboundMessage c) = Some (0 = m_crcData h)" "m_crcData h = 0"
      using assms by (simp_all add: VerifyPayload_def SUPPORT_ComputeCRC_none)
    then show ?thesis using True assms(3) by simp
  next
    case False
    then show ?thesis using assms
      by (simp add: VerifyPayload_def inbound_bytes_def buffer_bytes_def)
  qed
  then show "take (unat n) (inbound_bytes c) = P" "VerifyPayload (m_inboundMessage c) = Some True" by simp_all
qed

text \<open>
  C5. What one side sends as a message arrives on the other side of the line: when the bytes that its port
  put on the line have come into the receive buffer, the receiver comes to a call of the application with
  that command, those flags and exactly that payload, and without a byte left over.
\<close>

theorem message_travels:
  assumes sent: "SendEvent E1 cmd n (Some P) flg c = Some (True, c')" and "line_ok (m_state c)"
    and len: "length P = unat n" and "m_szMarker c = Some MARKER_DEBUGGER_V1"
    and bytes: "line_output (m_state c') = line_output (m_state c) @ bs"
    and rx: "line_ok (m_state d)" "rx_ok (m_inboundMessage d)" "m_rxState (m_inboundMessage d) = Initialize"
      "line_input (m_state d) = []"
    and room: "length bs \<le> hal_queue.m_size (RxQueue (port_state (ConvertCOM_ComPort (m_port (m_state d))) (serial (dev (m_state d)))))"
    and memory: "\<And>s. allocates E2 s (unat n)"
    and now: "TicksToTime E2 0 < c_PayloadTimeout"
    and timely: "\<And>s k bs s'. line_ok s \<Longrightarrow> Phy_ReceiveBytes E2 s k = (True, bs, s') \<Longrightarrow>
      TicksToTime E2 (CurrentTicks E2 s' - CurrentTicks E2 s) < c_PayloadTimeout"
  shows "\<exists>d'. Process (messaging_env E2) (arrive E2 bs d) = Process (messaging_env E2) d'
    \<and> process_turn (messaging_env E2) d'
      = map_option (\<lambda>r. (None, set_rx Initialize (snd r))) (App_ProcessPayload E2 d')
    \<and> m_cmd (m_header (m_inboundMessage d')) = cmd \<and> m_flags (m_header (m_inboundMessage d')) = flg
    \<and> take (unat n) (inbound_bytes d') = P \<and> line_input (m_state d') = []"
proof -
  obtain h where h: "bs = packet_bytes h @ P" "m_signature h = MARKER_DEBUGGER_V1"
    "header_crc h = Some (m_crcHeader h)" "m_size h = n" "m_cmd h = cmd" "m_flags h = flg"
    "SUPPORT_ComputeCRC P (sint n) 0 = Some (m_crcData h)"
    using SendEvent_line[OF sent assms(2) len assms(4)] bytes by auto
  let ?p = "ConvertCOM_ComPort (m_port (m_state d))" and ?a = "arrive E2 bs d"
  have u: "serial_ok ?p (serial (dev (m_state d)))" "rx_contents ?p (serial (dev (m_state d))) = []"
    "ExtractTransport (m_port (m_state d)) = USART_TRANSPORT"
    using rx by (simp_all add: line_ok_def com_ok_def line_input_def com_input_def)
  have a: "line_ok (m_state ?a)" "line_input (m_state ?a) = [] @ packet_bytes h @ P @ []"
    "m_inboundMessage ?a = m_inboundMessage d"
    using receive_run_serial[OF u(1), of bs "serial_env (port_env E2)"] u room h(1)
    by (simp_all add: arrive_def com_ok_def com_input_def)
  have accept: "\<exists>c2. App_Header (m_app (messaging_env E2)) c1 = Some (True, c2)
      \<and> (m_size h \<noteq> 0 \<longrightarrow> m_payload (m_inboundMessage c2) \<noteq> None)"
    if "m_header (m_inboundMessage c1) = h" for c1
    using that memory h(4)
    by (simp add: messaging_env_def messaging_app_def App_ProcessHeader_def ProcessHeader_def heap_allocate_def
        Let_def unat_gt_0)
  obtain d' where d': "Process (messaging_env E2) ?a = Process (messaging_env E2) d'" "line_ok (m_state d')"
    "m_header (m_inboundMessage d') = h" "m_size h \<noteq> 0 \<longrightarrow> m_payload (m_inboundMessage d') = Some P"
    "m_rxState (m_inboundMessage d') = CompletePayload" "line_input (m_state d') = []" "rx_ok (m_inboundMessage d')"
    using clr.packet_delivered[where E = E2 and c = ?a and junk = "[]" and h = h and P = P and rest = "[]"] a rx(2,3) h(2,3,4) len accept now timely
    by (fastforce simp: messaging_env_simps)
  show ?thesis
    using d' h payload_verified[OF d'(3) h(4) len d'(4) h(7)]
    by (intro exI[of _ d']) (simp add: process_turn_def turn_CompletePayload_def messaging_env_def messaging_app_def
        option.map_comp comp_def split_beta)
qed

definition calm_usart :: usart_env where
  "calm_usart = quiet_usart\<lparr>tx_handshake := (\<lambda>_. False), tx_interrupts := (\<lambda>_. 1)\<rparr>"

definition roomy_queue :: "u8 hal_queue" where
  "roomy_queue = \<lparr>m_writer = 0, m_reader = 0, m_size = 64, m_full = False, m_data = replicate 64 0\<rparr>"

definition roomy_com :: com where
  "roomy_com = \<lparr>serial = \<lparr>ports = [(sample_port 0x20008)\<lparr>TxQueue := roomy_queue, RxQueue := roomy_queue\<rparr>], calls = []\<rparr>,
     transport_calls = []\<rparr>"

definition roomy_com_env :: com_env where
  "roomy_com_env = \<lparr>serial_env = calm_usart, transport_bool = (\<lambda>_. True), transport_accepts = (\<lambda>_. 0),
     transport_data = (\<lambda>_. (0, []))\<rparr>"

definition idle_clr_env :: "unit clr_env" where
  "idle_clr_env = \<lparr>port_env = roomy_com_env, MessagingPort = 0, DebuggerPort = 0,
     fDoNotUninitializeDebuggerPort = False, sizeof_CachedMessage = 100, sizeof_Ep_Message = 48,
     allocates = (\<lambda>_ _. True), fresh_byte = (\<lambda>_ _. 0), Time_GetMachineTime = (\<lambda>_. 0), CurrentTicks = (\<lambda>_. 0),
     TicksToTime = id, other_handler = (\<lambda>_ _ _ _. None)\<rparr>"

definition idle_messaging :: "unit messaging" where
  "idle_messaging = \<lparr>m_fInitialized = True, m_fDebuggerInitialized = True,
     m_Lookup_Requests = [\<lparr>Lk_table = c_Messaging_Lookup_Request, Lk_owner = 0\<rparr>],
     m_Lookup_Replies = [\<lparr>Lk_table = c_Messaging_Lookup_Reply, Lk_owner = 0\<rparr>],
     m_cacheSubordinate = [], m_cacheMaster = [], m_cacheTotalSize = 0, m_port = 0x101, dev = roomy_com,
     endPoints = [], clr_calls = [], debugger = ()\<rparr>"

definition idle_ctrl :: "unit ctrl" where
  "idle_ctrl = Controller_Initialize (Some MARKER_DEBUGGER_V1) idle_messaging"

lemma idle_line:
  "line_ok (m_state idle_ctrl)" "line_input (m_state idle_ctrl) = []" "line_output (m_state idle_ctrl) = []"
  "hal_queue.m_size (RxQueue (port_state (ConvertCOM_ComPort (m_port (m_state idle_ctrl)))
     (serial (dev (m_state idle_ctrl))))) = 64"
  by code_simp+

lemma idle_ctrl_sel:
  "rx_ok (m_inboundMessage idle_ctrl)" "m_rxState (m_inboundMessage idle_ctrl) = Initialize"
  "m_szMarker idle_ctrl = Some MARKER_DEBUGGER_V1"
  by (simp_all add: idle_ctrl_def Controller_Initialize_def PrepareReception_def Message_Initialize_def rx_ok_def
      zero_packet_def sizeof_packet_def)

lemma idle_send:
  "\<exists>c'. SendEvent idle_clr_env 5 1 (Some [7]) 0 idle_ctrl = Some (True, c')
    \<and> length (line_output (m_state c')) = 33"
proof -
  have "case SendEvent idle_clr_env 5 1 (Some [7]) 0 idle_ctrl of Some (ok, c') \<Rightarrow>
      ok \<and> length (line_output (m_state c')) = 33 | None \<Rightarrow> False"
    by code_simp
  then show ?thesis by (auto split: option.splits)
qed

lemma message_travels_witness:
  "\<exists>c' bs d'. SendEvent idle_clr_env 5 1 (Some [7]) 0 idle_ctrl = Some (True, c')
    \<and> Process (messaging_env idle_clr_env) (arrive idle_clr_env bs idle_ctrl) = Process (messaging_env idle_clr_env) d'
    \<and> m_cmd (m_header (m_inboundMessage d')) = 5 \<and> take 1 (inbound_bytes d') = [7]"
proof -
  obtain c' where c': "SendEvent idle_clr_env 5 1 (Some [7]) 0 idle_ctrl = Some (True, c')"
    "length (line_output (m_state c')) = 33" using idle_send by blast
  have "\<exists>d'. Process (messaging_env idle_clr_env) (arrive idle_clr_env (line_output (m_state c')) idle_ctrl)
        = Process (messaging_env idle_clr_env) d'
    \<and> process_turn (messaging_env idle_clr_env) d'
      = map_option (\<lambda>r. (None, set_rx Initialize (snd r))) (App_ProcessPayload idle_clr_env d')
    \<and> m_cmd (m_header (m_inboundMessage d')) = 5 \<and> m_flags (m_header (m_inboundMessage d')) = 0
    \<and> take (unat (1 :: u32)) (inbound_bytes d') = [7] \<and> line_input (m_state d') = []"
    by (rule message_travels[OF c'(1)])
      (use c'(2) in \<open>simp_all add: idle_line idle_ctrl_sel, simp_all add: idle_clr_env_def c_PayloadTimeout_def\<close>)
  then show ?thesis using c'(1) by auto
qed

section \<open>Every call returns\<close>

lemma TransmitMessage_returns:
  assumes "line_ok s" and "eager_usart (serial_env (port_env E))" and "m_payload msg = None"
  shows "Messaging_TransmitMessage E msg q s \<noteq> None"
proof -
  obtain n d1 where d1: "DebuggerPort_Write (port_env E) (m_port s) (packet_bytes (m_header msg)) default_retries (dev s)
      = (int n, d1)" "com_ok (m_port s) d1"
    using DebuggerPort_Write_appends[of "m_port s" "dev s" "port_env E" "packet_bytes (m_header msg)" default_retries]
      assms(1) by (auto simp: line_ok_def)
  have "DebuggerPort_Flush (port_env E) (m_port s) d1 \<noteq> None"
    using d1(2) USART_Flush_returns[OF assms(2)] by (simp add: DebuggerPort_Flush_def com_ok_def Let_def)
  then show ?thesis using d1(1) assms(3) by (auto simp: Messaging_TransmitMessage_def Let_def)
qed

text \<open>
  C6. When the transmitter takes what it is given and every handler returns, \<open>ProcessCommands\<close> returns after it
  has read all the input, and leaves the receiver in an orderly state, whatever bytes came in.
\<close>

theorem ProcessCommands_returns:
  assumes "m_fInitialized (m_state c)" and "line_ok (m_state c)" and "rx_ok (m_inboundMessage c)"
    and "m_szMarker c = Some MARKER_DEBUGGER_V1" and "eager_usart (serial_env (port_env E))"
    and "rx_running (m_rxState (m_inboundMessage c))"
    and app: "\<And>c1. turns (messaging_env E) c c1 \<Longrightarrow> m_rxState (m_inboundMessage c1) = CompletePayload \<Longrightarrow>
      VerifyPayload (m_inboundMessage c1) = Some True \<Longrightarrow> App_ProcessPayload E c1 \<noteq> None"
  shows "\<exists>c'. ProcessCommands E c = Some c' \<and> line_ok (m_state c') \<and> rx_ok (m_inboundMessage c')
    \<and> rx_running (m_rxState (m_inboundMessage c')) \<and> line_input (m_state c') = []"
proof -
  have mk: "length (marker_of c) = 8"
    using assms(4) by (simp add: marker_of_def MARKER_DEBUGGER_V1_def sizeof_signature_def)
  have tx: "TransmitMessage (m_phy (messaging_env E)) s msg \<noteq> None" if "line_ok s" "m_payload msg = None" for s msg
    using TransmitMessage_returns[OF that(1) assms(5) that(2)]
    by (simp add: messaging_env_def messaging_phy_def Phy_TransmitMessage_def)
  have app': "App_Payload (m_app (messaging_env E)) = App_ProcessPayload E"
    by (simp add: messaging_env_def messaging_app_def)
  obtain b c' where p: "Process (messaging_env E) c = Some (b, c')" "line_ok (m_state c')" "rx_ok (m_inboundMessage c')"
    "rx_running (m_rxState (m_inboundMessage c'))" "case m_rxState (m_inboundMessage c') of Idle \<Rightarrow> b | Other i \<Rightarrow> \<not> b
       | _ \<Rightarrow> b \<and> line_input (m_state c') = []"
    using clr.Process_returns[where E = E and c = c, OF assms(2,3) mk _ tx] app assms(6) by (auto simp: app')
  then have "line_input (m_state c') = []" by (cases "m_rxState (m_inboundMessage c')") simp_all
  then show ?thesis using assms(1) p by (simp add: ProcessCommands_def AdvanceState_def)
qed

lemma idle_turns:
  assumes "turns (messaging_env idle_clr_env) idle_ctrl c1"
  shows "m_rxState (m_inboundMessage c1) \<noteq> CompletePayload"
proof -
  obtain c0 where c0: "process_turn (messaging_env idle_clr_env) idle_ctrl = Some (None, c0)"
    "undisturbed line_ok line_input idle_ctrl c0" "rx_ok (m_inboundMessage c0)"
    "m_rxState (m_inboundMessage c0) = WaitingForHeader"
    using clr.turn_Initialize[where E = idle_clr_env and c = idle_ctrl] idle_line idle_ctrl_sel by auto
  have "line_ok (m_state c0)" "line_input (m_state c0) = []"
    using c0(2) idle_line by (simp_all add: undisturbed_def)
  then obtain c2 where t2: "process_turn (messaging_env idle_clr_env) c0 = Some (Some True, c2)"
    using clr.turn_Waiting[where E = idle_clr_env and c = c0] c0(3,4) by auto
  have stop: "c1 = c0" if "turns (messaging_env idle_clr_env) c0 c1"
    using that by cases (use t2 in simp_all)
  from assms have "c1 = c0 \<or> c1 = idle_ctrl" by cases (use c0(1) stop in auto)
  then show ?thesis using c0(4) idle_ctrl_sel by auto
qed

lemma ProcessCommands_returns_witness:
  "\<exists>c'. ProcessCommands idle_clr_env idle_ctrl = Some c' \<and> line_input (m_state c') = []"
proof -
  have "m_fInitialized (m_state idle_ctrl)"
    by (simp add: idle_ctrl_def Controller_Initialize_def idle_messaging_def)
  moreover have "eager_usart (serial_env (port_env idle_clr_env))"
    by (simp add: eager_usart_def idle_clr_env_def roomy_com_env_def calm_usart_def quiet_usart_def)
  ultimately show ?thesis
    using ProcessCommands_returns[of idle_ctrl idle_clr_env] idle_line idle_ctrl_sel idle_turns by auto
qed

section \<open>A request that comes again is answered from the cache\<close>

lemma resend_state:
  assumes "Messaging_TransmitMessage E msg False s = Some (ok, s')"
  shows "\<exists>d. s' = s\<lparr>dev := d\<rparr>"
  using assms by (auto simp: Messaging_TransmitMessage_def Let_def split: if_splits prod.splits option.splits)

text \<open>
  C7. A request for which an answer is in the cache, because it was answered before, is not handled again: no
  endpoint gets a message, no handler runs, and the message of the cache is transmitted again: what goes to the
  line is this message, whole when the transmission succeeds, as it does when the port has room for it, and
  otherwise its beginning.
\<close>

theorem repeated_request_is_answered_from_the_cache:
  assumes "line_ok (m_state c)" and "m_flags (m_header (m_inboundMessage c)) AND c_NACK = 0"
    and "m_flags (m_header (m_inboundMessage c)) AND c_Reply = 0"
    and hit: "take_out (\<lambda>m. is_reply_to (m_header (Cm_message m)) (m_header (m_inboundMessage c)))
      (m_cacheSubordinate (m_state c)) = Some (m, rest)"
    and sig: "length (m_signature (m_header (Cm_message m))) = 8"
    and run: "ProcessPayload E c = Some (ok, c')"
  shows "endPoints (m_state c') = endPoints (m_state c) \<and> debugger (m_state c') = debugger (m_state c)
    \<and> m_inboundMessage c' = m_inboundMessage c
    \<and> m_cacheSubordinate (m_state c') = seen_now E (m_state c) m # rest
    \<and> m_cacheTotalSize (m_state c') = m_cacheTotalSize (m_state c)
    \<and> (\<exists>k. line_output (m_state c') = line_output (m_state c) @ take k (message_on_line (Cm_message m)))
    \<and> (length (message_on_line (Cm_message m)) \<le> line_room (m_state c) \<longrightarrow>
         line_output (m_state c') = line_output (m_state c) @ message_on_line (Cm_message m))
    \<and> (\<exists>sent. Messaging_TransmitMessage E (Cm_message m) False
           ((m_state c)\<lparr>m_cacheSubordinate := seen_now E (m_state c) m # rest\<rparr>) = Some (sent, m_state c')
         \<and> (sent \<longrightarrow> line_output (m_state c') = line_output (m_state c) @ message_on_line (Cm_message m)))"
proof -
  let ?s = "(m_state c)\<lparr>m_cacheSubordinate := seen_now E (m_state c) m # rest\<rparr>"
  obtain b s1 where s1: "Messaging_TransmitMessage E (Cm_message m) False ?s = Some (b, s1)" "c' = c\<lparr>m_state := s1\<rparr>"
    using run assms(2,3) hit by (auto simp: ProcessPayload_def process_request_def Let_def)
  obtain d where "s1 = ?s\<lparr>dev := d\<rparr>" using resend_state[OF s1(1)] by blast
  moreover have "\<exists>k. line_output s1 = line_output ?s @ take k (message_on_line (Cm_message m))"
    "b \<Longrightarrow> line_output s1 = line_output ?s @ message_on_line (Cm_message m)"
    using TransmitMessage_line[OF _ s1(1) sig] assms(1) by simp_all
  moreover have "b" if "length (message_on_line (Cm_message m)) \<le> line_room (m_state c)"
    using TransmitMessage_fits[OF _ s1(1) sig] assms(1) that by (simp add: line_room_def)
  ultimately show ?thesis using s1 by simp
qed

definition cached_answer :: CachedMessage where
  "cached_answer = \<lparr>Cm_flags = 0, Cm_size = 132, Cm_lastSeen = 0, Cm_message = Message_Initialize\<lparr>m_header :=
     zero_packet\<lparr>m_signature := MARKER_DEBUGGER_V1, m_cmd := 5, m_seqReply := 3, m_flags := 0x8002\<rparr>\<rparr>\<rparr>"

definition asked_again :: "unit ctrl" where
  "asked_again = idle_ctrl\<lparr>m_state := idle_messaging\<lparr>m_cacheSubordinate := [cached_answer]\<rparr>,
     m_inboundMessage := Message_Initialize\<lparr>m_header := zero_packet\<lparr>m_cmd := 5, m_seq := 3\<rparr>\<rparr>\<rparr>"

lemma repeated_request_is_answered_from_the_cache_witness:
  "\<exists>c' ok. ProcessPayload idle_clr_env asked_again = Some (ok, c') \<and> endPoints (m_state c') = []
    \<and> line_output (m_state c') = message_on_line (Cm_message cached_answer)"
proof -
  have "case ProcessPayload idle_clr_env asked_again of Some r \<Rightarrow> True | None \<Rightarrow> False" by code_simp
  then obtain ok c' where r: "ProcessPayload idle_clr_env asked_again = Some (ok, c')"
    by (auto split: option.splits)
  have hit: "take_out (\<lambda>m. is_reply_to (m_header (Cm_message m)) (m_header (m_inboundMessage asked_again)))
      (m_cacheSubordinate (m_state asked_again)) = Some (cached_answer, [])"
    by (simp add: asked_again_def take_out_def is_reply_to_def cached_answer_def Message_Initialize_def
        zero_packet_def bytes_packet_def sizeof_packet_def)
  have ok: "line_ok (m_state asked_again)" "line_output (m_state asked_again) = []" "endPoints (m_state asked_again) = []"
  proof -
    have "line_ok idle_messaging" "line_output idle_messaging = []" "endPoints idle_messaging = []"
      using idle_line by (simp_all add: idle_ctrl_def Controller_Initialize_def) (simp add: idle_messaging_def)
    then show "line_ok (m_state asked_again)" "line_output (m_state asked_again) = []"
      "endPoints (m_state asked_again) = []" by (simp_all add: asked_again_def)
  qed
  have fl: "m_flags (m_header (m_inboundMessage asked_again)) = 0" by code_simp
  have sig: "length (m_signature (m_header (Cm_message cached_answer))) = 8"
    by (simp add: cached_answer_def MARKER_DEBUGGER_V1_def)
  have room: "length (message_on_line (Cm_message cached_answer)) \<le> line_room (m_state asked_again)" by code_simp
  show ?thesis
    using repeated_request_is_answered_from_the_cache[OF ok(1) _ _ hit sig r] fl ok r room by auto
qed

section \<open>What a purge leaves\<close>

definition total_size :: "CachedMessage list \<Rightarrow> nat" where
  "total_size ms = sum_list (map (\<lambda>m. unat (Cm_size m)) ms)"

text \<open>\<open>m_cacheTotalSize\<close> is the size of what is in the caches.\<close>

definition cache_inv :: "'a messaging \<Rightarrow> bool" where
  "cache_inv s \<longleftrightarrow> unat (m_cacheTotalSize s) = total_size (m_cacheMaster s) + total_size (m_cacheSubordinate s)"

lemma total_size_append [simp]: "total_size (xs @ ys) = total_size xs + total_size ys"
  by (simp add: total_size_def)

lemma total_size_simps [simp]: "total_size [] = 0" "total_size (m # ms) = unat (Cm_size m) + total_size ms"
  "total_size (rev ms) = total_size ms"
  by (simp_all add: total_size_def rev_map[symmetric])

lemma purge_result:
  assumes "purge oldest ms n = (kept, n')" and "unat n = total_size ms + other"
  shows "unat n' = total_size kept + other \<and> set kept \<subseteq> set ms
    \<and> (\<forall>m \<in> set kept. sint oldest \<le> sint (Cm_lastSeen m)) \<and> n' \<le> n
    \<and> (kept \<noteq> [] \<longrightarrow> n' \<le> c_MaxCacheSize)"
  using assms
proof (induction ms arbitrary: n kept other)
  case (Cons m ms)
  show ?case
  proof (cases "sint (Cm_lastSeen m) < sint oldest \<or> c_MaxCacheSize < n")
    case True
    have le: "Cm_size m \<le> n" using Cons.prems(2) by (simp add: word_le_nat_alt)
    have u: "unat (n - Cm_size m) = total_size ms + other"
      using unat_sub[OF le] Cons.prems(2) by simp
    have p: "purge oldest ms (n - Cm_size m) = (kept, n')" using True Cons.prems(1) by simp
    have "n - Cm_size m \<le> n" using le by (simp add: word_le_nat_alt unat_sub)
    then show ?thesis using Cons.IH[OF p u] by auto
  next
    case False
    obtain k where k: "purge oldest ms n = (k, n')" "kept = k @ [m]"
      using False Cons.prems(1) by (auto split: prod.splits)
    have "unat n = total_size ms + (unat (Cm_size m) + other)" using Cons.prems(2) by simp
    from Cons.IH[OF k(1) this] show ?thesis using False k(2) by auto
  qed
qed simp

text \<open>What a purge does to caches whose sizes add up.\<close>

lemma purge_bounds:
  assumes "cache_inv s"
  shows "cache_inv (PurgeCache E s) \<and> unat (m_cacheTotalSize (PurgeCache E s)) \<le> 5 * 1024
    \<and> (\<forall>m \<in> set (m_cacheMaster (PurgeCache E s)) \<union> set (m_cacheSubordinate (PurgeCache E s)).
         sint (Time_GetMachineTime E s - TIME_CONVERSION__TO_SECONDS * 3) \<le> sint (Cm_lastSeen m))"
proof -
  define oldest where "oldest = Time_GetMachineTime E s - TIME_CONVERSION__TO_SECONDS * 3"
  obtain ms n1 where p1: "purge oldest (rev (m_cacheMaster s)) (m_cacheTotalSize s) = (ms, n1)" by fastforce
  obtain ss n2 where p2: "purge oldest (rev (m_cacheSubordinate s)) n1 = (ss, n2)" by fastforce
  have r: "m_cacheMaster (PurgeCache E s) = ms" "m_cacheSubordinate (PurgeCache E s) = ss"
    "m_cacheTotalSize (PurgeCache E s) = n2"
    using p1 p2 by (simp_all add: PurgeCache_def PurgeCache_list_def oldest_def)
  have u1: "unat n1 = total_size ms + total_size (m_cacheSubordinate s) \<and> set ms \<subseteq> set (rev (m_cacheMaster s))
      \<and> (\<forall>m \<in> set ms. sint oldest \<le> sint (Cm_lastSeen m)) \<and> n1 \<le> m_cacheTotalSize s
      \<and> (ms \<noteq> [] \<longrightarrow> n1 \<le> c_MaxCacheSize)"
    using purge_result[OF p1, of "total_size (m_cacheSubordinate s)"] assms(1) by (simp add: cache_inv_def)
  have u2: "unat n2 = total_size ss + total_size ms \<and> set ss \<subseteq> set (rev (m_cacheSubordinate s))
      \<and> (\<forall>m \<in> set ss. sint oldest \<le> sint (Cm_lastSeen m)) \<and> n2 \<le> n1 \<and> (ss \<noteq> [] \<longrightarrow> n2 \<le> c_MaxCacheSize)"
    using purge_result[OF p2, of "total_size ms"] u1 by simp
  have "n2 \<le> c_MaxCacheSize"
  proof (cases "ms = [] \<and> ss = []")
    case True
    then have "n2 = 0" using u2 by (simp add: unat_eq_0)
    then show ?thesis by simp
  next
    case False
    then show ?thesis using u1 u2 by (meson order_trans)
  qed
  then have "unat n2 \<le> 5 * 1024" by (simp add: word_le_nat_alt c_MaxCacheSize_def)
  then show ?thesis unfolding oldest_def[symmetric] using r u1 u2 by (auto simp: cache_inv_def)
qed

section \<open>The sizes in the caches\<close>

text \<open>
  \<open>m_cacheTotalSize\<close> is the sum of the sizes of what is in the caches, as numbers of 32 bits. Every
  operation keeps that, the reception of commands included.
\<close>

definition sizes_sum :: "CachedMessage list \<Rightarrow> u32" where
  "sizes_sum ms = sum_list (map Cm_size ms)"

definition sizes_ok :: "'a messaging \<Rightarrow> bool" where
  "sizes_ok s \<longleftrightarrow> m_cacheTotalSize s = sizes_sum (m_cacheMaster s) + sizes_sum (m_cacheSubordinate s)"

lemma sizes_sum_simps [simp]:
  "sizes_sum [] = 0" "sizes_sum (m # ms) = Cm_size m + sizes_sum ms"
  "sizes_sum (xs @ ys) = sizes_sum xs + sizes_sum ys"
  by (simp_all add: sizes_sum_def)

lemma sizes_ok_frame [simp]:
  "sizes_ok (s\<lparr>dev := d\<rparr>) = sizes_ok s" "sizes_ok (noted e s) = sizes_ok s"
  "sizes_ok (s\<lparr>endPoints := eps\<rparr>) = sizes_ok s" "sizes_ok (s\<lparr>debugger := x\<rparr>) = sizes_ok s"
  "sizes_ok (s\<lparr>m_fDebuggerInitialized := b\<rparr>) = sizes_ok s"
  by (simp_all add: sizes_ok_def noted_def)

lemma cache_message_sizes: "sizes_ok s \<Longrightarrow> sizes_ok (cache_message E msg s)"
  by (simp add: cache_message_def heap_allocate_def Let_def) (simp add: sizes_ok_def noted_def)

lemma TransmitMessage_sizes:
  assumes "sizes_ok s" and "Messaging_TransmitMessage E msg q s = Some (ok, s')"
  shows "sizes_ok s'"
  using assms cache_message_sizes[of "s\<lparr>dev := d\<rparr>" E msg for d]
  by (auto simp: Messaging_TransmitMessage_def Let_def split: if_splits prod.splits option.splits)

lemma SendMessage_sizes:
  assumes "sizes_ok (m_state c)" and "SendMessage (messaging_phy E) msg c = Some (ok, c')"
  shows "sizes_ok (m_state c')"
  using assms TransmitMessage_sizes
  by (fastforce simp: SendMessage_def messaging_phy_def Phy_TransmitMessage_def)

lemma ReplyToCommand_sizes:
  assumes "sizes_ok (m_state c)" and "ReplyToCommand E ok critical ptr c = Some c'"
  shows "sizes_ok (m_state c')"
proof (cases "m_flags (m_header (m_inboundMessage c)) AND c_NonCritical = 0")
  case True
  then obtain req flg n p c2 msg b where
    r: "PrepareReply req flg n p (on_inbound answered c) Message_Initialize = Some (c2, msg)"
    "SendMessage (messaging_phy E) msg c2 = Some (b, c')"
    using assms(2) by (auto simp: ReplyToCommand_def bind_eq_Some_conv Let_def)
  then show ?thesis using SendMessage_sizes[OF _ r(2)] PrepareReply_state(1)[OF r(1)] assms(1) by simp
next
  case False
  then show ?thesis using assms by (simp add: ReplyToCommand_def)
qed

lemma SendEvent_sizes:
  assumes "sizes_ok (m_state c)" and "SendEvent E cmd n p flg c = Some (ok, c')"
  shows "sizes_ok (m_state c')"
proof -
  obtain c2 msg where r: "PrepareRequest cmd flg n p c Message_Initialize = Some (c2, msg)"
    "SendMessage (messaging_phy E) msg c2 = Some (ok, c')"
    using assms(2) by (auto simp: SendEvent_def SendProtocolMessage_def bind_eq_Some_conv)
  then show ?thesis using SendMessage_sizes[OF _ r(2)] PrepareRequest_state(1)[OF r(1)] assms(1) by simp
qed

lemma AllocateAndQueueMessage_sizes:
  "sizes_ok s \<Longrightarrow> sizes_ok (snd (AllocateAndQueueMessage E cmd bs port addr found s))"
  by (simp add: AllocateAndQueueMessage_def heap_allocate_def Let_def)

lemma run_reactions_sizes:
  "run_reactions E rs c = Some c' \<Longrightarrow> sizes_ok (m_state c) \<Longrightarrow> sizes_ok (m_state c')"
proof (induction rs arbitrary: c)
  case (Cons r rs)
  show ?case
  proof (cases r)
    case (Answer b1 b2 bs)
    then obtain c1 where c1: "ReplyToCommand E b1 b2 (Some bs) c = Some c1" "run_reactions E rs c1 = Some c'"
      using Cons.prems(1) by (auto simp: bind_eq_Some_conv)
    show ?thesis using Cons.IH[OF c1(2) ReplyToCommand_sizes[OF Cons.prems(2) c1(1)]] .
  next
    case (Event cmd flg bs)
    then obtain b c1 where c1: "SendEvent E cmd (of_nat (length bs)) (Some bs) flg c = Some (b, c1)"
      "run_reactions E rs c1 = Some c'"
      using Cons.prems(1) by (auto simp: bind_eq_Some_conv)
    show ?thesis using Cons.IH[OF c1(2) SendEvent_sizes[OF Cons.prems(2) c1(1)]] .
  qed
qed simp

lemma queue_and_answer_sizes:
  assumes "queue_and_answer E cmd port c = Some (ok, c')" and "sizes_ok (m_state c)"
  shows "sizes_ok (m_state c')"
proof -
  obtain f s1 addr bs ptr where q: "AllocateAndQueueMessage E cmd bs (port addr) addr 0 (m_state c) = (f, s1)"
    "ReplyToCommand E f False ptr (c\<lparr>m_state := s1\<rparr>) = Some c'"
    using assms(1) by (auto simp: queue_and_answer_def Let_def split: if_splits prod.splits)
  then show ?thesis
    using ReplyToCommand_sizes[OF _ q(2)] AllocateAndQueueMessage_sizes[OF assms(2), of E cmd bs "port addr" addr 0] by simp
qed

lemma run_handler_sizes:
  assumes "run_handler E hnd owner c = Some (ok, c')" and "sizes_ok (m_state c)"
  shows "sizes_ok (m_state c')"
proof (cases hnd)
  case Messaging_Query
  then show ?thesis using assms ReplyToCommand_sizes
    by (fastforce simp: run_handler_def run_Messaging_Query_def Let_def split: if_splits)
next
  case Messaging_Query__Reply
  then show ?thesis using assms AllocateAndQueueMessage_sizes
    by (auto simp: run_handler_def run_Messaging_Query__Reply_def Let_def split: if_splits)
next
  case (Other_Handler f)
  then obtain rs dbg where "run_reactions E rs (on_state (\<lambda>s. s\<lparr>debugger := dbg\<rparr>) c) = Some c'"
    using assms(1) by (auto simp: run_handler_def run_other_def bind_eq_Some_conv)
  then show ?thesis using run_reactions_sizes assms(2) by fastforce
qed (use assms queue_and_answer_sizes in \<open>auto simp: run_handler_def run_Messaging_Send_def
  run_Messaging_Reply_def run_Messaging_Send__Reply_def run_Messaging_Reply__Reply_def\<close>)

lemma dispatch_sizes:
  assumes "dispatch E tables c = Some c'" and "sizes_ok (m_state c)"
  shows "sizes_ok (m_state c')"
proof (cases "find_handler (m_cmd (m_header (m_inboundMessage c))) tables")
  case None
  then show ?thesis using assms ReplyToCommand_sizes by (fastforce simp: dispatch_def)
next
  case (Some h)
  then obtain ok c1 where c1: "run_handler E (fst h) (snd h) c = Some (ok, c1)"
    "ReplyToCommand E ok False None c1 = Some c'"
    using assms(1) by (auto simp: dispatch_def bind_eq_Some_conv split: prod.splits)
  then show ?thesis using ReplyToCommand_sizes[OF run_handler_sizes[OF c1(1) assms(2)] c1(2)] by simp
qed

text \<open>An entry that is moved to the front of its list keeps its size.\<close>

lemma take_out_sizes:
  assumes "take_out P ms = Some (m, rest)" and "Cm_size m' = Cm_size m"
  shows "sizes_sum (m' # rest) = sizes_sum ms"
proof -
  obtain as bs where "ms = as @ m # bs" "rest = as @ bs" using take_out_Some(4)[OF assms(1)] by blast
  then show ?thesis using assms(2) by (simp add: add.left_commute)
qed

lemma seen_now_size [simp]: "Cm_size (seen_now E s m) = Cm_size m"
  by (simp add: seen_now_def)

lemma process_reply_sizes:
  assumes "process_reply E c = Some c'" and "sizes_ok (m_state c)"
  shows "sizes_ok (m_state c')"
proof (cases "take_out (\<lambda>m. is_reply_to (m_header (m_inboundMessage c)) (m_header (Cm_message m)))
    (m_cacheMaster (m_state c))")
  case None
  then show ?thesis using assms dispatch_sizes by (fastforce simp: process_reply_def)
next
  case (Some r)
  obtain m rest where r: "r = (m, rest)" by fastforce
  have front: "sizes_ok ((m_state c)\<lparr>m_cacheMaster := m' # rest\<rparr>)" if "Cm_size m' = Cm_size m" for m'
    using take_out_sizes[OF Some[unfolded r] that] assms(2) by (simp add: sizes_ok_def)
  show ?thesis
  proof (cases "Cm_flags (seen_now E (m_state c) m) AND c_Processed = 0")
    case True
    let ?m = "(seen_now E (m_state c) m)\<lparr>Cm_flags := Cm_flags (seen_now E (m_state c) m) OR c_Processed\<rparr>"
    have "dispatch E (m_Lookup_Replies (m_state c)) (c\<lparr>m_state := (m_state c)\<lparr>m_cacheMaster := ?m # rest\<rparr>\<rparr>) = Some c'"
      using assms(1) Some r True by (simp add: process_reply_def Let_def)
    from dispatch_sizes[OF this] front[of ?m] show ?thesis by simp
  next
    case False
    then have "c' = c\<lparr>m_state := (m_state c)\<lparr>m_cacheMaster := seen_now E (m_state c) m # rest\<rparr>\<rparr>"
      using assms(1) Some r by (simp add: process_reply_def Let_def)
    then show ?thesis using front by simp
  qed
qed

lemma process_request_sizes:
  assumes "process_request E c = Some c'" and "sizes_ok (m_state c)"
  shows "sizes_ok (m_state c')"
proof (cases "take_out (\<lambda>m. is_reply_to (m_header (Cm_message m)) (m_header (m_inboundMessage c)))
    (m_cacheSubordinate (m_state c))")
  case None
  then show ?thesis using assms dispatch_sizes by (fastforce simp: process_request_def)
next
  case (Some r)
  obtain m rest where r: "r = (m, rest)" by fastforce
  let ?s = "(m_state c)\<lparr>m_cacheSubordinate := seen_now E (m_state c) m # rest\<rparr>"
  obtain ok s1 where s1: "Messaging_TransmitMessage E (Cm_message m) False ?s = Some (ok, s1)" "c' = c\<lparr>m_state := s1\<rparr>"
    using assms(1) Some r by (auto simp: process_request_def Let_def)
  have "sizes_ok ?s" using take_out_sizes[OF Some[unfolded r], of "seen_now E (m_state c) m"] assms(2)
    by (simp add: sizes_ok_def)
  then show ?thesis using TransmitMessage_sizes[OF _ s1(1)] s1(2) by simp
qed

interpretation sizes: device_invariant "messaging_env E" sizes_ok for E :: "'a clr_env"
proof (unfold_locales, goal_cases)
  case 1
  then show ?case by (auto simp: messaging_env_def messaging_phy_def Phy_ReceiveBytes_def Let_def split: if_splits prod.splits)
next
  case 2
  then show ?case using TransmitMessage_sizes
    by (auto simp: messaging_env_def messaging_phy_def Phy_TransmitMessage_def)
next
  case 3
  then show ?case
    by (auto simp: messaging_env_def messaging_app_def App_ProcessHeader_def heap_allocate_def Let_def split: if_splits)
next
  case (4 c)
  then show ?case using process_reply_sizes[of E "on_state (noted Watchdog_ResetCounter) c"]
      process_request_sizes[of E "on_state (noted Watchdog_ResetCounter) c"]
    by (auto simp: messaging_env_def messaging_app_def App_ProcessPayload_def ProcessPayload_def Let_def split: if_splits)
next
  case 5
  then show ?case by (auto simp: messaging_env_def messaging_app_def App_Release_def split: if_splits)
qed

text \<open>
  The states of the messaging layer: the object is in cleared memory at first; then come, in any order, the
  calls of its interface, and changes of the rest of the system that leave the caches alone.
\<close>

inductive clr_reachable :: "'a clr_env \<Rightarrow> 'a ctrl \<Rightarrow> bool" for E where
  start: "m_cacheMaster (m_state c) = [] \<Longrightarrow> m_cacheSubordinate (m_state c) = [] \<Longrightarrow>
      m_cacheTotalSize (m_state c) = 0 \<Longrightarrow> clr_reachable E c"
| init: "clr_reachable E c \<Longrightarrow> clr_reachable E (Messaging_Initialize E port requests replies owner c)"
| cleanup: "clr_reachable E c \<Longrightarrow> clr_reachable E (Cleanup E c)"
| init_debugger: "clr_reachable E c \<Longrightarrow> clr_reachable E (InitializeDebugger E c)"
| commands: "clr_reachable E c \<Longrightarrow> ProcessCommands E c = Some c' \<Longrightarrow> clr_reachable E c'"
| event: "clr_reachable E c \<Longrightarrow> SendEvent E cmd n p flg c = Some (ok, c') \<Longrightarrow> clr_reachable E c'"
| reply: "clr_reachable E c \<Longrightarrow> ReplyToCommand E ok critical ptr c = Some c' \<Longrightarrow> clr_reachable E c'"
| purged: "clr_reachable E c \<Longrightarrow> clr_reachable E (on_state (PurgeCache E) c)"
| outside: "clr_reachable E c \<Longrightarrow>
      clr_reachable E (on_state (\<lambda>s. s\<lparr>dev := d, endPoints := eps, debugger := x, clr_calls := cs\<rparr>) c)"

lemma purge_sizes: "purge oldest ms n = (kept, n') \<Longrightarrow> n = sizes_sum ms + other \<Longrightarrow> n' = sizes_sum kept + other"
proof (induction oldest ms n arbitrary: kept other rule: purge.induct)
  case (2 oldest m ms n)
  show ?case
  proof (cases "sint (Cm_lastSeen m) < sint oldest \<or> c_MaxCacheSize < n")
    case True
    with 2(1)[OF True, of kept other] 2(3,4) show ?thesis by simp
  next
    case False
    obtain k where k: "purge oldest ms n = (k, n')" "kept = k @ [m]" using False 2(3) by (auto split: prod.splits)
    from 2(2)[OF False k(1), of "Cm_size m + other"] 2(4) k(2) show ?thesis by simp
  qed
qed simp

lemma sizes_sum_rev [simp]: "sizes_sum (rev ms) = sizes_sum ms"
  by (induction ms) simp_all

lemma PurgeCache_sizes:
  assumes "sizes_ok s"
  shows "sizes_ok (PurgeCache E s)"
proof -
  define oldest where "oldest = Time_GetMachineTime E s - TIME_CONVERSION__TO_SECONDS * 3"
  obtain ms n1 where p1: "purge oldest (rev (m_cacheMaster s)) (m_cacheTotalSize s) = (ms, n1)" by fastforce
  obtain ss n2 where p2: "purge oldest (rev (m_cacheSubordinate s)) n1 = (ss, n2)" by fastforce
  have "n1 = sizes_sum ms + sizes_sum (m_cacheSubordinate s)"
    using purge_sizes[OF p1, of "sizes_sum (m_cacheSubordinate s)"] assms by (simp add: sizes_ok_def)
  then have "n2 = sizes_sum ss + sizes_sum ms" using purge_sizes[OF p2, of "sizes_sum ms"] by (simp add: add.commute)
  then show ?thesis using p1 p2 by (simp add: PurgeCache_def PurgeCache_list_def sizes_ok_def flip: oldest_def)
qed

lemma reachable_sizes: "clr_reachable E c \<Longrightarrow> sizes_ok (m_state c)"
proof (induction rule: clr_reachable.induct)
  case (init c port requests replies owner)
  then show ?case
    by (auto simp: Messaging_Initialize_def Controller_Initialize_def Let_def split: prod.splits) (simp_all add: sizes_ok_def)
next
  case (cleanup c)
  then show ?case by (auto simp: Cleanup_def Let_def) (simp_all add: sizes_ok_def)
next
  case (init_debugger c)
  then show ?case by (simp add: InitializeDebugger_def split: prod.splits)
next
  case (commands c c')
  then show ?case using sizes.process_ok by (fastforce simp: ProcessCommands_def AdvanceState_def split: if_splits)
next
  case (event c cmd n p flg ok c')
  then show ?case using SendEvent_sizes by blast
next
  case (reply c ok critical ptr c')
  then show ?case using ReplyToCommand_sizes by blast
next
  case (purged c)
  then show ?case using PurgeCache_sizes by simp
qed (simp_all add: sizes_ok_def)

lemma unat_sizes_sum: "total_size ms < 2 ^ 32 \<Longrightarrow> unat (sizes_sum ms) = total_size ms"
proof (induction ms)
  case (Cons m ms)
  then show ?case by (simp add: unat_word_ariths)
qed simp

lemma reachable_cache_inv:
  assumes "clr_reachable E c" and "total_size (m_cacheMaster (m_state c)) + total_size (m_cacheSubordinate (m_state c)) < 2 ^ 32"
  shows "cache_inv (m_state c)"
proof -
  have "unat (sizes_sum (m_cacheMaster (m_state c) @ m_cacheSubordinate (m_state c)))
      = total_size (m_cacheMaster (m_state c) @ m_cacheSubordinate (m_state c))"
    by (rule unat_sizes_sum) (use assms(2) in simp)
  then show ?thesis using reachable_sizes[OF assms(1)] by (simp add: cache_inv_def sizes_ok_def)
qed

text \<open>
  C36. The sizes of the cached messages add up to \<open>m_cacheTotalSize\<close> in every state that the calls of the
  messaging layer reach, requests, answers, resends and received commands included, as long as the messages
  fit into the 32-bit address space; and after a purge in such a state they still do, the sum is at most five
  kilobytes, and every message in the caches was seen in the last three seconds.
\<close>

theorem purge_bounds_the_caches:
  assumes "clr_reachable E c"
    and "total_size (m_cacheMaster (m_state c)) + total_size (m_cacheSubordinate (m_state c)) < 2 ^ 32"
  shows "let s = m_state c; s' = PurgeCache E s in
    unat (m_cacheTotalSize s) = total_size (m_cacheMaster s) + total_size (m_cacheSubordinate s)
    \<and> unat (m_cacheTotalSize s') = total_size (m_cacheMaster s') + total_size (m_cacheSubordinate s')
    \<and> unat (m_cacheTotalSize s') \<le> 5 * 1024
    \<and> (\<forall>m \<in> set (m_cacheMaster s') \<union> set (m_cacheSubordinate s').
         sint (Time_GetMachineTime E s - TIME_CONVERSION__TO_SECONDS * 3) \<le> sint (Cm_lastSeen m))"
  using reachable_cache_inv[OF assms] purge_bounds[OF reachable_cache_inv[OF assms], of E]
  unfolding Let_def cache_inv_def by blast

text \<open>An event is sent and kept, and then the caches are purged.\<close>

lemma purge_bounds_the_caches_witness:
  "\<exists>c'. SendEvent idle_clr_env 5 1 (Some [7]) 0 idle_ctrl = Some (True, c') \<and> m_cacheMaster (m_state c') \<noteq> []
    \<and> unat (m_cacheTotalSize (PurgeCache idle_clr_env (m_state c'))) \<le> 5 * 1024"
proof -
  have "case SendEvent idle_clr_env 5 1 (Some [7]) 0 idle_ctrl of Some (ok, c') \<Rightarrow> ok \<and> m_cacheMaster (m_state c') \<noteq> []
      \<and> total_size (m_cacheMaster (m_state c')) + total_size (m_cacheSubordinate (m_state c')) \<le> 200 | None \<Rightarrow> False"
    by code_simp
  then obtain c' where c': "SendEvent idle_clr_env 5 1 (Some [7]) 0 idle_ctrl = Some (True, c')"
    "m_cacheMaster (m_state c') \<noteq> []"
    "total_size (m_cacheMaster (m_state c')) + total_size (m_cacheSubordinate (m_state c')) \<le> 200"
    by (auto split: option.splits)
  have "clr_reachable idle_clr_env idle_ctrl"
    by (rule start) (simp_all add: idle_ctrl_def Controller_Initialize_def idle_messaging_def)
  from purge_bounds_the_caches[OF event[OF this c'(1)]] c' show ?thesis
    by (auto simp: Let_def)
qed

section \<open>Messages for endpoints\<close>

lemma bytes_address_address_bytes: "bytes_address (address_bytes a @ bs) = a"
  by (simp add: bytes_address_def address_bytes_def bytes_word_word_bytes)

lemma length_address_bytes [simp]: "length (address_bytes a) = 20"
  by (simp add: address_bytes_def)

lemma TransmitMessage_endPoints:
  assumes "Messaging_TransmitMessage E msg q s = Some (ok, s')"
  shows "endPoints s' = endPoints s"
proof -
  have "endPoints (cache_message E m s) = endPoints s" for m s
    by (simp add: cache_message_def heap_allocate_def noted_def Let_def)
  then show ?thesis
    using assms by (auto simp: Messaging_TransmitMessage_def Let_def split: if_splits prod.splits option.splits)
qed

lemma ReplyToCommand_endPoints:
  assumes "ReplyToCommand E ok critical ptr c = Some c'"
  shows "endPoints (m_state c') = endPoints (m_state c)"
proof (cases "m_flags (m_header (m_inboundMessage c)) AND c_NonCritical = 0")
  case True
  then obtain req flg n p c2 msg b where
    "PrepareReply req flg n p (on_inbound answered c) Message_Initialize = Some (c2, msg)"
    "SendMessage (messaging_phy E) msg c2 = Some (b, c')"
    using assms by (auto simp: ReplyToCommand_def bind_eq_Some_conv Let_def)
  then show ?thesis
    using PrepareReply_state(1) TransmitMessage_endPoints
    by (fastforce simp: SendMessage_def messaging_phy_def Phy_TransmitMessage_def)
next
  case False
  then show ?thesis using assms by (simp add: ReplyToCommand_def)
qed

lemma FindEndPoint_queue:
  "FindEndPoint port eps = Some ep \<Longrightarrow>
   FindEndPoint port (queue_message port msg eps) = Some (ep\<lparr>Ep_messages := Ep_messages ep @ [msg]\<rparr>)"
  by (induction eps) (auto simp: FindEndPoint_def)

text \<open>
  Data sent to an endpoint is queued there, behind the messages that wait already, with the address it came
  with.
\<close>

theorem Send_reaches_the_endpoint:
  assumes "m_cmd (m_header (m_inboundMessage c)) = c_Messaging_Send"
    and "m_flags (m_header (m_inboundMessage c)) AND c_NACK = 0"
    and "m_flags (m_header (m_inboundMessage c)) AND c_Reply = 0"
    and "m_payload (m_inboundMessage c) = Some (address_bytes addr @ bs)"
    and new: "take_out (\<lambda>m. is_reply_to (m_header (Cm_message m)) (m_header (m_inboundMessage c)))
      (m_cacheSubordinate (m_state c)) = None"
    and table: "m_Lookup_Requests (m_state c) = \<lparr>Lk_table = c_Messaging_Lookup_Request, Lk_owner = owner\<rparr> # ts"
    and ep: "FindEndPoint (Addr_to addr) (endPoints (m_state c)) = Some ep"
    and "allocates E (m_state c) (sizeof_Ep_Message E + length bs)"
    and run: "ProcessPayload E c = Some (ok, c')"
  shows "FindEndPoint (Addr_to addr) (endPoints (m_state c')) = Some (ep\<lparr>Ep_messages := Ep_messages ep
     @ [\<lparr>Msg_cmd = c_Messaging_Send, Msg_addr = addr, Msg_found = 0, Msg_length = of_nat (length bs),
         Msg_data = bs\<rparr>]\<rparr>)"
proof -
  let ?msg = "\<lparr>Msg_cmd = c_Messaging_Send, Msg_addr = addr, Msg_found = 0, Msg_length = of_nat (length bs),
         Msg_data = bs\<rparr>"
  obtain b c1 where c1: "run_Messaging_Send E c = Some (b, c1)" "ReplyToCommand E b False None c1 = Some c'"
    using run assms(1-3) new table
    by (auto simp: ProcessPayload_def process_request_def dispatch_def c_Messaging_Lookup_Request_def
        c_Messaging_Query_def c_Messaging_Send_def run_handler_def bind_eq_Some_conv)
  obtain s1 where s1: "AllocateAndQueueMessage E c_Messaging_Send bs (Addr_to addr) addr 0 (m_state c) = (True, s1)"
    "endPoints s1 = queue_message (Addr_to addr) ?msg (endPoints (m_state c))"
    using ep assms(8) by (simp add: AllocateAndQueueMessage_def heap_allocate_def noted_def)
  have "inbound_bytes c = address_bytes addr @ bs" using assms(4) by (simp add: inbound_bytes_def buffer_bytes_def)
  then obtain ptr where "ReplyToCommand E True False ptr (c\<lparr>m_state := s1\<rparr>) = Some c1"
    using c1(1) s1(1)
    by (auto simp: run_Messaging_Send_def queue_and_answer_def sizeof_Address_def bytes_address_address_bytes Let_def)
  then have "endPoints (m_state c') = queue_message (Addr_to addr) ?msg (endPoints (m_state c))"
    using ReplyToCommand_endPoints[OF c1(2)] ReplyToCommand_endPoints s1(2) by fastforce
  then show ?thesis using FindEndPoint_queue[OF ep] by simp
qed

definition sample_address :: Address where
  "sample_address = \<lparr>Addr_seq = 1, Addr_from = \<lparr>Port_type = 2, Port_id = 3\<rparr>, Addr_to = \<lparr>Port_type = 4, Port_id = 5\<rparr>\<rparr>"

definition sample_endpoint :: EndPoint where
  "sample_endpoint = \<lparr>Ep_addr = \<lparr>Port_type = 4, Port_id = 5\<rparr>, Ep_messages = [], Ep_seq = 0\<rparr>"

definition asked :: "u32 \<Rightarrow> u32 \<Rightarrow> u8 list \<Rightarrow> unit ctrl" where
  "asked cmd flg bs = idle_ctrl\<lparr>m_state := idle_messaging\<lparr>endPoints := [sample_endpoint]\<rparr>,
     m_inboundMessage := Message_Initialize\<lparr>m_header := zero_packet\<lparr>m_cmd := cmd, m_flags := flg\<rparr>,
       m_payload := Some bs\<rparr>\<rparr>"

lemma asked_sel:
  "m_cmd (m_header (m_inboundMessage (asked cmd flg bs))) = cmd"
  "m_flags (m_header (m_inboundMessage (asked cmd flg bs))) = flg"
  "m_payload (m_inboundMessage (asked cmd flg bs)) = Some bs"
  "endPoints (m_state (asked cmd flg bs)) = [sample_endpoint]"
  "m_cacheSubordinate (m_state (asked cmd flg bs)) = []"
  "m_Lookup_Requests (m_state (asked cmd flg bs)) = [\<lparr>Lk_table = c_Messaging_Lookup_Request, Lk_owner = 0\<rparr>]"
  "m_Lookup_Replies (m_state (asked cmd flg bs)) = [\<lparr>Lk_table = c_Messaging_Lookup_Reply, Lk_owner = 0\<rparr>]"
  by (simp_all add: asked_def idle_messaging_def)

text \<open>
  C37. The answer to a query does not reach the endpoint that asked: the table of replies names the handler
  of the query itself, and that one queues nothing.
\<close>

theorem query_reply_is_lost:
  assumes "m_cmd (m_header (m_inboundMessage c)) = c_Messaging_Query"
    and "m_flags (m_header (m_inboundMessage c)) AND c_NACK = 0"
    and "m_flags (m_header (m_inboundMessage c)) AND c_Reply \<noteq> 0"
    and "m_Lookup_Replies (m_state c) = \<lparr>Lk_table = c_Messaging_Lookup_Reply, Lk_owner = owner\<rparr> # ts"
    and run: "ProcessPayload E c = Some (ok, c')"
  shows "endPoints (m_state c') = endPoints (m_state c)"
proof -
  let ?c = "\<lambda>ms. c\<lparr>m_state := (m_state c)\<lparr>m_cacheMaster := ms\<rparr>\<rparr>"
  have f: "find_handler c_Messaging_Query (m_Lookup_Replies (m_state c)) = Some (Messaging_Query, owner)"
    by (simp add: assms(4) c_Messaging_Lookup_Reply_def)
  have d: "endPoints (m_state c') = endPoints (m_state c0)"
    if disp: "dispatch E (m_Lookup_Replies (m_state c)) c0 = Some c'"
      and same: "m_inboundMessage c0 = m_inboundMessage c" for c0
  proof -
    obtain b c1 where c1: "run_Messaging_Query E c0 = Some (b, c1)" "ReplyToCommand E b False None c1 = Some c'"
      using disp same assms(1) f by (auto simp: dispatch_def run_handler_def bind_eq_Some_conv)
    obtain ptr where "ReplyToCommand E True False ptr c0 = Some c1"
      using c1(1) by (auto simp: run_Messaging_Query_def Let_def split: if_splits)
    then show ?thesis using ReplyToCommand_endPoints[OF c1(2)] ReplyToCommand_endPoints by metis
  qed
  have p: "process_reply E c = Some c'" using run assms(2,3) by (auto simp: ProcessPayload_def Let_def)
  show ?thesis
  proof (cases "take_out (\<lambda>m. is_reply_to (m_header (m_inboundMessage c)) (m_header (Cm_message m)))
      (m_cacheMaster (m_state c))")
    case None
    then show ?thesis using p d[of c] by (simp add: process_reply_def)
  next
    case (Some r)
    obtain m rest where r: "r = (m, rest)" by fastforce
    obtain ms where "c' = ?c ms \<or> dispatch E (m_Lookup_Replies (m_state c)) (?c ms) = Some c'"
      using p Some r by (simp add: process_reply_def Let_def split: if_splits) metis+
    then show ?thesis using d[of "?c ms"] by auto
  qed
qed

lemma query_reply_is_lost_witness:
  "\<exists>ok c'. ProcessPayload idle_clr_env (asked c_Messaging_Query 0x8003 (word_bytes 4 (1 :: u32)
      @ address_bytes sample_address)) = Some (ok, c') \<and> endPoints (m_state c') = [sample_endpoint]"
proof -
  let ?c = "asked c_Messaging_Query 0x8003 (word_bytes 4 (1 :: u32) @ address_bytes sample_address)"
  have "case ProcessPayload idle_clr_env ?c of Some r \<Rightarrow> True | None \<Rightarrow> False" by code_simp
  then obtain ok c' where r: "ProcessPayload idle_clr_env ?c = Some (ok, c')" by (auto split: option.splits)
  show ?thesis
    using query_reply_is_lost[OF _ _ _ _ r, of 0 "[]"] r by (simp add: asked_sel c_NACK_def c_Reply_def)
qed

end
