(* ===== verification/Heap_Block.thy ===== *)
theory Heap_Block
  imports Prelude
begin

text \<open>
  \<^verbatim>\<open>CLR/Include/TinyCLR_Runtime__HeapBlock.h\<close>: the blocks of the managed heap. A block of 12 bytes
  holds an identification word (data type, flags and the size of the object that starts there, in blocks)
  and 8 bytes of data. Memory is a function from byte addresses to typed views of what lies
  there: \<open>m_id\<close> and the members that the heap and the garbage collector read. Views at
  different addresses do not overlap: the code never reads one member through another, and the scan for objects that
  survive a boot, which reads memory of unknown contents, writes only into blocks that it passes.
  Little endian processors only.
\<close>

section \<open>Constants\<close>

definition HB_Alive :: u32 where "HB_Alive = 0x01"
definition HB_KeepAlive :: u32 where "HB_KeepAlive = 0x02"
definition HB_Event :: u32 where "HB_Event = 0x04"
definition HB_Pinned :: u32 where "HB_Pinned = 0x08"
definition HB_InitializeToZero :: u32 where "HB_InitializeToZero = 0x00100"
definition HB_NoGcOnFailure :: u32 where "HB_NoGcOnFailure = 0x00200"
definition HB_SpecialGCAllocation :: u32 where "HB_SpecialGCAllocation = 0x00400"
definition HB_NoGcOnFailedAllocation :: u32 where
  "HB_NoGcOnFailedAllocation = HB_SpecialGCAllocation OR HB_NoGcOnFailure"
definition HB_MaxSize :: u32 where "HB_MaxSize = 0x0000FFFF"

lemmas HB_defs = HB_Alive_def HB_KeepAlive_def HB_Event_def HB_Pinned_def HB_InitializeToZero_def
  HB_NoGcOnFailure_def HB_SpecialGCAllocation_def HB_MaxSize_def

definition DATATYPE_U1 :: u8 where "DATATYPE_U1 = 3"
definition DATATYPE_OBJECT :: u8 where "DATATYPE_OBJECT = 16"
definition DATATYPE_CLASS :: u8 where "DATATYPE_CLASS = 17"
definition DATATYPE_VALUETYPE :: u8 where "DATATYPE_VALUETYPE = 18"
definition DATATYPE_SZARRAY :: u8 where "DATATYPE_SZARRAY = 19"
definition DATATYPE_BYREF :: u8 where "DATATYPE_BYREF = 20"
definition DATATYPE_FREEBLOCK :: u8 where "DATATYPE_FREEBLOCK = 21"
definition DATATYPE_CACHEDBLOCK :: u8 where "DATATYPE_CACHEDBLOCK = 22"
definition DATATYPE_WEAKCLASS :: u8 where "DATATYPE_WEAKCLASS = 24"
definition DATATYPE_ARRAY_BYREF :: u8 where "DATATYPE_ARRAY_BYREF = 26"
definition DATATYPE_DELEGATE_HEAD :: u8 where "DATATYPE_DELEGATE_HEAD = 27"
definition DATATYPE_DELEGATELIST_HEAD :: u8 where "DATATYPE_DELEGATELIST_HEAD = 28"
definition DATATYPE_TRANSPARENT_PROXY :: u8 where "DATATYPE_TRANSPARENT_PROXY = 53"

lemmas DATATYPE_defs = DATATYPE_U1_def DATATYPE_WEAKCLASS_def DATATYPE_OBJECT_def DATATYPE_CLASS_def DATATYPE_VALUETYPE_def DATATYPE_SZARRAY_def
  DATATYPE_BYREF_def DATATYPE_FREEBLOCK_def DATATYPE_CACHEDBLOCK_def DATATYPE_ARRAY_BYREF_def
  DATATYPE_DELEGATE_HEAD_def DATATYPE_DELEGATELIST_HEAD_def DATATYPE_TRANSPARENT_PROXY_def

section \<open>A block\<close>

text \<open>
  \<open>m_ref\<close> is the pointer of an object, array or proxy reference, \<open>m_appDomain\<close> the second member of
  a proxy; \<open>m_numOfElements\<close>, \<open>m_typeOfElement\<close>, \<open>m_sizeOfElement\<close> and \<open>m_fReference\<close> are members of an
  array, \<open>m_dlgLength\<close> and \<open>m_dlgFlags\<close> those of a list of delegates, \<open>m_identity_flags\<close> and the two
  targets those of a weak reference.
\<close>

record hblock =
  m_id :: u32
  m_ref :: "nat option"
  m_appDomain :: "nat option"
  m_numOfElements :: u32
  m_fReference :: u8
  m_dlgLength :: u32
  m_dlgFlags :: u32
  m_typeOfElement :: u8
  m_sizeOfElement :: u8
  m_identity_flags :: u32
  m_targetDirect :: "nat option"
  m_targetSerialized :: "nat option"

type_synonym memory = "nat \<Rightarrow> hblock"

definition sizeof_HeapBlock :: nat where [simp]: "sizeof_HeapBlock = 12"

text \<open>\<open>ptr + n\<close> for a pointer to blocks.\<close>

definition block_at :: "nat \<Rightarrow> nat \<Rightarrow> nat" where
  [simp]: "block_at ptr n = ptr + sizeof_HeapBlock * n"

definition CLR_RT_HEAPBLOCK_RAW_ID :: "u32 \<Rightarrow> u32 \<Rightarrow> u32 \<Rightarrow> u32" where
  "CLR_RT_HEAPBLOCK_RAW_ID dataType flags sz =
     (dataType AND 0x000000FF) OR push_bit 8 (flags AND 0x000000FF) OR push_bit 16 (sz AND 0x0000FFFF)"

definition DataType :: "hblock \<Rightarrow> u8" where "DataType b = ucast (m_id b)"
definition DataFlags :: "hblock \<Rightarrow> u8" where "DataFlags b = ucast (drop_bit 8 (m_id b))"
definition DataSize :: "hblock \<Rightarrow> u16" where "DataSize b = ucast (drop_bit 16 (m_id b))"

definition SetDataId :: "u32 \<Rightarrow> hblock \<Rightarrow> hblock" where
  "SetDataId raw b = b\<lparr>m_id := raw\<rparr>"

definition ChangeDataType :: "u32 \<Rightarrow> hblock \<Rightarrow> hblock" where
  "ChangeDataType dataType b = b\<lparr>m_id := (m_id b AND NOT 0xFF) OR (dataType AND 0xFF)\<rparr>"

definition ChangeDataFlags :: "u32 \<Rightarrow> hblock \<Rightarrow> hblock" where
  "ChangeDataFlags flags b = b\<lparr>m_id := (m_id b AND NOT 0xFF00) OR push_bit 8 (flags AND 0xFF)\<rparr>"

definition SetFlags :: "u32 \<Rightarrow> hblock \<Rightarrow> hblock" where
  "SetFlags flags b = b\<lparr>m_id := m_id b OR push_bit 8 (flags AND 0xFF)\<rparr>"

definition ResetFlags :: "u32 \<Rightarrow> hblock \<Rightarrow> hblock" where
  "ResetFlags flags b = b\<lparr>m_id := m_id b AND NOT (push_bit 8 (flags AND 0xFF))\<rparr>"

definition IsFlagSet :: "u32 \<Rightarrow> hblock \<Rightarrow> bool" where
  "IsFlagSet flags b \<longleftrightarrow> DataFlags b AND ucast flags \<noteq> 0"

definition IsAlive :: "hblock \<Rightarrow> bool" where "IsAlive b = IsFlagSet HB_Alive b"
definition IsEvent :: "hblock \<Rightarrow> bool" where "IsEvent b = IsFlagSet HB_Event b"
definition MarkAlive :: "hblock \<Rightarrow> hblock" where "MarkAlive b = SetFlags HB_Alive b"
definition MarkDead :: "hblock \<Rightarrow> hblock" where "MarkDead b = ResetFlags HB_Alive b"

definition ClearData :: "hblock \<Rightarrow> hblock" where
  "ClearData b = b\<lparr>m_ref := None, m_appDomain := None\<rparr>"

definition zero_block :: hblock where
  "zero_block = \<lparr>m_id = 0, m_ref = None, m_appDomain = None, m_numOfElements = 0, m_fReference = 0,
     m_dlgLength = 0, m_dlgFlags = 0, m_typeOfElement = 0, m_sizeOfElement = 0, m_identity_flags = 0,
     m_targetDirect = None, m_targetSerialized = None\<rparr>"

text \<open>\<open>blocks b\<close> is the size as the code uses it in address arithmetic.\<close>

definition blocks :: "hblock \<Rightarrow> nat" where
  "blocks b = unat (DataSize b)"

section \<open>The members of the identification word\<close>

lemma DataType_bit: "bit (DataType b) n \<longleftrightarrow> n < 8 \<and> bit (m_id b) n"
  by (auto simp: DataType_def bit_simps)

lemma DataFlags_bit: "bit (DataFlags b) n \<longleftrightarrow> n < 8 \<and> bit (m_id b) (n + 8)"
  by (auto simp: DataFlags_def bit_simps ac_simps)

lemma DataSize_bit: "bit (DataSize b) n \<longleftrightarrow> n < 16 \<and> bit (m_id b) (n + 16)"
  by (auto simp: DataSize_def bit_simps ac_simps)

lemma and_masks:
  "x AND 0xFF = take_bit 8 x" "x AND 0xFFFF = take_bit 16 x"
  "x AND NOT 0xFF00 = x AND NOT (push_bit 8 (mask 8))" "x AND NOT 0xFF = x AND NOT (mask 8)" for x :: u32
  by (simp_all add: take_bit_eq_mask mask_eq_exp_minus_1 push_bit_eq_mult)

lemma RAW_ID_members [simp]:
  "DataType (SetDataId (CLR_RT_HEAPBLOCK_RAW_ID t f s) b) = ucast t"
  "DataFlags (SetDataId (CLR_RT_HEAPBLOCK_RAW_ID t f s) b) = ucast f"
  "DataSize (SetDataId (CLR_RT_HEAPBLOCK_RAW_ID t f s) b) = ucast s"
  unfolding CLR_RT_HEAPBLOCK_RAW_ID_def and_masks
  by (rule bit_word_eqI;
      auto simp: DataType_bit DataFlags_bit DataSize_bit SetDataId_def bit_simps)+

lemma flag_members [simp]:
  "DataType (SetFlags f b) = DataType b" "DataSize (SetFlags f b) = DataSize b"
  "DataFlags (SetFlags f b) = DataFlags b OR ucast f"
  "DataType (ResetFlags f b) = DataType b" "DataSize (ResetFlags f b) = DataSize b"
  "DataFlags (ResetFlags f b) = DataFlags b AND NOT (ucast f)"
  unfolding SetFlags_def ResetFlags_def and_masks
  by (rule bit_word_eqI; auto simp: DataType_bit DataFlags_bit DataSize_bit bit_simps)+

lemma Change_members [simp]:
  "DataType (ChangeDataType t b) = ucast t" "DataFlags (ChangeDataType t b) = DataFlags b"
  "DataSize (ChangeDataType t b) = DataSize b"
  "DataType (ChangeDataFlags f b) = DataType b" "DataFlags (ChangeDataFlags f b) = ucast f"
  "DataSize (ChangeDataFlags f b) = DataSize b"
  unfolding ChangeDataType_def ChangeDataFlags_def and_masks
  by (rule bit_word_eqI; auto simp: DataType_bit DataFlags_bit DataSize_bit bit_simps)+

lemma ClearData_members [simp]:
  "m_id (ClearData b) = m_id b" "DataType (ClearData b) = DataType b" "DataFlags (ClearData b) = DataFlags b"
  "DataSize (ClearData b) = DataSize b"
  by (simp_all add: ClearData_def DataType_def DataFlags_def DataSize_def)

lemma IsFlagSet_flags:
  "IsFlagSet g (SetFlags f b) \<longleftrightarrow> IsFlagSet g b \<or> (ucast f AND ucast g :: u8) \<noteq> 0"
  "IsFlagSet g (ResetFlags f b) \<longleftrightarrow> (DataFlags b AND (NOT (ucast f) AND ucast g)) \<noteq> 0"
  "IsFlagSet g (ClearData b) = IsFlagSet g b"
  by (simp_all add: IsFlagSet_def and.assoc bit.conj_disj_distrib2 or_eq_0_iff)

lemma alive_members [simp]:
  "IsAlive (MarkAlive b)" "\<not> IsAlive (MarkDead b)" "IsAlive (ClearData b) = IsAlive b"
  "IsEvent (MarkAlive b) = IsEvent b" "IsEvent (MarkDead b) = IsEvent b" "IsEvent (ClearData b) = IsEvent b"
  "DataSize (MarkAlive b) = DataSize b" "DataSize (MarkDead b) = DataSize b"
  "DataType (MarkAlive b) = DataType b" "DataType (MarkDead b) = DataType b"
  by (simp_all add: IsAlive_def IsEvent_def MarkAlive_def MarkDead_def IsFlagSet_flags)
    (simp_all add: HB_defs IsFlagSet_def)

lemma blocks_simps [simp]:
  "blocks (MarkAlive b) = blocks b" "blocks (MarkDead b) = blocks b" "blocks (ClearData b) = blocks b"
  "blocks (SetDataId (CLR_RT_HEAPBLOCK_RAW_ID t f s) b) = unat s mod 2 ^ 16"
  "blocks (ChangeDataType t b) = blocks b" "blocks (ChangeDataFlags f b) = blocks b"
  by (simp_all add: blocks_def unsigned_ucast_eq take_bit_eq_mod)

lemma blocks_less: "blocks b < 2 ^ 16"
  using unsigned_less[of "DataSize b"] by (simp add: blocks_def)

lemma unat_ucast_u16: "unat (ucast w :: u32) = unat (w :: u16)"
proof -
  have "unat w < 2 ^ 16" using unsigned_less[of w] by simp
  then have "unat w < 2 ^ 32" by simp
  then show ?thesis by (simp add: unsigned_ucast_eq take_bit_nat_eq_self)
qed

lemma free_flags [simp]:
  "\<not> IsAlive (SetDataId (CLR_RT_HEAPBLOCK_RAW_ID t HB_Pinned s) b)"
  "\<not> IsEvent (SetDataId (CLR_RT_HEAPBLOCK_RAW_ID t HB_Pinned s) b)"
  by (simp_all add: IsAlive_def IsEvent_def IsFlagSet_def HB_defs)

end
