(* ===== verification/Heap_Persistence.thy ===== *)
theory Heap_Persistence
  imports Heap_Block
begin

text \<open>
  \<^verbatim>\<open>CLR_RT_HeapBlock_WeakReference::PrepareForRecovery\<close> of \<^verbatim>\<open>CLR/Core/HeapPersistence/Heap_Persistence.cpp\<close>
  (the same function is in \<^verbatim>\<open>Heap_Persistence_stub.cpp\<close>): the scan of the memory of a cluster for the
  objects that survive a boot, weak references and arrays of bytes. What is salvaged is marked alive, all
  the rest is cut into free blocks.
\<close>

definition WR_SurviveBoot :: u32 where "WR_SurviveBoot = 0x00000001"
definition WR_Persisted :: u32 where "WR_Persisted = 0x20000000"

text \<open>A node of 12 bytes, an identity of 24 and three pointers; a block and 8 bytes.\<close>

definition sizeof_WeakReference :: u32 where "sizeof_WeakReference = 48"
definition sizeof_HeapBlock_Array :: u32 where "sizeof_HeapBlock_Array = 20"

definition CONVERTFROMSIZETOHEAPBLOCKS :: "u32 \<Rightarrow> u32" where
  "CONVERTFROMSIZETOHEAPBLOCKS x = (x + of_nat sizeof_HeapBlock - 1) div of_nat sizeof_HeapBlock"

definition salvaged_weak :: "hblock \<Rightarrow> bool" where
  "salvaged_weak b \<longleftrightarrow> DataType b = DATATYPE_WEAKCLASS
     \<and> ucast (DataSize b) = CONVERTFROMSIZETOHEAPBLOCKS sizeof_WeakReference
     \<and> m_targetSerialized b \<noteq> None \<and> m_identity_flags b AND WR_SurviveBoot \<noteq> 0"

definition salvaged_array :: "nat \<Rightarrow> nat \<Rightarrow> hblock \<Rightarrow> bool" where
  "salvaged_array ptr e b \<longleftrightarrow> DataType b = DATATYPE_SZARRAY \<and> m_typeOfElement b = DATATYPE_U1 \<and> m_fReference b = 0
     \<and> ucast (DataSize b) = CONVERTFROMSIZETOHEAPBLOCKS (sizeof_HeapBlock_Array + ucast (m_sizeOfElement b) * m_numOfElements b)
     \<and> block_at ptr (blocks b) \<le> e"

text \<open>\<open>SetNext\<close> and \<open>SetPrev\<close> with a null pointer clear the two words of the data.\<close>

definition keep_weak :: "hblock \<Rightarrow> hblock" where
  "keep_weak b = MarkAlive ((ClearData b)
     \<lparr>m_identity_flags := m_identity_flags b AND NOT WR_Persisted, m_targetDirect := None\<rparr>)"

text \<open>
  \<open>None\<close> is a scan that does not end. The end of the payload is tested for an array, not for a weak
  reference.
\<close>

partial_function (option) PrepareForRecovery :: "nat \<Rightarrow> nat \<Rightarrow> u32 \<Rightarrow> memory \<Rightarrow> (bool \<times> memory) option" where
  "PrepareForRecovery ptr e blockSize m =
     (if ptr < e then
        (if salvaged_weak (m ptr) then
           PrepareForRecovery (block_at ptr (blocks (m ptr))) e blockSize (m(ptr := keep_weak (m ptr)))
         else if salvaged_array ptr e (m ptr) then
           PrepareForRecovery (block_at ptr (blocks (m ptr))) e blockSize (m(ptr := MarkAlive (m ptr)))
         else
           (let blockSize' = (if e < block_at ptr (unat blockSize) then of_nat ((e - ptr) div sizeof_HeapBlock) else blockSize)
            in PrepareForRecovery (block_at ptr (unat blockSize')) e blockSize'
                 (m(ptr := SetDataId (CLR_RT_HEAPBLOCK_RAW_ID (ucast DATATYPE_FREEBLOCK) 0 blockSize') (m ptr)))))
      else Some (True, m))"

declare PrepareForRecovery.simps [code]

lemma keep_weak_members [simp]:
  "IsAlive (keep_weak b)" "blocks (keep_weak b) = blocks b" "DataType (keep_weak b) = DataType b"
proof -
  let ?b = "(ClearData b)\<lparr>m_identity_flags := m_identity_flags b AND NOT WR_Persisted, m_targetDirect := None\<rparr>"
  have "DataSize ?b = DataSize b" by (simp add: DataSize_def ClearData_def)
  then have "blocks ?b = blocks b" by (simp add: blocks_def)
  moreover have "DataType ?b = DataType b" by (simp add: DataType_def ClearData_def)
  ultimately show "IsAlive (keep_weak b)" "blocks (keep_weak b) = blocks b" "DataType (keep_weak b) = DataType b"
    by (simp_all add: keep_weak_def)
qed

lemma salvaged_weak_blocks: "salvaged_weak b \<Longrightarrow> blocks b = 4"
proof -
  assume "salvaged_weak b"
  then have "ucast (DataSize b) = (4 :: u32)"
    by (simp add: salvaged_weak_def CONVERTFROMSIZETOHEAPBLOCKS_def sizeof_WeakReference_def)
  then have "unat (ucast (DataSize b) :: u32) = unat (4 :: u32)" by (rule arg_cong)
  then show ?thesis by (simp add: blocks_def unat_ucast_u16)
qed

text \<open>What the scan salvages at a place of a payload that ends at \<open>e\<close>.\<close>

definition salvaged :: "memory \<Rightarrow> nat \<Rightarrow> nat \<Rightarrow> bool" where
  "salvaged m e ptr \<longleftrightarrow> salvaged_weak (m ptr) \<or> salvaged_array ptr e (m ptr)"

text \<open>
  Two things in the memory upset the scan: a weak reference that reaches over the end of the payload,
  for which there is no test, and an array of no blocks, which its length of nearly \<open>2 ^ 32\<close> gives it.
\<close>

definition sound_at :: "memory \<Rightarrow> nat \<Rightarrow> nat \<Rightarrow> bool" where
  "sound_at m e ptr \<longleftrightarrow> (salvaged_weak (m ptr) \<longrightarrow> block_at ptr 4 \<le> e)
     \<and> (salvaged_array ptr e (m ptr) \<longrightarrow> 0 < blocks (m ptr))"

definition sound_payload :: "memory \<Rightarrow> nat \<Rightarrow> nat \<Rightarrow> bool" where
  "sound_payload m s e \<longleftrightarrow> (\<forall>a. s \<le> a \<and> a < e \<and> sizeof_HeapBlock dvd a - s \<longrightarrow> sound_at m e a)"

text \<open>The scan takes a weak reference that begins in the payload and ends behind it.\<close>

lemma PrepareForRecovery_overruns:
  assumes "ptr < e" and "salvaged_weak (m ptr)" and "e < block_at ptr 4"
  shows "PrepareForRecovery ptr e bsz m = Some (True, m(ptr := keep_weak (m ptr)))
    \<and> IsAlive (keep_weak (m ptr)) \<and> e < block_at ptr (blocks (keep_weak (m ptr)))"
  using assms salvaged_weak_blocks[OF assms(2)]
  by (subst PrepareForRecovery.simps, simp, subst PrepareForRecovery.simps) simp

end
