(* ===== verification/Heap_Cluster.thy ===== *)
theory Heap_Cluster
  imports Heap_Persistence Dbl_Linked_List
begin

text \<open>
  \<^verbatim>\<open>CLR/Core/CLR_RT_HeapCluster.cpp\<close> and \<^verbatim>\<open>CLR_RT_ExecutionEngine::AllocateHeaps\<close> of
  \<^verbatim>\<open>CLR/Core/Execution.cpp\<close>: the clusters of the managed heap. The payload of a cluster is a row of blocks,
  each of which says how long it is; the free ones are linked in a list, whose links lie in the
  blocks. The list is the one of \<^verbatim>\<open>tinyhal.h\<close> in a copy of the runtime (\<^verbatim>\<open>CLR_RT_DblLinkedList\<close>),
  so its pointer cells are those of the theory \<open>Dbl_Linked_List\<close>, with addresses as nodes.

  \<open>tiles m p bs e\<close> says that the blocks at the addresses \<open>bs\<close> fill the memory from \<open>p\<close> to \<open>e\<close>;
  \<open>cluster_ok\<close> is the invariant. Release builds only: the validation of blocks and lists and
  the filling of freed memory are empty there.
\<close>

section \<open>The cluster\<close>

record cluster =
  m_payloadStart :: nat
  m_payloadEnd :: nat
  m_freeList :: dll

definition sizeof_HeapCluster :: nat where [simp]: "sizeof_HeapCluster = 32"

text \<open>The memory of a block after its identification, and of the blocks that belong to it, is set to zero.\<close>

definition InitializeToZero :: "nat \<Rightarrow> dll \<times> memory \<Rightarrow> dll \<times> memory" where
  "InitializeToZero res s =
     (let (fl, m) = s; e = block_at res (blocks (m res))
      in (fl\<lparr>m_nextNode := (\<lambda>n. if res \<le> n \<and> n < e then None else m_nextNode fl n),
             m_prevNode := (\<lambda>n. if res \<le> n \<and> n < e then None else m_prevNode fl n)\<rparr>,
          \<lambda>a. if a = res then zero_block\<lparr>m_id := m_id (m res)\<rparr>
              else if res < a \<and> a < e then zero_block else m a))"

section \<open>Allocation\<close>

text \<open>
  The first block of the free list that is large enough, from the front or from the back. \<open>None\<close> is a
  walk that does not end or follows a null pointer.
\<close>

partial_function (option) fit_forward :: "memory \<Rightarrow> dll \<Rightarrow> u32 \<Rightarrow> node \<Rightarrow> nat option option" where
  "fit_forward m fl len p =
     (case get_next fl p of None \<Rightarrow> Some None
      | Some q \<Rightarrow> (case p of Node n \<Rightarrow> if len \<le> ucast (DataSize (m n)) then Some (Some n) else fit_forward m fl len q
                   | _ \<Rightarrow> None))"

partial_function (option) fit_backward :: "memory \<Rightarrow> dll \<Rightarrow> u32 \<Rightarrow> node \<Rightarrow> nat option option" where
  "fit_backward m fl len p =
     (case get_prev fl p of None \<Rightarrow> Some None
      | Some q \<Rightarrow> (case p of Node n \<Rightarrow> if len \<le> ucast (DataSize (m n)) then Some (Some n) else fit_backward m fl len q
                   | _ \<Rightarrow> None))"

text \<open>\<open>prev->SetNext(x); next->SetPrev(y)\<close>: \<open>None\<close> when one of the two is null.\<close>

definition relink :: "node option \<Rightarrow> node option \<Rightarrow> node option \<Rightarrow> node option \<Rightarrow> dll \<Rightarrow> dll option" where
  "relink prev nxt x y fl =
     (case (prev, nxt) of (Some p, Some q) \<Rightarrow> Some (set_prev q y (set_next p x fl)) | _ \<Rightarrow> None)"

definition free_id :: "u32 \<Rightarrow> u32" where
  "free_id len = CLR_RT_HEAPBLOCK_RAW_ID (ucast DATATYPE_FREEBLOCK) HB_Pinned len"

definition split_block :: "u32 \<Rightarrow> u32 \<Rightarrow> nat \<Rightarrow> dll \<times> memory \<Rightarrow> (nat \<times> dll \<times> memory) option" where
  "split_block flags len res s =
     (let (fl, m) = s; nxt = get_next fl (Node res); prev = get_prev fl (Node res);
          available = ucast (DataSize (m res)) - len
      in if available \<noteq> 0 then
           if flags AND HB_Event \<noteq> 0 then
             Some (block_at res (unat available), fl, m(res := SetDataId (free_id available) (m res)))
           else
             (let ptr = block_at res (unat len);
                  fl1 = set_prev (Node ptr) prev (set_next (Node ptr) nxt fl)
              in map_option (\<lambda>fl2. (res, fl2, m(ptr := SetDataId (free_id available) (m ptr))))
                   (relink prev nxt (Some (Node ptr)) (Some (Node ptr)) fl1))
         else map_option (\<lambda>fl1. (res, fl1, m)) (relink prev nxt nxt prev fl))"

definition ExtractBlocks ::
    "u32 \<Rightarrow> u32 \<Rightarrow> u32 \<Rightarrow> cluster \<times> memory \<Rightarrow> (nat option \<times> cluster \<times> memory) option" where
  "ExtractBlocks dataType flags len s =
     (let (c, m) = s; fl = m_freeList c;
          walk = (if flags AND HB_Event \<noteq> 0 then (case LastNode fl of None \<Rightarrow> None | Some p \<Rightarrow> fit_backward m fl len p)
                  else (case FirstNode fl of None \<Rightarrow> None | Some p \<Rightarrow> fit_forward m fl len p))
      in case walk of None \<Rightarrow> None
         | Some None \<Rightarrow> Some (None, c, m)
         | Some (Some found) \<Rightarrow>
             map_option (\<lambda>(res, fl1, m1).
               let m2 = m1(res := SetDataId (CLR_RT_HEAPBLOCK_RAW_ID dataType flags len) (m1 res));
                   (fl2, m3) = (if flags AND HB_InitializeToZero \<noteq> 0 then InitializeToZero res (fl1, m2) else (fl1, m2))
               in (Some res, c\<lparr>m_freeList := fl2\<rparr>, m3))
               (split_block flags len found (fl, m)))"

section \<open>Recovery\<close>

text \<open>A run of dead blocks: where it ends, and its length. A block of size zero makes the walk endless.\<close>

partial_function (option) dead_run :: "memory \<Rightarrow> nat \<Rightarrow> nat \<Rightarrow> u32 \<Rightarrow> (nat \<times> u32) option" where
  "dead_run m e nxt lenTot =
     (let nxt' = block_at nxt (blocks (m nxt)); lenTot' = lenTot + ucast (DataSize (m nxt))
      in if nxt' < e \<and> \<not> IsAlive (m nxt') then dead_run m e nxt' lenTot' else Some (nxt', lenTot'))"

partial_function (option) recover_blocks :: "nat \<Rightarrow> nat \<Rightarrow> node \<Rightarrow> dll \<times> memory \<Rightarrow> (node \<times> dll \<times> memory) option" where
  "recover_blocks e ptr lst s =
     (let (fl, m) = s
      in if ptr < e then
           if \<not> IsAlive (m ptr) then
             (case dead_run m e ptr 0 of None \<Rightarrow> None
              | Some (nxt, lenTot) \<Rightarrow>
                  recover_blocks e nxt (Node ptr)
                    (set_prev (Node ptr) (Some lst) (set_next lst (Some (Node ptr)) fl),
                     m(ptr := SetDataId (free_id lenTot) (m ptr))))
           else
             recover_blocks e (block_at ptr (blocks (m ptr))) lst
               (fl, if IsEvent (m ptr) then m else m(ptr := MarkDead (m ptr)))
         else Some (lst, fl, m))"

definition RecoverFromGC :: "cluster \<times> memory \<Rightarrow> (cluster \<times> memory) option" where
  "RecoverFromGC s =
     (let (c, m) = s; fl = set_prev Head None (m_freeList c)
      in map_option (\<lambda>(lst, fl1, m1).
           (c\<lparr>m_freeList := set_next Tail None (set_prev Tail (Some lst) (set_next lst (Some Tail) fl1))\<rparr>, m1))
           (recover_blocks (m_payloadEnd c) (m_payloadStart c) Head (fl, m)))"

section \<open>Insertion\<close>

partial_function (option) order_place :: "dll \<Rightarrow> nat \<Rightarrow> node \<Rightarrow> node option" where
  "order_place fl node p =
     (case get_next fl p of None \<Rightarrow> Some p
      | Some q \<Rightarrow> (case p of Node n \<Rightarrow> if node < n then Some p else order_place fl node q | _ \<Rightarrow> None))"

definition coalesce_next :: "nat \<Rightarrow> u32 \<Rightarrow> dll \<times> memory \<Rightarrow> u32 \<times> dll" where
  "coalesce_next node len s =
     (let (fl, m) = s
      in case get_next fl (Node node) of
           Some (Node k) \<Rightarrow> (if get_next fl (Node k) \<noteq> None \<and> block_at node (unat len) = k
                             then (len + ucast (DataSize (m k)), Unlink k fl) else (len, fl))
         | _ \<Rightarrow> (len, fl))"

definition coalesce_prev :: "nat \<Rightarrow> u32 \<Rightarrow> dll \<times> memory \<Rightarrow> nat \<times> u32 \<times> dll" where
  "coalesce_prev node len s =
     (let (fl, m) = s
      in case get_prev fl (Node node) of
           Some (Node k) \<Rightarrow> (if get_prev fl (Node k) \<noteq> None \<and> block_at k (blocks (m k)) = node
                             then (k, len + ucast (DataSize (m k)), Unlink node fl) else (node, len, fl))
         | _ \<Rightarrow> (node, len, fl))"

definition InsertInOrder :: "nat \<Rightarrow> u32 \<Rightarrow> cluster \<times> memory \<Rightarrow> (nat \<times> cluster \<times> memory) option" where
  "InsertInOrder node len s =
     (let (c, m) = s; fl = m_freeList c
      in case FirstNode fl of None \<Rightarrow> None
         | Some first \<Rightarrow> (case order_place fl node first of None \<Rightarrow> None
         | Some p \<Rightarrow> (case InsertBeforeNode p node (Node_Initialize node fl) of None \<Rightarrow> None
         | Some fl1 \<Rightarrow>
             (let m1 = m(node := ClearData (m node));
                  (len1, fl2) = coalesce_next node len (fl1, m1);
                  (node', len2, fl3) = coalesce_prev node len1 (fl2, m1)
              in Some (node', c\<lparr>m_freeList := fl3\<rparr>, m1(node' := SetDataId (free_id len2) (m1 node')))))))"

section \<open>Initialization\<close>

text \<open>
  \<^verbatim>\<open>PrepareForRecovery\<close> divides the payload into the objects that survive and free blocks. The code has a loop
  of its own for the answer that it has not; neither version of \<^verbatim>\<open>PrepareForRecovery\<close> ever gives it.
  The loop cuts the payload into free blocks of \<open>blockSize\<close> blocks, the last one as long as what is
  left; with a block size of zero it does not end.
\<close>

partial_function (option) cut_payload :: "nat \<Rightarrow> nat \<Rightarrow> u32 \<Rightarrow> memory \<Rightarrow> memory option" where
  "cut_payload e ptr blockSize m =
     (if ptr < e then
        (let blockSize' = (if e < block_at ptr (unat blockSize) then of_nat ((e - ptr) div sizeof_HeapBlock) else blockSize)
         in cut_payload e (block_at ptr (unat blockSize')) blockSize'
              (m(ptr := SetDataId (CLR_RT_HEAPBLOCK_RAW_ID (ucast DATATYPE_FREEBLOCK) 0 blockSize') (m ptr))))
      else Some m)"

definition HeapCluster_Initialize :: "nat \<Rightarrow> u32 \<Rightarrow> u32 \<Rightarrow> memory \<Rightarrow> (cluster \<times> memory) option" where
  "HeapCluster_Initialize this sz blockSize m =
     (let n = (sz - of_nat sizeof_HeapCluster) div of_nat sizeof_HeapBlock;
          start = this + sizeof_HeapCluster; e = block_at start (unat n);
          c = \<lparr>m_payloadStart = start, m_payloadEnd = e,
               m_freeList = List_Initialize \<lparr>m_first = None, m_null = None, m_last = None,
                              m_nextNode = (\<lambda>_. None), m_prevNode = (\<lambda>_. None)\<rparr>\<rparr>
      in case PrepareForRecovery start e blockSize m of None \<Rightarrow> None
         | Some (recovered, m1) \<Rightarrow>
             (case (if recovered then Some m1 else cut_payload e start blockSize m1) of None \<Rightarrow> None
              | Some m2 \<Rightarrow> RecoverFromGC (c, m2)))"

definition c_HeapClusterSize :: u32 where
  "c_HeapClusterSize = of_nat sizeof_HeapBlock * HB_MaxSize"

definition next_block_size :: "u32 \<Rightarrow> u32 \<Rightarrow> u32" where
  "next_block_size i blockSize =
     (if 100 * 1024 * 1024 <s i then HB_MaxSize else if 10 * 1024 * 1024 <s i then 10 * 1024
      else if 1024 * 1024 <s i then 1024 else blockSize)"

text \<open>The clusters that the memory at \<open>first\<close> of size \<open>free\<close> is divided into, in the order of the list \<open>m_heap\<close>.\<close>

function allocate_clusters :: "nat \<Rightarrow> u32 \<Rightarrow> u32 \<Rightarrow> u32 \<Rightarrow> memory \<Rightarrow> (cluster list \<times> memory) option" where
  "allocate_clusters first free i blockSize m =
     (if of_nat sizeof_HeapCluster < free then
        (let sz = (if free < c_HeapClusterSize then free else c_HeapClusterSize);
             blockSize' = next_block_size i blockSize
         in case HeapCluster_Initialize first sz blockSize' m of None \<Rightarrow> None
            | Some (c, m1) \<Rightarrow>
                map_option (\<lambda>(cs, m2). (c # cs, m2))
                  (allocate_clusters (first + unat sz) (free - sz) (i + sz) blockSize' m1))
      else Some ([], m))"
  by pat_completeness auto
termination
proof (relation "measure (\<lambda>(_, free, _, _, _). unat free)", goal_cases)
  case (2 first free i blockSize m)
  then have "0 < unat free" by (auto simp: word_less_nat_alt)
  with 2 show ?case
    by (auto simp: c_HeapClusterSize_def HB_defs unat_sub word_le_nat_alt word_less_nat_alt split: if_splits)
qed simp

definition AllocateHeaps :: "nat \<Rightarrow> u32 \<Rightarrow> memory \<Rightarrow> (cluster list \<times> memory) option option" where
  "AllocateHeaps location sz m =
     (if sz \<le> of_nat sizeof_HeapCluster then Some None
      else map_option Some (allocate_clusters location sz 0 1 m))"

declare fit_forward.simps [code] fit_backward.simps [code] dead_run.simps [code] recover_blocks.simps [code]
  order_place.simps [code] cut_payload.simps [code]

section \<open>Chains that lie in memory which others use too\<close>

text \<open>
  The links of an allocated block are data of its owner, so that the free list is a chain of
  which nothing is known outside its nodes.
\<close>

definition free_chain :: "dll \<Rightarrow> nat list \<Rightarrow> bool" where
  "free_chain s xs \<longleftrightarrow> chain s Head xs Tail \<and> distinct xs \<and> m_null s = None"

lemma chain_middle:
  "chain s Head (ys @ ms @ zs) Tail \<longleftrightarrow> front_ok s ys \<and> chain s (before ys) ms (after zs) \<and> back_ok s zs"
proof (cases ms rule: rev_cases)
  case Nil
  then show ?thesis by (simp add: chain_cut conj_assoc)
next
  case (snoc ms' x)
  have r: "chain s (Node x) zs Tail \<longleftrightarrow> chain s (Node x) [] (after zs) \<and> back_ok s zs"
    by (cases zs) (auto simp: back_ok_def)
  have l: "chain s Head (ys @ ms') (Node x) \<longleftrightarrow> front_ok s ys \<and> chain s (before ys) ms' (Node x)"
    by (cases ys rule: rev_cases) (auto simp: front_ok_def chain_append)
  show ?thesis using l r chain_append[of s Head "ys @ ms'" x zs Tail] chain_append[of s "before ys" ms' x "[]"]
    by (auto simp: snoc)
qed

lemma chain_splice:
  assumes "chain s Head (ys @ ms @ zs) Tail" and "distinct (ys @ zs)"
    and "\<And>r. r \<in> insert Head (Node ` set ys) \<Longrightarrow> r \<noteq> before ys \<Longrightarrow> get_next s' r = get_next s r"
    and "\<And>r. r \<in> Node ` set ys \<Longrightarrow> get_prev s' r = get_prev s r"
    and "\<And>r. r \<in> Node ` set zs \<Longrightarrow> get_next s' r = get_next s r"
    and "\<And>r. r \<in> insert Tail (Node ` set zs) \<Longrightarrow> r \<noteq> after zs \<Longrightarrow> get_prev s' r = get_prev s r"
    and "chain s' (before ys) ms' (after zs)"
  shows "chain s' Head (ys @ ms' @ zs) Tail"
proof -
  have "front_ok s' ys = front_ok s ys" by (rule front_ok_cong) (use assms in auto)
  moreover have "back_ok s' zs = back_ok s zs" by (rule back_ok_cong) (use assms in auto)
  ultimately show ?thesis using assms(1,7) unfolding chain_middle by simp
qed

lemma free_chainD:
  assumes "free_chain fl (ys @ n # zs)"
  shows "get_next fl (Node n) = Some (after zs)" "get_prev fl (Node n) = Some (before ys)"
    "n \<notin> set ys" "n \<notin> set zs" "distinct (ys @ zs)" "before ys \<noteq> Node n" "after zs \<noteq> Node n" "before ys \<noteq> after zs"
proof -
  have c: "chain fl (before ys) [n] (after zs)" and d: "distinct (ys @ n # zs)"
    using assms chain_middle[of fl ys "[n]" zs] by (simp_all add: free_chain_def)
  from c show "get_next fl (Node n) = Some (after zs)" "get_prev fl (Node n) = Some (before ys)" by simp_all
  from d show s: "n \<notin> set ys" "n \<notin> set zs" "distinct (ys @ zs)" by auto
  then show "before ys \<noteq> Node n" "after zs \<noteq> Node n" using before_in after_in by auto
  show "before ys \<noteq> after zs" using s(3) by (cases zs) (auto simp: before_def)
qed

lemma free_chain_ends:
  assumes "free_chain fl xs"
  shows "FirstNode fl = Some (after xs)" "LastNode fl = Some (before xs)"
  using assms chain_cut[of fl "[]" xs] chain_cut[of fl xs "[]"]
  by (simp_all add: free_chain_def FirstNode_def LastNode_def cells)

text \<open>A node is taken out, and replaced.\<close>

lemma free_chain_remove:
  assumes "free_chain fl (ys @ n # zs)"
  shows "\<exists>fl'. relink (get_prev fl (Node n)) (get_next fl (Node n)) (get_next fl (Node n)) (get_prev fl (Node n)) fl = Some fl'
    \<and> free_chain fl' (ys @ zs)"
proof -
  note D = free_chainD[OF assms]
  let ?fl = "set_prev (after zs) (Some (before ys)) (set_next (before ys) (Some (after zs)) fl)"
  have "chain ?fl Head (ys @ [] @ zs) Tail"
    by (rule chain_splice[of fl ys "[n]"])
      (use assms D in \<open>auto simp: free_chain_def dest: before_in after_in\<close>)
  then show ?thesis using assms D by (auto simp: relink_def free_chain_def)
qed

lemma free_chain_replace:
  assumes "free_chain fl (ys @ n # zs)" and "p \<notin> set ys" "p \<notin> set zs"
  shows "\<exists>fl'. relink (get_prev fl (Node n)) (get_next fl (Node n)) (Some (Node p)) (Some (Node p))
      (set_prev (Node p) (get_prev fl (Node n)) (set_next (Node p) (get_next fl (Node n)) fl)) = Some fl'
    \<and> free_chain fl' (ys @ p # zs)"
proof -
  note D = free_chainD[OF assms(1)]
  have p: "before ys \<noteq> Node p" "after zs \<noteq> Node p" using assms(2,3) before_in after_in by auto
  let ?fl = "set_prev (after zs) (Some (Node p)) (set_next (before ys) (Some (Node p))
    (set_prev (Node p) (Some (before ys)) (set_next (Node p) (Some (after zs)) fl)))"
  have "chain ?fl Head (ys @ [p] @ zs) Tail"
    by (rule chain_splice[of fl ys "[n]"])
      (use assms D p in \<open>auto simp: free_chain_def dest: before_in after_in\<close>)
  then show ?thesis using assms D p by (auto simp: relink_def free_chain_def)
qed

lemma free_chain_cong:
  assumes "free_chain fl xs" and "m_first fl' = m_first fl" "m_last fl' = m_last fl" "m_null fl' = m_null fl"
    and "\<And>n. n \<in> set xs \<Longrightarrow> m_nextNode fl' n = m_nextNode fl n \<and> m_prevNode fl' n = m_prevNode fl n"
  shows "free_chain fl' xs"
proof -
  have "chain fl' Head xs Tail = chain fl Head xs Tail"
    by (rule chain_cong) (use assms in \<open>auto simp: cells\<close>)
  then show ?thesis using assms(1,4) by (simp add: free_chain_def)
qed

text \<open>The two walks of the free list are searches.\<close>

definition fits :: "memory \<Rightarrow> u32 \<Rightarrow> nat \<Rightarrow> bool" where
  "fits m len n \<longleftrightarrow> unat len \<le> blocks (m n)"

lemma fits_word: "len \<le> ucast (DataSize (m n)) \<longleftrightarrow> fits m len n"
  by (simp add: fits_def blocks_def word_le_nat_alt unat_ucast_u16)

lemma fit_forward_chain:
  "chain fl p xs Tail \<Longrightarrow> m_null fl = None \<Longrightarrow> fit_forward m fl len (after xs) = Some (find (fits m len) xs)"
proof (induction xs arbitrary: p)
  case Nil
  then show ?case by (subst fit_forward.simps) (simp add: cells)
next
  case (Cons x xs)
  then have "get_next fl (Node x) = Some (after xs)" by (cases xs) auto
  with Cons show ?case by (subst fit_forward.simps) (auto simp: fits_word)
qed

lemma fit_backward_chain:
  "chain fl Head xs q \<Longrightarrow> m_null fl = None \<Longrightarrow> fit_backward m fl len (before xs) = Some (find (fits m len) (rev xs))"
proof (induction xs arbitrary: q rule: rev_induct)
  case Nil
  then show ?case by (subst fit_backward.simps) (simp add: cells)
next
  case (snoc x xs)
  then have c: "chain fl Head xs (Node x)" by (simp add: chain_append)
  then have "get_prev fl (Node x) = Some (before xs)"
    by (cases xs rule: rev_cases) (auto simp: chain_append)
  with snoc.IH[OF c snoc.prems(2)] show ?case by (subst fit_backward.simps) (auto simp: fits_word)
qed

section \<open>The payload as a row of blocks\<close>

fun tiles :: "memory \<Rightarrow> nat \<Rightarrow> nat list \<Rightarrow> nat \<Rightarrow> bool" where
  "tiles m p [] e \<longleftrightarrow> p = e"
| "tiles m p (b # bs) e \<longleftrightarrow> b = p \<and> 0 < blocks (m b) \<and> tiles m (block_at b (blocks (m b))) bs e"

lemma tiles_append: "tiles m p (as @ bs) e \<longleftrightarrow> (\<exists>q. tiles m p as q \<and> tiles m q bs e)"
  by (induction as arbitrary: p) auto

lemma tiles_cong: "(\<And>b. b \<in> set bs \<Longrightarrow> blocks (m' b) = blocks (m b)) \<Longrightarrow> tiles m' p bs e = tiles m p bs e"
  by (induction bs arbitrary: p) auto

lemma tiles_end: "tiles m p bs e \<Longrightarrow> p \<le> e \<and> 12 dvd e - p \<and> (bs = [] \<longleftrightarrow> p = e)"
proof (induction bs arbitrary: p)
  case (Cons b bs)
  let ?q = "block_at b (blocks (m b))"
  have q: "?q \<le> e" "12 dvd e - ?q" using Cons by auto
  have "e - p = (e - ?q) + 12 * blocks (m b)" using Cons.prems q(1) by simp
  then have "12 dvd e - p" using dvd_add[OF q(2), of "12 * blocks (m b)"] by simp
  then show ?case using Cons.prems q(1) by auto
qed simp

lemma tiles_range: "tiles m p bs e \<Longrightarrow> b \<in> set bs \<Longrightarrow> p \<le> b \<and> block_at b (blocks (m b)) \<le> e \<and> 0 < blocks (m b)"
proof (induction bs arbitrary: p)
  case (Cons x bs)
  then show ?case using tiles_end[of m "block_at x (blocks (m x))" bs e] by fastforce
qed simp

lemma tiles_sorted: "tiles m p bs e \<Longrightarrow> sorted_wrt (<) bs"
proof (induction bs arbitrary: p)
  case (Cons x bs)
  then show ?case using tiles_range[of m "block_at x (blocks (m x))" bs e] by fastforce
qed simp

lemma tiles_distinct: "tiles m p bs e \<Longrightarrow> distinct bs"
  using tiles_sorted strict_sorted_iff by blast

text \<open>Two different blocks of the row do not overlap.\<close>

lemma tiles_disjoint:
  "tiles m p bs e \<Longrightarrow> a \<in> set bs \<Longrightarrow> b \<in> set bs \<Longrightarrow> a < b \<Longrightarrow> block_at a (blocks (m a)) \<le> b"
proof (induction bs arbitrary: p)
  case (Cons x bs)
  note R = tiles_range[of m "block_at x (blocks (m x))" bs e]
  show ?case
  proof (cases "a = x")
    case True
    then show ?thesis using Cons R[of b] by fastforce
  next
    case False
    moreover have "b \<noteq> x" using Cons.prems R[of a] False by fastforce
    ultimately show ?thesis using Cons by auto
  qed
qed simp

text \<open>
  The invariant: the blocks \<open>bs\<close> fill the payload, the free list holds, in the order of their
  addresses, dead blocks \<open>xs\<close> of them, and no two of these are neighbours.
\<close>

definition payload_ok :: "memory \<Rightarrow> cluster \<Rightarrow> nat list \<Rightarrow> nat list \<Rightarrow> bool" where
  "payload_ok m c bs xs \<longleftrightarrow> tiles m (m_payloadStart c) bs (m_payloadEnd c)
     \<and> set xs \<subseteq> set bs \<and> sorted_wrt (<) xs
     \<and> (\<forall>x\<in>set xs. \<not> IsAlive (m x) \<and> block_at x (blocks (m x)) \<notin> set xs)"

definition cluster_ok :: "memory \<Rightarrow> cluster \<Rightarrow> nat list \<Rightarrow> nat list \<Rightarrow> bool" where
  "cluster_ok m c bs xs \<longleftrightarrow> payload_ok m c bs xs \<and> free_chain (m_freeList c) xs"

text \<open>The bytes of the blocks of a list.\<close>

definition extent :: "memory \<Rightarrow> nat \<Rightarrow> nat set" where
  "extent m b = {b..<block_at b (blocks (m b))}"

section \<open>Allocation keeps the row of blocks\<close>

text \<open>A block is divided: the two parts take its place in the row.\<close>

lemma tiles_split:
  assumes "tiles m p (as @ b # zs) e" and "0 < k" "k < blocks (m b)"
    and "\<And>x. x \<in> set as \<union> set zs \<Longrightarrow> blocks (m' x) = blocks (m x)"
    and "blocks (m' b) = k" "blocks (m' (block_at b k)) = blocks (m b) - k"
  shows "tiles m' p (as @ b # block_at b k # zs) e"
proof -
  obtain q where q: "tiles m p as q" "tiles m q (b # zs) e" using assms(1) by (auto simp: tiles_append)
  have "tiles m' p as q" using q(1) tiles_cong[of as m' m p q] assms(4) by simp
  moreover have "tiles m' (block_at b (blocks (m b))) zs e"
    by (rule iffD2[OF tiles_cong[of zs m' m]]) (use q(2) assms(4) in \<open>auto simp del: block_at_def\<close>)
  moreover have "block_at (block_at b k) (blocks (m b) - k) = block_at b (blocks (m b))"
    using assms(3) by (simp add: algebra_simps)
  ultimately show ?thesis using q(2) assms(2,3,5,6) unfolding tiles_append
    by (intro exI[of _ q]) (simp del: block_at_def)
qed

text \<open>The address of the new part is in no other block.\<close>

lemma inner_address:
  assumes "tiles m p bs e" and "b \<in> set bs" and "0 < k" "k < blocks (m b)"
  shows "block_at b k \<notin> set bs"
proof
  assume k: "block_at b k \<in> set bs"
  have "block_at b (blocks (m b)) \<le> block_at b k"
    by (rule tiles_disjoint[OF assms(1,2) k]) (use assms(3) in simp)
  then show False using assms(4) by simp
qed

lemma cluster_okD:
  assumes "cluster_ok m c bs xs"
  shows "tiles m (m_payloadStart c) bs (m_payloadEnd c)" "set xs \<subseteq> set bs" "sorted_wrt (<) xs"
    "free_chain (m_freeList c) xs"
    "\<And>x. x \<in> set xs \<Longrightarrow> \<not> IsAlive (m x)" "\<And>x. x \<in> set xs \<Longrightarrow> block_at x (blocks (m x)) \<notin> set xs"
  using assms by (auto simp: cluster_ok_def payload_ok_def)

lemma payload_okI:
  assumes "tiles m (m_payloadStart c) bs (m_payloadEnd c)" and "set xs \<subseteq> set bs" and "sorted_wrt (<) xs"
    and "\<And>x. x \<in> set xs \<Longrightarrow> \<not> IsAlive (m x) \<and> block_at x (blocks (m x)) \<notin> set xs"
  shows "payload_ok m c bs xs"
  using assms by (simp add: payload_ok_def)

text \<open>A block is taken whole.\<close>

lemma take_whole:
  assumes "payload_ok m c bs (ys @ n # zs)" and "blocks (m n) = blocks b'"
  shows "payload_ok (m(n := b')) c bs (ys @ zs)"
proof (rule payload_okI)
  note P = assms(1)[unfolded payload_ok_def]
  show "tiles (m(n := b')) (m_payloadStart c) bs (m_payloadEnd c)"
    by (rule iffD2[OF tiles_cong[of bs "m(n := b')" m]]) (use P assms(2) in auto)
  have "distinct (ys @ n # zs)" using P strict_sorted_iff by blast
  then show "\<not> IsAlive ((m(n := b')) x) \<and> block_at x (blocks ((m(n := b')) x)) \<notin> set (ys @ zs)"
    if "x \<in> set (ys @ zs)" for x using P that by auto
qed (use assms(1) in \<open>auto simp: payload_ok_def sorted_wrt_append\<close>)

text \<open>A block is divided, and the second part or the first stays free.\<close>

lemma keep_second_part:
  assumes "payload_ok m c bs (ys @ n # zs)" and "0 < k" "k < blocks (m n)" and "p = block_at n k"
    and "blocks a = k" "blocks b = blocks (m n) - k" "\<not> IsAlive b"
  shows "\<exists>bs'. payload_ok (m(n := a, p := b)) c bs' (ys @ p # zs) \<and> set bs' = insert p (set bs) \<and> p \<notin> set bs"
proof -
  note P = assms(1)[unfolded payload_ok_def]
  have nb: "n \<in> set bs" using P by simp
  then obtain as cs where bs: "bs = as @ n # cs" by (meson split_list)
  let ?m = "m(n := a, p := b)"
  have pn: "p \<notin> set bs" using inner_address[of m _ bs _ n, OF _ nb assms(2,3)] P assms(4) by blast
  have d: "distinct bs" using P tiles_distinct by blast
  have t: "tiles ?m (m_payloadStart c) (as @ n # p # cs) (m_payloadEnd c)"
    unfolding assms(4)
    by (rule tiles_split[of m]) (use P bs assms pn d in \<open>auto simp del: block_at_def\<close>)
  have t0: "tiles m (m_payloadStart c) bs (m_payloadEnd c)" using P by blast
  have far: "x < n \<Longrightarrow> block_at x (blocks (m x)) \<le> n" if "x \<in> set bs" for x
    using tiles_disjoint[OF t0 that nb] .
  have p_in: "n < p" "p < block_at n (blocks (m n))" using assms(2-4) by simp_all
  have near: "n < x \<Longrightarrow> p < x \<and> block_at n (blocks (m n)) \<le> x" if "x \<in> set bs" for x
    using tiles_disjoint[OF t0 nb that] p_in(2) by (auto simp del: block_at_def)
  have s: "\<forall>x\<in>set ys. x < n" "\<forall>x\<in>set zs. n < x" "sorted_wrt (<) ys" "sorted_wrt (<) zs"
    using P by (auto simp: sorted_wrt_append)
  have "payload_ok ?m c (as @ n # p # cs) (ys @ p # zs)"
  proof (rule payload_okI)
    show "sorted_wrt (<) (ys @ p # zs)"
      using s near P p_in(1) by (force simp: sorted_wrt_append simp del: block_at_def)
    show "\<not> IsAlive (?m x) \<and> block_at x (blocks (?m x)) \<notin> set (ys @ p # zs)" if x: "x \<in> set (ys @ p # zs)" for x
    proof (cases "x = p")
      case True
      have "block_at p (blocks b) = block_at n (blocks (m n))" using assms(3,4,6) by (simp add: algebra_simps)
      moreover have "p < block_at n (blocks (m n))" using assms(3,4) by simp
      ultimately show ?thesis using P True assms(7) by (auto simp del: block_at_def)
    next
      case False
      then have x: "x \<in> set ys \<union> set zs" "x \<in> set bs" "x \<noteq> n" using that P s by auto
      have "block_at x (blocks (m x)) \<noteq> p"
      proof (cases "x < n")
        case True
        then show ?thesis using far[OF x(2)] p_in(1) by auto
      next
        case False
        then show ?thesis using near[OF x(2)] x(3) by auto
      qed
      then show ?thesis using P x False by auto
    qed
  qed (use t P bs in auto)
  then show ?thesis using bs pn by (intro exI[of _ "as @ n # p # cs"]) auto
qed

lemma keep_first_part:
  assumes "payload_ok m c bs xs" and "n \<in> set xs" and "0 < k" "k < blocks (m n)" and "p = block_at n k"
    and "blocks a = k" "blocks b = blocks (m n) - k" "\<not> IsAlive a"
  shows "\<exists>bs'. payload_ok (m(n := a, p := b)) c bs' xs \<and> set bs' = insert p (set bs) \<and> p \<notin> set bs"
proof -
  note P = assms(1)[unfolded payload_ok_def]
  have nb: "n \<in> set bs" using P assms(2) by auto
  then obtain as cs where bs: "bs = as @ n # cs" by (meson split_list)
  let ?m = "m(n := a, p := b)"
  have pn: "p \<notin> set bs" using inner_address[of m _ bs _ n, OF _ nb assms(3,4)] P assms(5) by blast
  have d: "distinct bs" using P tiles_distinct by blast
  have "tiles ?m (m_payloadStart c) (as @ n # p # cs) (m_payloadEnd c)"
    unfolding assms(5)
    by (rule tiles_split[of m]) (use P bs assms pn d in \<open>auto simp del: block_at_def\<close>)
  then have "payload_ok ?m c (as @ n # p # cs) xs"
    using P bs pn assms(5,6,8) by (intro payload_okI) auto
  then show ?thesis using bs pn by (intro exI[of _ "as @ n # p # cs"]) auto
qed

lemma zeroed:
  assumes "payload_ok m c bs xs" and "free_chain fl xs" and "res \<in> set bs - set xs"
    and "InitializeToZero res (fl, m) = (fl', m')"
  shows "payload_ok m' c bs xs" "free_chain fl' xs" "m_id (m' res) = m_id (m res)"
    "\<And>a. a \<notin> extent m res \<Longrightarrow> m' a = m a"
proof -
  note P = assms(1)[unfolded payload_ok_def]
  have m': "m' = (\<lambda>a. if a = res then zero_block\<lparr>m_id := m_id (m res)\<rparr>
      else if res < a \<and> a < block_at res (blocks (m res)) then zero_block else m a)"
    using assms(4) by (auto simp: InitializeToZero_def Let_def)
  then show "m_id (m' res) = m_id (m res)" by simp
  show "m' a = m a" if "a \<notin> extent m res" for a
    using that tiles_range[of m "m_payloadStart c" bs "m_payloadEnd c" res] P assms(3) by (auto simp: m' extent_def)
  have out: "x \<notin> extent m res" if "x \<in> set bs" "x \<noteq> res" for x
    using tiles_disjoint[of m "m_payloadStart c" bs "m_payloadEnd c" res x] P that assms(3) by (auto simp: extent_def)
  then have same: "m' x = m x" if "x \<in> set bs" "x \<noteq> res" for x
    using that by (auto simp: m' extent_def)
  then have "blocks (m' x) = blocks (m x)" if "x \<in> set bs" for x
    using that by (cases "x = res") (auto simp: m' blocks_def DataSize_def)
  then have "tiles m' (m_payloadStart c) bs (m_payloadEnd c)"
    using P tiles_cong[of bs m' m] by blast
  moreover have "m' x = m x" if "x \<in> set xs" for x using same[of x] that P assms(3) by auto
  ultimately show "payload_ok m' c bs xs" using P by (intro payload_okI) simp_all
  have "x \<notin> extent m res" if "x \<in> set xs" for x using out[of x] assms(3) P that by blast
  then have "m_nextNode fl' x = m_nextNode fl x \<and> m_prevNode fl' x = m_prevNode fl x" if "x \<in> set xs" for x
    using assms(4) that by (fastforce simp: InitializeToZero_def Let_def extent_def)
  then show "free_chain fl' xs"
    using assms(4) by (intro free_chain_cong[OF assms(2)]) (auto simp: InitializeToZero_def Let_def)
qed

text \<open>The block that is found in the free list, before its type is written over it.\<close>

lemma split_block_ok:
  fixes t f
  assumes "cluster_ok m c bs xs" and "n \<in> set xs" and "fits m len n" and "0 < unat len"
  defines "new \<equiv> (\<lambda>b. SetDataId (CLR_RT_HEAPBLOCK_RAW_ID t f len) b)"
  shows "\<exists>res fl1 m1 bs' xs'. split_block flags len n (m_freeList c, m) = Some (res, fl1, m1)
    \<and> payload_ok (m1(res := new (m1 res))) c bs' xs' \<and> free_chain fl1 xs'
    \<and> set bs' - set xs' = insert res (set bs - set xs) \<and> res \<notin> set bs - set xs
    \<and> extent (m1(res := new (m1 res))) res \<subseteq> extent m n \<and> n \<le> res
    \<and> (\<forall>a. a \<notin> extent m n \<longrightarrow> m1 a = m a)"
proof -
  note D = cluster_okD[OF assms(1)]
  obtain ys zs where xs: "xs = ys @ n # zs" using assms(2) by (meson split_list)
  note F = D(4)[unfolded xs]
  have P: "payload_ok m c bs (ys @ n # zs)" using assms(1) xs by (simp add: cluster_ok_def)
  have d: "n \<notin> set ys" "n \<notin> set zs" using free_chainD[OF F] by simp_all
  have nb: "n \<in> set bs" and n0: "0 < blocks (m n)" using D(2) assms(2) tiles_range[OF D(1)] by auto
  define av where "av = ucast (DataSize (m n)) - len"
  have le: "unat len \<le> blocks (m n)" "blocks (m n) < 2 ^ 16" using assms(3) blocks_less by (simp_all add: fits_def)
  have av: "unat av = blocks (m n) - unat len"
    using le(1) by (simp add: av_def unat_sub word_le_nat_alt unat_ucast_u16 blocks_def)
  have len: "blocks (new b) = unat len" for b using le by (simp add: new_def)
  have avb: "blocks (SetDataId (free_id av) b) = unat av" for b using av le by (simp add: free_id_def)
  have dead: "\<not> IsAlive (SetDataId (free_id av) b)" for b by (simp add: free_id_def)
  show ?thesis
  proof (cases "av = 0")
    case True
    obtain fl' where fl': "relink (get_prev (m_freeList c) (Node n)) (get_next (m_freeList c) (Node n))
        (get_next (m_freeList c) (Node n)) (get_prev (m_freeList c) (Node n)) (m_freeList c) = Some fl'"
      "free_chain fl' (ys @ zs)" using free_chain_remove[OF F] by blast
    have eq: "blocks (m n) = unat len" using av True le(1) by simp
    have "payload_ok (m(n := new (m n))) c bs (ys @ zs)" using take_whole[OF P] eq len by simp
    moreover have "extent (m(n := new (m n))) n = extent m n" using eq len by (simp add: extent_def)
    moreover have "split_block flags len n (m_freeList c, m) = Some (n, fl', m)"
      using fl'(1) True by (simp add: split_block_def av_def Let_def)
    ultimately show ?thesis using fl'(2) xs d nb
      by (intro exI[of _ n] exI[of _ fl'] exI[of _ m] exI[of _ bs] exI[of _ "ys @ zs"]) auto
  next
    case False
    then have pos: "0 < unat av" by (simp add: unat_gt_0)
    with av have lt: "unat len < blocks (m n)" "blocks (m n) - unat av = unat len" "unat av < blocks (m n)"
      using assms(4) by simp_all
    show ?thesis
    proof (cases "flags AND HB_Event \<noteq> 0")
      case True
      let ?res = "block_at n (unat av)" and ?b = "SetDataId (free_id av) (m n)"
      have nr: "?res \<noteq> n" using pos by simp
      obtain bs' where bs': "payload_ok (m(n := ?b, ?res := new (m ?res))) c bs' xs"
          "set bs' = insert ?res (set bs)" "?res \<notin> set bs"
        using keep_first_part[OF P[folded xs] assms(2) pos lt(3) refl avb[of "m n"], where b = "new (m ?res)"] len lt(2) dead
        by (auto simp del: block_at_def)
      let ?m1 = "m(n := ?b)"
      have eq: "?m1(?res := new (?m1 ?res)) = m(n := ?b, ?res := new (m ?res))"
        using nr by (simp del: block_at_def)
      have 1: "split_block flags len n (m_freeList c, m) = Some (?res, m_freeList c, ?m1)"
        using True False by (simp add: split_block_def av_def Let_def)
      have 2: "extent (?m1(?res := new (?m1 ?res))) ?res \<subseteq> extent m n"
        using len av lt unfolding eq by (auto simp: extent_def)
      have out: "?res \<notin> set xs" "?res \<notin> set bs" using bs'(3) D(2) by blast+
      have 3: "set bs' - set xs = insert ?res (set bs - set xs)" "?res \<notin> set bs - set xs"
        using bs'(2) out by auto
      have 4: "\<forall>a. a \<notin> extent m n \<longrightarrow> ?m1 a = m a" using n0 by (simp add: extent_def)
      show ?thesis
        using 1 2 3 4 bs'(1)[folded eq] D(4) by (intro exI conjI) (assumption | simp)+
    next
      case ev: False
      let ?p = "block_at n (unat len)" and ?b = "SetDataId (free_id av) (m (block_at n (unat len)))"
      have np: "?p \<noteq> n" using assms(4) by simp
      obtain bs' where bs': "payload_ok (m(n := new (m n), ?p := ?b)) c bs' (ys @ ?p # zs)"
          "set bs' = insert ?p (set bs)" "?p \<notin> set bs"
        using keep_second_part[OF P assms(4) lt(1) refl len, of ?b "m n"] avb av dead by auto
      have out: "?p \<notin> set ys" "?p \<notin> set zs" using bs'(3) D(2) xs by auto
      obtain fl' where fl': "relink (get_prev (m_freeList c) (Node n)) (get_next (m_freeList c) (Node n))
          (Some (Node ?p)) (Some (Node ?p))
          (set_prev (Node ?p) (get_prev (m_freeList c) (Node n)) (set_next (Node ?p) (get_next (m_freeList c) (Node n)) (m_freeList c)))
          = Some fl'" "free_chain fl' (ys @ ?p # zs)"
        using free_chain_replace[OF F out] by blast
      let ?m1 = "m(?p := ?b)"
      have eq: "?m1(n := new (?m1 n)) = m(n := new (m n), ?p := ?b)"
        using np by (simp add: fun_upd_twist del: block_at_def)
      have 1: "split_block flags len n (m_freeList c, m) = Some (n, fl', ?m1)"
        using ev False fl'(1) by (simp add: split_block_def av_def Let_def del: block_at_def)
      have 2: "extent (?m1(n := new (?m1 n))) n \<subseteq> extent m n"
        using np len le(1) unfolding eq by (auto simp: extent_def)
      have 3: "set bs' - set (ys @ ?p # zs) = insert n (set bs - set xs)" "n \<notin> set bs - set xs"
        using bs'(2,3) out d xs nb np by auto
      have "?p \<in> extent m n" using lt(1) by (simp add: extent_def)
      then have 4: "\<forall>a. a \<notin> extent m n \<longrightarrow> ?m1 a = m a" by auto
      show ?thesis
        using 1 2 3 4 bs'(1)[folded eq] fl'(2) by (intro exI conjI) (assumption | simp)+
    qed
  qed
qed

text \<open>What a client of the heap relies on: a block of its own, inside memory that was free, and nothing else changed.\<close>

definition allocated ::
    "u32 \<Rightarrow> u32 \<Rightarrow> u32 \<Rightarrow> nat \<Rightarrow> memory \<times> nat list \<times> nat list \<Rightarrow> memory \<times> nat list \<times> nat list \<Rightarrow> bool" where
  "allocated dataType flags len res s s' \<longleftrightarrow>
     (let (m, bs, xs) = s; (m', bs', xs') = s'
      in set bs' - set xs' = insert res (set bs - set xs) \<and> res \<notin> set bs - set xs
       \<and> blocks (m' res) = unat len \<and> DataType (m' res) = ucast dataType \<and> DataFlags (m' res) = ucast flags
       \<and> (\<exists>x\<in>set xs. extent m' res \<subseteq> extent m x \<and> (\<forall>a. a \<notin> extent m x \<longrightarrow> m' a = m a)))"

lemma ExtractBlocks_ok:
  assumes "cluster_ok m c bs xs" and "0 < len" and "len \<le> HB_MaxSize"
  shows "if \<exists>x\<in>set xs. unat len \<le> blocks (m x)
    then \<exists>res c' m' bs' xs'. ExtractBlocks t f len (c, m) = Some (Some res, c', m')
      \<and> cluster_ok m' c' bs' xs' \<and> m_payloadStart c' = m_payloadStart c \<and> m_payloadEnd c' = m_payloadEnd c
      \<and> allocated t f len res (m, bs, xs) (m', bs', xs')
    else ExtractBlocks t f len (c, m) = Some (None, c, m)"
proof -
  note D = cluster_okD[OF assms(1)]
  have len: "0 < unat len" "unat len < 2 ^ 16"
    using assms(2,3) by (simp_all add: word_less_nat_alt word_le_nat_alt HB_defs)
  have ch: "chain (m_freeList c) Head xs Tail" "m_null (m_freeList c) = None"
    using D(4) by (simp_all add: free_chain_def)
  define found where "found = (if f AND HB_Event \<noteq> 0 then find (fits m len) (rev xs) else find (fits m len) xs)"
  have walk: "(if f AND HB_Event \<noteq> 0 then (case LastNode (m_freeList c) of None \<Rightarrow> None | Some p \<Rightarrow> fit_backward m (m_freeList c) len p)
      else (case FirstNode (m_freeList c) of None \<Rightarrow> None | Some p \<Rightarrow> fit_forward m (m_freeList c) len p)) = Some found"
    using free_chain_ends[OF D(4)] fit_forward_chain[OF ch] fit_backward_chain[OF ch] by (simp add: found_def)
  note E = ExtractBlocks_def[of t f len "(c, m)", unfolded Let_def, simplified prod.case, unfolded walk]
  show ?thesis
  proof (cases found)
    case None
    then have "\<not> (\<exists>x\<in>set xs. unat len \<le> blocks (m x))"
      by (auto simp: found_def find_None_iff fits_def split: if_splits)
    then show ?thesis using E None by simp
  next
    case (Some n)
    then have n: "n \<in> set xs" "fits m len n"
      using find_SomeD[of "fits m len" xs n] find_SomeD[of "fits m len" "rev xs" n] by (auto simp: found_def split: if_splits)
    let ?new = "SetDataId (CLR_RT_HEAPBLOCK_RAW_ID t f len)"
    obtain res fl1 m1 bs' xs' where S: "split_block f len n (m_freeList c, m) = Some (res, fl1, m1)"
      "payload_ok (m1(res := ?new (m1 res))) c bs' xs'" "free_chain fl1 xs'"
      "set bs' - set xs' = insert res (set bs - set xs)" "res \<notin> set bs - set xs"
      "extent (m1(res := ?new (m1 res))) res \<subseteq> extent m n" "n \<le> res" "\<forall>a. a \<notin> extent m n \<longrightarrow> m1 a = m a"
      using split_block_ok[OF assms(1) n len(1), of f t f] by blast
    define m2 where "m2 = m1(res := ?new (m1 res))"
    obtain fl2 m3 where Z: "(if f AND HB_InitializeToZero \<noteq> 0 then InitializeToZero res (fl1, m2) else (fl1, m2)) = (fl2, m3)"
      by fastforce
    have rb: "res \<in> set bs' - set xs'" using S(4) by auto
    have Z': "payload_ok m3 c bs' xs' \<and> free_chain fl2 xs' \<and> m_id (m3 res) = m_id (m2 res)
        \<and> (\<forall>a. a \<notin> extent m2 res \<longrightarrow> m3 a = m2 a)"
    proof (cases "f AND HB_InitializeToZero \<noteq> 0")
      case True
      then show ?thesis using zeroed[OF S(2)[folded m2_def] S(3) rb, of fl2 m3] Z by simp
    qed (use Z S m2_def in simp)
    then have id: "m_id (m3 res) = m_id (?new (m1 res))" by (simp add: m2_def)
    have mem: "blocks (m3 res) = unat len" "DataType (m3 res) = ucast t" "DataFlags (m3 res) = ucast f"
      using id RAW_ID_members[of t f len "m1 res"] blocks_simps(4)[of t f len "m1 res"] len(2)
      by (simp_all add: blocks_def DataSize_def DataType_def DataFlags_def)
    have ext: "extent m3 res = extent m2 res" using mem(1) len(2) by (simp add: extent_def m2_def)
    have "m3 a = m a" if "a \<notin> extent m n" for a
    proof -
      have "a \<notin> extent m2 res" using S(6) that by (auto simp: m2_def)
      moreover have "a \<noteq> res" using S(6) that len mem(1) ext by (auto simp: extent_def m2_def)
      ultimately show ?thesis using Z' S(8) that by (simp add: m2_def)
    qed
    then have al: "allocated t f len res (m, bs, xs) (m3, bs', xs')"
      using S(4-6) mem ext n(1) by (auto simp: allocated_def m2_def)
    have "ExtractBlocks t f len (c, m) = Some (Some res, c\<lparr>m_freeList := fl2\<rparr>, m3)"
      using E Some S(1) by (simp add: Z[unfolded m2_def] split del: if_split)
    moreover have "cluster_ok m3 (c\<lparr>m_freeList := fl2\<rparr>) bs' xs'" using Z' by (simp add: cluster_ok_def payload_ok_def)
    ultimately show ?thesis using al n by (auto simp: fits_def)
  qed
qed

end
