(* ===== verification/Heap_Recovery.thy ===== *)
theory Heap_Recovery
  imports Heap_Cluster
begin

text \<open>
  Recovery, insertion and initialization of the clusters of the managed heap
  (\<^verbatim>\<open>CLR/Core/CLR_RT_HeapCluster.cpp\<close>): \<open>RecoverFromGC\<close> turns every maximal run of dead blocks into one free
  block and keeps the living ones, \<open>InsertInOrder\<close> merges a region into the free list,
  \<open>HeapCluster_Initialize\<close> makes a cluster of a region of memory, in which it keeps the objects that survive a boot.
\<close>

section \<open>Recovery merges all dead blocks\<close>

lemma dead_run_tiles:
  "tiles m p (p # bs) e \<Longrightarrow> \<exists>ds rest q. bs = ds @ rest \<and> (\<forall>d\<in>set ds. \<not> IsAlive (m d))
     \<and> (rest \<noteq> [] \<longrightarrow> IsAlive (m (hd rest))) \<and> tiles m q rest e
     \<and> dead_run m e p tot = Some (q, tot + of_nat ((q - p) div 12)) \<and> p < q \<and> 12 dvd q - p \<and> q \<le> e"
proof (induction bs arbitrary: p tot)
  case Nil
  then show ?case by (subst dead_run.simps) (auto simp: blocks_def unat_ucast_u16 word_unat_eq_iff)
next
  case (Cons b bs)
  let ?n = "blocks (m p)"
  have b: "b = block_at p ?n" "tiles m b (b # bs) e" "0 < ?n" using Cons.prems by auto
  have be: "b < e" using tiles_range[OF b(2), of b] by auto
  have sz: "ucast (DataSize (m p)) = (of_nat ?n :: u32)" by (simp add: blocks_def unat_ucast_u16 word_unat_eq_iff)
  show ?case
  proof (cases "IsAlive (m b)")
    case True
    then have "dead_run m e p tot = Some (b, tot + of_nat ((b - p) div 12))"
      using b sz by (subst dead_run.simps) (simp add: Let_def)
    then show ?thesis using b be True by (intro exI[of _ "[]"] exI[of _ "b # bs"] exI[of _ b]) auto
  next
    case False
    obtain ds rest q where IH: "bs = ds @ rest" "\<forall>d\<in>set ds. \<not> IsAlive (m d)" "rest \<noteq> [] \<longrightarrow> IsAlive (m (hd rest))"
      "tiles m q rest e" "dead_run m e b (tot + of_nat ?n) = Some (q, tot + of_nat ?n + of_nat ((q - b) div 12))"
      "b < q" "12 dvd q - b" "q \<le> e" using Cons.IH[OF b(2)] by blast
    have qp: "q - p = 12 * ?n + (q - b)" "p < q" using b IH(6) by auto
    obtain k where k: "q - b = 12 * k" using IH(7) by (rule dvdE)
    have "q - p = 12 * (?n + k)" using qp(1) k by (simp only: distrib_left)
    then have div: "(q - p) div 12 = ?n + (q - b) div 12" and dvd: "12 dvd q - p" by (simp_all only: k) simp_all
    have step: "dead_run m e p tot = dead_run m e b (tot + of_nat ?n)"
      using False b(1) be sz by (subst dead_run.simps) (simp add: Let_def)
    show ?thesis
    proof (intro exI conjI)
      show "b # bs = (b # ds) @ rest" "\<forall>d\<in>set (b # ds). \<not> IsAlive (m d)" using IH(1,2) False by simp_all
      show "dead_run m e p tot = Some (q, tot + of_nat ((q - p) div 12))"
        unfolding step IH(5) div by (simp add: add.assoc)
    qed (use IH qp dvd in auto)
  qed
qed

lemma front_ok_snoc:
  assumes "front_ok fl ys" and "distinct ys" and "p \<notin> set ys"
  shows "front_ok (set_prev (Node p) (Some (before ys)) (set_next (before ys) (Some (Node p)) fl)) (ys @ [p])"
    (is "front_ok ?fl _")
proof -
  have "before ys \<noteq> Node p" using assms(3) before_in by auto
  moreover have "front_ok ?fl ys = front_ok fl ys"
    by (rule front_ok_cong) (use assms in \<open>auto dest: before_in\<close>)
  ultimately have "chain ?fl Head (ys @ []) (Node p)"
    using assms(1) by (cases ys rule: rev_cases) (auto simp: front_ok_def chain_append)
  then show ?thesis by (simp add: front_ok_def)
qed

text \<open>The state of the blocks when the walk has passed them.\<close>

definition recovered :: "memory \<Rightarrow> nat list \<Rightarrow> memory \<Rightarrow> nat list \<Rightarrow> nat list \<Rightarrow> bool" where
  "recovered m bs m' bs' xs \<longleftrightarrow>
     set bs' = {b \<in> set bs. IsAlive (m b)} \<union> set xs \<and> set xs \<subseteq> {b \<in> set bs. \<not> IsAlive (m b)}
     \<and> sorted_wrt (<) xs
     \<and> (\<forall>b\<in>set bs. IsAlive (m b) \<longrightarrow> m' b = (if IsEvent (m b) then m b else MarkDead (m b)))
     \<and> (\<forall>x\<in>set xs. \<not> IsAlive (m' x) \<and> \<not> IsEvent (m' x) \<and> DataType (m' x) = DATATYPE_FREEBLOCK
          \<and> block_at x (blocks (m' x)) \<notin> set xs)
     \<and> (\<forall>a. a \<notin> set bs' \<longrightarrow> m' a = m a)"

lemma recover_blocks_ok:
  assumes "tiles m p bs e" and "e - p \<le> 12 * 65535" and "front_ok fl ys" and "distinct ys"
    and "\<forall>y\<in>set ys. y < p" and "m_null fl = None"
  shows "\<exists>fl' m' bs' xs. recover_blocks e p (before ys) (fl, m) = Some (before (ys @ xs), fl', m')
    \<and> tiles m' p bs' e \<and> recovered m bs m' bs' xs
    \<and> front_ok fl' (ys @ xs) \<and> distinct (ys @ xs) \<and> m_null fl' = None"
  using assms
proof (induction "length bs" arbitrary: m p bs fl ys rule: less_induct)
  case less
  note R = tiles_range[OF less.prems(1)]
  show ?case
  proof (cases bs)
    case Nil
    then show ?thesis using less.prems
      by (intro exI[of _ fl] exI[of _ m] exI[of _ "[]"] exI[of _ "[]"])
        (subst recover_blocks.simps, auto simp: recovered_def)
  next
    case (Cons b bs1)
    then have b: "b = p" "p < e" "0 < blocks (m p)" "tiles m (block_at p (blocks (m p))) bs1 e"
      using less.prems(1) R[of p] by auto
    show ?thesis
    proof (cases "IsAlive (m p)")
      case True
      let ?q = "block_at p (blocks (m p))" and ?m = "if IsEvent (m p) then m else m(p := MarkDead (m p))"
      have nin: "x \<noteq> p" if "x \<in> set bs1" for x using tiles_range[OF b(4) that] b(3) by auto
      have "blocks (?m x) = blocks (m x)" for x by simp
      then have t: "tiles ?m ?q bs1 e" using b(4) tiles_cong[of bs1 ?m m] by blast
      have step: "recover_blocks e p (before ys) (fl, m) = recover_blocks e ?q (before ys) (fl, ?m)"
        using True b(2) by (subst recover_blocks.simps) simp
      have a: "e - ?q \<le> 12 * 65535" "\<forall>y\<in>set ys. y < ?q" using less.prems(2,5) by auto
      obtain fl' m' bs' xs where IH: "recover_blocks e ?q (before ys) (fl, ?m) = Some (before (ys @ xs), fl', m')"
        "tiles m' ?q bs' e" "recovered ?m bs1 m' bs' xs" "front_ok fl' (ys @ xs)" "distinct (ys @ xs)" "m_null fl' = None"
        using less.hyps[OF _ t a(1) less.prems(3,4) a(2) less.prems(6)] Cons by fastforce
      have out: "p \<notin> set bs'" using tiles_range[OF IH(2), of p] b(3) by auto
      then have mp: "m' p = ?m p" using IH(3) by (auto simp: recovered_def)
      have "blocks (m' p) = blocks (m p)" using mp by simp
      then have "tiles m' p (p # bs') e" using IH(2) b(3) by (simp del: block_at_def)
      moreover have "recovered m bs m' (p # bs') xs"
      proof -
        have al: "IsAlive (?m x) = IsAlive (m x)" "IsEvent (?m x) = IsEvent (m x)" "?m x = m x" if "x \<noteq> p" for x
          using that by auto
        note I = IH(3)[unfolded recovered_def]
        have "{b \<in> set bs. IsAlive (m b)} = insert p {b \<in> set bs1. IsAlive (?m b)}" 
          "{b \<in> set bs1. \<not> IsAlive (?m b)} \<subseteq> {b \<in> set bs. \<not> IsAlive (m b)}"
          using nin al True Cons b(1) by auto
        moreover have "\<forall>b\<in>set bs. IsAlive (m b) \<longrightarrow> m' b = (if IsEvent (m b) then m b else MarkDead (m b))"
          using I nin al mp Cons b(1) by (auto split: if_splits)
        ultimately show ?thesis using I al mp out unfolding recovered_def by (auto split: if_splits)
      qed
      ultimately show ?thesis using IH step
        by (intro exI[of _ fl'] exI[of _ m'] exI[of _ "p # bs'"] exI[of _ xs]) simp
    next
      case False
      obtain ds rest q where D: "bs1 = ds @ rest" "\<forall>d\<in>set ds. \<not> IsAlive (m d)"
        "rest \<noteq> [] \<longrightarrow> IsAlive (m (hd rest))" "tiles m q rest e"
        "dead_run m e p 0 = Some (q, of_nat ((q - p) div 12))" "p < q" "12 dvd q - p" "q \<le> e"
        using dead_run_tiles[of m p bs1 e 0] less.prems(1) Cons b(1) by auto
      let ?len = "of_nat ((q - p) div 12) :: u32" and ?fl = "set_prev (Node p) (Some (before ys)) (set_next (before ys) (Some (Node p)) fl)"
      let ?m = "m(p := SetDataId (free_id ?len) (m p))"
      have sz: "(q - p) div 12 \<le> 65535" "12 * ((q - p) div 12) = q - p" "0 < (q - p) div 12"
        using less.prems(2) D(6-8) by auto
      then have "unat ?len = (q - p) div 12" by (simp add: unsigned_of_nat take_bit_nat_eq_self)
      then have bp: "blocks (?m p) = (q - p) div 12" using sz(1) by (simp add: free_id_def)
      have nin: "x \<noteq> p" "q \<le> x" if "x \<in> set rest" for x using tiles_range[OF D(4) that] D(6) by auto
      then have t: "tiles ?m q rest e" using D(4) tiles_cong[of rest ?m m] by auto
      have py: "p \<notin> set ys" using less.prems(5) by auto
      have f: "front_ok ?fl (ys @ [p])" by (rule front_ok_snoc[OF less.prems(3,4) py])
      have nb: "before ys \<noteq> Tail" by simp
      then have mn: "m_null ?fl = None" using less.prems(6) by simp
      have step: "recover_blocks e p (before ys) (fl, m) = recover_blocks e q (before (ys @ [p])) (?fl, ?m)"
        using False b(2) D(5) by (subst recover_blocks.simps) simp
      have a: "e - q \<le> 12 * 65535" "distinct (ys @ [p])" "\<forall>y\<in>set (ys @ [p]). y < q"
        using less.prems(2,4,5) D(6) py by auto
      obtain fl' m' bs' xs where IH: "recover_blocks e q (before (ys @ [p])) (?fl, ?m) = Some (before ((ys @ [p]) @ xs), fl', m')"
        "tiles m' q bs' e" "recovered ?m rest m' bs' xs" "front_ok fl' ((ys @ [p]) @ xs)"
        "distinct ((ys @ [p]) @ xs)" "m_null fl' = None"
        using less.hyps[OF _ t a(1) f a(2,3) mn] D(1) Cons by fastforce
      note I = IH(3)[unfolded recovered_def]
      have out: "p \<notin> set bs'" using tiles_range[OF IH(2), of p] D(6) by auto
      then have mp: "m' p = ?m p" using I by auto
      have qx: "q \<notin> set xs"
      proof
        assume q: "q \<in> set xs"
        then have "q \<in> set rest" "\<not> IsAlive (?m q)" using I by auto
        moreover from \<open>q \<in> set rest\<close> have "hd rest = q" using D(4) by (cases rest) auto
        ultimately show False using D(3,6) by auto
      qed
      have "block_at p (blocks (m' p)) = q" using mp bp sz(2) D(6) by simp
      then have "tiles m' p (p # bs') e" and adj: "block_at p (blocks (m' p)) \<notin> set (p # xs)"
        using IH(2) mp bp sz(3) qx D(6) by (auto simp del: block_at_def)
      moreover have "recovered m bs m' (p # bs') (p # xs)"
      proof -
        have al: "?m x = m x" if "x \<noteq> p" for x using that by simp
        have xq: "q \<le> x" "x \<noteq> p" if "x \<in> set xs" for x using I nin that by auto
        have dead: "\<not> IsAlive (m' p)" "\<not> IsEvent (m' p)" "DataType (m' p) = DATATYPE_FREEBLOCK"
          using mp by (simp_all add: free_id_def DATATYPE_FREEBLOCK_def)
        have 1: "{b \<in> set bs. IsAlive (m b)} = {b \<in> set rest. IsAlive (?m b)}"
          "{b \<in> set rest. \<not> IsAlive (?m b)} \<subseteq> {b \<in> set bs. \<not> IsAlive (m b)}"
          using nin D(1,2) False Cons b(1) by auto
        have 2: "\<forall>b\<in>set bs. IsAlive (m b) \<longrightarrow> m' b = (if IsEvent (m b) then m b else MarkDead (m b))"
          using I nin D(1,2) False Cons b(1) by auto
        have "block_at x (blocks (m' x)) \<noteq> p" if "x \<in> set xs" for x using xq(1)[OF that] D(6) by simp
        then have 3: "\<forall>x\<in>set xs. block_at x (blocks (m' x)) \<notin> set (p # xs)"
          using I by (simp del: block_at_def)
        have 4: "\<forall>a. a \<notin> set (p # bs') \<longrightarrow> m' a = m a" using I al by auto
        have 5: "sorted_wrt (<) (p # xs)" using I xq(1) D(6) by (simp, meson less_le_trans)
        have 6: "set (p # bs') = {b \<in> set bs. IsAlive (m b)} \<union> set (p # xs)" using I 1(1) by auto
        have 7: "set (p # xs) \<subseteq> {b \<in> set bs. \<not> IsAlive (m b)}" using I 1(2) False Cons b(1) by auto
        have 8: "\<forall>x\<in>set (p # xs). \<not> IsAlive (m' x) \<and> \<not> IsEvent (m' x)
            \<and> DataType (m' x) = DATATYPE_FREEBLOCK \<and> block_at x (blocks (m' x)) \<notin> set (p # xs)"
          using I 3 dead adj by (simp del: block_at_def)
        show ?thesis unfolding recovered_def by (intro conjI 2 4 5 6 7 8)
      qed
      ultimately show ?thesis using IH step
        by (intro exI[of _ fl'] exI[of _ m'] exI[of _ "p # bs'"] exI[of _ "p # xs"]) simp
    qed
  qed
qed

lemma RecoverFromGC_ok:
  assumes "tiles m (m_payloadStart c) bs (m_payloadEnd c)" and "m_payloadEnd c - m_payloadStart c \<le> 12 * 65535"
  shows "\<exists>c' m' bs' xs. RecoverFromGC (c, m) = Some (c', m') \<and> cluster_ok m' c' bs' xs
    \<and> m_payloadStart c' = m_payloadStart c \<and> m_payloadEnd c' = m_payloadEnd c \<and> recovered m bs m' bs' xs"
proof -
  let ?fl = "set_prev Head None (m_freeList c)"
  have "front_ok ?fl []" "m_null ?fl = None" by (simp_all add: front_ok_def)
  then obtain fl m' bs' xs where R: "recover_blocks (m_payloadEnd c) (m_payloadStart c) Head (?fl, m) = Some (before xs, fl, m')"
    "tiles m' (m_payloadStart c) bs' (m_payloadEnd c)" "recovered m bs m' bs' xs" "front_ok fl xs" "distinct xs" "m_null fl = None"
    using recover_blocks_ok[OF assms, of ?fl "[]"] by auto
  let ?fl' = "set_next Tail None (set_prev Tail (Some (before xs)) (set_next (before xs) (Some Tail) fl))"
  have "front_ok ?fl' xs = front_ok fl xs"
    by (rule front_ok_cong) (use R(5) in \<open>auto dest: before_in\<close>)
  then have "chain ?fl' Head (xs @ []) Tail" unfolding chain_cut using R(4) by (simp add: back_ok_def before_after_simps(5)[symmetric])
  then have "free_chain ?fl' xs" using R(5) by (simp add: free_chain_def)
  moreover have "payload_ok m' c bs' xs" using R(2,3) by (auto simp: payload_ok_def recovered_def)
  ultimately have "cluster_ok m' (c\<lparr>m_freeList := ?fl'\<rparr>) bs' xs" by (simp add: cluster_ok_def payload_ok_def)
  moreover have "RecoverFromGC (c, m) = Some (c\<lparr>m_freeList := ?fl'\<rparr>, m')" using R(1) by (simp add: RecoverFromGC_def Let_def)
  ultimately show ?thesis using R(3) by auto
qed

section \<open>Insertion keeps the order and merges neighbours\<close>

lemma free_chain_insert:
  assumes "free_chain fl (ys @ zs)" and "n \<notin> set (ys @ zs)"
  shows "\<exists>fl'. InsertBeforeNode (after zs) n (Node_Initialize n fl) = Some fl' \<and> free_chain fl' (ys @ n # zs)"
proof -
  let ?s = "Node_Initialize n fl"
  have nn: "before ys \<noteq> Node n" "after zs \<noteq> Node n" using assms(2) before_in after_in by fastforce+
  have c: "chain fl Head (ys @ [] @ zs) Tail" "distinct (ys @ zs)" "m_null fl = None"
    using assms(1) by (simp_all add: free_chain_def)
  then have "get_prev fl (after zs) = Some (before ys)" unfolding chain_middle by simp
  then have p: "get_prev ?s (after zs) = Some (before ys)" using nn by (simp add: Node_Initialize_def)
  have r: "RemoveFromList n ?s = ?s" by (simp add: RemoveFromList_def Node_Initialize_def Let_def)
  have ba: "before ys \<noteq> after zs" using c(2) by (cases zs) (auto simp: before_def)
  let ?fl = "Insert (before ys) (after zs) n ?s"
  have "chain ?fl Head (ys @ [n] @ zs) Tail"
    by (rule chain_splice[OF c(1,2)])
      (use nn ba assms(2) c(2) in \<open>auto simp: Insert_def Node_Initialize_def dest: before_in after_in\<close>)
  then have "free_chain ?fl (ys @ n # zs)"
    using c assms(2) nn by (auto simp: free_chain_def Insert_def Node_Initialize_def)
  then show ?thesis using nn p r by (simp add: InsertBeforeNode_def Let_def)
qed

lemma free_chain_Unlink:
  assumes "free_chain fl (ys @ n # zs)"
  shows "free_chain (Unlink n fl) (ys @ zs)"
proof -
  note D = free_chainD[OF assms]
  have "chain (Unlink n fl) Head (ys @ [] @ zs) Tail"
    by (rule chain_splice[of fl ys "[n]"])
      (use assms D in \<open>auto simp: free_chain_def Unlink_def Let_def dest: before_in after_in\<close>)
  then show ?thesis using assms D by (auto simp: free_chain_def Unlink_def Let_def)
qed

lemma order_place_chain:
  "chain fl p xs Tail \<Longrightarrow> m_null fl = None \<Longrightarrow> node \<notin> set xs \<Longrightarrow>
   order_place fl node (after xs) = Some (after (dropWhile (\<lambda>n. n < node) xs))"
proof (induction xs arbitrary: p)
  case Nil
  then show ?case by (subst order_place.simps) (simp add: cells)
next
  case (Cons x xs)
  then have "get_next fl (Node x) = Some (after xs)" by (cases xs) auto
  with Cons show ?case by (subst order_place.simps) auto
qed

text \<open>A free list on its own: its blocks lie in the payload, in order and apart.\<close>

definition apart :: "memory \<Rightarrow> nat list \<Rightarrow> bool" where
  "apart m xs \<longleftrightarrow> sorted_wrt (\<lambda>x y. block_at x (blocks (m x)) < y) xs"

definition covered :: "memory \<Rightarrow> nat list \<Rightarrow> nat set" where
  "covered m xs = (\<Union>x\<in>set xs. extent m x)"

lemma coalesce_next_ok:
  assumes "free_chain fl (ys @ n # zs)" and "apart m zs" and "\<And>z. z \<in> set zs \<Longrightarrow> block_at n (unat len) \<le> z"
    and "\<And>z. z \<in> set zs \<Longrightarrow> unat len + blocks (m z) < 2 ^ 16" and "\<And>z. z \<in> set zs \<Longrightarrow> 0 < blocks (m z)"
  obtains len' fl' zs' where "coalesce_next n len (fl, m) = (len', fl')" "free_chain fl' (ys @ n # zs')"
    "apart m zs'" "set zs' \<subseteq> set zs" "\<And>z. z \<in> set zs' \<Longrightarrow> block_at n (unat len') < z"
    "{n..<block_at n (unat len')} \<union> covered m zs' = {n..<block_at n (unat len)} \<union> covered m zs"
    "unat len \<le> unat len'"
proof -
  note D = free_chainD[OF assms(1)]
  have nxt: "get_next fl (Node n) = Some (after zs)" by (rule D(1))
  show ?thesis
  proof (cases "\<exists>zs'. zs = block_at n (unat len) # zs'")
    case True
    then obtain zs' where zs: "zs = block_at n (unat len) # zs'" by blast
    let ?k = "block_at n (unat len)" and ?len = "len + ucast (DataSize (m (block_at n (unat len))))"
    have "get_next fl (Node ?k) = Some (after zs')"
      using free_chainD(1)[of fl "ys @ [n]" ?k zs'] assms(1) zs by simp
    then have C: "coalesce_next n len (fl, m) = (?len, Unlink ?k fl)"
      using nxt zs by (simp add: coalesce_next_def Let_def)
    have sum: "unat len + blocks (m ?k) < 2 ^ 16" using assms(4)[of ?k] zs by simp
    have u: "unat ?len = unat len + blocks (m ?k)"
      using sum by (subst unat_add_lem[THEN iffD1]) (simp_all add: unat_ucast_u16 blocks_def)
    then have e: "block_at n (unat ?len) = block_at ?k (blocks (m ?k))" by (simp add: algebra_simps)
    show ?thesis
    proof (rule that[OF C])
      show "free_chain (Unlink ?k fl) (ys @ n # zs')"
        using free_chain_Unlink[of fl "ys @ [n]" ?k zs'] assms(1) zs by simp
      show "apart m zs'" using assms(2) zs by (simp add: apart_def)
      show "block_at n (unat ?len) < z" if "z \<in> set zs'" for z
        using assms(2) that unfolding e by (simp add: apart_def zs del: block_at_def)
      show "{n..<block_at n (unat ?len)} \<union> covered m zs' = {n..<block_at n (unat len)} \<union> covered m zs"
        unfolding e zs by (auto simp: covered_def extent_def)
    qed (use zs u in auto)
  next
    case False
    then have C: "coalesce_next n len (fl, m) = (len, fl)"
      using nxt by (cases zs) (auto simp: coalesce_next_def Let_def)
    have "block_at n (unat len) < z" if "z \<in> set zs" for z
    proof (cases zs)
      case (Cons k zs')
      then have "block_at n (unat len) < k" using assms(3)[of k] False by (auto simp: le_less)
      moreover have "z = k \<or> k < z" using that assms(2) Cons by (auto simp: apart_def)
      ultimately show ?thesis by auto
    qed (use that in simp)
    then show ?thesis using that[OF C assms(1,2)] by auto
  qed
qed

lemma coalesce_prev_ok:
  assumes "free_chain fl (ys @ n # zs)" and "apart m ys" and "\<And>y. y \<in> set ys \<Longrightarrow> block_at y (blocks (m y)) \<le> n"
    and "\<And>y. y \<in> set ys \<Longrightarrow> unat len + blocks (m y) < 2 ^ 16"
  obtains n' len' fl' ys' where "coalesce_prev n len (fl, m) = (n', len', fl')" "free_chain fl' (ys' @ n' # zs)"
    "apart m ys'" "set ys' \<subseteq> set ys" "\<And>y. y \<in> set ys' \<Longrightarrow> block_at y (blocks (m y)) < n'"
    "covered m ys' \<union> {n'..<block_at n' (unat len')} = covered m ys \<union> {n..<block_at n (unat len)}"
    "block_at n' (unat len') = block_at n (unat len)" "n' \<le> n" "n' = n \<or> n' \<in> set ys"
proof -
  note D = free_chainD[OF assms(1)]
  have prv: "get_prev fl (Node n) = Some (before ys)" by (rule D(2))
  show ?thesis
  proof (cases "\<exists>ys' k. ys = ys' @ [k] \<and> block_at k (blocks (m k)) = n")
    case True
    then obtain ys' k where ys: "ys = ys' @ [k]" "block_at k (blocks (m k)) = n" by blast
    let ?len = "len + ucast (DataSize (m k))"
    have "get_prev fl (Node k) = Some (before ys')"
      using free_chainD(2)[of fl ys' k "n # zs"] assms(1) ys by simp
    then have C: "coalesce_prev n len (fl, m) = (k, ?len, Unlink n fl)"
      using prv ys by (simp add: coalesce_prev_def Let_def)
    have sum: "unat len + blocks (m k) < 2 ^ 16" using assms(4)[of k] ys by simp
    have u: "unat ?len = unat len + blocks (m k)"
      using sum by (subst unat_add_lem[THEN iffD1]) (simp_all add: unat_ucast_u16 blocks_def)
    then have e: "block_at k (unat ?len) = block_at n (unat len)" using ys(2) by (simp add: algebra_simps)
    show ?thesis
    proof (rule that[OF C])
      show "free_chain (Unlink n fl) (ys' @ k # zs)"
        using free_chain_Unlink[of fl "ys' @ [k]" n zs] assms(1) ys by simp
      show "apart m ys'" using assms(2) ys by (simp add: apart_def sorted_wrt_append)
      show "block_at y (blocks (m y)) < k" if "y \<in> set ys'" for y
        using assms(2) that by (simp add: apart_def ys(1) sorted_wrt_append del: block_at_def)
      show "covered m ys' \<union> {k..<block_at k (unat ?len)} = covered m ys \<union> {n..<block_at n (unat len)}"
        unfolding e ys(1) using ys(2) by (auto simp: covered_def extent_def)
    qed (use ys e in auto)
  next
    case False
    then have C: "coalesce_prev n len (fl, m) = (n, len, fl)"
      using prv by (cases ys rule: rev_cases) (auto simp: coalesce_prev_def Let_def)
    have "block_at y (blocks (m y)) < n" if "y \<in> set ys" for y
    proof (cases ys rule: rev_cases)
      case (snoc ys' k)
      then have "block_at k (blocks (m k)) < n" using assms(3)[of k] False by (auto simp: le_less)
      moreover have "y = k \<or> block_at y (blocks (m y)) < k"
        using that assms(2) snoc by (auto simp: apart_def sorted_wrt_append)
      ultimately show ?thesis by auto
    qed (use that in simp)
    then show ?thesis using that[OF C assms(1,2)] by auto
  qed
qed

lemma sorted_cut:
  assumes "sorted_wrt (<) xs" and "(n :: nat) \<notin> set xs"
  obtains ys zs where "xs = ys @ zs" "dropWhile (\<lambda>x. x < n) xs = zs" "\<And>y. y \<in> set ys \<Longrightarrow> y < n" "\<And>z. z \<in> set zs \<Longrightarrow> n < z"
proof -
  have "n < z" if "z \<in> set (dropWhile (\<lambda>x. x < n) xs)" for z
    using assms that
  proof (induction xs)
    case (Cons x xs)
    then show ?case by (cases "x < n") fastforce+
  qed simp
  then show ?thesis
    by (intro that[of "takeWhile (\<lambda>x. x < n) xs" "dropWhile (\<lambda>x. x < n) xs"]) (auto dest: set_takeWhileD)
qed

lemma apart_sorted: "apart m xs \<Longrightarrow> sorted_wrt (<) xs"
  unfolding apart_def by (erule sorted_wrt_mono_rel[rotated]) auto

lemma apart_cong: "(\<And>x. x \<in> set xs \<Longrightarrow> m' x = m x) \<Longrightarrow> apart m' xs = apart m xs"
  unfolding apart_def by (induction xs) auto

lemma apart_middle:
  assumes "apart m ys" "apart m zs" and "\<And>y. y \<in> set ys \<Longrightarrow> block_at y (blocks (m y)) < n"
    and "\<And>z. z \<in> set zs \<Longrightarrow> block_at n (blocks (m n)) < z"
  shows "apart m (ys @ n # zs)"
proof -
  have "n < z" if "z \<in> set zs" for z using assms(4)[OF that] by simp
  then show ?thesis using assms less_trans by (fastforce simp: apart_def sorted_wrt_append simp del: block_at_def)
qed

lemma two_intervals:
  fixes a b :: nat
  assumes "{a..<a + 12 * k} \<subseteq> {lo..<hi}" and "{b..<b + 12 * l} \<subseteq> {lo..<hi}" and "a + 12 * k \<le> b" and "0 < k" "0 < l"
    and "hi - lo \<le> 12 * 65535"
  shows "k + l < 2 ^ 16"
proof -
  have "lo \<le> a" "b + 12 * l \<le> hi" using assms(1,2,4,5) by (auto simp: atLeastLessThan_subset_iff)
  then show ?thesis using assms(3,6) by simp
qed

lemma InsertInOrder_ok:
  assumes "free_chain (m_freeList c) xs" and "apart m xs"
    and "\<And>x. x \<in> set xs \<Longrightarrow> 0 < blocks (m x) \<and> extent m x \<subseteq> {lo..<hi}" and "hi - lo \<le> 12 * 65535"
    and "0 < len" and "{node..<block_at node (unat len)} \<subseteq> {lo..<hi}"
    and "covered m xs \<inter> {node..<block_at node (unat len)} = {}"
  shows "\<exists>node' c' m' xs'. InsertInOrder node len (c, m) = Some (node', c', m')
    \<and> free_chain (m_freeList c') xs' \<and> apart m' xs' \<and> node' \<in> set xs'
    \<and> covered m' xs' = covered m xs \<union> {node..<block_at node (unat len)}
    \<and> (\<forall>a. a \<noteq> node \<and> a \<noteq> node' \<longrightarrow> m' a = m a)"
proof -
  let ?fl = "m_freeList c" and ?e = "block_at node (unat len)"
  have L: "0 < unat len" using assms(5) by (simp add: word_less_nat_alt)
  have hit: "x < ?e \<longrightarrow> block_at x (blocks (m x)) \<le> node" if "x \<in> set xs" for x
  proof (rule ccontr)
    assume "\<not> ?thesis"
    then have "max x node \<in> extent m x \<inter> {node..<?e}" using assms(3)[OF that] L by (auto simp: extent_def)
    then show False using assms(7) that by (auto simp: covered_def)
  qed
  have nin: "node \<notin> set xs" using hit[of node] assms(3)[of node] L by auto
  obtain ys zs where xs: "xs = ys @ zs" "dropWhile (\<lambda>x. x < node) xs = zs"
    and yz: "\<And>y. y \<in> set ys \<Longrightarrow> y < node" "\<And>z. z \<in> set zs \<Longrightarrow> node < z"
    using sorted_cut[OF apart_sorted[OF assms(2)] nin] by blast
  have ye: "block_at y (blocks (m y)) \<le> node" if "y \<in> set ys" for y using hit[of y] yz(1)[OF that] that L xs(1) by simp
  have ze: "?e \<le> z" if "z \<in> set zs" for z using hit[of z] yz(2)[OF that] that xs(1) by (cases "z < ?e") auto
  have ap: "apart m ys" "apart m zs" using assms(2) xs(1) by (simp_all add: apart_def sorted_wrt_append)
  let ?m1 = "m(node := ClearData (m node))"
  have m1: "?m1 x = m x" if "x \<in> set xs" for x using that nin by auto
  then have ap1: "apart ?m1 ys" "apart ?m1 zs" using ap apart_cong[of ys ?m1 m] apart_cong[of zs ?m1 m] xs(1) by auto
  have place: "order_place ?fl node (after xs) = Some (after zs)"
    using order_place_chain[of ?fl Head xs node] assms(1) nin xs(2) by (simp add: free_chain_def)
  obtain fl1 where fl1: "InsertBeforeNode (after zs) node (Node_Initialize node ?fl) = Some fl1" "free_chain fl1 (ys @ node # zs)"
    using free_chain_insert[of ?fl ys zs node] assms(1) nin xs(1) by auto
  have bz: "unat len + blocks (?m1 z) < 2 ^ 16" "0 < blocks (?m1 z)" if "z \<in> set zs" for z
    using two_intervals[of node "unat len" lo hi z "blocks (m z)"] assms(3)[of z] assms(4,6) ze[OF that] L that m1[of z] xs(1)
    by (auto simp: extent_def)
  obtain len1 fl2 zs' where N: "coalesce_next node len (fl1, ?m1) = (len1, fl2)" "free_chain fl2 (ys @ node # zs')"
    "apart ?m1 zs'" "set zs' \<subseteq> set zs" "\<And>z. z \<in> set zs' \<Longrightarrow> block_at node (unat len1) < z"
    "{node..<block_at node (unat len1)} \<union> covered ?m1 zs' = {node..<?e} \<union> covered ?m1 zs" "unat len \<le> unat len1"
    using coalesce_next_ok[OF fl1(2) ap1(2) ze bz] by blast
  have "blocks (?m1 x) = blocks (m x)" for x by simp
  then have cv: "covered ?m1 ws = covered m ws" for ws by (simp only: covered_def extent_def)
  have in1: "{node..<block_at node (unat len1)} \<subseteq> {lo..<hi}"
  proof -
    have "covered m zs \<subseteq> {lo..<hi}" using assms(3) xs(1) by (force simp: covered_def)
    then show ?thesis using N(6) assms(6) cv by blast
  qed
  have by1: "unat len1 + blocks (?m1 y) < 2 ^ 16" if "y \<in> set ys" for y
    using two_intervals[of y "blocks (m y)" lo hi node "unat len1"] assms(3)[of y] assms(4) in1 ye[OF that] L N(7) that m1[of y] xs(1)
    by (auto simp: extent_def)
  have ye1: "block_at y (blocks (?m1 y)) \<le> node" if "y \<in> set ys" for y using ye[OF that] m1[of y] that xs(1) by simp
  obtain node' len2 fl3 ys' where V: "coalesce_prev node len1 (fl2, ?m1) = (node', len2, fl3)" "free_chain fl3 (ys' @ node' # zs')"
    "apart ?m1 ys'" "set ys' \<subseteq> set ys" "\<And>y. y \<in> set ys' \<Longrightarrow> block_at y (blocks (?m1 y)) < node'"
    "covered ?m1 ys' \<union> {node'..<block_at node' (unat len2)} = covered ?m1 ys \<union> {node..<block_at node (unat len1)}"
    "block_at node' (unat len2) = block_at node (unat len1)" "node' \<le> node" "node' = node \<or> node' \<in> set ys"
    using coalesce_prev_ok[OF N(2) ap1(1) ye1 by1] by blast
  let ?m2 = "?m1(node' := SetDataId (free_id len2) (?m1 node'))"
  have "covered m ys \<subseteq> {lo..<hi}" using assms(3) xs(1) by (force simp: covered_def)
  then have "{node'..<block_at node' (unat len2)} \<subseteq> {lo..<hi}" using V(6) in1 cv by blast
  moreover have "node < block_at node (unat len1)" using L N(7) by simp
  ultimately have "lo \<le> node'" "block_at node' (unat len2) \<le> hi"
    using V(7,8) by (auto simp: atLeastLessThan_subset_iff simp del: block_at_def)
  then have "12 * unat len2 \<le> hi - lo" by simp
  then have b2: "blocks (?m2 node') = unat len2" using assms(4) by (simp add: free_id_def)
  have d: "node' \<notin> set ys'" "node' \<notin> set zs'" using free_chainD[OF V(2)] by simp_all
  have same: "?m2 x = ?m1 x" if "x \<in> set ys' \<union> set zs'" for x using that d by auto
  have "apart ?m2 (ys' @ node' # zs')"
  proof -
    have "apart ?m2 ys'" "apart ?m2 zs'"
      using V(3) N(3) apart_cong[of ys' ?m2 ?m1] apart_cong[of zs' ?m2 ?m1] same by auto
    moreover have "block_at y (blocks (?m2 y)) < node'" if "y \<in> set ys'" for y using V(5)[OF that] same[of y] that by simp
    moreover have "block_at node' (blocks (?m2 node')) < z" if "z \<in> set zs'" for z
      using N(5)[OF that] V(7) b2 by (simp del: block_at_def)
    ultimately show ?thesis by (rule apart_middle)
  qed
  moreover have "covered ?m2 (ys' @ node' # zs') = covered m xs \<union> {node..<?e}"
  proof -
    have "covered ?m2 (ys' @ node' # zs') = covered ?m1 ys' \<union> {node'..<block_at node' (unat len2)} \<union> covered ?m1 zs'"
      using b2 same by (auto simp: covered_def extent_def simp del: fun_upd_apply)
    also have "\<dots> = covered ?m1 ys \<union> {node..<?e} \<union> covered ?m1 zs" using V(6) N(6) by auto
    finally show ?thesis using cv xs(1) by (auto simp: covered_def)
  qed
  moreover have "InsertInOrder node len (c, m) = Some (node', c\<lparr>m_freeList := fl3\<rparr>, ?m2)"
    using free_chain_ends(1)[OF assms(1)] place fl1(1) N(1) V(1) by (simp add: InsertInOrder_def Let_def)
  ultimately show ?thesis using V(2) by (intro exI conjI) (assumption | simp)+
qed

section \<open>Initialization salvages what survives a boot\<close>

lemma sound_payload_later:
  assumes "sound_payload m p e" and "sizeof_HeapBlock dvd q - p" "p \<le> q" and "\<And>a. q \<le> a \<Longrightarrow> m' a = m a"
  shows "sound_payload m' q e"
proof -
  have "sizeof_HeapBlock dvd a - p" if "q \<le> a" "sizeof_HeapBlock dvd a - q" for a
    using dvd_add[OF that(2) assms(2)] that(1) assms(3) by simp
  then show ?thesis using assms(1,3,4) by (simp add: sound_payload_def sound_at_def)
qed

text \<open>One turn of the scan: how many blocks it passes, the block size after it and the block it leaves.\<close>

lemma PrepareForRecovery_turn:
  assumes "p < e" and "12 dvd e - p" and "e - p \<le> 12 * 65535" and "0 < bsz" and "bsz \<le> HB_MaxSize"
    and "sound_at m e p"
  shows "\<exists>bsz' x. PrepareForRecovery p e bsz m = PrepareForRecovery (block_at p (blocks x)) e bsz' (m(p := x))
    \<and> 0 < blocks x \<and> block_at p (blocks x) \<le> e \<and> 0 < bsz' \<and> bsz' \<le> HB_MaxSize
    \<and> (IsAlive x \<longrightarrow> salvaged m e p \<and> blocks x = blocks (m p) \<and> DataType x = DataType (m p))
    \<and> (bsz = 1 \<longrightarrow> bsz' = 1 \<and> (\<not> IsAlive x \<longrightarrow> blocks x = 1 \<and> \<not> salvaged m e p))"
proof -
  note step = PrepareForRecovery.simps[of p e bsz m]
  consider "salvaged_weak (m p)" | "\<not> salvaged_weak (m p)" "salvaged_array p e (m p)"
    | "\<not> salvaged_weak (m p)" "\<not> salvaged_array p e (m p)" by blast
  then show ?thesis
  proof cases
    case 1
    then show ?thesis using step assms(1,4-6) salvaged_weak_blocks[OF 1]
      by (intro exI[of _ bsz] exI[of _ "keep_weak (m p)"]) (simp add: sound_at_def salvaged_def)
  next
    case 2
    then show ?thesis using step assms(1,4-6)
      by (intro exI[of _ bsz] exI[of _ "MarkAlive (m p)"]) (simp add: sound_at_def salvaged_def salvaged_array_def)
  next
    case 3
    define k where "k = (if e < block_at p (unat bsz) then of_nat ((e - p) div sizeof_HeapBlock) else bsz)"
    define x where "x = SetDataId (CLR_RT_HEAPBLOCK_RAW_ID (ucast DATATYPE_FREEBLOCK) 0 k) (m p)"
    have d: "12 * ((e - p) div 12) = e - p" "(e - p) div 12 \<le> 65535" "0 < (e - p) div 12" using assms(1-3) by auto
    then have "unat (of_nat ((e - p) div 12) :: u32) = (e - p) div 12" by (simp add: unsigned_of_nat take_bit_nat_eq_self)
    then have k: "0 < unat k" "unat k \<le> 65535" "block_at p (unat k) \<le> e"
      using d assms(1,4,5) by (auto simp: k_def word_less_nat_alt word_le_nat_alt HB_defs)
    have x: "blocks x = unat k" "\<not> IsAlive x" using k(2) by (simp_all add: x_def IsAlive_def IsFlagSet_def)
    have "k = 1" if "bsz = 1" using that d(1,3) by (auto simp: k_def)
    moreover have "PrepareForRecovery p e bsz m = PrepareForRecovery (block_at p (unat k)) e k (m(p := x))"
      using step 3 assms(1) by (simp add: k_def x_def Let_def)
    ultimately show ?thesis using 3 x k
      by (intro exI[of _ k] exI[of _ x]) (simp add: salvaged_def word_less_nat_alt word_le_nat_alt HB_defs)
  qed
qed

text \<open>
  What is alive after the scan was salvaged, and keeps its type and length. With blocks of size one the scan
  looks at every place that it has not passed with an object.
\<close>

definition scanned :: "memory \<Rightarrow> memory \<Rightarrow> nat \<Rightarrow> nat \<Rightarrow> u32 \<Rightarrow> nat set \<Rightarrow> bool" where
  "scanned m m' p e bsz lv \<longleftrightarrow>
     (\<forall>b\<in>lv. salvaged m e b \<and> blocks (m' b) = blocks (m b) \<and> DataType (m' b) = DataType (m b))
     \<and> (bsz = 1 \<longrightarrow> (\<forall>a. p \<le> a \<and> a < e \<and> sizeof_HeapBlock dvd a - p \<and> salvaged m e a \<longrightarrow> (\<exists>b\<in>lv. a \<in> extent m' b)))"

lemma scanned_cong:
  assumes "\<And>b. b \<in> lv \<Longrightarrow> blocks (m2 b) = blocks (m1 b)" "\<And>b. b \<in> lv \<Longrightarrow> DataType (m2 b) = DataType (m1 b)"
  shows "scanned m m2 p e bsz lv = scanned m m1 p e bsz lv"
proof -
  have "(\<exists>b\<in>lv. a \<in> extent m2 b) \<longleftrightarrow> (\<exists>b\<in>lv. a \<in> extent m1 b)" for a
    using assms by (auto simp: extent_def)
  then show ?thesis using assms by (simp add: scanned_def)
qed

lemma PrepareForRecovery_ok:
  assumes "p \<le> e" and "12 dvd e - p" and "e - p \<le> 12 * 65535" and "0 < bsz" and "bsz \<le> HB_MaxSize"
    and "sound_payload m p e"
  shows "\<exists>m' bs. PrepareForRecovery p e bsz m = Some (True, m') \<and> tiles m' p bs e
    \<and> scanned m m' p e bsz {b \<in> set bs. IsAlive (m' b)} \<and> (\<forall>a. a < p \<or> e \<le> a \<longrightarrow> m' a = m a)"
  using assms
proof (induction "e - p" arbitrary: p bsz m rule: less_induct)
  case less
  show ?case
  proof (cases "p < e")
    case False
    then show ?thesis using less.prems(1)
      by (subst PrepareForRecovery.simps) (auto simp: scanned_def intro: exI[of _ "[]"])
  next
    case True
    have "sound_at m e p" using less.prems(6) True by (simp add: sound_payload_def)
    then obtain bsz' x where T: "PrepareForRecovery p e bsz m = PrepareForRecovery (block_at p (blocks x)) e bsz' (m(p := x))"
      "0 < blocks x" "block_at p (blocks x) \<le> e" "0 < bsz'" "bsz' \<le> HB_MaxSize"
      "IsAlive x \<longrightarrow> salvaged m e p \<and> blocks x = blocks (m p) \<and> DataType x = DataType (m p)"
      "bsz = 1 \<longrightarrow> bsz' = 1 \<and> (\<not> IsAlive x \<longrightarrow> blocks x = 1 \<and> \<not> salvaged m e p)"
      using PrepareForRecovery_turn[OF True less.prems(2-5)] by blast
    let ?q = "block_at p (blocks x)" and ?m = "m(p := x)"
    have "e - p = (e - ?q) + 12 * blocks x" using T(3) by simp
    then have dq: "12 dvd e - ?q" using less.prems(2) by (metis dvd_add_times_triv_right_iff mult.commute)
    have sm: "e - ?q < e - p" "e - ?q \<le> 12 * 65535" using T(2,3) less.prems(3) by simp_all
    have "sound_payload ?m ?q e" by (rule sound_payload_later[OF less.prems(6)]) (use T(2) in auto)
    from less.hyps[OF sm(1) T(3) dq sm(2) T(4,5) this]
    obtain m' bs where IH: "PrepareForRecovery ?q e bsz' ?m = Some (True, m')" "tiles m' ?q bs e"
      "scanned ?m m' ?q e bsz' {b \<in> set bs. IsAlive (m' b)}" "\<forall>a. a < ?q \<or> e \<le> a \<longrightarrow> m' a = ?m a"
      by blast
    have mp: "m' p = x" using IH(4) T(2) by simp
    have later: "?m b = m b" "salvaged ?m e b = salvaged m e b" if "?q \<le> b" for b
      using that T(2) by (auto simp: salvaged_def)
    have "scanned m m' p e bsz {b \<in> set (p # bs). IsAlive (m' b)}"
      unfolding scanned_def
    proof (intro conjI ballI impI allI; (elim conjE)?)
      fix b assume b: "b \<in> {b \<in> set (p # bs). IsAlive (m' b)}"
      show "salvaged m e b" "blocks (m' b) = blocks (m b)" "DataType (m' b) = DataType (m b)"
        using b T(6) mp IH(3) later[of b] tiles_range[OF IH(2), of b]
        by (auto simp: scanned_def simp del: block_at_def)
    next
      fix a assume a: "bsz = 1" "p \<le> a" "a < e" "sizeof_HeapBlock dvd a - p" "salvaged m e a"
      show "\<exists>b\<in>{b \<in> set (p # bs). IsAlive (m' b)}. a \<in> extent m' b"
      proof (cases "?q \<le> a")
        case True
        have "sizeof_HeapBlock dvd (a - p) - (?q - p)" by (rule dvd_diff_nat) (use a(4) in simp_all)
        then have "sizeof_HeapBlock dvd a - ?q" using True by simp
        then have "\<exists>b\<in>{b \<in> set bs. IsAlive (m' b)}. a \<in> extent m' b"
          using IH(3) a T(7) later(2)[OF True] True unfolding scanned_def by blast
        then show ?thesis by auto
      next
        case False
        have "IsAlive x"
        proof (rule ccontr)
          assume n: "\<not> IsAlive x"
          then have "a \<noteq> p" "a - p < 12" using a T(7) False by auto
          then show False using a(2,4) by (auto dest: dvd_imp_le)
        qed
        then show ?thesis using False a(2) mp by (auto simp: extent_def)
      qed
    qed
    moreover have "tiles m' p (p # bs) e" using IH(2) mp T(2) by (simp del: block_at_def)
    moreover have "PrepareForRecovery p e bsz m = Some (True, m')" using T(1) IH(1) by simp
    moreover have "m' a = m a" if "a < p \<or> e \<le> a" for a using IH(4) that T(3) True by auto
    ultimately show ?thesis by (intro exI[of _ m'] exI[of _ "p # bs"]) blast
  qed
qed

lemma HeapCluster_Initialize_ok:
  fixes this :: nat and sz :: u32
  defines "s \<equiv> this + sizeof_HeapCluster" and "e \<equiv> block_at (this + sizeof_HeapCluster) ((unat sz - sizeof_HeapCluster) div 12)"
  assumes "32 < sz" "sz \<le> c_HeapClusterSize" and "0 < bsz" "bsz \<le> HB_MaxSize" and "sound_payload m s e"
  shows "\<exists>c m' bs xs. HeapCluster_Initialize this sz bsz m = Some (c, m') \<and> cluster_ok m' c bs xs
    \<and> m_payloadStart c = s \<and> m_payloadEnd c = e \<and> scanned m m' s e bsz (set bs - set xs)
    \<and> (\<forall>a. a < s \<or> e \<le> a \<longrightarrow> m' a = m a)"
proof -
  define n where "n = (sz - of_nat sizeof_HeapCluster) div of_nat sizeof_HeapBlock"
  define c0 where "c0 = \<lparr>m_payloadStart = s, m_payloadEnd = e, m_freeList = List_Initialize \<lparr>m_first = None,
    m_null = None, m_last = None, m_nextNode = (\<lambda>_. None), m_prevNode = (\<lambda>_. None)\<rparr>\<rparr>"
  have "unat (sz - 32) = unat sz - 32" using assms(3) by (simp add: unat_sub word_le_nat_alt word_less_nat_alt)
  then have "unat n = (unat sz - 32) div 12" by (simp add: n_def unat_div)
  then have en: "e = block_at s (unat n)" by (simp add: e_def s_def)
  have "unat sz \<le> 12 * 65535" using assms(4) by (simp add: word_le_nat_alt c_HeapClusterSize_def HB_defs)
  then have e: "s \<le> e" "12 dvd e - s" "e - s \<le> 12 * 65535" by (simp_all add: e_def s_def)
  obtain m2 bs0 where C: "PrepareForRecovery s e bsz m = Some (True, m2)" "tiles m2 s bs0 e"
    "scanned m m2 s e bsz {b \<in> set bs0. IsAlive (m2 b)}" "\<And>a. a < s \<or> e \<le> a \<Longrightarrow> m2 a = m a"
    using PrepareForRecovery_ok[OF e assms(5-7)] by blast
  obtain c' m' bs xs where G: "RecoverFromGC (c0, m2) = Some (c', m')" "cluster_ok m' c' bs xs"
    "m_payloadStart c' = s" "m_payloadEnd c' = e" "recovered m2 bs0 m' bs xs"
    using RecoverFromGC_ok[of m2 c0 bs0] C(2) e(3) by (auto simp: c0_def)
  have lv: "set bs - set xs = {b \<in> set bs0. IsAlive (m2 b)}" using G(5) by (auto simp: recovered_def)
  have same: "blocks (m' b) = blocks (m2 b)" "DataType (m' b) = DataType (m2 b)" if "b \<in> set bs - set xs" for b
    using that G(5) unfolding lv by (simp_all add: recovered_def)
  have "HeapCluster_Initialize this sz bsz m = Some (c', m')"
    using C(1) G(1) unfolding HeapCluster_Initialize_def Let_def n_def[symmetric] s_def[symmetric]
      en[symmetric] c0_def[symmetric] by simp
  moreover have "scanned m m' s e bsz (set bs - set xs)"
    using C(3) scanned_cong[of "set bs - set xs" m' m2] same unfolding lv[symmetric] by blast
  moreover have "m' a = m a" if "a < s \<or> e \<le> a" for a
  proof -
    have "a \<notin> set bs" using tiles_range[OF cluster_okD(1)[OF G(2)], of a] G(3,4) that by auto
    then have "m' a = m2 a" using G(5) by (simp add: recovered_def)
    then show ?thesis using C(4)[OF that] by simp
  qed
  ultimately show ?thesis using G(2-4) by blast
qed

end
