(* ===== verification/Heap_Allocation.thy ===== *)
theory Heap_Allocation
  imports Heap_Recovery
begin

text \<open>
  \<^verbatim>\<open>CLR_RT_ExecutionEngine::AllocateHeaps\<close> and \<^verbatim>\<open>ExtractHeapBlocks\<close> of \<^verbatim>\<open>CLR/Core/Execution.cpp\<close>: the heap as
  the list of its clusters, in the order of \<open>m_heap\<close>. The garbage collection that an allocation may start is a parameter.

  \<open>heap_ok h BS\<close> is the invariant, where \<open>BS\<close> has the blocks and the free blocks of every cluster, and \<open>live BS\<close>
  the blocks in use.
\<close>

section \<open>The clusters of a region\<close>

lemma cluster_ok_cong:
  assumes "cluster_ok m c bs xs" and "\<And>a. m_payloadStart c \<le> a \<Longrightarrow> a < m_payloadEnd c \<Longrightarrow> m' a = m a"
  shows "cluster_ok m' c bs xs"
proof -
  note D = cluster_okD[OF assms(1)]
  have eq: "m' b = m b" if "b \<in> set bs" for b
    using tiles_range[OF D(1) that] assms(2) by simp
  then have "tiles m' (m_payloadStart c) bs (m_payloadEnd c)" using D(1) tiles_cong[of bs m' m] by simp
  then show ?thesis using D(2-6) eq by (auto simp: cluster_ok_def payload_ok_def)
qed

lemma extent_payload:
  assumes "cluster_ok m c bs xs" and "a \<in> set bs"
  shows "extent m a \<subseteq> {m_payloadStart c..<m_payloadEnd c}" "a \<in> extent m a"
  using tiles_range[OF cluster_okD(1)[OF assms(1)] assms(2)] by (auto simp: extent_def)

text \<open>
  The clusters of a region: in order, apart from each other, each well-formed; \<open>BS\<close> has the blocks and the free blocks of
  each.
\<close>

definition clusters_ok :: "memory \<Rightarrow> nat \<Rightarrow> nat \<Rightarrow> cluster list \<Rightarrow> (nat list \<times> nat list) list \<Rightarrow> bool" where
  "clusters_ok m lo hi cs BS \<longleftrightarrow>
     list_all2 (\<lambda>c (bs, xs). cluster_ok m c bs xs) cs BS
     \<and> (\<forall>c\<in>set cs. lo + sizeof_HeapCluster \<le> m_payloadStart c \<and> m_payloadEnd c \<le> hi)
     \<and> sorted_wrt (\<lambda>c d. m_payloadEnd c + sizeof_HeapCluster \<le> m_payloadStart d) cs"

text \<open>Where the payloads of the clusters of a region lie: a header in front of each, as many whole blocks as fit.\<close>

fun payload_ranges :: "nat \<Rightarrow> nat \<Rightarrow> (nat \<times> nat) list" where
  "payload_ranges first n =
     (if sizeof_HeapCluster < n then
        (let sz = min n (sizeof_HeapBlock * 65535); s = first + sizeof_HeapCluster
         in (s, block_at s ((sz - sizeof_HeapCluster) div sizeof_HeapBlock)) # payload_ranges (first + sz) (n - sz))
      else [])"

declare payload_ranges.simps [simp del]

definition payload :: "cluster \<Rightarrow> nat \<times> nat" where "payload c = (m_payloadStart c, m_payloadEnd c)"

lemma payload_ranges_bounds:
  "(s, e) \<in> set (payload_ranges first n) \<Longrightarrow> first + sizeof_HeapCluster \<le> s \<and> s \<le> e \<and> e \<le> first + n"
proof (induction first n rule: payload_ranges.induct)
  case (1 first n)
  show ?case
  proof (cases "sizeof_HeapCluster < n")
    case False
    then show ?thesis using "1.prems" by (simp add: payload_ranges.simps)
  next
    case True
    let ?sz = "min n (sizeof_HeapBlock * 65535)"
    have sz: "32 \<le> ?sz" "?sz \<le> n" using True by auto
    consider "s = first + 32" "e = first + 32 + 12 * ((?sz - 32) div 12)" | "(s, e) \<in> set (payload_ranges (first + ?sz) (n - ?sz))"
      using "1.prems" True by (subst (asm) payload_ranges.simps) (auto simp: Let_def)
    then show ?thesis
    proof cases
      case 1
      moreover have "12 * ((?sz - 32) div 12) \<le> ?sz - 32" by (rule times_div_less_eq_dividend)
      ultimately show ?thesis using sz unfolding sizeof_HeapCluster_def by linarith
    next
      case 2
      then show ?thesis using "1.IH"[OF True refl refl 2] sz unfolding sizeof_HeapCluster_def by linarith
    qed
  qed
qed

lemma next_block_size_ok: "0 < b \<Longrightarrow> b \<le> HB_MaxSize \<Longrightarrow> 0 < next_block_size i b \<and> next_block_size i b \<le> HB_MaxSize"
  by (auto simp: next_block_size_def HB_defs word_less_nat_alt word_le_nat_alt)

lemma next_block_size_small:
  assumes "unat i \<le> 1024 * 1024"
  shows "next_block_size i 1 = 1"
proof -
  have "uint i = int (unat i)" by (rule uint_nat)
  then have u: "0 \<le> uint i" "uint i \<le> 1048576" using assms by linarith+
  have "- (2 ^ 31) \<le> uint i" "uint i < 2 ^ 31" by (rule order_trans[OF _ u(1)], simp, rule le_less_trans[OF u(2)], simp)
  then have "signed_take_bit 31 (uint i) = uint i" by (rule signed_take_bit_int_eq_self)
  then have "sint i = uint i" by (simp add: sint_uint)
  then show ?thesis using u by (simp add: next_block_size_def word_sless_alt)
qed

lemma scanned_from:
  assumes "\<And>a. p \<le> a \<Longrightarrow> a < e \<Longrightarrow> m1 a = m a" and "lv \<subseteq> {p..<e}" and "scanned m1 m' p e bsz lv"
    and "b = 1 \<Longrightarrow> bsz = 1"
  shows "scanned m m' p e b lv"
proof -
  have same: "m1 a = m a" "salvaged m1 e a = salvaged m e a" if "p \<le> a" "a < e" for a
    using assms(1)[OF that] by (simp_all add: salvaged_def)
  have in_lv: "p \<le> a" "a < e" if "a \<in> lv" for a using subsetD[OF assms(2) that] by simp_all
  show ?thesis unfolding scanned_def
  proof (intro conjI ballI impI allI)
    fix a assume "a \<in> lv"
    then show "salvaged m e a" "blocks (m' a) = blocks (m a)" "DataType (m' a) = DataType (m a)"
      using assms(3) same[OF in_lv[of a]] by (auto simp: scanned_def)
  next
    fix a assume "b = 1" and "p \<le> a \<and> a < e \<and> sizeof_HeapBlock dvd a - p \<and> salvaged m e a"
    then show "\<exists>b\<in>lv. a \<in> extent m' b"
      using assms(3) assms(4)[OF \<open>b = 1\<close>] same(2)[of a] unfolding scanned_def by blast
  qed
qed

declare allocate_clusters.simps [simp del]

text \<open>In a heap of at most a megabyte the scan for objects that survive looks at every place.\<close>

definition scan_step :: "u32 \<Rightarrow> u32 \<Rightarrow> u32 \<Rightarrow> u32" where
  "scan_step i free bsz = (if bsz = 1 \<and> unat i + unat free \<le> 1024 * 1024 then 1 else 0)"

lemma allocate_clusters_ok:
  assumes "0 < bsz" "bsz \<le> HB_MaxSize" and "\<forall>(s, e)\<in>set (payload_ranges first (unat free)). sound_payload m s e"
  shows "\<exists>cs m' BS. allocate_clusters first free i bsz m = Some (cs, m')
    \<and> clusters_ok m' first (first + unat free) cs BS \<and> map payload cs = payload_ranges first (unat free)
    \<and> list_all2 (\<lambda>c (bs, xs). scanned m m' (m_payloadStart c) (m_payloadEnd c) (scan_step i free bsz) (set bs - set xs)) cs BS
    \<and> (\<forall>a. a < first + sizeof_HeapCluster \<or> first + unat free \<le> a \<longrightarrow> m' a = m a)"
  using assms
proof (induction first free i bsz m rule: allocate_clusters.induct)
  case (1 first free i bsz m)
  show ?case
  proof (cases "of_nat sizeof_HeapCluster < free")
    case False
    then show ?thesis
      by (subst allocate_clusters.simps) (simp add: clusters_ok_def payload_ranges.simps word_less_nat_alt)
  next
    case True
    define sz where "sz = (if free < c_HeapClusterSize then free else c_HeapClusterSize)"
    let ?s = "first + sizeof_HeapCluster" and ?e = "block_at (first + sizeof_HeapCluster) ((unat sz - sizeof_HeapCluster) div 12)"
      and ?bsz = "next_block_size i bsz" and ?b = "scan_step i free bsz"
    have C: "unat c_HeapClusterSize = 786420" by (simp add: c_HeapClusterSize_def HB_defs)
    have sz: "32 < sz" "sz \<le> c_HeapClusterSize" "sz \<le> free" "32 \<le> unat sz" "unat sz = min (unat free) (sizeof_HeapBlock * 65535)"
      using True C by (auto simp: sz_def word_less_nat_alt word_le_nat_alt)
    have fr: "unat (free - sz) = unat free - unat sz" "unat sz \<le> unat free"
      using sz(3) by (simp_all add: unat_sub word_le_nat_alt)
    have R: "payload_ranges first (unat free) = (?s, ?e) # payload_ranges (first + unat sz) (unat (free - sz))"
      using True unfolding fr(1) sz(5) by (subst payload_ranges.simps) (simp add: word_less_nat_alt Let_def)
    note nb = next_block_size_ok[OF "1.prems"(1,2), of i]
    have sp: "sound_payload m ?s ?e" using "1.prems"(3) unfolding R by simp
    obtain c m1 bs xs where H: "HeapCluster_Initialize first sz ?bsz m = Some (c, m1)"
      "cluster_ok m1 c bs xs" "m_payloadStart c = ?s" "m_payloadEnd c = ?e" "scanned m m1 ?s ?e ?bsz (set bs - set xs)"
      "\<forall>a. a < ?s \<or> ?e \<le> a \<longrightarrow> m1 a = m a"
      using HeapCluster_Initialize_ok[OF sz(1,2) _ _ sp] nb by blast
    have e: "?e \<le> first + unat sz" using sz(4) by simp
    have "\<forall>(s, e)\<in>set (payload_ranges (first + unat sz) (unat (free - sz))). sound_payload m1 s e"
    proof (clarify)
      fix s e' assume se: "(s, e') \<in> set (payload_ranges (first + unat sz) (unat (free - sz)))"
      show "sound_payload m1 s e'"
        by (rule sound_payload_later[of m s])
          (use se "1.prems"(3) payload_ranges_bounds[OF se] e H(6) in \<open>auto simp: R simp del: block_at_def\<close>)
    qed
    from "1.IH"[OF True sz_def refl H(1) refl conjunct1[OF nb] conjunct2[OF nb] this]
    obtain cs m' BS where I: "allocate_clusters (first + unat sz) (free - sz) (i + sz) ?bsz m1 = Some (cs, m')"
      "clusters_ok m' (first + unat sz) (first + unat free) cs BS"
      "map payload cs = payload_ranges (first + unat sz) (unat (free - sz))"
      "list_all2 (\<lambda>c (bs, xs). scanned m1 m' (m_payloadStart c) (m_payloadEnd c) (scan_step (i + sz) (free - sz) ?bsz) (set bs - set xs)) cs BS"
      "\<forall>a. a < first + unat sz + sizeof_HeapCluster \<or> first + unat free \<le> a \<longrightarrow> m' a = m1 a"
      using fr by (simp only: add.assoc le_add_diff_inverse) blast
    have keep: "m' a = m1 a" if "a < ?e" for a using I(5) that e by (meson less_le_trans trans_le_add1)
    have ok: "cluster_ok m' c bs xs" by (rule cluster_ok_cong[OF H(2)]) (use keep H(4) in simp)
    have lv: "set bs - set xs \<subseteq> {?s..<?e}" using extent_payload[OF ok] H(3,4) by auto
    have one: "?bsz = 1 \<and> scan_step (i + sz) (free - sz) ?bsz = 1" if "?b = 1"
    proof -
      have b: "bsz = 1" "unat i + unat free \<le> 1024 * 1024" using that by (auto simp: scan_step_def split: if_splits)
      then have "unat (i + sz) = unat i + unat sz" using fr(2) by (subst unat_add_lem[THEN iffD1]) simp_all
      then show ?thesis using b fr next_block_size_small[of i] by (simp add: scan_step_def)
    qed
    have sc: "scanned m m' ?s ?e ?b (set bs - set xs)"
    proof (rule scanned_from[OF _ lv])
      show "scanned m m' ?s ?e ?bsz (set bs - set xs)"
        using H(5) scanned_cong[of "set bs - set xs" m' m1] keep lv by (metis atLeastLessThan_iff subsetD)
    qed (use one in auto)
    have sc2: "list_all2 (\<lambda>c (bs, xs). scanned m m' (m_payloadStart c) (m_payloadEnd c) ?b (set bs - set xs)) cs BS"
    proof (rule list_all2I, clarify)
      show "length cs = length BS" using I(4) by (rule list_all2_lengthD)
      fix d ds ys assume z: "(d, ds, ys) \<in> set (zip cs BS)"
      have d: "scanned m1 m' (m_payloadStart d) (m_payloadEnd d) (scan_step (i + sz) (free - sz) ?bsz) (set ds - set ys)"
        "cluster_ok m' d ds ys" "first + unat sz + sizeof_HeapCluster \<le> m_payloadStart d"
        using I(2,4) z by (auto simp: list_all2_iff clusters_ok_def dest: set_zip_leftD)
      show "scanned m m' (m_payloadStart d) (m_payloadEnd d) ?b (set ds - set ys)"
        by (rule scanned_from[OF _ _ d(1)]) (use d(3) e H(6) one extent_payload[OF d(2)] in \<open>auto simp del: block_at_def\<close>)
    qed
    have "allocate_clusters first free i bsz m = Some (c # cs, m')"
      using True H(1) I(1) by (subst allocate_clusters.simps) (simp add: sz_def Let_def)
    moreover have "clusters_ok m' first (first + unat free) (c # cs) ((bs, xs) # BS)"
      using I(2) ok H(3,4) e fr(2) by (force simp: clusters_ok_def simp del: block_at_def)
    moreover have "map payload (c # cs) = payload_ranges first (unat free)" using I(3) H(3,4) by (simp add: R payload_def)
    moreover have "list_all2 (\<lambda>c (bs, xs). scanned m m' (m_payloadStart c) (m_payloadEnd c) ?b (set bs - set xs))
        (c # cs) ((bs, xs) # BS)" using sc sc2 H(3,4) by simp
    moreover have "m' a = m a" if "a < ?s \<or> first + unat free \<le> a" for a
      using I(5) H(6) e fr(2) that by (auto simp del: block_at_def)
    ultimately show ?thesis by (intro exI[of _ "c # cs"] exI[of _ m'] exI[of _ "(bs, xs) # BS"]) blast
  qed
qed

section \<open>Allocation in the clusters\<close>

record managed_heap =
  clusters :: "cluster list"
  heap_memory :: memory
  m_lastHcUsed :: "nat option"
  m_underGC :: bool
  m_freeBytes :: u32
  Compaction_Pending :: bool

definition extract_in :: "u32 \<Rightarrow> u32 \<Rightarrow> u32 \<Rightarrow> nat \<Rightarrow> managed_heap \<Rightarrow> (nat option \<times> managed_heap) option" where
  "extract_in dataType flags len i h =
     map_option (\<lambda>(hb, c, m). (hb, h\<lparr>clusters := (clusters h)[i := c], heap_memory := m\<rparr>))
       (ExtractBlocks dataType flags len (clusters h ! i, heap_memory h))"

fun try_clusters :: "u32 \<Rightarrow> u32 \<Rightarrow> u32 \<Rightarrow> nat list \<Rightarrow> managed_heap \<Rightarrow> ((nat \<times> nat) option \<times> managed_heap) option" where
  "try_clusters dataType flags len [] h = Some (None, h)"
| "try_clusters dataType flags len (i # js) h =
     (case extract_in dataType flags len i h of None \<Rightarrow> None
      | Some (Some hb, h1) \<Rightarrow> Some (Some (i, hb), h1)
      | Some (None, h1) \<Rightarrow> try_clusters dataType flags len js h1)"

text \<open>One turn of the loop over the phases.\<close>

definition heap_phase :: "u32 \<Rightarrow> u32 \<Rightarrow> u32 \<Rightarrow> managed_heap \<Rightarrow> (nat option \<times> managed_heap) option" where
  "heap_phase dataType flags len h =
     (let all = [0..<length (clusters h)]
      in if flags AND HB_Event \<noteq> 0 then
           (case try_clusters dataType flags len (rev all) h of None \<Rightarrow> None
            | Some (Some (i, hb), h1) \<Rightarrow> Some (Some hb, h1)
            | Some (None, h1) \<Rightarrow> Some (None, h1\<lparr>m_lastHcUsed := None\<rparr>))
         else
           (case try_clusters dataType flags len (case m_lastHcUsed h of None \<Rightarrow> [] | Some i \<Rightarrow> [i]) h of None \<Rightarrow> None
            | Some (Some (i, hb), h1) \<Rightarrow> Some (Some hb, h1)
            | Some (None, h1) \<Rightarrow>
                (case try_clusters dataType flags len all h1 of None \<Rightarrow> None
                 | Some (Some (i, hb), h2) \<Rightarrow> Some (Some hb, h2\<lparr>m_lastHcUsed := Some i\<rparr>)
                 | Some (None, h2) \<Rightarrow> Some (None, h2\<lparr>m_lastHcUsed := None\<rparr>))))"

definition ExtractHeapBlocks ::
    "(managed_heap \<Rightarrow> managed_heap option) \<Rightarrow> u32 \<Rightarrow> u32 \<Rightarrow> u32 \<Rightarrow> managed_heap \<Rightarrow> (nat option \<times> managed_heap) option" where
  "ExtractHeapBlocks PerformGarbageCollection dataType flags len h =
     (if m_underGC h \<and> flags AND HB_SpecialGCAllocation = 0 then Some (None, h)
      else case heap_phase dataType flags len h of None \<Rightarrow> None
        | Some (Some hb, h1) \<Rightarrow> Some (Some hb, h1)
        | Some (None, h1) \<Rightarrow>
            if flags AND HB_NoGcOnFailedAllocation \<noteq> 0 then Some (None, h1)
            else case PerformGarbageCollection h1 of None \<Rightarrow> None
              | Some h2 \<Rightarrow> (case heap_phase dataType flags len h2 of None \<Rightarrow> None
                 | Some (Some hb, h3) \<Rightarrow> Some (Some hb, h3)
                 | Some (None, h3) \<Rightarrow>
                     Some (None, if len * of_nat sizeof_HeapBlock \<le> m_freeBytes h3
                                 then h3\<lparr>Compaction_Pending := True\<rparr> else h3)))"

section \<open>The heap as a whole\<close>

definition heap_ok :: "managed_heap \<Rightarrow> (nat list \<times> nat list) list \<Rightarrow> bool" where
  "heap_ok h BS \<longleftrightarrow> list_all2 (\<lambda>c (bs, xs). cluster_ok (heap_memory h) c bs xs) (clusters h) BS
     \<and> sorted_wrt (\<lambda>c d. m_payloadEnd c \<le> m_payloadStart d) (clusters h)
     \<and> (case m_lastHcUsed h of None \<Rightarrow> True | Some i \<Rightarrow> i < length (clusters h))"

definition live :: "(nat list \<times> nat list) list \<Rightarrow> nat set" where
  "live BS = (\<Union>(bs, xs)\<in>set BS. set bs - set xs)"

definition free_blocks :: "(nat list \<times> nat list) list \<Rightarrow> nat set" where
  "free_blocks BS = (\<Union>(bs, xs)\<in>set BS. set xs)"

text \<open>A client gets a block with the members it asked for, apart from all blocks in use, and these keep what they hold.\<close>

definition gets_block ::
    "u32 \<Rightarrow> u32 \<Rightarrow> u32 \<Rightarrow> nat \<Rightarrow> managed_heap \<times> (nat list \<times> nat list) list \<Rightarrow> managed_heap \<times> (nat list \<times> nat list) list \<Rightarrow> bool" where
  "gets_block dataType flags len hb s s' \<longleftrightarrow>
     (let (h, BS) = s; (h', BS') = s'; m = heap_memory h; m' = heap_memory h'
      in heap_ok h' BS' \<and> live BS' = insert hb (live BS)
       \<and> blocks (m' hb) = unat len \<and> DataType (m' hb) = ucast dataType \<and> DataFlags (m' hb) = ucast flags
       \<and> (\<forall>b\<in>live BS. extent m' hb \<inter> extent m b = {} \<and> (\<forall>a\<in>extent m b. m' a = m a)))"

lemma live_nth: "live BS = (\<Union>j<length BS. set (fst (BS ! j)) - set (snd (BS ! j)))"
  unfolding live_def case_prod_unfold set_conv_nth by blast

lemma free_blocks_nth: "free_blocks BS = (\<Union>j<length BS. set (snd (BS ! j)))"
  unfolding free_blocks_def case_prod_unfold set_conv_nth by blast

lemma heap_ok_nth:
  assumes "heap_ok h BS"
  shows "length BS = length (clusters h)"
    "\<And>i. i < length (clusters h) \<Longrightarrow> cluster_ok (heap_memory h) (clusters h ! i) (fst (BS ! i)) (snd (BS ! i))"
  using assms by (auto simp: heap_ok_def list_all2_conv_all_nth case_prod_unfold)

text \<open>Blocks of two clusters, and two blocks of a cluster, do not overlap.\<close>

lemma payloads_apart:
  assumes "heap_ok h BS" and "i < length (clusters h)" "j < length (clusters h)" "i \<noteq> j"
  shows "{m_payloadStart (clusters h ! i)..<m_payloadEnd (clusters h ! i)}
    \<inter> {m_payloadStart (clusters h ! j)..<m_payloadEnd (clusters h ! j)} = {}"
proof -
  have "m_payloadEnd (clusters h ! i) \<le> m_payloadStart (clusters h ! j) \<or> m_payloadEnd (clusters h ! j) \<le> m_payloadStart (clusters h ! i)"
    using assms sorted_wrt_nth_less[of "\<lambda>c d. m_payloadEnd c \<le> m_payloadStart d" "clusters h"]
    by (metis heap_ok_def nat_neq_iff)
  then show ?thesis by auto
qed

lemma extents_apart:
  assumes "cluster_ok m c bs xs" and "a \<in> set bs" "b \<in> set bs" "a \<noteq> b"
  shows "extent m a \<inter> extent m b = {}"
  using tiles_disjoint[OF cluster_okD(1)[OF assms(1)] assms(2,3)] tiles_disjoint[OF cluster_okD(1)[OF assms(1)] assms(3,2)] assms(4)
  by (auto simp: extent_def dest: nat_neq_iff[THEN iffD1])

lemma heap_extents_apart:
  assumes "heap_ok h BS" and "i < length (clusters h)" "j < length (clusters h)"
    and "a \<in> set (fst (BS ! i))" "b \<in> set (fst (BS ! j))" "a \<noteq> b"
  shows "extent (heap_memory h) a \<inter> extent (heap_memory h) b = {}"
proof (cases "i = j")
  case True
  then show ?thesis using extents_apart[OF heap_ok_nth(2)[OF assms(1,2)]] assms(4-6) by simp
next
  case False
  then show ?thesis
    using payloads_apart[OF assms(1-3)] extent_payload(1)[OF heap_ok_nth(2)[OF assms(1,2)] assms(4)]
      extent_payload(1)[OF heap_ok_nth(2)[OF assms(1,3)] assms(5)] by blast
qed

lemma UN_update:
  fixes i n :: nat
  assumes "i < n" and "f' i = insert x (f i)" and "\<And>j. j < n \<Longrightarrow> j \<noteq> i \<Longrightarrow> f' j = f j"
  shows "(\<Union>j<n. f' j) = insert x (\<Union>j<n. f j)"
proof -
  have "{..<n} = insert i ({..<n} - {i})" using assms(1) by auto
  moreover have "(\<Union>j\<in>{..<n} - {i}. f' j) = (\<Union>j\<in>{..<n} - {i}. f j)" using assms(3) by (intro SUP_cong) auto
  ultimately show ?thesis using assms(2) by (metis UN_insert Un_insert_left)
qed

lemma extract_in_ok:
  assumes "heap_ok h BS" and "i < length (clusters h)" and "0 < len" "len \<le> HB_MaxSize"
  shows "if \<exists>x\<in>set (snd (BS ! i)). unat len \<le> blocks (heap_memory h x)
    then \<exists>hb h' BS'. extract_in t f len i h = Some (Some hb, h') \<and> gets_block t f len hb (h, BS) (h', BS')
      \<and> length (clusters h') = length (clusters h)
    else extract_in t f len i h = Some (None, h)"
proof -
  let ?m = "heap_memory h" and ?c = "clusters h ! i" and ?bs = "fst (BS ! i)" and ?xs = "snd (BS ! i)"
  note N = heap_ok_nth[OF assms(1)]
  note C = N(2)[OF assms(2)]
  note E = ExtractBlocks_ok[OF C assms(3,4), of t f]
  show ?thesis
  proof (cases "\<exists>x\<in>set ?xs. unat len \<le> blocks (?m x)")
    case False
    then show ?thesis using E assms(2) by (simp add: extract_in_def)
  next
    case True
    then obtain hb c' m' bs' xs' where X: "ExtractBlocks t f len (?c, ?m) = Some (Some hb, c', m')"
      "cluster_ok m' c' bs' xs'" "m_payloadStart c' = m_payloadStart ?c" "m_payloadEnd c' = m_payloadEnd ?c"
      "allocated t f len hb (?m, ?bs, ?xs) (m', bs', xs')" using E by auto
    let ?h = "h\<lparr>clusters := (clusters h)[i := c'], heap_memory := m'\<rparr>" and ?BS = "BS[i := (bs', xs')]"
    obtain x where x: "x \<in> set ?xs" "extent m' hb \<subseteq> extent ?m x" "\<forall>a. a \<notin> extent ?m x \<longrightarrow> m' a = ?m a"
      using X(5) by (auto simp: allocated_def)
    have xb: "x \<in> set ?bs" using x(1) cluster_okD(2)[OF C] by blast
    note xp = extent_payload(1)[OF C xb]
    have other: "cluster_ok m' (clusters h ! j) (fst (BS ! j)) (snd (BS ! j))" if "j < length (clusters h)" "j \<noteq> i" for j
      by (rule cluster_ok_cong[OF N(2)[OF that(1)]]) (use x(3) xp payloads_apart[OF assms(1,2) that(1)] that(2) in auto)
    have "list_all2 (\<lambda>c (bs, xs). cluster_ok m' c bs xs) ((clusters h)[i := c']) ?BS"
      using other X(2) N(1) assms(2) by (auto simp: list_all2_conv_all_nth nth_list_update case_prod_unfold)
    moreover have "sorted_wrt (\<lambda>c d. m_payloadEnd c \<le> m_payloadStart d) ((clusters h)[i := c'])"
      using assms(1,2) X(3,4) by (auto simp: heap_ok_def sorted_wrt_iff_nth_less nth_list_update)
    ultimately have ok: "heap_ok ?h ?BS" using assms(1) by (simp add: heap_ok_def split: option.splits)
    have "live ?BS = insert hb (live BS)"
      unfolding live_nth using X(5) assms(2) N(1)
      by (simp only: length_list_update) (rule UN_update[of i], auto simp: allocated_def)
    moreover have "extent m' hb \<inter> extent ?m b = {} \<and> (\<forall>a\<in>extent ?m b. m' a = ?m a)" if b: "b \<in> live BS" for b
    proof -
      obtain j where j: "j < length (clusters h)" "b \<in> set (fst (BS ! j))" "b \<notin> set (snd (BS ! j))"
        using b N(1) by (auto simp: live_nth)
      have "x \<noteq> b"
      proof
        assume "x = b"
        then show False
          using j x(1) xp extent_payload[OF N(2)[OF j(1)] j(2)] extent_payload(2)[OF C xb] payloads_apart[OF assms(1,2) j(1)]
          by (cases "i = j", simp, blast)
      qed
      then have "extent ?m x \<inter> extent ?m b = {}" using heap_extents_apart[OF assms(1,2) j(1) xb j(2)] by simp
      then show ?thesis using x(2,3) by blast
    qed
    ultimately have "gets_block t f len hb (h, BS) (?h, ?BS)"
      using ok X(5) by (simp add: gets_block_def allocated_def split: prod.splits)
    then show ?thesis using True X(1) by (auto simp: extract_in_def)
  qed
qed

text \<open>The search through clusters succeeds if one of them has a block that is large enough.\<close>

lemma try_clusters_ok:
  assumes "heap_ok h BS" and "\<forall>i\<in>set js. i < length (clusters h)" and "0 < len" "len \<le> HB_MaxSize"
  shows "if \<exists>i\<in>set js. \<exists>x\<in>set (snd (BS ! i)). unat len \<le> blocks (heap_memory h x)
    then \<exists>i hb h' BS'. try_clusters t f len js h = Some (Some (i, hb), h') \<and> gets_block t f len hb (h, BS) (h', BS')
      \<and> i < length (clusters h')
    else try_clusters t f len js h = Some (None, h)"
  using assms(2)
proof (induction js)
  case (Cons i js)
  show ?case
  proof (cases "\<exists>x\<in>set (snd (BS ! i)). unat len \<le> blocks (heap_memory h x)")
    case True
    then show ?thesis using extract_in_ok[OF assms(1) _ assms(3,4), of i t f] Cons.prems by auto
  next
    case False
    then have "extract_in t f len i h = Some (None, h)"
      using extract_in_ok[OF assms(1) _ assms(3,4), of i t f] Cons.prems by simp
    then show ?thesis using Cons False by (simp split: if_splits)
  qed
qed simp

definition has_room :: "u32 \<Rightarrow> managed_heap \<Rightarrow> (nat list \<times> nat list) list \<Rightarrow> bool" where
  "has_room len h BS \<longleftrightarrow> (\<exists>x\<in>free_blocks BS. unat len \<le> blocks (heap_memory h x))"

lemma gets_block_last:
  "gets_block t f len hb s (h', BS') \<Longrightarrow> (case l of None \<Rightarrow> True | Some i \<Rightarrow> i < length (clusters h')) \<Longrightarrow>
     gets_block t f len hb s (h'\<lparr>m_lastHcUsed := l\<rparr>, BS')"
  by (cases l) (auto simp: gets_block_def heap_ok_def Let_def split: prod.splits)

lemma heap_phase_ok:
  assumes "heap_ok h BS" and "0 < len" "len \<le> HB_MaxSize"
  shows "if has_room len h BS
    then \<exists>hb h' BS'. heap_phase t f len h = Some (Some hb, h') \<and> gets_block t f len hb (h, BS) (h', BS')
    else heap_phase t f len h = Some (None, h\<lparr>m_lastHcUsed := None\<rparr>)"
proof -
  let ?n = "length (clusters h)"
  have room: "has_room len h BS \<longleftrightarrow> (\<exists>i\<in>{0..<?n}. \<exists>x\<in>set (snd (BS ! i)). unat len \<le> blocks (heap_memory h x))"
    using heap_ok_nth(1)[OF assms(1)] by (auto simp: has_room_def free_blocks_nth)
  have last: "\<forall>i\<in>set (case m_lastHcUsed h of None \<Rightarrow> [] | Some i \<Rightarrow> [i]). i < ?n"
    using assms(1) by (auto simp: heap_ok_def split: option.splits)
  note A = try_clusters_ok[OF assms(1) _ assms(2,3), of "[0..<?n]" t f]
  note R = try_clusters_ok[OF assms(1) _ assms(2,3), of "rev [0..<?n]" t f]
  note L = try_clusters_ok[OF assms(1) last assms(2,3), of t f]
  show ?thesis
  proof (cases "f AND HB_Event \<noteq> 0")
    case ev: True
    show ?thesis
    proof (cases "has_room len h BS")
      case True
      then obtain i hb h' BS' where "try_clusters t f len (rev [0..<?n]) h = Some (Some (i, hb), h')"
        "gets_block t f len hb (h, BS) (h', BS')" using R room by auto
      then show ?thesis using True ev by (auto simp: heap_phase_def Let_def)
    next
      case False
      then have "try_clusters t f len (rev [0..<?n]) h = Some (None, h)" using R room by auto
      then show ?thesis using False ev by (simp add: heap_phase_def Let_def)
    qed
  next
    case ev: False
    show ?thesis
    proof (cases "\<exists>i\<in>set (case m_lastHcUsed h of None \<Rightarrow> [] | Some i \<Rightarrow> [i]). \<exists>x\<in>set (snd (BS ! i)). unat len \<le> blocks (heap_memory h x)")
      case True
      then have "has_room len h BS" using last room by auto
      then show ?thesis using True L ev by (auto simp: heap_phase_def Let_def)
    next
      case False
      then have l: "try_clusters t f len (case m_lastHcUsed h of None \<Rightarrow> [] | Some i \<Rightarrow> [i]) h = Some (None, h)" using L by simp
      show ?thesis
      proof (cases "has_room len h BS")
        case True
        then obtain i hb h' BS' where "try_clusters t f len [0..<?n] h = Some (Some (i, hb), h')"
          "gets_block t f len hb (h, BS) (h', BS')" "i < length (clusters h')" using A room by auto
        then show ?thesis using True l ev gets_block_last[of t f len hb _ h' BS' "Some i"]
          by (auto simp: heap_phase_def Let_def)
      next
        case False
        then have "try_clusters t f len [0..<?n] h = Some (None, h)" using A room by auto
        then show ?thesis using False l ev by (simp add: heap_phase_def Let_def)
      qed
    qed
  qed
qed


section \<open>The heap at the start, and after an allocation\<close>

definition new_heap :: "cluster list \<Rightarrow> memory \<Rightarrow> managed_heap" where
  "new_heap cs m = \<lparr>clusters = cs, heap_memory = m, m_lastHcUsed = None, m_underGC = False, m_freeBytes = 0,
     Compaction_Pending = False\<rparr>"

lemma clusters_ok_heap: "clusters_ok m lo hi cs BS \<Longrightarrow> heap_ok (new_heap cs m) BS"
  by (auto simp: clusters_ok_def heap_ok_def new_heap_def elim: sorted_wrt_mono_rel[rotated])

text \<open>
  C35. \<^verbatim>\<open>AllocateHeaps\<close> works on whatever the memory of the heap holds at a boot, provided that no place in a payload
  holds a weak reference that is to survive and reaches over the end of the payload, or an array whose size wraps around to no
  blocks (the scan of \<^verbatim>\<open>PrepareForRecovery\<close> has no test for these). It divides the memory into clusters, whose
  payloads lie where the sizes say, apart from each other and from the headers, and writes nowhere else; every cluster is
  well-formed, with its free blocks linked and none next to another. The blocks in use are objects that survive a boot:
  places at which the memory held a weak reference that is to survive or an array of bytes; they keep type and length. If the
  heap is no larger than a megabyte, every such place lies in a block in use.
\<close>

theorem AllocateHeaps_divides_the_memory:
  assumes "of_nat sizeof_HeapCluster < sz"
    and "\<forall>(s, e)\<in>set (payload_ranges location (unat sz)). sound_payload m s e"
  shows "\<exists>cs m' BS. AllocateHeaps location sz m = Some (Some (cs, m'))
    \<and> map payload cs = payload_ranges location (unat sz) \<and> cs \<noteq> []
    \<and> clusters_ok m' location (location + unat sz) cs BS \<and> heap_ok (new_heap cs m') BS
    \<and> (\<forall>b\<in>live BS. (\<exists>(s, e)\<in>set (payload_ranges location (unat sz)). s \<le> b \<and> b < e \<and> salvaged m e b)
         \<and> blocks (m' b) = blocks (m b) \<and> DataType (m' b) = DataType (m b))
    \<and> (unat sz \<le> 1024 * 1024 \<longrightarrow> (\<forall>(s, e)\<in>set (payload_ranges location (unat sz)). \<forall>a.
         s \<le> a \<and> a < e \<and> sizeof_HeapBlock dvd a - s \<and> salvaged m e a \<longrightarrow> (\<exists>b\<in>live BS. a \<in> extent m' b)))
    \<and> (\<forall>a. a < location \<or> location + unat sz \<le> a \<longrightarrow> m' a = m a)"
proof -
  have pos: "(0 :: u32) < 1" "(1 :: u32) \<le> HB_MaxSize" by (simp_all add: HB_defs)
  obtain cs m' BS where A: "allocate_clusters location sz 0 1 m = Some (cs, m')"
    "clusters_ok m' location (location + unat sz) cs BS" "map payload cs = payload_ranges location (unat sz)"
    "list_all2 (\<lambda>c (bs, xs). scanned m m' (m_payloadStart c) (m_payloadEnd c) (scan_step 0 sz 1) (set bs - set xs)) cs BS"
    "\<forall>a. a < location + sizeof_HeapCluster \<or> location + unat sz \<le> a \<longrightarrow> m' a = m a"
    using allocate_clusters_ok[OF pos assms(2), of 0] by blast
  have ne: "cs \<noteq> []" using A(3) assms(1) by (subst (asm) payload_ranges.simps) (auto simp: word_less_nat_alt Let_def)
  have len: "length cs = length BS" using A(4) by (rule list_all2_lengthD)
  have nth: "cluster_ok m' (cs ! j) (fst (BS ! j)) (snd (BS ! j))"
    "scanned m m' (m_payloadStart (cs ! j)) (m_payloadEnd (cs ! j)) (scan_step 0 sz 1) (set (fst (BS ! j)) - set (snd (BS ! j)))"
    if "j < length BS" for j
    using that A(2,4) by (auto simp: clusters_ok_def list_all2_conv_all_nth case_prod_unfold)
  have rng: "payload_ranges location (unat sz) ! j = (m_payloadStart (cs ! j), m_payloadEnd (cs ! j))" if "j < length BS" for j
    using that len A(3) nth_map[of j cs payload] by (simp add: payload_def)
  have rlen: "length (payload_ranges location (unat sz)) = length BS" using A(3) len by (metis length_map)
  have 1: "(\<exists>(s, e)\<in>set (payload_ranges location (unat sz)). s \<le> b \<and> b < e \<and> salvaged m e b)
         \<and> blocks (m' b) = blocks (m b) \<and> DataType (m' b) = DataType (m b)" if b: "b \<in> live BS" for b
  proof -
    obtain j where j: "j < length BS" "b \<in> set (fst (BS ! j)) - set (snd (BS ! j))" using b by (auto simp: live_nth)
    have "m_payloadStart (cs ! j) \<le> b \<and> b < m_payloadEnd (cs ! j)" using extent_payload[OF nth(1)[OF j(1)], of b] j(2) by auto
    then show ?thesis using nth(2)[OF j(1)] j rng[OF j(1)] nth_mem[of j "payload_ranges location (unat sz)"] rlen
      unfolding scanned_def by auto
  qed
  have 2: "\<exists>b\<in>live BS. a \<in> extent m' b"
    if t: "unat sz \<le> 1024 * 1024" "(s, e) \<in> set (payload_ranges location (unat sz))"
      "s \<le> a \<and> a < e \<and> sizeof_HeapBlock dvd a - s \<and> salvaged m e a" for s e a
  proof -
    obtain j where j: "j < length BS" "s = m_payloadStart (cs ! j)" "e = m_payloadEnd (cs ! j)"
      using t(2) rng rlen by (metis in_set_conv_nth prod.inject)
    have "scan_step 0 sz 1 = 1" using t(1) by (simp add: scan_step_def)
    then have "\<exists>b\<in>set (fst (BS ! j)) - set (snd (BS ! j)). a \<in> extent m' b"
      using nth(2)[OF j(1)] t(3) unfolding scanned_def j(2,3) by blast
    then show ?thesis using j(1) unfolding live_nth by blast
  qed
  have "AllocateHeaps location sz m = Some (Some (cs, m'))"
    using A(1) assms(1) by (simp add: AllocateHeaps_def)
  moreover have "m' a = m a" if "a < location \<or> location + unat sz \<le> a" for a using A(5) that by auto
  ultimately show ?thesis using A(2,3) ne 1 2 clusters_ok_heap[OF A(2)]
    by (intro exI[of _ cs] exI[of _ m'] exI[of _ BS]) blast
qed

text \<open>A memory with one weak reference that is to survive, at the start of the first cluster.\<close>

definition weak_memory :: memory where
  "weak_memory = (\<lambda>_. zero_block)(4128 := SetDataId (CLR_RT_HEAPBLOCK_RAW_ID 24 0 4)
     (zero_block\<lparr>m_identity_flags := WR_SurviveBoot, m_targetSerialized := Some 8192\<rparr>))"

lemma weak_memory_salvaged:
  "salvaged_weak (weak_memory a) \<longleftrightarrow> a = 4128" "\<not> salvaged_array a e (weak_memory a)"
  by (simp_all add: salvaged_weak_def salvaged_array_def weak_memory_def DATATYPE_defs zero_block_def SetDataId_def
      CONVERTFROMSIZETOHEAPBLOCKS_def sizeof_WeakReference_def WR_SurviveBoot_def DataType_def DataSize_def
      CLR_RT_HEAPBLOCK_RAW_ID_def)

lemma AllocateHeaps_divides_the_memory_witness:
  "\<exists>cs m' BS. AllocateHeaps 4096 800000 weak_memory = Some (Some (cs, m')) \<and> length cs = 2
    \<and> heap_ok (new_heap cs m') BS \<and> live BS = {4128}"
proof -
  have r: "payload_ranges 4096 (unat (800000 :: u32)) = [(4128, 790512), (790548, 804096)]"
    by (simp add: payload_ranges.simps Let_def)
  have s: "sound_payload weak_memory s e" if "(s, e) \<in> {(4128, 790512), (790548, 804096)}" for s e
    using that by (auto simp: sound_payload_def sound_at_def weak_memory_salvaged)
  have p: "\<forall>(s, e)\<in>set (payload_ranges 4096 (unat (800000 :: u32))). sound_payload weak_memory s e"
    unfolding r using s by simp
  have z: "of_nat sizeof_HeapCluster < (800000 :: u32)" by simp
  obtain cs m' BS where A: "AllocateHeaps 4096 800000 weak_memory = Some (Some (cs, m'))"
    "map payload cs = [(4128, 790512), (790548, 804096)]" "heap_ok (new_heap cs m') BS"
    "\<forall>b\<in>live BS. \<exists>(s, e)\<in>set [(4128, 790512), (790548, 804096)]. s \<le> b \<and> b < e \<and> salvaged weak_memory e b"
    "\<forall>(s, e)\<in>set [(4128, 790512), (790548, 804096)]. \<forall>a.
         s \<le> a \<and> a < e \<and> sizeof_HeapBlock dvd a - s \<and> salvaged weak_memory e a \<longrightarrow> (\<exists>b\<in>live BS. a \<in> extent m' b)"
    using AllocateHeaps_divides_the_memory[OF z p, unfolded r] by auto
  have all: "b = 4128" if "b \<in> live BS" for b
    using A(4) that by (auto simp: salvaged_def weak_memory_salvaged)
  have "\<exists>b\<in>live BS. 4128 \<in> extent m' b"
    using A(5) by (simp add: salvaged_def weak_memory_salvaged)
  then have "live BS = {4128}" using all by auto
  moreover have "length cs = 2" using A(2) by (metis length_map length_Cons list.size(3) One_nat_def Suc_1)
  ultimately show ?thesis using A(1,3) by blast
qed

text \<open>A heap of one cluster with one free block of ten.\<close>

definition small_heap :: managed_heap where
  "small_heap = new_heap [\<lparr>m_payloadStart = 32, m_payloadEnd = 152, m_freeList = \<lparr>m_first = Some (Node 32),
     m_null = None, m_last = Some (Node 32), m_nextNode = (\<lambda>_. Some Tail), m_prevNode = (\<lambda>_. Some Head)\<rparr>\<rparr>]
     (\<lambda>_. SetDataId (free_id 10) zero_block)"

lemma small_heap_ok: "heap_ok small_heap [([32], [32])]" "has_room 4 small_heap [([32], [32])]"
  by (simp_all add: small_heap_def new_heap_def heap_ok_def cluster_ok_def payload_ok_def free_chain_def cells
      has_room_def free_blocks_def free_id_def)

text \<open>
  C34. An allocation from the heap: if a free block of some cluster is large enough, the caller gets a block
  with the type, flags and length it asked for, which overlaps no block in use, and no block in use changes. If none is, a
  garbage collection is run (unless the flags forbid it) and the same holds of the heap after it; else the answer is null
  and nothing changes, apart from the request for a compaction when there would be enough memory in total.
\<close>

theorem ExtractHeapBlocks_gives_a_block_of_its_own:
  fixes t f len :: u32
  assumes "heap_ok h BS" and "0 < len" "len \<le> HB_MaxSize"
    and "\<not> m_underGC h \<or> f AND HB_SpecialGCAllocation \<noteq> 0"
    and "\<not> has_room len h BS \<and> f AND HB_NoGcOnFailedAllocation = 0
      \<Longrightarrow> PerformGarbageCollection (h\<lparr>m_lastHcUsed := None\<rparr>) = Some h1 \<and> heap_ok h1 BS1"
  defines "run \<equiv> ExtractHeapBlocks PerformGarbageCollection t f len h"
  shows "if has_room len h BS then \<exists>hb h' BS'. run = Some (Some hb, h') \<and> gets_block t f len hb (h, BS) (h', BS')
    else if f AND HB_NoGcOnFailedAllocation \<noteq> 0 then run = Some (None, h\<lparr>m_lastHcUsed := None\<rparr>)
    else if has_room len h1 BS1 then \<exists>hb h' BS'. run = Some (Some hb, h') \<and> gets_block t f len hb (h1, BS1) (h', BS')
    else run = Some (None, h1\<lparr>m_lastHcUsed := None,
      Compaction_Pending := Compaction_Pending h1 \<or> len * 12 \<le> m_freeBytes h1\<rparr>)"
proof -
  note P = heap_phase_ok[OF assms(1-3), of t f]
  note P1 = heap_phase_ok[OF conjunct2[OF assms(5)] assms(2,3), of t f]
  show ?thesis
  proof (cases "has_room len h BS")
    case True
    then show ?thesis using P assms(4) by (auto simp: run_def ExtractHeapBlocks_def)
  next
    case False
    then have p: "heap_phase t f len h = Some (None, h\<lparr>m_lastHcUsed := None\<rparr>)" using P by simp
    show ?thesis
    proof (cases "f AND HB_NoGcOnFailedAllocation = 0")
      case nogc: True
      note G = assms(5)[OF conjI[OF False nogc]]
      show ?thesis
      proof (cases "has_room len h1 BS1")
        case True
        then show ?thesis using False nogc G p P1 assms(4) by (auto simp: run_def ExtractHeapBlocks_def)
      next
        case no: False
        then show ?thesis using False nogc G p P1 assms(4)
          by (cases "Compaction_Pending h1") (auto simp: run_def ExtractHeapBlocks_def)
      qed
    qed (use False p assms(4) in \<open>auto simp: run_def ExtractHeapBlocks_def\<close>)
  qed
qed


lemma ExtractHeapBlocks_gives_a_block_of_its_own_witness:
  "\<exists>hb h' BS'. ExtractHeapBlocks Some 17 0 4 small_heap = Some (Some hb, h')
     \<and> gets_block 17 0 4 hb (small_heap, [([32], [32])]) (h', BS')"
proof -
  have "\<not> m_underGC small_heap \<or> (0 :: u32) AND HB_SpecialGCAllocation \<noteq> 0" by (simp add: small_heap_def new_heap_def)
  then show ?thesis
    using ExtractHeapBlocks_gives_a_block_of_its_own[OF small_heap_ok(1), of 4 0 Some small_heap "[([32], [32])]" 17]
      small_heap_ok(2)
    by (simp add: HB_defs)
qed

end
