(* ===== verification/Heap_Sweep.thy ===== *)
theory Heap_Sweep
  imports Heap_Allocation
begin

text \<open>
  The end of a garbage collection: \<^verbatim>\<open>Sweep\<close> recovers every cluster of the heap
  (\<^verbatim>\<open>CLR/Core/CLR_RT_HeapCluster.cpp\<close>), and \<^verbatim>\<open>Heap_ComputeAliveVsDeadRatio\<close> of
  \<^verbatim>\<open>CLR/Core/GarbageCollector.cpp\<close> counts what is free. \<open>row_recovered\<close> says what becomes of the row of
  blocks of a cluster.
\<close>

section \<open>Recovery of the whole heap\<close>

fun recover_clusters :: "cluster list \<Rightarrow> memory \<Rightarrow> (cluster list \<times> memory) option" where
  "recover_clusters [] m = Some ([], m)"
| "recover_clusters (c # cs) m =
     (case RecoverFromGC (c, m) of None \<Rightarrow> None
      | Some (c', m1) \<Rightarrow> map_option (\<lambda>(cs', m2). (c' # cs', m2)) (recover_clusters cs m1))"

partial_function (option) free_list_size :: "memory \<Rightarrow> dll \<Rightarrow> node \<Rightarrow> u32 \<Rightarrow> u32 option" where
  "free_list_size m fl p acc =
     (case get_prev fl p of None \<Rightarrow> Some acc
      | Some q \<Rightarrow> (case p of Node n \<Rightarrow> free_list_size m fl q (acc + ucast (DataSize (m n))) | _ \<Rightarrow> None))"

fun heap_totals :: "memory \<Rightarrow> cluster list \<Rightarrow> u32 \<Rightarrow> u32 \<Rightarrow> (u32 \<times> u32) option" where
  "heap_totals m [] totalBytes freeBlocks = Some (totalBytes, freeBlocks)"
| "heap_totals m (c # cs) totalBytes freeBlocks =
     (case LastNode (m_freeList c) of None \<Rightarrow> None
      | Some p \<Rightarrow> (case free_list_size m (m_freeList c) p freeBlocks of None \<Rightarrow> None
         | Some n \<Rightarrow> heap_totals m cs (totalBytes + of_nat (m_payloadEnd c - m_payloadStart c)) n))"

text \<open>The totals, of which \<open>m_freeBytes\<close> is kept in the heap.\<close>

definition Heap_ComputeAliveVsDeadRatio :: "managed_heap \<Rightarrow> (u32 \<times> managed_heap) option" where
  "Heap_ComputeAliveVsDeadRatio h =
     map_option (\<lambda>(totalBytes, freeBlocks). (totalBytes, h\<lparr>m_freeBytes := freeBlocks * of_nat sizeof_HeapBlock\<rparr>))
       (heap_totals (heap_memory h) (clusters h) 0 0)"

text \<open>The end of a garbage collection: the clusters are recovered and the totals computed.\<close>

definition recover_heap :: "managed_heap \<Rightarrow> (u32 \<times> managed_heap) option" where
  "recover_heap h =
     (case recover_clusters (clusters h) (heap_memory h) of None \<Rightarrow> None
      | Some (cs, m) \<Rightarrow> Heap_ComputeAliveVsDeadRatio (h\<lparr>clusters := cs, heap_memory := m\<rparr>))"

declare free_list_size.simps [code]

text \<open>The blocks of a payload cover it.\<close>

lemma tiles_cover: "tiles m p bs e \<Longrightarrow> (\<Union>b\<in>set bs. extent m b) = {p..<e}"
proof (induction bs arbitrary: p)
  case (Cons b bs)
  let ?q = "block_at b (blocks (m b))"
  have t: "b = p" "tiles m ?q bs e" using Cons.prems by auto
  have "extent m b = {p..<?q}" "p \<le> ?q" using t(1) by (simp_all add: extent_def)
  moreover have "(\<Union>b\<in>set bs. extent m b) = {?q..<e}" "?q \<le> e"
    using Cons.IH[OF t(2)] tiles_end[OF t(2)] by simp_all
  ultimately show ?case using ivl_disj_un_two(3)[of p ?q e] by simp
qed simp

lemma tiles_total: "tiles m p bs e \<Longrightarrow> 12 * (\<Sum>b\<in>set bs. blocks (m b)) = e - p"
proof (induction bs arbitrary: p)
  case (Cons b bs)
  let ?q = "block_at b (blocks (m b))"
  have t: "b = p" "tiles m ?q bs e" using Cons.prems by auto
  have "b \<notin> set bs" using tiles_distinct[OF Cons.prems] by simp
  then have "12 * (\<Sum>b\<in>set (b # bs). blocks (m b)) = 12 * blocks (m b) + (e - ?q)" using Cons.IH[OF t(2)] by simp
  then show ?case using tiles_end[OF t(2)] t(1) by simp
qed simp

text \<open>What recovery does to the blocks of a cluster.\<close>

definition row_recovered :: "memory \<Rightarrow> memory \<Rightarrow> cluster \<times> nat list \<Rightarrow> cluster \<times> nat list \<times> nat list \<Rightarrow> bool" where
  "row_recovered m m' s s' \<longleftrightarrow>
     (let (c, bs) = s; (c', bs', xs) = s'; dead = {b \<in> set bs. \<not> IsAlive (m b)}
      in cluster_ok m' c' bs' xs \<and> m_payloadStart c' = m_payloadStart c \<and> m_payloadEnd c' = m_payloadEnd c
       \<and> set bs' - set xs = {b \<in> set bs. IsAlive (m b)} \<and> set xs \<subseteq> dead
       \<and> (\<forall>b\<in>set bs. IsAlive (m b) \<longrightarrow> m' b = (if IsEvent (m b) then m b else MarkDead (m b)))
       \<and> (\<forall>x\<in>set xs. DataType (m' x) = DATATYPE_FREEBLOCK)
       \<and> (\<Union>x\<in>set xs. extent m' x) = (\<Union>b\<in>dead. extent m b)
       \<and> (\<Sum>x\<in>set xs. blocks (m' x)) = (\<Sum>b\<in>dead. blocks (m b)))"

lemma Un_cancel: "A \<union> X = A \<union> D \<Longrightarrow> A \<inter> X = {} \<Longrightarrow> A \<inter> D = {} \<Longrightarrow> X = D"
  by blast

lemma row_recovered_one:
  assumes "tiles m (m_payloadStart c) bs (m_payloadEnd c)" and "cluster_ok m' c' bs' xs"
    and "m_payloadStart c' = m_payloadStart c" "m_payloadEnd c' = m_payloadEnd c" and "recovered m bs m' bs' xs"
  shows "row_recovered m m' (c, bs) (c', bs', xs)"
proof -
  let ?A = "{b \<in> set bs. IsAlive (m b)}" and ?D = "{b \<in> set bs. \<not> IsAlive (m b)}"
  note R = assms(5)[unfolded recovered_def]
  note T = cluster_okD(1)[OF assms(2), unfolded assms(3,4)]
  have s: "set bs' = ?A \<union> set xs" "set xs \<subseteq> ?D" "?A \<inter> set xs = {}" using R by auto
  have sz: "blocks (m' b) = blocks (m b)" if "b \<in> ?A" for b
  proof -
    have "m' b = (if IsEvent (m b) then m b else MarkDead (m b))" using R that by blast
    then show ?thesis by simp
  qed
  then have ext: "extent m' b = extent m b" if "b \<in> ?A" for b using that by (simp add: extent_def)
  have split: "set bs = ?A \<union> ?D" "?A \<inter> ?D = {}" by auto
  have "(\<Sum>b\<in>set bs. blocks (m b)) = (\<Sum>b\<in>?A. blocks (m b)) + (\<Sum>b\<in>?D. blocks (m b))"
    by (subst split(1), rule sum.union_disjoint) (use split(2) in auto)
  moreover have "(\<Sum>b\<in>set bs'. blocks (m' b)) = (\<Sum>b\<in>?A. blocks (m' b)) + (\<Sum>x\<in>set xs. blocks (m' x))"
    unfolding s(1) by (rule sum.union_disjoint) (use s(3) in auto)
  moreover have "(\<Sum>b\<in>?A. blocks (m' b)) = (\<Sum>b\<in>?A. blocks (m b))" by (rule sum.cong) (use sz in auto)
  ultimately have tot: "(\<Sum>x\<in>set xs. blocks (m' x)) = (\<Sum>b\<in>?D. blocks (m b))"
    using tiles_total[OF assms(1)] tiles_total[OF T] by linarith
  have U: "(\<Union>b\<in>?A. extent m b) \<union> (\<Union>x\<in>set xs. extent m' x) = (\<Union>b\<in>?A. extent m b) \<union> (\<Union>b\<in>?D. extent m b)"
    using tiles_cover[OF assms(1)] tiles_cover[OF T] ext unfolding s(1) split(1)[symmetric]
    by (subst (asm) split(1)) (simp add: UN_Un)
  have apart1: "extent m b \<inter> extent m d = {}" if "b \<in> ?A" "d \<in> ?D" for b d
    using tiles_disjoint[OF assms(1), of b d] tiles_disjoint[OF assms(1), of d b] that
    by (cases b d rule: linorder_cases) (auto simp: extent_def)
  have apart2: "extent m b \<inter> extent m' x = {}" if "b \<in> ?A" "x \<in> set xs" for b x
  proof -
    have "b \<in> set bs'" "x \<in> set bs'" "b \<noteq> x" using s that by auto
    from extents_apart[OF assms(2) this] show ?thesis using ext[OF that(1)] by simp
  qed
  have cov: "(\<Union>x\<in>set xs. extent m' x) = (\<Union>b\<in>?D. extent m b)"
  proof (rule Un_cancel[OF U])
    show "(\<Union>b\<in>?A. extent m b) \<inter> (\<Union>x\<in>set xs. extent m' x) = {}"
      by (simp only: Int_UN_distrib2) (simp add: apart2 del: Int_iff mem_Collect_eq)
    show "(\<Union>b\<in>?A. extent m b) \<inter> (\<Union>b\<in>?D. extent m b) = {}"
      by (simp only: Int_UN_distrib2) (simp add: apart1 del: Int_iff mem_Collect_eq)
  qed
  have used: "set bs' - set xs = ?A" using s by auto
  have al: "\<forall>b\<in>set bs. IsAlive (m b) \<longrightarrow> m' b = (if IsEvent (m b) then m b else MarkDead (m b))"
    and fr: "\<forall>x\<in>set xs. DataType (m' x) = DATATYPE_FREEBLOCK" using R by blast+
  show ?thesis
    unfolding row_recovered_def Let_def prod.case
    by (intro conjI) (rule assms(2-4) used s(2) al fr cov tot)+
qed

lemma row_recovered_cong:
  assumes "row_recovered m1 m2 (c, bs) (c', bs', xs)" and "tiles m1 (m_payloadStart c) bs (m_payloadEnd c)"
    and "\<And>a. m_payloadStart c \<le> a \<Longrightarrow> a < m_payloadEnd c \<Longrightarrow> m a = m1 a"
    and "\<And>a. m_payloadStart c \<le> a \<Longrightarrow> a < m_payloadEnd c \<Longrightarrow> m' a = m2 a"
  shows "row_recovered m m' (c, bs) (c', bs', xs)"
proof -
  have bs: "m b = m1 b" if "b \<in> set bs" for b using tiles_range[OF assms(2) that] assms(3)[of b] by simp
  have bs': "m' b = m2 b" if "b \<in> set bs" for b using tiles_range[OF assms(2) that] assms(4)[of b] by simp
  note R = assms(1)[unfolded row_recovered_def Let_def, simplified prod.case]
  have dead: "{b \<in> set bs. \<not> IsAlive (m b)} = {b \<in> set bs. \<not> IsAlive (m1 b)}"
    "{b \<in> set bs. IsAlive (m b)} = {b \<in> set bs. IsAlive (m1 b)}" using bs by auto
  have sub: "set xs \<subseteq> {b \<in> set bs. \<not> IsAlive (m1 b)}" using R by (elim conjE) assumption
  have xs: "m' x = m2 x" if "x \<in> set xs" for x using bs'[of x] sub that by auto
  note pay = conjunct1[OF R] conjunct1[OF conjunct2[OF R]] conjunct1[OF conjunct2[OF conjunct2[OF R]]]
  have ok: "cluster_ok m' c' bs' xs" by (rule cluster_ok_cong[OF pay(1)]) (use pay assms(4) in auto)
  have e: "extent m b = extent m1 b" if "b \<in> set bs" for b using bs[OF that] by (simp add: extent_def)
  have e': "extent m' x = extent m2 x" if "x \<in> set xs" for x using xs[OF that] by (simp add: extent_def)
  have "(\<Union>b\<in>{b \<in> set bs. \<not> IsAlive (m1 b)}. extent m b) = (\<Union>b\<in>{b \<in> set bs. \<not> IsAlive (m1 b)}. extent m1 b)"
    by (rule SUP_cong[OF refl]) (use e in simp)
  moreover have "(\<Sum>b\<in>{b \<in> set bs. \<not> IsAlive (m1 b)}. blocks (m b)) = (\<Sum>b\<in>{b \<in> set bs. \<not> IsAlive (m1 b)}. blocks (m1 b))"
    by (rule sum.cong[OF refl]) (use bs in simp)
  moreover have "(\<Union>x\<in>set xs. extent m' x) = (\<Union>x\<in>set xs. extent m2 x)"
    by (rule SUP_cong[OF refl]) (use e' in simp)
  moreover have "(\<Sum>x\<in>set xs. blocks (m' x)) = (\<Sum>x\<in>set xs. blocks (m2 x))"
    by (rule sum.cong[OF refl]) (use xs in simp)
  ultimately show ?thesis
    unfolding row_recovered_def Let_def prod.case dead using R ok bs bs' xs by simp
qed

text \<open>The rows of blocks of the clusters, as the mutator and the marker leave them.\<close>

definition rows_ok :: "memory \<Rightarrow> cluster list \<Rightarrow> nat list list \<Rightarrow> bool" where
  "rows_ok m cs R \<longleftrightarrow>
     list_all2 (\<lambda>c bs. tiles m (m_payloadStart c) bs (m_payloadEnd c) \<and> m_payloadEnd c - m_payloadStart c \<le> 12 * 65535) cs R
     \<and> sorted_wrt (\<lambda>c d. m_payloadEnd c \<le> m_payloadStart d) cs"

lemma recover_clusters_ok:
  assumes "rows_ok m cs R"
  shows "\<exists>cs' m' BS. recover_clusters cs m = Some (cs', m') \<and> length BS = length cs' \<and> length cs' = length cs
    \<and> list_all2 (row_recovered m m') (zip cs R) (zip cs' BS)
    \<and> (\<forall>a. (\<forall>bs\<in>set R. a \<notin> set bs) \<longrightarrow> m' a = m a)"
  using assms
proof (induction cs arbitrary: m R)
  case Nil
  then show ?case by (auto simp: rows_ok_def)
next
  case (Cons c cs)
  then obtain bs R' where R: "R = bs # R'" "tiles m (m_payloadStart c) bs (m_payloadEnd c)"
    "m_payloadEnd c - m_payloadStart c \<le> 12 * 65535" "rows_ok m cs R'"
    and above: "\<forall>d\<in>set cs. m_payloadEnd c \<le> m_payloadStart d"
    by (cases R) (auto simp: rows_ok_def)
  obtain c' m1 bs' xs where G: "RecoverFromGC (c, m) = Some (c', m1)" "cluster_ok m1 c' bs' xs"
    "m_payloadStart c' = m_payloadStart c" "m_payloadEnd c' = m_payloadEnd c" "recovered m bs m1 bs' xs"
    using RecoverFromGC_ok[OF R(2,3)] by blast
  have out: "m1 a = m a" if "a \<notin> set bs" for a using G(5) that by (auto simp: recovered_def)
  have low: "b < m_payloadEnd c" if "b \<in> set bs" for b using tiles_range[OF R(2) that] by auto
  have keep: "m1 a = m a" if "m_payloadEnd c \<le> a" for a using out[of a] low[of a] that by fastforce
  have len: "length R' = length cs" using R(4) by (auto simp: rows_ok_def list_all2_lengthD)
  have row: "tiles m (m_payloadStart d) ds (m_payloadEnd d)" "m_payloadEnd c \<le> m_payloadStart d"
    if "(d, ds) \<in> set (zip cs R')" for d ds
    using that R(4) above by (auto simp: rows_ok_def list_all2_iff dest: set_zip_leftD)
  have row1: "tiles m1 (m_payloadStart d) ds (m_payloadEnd d)" if d: "(d, ds) \<in> set (zip cs R')" for d ds
  proof -
    have "m1 b = m b" if b: "b \<in> set ds" for b
      using tiles_range[OF row(1)[OF d] b] row(2)[OF d] keep[of b] by simp
    then show ?thesis using row(1)[OF d] tiles_cong[of ds m1 m] by simp
  qed
  then have "rows_ok m1 cs R'" using R(4) by (auto simp: rows_ok_def list_all2_iff)
  then obtain cs' m' BS where I: "recover_clusters cs m1 = Some (cs', m')" "length BS = length cs'" "length cs' = length cs"
    "list_all2 (row_recovered m1 m') (zip cs R') (zip cs' BS)" "\<forall>a. (\<forall>bs\<in>set R'. a \<notin> set bs) \<longrightarrow> m' a = m1 a"
    using Cons.IH by blast
  have high: "m_payloadEnd c \<le> b" if ds: "ds \<in> set R'" and b: "b \<in> set ds" for ds b
  proof -
    obtain i where i: "i < length R'" "ds = R' ! i" using ds by (auto simp: in_set_conv_nth)
    then have d: "(cs ! i, ds) \<in> set (zip cs R')" using len by (auto simp: set_zip)
    then show ?thesis using tiles_range[OF row(1)[OF d] b] row(2)[OF d] by simp
  qed
  have low': "m' a = m1 a" if "a < m_payloadEnd c" for a
  proof -
    have "\<forall>ds\<in>set R'. a \<notin> set ds" using high[of _ a] that leD by blast
    then show ?thesis using I(5) by blast
  qed
  have 1: "row_recovered m m' (c, bs) (c', bs', xs)"
    by (rule row_recovered_cong[OF row_recovered_one[OF R(2) G(2-5)] R(2)]) (use low' in auto)
  have 2: "list_all2 (row_recovered m m') (zip cs R') (zip cs' BS)"
    unfolding list_all2_iff
  proof (intro conjI ballI)
    show "length (zip cs R') = length (zip cs' BS)" using I(2,3) len by simp
    fix z assume z: "z \<in> set (zip (zip cs R') (zip cs' BS))"
    obtain d ds d' ds' ys where z': "z = ((d, ds), (d', ds', ys))" by (metis prod.collapse)
    have m: "(d, ds) \<in> set (zip cs R')" using z z' by (auto dest: set_zip_leftD)
    have "row_recovered m1 m' (d, ds) (d', ds', ys)" using I(4) z z' by (auto simp: list_all2_iff)
    then have "row_recovered m m' (d, ds) (d', ds', ys)"
      by (rule row_recovered_cong[OF _ row1[OF m]]) (use keep row(2)[OF m] in auto)
    then show "case z of (x, y) \<Rightarrow> row_recovered m m' x y" using z' by simp
  qed
  have 3: "m' a = m a" if "\<forall>ds\<in>set R. a \<notin> set ds" for a using I(5) out[of a] that R(1) by simp
  show ?case using G(1) I(1-3) 1 2 3 R(1)
    by (intro exI[of _ "c' # cs'"] exI[of _ m'] exI[of _ "(bs', xs) # BS"]) simp
qed

text \<open>The totals are those of the free lists.\<close>

lemma DataSize_blocks: "ucast (DataSize b) = (of_nat (blocks b) :: u32)"
  by (simp add: blocks_def unsigned_ucast_eq of_nat_unat)

lemma free_list_size_chain:
  "chain fl Head xs q \<Longrightarrow> m_null fl = None \<Longrightarrow>
     free_list_size m fl (before xs) acc = Some (acc + of_nat (\<Sum>x\<leftarrow>xs. blocks (m x)))"
proof (induction xs arbitrary: q acc rule: rev_induct)
  case Nil
  then show ?case by (subst free_list_size.simps) (simp add: cells)
next
  case (snoc x xs)
  then have c: "chain fl Head xs (Node x)" by (simp add: chain_append)
  then have "get_prev fl (Node x) = Some (before xs)"
    by (cases xs rule: rev_cases) (auto simp: chain_append)
  with snoc.IH[OF c snoc.prems(2)] show ?case
    by (subst free_list_size.simps) (simp add: DataSize_blocks add_ac)
qed

lemma heap_totals_ok:
  "list_all2 (\<lambda>c (bs, xs). cluster_ok m c bs xs) cs BS \<Longrightarrow>
     heap_totals m cs t n = Some (t + of_nat (\<Sum>c\<leftarrow>cs. m_payloadEnd c - m_payloadStart c),
       n + of_nat (\<Sum>(bs, xs)\<leftarrow>BS. \<Sum>x\<in>set xs. blocks (m x)))"
proof (induction cs arbitrary: BS t n)
  case (Cons c cs)
  then obtain bs xs BS' where B: "BS = (bs, xs) # BS'" "cluster_ok m c bs xs"
    "list_all2 (\<lambda>c (bs, xs). cluster_ok m c bs xs) cs BS'" by (cases BS) auto
  note F = cluster_okD(4)[OF B(2)]
  have d: "distinct xs" "chain (m_freeList c) Head xs Tail" "m_null (m_freeList c) = None"
    using F by (simp_all add: free_chain_def)
  show ?case
    using free_chain_ends(2)[OF F] free_list_size_chain[OF d(2,3)] Cons.IH[OF B(3)] B(1)
      sum_list_distinct_conv_sum_set[OF d(1), of "\<lambda>x. blocks (m x)"] by (simp add: add_ac del: of_nat_sum)
qed simp

lemma recover_heap_ok:
  assumes "rows_ok (heap_memory h) (clusters h) R"
    and "case m_lastHcUsed h of None \<Rightarrow> True | Some i \<Rightarrow> i < length (clusters h)"
  defines "m \<equiv> heap_memory h"
  shows "\<exists>total h' BS. recover_heap h = Some (total, h') \<and> heap_ok h' BS
    \<and> live BS = {b \<in> \<Union>(set ` set R). IsAlive (m b)}
    \<and> (\<forall>b\<in>live BS. heap_memory h' b = (if IsEvent (m b) then m b else MarkDead (m b)))
    \<and> (\<Union>x\<in>free_blocks BS. extent (heap_memory h') x) = (\<Union>b\<in>{b \<in> \<Union>(set ` set R). \<not> IsAlive (m b)}. extent m b)
    \<and> m_freeBytes h' = of_nat (12 * (\<Sum>bs\<leftarrow>R. \<Sum>b\<in>{b \<in> set bs. \<not> IsAlive (m b)}. blocks (m b)))
    \<and> (\<forall>a. (\<forall>bs\<in>set R. a \<notin> set bs) \<longrightarrow> heap_memory h' a = m a)"
proof -
  let ?cs = "clusters h"
  obtain cs' m' BS where C: "recover_clusters ?cs m = Some (cs', m')" "length BS = length cs'" "length cs' = length ?cs"
    "list_all2 (row_recovered m m') (zip ?cs R) (zip cs' BS)" "\<forall>a. (\<forall>bs\<in>set R. a \<notin> set bs) \<longrightarrow> m' a = m a"
    using recover_clusters_ok[OF assms(1)] unfolding m_def by blast
  have len: "length R = length ?cs" using assms(1) by (auto simp: rows_ok_def list_all2_lengthD)
  have row: "row_recovered m m' (?cs ! i, R ! i) (cs' ! i, fst (BS ! i), snd (BS ! i))" if "i < length ?cs" for i
    using C(2-4) len that by (auto simp: list_all2_conv_all_nth)
  note row' = row[unfolded row_recovered_def Let_def prod.case]
  have ok: "list_all2 (\<lambda>c (bs, xs). cluster_ok m' c bs xs) cs' BS"
    using row' C(2,3) by (auto simp: list_all2_conv_all_nth case_prod_unfold)
  have "sorted_wrt (\<lambda>c d. m_payloadEnd c \<le> m_payloadStart d) ?cs" using assms(1) by (simp add: rows_ok_def)
  then have "sorted_wrt (\<lambda>c d. m_payloadEnd c \<le> m_payloadStart d) cs'"
    using row' C(3) by (auto simp: sorted_wrt_iff_nth_less)
  then have heap: "heap_ok (h\<lparr>clusters := cs', heap_memory := m', m_freeBytes := n\<rparr>) BS" for n
    using ok assms(2) C(3) by (auto simp: heap_ok_def split: option.splits)
  have UR: "\<Union>(set ` set R) = (\<Union>i<length ?cs. set (R ! i))" using len by (auto simp: set_conv_nth)
  have live: "live BS = {b \<in> \<Union>(set ` set R). IsAlive (m b)}"
    unfolding live_nth UR using row' C(2,3) by (simp cong: SUP_cong_simp) blast
  have kept: "m' b = (if IsEvent (m b) then m b else MarkDead (m b))" if b: "b \<in> live BS" for b
  proof -
    obtain i where "i < length ?cs" "b \<in> set (R ! i)" "IsAlive (m b)" using b live UR by auto
    then show ?thesis using row'[of i] by blast
  qed
  have fr: "(\<Union>x\<in>free_blocks BS. extent m' x) = (\<Union>i<length ?cs. \<Union>x\<in>set (snd (BS ! i)). extent m' x)"
    unfolding free_blocks_nth using C(2,3) by auto
  also have "\<dots> = (\<Union>i<length ?cs. \<Union>b\<in>{b \<in> set (R ! i). \<not> IsAlive (m b)}. extent m b)"
    by (rule SUP_cong[OF refl]) (use row' in simp)
  also have "\<dots> = (\<Union>b\<in>{b \<in> \<Union>(set ` set R). \<not> IsAlive (m b)}. extent m b)" unfolding UR by blast
  finally have cov: "(\<Union>x\<in>free_blocks BS. extent m' x) = (\<Union>b\<in>{b \<in> \<Union>(set ` set R). \<not> IsAlive (m b)}. extent m b)" .
  have tot: "(\<Sum>(bs, xs)\<leftarrow>BS. \<Sum>x\<in>set xs. blocks (m' x)) = (\<Sum>bs\<leftarrow>R. \<Sum>b\<in>{b \<in> set bs. \<not> IsAlive (m b)}. blocks (m b))"
    by (rule arg_cong[of _ _ sum_list], rule nth_equalityI) (use row' C(2,3) len in \<open>simp_all add: case_prod_unfold\<close>)
  define h' where "h' = h\<lparr>clusters := cs', heap_memory := m',
    m_freeBytes := of_nat (12 * (\<Sum>bs\<leftarrow>R. \<Sum>b\<in>{b \<in> set bs. \<not> IsAlive (m b)}. blocks (m b)))\<rparr>"
  have mem: "heap_memory h' = m'" "heap_ok h' BS"
    "m_freeBytes h' = of_nat (12 * (\<Sum>bs\<leftarrow>R. \<Sum>b\<in>{b \<in> set bs. \<not> IsAlive (m b)}. blocks (m b)))"
    unfolding h'_def by (simp, rule heap, simp)
  obtain total where "recover_heap h = Some (total, h')"
    using C(1) heap_totals_ok[OF ok, of 0 0] tot
    by (simp add: recover_heap_def m_def Heap_ComputeAliveVsDeadRatio_def mult.commute h'_def)
  then show ?thesis
    using live kept cov C(5) mem(2,3)
    by (intro exI[of _ total] exI[of _ h'] exI[of _ BS] conjI ballI) (simp_all only: mem(1))
qed
end
