(* ===== verification/Spec2Isabelle.thy ===== *)
theory Spec2Isabelle
  imports Hal_Queue Neighbor_Table Mac_Functions Time_Driver Omac_Mac Si4468_Locks Clr_Messaging Heap_Sweep
begin

text \<open>
  \<^bold>\<open>The eMote networking core.\<close> eMote is a wireless sensor platform: the .NET Micro Framework
  with a C++ layer below it that drives timers, radios, serial ports and two medium access protocols.
  This development models that layer, the part of the code that is the project's own logic, and the
  path by which the debugger on a computer talks to the runtime of a mote. Paths are relative to
  \<^verbatim>\<open>src/DeviceCode\<close>, those that start with \<^verbatim>\<open>Support\<close> or \<^verbatim>\<open>CLR\<close> to \<^verbatim>\<open>src\<close>.

  \<^bold>\<open>The parts and how they interact.\<close> Interrupts put \<^emph>\<open>continuations\<close> and \<^emph>\<open>completions\<close> (delayed
  calls) on intrusive linked lists; the main loop runs them. \<^emph>\<open>Virtual timers\<close> multiplex a
  hardware alarm and run their callbacks as continuations. A \<^emph>\<open>MAC\<close> gets frames from the
  application, keeps them in a queue of preallocated messages (CSMA: the circular buffer;
  OMAC: the packet buffer of the neighbor table) and gives them to the radio; its receive
  handler takes frames from the radio by exchanging message pointers, keeps the neighbor
  table up to date and calls the application. OMAC divides time into slots, predicts the
  wake-up slots of its neighbors with a shared pseudo random generator and converts between
  the clocks with a table of time samples. The \<^emph>\<open>debugger\<close> sends requests over a serial line: the
  \<^emph>\<open>serial port driver\<close> moves bytes between two queues and the hardware, the \<^emph>\<open>debugger port\<close> reads and
  writes blocks of them, the \<^emph>\<open>wire protocol\<close> finds packets with intact checksums in the stream, and the
  \<^emph>\<open>messaging\<close> of the runtime hands them to handlers, replies and keeps copies of both.

  \<^bold>\<open>Theories\<close> (each opens with the list of its sources).

  \<^item> \<open>Prelude\<close>: integer types of their C widths, status codes, the lemma collection
    \<open>inv_intros\<close> of the preservation lemmas, facts on words, lists and options.
  \<^item> \<open>Fifo_Interface\<close>: the locale \<open>bounded_fifo\<close>, the contract of a message queue, with
    its consequences for runs of commands. Interpreted by both queues below.
  \<^item> \<open>Message_Model\<close> (\<^verbatim>\<open>include/Samraksh/Message.h\<close>): the message as records.
  \<^item> \<open>Circular_Buffer\<close> (\<^verbatim>\<open>include/Samraksh/Buffers/CircularBuffer.h\<close>): the ring of message
    pointers with its 8-bit counters. \<open>circ_inv\<close> is its invariant; every operation preserves
    it, and \<open>Store\<close>, \<open>GetOldest\<close>, \<open>DropOldest\<close>, \<open>Erase\<close>, \<open>DropElementAtPosition\<close> are lists
    operations on \<open>circ_contents\<close>.
  \<^item> \<open>Hal_Queue\<close> (\<^verbatim>\<open>include/tinyhal.h\<close>): the two HAL queue templates; refinement of the
    bounded list, equivalence of the two, block transfers.
  \<^item> \<open>Packet_Store\<close>, \<open>Array_Buffer\<close> (\<^verbatim>\<open>include/Samraksh/Buffers/ArrayBuffer.h\<close>): the packet buffer
    as a partial map from slots to owned packets. The locale \<open>packet_store\<close> holds the purge
    loops that the neighbor table runs on it.
  \<^item> \<open>Neighbor_Table\<close> (\<^verbatim>\<open>include/Samraksh/Neighbors.h\<close>,
    \<^verbatim>\<open>pal/Samraksh/Wireless/MAC/Neighbors.cpp\<close>): all operations of the table and of its two
    buffers. A while loop that need not end is a partial function: \<open>None\<close> is a call that does
    not return.
  \<^item> \<open>Dbl_Linked_List\<close> (\<^verbatim>\<open>include/tinyhal.h\<close>): intrusive lists over a pointer map, refined to
    HOL lists.
  \<^item> \<open>Async_Calls\<close> (\<^verbatim>\<open>pal/AsyncProcCall\<close>): continuations and completions on these lists, the
    compare register of the timer, the wait for interrupts. A run of the queue is a list of \<open>cont_op\<close>.
  \<^item> \<open>Virtual_Timer\<close> (\<^verbatim>\<open>pal/Samraksh/VirtualTimer\<close>): timer tables, alarm selection, the interrupt.
  \<^item> \<open>Time_Driver\<close> (\<^verbatim>\<open>pal/Samraksh/eMote_Time\<close>): the clock of the runtime and the events timer
    that runs the completions.
  \<^item> \<open>Csma_Mac\<close> (\<^verbatim>\<open>pal/Samraksh/Wireless/MAC/CSMAMAC\<close>): every handler of the CSMA MAC over the
    circular buffer and the neighbor table; radio and application are parameters, calls of
    the timers are a trace. A run is a list of events; \<open>csma_inv\<close> holds after every run.
  \<^item> \<open>Mac_Functions\<close> (\<^verbatim>\<open>pal/Samraksh/Wireless/MAC/Mac_Functions.cpp\<close>): the MAC chosen at run time, and the
    buffers through which the application gets packets and neighbors.
  \<^item> \<open>Omac_Schedule\<close> (\<^verbatim>\<open>include/Samraksh/MAC/OMAC\<close>, \<^verbatim>\<open>pal/Samraksh/Wireless/MAC/OMAC\<close>): clock
    conversions, the random generator, wake-up slots, discovery slots.
  \<^item> \<open>Global_Time\<close> (\<^verbatim>\<open>include/Samraksh/GlobalTime.h\<close>): the time samples of the neighbors.
  \<^item> \<open>Mac_Base\<close> (\<^verbatim>\<open>include/Samraksh/MAC.h\<close>): the members both MACs inherit, an extensible record.
  \<^item> \<open>Omac_State\<close>: the OMAC object with its scheduler, handlers and radio control as one
    record \<open>omac\<close>; a call that leaves the layer (radio, timers, clock, application) is an entry of its
    \<open>history\<close>, and the answer is a function of the history, in the record \<open>omac_env\<close>.
  \<^item> \<open>Omac_Send\<close>, \<open>Omac_Radio\<close>, \<open>Omac_Transmit\<close>, \<open>Omac_Sync\<close>, \<open>Omac_Scheduler\<close>, \<open>Omac_Handlers\<close>,
    \<open>Omac_Discovery\<close>, \<open>Omac_Mac\<close> (\<^verbatim>\<open>pal/Samraksh/Wireless/MAC/OMAC\<close>): the OMAC itself, in the order of
    its calls: admission of packets; frames and what is piggybacked on them; transmission; time
    samples; the choice of the next event; the four handlers; the entry points of radio, timers
    and application. The locale \<open>event_handler\<close> is what the scheduler expects of a handler,
    interpreted by all four; the locale \<open>piggyback_relation\<close> holds what piggybacking keeps.
  \<^item> \<open>Radio_Base\<close> (\<^verbatim>\<open>include/Samraksh/Radio.h\<close>): what every radio driver holds.
  \<^item> \<open>Si446x_Chip\<close> (\<^verbatim>\<open>Targets/Native/radio/SI4468/si446x.cpp\<close>): the commands of the SI446x radio chip,
    byte by byte; \<open>protocol_chip\<close> is a chip that follows its protocol, and the byte-level
    code implements commands on it.
  \<^item> \<open>Si4468_Driver\<close> (\<^verbatim>\<open>Targets/Native/radio/SI4468/si4468_driver.cpp\<close>): the radio driver above it, and
    \<open>Si4468_Locks\<close>: its steps (\<open>drv_step\<close>; with resets \<open>drv_run\<close>), the lock discipline by rule induction, and the way of a
    message from one node to another.
  \<^item> \<open>Crc\<close> (\<^verbatim>\<open>Support/crc/CRC.cpp\<close>): the checksum by table, proved equal to polynomial division.
  \<^item> \<open>Wire_Protocol\<close>, \<open>Wire_Receiver\<close> (\<^verbatim>\<open>Support/WireProtocol/WireProtocol.cpp\<close>,
    \<^verbatim>\<open>Support/Include/WireProtocol.h\<close>): messages, the controller and its receiver, a state machine whose turns
    are the relation \<open>turns\<close>. The physical layer and the application are the structures of functions
    that the code gets by pointer. The locale \<open>wire_layers\<close> is what the receiver needs of the layers
    around it, \<open>device_invariant\<close> what keeps an invariant of the device below it; \<open>Clr_Messaging\<close> interprets both.
  \<^item> \<open>Usart\<close> (\<^verbatim>\<open>pal/COM/usart/usart.cpp\<close>): the driver of the serial ports over two HAL queues, with
    software and hardware flow control. \<open>Serial_Stream\<close> holds the view of its clients: a port without
    flow control is a stream of bytes in each direction (\<open>serial_ok\<close>, \<open>rx_contents\<close>, \<open>port_stream\<close>).
  \<^item> \<open>Debugger_Port\<close> (\<^verbatim>\<open>pal/COM/ComDirector.cpp\<close>): blocks of bytes on one of the transports.
  \<^item> \<open>Clr_Messaging\<close> (\<^verbatim>\<open>CLR/Messaging/Messaging.cpp\<close>, \<^verbatim>\<open>CLR/Core/RPC/CLR_RT_HeapBlock_EndPoint.cpp\<close>): the
    layers below and above the wire protocol: dispatch, caches of requests and replies, endpoints.
  \<^item> \<open>Heap_Block\<close>, \<open>Heap_Persistence\<close>, \<open>Heap_Cluster\<close>, \<open>Heap_Recovery\<close>, \<open>Heap_Allocation\<close>, \<open>Heap_Sweep\<close>
    (\<^verbatim>\<open>CLR/Core/CLR_RT_HeapCluster.cpp\<close>, \<^verbatim>\<open>CLR/Core/Execution.cpp\<close>, \<^verbatim>\<open>CLR/Core/GarbageCollector.cpp\<close>,
    \<^verbatim>\<open>CLR/Core/HeapPersistence/Heap_Persistence.cpp\<close>, \<^verbatim>\<open>CLR/Include/TinyCLR_Runtime__HeapBlock.h\<close>): the managed
    heap of the runtime, from the scan of its memory at a boot for objects that survive. Memory is a function
    from addresses to blocks; \<open>cluster_ok\<close> says that blocks fill the payload of a cluster and that its
    free list, a chain of the theory \<open>Dbl_Linked_List\<close>, has dead blocks in order of which no two are neighbours;
    \<open>heap_ok\<close> is that for all clusters of the heap.

  \<^bold>\<open>How state and effects are represented.\<close> A C++ class is a record with the members' names,
  an unsigned integer a word of its width (so that additions wrap), an array a list of its
  fixed length, a pointer an index, an address of a map, or \<open>None\<close> when it may be null. An
  operation takes the state and returns it updated. What is not under \<^verbatim>\<open>src\<close>, and the radio and
  the application, are arguments. A call into undefined behaviour (an index outside an array, a
  null dereference, a division by zero) or a loop that does not end is \<open>None\<close>.

  \<^bold>\<open>What the lemmas show.\<close> For each container: an invariant that every operation preserves and
  a refinement of a list or a map. For the tables: look-ups, insertions and the reserve of
  slots that admission keeps. For the timers: the alarm is programmed to the earliest running
  timer and keeps being so. For CSMA: frames go to the radio in the order they were accepted,
  and the message buffers of radio and MAC never coincide. For OMAC: sender and receiver agree on
  the wake-up slots; any two nodes share a discovery slot within a bounded time; a beacon that is
  heard lets the receiver compute the sender's next wake-up slot; the radio gets one frame at a
  time; after every event a timer runs that ends it. For the radio driver: whatever the chip
  answers, the locks of bus and radio are freed, except by a reset, which keeps the bus for ever; a busy radio is left
  alone, and what one node's driver sends another one's receives. For the debugger's path: bytes keep their order in both
  directions; no packet with a wrong checksum reaches a handler, and a checksum finds every burst of
  at most 32 bits; the receiver ends each turn in an orderly state, whatever bytes come in; a message sent on
  one side is the message that the other side hands to its handler; a repeated request is
  answered from the copy, and the purge bounds the copies that are kept. For the managed heap: the clusters
  divide its memory and keep the objects that survive a boot, an allocation gives a block that overlaps no block in use, and recovery frees the dead blocks and no
  others. Where
  modelling showed that code and intention differ, the property states what the code does.

  \<^bold>\<open>Bounds.\<close> There is no fuel. The partial functions are the loops of \<open>Flush\<close>, of the purges, of the
  seed update, of OMAC's retries and of the waits for the radio chip, which end only if a timer starts, a
  packet is deleted, a schedule moves on or the chip changes its state; the receiver loop \<open>Process\<close> of the wire
  protocol, which ends when the input does (\<open>Process_returns\<close>, \<open>ProcessCommands_returns\<close>); and the wait of
  \<open>USART_Flush\<close> for the transmitter, which ends if the hardware takes what it is given
  (\<open>USART_Flush_returns\<close>); and the walks over the blocks of a cluster, which end as no block is empty. Capacities
  are those of the C types: the circular buffer at most 255 messages, the packet buffers 18 slots, 10 neighbors.

  \<^bold>\<open>Not modelled.\<close> The rest of the .NET runtime under \<^verbatim>\<open>src/CLR\<close> (interpreter, type system, compaction
  of the heap) is inherited code; of the debugger's path, the handlers of its commands, the heap and the
  clock are parameters, the transports other than the serial line are histories of calls, and
  encryption and big endian processors are left out. The board support packages under \<^verbatim>\<open>Targets\<close> are
  vendored code or register input and output; of the radio drivers the one for the SI4468 is modelled,
  without the set-up of pins and bus, and not the older one for the RF231. The AVL tree is not used by
  the build, and the data store is incomplete in the repository.
\<close>

end
